(* ===== verification/Prelude.thy ===== *)
theory Prelude
  imports Main "HOL-Library.Word"
begin

text \<open>
  Shared vocabulary of the development: the fixed-width integer types of
  \<^verbatim>\<open>internal_defs.h\<close>, the result type of operations that may report an error and die, and
  the generic lemmas on words, lists and folds that the component theories use.

  \<^item> \<open>uptr\<close> and \<open>u64\<close> are 64-bit words (the allocator is modelled for
    \<^verbatim>\<open>SCUDO_WORDSIZE == 64U\<close>), \<open>u32\<close>, \<open>u16\<close> and \<open>u8\<close> the narrower ones;
    \<open>+\<close>, \<open>-\<close> and \<open>*\<close> wrap around as in C++. \<open>sptr\<close> and \<open>s32\<close> are
    the same bit patterns read with \<open>sint\<close>.
  \<^item> \<open>word_arith\<close> collects the equations that move a word term to \<open>nat\<close>.
\<close>

unbundle bit_operations_syntax

type_synonym u8 = "8 word"
type_synonym u16 = "16 word"
type_synonym u32 = "32 word"
type_synonym u64 = "64 word"
type_synonym uptr = "64 word"
type_synonym sptr = "64 word"
type_synonym s32 = "32 word"

named_theorems word_arith \<open>equations that read a word operation as one on natural numbers\<close>
named_theorems scudo_defs \<open>small definitions of the model that proofs unfold\<close>

section \<open>Results that may be an error\<close>

definition bindE :: "'e + 'a \<Rightarrow> ('a \<Rightarrow> 'e + 'b) \<Rightarrow> 'e + 'b" where
  "bindE m f = (case m of Inl e \<Rightarrow> Inl e | Inr x \<Rightarrow> f x)"

lemma bindE_simps [simp]:
  "bindE (Inl e) f = Inl e"
  "bindE (Inr x) f = f x"
  by (simp_all add: bindE_def)

lemma bindE_eq_Inr: "bindE m f = Inr y \<longleftrightarrow> (\<exists>x. m = Inr x \<and> f x = Inr y)"
  by (cases m) auto

section \<open>Words and natural numbers\<close>

lemma unat_less_64 [simp]: "unat (w :: 64 word) < 18446744073709551616"
  using unsigned_less [of w, where ?'a = nat] by simp

lemma unat_less_32 [simp]: "unat (w :: 32 word) < 4294967296"
  using unsigned_less [of w, where ?'a = nat] by simp

lemma unat_less_16 [simp]: "unat (w :: 16 word) < 65536"
  using unsigned_less [of w, where ?'a = nat] by simp

lemma unat_less_8 [simp]: "unat (w :: 8 word) < 256"
  using unsigned_less [of w, where ?'a = nat] by simp

lemma unat_add_small:
  "unat x + unat y < 2 ^ LENGTH('a) \<Longrightarrow> unat (x + y) = unat x + unat y"
  for x y :: "'a::len word"
  by (simp add: unat_add_lem)

lemma unat_mult_small:
  "unat x * unat y < 2 ^ LENGTH('a) \<Longrightarrow> unat (x * y) = unat x * unat y"
  for x y :: "'a::len word"
  by (simp add: unat_mult_lem)

lemma unat_push_bit_small:
  "unat x * 2 ^ n < 2 ^ LENGTH('a) \<Longrightarrow> unat (push_bit n x) = unat x * 2 ^ n"
  for x :: "'a::len word"
  by (simp only: unsigned_push_bit_eq push_bit_eq_mult [of n "unat x"] take_bit_nat_eq_self)

lemma unat_of_nat_small: "n < 2 ^ LENGTH('a) \<Longrightarrow> unat (of_nat n :: 'a::len word) = n"
  by (simp only: unat_of_nat mod_less)

lemma unat_ucast_eq: "unat (ucast x :: 'b::len word) = unat x mod 2 ^ LENGTH('b)"
  for x :: "'a::len word"
  by (simp only: unsigned_ucast_eq take_bit_eq_mod)

lemma unat_ucast_up:
  fixes x :: "'a::len word"
  assumes "LENGTH('a) \<le> LENGTH('b)"
  shows "unat (ucast x :: 'b::len word) = unat x"
proof -
  have "unat x < 2 ^ LENGTH('a)" by (rule unsigned_less)
  also have "(2::nat) ^ LENGTH('a) \<le> 2 ^ LENGTH('b)" using assms by (intro power_increasing) simp_all
  finally show ?thesis by (simp only: unat_ucast_eq mod_less)
qed

lemma unat_drop_bit [word_arith]: "unat (drop_bit n x) = unat x div 2 ^ n"
  for x :: "'a::len word"
  by (simp only: unat_drop_bit_eq drop_bit_eq_div [of n "unat x"])

lemma unat_take_bit [word_arith]: "unat (take_bit n x) = unat x mod 2 ^ n"
  for x :: "'a::len word"
  by (simp only: unsigned_take_bit_eq take_bit_eq_mod [of n "unat x"])

lemma unat_mask_and [word_arith]: "unat (x AND mask n) = unat x mod 2 ^ n"
  for x :: "'a::len word"
  by (simp only: take_bit_eq_mask [symmetric] unat_take_bit)

lemma unat_power_of_2 [word_arith]:
  "n < LENGTH('a) \<Longrightarrow> unat (2 ^ n :: 'a::len word) = 2 ^ n"
  using unat_push_bit_small [of "1 :: 'a word" n] by (simp add: push_bit_of_1)

lemma and_not_mask_eq: "x AND NOT (mask n) = push_bit n (drop_bit n x)"
  for x :: "'a::len word"
  by (rule bit_eqI) (auto simp: bit_simps)

lemma and_not_mask_minus: "x AND NOT (mask n) = x - (x AND mask n)"
  for x :: "'a::len word"
proof -
  have "push_bit n (drop_bit n x) + take_bit n x = x"
    by (rule bits_ident)
  then show ?thesis
    by (simp add: and_not_mask_eq eq_diff_eq flip: take_bit_eq_mask)
qed

lemma unat_and_not_mask [word_arith]: "unat (x AND NOT (mask n)) = unat x - unat x mod 2 ^ n"
  for x :: "'a::len word"
proof -
  have "x AND mask n \<le> x"
    by (simp add: word_le_nat_alt unat_mask_and)
  then show ?thesis
    by (simp add: and_not_mask_minus unat_sub unat_mask_and)
qed

lemma power_minus_1_mask: "(2 ^ n :: 'a::len word) - 1 = mask n"
  by (simp add: mask_eq_exp_minus_1)

lemma unat_mask [word_arith]: "n < LENGTH('a) \<Longrightarrow> unat (mask n :: 'a::len word) = 2 ^ n - 1"
proof -
  assume n: "n < LENGTH('a)"
  then have "(2 ^ n :: 'a word) \<noteq> 0"
    by (metis unat_power_of_2 power_not_zero unat_0 zero_neq_numeral)
  then show ?thesis
    using n by (simp add: power_minus_1_mask [symmetric] unat_minus_one unat_power_of_2)
qed

lemma minus_mod_eq_div_mult: "(m :: nat) - m mod n = (m div n) * n"
  by (metis minus_mod_eq_div_mult)

lemma div_mult_bounds: "0 < n \<Longrightarrow> (m div n) * n \<le> m \<and> m < (m div n) * n + n" for m n :: nat
proof -
  assume "0 < n"
  then have "m mod n < n" by simp
  moreover have "m = (m div n) * n + m mod n" by simp
  ultimately show ?thesis by linarith
qed

section \<open>Lists\<close>

definition list_swap :: "'a list \<Rightarrow> nat \<Rightarrow> nat \<Rightarrow> 'a list" where
  "list_swap A i j = A[i := A ! j, j := A ! i]"

lemma length_list_swap [simp]: "length (list_swap A i j) = length A"
  by (simp add: list_swap_def)

end
