(* ===== verification/Common.thy ===== *)
theory Common
  imports Prelude "HOL-Library.Multiset"
begin

text \<open>
  The arithmetic helpers of \<^verbatim>\<open>common.h\<close>: powers of two, rounding and alignment (the mask
  versions and the division versions), bit indices, the xorshift generator with the
  Fisher-Yates shuffle built on it, and \<^verbatim>\<open>computePercentage\<close>. The lemmas read each
  routine as arithmetic on natural numbers, show when the mask versions agree with the
  division versions and where they wrap around, and that shuffling permutes the array.
  \<^verbatim>\<open>DCHECK\<close>s are compiled out (\<^verbatim>\<open>SCUDO_DEBUG\<close> is 0): they are hypotheses of the
  lemmas, never branches of the model.
\<close>

unbundle bit_operations_syntax

section \<open>Powers of two and rounding\<close>

definition isPowerOfTwo :: "uptr \<Rightarrow> bool" where
  "isPowerOfTwo X = (if X = 0 then False else X AND (X - 1) = 0)"

definition roundUp :: "uptr \<Rightarrow> uptr \<Rightarrow> uptr" where
  "roundUp X Boundary = (X + Boundary - 1) AND NOT (Boundary - 1)"

definition roundUpSlow :: "uptr \<Rightarrow> uptr \<Rightarrow> uptr" where
  "roundUpSlow X Boundary = ((X + Boundary - 1) div Boundary) * Boundary"

definition roundDown :: "uptr \<Rightarrow> uptr \<Rightarrow> uptr" where
  "roundDown X Boundary = X AND NOT (Boundary - 1)"

definition roundDownSlow :: "uptr \<Rightarrow> uptr \<Rightarrow> uptr" where
  "roundDownSlow X Boundary = (X div Boundary) * Boundary"

definition isAligned :: "uptr \<Rightarrow> uptr \<Rightarrow> bool" where
  "isAligned X Alignment = (X AND (Alignment - 1) = 0)"

definition isAlignedSlow :: "uptr \<Rightarrow> uptr \<Rightarrow> bool" where
  "isAlignedSlow X Alignment = (X mod Alignment = 0)"

definition MinU :: "'a::linorder \<Rightarrow> 'a \<Rightarrow> 'a" where
  "MinU A B = (if A < B then A else B)"

definition MaxU :: "'a::linorder \<Rightarrow> 'a \<Rightarrow> 'a" where
  "MaxU A B = (if A > B then A else B)"

lemma MinU_min [simp]: "MinU A B = min A B"
  unfolding MinU_def min_def by (auto simp: order.order_iff_strict)

lemma MaxU_max [simp]: "MaxU A B = max A B"
  unfolding MaxU_def max_def by (auto simp: order.order_iff_strict)

text \<open>
  The compiler builtins \<^verbatim>\<open>__builtin_clzl\<close> and \<^verbatim>\<open>__builtin_ctzl\<close> on a nonzero
  64-bit value: the number of zero bits above the highest and below the lowest set bit.
\<close>

fun msb_nat :: "nat \<Rightarrow> nat" where
  "msb_nat n = (if n < 2 then 0 else Suc (msb_nat (n div 2)))"

fun lsb_nat :: "nat \<Rightarrow> nat" where
  "lsb_nat n = (if n = 0 \<or> odd n then 0 else Suc (lsb_nat (n div 2)))"

declare msb_nat.simps [simp del] lsb_nat.simps [simp del]

definition builtin_clzl :: "uptr \<Rightarrow> uptr" where
  "builtin_clzl X = 63 - of_nat (msb_nat (unat X))"

definition builtin_ctzl :: "uptr \<Rightarrow> uptr" where
  "builtin_ctzl X = of_nat (lsb_nat (unat X))"

definition getMostSignificantSetBitIndex :: "uptr \<Rightarrow> uptr" where
  "getMostSignificantSetBitIndex X = 64 - 1 - builtin_clzl X"

definition roundUpPowerOfTwo :: "uptr \<Rightarrow> uptr" where
  "roundUpPowerOfTwo Size =
     (if isPowerOfTwo Size then Size
      else let Up = getMostSignificantSetBitIndex Size in push_bit (unat (Up + 1)) 1)"

definition getLeastSignificantSetBitIndex :: "uptr \<Rightarrow> uptr" where
  "getLeastSignificantSetBitIndex X = builtin_ctzl X"

definition getLog2 :: "uptr \<Rightarrow> uptr" where
  "getLog2 X = getLeastSignificantSetBitIndex X"

section \<open>Random numbers\<close>

definition getRandomU32 :: "u32 \<Rightarrow> u32 \<times> u32" where
  "getRandomU32 State =
     (let State = State XOR push_bit 13 State;
          State = State XOR drop_bit 17 State;
          State = State XOR push_bit 5 State
      in (State, State))"

definition getRandomModN :: "u32 \<Rightarrow> u32 \<Rightarrow> u32 \<times> u32" where
  "getRandomModN State N = (let (r, State') = getRandomU32 State in (r mod N, State'))"

text \<open>
  \<^verbatim>\<open>for (I = N - 1; I > 0; I--) Swap(A[I], A[getRandomModN(&State, I + 1)])\<close>: the
  recursion counts the loop variable \<open>I\<close> down; \<open>N\<close> is the length of the list.
\<close>

fun shuffle_loop :: "nat \<Rightarrow> 'a list \<Rightarrow> u32 \<Rightarrow> 'a list \<times> u32" where
  "shuffle_loop 0 A State = (A, State)"
| "shuffle_loop (Suc I) A State =
     (let (J, State') = getRandomModN State (of_nat (Suc I) + 1)
      in shuffle_loop I (list_swap A (Suc I) (unat J)) State')"

definition shuffle :: "'a list \<Rightarrow> u32 \<Rightarrow> 'a list \<times> u32" where
  "shuffle A RandState =
     (if length A \<le> 1 then (A, RandState) else shuffle_loop (length A - 1) A RandState)"

section \<open>Percentages\<close>

definition computePercentage :: "uptr \<Rightarrow> uptr \<Rightarrow> uptr \<times> uptr" where
  "computePercentage Numerator Denominator =
     (let Digits = 100 in
      if Denominator = 0 then (100, 0)
      else (Numerator * Digits div Denominator,
            (((Numerator * Digits) mod Denominator) * Digits + Denominator div 2)
              div Denominator))"

section \<open>Facts about powers of two and rounding\<close>

lemma isPowerOfTwo_power [simp]: "k < 64 \<Longrightarrow> isPowerOfTwo (2 ^ k)"
proof -
  assume k: "k < 64"
  then have "unat (2 ^ k :: uptr) = 2 ^ k" by (simp add: unat_power_of_2)
  then have "(2 ^ k :: uptr) \<noteq> 0" by (metis power_not_zero unat_0 zero_neq_numeral)
  moreover have "(2 ^ k :: uptr) AND mask k = 0"
    by (rule bit_eqI) (auto simp: bit_simps)
  ultimately show ?thesis by (simp add: isPowerOfTwo_def power_minus_1_mask)
qed

lemma msb_nat_bounds: "0 < n \<Longrightarrow> 2 ^ msb_nat n \<le> n \<and> n < 2 ^ Suc (msb_nat n)"
proof (induction n rule: msb_nat.induct)
  case (1 n)
  show ?case
  proof (cases "n < 2")
    case True
    with "1.prems" show ?thesis by (simp add: msb_nat.simps)
  next
    case False
    then have IH: "2 ^ msb_nat (n div 2) \<le> n div 2 \<and> n div 2 < 2 ^ Suc (msb_nat (n div 2))"
      using "1.IH" by simp
    have "msb_nat n = Suc (msb_nat (n div 2))"
      using False by (simp add: msb_nat.simps [of n])
    then show ?thesis using IH by auto
  qed
qed

lemma msb_nat_unique: "2 ^ k \<le> n \<Longrightarrow> n < 2 ^ Suc k \<Longrightarrow> msb_nat n = k"
proof -
  assume a: "2 ^ k \<le> n" and b: "n < 2 ^ Suc k"
  have "0 < n" using a less_le_trans by fastforce
  then have c: "2 ^ msb_nat n \<le> n" "n < 2 ^ Suc (msb_nat n)" using msb_nat_bounds by auto
  have "k < Suc (msb_nat n)"
    using a c(2) power_less_imp_less_exp [of "2 :: nat"] by (meson le_less_trans one_less_numeral_iff semiring_norm(76))
  moreover have "msb_nat n < Suc k"
    using b c(1) power_less_imp_less_exp [of "2 :: nat"] by (meson le_less_trans one_less_numeral_iff semiring_norm(76))
  ultimately show ?thesis by simp
qed

lemma msb_nat_less_64: "msb_nat (unat (X :: uptr)) < 64"
proof (cases "X = 0")
  case True
  then show ?thesis by (simp add: msb_nat.simps)
next
  case False
  then have "2 ^ msb_nat (unat X) \<le> unat X"
    using msb_nat_bounds unat_gt_0 by blast
  also have "unat X < 2 ^ 64" using unsigned_less [of X, where ?'a = nat] by simp
  finally have "(2::nat) ^ msb_nat (unat X) < 2 ^ 64" .
  then show ?thesis
    by (rule power_less_imp_less_exp [rotated]) simp
qed

lemma unat_getMostSignificantSetBitIndex [word_arith]:
  "unat (getMostSignificantSetBitIndex X) = msb_nat (unat X)"
proof -
  have "getMostSignificantSetBitIndex X = of_nat (msb_nat (unat X))"
    by (simp add: getMostSignificantSetBitIndex_def builtin_clzl_def)
  then show ?thesis using msb_nat_less_64 [of X] by (simp add: unat_of_nat)
qed

lemma bit_msb: "X \<noteq> 0 \<Longrightarrow> bit X (msb_nat (unat X))" for X :: uptr
proof -
  assume "X \<noteq> 0"
  then have b: "2 ^ msb_nat (unat X) \<le> unat X" "unat X < 2 ^ Suc (msb_nat (unat X))"
    using msb_nat_bounds unat_gt_0 by blast+
  then have "unat X div 2 ^ msb_nat (unat X) = 1"
    by (intro div_nat_eqI) auto
  then have "bit (unat X) (msb_nat (unat X))" by (simp add: bit_iff_odd)
  then show ?thesis by (simp add: bit_unsigned_iff)
qed

lemma isPowerOfTwo_iff: "isPowerOfTwo X \<longleftrightarrow> (\<exists>k < 64. X = 2 ^ k)"
proof
  assume a: "isPowerOfTwo X"
  then have nz: "X \<noteq> 0" and and0: "X AND (X - 1) = 0" by (auto simp: isPowerOfTwo_def split: if_splits)
  define k where "k = msb_nat (unat X)"
  have k: "k < 64" by (simp add: k_def msb_nat_less_64)
  have b: "2 ^ k \<le> unat X" "unat X < 2 ^ Suc k"
    using nz msb_nat_bounds [of "unat X"] unat_gt_0 [of X] by (simp_all add: k_def)
  have "unat X = 2 ^ k"
  proof (rule ccontr)
    assume "unat X \<noteq> 2 ^ k"
    with b have c: "2 ^ k \<le> unat (X - 1)" "unat (X - 1) < 2 ^ Suc k"
      using nz by (simp_all add: unat_minus_one)
    then have "msb_nat (unat (X - 1)) = k" by (rule msb_nat_unique)
    moreover have "X - 1 \<noteq> 0" using c(1) by (metis not_one_le_zero one_le_numeral one_le_power unat_0 order_trans)
    ultimately have "bit (X - 1) k" using bit_msb by blast
    moreover have "bit X k" using bit_msb nz k_def by blast
    ultimately have "bit (X AND (X - 1)) k" by (simp add: bit_and_iff)
    then show False using and0 by simp
  qed
  then have "X = 2 ^ k" using k by (simp add: word_unat_eq_iff unat_power_of_2)
  then show "\<exists>k < 64. X = 2 ^ k" using k by blast
qed auto

lemma isPowerOfTwoE:
  assumes "isPowerOfTwo B"
  obtains k where "k < 64" and "B = 2 ^ k" and "B - 1 = mask k" and "unat B = 2 ^ k"
  using assms that by (auto simp: isPowerOfTwo_iff power_minus_1_mask unat_power_of_2)

lemma mult_div_word_eq_push_drop: "k < 64 \<Longrightarrow> (x div 2 ^ k) * 2 ^ k = push_bit k (drop_bit k x)"
  for x :: uptr
  by (simp add: push_bit_eq_mult drop_bit_eq_div)

text \<open>For a power-of-two boundary the mask versions of the rounding helpers compute exactly
  what the division versions compute, on every 64-bit value, wrap-around included.\<close>

lemma rounding_mask_eq_division:
  assumes "isPowerOfTwo B"
  shows "roundUp X B = roundUpSlow X B \<and> roundDown X B = roundDownSlow X B
    \<and> isAligned X B = isAlignedSlow X B"
  using assms
proof (rule isPowerOfTwoE)
  fix k assume k: "k < 64" "B = 2 ^ k" "B - 1 = mask k"
  have "X mod 2 ^ k = X AND mask k"
    by (simp add: take_bit_eq_mod flip: take_bit_eq_mask)
  then show ?thesis using k
    by (simp add: roundUp_def roundUpSlow_def roundDown_def roundDownSlow_def isAligned_def
        isAlignedSlow_def and_not_mask_eq mult_div_word_eq_push_drop)
qed

lemma rounding_mask_eq_division_witness:
  "isPowerOfTwo 4096 \<and> roundUp 5000 4096 = roundUpSlow 5000 4096
    \<and> roundDown 5000 4096 = roundDownSlow 5000 4096 \<and> isAligned 8192 4096 = isAlignedSlow 8192 4096"
  using rounding_mask_eq_division [of 4096 5000] rounding_mask_eq_division [of 4096 8192]
  by (simp add: isPowerOfTwo_def)

lemma unat_roundDown:
  assumes "B = 2 ^ k" and "k < 64"
  shows "unat (roundDown X B) = (unat X div 2 ^ k) * 2 ^ k"
  using assms by (simp add: roundDown_def power_minus_1_mask unat_and_not_mask minus_mod_eq_div_mult)

lemma unat_roundUp:
  assumes "B = 2 ^ k" and "k < 64" and "unat X + 2 ^ k \<le> 2 ^ 64"
  shows "unat (roundUp X B) = ((unat X + 2 ^ k - 1) div 2 ^ k) * 2 ^ k"
proof -
  have "unat (X + B - 1) = unat X + 2 ^ k - 1"
  proof -
    have sum: "X + B - 1 = X + mask k"
      using assms(1) by (simp add: power_minus_1_mask [symmetric] algebra_simps)
    have m: "unat (mask k :: uptr) = 2 ^ k - 1"
      using assms(2) by (simp add: unat_mask)
    show ?thesis unfolding sum using assms(3) m by (subst unat_add_small) simp_all
  qed
  then show ?thesis
    using assms(1) by (simp add: roundUp_def power_minus_1_mask unat_and_not_mask minus_mod_eq_div_mult)
qed

text \<open>\<^verbatim>\<open>roundUp\<close> to a power of two returns the least multiple of the boundary that
  is at least its argument, whenever that multiple is below \<open>2 ^ 64\<close>.\<close>

lemma roundUp_least:
  assumes "isPowerOfTwo B" and "unat X + unat B \<le> 2 ^ 64"
  shows "unat B dvd unat (roundUp X B) \<and> X \<le> roundUp X B
    \<and> unat (roundUp X B) < unat X + unat B
    \<and> (\<forall>m. unat B dvd m \<longrightarrow> unat X \<le> m \<longrightarrow> unat (roundUp X B) \<le> m)"
  using assms(1)
proof (rule isPowerOfTwoE)
  fix k assume k: "k < 64" "B = 2 ^ k" "unat B = 2 ^ k"
  let ?n = "(2 :: nat) ^ k"
  define q where "q = (unat X + ?n - 1) div ?n"
  have r: "unat (roundUp X B) = q * ?n"
    using unat_roundUp k assms(2) by (simp add: q_def)
  have q: "q * ?n \<le> unat X + ?n - 1" "unat X + ?n - 1 < q * ?n + ?n"
    using div_mult_bounds [of ?n "unat X + ?n - 1"] by (simp_all add: q_def)
  have n: "0 < ?n" by simp
  have lo: "unat X \<le> q * ?n" and hi: "q * ?n < unat X + ?n" using q n by linarith+
  have least: "q * ?n \<le> m" if "?n dvd m" "unat X \<le> m" for m
  proof -
    obtain c where c: "m = c * ?n" using \<open>?n dvd m\<close> by (metis dvd_def mult.commute)
    have "q * ?n < (c + 1) * ?n" using hi that(2) c by (simp add: algebra_simps)
    then have "q \<le> c" using mult_less_cancel2 [of q ?n "c + 1"] by simp
    then show ?thesis using c by simp
  qed
  show ?thesis
    using r k(3) lo hi least by (simp add: word_le_nat_alt)
qed

lemma roundUp_least_example:
  "isPowerOfTwo 16 \<and> unat (roundUp 100 16) = 112 \<and> unat (16 :: uptr) dvd unat (roundUp 100 16)"
  using roundUp_least [of 16 100] by (simp add: isPowerOfTwo_def roundUp_def)

lemma roundUp_wraps_iff:
  assumes "isPowerOfTwo B"
  shows "roundUp X B < X \<longleftrightarrow> 2 ^ 64 < unat X + unat B \<and> \<not> unat B dvd unat X"
  using assms
proof (rule isPowerOfTwoE)
  fix k assume k: "k < 64" "B = 2 ^ k" "B - 1 = mask k" "unat B = 2 ^ k"
  let ?n = "(2 :: nat) ^ k"
  show ?thesis
  proof (cases "unat X + ?n \<le> 2 ^ 64")
    case True
    then show ?thesis using roundUp_least [OF assms, of X] k by (simp add: not_less)
  next
    case False
    have dv: "?n dvd 2 ^ 64" using k(1) by (intro le_imp_power_dvd) simp
    have nle: "?n \<le> 2 ^ 64" using dv by (rule dvd_imp_le) simp
    have sum: "X + B - 1 = X + mask k" using k(3) by (simp add: algebra_simps)
    have m: "unat (mask k :: uptr) = ?n - 1" using k(1) by (simp add: unat_mask)
    have "unat (X + mask k) = (unat X + (?n - 1)) mod 2 ^ 64" by (simp add: unat_word_ariths m)
    moreover have "unat X + (?n - 1) = 2 ^ 64 + (unat X + ?n - 1 - 2 ^ 64)"
      using False by simp
    moreover have "unat X + ?n - 1 - 2 ^ 64 < ?n"
    proof -
      have "0 < ?n" by simp
      moreover have "unat X < 2 ^ 64" by simp
      ultimately show ?thesis by linarith
    qed
    moreover have "unat X + ?n - 1 - 2 ^ 64 < 2 ^ 64" using calculation(3) nle by linarith
    ultimately have u: "unat (X + mask k) < ?n"
      by (metis mod_add_self1 mod_less)
    have "unat (roundUp X B) = 0"
      using u by (simp only: roundUp_def sum k(3) unat_and_not_mask mod_less diff_self_eq_0)
    moreover have "0 < unat X" using False nle by (cases "unat X") simp_all
    moreover have "\<not> ?n dvd unat X"
    proof
      assume d: "?n dvd unat X"
      have "0 < ?n" by simp
      then have "2 ^ 64 - unat X < ?n" using False by linarith
      moreover have "?n dvd 2 ^ 64 - unat X" using d dv by (rule dvd_diff_nat [rotated])
      ultimately have "2 ^ 64 - unat X = 0" using nat_dvd_not_less by blast
      then have "2 ^ 64 \<le> unat X" by (simp only: diff_is_0_eq)
      moreover have "unat X < 2 ^ 64" by simp
      ultimately show False by (meson leD)
    qed
    ultimately show ?thesis
      using False k(4) unsigned_less [of X, where ?'a = nat] by (auto simp: word_less_nat_alt)
  qed
qed

lemma unat_push_bit_1: "n < 64 \<Longrightarrow> unat (push_bit n 1 :: uptr) = 2 ^ n"
  by (simp add: unat_power_of_2)

text \<open>\<^verbatim>\<open>roundUpPowerOfTwo\<close> returns the least power of two that is at least its argument,
  for every nonzero argument up to \<open>2 ^ 63\<close>.\<close>

lemma roundUpPowerOfTwo_least:
  assumes "Size \<noteq> 0" and "unat Size \<le> 2 ^ 63"
  shows "isPowerOfTwo (roundUpPowerOfTwo Size) \<and> Size \<le> roundUpPowerOfTwo Size
    \<and> (\<forall>P. isPowerOfTwo P \<longrightarrow> Size \<le> P \<longrightarrow> roundUpPowerOfTwo Size \<le> P)"
proof (cases "isPowerOfTwo Size")
  case True
  then show ?thesis by (simp add: roundUpPowerOfTwo_def)
next
  case False
  define k where "k = msb_nat (unat Size)"
  have b: "2 ^ k \<le> unat Size" "unat Size < 2 ^ Suc k"
    using assms(1) msb_nat_bounds [of "unat Size"] by (simp_all add: k_def unat_gt_0)
  have k63: "k < 63"
  proof (rule ccontr)
    assume "\<not> k < 63"
    then have "k = 63" using msb_nat_less_64 [of Size] by (simp add: k_def)
    then have "unat Size = unat (2 ^ 63 :: uptr)"
      using b(1) assms(2) by (simp add: unat_power_of_2)
    then have "Size = 2 ^ 63" by (simp only: word_unat_eq_iff)
    then show False using False isPowerOfTwo_power [of 63] by simp
  qed
  have u1: "unat (getMostSignificantSetBitIndex Size + 1) = Suc k"
    using k63 by (subst unat_add_small) (simp_all add: unat_getMostSignificantSetBitIndex k_def)
  then have r: "roundUpPowerOfTwo Size = 2 ^ Suc k"
    using False by (simp only: roundUpPowerOfTwo_def if_False Let_def push_bit_of_1 u1)
  have ur: "unat (2 ^ Suc k :: uptr) = 2 ^ Suc k"
    using k63 by (intro unat_power_of_2) simp
  have least: "roundUpPowerOfTwo Size \<le> P" if P: "isPowerOfTwo P" "Size \<le> P" for P
  proof -
    obtain j where j: "P = 2 ^ j" "unat P = 2 ^ j" "j < 64"
      using P(1) by (auto simp: isPowerOfTwo_iff unat_power_of_2)
    have "Size \<noteq> P" using P(1) False by auto
    then have "Size < P" using P(2) by simp
    then have "unat Size < 2 ^ j" using j(2) by (simp only: word_less_nat_alt)
    then have "(2 :: nat) ^ k < 2 ^ j" using b(1) by linarith
    then have "k < j" by (rule power_less_imp_less_exp [rotated]) simp
    then have "(2 :: nat) ^ Suc k \<le> 2 ^ j" by (intro power_increasing) simp_all
    then show ?thesis using r ur j by (simp only: word_le_nat_alt)
  qed
  show ?thesis
    using r ur b(2) k63 least isPowerOfTwo_power [of "Suc k"]
    by (simp only: word_le_nat_alt) simp
qed

lemma roundUpPowerOfTwo_least_witness:
  "isPowerOfTwo (roundUpPowerOfTwo 100) \<and> (100 :: uptr) \<le> roundUpPowerOfTwo 100
    \<and> roundUpPowerOfTwo 100 \<le> 128"
proof -
  have "isPowerOfTwo 128" by (simp add: isPowerOfTwo_def)
  then show ?thesis using roundUpPowerOfTwo_least [of 100] by simp
qed

lemma roundUpPowerOfTwo_bounds:
  assumes "Size \<noteq> 0" and "unat Size < 2 ^ 62"
  shows "Size \<le> roundUpPowerOfTwo Size" and "unat (roundUpPowerOfTwo Size) \<le> 2 * unat Size"
proof -
  define k where "k = msb_nat (unat Size)"
  have b: "2 ^ k \<le> unat Size" "unat Size < 2 ^ Suc k"
    using assms(1) msb_nat_bounds [of "unat Size"] by (simp_all add: k_def unat_gt_0)
  have "(2::nat) ^ k < 2 ^ 62" using b(1) assms(2) by linarith
  then have k62: "k < 62" by (rule power_less_imp_less_exp [rotated]) simp
  have u1: "unat (getMostSignificantSetBitIndex Size + 1) = Suc k"
    using k62 by (subst unat_add_small) (simp_all add: unat_getMostSignificantSetBitIndex k_def)
  have ur: "unat (2 ^ Suc k :: uptr) = 2 ^ Suc k" using k62 by (intro unat_power_of_2) simp
  have "Size \<le> roundUpPowerOfTwo Size \<and> unat (roundUpPowerOfTwo Size) \<le> 2 * unat Size"
  proof (cases "isPowerOfTwo Size")
    case False
    then have r: "roundUpPowerOfTwo Size = 2 ^ Suc k"
      by (simp only: roundUpPowerOfTwo_def if_False Let_def push_bit_of_1 u1)
    show ?thesis unfolding r word_le_nat_alt ur using b by simp
  qed (simp add: roundUpPowerOfTwo_def)
  then show "Size \<le> roundUpPowerOfTwo Size" and "unat (roundUpPowerOfTwo Size) \<le> 2 * unat Size"
    by blast+
qed

lemma lsb_nat_power [simp]: "lsb_nat (2 ^ k) = k"
proof (induction k)
  case (Suc k)
  then show ?case by (simp add: lsb_nat.simps [of "2 * 2 ^ k"])
qed (simp add: lsb_nat.simps)

lemma unat_getLog2: "k < 64 \<Longrightarrow> unat (getLog2 (2 ^ k)) = k"
  by (simp add: getLog2_def getLeastSignificantSetBitIndex_def builtin_ctzl_def unat_power_of_2
      unat_of_nat)

section \<open>The xorshift generator and the shuffle\<close>

lemma xor_push_bit_inj:
  fixes x y :: "'a::len word"
  assumes "0 < n" and "x XOR push_bit n x = y XOR push_bit n y"
  shows "x = y"
proof (rule bit_word_eqI)
  fix m assume "m < LENGTH('a)"
  then show "bit x m = bit y m"
  proof (induction m rule: less_induct)
    case (less m)
    have "bit (x XOR push_bit n x) m = bit (y XOR push_bit n y) m"
      using assms(2) by simp
    then show ?case
      using less.IH [of "m - n"] less.prems assms(1) by (auto simp: bit_simps)
  qed
qed

lemma xor_drop_bit_inj:
  fixes x y :: "'a::len word"
  assumes "0 < n" and "x XOR drop_bit n x = y XOR drop_bit n y"
  shows "x = y"
proof (rule bit_word_eqI)
  fix m assume "m < LENGTH('a)"
  then show "bit x m = bit y m"
  proof (induction "LENGTH('a) - m" arbitrary: m rule: less_induct)
    case less
    have e: "bit (x XOR drop_bit n x) m = bit (y XOR drop_bit n y) m"
      using assms(2) by simp
    have "bit x (n + m) = bit y (n + m)"
    proof (cases "n + m < LENGTH('a)")
      case True
      then show ?thesis using less.hyps [of "n + m"] assms(1) less.prems by simp
    next
      case False
      then show ?thesis using bit_imp_le_length [of x] bit_imp_le_length [of y] by fastforce
    qed
    then show ?case using e by (auto simp: bit_simps)
  qed
qed

text \<open>One step of the generator is injective on 32-bit states, so it permutes them, and a
  nonzero state never becomes zero (zero is the generator's only fixed bad state).\<close>

lemma getRandomU32_permutes:
  "bij (\<lambda>s. snd (getRandomU32 s)) \<and> (snd (getRandomU32 s) = 0 \<longleftrightarrow> s = 0)
    \<and> fst (getRandomU32 s) = snd (getRandomU32 s)"
proof -
  have step: "(\<lambda>s. snd (getRandomU32 s))
      = (\<lambda>s. s XOR push_bit 5 s) \<circ> (\<lambda>s. s XOR drop_bit 17 s) \<circ> (\<lambda>s. s XOR push_bit 13 s)"
    by (simp only: getRandomU32_def Let_def snd_conv comp_def)
  have inj: "inj (\<lambda>s. snd (getRandomU32 s))"
    unfolding step by (intro inj_compose injI; erule xor_push_bit_inj [rotated] xor_drop_bit_inj [rotated]) simp_all
  then have "bij (\<lambda>s. snd (getRandomU32 s))"
    by (simp add: bij_def finite_UNIV_inj_surj)
  moreover have zero: "snd (getRandomU32 0) = 0" by (simp add: getRandomU32_def)
  moreover have "snd (getRandomU32 s) = 0 \<longleftrightarrow> s = 0"
    using injD [OF inj, of s 0] zero by metis
  moreover have "fst (getRandomU32 s) = snd (getRandomU32 s)"
    by (simp only: getRandomU32_def Let_def fst_conv snd_conv)
  ultimately show ?thesis by blast
qed

lemma unat_getRandomModN_less:
  "N \<noteq> 0 \<Longrightarrow> unat (fst (getRandomModN State N)) < unat N"
  by (simp add: getRandomModN_def split_beta unat_mod unat_gt_0)

lemma mset_list_swap: "i < length A \<Longrightarrow> j < length A \<Longrightarrow> mset (list_swap A i j) = mset A"
  unfolding list_swap_def by (rule mset_swap)

lemma shuffle_loop_mset:
  "I < length A \<Longrightarrow> length A < 2 ^ 32 \<Longrightarrow>
    mset (fst (shuffle_loop I A State)) = mset A \<and> length (fst (shuffle_loop I A State)) = length A"
proof (induction I arbitrary: A State)
  case (Suc I)
  obtain J State' where r: "getRandomModN State (of_nat (Suc I) + 1) = (J, State')"
    by (cases "getRandomModN State (of_nat (Suc I) + 1)")
  have N: "unat (of_nat (Suc I) + 1 :: u32) = Suc (Suc I)"
  proof -
    have "of_nat (Suc I) + 1 = (of_nat (Suc (Suc I)) :: u32)" by simp
    then show ?thesis using Suc.prems by (simp only: unat_of_nat) simp
  qed
  then have "of_nat (Suc I) + 1 \<noteq> (0 :: u32)" by (metis nat.simps(3) unat_0)
  then have "unat J < Suc (Suc I)"
    using unat_getRandomModN_less [of "of_nat (Suc I) + 1" State] r N by (simp only: fst_conv) simp
  then have "mset (list_swap A (Suc I) (unat J)) = mset A"
    using Suc.prems by (intro mset_list_swap) simp_all
  then show ?case
    using Suc.IH [of "list_swap A (Suc I) (unat J)" State'] Suc.prems
    by (simp only: shuffle_loop.simps r Let_def prod.case) simp
qed simp

lemma shuffle_mset:
  "length A < 2 ^ 32 \<Longrightarrow> mset (fst (shuffle A State)) = mset A \<and> length (fst (shuffle A State)) = length A"
  using shuffle_loop_mset [of "length A - 1" A State] by (simp add: shuffle_def)

text \<open>\<^verbatim>\<open>shuffle\<close> returns a permutation of the array it is given, whatever the seed (arrays
  shorter than \<open>2 ^ 32\<close>, the range of its counter), and all its swaps are in bounds.\<close>

theorem shuffle_permutes:
  assumes "length A < 2 ^ 32"
  shows "mset (fst (shuffle A State)) = mset A \<and> length (fst (shuffle A State)) = length A"
  using assms by (rule shuffle_mset)

theorem shuffle_permutes_witness:
  "length [1, 2, 3, 4 :: nat] < 2 ^ 32 \<and> mset (fst (shuffle [1, 2, 3, 4 :: nat] 12345)) = {#1, 2, 3, 4#}"
  using shuffle_permutes [of "[1, 2, 3, 4 :: nat]" 12345] by simp

section \<open>Percentages\<close>

text \<open>Below the overflow bound the two fields that \<^verbatim>\<open>computePercentage\<close> prints as
  \<^verbatim>\<open>%zu.%02zu\<close> are the percentage in hundredths, rounded to nearest, split into an integral
  part and a fractional part; the fractional part is at most 100, and it does reach 100, because
  rounding up never carries into the integral part (19999 of 20000 is printed as 99.100).\<close>

theorem computePercentage_rounds:
  assumes "unat Numerator * 10000 < 2 ^ 63" and "0 < unat Denominator" and "unat Denominator * 101 < 2 ^ 63"
  shows "100 * unat (fst (computePercentage Numerator Denominator))
        + unat (snd (computePercentage Numerator Denominator))
      = (unat Numerator * 10000 + unat Denominator div 2) div unat Denominator
    \<and> unat (snd (computePercentage Numerator Denominator)) \<le> 100
    \<and> computePercentage 19999 20000 = (99, 100)"
proof -
  let ?n = "unat Numerator" and ?d = "unat Denominator"
  have nz: "Denominator \<noteq> 0" using assms(2) by auto
  have a: "unat (Numerator * 100) = ?n * 100"
    using assms(1) by (subst unat_mult_small) simp_all
  have m: "unat (Numerator * 100 mod Denominator) = (?n * 100) mod ?d" by (simp add: unat_mod a)
  have ml: "(?n * 100) mod ?d < ?d" using assms(2) by simp
  have b: "unat (Numerator * 100 mod Denominator * 100) = ((?n * 100) mod ?d) * 100"
    using assms(3) ml by (subst unat_mult_small) (simp_all add: m)
  have c: "unat (Numerator * 100 mod Denominator * 100 + Denominator div 2)
      = ((?n * 100) mod ?d) * 100 + ?d div 2"
    using assms(3) ml by (subst unat_add_small) (simp_all add: b unat_div)
  have i: "unat (fst (computePercentage Numerator Denominator)) = (?n * 100) div ?d"
    using nz by (simp add: computePercentage_def unat_div a)
  have f: "unat (snd (computePercentage Numerator Denominator))
      = (((?n * 100) mod ?d) * 100 + ?d div 2) div ?d"
    using nz by (simp add: computePercentage_def unat_div c)
  have e: "?n * 10000 + ?d div 2
      = (((?n * 100) mod ?d) * 100 + ?d div 2) + ((?n * 100) div ?d * 100) * ?d"
  proof -
    define q r where "q = (?n * 100) div ?d" and "r = (?n * 100) mod ?d"
    have "?n * 100 = q * ?d + r" by (simp add: q_def r_def)
    then show ?thesis unfolding q_def [symmetric] r_def [symmetric] by (simp add: algebra_simps)
  qed
  have "(?n * 10000 + ?d div 2) div ?d
      = (?n * 100) div ?d * 100 + (((?n * 100) mod ?d) * 100 + ?d div 2) div ?d"
    unfolding e using assms(2) by (subst div_mult_self1) simp_all
  moreover have "(((?n * 100) mod ?d) * 100 + ?d div 2) div ?d \<le> 100"
  proof -
    have "((?n * 100) mod ?d) * 100 + ?d div 2 < 101 * ?d" using ml assms(2) by linarith
    then have "(((?n * 100) mod ?d) * 100 + ?d div 2) div ?d < 101"
      using assms(2) by (simp add: less_mult_imp_div_less)
    then show ?thesis by simp
  qed
  ultimately show ?thesis using i f by (simp add: computePercentage_def)
qed

theorem computePercentage_rounds_witness:
  "unat (1 :: uptr) * 10000 < 2 ^ 63 \<and> computePercentage 1 3 = (33, 33)
    \<and> unat (snd (computePercentage 1 3)) \<le> 100"
  using computePercentage_rounds [of 1 3] by (simp add: computePercentage_def)

end
