(* ===== verification/SizeClassMap.thy ===== *)
theory SizeClassMap
  imports Common
begin

text \<open>
  \<^verbatim>\<open>size_class_map.h\<close>: the table-free map between allocation sizes and size classes
  (\<^verbatim>\<open>FixedSizeClassMap\<close>) with the three configurations the source instantiates it with.
  The template parameters are a record; the logarithms and bit counts among them are
  compile-time constants, used as shift amounts, and are natural numbers here.

  The lemmas give the sizes and class ids as numbers without wrap-around, show that a class id
  is the unique class whose size covers the request and whose predecessor does not
  (\<open>classify\<close>), and that the self check \<^verbatim>\<open>validateMap\<close> therefore passes for every
  well-formed configuration.
\<close>

unbundle bit_operations_syntax

section \<open>The map\<close>

record size_class_config =
  NumBits :: nat
  MinSizeLog :: nat
  MidSizeLog :: nat
  MaxSizeLog :: nat
  MaxNumCachedHint :: u16
  MaxBytesCachedLog :: nat
  SizeDelta :: uptr

definition scaledLog2 :: "uptr \<Rightarrow> nat \<Rightarrow> nat \<Rightarrow> uptr" where
  "scaledLog2 Size ZeroLog LogBits =
     (let L = getMostSignificantSetBitIndex Size;
          LBits = drop_bit (unat (L - of_nat LogBits)) Size - push_bit LogBits 1;
          HBits = push_bit LogBits (L - of_nat ZeroLog)
      in LBits + HBits)"

definition getMaxCachedHint :: "size_class_config \<Rightarrow> uptr \<Rightarrow> u16" where
  "getMaxCachedHint cfg Size =
     (let N = (if MaxBytesCachedLog cfg > 31 \<or> MaxSizeLog cfg > 31
               then ucast (push_bit (MaxBytesCachedLog cfg) 1 div Size) :: u32
               else push_bit (MaxBytesCachedLog cfg) 1 div (ucast Size :: u32))
      in ucast (MaxU 1 (MinU (ucast (MaxNumCachedHint cfg)) N)))"

definition MinSize :: "size_class_config \<Rightarrow> uptr" where
  "MinSize cfg = push_bit (MinSizeLog cfg) 1"

definition MidSize :: "size_class_config \<Rightarrow> uptr" where
  "MidSize cfg = push_bit (MidSizeLog cfg) 1"

definition MidClass :: "size_class_config \<Rightarrow> uptr" where
  "MidClass cfg = MidSize cfg div MinSize cfg"

definition sc_S :: "size_class_config \<Rightarrow> nat" where
  "sc_S cfg = NumBits cfg - 1"

definition sc_M :: "size_class_config \<Rightarrow> uptr" where
  "sc_M cfg = push_bit (sc_S cfg) 1 - 1"

definition MaxSize :: "size_class_config \<Rightarrow> uptr" where
  "MaxSize cfg = push_bit (MaxSizeLog cfg) 1 + SizeDelta cfg"

definition NumClasses :: "size_class_config \<Rightarrow> uptr" where
  "NumClasses cfg =
     MidClass cfg + push_bit (sc_S cfg) (of_nat (MaxSizeLog cfg) - of_nat (MidSizeLog cfg)) + 1"

definition LargestClassId :: "size_class_config \<Rightarrow> uptr" where
  "LargestClassId cfg = NumClasses cfg - 1"

definition BatchClassId :: uptr where
  "BatchClassId = 0"

definition getSizeByClassId :: "size_class_config \<Rightarrow> uptr \<Rightarrow> uptr" where
  "getSizeByClassId cfg ClassId =
     (if ClassId \<le> MidClass cfg then push_bit (MinSizeLog cfg) ClassId + SizeDelta cfg
      else let ClassId = ClassId - MidClass cfg;
               T = push_bit (unat (drop_bit (sc_S cfg) ClassId)) (MidSize cfg)
           in T + drop_bit (sc_S cfg) T * (ClassId AND sc_M cfg) + SizeDelta cfg)"

definition getSizeLSBByClassId :: "size_class_config \<Rightarrow> uptr \<Rightarrow> u8" where
  "getSizeLSBByClassId cfg ClassId =
     ucast (getLeastSignificantSetBitIndex (getSizeByClassId cfg ClassId))"

definition getClassIdBySize :: "size_class_config \<Rightarrow> uptr \<Rightarrow> uptr" where
  "getClassIdBySize cfg Size =
     (if Size \<le> SizeDelta cfg + push_bit (MinSizeLog cfg) 1 then 1
      else let Size = Size - SizeDelta cfg
           in if Size \<le> MidSize cfg then drop_bit (MinSizeLog cfg) (Size + MinSize cfg - 1)
              else MidClass cfg + 1 + scaledLog2 (Size - 1) (MidSizeLog cfg) (sc_S cfg))"

section \<open>The configurations of the source\<close>

definition DefaultSizeClassConfig :: size_class_config where
  "DefaultSizeClassConfig = \<lparr>NumBits = 3, MinSizeLog = 5, MidSizeLog = 8, MaxSizeLog = 17,
     MaxNumCachedHint = 14, MaxBytesCachedLog = 10, SizeDelta = 0\<rparr>"

text \<open>\<open>Chunk::getHeaderSize()\<close> is \<open>roundUp(8, 16)\<close>.\<close>

definition FuchsiaSizeClassConfig :: size_class_config where
  "FuchsiaSizeClassConfig = \<lparr>NumBits = 3, MinSizeLog = 5, MidSizeLog = 8, MaxSizeLog = 17,
     MaxNumCachedHint = 12, MaxBytesCachedLog = 10, SizeDelta = roundUp 8 (push_bit 4 1)\<rparr>"

definition TrustySizeClassConfig :: size_class_config where
  "TrustySizeClassConfig = \<lparr>NumBits = 1, MinSizeLog = 5, MidSizeLog = 5, MaxSizeLog = 15,
     MaxNumCachedHint = 12, MaxBytesCachedLog = 10, SizeDelta = 0\<rparr>"

text \<open>
  What a configuration must satisfy: the logarithms are ordered, the classes of the upper part
  are at least two bytes apart, and nothing overflows.
\<close>

definition valid_config :: "size_class_config \<Rightarrow> bool" where
  "valid_config cfg \<longleftrightarrow> 1 \<le> NumBits cfg \<and> sc_S cfg \<le> 8 \<and> 1 \<le> MinSizeLog cfg
     \<and> sc_S cfg < MidSizeLog cfg \<and> MinSizeLog cfg \<le> MidSizeLog cfg
     \<and> MidSizeLog cfg \<le> MaxSizeLog cfg \<and> MaxSizeLog cfg < 48
     \<and> unat (SizeDelta cfg) < 2 ^ 32"

lemma valid_source_configs:
  "valid_config DefaultSizeClassConfig" "valid_config FuchsiaSizeClassConfig"
  "valid_config TrustySizeClassConfig"
  by (simp_all add: valid_config_def DefaultSizeClassConfig_def FuchsiaSizeClassConfig_def
      TrustySizeClassConfig_def sc_S_def roundUp_def)

section \<open>Sizes and classes as numbers\<close>

text \<open>The size, without \<open>SizeDelta\<close>, of the \<open>u\<close>-th class above \<open>MidClass\<close>.\<close>

definition upper_size :: "nat \<Rightarrow> nat \<Rightarrow> nat \<Rightarrow> nat" where
  "upper_size m S u = 2 ^ (m + u div 2 ^ S) + 2 ^ (m + u div 2 ^ S) div 2 ^ S * (u mod 2 ^ S)"

definition class_size :: "size_class_config \<Rightarrow> nat \<Rightarrow> nat" where
  "class_size cfg c =
     (let mid = 2 ^ (MidSizeLog cfg - MinSizeLog cfg)
      in if c \<le> mid then c * 2 ^ MinSizeLog cfg
         else upper_size (MidSizeLog cfg) (sc_S cfg) (c - mid))"

lemma upper_size_decomp:
  assumes "S \<le> m" and "r \<le> 2 ^ S"
  shows "upper_size m S (q * 2 ^ S + r) = 2 ^ (m + q - S) * (2 ^ S + r)"
proof (cases "r < 2 ^ S")
  case True
  have d: "(2::nat) ^ (m + q) div 2 ^ S = 2 ^ (m + q - S)"
    using assms(1) by (simp add: power_diff)
  have p: "(2::nat) ^ (m + q) = 2 ^ (m + q - S) * 2 ^ S"
    using assms(1) by (simp add: power_add [symmetric])
  have a: "(q * 2 ^ S + r) div 2 ^ S = q" "(q * 2 ^ S + r) mod 2 ^ S = r" using True by simp_all
  show ?thesis unfolding upper_size_def a d by (simp add: p algebra_simps)
next
  case False
  then have r: "r = 2 ^ S" using assms(2) by simp
  have e: "q * 2 ^ S + r = Suc q * 2 ^ S" by (simp add: r)
  have a: "(Suc q * 2 ^ S) div 2 ^ S = Suc q" "(Suc q * 2 ^ S) mod 2 ^ S = 0"
    by (simp_all only: nonzero_mult_div_cancel_right mod_mult_self2_is_0) simp
  have "(2::nat) ^ (m + Suc q) = 2 ^ (m + q - S) * (2 ^ S + 2 ^ S)"
    using assms(1) by (simp add: power_add [symmetric] distrib_left)
  then show ?thesis unfolding e upper_size_def a by (simp add: r)
qed

lemma upper_size_Suc:
  assumes "S < m"
  shows "upper_size m S u + 2 \<le> upper_size m S (Suc u)"
proof -
  define q r where "q = u div 2 ^ S" and "r = u mod 2 ^ S"
  have u: "u = q * 2 ^ S + r" and r: "r < 2 ^ S"
    unfolding q_def r_def by (simp_all only: div_mult_mod_eq) simp
  have s: "Suc u = q * 2 ^ S + Suc r" by (simp add: u)
  have "(2::nat) ^ 1 \<le> 2 ^ (m + q - S)" using assms by (intro power_increasing) simp_all
  then have "2 ^ (m + q - S) * (2 ^ S + r) + 2 \<le> 2 ^ (m + q - S) * (2 ^ S + Suc r)"
    by (simp add: algebra_simps)
  then show ?thesis
    using assms r upper_size_decomp [of S m r q] upper_size_decomp [of S m "Suc r" q]
    by (simp only: u [symmetric] s [symmetric])
qed

lemma upper_size_less_Suc:
  assumes "S \<le> m"
  shows "upper_size m S u < upper_size m S (Suc u)"
proof -
  define q r where "q = u div 2 ^ S" and "r = u mod 2 ^ S"
  have u: "u = q * 2 ^ S + r" and r: "r < 2 ^ S"
    unfolding q_def r_def by (simp_all only: div_mult_mod_eq) simp
  have s: "Suc u = q * 2 ^ S + Suc r" by (simp add: u)
  have "2 ^ (m + q - S) * (2 ^ S + r) < 2 ^ (m + q - S) * (2 ^ S + Suc r)" by simp
  then show ?thesis
    using assms r upper_size_decomp [of S m r q] upper_size_decomp [of S m "Suc r" q]
    by (simp only: u [symmetric] s [symmetric])
qed

lemma upper_size_less: "S \<le> m \<Longrightarrow> u < v \<Longrightarrow> upper_size m S u < upper_size m S v"
  using lift_Suc_mono_less [of "upper_size m S" u v] upper_size_less_Suc [of S m] by blast

lemma upper_size_0: "upper_size m S 0 = 2 ^ m"
  by (simp add: upper_size_def)

lemma class_size_Suc:
  assumes "valid_config cfg"
  shows "class_size cfg c + 2 \<le> class_size cfg (Suc c)"
proof -
  let ?a = "MinSizeLog cfg" and ?m = "MidSizeLog cfg" and ?S = "sc_S cfg"
  let ?mid = "(2::nat) ^ (?m - ?a)"
  have v: "1 \<le> ?a" "?S < ?m" "?a \<le> ?m" using assms by (simp_all add: valid_config_def)
  have "(2::nat) ^ 1 \<le> 2 ^ ?a" using v(1) by (intro power_increasing) simp_all
  then have two: "2 \<le> (2::nat) ^ ?a" by simp
  have mid: "?mid * 2 ^ ?a = 2 ^ ?m" using v(3) by (simp add: power_add [symmetric])
  consider "Suc c \<le> ?mid" | "c = ?mid" | "?mid < c" by linarith
  then show ?thesis
  proof cases
    case 1
    then show ?thesis using two by (simp add: class_size_def)
  next
    case 2
    then have "class_size cfg c = upper_size ?m ?S 0"
      using mid by (simp add: class_size_def upper_size_0)
    moreover have "class_size cfg (Suc c) = upper_size ?m ?S (Suc 0)"
      using 2 by (simp add: class_size_def)
    ultimately show ?thesis using upper_size_Suc [OF v(2), of 0] by simp
  next
    case 3
    then have "Suc c - ?mid = Suc (c - ?mid)" by simp
    then show ?thesis using 3 upper_size_Suc [OF v(2), of "c - ?mid"]
      by (simp add: class_size_def)
  qed
qed

lemma class_size_mono:
  assumes "valid_config cfg" and "c < d"
  shows "class_size cfg c + 2 \<le> class_size cfg d"
  using assms(2)
proof (induction d)
  case (Suc d)
  then show ?case using class_size_Suc [OF assms(1), of d] by (cases "c = d") auto
qed simp

lemma class_size_le:
  assumes "valid_config cfg" and "c \<le> d"
  shows "class_size cfg c \<le> class_size cfg d"
  using class_size_mono [OF assms(1), of c d] assms(2) by (cases "c = d") auto

lemma unat_MidClass:
  assumes "valid_config cfg"
  shows "unat (MidClass cfg) = 2 ^ (MidSizeLog cfg - MinSizeLog cfg)"
  using assms
  by (simp add: MidClass_def MidSize_def MinSize_def unat_div unat_power_of_2 valid_config_def
      power_diff)

definition num_classes :: "size_class_config \<Rightarrow> nat" where
  "num_classes cfg = 2 ^ (MidSizeLog cfg - MinSizeLog cfg)
     + (MaxSizeLog cfg - MidSizeLog cfg) * 2 ^ sc_S cfg + 1"

lemma valid_config_powers:
  assumes "valid_config cfg"
  shows "(2::nat) ^ (MidSizeLog cfg - MinSizeLog cfg) \<le> 2 ^ 47"
    and "(2::nat) ^ sc_S cfg \<le> 2 ^ 8"
    and "(2::nat) ^ MidSizeLog cfg \<le> 2 ^ 47" and "(2::nat) ^ MaxSizeLog cfg \<le> 2 ^ 47"
    and "(2::nat) ^ MinSizeLog cfg \<le> 2 ^ MidSizeLog cfg"
    and "(2::nat) ^ MidSizeLog cfg \<le> 2 ^ MaxSizeLog cfg"
proof -
  have v: "sc_S cfg \<le> 8" "MinSizeLog cfg \<le> MidSizeLog cfg" "MidSizeLog cfg \<le> MaxSizeLog cfg"
    "MaxSizeLog cfg < 48" using assms by (simp_all add: valid_config_def)
  have e: "1 \<le> (2::nat)" by simp
  show "(2::nat) ^ (MidSizeLog cfg - MinSizeLog cfg) \<le> 2 ^ 47"
    by (rule power_increasing [OF _ e]) (use v in linarith)
  show "(2::nat) ^ sc_S cfg \<le> 2 ^ 8" by (rule power_increasing [OF v(1) e])
  show "(2::nat) ^ MidSizeLog cfg \<le> 2 ^ 47"
    by (rule power_increasing [OF _ e]) (use v in linarith)
  show "(2::nat) ^ MaxSizeLog cfg \<le> 2 ^ 47"
    by (rule power_increasing [OF _ e]) (use v in linarith)
  show "(2::nat) ^ MinSizeLog cfg \<le> 2 ^ MidSizeLog cfg" by (rule power_increasing [OF v(2) e])
  show "(2::nat) ^ MidSizeLog cfg \<le> 2 ^ MaxSizeLog cfg" by (rule power_increasing [OF v(3) e])
qed

lemma num_classes_bound:
  assumes "valid_config cfg"
  shows "num_classes cfg < 2 ^ 48" and "(MaxSizeLog cfg - MidSizeLog cfg) * 2 ^ sc_S cfg \<le> 47 * 2 ^ 8"
proof -
  show b: "(MaxSizeLog cfg - MidSizeLog cfg) * 2 ^ sc_S cfg \<le> 47 * 2 ^ 8"
  proof (rule mult_le_mono [OF _ valid_config_powers(2) [OF assms]])
    show "MaxSizeLog cfg - MidSizeLog cfg \<le> 47" using assms unfolding valid_config_def by linarith
  qed
  show "num_classes cfg < 2 ^ 48"
    using b valid_config_powers(1) [OF assms] by (simp add: num_classes_def)
qed

lemma unat_NumClasses:
  assumes "valid_config cfg"
  shows "unat (NumClasses cfg) = num_classes cfg"
proof -
  let ?k = "MaxSizeLog cfg - MidSizeLog cfg"
  have v: "MidSizeLog cfg \<le> MaxSizeLog cfg" "MaxSizeLog cfg < 48" using assms by (simp_all add: valid_config_def)
  have d: "of_nat (MaxSizeLog cfg) - of_nat (MidSizeLog cfg) = (of_nat ?k :: uptr)"
    using v(1) by simp
  have k: "unat (of_nat ?k :: uptr) = ?k"
  proof -
    have "?k < 2 ^ LENGTH(64)" using v by simp
    then show ?thesis by (simp only: unat_of_nat_small)
  qed
  have p: "unat (push_bit (sc_S cfg) (of_nat ?k :: uptr)) = ?k * 2 ^ sc_S cfg"
    using num_classes_bound(2) [OF assms] by (subst unat_push_bit_small) (simp_all add: k)
  have s: "unat (MidClass cfg + push_bit (sc_S cfg) (of_nat ?k))
      = 2 ^ (MidSizeLog cfg - MinSizeLog cfg) + ?k * 2 ^ sc_S cfg"
    using num_classes_bound(1) [OF assms]
    by (subst unat_add_small) (simp_all only: p unat_MidClass [OF assms], simp add: num_classes_def)
  show ?thesis
    using num_classes_bound(1) [OF assms] unfolding NumClasses_def d
    by (subst unat_add_small) (simp_all only: s, simp_all add: num_classes_def)
qed

lemma class_size_last:
  assumes "valid_config cfg"
  shows "class_size cfg (num_classes cfg - 1) = 2 ^ MaxSizeLog cfg"
proof -
  let ?k = "MaxSizeLog cfg - MidSizeLog cfg"
  have v: "sc_S cfg < MidSizeLog cfg" "MidSizeLog cfg \<le> MaxSizeLog cfg" "MinSizeLog cfg \<le> MidSizeLog cfg"
    using assms by (simp_all add: valid_config_def)
  show ?thesis
  proof (cases "?k = 0")
    case True
    then show ?thesis using v by (simp add: num_classes_def class_size_def power_add [symmetric])
  next
    case False
    then have "0 < ?k * 2 ^ sc_S cfg" by simp
    then have "class_size cfg (num_classes cfg - 1)
        = upper_size (MidSizeLog cfg) (sc_S cfg) (?k * 2 ^ sc_S cfg + 0)"
      by (simp add: num_classes_def class_size_def)
    also have "\<dots> = 2 ^ (MidSizeLog cfg + ?k - sc_S cfg) * 2 ^ sc_S cfg"
      using v(1) upper_size_decomp [of "sc_S cfg" "MidSizeLog cfg" 0 ?k] by simp
    also have "\<dots> = 2 ^ MaxSizeLog cfg" using v by (simp add: power_add [symmetric])
    finally show ?thesis .
  qed
qed

lemma class_size_bound:
  assumes "valid_config cfg" and "c < num_classes cfg"
  shows "class_size cfg c \<le> 2 ^ MaxSizeLog cfg"
proof (cases "c = num_classes cfg - 1")
  case True
  then show ?thesis using class_size_last [OF assms(1)] by simp
next
  case False
  then have "c < num_classes cfg - 1" using assms(2) by simp
  then show ?thesis using class_size_mono [OF assms(1)] class_size_last [OF assms(1)] by fastforce
qed

lemma unat_LargestClassId:
  assumes "valid_config cfg"
  shows "unat (LargestClassId cfg) = num_classes cfg - 1"
proof -
  have "NumClasses cfg \<noteq> 0"
    using unat_NumClasses [OF assms] by (metis add_is_0 num_classes_def one_neq_zero unat_0)
  then show ?thesis by (simp add: LargestClassId_def unat_minus_one unat_NumClasses [OF assms])
qed

lemma upper_size_bounds:
  assumes "S \<le> m" and "m \<le> msb_nat t" and "0 < t"
  defines "u \<equiv> (msb_nat t - m) * 2 ^ S + (t div 2 ^ (msb_nat t - S) - 2 ^ S)"
  shows "upper_size m S u \<le> t" and "t < upper_size m S (Suc u)"
    and "2 ^ (msb_nat t - S) dvd t \<Longrightarrow> upper_size m S u = t"
proof -
  let ?L = "msb_nat t"
  let ?d = "t div 2 ^ (?L - S)"
  have b: "2 ^ ?L \<le> t" "t < 2 ^ Suc ?L" using msb_nat_bounds [OF assms(3)] by blast+
  have p: "(2::nat) ^ ?L = 2 ^ S * 2 ^ (?L - S)" using assms(1,2) by (simp add: power_add [symmetric])
  have lo: "2 ^ S \<le> ?d" using b(1) by (simp add: p less_eq_div_iff_mult_less_eq)
  have hi: "?d < 2 * 2 ^ S" using b(2) by (simp add: p less_mult_imp_div_less mult.assoc)
  have e: "m + (?L - m) - S = ?L - S" using assms(2) by simp
  have u: "u = (?L - m) * 2 ^ S + (?d - 2 ^ S)" "Suc u = (?L - m) * 2 ^ S + Suc (?d - 2 ^ S)"
    by (simp_all add: u_def)
  have "upper_size m S u = 2 ^ (?L - S) * ?d"
    unfolding u(1) using lo hi assms(1) e by (subst upper_size_decomp) simp_all
  then show "upper_size m S u \<le> t" "2 ^ (?L - S) dvd t \<Longrightarrow> upper_size m S u = t"
    using div_mult_bounds [of "2 ^ (?L - S)" t] by (simp_all add: mult.commute)
  have "upper_size m S (Suc u) = 2 ^ (?L - S) * Suc ?d"
    unfolding u(2) using lo hi assms(1) e by (subst upper_size_decomp) simp_all
  then show "t < upper_size m S (Suc u)" using div_mult_bounds [of "2 ^ (?L - S)" t] by (simp add: mult.commute)
qed

lemma unat_scaledLog2:
  assumes "S \<le> m" "0 < m" and "m \<le> msb_nat (unat Size)" and "S \<le> 8"
  shows "unat (scaledLog2 Size m S)
    = (msb_nat (unat Size) - m) * 2 ^ S + (unat Size div 2 ^ (msb_nat (unat Size) - S) - 2 ^ S)"
proof -
  let ?L = "msb_nat (unat Size)"
  let ?d = "unat Size div 2 ^ (?L - S)"
  let ?l = "getMostSignificantSetBitIndex Size"
  have L64: "?L < 64" by (rule msb_nat_less_64)
  have "0 < ?L" using assms(1-3) by simp
  then have nz: "0 < unat Size" by (metis gr0I msb_nat.simps zero_less_numeral less_irrefl)
  have b: "2 ^ ?L \<le> unat Size" "unat Size < 2 ^ Suc ?L" using msb_nat_bounds [OF nz] by blast+
  have p: "(2::nat) ^ ?L = 2 ^ S * 2 ^ (?L - S)" using assms(1-3) by (simp add: power_add [symmetric])
  have lo: "2 ^ S \<le> ?d" using b(1) by (simp add: p less_eq_div_iff_mult_less_eq)
  have hi: "?d < 2 * 2 ^ S" using b(2) by (simp add: p less_mult_imp_div_less mult.assoc)
  have S8: "(2::nat) ^ S \<le> 2 ^ 8" by (rule power_increasing [OF assms(4)]) simp
  have n: "unat (of_nat S :: uptr) = S" "unat (of_nat m :: uptr) = m"
    using assms L64 by (simp_all add: unat_of_nat_small)
  have s1: "unat (?l - of_nat S) = ?L - S"
    using assms by (subst unat_sub) (simp_all add: word_le_nat_alt n unat_getMostSignificantSetBitIndex)
  have s2: "unat (?l - of_nat m) = ?L - m"
    using assms by (subst unat_sub) (simp_all add: word_le_nat_alt n unat_getMostSignificantSetBitIndex)
  have p1: "unat (push_bit S 1 :: uptr) = 2 ^ S"
    using S8 by (subst unat_push_bit_small) simp_all
  have lb: "unat (drop_bit (unat (?l - of_nat S)) Size - push_bit S 1) = ?d - 2 ^ S"
    using lo by (subst unat_sub) (simp_all only: word_le_nat_alt p1 s1 unat_drop_bit)
  have hb': "(?L - m) * 2 ^ S \<le> 63 * 2 ^ 8"
    using L64 S8 by (intro mult_le_mono) simp_all
  then have hb: "unat (push_bit S (?l - of_nat m)) = (?L - m) * 2 ^ S"
    by (subst unat_push_bit_small) (simp_all add: s2)
  have "?d - 2 ^ S + (?L - m) * 2 ^ S < 2 ^ LENGTH(64)" using hi S8 hb' by simp
  then show ?thesis
    unfolding scaledLog2_def Let_def by (subst unat_add_small) (simp_all only: lb hb add.commute)
qed

lemma unat_MinSize: "valid_config cfg \<Longrightarrow> unat (MinSize cfg) = 2 ^ MinSizeLog cfg"
  by (simp add: MinSize_def valid_config_def unat_power_of_2)

lemma unat_MidSize: "valid_config cfg \<Longrightarrow> unat (MidSize cfg) = 2 ^ MidSizeLog cfg"
  by (simp add: MidSize_def valid_config_def unat_power_of_2)

lemma unat_MaxSize:
  assumes "valid_config cfg"
  shows "unat (MaxSize cfg) = 2 ^ MaxSizeLog cfg + unat (SizeDelta cfg)"
proof -
  have "unat (2 ^ MaxSizeLog cfg :: uptr) = 2 ^ MaxSizeLog cfg"
    using assms by (simp add: valid_config_def unat_power_of_2)
  then show ?thesis
    using valid_config_powers(4) [OF assms] assms unfolding MaxSize_def valid_config_def
    by (subst unat_add_small) simp_all
qed

lemma unat_getSizeByClassId:
  assumes "valid_config cfg" and "unat c < num_classes cfg"
  shows "unat (getSizeByClassId cfg c) = class_size cfg (unat c) + unat (SizeDelta cfg)"
proof -
  let ?mid = "(2::nat) ^ (MidSizeLog cfg - MinSizeLog cfg)" and ?S = "sc_S cfg" and ?m = "MidSizeLog cfg"
  have v: "unat (SizeDelta cfg) < 2 ^ 32" "?S < ?m" using assms(1) by (simp_all add: valid_config_def)
  have cb: "class_size cfg (unat c) \<le> 2 ^ 47"
    using class_size_bound [OF assms] valid_config_powers(4) [OF assms(1)] by linarith
  show ?thesis
  proof (cases "unat c \<le> ?mid")
    case True
    then have c: "c \<le> MidClass cfg" by (simp add: word_le_nat_alt unat_MidClass [OF assms(1)])
    have e: "class_size cfg (unat c) = unat c * 2 ^ MinSizeLog cfg" using True by (simp add: class_size_def)
    have "unat (push_bit (MinSizeLog cfg) c) = class_size cfg (unat c)"
      unfolding e using cb by (intro unat_push_bit_small) (simp add: e)
    then show ?thesis using c cb v(1) unfolding getSizeByClassId_def
      by (simp only: if_True) (subst unat_add_small, simp_all)
  next
    case False
    then have c: "\<not> c \<le> MidClass cfg" by (simp add: word_le_nat_alt unat_MidClass [OF assms(1)])
    define u where "u = unat c - ?mid"
    define T where "T = push_bit (unat (drop_bit ?S (c - MidClass cfg))) (MidSize cfg)"
    have uu: "unat (c - MidClass cfg) = u"
      using c by (subst unat_sub) (simp_all add: u_def unat_MidClass [OF assms(1)])
    have e: "class_size cfg (unat c) = upper_size ?m ?S u" using False by (simp add: class_size_def u_def)
    have "2 ^ (?m + u div 2 ^ ?S) \<le> upper_size ?m ?S u" by (simp add: upper_size_def)
    then have Tb: "(2::nat) ^ (?m + u div 2 ^ ?S) \<le> 2 ^ 47" using cb e by linarith
    have t1: "unat (MidSize cfg) * 2 ^ (u div 2 ^ ?S) = 2 ^ (?m + u div 2 ^ ?S)"
      by (simp add: unat_MidSize [OF assms(1)] power_add)
    have T: "unat T = 2 ^ (?m + u div 2 ^ ?S)"
      unfolding T_def using Tb by (subst unat_push_bit_small) (simp_all only: uu unat_drop_bit t1, simp)
    have M: "unat ((c - MidClass cfg) AND sc_M cfg) = u mod 2 ^ ?S"
      by (simp add: sc_M_def power_minus_1_mask unat_mask_and uu)
    have u1: "upper_size ?m ?S u
        = 2 ^ (?m + u div 2 ^ ?S) + 2 ^ (?m + u div 2 ^ ?S) div 2 ^ ?S * (u mod 2 ^ ?S)"
      by (simp add: upper_size_def)
    have m1: "unat (drop_bit ?S T * ((c - MidClass cfg) AND sc_M cfg))
        = 2 ^ (?m + u div 2 ^ ?S) div 2 ^ ?S * (u mod 2 ^ ?S)"
      using cb e u1 by (subst unat_mult_small) (simp_all only: M unat_drop_bit T, simp)
    have m2: "unat (T + drop_bit ?S T * ((c - MidClass cfg) AND sc_M cfg)) = upper_size ?m ?S u"
      using cb e u1 by (subst unat_add_small) (simp_all only: m1 T, simp)
    show ?thesis using c cb v(1) unfolding getSizeByClassId_def Let_def T_def [symmetric]
      by (simp only: if_False) (subst unat_add_small, simp_all only: m2 e, simp_all)
  qed
qed

lemma class_size_1: "valid_config cfg \<Longrightarrow> class_size cfg 1 = 2 ^ MinSizeLog cfg"
  by (simp add: class_size_def)

lemma class_size_0: "class_size cfg 0 = 0"
  by (simp add: class_size_def)

lemma class_of_lower:
  assumes "valid_config cfg" and "2 ^ MinSizeLog cfg < s" and "s \<le> 2 ^ MidSizeLog cfg"
    and "c = (s + 2 ^ MinSizeLog cfg - 1) div 2 ^ MinSizeLog cfg"
  shows "1 < c \<and> c < num_classes cfg \<and> s \<le> class_size cfg c \<and> class_size cfg (c - 1) < s"
proof -
  let ?a = "(2::nat) ^ MinSizeLog cfg"
  let ?mid = "(2::nat) ^ (MidSizeLog cfg - MinSizeLog cfg)"
  have v: "MinSizeLog cfg \<le> MidSizeLog cfg" using assms(1) by (simp add: valid_config_def)
  have mid: "?mid * ?a = 2 ^ MidSizeLog cfg" using v by (simp add: power_add [symmetric])
  have d: "c * ?a \<le> s + ?a - 1" "s + ?a - 1 < c * ?a + ?a"
    using div_mult_bounds [of ?a "s + ?a - 1"] by (simp_all add: assms(4))
  have "c * ?a < Suc ?mid * ?a" using d(1) assms(2,3) mid by simp
  then have c: "c \<le> ?mid" using mult_less_cancel2 less_Suc_eq_le by blast
  have "1 * ?a < c * ?a" using d(2) assms(2) by linarith
  then have c1: "1 < c" using mult_less_cancel2 by blast
  moreover have "class_size cfg c = c * ?a" "class_size cfg (c - 1) = (c - 1) * ?a"
    using c unfolding class_size_def Let_def by auto
  moreover have "(c - 1) * ?a = c * ?a - ?a" by (simp add: diff_mult_distrib)
  moreover have "0 < ?a" by simp
  ultimately have "s \<le> class_size cfg c" "class_size cfg (c - 1) < s" using d assms(2) by linarith+
  moreover have "c < num_classes cfg" using c by (simp add: num_classes_def)
  ultimately show ?thesis using c1 by simp
qed

lemma msb_nat_ge:
  assumes "2 ^ m < s" shows "m \<le> msb_nat (s - 1)"
proof -
  have "(1::nat) \<le> 2 ^ m" by simp
  then have t: "0 < s - 1" "2 ^ m \<le> s - 1" using assms by linarith+
  then have "(2::nat) ^ m < 2 ^ Suc (msb_nat (s - 1))" using msb_nat_bounds [OF t(1)] by linarith
  then have "m < Suc (msb_nat (s - 1))" by (rule power_less_imp_less_exp [rotated]) simp
  then show ?thesis by simp
qed

lemma class_of_upper:
  assumes "valid_config cfg" and "2 ^ MidSizeLog cfg < s" and "s \<le> 2 ^ MaxSizeLog cfg"
    and "u = (msb_nat (s - 1) - MidSizeLog cfg) * 2 ^ sc_S cfg
      + ((s - 1) div 2 ^ (msb_nat (s - 1) - sc_S cfg) - 2 ^ sc_S cfg)"
    and "c = 2 ^ (MidSizeLog cfg - MinSizeLog cfg) + 1 + u"
  shows "1 < c \<and> c < num_classes cfg \<and> s \<le> class_size cfg c \<and> class_size cfg (c - 1) < s"
proof -
  let ?m = "MidSizeLog cfg"
  have v: "sc_S cfg < ?m" "MinSizeLog cfg \<le> ?m" using assms(1) by (simp_all add: valid_config_def)
  have "1 \<le> (2::nat) ^ ?m" by simp
  then have t: "0 < s - 1" "2 ^ ?m \<le> s - 1" using assms(2) by linarith+
  have m: "?m \<le> msb_nat (s - 1)" by (rule msb_nat_ge [OF assms(2)])
  have b: "upper_size ?m (sc_S cfg) u \<le> s - 1" "s - 1 < upper_size ?m (sc_S cfg) (Suc u)"
    using upper_size_bounds [OF less_imp_le [OF v(1)] m t(1)] by (simp_all only: assms(4))
  have hi: "class_size cfg c = upper_size ?m (sc_S cfg) (Suc u)"
    by (simp add: class_size_def assms(5))
  have mid: "(2::nat) ^ (?m - MinSizeLog cfg) * 2 ^ MinSizeLog cfg = 2 ^ ?m"
    using v(2) by (simp add: power_add [symmetric])
  have lo: "class_size cfg (c - 1) = upper_size ?m (sc_S cfg) u"
    using mid by (cases "u = 0") (simp_all add: class_size_def assms(5) upper_size_0)
  have "class_size cfg (c - 1) < class_size cfg (num_classes cfg - 1)"
    using lo b(1) t(1) assms(3) class_size_last [OF assms(1)] by linarith
  then have "\<not> num_classes cfg - 1 \<le> c - 1"
    using class_size_mono [OF assms(1), of "num_classes cfg - 1" "c - 1"]
    by (cases "num_classes cfg - 1 = c - 1") auto
  then have "c < num_classes cfg" using assms(5) by linarith
  moreover have "s \<le> class_size cfg c" using b(2) hi t by linarith
  moreover have "class_size cfg (c - 1) < s" using b(1) lo t by linarith
  ultimately show ?thesis by (simp add: assms(5))
qed

lemma classify:
  assumes "valid_config cfg" and "0 < unat (SizeDelta cfg) \<or> 0 < unat Size"
    and "unat Size \<le> unat (MaxSize cfg)"
  defines "c \<equiv> unat (getClassIdBySize cfg Size)"
  shows "1 \<le> c \<and> c < num_classes cfg \<and> unat Size \<le> class_size cfg c + unat (SizeDelta cfg)
    \<and> (1 < c \<longrightarrow> class_size cfg (c - 1) + unat (SizeDelta cfg) < unat Size)"
proof -
  let ?D = "unat (SizeDelta cfg)"
  let ?a = "(2::nat) ^ MinSizeLog cfg"
  have v: "sc_S cfg < MidSizeLog cfg" "sc_S cfg \<le> 8" "?D < 2 ^ 32"
    using assms(1) by (simp_all add: valid_config_def)
  have a: "?a \<le> 2 ^ 47" using valid_config_powers(3,5) [OF assms(1)] by linarith
  have ua: "unat (2 ^ MinSizeLog cfg :: uptr) = ?a"
    using unat_MinSize [OF assms(1)] by (simp add: MinSize_def)
  have ub: "unat (SizeDelta cfg + push_bit (MinSizeLog cfg) 1) = ?D + ?a"
    using v a by (subst unat_add_small) (simp_all add: ua)
  show ?thesis
  proof (cases "unat Size \<le> ?D + ?a")
    case True
    then have "c = 1" using ub by (simp add: c_def getClassIdBySize_def word_le_nat_alt)
    moreover have "1 < num_classes cfg" by (simp add: num_classes_def)
    ultimately show ?thesis using True by (simp add: class_size_1 [OF assms(1), simplified] add.commute)
  next
    case False
    define s where "s = unat Size - ?D"
    have s: "?a < s" "s \<le> 2 ^ MaxSizeLog cfg" "unat Size = s + ?D"
      using False assms(3) unat_MaxSize [OF assms(1)] by (simp_all add: s_def)
    have us: "unat (Size - SizeDelta cfg) = s"
      using False by (subst unat_sub) (simp_all add: word_le_nat_alt s_def)
    have nb: "\<not> Size \<le> SizeDelta cfg + push_bit (MinSizeLog cfg) 1"
      using False ub unfolding word_le_nat_alt by linarith
    have s47: "s \<le> 2 ^ 47" using s(2) valid_config_powers(4) [OF assms(1)] by linarith
    have "1 < c \<and> c < num_classes cfg \<and> s \<le> class_size cfg c \<and> class_size cfg (c - 1) < s"
    proof (cases "s \<le> 2 ^ MidSizeLog cfg")
      case True
      then have le: "Size - SizeDelta cfg \<le> MidSize cfg"
        by (simp add: word_le_nat_alt us unat_MidSize [OF assms(1)])
      have p1: "unat (Size - SizeDelta cfg + MinSize cfg) = s + ?a"
        using s47 a by (subst unat_add_small) (simp_all add: us unat_MinSize [OF assms(1)])
      then have "Size - SizeDelta cfg + MinSize cfg \<noteq> 0" using s(1) by (metis add_gr_0 gr0I not_less0 unat_0 less_irrefl_nat)
      then have p2: "unat (Size - SizeDelta cfg + MinSize cfg - 1) = s + ?a - 1"
        by (simp add: unat_minus_one p1)
      have "c = (s + ?a - 1) div ?a"
        using nb le by (simp add: c_def getClassIdBySize_def Let_def unat_drop_bit p2)
      then show ?thesis by (rule class_of_lower [OF assms(1) s(1) True])
    next
      case False
      then have nle: "\<not> Size - SizeDelta cfg \<le> MidSize cfg"
        by (simp add: word_le_nat_alt us unat_MidSize [OF assms(1)])
      have b: "2 ^ MidSizeLog cfg < s" using False by simp
      have nz: "Size - SizeDelta cfg \<noteq> 0" using us s(1) by auto
      have p2: "unat (Size - SizeDelta cfg - 1) = s - 1" using nz by (simp add: unat_minus_one us)
      define u where "u = (msb_nat (s - 1) - MidSizeLog cfg) * 2 ^ sc_S cfg
        + ((s - 1) div 2 ^ (msb_nat (s - 1) - sc_S cfg) - 2 ^ sc_S cfg)"
      have "MidSizeLog cfg \<le> msb_nat (s - 1)" by (rule msb_nat_ge [OF b])
      then have sl: "unat (scaledLog2 (Size - SizeDelta cfg - 1) (MidSizeLog cfg) (sc_S cfg)) = u"
        unfolding u_def p2 [symmetric] by (intro unat_scaledLog2) (use v in \<open>simp_all add: p2\<close>)
      have r: "1 < 2 ^ (MidSizeLog cfg - MinSizeLog cfg) + 1 + u
          \<and> 2 ^ (MidSizeLog cfg - MinSizeLog cfg) + 1 + u < num_classes cfg
          \<and> s \<le> class_size cfg (2 ^ (MidSizeLog cfg - MinSizeLog cfg) + 1 + u)
          \<and> class_size cfg (2 ^ (MidSizeLog cfg - MinSizeLog cfg) + 1 + u - 1) < s"
        by (rule class_of_upper [OF assms(1) b s(2) u_def refl])
      then have "2 ^ (MidSizeLog cfg - MinSizeLog cfg) + 1 + u < 2 ^ 48"
        using num_classes_bound(1) [OF assms(1)] by linarith
      then have "c = 2 ^ (MidSizeLog cfg - MinSizeLog cfg) + 1 + u"
        using nb nle unfolding c_def getClassIdBySize_def Let_def
        by (simp only: if_False) (subst unat_add_small; (subst unat_add_small)?; simp add: unat_MidClass [OF assms(1)] sl)
      then show ?thesis using r by simp
    qed
    then show ?thesis using s(3) by simp
  qed
qed

text \<open>C13: For every well-formed configuration, \<^verbatim>\<open>FixedSizeClassMap::getClassIdBySize\<close> maps a
  request of at most \<open>MaxSize\<close> bytes to the least class whose size covers it: the class is a
  regular one, it is large enough, and every class that is large enough has an id at least as
  big.\<close>

theorem getClassIdBySize_least:
  assumes "valid_config cfg" and "0 < Size" and "Size \<le> MaxSize cfg"
  shows "1 \<le> getClassIdBySize cfg Size \<and> getClassIdBySize cfg Size \<le> LargestClassId cfg
    \<and> Size \<le> getSizeByClassId cfg (getClassIdBySize cfg Size)
    \<and> (\<forall>C. 1 \<le> C \<and> C \<le> LargestClassId cfg \<and> Size \<le> getSizeByClassId cfg C
        \<longrightarrow> getClassIdBySize cfg Size \<le> C)"
proof -
  let ?c = "unat (getClassIdBySize cfg Size)"
  have n: "0 < unat Size" using assms(2) by (simp add: word_less_nat_alt)
  have k: "1 \<le> ?c" "?c < num_classes cfg" "unat Size \<le> class_size cfg ?c + unat (SizeDelta cfg)"
    "1 < ?c \<Longrightarrow> class_size cfg (?c - 1) + unat (SizeDelta cfg) < unat Size"
    using classify [OF assms(1), of Size] assms(3) n by (simp_all add: word_le_nat_alt)
  have L: "unat (LargestClassId cfg) = num_classes cfg - 1" by (rule unat_LargestClassId [OF assms(1)])
  have "getClassIdBySize cfg Size \<le> C"
    if C: "1 \<le> C \<and> C \<le> LargestClassId cfg \<and> Size \<le> getSizeByClassId cfg C" for C
  proof (rule ccontr)
    assume "\<not> getClassIdBySize cfg Size \<le> C"
    then have lt: "unat C < ?c" "1 \<le> unat C" using C by (simp_all add: word_le_nat_alt word_less_nat_alt)
    have "unat Size \<le> class_size cfg (unat C) + unat (SizeDelta cfg)"
      using C lt k(2) unat_getSizeByClassId [OF assms(1), of C] by (simp add: word_le_nat_alt)
    also have "class_size cfg (unat C) \<le> class_size cfg (?c - 1)"
      using lt by (intro class_size_le [OF assms(1)]) linarith
    finally show False using k(4) lt by linarith
  qed
  then show ?thesis using k L unat_getSizeByClassId [OF assms(1) k(2)] by (simp add: word_le_nat_alt)
qed

theorem getClassIdBySize_least_witness:
  "valid_config DefaultSizeClassConfig
    \<and> 1000 \<le> getSizeByClassId DefaultSizeClassConfig (getClassIdBySize DefaultSizeClassConfig 1000)
    \<and> getClassIdBySize DefaultSizeClassConfig 1000 = 16
    \<and> getSizeByClassId DefaultSizeClassConfig 16 = 1024"
proof -
  have "1000 \<le> MaxSize DefaultSizeClassConfig" by (simp add: MaxSize_def DefaultSizeClassConfig_def)
  moreover have "getClassIdBySize DefaultSizeClassConfig 1000 = 16"
    and "getSizeByClassId DefaultSizeClassConfig 16 = 1024" by code_simp+
  ultimately show ?thesis
    using getClassIdBySize_least [OF valid_source_configs(1), of 1000] valid_source_configs(1) by simp
qed

section \<open>The self check of the source\<close>

text \<open>
  The two loops of \<^verbatim>\<open>validateMap\<close>; a failing \<^verbatim>\<open>CHECK\<close> makes the result \<open>False\<close>. \<open>S + 1\<close>
  and \<open>S - 1\<close> wrap around as in the code.
\<close>

definition validateClass :: "size_class_config \<Rightarrow> uptr \<Rightarrow> bool" where
  "validateClass cfg C =
     (if C = BatchClassId then True
      else let S = getSizeByClassId cfg C
           in S \<noteq> 0 \<and> getClassIdBySize cfg S = C
              \<and> (C < LargestClassId cfg \<longrightarrow> getClassIdBySize cfg (S + 1) = C + 1)
              \<and> getClassIdBySize cfg (S - 1) = C
              \<and> (C - 1 \<noteq> BatchClassId \<longrightarrow> getSizeByClassId cfg C > getSizeByClassId cfg (C - 1)))"

definition validateSize :: "size_class_config \<Rightarrow> uptr \<Rightarrow> bool" where
  "validateSize cfg S =
     (let C = getClassIdBySize cfg S
      in C < NumClasses cfg \<and> getSizeByClassId cfg C \<ge> S
         \<and> (C - 1 \<noteq> BatchClassId \<longrightarrow> getSizeByClassId cfg (C - 1) < S))"

definition validateMap :: "size_class_config \<Rightarrow> bool" where
  "validateMap cfg \<longleftrightarrow>
     (\<forall>C \<in> set [0 ..< unat (NumClasses cfg)]. validateClass cfg (of_nat C))
     \<and> (MaxSize cfg > push_bit 19 1
        \<or> (\<forall>S \<in> set [1 ..< Suc (unat (MaxSize cfg))]. validateSize cfg (of_nat S)))"

lemma classify_unique:
  assumes "valid_config cfg" and "1 \<le> c" and "c < num_classes cfg"
    and "unat s \<le> class_size cfg c + unat (SizeDelta cfg)"
    and "0 < unat s" and "1 < c \<Longrightarrow> class_size cfg (c - 1) + unat (SizeDelta cfg) < unat s"
  shows "unat (getClassIdBySize cfg s) = c"
proof -
  let ?k = "unat (getClassIdBySize cfg s)"
  have "unat s \<le> unat (MaxSize cfg)"
    using class_size_bound [OF assms(1,3)] assms(4) unat_MaxSize [OF assms(1)] by linarith
  then have k: "1 \<le> ?k" "unat s \<le> class_size cfg ?k + unat (SizeDelta cfg)"
    "1 < ?k \<Longrightarrow> class_size cfg (?k - 1) + unat (SizeDelta cfg) < unat s"
    using classify [OF assms(1), of s] assms(5) by simp_all
  note m = class_size_le [OF assms(1)]
  consider "?k < c" | "c < ?k" | "?k = c" by linarith
  then show ?thesis
  proof cases
    case 1
    then show ?thesis using k assms(6) m [of ?k "c - 1"] by linarith
  next
    case 2
    then show ?thesis using k assms(2,4) m [of c "?k - 1"] by linarith
  qed
qed

lemma validateClass_ok:
  assumes "valid_config cfg" and "unat C < num_classes cfg"
  shows "validateClass cfg C"
proof (cases "C = 0")
  case True
  then show ?thesis by (simp add: validateClass_def BatchClassId_def)
next
  case False
  let ?c = "unat C" and ?D = "unat (SizeDelta cfg)"
  define S where "S = getSizeByClassId cfg C"
  have c: "1 \<le> ?c" using False by (metis Suc_leI One_nat_def unat_gt_0)
  have uS: "unat S = class_size cfg ?c + ?D"
    unfolding S_def by (rule unat_getSizeByClassId [OF assms])
  have b: "class_size cfg ?c \<le> 2 ^ 47" "?D < 2 ^ 32"
    using class_size_bound [OF assms] valid_config_powers(4) [OF assms(1)] assms(1)
    by (simp_all add: valid_config_def)
  have prev: "class_size cfg (?c - 1) + 2 \<le> class_size cfg ?c"
    using class_size_mono [OF assms(1), of "?c - 1" ?c] c by simp
  have nz: "S \<noteq> 0" using uS prev by auto
  have S1: "unat (S + 1) = unat S + 1" using uS b by (subst unat_add_small) simp_all
  have Sm: "unat (S - 1) = unat S - 1" using nz by (rule unat_minus_one)
  have L: "unat (LargestClassId cfg) = num_classes cfg - 1" by (rule unat_LargestClassId [OF assms(1)])
  have "unat (getClassIdBySize cfg S) = ?c"
    using uS prev c assms(2) by (intro classify_unique [OF assms(1)]) linarith+
  moreover have "unat (getClassIdBySize cfg (S - 1)) = ?c"
    using uS prev c assms(2) Sm by (intro classify_unique [OF assms(1)]) linarith+
  moreover have "unat (getClassIdBySize cfg (S + 1)) = unat (C + 1)" if "C < LargestClassId cfg"
  proof -
    have lt: "?c + 1 < num_classes cfg" using that L by (simp add: word_less_nat_alt)
    then have e: "unat (C + 1) = ?c + 1"
      using num_classes_bound(1) [OF assms(1)] by (subst unat_add_small) simp_all
    show ?thesis
      unfolding e using uS lt S1 class_size_mono [OF assms(1), of ?c "?c + 1"]
      by (intro classify_unique [OF assms(1)]) simp_all
  qed
  moreover have "getSizeByClassId cfg (C - 1) < S" if "C - 1 \<noteq> 0"
  proof -
    have e: "unat (C - 1) = ?c - 1" using False by (rule unat_minus_one)
    then have "unat (getSizeByClassId cfg (C - 1)) = class_size cfg (?c - 1) + ?D"
      using assms by (subst unat_getSizeByClassId) simp_all
    then show ?thesis using uS prev by (simp add: word_less_nat_alt)
  qed
  ultimately show ?thesis
    using nz False unfolding validateClass_def Let_def S_def [symmetric] BatchClassId_def
    by (auto simp: word_unat_eq_iff)
qed

lemma validateSize_ok:
  assumes "valid_config cfg" and "0 < S" and "S \<le> MaxSize cfg"
  shows "validateSize cfg S"
proof -
  let ?c = "getClassIdBySize cfg S"
  have n: "0 < unat S" using assms(2) by (simp add: word_less_nat_alt)
  have k: "1 \<le> unat ?c" "unat ?c < num_classes cfg"
    "unat S \<le> class_size cfg (unat ?c) + unat (SizeDelta cfg)"
    "1 < unat ?c \<Longrightarrow> class_size cfg (unat ?c - 1) + unat (SizeDelta cfg) < unat S"
    using classify [OF assms(1), of S] assms(3) n by (simp_all add: word_le_nat_alt)
  have nz: "?c \<noteq> 0" using k(1) by auto
  have e: "unat (?c - 1) = unat ?c - 1" using nz by (rule unat_minus_one)
  have "getSizeByClassId cfg (?c - 1) < S" if "?c - 1 \<noteq> 0"
  proof -
    have "1 < unat ?c" using that e by (metis One_nat_def Suc_lessI k(1) diff_Suc_1 le_neq_implies_less unat_eq_zero)
    then show ?thesis
      using k e by (simp add: word_less_nat_alt) (subst unat_getSizeByClassId [OF assms(1)], simp_all)
  qed
  then show ?thesis
    using k unat_getSizeByClassId [OF assms(1) k(2)] unat_NumClasses [OF assms(1)]
    by (simp add: validateSize_def Let_def BatchClassId_def word_le_nat_alt word_less_nat_alt)
qed

text \<open>The run-time self check \<^verbatim>\<open>validateMap\<close> never dies on a well-formed configuration, so
  in particular not on the three configurations of the source: sizes and class ids are mutually
  consistent at \<open>S - 1\<close>, \<open>S\<close> and \<open>S + 1\<close> for every class size \<open>S\<close>.\<close>

theorem validateMap_passes:
  assumes "valid_config cfg"
  shows "validateMap cfg"
proof -
  have "validateClass cfg (of_nat C)" if "C < unat (NumClasses cfg)" for C
  proof -
    have "C < num_classes cfg" "C < 2 ^ LENGTH(64)"
      using that unat_NumClasses [OF assms] num_classes_bound(1) [OF assms] by simp_all
    then show ?thesis by (intro validateClass_ok [OF assms]) (simp only: unat_of_nat_small)
  qed
  moreover have "validateSize cfg (of_nat S)" if "1 \<le> S" "S < Suc (unat (MaxSize cfg))" for S
  proof -
    have "unat (MaxSize cfg) < 2 ^ LENGTH(64)" by simp
    then have "S < 2 ^ LENGTH(64)" using that by linarith
    then have "unat (of_nat S :: uptr) = S" by (rule unat_of_nat_small)
    then show ?thesis
      using that by (intro validateSize_ok [OF assms]) (simp_all add: word_less_nat_alt word_le_nat_alt)
  qed
  ultimately show ?thesis unfolding validateMap_def by (intro conjI ballI disjI2) auto
qed

theorem validateMap_passes_witness:
  "valid_config FuchsiaSizeClassConfig \<and> validateMap FuchsiaSizeClassConfig
    \<and> validateMap DefaultSizeClassConfig \<and> validateMap TrustySizeClassConfig"
  using valid_source_configs validateMap_passes by blast

end
