(* ===== verification/VectorBuf.thy ===== *)
theory VectorBuf
  imports Common
begin

text \<open>
  \<^verbatim>\<open>vector.h\<close>: a vector that keeps its elements inline up to a static capacity and moves
  them to a fresh mapping when it grows. A vector is the list of its first \<^verbatim>\<open>Size\<close> elements
  with the capacity in bytes and a flag that tells whether the elements are in the external
  buffer. The mapping call can fail: its outcome is the parameter \<open>map_ok\<close> of the operations
  that may grow the vector, and a failed growth leaves the vector as it was.
\<close>

section \<open>The vector\<close>

record 'a vec =
  Elems :: "'a list"
  CapacityBytes :: uptr
  External :: bool

definition vec_size :: "'a vec \<Rightarrow> uptr" where
  "vec_size v = of_nat (length (Elems v))"

definition capacity :: "uptr \<Rightarrow> 'a vec \<Rightarrow> uptr" where
  "capacity sizeofT v = CapacityBytes v div sizeofT"

text \<open>\<^verbatim>\<open>reallocate\<close> returns whether the new buffer could be mapped; the old external
  buffer is unmapped by \<^verbatim>\<open>destroy\<close>.\<close>

definition reallocate :: "(uptr \<Rightarrow> bool) \<Rightarrow> uptr \<Rightarrow> uptr \<Rightarrow> uptr \<Rightarrow> 'a vec \<Rightarrow> bool \<times> 'a vec" where
  "reallocate map_ok PageSize sizeofT NewCapacity v =
     (let NewCapacity = roundUp (NewCapacity * sizeofT) PageSize
      in if \<not> map_ok NewCapacity then (False, v)
         else (True, v\<lparr>CapacityBytes := NewCapacity, External := True\<rparr>))"

definition push_back :: "(uptr \<Rightarrow> bool) \<Rightarrow> uptr \<Rightarrow> uptr \<Rightarrow> 'a \<Rightarrow> 'a vec \<Rightarrow> 'a vec" where
  "push_back map_ok PageSize sizeofT Element v =
     (if vec_size v = capacity sizeofT v then
        let NewCapacity = roundUpPowerOfTwo (vec_size v + 1);
            (ok, v') = reallocate map_ok PageSize sizeofT NewCapacity v
        in if \<not> ok then v' else v'\<lparr>Elems := Elems v' @ [Element]\<rparr>
      else v\<lparr>Elems := Elems v @ [Element]\<rparr>)"

definition vec_nth :: "'a vec \<Rightarrow> uptr \<Rightarrow> 'a option" where
  "vec_nth v I = (if unat I < length (Elems v) then Some (Elems v ! unat I) else None)"

definition vec_back :: "'a vec \<Rightarrow> 'a option" where
  "vec_back v = vec_nth v (vec_size v - 1)"

definition pop_back :: "'a vec \<Rightarrow> 'a vec" where
  "pop_back v = v\<lparr>Elems := butlast (Elems v)\<rparr>"

definition reserve :: "(uptr \<Rightarrow> bool) \<Rightarrow> uptr \<Rightarrow> uptr \<Rightarrow> uptr \<Rightarrow> 'a vec \<Rightarrow> bool \<times> 'a vec" where
  "reserve map_ok PageSize sizeofT NewSize v =
     (if NewSize > capacity sizeofT v then reallocate map_ok PageSize sizeofT NewSize v
      else (True, v))"

text \<open>The new elements of a growing \<^verbatim>\<open>resize\<close> are all-zero bytes: \<open>zero\<close>.\<close>

definition resize ::
    "(uptr \<Rightarrow> bool) \<Rightarrow> uptr \<Rightarrow> uptr \<Rightarrow> 'a \<Rightarrow> uptr \<Rightarrow> 'a vec \<Rightarrow> 'a vec" where
  "resize map_ok PageSize sizeofT zero NewSize v =
     (if NewSize > vec_size v then
        let (ok, v') = reserve map_ok PageSize sizeofT NewSize v
        in if \<not> ok then v'
           else v'\<lparr>Elems := Elems v' @ replicate (unat (NewSize - vec_size v)) zero\<rparr>
      else v\<lparr>Elems := take (unat NewSize) (Elems v)\<rparr>)"

definition clear :: "'a vec \<Rightarrow> 'a vec" where
  "clear v = v\<lparr>Elems := []\<rparr>"

definition vec_empty :: "'a vec \<Rightarrow> bool" where
  "vec_empty v = (vec_size v = 0)"

definition vec_init ::
    "(uptr \<Rightarrow> bool) \<Rightarrow> uptr \<Rightarrow> uptr \<Rightarrow> uptr \<Rightarrow> uptr \<Rightarrow> 'a vec" where
  "vec_init map_ok PageSize sizeofT StaticNumEntries InitialCapacity =
     (let v = \<lparr>Elems = [], CapacityBytes = StaticNumEntries * sizeofT, External = False\<rparr>
      in if InitialCapacity > capacity sizeofT v
         then snd (reserve map_ok PageSize sizeofT InitialCapacity v) else v)"

section \<open>The invariant\<close>

text \<open>The elements fit in the capacity, and the capacity is far from wrapping around.\<close>

definition vec_inv :: "uptr \<Rightarrow> 'a vec \<Rightarrow> bool" where
  "vec_inv sizeofT v \<longleftrightarrow> 0 < sizeofT \<and> length (Elems v) * unat sizeofT \<le> unat (CapacityBytes v)"

definition small_vec :: "uptr \<Rightarrow> uptr \<Rightarrow> nat \<Rightarrow> bool" where
  "small_vec PageSize sizeofT n \<longleftrightarrow>
     isPowerOfTwo PageSize \<and> unat PageSize \<le> 2 ^ 16 \<and> 0 < sizeofT
     \<and> n < 2 ^ 48 \<and> 2 * (n + 1) * unat sizeofT < 2 ^ 62"

lemma unat_vec_size:
  assumes "small_vec PageSize sizeofT n" and "length (Elems v) \<le> n"
  shows "unat (vec_size v) = length (Elems v)"
  using assms unfolding vec_size_def small_vec_def by (intro unat_of_nat_small) simp

lemma unat_capacity: "unat (capacity sizeofT v) = unat (CapacityBytes v) div unat sizeofT"
  by (simp add: capacity_def unat_div)

lemma reallocate_capacity:
  assumes "small_vec PageSize sizeofT n" and "unat NewCapacity \<le> 2 * (n + 1)"
    and "reallocate map_ok PageSize sizeofT NewCapacity v = (True, v')"
  shows "unat NewCapacity * unat sizeofT \<le> unat (CapacityBytes v')" and "Elems v' = Elems v"
proof -
  have p: "isPowerOfTwo PageSize" "unat PageSize \<le> 2 ^ 16" "2 * (n + 1) * unat sizeofT < 2 ^ 62"
    using assms(1) by (simp_all add: small_vec_def)
  have "unat NewCapacity * unat sizeofT \<le> 2 * (n + 1) * unat sizeofT"
    using assms(2) by (rule mult_le_mono1)
  then have b: "unat NewCapacity * unat sizeofT < 2 ^ 62" using p(3) by linarith
  then have m: "unat (NewCapacity * sizeofT) = unat NewCapacity * unat sizeofT"
    by (subst unat_mult_small) simp_all
  have "unat (NewCapacity * sizeofT) + unat PageSize \<le> 2 ^ 64"
    using b p(2) unfolding m by simp
  then have "NewCapacity * sizeofT \<le> roundUp (NewCapacity * sizeofT) PageSize"
    using roundUp_least [OF p(1), of "NewCapacity * sizeofT"] by blast
  then show "unat NewCapacity * unat sizeofT \<le> unat (CapacityBytes v')" and "Elems v' = Elems v"
    using assms(3) by (auto simp: reallocate_def Let_def word_le_nat_alt m split: if_splits)
qed

lemma push_back_spec:
  assumes "vec_inv sizeofT v" and "small_vec PageSize sizeofT n" and "length (Elems v) \<le> n"
  shows "(Elems (push_back map_ok PageSize sizeofT x v) = Elems v @ [x]
      \<or> (push_back map_ok PageSize sizeofT x v = v \<and> (\<exists>c. \<not> map_ok c)))
    \<and> vec_inv sizeofT (push_back map_ok PageSize sizeofT x v)"
proof (cases "vec_size v = capacity sizeofT v")
  case False
  have s: "0 < unat sizeofT" "length (Elems v) * unat sizeofT \<le> unat (CapacityBytes v)"
    using assms(1) by (simp_all add: vec_inv_def word_less_nat_alt)
  have "length (Elems v) \<noteq> unat (CapacityBytes v) div unat sizeofT"
    using False unat_vec_size [OF assms(2,3)] unat_capacity [of sizeofT v]
    by (metis word_unat_eq_iff)
  moreover have "length (Elems v) \<le> unat (CapacityBytes v) div unat sizeofT"
    using s by (simp add: less_eq_div_iff_mult_less_eq)
  ultimately have "Suc (length (Elems v)) \<le> unat (CapacityBytes v) div unat sizeofT" by simp
  then have "Suc (length (Elems v)) * unat sizeofT \<le> unat (CapacityBytes v)"
    using s(1) by (simp only: less_eq_div_iff_mult_less_eq)
  then show ?thesis using False assms(1) by (simp add: push_back_def vec_inv_def)
next
  case True
  let ?N = "roundUpPowerOfTwo (vec_size v + 1)"
  obtain ok v' where r: "reallocate map_ok PageSize sizeofT ?N v = (ok, v')"
    by (cases "reallocate map_ok PageSize sizeofT ?N v")
  have n: "n < 2 ^ 48" using assms(2) by (simp add: small_vec_def)
  have u: "unat (vec_size v + 1) = Suc (length (Elems v))"
    using n assms(3) by (subst unat_add_small) (simp_all add: unat_vec_size [OF assms(2,3)])
  show ?thesis
  proof (cases ok)
    case False
    then have "v' = v \<and> (\<exists>c. \<not> map_ok c)" using r by (auto simp: reallocate_def Let_def split: if_splits)
    then show ?thesis using True False r assms(1) by (simp add: push_back_def)
  next
    case True
    have nz: "vec_size v + 1 \<noteq> 0" using u by (metis nat.distinct(1) unat_0)
    have up: "vec_size v + 1 \<le> ?N" "unat ?N \<le> 2 * (n + 1)"
      using roundUpPowerOfTwo_bounds [OF nz] u n assms(3) by (simp_all add: word_le_nat_alt)
    have e: "Elems v' = Elems v" and c: "unat ?N * unat sizeofT \<le> unat (CapacityBytes v')"
      using reallocate_capacity [OF assms(2) up(2)] r True by simp_all
    have "Suc (length (Elems v)) * unat sizeofT \<le> unat ?N * unat sizeofT"
      using up(1) u by (intro mult_le_mono1) (simp add: word_le_nat_alt)
    then have "Suc (length (Elems v)) * unat sizeofT \<le> unat (CapacityBytes v')" using c by linarith
    then show ?thesis
      using True r e assms(1) \<open>vec_size v = capacity sizeofT v\<close>
      by (simp add: push_back_def vec_inv_def)
  qed
qed

lemma push_back_appends:
  assumes "vec_inv sizeofT v" and "small_vec PageSize sizeofT n" and "length (Elems v) \<le> n"
    and "\<forall>c. map_ok c"
  shows "Elems (push_back map_ok PageSize sizeofT x v) = Elems v @ [x]"
    and "vec_inv sizeofT (push_back map_ok PageSize sizeofT x v)"
  using push_back_spec [OF assms(1-3), of map_ok x] assms(4) by auto

lemma resize_spec:
  assumes "vec_inv sizeofT v" and "small_vec PageSize sizeofT n" and "length (Elems v) \<le> n"
    and "unat NewSize \<le> n"
  shows "(Elems (resize map_ok PageSize sizeofT zero NewSize v)
        = take (unat NewSize) (Elems v @ replicate (unat NewSize - length (Elems v)) zero)
      \<or> (resize map_ok PageSize sizeofT zero NewSize v = v \<and> (\<exists>c. \<not> map_ok c)))
    \<and> vec_inv sizeofT (resize map_ok PageSize sizeofT zero NewSize v)"
proof (cases "vec_size v < NewSize")
  case False
  then have "unat NewSize \<le> length (Elems v)"
    using unat_vec_size [OF assms(2,3)] by (simp add: word_less_nat_alt)
  moreover from this have "unat NewSize * unat sizeofT \<le> unat (CapacityBytes v)"
    using assms(1) unfolding vec_inv_def by (meson le_trans mult_le_mono1)
  ultimately show ?thesis using False assms(1) by (simp add: resize_def vec_inv_def)
next
  case True
  obtain ok v' where r: "reserve map_ok PageSize sizeofT NewSize v = (ok, v')"
    by (cases "reserve map_ok PageSize sizeofT NewSize v")
  have len: "length (Elems v) < unat NewSize"
    "unat (NewSize - vec_size v) = unat NewSize - length (Elems v)"
    using True unat_vec_size [OF assms(2,3)]
    by (simp_all add: word_less_nat_alt unat_sub word_le_nat_alt)
  have s: "0 < unat sizeofT" using assms(1) by (simp add: vec_inv_def word_less_nat_alt)
  show ?thesis
  proof (cases ok)
    case False
    then have "v' = v \<and> (\<exists>c. \<not> map_ok c)"
      using r by (auto simp: reserve_def reallocate_def Let_def split: if_splits)
    then show ?thesis using True False r assms(1) by (simp add: resize_def)
  next
    case ok: True
    have c: "Elems v' = Elems v \<and> unat NewSize * unat sizeofT \<le> unat (CapacityBytes v')"
    proof (cases "NewSize > capacity sizeofT v")
      case True
      then have "reallocate map_ok PageSize sizeofT NewSize v = (True, v')"
        using r ok by (simp add: reserve_def)
      moreover have "unat NewSize \<le> 2 * (n + 1)" using assms(4) by simp
      ultimately show ?thesis using reallocate_capacity [OF assms(2)] by blast
    next
      case False
      then have "v' = v" using r by (simp add: reserve_def)
      moreover have "unat NewSize \<le> unat (CapacityBytes v) div unat sizeofT"
        using False unat_capacity [of sizeofT v] by (simp add: word_less_nat_alt)
      ultimately show ?thesis using s by (simp add: less_eq_div_iff_mult_less_eq)
    qed
    then show ?thesis
      using True ok r len assms(1) by (simp add: resize_def vec_inv_def)
  qed
qed

text \<open>Pushing a list one element at a time, as the string formatter does.\<close>

definition push_all :: "(uptr \<Rightarrow> bool) \<Rightarrow> uptr \<Rightarrow> uptr \<Rightarrow> 'a list \<Rightarrow> 'a vec \<Rightarrow> 'a vec" where
  "push_all map_ok PageSize sizeofT xs v = fold (push_back map_ok PageSize sizeofT) xs v"

lemma push_all_appends:
  assumes "vec_inv sizeofT v" and "small_vec PageSize sizeofT n"
    and "length (Elems v) + length xs \<le> n" and "\<forall>c. map_ok c"
  shows "Elems (push_all map_ok PageSize sizeofT xs v) = Elems v @ xs"
    and "vec_inv sizeofT (push_all map_ok PageSize sizeofT xs v)"
proof -
  have "Elems (fold (push_back map_ok PageSize sizeofT) xs v) = Elems v @ xs
      \<and> vec_inv sizeofT (fold (push_back map_ok PageSize sizeofT) xs v)"
    using assms(1,3)
  proof (induction xs arbitrary: v)
    case (Cons x xs)
    have "length (Elems v) \<le> n" using Cons.prems by simp
    note p = push_back_appends [OF Cons.prems(1) assms(2) this assms(4), of x]
    then show ?case using Cons.IH [OF p(2)] Cons.prems by simp
  qed simp
  then show "Elems (push_all map_ok PageSize sizeofT xs v) = Elems v @ xs"
    and "vec_inv sizeofT (push_all map_ok PageSize sizeofT xs v)" by (simp_all add: push_all_def)
qed

end
