(* ===== verification/StringUtils.thy ===== *)
theory StringUtils
  imports VectorBuf "HOL-Library.Char_ord"
begin

text \<open>
  \<^verbatim>\<open>string_utils.cpp\<close>: the small printf of the allocator. The functions that append to a
  \<^verbatim>\<open>ScopedString\<close> are modelled by the characters they push, in order; \<open>vappend\<close> then pushes them
  on the character vector and restores the terminator. Format strings and string arguments are
  character lists without their NUL. A failing \<^verbatim>\<open>RAW_CHECK\<close> or \<^verbatim>\<open>CHECK\<close> is an error value, and so is
  a missing variadic argument (undefined behaviour in C).

  The lemmas show that printing a number never fails a check of \<^verbatim>\<open>appendNumber\<close> and that the
  printed characters read back as the number, with the padding that was asked for.
\<close>

unbundle bit_operations_syntax

section \<open>Numbers\<close>

datatype fmt_error = FmtCheckFailed | FmtMissingArgument

definition chr :: "nat \<Rightarrow> char" where
  "chr n = char_of n"

text \<open>The \<^verbatim>\<open>do ... while\<close> loop that fills \<open>NumBuffer\<close>; \<open>Pos\<close> counts the digits
  written and the \<^verbatim>\<open>RAW_CHECK_MSG\<close> on it is the error.\<close>

function number_digits :: "u64 \<Rightarrow> u64 \<Rightarrow> nat \<Rightarrow> fmt_error + uptr list" where
  "number_digits AbsoluteValue Base Pos =
     (if \<not> Pos < 30 then Inl FmtCheckFailed
      else let d = AbsoluteValue mod Base; AbsoluteValue' = AbsoluteValue div Base
           in if AbsoluteValue' > 0
              then bindE (number_digits AbsoluteValue' Base (Suc Pos)) (\<lambda>ds. Inr (d # ds))
              else Inr [d])"
  by pat_completeness auto
termination by (relation "measure (\<lambda>(_, _, Pos). 30 - Pos)") auto

declare number_digits.simps [simp del]

definition digit_char :: "bool \<Rightarrow> uptr \<Rightarrow> char" where
  "digit_char Upper d =
     (let Digit = unat d
      in if Digit < 10 then chr (48 + Digit) else chr ((if Upper then 65 else 97) + Digit - 10))"

text \<open>The two printing loops, on the reversed buffer: leading zero digits become padding, the
  digit at position 0 always prints.\<close>

fun leading_zeros :: "bool \<Rightarrow> uptr list \<Rightarrow> string \<times> uptr list" where
  "leading_zeros PadWithZero [] = ([], [])"
| "leading_zeros PadWithZero (d # ds) =
     (if d = 0 then
        let c = (if PadWithZero \<or> ds = [] then chr 48 else chr 32);
            (s, rest) = leading_zeros PadWithZero ds
        in (c # s, rest)
      else ([], d # ds))"

definition appendNumber ::
    "u64 \<Rightarrow> u8 \<Rightarrow> u8 \<Rightarrow> bool \<Rightarrow> bool \<Rightarrow> bool \<Rightarrow> fmt_error + string" where
  "appendNumber AbsoluteValue Base MinNumberLength PadWithZero Negative Upper =
     (if \<not> (Base = 10 \<or> Base = 16) then Inl FmtCheckFailed
      else if \<not> (Base = 10 \<or> \<not> Negative) then Inl FmtCheckFailed
      else if \<not> (AbsoluteValue \<noteq> 0 \<or> \<not> Negative) then Inl FmtCheckFailed
      else if \<not> (MinNumberLength < 30) then Inl FmtCheckFailed
      else
        let MinNumberLength = (if Negative \<and> MinNumberLength \<noteq> 0 then MinNumberLength - 1
                               else MinNumberLength)
        in bindE (number_digits AbsoluteValue (ucast Base) 0)
             (\<lambda>NumBuffer.
               let NumBuffer = NumBuffer @ replicate (unat MinNumberLength - length NumBuffer) 0;
                   (pad, digits) = leading_zeros PadWithZero (rev NumBuffer)
               in Inr ((if Negative \<and> PadWithZero then [chr 45] else []) @ pad
                       @ (if Negative \<and> \<not> PadWithZero then [chr 45] else [])
                       @ map (digit_char Upper) digits)))"

definition appendUnsigned :: "u64 \<Rightarrow> u8 \<Rightarrow> u8 \<Rightarrow> bool \<Rightarrow> bool \<Rightarrow> fmt_error + string" where
  "appendUnsigned Num Base MinNumberLength PadWithZero Upper =
     appendNumber Num Base MinNumberLength PadWithZero False Upper"

definition appendSignedDecimal :: "64 word \<Rightarrow> u8 \<Rightarrow> bool \<Rightarrow> fmt_error + string" where
  "appendSignedDecimal Num MinNumberLength PadWithZero =
     (let Negative = (sint Num < 0);
          UnsignedNum = (if sint Num = - (2 ^ 63) then (2 ^ 63 - 1) + 1
                         else if Negative then - Num else Num)
      in appendNumber UnsignedNum 10 MinNumberLength PadWithZero Negative False)"

text \<open>A null \<open>S\<close> is \<open>None\<close>; \<open>Width\<close> and \<open>MaxChars\<close> are C integers.\<close>

definition appendString :: "int \<Rightarrow> int \<Rightarrow> string option \<Rightarrow> string" where
  "appendString Width MaxChars S =
     (let S = (case S of Some s \<Rightarrow> s | None \<Rightarrow> ''<null>'');
          out = (if MaxChars \<ge> 0 then take (nat MaxChars) S else S);
          NumChars = int (length out)
      in if Width < 0 then out @ replicate (nat (- Width - NumChars)) (chr 32) else out)"

text \<open>\<open>SCUDO_POINTER_FORMAT_LENGTH\<close> is 12 on the 64-bit targets.\<close>

definition appendPointer :: "u64 \<Rightarrow> fmt_error + string" where
  "appendPointer ptr_value =
     bindE (appendUnsigned ptr_value 16 12 True False)
       (\<lambda>s. Inr (appendString 0 (-1) (Some ''0x'') @ s))"

section \<open>Format strings\<close>

text \<open>
  Variadic arguments: numbers as the 64 bits of their slot, of which \<^verbatim>\<open>va_arg(Args, int)\<close> and
  \<^verbatim>\<open>va_arg(Args, unsigned)\<close> read the low 32, and strings.
\<close>

datatype fmt_arg = ArgNum u64 | ArgStr "string option"

fun va_u64 :: "fmt_arg list \<Rightarrow> fmt_error + u64 \<times> fmt_arg list" where
  "va_u64 (ArgNum n # as) = Inr (n, as)"
| "va_u64 _ = Inl FmtMissingArgument"

fun va_str :: "fmt_arg list \<Rightarrow> fmt_error + string option \<times> fmt_arg list" where
  "va_str (ArgStr s # as) = Inr (s, as)"
| "va_str _ = Inl FmtMissingArgument"

definition va_int :: "fmt_arg list \<Rightarrow> fmt_error + 64 word \<times> fmt_arg list" where
  "va_int as = bindE (va_u64 as) (\<lambda>(n, as'). Inr (scast (ucast n :: 32 word), as'))"

definition va_unsigned :: "fmt_arg list \<Rightarrow> fmt_error + u64 \<times> fmt_arg list" where
  "va_unsigned as = bindE (va_u64 as) (\<lambda>(n, as'). Inr (ucast (ucast n :: u32), as'))"

definition is_digit_char :: "char \<Rightarrow> bool" where
  "is_digit_char c \<longleftrightarrow> 48 \<le> (of_char c :: nat) \<and> (of_char c :: nat) \<le> 57"

fun parse_width :: "u8 \<Rightarrow> string \<Rightarrow> u8 \<times> string" where
  "parse_width Width [] = (Width, [])"
| "parse_width Width (c # cs) =
     (if is_digit_char c then parse_width (Width * 10 + of_char c - 48) cs else (Width, c # cs))"

text \<open>Flags, width, precision and length modifiers of one directive, up to the conversion
  character.\<close>

record fmt_spec =
  LeftJustified :: bool
  HaveWidth :: bool
  PadZero :: bool
  Width :: u8
  Precision :: int
  HaveZ :: bool
  HaveLL :: bool

definition HaveLength :: "fmt_spec \<Rightarrow> bool" where
  "HaveLength sp = (HaveZ sp \<or> HaveLL sp)"

definition HaveFlags :: "fmt_spec \<Rightarrow> bool" where
  "HaveFlags sp = (HaveWidth sp \<or> HaveLength sp)"

definition parse_flags :: "string \<Rightarrow> (bool \<times> bool \<times> bool \<times> u8) \<times> string" where
  "parse_flags Cur =
     (let LeftJust = (Cur \<noteq> [] \<and> hd Cur = CHR ''-'');
          Cur = (if LeftJust then tl Cur else Cur);
          HaveW = (Cur \<noteq> [] \<and> is_digit_char (hd Cur));
          PadZ = (Cur \<noteq> [] \<and> hd Cur = CHR ''0'')
      in if HaveW then let (W, Cur') = parse_width 0 Cur in ((LeftJust, True, PadZ, W), Cur')
         else ((LeftJust, False, PadZ, 0), Cur))"

definition parse_length_mods :: "string \<Rightarrow> (bool \<times> bool) \<times> string" where
  "parse_length_mods Cur =
     (let HZ = (Cur \<noteq> [] \<and> hd Cur = CHR ''z'');
          Cur = (if HZ then tl Cur else Cur);
          HLL = (\<not> HZ \<and> take 2 Cur = ''ll'')
      in ((HZ, HLL), if HLL then drop 2 Cur else Cur))"

definition parse_spec :: "string \<Rightarrow> fmt_arg list \<Rightarrow> fmt_error + fmt_spec \<times> string \<times> fmt_arg list" where
  "parse_spec Cur Args =
     (let ((LeftJust, HaveW, PadZ, W), Cur) = parse_flags Cur;
          HavePrecision = (take 2 Cur = ''.*'')
      in bindE (if HavePrecision then bindE (va_int Args) (\<lambda>(n, as). Inr (sint n, as))
                else Inr (-1, Args))
           (\<lambda>(Prec, Args).
             let ((HZ, HLL), Cur) = parse_length_mods (if HavePrecision then drop 2 Cur else Cur)
             in Inr (\<lparr>LeftJustified = LeftJust, HaveWidth = HaveW, PadZero = PadZ, Width = W,
                       Precision = Prec, HaveZ = HZ, HaveLL = HLL\<rparr>, Cur, Args)))"

text \<open>The \<^verbatim>\<open>switch\<close> on the conversion character: what is pushed, the format after the
  conversion, and the remaining arguments. An empty rest stands for the terminator, which no
  \<^verbatim>\<open>case\<close> accepts.\<close>

definition convert ::
    "fmt_spec \<Rightarrow> string \<Rightarrow> fmt_arg list \<Rightarrow> fmt_error + string \<times> string \<times> fmt_arg list" where
  "convert sp Cur Args =
     (case Cur of [] \<Rightarrow> Inl FmtCheckFailed
      | c # Cur' \<Rightarrow>
        if (Precision sp \<ge> 0 \<or> LeftJustified sp) \<and> c \<noteq> CHR ''s'' then Inl FmtCheckFailed
        else if c = CHR ''d'' then
          bindE (if HaveLL sp \<or> HaveZ sp then va_u64 Args else va_int Args)
            (\<lambda>(DVal, Args'). bindE (appendSignedDecimal DVal (Width sp) (PadZero sp))
              (\<lambda>s. Inr (s, Cur', Args')))
        else if c = CHR ''u'' \<or> c = CHR ''x'' \<or> c = CHR ''X'' then
          bindE (if HaveLL sp \<or> HaveZ sp then va_u64 Args else va_unsigned Args)
            (\<lambda>(UVal, Args').
              bindE (appendUnsigned UVal (if c = CHR ''u'' then 10 else 16) (Width sp) (PadZero sp)
                       (c = CHR ''X''))
                (\<lambda>s. Inr (s, Cur', Args')))
        else if c = CHR ''p'' then
          if HaveFlags sp then Inl FmtCheckFailed
          else bindE (va_u64 Args) (\<lambda>(p, Args'). bindE (appendPointer p) (\<lambda>s. Inr (s, Cur', Args')))
        else if c = CHR ''s'' then
          if HaveLength sp then Inl FmtCheckFailed
          else if HaveWidth sp \<and> \<not> LeftJustified sp then Inl FmtCheckFailed
          else bindE (va_str Args)
                 (\<lambda>(S, Args'). Inr (appendString (if LeftJustified sp then - int (unat (Width sp))
                                                else int (unat (Width sp))) (Precision sp) S,
                                 Cur', Args'))
        else if c = CHR ''c'' then
          if HaveFlags sp then Inl FmtCheckFailed
          else bindE (va_int Args) (\<lambda>(n, Args'). Inr ([chr (unat (ucast n :: u8))], Cur', Args'))
        else if c = CHR ''l'' then
          (case Cur' of [] \<Rightarrow> Inl FmtCheckFailed
           | e # Cur'' \<Rightarrow>
             if e = CHR ''d'' then
               bindE (va_u64 Args)
                 (\<lambda>(DVal, Args'). bindE (appendSignedDecimal DVal (Width sp) (PadZero sp))
                   (\<lambda>s. Inr (s, Cur'', Args')))
             else if e = CHR ''u'' then
               bindE (va_u64 Args)
                 (\<lambda>(UVal, Args'). bindE (appendUnsigned UVal 10 (Width sp) (PadZero sp) False)
                   (\<lambda>s. Inr (s, Cur'', Args')))
             else Inl FmtCheckFailed)
        else if c = CHR ''%'' then
          if HaveFlags sp then Inl FmtCheckFailed else Inr (''%'', Cur', Args)
        else Inl FmtCheckFailed)"

lemma parse_width_length: "length (snd (parse_width W cs)) \<le> length cs"
  by (induction W cs rule: parse_width.induct) auto

lemma parse_flags_length: "length (snd (parse_flags Cur)) \<le> length Cur"
proof -
  define C where "C = (if Cur \<noteq> [] \<and> hd Cur = CHR ''-'' then tl Cur else Cur)"
  have "length C \<le> length Cur" by (simp add: C_def)
  moreover have "snd (parse_flags Cur) = C \<or> snd (parse_flags Cur) = snd (parse_width 0 C)"
    unfolding parse_flags_def Let_def C_def [symmetric] by (simp add: split_beta)
  ultimately show ?thesis using parse_width_length [of 0 C] by auto
qed

lemma parse_length_mods_length: "length (snd (parse_length_mods Cur)) \<le> length Cur"
  by (auto simp: parse_length_mods_def Let_def)

lemma parse_spec_length:
  assumes "parse_spec Cur Args = Inr (sp, Cur', Args')"
  shows "length Cur' \<le> length Cur"
proof -
  obtain f C1 where f: "parse_flags Cur = (f, C1)" by (cases "parse_flags Cur")
  obtain l j p w where f': "f = (l, j, p, w)" by (cases f) auto
  define C2 where "C2 = (if take 2 C1 = ''.*'' then drop 2 C1 else C1)"
  obtain h2 h1 C3 where m: "parse_length_mods C2 = ((h2, h1), C3)" by (metis surj_pair)
  have "Cur' = C3"
    using assms m by (simp add: parse_spec_def f f' Let_def C2_def [symmetric] bindE_eq_Inr split_beta)
      (auto simp: split_beta)
  then show ?thesis
    using parse_flags_length [of Cur] parse_length_mods_length [of C2] f m by (simp add: C2_def split: if_splits)
qed

lemma convert_length: "convert sp Cur Args = Inr (s, Cur', Args') \<Longrightarrow> length Cur' < length Cur"
  by (auto simp: convert_def bindE_eq_Inr split: list.splits if_splits)

function vappend_chars :: "string \<Rightarrow> fmt_arg list \<Rightarrow> fmt_error + string" where
  "vappend_chars [] Args = Inr []"
| "vappend_chars (c # Cur) Args =
     (if c \<noteq> CHR ''%'' then bindE (vappend_chars Cur Args) (\<lambda>out. Inr (c # out))
      else case parse_spec Cur Args of Inl e \<Rightarrow> Inl e
           | Inr (sp, Cur1, Args1) \<Rightarrow>
             (case convert sp Cur1 Args1 of Inl e \<Rightarrow> Inl e
              | Inr (s, Cur2, Args2) \<Rightarrow> bindE (vappend_chars Cur2 Args2) (\<lambda>out. Inr (s @ out))))"
  by pat_completeness auto
termination
  by (relation "measure (\<lambda>(Cur, Args). length Cur)")
    (auto dest!: parse_spec_length convert_length)

section \<open>ScopedString\<close>

text \<open>The character vector holds the text and its terminator; the inline capacity is 256.\<close>

type_synonym scoped_string = "char vec"

definition nul :: char where "nul = chr 0"

definition ScopedString_init :: scoped_string where
  "ScopedString_init = push_back (\<lambda>_. False) 4096 1 nul (vec_init (\<lambda>_. False) 4096 1 256 0)"

definition ScopedString_length :: "scoped_string \<Rightarrow> uptr" where
  "ScopedString_length str = vec_size str - 1"

definition ScopedString_clear ::
    "(uptr \<Rightarrow> bool) \<Rightarrow> uptr \<Rightarrow> scoped_string \<Rightarrow> scoped_string" where
  "ScopedString_clear map_ok PageSize str = push_back map_ok PageSize 1 nul (clear str)"

definition vappend ::
    "(uptr \<Rightarrow> bool) \<Rightarrow> uptr \<Rightarrow> string \<Rightarrow> fmt_arg list \<Rightarrow> scoped_string \<Rightarrow> fmt_error + scoped_string" where
  "vappend map_ok PageSize Format Args str =
     (let str = resize map_ok PageSize 1 nul (vec_size str - 1) str
      in bindE (vappend_chars Format Args)
           (\<lambda>out.
             let str = push_all map_ok PageSize 1 out str;
                 str = push_back map_ok PageSize 1 nul str
             in Inr (if vec_back str \<noteq> Some nul
                     then str\<lparr>Elems := list_update (Elems str) (length (Elems str) - 1) nul\<rparr>
                     else str)))"

section \<open>Printed numbers read back\<close>

fun digits_value :: "nat \<Rightarrow> uptr list \<Rightarrow> nat" where
  "digits_value b [] = 0"
| "digits_value b (d # ds) = unat d + b * digits_value b ds"

lemma number_digits_ok:
  assumes "1 < unat Base" and "unat n < unat Base ^ Suc k" and "Pos + k < 30"
  shows "\<exists>ds. number_digits n Base Pos = Inr ds \<and> digits_value (unat Base) ds = unat n
    \<and> (\<forall>d \<in> set ds. unat d < unat Base) \<and> ds \<noteq> [] \<and> (ds = [0] \<or> last ds \<noteq> 0)
    \<and> length ds \<le> Suc k"
  using assms(2,3)
proof (induction k arbitrary: n Pos)
  case 0
  then have l: "unat n < unat Base" by simp
  then have "n div Base = 0" "n mod Base = n"
    by (simp_all add: word_unat_eq_iff unat_div unat_mod)
  then show ?case using 0 l by (simp add: number_digits.simps [of n])
next
  case (Suc k)
  let ?q = "n div Base"
  have q: "unat ?q < unat Base ^ Suc k"
    using Suc.prems(1) assms(1) by (simp add: unat_div less_mult_imp_div_less mult.commute)
  have m: "unat (n mod Base) < unat Base" using assms(1) by (simp add: unat_mod)
  have v: "unat (n mod Base) + unat Base * unat ?q = unat n" by (simp add: unat_div unat_mod)
  show ?case
  proof (cases "?q = 0")
    case True
    then have "unat n = unat (n mod Base)" using v by simp
    then show ?thesis using True Suc.prems m by (simp add: number_digits.simps [of n])
  next
    case False
    obtain ds where ds: "number_digits ?q Base (Suc Pos) = Inr ds" "digits_value (unat Base) ds = unat ?q"
      "\<forall>d \<in> set ds. unat d < unat Base" "ds \<noteq> []" "ds = [0] \<or> last ds \<noteq> 0" "length ds \<le> Suc k"
      using Suc.IH [OF q, of "Suc Pos"] Suc.prems(2) by auto
    have "ds \<noteq> [0]" using ds(2) False unat_eq_zero [of ?q] by auto
    moreover have "0 < ?q" using False by (simp add: word_neq_0_conv)
    moreover have "number_digits n Base Pos = Inr (n mod Base # ds)"
      using \<open>0 < ?q\<close> Suc.prems(2) ds(1) by (simp add: number_digits.simps [of n] Let_def)
    ultimately show ?thesis using ds m v by auto
  qed
qed

text \<open>Reading a printed number: a digit counts its value, padding counts nothing.\<close>

definition char_value :: "char \<Rightarrow> nat" where
  "char_value c = (let k = of_char c in
     if 48 \<le> k \<and> k \<le> 57 then k - 48 else if 97 \<le> k \<and> k \<le> 102 then k - 87
     else if 65 \<le> k \<and> k \<le> 70 then k - 55 else 0)"

definition read_number :: "nat \<Rightarrow> string \<Rightarrow> nat" where
  "read_number b s = foldl (\<lambda>acc c. acc * b + char_value c) 0 s"

lemma char_value_digit: "unat d < 16 \<Longrightarrow> char_value (digit_char Upper d) = unat d"
  by (simp add: char_value_def digit_char_def chr_def Let_def)

lemma char_value_pad: "char_value (chr 48) = 0" "char_value (chr 32) = 0"
  by (simp_all add: char_value_def chr_def Let_def)

lemma leading_zeros_spec:
  "leading_zeros P ds = (pad, rest) \<Longrightarrow>
    \<exists>n. ds = replicate n 0 @ rest \<and> length pad = n \<and> (\<forall>c \<in> set pad. char_value c = 0)
      \<and> (rest = [] \<or> hd rest \<noteq> 0)"
proof (induction P ds arbitrary: pad rest rule: leading_zeros.induct)
  case (2 P d ds)
  show ?case
  proof (cases "d = 0")
    case True
    obtain s r where sr: "leading_zeros P ds = (s, r)" by (cases "leading_zeros P ds")
    obtain n where "ds = replicate n 0 @ r" "length s = n" "\<forall>c \<in> set s. char_value c = 0"
      "r = [] \<or> hd r \<noteq> 0" using "2.IH" True sr by blast
    then show ?thesis using "2.prems" True sr
      by (intro exI [of _ "Suc n"]) (auto simp: Let_def char_value_pad)
  next
    case False
    then show ?thesis using "2.prems" by auto
  qed
qed simp

lemma read_digits:
  assumes "\<forall>d \<in> set ds. unat d < 16"
  shows "foldl (\<lambda>acc c. acc * b + char_value c) a (map (digit_char U) (rev ds))
    = a * b ^ length ds + digits_value b ds"
  using assms by (induction ds arbitrary: a) (simp_all add: char_value_digit algebra_simps)

lemma read_zeros: "\<forall>c \<in> set s. char_value c = 0 \<Longrightarrow>
    foldl (\<lambda>acc c. acc * b + char_value c) 0 s = 0"
  by (induction s rule: rev_induct) auto

lemma digits_value_zeros: "digits_value b (ds @ replicate n 0) = digits_value b ds"
  by (induction ds) (induction n, simp_all)

lemma number_digits_64:
  assumes "Base = 10 \<or> Base = 16"
  obtains ds where "number_digits Num (ucast (Base :: u8)) 0 = Inr ds"
    and "digits_value (unat Base) ds = unat Num" and "\<forall>d \<in> set ds. unat d < unat Base"
    and "ds \<noteq> []"
proof -
  have B: "unat (ucast Base :: uptr) = unat Base" by (rule unat_ucast_up) simp
  have B1: "1 < unat Base" "10 \<le> unat Base" using assms(1) by auto
  have "(18446744073709551616 :: nat) < 10 ^ Suc 28" by simp
  with unat_less_64 [of Num] have "unat Num < 10 ^ Suc 28" by (rule less_trans)
  also have "(10::nat) ^ Suc 28 \<le> unat Base ^ Suc 28" using B1(2) by (rule power_mono) simp
  finally have lt: "unat Num < unat Base ^ Suc 28" .
  show ?thesis
    using number_digits_ok [of "ucast Base" Num 28 0] lt B1(1) that unfolding B by auto
qed

lemma appendUnsigned_value:
  assumes "Base = 10 \<or> Base = 16" and "w < 30"
  shows "\<exists>s. appendUnsigned Num Base w Pad Upper = Inr s
    \<and> read_number (unat Base) s = unat Num \<and> unat w \<le> length s"
proof -
  have B1: "10 \<le> unat Base" "unat Base \<le> 16" using assms(1) by auto
  obtain ds where ds: "number_digits Num (ucast Base) 0 = Inr ds" "digits_value (unat Base) ds = unat Num"
    "\<forall>d \<in> set ds. unat d < unat Base" "ds \<noteq> []"
    using number_digits_64 [OF assms(1)] .
  define nb where "nb = ds @ replicate (unat w - length ds) 0"
  obtain pad rest where pr: "leading_zeros Pad (rev nb) = (pad, rest)" by (cases "leading_zeros Pad (rev nb)")
  obtain n where n: "rev nb = replicate n 0 @ rest" "length pad = n" "\<forall>c \<in> set pad. char_value c = 0"
    using leading_zeros_spec [OF pr] by blast
  have r: "appendUnsigned Num Base w Pad Upper = Inr (pad @ map (digit_char Upper) rest)"
    using assms ds(1) pr by (auto simp: appendUnsigned_def appendNumber_def nb_def)
  have nb: "nb = rev rest @ replicate n 0" using n(1) by (metis rev_append rev_replicate rev_rev_ident)
  have dr: "\<forall>d \<in> set (rev rest). unat d < 16"
  proof
    fix d assume "d \<in> set (rev rest)"
    then have "d \<in> set nb" by (simp add: nb)
    then have "d = 0 \<or> d \<in> set ds" by (auto simp: nb_def)
    then show "unat d < 16" using ds(3) B1 by fastforce
  qed
  have "read_number (unat Base) (pad @ map (digit_char Upper) rest) = digits_value (unat Base) (rev rest)"
    using read_digits [OF dr, of "unat Base" 0 Upper] read_zeros [OF n(3), of "unat Base"]
    by (simp add: read_number_def)
  also have "\<dots> = digits_value (unat Base) nb" by (simp add: nb digits_value_zeros)
  also have "\<dots> = unat Num" by (simp add: nb_def digits_value_zeros ds(2))
  finally have v: "read_number (unat Base) (pad @ map (digit_char Upper) rest) = unat Num" .
  have "length (pad @ map (digit_char Upper) rest) = length nb" using n by (simp add: nb)
  also have "unat w \<le> length nb" by (simp add: nb_def)
  finally have "unat w \<le> length (pad @ map (digit_char Upper) rest)" .
  then show ?thesis using r v by blast
qed

text \<open>For base 10 and base 16 and any width below the buffer length, \<^verbatim>\<open>appendUnsigned\<close>
  fails none of its checks (the 30-digit buffer never overflows on a 64-bit number), prints at
  least as many characters as the width asks for, and the printed characters read back, padding
  counting nothing, as the number.\<close>

theorem appendUnsigned_reads_back:
  assumes "Base = 10 \<or> Base = 16" and "MinNumberLength < 30"
  shows "\<exists>s. appendUnsigned Num Base MinNumberLength PadWithZero Upper = Inr s
    \<and> read_number (unat Base) s = unat Num \<and> unat MinNumberLength \<le> length s"
  using assms by (rule appendUnsigned_value)

theorem appendUnsigned_reads_back_witness:
  "appendUnsigned 291 16 12 True False = Inr ''000000000123''
    \<and> (\<exists>s. appendUnsigned 291 16 12 True False = Inr s \<and> read_number 16 s = 291)"
proof -
  have "appendUnsigned 291 16 12 True False = Inr ''000000000123''" by code_simp
  then show ?thesis using appendUnsigned_reads_back [of 16 12 291 True False] by simp
qed

section \<open>The terminator\<close>

lemma push_back_nonempty:
  "Elems (push_back map_ok P z x v) = Elems v @ [x] \<or> push_back map_ok P z x v = v
    \<or> Elems (push_back map_ok P z x v) = Elems v"
  by (auto simp: push_back_def reallocate_def Let_def)

lemma push_all_prefix: "\<exists>ys. Elems (push_all map_ok P z xs v) = Elems v @ ys \<and> length ys \<le> length xs"
proof (induction xs arbitrary: v)
  case (Cons x xs)
  obtain ys where "Elems (push_all map_ok P z xs (push_back map_ok P z x v))
      = Elems (push_back map_ok P z x v) @ ys" "length ys \<le> length xs"
    using Cons.IH by blast
  then show ?case using push_back_nonempty [of map_ok P z x v] by (auto simp: push_all_def)
qed (simp add: push_all_def)

lemma resize_down:
  assumes "length (Elems v) < 2 ^ 64" and "Elems v \<noteq> []"
  shows "Elems (resize map_ok P z zero (vec_size v - 1) v) = butlast (Elems v)"
proof -
  have u: "unat (vec_size v) = length (Elems v)"
    using assms(1) unfolding vec_size_def by (intro unat_of_nat_small) simp
  then have nz: "vec_size v \<noteq> 0" using assms(2) by auto
  have m: "unat (vec_size v - 1) = length (Elems v) - 1" using nz by (simp add: unat_minus_one u)
  have "\<not> vec_size v < vec_size v - 1" unfolding word_less_nat_alt m u by simp
  then show ?thesis by (simp add: resize_def m butlast_conv_take)
qed

lemma vec_back_last:
  assumes "length (Elems v) < 2 ^ 64" and "Elems v \<noteq> []"
  shows "vec_back v = Some (last (Elems v))"
proof -
  have u: "unat (vec_size v) = length (Elems v)"
    using assms(1) unfolding vec_size_def by (intro unat_of_nat_small) simp
  then have nz: "vec_size v \<noteq> 0" using assms(2) by auto
  then show ?thesis using assms(2)
    by (simp add: vec_back_def vec_nth_def unat_minus_one u last_conv_nth)
qed

lemma vappend_terminated_aux:
  assumes "vappend map_ok PageSize Format Args str = Inr str'"
    and "2 \<le> length (Elems str)" and "vappend_chars Format Args = Inr out"
    and "length (Elems str) + length out < 2 ^ 63"
  shows "Elems str' \<noteq> [] \<and> last (Elems str') = nul
    \<and> take (length (Elems str) - 2) (Elems str') = take (length (Elems str) - 2) (Elems str)"
proof -
  define s1 where "s1 = resize map_ok PageSize 1 nul (vec_size str - 1) str"
  define s2 where "s2 = push_all map_ok PageSize 1 out s1"
  define s3 where "s3 = push_back map_ok PageSize 1 nul s2"
  have e1: "Elems s1 = butlast (Elems str)"
    unfolding s1_def using assms(2,4) by (intro resize_down) auto
  obtain ys where e2: "Elems s2 = Elems s1 @ ys" "length ys \<le> length out"
    using push_all_prefix [of map_ok PageSize 1 out s1] by (auto simp: s2_def)
  obtain zs where e3: "Elems s3 = Elems s2 @ zs" "length zs \<le> 1"
    using push_back_nonempty [of map_ok PageSize 1 nul s2] unfolding s3_def
    by (metis append_Nil2 list.size(3) le_numeral_extra(3) less_eq_nat.simps(1) One_nat_def length_Cons order_refl)
  have ne: "Elems s3 \<noteq> []" using e1 e2 e3 assms(2) by (cases "Elems str" rule: rev_cases) auto
  have len: "length (Elems s3) < 2 ^ 64" using e1 e2 e3 assms(4) by simp
  have b: "vec_back s3 = Some (last (Elems s3))" by (rule vec_back_last [OF len ne])
  have "vappend map_ok PageSize Format Args str = Inr (if vec_back s3 \<noteq> Some nul
      then s3\<lparr>Elems := list_update (Elems s3) (length (Elems s3) - 1) nul\<rparr> else s3)"
    by (simp add: vappend_def Let_def assms(3) s1_def s2_def s3_def)
  then have str': "str' = (if vec_back s3 \<noteq> Some nul
      then s3\<lparr>Elems := list_update (Elems s3) (length (Elems s3) - 1) nul\<rparr> else s3)"
    using assms(1) by (simp only: sum.inject)
  have l: "last (Elems str') = nul" "Elems str' \<noteq> []"
    using str' b ne by (auto simp: last_list_update)
  have t3: "take (length (Elems str) - 2) (Elems s3) = take (length (Elems str) - 2) (Elems str)"
    using e1 e2 e3 assms(2) by (simp add: butlast_conv_take)
  have "length (Elems str) - 2 \<le> length (Elems s3) - 1"
    using e1 e2 e3 by simp
  then have "take (length (Elems str) - 2) (Elems str') = take (length (Elems str) - 2) (Elems s3)"
    using str' by simp
  then show ?thesis using l t3 by simp
qed

lemma vappend_text:
  assumes "vec_inv 1 str" and "Elems str = old @ [nul]" and "vappend_chars Format Args = Inr out"
    and "small_vec PageSize 1 n" and "length old + length out + 1 \<le> n" and "\<forall>c. map_ok c"
  shows "\<exists>str'. vappend map_ok PageSize Format Args str = Inr str'
    \<and> Elems str' = old @ out @ [nul] \<and> vec_inv 1 str'"
proof -
  define s1 where "s1 = resize map_ok PageSize 1 nul (vec_size str - 1) str"
  define s2 where "s2 = push_all map_ok PageSize 1 out s1"
  define s3 where "s3 = push_back map_ok PageSize 1 nul s2"
  have n: "n < 2 ^ 48" using assms(4) by (simp add: small_vec_def)
  have len: "length (Elems str) \<le> n" using assms(2,5) by simp
  have u: "unat (vec_size str) = length (Elems str)" by (rule unat_vec_size [OF assms(4) len])
  then have "vec_size str \<noteq> 0" using assms(2) by auto
  then have m: "unat (vec_size str - 1) = length old" by (simp add: unat_minus_one u assms(2))
  have e1: "Elems s1 = old"
    unfolding s1_def using n len assms(2) by (subst resize_down) auto
  have "unat (vec_size str - 1) \<le> n" using m assms(5) by simp
  then have i1: "vec_inv 1 s1"
    unfolding s1_def using resize_spec [OF assms(1,4) len] by blast
  have "length (Elems s1) + length out \<le> n" using e1 assms(5) by simp
  note p2 = push_all_appends [OF i1 assms(4) this assms(6)]
  have l2: "length (Elems s2) \<le> n" using p2(1) e1 assms(5) by (simp add: s2_def)
  have i2: "vec_inv 1 s2" using p2(2) by (simp add: s2_def)
  note p3 = push_back_appends [OF i2 assms(4) l2 assms(6), of nul]
  have e3: "Elems s3 = old @ out @ [nul]" using p3(1) p2(1) e1 by (simp add: s3_def s2_def)
  have "length (Elems s3) < 2 ^ 64" using e3 assms(5) n by simp
  then have "vec_back s3 = Some nul" using e3 vec_back_last [of s3] by simp
  then have "vappend map_ok PageSize Format Args str = Inr s3"
    using assms(3) by (simp add: vappend_def Let_def s1_def s2_def s3_def)
  then show ?thesis using e3 p3(2) by (auto simp: s3_def)
qed

text \<open>\<^verbatim>\<open>ScopedString::vappend\<close> on a string whose old is short of the vector's limits: when the
  buffer can grow the new old is the old one followed by exactly the formatted characters, and
  whether or not it can grow, the result is NUL-terminated and keeps the old old up to its last
  character.\<close>

theorem vappend_appends_text:
  assumes "vec_inv 1 str" and "Elems str = old @ [nul]" and "vappend_chars Format Args = Inr out"
    and "small_vec PageSize 1 n" and "length old + length out + 1 \<le> n" and "old \<noteq> []"
    and "vappend map_ok PageSize Format Args str = Inr str'"
  shows "last (Elems str') = nul \<and> take (length old - 1) (Elems str') = butlast old
    \<and> ((\<forall>c. map_ok c) \<longrightarrow> Elems str' = old @ out @ [nul] \<and> vec_inv 1 str')"
proof -
  have n: "n < 2 ^ 48" using assms(4) by (simp add: small_vec_def)
  have l: "2 \<le> length (Elems str)" "length (Elems str) + length out < 2 ^ 63"
    using assms(2,5,6) n by (cases old; simp)+
  have "last (Elems str') = nul \<and> take (length old - 1) (Elems str') = butlast old"
    using vappend_terminated_aux [OF assms(7) l(1) assms(3) l(2)] assms(2)
    by (simp add: butlast_conv_take)
  then show ?thesis using vappend_text [OF assms(1-5), of map_ok] assms(7) by auto
qed

theorem vappend_appends_text_witness:
  "\<exists>str'. vappend (\<lambda>_. True) 4096 ''%u%%'' [ArgNum 42] \<lparr>Elems = ''ab'' @ [nul], CapacityBytes = 256, External = False\<rparr> = Inr str'
    \<and> Elems str' = ''ab42%'' @ [nul]"
proof -
  let ?s = "\<lparr>Elems = ''ab'' @ [nul], CapacityBytes = 256, External = False\<rparr>"
  have c: "vappend_chars ''%u%%'' [ArgNum 42] = Inr ''42%''" by code_simp
  have v: "vec_inv 1 ?s" by (simp add: vec_inv_def)
  have s: "small_vec 4096 1 100" by (simp add: small_vec_def isPowerOfTwo_def)
  obtain str' where r: "vappend (\<lambda>_. True) 4096 ''%u%%'' [ArgNum 42] ?s = Inr str'"
    using c by (simp add: vappend_def Let_def)
  then have "Elems str' = ''ab'' @ ''42%'' @ [nul]"
    using vappend_appends_text [OF v _ c s, of "''ab''" "\<lambda>_. True" str'] by simp
  then show ?thesis using r by auto
qed

section \<open>Format strings that cannot fail\<close>

text \<open>
  A check of a format string against the kinds of its arguments, for directives without
  precision: the widths fit the number buffer, and every conversion finds an argument of its
  kind. A format that passes formats every list of arguments of those kinds.
\<close>

datatype arg_kind = KNum | KStr

fun kind_of :: "fmt_arg \<Rightarrow> arg_kind" where
  "kind_of (ArgNum n) = KNum"
| "kind_of (ArgStr s) = KStr"

definition conv_l :: "string \<Rightarrow> (arg_kind list \<times> string) option" where
  "conv_l Cur =
     (case Cur of [] \<Rightarrow> None | e # Cur' \<Rightarrow> if e \<in> {CHR ''d'', CHR ''u''} then Some ([KNum], Cur') else None)"

lemma conv_l_eq_Some:
  "conv_l Cur = Some (ks, Cur') \<longleftrightarrow> ks = [KNum] \<and> (\<exists>e \<in> {CHR ''d'', CHR ''u''}. Cur = e # Cur')"
  by (cases Cur) (auto simp: conv_l_def)

lemma conv_l_used: "conv_l Cur = Some (ks, Cur') \<Longrightarrow> ks = [KNum]"
  by (simp add: conv_l_eq_Some)

definition conv_kind :: "fmt_spec \<Rightarrow> string \<Rightarrow> (arg_kind list \<times> string) option" where
  "conv_kind sp Cur =
     (case Cur of [] \<Rightarrow> None
      | c # Cur' \<Rightarrow>
        if c = CHR ''s'' then
          (if HaveLength sp \<or> (HaveWidth sp \<and> \<not> LeftJustified sp) then None else Some ([KStr], Cur'))
        else if LeftJustified sp \<or> \<not> Width sp < 30 then None
        else if c \<in> {CHR ''d'', CHR ''u'', CHR ''x'', CHR ''X''} then Some ([KNum], Cur')
        else if c = CHR ''l'' then conv_l Cur'
        else if HaveFlags sp then None
        else if c \<in> {CHR ''p'', CHR ''c''} then Some ([KNum], Cur')
        else if c = CHR ''%'' then Some ([], Cur')
        else None)"

definition spec_of :: "string \<Rightarrow> (fmt_spec \<times> string) option" where
  "spec_of Cur =
     (let ((l, h, p, w), C1) = parse_flags Cur
      in if take 2 C1 = ''.*'' then None
         else let ((hz, hll), C2) = parse_length_mods C1
              in Some (\<lparr>LeftJustified = l, HaveWidth = h, PadZero = p, Width = w, Precision = -1,
                        HaveZ = hz, HaveLL = hll\<rparr>, C2))"

lemma spec_of_parse: "spec_of Cur = Some (sp, C2) \<Longrightarrow> parse_spec Cur Args = Inr (sp, C2, Args) \<and> Precision sp = -1"
  by (auto simp: spec_of_def parse_spec_def Let_def split: prod.splits if_splits)

lemma conv_kind_length: "conv_kind sp Cur = Some (ks, Cur') \<Longrightarrow> length Cur' < length Cur"
  by (auto simp: conv_kind_def conv_l_eq_Some split: list.splits if_splits)

lemma spec_of_length: "spec_of Cur = Some (sp, C2) \<Longrightarrow> length C2 \<le> length Cur"
  using spec_of_parse [of Cur sp C2 "[]"] parse_spec_length by blast

function fmt_check :: "string \<Rightarrow> arg_kind list \<Rightarrow> bool" where
  "fmt_check [] ks = True"
| "fmt_check (c # Cur) ks =
     (if c \<noteq> CHR ''%'' then fmt_check Cur ks
      else case spec_of Cur of None \<Rightarrow> False
           | Some (sp, C1) \<Rightarrow>
             (case conv_kind sp C1 of None \<Rightarrow> False
              | Some (used, C2) \<Rightarrow>
                take (length used) ks = used \<and> fmt_check C2 (drop (length used) ks)))"
  by pat_completeness auto
termination
  by (relation "measure (\<lambda>(Cur, ks). length Cur)") (auto dest!: spec_of_length conv_kind_length)

lemma appendSignedDecimal_ok: "w < 30 \<Longrightarrow> \<exists>s. appendSignedDecimal n w p = Inr s"
proof -
  assume w: "w < 30"
  define u where "u = (if sint n = - (2 ^ 63) then (2 ^ 63 - 1) + 1 else if sint n < 0 then - n else n)"
  have nz: "u \<noteq> 0 \<or> \<not> sint n < 0" by (auto simp: u_def)
  obtain ds where "number_digits u 10 0 = Inr ds"
    using number_digits_64 [of 10 u] by auto
  then have "\<exists>s. appendNumber u 10 w p (sint n < 0) False = Inr s"
    using nz w by (auto simp: appendNumber_def Let_def split_beta)
  then show ?thesis by (simp add: appendSignedDecimal_def Let_def u_def)
qed

lemma va_num:
  "kind_of a = KNum \<Longrightarrow> \<exists>n. va_u64 (a # as) = Inr (n, as)"
  "kind_of a = KNum \<Longrightarrow> \<exists>n. va_int (a # as) = Inr (n, as)"
  "kind_of a = KNum \<Longrightarrow> \<exists>n. va_unsigned (a # as) = Inr (n, as)"
  "kind_of a = KStr \<Longrightarrow> \<exists>s. va_str (a # as) = Inr (s, as)"
  by (cases a; simp add: va_int_def va_unsigned_def)+

lemma convert_ok:
  assumes "conv_kind sp Cur = Some (used, Cur')" and "Precision sp = -1"
    and "take (length used) (map kind_of as) = used"
  shows "\<exists>s. convert sp Cur as = Inr (s, Cur', drop (length used) as)"
proof (cases Cur)
  case (Cons c cs)
  note nums = appendUnsigned_value [of 10] appendUnsigned_value [of 16]
  show ?thesis
  proof (cases "used = []")
    case True
    then show ?thesis using assms(1,2) Cons
      by (auto simp: conv_kind_def conv_l_eq_Some convert_def split: if_splits)
  next
    case False
    have "used = [] \<or> used = [KStr] \<or> used = [KNum]"
      using assms(1) conv_l_used [of cs used Cur'] unfolding Cons conv_kind_def list.case
      by (simp only: option.inject prod.inject split: if_split_asm) blast+
    with False obtain k where u: "used = [k]" by blast
    then obtain a as' where as: "as = a # as'" "kind_of a = k" using assms(3) by (cases as) auto
    have ptr: "\<exists>s. appendPointer n = Inr s" for n
      using nums(2) [of 12 n True False] by (auto simp: appendPointer_def)
    have uns: "Width sp < 30 \<Longrightarrow> \<exists>s. appendUnsigned n (if b then 10 else 16) (Width sp) p q = Inr s" for n b p q
      using nums(1) [of "Width sp" n p q] nums(2) [of "Width sp" n p q] by (cases b) auto
    have sgn: "Width sp < 30 \<Longrightarrow> \<exists>s. appendSignedDecimal n (Width sp) p = Inr s" for n p
      by (rule appendSignedDecimal_ok)
    consider "c = CHR ''s''" "k = KStr" | "c = CHR ''d''" "k = KNum" "Width sp < 30"
      | "c \<in> {CHR ''u'', CHR ''x'', CHR ''X''}" "k = KNum" "Width sp < 30"
      | "c \<in> {CHR ''p'', CHR ''c''}" "k = KNum"
      | e where "c = CHR ''l''" "cs = e # Cur'" "e \<in> {CHR ''d'', CHR ''u''}" "k = KNum" "Width sp < 30"
      using assms(1) Cons u by (auto simp: conv_kind_def conv_l_eq_Some split: if_splits)
    then show ?thesis
    proof cases
      case 1
      then show ?thesis using assms(1,2) Cons u as va_num(4) [of a as']
        by (auto simp: conv_kind_def convert_def split: if_splits)
    next
      case 2
      obtain n1 n2 where n: "va_u64 (a # as') = Inr (n1, as')" "va_int (a # as') = Inr (n2, as')"
        using va_num(1,2) [of a as'] as 2 by auto
      obtain s1 s2 where "appendSignedDecimal n1 (Width sp) (PadZero sp) = Inr s1"
        "appendSignedDecimal n2 (Width sp) (PadZero sp) = Inr s2" using sgn 2 by blast
      then show ?thesis using assms(1,2) Cons u as n 2
        by (auto simp: conv_kind_def convert_def split: if_splits)
    next
      case 3
      obtain n1 n2 where n: "va_u64 (a # as') = Inr (n1, as')" "va_unsigned (a # as') = Inr (n2, as')"
        using va_num(1,3) [of a as'] as 3 by auto
      obtain s1 s2 where
        "appendUnsigned n1 (if c = CHR ''u'' then 10 else 16) (Width sp) (PadZero sp) (c = CHR ''X'') = Inr s1"
        "appendUnsigned n2 (if c = CHR ''u'' then 10 else 16) (Width sp) (PadZero sp) (c = CHR ''X'') = Inr s2"
        using uns 3 by blast
      then show ?thesis using assms(1,2) Cons u as n 3
        by (auto simp: conv_kind_def convert_def split: if_splits)
    next
      case 4
      obtain n1 n2 where n: "va_u64 (a # as') = Inr (n1, as')" "va_int (a # as') = Inr (n2, as')"
        using va_num(1,2) [of a as'] as 4 by auto
      obtain s1 where "appendPointer n1 = Inr s1" using ptr by blast
      then show ?thesis using assms(1,2) Cons u as n 4
        by (auto simp: conv_kind_def convert_def split: if_splits)
    next
      case 5
      obtain n where n: "va_u64 (a # as') = Inr (n, as')" using va_num(1) [of a as'] as 5 by auto
      obtain s1 s2 where "appendSignedDecimal n (Width sp) (PadZero sp) = Inr s1"
        "appendUnsigned n 10 (Width sp) (PadZero sp) False = Inr s2" using sgn uns [of n True] 5 by (metis (full_types))
      moreover have "\<not> LeftJustified sp" using assms(1) Cons 5 by (auto simp: conv_kind_def split: if_splits)
      ultimately show ?thesis using assms(2) Cons u as n 5 by (auto simp: convert_def)
    qed
  qed
qed (use assms(1) in \<open>simp add: conv_kind_def\<close>)

lemma fmt_check_sound:
  "fmt_check Format (map kind_of Args) \<Longrightarrow> \<exists>s. vappend_chars Format Args = Inr s"
proof (induction Format "map kind_of Args" arbitrary: Args rule: fmt_check.induct)
  case (2 c Cur)
  show ?case
  proof (cases "c = CHR ''%''")
    case False
    then obtain s where "vappend_chars Cur Args = Inr s" using 2 by auto
    then show ?thesis using False by simp
  next
    case True
    then obtain sp C1 used C2 where p: "spec_of Cur = Some (sp, C1)" "conv_kind sp C1 = Some (used, C2)"
      "take (length used) (map kind_of Args) = used"
      "fmt_check C2 (drop (length used) (map kind_of Args))"
      using "2.prems" by (auto split: option.splits)
    obtain s where s: "convert sp C1 Args = Inr (s, C2, drop (length used) Args)"
      using convert_ok [OF p(2) _ p(3)] spec_of_parse [OF p(1)] by blast
    have "\<exists>s'. vappend_chars C2 (drop (length used) Args) = Inr s'"
      using "2.hyps"(2) [of "(sp, C1)" sp C1 "(used, C2)" used C2 "drop (length used) Args"] True p
      by (simp add: drop_map)
    then show ?thesis using True s spec_of_parse [OF p(1), of Args] by auto
  qed
qed simp

end
