(* ===== verification/Report.thy ===== *)
theory Report
  imports StringUtils
begin

text \<open>
  \<^verbatim>\<open>report.h\<close>, \<^verbatim>\<open>report.cpp\<close> and \<^verbatim>\<open>report_linux.cpp\<close>: the fatal reports. Every report ends the
  program, so a report is a value of \<open>scudo_error\<close> and an operation that may report returns
  \<open>Inl\<close> of it. The second part builds the text of each report from its format strings; the
  theorem says that no report can itself fail while it formats its message.

  \<open>CheckFailed\<close> is a failing \<^verbatim>\<open>CHECK\<close>, named by its condition. \<open>NullDeref\<close> is a read through a
  null pointer, \<open>OutOfBounds\<close> an access outside of an array and \<open>Diverges\<close> a loop of the code that does
  not end; none of them prints a report.
\<close>

unbundle bit_operations_syntax

section \<open>Errors\<close>

datatype AllocatorAction = Recycling | Deallocating | Reallocating | Sizing

datatype scudo_error =
    CheckFailed string
  | GenericError string
  | InvalidFlag string string
  | HeaderCorruption u64 uptr
  | SanityCheckError string
  | AlignmentTooBig uptr uptr
  | AllocationSizeTooBig uptr uptr uptr
  | OutOfBatchClass
  | OutOfMemory uptr
  | InvalidChunkState AllocatorAction uptr
  | MisalignedPointer AllocatorAction uptr
  | DeallocTypeMismatch AllocatorAction uptr u8 u8
  | DeleteSizeMismatch uptr uptr uptr
  | AlignmentNotPowerOfTwo uptr
  | CallocOverflow uptr uptr
  | InvalidPosixMemalignAlignment uptr
  | PvallocOverflow uptr
  | InvalidAlignedAllocAlignment uptr uptr
  | MapError uptr
  | UnmapError uptr uptr
  | ProtectError uptr uptr s32
  | NullDeref
  | OutOfBounds
  | Diverges

type_synonym 'a result = "scudo_error + 'a"

definition CHECK :: "bool \<Rightarrow> string \<Rightarrow> unit result" where
  "CHECK b cond = (if b then Inr () else Inl (CheckFailed cond))"

lemma CHECK_simps [simp]: "CHECK True c = Inr ()" "CHECK False c = Inl (CheckFailed c)"
  by (simp_all add: CHECK_def)

lemma CHECK_eq_Inr [simp]: "CHECK b c = Inr u \<longleftrightarrow> b"
  by (simp add: CHECK_def)

section \<open>Messages\<close>

definition stringifyAction :: "AllocatorAction \<Rightarrow> string" where
  "stringifyAction Action =
     (case Action of Recycling \<Rightarrow> ''recycling'' | Deallocating \<Rightarrow> ''deallocating''
      | Reallocating \<Rightarrow> ''reallocating'' | Sizing \<Rightarrow> ''sizing'')"

abbreviation StrArg :: "string \<Rightarrow> fmt_arg" where "StrArg s \<equiv> ArgStr (Some s)"

abbreviation newline :: string where "newline \<equiv> [chr 10]"

text \<open>Where a failing check is: \<^verbatim>\<open>__FILE__\<close>, \<^verbatim>\<open>__LINE__\<close> and the two operands. The last
  component is \<^verbatim>\<open>strerror(errno)\<close> for the platform reports.\<close>

record report_site =
  SiteFile :: string
  SiteLine :: u64
  SiteValue1 :: u64
  SiteValue2 :: u64
  SiteStrerror :: string

text \<open>The \<^verbatim>\<open>append\<close> calls of each report, in order, after the constructor of
  \<^verbatim>\<open>ScopedErrorReport\<close>.\<close>

definition report_appends ::
    "report_site \<Rightarrow> uptr \<Rightarrow> scudo_error \<Rightarrow> (string \<times> fmt_arg list) list" where
  "report_appends site PageSize e =
     (case e of
        CheckFailed Condition \<Rightarrow>
          [(''CHECK failed @ %s:%d %s ((u64)op1=%llu, (u64)op2=%llu)'' @ newline,
            [StrArg (SiteFile site), ArgNum (SiteLine site), StrArg Condition, ArgNum (SiteValue1 site), ArgNum (SiteValue2 site)])]
      | GenericError Message \<Rightarrow> [(''%s'' @ newline, [StrArg Message])]
      | InvalidFlag FlagType Value \<Rightarrow>
          [(''invalid value for %s option: '' @ [chr 39] @ ''%s'' @ [chr 39] @ newline, [StrArg FlagType, StrArg Value])]
      | HeaderCorruption Header Ptr \<Rightarrow>
          [(''corrupted chunk header at address %p'', [ArgNum Ptr]),
           if Header = 0
           then ('': chunk header is zero and might indicate memory corruption or a double free'' @ newline, [])
           else ('': most likely due to memory corruption'' @ newline, [])]
      | SanityCheckError field \<Rightarrow>
          [(''maximum possible %s doesn'' @ [chr 39] @ ''t fit in header'' @ newline, [StrArg field])]
      | AlignmentTooBig Alignment MaxAlignment \<Rightarrow>
          [(''invalid allocation alignment: %zu exceeds maximum supported alignment of %zu'' @ newline,
            [ArgNum Alignment, ArgNum MaxAlignment])]
      | AllocationSizeTooBig UserSize TotalSize MaxSize \<Rightarrow>
          [(''requested allocation size %zu (%zu after adjustments) exceeds maximum supported size of %zu'' @ newline,
            [ArgNum UserSize, ArgNum TotalSize, ArgNum MaxSize])]
      | OutOfBatchClass \<Rightarrow>
          [(''BatchClass region is used up, can'' @ [chr 39] @ ''t hold any free block'' @ newline, [])]
      | OutOfMemory RequestedSize \<Rightarrow>
          [(''out of memory trying to allocate %zu bytes'' @ newline, [ArgNum RequestedSize])]
      | InvalidChunkState Action Ptr \<Rightarrow>
          [(''invalid chunk state when %s address %p'' @ newline, [StrArg (stringifyAction Action), ArgNum Ptr])]
      | MisalignedPointer Action Ptr \<Rightarrow>
          [(''misaligned pointer when %s address %p'' @ newline, [StrArg (stringifyAction Action), ArgNum Ptr])]
      | DeallocTypeMismatch Action Ptr TypeA TypeB \<Rightarrow>
          [(''allocation type mismatch when %s address %p (%d vs %d)'' @ newline,
            [StrArg (stringifyAction Action), ArgNum Ptr, ArgNum (ucast TypeA), ArgNum (ucast TypeB)])]
      | DeleteSizeMismatch Ptr Size ExpectedSize \<Rightarrow>
          [(''invalid sized delete when deallocating address %p (%zu vs %zu)'' @ newline,
            [ArgNum Ptr, ArgNum Size, ArgNum ExpectedSize])]
      | AlignmentNotPowerOfTwo Alignment \<Rightarrow>
          [(''invalid allocation alignment: %zu, alignment must be a power of two'' @ newline,
            [ArgNum Alignment])]
      | CallocOverflow Count Size \<Rightarrow>
          [(''calloc parameters overflow: count * size (%zu * %zu) cannot be represented with type size_t'' @ newline,
            [ArgNum Count, ArgNum Size])]
      | InvalidPosixMemalignAlignment Alignment \<Rightarrow>
          [(''invalid alignment requested in posix_memalign: %zu, alignment must be a power of two and a multiple of sizeof(void *) == %zu'' @ newline,
            [ArgNum Alignment, ArgNum 8])]
      | PvallocOverflow Size \<Rightarrow>
          [(''pvalloc parameters overflow: size %zu rounded up to system page size %zu cannot be represented in type size_t'' @ newline,
            [ArgNum Size, ArgNum PageSize])]
      | InvalidAlignedAllocAlignment Alignment Size \<Rightarrow>
          [(''invalid alignment requested in aligned_alloc: %zu, alignment must be a power of two and the requested size %zu must be a multiple of alignment'' @ newline,
            [ArgNum Alignment, ArgNum Size])]
      | MapError SizeIfOOM \<Rightarrow>
          [(''internal map failure (error desc=%s)'', [StrArg (SiteStrerror site)])]
          @ (if SizeIfOOM \<noteq> 0 then [('' requesting %zuKB'', [ArgNum (drop_bit 10 SizeIfOOM)])] else [])
          @ [(newline, [])]
      | UnmapError Addr Size \<Rightarrow>
          [(''internal unmap failure (error desc=%s) Addr 0x%zx Size %zu'' @ newline,
            [StrArg (SiteStrerror site), ArgNum Addr, ArgNum Size])]
      | ProtectError Addr Size Prot \<Rightarrow>
          [(''internal protect failure (error desc=%s) Addr 0x%zx Size %zu Prot %x'' @ newline,
            [StrArg (SiteStrerror site), ArgNum Addr, ArgNum Size, ArgNum (scast Prot)])]
      | NullDeref \<Rightarrow> []
      | OutOfBounds \<Rightarrow> []
      | Diverges \<Rightarrow> [])"

fun append_calls :: "(string \<times> fmt_arg list) list \<Rightarrow> fmt_error + string" where
  "append_calls [] = Inr []"
| "append_calls ((Format, Args) # rest) =
     bindE (vappend_chars Format Args) (\<lambda>s. bindE (append_calls rest) (\<lambda>t. Inr (s @ t)))"

definition report_text :: "report_site \<Rightarrow> uptr \<Rightarrow> scudo_error \<Rightarrow> fmt_error + string" where
  "report_text site PageSize e = append_calls ((''Scudo ERROR: '', []) # report_appends site PageSize e)"

lemma append_calls_ok:
  "\<forall>(f, as) \<in> set calls. fmt_check f (map kind_of as) \<Longrightarrow> \<exists>s. append_calls calls = Inr s"
proof (induction calls)
  case (Cons c calls)
  obtain f as where c: "c = (f, as)" by (cases c)
  obtain s where s: "vappend_chars f as = Inr s" using Cons.prems fmt_check_sound [of f as] c by auto
  obtain t where "append_calls calls = Inr t" using Cons by auto
  then show ?case using c s by simp
qed simp

declare fmt_check.simps [simp del]

lemma report_appends_checked:
  "\<forall>(f, as) \<in> set (report_appends site PageSize e). fmt_check f (map kind_of as)"
  by (cases e; simp add: report_appends_def; code_simp)

text \<open>No report fails while it formats its message: for every error, every operand and every
  string argument, the format directives of \<^verbatim>\<open>report.cpp\<close> match their arguments, and the text
  starts with the prefix that \<^verbatim>\<open>ScopedErrorReport\<close> puts there.\<close>

theorem report_text_total:
  "\<exists>s. report_text site PageSize e = Inr (''Scudo ERROR: '' @ s)"
proof -
  have "vappend_chars ''Scudo ERROR: '' [] = Inr ''Scudo ERROR: ''" by code_simp
  then show ?thesis
    using append_calls_ok [OF report_appends_checked, of site PageSize e]
    by (auto simp: report_text_def)
qed

end
