(* ===== verification/Memtag.thy ===== *)
theory Memtag
  imports Common
begin

text \<open>
  \<^verbatim>\<open>memtag.h\<close> (its \<^verbatim>\<open>SCUDO_ZIMTE\<close> branch) and \<^verbatim>\<open>memtag_zimte.h\<close>: pointer tags
  and memory tags on 16-byte granules. The memory is a record of bytes and granule
  tags. The instructions behind \<^verbatim>\<open>__builtin_riscv_zimte_gentag\<close>,
  \<^verbatim>\<open>__builtin_riscv_zimte_addtag\<close> and \<^verbatim>\<open>__builtin_riscv_zimte_settag\<close> are compiler builtins
  that are not part of the sources: they are the fields of a parameter \<open>zimte\<close>, and
  \<open>zimte_isa\<close> states what their documentation says: the whitepaper
  \<^verbatim>\<open>references/RISC-V-MTE-Whitepaper.pdf\<close> (sections 2.3 and 2.4) and the comments of \<^verbatim>\<open>memtag.h\<close>.
  The pointer tag is 4 bits wide. The whitepaper puts it in the highest bits, from bit 60;
  \<^verbatim>\<open>extractTag\<close> reads bits 56 to 59. The position is a field of the parameter, and
  \<open>zimte_isa\<close> allows both. \<open>zimte_ref\<close> is a concrete instance, with the position of the
  whitepaper, on which the witnesses run.

  The lemmas describe which granules a tagging loop changes and to what, in particular for a
  range that does not end on a granule boundary.
\<close>

unbundle bit_operations_syntax

section \<open>Memory\<close>

record memory =
  mem_byte :: "uptr \<Rightarrow> u8"
  mem_tag :: "nat \<Rightarrow> uptr"

record zimte =
  tag_lsb :: nat
  builtin_gentag :: "uptr \<Rightarrow> uptr"
  builtin_addtag :: "uptr \<Rightarrow> uptr \<Rightarrow> uptr"
  builtin_settag :: "uptr \<Rightarrow> uptr \<Rightarrow> memory \<Rightarrow> memory"

section \<open>Pointers and their tags\<close>

definition archSupportsMemoryTagging :: bool where
  "archSupportsMemoryTagging = True"

definition archMemoryTagGranuleSize :: uptr where
  "archMemoryTagGranuleSize = 16"

definition untagPointer :: "uptr \<Rightarrow> uptr" where
  "untagPointer Ptr = Ptr AND (push_bit 56 1 - 1)"

definition extractTag :: "uptr \<Rightarrow> uptr" where
  "extractTag Ptr = drop_bit 56 Ptr AND 0xf"

text \<open>\<^verbatim>\<open>getenv("SCUDO_MTE_ENABLE")\<close> is the argument; a missing variable is \<open>None\<close>.\<close>

definition systemSupportsMemoryTagging :: "string option \<Rightarrow> bool" where
  "systemSupportsMemoryTagging env = (case env of Some v \<Rightarrow> v = ''1'' | None \<Rightarrow> False)"

definition SCUDO_MIN_ALIGNMENT_LOG :: nat where
  "SCUDO_MIN_ALIGNMENT_LOG = 4"

definition allocatorSupportsMemoryTagging :: "bool \<Rightarrow> bool" where
  "allocatorSupportsMemoryTagging MaySupportMemoryTagging =
     (archSupportsMemoryTagging \<and> MaySupportMemoryTagging
      \<and> push_bit SCUDO_MIN_ALIGNMENT_LOG 1 \<ge> archMemoryTagGranuleSize)"

text \<open>The number of the 16-byte granule that a pointer, tagged or not, points into.\<close>

definition granule :: "uptr \<Rightarrow> nat" where
  "granule Ptr = unat (drop_bit 4 (untagPointer Ptr))"

section \<open>Tagging\<close>

definition addTagImmediate :: "zimte \<Rightarrow> uptr \<Rightarrow> uptr \<Rightarrow> uptr" where
  "addTagImmediate z Ptr Tag =
     (if Tag = 0 then Ptr else if Tag < 16 then builtin_addtag z Ptr Tag else Ptr)"

text \<open>Each \<^verbatim>\<open>case\<close> passes the matched constant as the count of chunks; other values of \<open>Tag\<close>
  do nothing.\<close>

definition setTagImmediate :: "zimte \<Rightarrow> uptr \<Rightarrow> uptr \<Rightarrow> memory \<Rightarrow> memory" where
  "setTagImmediate z Ptr Tag m = (if Tag < 16 then builtin_settag z Ptr Tag m else m)"

definition selectRandomTag :: "zimte \<Rightarrow> uptr \<Rightarrow> uptr \<Rightarrow> uptr" where
  "selectRandomTag z Ptr ExcludeMask = builtin_gentag z Ptr"

definition addFixedTag :: "zimte \<Rightarrow> uptr \<Rightarrow> uptr \<Rightarrow> uptr" where
  "addFixedTag z Ptr Tag = (if Tag = 0 then Ptr else addTagImmediate z Ptr Tag)"

text \<open>
  The loop \<^verbatim>\<open>for (uptr Ptr = Begin; Ptr < End; Ptr += 16)\<close>; \<open>Ptr\<close> may wrap around when
  \<open>End\<close> is among the last 15 addresses, and the loop then does not end: the result is \<open>None\<close>.
\<close>

partial_function (option) storeTags_loop ::
    "zimte \<Rightarrow> uptr \<Rightarrow> uptr \<Rightarrow> uptr \<Rightarrow> memory \<Rightarrow> memory option" where
  "storeTags_loop z Tag Ptr End m =
     (if Ptr < End
      then storeTags_loop z Tag (Ptr + 16) End (builtin_settag z (addFixedTag z Ptr Tag) 1 m)
      else Some m)"

definition storeTags :: "zimte \<Rightarrow> uptr \<Rightarrow> uptr \<Rightarrow> memory \<Rightarrow> (uptr \<times> memory) option" where
  "storeTags z Begin End m =
     (case storeTags_loop z (extractTag Begin) Begin End m of
        None \<Rightarrow> None | Some m' \<Rightarrow> Some (End, m'))"

definition storeTag :: "zimte \<Rightarrow> uptr \<Rightarrow> memory \<Rightarrow> memory" where
  "storeTag z Ptr m = builtin_settag z Ptr 1 m"

definition loadTag :: "uptr \<Rightarrow> uptr" where
  "loadTag Ptr = Ptr"

text \<open>\<^verbatim>\<open>setRandomTag\<close> returns \<^verbatim>\<open>TaggedBegin\<close> and \<^verbatim>\<open>TaggedEnd\<close> with the memory.\<close>

definition setRandomTag ::
    "zimte \<Rightarrow> uptr \<Rightarrow> uptr \<Rightarrow> uptr \<Rightarrow> memory \<Rightarrow> (uptr \<times> uptr \<times> memory) option" where
  "setRandomTag z Ptr Size ExcludeMask m =
     (let TaggedBegin = selectRandomTag z Ptr ExcludeMask
      in case storeTags z TaggedBegin (TaggedBegin + Size) m of
           None \<Rightarrow> None | Some (TaggedEnd, m') \<Rightarrow> Some (TaggedBegin, TaggedEnd, m'))"

section \<open>What the sources rely on\<close>

text \<open>The tag of a pointer as the instructions see it, and a pointer with another tag.\<close>

definition pointer_tag :: "nat \<Rightarrow> uptr \<Rightarrow> uptr" where
  "pointer_tag lsb p = drop_bit lsb p AND 0xf"

definition with_tag :: "nat \<Rightarrow> uptr \<Rightarrow> uptr \<Rightarrow> uptr" where
  "with_tag lsb p t = (p AND NOT (push_bit lsb 0xf)) OR push_bit lsb (t AND 0xf)"

text \<open>
  \<^item> \<open>gentag\<close> changes only the tag bits of a pointer (\<^verbatim>\<open>memtag.h\<close> describes the builtin as
    inserting a random tag into its argument; the instruction of the whitepaper has no source
    operand, and gives a tag alone);
  \<^item> \<open>addtag\<close> adds its second argument to the pointer tag, modulo 16;
  \<^item> \<open>settag\<close> writes the pointer tag to consecutive granules from the one the pointer points
    into; the count is zero-based: \<open>0\<close> stands for one granule and \<open>15\<close> for 16.
\<close>

definition zimte_isa :: "zimte \<Rightarrow> bool" where
  "zimte_isa z \<longleftrightarrow>
     (tag_lsb z = 60 \<or> tag_lsb z = 56)
     \<and> (\<forall>p. builtin_gentag z p = with_tag (tag_lsb z) p (pointer_tag (tag_lsb z) (builtin_gentag z p)))
     \<and> (\<forall>p t. 0 < t \<longrightarrow> t < 16 \<longrightarrow>
           builtin_addtag z p t = with_tag (tag_lsb z) p (pointer_tag (tag_lsb z) p + t))
     \<and> (\<forall>p n m. n < 16 \<longrightarrow> builtin_settag z p n m =
           m\<lparr>mem_tag := (\<lambda>g. if granule p \<le> g \<and> g \<le> granule p + unat n then pointer_tag (tag_lsb z) p
                              else mem_tag m g)\<rparr>)"

text \<open>A concrete instance with the position of the whitepaper, in which \<open>gentag\<close> always
  picks the tag \<open>T\<close>.\<close>

definition zimte_ref :: "uptr \<Rightarrow> zimte" where
  "zimte_ref T = \<lparr>tag_lsb = 60, builtin_gentag = (\<lambda>p. with_tag 60 p T),
     builtin_addtag = (\<lambda>p t. with_tag 60 p (pointer_tag 60 p + t)),
     builtin_settag = (\<lambda>p n m. m\<lparr>mem_tag := (\<lambda>g. if granule p \<le> g \<and> g \<le> granule p + unat n
        then pointer_tag 60 p else mem_tag m g)\<rparr>)\<rparr>"

lemma f_mask: "(0xf :: uptr) = mask 4"
  by (simp add: mask_eq_exp_minus_1)

lemma untagPointer_take: "untagPointer p = take_bit 56 p"
  by (simp add: untagPointer_def take_bit_eq_mask mask_eq_exp_minus_1)

lemma extractTag_take: "extractTag p = take_bit 4 (drop_bit 56 p)"
  by (simp only: extractTag_def f_mask take_bit_eq_mask)

lemma unat_untagPointer: "unat (untagPointer p) = unat p mod 2 ^ 56"
  by (simp only: untagPointer_take unat_take_bit)

lemma unat_extractTag: "unat (extractTag p) = unat p div 2 ^ 56 mod 16"
  by (simp add: extractTag_take unat_take_bit unat_drop_bit)

lemma granule_eq: "granule p = unat p mod 2 ^ 56 div 16"
  by (simp add: granule_def unat_drop_bit unat_untagPointer)

lemma untag_idem [simp]: "untagPointer (untagPointer p) = untagPointer p"
  by (simp add: untagPointer_take)

lemma extractTag_untag [simp]: "extractTag (untagPointer p) = 0"
  by (rule bit_eqI) (auto simp: extractTag_take untagPointer_take bit_simps)

lemma and_f_idem [simp]: "(t AND 0xf) AND 0xf = t AND 0xf" for t :: uptr
  by (simp add: and.assoc)

lemma pointer_with_tag: "lsb \<le> 60 \<Longrightarrow> pointer_tag lsb (with_tag lsb p t) = t AND 0xf"
  unfolding pointer_tag_def with_tag_def f_mask by (rule bit_eqI) (auto simp: bit_simps)

lemma untag_with_tag: "56 \<le> lsb \<Longrightarrow> untagPointer (with_tag lsb p t) = untagPointer p"
  unfolding untagPointer_take with_tag_def f_mask by (rule bit_eqI) (auto simp: bit_simps)

lemma extract_with_tag_60 [simp]: "extractTag (with_tag 60 p t) = extractTag p"
  unfolding extractTag_take with_tag_def f_mask by (rule bit_eqI) (auto simp: bit_simps)

lemma extractTag_pointer_tag: "extractTag p = pointer_tag 56 p"
  by (simp add: extractTag_def pointer_tag_def)

lemma unat_pointer_tag: "unat (pointer_tag lsb p) = unat p div 2 ^ lsb mod 16"
  by (simp only: pointer_tag_def f_mask take_bit_eq_mask [symmetric] unat_take_bit unat_drop_bit) simp

lemma unat_and_f: "unat (t AND 0xf) = unat t mod 16" for t :: uptr
  by (simp only: f_mask take_bit_eq_mask [symmetric] unat_take_bit) simp

lemma small_and_f: "t < 16 \<Longrightarrow> t AND 0xf = t" for t :: uptr
  by (simp add: word_unat_eq_iff unat_and_f word_less_nat_alt)

lemma pointer_tag_f [simp]: "pointer_tag lsb p AND 0xf = pointer_tag lsb p"
  by (simp add: pointer_tag_def)

lemma zimte_isa_ref: "zimte_isa (zimte_ref T)"
proof -
  have t: "with_tag 60 p (T AND 0xf) = with_tag 60 p T" for p
    by (simp add: with_tag_def)
  show ?thesis by (simp add: zimte_isa_def zimte_ref_def pointer_with_tag t cong: if_cong)
qed

lemma isa_lsb: "zimte_isa z \<Longrightarrow> 56 \<le> tag_lsb z \<and> tag_lsb z \<le> 60"
  by (auto simp: zimte_isa_def)

lemma gentag_untag: "zimte_isa z \<Longrightarrow> untagPointer (selectRandomTag z p M) = untagPointer p"
  unfolding selectRandomTag_def by (metis isa_lsb untag_with_tag zimte_isa_def)

lemma addtag_untag: "zimte_isa z \<Longrightarrow> 0 < t \<Longrightarrow> t < 16 \<Longrightarrow> untagPointer (builtin_addtag z p t) = untagPointer p"
  using isa_lsb [of z] by (simp add: zimte_isa_def untag_with_tag)

lemma addtag_tag:
  "zimte_isa z \<Longrightarrow> 0 < t \<Longrightarrow> t < 16 \<Longrightarrow>
    pointer_tag (tag_lsb z) (builtin_addtag z p t) = (pointer_tag (tag_lsb z) p + t) AND 0xf"
  using isa_lsb [of z] by (simp add: zimte_isa_def pointer_with_tag)

section \<open>What the tagging loop does\<close>

lemma extractTag_less: "extractTag p < 16"
  by (simp add: word_less_nat_alt unat_extractTag)

lemma word_gt0: "t \<noteq> 0 \<Longrightarrow> 0 < t" for t :: uptr
  by (simp add: word_gt_0)

lemma addFixedTag_untag: "zimte_isa z \<Longrightarrow> untagPointer (addFixedTag z p t) = untagPointer p"
  by (simp add: addFixedTag_def addTagImmediate_def addtag_untag word_gt0)

text \<open>Adding a tag by \<^verbatim>\<open>addFixedTag\<close> adds it to the tag the instructions see.\<close>

lemma addFixedTag_tag:
  "zimte_isa z \<Longrightarrow> t < 16 \<Longrightarrow>
    pointer_tag (tag_lsb z) (addFixedTag z p t) = (pointer_tag (tag_lsb z) p + t) AND 0xf"
  by (simp add: addFixedTag_def addTagImmediate_def addtag_tag word_gt0)

lemma granule_addFixedTag: "zimte_isa z \<Longrightarrow> granule (addFixedTag z p t) = granule p"
  by (simp add: granule_def addFixedTag_untag)

text \<open>Adding an offset that does not carry out of the 56 address bits keeps the tag bits.\<close>

lemma tagged_add:
  assumes "unat p mod 2 ^ 56 + unat k < 2 ^ 56"
  shows "unat (p + k) = unat p + unat k" and "unat (p + k) mod 2 ^ 56 = unat p mod 2 ^ 56 + unat k"
    and "extractTag (p + k) = extractTag p"
    and "56 \<le> lsb \<Longrightarrow> pointer_tag lsb (p + k) = pointer_tag lsb p"
proof -
  have d: "unat p = unat p div 2 ^ 56 * 2 ^ 56 + unat p mod 2 ^ 56" by (simp only: div_mult_mod_eq)
  have "unat p < 2 ^ 8 * 2 ^ 56" using unat_less_64 [of p] by simp
  then have "unat p div 2 ^ 56 < 2 ^ 8" by (rule less_mult_imp_div_less)
  then have "unat p div 2 ^ 56 * 2 ^ 56 \<le> 255 * 2 ^ 56" by (intro mult_le_mono) simp_all
  moreover have "255 * 2 ^ 56 + 2 ^ 56 = (2 ^ 64 :: nat)" by simp
  ultimately have "unat p + unat k < 2 ^ 64" using assms d by linarith
  then have "unat p + unat k < 2 ^ LENGTH(64)" by simp
  then show u: "unat (p + k) = unat p + unat k" by (rule unat_add_small)
  show m: "unat (p + k) mod 2 ^ 56 = unat p mod 2 ^ 56 + unat k"
    unfolding u by (metis assms mod_add_left_eq mod_less)
  have "unat (p + k) div 2 ^ 56 * 2 ^ 56 = unat p div 2 ^ 56 * 2 ^ 56"
    using m u d div_mult_mod_eq [of "unat (p + k)" "2 ^ 56"] by linarith
  then have "unat (p + k) div 2 ^ 56 = unat p div 2 ^ 56" by simp
  then have "unat (extractTag (p + k)) = unat (extractTag p)" by (simp only: unat_extractTag)
  then show "extractTag (p + k) = extractTag p" by (simp only: word_unat_eq_iff)
  have "unat (p + k) div 2 ^ lsb = unat p div 2 ^ lsb" if "56 \<le> lsb" for lsb
  proof -
    have e: "(2::nat) ^ lsb = 2 ^ 56 * 2 ^ (lsb - 56)" using that by (simp only: power_add [symmetric]) simp
    show ?thesis using \<open>unat (p + k) div 2 ^ 56 = unat p div 2 ^ 56\<close> by (simp only: e div_mult2_eq)
  qed
  then show "56 \<le> lsb \<Longrightarrow> pointer_tag lsb (p + k) = pointer_tag lsb p"
    by (simp only: word_unat_eq_iff unat_pointer_tag)
qed

lemma granule_step:
  assumes "unat p mod 2 ^ 56 + 16 < 2 ^ 56"
  shows "granule (p + 16) = Suc (granule p)" and "unat (p + 16) mod 2 ^ 56 = unat p mod 2 ^ 56 + 16"
    and "unat (p + 16) = unat p + 16"
  using tagged_add [of p 16] assms by (simp_all add: granule_eq)

lemma settag_apply:
  "zimte_isa z \<Longrightarrow> builtin_settag z p 1 m
    = m\<lparr>mem_tag := (\<lambda>g. if g = granule p \<or> g = Suc (granule p) then pointer_tag (tag_lsb z) p else mem_tag m g)\<rparr>"
proof -
  assume "zimte_isa z"
  then have e: "builtin_settag z p 1 m = m\<lparr>mem_tag := (\<lambda>g. if granule p \<le> g \<and> g \<le> granule p + unat (1::uptr)
      then pointer_tag (tag_lsb z) p else mem_tag m g)\<rparr>" by (simp only: zimte_isa_def) simp
  have "(granule p \<le> g \<and> g \<le> granule p + unat (1::uptr)) = (g = granule p \<or> g = Suc (granule p))" for g by auto
  then show ?thesis by (simp only: e)
qed

text \<open>The loop over \<open>n\<close> granules sets \<open>n + 1\<close> of them: each round sets two.\<close>

lemma storeTags_loop_spec:
  assumes z: "zimte_isa z" and T: "T < 16"
    and "n = (unat End - unat Ptr + 15) div 16" and "unat Ptr mod 2 ^ 56 + 16 * n < 2 ^ 56"
  shows "storeTags_loop z T Ptr End m
    = Some (m\<lparr>mem_tag := (\<lambda>g. if 0 < n \<and> granule Ptr \<le> g \<and> g \<le> granule Ptr + n
        then (pointer_tag (tag_lsb z) Ptr + T) AND 0xf else mem_tag m g)\<rparr>)"
  using assms(3,4)
proof (induction n arbitrary: Ptr m)
  case 0
  then have "\<not> Ptr < End" unfolding word_less_nat_alt by simp
  then show ?case by (simp only: storeTags_loop.simps [of z T Ptr] if_False) simp
next
  case (Suc n)
  define m1 where "m1 = builtin_settag z (addFixedTag z Ptr T) 1 m"
  let ?c = "(pointer_tag (tag_lsb z) Ptr + T) AND 0xf"
  have lt: "unat Ptr < unat End"
  proof (rule ccontr)
    assume "\<not> unat Ptr < unat End"
    then show False using Suc.prems(1) by simp
  qed
  have s: "unat Ptr mod 2 ^ 56 + 16 < 2 ^ 56" using Suc.prems(2) by simp
  note g = granule_step [OF s]
  have n: "n = (unat End - unat (Ptr + 16) + 15) div 16" using Suc.prems(1) lt g(3) by linarith
  have b: "unat (Ptr + 16) mod 2 ^ 56 + 16 * n < 2 ^ 56" unfolding g(2) using Suc.prems(2) by simp
  have t: "pointer_tag (tag_lsb z) (Ptr + 16) = pointer_tag (tag_lsb z) Ptr"
    using tagged_add(4) [of Ptr 16 "tag_lsb z"] s isa_lsb [OF z] by simp
  have m1: "m1 = m\<lparr>mem_tag := (\<lambda>g. if g = granule Ptr \<or> g = Suc (granule Ptr) then ?c else mem_tag m g)\<rparr>"
    by (simp only: m1_def settag_apply [OF z] granule_addFixedTag [OF z] addFixedTag_tag [OF z T])
  have "storeTags_loop z T Ptr End m = storeTags_loop z T (Ptr + 16) End m1"
    using lt by (simp add: storeTags_loop.simps [of z T Ptr] m1_def word_less_nat_alt)
  also have "\<dots> = Some (m1\<lparr>mem_tag := (\<lambda>a. if 0 < n \<and> Suc (granule Ptr) \<le> a \<and> a \<le> Suc (granule Ptr) + n
        then ?c else mem_tag m1 a)\<rparr>)"
    using Suc.IH [OF n b] by (simp only: g(1) t)
  also have "(\<lambda>a. if 0 < n \<and> Suc (granule Ptr) \<le> a \<and> a \<le> Suc (granule Ptr) + n then ?c else mem_tag m1 a)
      = (\<lambda>a. if 0 < Suc n \<and> granule Ptr \<le> a \<and> a \<le> granule Ptr + Suc n then ?c else mem_tag m a)"
    by (rule ext) (auto simp: m1)
  finally show ?case by (simp add: m1)
qed

lemma storeTags_spec:
  assumes "zimte_isa z" and "unat Begin mod 2 ^ 56 + unat Size + 16 < 2 ^ 56"
  shows "storeTags z Begin (Begin + Size) m
    = Some (Begin + Size, m\<lparr>mem_tag := (\<lambda>g.
        if 0 < Size \<and> granule Begin \<le> g \<and> g \<le> granule Begin + (unat Size + 15) div 16
        then (pointer_tag (tag_lsb z) Begin + extractTag Begin) AND 0xf else mem_tag m g)\<rparr>)"
proof -
  have "unat (Begin + Size) = unat Begin + unat Size" using assms(2) by (intro tagged_add) simp
  then have n: "(unat Size + 15) div 16 = (unat (Begin + Size) - unat Begin + 15) div 16" by simp
  have b: "unat Begin mod 2 ^ 56 + 16 * ((unat Size + 15) div 16) < 2 ^ 56" using assms(2) by linarith
  have z: "0 < (unat Size + 15) div 16 \<longleftrightarrow> 0 < Size" by (simp add: word_less_nat_alt) linarith
  show ?thesis
    unfolding storeTags_def using storeTags_loop_spec [OF assms(1) extractTag_less n b] by (simp only: z) simp
qed

lemma granule_of_untag: "untagPointer p = untagPointer q \<Longrightarrow> granule p = granule q"
  by (simp add: granule_def)

text \<open>\<^verbatim>\<open>gentag\<close> with the whitepaper's position does not touch the bits \<^verbatim>\<open>extractTag\<close> reads.\<close>

lemma gentag_extract: "zimte_isa z \<Longrightarrow> tag_lsb z = 60 \<Longrightarrow> extractTag (selectRandomTag z p M) = extractTag p"
  unfolding selectRandomTag_def zimte_isa_def by (metis extract_with_tag_60)

text \<open>C14: \<^verbatim>\<open>setRandomTag\<close> ends and returns a pointer to the same address. Every granule that
  overlaps the \<open>Size\<close> bytes from \<open>Ptr\<close> (the last, partly used one included), and one granule
  more, since \<^verbatim>\<open>settag\<close> with count 1 sets two, get the same memory tag: the pointer tag plus
  the tag \<^verbatim>\<open>extractTag\<close> reads, modulo 16. Other granules and all bytes are unchanged, and
  \<^verbatim>\<open>TaggedEnd\<close> is the tagged end of the range, not rounded to a granule. With the pointer tag
  in bits 60 to 63, as the whitepaper has it, and an address whose bits 56 to 59 are zero, this
  memory tag is the tag of the returned pointer; with the pointer tag where \<^verbatim>\<open>extractTag\<close> looks
  for it, it is twice that tag modulo 16.\<close>

theorem setRandomTag_tags_range:
  assumes "zimte_isa z" and "unat Ptr mod 2 ^ 56 + unat Size + 16 < 2 ^ 56"
  shows "\<exists>TaggedBegin T m'. setRandomTag z Ptr Size Mask m = Some (TaggedBegin, TaggedBegin + Size, m')
    \<and> untagPointer TaggedBegin = untagPointer Ptr
    \<and> mem_byte m' = mem_byte m
    \<and> (\<forall>g. mem_tag m' g =
        (if 0 < Size \<and> granule Ptr \<le> g \<and> g \<le> granule Ptr + (unat Size + 15) div 16
         then T else mem_tag m g))
    \<and> (tag_lsb z = 60 \<and> extractTag Ptr = 0 \<longrightarrow> T = pointer_tag 60 TaggedBegin)
    \<and> (tag_lsb z = 56 \<longrightarrow> unat T = 2 * unat (pointer_tag 56 TaggedBegin) mod 16)"
proof -
  let ?b = "selectRandomTag z Ptr Mask"
  have u: "untagPointer ?b = untagPointer Ptr" using assms(1) by (rule gentag_untag)
  then have g: "granule ?b = granule Ptr" by (rule granule_of_untag)
  have "unat ?b mod 2 ^ 56 = unat Ptr mod 2 ^ 56" using u by (metis unat_untagPointer)
  then have b: "unat ?b mod 2 ^ 56 + unat Size + 16 < 2 ^ 56" using assms(2) by simp
  have t60: "(pointer_tag (tag_lsb z) ?b + extractTag ?b) AND 0xf = pointer_tag 60 ?b"
    if "tag_lsb z = 60 \<and> extractTag Ptr = 0"
    using that gentag_extract [OF assms(1)] by simp
  have t56: "unat ((pointer_tag (tag_lsb z) ?b + extractTag ?b) AND 0xf) = 2 * unat (pointer_tag 56 ?b) mod 16"
    if "tag_lsb z = 56"
  proof -
    have "unat (pointer_tag 56 ?b) < 16" by (simp add: unat_pointer_tag)
    then have "unat (pointer_tag 56 ?b + pointer_tag 56 ?b) = 2 * unat (pointer_tag 56 ?b)"
      by (subst unat_add_small) simp_all
    then show ?thesis using that by (simp only: unat_and_f extractTag_pointer_tag)
  qed
  show ?thesis
    unfolding setRandomTag_def Let_def storeTags_spec [OF assms(1) b] using u g t60 t56 by auto
qed

text \<open>An instance with the tag in the bits that \<^verbatim>\<open>extractTag\<close> reads.\<close>

definition zimte_low :: "uptr \<Rightarrow> zimte" where
  "zimte_low T = \<lparr>tag_lsb = 56, builtin_gentag = (\<lambda>p. with_tag 56 p T),
     builtin_addtag = (\<lambda>p t. with_tag 56 p (pointer_tag 56 p + t)),
     builtin_settag = (\<lambda>p n m. m\<lparr>mem_tag := (\<lambda>g. if granule p \<le> g \<and> g \<le> granule p + unat n
        then pointer_tag 56 p else mem_tag m g)\<rparr>)\<rparr>"

lemma zimte_isa_low: "zimte_isa (zimte_low T)"
proof -
  have t: "with_tag 56 p (T AND 0xf) = with_tag 56 p T" for p
    by (simp add: with_tag_def)
  show ?thesis by (simp add: zimte_isa_def zimte_low_def pointer_with_tag t cong: if_cong)
qed

theorem setRandomTag_tags_range_witness:
  "(\<exists>b m'. setRandomTag (zimte_ref 5) 4096 40 0 \<lparr>mem_byte = (\<lambda>_. 0), mem_tag = (\<lambda>_. 0)\<rparr> = Some (b, b + 40, m')
      \<and> mem_tag m' 258 = pointer_tag 60 b \<and> mem_tag m' 260 = 0)
    \<and> (\<exists>b m'. setRandomTag (zimte_low 5) 4096 40 0 \<lparr>mem_byte = (\<lambda>_. 0), mem_tag = (\<lambda>_. 0)\<rparr> = Some (b, b + 40, m')
      \<and> unat (mem_tag m' 258) = 2 * unat (pointer_tag 56 b) mod 16 \<and> mem_tag m' 260 = 0)"
proof
  let ?m = "\<lparr>mem_byte = (\<lambda>_. 0), mem_tag = (\<lambda>_. 0)\<rparr>"
  have "extractTag 4096 = 0" "tag_lsb (zimte_ref 5) = 60" by (simp_all add: extractTag_def zimte_ref_def)
  then show "\<exists>b m'. setRandomTag (zimte_ref 5) 4096 40 0 ?m = Some (b, b + 40, m')
      \<and> mem_tag m' 258 = pointer_tag 60 b \<and> mem_tag m' 260 = 0"
    using setRandomTag_tags_range [OF zimte_isa_ref, of 4096 40 5 0 ?m] by (auto simp: granule_eq)
  have "tag_lsb (zimte_low 5) = 56" by (simp add: zimte_low_def)
  then show "\<exists>b m'. setRandomTag (zimte_low 5) 4096 40 0 ?m = Some (b, b + 40, m')
      \<and> unat (mem_tag m' 258) = 2 * unat (pointer_tag 56 b) mod 16 \<and> mem_tag m' 260 = 0"
    using setRandomTag_tags_range [OF zimte_isa_low, of 4096 40 5 0 ?m] by (auto simp: granule_eq)
qed

end
