(* ===== verification/Chunk.thy ===== *)
theory Chunk
  imports Memtag Report
begin

text \<open>
  \<^verbatim>\<open>checksum.h\<close>, \<^verbatim>\<open>checksum.cpp\<close> and \<^verbatim>\<open>chunk.h\<close>: the header in front of every chunk. The
  bit fields of \<^verbatim>\<open>UnpackedHeader\<close> are words of their widths, \<open>pack_header\<close> and
  \<open>unpack_header\<close> are the two directions of \<^verbatim>\<open>bit_cast\<close>, and the packed header lives in the
  byte memory of \<open>Memtag\<close>, little endian, 16 bytes below the chunk. The hardware CRC32
  instruction is the parameter \<open>crc\<close>.

  The lemmas show that packing is a bijection, that a stored header loads back, and that a
  header is rejected when one byte of it was overwritten, or when its cookie differs in the low 16
  bits, the only ones that enter the checksum.
\<close>

unbundle bit_operations_syntax

section \<open>Checksums\<close>

datatype Checksum_kind = BSD | HardwareCRC32

fun bsd_loop :: "nat \<Rightarrow> u16 \<Rightarrow> uptr \<Rightarrow> u16" where
  "bsd_loop 0 Acc Data = Acc"
| "bsd_loop (Suc I) Acc Data =
     (let Acc = drop_bit 1 Acc OR push_bit 15 (Acc AND 1);
          Acc = Acc + ucast (Data AND 0xff)
      in bsd_loop I Acc (drop_bit 8 Data))"

definition computeBSDChecksum :: "u16 \<Rightarrow> uptr \<Rightarrow> u16" where
  "computeBSDChecksum Acc Data = bsd_loop 8 Acc Data"

text \<open>No target other than x86, ARM and LoongArch has a hardware CRC32 in Scudo; on RISC-V
  \<^verbatim>\<open>hasHardwareCRC32\<close> is the fallback.\<close>

definition hasHardwareCRC32 :: bool where
  "hasHardwareCRC32 = False"

definition computeChecksum ::
    "(u32 \<Rightarrow> uptr \<Rightarrow> u32) \<Rightarrow> Checksum_kind \<Rightarrow> u32 \<Rightarrow> uptr \<Rightarrow> uptr list \<Rightarrow> u16" where
  "computeChecksum crc HashAlgorithm Seed Value Array =
     (case HashAlgorithm of
        HardwareCRC32 \<Rightarrow>
          (let Crc = foldl crc (crc Seed Value) Array in ucast (Crc XOR drop_bit 16 Crc))
      | BSD \<Rightarrow> foldl computeBSDChecksum (computeBSDChecksum (ucast Seed) Value) Array)"

section \<open>Headers\<close>

datatype Origin = Malloc | New | NewArray | Memalign

fun Origin_code :: "Origin \<Rightarrow> 2 word" where
  "Origin_code Malloc = 0"
| "Origin_code New = 1"
| "Origin_code NewArray = 2"
| "Origin_code Memalign = 3"

datatype State = Available | Allocated | Quarantined

fun State_code :: "State \<Rightarrow> 2 word" where
  "State_code Available = 0"
| "State_code Allocated = 1"
| "State_code Quarantined = 2"

record UnpackedHeader =
  HClassId :: "8 word"
  HState :: "2 word"
  OriginOrWasZeroed :: "2 word"
  SizeOrUnusedBytes :: "20 word"
  HOffset :: "16 word"
  HChecksum :: "16 word"

definition SizeOrUnusedBytesMask :: uptr where
  "SizeOrUnusedBytesMask = push_bit 20 1 - 1"

definition OffsetMask :: uptr where
  "OffsetMask = push_bit 16 1 - 1"

definition pack_header :: "UnpackedHeader \<Rightarrow> u64" where
  "pack_header h = ucast (HClassId h) OR push_bit 8 (ucast (HState h))
     OR push_bit 10 (ucast (OriginOrWasZeroed h)) OR push_bit 12 (ucast (SizeOrUnusedBytes h))
     OR push_bit 32 (ucast (HOffset h)) OR push_bit 48 (ucast (HChecksum h))"

definition unpack_header :: "u64 \<Rightarrow> UnpackedHeader" where
  "unpack_header w = \<lparr>HClassId = ucast w, HState = ucast (drop_bit 8 w),
     OriginOrWasZeroed = ucast (drop_bit 10 w), SizeOrUnusedBytes = ucast (drop_bit 12 w),
     HOffset = ucast (drop_bit 32 w), HChecksum = ucast (drop_bit 48 w)\<rparr>"

definition getHeaderSize :: uptr where
  "getHeaderSize = roundUp 8 (push_bit SCUDO_MIN_ALIGNMENT_LOG 1)"

definition getAtomicHeader :: "uptr \<Rightarrow> uptr" where
  "getAtomicHeader Ptr = Ptr - getHeaderSize"

text \<open>Eight bytes of memory, little endian; the address is used without its tag bits.\<close>

definition load_u64 :: "memory \<Rightarrow> uptr \<Rightarrow> u64" where
  "load_u64 m p =
     (let b = (\<lambda>i. mem_byte m (untagPointer p + i))
      in ucast (b 0) OR push_bit 8 (ucast (b 1)) OR push_bit 16 (ucast (b 2))
         OR push_bit 24 (ucast (b 3)) OR push_bit 32 (ucast (b 4)) OR push_bit 40 (ucast (b 5))
         OR push_bit 48 (ucast (b 6)) OR push_bit 56 (ucast (b 7)))"

definition store_u64 :: "memory \<Rightarrow> uptr \<Rightarrow> u64 \<Rightarrow> memory" where
  "store_u64 m p v =
     m\<lparr>mem_byte := (\<lambda>a. let i = a - untagPointer p
                        in if i < 8 then ucast (drop_bit (8 * unat i) v) else mem_byte m a)\<rparr>"

definition computeHeaderChecksum ::
    "(u32 \<Rightarrow> uptr \<Rightarrow> u32) \<Rightarrow> Checksum_kind \<Rightarrow> u32 \<Rightarrow> uptr \<Rightarrow> UnpackedHeader \<Rightarrow> u16" where
  "computeHeaderChecksum crc HashAlgorithm Cookie Ptr Header =
     (let ZeroChecksumHeader = Header\<lparr>HChecksum := 0\<rparr>;
          HeaderHolder = [pack_header ZeroChecksumHeader]
      in computeChecksum crc HashAlgorithm Cookie Ptr HeaderHolder)"

text \<open>\<^verbatim>\<open>storeHeader\<close> also writes the checksum into the caller's header, which is returned.\<close>

definition storeHeader ::
    "(u32 \<Rightarrow> uptr \<Rightarrow> u32) \<Rightarrow> Checksum_kind \<Rightarrow> u32 \<Rightarrow> uptr \<Rightarrow> UnpackedHeader \<Rightarrow> memory
      \<Rightarrow> UnpackedHeader \<times> memory" where
  "storeHeader crc HashAlgorithm Cookie Ptr NewUnpackedHeader m =
     (let h = NewUnpackedHeader
                \<lparr>HChecksum := computeHeaderChecksum crc HashAlgorithm Cookie Ptr NewUnpackedHeader\<rparr>
      in (h, store_u64 m (getAtomicHeader Ptr) (pack_header h)))"

definition loadHeader ::
    "(u32 \<Rightarrow> uptr \<Rightarrow> u32) \<Rightarrow> Checksum_kind \<Rightarrow> u32 \<Rightarrow> uptr \<Rightarrow> memory \<Rightarrow> UnpackedHeader result" where
  "loadHeader crc HashAlgorithm Cookie Ptr m =
     (let NewPackedHeader = load_u64 m (getAtomicHeader Ptr);
          h = unpack_header NewPackedHeader
      in if HChecksum h \<noteq> computeHeaderChecksum crc HashAlgorithm Cookie Ptr h
         then Inl (HeaderCorruption NewPackedHeader Ptr) else Inr h)"

definition isValid ::
    "(u32 \<Rightarrow> uptr \<Rightarrow> u32) \<Rightarrow> Checksum_kind \<Rightarrow> u32 \<Rightarrow> uptr \<Rightarrow> memory \<Rightarrow> bool \<times> UnpackedHeader" where
  "isValid crc HashAlgorithm Cookie Ptr m =
     (let h = unpack_header (load_u64 m (getAtomicHeader Ptr))
      in (HChecksum h = computeHeaderChecksum crc HashAlgorithm Cookie Ptr h, h))"

section \<open>Packing is a bijection\<close>

lemma not_bit_length: "LENGTH('a) \<le> n \<Longrightarrow> \<not> bit w n" for w :: "'a::len word"
  by (meson bit_imp_le_length leD)

lemma unpack_pack [simp]: "unpack_header (pack_header h) = h"
proof -
  have "HClassId (unpack_header (pack_header h)) = HClassId h"
    unfolding unpack_header_def pack_header_def
    by (rule bit_word_eqI) (auto simp: bit_simps not_bit_length)
  moreover have "HState (unpack_header (pack_header h)) = HState h"
    unfolding unpack_header_def pack_header_def by (rule bit_word_eqI) (auto simp: bit_simps not_bit_length)
  moreover have "OriginOrWasZeroed (unpack_header (pack_header h)) = OriginOrWasZeroed h"
    unfolding unpack_header_def pack_header_def by (rule bit_word_eqI) (auto simp: bit_simps not_bit_length)
  moreover have "SizeOrUnusedBytes (unpack_header (pack_header h)) = SizeOrUnusedBytes h"
    unfolding unpack_header_def pack_header_def by (rule bit_word_eqI) (auto simp: bit_simps not_bit_length)
  moreover have "HOffset (unpack_header (pack_header h)) = HOffset h"
    unfolding unpack_header_def pack_header_def by (rule bit_word_eqI) (auto simp: bit_simps not_bit_length)
  moreover have "HChecksum (unpack_header (pack_header h)) = HChecksum h"
    unfolding unpack_header_def pack_header_def by (rule bit_word_eqI) (auto simp: bit_simps not_bit_length)
  ultimately show ?thesis by simp
qed

lemma pack_unpack [simp]: "pack_header (unpack_header w) = w"
proof (rule bit_word_eqI)
  fix n assume n: "n < LENGTH(64)"
  consider "n < 8" | "8 \<le> n" "n < 10" | "10 \<le> n" "n < 12" | "12 \<le> n" "n < 32"
    | "32 \<le> n" "n < 48" | "48 \<le> n" "n < 64" using n by simp linarith
  then show "bit (pack_header (unpack_header w)) n = bit w n"
    unfolding pack_header_def unpack_header_def by cases (auto simp: bit_simps not_bit_length)
qed

lemma byte_store_u64:
  "mem_byte (store_u64 m p v) (untagPointer p + i)
    = (if i < 8 then ucast (drop_bit (8 * unat i) v) else mem_byte m (untagPointer p + i))"
  by (simp add: store_u64_def Let_def)

lemma ucast_byte: "ucast (ucast x :: u8) = take_bit 8 x" for x :: u64
  by (rule bit_word_eqI) (auto simp: bit_simps)

lemma take_bit_next_byte:
  "take_bit k v OR push_bit k (take_bit 8 (drop_bit k v)) = take_bit (k + 8) v" for v :: u64
  by (rule bit_word_eqI) (auto simp: bit_simps)

lemma bytes_of_u64:
  "take_bit 8 v OR push_bit 8 (take_bit 8 (drop_bit 8 v)) OR push_bit 16 (take_bit 8 (drop_bit 16 v))
    OR push_bit 24 (take_bit 8 (drop_bit 24 v)) OR push_bit 32 (take_bit 8 (drop_bit 32 v))
    OR push_bit 40 (take_bit 8 (drop_bit 40 v)) OR push_bit 48 (take_bit 8 (drop_bit 48 v))
    OR push_bit 56 (take_bit 8 (drop_bit 56 v)) = v" for v :: u64
proof -
  note b = take_bit_next_byte [of _ v]
  have "take_bit 64 v = v" by (rule bit_word_eqI) (auto simp: bit_simps)
  then show ?thesis
    using b [of 8] b [of 16] b [of 24] b [of 32] b [of 40] b [of 48] b [of 56]
    by (simp only: or.assoc [symmetric]) simp
qed

lemma load_store_u64 [simp]: "load_u64 (store_u64 m p v) p = v"
  using byte_store_u64 [of m p v 0] byte_store_u64 [of m p v 1] byte_store_u64 [of m p v 2]
    byte_store_u64 [of m p v 3] byte_store_u64 [of m p v 4] byte_store_u64 [of m p v 5]
    byte_store_u64 [of m p v 6] byte_store_u64 [of m p v 7] bytes_of_u64 [of v]
  by (simp add: load_u64_def ucast_byte)

text \<open>A store leaves the eight bytes at a disjoint address alone.\<close>

lemma load_store_u64_other:
  assumes "\<forall>i < 8. \<forall>j < 8. untagPointer q + i \<noteq> untagPointer p + j"
  shows "load_u64 (store_u64 m p v) q = load_u64 m q"
proof -
  have "mem_byte (store_u64 m p v) (untagPointer q + i) = mem_byte m (untagPointer q + i)" if "i < 8" for i
  proof -
    have "\<not> untagPointer q + i - untagPointer p < 8"
      using assms that by (metis add_diff_cancel_left' add.commute diff_add_cancel)
    then show ?thesis by (simp add: store_u64_def Let_def)
  qed
  from this [of 0] this [of 1] this [of 2] this [of 3] this [of 4] this [of 5] this [of 6] this [of 7]
  show ?thesis by (simp add: load_u64_def Let_def)
qed

lemma mem_tag_store_u64 [simp]: "mem_tag (store_u64 m p v) = mem_tag m"
  by (simp add: store_u64_def)

section \<open>The BSD checksum tells single bytes apart\<close>

definition bsd_step :: "u16 \<Rightarrow> u8 \<Rightarrow> u16" where
  "bsd_step Acc b = (drop_bit 1 Acc OR push_bit 15 (Acc AND 1)) + ucast b"

definition data_byte :: "nat \<Rightarrow> uptr \<Rightarrow> u8" where
  "data_byte i Data = ucast (drop_bit (8 * i) Data)"

lemma bsd_loop_fold: "bsd_loop n Acc Data = foldl bsd_step Acc (map (\<lambda>i. data_byte i Data) [0..<n])"
proof (induction n arbitrary: Acc Data)
  case (Suc n)
  have b: "ucast (Data AND 0xff) = (ucast (data_byte 0 Data) :: u16)"
  proof (rule bit_word_eqI)
    fix k assume "k < LENGTH(16)"
    have m: "(0xff :: uptr) = mask 8" by (simp add: mask_eq_exp_minus_1)
    show "bit (ucast (Data AND 0xff) :: u16) k = bit (ucast (data_byte 0 Data) :: u16) k"
      unfolding m by (auto simp: bit_simps data_byte_def)
  qed
  have d: "data_byte i (drop_bit 8 Data) = data_byte (Suc i) Data" for i
    by (simp add: data_byte_def add.commute)
  have u: "[0..<Suc n] = 0 # map Suc [0..<n]" by (metis upt_conv_Cons zero_less_Suc map_Suc_upt)
  show ?case
    unfolding u by (simp add: Let_def Suc.IH bsd_step_def b d comp_def del: upt_Suc)
qed simp

lemma ror1_inj: "drop_bit 1 x OR push_bit 15 (x AND 1) = drop_bit 1 y OR push_bit 15 (y AND 1) \<Longrightarrow> x = y"
  for x y :: u16
proof (rule bit_word_eqI)
  fix n assume e: "drop_bit 1 x OR push_bit 15 (x AND 1) = drop_bit 1 y OR push_bit 15 (y AND 1)"
    and n: "n < LENGTH(16)"
  have b: "bit (drop_bit 1 x OR push_bit 15 (x AND 1)) k = bit (drop_bit 1 y OR push_bit 15 (y AND 1)) k" for k
    by (simp only: e)
  show "bit x n = bit y n"
  proof (cases n)
    case 0
    then show ?thesis using b [of 15] by (auto simp: bit_simps not_bit_length)
  next
    case (Suc k)
    then show ?thesis using b [of k] n by (auto simp: bit_simps)
  qed
qed

lemma bsd_step_inj: "bsd_step x b = bsd_step y b \<Longrightarrow> x = y"
  unfolding bsd_step_def by (rule ror1_inj) (simp only: add_right_cancel)

lemma ucast_8_16_inj: "(ucast a :: u16) = ucast b \<Longrightarrow> a = b" for a b :: u8
proof -
  assume e: "(ucast a :: u16) = ucast b"
  have "unat (ucast a :: u16) = unat a" "unat (ucast b :: u16) = unat b"
    by (rule unat_ucast_up; simp)+
  then show ?thesis using e by (simp add: word_unat_eq_iff)
qed

lemma bsd_step_byte_inj: "bsd_step x a = bsd_step x b \<Longrightarrow> a = b"
  unfolding bsd_step_def by (rule ucast_8_16_inj) (simp only: add_left_cancel)

lemma bsd_fold_inj: "foldl bsd_step x bs = foldl bsd_step y bs \<Longrightarrow> x = y"
  by (induction bs arbitrary: x y) (auto dest: bsd_step_inj)

lemma bsd_fold_one_byte:
  assumes "length as = length bs" and "k < length as" and "as ! k \<noteq> bs ! k"
    and "\<forall>i < length as. i \<noteq> k \<longrightarrow> as ! i = bs ! i"
  shows "foldl bsd_step x as \<noteq> foldl bsd_step x bs"
proof -
  have a: "as = take k as @ as ! k # drop (Suc k) as" "bs = take k bs @ bs ! k # drop (Suc k) bs"
    using assms(1,2) by (simp_all add: id_take_nth_drop)
  have t: "take k as = take k bs" using assms by (intro nth_equalityI) auto
  have d: "drop (Suc k) as = drop (Suc k) bs" using assms by (intro nth_equalityI) auto
  have "foldl bsd_step (bsd_step (foldl bsd_step x (take k bs)) (as ! k)) (drop (Suc k) bs)
      \<noteq> foldl bsd_step (bsd_step (foldl bsd_step x (take k bs)) (bs ! k)) (drop (Suc k) bs)"
    using bsd_fold_inj bsd_step_byte_inj assms(3) by blast
  then show ?thesis using a t d by (metis foldl_append foldl_Cons)
qed

lemma header_bytes_u64:
  assumes "\<forall>i < 8. data_byte i v = data_byte i w"
  shows "v = w"
proof (rule bit_word_eqI)
  fix n assume "n < LENGTH(64)"
  then have i: "n div 8 < 8" by (simp add: less_mult_imp_div_less)
  have b: "bit (data_byte i x) (n mod 8) = bit x (8 * i + n mod 8)" for i and x :: uptr
    by (simp add: data_byte_def bit_simps)
  show "bit v n = bit w n" using b [of "n div 8" v] b [of "n div 8" w] assms i by simp
qed

lemma computeBSD_fold:
  "computeBSDChecksum Acc Data = foldl bsd_step Acc (map (\<lambda>i. data_byte i Data) [0..<8])"
  by (simp only: computeBSDChecksum_def bsd_loop_fold)

lemma computeBSD_inj: "computeBSDChecksum x Data = computeBSDChecksum y Data \<Longrightarrow> x = y"
  unfolding computeBSD_fold by (rule bsd_fold_inj)

lemma computeBSD_one_byte:
  assumes "k < 8" and "data_byte k v \<noteq> data_byte k w"
    and "\<forall>i < 8. i \<noteq> k \<longrightarrow> data_byte i v = data_byte i w"
  shows "computeBSDChecksum x v \<noteq> computeBSDChecksum x w"
  unfolding computeBSD_fold using assms
  by (intro bsd_fold_one_byte [of _ _ k]) (auto simp del: upt.simps)

lemma header_checksum_BSD:
  "computeHeaderChecksum crc BSD Cookie Ptr h
    = computeBSDChecksum (computeBSDChecksum (ucast Cookie) Ptr) (pack_header (h\<lparr>HChecksum := 0\<rparr>))"
  by (simp add: computeHeaderChecksum_def computeChecksum_def)

lemma pack_zero_checksum: "pack_header (h\<lparr>HChecksum := 0\<rparr>) = take_bit 48 (pack_header h)"
proof -
  have t: "take_bit 48 (ucast (a :: 8 word)) = (ucast a :: u64)"
    "take_bit 48 (push_bit 8 (ucast (b :: 2 word))) = (push_bit 8 (ucast b) :: u64)"
    "take_bit 48 (push_bit 10 (ucast (b :: 2 word))) = (push_bit 10 (ucast b) :: u64)"
    "take_bit 48 (push_bit 12 (ucast (c :: 20 word))) = (push_bit 12 (ucast c) :: u64)"
    "take_bit 48 (push_bit 32 (ucast (d :: 16 word))) = (push_bit 32 (ucast d) :: u64)"
    "take_bit 48 (push_bit 48 (ucast (d :: 16 word))) = (0 :: u64)" for a b c d
    by (rule bit_word_eqI; auto simp: bit_simps dest: bit_imp_le_length)+
  show ?thesis unfolding pack_header_def by (simp add: take_bit_or t)
qed

lemma HChecksum_unpack: "HChecksum (unpack_header w) = ucast (drop_bit 48 w)"
  by (simp add: unpack_header_def)

lemma loadHeader_storeHeader:
  "loadHeader crc alg Cookie Ptr (snd (storeHeader crc alg Cookie Ptr h m))
    = Inr (h\<lparr>HChecksum := computeHeaderChecksum crc alg Cookie Ptr h\<rparr>)"
proof -
  let ?h = "h\<lparr>HChecksum := computeHeaderChecksum crc alg Cookie Ptr h\<rparr>"
  have "computeHeaderChecksum crc alg Cookie Ptr ?h = computeHeaderChecksum crc alg Cookie Ptr h"
    by (simp add: computeHeaderChecksum_def)
  then show ?thesis by (simp add: loadHeader_def storeHeader_def Let_def)
qed

lemma data_byte_take: "i < 6 \<Longrightarrow> data_byte i (take_bit 48 v) = data_byte i v"
  unfolding data_byte_def by (rule bit_word_eqI) (auto simp: bit_simps)

lemma data_byte_take_high: "6 \<le> i \<Longrightarrow> data_byte i (take_bit 48 v) = 0"
  unfolding data_byte_def by (rule bit_word_eqI) (auto simp: bit_simps)

lemma checksum_bytes:
  assumes "data_byte 6 v = data_byte 6 w" and "data_byte 7 v = data_byte 7 w"
  shows "(ucast (drop_bit 48 v) :: u16) = ucast (drop_bit 48 w)"
proof (rule bit_word_eqI)
  fix n assume n: "n < LENGTH(16)"
  have b: "bit (data_byte 6 v) k = bit (data_byte 6 w) k" "bit (data_byte 7 v) k = bit (data_byte 7 w) k" for k
    using assms by simp_all
  show "bit (ucast (drop_bit 48 v) :: u16) n = bit (ucast (drop_bit 48 w) :: u16) n"
    using n b(1) [of n] b(2) [of "n - 8"]
    by (cases "n < 8") (auto simp: bit_simps data_byte_def)
qed

lemma overwritten_byte_rejected:
  assumes "loadHeader crc BSD Cookie Ptr m = Inr h"
    and "load_u64 m' (getAtomicHeader Ptr) = w" and "load_u64 m (getAtomicHeader Ptr) = v"
    and "k < 8" and "data_byte k v \<noteq> data_byte k w"
    and "\<forall>i < 8. i \<noteq> k \<longrightarrow> data_byte i v = data_byte i w"
  shows "loadHeader crc BSD Cookie Ptr m' = Inl (HeaderCorruption w Ptr)"
proof -
  let ?sum = "\<lambda>x. computeBSDChecksum (computeBSDChecksum (ucast Cookie) Ptr) (take_bit 48 x)"
  have c: "computeHeaderChecksum crc BSD Cookie Ptr (unpack_header x) = ?sum x" for x
    by (simp add: header_checksum_BSD pack_zero_checksum)
  have v: "ucast (drop_bit 48 v) = ?sum v"
    using assms(1,3) by (simp add: loadHeader_def Let_def c HChecksum_unpack split: if_splits)
  have "(ucast (drop_bit 48 w) :: u16) \<noteq> ?sum w"
  proof (cases "k < 6")
    case True
    have "data_byte k (take_bit 48 v) \<noteq> data_byte k (take_bit 48 w)"
      using assms(5) True by (simp add: data_byte_take)
    moreover have "data_byte i (take_bit 48 v) = data_byte i (take_bit 48 w)" if "i < 8" "i \<noteq> k" for i
      using assms(6) that by (cases "i < 6") (simp_all add: data_byte_take data_byte_take_high)
    ultimately have "?sum v \<noteq> ?sum w" using assms(4) by (intro computeBSD_one_byte) auto
    moreover have "(ucast (drop_bit 48 v) :: u16) = ucast (drop_bit 48 w)"
      using assms(6) True by (intro checksum_bytes) auto
    ultimately show ?thesis using v by simp
  next
    case False
    have "take_bit 48 v = take_bit 48 w"
    proof (rule header_bytes_u64, intro allI impI)
      fix i :: nat assume "i < 8"
      then show "data_byte i (take_bit 48 v) = data_byte i (take_bit 48 w)"
        using assms(6) False by (cases "i < 6") (simp_all add: data_byte_take data_byte_take_high)
    qed
    moreover have "(ucast (drop_bit 48 v) :: u16) \<noteq> ucast (drop_bit 48 w)"
    proof
      assume e: "(ucast (drop_bit 48 v) :: u16) = ucast (drop_bit 48 w)"
      have b: "data_byte 6 x = ucast (ucast (drop_bit 48 x) :: u16)"
        "data_byte 7 x = ucast (drop_bit 8 (ucast (drop_bit 48 x) :: u16))" for x
        by (rule bit_word_eqI; auto simp: bit_simps data_byte_def)+
      have "k = 6 \<or> k = 7" using False assms(4) by linarith
      then show False using assms(5) b [of v] b [of w] e by auto
    qed
    ultimately show ?thesis using v by metis
  qed
  then show ?thesis using assms(2) by (simp add: loadHeader_def Let_def c HChecksum_unpack)
qed

lemma wrong_cookie_rejected:
  assumes "loadHeader crc BSD Cookie Ptr m = Inr h" and "(ucast Cookie' :: u16) \<noteq> ucast Cookie"
  shows "loadHeader crc BSD Cookie' Ptr m = Inl (HeaderCorruption (load_u64 m (getAtomicHeader Ptr)) Ptr)"
proof -
  let ?h = "unpack_header (load_u64 m (getAtomicHeader Ptr))"
  have "computeHeaderChecksum crc BSD Cookie' Ptr ?h \<noteq> computeHeaderChecksum crc BSD Cookie Ptr ?h"
    unfolding header_checksum_BSD using assms(2) computeBSD_inj by blast
  then show ?thesis using assms(1) by (auto simp: loadHeader_def Let_def split: if_splits)
qed

lemma data_byte_or: "data_byte i (x OR y) = data_byte i x OR data_byte i y"
  unfolding data_byte_def by (rule bit_word_eqI) (auto simp: bit_simps)

lemma data_byte_push:
  "data_byte i (push_bit (8 * j) (ucast (b :: u8))) = (if i = j \<and> i < 8 then b else 0)"
proof (rule bit_word_eqI)
  fix n assume "n < LENGTH(8)"
  then have n: "n < 8" by simp
  have "bit b (8 * i + n - 8 * j) \<Longrightarrow> 8 * j \<le> 8 * i + n \<Longrightarrow> i = j"
    using bit_imp_le_length [of b "8 * i + n - 8 * j"] n by simp
  then show "bit (data_byte i (push_bit (8 * j) (ucast b))) n = bit (if i = j \<and> i < 8 then b else 0) n"
    using n by (auto simp: data_byte_def bit_simps)
qed

lemma data_byte_load:
  assumes "i < 8"
  shows "data_byte i (load_u64 m p) = mem_byte m (untagPointer p + of_nat i)"
proof -
  let ?b = "\<lambda>j. mem_byte m (untagPointer p + j)"
  have p: "data_byte i (push_bit 8 (ucast b)) = (if i = 1 then b else 0)"
    "data_byte i (push_bit 16 (ucast b)) = (if i = 2 then b else 0)"
    "data_byte i (push_bit 24 (ucast b)) = (if i = 3 then b else 0)"
    "data_byte i (push_bit 32 (ucast b)) = (if i = 4 then b else 0)"
    "data_byte i (push_bit 40 (ucast b)) = (if i = 5 then b else 0)"
    "data_byte i (push_bit 48 (ucast b)) = (if i = 6 then b else 0)"
    "data_byte i (push_bit 56 (ucast b)) = (if i = 7 then b else 0)"
    "data_byte i (ucast b) = (if i = 0 then b else 0)" for b :: u8
    using data_byte_push [of i 1 b] data_byte_push [of i 2 b] data_byte_push [of i 3 b]
      data_byte_push [of i 4 b] data_byte_push [of i 5 b] data_byte_push [of i 6 b]
      data_byte_push [of i 7 b] data_byte_push [of i 0 b] assms by simp_all
  have e: "data_byte i (load_u64 m p)
      = (if i = 0 then ?b 0 else 0) OR (if i = 1 then ?b 1 else 0) OR (if i = 2 then ?b 2 else 0)
        OR (if i = 3 then ?b 3 else 0) OR (if i = 4 then ?b 4 else 0) OR (if i = 5 then ?b 5 else 0)
        OR (if i = 6 then ?b 6 else 0) OR (if i = 7 then ?b 7 else 0)"
    by (simp only: load_u64_def Let_def data_byte_or p)
  consider "i = 0" | "i = 1" | "i = 2" | "i = 3" | "i = 4" | "i = 5" | "i = 6" | "i = 7"
    using assms by linarith
  then show ?thesis unfolding e by cases simp_all
qed

lemma of_nat_8_inj:
  assumes "i < 8" and "j < 8" and "(of_nat i :: uptr) = of_nat j" shows "i = j"
proof -
  have "unat (of_nat i :: uptr) = i" "unat (of_nat j :: uptr) = j"
    using assms(1,2) by (auto intro!: unat_of_nat_small)
  then show ?thesis using assms(3) by metis
qed

text \<open>C11: A header that \<^verbatim>\<open>storeHeader\<close> wrote is the one \<^verbatim>\<open>loadHeader\<close> returns and \<^verbatim>\<open>isValid\<close>
  accepts, with the fields unchanged and the checksum filled in, for either checksum algorithm;
  memory tags are untouched, and so is every 8-byte word that does not overlap the header.\<close>

theorem header_store_load:
  "loadHeader crc alg Cookie Ptr (snd (storeHeader crc alg Cookie Ptr h m))
      = Inr (fst (storeHeader crc alg Cookie Ptr h m))
    \<and> fst (storeHeader crc alg Cookie Ptr h m)
      = h\<lparr>HChecksum := computeHeaderChecksum crc alg Cookie Ptr h\<rparr>
    \<and> isValid crc alg Cookie Ptr (snd (storeHeader crc alg Cookie Ptr h m))
      = (True, fst (storeHeader crc alg Cookie Ptr h m))
    \<and> mem_tag (snd (storeHeader crc alg Cookie Ptr h m)) = mem_tag m
    \<and> ((\<forall>i < 8. \<forall>j < 8. untagPointer q + i \<noteq> untagPointer (getAtomicHeader Ptr) + j)
        \<longrightarrow> load_u64 (snd (storeHeader crc alg Cookie Ptr h m)) q = load_u64 m q)"
proof -
  have "computeHeaderChecksum crc alg Cookie Ptr
      (h\<lparr>HChecksum := computeHeaderChecksum crc alg Cookie Ptr h\<rparr>) = computeHeaderChecksum crc alg Cookie Ptr h"
    by (simp add: computeHeaderChecksum_def)
  then show ?thesis
    by (simp add: loadHeader_def isValid_def storeHeader_def Let_def load_store_u64_other)
qed

theorem header_store_load_witness:
  "load_u64 (snd (storeHeader (\<lambda>_ _. 0) BSD 1 64 (unpack_header 0)
      \<lparr>mem_byte = (\<lambda>_. 7), mem_tag = (\<lambda>_. 0)\<rparr>)) 64 = 0x0707070707070707"
proof -
  have e: "untagPointer 64 = 64" "untagPointer (getAtomicHeader 64) = 48"
    by (simp_all add: untagPointer_def getAtomicHeader_def getHeaderSize_def roundUp_def SCUDO_MIN_ALIGNMENT_LOG_def)
  have d: "\<forall>i < 8. \<forall>j < 8. untagPointer 64 + i \<noteq> untagPointer (getAtomicHeader 64) + (j :: uptr)"
  proof (intro allI impI notI)
    fix i j :: uptr
    assume a: "i < 8" "j < 8" "untagPointer 64 + i = untagPointer (getAtomicHeader 64) + j"
    then have "j = 16 + i" unfolding e by (simp add: algebra_simps)
    moreover have "unat (16 + i) = 16 + unat i"
      using a(1) by (subst unat_add_small) (simp_all add: word_less_nat_alt)
    ultimately show False using a(2) by (simp add: word_less_nat_alt)
  qed
  then show ?thesis
    using header_store_load [of "\<lambda>_ _. 0" BSD 1 64 "unpack_header 0" "\<lparr>mem_byte = (\<lambda>_. 7), mem_tag = (\<lambda>_. 0)\<rparr>" 64]
    by (simp add: load_u64_def Let_def)
qed

text \<open>C12: With the BSD checksum, overwriting any single byte of a stored header with a different
  value makes \<^verbatim>\<open>loadHeader\<close> report a header corruption. Reading an intact header with another
  cookie is reported exactly when the cookies differ in their low 16 bits; the high 16 bits of the
  cookie do not enter the checksum.\<close>

theorem corrupted_header_reported:
  assumes "k < 8" and "m = snd (storeHeader crc BSD Cookie Ptr h m0)"
    and "b \<noteq> mem_byte m (untagPointer (getAtomicHeader Ptr) + of_nat k)"
    and "m' = m\<lparr>mem_byte := (mem_byte m)(untagPointer (getAtomicHeader Ptr) + of_nat k := b)\<rparr>"
  shows "loadHeader crc BSD Cookie Ptr m' = Inl (HeaderCorruption (load_u64 m' (getAtomicHeader Ptr)) Ptr)
    \<and> loadHeader crc BSD Cookie' Ptr m =
      (if (ucast Cookie' :: u16) = ucast Cookie
       then Inr (h\<lparr>HChecksum := computeHeaderChecksum crc BSD Cookie Ptr h\<rparr>)
       else Inl (HeaderCorruption (load_u64 m (getAtomicHeader Ptr)) Ptr))"
proof -
  let ?p = "getAtomicHeader Ptr"
  have ok: "loadHeader crc BSD Cookie Ptr m = Inr (h\<lparr>HChecksum := computeHeaderChecksum crc BSD Cookie Ptr h\<rparr>)"
    unfolding assms(2) by (rule loadHeader_storeHeader)
  have "data_byte k (load_u64 m ?p) \<noteq> data_byte k (load_u64 m' ?p)"
    using assms(1,3,4) by (simp add: data_byte_load)
  moreover have "data_byte i (load_u64 m ?p) = data_byte i (load_u64 m' ?p)" if "i < 8" "i \<noteq> k" for i
    using that assms(1,4) of_nat_8_inj [of i k] by (auto simp: data_byte_load)
  ultimately have "loadHeader crc BSD Cookie Ptr m' = Inl (HeaderCorruption (load_u64 m' ?p) Ptr)"
    using assms(1) by (intro overwritten_byte_rejected [OF ok refl refl assms(1)]) auto
  moreover have "loadHeader crc BSD Cookie' Ptr m = loadHeader crc BSD Cookie Ptr m"
    if "(ucast Cookie' :: u16) = ucast Cookie"
    using that by (simp add: loadHeader_def header_checksum_BSD)
  ultimately show ?thesis using wrong_cookie_rejected [OF ok] ok by simp
qed

theorem corrupted_header_reported_witness:
  "(\<exists>w. loadHeader (\<lambda>_ _. 0) BSD 2 64 (snd (storeHeader (\<lambda>_ _. 0) BSD 1 64 (unpack_header 0)
      \<lparr>mem_byte = (\<lambda>_. 7), mem_tag = (\<lambda>_. 0)\<rparr>)) = Inl (HeaderCorruption w 64))
   \<and> (\<exists>h. loadHeader (\<lambda>_ _. 0) BSD 0x10001 64 (snd (storeHeader (\<lambda>_ _. 0) BSD 1 64 (unpack_header 0)
      \<lparr>mem_byte = (\<lambda>_. 7), mem_tag = (\<lambda>_. 0)\<rparr>)) = Inr h)"
proof -
  let ?m = "snd (storeHeader (\<lambda>_ _. 0) BSD 1 64 (unpack_header 0) \<lparr>mem_byte = (\<lambda>_. 7), mem_tag = (\<lambda>_. 0)\<rparr>)"
  let ?b = "mem_byte ?m (untagPointer (getAtomicHeader 64) + of_nat 3) + 1"
  have u: "(ucast (2 :: u32) :: u16) = 2" "(ucast (1 :: u32) :: u16) = 1" "(ucast (0x10001 :: u32) :: u16) = 1"
    by code_simp+
  show ?thesis
    using corrupted_header_reported [of 3 ?m "\<lambda>_ _. 0" 1 64 "unpack_header 0" _ ?b _ 2, OF _ refl _ refl]
      corrupted_header_reported [of 3 ?m "\<lambda>_ _. 0" 1 64 "unpack_header 0" _ ?b _ "0x10001", OF _ refl _ refl]
    by (simp add: u)
qed

end
