(* ===== verification/IntrusiveList.thy ===== *)
theory IntrusiveList
  imports Report
begin

text \<open>
  \<^verbatim>\<open>list.h\<close>: the intrusive singly and doubly linked lists, over links stored as pointers or
  as indices into an array. The operations work on a store of links through the four accessors
  of \<^verbatim>\<open>LinkOp\<close>, a record \<open>link_op\<close>; the two implementations of the source are
  \<open>ptr_link\<close> and \<open>index_link\<close>. A failing hard \<^verbatim>\<open>CHECK\<close> and a read through a null link are errors.

  The locale \<open>linked_nodes\<close> states what the lists need of the accessors. Inside it the lists are
  described by the sequence of their nodes (\<open>sl_repr\<close>, \<open>dl_repr\<close>), and each operation is shown to
  act on that sequence and to leave the links of all other nodes alone. Both implementations
  interpret it.
\<close>

unbundle bit_operations_syntax

section \<open>Link accessors\<close>

record ('s, 'n) link_op =
  getNext :: "'s \<Rightarrow> 'n \<Rightarrow> 'n option"
  setNext :: "'n \<Rightarrow> 'n option \<Rightarrow> 's \<Rightarrow> 's"
  getPrev :: "'s \<Rightarrow> 'n \<Rightarrow> 'n option"
  setPrev :: "'n \<Rightarrow> 'n option \<Rightarrow> 's \<Rightarrow> 's"

text \<open>Links as pointers.\<close>

record 'n ptr_store =
  PNext :: "'n \<Rightarrow> 'n option"
  PPrev :: "'n \<Rightarrow> 'n option"

definition ptr_link :: "('n ptr_store, 'n) link_op" where
  "ptr_link = \<lparr>getNext = (\<lambda>s X. PNext s X), setNext = (\<lambda>X v s. s\<lparr>PNext := (PNext s)(X := v)\<rparr>),
     getPrev = (\<lambda>s X. PPrev s X), setPrev = (\<lambda>X v s. s\<lparr>PPrev := (PPrev s)(X := v)\<rparr>)\<rparr>"

text \<open>Links as indices of type \<^verbatim>\<open>LinkTy\<close> (\<^verbatim>\<open>u16\<close>, the only index type the allocator uses) into the array at \<^verbatim>\<open>Base\<close>: a node is its position in
  the array, and \<open>EndOfListVal\<close> is the null link.\<close>

record index_store =
  INext :: "nat \<Rightarrow> u16"
  IPrev :: "nat \<Rightarrow> u16"

definition index_get :: "u16 \<Rightarrow> u16 \<Rightarrow> nat option" where
  "index_get EndOfListVal v = (if v = EndOfListVal then None else Some (unat v))"

definition index_set :: "u16 \<Rightarrow> nat option \<Rightarrow> u16" where
  "index_set EndOfListVal X = (case X of None \<Rightarrow> EndOfListVal | Some n \<Rightarrow> of_nat n)"

definition index_link :: "u16 \<Rightarrow> (index_store, nat) link_op" where
  "index_link EndOfListVal =
     \<lparr>getNext = (\<lambda>s X. index_get EndOfListVal (INext s X)),
      setNext = (\<lambda>X v s. s\<lparr>INext := (INext s)(X := index_set EndOfListVal v)\<rparr>),
      getPrev = (\<lambda>s X. index_get EndOfListVal (IPrev s X)),
      setPrev = (\<lambda>X v s. s\<lparr>IPrev := (IPrev s)(X := index_set EndOfListVal v)\<rparr>)\<rparr>"

section \<open>Lists\<close>

record 'n ilist =
  First :: "'n option"
  Last :: "'n option"
  LSize :: uptr

definition list_empty :: "'n ilist \<Rightarrow> bool" where
  "list_empty l = (LSize l = 0)"

definition list_clear :: "'n ilist" where
  "list_clear = \<lparr>First = None, Last = None, LSize = 0\<rparr>"

text \<open>\<^verbatim>\<open>for (T *I = First;; I = getNext(I)) { Count++; if (I == Last) break; }\<close>; \<open>None\<close> is a loop
  that does not end.\<close>

partial_function (option) count_loop ::
    "('s, 'n) link_op \<Rightarrow> 's \<Rightarrow> 'n option \<Rightarrow> 'n option \<Rightarrow> uptr \<Rightarrow> uptr result option" where
  "count_loop L s I la Count =
     (if I = la then Some (Inr (Count + 1))
      else case I of None \<Rightarrow> Some (Inl NullDeref)
           | Some X \<Rightarrow> count_loop L s (getNext L s X) la (Count + 1))"

definition checkConsistency :: "('s, 'n) link_op \<Rightarrow> 's \<Rightarrow> 'n ilist \<Rightarrow> unit result option" where
  "checkConsistency L s l =
     (if LSize l = 0 then
        Some (bindE (CHECK (First l = None) ''First == nullptr'')
                (\<lambda>_. CHECK (Last l = None) ''Last == nullptr''))
      else case count_loop L s (First l) (Last l) 0 of
             None \<Rightarrow> None
           | Some r \<Rightarrow> Some (bindE r (\<lambda>Count.
               bindE (CHECK (LSize l = Count) ''size() == Count'') (\<lambda>_.
                 case Last l of None \<Rightarrow> Inl NullDeref
                 | Some la \<Rightarrow> CHECK (getNext L s la = None) ''getNext(Last) == nullptr''))))"

text \<open>\<^verbatim>\<open>for (T &X : L)\<close>: the nodes the iterator visits, in order.\<close>

partial_function (option) iterate ::
    "('s, 'n) link_op \<Rightarrow> 's \<Rightarrow> 'n option \<Rightarrow> 'n list option" where
  "iterate L s Current =
     (case Current of None \<Rightarrow> Some []
      | Some X \<Rightarrow>
        Option.bind (iterate L s (getNext L s X)) (\<lambda>xs. Some (X # xs)))"

section \<open>Singly linked list\<close>

definition sl_push_back ::
    "('s, 'n) link_op \<Rightarrow> 'n \<Rightarrow> 'n ilist \<times> 's \<Rightarrow> ('n ilist \<times> 's) result" where
  "sl_push_back L X = (\<lambda>(l, s).
     let s = setNext L X None s in
     if list_empty l then Inr (l\<lparr>First := Some X, Last := Some X, LSize := LSize l + 1\<rparr>, s)
     else case Last l of None \<Rightarrow> Inl NullDeref
          | Some la \<Rightarrow> Inr (l\<lparr>Last := Some X, LSize := LSize l + 1\<rparr>, setNext L la (Some X) s))"

definition sl_push_front :: "('s, 'n) link_op \<Rightarrow> 'n \<Rightarrow> 'n ilist \<times> 's \<Rightarrow> 'n ilist \<times> 's" where
  "sl_push_front L X = (\<lambda>(l, s).
     let l = (if list_empty l then l\<lparr>Last := Some X\<rparr> else l);
         s = setNext L X (First l) s
     in (l\<lparr>First := Some X, LSize := LSize l + 1\<rparr>, s))"

definition sl_pop_front :: "('s, 'n) link_op \<Rightarrow> 'n ilist \<times> 's \<Rightarrow> ('n ilist \<times> 's) result" where
  "sl_pop_front L = (\<lambda>(l, s).
     case First l of None \<Rightarrow> Inl NullDeref
     | Some f \<Rightarrow>
       let l = l\<lparr>First := getNext L s f\<rparr>;
           l = (if First l = None then l\<lparr>Last := None\<rparr> else l)
       in Inr (l\<lparr>LSize := LSize l - 1\<rparr>, s))"

definition sl_insert :: "('s, 'n) link_op \<Rightarrow> 'n \<Rightarrow> 'n \<Rightarrow> 'n ilist \<times> 's \<Rightarrow> 'n ilist \<times> 's" where
  "sl_insert L Prev X = (\<lambda>(l, s).
     let s = setNext L X (getNext L s Prev) s;
         s = setNext L Prev (Some X) s;
         l = (if Last l = Some Prev then l\<lparr>Last := Some X\<rparr> else l)
     in (l\<lparr>LSize := LSize l + 1\<rparr>, s))"

definition sl_extract :: "('s, 'n) link_op \<Rightarrow> 'n \<Rightarrow> 'n \<Rightarrow> 'n ilist \<times> 's \<Rightarrow> 'n ilist \<times> 's" where
  "sl_extract L Prev X = (\<lambda>(l, s).
     let s = setNext L Prev (getNext L s X) s;
         l = (if Last l = Some X then l\<lparr>Last := Some Prev\<rparr> else l)
     in (l\<lparr>LSize := LSize l - 1\<rparr>, s))"

text \<open>\<^verbatim>\<open>this->append_back(L)\<close> returns this list, the emptied other list and the store.\<close>

definition sl_append_back ::
    "('s, 'n) link_op \<Rightarrow> 'n ilist \<Rightarrow> 'n ilist \<times> 's \<Rightarrow> ('n ilist \<times> 'n ilist \<times> 's) result" where
  "sl_append_back L other = (\<lambda>(l, s).
     if list_empty other then Inr (l, other, s)
     else if list_empty l then Inr (other, list_clear, s)
     else case Last l of None \<Rightarrow> Inl NullDeref
          | Some la \<Rightarrow>
            Inr (l\<lparr>Last := Last other, LSize := LSize l + LSize other\<rparr>, list_clear,
                 setNext L la (First other) s))"

section \<open>Doubly linked list\<close>

definition dl_push_front ::
    "('s, 'n) link_op \<Rightarrow> 'n \<Rightarrow> 'n ilist \<times> 's \<Rightarrow> ('n ilist \<times> 's) result" where
  "dl_push_front L X = (\<lambda>(l, s).
     let s = setPrev L X None s in
     bindE (if list_empty l then Inr (l\<lparr>Last := Some X\<rparr>, s)
            else case First l of None \<Rightarrow> Inl NullDeref
                 | Some f \<Rightarrow> Inr (l, setPrev L f (Some X) s))
       (\<lambda>(l, s). Inr (l\<lparr>First := Some X, LSize := LSize l + 1\<rparr>, setNext L X (First l) s)))"

definition dl_insert ::
    "('s, 'n) link_op \<Rightarrow> 'n \<Rightarrow> 'n \<Rightarrow> 'n ilist \<times> 's \<Rightarrow> ('n ilist \<times> 's) result" where
  "dl_insert L X Y = (\<lambda>(l, s).
     if First l = Some Y then dl_push_front L X (l, s)
     else case getPrev L s Y of None \<Rightarrow> Inl NullDeref
          | Some p \<Rightarrow>
            bindE (CHECK (getNext L s p = Some Y) ''getNext(Prev) == Y'')
              (\<lambda>_. let s = setNext L p (Some X) s;
                       s = setPrev L X (Some p) s;
                       s = setNext L X (Some Y) s;
                       s = setPrev L Y (Some X) s
                   in Inr (l\<lparr>LSize := LSize l + 1\<rparr>, s)))"

definition dl_push_back ::
    "('s, 'n) link_op \<Rightarrow> 'n \<Rightarrow> 'n ilist \<times> 's \<Rightarrow> ('n ilist \<times> 's) result" where
  "dl_push_back L X = (\<lambda>(l, s).
     let s = setNext L X None s in
     bindE (if list_empty l then Inr (l\<lparr>First := Some X\<rparr>, s)
            else case Last l of None \<Rightarrow> Inl NullDeref
                 | Some la \<Rightarrow> Inr (l, setNext L la (Some X) s))
       (\<lambda>(l, s). Inr (l\<lparr>Last := Some X, LSize := LSize l + 1\<rparr>, setPrev L X (Last l) s)))"

definition dl_pop_front :: "('s, 'n) link_op \<Rightarrow> 'n ilist \<times> 's \<Rightarrow> ('n ilist \<times> 's) result" where
  "dl_pop_front L = (\<lambda>(l, s).
     case First l of None \<Rightarrow> Inl NullDeref
     | Some f \<Rightarrow>
       let l = l\<lparr>First := getNext L s f\<rparr>
       in case First l of
            None \<Rightarrow> Inr (l\<lparr>Last := None, LSize := LSize l - 1\<rparr>, s)
          | Some g \<Rightarrow> Inr (l\<lparr>LSize := LSize l - 1\<rparr>, setPrev L g None s))"

definition dl_remove ::
    "('s, 'n) link_op \<Rightarrow> 'n \<Rightarrow> 'n ilist \<times> 's \<Rightarrow> ('n ilist \<times> 's) result" where
  "dl_remove L X = (\<lambda>(l, s).
     let Prev = getPrev L s X; Next = getNext L s X in
     bindE (case Prev of None \<Rightarrow> Inr s
            | Some p \<Rightarrow> bindE (CHECK (getNext L s p = Some X) ''getNext(Prev) == X'')
                         (\<lambda>_. Inr (setNext L p Next s)))
       (\<lambda>s. bindE (case Next of None \<Rightarrow> Inr s
                   | Some n \<Rightarrow> bindE (CHECK (getPrev L s n = Some X) ''getPrev(Next) == X'')
                                (\<lambda>_. Inr (setPrev L n Prev s)))
         (\<lambda>s. let l = (if First l = Some X then l\<lparr>First := Next\<rparr> else l);
                  l = (if Last l = Some X then l\<lparr>Last := Prev\<rparr> else l)
              in Inr (l\<lparr>LSize := LSize l - 1\<rparr>, s))))"

section \<open>The sequence of nodes\<close>

definition hd_or :: "'n list \<Rightarrow> 'n option \<Rightarrow> 'n option" where
  "hd_or xs v = (case xs of [] \<Rightarrow> v | x # _ \<Rightarrow> Some x)"

definition last_opt :: "'n list \<Rightarrow> 'n option" where
  "last_opt xs = (if xs = [] then None else Some (last xs))"

fun chain :: "('n \<Rightarrow> 'n option) \<Rightarrow> 'n list \<Rightarrow> 'n option \<Rightarrow> bool" where
  "chain f [] v = True"
| "chain f (x # xs) v = (f x = hd_or xs v \<and> chain f xs v)"

lemma hd_or_simps [simp]: "hd_or [] v = v" "hd_or (x # xs) v = Some x"
  "hd_or (xs @ ys) v = hd_or xs (hd_or ys v)"
  by (simp_all add: hd_or_def split: list.split)

lemma last_opt_simps [simp]: "last_opt [] = None" "last_opt (xs @ [x]) = Some x"
  "last_opt [x] = Some x"
  by (simp_all add: last_opt_def)

lemma hd_or_rev [simp]: "hd_or (rev xs) v = (if xs = [] then v else Some (last xs))"
  by (cases xs rule: rev_cases) simp_all

lemma chain_append [simp]: "chain f (xs @ ys) v \<longleftrightarrow> chain f xs (hd_or ys v) \<and> chain f ys v"
  by (induction xs) auto

lemma chain_upd [simp]: "x \<notin> set xs \<Longrightarrow> chain (f(x := w)) xs v = chain f xs v"
  by (induction xs) auto

lemma chain_nth: "chain f xs None \<Longrightarrow> i < length xs \<Longrightarrow>
    f (xs ! i) = (if Suc i < length xs then Some (xs ! Suc i) else None)"
proof (induction xs arbitrary: i)
  case (Cons x xs)
  then show ?case by (cases i; cases xs) auto
qed simp

section \<open>What the operations of a doubly linked list promise\<close>

text \<open>For a list \<open>l\<close> whose nodes are \<open>xs\<close>, as the predicate \<open>R\<close> says, and a node \<open>N\<close> that is not in
  it: what each operation returns and which nodes the list has afterwards, for an empty list too.\<close>

definition dl_contract ::
    "('s, 'n) link_op \<Rightarrow> ('s \<Rightarrow> 'n ilist \<Rightarrow> 'n list \<Rightarrow> bool) \<Rightarrow> 's \<Rightarrow> 'n ilist \<Rightarrow> 'n list \<Rightarrow> 'n \<Rightarrow> bool" where
  "dl_contract L R s l xs N \<longleftrightarrow>
     (\<exists>l' s'. dl_push_front L N (l, s) = Inr (l', s') \<and> R s' l' (N # xs))
     \<and> (\<exists>l' s'. dl_push_back L N (l, s) = Inr (l', s') \<and> R s' l' (xs @ [N]))
     \<and> (case xs of [] \<Rightarrow> dl_pop_front L (l, s) = Inl NullDeref
        | x # t \<Rightarrow> \<exists>l' s'. dl_pop_front L (l, s) = Inr (l', s') \<and> R s' l' t)
     \<and> (\<forall>ys X zs. xs = ys @ X # zs \<longrightarrow>
          (\<exists>l' s'. dl_remove L X (l, s) = Inr (l', s') \<and> R s' l' (ys @ zs))
          \<and> (\<exists>l' s'. dl_insert L N X (l, s) = Inr (l', s') \<and> R s' l' (ys @ N # X # zs)))
     \<and> list_empty l = (xs = [])
     \<and> checkConsistency L s l = Some (Inr ())
     \<and> iterate L s (First l) = Some xs"

section \<open>The laws of the accessors\<close>

text \<open>\<open>node\<close> holds of the nodes that a link can point to.\<close>

locale linked_nodes =
  fixes L :: "('s, 'n) link_op" and node :: "'n \<Rightarrow> bool"
  assumes next_setNext: "node x \<Longrightarrow> pred_option node v \<Longrightarrow>
      getNext L (setNext L x v s) = (getNext L s)(x := v)"
    and prev_setPrev: "node x \<Longrightarrow> pred_option node v \<Longrightarrow>
      getPrev L (setPrev L x v s) = (getPrev L s)(x := v)"
    and next_setPrev: "getNext L (setPrev L x v s) = getNext L s"
    and prev_setNext: "getPrev L (setNext L x v s) = getPrev L s"
begin

definition sl_repr :: "'s \<Rightarrow> 'n ilist \<Rightarrow> 'n list \<Rightarrow> bool" where
  "sl_repr s l xs \<longleftrightarrow> distinct xs \<and> (\<forall>x \<in> set xs. node x) \<and> length xs < 2 ^ 64
     \<and> First l = hd_or xs None \<and> Last l = last_opt xs \<and> LSize l = of_nat (length xs)
     \<and> chain (getNext L s) xs None"

definition dl_repr :: "'s \<Rightarrow> 'n ilist \<Rightarrow> 'n list \<Rightarrow> bool" where
  "dl_repr s l xs \<longleftrightarrow> sl_repr s l xs \<and> chain (getPrev L s) (rev xs) None"

lemma repr_size:
  assumes "sl_repr s l xs" shows "unat (LSize l) = length xs"
proof -
  have "length xs < 2 ^ LENGTH(64)" using assms by (simp add: sl_repr_def)
  then show ?thesis using assms unat_of_nat_small [of "length xs", where 'a = 64] by (simp add: sl_repr_def)
qed

lemma repr_empty: "sl_repr s l xs \<Longrightarrow> list_empty l \<longleftrightarrow> xs = []"
  using repr_size [of s l xs] by (auto simp: list_empty_def sl_repr_def)

lemmas upd = next_setNext prev_setPrev next_setPrev prev_setNext

lemma sl_push_back_repr:
  assumes "sl_repr s l xs" and "node X" and "X \<notin> set xs" and "length xs + 1 < 2 ^ 64"
  shows "\<exists>l' s'. sl_push_back L X (l, s) = Inr (l', s') \<and> sl_repr s' l' (xs @ [X])
    \<and> (\<forall>y. y \<noteq> X \<and> y \<notin> set xs \<longrightarrow> getNext L s' y = getNext L s y)"
proof (cases xs rule: rev_cases)
  case Nil
  then show ?thesis using assms repr_empty [OF assms(1)]
    by (auto simp: sl_push_back_def sl_repr_def upd)
next
  case (snoc ys a)
  then show ?thesis using assms repr_empty [OF assms(1)]
    by (auto simp: sl_push_back_def sl_repr_def upd Let_def last_opt_def add.commute)
qed

lemma sl_push_front_repr:
  assumes "sl_repr s l xs" and "node X" and "X \<notin> set xs" and "length xs + 1 < 2 ^ 64"
  shows "sl_repr (snd (sl_push_front L X (l, s))) (fst (sl_push_front L X (l, s))) (X # xs)"
proof (cases xs)
  case Nil
  then show ?thesis using assms repr_empty [OF assms(1)]
    by (simp add: sl_push_front_def sl_repr_def upd last_opt_def)
next
  case (Cons a ys)
  then show ?thesis using assms repr_empty [OF assms(1)]
    by (auto simp: sl_push_front_def sl_repr_def upd Let_def add.commute last_opt_def)
qed

lemma sl_pop_front_repr:
  assumes "sl_repr s l (x # xs)"
  shows "\<exists>l'. sl_pop_front L (l, s) = Inr (l', s) \<and> sl_repr s l' xs"
  using assms by (cases xs) (auto simp: sl_pop_front_def sl_repr_def Let_def last_opt_def)

lemma sl_insert_repr:
  assumes "sl_repr s l (ys @ p # zs)" and "node X" and "X \<notin> set (ys @ p # zs)"
    and "length (ys @ p # zs) + 1 < 2 ^ 64"
  shows "sl_repr (snd (sl_insert L p X (l, s))) (fst (sl_insert L p X (l, s))) (ys @ p # X # zs)"
proof -
  have z: "pred_option node (hd_or zs None)" using assms(1) by (cases zs) (auto simp: sl_repr_def)
  show ?thesis
  proof (cases zs rule: rev_cases)
    case Nil
    then show ?thesis using assms z
      by (auto simp: sl_insert_def sl_repr_def upd Let_def last_opt_def add.commute)
  next
    case (snoc vs v)
    have "v \<noteq> p" using assms(1) snoc by (auto simp: sl_repr_def)
    then show ?thesis using assms z snoc
      by (auto simp: sl_insert_def sl_repr_def upd Let_def last_opt_def add.commute)
  qed
qed

lemma sl_extract_repr:
  assumes "sl_repr s l (ys @ p # X # zs)"
  shows "sl_repr (snd (sl_extract L p X (l, s))) (fst (sl_extract L p X (l, s))) (ys @ p # zs)"
proof -
  have z: "pred_option node (hd_or zs None)" using assms(1) by (cases zs) (auto simp: sl_repr_def)
  show ?thesis
  proof (cases zs rule: rev_cases)
    case Nil
    then show ?thesis using assms z
      by (simp add: sl_extract_def sl_repr_def upd Let_def last_opt_def)
  next
    case (snoc vs v)
    have "v \<noteq> X" using assms(1) snoc by (auto simp: sl_repr_def)
    then show ?thesis using assms z snoc
      by (auto simp: sl_extract_def sl_repr_def upd Let_def last_opt_def)
  qed
qed

lemma sl_append_back_repr:
  assumes "sl_repr s l xs" and "sl_repr s m ys" and "set xs \<inter> set ys = {}"
    and "length xs + length ys < 2 ^ 64"
  shows "\<exists>l' m' s'. sl_append_back L m (l, s) = Inr (l', m', s') \<and> sl_repr s' l' (xs @ ys) \<and> sl_repr s' m' []"
proof (cases "ys = [] \<or> xs = []")
  case True
  then show ?thesis
    using assms repr_empty [OF assms(1)] repr_empty [OF assms(2)]
    by (auto simp: sl_append_back_def list_clear_def sl_repr_def)
next
  case False
  then obtain zs a y vs where "xs = zs @ [a]" "ys = y # vs"
    by (meson neq_Nil_conv rev_exhaust)
  then show ?thesis
    using assms repr_empty [OF assms(1)] repr_empty [OF assms(2)]
    by (auto simp: sl_append_back_def list_clear_def sl_repr_def upd last_opt_def)
qed

lemma dl_push_front_repr:
  assumes "dl_repr s l xs" and "node X" and "X \<notin> set xs" and "length xs + 1 < 2 ^ 64"
  shows "\<exists>l' s'. dl_push_front L X (l, s) = Inr (l', s') \<and> dl_repr s' l' (X # xs)"
  using assms repr_empty [of s l xs]
  by (cases xs) (auto simp: dl_push_front_def dl_repr_def sl_repr_def upd Let_def last_opt_def add.commute)

lemma dl_push_back_repr:
  assumes "dl_repr s l xs" and "node X" and "X \<notin> set xs" and "length xs + 1 < 2 ^ 64"
  shows "\<exists>l' s'. dl_push_back L X (l, s) = Inr (l', s') \<and> dl_repr s' l' (xs @ [X])"
  using assms repr_empty [of s l xs]
  by (cases xs rule: rev_cases)
    (auto simp: dl_push_back_def dl_repr_def sl_repr_def upd Let_def last_opt_def add.commute)

lemma dl_insert_repr:
  assumes "dl_repr s l (ys @ Y # zs)" and "node X" and "X \<notin> set (ys @ Y # zs)"
    and "length (ys @ Y # zs) + 1 < 2 ^ 64"
  shows "\<exists>l' s'. dl_insert L X Y (l, s) = Inr (l', s') \<and> dl_repr s' l' (ys @ X # Y # zs)"
proof (cases ys rule: rev_cases)
  case Nil
  have "First l = Some Y" using assms(1) Nil by (simp add: dl_repr_def sl_repr_def)
  then show ?thesis using dl_push_front_repr [OF assms] Nil by (simp add: dl_insert_def)
next
  case (snoc vs p)
  have "First l \<noteq> Some Y" using assms(1) snoc by (cases vs) (auto simp: dl_repr_def sl_repr_def)
  then show ?thesis using assms snoc
    by (auto simp: dl_insert_def dl_repr_def sl_repr_def upd Let_def last_opt_def add.commute)
qed

lemma dl_pop_front_repr:
  assumes "dl_repr s l (x # xs)"
  shows "\<exists>l' s'. dl_pop_front L (l, s) = Inr (l', s') \<and> dl_repr s' l' xs"
  using assms
  by (cases xs) (auto simp: dl_pop_front_def dl_repr_def sl_repr_def upd Let_def last_opt_def)

lemma dl_remove_repr:
  assumes "dl_repr s l (ys @ X # zs)"
  shows "\<exists>l' s'. dl_remove L X (l, s) = Inr (l', s') \<and> dl_repr s' l' (ys @ zs)"
proof -
  consider "ys = []" "zs = []" | z zs' where "ys = []" "zs = z # zs'"
    | ys' y where "ys = ys' @ [y]" "zs = []" | ys' y z zs' where "ys = ys' @ [y]" "zs = z # zs'"
    by (metis neq_Nil_conv rev_exhaust)
  then show ?thesis
  proof cases
    case 1
    then show ?thesis using assms
      by (auto simp: dl_remove_def dl_repr_def sl_repr_def upd Let_def last_opt_def)
  next
    case 2
    then show ?thesis using assms
      by (auto simp: dl_remove_def dl_repr_def sl_repr_def upd Let_def last_opt_def)
  next
    case 3
    then have "First l \<noteq> Some X" using assms by (cases ys') (auto simp: dl_repr_def sl_repr_def)
    then show ?thesis using 3 assms
      by (auto simp: dl_remove_def dl_repr_def sl_repr_def upd Let_def last_opt_def)
  next
    case 4
    then have "First l \<noteq> Some X" "Last l \<noteq> Some X"
      using assms by (cases ys'; cases zs' rule: rev_cases; auto simp: dl_repr_def sl_repr_def last_opt_def)+
    then show ?thesis using 4 assms
      by (auto simp: dl_remove_def dl_repr_def sl_repr_def upd Let_def last_opt_def)
  qed
qed

lemma dl_remove_corrupt:
  assumes "(\<exists>p. getPrev L s X = Some p \<and> getNext L s p \<noteq> Some X)
    \<or> (\<exists>n. getNext L s X = Some n \<and> n \<noteq> X \<and> getPrev L s n \<noteq> Some X)"
  shows "\<exists>c. dl_remove L X (l, s) = Inl (CheckFailed c)"
  using assms
  by (cases "getPrev L s X"; cases "getNext L s X")
    (auto simp: dl_remove_def Let_def CHECK_def next_setPrev prev_setNext)

lemma count_loop_repr:
  assumes "chain (getNext L s) xs None" and "distinct xs" and "xs \<noteq> []"
  shows "count_loop L s (hd_or xs None) (last_opt xs) c = Some (Inr (c + of_nat (length xs)))"
  using assms
proof (induction xs arbitrary: c)
  case (Cons x xs)
  show ?case
  proof (cases xs)
    case Nil
    then show ?thesis by (simp add: count_loop.simps)
  next
    case (Cons y ys)
    have "last_opt (x # xs) = last_opt xs" "Some x \<noteq> last_opt xs"
      using Cons Cons.prems by (auto simp: last_opt_def)
    moreover have "count_loop L s (Some y) (last_opt xs) (c + 1) = Some (Inr (c + 1 + of_nat (length xs)))"
      using Cons.IH [of "c + 1"] Cons Cons.prems by simp
    ultimately show ?thesis
      using Cons Cons.prems by (simp add: count_loop.simps [of L s "Some x"] algebra_simps)
  qed
qed simp

lemma checkConsistency_repr:
  assumes "sl_repr s l xs" shows "checkConsistency L s l = Some (Inr ())"
proof (cases "xs = []")
  case True
  then show ?thesis using assms by (simp add: checkConsistency_def sl_repr_def)
next
  case False
  have c: "chain (getNext L s) xs None" "distinct xs" using assms by (simp_all add: sl_repr_def)
  have "LSize l \<noteq> 0" using repr_empty [OF assms] False by (simp add: list_empty_def)
  moreover have "getNext L s (last xs) = None"
    using c(1) False by (cases xs rule: rev_cases) auto
  ultimately show ?thesis
    using assms False count_loop_repr [OF c False, of 0]
    by (simp add: checkConsistency_def sl_repr_def last_opt_def)
qed

lemma iterate_repr:
  assumes "chain (getNext L s) xs None"
  shows "iterate L s (hd_or xs None) = Some xs"
  using assms
proof (induction xs)
  case Nil
  then show ?case by (simp add: iterate.simps)
next
  case (Cons x xs)
  then show ?case by (simp add: iterate.simps [of L s "Some x"])
qed

lemma dl_contract_holds:
  assumes r: "dl_repr s l xs" and N: "node N" "N \<notin> set xs" "length xs + 1 < 2 ^ 64"
  shows "dl_contract L dl_repr s l xs N"
proof -
  have sr: "sl_repr s l xs" using r by (simp add: dl_repr_def)
  then have f: "First l = hd_or xs None" and c: "chain (getNext L s) xs None" by (simp_all only: sl_repr_def)
  have pop: "case xs of [] \<Rightarrow> dl_pop_front L (l, s) = Inl NullDeref
      | x # t \<Rightarrow> \<exists>l' s'. dl_pop_front L (l, s) = Inr (l', s') \<and> dl_repr s' l' t"
    using r f dl_pop_front_repr [of s l] by (cases xs) (simp_all add: dl_pop_front_def)
  have "(\<exists>l' s'. dl_remove L X (l, s) = Inr (l', s') \<and> dl_repr s' l' (ys @ zs))
      \<and> (\<exists>l' s'. dl_insert L N X (l, s) = Inr (l', s') \<and> dl_repr s' l' (ys @ N # X # zs))"
    if "xs = ys @ X # zs" for ys X zs
    using dl_remove_repr [of s l ys X zs] dl_insert_repr [of s l ys X zs N] r N unfolding that by blast
  then show ?thesis
    unfolding dl_contract_def
    using dl_push_front_repr [OF r N] dl_push_back_repr [OF r N] pop repr_empty [OF sr]
      checkConsistency_repr [OF sr] iterate_repr [OF c] f by simp
qed

end

interpretation ptr: linked_nodes ptr_link "\<lambda>_. True"
  by unfold_locales (auto simp: ptr_link_def)

text \<open>An array of at most 65535 nodes, indexed by \<^verbatim>\<open>u16\<close> with \<^verbatim>\<open>UINT16_MAX\<close> as the null link.\<close>

abbreviation cache_link :: "(index_store, nat) link_op" where
  "cache_link \<equiv> index_link (- 1)"

lemma index_get_set: "pred_option (\<lambda>n. n < 65535) v \<Longrightarrow> index_get (- 1) (index_set (- 1) v) = v"
proof (cases v)
  case (Some n)
  assume a: "pred_option (\<lambda>n. n < 65535) v"
  then have n: "n < 65535" using Some by simp
  then have u: "unat (of_nat n :: u16) = n" by (intro unat_of_nat_small) simp
  have m1: "unat (- 1 :: u16) = 65535" by (simp add: unsigned_minus_1_eq_mask mask_eq_exp_minus_1)
  have "(of_nat n :: u16) \<noteq> - 1"
  proof
    assume "(of_nat n :: u16) = - 1"
    then have "unat (of_nat n :: u16) = 65535" by (simp only: m1)
    then show False using n u by simp
  qed
  then show ?thesis using Some u by (simp add: index_get_def index_set_def)
qed (simp add: index_get_def index_set_def)

interpretation idx: linked_nodes cache_link "\<lambda>n. n < 65535"
  by unfold_locales (auto simp: index_link_def index_get_set)

section \<open>The lists of the allocator\<close>

lemma repr_list_clear: "ptr.dl_repr s list_clear []" "idx.dl_repr t list_clear []"
  by (simp_all add: ptr.dl_repr_def ptr.sl_repr_def idx.dl_repr_def idx.sl_repr_def list_clear_def)



text \<open>\<^verbatim>\<open>DoublyLinkedList::remove\<close> on a node whose links were tampered with: when the
  predecessor it names does not point back to it, or the successor does not, the hard \<^verbatim>\<open>CHECK\<close>
  fails and nothing is written (pointer links and index links alike).\<close>

theorem dl_remove_detects_corruption:
  assumes "(\<exists>p. getPrev ptr_link s X = Some p \<and> getNext ptr_link s p \<noteq> Some X)
      \<or> (\<exists>n. getNext ptr_link s X = Some n \<and> n \<noteq> X \<and> getPrev ptr_link s n \<noteq> Some X)"
    and "(\<exists>p. getPrev cache_link t Y = Some p \<and> getNext cache_link t p \<noteq> Some Y)
      \<or> (\<exists>n. getNext cache_link t Y = Some n \<and> n \<noteq> Y \<and> getPrev cache_link t n \<noteq> Some Y)"
  shows "(\<exists>c. dl_remove ptr_link X (l, s) = Inl (CheckFailed c))
    \<and> (\<exists>c. dl_remove cache_link Y (k, t) = Inl (CheckFailed c))"
  using ptr.dl_remove_corrupt [OF assms(1)] idx.dl_remove_corrupt [OF assms(2)] by blast

theorem dl_remove_detects_corruption_witness:
  "\<exists>c. dl_remove ptr_link (4 :: nat) (list_clear, \<lparr>PNext = (\<lambda>_. None), PPrev = (\<lambda>_. Some 2)\<rparr>) = Inl (CheckFailed c)"
proof -
  let ?s = "\<lparr>PNext = (\<lambda>_. None), PPrev = (\<lambda>_. Some 2)\<rparr> :: nat ptr_store"
  let ?t = "\<lparr>INext = (\<lambda>_. - 1), IPrev = (\<lambda>_. 2)\<rparr>"
  have "getPrev ptr_link ?s 4 = Some 2" "getNext ptr_link ?s 2 \<noteq> Some 4"
    "getPrev cache_link ?t 4 = Some 2" "getNext cache_link ?t 2 \<noteq> Some 4"
    by (simp_all add: ptr_link_def index_link_def index_get_def)
  then show ?thesis using dl_remove_detects_corruption [of ?s 4 ?t 4 list_clear list_clear] by blast
qed

text \<open>\<^verbatim>\<open>SinglyLinkedList::append_back\<close> on two well-formed lists with disjoint nodes moves all
  nodes of the second to the end of the first, in order, and empties the second; \<^verbatim>\<open>insert\<close> and
  \<^verbatim>\<open>extract\<close> after a node are inverse to each other.\<close>

theorem sl_list_operations:
  assumes "ptr.sl_repr s l (ys @ p # zs)" and "ptr.sl_repr s m ws" and "set (ys @ p # zs) \<inter> set ws = {}"
    and "length (ys @ p # zs) + length ws + 1 < 2 ^ 64" and "X \<notin> set (ys @ p # zs)"
  shows "(\<exists>l' m' s'. sl_append_back ptr_link m (l, s) = Inr (l', m', s')
      \<and> ptr.sl_repr s' l' (ys @ p # zs @ ws) \<and> ptr.sl_repr s' m' [])
    \<and> (let (l', s') = sl_insert ptr_link p X (l, s) in ptr.sl_repr s' l' (ys @ p # X # zs)
        \<and> (let (l'', s'') = sl_extract ptr_link p X (l', s') in ptr.sl_repr s'' l'' (ys @ p # zs)))"
proof -
  have "\<exists>l' m' s'. sl_append_back ptr_link m (l, s) = Inr (l', m', s')
      \<and> ptr.sl_repr s' l' ((ys @ p # zs) @ ws) \<and> ptr.sl_repr s' m' []"
    using assms by (intro ptr.sl_append_back_repr) auto
  moreover have i: "ptr.sl_repr (snd (sl_insert ptr_link p X (l, s))) (fst (sl_insert ptr_link p X (l, s))) (ys @ p # X # zs)"
    using assms by (intro ptr.sl_insert_repr) auto
  ultimately show ?thesis
    using ptr.sl_extract_repr [OF i] by (simp add: Let_def split_beta)
qed

theorem sl_list_operations_witness:
  "\<exists>l s. ptr.sl_repr s l [5 :: nat] \<and>
    (let (l', s') = sl_insert ptr_link 5 2 (l, s) in ptr.sl_repr s' l' [5, 2])"
proof -
  let ?t = "\<lparr>PNext = (\<lambda>_. None), PPrev = (\<lambda>_. None)\<rparr> :: nat ptr_store"
  have 0: "ptr.sl_repr ?t list_clear []" using repr_list_clear(1) [of ?t] by (simp add: ptr.dl_repr_def)
  obtain l1 s1 where 1: "ptr.sl_repr s1 l1 [5 :: nat]"
    using ptr.sl_push_back_repr [OF 0, of 5] by auto
  have e: "ptr.sl_repr s1 list_clear []" using repr_list_clear(1) [of s1] by (simp add: ptr.dl_repr_def)
  show ?thesis using sl_list_operations [of s1 l1 "[]" 5 "[]" list_clear "[]" 2] 1 e by (auto simp: split_beta)
qed

end
