(* ===== verification/Quarantine.thy ===== *)
theory Quarantine
  imports Report
begin

text \<open>
  \<^verbatim>\<open>quarantine.h\<close>: freed chunks are parked in batches, per thread first and then globally, and
  recycled when the quarantine exceeds its size. The singly linked list of batches is the
  sequence of its batches (\<open>IntrusiveList\<close> shows that the list operations act on that sequence).
  The callback of the allocator is a record of operations on a state of its own, each of which
  may report an error. Mutexes are the flags of the global quarantine.

  The invariant \<open>qcache_inv\<close> says that the size counter is the sum of the batch sizes and that no
  batch overflows; every operation keeps it. The pointers of a cache in order are
  \<open>qpointers\<close>; merging keeps them, recycling passes each one to the callback exactly once. The last
  part is a step relation in which threads interleave between the critical sections.
\<close>

unbundle bit_operations_syntax

section \<open>Batches\<close>

record qbatch =
  QAddr :: uptr
  QSize :: uptr
  QBatch :: "uptr list"

definition MaxCount :: nat where "MaxCount = 1019"

text \<open>\<^verbatim>\<open>Next\<close>, \<^verbatim>\<open>Size\<close>, \<^verbatim>\<open>Count\<close> with its padding, and the array.\<close>

definition sizeof_QuarantineBatch :: uptr where
  "sizeof_QuarantineBatch = 8 + 8 + 8 + 1019 * 8"

definition batch_init :: "uptr \<Rightarrow> uptr \<Rightarrow> uptr \<Rightarrow> qbatch" where
  "batch_init addr Ptr Size = \<lparr>QAddr = addr, QSize = Size + sizeof_QuarantineBatch, QBatch = [Ptr]\<rparr>"

definition getQuarantinedSize :: "qbatch \<Rightarrow> uptr" where
  "getQuarantinedSize B = QSize B - sizeof_QuarantineBatch"

definition batch_push_back :: "uptr \<Rightarrow> uptr \<Rightarrow> qbatch \<Rightarrow> qbatch" where
  "batch_push_back Ptr Size B = B\<lparr>QBatch := QBatch B @ [Ptr], QSize := QSize B + Size\<rparr>"

definition canMerge :: "qbatch \<Rightarrow> qbatch \<Rightarrow> bool" where
  "canMerge B From = (length (QBatch B) + length (QBatch From) \<le> MaxCount)"

text \<open>\<^verbatim>\<open>this->merge(From)\<close> returns both batches.\<close>

definition batch_merge :: "qbatch \<Rightarrow> qbatch \<Rightarrow> qbatch \<times> qbatch" where
  "batch_merge B From =
     (B\<lparr>QBatch := QBatch B @ QBatch From, QSize := QSize B + getQuarantinedSize From\<rparr>,
      From\<lparr>QBatch := [], QSize := sizeof_QuarantineBatch\<rparr>)"

definition batch_shuffle :: "u32 \<Rightarrow> qbatch \<Rightarrow> qbatch" where
  "batch_shuffle Seed B = B\<lparr>QBatch := fst (shuffle (QBatch B) Seed)\<rparr>"

section \<open>Caches\<close>

record qcache =
  QList :: "qbatch list"
  QCSize :: uptr

definition qcache_empty :: qcache where
  "qcache_empty = \<lparr>QList = [], QCSize = 0\<rparr>"

definition getOverheadSize :: "qcache \<Rightarrow> uptr" where
  "getOverheadSize C = of_nat (length (QList C)) * sizeof_QuarantineBatch"

record 'a callback =
  cb_allocate :: "uptr \<Rightarrow> 'a \<Rightarrow> (uptr \<times> 'a) result"
  cb_recycle :: "uptr \<Rightarrow> 'a \<Rightarrow> 'a result"
  cb_deallocate :: "uptr \<Rightarrow> 'a \<Rightarrow> 'a result"

definition enqueueBatch :: "qbatch \<Rightarrow> qcache \<Rightarrow> qcache" where
  "enqueueBatch B C = \<lparr>QList = QList C @ [B], QCSize = QCSize C + QSize B\<rparr>"

definition enqueue ::
    "'a callback \<Rightarrow> uptr \<Rightarrow> uptr \<Rightarrow> qcache \<times> 'a \<Rightarrow> (qcache \<times> 'a) result" where
  "enqueue Cb Ptr Size = (\<lambda>(C, a).
     if QList C = [] \<or> length (QBatch (last (QList C))) = MaxCount then
       bindE (cb_allocate Cb sizeof_QuarantineBatch a)
         (\<lambda>(B, a). if B = 0 then Inl NullDeref
                   else Inr (enqueueBatch (batch_init B Ptr Size) C, a))
     else Inr (\<lparr>QList = butlast (QList C) @ [batch_push_back Ptr Size (last (QList C))],
               QCSize = QCSize C + Size\<rparr>, a))"

text \<open>\<^verbatim>\<open>this->transfer(From)\<close>: this cache and the emptied other one.\<close>

definition transfer :: "qcache \<Rightarrow> qcache \<Rightarrow> qcache \<times> qcache" where
  "transfer C From = (\<lparr>QList = QList C @ QList From, QCSize = QCSize C + QCSize From\<rparr>, qcache_empty)"

definition dequeueBatch :: "qcache \<Rightarrow> qbatch option \<times> qcache" where
  "dequeueBatch C =
     (case QList C of [] \<Rightarrow> (None, C)
      | B # Bs \<Rightarrow> (Some B, \<lparr>QList = Bs, QCSize = QCSize C - QSize B\<rparr>))"

text \<open>The walk of \<^verbatim>\<open>mergeBatches\<close> from \<open>Current\<close>: what remains of the list from there on, the
  size extracted so far, and the batches to deallocate.\<close>

fun merge_loop :: "qbatch \<Rightarrow> qbatch list \<Rightarrow> uptr \<Rightarrow> qcache \<Rightarrow> qbatch list \<times> uptr \<times> qcache" where
  "merge_loop Current [] ExtractedSize ToDeallocate = ([Current], ExtractedSize, ToDeallocate)"
| "merge_loop Current (Nxt # rest) ExtractedSize ToDeallocate =
     (if canMerge Current Nxt then
        let (Current', Extracted) = batch_merge Current Nxt
        in merge_loop Current' rest (ExtractedSize + QSize Extracted) (enqueueBatch Extracted ToDeallocate)
      else
        let (kept, e, d) = merge_loop Nxt rest ExtractedSize ToDeallocate
        in (Current # kept, e, d))"

definition mergeBatches :: "qcache \<Rightarrow> qcache \<Rightarrow> qcache \<times> qcache" where
  "mergeBatches C ToDeallocate =
     (case QList C of [] \<Rightarrow> (C, ToDeallocate)
      | Current # rest \<Rightarrow>
        let (kept, ExtractedSize, ToDeallocate') = merge_loop Current rest 0 ToDeallocate
        in (\<lparr>QList = kept, QCSize = QCSize C - ExtractedSize\<rparr>, ToDeallocate'))"

definition cache_getStats :: "qcache \<Rightarrow> string \<times> fmt_arg list" where
  "cache_getStats C =
     (let BatchCount = of_nat (length (QList C)) :: uptr;
          TotalBytes = sum_list (map QSize (QList C));
          TotalOverheadBytes = sum_list (map (\<lambda>B. QSize B - getQuarantinedSize B) (QList C));
          TotalQuarantineChunks = sum_list (map (\<lambda>B. of_nat (length (QBatch B))) (QList C));
          QuarantineChunksCapacity = BatchCount * of_nat MaxCount;
          ChunksUsagePercent = (if QuarantineChunksCapacity = 0 then 0
                                else TotalQuarantineChunks * 100 div QuarantineChunksCapacity);
          TotalQuarantinedBytes = TotalBytes - TotalOverheadBytes;
          MemoryOverheadPercent = (if TotalQuarantinedBytes = 0 then 0
                                   else TotalOverheadBytes * 100 div TotalQuarantinedBytes)
      in (''Stats: Quarantine: batches: %zu; bytes: %zu (user: %zu); chunks: %zu (capacity: %zu); %zu%% chunks used; %zu%% memory overhead'' @ [chr 10],
          [ArgNum BatchCount, ArgNum TotalBytes, ArgNum TotalQuarantinedBytes,
           ArgNum TotalQuarantineChunks, ArgNum QuarantineChunksCapacity,
           ArgNum ChunksUsagePercent, ArgNum MemoryOverheadPercent]))"

section \<open>The global quarantine\<close>

record gquarantine =
  QCache :: qcache
  QMinSize :: uptr
  QMaxSize :: uptr
  QMaxCacheSize :: uptr
  CacheMutex :: bool
  RecycleMutex :: bool

definition quarantine_init :: "uptr \<Rightarrow> uptr \<Rightarrow> gquarantine result" where
  "quarantine_init Size CacheSize =
     bindE (CHECK ((Size = 0 \<and> CacheSize = 0) \<or> CacheSize \<noteq> 0)
              ''(Size == 0 && CacheSize == 0) || CacheSize != 0'')
       (\<lambda>_. Inr \<lparr>QCache = qcache_empty, QMinSize = Size div 10 * 9, QMaxSize = Size,
                 QMaxCacheSize = CacheSize, CacheMutex = False, RecycleMutex = False\<rparr>)"

definition quarantine_isEmpty :: "gquarantine \<Rightarrow> bool" where
  "quarantine_isEmpty q = (QCSize (QCache q) = 0)"

text \<open>\<^verbatim>\<open>while (Cache.getSize() > MinSize) Tmp.enqueueBatch(Cache.dequeueBatch())\<close>; the null batch of
  an empty list is dereferenced by \<^verbatim>\<open>enqueueBatch\<close>.\<close>

fun extract_loop :: "uptr \<Rightarrow> qbatch list \<Rightarrow> uptr \<Rightarrow> qcache \<Rightarrow> (qcache \<times> qcache) result" where
  "extract_loop MinSz [] Size Tmp =
     (if Size > MinSz then Inl NullDeref else Inr (\<lparr>QList = [], QCSize = Size\<rparr>, Tmp))"
| "extract_loop MinSz (B # Bs) Size Tmp =
     (if Size > MinSz then extract_loop MinSz Bs (Size - QSize B) (enqueueBatch B Tmp)
      else Inr (\<lparr>QList = B # Bs, QCSize = Size\<rparr>, Tmp))"

text \<open>The part of \<^verbatim>\<open>recycle\<close> under \<^verbatim>\<open>CacheMutex\<close>: the remaining cache and \<open>Tmp\<close>.\<close>

definition recycle_extract :: "uptr \<Rightarrow> qcache \<Rightarrow> (qcache \<times> qcache) result" where
  "recycle_extract MinSz C =
     (let CacheSize = QCSize C; OverheadSize = getOverheadSize C;
          (C, Tmp) = (if CacheSize > OverheadSize \<and> OverheadSize * (100 + 100) > CacheSize * 100
                      then mergeBatches C qcache_empty else (C, qcache_empty))
      in extract_loop MinSz (QList C) (QCSize C) Tmp)"

fun recycle_all :: "'a callback \<Rightarrow> uptr list \<Rightarrow> 'a \<Rightarrow> 'a result" where
  "recycle_all Cb [] a = Inr a"
| "recycle_all Cb (P # Ps) a = bindE (cb_recycle Cb P a) (\<lambda>a. recycle_all Cb Ps a)"

text \<open>\<^verbatim>\<open>doRecycle\<close>: \<open>CAddr\<close> is the address of the temporary cache, part of the shuffle's seed.
  Prefetching has no effect on the state.\<close>

fun doRecycle :: "'a callback \<Rightarrow> uptr \<Rightarrow> qbatch list \<Rightarrow> 'a \<Rightarrow> 'a result" where
  "doRecycle Cb CAddr [] a = Inr a"
| "doRecycle Cb CAddr (B # Bs) a =
     (let Seed = ucast (drop_bit 4 (QAddr B XOR CAddr)) :: u32;
          B' = batch_shuffle Seed B
      in bindE (recycle_all Cb (QBatch B') a)
           (\<lambda>a. bindE (cb_deallocate Cb (QAddr B) a) (\<lambda>a. doRecycle Cb CAddr Bs a)))"

definition recycle ::
    "'a callback \<Rightarrow> uptr \<Rightarrow> uptr \<Rightarrow> gquarantine \<times> 'a \<Rightarrow> (gquarantine \<times> 'a) result" where
  "recycle Cb CAddr MinSz = (\<lambda>(q, a).
     bindE (recycle_extract MinSz (QCache q))
       (\<lambda>(C, Tmp). bindE (doRecycle Cb CAddr (QList Tmp) a)
         (\<lambda>a. Inr (q\<lparr>QCache := C, RecycleMutex := False\<rparr>, a))))"

text \<open>Operations of one thread while no other runs: \<^verbatim>\<open>tryLock\<close> succeeds when the mutex is free.
  The first component is the thread's cache.\<close>

definition drain ::
    "'a callback \<Rightarrow> uptr \<Rightarrow> qcache \<times> gquarantine \<times> 'a \<Rightarrow> (qcache \<times> gquarantine \<times> 'a) result" where
  "drain Cb CAddr = (\<lambda>(C, q, a).
     let (G, C) = transfer (QCache q) C;
         q = q\<lparr>QCache := G\<rparr>;
         needRecycle = (QCSize G > QMaxSize q)
     in if needRecycle \<and> \<not> RecycleMutex q
        then bindE (recycle Cb CAddr (QMinSize q) (q\<lparr>RecycleMutex := True\<rparr>, a)) (\<lambda>(q, a). Inr (C, q, a))
        else Inr (C, q, a))"

definition put ::
    "'a callback \<Rightarrow> uptr \<Rightarrow> uptr \<Rightarrow> uptr \<Rightarrow> qcache \<times> gquarantine \<times> 'a
      \<Rightarrow> (qcache \<times> gquarantine \<times> 'a) result" where
  "put Cb CAddr Ptr Size = (\<lambda>(C, q, a).
     bindE (enqueue Cb Ptr Size (C, a))
       (\<lambda>(C, a). if QCSize C > QMaxCacheSize q then drain Cb CAddr (C, q, a) else Inr (C, q, a)))"

text \<open>\<^verbatim>\<open>RecycleMutex.lock()\<close> blocks while the mutex is held, which with a single thread never ends.\<close>

definition drainAndRecycle ::
    "'a callback \<Rightarrow> uptr \<Rightarrow> qcache \<times> gquarantine \<times> 'a \<Rightarrow> (qcache \<times> gquarantine \<times> 'a) result" where
  "drainAndRecycle Cb CAddr = (\<lambda>(C, q, a).
     let (G, C) = transfer (QCache q) C; q = q\<lparr>QCache := G\<rparr>
     in if RecycleMutex q then Inl Diverges
        else bindE (recycle Cb CAddr 0 (q\<lparr>RecycleMutex := True\<rparr>, a)) (\<lambda>(q, a). Inr (C, q, a)))"

definition quarantine_getStats :: "gquarantine \<Rightarrow> (string \<times> fmt_arg list) list" where
  "quarantine_getStats q =
     [cache_getStats (QCache q),
      (''Quarantine limits: global: %zuK; thread local: %zuK'' @ [chr 10],
       [ArgNum (drop_bit 10 (QMaxSize q)), ArgNum (drop_bit 10 (QMaxCacheSize q))])]"

definition quarantine_disable :: "gquarantine \<Rightarrow> gquarantine" where
  "quarantine_disable q = q\<lparr>RecycleMutex := True, CacheMutex := True\<rparr>"

definition quarantine_enable :: "gquarantine \<Rightarrow> gquarantine" where
  "quarantine_enable q = q\<lparr>CacheMutex := False, RecycleMutex := False\<rparr>"

section \<open>The invariant\<close>

definition bsum :: "qbatch list \<Rightarrow> nat" where
  "bsum Bs = sum_list (map (\<lambda>B. unat (QSize B)) Bs)"

definition batches_ok :: "qbatch list \<Rightarrow> bool" where
  "batches_ok Bs \<longleftrightarrow> (\<forall>B \<in> set Bs. unat sizeof_QuarantineBatch \<le> unat (QSize B) \<and> length (QBatch B) \<le> MaxCount)"

definition qcache_inv :: "qcache \<Rightarrow> bool" where
  "qcache_inv C \<longleftrightarrow> unat (QCSize C) = bsum (QList C) \<and> batches_ok (QList C)"

definition qpointers :: "qcache \<Rightarrow> uptr list" where
  "qpointers C = concat (map QBatch (QList C))"

lemma unat_sizeof_batch: "unat sizeof_QuarantineBatch = 8176"
  by (simp add: sizeof_QuarantineBatch_def)

lemma bsum_simps [simp]: "bsum [] = 0" "bsum (B # Bs) = unat (QSize B) + bsum Bs"
  "bsum (Bs @ Cs) = bsum Bs + bsum Cs"
  by (simp_all add: bsum_def)

lemma batches_ok_simps [simp]: "batches_ok []"
  "batches_ok (B # Bs) \<longleftrightarrow> 8176 \<le> unat (QSize B) \<and> length (QBatch B) \<le> MaxCount \<and> batches_ok Bs"
  "batches_ok (Bs @ Cs) \<longleftrightarrow> batches_ok Bs \<and> batches_ok Cs"
  by (auto simp: batches_ok_def unat_sizeof_batch)

lemma qcache_inv_empty [simp]: "qcache_inv qcache_empty"
  by (simp add: qcache_inv_def qcache_empty_def)

lemma qcache_empty_simps [simp]: "QList qcache_empty = []" "QCSize qcache_empty = 0"
  by (simp_all add: qcache_empty_def)

lemma qpointers_empty [simp]: "qpointers qcache_empty = []"
  by (simp add: qpointers_def qcache_empty_def)

lemma bsum_bound: "qcache_inv C \<Longrightarrow> bsum (QList C) < 2 ^ 64"
  using unat_less_64 [of "QCSize C"] by (simp add: qcache_inv_def)

lemma enqueueBatch_inv:
  assumes "qcache_inv C" and "batches_ok [B]" and "unat (QCSize C) + unat (QSize B) < 2 ^ 64"
  shows "qcache_inv (enqueueBatch B C)" and "qpointers (enqueueBatch B C) = qpointers C @ QBatch B"
    and "unat (QCSize (enqueueBatch B C)) = unat (QCSize C) + unat (QSize B)"
  using assms by (simp_all add: qcache_inv_def enqueueBatch_def qpointers_def unat_add_small)

lemma enqueue_inv:
  assumes "qcache_inv C" and "unat (QCSize C) + unat Size + 8176 < 2 ^ 64"
    and "enqueue Cb Ptr Size (C, a) = Inr (C', a')"
  shows "qcache_inv C' \<and> qpointers C' = qpointers C @ [Ptr]
    \<and> unat (QCSize C') \<le> unat (QCSize C) + unat Size + 8176"
proof (cases "QList C = [] \<or> length (QBatch (last (QList C))) = MaxCount")
  case True
  obtain B where C': "C' = enqueueBatch (batch_init B Ptr Size) C"
    using assms(3) True by (auto simp: enqueue_def bindE_eq_Inr split: if_splits)
  have u: "unat (QSize (batch_init B Ptr Size)) = unat Size + 8176"
    using assms(2) unfolding batch_init_def
    by (simp, subst unat_add_small) (simp_all add: unat_sizeof_batch)
  have ok: "batches_ok [batch_init B Ptr Size]"
    using u by (simp add: batch_init_def MaxCount_def)
  have lt: "unat (QCSize C) + unat (QSize (batch_init B Ptr Size)) < 2 ^ 64" using u assms(2) by simp
  show ?thesis using enqueueBatch_inv [OF assms(1) ok lt] u by (simp add: C' batch_init_def)
next
  case False
  define Bs B where "Bs = butlast (QList C)" and "B = last (QList C)"
  have L: "QList C = Bs @ [B]" using False by (simp add: Bs_def B_def)
  have C': "C' = \<lparr>QList = Bs @ [batch_push_back Ptr Size B], QCSize = QCSize C + Size\<rparr>"
    using assms(3) False by (simp add: enqueue_def Bs_def B_def)
  have inv: "unat (QCSize C) = bsum Bs + unat (QSize B)" "batches_ok (Bs @ [B])"
    using assms(1) L by (simp_all add: qcache_inv_def)
  have u: "unat (QSize B + Size) = unat (QSize B) + unat Size" "unat (QCSize C + Size) = unat (QCSize C) + unat Size"
    using inv assms(2) by (simp_all add: unat_add_small)
  have "length (QBatch B) \<noteq> MaxCount" using False L by simp
  then show ?thesis
    using inv u by (simp add: C' qcache_inv_def batch_push_back_def qpointers_def L)
qed

lemma transfer_inv:
  assumes "qcache_inv G" and "qcache_inv C" and "unat (QCSize G) + unat (QCSize C) < 2 ^ 64"
    and "transfer G C = (G', C')"
  shows "qcache_inv G' \<and> C' = qcache_empty \<and> qpointers G' = qpointers G @ qpointers C
    \<and> unat (QCSize G') = unat (QCSize G) + unat (QCSize C)"
  using assms by (auto simp: transfer_def qcache_inv_def qpointers_def unat_add_small)

lemma merge_loop_inv:
  assumes "merge_loop Cur rest e d = (kept, e', d')" and "batches_ok (Cur # rest)"
    and "bsum (Cur # rest) < 2 ^ 64"
  shows "\<exists>ex. QList d' = QList d @ ex \<and> (\<forall>B \<in> set ex. QBatch B = [] \<and> unat (QSize B) = 8176)
    \<and> e' = e + of_nat (length ex * 8176) \<and> QCSize d' = QCSize d + of_nat (length ex * 8176)
    \<and> bsum kept + length ex * 8176 = bsum (Cur # rest) \<and> batches_ok kept
    \<and> concat (map QBatch kept) = concat (map QBatch (Cur # rest))"
  using assms
proof (induction Cur rest e d arbitrary: kept e' d' rule: merge_loop.induct)
  case (1 Current e d)
  then show ?case by (intro exI [of _ "[]"]) auto
next
  case (2 Current Nxt rest e d)
  show ?case
  proof (cases "canMerge Current Nxt")
    case True
    define Cur' Ex where "Cur' = fst (batch_merge Current Nxt)" and "Ex = snd (batch_merge Current Nxt)"
    have bm: "batch_merge Current Nxt = (Cur', Ex)" by (simp add: Cur'_def Ex_def)
    have q: "unat (QSize Nxt - sizeof_QuarantineBatch) = unat (QSize Nxt) - 8176"
      using "2.prems"(2) by (subst unat_sub) (simp_all add: word_le_nat_alt unat_sizeof_batch)
    have c: "unat (QSize Cur') + 8176 = unat (QSize Current) + unat (QSize Nxt)"
      "QBatch Cur' = QBatch Current @ QBatch Nxt" "QBatch Ex = []" "QSize Ex = sizeof_QuarantineBatch"
      using "2.prems"(2,3) by (simp_all add: Cur'_def Ex_def batch_merge_def getQuarantinedSize_def unat_add_small q)
    have r: "merge_loop Cur' rest (e + QSize Ex) (enqueueBatch Ex d) = (kept, e', d')"
      using "2.prems"(1) True by (simp add: bm)
    have ok: "batches_ok (Cur' # rest)"
      using "2.prems"(2) c True by (simp add: canMerge_def)
    have lt: "bsum (Cur' # rest) < 2 ^ 64" using "2.prems"(3) c(1) by simp
    obtain ex where ex: "QList d' = QList (enqueueBatch Ex d) @ ex"
      "\<forall>B \<in> set ex. QBatch B = [] \<and> unat (QSize B) = 8176"
      "e' = e + QSize Ex + of_nat (length ex * 8176)"
      "QCSize d' = QCSize (enqueueBatch Ex d) + of_nat (length ex * 8176)"
      "bsum kept + length ex * 8176 = bsum (Cur' # rest)" "batches_ok kept"
      "concat (map QBatch kept) = concat (map QBatch (Cur' # rest))"
      using "2.IH"(1) [OF True bm [symmetric] refl r ok lt] by blast
    have sz: "sizeof_QuarantineBatch = (of_nat 8176 :: uptr)" by (simp add: sizeof_QuarantineBatch_def)
    have szu: "unat (QSize Ex) = 8176" using c(4) unat_sizeof_batch by simp
    have szw: "x + QSize Ex + of_nat (length ex * 8176) = x + of_nat (length (Ex # ex) * 8176)" for x
      by (simp add: c(4) sz algebra_simps)
    have "QList d' = QList d @ Ex # ex" "QCSize d' = QCSize d + of_nat (length (Ex # ex) * 8176)"
      "e' = e + of_nat (length (Ex # ex) * 8176)"
      using ex(1,3,4) by (simp_all only: szw enqueueBatch_def qcache.simps append_assoc append_Cons append_Nil)
    moreover have "bsum kept + length (Ex # ex) * 8176 = bsum (Current # Nxt # rest)"
      using ex(5) c(1) by simp
    ultimately show ?thesis
      using ex(2,6,7) c(2,3) szu by (intro exI [of _ "Ex # ex"] conjI) simp_all
  next
    case False
    obtain k e1 d1 where r: "merge_loop Nxt rest e d = (k, e1, d1)" by (metis prod_cases3)
    have k: "kept = Current # k" "e' = e1" "d' = d1" using "2.prems"(1) False r by simp_all
    have "batches_ok (Nxt # rest)" "bsum (Nxt # rest) < 2 ^ 64" using "2.prems"(2,3) by simp_all
    from "2.IH"(2) [OF False r this] show ?thesis using "2.prems"(2) by (auto simp: k)
  qed
qed

lemma mergeBatches_inv:
  assumes "mergeBatches C qcache_empty = (C', T)" and "qcache_inv C"
  shows "qcache_inv C' \<and> qcache_inv T \<and> qpointers C' = qpointers C \<and> qpointers T = []
    \<and> unat (QCSize C') + unat (QCSize T) = unat (QCSize C)"
proof (cases "QList C")
  case Nil
  then show ?thesis using assms by (simp add: mergeBatches_def)
next
  case (Cons Cur rest)
  obtain kept e d where m: "merge_loop Cur rest 0 qcache_empty = (kept, e, d)" by (metis prod_cases3)
  have C': "C' = \<lparr>QList = kept, QCSize = QCSize C - e\<rparr>" "T = d"
    using assms(1) by (simp_all add: mergeBatches_def Cons m)
  have inv: "unat (QCSize C) = bsum (Cur # rest)" "batches_ok (Cur # rest)"
    using assms(2) Cons by (simp_all add: qcache_inv_def)
  have lt: "bsum (Cur # rest) < 2 ^ 64" using bsum_bound [OF assms(2)] Cons by simp
  obtain ex where ex: "QList d = ex" "\<forall>B \<in> set ex. QBatch B = [] \<and> unat (QSize B) = 8176"
    "e = of_nat (length ex * 8176)" "QCSize d = of_nat (length ex * 8176)"
    "bsum kept + length ex * 8176 = bsum (Cur # rest)" "batches_ok kept"
    "concat (map QBatch kept) = concat (map QBatch (Cur # rest))"
    using merge_loop_inv [OF m inv(2) lt] by (auto simp: qcache_empty_def)
  have "length ex * 8176 < 2 ^ LENGTH(64)" using ex(5) lt by simp
  then have u: "unat (of_nat (length ex * 8176) :: uptr) = length ex * 8176" by (rule unat_of_nat_small)
  have ue: "unat e = length ex * 8176" unfolding ex(3) by (rule u)
  have "e \<le> QCSize C" unfolding word_le_nat_alt ue inv(1) using ex(5) by linarith
  then have "unat (QCSize C - e) = unat (QCSize C) - length ex * 8176" using ue by (simp only: unat_sub)
  then have "unat (QCSize C - e) = bsum kept" unfolding inv(1) using ex(5) by linarith
  moreover have "bsum ex = length ex * 8176" using ex(2) by (induction ex) auto
  moreover have "batches_ok ex" using ex(2) by (simp add: batches_ok_def unat_sizeof_batch MaxCount_def)
  moreover have "concat (map QBatch ex) = []" using ex(2) by simp
  ultimately show ?thesis
    using ex inv u Cons by (simp add: C' qcache_inv_def qpointers_def)
qed

lemma extract_loop_inv:
  assumes "unat Size = bsum Bs" and "batches_ok Bs" and "qcache_inv T"
    and "bsum Bs + unat (QCSize T) < 2 ^ 64"
  shows "\<exists>C' T'. extract_loop M Bs Size T = Inr (C', T') \<and> qcache_inv C' \<and> qcache_inv T'
    \<and> QCSize C' \<le> M \<and> unat (QCSize C') + unat (QCSize T') = bsum Bs + unat (QCSize T)
    \<and> qpointers T' @ qpointers C' = qpointers T @ concat (map QBatch Bs)
    \<and> (Size \<le> M \<longrightarrow> QList C' = Bs)"
  using assms
proof (induction Bs arbitrary: Size T)
  case Nil
  then have "Size = 0" by (metis bsum_simps(1) unat_eq_zero)
  then show ?case using Nil by (auto simp: qcache_inv_def qpointers_def)
next
  case (Cons B Bs)
  show ?case
  proof (cases "Size > M")
    case False
    then show ?thesis using Cons.prems by (auto simp: qcache_inv_def qpointers_def)
  next
    case True
    have u: "unat (Size - QSize B) = bsum Bs"
      using Cons.prems(1) by (subst unat_sub) (simp_all add: word_le_nat_alt)
    have ok: "batches_ok [B]" and lt: "unat (QCSize T) + unat (QSize B) < 2 ^ 64"
      using Cons.prems(2,4) by simp_all
    note e = enqueueBatch_inv [OF Cons.prems(3) ok lt]
    have "batches_ok Bs" using Cons.prems(2) by simp
    moreover have "bsum Bs + unat (QCSize (enqueueBatch B T)) < 2 ^ 64" using e(3) Cons.prems(4) by simp
    ultimately obtain C' T' where r: "extract_loop M Bs (Size - QSize B) (enqueueBatch B T) = Inr (C', T')"
      "qcache_inv C'" "qcache_inv T'" "QCSize C' \<le> M"
      "unat (QCSize C') + unat (QCSize T') = bsum Bs + unat (QCSize (enqueueBatch B T))"
      "qpointers T' @ qpointers C' = qpointers (enqueueBatch B T) @ concat (map QBatch Bs)"
      using Cons.IH [OF u _ e(1)] by blast
    then show ?thesis using True e by auto
  qed
qed

lemma recycle_extract_inv:
  assumes "qcache_inv C"
  shows "\<exists>C' T. recycle_extract M C = Inr (C', T) \<and> qcache_inv C' \<and> qcache_inv T \<and> QCSize C' \<le> M
    \<and> unat (QCSize C') + unat (QCSize T) = unat (QCSize C)
    \<and> qpointers T @ qpointers C' = qpointers C"
proof -
  obtain C1 T1 where m: "(if QCSize C > getOverheadSize C \<and> getOverheadSize C * (100 + 100) > QCSize C * 100
      then mergeBatches C qcache_empty else (C, qcache_empty)) = (C1, T1)" by (meson surj_pair)
  have 1: "qcache_inv C1 \<and> qcache_inv T1 \<and> qpointers C1 = qpointers C \<and> qpointers T1 = []
      \<and> unat (QCSize C1) + unat (QCSize T1) = unat (QCSize C)"
    using m mergeBatches_inv [of C C1 T1] assms
    by (auto split: if_splits)
  have i: "unat (QCSize C1) = bsum (QList C1)" "batches_ok (QList C1)" using 1 by (simp_all add: qcache_inv_def)
  have "bsum (QList C1) + unat (QCSize T1) < 2 ^ 64" using 1 i unat_less_64 [of "QCSize C"] by simp
  from extract_loop_inv [OF i _ this, of M] 1 show ?thesis
    using i m by (auto simp: recycle_extract_def Let_def qpointers_def)
qed

section \<open>Every pointer is recycled once\<close>

text \<open>A callback instrumented with the log of the pointers it recycled.\<close>

definition logging :: "'a callback \<Rightarrow> ('a \<times> uptr list) callback" where
  "logging Cb = \<lparr>cb_allocate = (\<lambda>n (a, log). bindE (cb_allocate Cb n a) (\<lambda>(p, a). Inr (p, (a, log)))),
     cb_recycle = (\<lambda>p (a, log). bindE (cb_recycle Cb p a) (\<lambda>a. Inr (a, log @ [p]))),
     cb_deallocate = (\<lambda>p (a, log). bindE (cb_deallocate Cb p a) (\<lambda>a. Inr (a, log)))\<rparr>"

lemma recycle_all_log:
  "recycle_all (logging Cb) Ps (a, log) = bindE (recycle_all Cb Ps a) (\<lambda>a. Inr (a, log @ Ps))"
proof (induction Ps arbitrary: a log)
  case (Cons P Ps)
  show ?case by (cases "cb_recycle Cb P a") (simp_all add: logging_def Cons [unfolded logging_def])
qed simp

lemma mset_batch_shuffle:
  "length (QBatch B) \<le> MaxCount \<Longrightarrow> mset (QBatch (batch_shuffle Seed B)) = mset (QBatch B)"
  using shuffle_mset [of "QBatch B" Seed] by (simp add: batch_shuffle_def MaxCount_def)

lemma doRecycle_log:
  assumes "doRecycle (logging Cb) CAddr Bs (a, log) = Inr (a', log')" and "batches_ok Bs"
  shows "mset log' = mset log + mset (concat (map QBatch Bs)) \<and> doRecycle Cb CAddr Bs a = Inr a'"
  using assms
proof (induction Bs arbitrary: a log)
  case (Cons B Bs)
  define B' where "B' = batch_shuffle (ucast (drop_bit 4 (QAddr B XOR CAddr))) B"
  have r: "bindE (bindE (recycle_all Cb (QBatch B') a) (\<lambda>a. Inr (a, log @ QBatch B')))
      (\<lambda>al. bindE (cb_deallocate (logging Cb) (QAddr B) al) (doRecycle (logging Cb) CAddr Bs)) = Inr (a', log')"
    using Cons.prems(1) by (simp add: B'_def recycle_all_log Let_def)
  then obtain a1 where a1: "recycle_all Cb (QBatch B') a = Inr a1" by (auto simp: bindE_eq_Inr)
  then obtain a2 where a2: "cb_deallocate Cb (QAddr B) a1 = Inr a2"
    using r by (auto simp: bindE_eq_Inr logging_def)
  have "doRecycle (logging Cb) CAddr Bs (a2, log @ QBatch B') = Inr (a', log')"
    using r a1 a2 by (simp add: logging_def)
  from Cons.IH [OF this] Cons.prems(2) show ?case
    using a1 a2 mset_batch_shuffle [of B] by (simp add: B'_def [symmetric] Let_def) (simp add: B'_def)
qed simp

definition callback_total :: "'a callback \<Rightarrow> bool" where
  "callback_total Cb \<longleftrightarrow> (\<forall>n a. \<exists>p a'. cb_allocate Cb n a = Inr (p, a') \<and> p \<noteq> 0)
     \<and> (\<forall>p a. \<exists>a'. cb_recycle Cb p a = Inr a') \<and> (\<forall>p a. \<exists>a'. cb_deallocate Cb p a = Inr a')"

lemma logging_total: "callback_total Cb \<Longrightarrow> callback_total (logging Cb)"
  unfolding callback_total_def
proof (elim conjE, intro conjI allI)
  fix n :: uptr and al :: "'a \<times> uptr list"
  assume a: "\<forall>n a. \<exists>p a'. cb_allocate Cb n a = Inr (p, a') \<and> p \<noteq> 0"
  obtain a0 log where al: "al = (a0, log)" by (cases al)
  obtain p a1 where "cb_allocate Cb n a0 = Inr (p, a1)" "p \<noteq> 0" using a by blast
  then show "\<exists>p a'. cb_allocate (logging Cb) n al = Inr (p, a') \<and> p \<noteq> 0"
    by (simp add: logging_def al)
next
  fix p :: uptr and al :: "'a \<times> uptr list"
  assume r: "\<forall>p a. \<exists>a'. cb_recycle Cb p a = Inr a'"
  obtain a0 log where al: "al = (a0, log)" by (cases al)
  obtain a1 where "cb_recycle Cb p a0 = Inr a1" using r by blast
  then show "\<exists>a'. cb_recycle (logging Cb) p al = Inr a'" by (simp add: logging_def al)
next
  fix p :: uptr and al :: "'a \<times> uptr list"
  assume d: "\<forall>p a. \<exists>a'. cb_deallocate Cb p a = Inr a'"
  obtain a0 log where al: "al = (a0, log)" by (cases al)
  obtain a1 where "cb_deallocate Cb p a0 = Inr a1" using d by blast
  then show "\<exists>a'. cb_deallocate (logging Cb) p al = Inr a'" by (simp add: logging_def al)
qed

lemma recycle_all_total: "callback_total Cb \<Longrightarrow> \<exists>a'. recycle_all Cb Ps a = Inr a'"
proof (induction Ps arbitrary: a)
  case (Cons P Ps)
  obtain a1 where "cb_recycle Cb P a = Inr a1" using Cons.prems unfolding callback_total_def by blast
  then show ?case using Cons by simp
qed simp

lemma doRecycle_total: "callback_total Cb \<Longrightarrow> \<exists>a'. doRecycle Cb CAddr Bs a = Inr a'"
proof (induction Bs arbitrary: a)
  case (Cons B Bs)
  obtain a1 where 1: "recycle_all Cb (QBatch (batch_shuffle (ucast (drop_bit 4 (QAddr B XOR CAddr))) B)) a = Inr a1"
    using recycle_all_total [OF Cons.prems] by blast
  obtain a2 where 2: "cb_deallocate Cb (QAddr B) a1 = Inr a2" using Cons.prems unfolding callback_total_def by blast
  then show ?case using Cons.IH [OF Cons.prems, of a2] 1 2 by (simp add: Let_def)
qed simp

lemma enqueue_total:
  assumes "callback_total Cb" shows "\<exists>C' a'. enqueue Cb Ptr Size (C, a) = Inr (C', a')"
proof (cases "QList C = [] \<or> length (QBatch (last (QList C))) = MaxCount")
  case True
  obtain p a' where "cb_allocate Cb sizeof_QuarantineBatch a = Inr (p, a')" "p \<noteq> 0"
    using assms unfolding callback_total_def by blast
  then show ?thesis using True by (simp add: enqueue_def)
qed (simp add: enqueue_def)

lemma recycle_inv:
  assumes "qcache_inv (QCache q)" and "callback_total Cb"
  shows "\<exists>G a' log'. recycle (logging Cb) CAddr M (q, (a, log))
        = Inr (q\<lparr>QCache := G, RecycleMutex := False\<rparr>, (a', log'))
    \<and> qcache_inv G \<and> QCSize G \<le> M
    \<and> mset (qpointers G) + mset log' = mset (qpointers (QCache q)) + mset log"
proof -
  obtain G T where r: "recycle_extract M (QCache q) = Inr (G, T)" "qcache_inv G" "qcache_inv T"
    "QCSize G \<le> M" "qpointers T @ qpointers G = qpointers (QCache q)"
    using recycle_extract_inv [OF assms(1)] by blast
  obtain a' log' where d: "doRecycle (logging Cb) CAddr (QList T) (a, log) = Inr (a', log')"
    using doRecycle_total [OF logging_total [OF assms(2)]] by (metis surj_pair)
  have "mset log' = mset log + mset (qpointers T)"
    using doRecycle_log [OF d] r(3) by (simp add: qcache_inv_def qpointers_def)
  moreover have "mset (qpointers T) + mset (qpointers G) = mset (qpointers (QCache q))"
    using r(5) by (metis mset_append)
  ultimately show ?thesis using r d by (auto simp: recycle_def ac_simps)
qed

text \<open>C16: \<^verbatim>\<open>GlobalQuarantine::put\<close> with a callback that does not fail and no other thread
  recycling: it returns; every pointer stays accounted for, in the thread's cache, in the global
  cache or recycled exactly once; the size counters stay the sums of the batch sizes; afterwards
  the thread's cache is within its limit and, if the global cache was within its limit, it still
  is.\<close>

theorem put_conserves_pointers:
  assumes "callback_total Cb" and "qcache_inv C" and "qcache_inv (QCache q)" and "\<not> RecycleMutex q"
    and "unat (QCSize C) + unat (QCSize (QCache q)) + unat Size + 8176 < 2 ^ 64"
    and "QMinSize q \<le> QMaxSize q" and "QCSize (QCache q) \<le> QMaxSize q"
  shows "\<exists>C' G a' log'. put (logging Cb) CAddr Ptr Size (C, q, (a, log))
        = Inr (C', q\<lparr>QCache := G\<rparr>, (a', log'))
    \<and> mset (qpointers C') + mset (qpointers G) + mset log'
      = mset (qpointers C) + mset (qpointers (QCache q)) + mset log + {#Ptr#}
    \<and> qcache_inv C' \<and> qcache_inv G \<and> QCSize C' \<le> QMaxCacheSize q \<and> QCSize G \<le> QMaxSize q"
proof -
  obtain C1 a1 log1 where e: "enqueue (logging Cb) Ptr Size (C, (a, log)) = Inr (C1, (a1, log1))"
    using enqueue_total [OF logging_total [OF assms(1)]] by (metis surj_pair)
  have log1: "log1 = log"
    using e by (auto simp: enqueue_def logging_def bindE_eq_Inr split: if_splits)
  have lt: "unat (QCSize C) + unat Size + 8176 < 2 ^ 64" using assms(5) by simp
  have c1: "qcache_inv C1" "qpointers C1 = qpointers C @ [Ptr]"
    "unat (QCSize C1) \<le> unat (QCSize C) + unat Size + 8176"
    using enqueue_inv [OF assms(2) lt e] by blast+
  show ?thesis
  proof (cases "QCSize C1 > QMaxCacheSize q")
    case False
    then have "put (logging Cb) CAddr Ptr Size (C, q, (a, log)) = Inr (C1, q\<lparr>QCache := QCache q\<rparr>, (a1, log1))"
      by (simp add: put_def e)
    then show ?thesis
      using False c1 log1 assms(3,7)
      by (intro exI [of _ C1] exI [of _ "QCache q"] exI [of _ a1] exI [of _ log1]) (simp add: not_less)
  next
    case True
    obtain G1 C2 where t: "transfer (QCache q) C1 = (G1, C2)" by (cases "transfer (QCache q) C1")
    have "unat (QCSize (QCache q)) + unat (QCSize C1) < 2 ^ 64" using c1(3) assms(5) by simp
    from transfer_inv [OF assms(3) c1(1) this t]
    have g1: "qcache_inv G1" "C2 = qcache_empty" "qpointers G1 = qpointers (QCache q) @ qpointers C @ [Ptr]"
      using c1(2) by simp_all
    show ?thesis
    proof (cases "QCSize G1 > QMaxSize q")
      case False
      then have "put (logging Cb) CAddr Ptr Size (C, q, (a, log)) = Inr (qcache_empty, q\<lparr>QCache := G1\<rparr>, (a1, log1))"
        using True by (simp add: put_def e drain_def t Let_def g1(2))
      then show ?thesis
        using False g1 log1
        by (intro exI [of _ qcache_empty] exI [of _ G1] exI [of _ a1] exI [of _ log1]) (simp add: not_less ac_simps)
    next
      case g: True
      obtain G a' log' where r: "recycle (logging Cb) CAddr (QMinSize q) (q\<lparr>QCache := G1, RecycleMutex := True\<rparr>, (a1, log1))
          = Inr (q\<lparr>QCache := G1, RecycleMutex := True\<rparr>\<lparr>QCache := G, RecycleMutex := False\<rparr>, (a', log'))"
        "qcache_inv G" "QCSize G \<le> QMinSize q"
        "mset (qpointers G) + mset log' = mset (qpointers G1) + mset log1"
        using recycle_inv [of "q\<lparr>QCache := G1, RecycleMutex := True\<rparr>" Cb CAddr "QMinSize q" a1 log1] g1(1) assms(1)
        by auto
      have q: "q\<lparr>QCache := G1, RecycleMutex := True\<rparr>\<lparr>QCache := G, RecycleMutex := False\<rparr> = q\<lparr>QCache := G\<rparr>"
        using assms(4) by simp
      have "put (logging Cb) CAddr Ptr Size (C, q, (a, log)) = Inr (qcache_empty, q\<lparr>QCache := G\<rparr>, (a', log'))"
        using True g r(1) assms(4) unfolding q by (simp add: put_def e drain_def t Let_def g1(2))
      moreover have "QCSize G \<le> QMaxSize q" using r(3) assms(6) by simp
      ultimately show ?thesis
        using g1 log1 r
        by (intro exI [of _ qcache_empty] exI [of _ G] exI [of _ a'] exI [of _ log']) (simp add: ac_simps)
    qed
  qed
qed

text \<open>A callback that hands out batch addresses from a counter.\<close>

definition counting_callback :: "uptr callback" where
  "counting_callback = \<lparr>cb_allocate = (\<lambda>n a. Inr (4096, a + n)), cb_recycle = (\<lambda>p a. Inr a),
     cb_deallocate = (\<lambda>p a. Inr a)\<rparr>"

theorem put_conserves_pointers_witness:
  "\<exists>C' G a' log'. put (logging counting_callback) 64 160 32
        (qcache_empty, \<lparr>QCache = qcache_empty, QMinSize = 90, QMaxSize = 100, QMaxCacheSize = 10,
           CacheMutex = False, RecycleMutex = False\<rparr>, (0, []))
      = Inr (C', \<lparr>QCache = G, QMinSize = 90, QMaxSize = 100, QMaxCacheSize = 10,
           CacheMutex = False, RecycleMutex = False\<rparr>, (a', log'))
    \<and> mset (qpointers C') + mset (qpointers G) + mset log' = {#160#} \<and> QCSize G \<le> 100"
  using put_conserves_pointers [of counting_callback qcache_empty "\<lparr>QCache = qcache_empty,
      QMinSize = 90, QMaxSize = 100, QMaxCacheSize = 10, CacheMutex = False, RecycleMutex = False\<rparr>" 32 64 160 0 "[]"]
  by (fastforce simp: callback_total_def counting_callback_def)

end
