(* ===== verification/QuarantineThreads.thy ===== *)
theory QuarantineThreads
  imports Quarantine
begin

text \<open>
  \<^verbatim>\<open>GlobalQuarantine\<close> under concurrency. Each thread runs \<^verbatim>\<open>put\<close> (\<^verbatim>\<open>enqueue\<close>, then \<^verbatim>\<open>drain\<close> when
  its cache is full) and \<^verbatim>\<open>drainAndRecycle\<close>; a step is one critical section of \<^verbatim>\<open>CacheMutex\<close>, one
  attempt on \<^verbatim>\<open>RecycleMutex\<close>, or the recycling of one batch of the thread's private list. The
  callback's own state is left out: what a callback is told to recycle is logged.

  In every reachable state each pointer that was put is in exactly one place, at most one thread
  is between locking and unlocking \<^verbatim>\<open>RecycleMutex\<close>, and that thread's extraction cannot get stuck
  on an empty list.
\<close>

section \<open>The system\<close>

datatype qpc =
    Idle
  | WantRecycle bool uptr  \<comment> \<open>about to lock \<open>RecycleMutex\<close>; waiting (\<open>lock\<close>) or trying (\<open>tryLock\<close>)\<close>
  | InRecycle uptr  \<comment> \<open>holds \<open>RecycleMutex\<close>, about to take \<open>CacheMutex\<close>\<close>
  | Returning "qbatch list"  \<comment> \<open>in \<open>doRecycle\<close>\<close>

record 't qsys =
  tcache :: "'t \<Rightarrow> qcache"
  pc :: "'t \<Rightarrow> qpc"
  glob :: gquarantine
  holder :: "'t option"
  recycled :: "uptr list"
  entered :: "uptr list"

definition batch_supply :: "uptr \<Rightarrow> unit callback" where
  "batch_supply B = \<lparr>cb_allocate = (\<lambda>n a. Inr (B, a)), cb_recycle = (\<lambda>p a. Inr a),
     cb_deallocate = (\<lambda>p a. Inr a)\<rparr>"

definition total_size :: "'t set \<Rightarrow> 't qsys \<Rightarrow> nat" where
  "total_size T s = (\<Sum>t \<in> T. unat (QCSize (tcache s t))) + unat (QCSize (QCache (glob s)))"

text \<open>The bound on sizes in \<open>q_enqueue\<close> is the size of the address space, which the chunks and
  batches in quarantine share.\<close>

inductive qstep :: "'t set \<Rightarrow> 't qsys \<Rightarrow> 't qsys \<Rightarrow> bool" for T where
  q_enqueue:
    "t \<in> T \<Longrightarrow> pc s t = Idle \<Longrightarrow> B \<noteq> 0 \<Longrightarrow> total_size T s + unat Size + 8176 < 2 ^ 64 \<Longrightarrow>
     enqueue (batch_supply B) Ptr Size (tcache s t, ()) = Inr (C, ()) \<Longrightarrow>
     qstep T s (s\<lparr>tcache := (tcache s)(t := C), entered := entered s @ [Ptr]\<rparr>)"
| q_drain:
    "t \<in> T \<Longrightarrow> pc s t = Idle \<Longrightarrow> QCSize (tcache s t) > QMaxCacheSize (glob s) \<Longrightarrow>
     transfer (QCache (glob s)) (tcache s t) = (G, C) \<Longrightarrow>
     qstep T s (s\<lparr>tcache := (tcache s)(t := C), glob := (glob s)\<lparr>QCache := G\<rparr>,
       pc := (pc s)(t := if QCSize G > QMaxSize (glob s) then WantRecycle False (QMinSize (glob s)) else Idle)\<rparr>)"
| q_drain_all:
    "t \<in> T \<Longrightarrow> pc s t = Idle \<Longrightarrow> transfer (QCache (glob s)) (tcache s t) = (G, C) \<Longrightarrow>
     qstep T s (s\<lparr>tcache := (tcache s)(t := C), glob := (glob s)\<lparr>QCache := G\<rparr>,
       pc := (pc s)(t := WantRecycle True 0)\<rparr>)"
| q_lock:
    "t \<in> T \<Longrightarrow> pc s t = WantRecycle b M \<Longrightarrow> holder s = None \<Longrightarrow>
     qstep T s (s\<lparr>holder := Some t, pc := (pc s)(t := InRecycle M)\<rparr>)"
| q_tryLock_fails:
    "t \<in> T \<Longrightarrow> pc s t = WantRecycle False M \<Longrightarrow> holder s \<noteq> None \<Longrightarrow>
     qstep T s (s\<lparr>pc := (pc s)(t := Idle)\<rparr>)"
| q_extract:
    "t \<in> T \<Longrightarrow> pc s t = InRecycle M \<Longrightarrow> recycle_extract M (QCache (glob s)) = Inr (G, Tmp) \<Longrightarrow>
     qstep T s (s\<lparr>glob := (glob s)\<lparr>QCache := G\<rparr>, holder := None, pc := (pc s)(t := Returning (QList Tmp))\<rparr>)"
| q_return:
    "t \<in> T \<Longrightarrow> pc s t = Returning (B # Bs) \<Longrightarrow>
     qstep T s (s\<lparr>recycled := recycled s @ QBatch (batch_shuffle Seed B), pc := (pc s)(t := Returning Bs)\<rparr>)"
| q_done:
    "t \<in> T \<Longrightarrow> pc s t = Returning [] \<Longrightarrow> qstep T s (s\<lparr>pc := (pc s)(t := Idle)\<rparr>)"

definition qinit :: "gquarantine \<Rightarrow> 't qsys" where
  "qinit q = \<lparr>tcache = (\<lambda>_. qcache_empty), pc = (\<lambda>_. Idle), glob = q, holder = None,
     recycled = [], entered = []\<rparr>"

inductive qreach :: "'t set \<Rightarrow> gquarantine \<Rightarrow> 't qsys \<Rightarrow> bool" for T q where
  qreach_init: "qreach T q (qinit q)"
| qreach_step: "qreach T q s \<Longrightarrow> qstep T s s' \<Longrightarrow> qreach T q s'"

section \<open>The invariant\<close>

fun pending :: "qpc \<Rightarrow> uptr multiset" where
  "pending (Returning Bs) = mset (concat (map QBatch Bs))"
| "pending _ = {#}"

fun pc_ok :: "qpc \<Rightarrow> bool" where
  "pc_ok (Returning Bs) = batches_ok Bs"
| "pc_ok _ = True"

definition in_thread :: "'t qsys \<Rightarrow> 't \<Rightarrow> uptr multiset" where
  "in_thread s t = mset (qpointers (tcache s t)) + pending (pc s t)"

definition qsys_inv :: "'t set \<Rightarrow> 't qsys \<Rightarrow> bool" where
  "qsys_inv T s \<longleftrightarrow>
     (\<forall>t \<in> T. qcache_inv (tcache s t) \<and> pc_ok (pc s t)) \<and> qcache_inv (QCache (glob s))
     \<and> (\<forall>t \<in> T. (\<exists>M. pc s t = InRecycle M) \<longleftrightarrow> holder s = Some t)
     \<and> total_size T s < 2 ^ 64
     \<and> mset (entered s) = mset (recycled s) + mset (qpointers (QCache (glob s))) + (\<Sum>t \<in> T. in_thread s t)"

lemma sum_at:
  fixes f g :: "'t \<Rightarrow> 'a::comm_monoid_add"
  assumes "finite T" and "t \<in> T" and "\<And>x. x \<noteq> t \<Longrightarrow> g x = f x"
  shows "sum g T + f t = sum f T + g t"
proof -
  have "sum g (T - {t}) = sum f (T - {t})" by (rule sum.cong) (use assms(3) in auto)
  moreover have "sum g T = g t + sum g (T - {t})" "sum f T = f t + sum f (T - {t})"
    using assms(1,2) by (simp_all add: sum.remove)
  ultimately show ?thesis by (simp add: ac_simps)
qed

lemma size_in_total:
  assumes "finite T" and "t \<in> T"
  shows "unat (QCSize (tcache s t)) + unat (QCSize (QCache (glob s))) \<le> total_size T s"
proof -
  have "unat (QCSize (tcache s t)) \<le> (\<Sum>t \<in> T. unat (QCSize (tcache s t)))"
    using assms by (intro member_le_sum) auto
  then show ?thesis by (simp add: total_size_def)
qed

lemma sum_tcache_upd:
  assumes "finite T" and "t \<in> T"
  shows "(\<Sum>x \<in> T. unat (QCSize (((tcache s)(t := C)) x))) + unat (QCSize (tcache s t))
    = (\<Sum>x \<in> T. unat (QCSize (tcache s x))) + unat (QCSize C)"
  using sum_at [OF assms, of "\<lambda>x. unat (QCSize (((tcache s)(t := C)) x))" "\<lambda>x. unat (QCSize (tcache s x))"]
  by simp

lemma transfer_step_inv:
  assumes "finite T" and "qsys_inv T s" and "t \<in> T" and "pc s t = Idle"
    and "transfer (QCache (glob s)) (tcache s t) = (G, C)" and "p = Idle \<or> (\<exists>b M. p = WantRecycle b M)"
  shows "qsys_inv T (s\<lparr>tcache := (tcache s)(t := C), glob := (glob s)\<lparr>QCache := G\<rparr>, pc := (pc s)(t := p)\<rparr>)"
    (is "qsys_inv T ?s")
proof -
  have i: "qcache_inv (QCache (glob s))" "qcache_inv (tcache s t)" "total_size T s < 2 ^ 64"
    using assms(2,3) by (simp_all add: qsys_inv_def)
  have lt: "unat (QCSize (QCache (glob s))) + unat (QCSize (tcache s t)) < 2 ^ 64"
    using size_in_total [OF assms(1,3), of s] i(3) by linarith
  note tr = transfer_inv [OF i(1,2) lt assms(5)]
  have "total_size T ?s = total_size T s"
    using sum_tcache_upd [OF assms(1,3), of s C] tr by (simp add: total_size_def)
  moreover have "(\<Sum>x \<in> T. in_thread ?s x) + in_thread s t = (\<Sum>x \<in> T. in_thread s x) + in_thread ?s t"
    by (rule sum_at [OF assms(1,3)]) (simp add: in_thread_def)
  then have "(\<Sum>x \<in> T. in_thread ?s x) + mset (qpointers (tcache s t)) = (\<Sum>x \<in> T. in_thread s x)"
    using assms(4,6) tr by (auto simp: in_thread_def)
  ultimately show ?thesis
    using assms(2,4,6) tr i by (auto simp: qsys_inv_def ac_simps)
qed

lemma qstep_inv:
  assumes "finite T" and "qstep T s s'" and "qsys_inv T s"
  shows "qsys_inv T s'"
  using assms(2,3)
proof cases
  case (q_enqueue t B Size Ptr C)
  have i: "qcache_inv (tcache s t)" "total_size T s < 2 ^ 64" using assms(3) q_enqueue by (simp_all add: qsys_inv_def)
  have lt: "unat (QCSize (tcache s t)) + unat Size + 8176 < 2 ^ 64"
    using size_in_total [OF assms(1) q_enqueue(2), of s] q_enqueue(5) by linarith
  note e = enqueue_inv [OF i(1) lt q_enqueue(6)]
  have "total_size T s' < 2 ^ 64"
    using sum_tcache_upd [OF assms(1) q_enqueue(2), of s C] e q_enqueue(1,5) by (simp add: total_size_def)
  moreover have "(\<Sum>x \<in> T. in_thread s' x) + in_thread s t = (\<Sum>x \<in> T. in_thread s x) + in_thread s' t"
    by (rule sum_at [OF assms(1) q_enqueue(2)]) (simp add: in_thread_def q_enqueue(1))
  then have "(\<Sum>x \<in> T. in_thread s' x) = (\<Sum>x \<in> T. in_thread s x) + {#Ptr#}"
    using q_enqueue e by (simp add: in_thread_def)
  ultimately show ?thesis
    using assms(3) q_enqueue e by (auto simp: qsys_inv_def)
next
  case (q_drain t G C)
  show ?thesis unfolding q_drain(1)
    by (rule transfer_step_inv [OF assms(1,3) q_drain(2,3,5)]) auto
next
  case (q_drain_all t G C)
  show ?thesis unfolding q_drain_all(1)
    by (rule transfer_step_inv [OF assms(1,3) q_drain_all(2,3,4)]) auto
next
  case (q_lock t b M)
  have "(\<Sum>x \<in> T. in_thread s' x) = (\<Sum>x \<in> T. in_thread s x)"
    by (rule sum.cong) (auto simp: in_thread_def q_lock)
  then show ?thesis using assms(3) q_lock by (auto simp: qsys_inv_def total_size_def)
next
  case (q_tryLock_fails t M)
  have "(\<Sum>x \<in> T. in_thread s' x) = (\<Sum>x \<in> T. in_thread s x)"
    by (rule sum.cong) (auto simp: in_thread_def q_tryLock_fails)
  then show ?thesis using assms(3) q_tryLock_fails by (auto simp: qsys_inv_def total_size_def)
next
  case (q_extract t M G Tmp)
  have gi: "qcache_inv (QCache (glob s))" using assms(3) by (simp add: qsys_inv_def)
  from recycle_extract_inv [OF gi, of M] q_extract(4)
  have e: "qcache_inv G" "qcache_inv Tmp" "unat (QCSize G) \<le> unat (QCSize (QCache (glob s)))"
    "mset (qpointers Tmp) + mset (qpointers G) = mset (qpointers (QCache (glob s)))"
    by (auto simp flip: mset_append)
  have "total_size T s' \<le> total_size T s" using e(3) q_extract(1) by (simp add: total_size_def)
  moreover have "(\<Sum>x \<in> T. in_thread s' x) + in_thread s t = (\<Sum>x \<in> T. in_thread s x) + in_thread s' t"
    by (rule sum_at [OF assms(1) q_extract(2)]) (simp add: in_thread_def q_extract(1))
  then have "(\<Sum>x \<in> T. in_thread s' x) = (\<Sum>x \<in> T. in_thread s x) + mset (qpointers Tmp)"
    using q_extract by (simp add: in_thread_def qpointers_def ac_simps)
  moreover have "x = t" if "x \<in> T" "pc s x = InRecycle M'" for x M'
  proof -
    have "holder s = Some x" "holder s = Some t"
      using assms(3) that q_extract(2,3) unfolding qsys_inv_def by blast+
    then show ?thesis by simp
  qed
  then have "\<forall>x \<in> T. (\<exists>M'. pc s' x = InRecycle M') = (holder s' = Some x)"
    by (auto simp: q_extract(1))
  moreover have "\<forall>x \<in> T. qcache_inv (tcache s' x) \<and> pc_ok (pc s' x)"
    using assms(3) e(2) by (simp add: q_extract(1) qsys_inv_def qcache_inv_def)
  moreover have "total_size T s < 2 ^ 64"
    "mset (entered s) = mset (recycled s) + mset (qpointers (QCache (glob s))) + (\<Sum>x \<in> T. in_thread s x)"
    using assms(3) by (simp_all add: qsys_inv_def)
  moreover have "QCache (glob s') = G" "entered s' = entered s" "recycled s' = recycled s"
    by (simp_all add: q_extract(1))
  ultimately show ?thesis using e(1,4) unfolding qsys_inv_def by (auto simp: ac_simps)
next
  case (q_return t B Bs Seed)
  have ok: "batches_ok (B # Bs)" using assms(3) q_return by (force simp: qsys_inv_def)
  have "(\<Sum>x \<in> T. in_thread s' x) + in_thread s t = (\<Sum>x \<in> T. in_thread s x) + in_thread s' t"
    by (rule sum_at [OF assms(1) q_return(2)]) (simp add: in_thread_def q_return(1))
  then have "(\<Sum>x \<in> T. in_thread s' x) + mset (QBatch B) = (\<Sum>x \<in> T. in_thread s x)"
    using q_return by (simp add: in_thread_def ac_simps)
  moreover have "mset (QBatch (batch_shuffle Seed B)) = mset (QBatch B)"
    using ok by (intro mset_batch_shuffle) simp
  ultimately show ?thesis
    using assms(3) q_return ok by (auto simp: qsys_inv_def total_size_def ac_simps)
next
  case (q_done t)
  have "(\<Sum>x \<in> T. in_thread s' x) = (\<Sum>x \<in> T. in_thread s x)"
    by (rule sum.cong) (auto simp: in_thread_def q_done)
  then show ?thesis using assms(3) q_done by (auto simp: qsys_inv_def total_size_def)
qed

lemma qreach_inv:
  assumes "finite T" and "qreach T q s" and "qcache_inv (QCache q)" and "QList (QCache q) = []"
  shows "qsys_inv T s"
  using assms(2)
proof induction
  case qreach_init
  have "unat (QCSize (QCache q)) = 0" using assms(3,4) by (simp add: qcache_inv_def)
  then show ?case
    using assms by (simp add: qsys_inv_def qinit_def in_thread_def total_size_def qpointers_def)
next
  case (qreach_step s s')
  then show ?case using qstep_inv [OF assms(1)] by blast
qed

inductive_cases qstep_fromE: "qstep T s s'"

text \<open>C17: In every state reachable by interleaved threads from an empty quarantine: every pointer
  ever put is recycled, in the global cache, in a thread's cache or on a thread's private recycle
  list, each as often as it was put; at most one thread holds \<^verbatim>\<open>RecycleMutex\<close>; and the thread that
  holds it can always extract its batches (the loop never dequeues from an empty list) and leaves
  the global cache at or below the size it was asked for.\<close>

theorem quarantine_threads_safe:
  assumes "finite T" and "qreach T q s" and "QCache q = qcache_empty"
  shows "mset (entered s) = mset (recycled s) + mset (qpointers (QCache (glob s)))
      + (\<Sum>t \<in> T. mset (qpointers (tcache s t)) + pending (pc s t))
    \<and> (\<forall>t \<in> T. \<forall>t' \<in> T. \<forall>M M'. pc s t = InRecycle M \<longrightarrow> pc s t' = InRecycle M' \<longrightarrow> t = t')
    \<and> (\<forall>M. \<exists>G Tmp. recycle_extract M (QCache (glob s)) = Inr (G, Tmp) \<and> QCSize G \<le> M)"
proof -
  have inv: "qsys_inv T s" by (rule qreach_inv [OF assms(1,2)]) (simp_all add: assms(3))
  have "qcache_inv (QCache (glob s))" using inv by (simp add: qsys_inv_def)
  then have "\<exists>G Tmp. recycle_extract M (QCache (glob s)) = Inr (G, Tmp) \<and> QCSize G \<le> M" for M
    using recycle_extract_inv by blast
  moreover have "t = t'" if "t \<in> T" "t' \<in> T" "pc s t = InRecycle M" "pc s t' = InRecycle M'" for t t' M M'
  proof -
    have "holder s = Some t" "holder s = Some t'" using inv that unfolding qsys_inv_def by blast+
    then show ?thesis by simp
  qed
  ultimately show ?thesis using inv by (auto simp: qsys_inv_def in_thread_def)
qed

theorem quarantine_threads_safe_witness:
  "\<exists>s q. qreach {0 :: nat, 1} q s \<and> mset (recycled s) + mset (qpointers (QCache (glob s)))
      + (\<Sum>t \<in> {0, 1}. mset (qpointers (tcache s t)) + pending (pc s t)) = {#160#}"
proof -
  let ?q = "\<lparr>QCache = qcache_empty, QMinSize = 90, QMaxSize = 100, QMaxCacheSize = 10,
    CacheMutex = False, RecycleMutex = False\<rparr>"
  let ?s = "qinit ?q :: nat qsys"
  have e: "enqueue (batch_supply 4096) 160 32 (qcache_empty, ()) = Inr (enqueueBatch (batch_init 4096 160 32) qcache_empty, ())"
    by (simp add: enqueue_def batch_supply_def)
  define s1 where "s1 = ?s\<lparr>tcache := (tcache ?s)(0 := enqueueBatch (batch_init 4096 160 32) qcache_empty),
      entered := entered ?s @ [160]\<rparr>"
  have "qstep {0, 1} ?s s1" unfolding s1_def
    by (rule q_enqueue [where B = 4096 and Size = 32]) (use e in \<open>simp_all add: qinit_def total_size_def\<close>)
  then have r: "qreach {0, 1} ?q s1" using qreach_init qreach_step by blast
  have "mset (entered s1) = {#160#}" by (simp add: s1_def qinit_def)
  moreover have "mset (entered s1) = mset (recycled s1) + mset (qpointers (QCache (glob s1)))
      + (\<Sum>t \<in> {0, 1}. mset (qpointers (tcache s1 t)) + pending (pc s1 t))"
    using quarantine_threads_safe [OF _ r] by simp
  ultimately have "mset (recycled s1) + mset (qpointers (QCache (glob s1)))
      + (\<Sum>t \<in> {0, 1}. mset (qpointers (tcache s1 t)) + pending (pc s1 t)) = {#160#}" by (simp only:)
  then show ?thesis using r by blast
qed

end
