(* ===== verification/Release.thy ===== *)
theory Release
  imports Report
begin

text \<open>
  \<^verbatim>\<open>release.h\<close>: giving pages without live blocks back to the operating system. The page map packs
  one counter per page into 64-bit words; free blocks increment the counters of the pages they
  touch, and \<^verbatim>\<open>releaseFreeMemoryToOS\<close> releases the runs of pages whose counter equals the number
  of blocks on the page. The page size is \<open>2 ^ PageSizeLog\<close>; the recorder that receives the ranges
  is a state with a release function, of which the source has four.

  What the packed counters stand for, what block count the slow path expects of a page, and which pages are
  released is shown in \<open>ReleaseSafety\<close>, \<open>PageCounters\<close>, \<open>ReleasePages\<close>, \<open>MarkBlocks\<close> and \<open>ReleaseExact\<close>.
\<close>

unbundle bit_operations_syntax

section \<open>Recorders\<close>

record release_recorder =
  RecBase :: uptr
  RecOffset :: uptr
  ReleasedBytes :: uptr
  OsReleases :: "(uptr \<times> uptr) list"  \<comment> \<open>the calls of \<open>releasePagesToOS\<close>: address and size\<close>

definition RegionReleaseRecorder_release :: "uptr \<Rightarrow> uptr \<Rightarrow> release_recorder \<Rightarrow> release_recorder" where
  "RegionReleaseRecorder_release From To r =
     (let Size = To - From
      in r\<lparr>OsReleases := OsReleases r @ [(RecBase r + RecOffset r + From, Size)],
           ReleasedBytes := ReleasedBytes r + Size\<rparr>)"

text \<open>\<^verbatim>\<open>ReleaseRecorder\<close> passes base and offset separately; on Linux the platform adds them.\<close>

definition ReleaseRecorder_release :: "uptr \<Rightarrow> uptr \<Rightarrow> release_recorder \<Rightarrow> release_recorder" where
  "ReleaseRecorder_release From To r =
     (let Size = To - From
      in r\<lparr>OsReleases := OsReleases r @ [(RecBase r + (From + RecOffset r), Size)],
           ReleasedBytes := ReleasedBytes r + Size\<rparr>)"

text \<open>The state is \<^verbatim>\<open>ReleasedPagesCount\<close>.\<close>

definition FragmentationRecorder_release :: "nat \<Rightarrow> uptr \<Rightarrow> uptr \<Rightarrow> uptr \<Rightarrow> uptr" where
  "FragmentationRecorder_release PageSizeLog From To ReleasedPagesCount =
     ReleasedPagesCount + drop_bit PageSizeLog (To - From)"

text \<open>The state is \<^verbatim>\<open>FreePagesCount\<close>, one counter per group.\<close>

definition MemoryGroupFragmentationRecorder_release ::
    "uptr \<Rightarrow> uptr \<Rightarrow> uptr \<Rightarrow> uptr \<Rightarrow> uptr list \<Rightarrow> uptr list" where
  "MemoryGroupFragmentationRecorder_release PageSize GroupSize From To FreePagesCount =
     (let NumPagesInOneGroup = GroupSize div PageSize
      in fold (\<lambda>I cnt. let g = unat (of_nat I div NumPagesInOneGroup) in cnt[g := cnt ! g + 1])
           [unat (From div PageSize) ..< unat (To div PageSize)] FreePagesCount)"

section \<open>Buffers\<close>

definition StaticBufferCount :: uptr where "StaticBufferCount = 2"
definition StaticBufferNumElements :: uptr where "StaticBufferNumElements = 512"

record page_buffer =
  BufData :: "uptr list option"
  BufferIndex :: uptr

definition no_buffer :: page_buffer where
  "no_buffer = \<lparr>BufData = None, BufferIndex = NOT 0\<rparr>"

text \<open>Whether the mapping succeeds is the parameter \<open>map_ok\<close>; fresh mappings are zero.\<close>

definition getDynamicBuffer :: "(uptr \<Rightarrow> bool) \<Rightarrow> uptr \<Rightarrow> uptr \<Rightarrow> page_buffer" where
  "getDynamicBuffer map_ok PageSize NumElements =
     (let MappedSize = roundUp (NumElements * 8) PageSize
      in if map_ok MappedSize
         then \<lparr>BufData = Some (replicate (unat (MappedSize div 8)) 0), BufferIndex = StaticBufferCount\<rparr>
         else no_buffer)"

text \<open>The pool's state is its \<^verbatim>\<open>Mask\<close>: bit \<open>i\<close> is set when static buffer \<open>i\<close> is free.\<close>

definition getBuffer :: "(uptr \<Rightarrow> bool) \<Rightarrow> uptr \<Rightarrow> uptr \<Rightarrow> uptr \<Rightarrow> page_buffer \<times> uptr" where
  "getBuffer map_ok PageSize NumElements Mask =
     (if NumElements > StaticBufferNumElements then (getDynamicBuffer map_ok PageSize NumElements, Mask)
      else
        let index = getLeastSignificantSetBitIndex Mask;
            Mask = (if index < StaticBufferCount then Mask XOR push_bit (unat index) 1 else Mask)
        in if index \<ge> StaticBufferCount then (getDynamicBuffer map_ok PageSize NumElements, Mask)
           else (\<lparr>BufData = Some (replicate (unat StaticBufferNumElements) 0), BufferIndex = index\<rparr>, Mask))"

definition releaseBuffer :: "page_buffer \<Rightarrow> uptr \<Rightarrow> uptr" where
  "releaseBuffer Buf Mask =
     (if BufferIndex Buf \<noteq> StaticBufferCount then Mask OR push_bit (unat (BufferIndex Buf)) 1 else Mask)"

section \<open>The page map\<close>

text \<open>\<open>AccessOutside\<close> is no field of the class: it records that a counter outside of the buffer was accessed, after
  which the program's behaviour is undefined.\<close>

record page_map =
  Regions :: uptr
  NumCounters :: uptr
  CounterSizeBitsLog :: uptr
  CounterMask :: uptr
  PackingRatioLog :: uptr
  BitOffsetMask :: uptr
  SizePerRegion :: uptr
  BufferNumElements :: uptr
  PMBuffer :: page_buffer
  AccessOutside :: bool

definition empty_page_map :: page_map where
  "empty_page_map = \<lparr>Regions = 0, NumCounters = 0, CounterSizeBitsLog = 0, CounterMask = 0,
     PackingRatioLog = 0, BitOffsetMask = 0, SizePerRegion = 0, BufferNumElements = 0,
     PMBuffer = no_buffer, AccessOutside = False\<rparr>"

definition isAllocated :: "page_map \<Rightarrow> bool" where
  "isAllocated pm = (BufData (PMBuffer pm) \<noteq> None)"

definition page_map_reset ::
    "(uptr \<Rightarrow> bool) \<Rightarrow> uptr \<Rightarrow> uptr \<Rightarrow> uptr \<Rightarrow> uptr \<Rightarrow> uptr \<Rightarrow> page_map \<times> uptr" where
  "page_map_reset map_ok PageSize NumberOfRegion CountersPerRegion MaxValue Mask =
     (let MaxCounterBits = 64;
          CounterSizeBits = roundUpPowerOfTwo (getMostSignificantSetBitIndex MaxValue + 1);
          SizeBitsLog = getLog2 CounterSizeBits;
          CMask = drop_bit (unat (MaxCounterBits - CounterSizeBits)) (NOT 0);
          PackingRatio = drop_bit (unat SizeBitsLog) MaxCounterBits;
          RatioLog = getLog2 PackingRatio;
          PerRegion = drop_bit (unat RatioLog) (roundUp CountersPerRegion (push_bit (unat RatioLog) 1));
          NumElements = PerRegion * NumberOfRegion;
          (Buf, Mask) = getBuffer map_ok PageSize NumElements Mask
      in (\<lparr>Regions = NumberOfRegion, NumCounters = CountersPerRegion, CounterSizeBitsLog = SizeBitsLog,
           CounterMask = CMask, PackingRatioLog = RatioLog, BitOffsetMask = PackingRatio - 1,
           SizePerRegion = PerRegion, BufferNumElements = NumElements, PMBuffer = Buf,
           AccessOutside = False\<rparr>, Mask))"

definition page_map_destroy :: "page_map \<Rightarrow> uptr \<Rightarrow> uptr" where
  "page_map_destroy pm Mask = (if \<not> isAllocated pm then Mask else releaseBuffer (PMBuffer pm) Mask)"

text \<open>Word and bit position of a counter. The accessors do not check their arguments; every access to the
  buffer, \<open>pm_check\<close> before a read and \<open>pm_modify\<close>, records whether it is outside.\<close>

definition counter_word :: "page_map \<Rightarrow> uptr \<Rightarrow> uptr \<Rightarrow> nat" where
  "counter_word pm Region I = unat (Region * SizePerRegion pm + drop_bit (unat (PackingRatioLog pm)) I)"

definition counter_bit :: "page_map \<Rightarrow> uptr \<Rightarrow> nat" where
  "counter_bit pm I = unat (push_bit (unat (CounterSizeBitsLog pm)) (I AND BitOffsetMask pm))"

definition pm_data :: "page_map \<Rightarrow> uptr list" where
  "pm_data pm = (case BufData (PMBuffer pm) of None \<Rightarrow> [] | Some d \<Rightarrow> d)"

definition pm_check :: "nat \<Rightarrow> page_map \<Rightarrow> page_map" where
  "pm_check w pm = pm\<lparr>AccessOutside := AccessOutside pm \<or> length (pm_data pm) \<le> w\<rparr>"

definition pm_get :: "page_map \<Rightarrow> uptr \<Rightarrow> uptr \<Rightarrow> uptr" where
  "pm_get pm Region I =
     drop_bit (counter_bit pm I) (pm_data pm ! counter_word pm Region I) AND CounterMask pm"

definition pm_modify :: "page_map \<Rightarrow> nat \<Rightarrow> (uptr \<Rightarrow> uptr) \<Rightarrow> page_map" where
  "pm_modify pm w f =
     (pm_check w pm)\<lparr>PMBuffer := (PMBuffer pm)
          \<lparr>BufData := (case BufData (PMBuffer pm) of None \<Rightarrow> None
                       | Some d \<Rightarrow> Some (d[w := f (d ! w)]))\<rparr>\<rparr>"

definition pm_inc :: "uptr \<Rightarrow> uptr \<Rightarrow> page_map \<Rightarrow> page_map" where
  "pm_inc Region I pm =
     pm_modify pm (counter_word pm Region I) (\<lambda>v. v + push_bit (counter_bit pm I) 1)"

definition pm_incN :: "uptr \<Rightarrow> uptr \<Rightarrow> uptr \<Rightarrow> page_map \<Rightarrow> page_map" where
  "pm_incN Region I N pm =
     pm_modify pm (counter_word pm Region I) (\<lambda>v. v + push_bit (counter_bit pm I) N)"

definition pm_incRange :: "uptr \<Rightarrow> uptr \<Rightarrow> uptr \<Rightarrow> page_map \<Rightarrow> page_map" where
  "pm_incRange Region From To pm =
     (let Top = MinU (To + 1) (NumCounters pm)
      in fold (\<lambda>I. pm_inc Region (of_nat I)) [unat From ..< unat Top] pm)"

definition setAsAllCounted :: "uptr \<Rightarrow> uptr \<Rightarrow> page_map \<Rightarrow> page_map" where
  "setAsAllCounted Region I pm =
     pm_modify pm (counter_word pm Region I) (\<lambda>v. v OR push_bit (counter_bit pm I) (CounterMask pm))"

definition setAsAllCountedRange :: "uptr \<Rightarrow> uptr \<Rightarrow> uptr \<Rightarrow> page_map \<Rightarrow> page_map" where
  "setAsAllCountedRange Region From To pm =
     (let Top = MinU (To + 1) (NumCounters pm)
      in fold (\<lambda>I. setAsAllCounted Region (of_nat I)) [unat From ..< unat Top] pm)"

definition updateAsAllCountedIf :: "uptr \<Rightarrow> uptr \<Rightarrow> uptr \<Rightarrow> page_map \<Rightarrow> bool \<times> page_map" where
  "updateAsAllCountedIf Region I MaxCount pm =
     (let pm = pm_check (counter_word pm Region I) pm;
          Count = pm_get pm Region I
      in if Count = CounterMask pm then (True, pm)
         else if Count = MaxCount then (True, setAsAllCounted Region I pm)
         else (False, pm))"

section \<open>Ranges of free pages\<close>

record 'r range_tracker =
  Recorder :: 'r
  InRange :: bool
  CurrentPage :: uptr
  CurrentRangeStatePage :: uptr

definition tracker_init :: "'r \<Rightarrow> 'r range_tracker" where
  "tracker_init r = \<lparr>Recorder = r, InRange = False, CurrentPage = 0, CurrentRangeStatePage = 0\<rparr>"

definition closeOpenedRange ::
    "(uptr \<Rightarrow> uptr \<Rightarrow> 'r \<Rightarrow> 'r) \<Rightarrow> nat \<Rightarrow> 'r range_tracker \<Rightarrow> 'r range_tracker" where
  "closeOpenedRange rel PageSizeLog t =
     (if InRange t
      then t\<lparr>Recorder := rel (push_bit PageSizeLog (CurrentRangeStatePage t))
                             (push_bit PageSizeLog (CurrentPage t)) (Recorder t),
             InRange := False\<rparr>
      else t)"

definition processNextPage ::
    "(uptr \<Rightarrow> uptr \<Rightarrow> 'r \<Rightarrow> 'r) \<Rightarrow> nat \<Rightarrow> bool \<Rightarrow> 'r range_tracker \<Rightarrow> 'r range_tracker" where
  "processNextPage rel PageSizeLog Released t =
     (let t = (if Released then
                 (if \<not> InRange t then t\<lparr>CurrentRangeStatePage := CurrentPage t, InRange := True\<rparr> else t)
               else closeOpenedRange rel PageSizeLog t)
      in t\<lparr>CurrentPage := CurrentPage t + 1\<rparr>)"

definition skipPages ::
    "(uptr \<Rightarrow> uptr \<Rightarrow> 'r \<Rightarrow> 'r) \<Rightarrow> nat \<Rightarrow> uptr \<Rightarrow> 'r range_tracker \<Rightarrow> 'r range_tracker" where
  "skipPages rel PageSizeLog N t =
     (let t = closeOpenedRange rel PageSizeLog t in t\<lparr>CurrentPage := CurrentPage t + N\<rparr>)"

definition tracker_finish ::
    "(uptr \<Rightarrow> uptr \<Rightarrow> 'r \<Rightarrow> 'r) \<Rightarrow> nat \<Rightarrow> 'r range_tracker \<Rightarrow> 'r range_tracker" where
  "tracker_finish rel PageSizeLog t = closeOpenedRange rel PageSizeLog t"

section \<open>The context of a release\<close>

record page_release_context =
  CtxBlockSize :: uptr
  CtxNumberOfRegions :: uptr
  CtxReleasePageOffset :: uptr
  CtxPagesCount :: uptr
  CtxFullPagesBlockCountMax :: uptr
  CtxSameBlockCountPerPage :: bool
  CtxPageMap :: page_map

definition PageReleaseContext_init :: "nat \<Rightarrow> uptr \<Rightarrow> uptr \<Rightarrow> uptr \<Rightarrow> uptr \<Rightarrow> page_release_context" where
  "PageReleaseContext_init PageSizeLog BlockSize NumberOfRegions ReleaseSize ReleaseOffset =
     (let PageSize = push_bit PageSizeLog 1;
          (full, same) =
            (if BlockSize \<le> PageSize then
               if PageSize mod BlockSize = 0 then (PageSize div BlockSize, True)
               else if BlockSize mod (PageSize mod BlockSize) = 0 then (PageSize div BlockSize + 1, True)
               else (PageSize div BlockSize + 2, False)
             else if BlockSize AND (PageSize - 1) = 0 then (1, True)
             else (2, False))
      in \<lparr>CtxBlockSize = BlockSize, CtxNumberOfRegions = NumberOfRegions,
          CtxReleasePageOffset = drop_bit PageSizeLog ReleaseOffset,
          CtxPagesCount = drop_bit PageSizeLog (roundUp ReleaseSize PageSize),
          CtxFullPagesBlockCountMax = full, CtxSameBlockCountPerPage = same,
          CtxPageMap = empty_page_map\<rparr>)"

definition hasBlockMarked :: "page_release_context \<Rightarrow> bool" where
  "hasBlockMarked c = isAllocated (CtxPageMap c)"

definition ensurePageMapAllocated ::
    "(uptr \<Rightarrow> bool) \<Rightarrow> nat \<Rightarrow> page_release_context \<times> uptr \<Rightarrow> bool \<times> page_release_context \<times> uptr" where
  "ensurePageMapAllocated map_ok PageSizeLog = (\<lambda>(c, Mask).
     if isAllocated (CtxPageMap c) then (True, c, Mask)
     else let (pm, Mask) = page_map_reset map_ok (push_bit PageSizeLog 1) (CtxNumberOfRegions c)
                             (CtxPagesCount c) (CtxFullPagesBlockCountMax c) Mask
          in (isAllocated pm, c\<lparr>CtxPageMap := pm\<rparr>, Mask))"

definition getPageIndex :: "nat \<Rightarrow> page_release_context \<Rightarrow> uptr \<Rightarrow> uptr" where
  "getPageIndex PageSizeLog c P = drop_bit PageSizeLog P - CtxReleasePageOffset c"

definition getReleaseOffset :: "nat \<Rightarrow> page_release_context \<Rightarrow> uptr" where
  "getReleaseOffset PageSizeLog c = push_bit PageSizeLog (CtxReleasePageOffset c)"

definition with_map :: "(page_map \<Rightarrow> page_map) \<Rightarrow> page_release_context \<Rightarrow> page_release_context" where
  "with_map f c = c\<lparr>CtxPageMap := f (CtxPageMap c)\<rparr>"

definition markRangeAsAllCounted ::
    "(uptr \<Rightarrow> bool) \<Rightarrow> nat \<Rightarrow> uptr \<Rightarrow> uptr \<Rightarrow> uptr \<Rightarrow> uptr \<Rightarrow> uptr
      \<Rightarrow> page_release_context \<times> uptr \<Rightarrow> bool \<times> page_release_context \<times> uptr" where
  "markRangeAsAllCounted map_ok PageSizeLog From To Base RegionIndex RegionSize cm =
     (let PageSize = push_bit PageSizeLog 1;
          (ok, c, Mask) = ensurePageMapAllocated map_ok PageSizeLog cm;
          BlockSize = CtxBlockSize c;
          FromInRegion = From - Base;
          ToInRegion = To - Base;
          FirstBlockInRange = roundUpSlow FromInRegion BlockSize
      in if \<not> ok then (False, c, Mask)
         else if FirstBlockInRange \<ge> ToInRegion then (True, c, Mask)
         else
           let FromInRegion = roundDown FirstBlockInRange PageSize;
               (FromInRegion, c) =
                 (if FirstBlockInRange \<noteq> FromInRegion then
                    let NumBlocksInFirstPage =
                          (FromInRegion + PageSize - FirstBlockInRange + BlockSize - 1) div BlockSize
                    in (roundUp (FromInRegion + 1) PageSize,
                        with_map (pm_incN RegionIndex (getPageIndex PageSizeLog c FromInRegion)
                                    NumBlocksInFirstPage) c)
                  else (FromInRegion, c));
               LastBlockInRange = roundDownSlow (ToInRegion - 1) BlockSize;
               (ToInRegion, c) =
                 (if LastBlockInRange + BlockSize \<noteq> RegionSize then
                    (ToInRegion,
                     if LastBlockInRange + BlockSize \<noteq> ToInRegion
                     then with_map (pm_incRange RegionIndex (getPageIndex PageSizeLog c ToInRegion)
                            (getPageIndex PageSizeLog c (LastBlockInRange + BlockSize - 1))) c
                     else c)
                  else (RegionSize, c));
               c = (if FromInRegion < ToInRegion
                    then with_map (setAsAllCountedRange RegionIndex (getPageIndex PageSizeLog c FromInRegion)
                           (getPageIndex PageSizeLog c (ToInRegion - 1))) c
                    else c)
           in (True, c, Mask))"

text \<open>The pretend blocks after the last block of the region.\<close>

definition markTrailingBlocks :: "nat \<Rightarrow> uptr \<Rightarrow> uptr \<Rightarrow> page_release_context \<Rightarrow> page_release_context" where
  "markTrailingBlocks PageSizeLog RegionIndex RegionSize c =
     (let PageSize = push_bit PageSizeLog 1;
          BlockSize = CtxBlockSize c;
          LastBlockInRegion = (RegionSize div BlockSize - 1) * BlockSize;
          RoundedRegionSize = roundUp RegionSize PageSize;
          TrailingBlockBase = LastBlockInRegion + BlockSize;
          NumTrailingBlocks =
            (roundUpSlow (RoundedRegionSize - TrailingBlockBase) BlockSize + BlockSize - 1) div BlockSize
      in if NumTrailingBlocks > 0
         then with_map (pm_incN RegionIndex (getPageIndex PageSizeLog c TrailingBlockBase) NumTrailingBlocks) c
         else c)"

text \<open>Counting one free block, given by its offset in the region.\<close>

definition markBlock :: "nat \<Rightarrow> uptr \<Rightarrow> uptr \<Rightarrow> page_release_context \<Rightarrow> page_release_context" where
  "markBlock PageSizeLog RegionIndex PInRegion c =
     (let PageSize = push_bit PageSizeLog 1; BlockSize = CtxBlockSize c
      in if BlockSize \<le> PageSize \<and> PageSize mod BlockSize = 0
         then with_map (pm_inc RegionIndex (getPageIndex PageSizeLog c PInRegion)) c
         else with_map (pm_incRange RegionIndex (getPageIndex PageSizeLog c PInRegion)
                (getPageIndex PageSizeLog c (PInRegion + BlockSize - 1))) c)"

text \<open>The free list is a list of transfer batches, each the list of its compact pointers.\<close>

definition markFreeBlocksInRegion ::
    "(uptr \<Rightarrow> bool) \<Rightarrow> nat \<Rightarrow> 'c list list \<Rightarrow> ('c \<Rightarrow> uptr) \<Rightarrow> uptr \<Rightarrow> uptr \<Rightarrow> uptr \<Rightarrow> bool
      \<Rightarrow> page_release_context \<times> uptr \<Rightarrow> bool \<times> page_release_context \<times> uptr" where
  "markFreeBlocksInRegion map_ok PageSizeLog FreeList DecompactPtr Base RegionIndex RegionSize
       MayContainLastBlockInRegion cm =
     (let (ok, c, Mask) = ensurePageMapAllocated map_ok PageSizeLog cm
      in if \<not> ok then (False, c, Mask)
         else
           let c = (if MayContainLastBlockInRegion
                    then markTrailingBlocks PageSizeLog RegionIndex RegionSize c else c);
               c = fold (\<lambda>It. fold (\<lambda>P. markBlock PageSizeLog RegionIndex (DecompactPtr P - Base)) It)
                     FreeList c
           in (True, c, Mask))"

section \<open>Releasing\<close>

text \<open>One page of the slow path: the block count expected of the page that ends at
  \<open>PrevPageBoundary + PageSize\<close>, and the boundaries for the next page.\<close>

definition next_page_count :: "uptr \<Rightarrow> uptr \<Rightarrow> uptr \<times> uptr \<Rightarrow> uptr \<times> uptr \<times> uptr" where
  "next_page_count PageSize BlockSize = (\<lambda>(PrevPageBoundary, CurrentBoundary).
     let Pn = (if BlockSize < PageSize then PageSize div BlockSize else 1);
         Pnc = Pn * BlockSize;
         PageBoundary = PrevPageBoundary + PageSize;
         BlocksPerPage = Pn
     in if CurrentBoundary < PageBoundary then
          let BlocksPerPage = (if CurrentBoundary > PrevPageBoundary then BlocksPerPage + 1 else BlocksPerPage);
              CurrentBoundary = CurrentBoundary + Pnc
          in if CurrentBoundary < PageBoundary
             then (BlocksPerPage + 1, PageBoundary, CurrentBoundary + BlockSize)
             else (BlocksPerPage, PageBoundary, CurrentBoundary)
        else (BlocksPerPage, PageBoundary, CurrentBoundary))"

type_synonym 'r release_state = "page_map \<times> 'r range_tracker"

definition release_page ::
    "(uptr \<Rightarrow> uptr \<Rightarrow> 'r \<Rightarrow> 'r) \<Rightarrow> nat \<Rightarrow> uptr \<Rightarrow> uptr \<Rightarrow> uptr \<Rightarrow> 'r release_state \<Rightarrow> 'r release_state" where
  "release_page rel PageSizeLog I J MaxCount = (\<lambda>(pm, t).
     let (CanRelease, pm) = updateAsAllCountedIf I J MaxCount pm
     in (pm, processNextPage rel PageSizeLog CanRelease t))"

text \<open>The page loop of the slow path: \<open>J\<close> counts up, \<open>n\<close> is the number of pages left.\<close>

fun slow_pages ::
    "(uptr \<Rightarrow> uptr \<Rightarrow> 'r \<Rightarrow> 'r) \<Rightarrow> nat \<Rightarrow> uptr \<Rightarrow> uptr \<Rightarrow> nat \<Rightarrow> uptr \<Rightarrow> uptr \<times> uptr
      \<Rightarrow> 'r release_state \<Rightarrow> 'r release_state" where
  "slow_pages rel PageSizeLog BlockSize I 0 J b st = st"
| "slow_pages rel PageSizeLog BlockSize I (Suc n) J b st =
     (let (BlocksPerPage, b') = next_page_count (push_bit PageSizeLog 1) BlockSize b
      in slow_pages rel PageSizeLog BlockSize I n (J + 1) b' (release_page rel PageSizeLog I J BlocksPerPage st))"

fun fast_pages ::
    "(uptr \<Rightarrow> uptr \<Rightarrow> 'r \<Rightarrow> 'r) \<Rightarrow> nat \<Rightarrow> uptr \<Rightarrow> uptr \<Rightarrow> nat \<Rightarrow> uptr
      \<Rightarrow> 'r release_state \<Rightarrow> 'r release_state" where
  "fast_pages rel PageSizeLog FullCount I 0 J st = st"
| "fast_pages rel PageSizeLog FullCount I (Suc n) J st =
     fast_pages rel PageSizeLog FullCount I n (J + 1) (release_page rel PageSizeLog I J FullCount st)"

definition start_boundaries :: "nat \<Rightarrow> page_release_context \<Rightarrow> uptr \<times> uptr" where
  "start_boundaries PageSizeLog c =
     (if CtxReleasePageOffset c > 0 then
        let PrevPageBoundary = push_bit PageSizeLog (CtxReleasePageOffset c)
        in (PrevPageBoundary, roundUpSlow PrevPageBoundary (CtxBlockSize c))
      else (0, 0))"

definition release_region ::
    "(uptr \<Rightarrow> uptr \<Rightarrow> 'r \<Rightarrow> 'r) \<Rightarrow> nat \<Rightarrow> page_release_context \<Rightarrow> (uptr \<Rightarrow> bool) \<Rightarrow> uptr
      \<Rightarrow> 'r release_state \<Rightarrow> 'r release_state" where
  "release_region rel PageSizeLog c SkipRegion I = (\<lambda>(pm, t).
     if SkipRegion I then (pm, skipPages rel PageSizeLog (CtxPagesCount c) t)
     else if CtxSameBlockCountPerPage c
     then fast_pages rel PageSizeLog (CtxFullPagesBlockCountMax c) I (unat (CtxPagesCount c)) 0 (pm, t)
     else slow_pages rel PageSizeLog (CtxBlockSize c) I (unat (CtxPagesCount c)) 0
            (start_boundaries PageSizeLog c) (pm, t))"

definition releaseFreeMemoryToOS ::
    "(uptr \<Rightarrow> uptr \<Rightarrow> 'r \<Rightarrow> 'r) \<Rightarrow> nat \<Rightarrow> page_release_context \<Rightarrow> (uptr \<Rightarrow> bool) \<Rightarrow> 'r
      \<Rightarrow> page_release_context \<times> 'r" where
  "releaseFreeMemoryToOS rel PageSizeLog c SkipRegion r =
     (let (pm, t) = fold (\<lambda>I. release_region rel PageSizeLog c SkipRegion (of_nat I))
                      [0 ..< unat (CtxNumberOfRegions c)] (CtxPageMap c, tracker_init r);
          t = tracker_finish rel PageSizeLog t
      in (c\<lparr>CtxPageMap := pm\<rparr>, Recorder t))"

end
