(* ===== verification/ReleaseSafety.thy ===== *)
theory ReleaseSafety
  imports Release
begin

text \<open>
  Properties of \<open>Release\<close>: the number of blocks on a page, the packed counters as an array of
  numbers, the ranges the tracker reports, and the safety of releasing.
\<close>

unbundle bit_operations_syntax

section \<open>Blocks on a page\<close>

text \<open>Block \<open>k\<close> is the bytes from \<open>k * B\<close> to \<open>(k + 1) * B\<close>. The blocks that overlap the bytes
  from \<open>x\<close> to \<open>x + P\<close>:\<close>

definition blocks_on :: "nat \<Rightarrow> nat \<Rightarrow> nat \<Rightarrow> nat set" where
  "blocks_on B x P = {k. k * B < x + P \<and> x < (k + 1) * B}"

definition ceil_div :: "nat \<Rightarrow> nat \<Rightarrow> nat" where
  "ceil_div a B = (a + B - 1) div B"

lemma ceil_div_bounds: "0 < B \<Longrightarrow> a \<le> ceil_div a B * B \<and> ceil_div a B * B < a + B"
proof -
  assume B: "0 < B"
  have "(a + B - 1) div B * B \<le> a + B - 1" "a + B - 1 < (a + B - 1) div B * B + B"
    using div_mult_bounds [OF B, of "a + B - 1"] by blast+
  then show ?thesis using B unfolding ceil_div_def by linarith
qed

lemma ceil_div_unique: "0 < B \<Longrightarrow> a \<le> m * B \<Longrightarrow> m * B < a + B \<Longrightarrow> ceil_div a B = m"
proof -
  assume a: "0 < B" "a \<le> m * B" "m * B < a + B"
  have "ceil_div a B * B < (m + 1) * B" "m * B < (ceil_div a B + 1) * B"
    using ceil_div_bounds [OF a(1), of a] a unfolding add_mult_distrib by linarith+
  then have "ceil_div a B < m + 1" "m < ceil_div a B + 1" using mult_less_cancel2 by blast+
  then show ?thesis by simp
qed

lemma blocks_on_interval:
  assumes "0 < B" and "0 < P"
  shows "blocks_on B x P = {x div B ..< ceil_div (x + P) B}"
proof -
  have "k * B < x + P \<longleftrightarrow> k < ceil_div (x + P) B" for k
  proof
    assume "k * B < x + P"
    then have "k * B < ceil_div (x + P) B * B" using ceil_div_bounds [OF assms(1), of "x + P"] by linarith
    then show "k < ceil_div (x + P) B" using mult_less_cancel2 by blast
  next
    assume "k < ceil_div (x + P) B"
    then have "(k + 1) * B \<le> ceil_div (x + P) B * B" by (intro mult_le_mono1) simp
    then show "k * B < x + P" using ceil_div_bounds [OF assms(1), of "x + P"] assms(1)
      unfolding add_mult_distrib by linarith
  qed
  moreover have "x < (k + 1) * B \<longleftrightarrow> x div B \<le> k" for k
    using assms(1) by (simp add: div_less_iff_less_mult less_Suc_eq_le [symmetric] mult.commute)
  ultimately show ?thesis by (auto simp: blocks_on_def)
qed

lemma ceil_div_eq: "0 < B \<Longrightarrow> ceil_div x B = x div B + (if x < ceil_div x B * B then 1 else 0)"
proof -
  assume B: "0 < B"
  have d: "x div B * B \<le> x \<and> x < x div B * B + B" by (rule div_mult_bounds [OF B])
  show ?thesis
  proof (cases "x = x div B * B")
    case True
    have "ceil_div x B = x div B" by (rule ceil_div_unique [OF B]) (use True B in linarith)+
    then show ?thesis using True by simp
  next
    case False
    have e: "(x div B + 1) * B = x div B * B + B" by (simp only: add_mult_distrib mult_1)
    have "ceil_div x B = x div B + 1"
      by (rule ceil_div_unique [OF B]) (use False d e in linarith)+
    then show ?thesis using d e by presburger
  qed
qed

lemma card_blocks_on:
  assumes "0 < B" and "0 < P"
  shows "card (blocks_on B x P) + ceil_div x B
    = ceil_div (x + P) B + (if x < ceil_div x B * B then 1 else 0)"
proof -
  have "x div B \<le> ceil_div (x + P) B"
  proof -
    have "x div B * B \<le> ceil_div (x + P) B * B"
      using div_mult_bounds [OF assms(1), of x] ceil_div_bounds [OF assms(1), of "x + P"] by linarith
    then show ?thesis using assms(1) by simp
  qed
  then show ?thesis using ceil_div_eq [OF assms(1), of x] by (simp add: blocks_on_interval [OF assms])
qed

text \<open>One step of the slow path's boundary walk.\<close>

lemma next_page_count_spec:
  assumes "0 < unat B" and "0 < unat P" and "unat prev + unat P + 2 * unat B < 2 ^ 63"
    and "unat cur = ceil_div (unat prev) (unat B) * unat B"
    and "next_page_count P B (prev, cur) = (n, prev', cur')"
  shows "unat n = card (blocks_on (unat B) (unat prev) (unat P))"
    and "unat prev' = unat prev + unat P"
    and "unat cur' = ceil_div (unat prev + unat P) (unat B) * unat B"
proof -
  let ?B = "unat B" and ?P = "unat P" and ?x = "unat prev"
  define c0 where "c0 = ceil_div ?x ?B"
  have c0: "?x \<le> c0 * ?B" "c0 * ?B < ?x + ?B" using ceil_div_bounds [OF assms(1), of ?x] by (simp_all add: c0_def)
  define Pn where "Pn = (if B < P then P div B else 1)"
  have uPn: "unat Pn = (if ?B < ?P then ?P div ?B else 1)"
    by (simp add: Pn_def word_less_nat_alt unat_div)
  have PnB: "unat Pn * ?B \<le> ?P + ?B" "?B < ?P \<Longrightarrow> unat Pn * ?B \<le> ?P" "?B < ?P \<Longrightarrow> ?P < unat Pn * ?B + ?B"
    using div_mult_bounds [OF assms(1), of ?P] unfolding uPn by (simp_all only: if_True split: if_split) linarith+
  have up: "unat (prev + P) = ?x + ?P" using assms(3) by (intro unat_add_small) simp
  have um: "unat (Pn * B) = unat Pn * ?B" using PnB(1) assms(3) by (intro unat_mult_small) simp
  have uc1: "unat (cur + Pn * B) = c0 * ?B + unat Pn * ?B"
    using assms(3) PnB(1) c0 by (subst unat_add_small) (simp_all add: um assms(4) c0_def [symmetric])
  have Pn_small: "unat Pn < 2 ^ 63"
  proof -
    have "unat Pn \<le> unat Pn * ?B" using assms(1) by simp
    then show ?thesis using PnB(1) assms(3) by linarith
  qed
  have cur: "unat cur = c0 * ?B" by (simp add: assms(4) c0_def)
  note card = card_blocks_on [OF assms(1,2), of ?x, folded c0_def]
  have lt: "cur < prev + P \<longleftrightarrow> c0 * ?B < ?x + ?P" by (simp add: word_less_nat_alt cur up)
  have gt: "cur > prev \<longleftrightarrow> ?x < c0 * ?B" by (simp add: word_less_nat_alt cur)
  have lt2: "cur + Pn * B < prev + P \<longleftrightarrow> c0 * ?B + unat Pn * ?B < ?x + ?P"
    unfolding word_less_nat_alt uc1 up by simp
  have step: "next_page_count P B (prev, cur) =
    (if cur < prev + P then
       let n1 = (if cur > prev then Pn + 1 else Pn)
       in if cur + Pn * B < prev + P then (n1 + 1, prev + P, cur + Pn * B + B) else (n1, prev + P, cur + Pn * B)
     else (Pn, prev + P, cur))"
    by (simp only: next_page_count_def prod.case Let_def Pn_def [symmetric])
  have n1: "unat (if cur > prev then Pn + 1 else Pn) = unat Pn + (if ?x < c0 * ?B then 1 else 0)"
    using Pn_small gt by (cases "cur > prev") (simp_all add: unat_add_small)
  have un1: "unat ((if cur > prev then Pn + 1 else Pn) + 1) = unat Pn + (if ?x < c0 * ?B then 1 else 0) + 1"
    using Pn_small n1 by (subst unat_add_small) simp_all
  show "unat n = card (blocks_on ?B ?x ?P)" and "unat prev' = ?x + ?P"
    and "unat cur' = ceil_div (?x + ?P) ?B * ?B"
  proof -
    consider (none) "\<not> c0 * ?B < ?x + ?P"
      | (one) "c0 * ?B < ?x + ?P" "\<not> c0 * ?B + unat Pn * ?B < ?x + ?P"
      | (two) "c0 * ?B < ?x + ?P" "c0 * ?B + unat Pn * ?B < ?x + ?P" by linarith
    then have "unat n = card (blocks_on ?B ?x ?P) \<and> unat prev' = ?x + ?P
        \<and> unat cur' = ceil_div (?x + ?P) ?B * ?B"
    proof cases
      case none
      then have big: "\<not> ?B < ?P" using c0 by linarith
      have d: "ceil_div (?x + ?P) ?B = c0" using none c0 assms(1) by (intro ceil_div_unique) linarith+
      have "n = Pn" "prev' = prev + P" "cur' = cur" using assms(5) step lt none by simp_all
      moreover have "?x < c0 * ?B" using none assms(2) by linarith
      ultimately show ?thesis using card d up cur big by (simp add: uPn)
    next
      case one
      have d: "ceil_div (?x + ?P) ?B = c0 + unat Pn"
      proof (rule ceil_div_unique [OF assms(1)])
        show "?x + ?P \<le> (c0 + unat Pn) * ?B" using one(2) by (simp add: add_mult_distrib)
        show "(c0 + unat Pn) * ?B < ?x + ?P + ?B"
        proof (cases "?B < ?P")
          case True
          then show ?thesis using PnB(2) one(1) c0 unfolding add_mult_distrib by linarith
        next
          case False
          then show ?thesis using one(1) c0 by (simp add: add_mult_distrib uPn)
        qed
      qed
      have "n = (if cur > prev then Pn + 1 else Pn)" "prev' = prev + P" "cur' = cur + Pn * B"
        using assms(5) step lt lt2 one by (simp_all only: if_True if_False Let_def prod.inject)
      then show ?thesis using card d up uc1 n1 by (simp add: add_mult_distrib)
    next
      case two
      have small: "?B < ?P"
      proof (rule ccontr)
        assume "\<not> ?B < ?P"
        then show False using two c0 by (simp add: uPn)
      qed
      have d: "ceil_div (?x + ?P) ?B = c0 + unat Pn + 1"
      proof (rule ceil_div_unique [OF assms(1)])
        show "?x + ?P \<le> (c0 + unat Pn + 1) * ?B"
          using c0 PnB(3) [OF small] by (simp add: add_mult_distrib)
        show "(c0 + unat Pn + 1) * ?B < ?x + ?P + ?B" using two(2) by (simp add: add_mult_distrib)
      qed
      have e: "n = (if cur > prev then Pn + 1 else Pn) + 1" "prev' = prev + P" "cur' = cur + Pn * B + B"
        using assms(5) step lt lt2 two by (simp_all only: if_True if_False Let_def prod.inject)
      have "unat (cur + Pn * B + B) = c0 * ?B + unat Pn * ?B + ?B"
        using two(2) assms(3) by (subst unat_add_small) (simp_all add: uc1)
      then show ?thesis using card d up un1 e by (simp add: add_mult_distrib)
    qed
    then show "unat n = card (blocks_on ?B ?x ?P)" "unat prev' = ?x + ?P"
      "unat cur' = ceil_div (?x + ?P) ?B * ?B" by blast+
  qed
qed

section \<open>Packed counters\<close>

text \<open>The \<open>c\<close>-th field of width \<open>b\<close> of a number.\<close>

definition fld :: "nat \<Rightarrow> nat \<Rightarrow> nat \<Rightarrow> nat" where
  "fld b c w = w div 2 ^ (c * b) mod 2 ^ b"

lemma fld_add:
  assumes "fld b c w + n < 2 ^ b"
  shows "fld b c' (w + n * 2 ^ (c * b)) = fld b c' w + (if c' = c then n else 0)"
proof -
  let ?p = "(2::nat) ^ (c * b)"
  have pos: "0 < ?p" by simp
  have dq: "(w + n * ?p) div ?p = w div ?p + n" using pos by simp
  consider "c' = c" | "c' < c" | "c < c'" by linarith
  then show ?thesis
  proof cases
    case 1
    have "(w div ?p + n) mod 2 ^ b = (w div ?p mod 2 ^ b + n) mod 2 ^ b" by (simp only: mod_add_left_eq)
    also have "\<dots> = w div ?p mod 2 ^ b + n" using assms by (simp add: fld_def)
    finally show ?thesis unfolding 1 fld_def dq by simp
  next
    case 2
    then have le: "Suc c' * b \<le> c * b" by (intro mult_le_mono1) simp
    define e where "e = c * b - Suc c' * b"
    have p: "?p = 2 ^ (c' * b) * (2 ^ b * 2 ^ e)" using le by (simp add: e_def power_add [symmetric])
    have "w + n * ?p = w + (n * 2 ^ e * 2 ^ b) * 2 ^ (c' * b)" by (simp add: p)
    then have "(w + n * ?p) div 2 ^ (c' * b) = w div 2 ^ (c' * b) + n * 2 ^ e * 2 ^ b"
      by (simp only: div_mult_self1 [OF power_not_zero [OF zero_neq_numeral [symmetric]]] add.commute)
    then show ?thesis using 2 by (simp add: fld_def)
  next
    case 3
    then have le: "Suc c * b \<le> c' * b" by (intro mult_le_mono1) simp
    define e where "e = c' * b - Suc c * b"
    have p: "(2::nat) ^ (c' * b) = ?p * 2 ^ b * 2 ^ e" using le by (simp add: e_def power_add [symmetric])
    have "(w div ?p + n) div 2 ^ b = w div ?p div 2 ^ b"
    proof -
      have s: "w div ?p + n = (w div ?p mod 2 ^ b + n) + w div ?p div 2 ^ b * 2 ^ b"
        using div_mult_mod_eq [of "w div ?p" "2 ^ b"] by linarith
      have "(w div ?p mod 2 ^ b + n) div 2 ^ b = 0" using assms by (simp add: fld_def)
      then show ?thesis unfolding s by (subst div_mult_self1) simp_all
    qed
    then have "(w + n * ?p) div 2 ^ (c' * b) = w div 2 ^ (c' * b)"
      unfolding p div_mult2_eq dq by (simp only:)
    then show ?thesis using 3 by (simp add: fld_def)
  qed
qed

lemma fld_add_bound:
  assumes "fld b c w + n < 2 ^ b" and "w < 2 ^ N" and "(c + 1) * b \<le> N"
  shows "w + n * 2 ^ (c * b) < 2 ^ N"
proof -
  let ?p = "(2::nat) ^ (c * b)" and ?q = "(2::nat) ^ ((c + 1) * b)"
  have q: "?q = ?p * 2 ^ b" by (simp add: power_add)
  define h where "h = w div ?q"
  have d: "w = h * ?q + (w div ?p mod 2 ^ b) * ?p + w mod ?p"
  proof -
    have "w = w div ?p * ?p + w mod ?p" by (simp only: div_mult_mod_eq)
    moreover have "w div ?p = h * 2 ^ b + w div ?p mod 2 ^ b"
      unfolding h_def q div_mult2_eq by (simp only: div_mult_mod_eq)
    ultimately show ?thesis by (metis q add_mult_distrib mult.assoc mult.commute)
  qed
  have "(w div ?p mod 2 ^ b) * ?p + w mod ?p + n * ?p < ?q"
  proof -
    have "w mod ?p < ?p" by simp
    moreover have "(w div ?p mod 2 ^ b + n + 1) * ?p \<le> 2 ^ b * ?p"
      using assms(1) by (intro mult_le_mono1) (simp add: fld_def)
    moreover have "(w div ?p mod 2 ^ b + n + 1) * ?p = (w div ?p mod 2 ^ b) * ?p + n * ?p + ?p"
      by (simp only: add_mult_distrib mult_1)
    moreover have "2 ^ b * ?p = ?q" unfolding q by (rule mult.commute)
    ultimately show ?thesis by linarith
  qed
  then have lt: "w + n * ?p < (h + 1) * ?q" using d unfolding add_mult_distrib by linarith
  have N: "(2::nat) ^ N = 2 ^ (N - (c + 1) * b) * ?q" using assms(3) by (simp add: power_add [symmetric])
  have "h * ?q \<le> w" using div_mult_bounds [of ?q w] by (simp add: h_def)
  then have "h * ?q < 2 ^ (N - (c + 1) * b) * ?q" using assms(2) N by linarith
  then have "h + 1 \<le> 2 ^ (N - (c + 1) * b)" using mult_less_cancel2 by (metis Suc_eq_plus1 Suc_leI)
  then have "(h + 1) * ?q \<le> 2 ^ N" unfolding N by (rule mult_le_mono1)
  then show ?thesis using lt by linarith
qed

lemma unat_field:
  "unat (drop_bit (c * b) w AND mask b) = fld b c (unat w)" for w :: uptr
  by (simp only: unat_mask_and unat_drop_bit fld_def)

lemma field_add_word:
  fixes w :: uptr
  assumes "fld b c (unat w) + unat n < 2 ^ b" and "(c + 1) * b \<le> 64"
  shows "fld b c' (unat (w + push_bit (c * b) n)) = fld b c' (unat w) + (if c' = c then unat n else 0)"
proof -
  have bd: "unat w + unat n * 2 ^ (c * b) < 2 ^ 64"
    by (rule fld_add_bound [OF assms(1) _ assms(2)]) simp
  then have p: "unat (push_bit (c * b) n) = unat n * 2 ^ (c * b)" by (intro unat_push_bit_small) simp
  have "unat (w + push_bit (c * b) n) = unat w + unat n * 2 ^ (c * b)"
    using bd by (subst unat_add_small) (simp_all only: p, simp)
  then show ?thesis using fld_add [OF assms(1)] by simp
qed

lemma field_or_word:
  fixes w :: uptr
  assumes "(c + 1) * b \<le> 64"
  shows "fld b c' (unat (w OR push_bit (c * b) (mask b))) = (if c' = c then 2 ^ b - 1 else fld b c' (unat w))"
proof (cases "c' = c")
  case True
  have le: "b \<le> 64" using assms by simp
  have "drop_bit (c * b) (w OR push_bit (c * b) (mask b)) AND mask b = mask b"
    using assms by (intro bit_word_eqI) (auto simp: bit_simps)
  then have "fld b c (unat (w OR push_bit (c * b) (mask b))) = unat (mask b :: uptr)"
    by (simp only: unat_field [symmetric])
  moreover have "unat (mask b :: uptr) = 2 ^ b - 1"
  proof (cases "b = 64")
    case True
    then show ?thesis by (simp add: mask_eq_exp_minus_1 unsigned_minus_1_eq_mask)
  next
    case False
    then show ?thesis using le by (intro unat_mask) simp
  qed
  ultimately show ?thesis using True by simp
next
  case False
  have "drop_bit (c' * b) (w OR push_bit (c * b) (mask b)) AND mask b = drop_bit (c' * b) w AND mask b"
  proof (rule bit_word_eqI)
    fix n
    have "\<not> (n < b \<and> c * b \<le> c' * b + n \<and> c' * b + n - c * b < b)"
    proof
      assume a: "n < b \<and> c * b \<le> c' * b + n \<and> c' * b + n - c * b < b"
      consider "c' + 1 \<le> c" | "c + 1 \<le> c'" using False by linarith
      then show False
      proof cases
        case 1
        then have "(c' + 1) * b \<le> c * b" by (rule mult_le_mono1)
        then show False using a unfolding add_mult_distrib by linarith
      next
        case 2
        then have "(c + 1) * b \<le> c' * b" by (rule mult_le_mono1)
        then show False using a unfolding add_mult_distrib by linarith
      qed
    qed
    then show "bit (drop_bit (c' * b) (w OR push_bit (c * b) (mask b)) AND mask b) n
        = bit (drop_bit (c' * b) w AND mask b) n"
      by (auto simp: bit_simps)
  qed
  then show ?thesis using False by (simp only: unat_field [symmetric] if_False)
qed

end
