(* ===== verification/Stats.thy ===== *)
theory Stats
  imports Prelude
begin

text \<open>
  \<^verbatim>\<open>stats.h\<close>: the counters of a thread and the global list that sums them. Counters are shared
  between their owner and the list, so the counter objects live in a store indexed by their
  address, and the global list holds addresses (its linked-list operations are those of
  \<open>IntrusiveList\<close>). Counters wrap around and are clamped at zero when they are read as negative.

  The lemmas show that the totals do not change when a thread's counters are unlinked: what the
  thread counted is added to the global counters.
\<close>

section \<open>Local counters\<close>

datatype StatType = StatAllocated | StatFree | StatMapped

type_synonym local_stats = "StatType \<Rightarrow> uptr"

definition LocalStats_init :: local_stats where
  "LocalStats_init = (\<lambda>I. 0)"

definition stats_add :: "StatType \<Rightarrow> uptr \<Rightarrow> local_stats \<Rightarrow> local_stats" where
  "stats_add I V s = s(I := V + s I)"

definition stats_sub :: "StatType \<Rightarrow> uptr \<Rightarrow> local_stats \<Rightarrow> local_stats" where
  "stats_sub I V s = s(I := s I - V)"

definition stats_set :: "StatType \<Rightarrow> uptr \<Rightarrow> local_stats \<Rightarrow> local_stats" where
  "stats_set I V s = s(I := V)"

definition stats_get :: "StatType \<Rightarrow> local_stats \<Rightarrow> uptr" where
  "stats_get I s = s I"

section \<open>The global list\<close>

record global_stats =
  OwnStats :: local_stats
  StatsList :: "uptr list"

type_synonym stats_store = "uptr \<Rightarrow> local_stats"

definition GlobalStats_init :: global_stats where
  "GlobalStats_init = \<lparr>OwnStats = LocalStats_init, StatsList = []\<rparr>"

definition stats_link :: "uptr \<Rightarrow> global_stats \<Rightarrow> global_stats" where
  "stats_link S g = g\<lparr>StatsList := StatsList g @ [S]\<rparr>"

definition StatTypes :: "StatType list" where
  "StatTypes = [StatAllocated, StatFree, StatMapped]"

definition stats_unlink :: "stats_store \<Rightarrow> uptr \<Rightarrow> global_stats \<Rightarrow> global_stats" where
  "stats_unlink st S g =
     g\<lparr>StatsList := remove1 S (StatsList g),
       OwnStats := fold (\<lambda>I. stats_add I (stats_get I (st S))) StatTypes (OwnStats g)\<rparr>"

text \<open>The reader's array, before and after the negative totals are replaced by zero.\<close>

definition stats_sum :: "stats_store \<Rightarrow> global_stats \<Rightarrow> local_stats" where
  "stats_sum st g = (\<lambda>I. fold (\<lambda>S acc. acc + stats_get I (st S)) (StatsList g) (stats_get I (OwnStats g)))"

definition GlobalStats_get :: "stats_store \<Rightarrow> global_stats \<Rightarrow> local_stats" where
  "GlobalStats_get st g = (\<lambda>I. if 0 \<le> sint (stats_sum st g I) then stats_sum st g I else 0)"

section \<open>Totals\<close>

lemma fold_add_eq: "fold (\<lambda>S acc. acc + f S) xs a = a + (\<Sum>S\<leftarrow>xs. f S)" for f :: "'b \<Rightarrow> uptr"
  by (induction xs arbitrary: a) (simp_all add: add.assoc)

lemma stats_sum_eq: "stats_sum st g I = OwnStats g I + (\<Sum>S\<leftarrow>StatsList g. st S I)"
  by (simp add: stats_sum_def stats_get_def fold_add_eq)

lemma fold_add_types: "fold (\<lambda>I. stats_add I (f I)) StatTypes s = (\<lambda>I. f I + s I)"
proof
  fix I show "fold (\<lambda>I. stats_add I (f I)) StatTypes s I = f I + s I"
    by (cases I) (simp_all add: StatTypes_def stats_add_def)
qed

lemma sum_list_remove1: "x \<in> set xs \<Longrightarrow> (\<Sum>S\<leftarrow>xs. f S) = f x + (\<Sum>S\<leftarrow>remove1 x xs. f S)"
  for f :: "'b \<Rightarrow> uptr"
  by (induction xs) (auto simp: algebra_simps)

lemma stats_sum_unlink:
  "S \<in> set (StatsList g) \<Longrightarrow> stats_sum st (stats_unlink st S g) I = stats_sum st g I"
  by (simp add: stats_sum_eq stats_unlink_def fold_add_types stats_get_def
      sum_list_remove1 [of S "StatsList g" "\<lambda>S. st S I"] algebra_simps)

lemma thread_stats:
  assumes "S \<notin> set (StatsList g)" and "st S = LocalStats_init"
  shows "GlobalStats_get st (stats_link S g) = GlobalStats_get st g"
    and "stats_sum (st(S := stats_add I V (stats_sub J W (st S)))) (stats_link S g) I
      = stats_sum st g I + V - (if I = J then W else 0)"
    and "GlobalStats_get (st(S := s')) (stats_unlink (st(S := s)) S (stats_link S g)) =
      GlobalStats_get (st(S := s)) (stats_link S g)"
proof -
  have notin: "(\<Sum>x\<leftarrow>StatsList g. (if x = S then a else f x)) = (\<Sum>x\<leftarrow>StatsList g. f x)" for a and f :: "uptr \<Rightarrow> uptr"
    using assms(1) by (intro arg_cong [where f = sum_list] map_cong) auto
  have sum: "stats_sum (st(S := s)) (stats_link S g) K = stats_sum st g K + s K" for s K
    using notin [of "s K" "\<lambda>x. st x K"]
    by (simp add: stats_sum_eq stats_link_def if_distrib [where f = "\<lambda>f. f K"] add.assoc)
  have "stats_sum st (stats_link S g) = stats_sum st g"
    using sum [of LocalStats_init] assms(2) by (intro ext) (simp add: LocalStats_init_def fun_upd_idem)
  then show "GlobalStats_get st (stats_link S g) = GlobalStats_get st g"
    unfolding GlobalStats_get_def by (simp cong: if_cong)
  show "stats_sum (st(S := stats_add I V (stats_sub J W (st S)))) (stats_link S g) I
      = stats_sum st g I + V - (if I = J then W else 0)"
    by (simp add: sum assms(2) LocalStats_init_def stats_add_def stats_sub_def)
  have rem: "StatsList (stats_unlink (st(S := s)) S (stats_link S g)) = StatsList g"
    using assms(1) by (simp add: stats_unlink_def stats_link_def remove1_append)
  have "stats_sum (st(S := s')) (stats_unlink (st(S := s)) S (stats_link S g)) K =
      stats_sum (st(S := s)) (stats_link S g) K" for K
  proof -
    have "stats_sum (st(S := s')) (stats_unlink (st(S := s)) S (stats_link S g)) K
      = OwnStats g K + s K + (\<Sum>x\<leftarrow>StatsList g. (st(S := s')) x K)"
      unfolding stats_sum_eq rem by (simp add: stats_unlink_def stats_link_def fold_add_types stats_get_def algebra_simps)
    also have "\<dots> = stats_sum st g K + s K"
      using notin [of "s' K" "\<lambda>x. st x K"] by (simp add: stats_sum_eq if_distrib [where f = "\<lambda>f. f K"])
    finally show ?thesis using sum [of s K] by simp
  qed
  then have "stats_sum (st(S := s')) (stats_unlink (st(S := s)) S (stats_link S g))
      = stats_sum (st(S := s)) (stats_link S g)" by (rule ext)
  then show "GlobalStats_get (st(S := s')) (stats_unlink (st(S := s)) S (stats_link S g)) =
      GlobalStats_get (st(S := s)) (stats_link S g)"
    unfolding GlobalStats_get_def by (simp cong: if_cong)
qed

text \<open>No statistics are lost or counted twice over the life of a thread. Linking fresh
  counters leaves every total unchanged; while linked, whatever the thread adds to or subtracts
  from a counter moves the total by the same amount; and unlinking the counters at thread exit
  leaves the totals as they are, after which the store entry no longer matters.\<close>

theorem thread_stats_lifecycle:
  assumes "S \<notin> set (StatsList g)" and "st S = LocalStats_init"
  shows "GlobalStats_get st (stats_link S g) = GlobalStats_get st g
    \<and> stats_sum (st(S := stats_add I V (stats_sub J W (st S)))) (stats_link S g) I
      = stats_sum st g I + V - (if I = J then W else 0)
    \<and> GlobalStats_get (st(S := s')) (stats_unlink (st(S := s)) S (stats_link S g)) =
      GlobalStats_get (st(S := s)) (stats_link S g)"
  using thread_stats [of S g st] assms by blast

theorem thread_stats_lifecycle_witness:
  "GlobalStats_get (\<lambda>_. LocalStats_init) (stats_link 8 \<lparr>OwnStats = LocalStats_init, StatsList = [16]\<rparr>)
    = GlobalStats_get (\<lambda>_. LocalStats_init) \<lparr>OwnStats = LocalStats_init, StatsList = [16]\<rparr>"
  using thread_stats_lifecycle [of 8 "\<lparr>OwnStats = LocalStats_init, StatsList = [16]\<rparr>" "\<lambda>_. LocalStats_init"]
  by simp

end
