(* ===== verification/Options.thy ===== *)
theory Options
  imports Memtag
begin

text \<open>
  \<^verbatim>\<open>options.h\<close> and the option enumerations of \<^verbatim>\<open>common.h\<close>: the allocator's run-time options are
  bits of one atomic 32-bit word, the fill mode a two-bit field of it. The compare-exchange loop of
  \<^verbatim>\<open>setFillContentsMode\<close> is modelled with the values other threads leave in the word between a
  failed exchange and the next attempt.

  The lemmas show that the bits are independent: writing one option changes no other, and the
  fill mode is only changed by its own setter, also under interference.
\<close>

unbundle bit_operations_syntax

datatype OptionBit =
    MayReturnNull | FillContents0of2 | FillContents1of2 | OptDeallocTypeMismatch | OptDeleteSizeMismatch
  | TrackAllocationStacks | UseOddEvenTags | UseMemoryTagging | AddLargeAllocationSlack

fun OptionBit_code :: "OptionBit \<Rightarrow> nat" where
  "OptionBit_code MayReturnNull = 0"
| "OptionBit_code FillContents0of2 = 1"
| "OptionBit_code FillContents1of2 = 2"
| "OptionBit_code OptDeallocTypeMismatch = 3"
| "OptionBit_code OptDeleteSizeMismatch = 4"
| "OptionBit_code TrackAllocationStacks = 5"
| "OptionBit_code UseOddEvenTags = 6"
| "OptionBit_code UseMemoryTagging = 7"
| "OptionBit_code AddLargeAllocationSlack = 8"

datatype ReleaseToOS = ReleaseNormal | ReleaseForce | ReleaseForceAll

datatype RtOption =
    ReleaseInterval | MemtagTuning | ThreadDisableMemInit | MaxCacheEntriesCount | MaxCacheEntrySize
  | MaxTSDsCount

text \<open>\<^verbatim>\<open>FillContentsMode\<close> is kept as its number, because the cast in \<^verbatim>\<open>getFillContentsMode\<close> can also
  give the value 3.\<close>

definition NoFill :: u32 where "NoFill = 0"
definition ZeroFill :: u32 where "ZeroFill = 1"
definition PatternOrZeroFill :: u32 where "PatternOrZeroFill = 2"
definition PatternFillByte :: u8 where "PatternFillByte = 0xAB"

definition opt_get :: "OptionBit \<Rightarrow> u32 \<Rightarrow> bool" where
  "opt_get Opt Val = (Val AND push_bit (OptionBit_code Opt) 1 \<noteq> 0)"

definition getFillContentsMode :: "u32 \<Rightarrow> u32" where
  "getFillContentsMode Val = drop_bit (OptionBit_code FillContents0of2) Val AND 3"

definition useMemoryTagging :: "bool \<Rightarrow> u32 \<Rightarrow> bool" where
  "useMemoryTagging MaySupportMemoryTagging Val =
     (allocatorSupportsMemoryTagging MaySupportMemoryTagging \<and> opt_get UseMemoryTagging Val)"

definition opt_clear :: "OptionBit \<Rightarrow> u32 \<Rightarrow> u32" where
  "opt_clear Opt Val = Val AND NOT (push_bit (OptionBit_code Opt) 1)"

definition opt_set :: "OptionBit \<Rightarrow> u32 \<Rightarrow> u32" where
  "opt_set Opt Val = Val OR push_bit (OptionBit_code Opt) 1"

definition new_fill_opts :: "u32 \<Rightarrow> u32 \<Rightarrow> u32" where
  "new_fill_opts FillContents Opts =
     Opts AND NOT (push_bit (OptionBit_code FillContents0of2) 3)
     OR push_bit (OptionBit_code FillContents0of2) FillContents"

text \<open>The loop: \<open>Opts\<close> is the value last read. Each element of the list is the word at one attempt
  to exchange, as other threads left it; the exchange succeeds when it equals \<open>Opts\<close>, and a
  failed exchange reads the word into \<open>Opts\<close>. \<open>None\<close>: all listed attempts failed.\<close>

fun setFillContentsMode_loop :: "u32 \<Rightarrow> u32 \<Rightarrow> u32 list \<Rightarrow> u32 option" where
  "setFillContentsMode_loop FillContents Opts [] = None"
| "setFillContentsMode_loop FillContents Opts (Val # Vals) =
     (if Val = Opts then Some (new_fill_opts FillContents Opts)
      else setFillContentsMode_loop FillContents Val Vals)"

text \<open>Without interference the first attempt succeeds.\<close>

definition setFillContentsMode :: "u32 \<Rightarrow> u32 \<Rightarrow> u32" where
  "setFillContentsMode FillContents Val =
     (case setFillContentsMode_loop FillContents Val [Val] of Some V \<Rightarrow> V | None \<Rightarrow> Val)"

lemma setFillContentsMode_eq: "setFillContentsMode FillContents Val = new_fill_opts FillContents Val"
  by (simp add: setFillContentsMode_def)

section \<open>Independence of the options\<close>

lemma OptionBit_code_inj [simp]: "OptionBit_code A = OptionBit_code B \<longleftrightarrow> A = B"
  by (cases A; cases B) simp_all

lemma OptionBit_code_less: "OptionBit_code A < 32"
  by (cases A) simp_all

lemma opt_get_bit: "opt_get Opt Val = bit Val (OptionBit_code Opt)"
  unfolding opt_get_def
proof
  assume "bit Val (OptionBit_code Opt)"
  then have "bit (Val AND push_bit (OptionBit_code Opt) 1) (OptionBit_code Opt)"
    using OptionBit_code_less [of Opt] by (simp add: bit_simps)
  then show "Val AND push_bit (OptionBit_code Opt) 1 \<noteq> 0" by auto
next
  assume "Val AND push_bit (OptionBit_code Opt) 1 \<noteq> 0"
  then obtain n where "bit (Val AND push_bit (OptionBit_code Opt) 1) n" 
    using bit_word_eqI [of "Val AND push_bit (OptionBit_code Opt) 1" 0] by auto
  then show "bit Val (OptionBit_code Opt)" by (auto simp: bit_simps bit_1_iff)
qed

lemma opt_get_set: "opt_get A (opt_set B Val) \<longleftrightarrow> A = B \<or> opt_get A Val"
  using OptionBit_code_less [of A] by (auto simp: opt_get_bit opt_set_def bit_simps bit_1_iff)

lemma opt_get_clear: "opt_get A (opt_clear B Val) \<longleftrightarrow> A \<noteq> B \<and> opt_get A Val"
  using OptionBit_code_less [of A]
  by (auto simp: opt_get_bit opt_clear_def bit_simps bit_1_iff)

lemma three_mask: "(3 :: u32) = mask 2"
  by (simp add: mask_eq_exp_minus_1)

lemma fill_take_bit: "F < 4 \<Longrightarrow> take_bit 2 F = F" for F :: u32
  by (intro word_unat_eq_iff [THEN iffD2]) (simp add: unat_take_bit word_less_nat_alt)

lemma getFill_newFill: "F < 4 \<Longrightarrow> getFillContentsMode (new_fill_opts F Val) = F"
proof -
  assume "F < 4"
  moreover have "getFillContentsMode (new_fill_opts F Val) = take_bit 2 F"
    unfolding getFillContentsMode_def new_fill_opts_def three_mask OptionBit_code.simps
    by (rule bit_word_eqI) (auto simp: bit_simps simp del: One_nat_def push_bit_Suc)
  ultimately show ?thesis by (simp add: fill_take_bit)
qed

lemma opt_get_newFill:
  "F < 4 \<Longrightarrow> A \<noteq> FillContents0of2 \<Longrightarrow> A \<noteq> FillContents1of2 \<Longrightarrow> opt_get A (new_fill_opts F Val) = opt_get A Val"
proof -
  assume a: "F < 4" "A \<noteq> FillContents0of2" "A \<noteq> FillContents1of2"
  have "\<not> bit F n" if "2 \<le> n" for n
    using that bit_take_bit_iff [of 2 F n] by (simp add: fill_take_bit [OF a(1)])
  then show ?thesis using a(2,3)
    unfolding opt_get_bit new_fill_opts_def three_mask
    by (cases A) (auto simp: bit_simps simp del: One_nat_def push_bit_Suc)
qed

lemma options_facts:
  shows "opt_get A (opt_set B Val) \<longleftrightarrow> A = B \<or> opt_get A Val"
    and "opt_get A (opt_clear B Val) \<longleftrightarrow> A \<noteq> B \<and> opt_get A Val"
    and "F < 4 \<Longrightarrow> getFillContentsMode (setFillContentsMode F Val) = F"
    and "F < 4 \<Longrightarrow> A \<noteq> FillContents0of2 \<Longrightarrow> A \<noteq> FillContents1of2 \<Longrightarrow>
      setFillContentsMode_loop F Opts Vals = Some New \<Longrightarrow>
      \<exists>Val \<in> set Vals. getFillContentsMode New = F \<and> opt_get A New = opt_get A Val"
proof -
  show "opt_get A (opt_set B Val) \<longleftrightarrow> A = B \<or> opt_get A Val" by (rule opt_get_set)
  show "opt_get A (opt_clear B Val) \<longleftrightarrow> A \<noteq> B \<and> opt_get A Val" by (rule opt_get_clear)
  show "F < 4 \<Longrightarrow> getFillContentsMode (setFillContentsMode F Val) = F"
    by (simp add: setFillContentsMode_eq getFill_newFill)
  assume a: "F < 4" "A \<noteq> FillContents0of2" "A \<noteq> FillContents1of2"
  show "setFillContentsMode_loop F Opts Vals = Some New \<Longrightarrow>
      \<exists>Val \<in> set Vals. getFillContentsMode New = F \<and> opt_get A New = opt_get A Val"
    by (induction Vals arbitrary: Opts)
      (auto simp: getFill_newFill [OF a(1)] opt_get_newFill [OF a] split: if_splits)
qed

text \<open>The options are independent. Setting or clearing one option bit decides that bit and
  changes no other. Setting the fill mode makes it the mode that is read back, and leaves every
  other option as the last writer left it: under interference, whatever the other threads wrote
  before the successful exchange is kept.\<close>

theorem options_independent:
  "(opt_get A (opt_set B Val) \<longleftrightarrow> A = B \<or> opt_get A Val)
    \<and> (opt_get A (opt_clear B Val) \<longleftrightarrow> A \<noteq> B \<and> opt_get A Val)
    \<and> (F < 4 \<longrightarrow> getFillContentsMode (setFillContentsMode F Val) = F)
    \<and> (F < 4 \<longrightarrow> A \<noteq> FillContents0of2 \<longrightarrow> A \<noteq> FillContents1of2 \<longrightarrow>
      setFillContentsMode_loop F Opts Vals = Some New \<longrightarrow>
      (\<exists>Val \<in> set Vals. getFillContentsMode New = F \<and> opt_get A New = opt_get A Val))"
  by (intro conjI impI options_facts)

theorem options_independent_witness:
  "\<exists>Val \<in> set [128 :: u32, 129, 129].
     getFillContentsMode 133 = PatternOrZeroFill \<and> opt_get UseMemoryTagging 133 = opt_get UseMemoryTagging Val"
proof -
  have "setFillContentsMode_loop 2 0 [128, 129, 129] = Some 133" by (simp add: new_fill_opts_def)
  then show ?thesis
    using options_independent [of UseMemoryTagging UseMemoryTagging 0 2 0 "[128, 129, 129]" 133]
    by (simp add: PatternOrZeroFill_def)
qed

end
