(* ===== verification/LocalCache.thy ===== *)
theory LocalCache
  imports SizeClassMap Report Stats "HOL-Library.Multiset" "HOL-Library.Monad_Syntax"
begin

text \<open>
  \<^verbatim>\<open>size_class_allocator.h\<close>: the per-thread caches in front of the primary allocator,
  \<^verbatim>\<open>SizeClassAllocatorLocalCache\<close> with an array of blocks per size class and
  \<^verbatim>\<open>SizeClassAllocatorNoCache\<close>, which passes every request on. The two operations they call on
  the primary, \<^verbatim>\<open>popBlocks\<close> and \<^verbatim>\<open>pushBlocks\<close>, are arguments here; they act on the whole state,
  because the primary in turn takes blocks of the batch class from the very cache that called
  it. The state is therefore an extension of the record \<open>local_cache\<close>.

  The locale \<open>block_source\<close> states what the caches rely on: popping and pushing neither lose nor
  duplicate a block and leave the calling class's array alone. Inside it, allocation hands out a
  block that was free, deallocation and draining return every block.
\<close>

section \<open>State\<close>

record per_class =
  Count :: u16
  MaxCount :: u16
  ClassSize :: uptr
  Chunks :: "uptr list"

record local_cache =
  PerClassArray :: "per_class list"
  CacheStats :: local_stats

text \<open>\<^verbatim>\<open>popBlocks\<close> returns the blocks it wrote to \<^verbatim>\<open>ToArray\<close>; \<^verbatim>\<open>pushBlocks\<close> sorts the array it is
  given and returns it.\<close>

type_synonym 's pop_fun = "uptr \<Rightarrow> u16 \<Rightarrow> 's \<Rightarrow> (uptr list \<times> 's) result"
type_synonym 's push_fun = "uptr \<Rightarrow> uptr list \<Rightarrow> 's \<Rightarrow> (uptr list \<times> 's) result"

definition get_class :: "uptr \<Rightarrow> 'a local_cache_scheme \<Rightarrow> per_class" where
  "get_class I c = PerClassArray c ! unat I"

definition upd_class :: "uptr \<Rightarrow> (per_class \<Rightarrow> per_class) \<Rightarrow> 'a local_cache_scheme \<Rightarrow> 'a local_cache_scheme" where
  "upd_class I f c = c\<lparr>PerClassArray := (PerClassArray c)[unat I := f (PerClassArray c ! unat I)]\<rparr>"

definition upd_stats :: "(local_stats \<Rightarrow> local_stats) \<Rightarrow> 'a local_cache_scheme \<Rightarrow> 'a local_cache_scheme" where
  "upd_stats f c = c\<lparr>CacheStats := f (CacheStats c)\<rparr>"

text \<open>Writing an array from the front.\<close>

definition write_front :: "uptr list \<Rightarrow> uptr list \<Rightarrow> uptr list" where
  "write_front bs A = bs @ drop (length bs) A"

definition getMaxCached :: "size_class_config \<Rightarrow> uptr \<Rightarrow> u16" where
  "getMaxCached cfg Size = MinU (MaxNumCachedHint cfg) (getMaxCachedHint cfg Size)"

section \<open>The caching allocator\<close>

text \<open>\<open>sz\<close> is the primary's \<^verbatim>\<open>getSizeByClassId\<close>.\<close>

definition new_class :: "size_class_config \<Rightarrow> (uptr \<Rightarrow> uptr) \<Rightarrow> uptr \<Rightarrow> per_class" where
  "new_class cfg sz I = \<lparr>Count = 0, MaxCount = 2 * getMaxCached cfg (sz I),
     ClassSize = (if I \<noteq> BatchClassId then sz I else 0),
     Chunks = replicate (2 * unat (MaxNumCachedHint cfg)) 0\<rparr>"

definition cache_init :: "size_class_config \<Rightarrow> (uptr \<Rightarrow> uptr) \<Rightarrow> local_cache" where
  "cache_init cfg sz =
     \<lparr>PerClassArray = map (\<lambda>I. new_class cfg sz (of_nat I)) [0 ..< unat (NumClasses cfg)],
      CacheStats = LocalStats_init\<rparr>"

definition refill ::
    "'a local_cache_scheme pop_fun \<Rightarrow> uptr \<Rightarrow> u16 \<Rightarrow> 'a local_cache_scheme
      \<Rightarrow> (bool \<times> 'a local_cache_scheme) result" where
  "refill pop ClassId MaxRefill c =
     bindE (pop ClassId MaxRefill c) (\<lambda>(blocks, c).
       Inr (blocks \<noteq> [],
            upd_class ClassId (\<lambda>C. C\<lparr>Chunks := write_front blocks (Chunks C),
              Count := Count C + of_nat (length blocks)\<rparr>) c))"

definition cache_allocate ::
    "'a local_cache_scheme pop_fun \<Rightarrow> (uptr \<Rightarrow> uptr \<Rightarrow> 'a local_cache_scheme \<Rightarrow> uptr) \<Rightarrow> uptr
      \<Rightarrow> 'a local_cache_scheme \<Rightarrow> (uptr option \<times> 'a local_cache_scheme) result" where
  "cache_allocate pop decompactPtr ClassId c =
     bindE (if Count (get_class ClassId c) = 0
            then refill pop ClassId (MaxCount (get_class ClassId c) div 2) c
            else Inr (True, c))
       (\<lambda>(ok, c). if \<not> ok then Inr (None, c) else
          let C = get_class ClassId c;
              CompactP = Chunks C ! unat (Count C - 1);
              c = upd_class ClassId (\<lambda>C. C\<lparr>Count := Count C - 1\<rparr>) c;
              c = upd_stats (stats_sub StatFree (ClassSize C) \<circ> stats_add StatAllocated (ClassSize C)) c
          in Inr (Some (decompactPtr ClassId CompactP c), c))"

definition drain_class ::
    "'a local_cache_scheme push_fun \<Rightarrow> uptr \<Rightarrow> 'a local_cache_scheme \<Rightarrow> 'a local_cache_scheme result" where
  "drain_class push ClassId c =
     (let C = get_class ClassId c;
          N = MinU (MaxCount C div 2) (Count C)
      in bindE (push ClassId (take (unat N) (Chunks C)) c) (\<lambda>(sorted, c).
           Inr (upd_class ClassId (\<lambda>C.
             let Chunks' = write_front sorted (Chunks C); Count' = Count C - N
             in C\<lparr>Count := Count',
                  Chunks := write_front (take (unat Count') (drop (unat N) Chunks')) Chunks'\<rparr>) c)))"

text \<open>Returns \<^verbatim>\<open>NeedToDrainCache\<close>.\<close>

definition cache_deallocate ::
    "size_class_config \<Rightarrow> 'a local_cache_scheme push_fun \<Rightarrow> (uptr \<Rightarrow> uptr \<Rightarrow> 'a local_cache_scheme \<Rightarrow> uptr)
      \<Rightarrow> uptr \<Rightarrow> uptr \<Rightarrow> 'a local_cache_scheme \<Rightarrow> (bool \<times> 'a local_cache_scheme) result" where
  "cache_deallocate cfg push compactPtr ClassId P c =
     bindE (CHECK (ClassId < NumClasses cfg) ''ClassId < NumClasses'') (\<lambda>_.
       let NeedToDrainCache = (Count (get_class ClassId c) = MaxCount (get_class ClassId c))
       in bindE (if NeedToDrainCache then drain_class push ClassId c else Inr c) (\<lambda>c.
            let CSize = ClassSize (get_class ClassId c);
                CompactP = compactPtr ClassId P c;
                c = upd_class ClassId (\<lambda>C. C\<lparr>Chunks := (Chunks C)[unat (Count C) := CompactP],
                      Count := Count C + 1\<rparr>) c;
                c = upd_stats (stats_add StatFree CSize \<circ> stats_sub StatAllocated CSize) c
            in Inr (NeedToDrainCache, c)))"

definition cache_isEmpty :: "'a local_cache_scheme \<Rightarrow> bool" where
  "cache_isEmpty c = list_all (\<lambda>C. Count C = 0) (PerClassArray c)"

text \<open>\<^verbatim>\<open>while (PerClassArray[I].Count > 0) drain(...)\<close>; \<open>None\<close> when it does not end.\<close>

partial_function (option) drain_loop ::
    "'a local_cache_scheme push_fun \<Rightarrow> uptr \<Rightarrow> 'a local_cache_scheme
      \<Rightarrow> 'a local_cache_scheme result option" where
  "drain_loop push I c =
     (if Count (get_class I c) > 0
      then (case drain_class push I c of Inl e \<Rightarrow> Some (Inl e) | Inr c' \<Rightarrow> drain_loop push I c')
      else Some (Inr c))"

fun drain_classes ::
    "'a local_cache_scheme push_fun \<Rightarrow> uptr list \<Rightarrow> 'a local_cache_scheme
      \<Rightarrow> 'a local_cache_scheme result option" where
  "drain_classes push [] c = Some (Inr c)"
| "drain_classes push (I # Is) c =
     (case drain_loop push I c of
        None \<Rightarrow> None
      | Some (Inl e) \<Rightarrow> Some (Inl e)
      | Some (Inr c') \<Rightarrow> drain_classes push Is c')"

definition drain_order :: "size_class_config \<Rightarrow> uptr list" where
  "drain_order cfg =
     filter (\<lambda>I. I \<noteq> BatchClassId) (map of_nat [0 ..< unat (NumClasses cfg)]) @ [BatchClassId]"

definition cache_drain ::
    "size_class_config \<Rightarrow> 'a local_cache_scheme push_fun \<Rightarrow> 'a local_cache_scheme
      \<Rightarrow> 'a local_cache_scheme result option" where
  "cache_drain cfg push c = drain_classes push (drain_order cfg) c"

definition cache_getBatchClassBlock ::
    "'a local_cache_scheme pop_fun \<Rightarrow> (uptr \<Rightarrow> uptr \<Rightarrow> 'a local_cache_scheme \<Rightarrow> uptr) \<Rightarrow> (uptr \<Rightarrow> uptr)
      \<Rightarrow> 'a local_cache_scheme \<Rightarrow> (uptr \<times> 'a local_cache_scheme) result" where
  "cache_getBatchClassBlock pop decompactPtr sz c =
     bindE (cache_allocate pop decompactPtr BatchClassId c) (\<lambda>(B, c).
       case B of None \<Rightarrow> Inl (OutOfMemory (sz BatchClassId)) | Some B \<Rightarrow> Inr (B, c))"

section \<open>The allocator without a cache\<close>

text \<open>Only the counters of its \<open>PerClass\<close> are used (\<open>Chunks\<close> is absent), and the batch class has
  a storage of its own, kept here in the batch class's \<open>Chunks\<close>.\<close>

definition nocache_new_class :: "size_class_config \<Rightarrow> (uptr \<Rightarrow> uptr) \<Rightarrow> uptr \<Rightarrow> per_class" where
  "nocache_new_class cfg sz I =
     (if I \<noteq> BatchClassId
      then \<lparr>Count = 0, MaxCount = 2 * getMaxCached cfg (sz I), ClassSize = sz I, Chunks = []\<rparr>
      else \<lparr>Count = 0, MaxCount = MaxNumCachedHint cfg, ClassSize = 0,
            Chunks = replicate (unat (MaxNumCachedHint cfg)) 0\<rparr>)"

definition nocache_init :: "size_class_config \<Rightarrow> (uptr \<Rightarrow> uptr) \<Rightarrow> local_cache" where
  "nocache_init cfg sz =
     \<lparr>PerClassArray = map (\<lambda>I. nocache_new_class cfg sz (of_nat I)) [0 ..< unat (NumClasses cfg)],
      CacheStats = LocalStats_init\<rparr>"

definition nocache_allocate ::
    "'a local_cache_scheme pop_fun \<Rightarrow> (uptr \<Rightarrow> uptr \<Rightarrow> 'a local_cache_scheme \<Rightarrow> uptr) \<Rightarrow> uptr
      \<Rightarrow> 'a local_cache_scheme \<Rightarrow> (uptr option \<times> 'a local_cache_scheme) result" where
  "nocache_allocate pop decompactPtr ClassId c =
     bindE (pop ClassId 1 c) (\<lambda>(blocks, c).
       case blocks of
         [] \<Rightarrow> Inr (None, c)
       | CompactPtr # _ \<Rightarrow>
           (let C = get_class ClassId c;
                c = upd_stats (stats_sub StatFree (ClassSize C) \<circ> stats_add StatAllocated (ClassSize C)) c
            in Inr (Some (decompactPtr ClassId CompactPtr c), c)))"

definition deallocateBatchClassBlock ::
    "'a local_cache_scheme push_fun \<Rightarrow> (uptr \<Rightarrow> uptr \<Rightarrow> 'a local_cache_scheme \<Rightarrow> uptr)
      \<Rightarrow> uptr \<Rightarrow> 'a local_cache_scheme \<Rightarrow> (bool \<times> 'a local_cache_scheme) result" where
  "deallocateBatchClassBlock push compactPtr P c =
     (let C = get_class BatchClassId c
      in bindE (if Count C \<ge> MaxCount C
                then bindE (push BatchClassId (take (unat (Count C)) (Chunks C)) c) (\<lambda>(sorted, c).
                       Inr (upd_class BatchClassId (\<lambda>C. C\<lparr>Chunks := write_front sorted (Chunks C), Count := 0\<rparr>) c))
                else Inr c)
         (\<lambda>c. Inr (False, upd_class BatchClassId (\<lambda>C.
             C\<lparr>Chunks := (Chunks C)[unat (Count C) := compactPtr BatchClassId P c], Count := Count C + 1\<rparr>) c)))"

definition nocache_deallocate ::
    "size_class_config \<Rightarrow> 'a local_cache_scheme push_fun \<Rightarrow> (uptr \<Rightarrow> uptr \<Rightarrow> 'a local_cache_scheme \<Rightarrow> uptr)
      \<Rightarrow> uptr \<Rightarrow> uptr \<Rightarrow> 'a local_cache_scheme \<Rightarrow> (bool \<times> 'a local_cache_scheme) result" where
  "nocache_deallocate cfg push compactPtr ClassId P c =
     bindE (CHECK (ClassId < NumClasses cfg) ''ClassId < NumClasses'') (\<lambda>_.
       if ClassId = BatchClassId then deallocateBatchClassBlock push compactPtr P c
       else bindE (push ClassId [compactPtr ClassId P c] c) (\<lambda>(_, c).
         let CSize = ClassSize (get_class ClassId c);
             c = upd_stats (stats_add StatFree CSize \<circ> stats_sub StatAllocated CSize) c;
             c = upd_class ClassId (\<lambda>C. C\<lparr>Count := Count C + 1\<rparr>) c;
             SuggestDraining = (Count (get_class ClassId c) \<ge> MaxCount (get_class ClassId c));
             c = (if SuggestDraining then upd_class ClassId (\<lambda>C. C\<lparr>Count := 0\<rparr>) c else c)
         in Inr (SuggestDraining, c)))"

definition nocache_getBatchClassBlock ::
    "'a local_cache_scheme pop_fun \<Rightarrow> (uptr \<Rightarrow> uptr \<Rightarrow> 'a local_cache_scheme \<Rightarrow> uptr) \<Rightarrow> (uptr \<Rightarrow> uptr)
      \<Rightarrow> 'a local_cache_scheme \<Rightarrow> (uptr \<times> 'a local_cache_scheme) result" where
  "nocache_getBatchClassBlock pop decompactPtr sz c =
     bindE (if Count (get_class BatchClassId c) = 0
            then bindE (pop BatchClassId (MaxCount (get_class BatchClassId c)) c) (\<lambda>(blocks, c).
                   if blocks = [] then Inl (OutOfMemory (sz BatchClassId))
                   else Inr (upd_class BatchClassId (\<lambda>C. C\<lparr>Chunks := write_front blocks (Chunks C),
                          Count := of_nat (length blocks)\<rparr>) c))
            else Inr c)
       (\<lambda>c. let C = get_class BatchClassId c;
                CompactP = Chunks C ! unat (Count C - 1);
                c = upd_class BatchClassId (\<lambda>C. C\<lparr>Count := Count C - 1\<rparr>) c;
                c = upd_stats (stats_sub StatFree (ClassSize C) \<circ> stats_add StatAllocated (ClassSize C)) c
            in Inr (decompactPtr BatchClassId CompactP c, c))"

definition nocache_isEmpty :: "'a local_cache_scheme \<Rightarrow> bool" where
  "nocache_isEmpty c = (Count (get_class BatchClassId c) = 0)"

definition nocache_drain ::
    "'a local_cache_scheme push_fun \<Rightarrow> 'a local_cache_scheme \<Rightarrow> 'a local_cache_scheme result" where
  "nocache_drain push c =
     (let C = get_class BatchClassId c
      in if Count C > 0
         then bindE (push BatchClassId (take (unat (Count C)) (Chunks C)) c) (\<lambda>(sorted, c).
                Inr (upd_class BatchClassId (\<lambda>C. C\<lparr>Chunks := write_front sorted (Chunks C), Count := 0\<rparr>) c))
         else Inr c)"

section \<open>What the caches rely on\<close>

text \<open>
  \<open>served\<close> are the classes the two operations are considered for, \<open>inv\<close> the state's invariant,
  \<open>free\<close> the blocks of a class that the primary holds and \<open>carved\<close> all blocks of the class that
  exist so far; \<open>maxc\<close> is the capacity of a class's array. Popping may carve new blocks. Neither
  operation changes the calling class's array, and neither depends on it or on the statistics.
\<close>

definition cached :: "uptr \<Rightarrow> 'a local_cache_scheme \<Rightarrow> uptr multiset" where
  "cached I c = mset (take (unat (Count (get_class I c))) (Chunks (get_class I c)))"

definition class_ok :: "per_class \<Rightarrow> bool" where
  "class_ok C \<longleftrightarrow> Count C \<le> MaxCount C \<and> 2 \<le> MaxCount C \<and> unat (MaxCount C) \<le> length (Chunks C)"

locale block_source =
  fixes pop :: "'a local_cache_scheme pop_fun"
    and push :: "'a local_cache_scheme push_fun"
    and compact :: "uptr \<Rightarrow> uptr \<Rightarrow> 'a local_cache_scheme \<Rightarrow> uptr"
    and served :: "uptr \<Rightarrow> bool"
    and maxc :: "uptr \<Rightarrow> u16"
    and inv :: "'a local_cache_scheme \<Rightarrow> bool"
    and free :: "uptr \<Rightarrow> 'a local_cache_scheme \<Rightarrow> uptr multiset"
    and carved :: "uptr \<Rightarrow> 'a local_cache_scheme \<Rightarrow> uptr multiset"
  assumes pop_inv: "inv c \<Longrightarrow> served I \<Longrightarrow> pop I n c = Inr (bs, c') \<Longrightarrow> inv c'"
    and pop_blocks: "inv c \<Longrightarrow> served I \<Longrightarrow> pop I n c = Inr (bs, c') \<Longrightarrow>
      \<exists>new. carved I c' = carved I c + new \<and> free I c + new = free I c' + mset bs"
    and pop_length: "inv c \<Longrightarrow> served I \<Longrightarrow> pop I (maxc I div 2) c = Inr (bs, c') \<Longrightarrow>
      length bs \<le> unat (maxc I div 2)"
    and pop_frame: "inv c \<Longrightarrow> served I \<Longrightarrow> pop I n c = Inr (bs, c') \<Longrightarrow> served J \<Longrightarrow>
      get_class J c' = get_class J c \<and> (J \<noteq> I \<longrightarrow> free J c' = free J c \<and> carved J c' = carved J c)"
    and pop_classes: "inv c \<Longrightarrow> served I \<Longrightarrow> pop I n c = Inr (bs, c') \<Longrightarrow>
      length (PerClassArray c') = length (PerClassArray c)"
    and push_inv: "inv c \<Longrightarrow> served I \<Longrightarrow> xs \<noteq> [] \<Longrightarrow> free I c + mset xs \<subseteq># carved I c \<Longrightarrow>
      push I xs c = Inr (ys, c') \<Longrightarrow> inv c'"
    and push_blocks: "inv c \<Longrightarrow> served I \<Longrightarrow> xs \<noteq> [] \<Longrightarrow> free I c + mset xs \<subseteq># carved I c \<Longrightarrow>
      push I xs c = Inr (ys, c') \<Longrightarrow>
      mset ys = mset xs \<and> free I c' = free I c + mset xs \<and> carved I c' = carved I c"
    and push_frame: "inv c \<Longrightarrow> served I \<Longrightarrow> xs \<noteq> [] \<Longrightarrow> free I c + mset xs \<subseteq># carved I c \<Longrightarrow>
      push I xs c = Inr (ys, c') \<Longrightarrow> served J \<Longrightarrow>
      get_class J c' = get_class J c \<and> (J \<noteq> I \<longrightarrow> free J c' = free J c \<and> carved J c' = carved J c)"
    and push_classes: "inv c \<Longrightarrow> served I \<Longrightarrow> xs \<noteq> [] \<Longrightarrow> free I c + mset xs \<subseteq># carved I c \<Longrightarrow>
      push I xs c = Inr (ys, c') \<Longrightarrow> length (PerClassArray c') = length (PerClassArray c)"
    and push_compact: "inv c \<Longrightarrow> served I \<Longrightarrow> xs \<noteq> [] \<Longrightarrow> free I c + mset xs \<subseteq># carved I c \<Longrightarrow>
      push I xs c = Inr (ys, c') \<Longrightarrow> compact J P c' = compact J P c"
    and upd_inv: "served I \<Longrightarrow> inv (upd_class I f c) = inv c"
    and upd_compact: "compact J P (upd_class I f c) = compact J P c"
    and upd_blocks: "served I \<Longrightarrow> free J (upd_class I f c) = free J c"
      "served I \<Longrightarrow> carved J (upd_class I f c) = carved J c"
    and stats_inv: "inv (upd_stats g c) = inv c"
    and stats_blocks: "free J (upd_stats g c) = free J c" "carved J (upd_stats g c) = carved J c"

lemma get_upd_class: "unat I < length (PerClassArray c) \<Longrightarrow>
    get_class J (upd_class I f c) = (if J = I then f (get_class I c) else get_class J c)"
  by (auto simp: get_class_def upd_class_def nth_list_update word_unat_eq_iff)

lemma length_upd_class [simp]: "length (PerClassArray (upd_class I f c)) = length (PerClassArray c)"
  by (simp add: upd_class_def)

lemma upd_stats_simps [simp]: "PerClassArray (upd_stats g c) = PerClassArray c"
  "get_class I (upd_stats g c) = get_class I c"
  by (simp_all add: upd_stats_def get_class_def)

lemma take_write_front: "length bs \<le> n \<Longrightarrow> n \<le> length A \<Longrightarrow>
    take n (write_front bs A) = bs @ take (n - length bs) (drop (length bs) A)"
  by (simp add: write_front_def)

lemma length_write_front: "length bs \<le> length A \<Longrightarrow> length (write_front bs A) = length A"
  by (simp add: write_front_def)

context block_source
begin

definition cache_inv :: "'a local_cache_scheme \<Rightarrow> bool" where
  "cache_inv c \<longleftrightarrow> inv c \<and> (\<forall>I. served I \<longrightarrow> unat I < length (PerClassArray c)
      \<and> class_ok (get_class I c) \<and> MaxCount (get_class I c) = maxc I)"

text \<open>Every block that exists is free in the primary, cached, or live; \<open>L\<close> are the live ones.\<close>

definition owned :: "(uptr \<Rightarrow> uptr multiset) \<Rightarrow> 'a local_cache_scheme \<Rightarrow> bool" where
  "owned L c \<longleftrightarrow> (\<forall>I. served I \<longrightarrow> carved I c = free I c + cached I c + L I)"

lemma upd_owned:
  assumes "cache_inv c" "served I" "owned L c"
    and "cached I c + L I = mset (take (unat (Count (f (get_class I c)))) (Chunks (f (get_class I c)))) + M"
  shows "owned (L(I := M)) (upd_class I f c)"
proof -
  have l: "unat I < length (PerClassArray c)" using assms(1,2) by (simp add: cache_inv_def)
  have "cached I (upd_class I f c) + M = cached I c + L I"
    using assms(4) by (simp add: cached_def get_upd_class [OF l])
  moreover have "J \<noteq> I \<Longrightarrow> cached J (upd_class I f c) = cached J c" for J
    by (simp add: cached_def get_upd_class [OF l])
  ultimately show ?thesis using assms(3)
    by (auto simp: owned_def upd_blocks [OF assms(2)] add.assoc)
qed

lemma upd_cache_inv:
  assumes "cache_inv c" "served I" "class_ok (f (get_class I c))" "MaxCount (f (get_class I c)) = maxc I"
  shows "cache_inv (upd_class I f c)"
  using assms unfolding cache_inv_def by (auto simp: upd_inv get_upd_class)

lemma stats_owned [simp]: "owned L (upd_stats g c) = owned L c" "cache_inv (upd_stats g c) = cache_inv c"
  by (simp_all add: owned_def cache_inv_def stats_inv stats_blocks cached_def)

lemma half: "2 \<le> m \<Longrightarrow> 0 < unat (m div 2) \<and> unat (m div 2) \<le> unat m \<and> 2 * unat (m div 2) \<le> unat m" for m :: u16
  by (simp add: unat_div word_le_nat_alt)

end

context block_source
begin

lemma served_length: "cache_inv c \<Longrightarrow> served I \<Longrightarrow> unat I < length (PerClassArray c)"
  and served_class_ok: "cache_inv c \<Longrightarrow> served I \<Longrightarrow> class_ok (get_class I c)"
  and served_maxc: "cache_inv c \<Longrightarrow> served I \<Longrightarrow> MaxCount (get_class I c) = maxc I"
  and cache_inv_inv: "cache_inv c \<Longrightarrow> inv c"
  by (simp_all add: cache_inv_def)

text \<open>An operation that changes nothing of the served classes' arrays keeps the cache's invariant.\<close>

lemma frame_cache_inv:
  assumes "cache_inv c" "inv c'" "length (PerClassArray c') = length (PerClassArray c)"
    "\<And>J. served J \<Longrightarrow> get_class J c' = get_class J c"
  shows "cache_inv c'"
  using assms by (simp add: cache_inv_def)

lemma pop_owned:
  assumes "cache_inv c" "served I" "owned L c" "pop I n c = Inr (bs, c')"
  shows "owned (L(I := L I + mset bs)) c'"
proof -
  note p = cache_inv_inv [OF assms(1)] assms(2) assms(4)
  obtain new where new: "carved I c' = carved I c + new" "free I c + new = free I c' + mset bs"
    using pop_blocks [OF p] by blast
  have "cached J c' = cached J c" if "served J" for J
    using pop_frame [OF p that] by (simp add: cached_def)
  moreover have "carved I c' = free I c' + cached I c + (L I + mset bs)"
    using assms(2,3) new by (simp add: owned_def algebra_simps)
  ultimately show ?thesis using assms(2,3) pop_frame [OF p] by (auto simp: owned_def)
qed

lemma pop_cache_inv:
  assumes "cache_inv c" "served I" "pop I n c = Inr (bs, c')"
  shows "cache_inv c'"
  using pop_frame [OF cache_inv_inv [OF assms(1)] assms(2,3)] pop_inv pop_classes assms cache_inv_inv
  by (intro frame_cache_inv [OF assms(1)]) blast+

lemma push_cached:
  assumes "cache_inv c" "served I" "owned L c" "xs \<noteq> []" "mset xs \<subseteq># cached I c + L I"
    "push I xs c = Inr (ys, c')"
  shows "cache_inv c'" and "mset ys = mset xs"
    and "served J \<Longrightarrow> get_class J c' = get_class J c"
    and "carved I c' = carved I c" and "free I c' = free I c + mset xs"
    and "served J \<Longrightarrow> J \<noteq> I \<Longrightarrow> carved J c' = carved J c \<and> free J c' = free J c"
    and "compact K P c' = compact K P c"
proof -
  have le: "free I c + mset xs \<subseteq># carved I c"
    using assms(2,3,5) by (simp add: owned_def add.assoc)
  note p = cache_inv_inv [OF assms(1)] assms(2) assms(4) le assms(6)
  note b = push_blocks [OF p]
  show "cache_inv c'"
    using push_frame [OF p] push_inv [OF p] push_classes [OF p]
    by (intro frame_cache_inv [OF assms(1)]) blast+
  show "mset ys = mset xs" "carved I c' = carved I c" "free I c' = free I c + mset xs"
    using b by blast+
  show "compact K P c' = compact K P c" by (rule push_compact [OF p])
  show "served J \<Longrightarrow> get_class J c' = get_class J c"
    "served J \<Longrightarrow> J \<noteq> I \<Longrightarrow> carved J c' = carved J c \<and> free J c' = free J c" using push_frame [OF p] by blast+
qed

lemma refill_spec:
  assumes "cache_inv c" "served I" "owned L c" "Count (get_class I c) = 0"
    and "refill pop I (MaxCount (get_class I c) div 2) c = Inr (ok, c')"
  shows "cache_inv c' \<and> owned L c' \<and> (ok \<longrightarrow> 0 < Count (get_class I c'))"
proof -
  let ?n = "MaxCount (get_class I c) div 2"
  obtain bs c1 where p: "pop I ?n c = Inr (bs, c1)" and ok: "ok = (bs \<noteq> [])"
    and c': "c' = upd_class I (\<lambda>C. C\<lparr>Chunks := write_front bs (Chunks C), Count := Count C + of_nat (length bs)\<rparr>) c1"
    using assms(5) unfolding refill_def by (cases "pop I ?n c") auto
  let ?f = "\<lambda>C :: per_class. C\<lparr>Chunks := write_front bs (Chunks C), Count := Count C + of_nat (length bs)\<rparr>"
  have c1: "cache_inv c1" by (rule pop_cache_inv [OF assms(1,2) p])
  have o1: "owned (L(I := L I + mset bs)) c1" by (rule pop_owned [OF assms(1,2,3) p])
  have g: "get_class I c1 = get_class I c" using pop_frame [OF cache_inv_inv [OF assms(1)] assms(2) p assms(2)] by blast
  have k: "class_ok (get_class I c)" using served_class_ok [OF assms(1,2)] .
  have mc: "MaxCount (get_class I c) = maxc I" by (rule served_maxc [OF assms(1,2)])
  have len: "length bs \<le> unat ?n"
    using pop_length [OF cache_inv_inv [OF assms(1)] assms(2)] p by (simp add: mc)
  have h: "unat ?n \<le> unat (MaxCount (get_class I c))" using half k by (simp add: class_ok_def)
  have un: "unat (of_nat (length bs) :: u16) = length bs"
  proof (intro unat_of_nat_small)
    show "length bs < 2 ^ LENGTH(16)" using order.strict_trans1 [OF len unat_less_16] by simp
  qed
  have "length (write_front bs (Chunks (get_class I c))) = length (Chunks (get_class I c))"
    using k len h by (intro length_write_front) (simp add: class_ok_def)
  then have k': "class_ok (?f (get_class I c1))"
    using k len h un by (simp add: g class_ok_def assms(4) word_le_nat_alt)
  have "cached I c1 + (L(I := L I + mset bs)) I
    = mset (take (unat (Count (?f (get_class I c1)))) (Chunks (?f (get_class I c1)))) + L I"
    by (simp add: cached_def g assms(4) un write_front_def)
  then have "owned ((L(I := L I + mset bs))(I := L I)) (upd_class I ?f c1)"
    by (rule upd_owned [OF c1 assms(2) o1])
  then have "owned L c'" by (simp add: c')
  moreover have "cache_inv c'" unfolding c' using k' by (intro upd_cache_inv [OF c1 assms(2)]) (simp_all add: g mc)
  moreover have "ok \<longrightarrow> 0 < Count (get_class I c')"
    using un served_length [OF c1 assms(2)]
    by (auto simp: c' get_upd_class g assms(4) ok word_less_nat_alt)
  ultimately show ?thesis by blast
qed

lemma take_last: "0 < n \<Longrightarrow> n \<le> length xs \<Longrightarrow> mset (take n xs) = add_mset (xs ! (n - 1)) (mset (take (n - 1) xs))"
  using take_Suc_conv_app_nth [of "n - 1" xs] by simp

theorem allocate_spec:
  assumes "cache_inv c" "served I" "owned L c" "cache_allocate pop dec I c = Inr (r, c')"
  shows "cache_inv c' \<and> (case r of None \<Rightarrow> owned L c'
    | Some P \<Rightarrow> \<exists>b. P = dec I b c' \<and> owned (L(I := add_mset b (L I))) c')"
proof -
  obtain ok c1 where r: "(if Count (get_class I c) = 0 then refill pop I (MaxCount (get_class I c) div 2) c
      else Inr (True, c)) = Inr (ok, c1)"
    using assms(4) unfolding cache_allocate_def by (auto simp: bindE_eq_Inr)
  have c1: "cache_inv c1" "owned L c1" "ok \<Longrightarrow> 0 < Count (get_class I c1)"
    using r refill_spec [OF assms(1-3)] assms(1,3) by (auto split: if_splits simp: word_neq_0_conv)
  show ?thesis
  proof (cases ok)
    case False
    then show ?thesis using assms(4) r c1 by (simp add: cache_allocate_def)
  next
    case True
    let ?C = "get_class I c1"
    let ?f = "\<lambda>C :: per_class. C\<lparr>Count := Count C - 1\<rparr>"
    define b where "b = Chunks ?C ! unat (Count ?C - 1)"
    define c2 where "c2 = upd_class I ?f c1"
    define c3 where "c3 = upd_stats (stats_sub StatFree (ClassSize ?C) \<circ> stats_add StatAllocated (ClassSize ?C)) c2"
    have res: "r = Some (dec I b c3)" "c' = c3"
      using assms(4) r True by (auto simp: cache_allocate_def b_def c2_def c3_def Let_def)
    have pos: "0 < unat (Count ?C)" using c1(3) [OF True] by (simp add: word_less_nat_alt)
    then have un: "unat (Count ?C - 1) = unat (Count ?C) - 1" by (intro unat_minus_one) auto
    have k: "class_ok ?C" by (rule served_class_ok [OF c1(1) assms(2)])
    have "cached I c1 + L I = mset (take (unat (Count (?f ?C))) (Chunks (?f ?C))) + add_mset b (L I)"
    proof -
      have "unat (Count ?C) \<le> length (Chunks ?C)" using k unfolding class_ok_def word_le_nat_alt by linarith
      then show ?thesis using take_last [OF pos, of "Chunks ?C"] by (simp add: cached_def un b_def)
    qed
    then have "owned (L(I := add_mset b (L I))) c2"
      unfolding c2_def by (rule upd_owned [OF c1(1) assms(2) c1(2)])
    moreover have "cache_inv c2" unfolding c2_def
      using k pos served_maxc [OF c1(1) assms(2)]
      by (intro upd_cache_inv [OF c1(1) assms(2)]) (auto simp: class_ok_def word_le_nat_alt un)
    ultimately show ?thesis using res by (auto simp: c3_def)
  qed
qed

text \<open>Draining moves the first half of the array to the primary.\<close>

lemma drain_class_spec:
  assumes "cache_inv c" "served I" "owned L c" "0 < Count (get_class I c)"
    and "drain_class push I c = Inr c'"
  shows "cache_inv c'" and "owned L c'" and "Count (get_class I c') < Count (get_class I c)"
    and "Count (get_class I c) = MaxCount (get_class I c) \<Longrightarrow> Count (get_class I c') < MaxCount (get_class I c')"
    and "served J \<Longrightarrow> J \<noteq> I \<Longrightarrow> get_class J c' = get_class J c"
    and "compact J P c' = compact J P c"
proof -
  let ?C = "get_class I c"
  define N where "N = min (MaxCount ?C div 2) (Count ?C)"
  define xs where "xs = take (unat N) (Chunks ?C)"
  obtain ys c1 where p: "push I xs c = Inr (ys, c1)"
    using assms(5) by (auto simp: drain_class_def Let_def bindE_eq_Inr xs_def N_def)
  define f where "f = (\<lambda>C :: per_class. let Chunks' = write_front ys (Chunks C); Count' = Count C - N
      in C\<lparr>Count := Count', Chunks := write_front (take (unat Count') (drop (unat N) Chunks')) Chunks'\<rparr>)"
  have c': "c' = upd_class I f c1"
    using assms(5) p by (simp add: drain_class_def Let_def xs_def N_def f_def)
  have k: "class_ok ?C" by (rule served_class_ok [OF assms(1,2)])
  have k': "unat (Count ?C) \<le> unat (MaxCount ?C)" "unat (MaxCount ?C) \<le> length (Chunks ?C)" "2 \<le> MaxCount ?C"
    using k by (auto simp: class_ok_def word_le_nat_alt)
  have N: "0 < unat N" "unat N \<le> unat (Count ?C)"
    using half [OF k'(3)] assms(4) by (auto simp: N_def min_def word_le_nat_alt word_less_nat_alt)
  have lxs: "length xs = unat N" using N k' by (simp add: xs_def)
  then have ne: "xs \<noteq> []" using N by auto
  have cache: "cached I c = mset xs + mset (drop (unat N) (take (unat (Count ?C)) (Chunks ?C)))"
  proof -
    have "mset (take (unat (Count ?C)) (Chunks ?C)) =
      mset (take (unat N) (take (unat (Count ?C)) (Chunks ?C)) @ drop (unat N) (take (unat (Count ?C)) (Chunks ?C)))"
      by (simp only: append_take_drop_id)
    then show ?thesis using N by (simp add: cached_def xs_def min_def)
  qed
  then have sub: "mset xs \<subseteq># cached I c + L I" by (simp add: add.assoc)
  note q = push_cached [OF assms(1-3) ne sub p]
  have g: "get_class I c1 = ?C" using q(3) assms(2) by blast
  have lys: "length ys = unat N" using arg_cong [OF q(2), where f = size] lxs by simp
  have lc1: "unat I < length (PerClassArray c1)" by (rule served_length [OF q(1) assms(2)])
  have d: "unat (Count ?C - N) = unat (Count ?C) - unat N" using N by (simp add: unat_sub word_le_nat_alt)
  have drop: "drop (unat N) (write_front ys (Chunks ?C)) = drop (unat N) (Chunks ?C)"
    by (simp add: write_front_def lys)
  have fC: "Count (f ?C) = Count ?C - N" "MaxCount (f ?C) = MaxCount ?C"
    "Chunks (f ?C) = write_front (take (unat (Count ?C - N)) (drop (unat N) (Chunks ?C))) (write_front ys (Chunks ?C))"
    by (simp_all add: f_def Let_def drop)
  have lf: "length (Chunks (f ?C)) = length (Chunks ?C)"
    using N k' lys by (simp add: fC length_write_front d write_front_def)
  have tk: "take (unat (Count (f ?C))) (Chunks (f ?C)) = drop (unat N) (take (unat (Count ?C)) (Chunks ?C))"
    using N k' by (simp add: fC d write_front_def drop_take)
  have cI: "cached I c' = mset (drop (unat N) (take (unat (Count ?C)) (Chunks ?C)))"
    using tk by (simp add: cached_def c' get_upd_class [OF lc1] g)
  have cJ: "cached J c' = cached J c" if "served J" "J \<noteq> I" for J
    using q(3) [OF that(1)] that by (simp add: cached_def c' get_upd_class [OF lc1])
  have "carved J c' = free J c' + cached J c' + L J" if "served J" for J
  proof (cases "J = I")
    case True
    have "carved I c = free I c + cached I c + L I" using assms(2,3) by (simp add: owned_def)
    then show ?thesis using True cI cache
      by (simp add: c' upd_blocks [OF assms(2)] q(4,5) add.assoc)
  next
    case False
    then show ?thesis using assms(3) that cJ [OF that False] q(6) [OF that False]
      by (simp add: owned_def c' upd_blocks [OF assms(2)])
  qed
  then show "owned L c'" by (simp add: owned_def)
  have le: "Count ?C - N \<le> MaxCount ?C" using k'(1) by (simp add: word_le_nat_alt d)
  have "class_ok (f (get_class I c1))" using le k' lf by (simp add: class_ok_def g fC)
  then show "cache_inv c'" unfolding c'
    using served_maxc [OF assms(1,2)] by (intro upd_cache_inv [OF q(1) assms(2)]) (simp_all add: g fC)
  show lt: "Count (get_class I c') < Count ?C"
    using N by (simp add: c' get_upd_class [OF lc1] g fC word_less_nat_alt d)
  then show "Count ?C = MaxCount ?C \<Longrightarrow> Count (get_class I c') < MaxCount (get_class I c')"
    by (simp add: c' get_upd_class [OF lc1] g fC)
  show "served J \<Longrightarrow> J \<noteq> I \<Longrightarrow> get_class J c' = get_class J c"
    using q(3) by (simp add: c' get_upd_class [OF lc1])
  show "compact J P c' = compact J P c"
    using q(7) by (simp add: c' upd_compact)
qed

theorem deallocate_spec:
  assumes "cache_inv c" "served I" "owned L c" "compact I P c \<in># L I"
    and "cache_deallocate cfg push compact I P c = Inr (r, c')"
  shows "cache_inv c' \<and> owned (L(I := L I - {#compact I P c#})) c'"
proof -
  let ?full = "Count (get_class I c) = MaxCount (get_class I c)"
  obtain c1 where d: "(if ?full then drain_class push I c else Inr c) = Inr c1"
    using assms(5) by (auto simp: cache_deallocate_def Let_def bindE_eq_Inr)
  have k: "class_ok (get_class I c)" by (rule served_class_ok [OF assms(1,2)])
  have c1: "cache_inv c1 \<and> owned L c1 \<and> Count (get_class I c1) < MaxCount (get_class I c1) \<and> compact I P c1 = compact I P c"
  proof (cases ?full)
    case True
    then have "0 < Count (get_class I c)" using k by (auto simp: class_ok_def word_less_nat_alt word_le_nat_alt)
    from drain_class_spec [OF assms(1-3) this] show ?thesis using d True by simp
  next
    case False
    then show ?thesis using d assms(1,3) k by (auto simp: class_ok_def)
  qed
  let ?C = "get_class I c1" and ?b = "compact I P c"
  let ?f = "\<lambda>C :: per_class. C\<lparr>Chunks := (Chunks C)[unat (Count C) := ?b], Count := Count C + 1\<rparr>"
  have c': "c' = upd_stats (stats_add StatFree (ClassSize ?C) \<circ> stats_sub StatAllocated (ClassSize ?C)) (upd_class I ?f c1)"
    using assms(5) d c1 by (auto simp: cache_deallocate_def Let_def bindE_eq_Inr)
  have k1: "class_ok ?C" using served_class_ok assms(2) c1 by blast
  have lt: "unat (Count ?C) < unat (MaxCount ?C)" using c1 by (simp add: word_less_nat_alt)
  then have un: "unat (Count ?C + 1) = unat (Count ?C) + 1"
    using order.strict_trans1 [OF Suc_leI [OF lt] unat_less_16] by (subst unat_add_small) simp_all
  have "unat (MaxCount ?C) \<le> length (Chunks ?C)" using k1 by (simp add: class_ok_def)
  then have l: "unat (Count ?C) < length (Chunks ?C)" using lt by linarith
  have "take (Suc (unat (Count ?C))) ((Chunks ?C)[unat (Count ?C) := ?b]) = take (unat (Count ?C)) (Chunks ?C) @ [?b]"
    using l by (simp add: take_Suc_conv_app_nth)
  moreover have "L I = add_mset ?b (L I - {#?b#})" using assms(4) by simp
  ultimately have "cached I c1 + L I = mset (take (unat (Count (?f ?C))) (Chunks (?f ?C))) + (L I - {#?b#})"
    by (simp add: cached_def un)
  then have "owned (L(I := L I - {#?b#})) (upd_class I ?f c1)"
    using c1 assms(2) by (intro upd_owned) blast+
  moreover have "class_ok (?f ?C)" using k1 lt by (simp add: class_ok_def un word_le_nat_alt)
  then have "cache_inv (upd_class I ?f c1)" using c1 assms(2) served_maxc
    by (intro upd_cache_inv) simp_all
  ultimately show ?thesis by (simp add: c')
qed

text \<open>The loop that drains a class ends.\<close>

lemma drain_loop_spec:
  assumes "cache_inv c" "served I" "owned L c"
  shows "\<exists>r. drain_loop push I c = Some r \<and> (\<forall>c'. r = Inr c' \<longrightarrow>
    cache_inv c' \<and> owned L c' \<and> Count (get_class I c') = 0
    \<and> (\<forall>J. served J \<longrightarrow> J \<noteq> I \<longrightarrow> get_class J c' = get_class J c))"
  using assms
proof (induction "unat (Count (get_class I c))" arbitrary: c rule: less_induct)
  case less
  show ?case
  proof (cases "Count (get_class I c) > 0")
    case False
    then show ?thesis using less.prems by (subst drain_loop.simps) (auto simp: word_gt_0)
  next
    case True
    show ?thesis
    proof (cases "drain_class push I c")
      case (Inl e)
      then show ?thesis using True by (subst drain_loop.simps) simp
    next
      case (Inr c1)
      note d = drain_class_spec [OF less.prems True Inr]
      have "unat (Count (get_class I c1)) < unat (Count (get_class I c))"
        using d(3) by (simp add: word_less_nat_alt)
      from less.hyps [OF this d(1) less.prems(2) d(2)] show ?thesis
        using True Inr d(5) by (subst drain_loop.simps) auto
    qed
  qed
qed

lemma drain_classes_spec:
  assumes "cache_inv c" "owned L c" "\<forall>I \<in> set Is. served I"
  shows "\<exists>r. drain_classes push Is c = Some r \<and> (\<forall>c'. r = Inr c' \<longrightarrow>
    cache_inv c' \<and> owned L c' \<and> (\<forall>I \<in> set Is. Count (get_class I c') = 0)
    \<and> (\<forall>J. served J \<longrightarrow> J \<notin> set Is \<longrightarrow> get_class J c' = get_class J c))"
  using assms
proof (induction Is arbitrary: c)
  case (Cons I Is)
  have s: "served I" "\<forall>J \<in> set Is. served J" using Cons.prems(3) by simp_all
  obtain r where r: "drain_loop push I c = Some r"
    "\<And>c'. r = Inr c' \<Longrightarrow> cache_inv c' \<and> owned L c' \<and> Count (get_class I c') = 0
      \<and> (\<forall>J. served J \<longrightarrow> J \<noteq> I \<longrightarrow> get_class J c' = get_class J c)"
    using drain_loop_spec [OF Cons.prems(1) s(1) Cons.prems(2)] by blast
  show ?case
  proof (cases r)
    case (Inl e)
    then show ?thesis using r by simp
  next
    case (Inr c1)
    then have c1: "cache_inv c1" "owned L c1" "Count (get_class I c1) = 0"
      "\<forall>J. served J \<longrightarrow> J \<noteq> I \<longrightarrow> get_class J c1 = get_class J c" using r(2) by blast+
    obtain r' where r': "drain_classes push Is c1 = Some r'"
      "\<And>c'. r' = Inr c' \<Longrightarrow> cache_inv c' \<and> owned L c' \<and> (\<forall>I \<in> set Is. Count (get_class I c') = 0)
        \<and> (\<forall>J. served J \<longrightarrow> J \<notin> set Is \<longrightarrow> get_class J c' = get_class J c1)"
      using Cons.IH [OF c1(1,2) s(2)] by blast
    have "drain_classes push (I # Is) c = Some r'" using r(1) Inr r'(1) by simp
    moreover have "Count (get_class I c') = 0" if "r' = Inr c'" for c'
      using r'(2) [OF that] c1(3) s(1) by (cases "I \<in> set Is") auto
    ultimately show ?thesis using r'(2) c1(4) by (auto intro!: exI [of _ r'])
  qed
qed simp

end

end
