(* ===== verification/Primary64.thy ===== *)
theory Primary64
  imports LocalCache Release Options
begin

text \<open>
  \<^verbatim>\<open>primary64.h\<close> and the batches of \<^verbatim>\<open>allocator_common.h\<close>: the primary allocator. Every size class
  has a region; the free blocks of a region are kept in batches, the batches of one memory group in
  a batch group, the groups in a list sorted by their base. Batches and groups themselves live in
  blocks of the batch class, which the operations take from and return to the local cache of the
  calling thread, so the state is the cache extended by the regions (\<open>heap\<close>).

  The linked lists are HOL lists here (\<open>IntrusiveList\<close> relates the two), the number of blocks in a
  batch is the length of its list. The operations on the batch class never call the cache, those
  on other classes call it for the batch class only; this gives the order of the definitions.
  Locks are not modelled: an operation is one critical section, and \<^verbatim>\<open>popBlocks\<close> is the version
  without a condition variable. What the platform decides is the parameter \<open>os\<close>.
\<close>

unbundle bit_operations_syntax

section \<open>Batches\<close>

record batch =
  BatchAddr :: uptr
  Blocks :: "uptr list"

definition getCount :: "batch \<Rightarrow> u16" where
  "getCount B = of_nat (length (Blocks B))"

definition setFromArray :: "uptr list \<Rightarrow> batch \<Rightarrow> batch" where
  "setFromArray Array B = B\<lparr>Blocks := Array\<rparr>"

definition appendFromArray :: "uptr list \<Rightarrow> batch \<Rightarrow> batch" where
  "appendFromArray Array B = B\<lparr>Blocks := Blocks B @ Array\<rparr>"

text \<open>Moves the last \<open>N\<close> blocks of the second batch to the first.\<close>

definition appendFromBatch :: "batch \<Rightarrow> nat \<Rightarrow> batch \<Rightarrow> batch \<times> batch" where
  "appendFromBatch B N This =
     (This\<lparr>Blocks := Blocks This @ drop (length (Blocks B) - N) (Blocks B)\<rparr>,
      B\<lparr>Blocks := take (length (Blocks B) - N) (Blocks B)\<rparr>)"

definition batch_clear :: "batch \<Rightarrow> batch" where
  "batch_clear B = B\<lparr>Blocks := []\<rparr>"

definition batch_add :: "uptr \<Rightarrow> batch \<Rightarrow> batch" where
  "batch_add P B = B\<lparr>Blocks := Blocks B @ [P]\<rparr>"

definition moveNToArray :: "nat \<Rightarrow> batch \<Rightarrow> uptr list \<times> batch" where
  "moveNToArray N B =
     (drop (length (Blocks B) - N) (Blocks B), B\<lparr>Blocks := take (length (Blocks B) - N) (Blocks B)\<rparr>)"

record batch_group =
  GroupAddr :: uptr
  CompactPtrGroupBase :: uptr
  BytesInBGAtLastCheckpoint :: uptr
  Batches :: "batch list"
  MaxCachedPerBatch :: u16

section \<open>Regions\<close>

record region =
  RegionBeg :: uptr
  RandState :: u32
  BlockList :: "batch_group list"
  PoppedBlocks :: uptr
  PushedBlocks :: uptr
  MemMapBase :: "uptr option"  \<comment> \<open>the reserved mapping; \<open>None\<close> before it is allocated\<close>
  MappedUser :: uptr
  AllocatedUser :: uptr
  BytesInFreeListAtLastCheckpoint :: uptr
  NumReleasesAttempted :: uptr
  LastReleasedBytes :: uptr
  TryReleaseThreshold :: uptr
  PendingPushedBytesDelta :: uptr
  LastReleaseAtNs :: u64
  Exhausted :: bool

record primary_config =
  PSizeMap :: size_class_config
  CompactPtrScale :: nat
  RegionSizeLog :: nat
  GroupSizeLog :: nat
  MapSizeIncrement :: uptr
  MaxNumBatches :: u32
  MinReleaseToOsIntervalMs :: s32
  MaxReleaseToOsIntervalMs :: s32
  DefaultReleaseToOsIntervalMs :: s32
  EnableContiguousRegions :: bool
  EnableRandomOffset :: bool
  PPageSizeLog :: nat

record heap = local_cache +
  RegionInfoArray :: "region list"
  SmallerBlockReleasePageDelta :: uptr
  ReleaseToOsIntervalMs :: s32
  POptions :: u32

text \<open>What the platform decides: the base of a new reservation of a size, whether a part of a
  reservation can be made accessible, whether a mapping for a page map succeeds, and the time.\<close>

record os =
  os_reserve :: "uptr \<Rightarrow> uptr option"
  os_remap :: "uptr \<Rightarrow> uptr \<Rightarrow> bool"
  os_map_ok :: "uptr \<Rightarrow> bool"
  os_now :: u64

definition PageSizeOf :: "primary_config \<Rightarrow> uptr" where
  "PageSizeOf cfg = push_bit (PPageSizeLog cfg) 1"

definition MaxNumBlocksInBatch :: "primary_config \<Rightarrow> u16" where
  "MaxNumBlocksInBatch cfg = MaxNumCachedHint (PSizeMap cfg)"

text \<open>\<^verbatim>\<open>sizeof(BatchT)\<close> is 16: the link and the count, padded.\<close>

definition getSizeOfBatchClass :: "primary_config \<Rightarrow> uptr" where
  "getSizeOfBatchClass cfg = roundUp (16 + 8 * ucast (MaxNumBlocksInBatch cfg)) (push_bit (CompactPtrScale cfg) 1)"

definition p_getSizeByClassId :: "primary_config \<Rightarrow> uptr \<Rightarrow> uptr" where
  "p_getSizeByClassId cfg ClassId =
     (if ClassId = BatchClassId then getSizeOfBatchClass cfg else getSizeByClassId (PSizeMap cfg) ClassId)"

definition canAllocate :: "primary_config \<Rightarrow> uptr \<Rightarrow> bool" where
  "canAllocate cfg Size = (Size \<le> MaxSize (PSizeMap cfg))"

definition getRegionInfo :: "uptr \<Rightarrow> heap \<Rightarrow> region" where
  "getRegionInfo ClassId h = RegionInfoArray h ! unat ClassId"

definition upd_region :: "uptr \<Rightarrow> (region \<Rightarrow> region) \<Rightarrow> heap \<Rightarrow> heap" where
  "upd_region ClassId f h =
     h\<lparr>RegionInfoArray := (RegionInfoArray h)[unat ClassId := f (RegionInfoArray h ! unat ClassId)]\<rparr>"

definition getRegionBaseByClassId :: "primary_config \<Rightarrow> uptr \<Rightarrow> heap \<Rightarrow> uptr" where
  "getRegionBaseByClassId cfg ClassId h =
     (case MemMapBase (getRegionInfo ClassId h) of None \<Rightarrow> 0 | Some b \<Rightarrow> b)"

definition compactPtrInternal :: "primary_config \<Rightarrow> uptr \<Rightarrow> uptr \<Rightarrow> uptr" where
  "compactPtrInternal cfg Base Ptr = drop_bit (CompactPtrScale cfg) (Ptr - Base)"

definition decompactPtrInternal :: "primary_config \<Rightarrow> uptr \<Rightarrow> uptr \<Rightarrow> uptr" where
  "decompactPtrInternal cfg Base CompactPtr = Base + push_bit (CompactPtrScale cfg) CompactPtr"

definition compactPtr :: "primary_config \<Rightarrow> uptr \<Rightarrow> uptr \<Rightarrow> heap \<Rightarrow> uptr" where
  "compactPtr cfg ClassId Ptr h = compactPtrInternal cfg (RegionBeg (getRegionInfo ClassId h)) Ptr"

definition decompactPtr :: "primary_config \<Rightarrow> uptr \<Rightarrow> uptr \<Rightarrow> heap \<Rightarrow> uptr" where
  "decompactPtr cfg ClassId CompactPtr h =
     decompactPtrInternal cfg (RegionBeg (getRegionInfo ClassId h)) CompactPtr"

definition GroupScale :: "primary_config \<Rightarrow> nat" where
  "GroupScale cfg = GroupSizeLog cfg - CompactPtrScale cfg"

definition compactPtrGroup :: "primary_config \<Rightarrow> uptr \<Rightarrow> uptr" where
  "compactPtrGroup cfg CompactPtr = CompactPtr AND NOT (push_bit (GroupScale cfg) 1 - 1)"

definition decompactGroupBase :: "primary_config \<Rightarrow> uptr \<Rightarrow> uptr \<Rightarrow> uptr" where
  "decompactGroupBase cfg Base GroupBase = Base + push_bit (CompactPtrScale cfg) GroupBase"

definition isSmallBlock :: "primary_config \<Rightarrow> uptr \<Rightarrow> bool" where
  "isSmallBlock cfg BlockSize = (BlockSize < PageSizeOf cfg div 16)"

definition getMinReleaseAttemptSize :: "primary_config \<Rightarrow> uptr \<Rightarrow> uptr" where
  "getMinReleaseAttemptSize cfg BlockSize = roundUp BlockSize (PageSizeOf cfg)"

section \<open>Initialisation\<close>

definition empty_region :: region where
  "empty_region = \<lparr>RegionBeg = 0, RandState = 0, BlockList = [], PoppedBlocks = 0, PushedBlocks = 0,
     MemMapBase = None, MappedUser = 0, AllocatedUser = 0, BytesInFreeListAtLastCheckpoint = 0,
     NumReleasesAttempted = 0, LastReleasedBytes = 0, TryReleaseThreshold = 0,
     PendingPushedBytesDelta = 0, LastReleaseAtNs = 0, Exhausted = False\<rparr>"

definition initRegion :: "primary_config \<Rightarrow> uptr \<Rightarrow> uptr \<Rightarrow> uptr \<Rightarrow> bool \<Rightarrow> region \<Rightarrow> region" where
  "initRegion cfg PageDelta ClassId MapBase RandomOffset r =
     (let (off, rs) = (if RandomOffset
                       then let (n, s) = getRandomModN (RandState r) 16 in ((ucast n + 1) * PageSizeOf cfg, s)
                       else (0, RandState r));
          BlockSize = p_getSizeByClassId cfg ClassId
      in r\<lparr>MemMapBase := Some MapBase, RegionBeg := MapBase + off, RandState := rs,
           TryReleaseThreshold := (if isSmallBlock cfg BlockSize then PageSizeOf cfg * PageDelta
                                   else getMinReleaseAttemptSize cfg BlockSize)\<rparr>)"

fun seed_regions :: "u32 \<Rightarrow> nat \<Rightarrow> region list \<times> u32" where
  "seed_regions Seed 0 = ([], Seed)"
| "seed_regions Seed (Suc n) =
     (let (r, Seed) = getRandomU32 Seed; (rs, Seed') = seed_regions Seed n
      in (empty_region\<lparr>RandState := r\<rparr> # rs, Seed'))"

definition setReleaseInterval :: "primary_config \<Rightarrow> s32 \<Rightarrow> s32" where
  "setReleaseInterval cfg Value =
     (let M = (if sint Value < sint (MaxReleaseToOsIntervalMs cfg) then Value else MaxReleaseToOsIntervalMs cfg)
      in if sint M > sint (MinReleaseToOsIntervalMs cfg) then M else MinReleaseToOsIntervalMs cfg)"

definition p_setOption :: "primary_config \<Rightarrow> RtOption \<Rightarrow> sptr \<Rightarrow> heap \<Rightarrow> bool \<times> heap" where
  "p_setOption cfg Opt Value h =
     (case Opt of
        ReleaseInterval \<Rightarrow> (True, h\<lparr>ReleaseToOsIntervalMs := setReleaseInterval cfg (ucast Value)\<rparr>)
      | _ \<Rightarrow> (True, h))"

text \<open>Note that the regions are shuffled after they were initialised for their class.\<close>

definition p_init :: "primary_config \<Rightarrow> os \<Rightarrow> u32 \<Rightarrow> s32 \<Rightarrow> heap \<Rightarrow> heap result" where
  "p_init cfg os Seed ReleaseToOsInterval h =
     (let PagesInGroup = push_bit (GroupSizeLog cfg) 1 div PageSizeOf cfg;
          MinSizeClass = p_getSizeByClassId cfg 1;
          Delta = PagesInGroup * (1 + MinSizeClass div 16) div 100;
          N = unat (NumClasses (PSizeMap cfg));
          (rs, Seed) = seed_regions Seed N;
          Interval = (if DefaultReleaseToOsIntervalMs cfg \<noteq> push_bit 31 1
                      then DefaultReleaseToOsIntervalMs cfg else ReleaseToOsInterval);
          done = (\<lambda>rs. Inr (h\<lparr>RegionInfoArray := rs, SmallerBlockReleasePageDelta := Delta,
                                ReleaseToOsIntervalMs := setReleaseInterval cfg Interval\<rparr>))
      in if EnableContiguousRegions cfg then
           (case os_reserve os (push_bit (RegionSizeLog cfg) 1 * NumClasses (PSizeMap cfg)) of
              None \<Rightarrow> Inl (CheckFailed ''ReservedMemory.create'')
            | Some PrimaryBase \<Rightarrow>
                done (fst (shuffle (map2 (\<lambda>I r. initRegion cfg Delta (of_nat I)
                            (PrimaryBase + push_bit (RegionSizeLog cfg) (of_nat I)) (EnableRandomOffset cfg) r)
                          [0 ..< N] rs) Seed)))
         else done rs)"

section \<open>Popping blocks\<close>

text \<open>\<open>dealloc\<close> is the cache's \<^verbatim>\<open>deallocate\<close> for the batch class; it is not called when \<open>ClassId\<close> is
  the batch class itself.\<close>

definition popBlocksImpl ::
    "primary_config \<Rightarrow> (uptr \<Rightarrow> heap \<Rightarrow> (bool \<times> heap) result) \<Rightarrow> uptr \<Rightarrow> u16 \<Rightarrow> heap
      \<Rightarrow> (uptr list \<times> heap) result" where
  "popBlocksImpl cfg dealloc ClassId MaxBlockCount h =
     (let r = getRegionInfo ClassId h
      in case BlockList r of
           [] \<Rightarrow> Inr ([], h)
         | BG # BGs \<Rightarrow>
             (case Batches BG of
                [] \<Rightarrow>
                  Inr ([compactPtrInternal cfg (RegionBeg (getRegionInfo BatchClassId h)) (GroupAddr BG)],
                       upd_region ClassId (\<lambda>r. r\<lparr>BlockList := BGs, PoppedBlocks := PoppedBlocks r + 1\<rparr>) h)
              | B # Bs \<Rightarrow>
                  let PopCount = (if ClassId = BatchClassId then getCount B else MinU MaxBlockCount (getCount B));
                      (ToArray, B') = moveNToArray (unat PopCount) B;
                      count = upd_region ClassId (\<lambda>r. r\<lparr>PoppedBlocks := PoppedBlocks r + ucast PopCount\<rparr>)
                  in if Blocks B' \<noteq> [] then
                       Inr (ToArray, count (upd_region ClassId
                         (\<lambda>r. r\<lparr>BlockList := BG\<lparr>Batches := B' # Bs\<rparr> # BGs\<rparr>) h))
                     else
                       let h = upd_region ClassId (\<lambda>r. r\<lparr>BlockList := BG\<lparr>Batches := Bs\<rparr> # BGs\<rparr>) h
                       in bindE (if ClassId \<noteq> BatchClassId then dealloc (BatchAddr B) h else Inr (False, h)) (\<lambda>(_, h).
                            if Bs \<noteq> [] then Inr (ToArray, count h)
                            else
                              let h = upd_region ClassId (\<lambda>r. r\<lparr>BlockList := BGs\<rparr>) h
                              in bindE (if ClassId \<noteq> BatchClassId then dealloc (GroupAddr BG) h else Inr (False, h))
                                   (\<lambda>(_, h). Inr (ToArray, count h)))))"

section \<open>Pushing blocks\<close>

text \<open>The batch class: batches and the group are built in the blocks that are pushed. A new batch
  holds its own address first.\<close>

lemma append_progress:
  assumes "a \<noteq> b"
  shows "Suc n - min (unat (a - b)) (Suc n) \<le> n" "0 < unat (a - b)"
proof -
  show "0 < unat (a - b)" using assms by (simp add: unat_gt_0)
  then show "Suc n - min (unat (a - b)) (Suc n) \<le> n" by simp
qed

function batch_class_insert ::
    "(uptr \<Rightarrow> uptr) \<Rightarrow> u16 \<Rightarrow> uptr list \<Rightarrow> batch list \<Rightarrow> batch list" where
  "batch_class_insert dec Limit [] Bs = Bs"
| "batch_class_insert dec Limit (X # Xs) Bs =
     (case Bs of
        [] \<Rightarrow> []
      | B # Bs' \<Rightarrow>
          if Limit - getCount B = 0 then
            let n = min (unat (Limit - 1)) (length Xs);
                C = \<lparr>BatchAddr = dec X, Blocks = X # take n Xs\<rparr>
            in batch_class_insert dec Limit (drop n Xs) (C # B # Bs')
          else
            let n = min (unat (Limit - getCount B)) (length (X # Xs))
            in batch_class_insert dec Limit (drop n (X # Xs))
                 (appendFromArray (take n (X # Xs)) B # Bs'))"
  by pat_completeness auto
termination by (relation "measure (\<lambda>(dec, Limit, Xs, Bs). length Xs)")
    (auto simp: less_Suc_eq_le append_progress)

definition pushBatchClassBlocks_region :: "primary_config \<Rightarrow> uptr list \<Rightarrow> region \<Rightarrow> region" where
  "pushBatchClassBlocks_region cfg Array r =
     (let dec = decompactPtrInternal cfg (RegionBeg r);
          r = r\<lparr>PushedBlocks := PushedBlocks r + of_nat (length Array)\<rparr>;
          (BG, BGs, Array) =
            (case BlockList r of
               BG # BGs \<Rightarrow> (BG, BGs, Array)
             | [] \<Rightarrow> (\<lparr>GroupAddr = dec (last Array), CompactPtrGroupBase = 0,
                         BytesInBGAtLastCheckpoint = 0, Batches = [],
                         MaxCachedPerBatch = getMaxCached (PSizeMap cfg) (p_getSizeByClassId cfg BatchClassId)\<rparr>,
                       [], butlast Array));
          (BG, Array) =
            (if Array \<noteq> [] \<and> Batches BG = []
             then (BG\<lparr>Batches := [\<lparr>BatchAddr = dec (last Array),
                      Blocks = [last Array, compactPtrInternal cfg (RegionBeg r) (GroupAddr BG)]\<rparr>]\<rparr>, butlast Array)
             else (BG, Array))
      in r\<lparr>BlockList := BG\<lparr>Batches := batch_class_insert dec (MaxCachedPerBatch BG) Array (Batches BG)\<rparr> # BGs\<rparr>)"

definition pushBatchClassBlocks :: "primary_config \<Rightarrow> uptr list \<Rightarrow> heap \<Rightarrow> heap" where
  "pushBatchClassBlocks cfg Array h = upd_region BatchClassId (pushBatchClassBlocks_region cfg Array) h"

text \<open>Other classes: \<open>getb\<close> is the cache's \<^verbatim>\<open>getBatchClassBlock\<close>. A group with
  \<^verbatim>\<open>MaxCachedPerBatch\<close> zero would make the insertion loop forever. The code is the same in
  \<^verbatim>\<open>primary32.h\<close>, so these definitions take any type of state.\<close>

definition CreateGroup ::
    "primary_config \<Rightarrow> ('s \<Rightarrow> (uptr \<times> 's) result) \<Rightarrow> uptr \<Rightarrow> 's \<Rightarrow> (batch_group \<times> 's) result" where
  "CreateGroup cfg getb GroupBase h =
     bindE (getb h) (\<lambda>(BG, h). bindE (getb h) (\<lambda>(TB, h).
       Inr (\<lparr>GroupAddr = BG, CompactPtrGroupBase = GroupBase, BytesInBGAtLastCheckpoint = 0,
             Batches = [\<lparr>BatchAddr = TB, Blocks = []\<rparr>], MaxCachedPerBatch = MaxNumBlocksInBatch cfg\<rparr>, h)))"

function InsertBlocks ::
    "('s \<Rightarrow> (uptr \<times> 's) result) \<Rightarrow> u16 \<Rightarrow> uptr list \<Rightarrow> batch list \<Rightarrow> 's
      \<Rightarrow> (batch list \<times> 's) result" where
  "InsertBlocks getb Limit [] Bs h = Inr (Bs, h)"
| "InsertBlocks getb Limit (X # Xs) Bs h =
     (case Bs of
        [] \<Rightarrow> Inl NullDeref
      | B # Bs' \<Rightarrow>
          if Limit - getCount B = 0 then
            (case getb h of
               Inl e \<Rightarrow> Inl e
             | Inr (A, h') \<Rightarrow>
                 if Limit = 0 then Inl Diverges
                 else let n = min (unat Limit) (length (X # Xs))
                      in InsertBlocks getb Limit (drop n (X # Xs))
                           (\<lparr>BatchAddr = A, Blocks = take n (X # Xs)\<rparr> # B # Bs') h')
          else
            let n = min (unat (Limit - getCount B)) (length (X # Xs))
            in InsertBlocks getb Limit (drop n (X # Xs))
                 (appendFromArray (take n (X # Xs)) B # Bs') h)"
  by pat_completeness auto
termination by (relation "measure (\<lambda>(getb, Limit, Xs, Bs, h). length Xs)") (auto simp: less_Suc_eq_le append_progress append_progress(1) [of _ 0, simplified])

text \<open>The position in the sorted list of groups is a pair: the groups passed, in reverse, and the
  rest, whose head is \<^verbatim>\<open>Cur\<close>.\<close>

type_synonym group_pos = "batch_group list \<times> batch_group list"

fun advance :: "uptr \<Rightarrow> group_pos \<Rightarrow> group_pos" where
  "advance Target (Passed, []) = (Passed, [])"
| "advance Target (Passed, Cur # Rest) =
     (if Target > CompactPtrGroupBase Cur then advance Target (Cur # Passed, Rest) else (Passed, Cur # Rest))"

definition find_or_create_group ::
    "primary_config \<Rightarrow> ('s \<Rightarrow> (uptr \<times> 's) result) \<Rightarrow> uptr \<Rightarrow> group_pos \<Rightarrow> 's
      \<Rightarrow> (group_pos \<times> 's) result" where
  "find_or_create_group cfg getb Target pos h =
     (let (Passed, Rest) = advance Target pos
      in if Rest = [] \<or> Target \<noteq> CompactPtrGroupBase (hd Rest)
         then bindE (CreateGroup cfg getb Target h) (\<lambda>(G, h). Inr ((Passed, G # Rest), h))
         else Inr ((Passed, Rest), h))"

definition insert_at ::
    "('s \<Rightarrow> (uptr \<times> 's) result) \<Rightarrow> uptr list \<Rightarrow> group_pos \<Rightarrow> 's \<Rightarrow> (group_pos \<times> 's) result" where
  "insert_at getb Array pos h =
     (case pos of
        (Passed, []) \<Rightarrow> Inl NullDeref
      | (Passed, Cur # Rest) \<Rightarrow>
          bindE (InsertBlocks getb (MaxCachedPerBatch Cur) Array (Batches Cur) h) (\<lambda>(Bs, h).
            Inr ((Passed, Cur\<lparr>Batches := Bs\<rparr> # Rest), h)))"

text \<open>The runs of blocks of one group, each pushed to its group; \<open>grp\<close> is the group of a block.\<close>

function push_runs ::
    "primary_config \<Rightarrow> (uptr \<Rightarrow> uptr) \<Rightarrow> ('s \<Rightarrow> (uptr \<times> 's) result) \<Rightarrow> uptr list \<Rightarrow> group_pos \<Rightarrow> 's
      \<Rightarrow> (group_pos \<times> 's) result" where
  "push_runs cfg grp getb [] pos h = Inr (pos, h)"
| "push_runs cfg grp getb (X # Xs) pos h =
     (case find_or_create_group cfg getb (grp X) pos h of
        Inl e \<Rightarrow> Inl e
      | Inr (pos, h) \<Rightarrow>
          (case insert_at getb (X # takeWhile (\<lambda>Y. grp Y = grp X) Xs) pos h of
             Inl e \<Rightarrow> Inl e
           | Inr (pos, h) \<Rightarrow>
               push_runs cfg grp getb (dropWhile (\<lambda>Y. grp Y = grp X) Xs) pos h))"
  by pat_completeness auto
termination by (relation "measure (\<lambda>(cfg, grp, getb, Xs, pos, h). length Xs)") (auto simp: less_Suc_eq_le length_dropWhile_le)

definition pushBlocksImpl ::
    "primary_config \<Rightarrow> (heap \<Rightarrow> (uptr \<times> heap) result) \<Rightarrow> uptr \<Rightarrow> uptr list \<Rightarrow> bool \<Rightarrow> heap \<Rightarrow> heap result" where
  "pushBlocksImpl cfg getb ClassId Array SameGroup h =
     (let h = upd_region ClassId (\<lambda>r. r\<lparr>PushedBlocks := PushedBlocks r + of_nat (length Array)\<rparr>) h;
          pos = ([], BlockList (getRegionInfo ClassId h))
      in bindE
           (if SameGroup
            then bindE (find_or_create_group cfg getb (compactPtrGroup cfg (hd Array)) pos h)
                   (\<lambda>(pos, h). insert_at getb Array pos h)
            else push_runs cfg (compactPtrGroup cfg) getb Array pos h)
           (\<lambda>((Passed, Rest), h). Inr (upd_region ClassId (\<lambda>r. r\<lparr>BlockList := rev Passed @ Rest\<rparr>) h)))"

text \<open>The insertion sort by group; the flag says that all blocks seen are of one group.\<close>

definition insert_from_back :: "(uptr \<Rightarrow> uptr) \<Rightarrow> uptr \<Rightarrow> uptr list \<Rightarrow> uptr list" where
  "insert_from_back grp Cur Sorted =
     rev (takeWhile (\<lambda>Y. grp Cur < grp Y) (rev Sorted)
          @ Cur # dropWhile (\<lambda>Y. grp Cur < grp Y) (rev Sorted))"

fun group_sort_loop :: "(uptr \<Rightarrow> uptr) \<Rightarrow> uptr list \<Rightarrow> bool \<times> uptr list \<Rightarrow> bool \<times> uptr list" where
  "group_sort_loop grp [] acc = acc"
| "group_sort_loop grp (X # Xs) (Same, Sorted) =
     group_sort_loop grp Xs
       (Same \<and> (Sorted = [] \<or> grp (last Sorted) = grp X),
        insert_from_back grp X Sorted)"

definition group_sort :: "primary_config \<Rightarrow> uptr list \<Rightarrow> bool \<times> uptr list" where
  "group_sort cfg Array =
     (if GroupSizeLog cfg < RegionSizeLog cfg then group_sort_loop (compactPtrGroup cfg) Array (True, []) else (True, Array))"

definition pushBlocks_gen ::
    "primary_config \<Rightarrow> (heap \<Rightarrow> (uptr \<times> heap) result) \<Rightarrow> uptr \<Rightarrow> uptr list \<Rightarrow> heap
      \<Rightarrow> (uptr list \<times> heap) result" where
  "pushBlocks_gen cfg getb ClassId Array h =
     (if ClassId = BatchClassId then Inr (Array, pushBatchClassBlocks cfg Array h)
      else let (SameGroup, Sorted) = group_sort cfg Array
           in bindE (pushBlocksImpl cfg getb ClassId Sorted SameGroup h) (\<lambda>h. Inr (Sorted, h)))"

section \<open>Mapping more blocks\<close>

text \<open>The groups of the new blocks: each run is shuffled and pushed.\<close>

function push_new_blocks ::
    "primary_config \<Rightarrow> (heap \<Rightarrow> (uptr \<times> heap) result) \<Rightarrow> uptr \<Rightarrow> uptr list \<Rightarrow> heap \<Rightarrow> heap result" where
  "push_new_blocks cfg getb ClassId [] h = Inr h"
| "push_new_blocks cfg getb ClassId (X # Xs) h =
     (let run = X # takeWhile (\<lambda>Y. compactPtrGroup cfg Y = compactPtrGroup cfg X) Xs;
          (run, rs) = shuffle run (RandState (getRegionInfo ClassId h));
          h = upd_region ClassId (\<lambda>r. r\<lparr>RandState := rs\<rparr>) h
      in case pushBlocksImpl cfg getb ClassId run True h of
           Inl e \<Rightarrow> Inl e
         | Inr h \<Rightarrow>
             push_new_blocks cfg getb ClassId
               (dropWhile (\<lambda>Y. compactPtrGroup cfg Y = compactPtrGroup cfg X) Xs) h)"
  by pat_completeness auto
termination by (relation "measure (\<lambda>(cfg, getb, ClassId, Xs, h). length Xs)") (auto simp: less_Suc_eq_le length_dropWhile_le)

definition map_more ::
    "primary_config \<Rightarrow> os \<Rightarrow> uptr \<Rightarrow> uptr \<Rightarrow> heap \<Rightarrow> bool \<times> heap" where
  "map_more cfg os ClassId TotalUserBytes h =
     (let r = getRegionInfo ClassId h;
          Mapped = MappedUser r;
          MapSize = roundUp (TotalUserBytes - Mapped) (MapSizeIncrement cfg);
          RegionBase = RegionBeg r - getRegionBaseByClassId cfg ClassId h
      in if RegionBase + Mapped + MapSize > push_bit (RegionSizeLog cfg) 1
         then (False, upd_region ClassId (\<lambda>r. r\<lparr>Exhausted := True\<rparr>) h)
         else if \<not> os_remap os (RegionBeg r + Mapped) MapSize then (False, h)
         else (True, upd_stats (stats_add StatMapped MapSize)
                       (upd_region ClassId (\<lambda>r. r\<lparr>MappedUser := MappedUser r + MapSize\<rparr>) h)))"

definition new_blocks :: "primary_config \<Rightarrow> uptr \<Rightarrow> uptr \<Rightarrow> region \<Rightarrow> nat \<Rightarrow> uptr list" where
  "new_blocks cfg Base Size r N =
     map (\<lambda>I. compactPtrInternal cfg Base (RegionBeg r + AllocatedUser r + of_nat I * Size)) [0 ..< N]"

definition populateFreeListAndPopBlocks ::
    "primary_config \<Rightarrow> os \<Rightarrow> (heap \<Rightarrow> (uptr \<times> heap) result) \<Rightarrow> (uptr \<Rightarrow> heap \<Rightarrow> (bool \<times> heap) result)
      \<Rightarrow> uptr \<Rightarrow> u16 \<Rightarrow> heap \<Rightarrow> (uptr list \<times> heap) result" where
  "populateFreeListAndPopBlocks cfg os getb dealloc ClassId MaxBlockCount h =
     (let (reserved, h) =
            (if \<not> EnableContiguousRegions cfg \<and> MemMapBase (getRegionInfo ClassId h) = None
             then (case os_reserve os (push_bit (RegionSizeLog cfg) 1) of
                     None \<Rightarrow> (False, h)
                   | Some b \<Rightarrow> (True, upd_region ClassId
                       (initRegion cfg (SmallerBlockReleasePageDelta h) ClassId b False) h))
             else (True, h));
          Size = p_getSizeByClassId cfg ClassId;
          MaxCnt = getMaxCached (PSizeMap cfg) Size;
          r = getRegionInfo ClassId h;
          TotalUserBytes = AllocatedUser r + ucast MaxCnt * Size;
          (mapped, h) = (if \<not> reserved then (False, h)
                         else if TotalUserBytes > MappedUser r then map_more cfg os ClassId TotalUserBytes h
                         else (True, h))
      in if \<not> mapped then Inr ([], h)
         else
           let r = getRegionInfo ClassId h;
               NumberOfBlocks = MinU (MaxNumBatches cfg * ucast MaxCnt)
                                  (ucast ((MappedUser r - AllocatedUser r) div Size) :: u32);
               Array = new_blocks cfg (RegionBeg r) Size r (unat NumberOfBlocks)
           in bindE (if ClassId \<noteq> BatchClassId then push_new_blocks cfg getb ClassId Array h
                     else Inr (pushBatchClassBlocks cfg Array h)) (\<lambda>h.
              bindE (popBlocksImpl cfg dealloc ClassId MaxBlockCount h) (\<lambda>(ToArray, h).
                let h = upd_region ClassId (\<lambda>r. r\<lparr>PushedBlocks := PushedBlocks r - ucast NumberOfBlocks\<rparr>) h;
                    h = upd_stats (stats_add StatFree (Size * ucast NumberOfBlocks)) h;
                    h = upd_region ClassId (\<lambda>r. r\<lparr>AllocatedUser := AllocatedUser r + Size * ucast NumberOfBlocks\<rparr>) h
                in Inr (ToArray, h))))"

text \<open>\<^verbatim>\<open>popBlocks\<close> checks the free list twice: before and after it takes \<^verbatim>\<open>MMLock\<close>.\<close>

definition popBlocks_gen ::
    "primary_config \<Rightarrow> os \<Rightarrow> (heap \<Rightarrow> (uptr \<times> heap) result) \<Rightarrow> (uptr \<Rightarrow> heap \<Rightarrow> (bool \<times> heap) result)
      \<Rightarrow> uptr \<Rightarrow> u16 \<Rightarrow> heap \<Rightarrow> (uptr list \<times> heap) result" where
  "popBlocks_gen cfg os getb dealloc ClassId MaxBlockCount h =
     bindE (popBlocksImpl cfg dealloc ClassId MaxBlockCount h) (\<lambda>(ToArray, h).
       if ToArray \<noteq> [] then Inr (ToArray, h)
       else bindE (popBlocksImpl cfg dealloc ClassId MaxBlockCount h) (\<lambda>(ToArray, h).
         if ToArray \<noteq> [] then Inr (ToArray, h)
         else
           let RegionIsExhausted = Exhausted (getRegionInfo ClassId h)
           in bindE (if \<not> RegionIsExhausted
                     then populateFreeListAndPopBlocks cfg os getb dealloc ClassId MaxBlockCount h
                     else Inr ([], h)) (\<lambda>(ToArray, h).
                if \<not> RegionIsExhausted \<and> Exhausted (getRegionInfo ClassId h) \<and> ClassId = BatchClassId
                then Inl OutOfBatchClass
                else Inr (ToArray, h))))"

section \<open>The primary and the cache of the calling thread\<close>

text \<open>The operations on the batch class do not call the cache.\<close>

definition pop_batch_class :: "primary_config \<Rightarrow> os \<Rightarrow> heap pop_fun" where
  "pop_batch_class cfg os = popBlocks_gen cfg os (\<lambda>h. Inl NullDeref) (\<lambda>_ h. Inl NullDeref)"

definition push_batch_class :: "primary_config \<Rightarrow> heap push_fun" where
  "push_batch_class cfg = pushBlocks_gen cfg (\<lambda>h. Inl NullDeref)"

definition getBatchClassBlock :: "primary_config \<Rightarrow> os \<Rightarrow> heap \<Rightarrow> (uptr \<times> heap) result" where
  "getBatchClassBlock cfg os =
     cache_getBatchClassBlock (pop_batch_class cfg os) (decompactPtr cfg) (p_getSizeByClassId cfg)"

definition deallocate_batch_block :: "primary_config \<Rightarrow> uptr \<Rightarrow> heap \<Rightarrow> (bool \<times> heap) result" where
  "deallocate_batch_block cfg =
     cache_deallocate (PSizeMap cfg) (push_batch_class cfg) (compactPtr cfg) BatchClassId"

definition popBlocks :: "primary_config \<Rightarrow> os \<Rightarrow> heap pop_fun" where
  "popBlocks cfg os = popBlocks_gen cfg os (getBatchClassBlock cfg os) (deallocate_batch_block cfg)"

definition pushBlocks :: "primary_config \<Rightarrow> os \<Rightarrow> heap push_fun" where
  "pushBlocks cfg os = pushBlocks_gen cfg (getBatchClassBlock cfg os)"

definition sca_allocate :: "primary_config \<Rightarrow> os \<Rightarrow> uptr \<Rightarrow> heap \<Rightarrow> (uptr option \<times> heap) result" where
  "sca_allocate cfg os = cache_allocate (popBlocks cfg os) (decompactPtr cfg)"

definition sca_deallocate :: "primary_config \<Rightarrow> os \<Rightarrow> uptr \<Rightarrow> uptr \<Rightarrow> heap \<Rightarrow> (bool \<times> heap) result" where
  "sca_deallocate cfg os = cache_deallocate (PSizeMap cfg) (pushBlocks cfg os) (compactPtr cfg)"

definition sca_drain :: "primary_config \<Rightarrow> os \<Rightarrow> heap \<Rightarrow> heap result option" where
  "sca_drain cfg os = cache_drain (PSizeMap cfg) (pushBlocks cfg os)"

end
