(* ===== verification/Primary64Release.thy ===== *)
theory Primary64Release
  imports Primary64 "HOL-Library.Signed_Division"
begin

text \<open>
  The rest of \<^verbatim>\<open>primary64.h\<close>: returning unused pages to the system (\<^verbatim>\<open>releaseToOSMaybe\<close> and the
  functions it is made of, on top of \<open>Release\<close>), walking over all blocks, and
  \<^verbatim>\<open>findNearestBlock\<close>, which the crash handler uses.
\<close>

unbundle bit_operations_syntax

section \<open>Choosing the groups to release\<close>

definition hasChanceToReleasePages ::
    "primary_config \<Rightarrow> s32 \<Rightarrow> u64 \<Rightarrow> uptr \<Rightarrow> uptr \<Rightarrow> ReleaseToOS \<Rightarrow> region \<Rightarrow> bool \<times> region" where
  "hasChanceToReleasePages cfg IntervalMs32 CurTimeNs BlockSize BytesInFreeList ReleaseType r =
     (let r = (if BytesInFreeList \<le> BytesInFreeListAtLastCheckpoint r
               then r\<lparr>BytesInFreeListAtLastCheckpoint := BytesInFreeList\<rparr> else r);
          RegionPushedBytesDelta = BytesInFreeList - BytesInFreeListAtLastCheckpoint r
      in if ReleaseType = ReleaseNormal then
           if RegionPushedBytesDelta < TryReleaseThreshold r div 2 then (False, r)
           else if sint IntervalMs32 < 0 then (False, r)
           else
             let IntervalNs = (scast IntervalMs32 :: u64) * 1000000;
                 DiffSinceLastReleaseNs = CurTimeNs - LastReleaseAtNs r
             in if RegionPushedBytesDelta < TryReleaseThreshold r then
                  (if DiffSinceLastReleaseNs < 2 * IntervalNs then (False, r) else (True, r))
                else if DiffSinceLastReleaseNs < IntervalNs then
                  (if RegionPushedBytesDelta > push_bit (GroupSizeLog cfg) 1 then (True, r)
                   else (False, if \<not> isSmallBlock cfg BlockSize
                                then r\<lparr>PendingPushedBytesDelta := RegionPushedBytesDelta\<rparr> else r))
                else (True, r)
         else (True, r))"

definition group_num_blocks :: "batch_group \<Rightarrow> uptr" where
  "group_num_blocks BG =
     (of_nat (length (Batches BG)) - 1) * ucast (MaxCachedPerBatch BG) + ucast (getCount (hd (Batches BG)))"

definition allocated_group_size :: "primary_config \<Rightarrow> uptr \<Rightarrow> uptr \<Rightarrow> uptr" where
  "allocated_group_size cfg AllocatedUserEnd BatchGroupBase =
     (let GroupSize = push_bit (GroupSizeLog cfg) 1; BatchGroupEnd = BatchGroupBase + GroupSize
      in if AllocatedUserEnd \<ge> BatchGroupEnd then GroupSize else AllocatedUserEnd - BatchGroupBase)"

text \<open>One group: whether it is taken, the group with its checkpoint, and the new distance to the
  threshold.\<close>

definition examine_group ::
    "primary_config \<Rightarrow> uptr \<Rightarrow> uptr \<Rightarrow> uptr \<Rightarrow> uptr \<Rightarrow> uptr \<Rightarrow> batch_group \<Rightarrow> bool \<times> batch_group \<times> uptr" where
  "examine_group cfg PageDelta BlockSize AllocatedUserEnd CompactPtrBase MinDist BG =
     (let GroupSize = push_bit (GroupSizeLog cfg) 1;
          PageSize = PageSizeOf cfg;
          BatchGroupBase = decompactGroupBase cfg CompactPtrBase (CompactPtrGroupBase BG);
          NumBlocks = group_num_blocks BG;
          BytesInBG = NumBlocks * BlockSize
      in if BytesInBG \<le> BytesInBGAtLastCheckpoint BG
         then (False, BG\<lparr>BytesInBGAtLastCheckpoint := BytesInBG\<rparr>, MinDist)
         else
           let PushedBytesDelta = BytesInBG - BytesInBGAtLastCheckpoint BG
           in if PushedBytesDelta < getMinReleaseAttemptSize cfg BlockSize then (False, BG, MinDist)
              else if isSmallBlock cfg BlockSize then
                let ReleaseThreshold = (allocated_group_size cfg AllocatedUserEnd BatchGroupBase
                                        * (100 - 1 - BlockSize div 16)) div 100;
                    HighDensity = (BytesInBG \<ge> ReleaseThreshold);
                    MayHaveReleasedAll = (NumBlocks \<ge> GroupSize div BlockSize);
                    ReachReleaseDelta = (if MayHaveReleasedAll then True
                                         else PushedBytesDelta \<ge> PageSize * PageDelta);
                    MinDist = (if \<not> HighDensity
                               then MinU MinDist (ReleaseThreshold - BytesInBG + PushedBytesDelta)
                               else MinU MinDist (PageSize * PageDelta))
                in if \<not> HighDensity \<or> \<not> ReachReleaseDelta then (False, BG, MinDist)
                   else (True, BG\<lparr>BytesInBGAtLastCheckpoint := BytesInBG\<rparr>, MinDist)
              else (True, BG\<lparr>BytesInBGAtLastCheckpoint := BytesInBG\<rparr>, MinDist))"

text \<open>The groups that stay, the groups taken, in their order, and the distance.\<close>

fun collect_groups ::
    "primary_config \<Rightarrow> uptr \<Rightarrow> uptr \<Rightarrow> uptr \<Rightarrow> uptr \<Rightarrow> uptr \<Rightarrow> batch_group list
      \<Rightarrow> batch_group list \<times> batch_group list \<times> uptr" where
  "collect_groups cfg PageDelta BlockSize End Base MinDist [] = ([], [], MinDist)"
| "collect_groups cfg PageDelta BlockSize End Base MinDist (BG # BGs) =
     (let (taken, BG, MinDist) = examine_group cfg PageDelta BlockSize End Base MinDist BG;
          (kept, released, MinDist) = collect_groups cfg PageDelta BlockSize End Base MinDist BGs
      in if taken then (kept, BG # released, MinDist) else (BG # kept, released, MinDist))"

definition collectGroupsToRelease ::
    "primary_config \<Rightarrow> uptr \<Rightarrow> uptr \<Rightarrow> uptr \<Rightarrow> uptr \<Rightarrow> region \<Rightarrow> batch_group list \<times> region" where
  "collectGroupsToRelease cfg PageDelta BlockSize AllocatedUserEnd CompactPtrBase r =
     (let GroupSize = push_bit (GroupSizeLog cfg) 1;
          (kept, released, MinDist) =
            collect_groups cfg PageDelta BlockSize AllocatedUserEnd CompactPtrBase GroupSize (BlockList r);
          r = r\<lparr>BlockList := kept\<rparr>;
          MinDist = (if MinDist = GroupSize then PageSizeOf cfg * PageDelta else MinDist)
      in (released, if isSmallBlock cfg BlockSize then r\<lparr>TryReleaseThreshold := MinDist\<rparr> else r))"

section \<open>Marking free blocks\<close>

definition mark_group ::
    "primary_config \<Rightarrow> os \<Rightarrow> region \<Rightarrow> uptr \<Rightarrow> uptr \<Rightarrow> uptr \<Rightarrow> batch_group
      \<Rightarrow> page_release_context \<times> uptr \<Rightarrow> page_release_context \<times> uptr" where
  "mark_group cfg os r BlockSize AllocatedUserEnd CompactPtrBase BG cm =
     (let BatchGroupBase = decompactGroupBase cfg CompactPtrBase (CompactPtrGroupBase BG);
          AllocatedGroupSize = allocated_group_size cfg AllocatedUserEnd BatchGroupBase;
          BatchGroupUsedEnd = BatchGroupBase + AllocatedGroupSize;
          MayContainLastBlockInRegion = (BatchGroupUsedEnd = AllocatedUserEnd);
          BlockAlignedWithUsedEnd = ((BatchGroupUsedEnd - RegionBeg r) mod BlockSize = 0);
          MaxContainedBlocks = (if BlockAlignedWithUsedEnd then AllocatedGroupSize div BlockSize
                                else AllocatedGroupSize div BlockSize + 1)
      in if group_num_blocks BG = MaxContainedBlocks
         then snd (markRangeAsAllCounted (os_map_ok os) (PPageSizeLog cfg) BatchGroupBase BatchGroupUsedEnd
                     (RegionBeg r) 0 (AllocatedUser r) cm)
         else snd (markFreeBlocksInRegion (os_map_ok os) (PPageSizeLog cfg) (map Blocks (Batches BG))
                     (decompactPtrInternal cfg CompactPtrBase) (RegionBeg r) 0 (AllocatedUser r)
                     MayContainLastBlockInRegion cm))"

definition markFreeBlocks ::
    "primary_config \<Rightarrow> os \<Rightarrow> region \<Rightarrow> uptr \<Rightarrow> uptr \<Rightarrow> uptr \<Rightarrow> batch_group list \<Rightarrow> uptr
      \<Rightarrow> page_release_context \<times> uptr" where
  "markFreeBlocks cfg os r BlockSize AllocatedUserEnd CompactPtrBase GroupsToRelease Mask =
     (let GroupSize = push_bit (GroupSizeLog cfg) 1;
          ReleaseBase = decompactGroupBase cfg CompactPtrBase (CompactPtrGroupBase (hd GroupsToRelease));
          LastGroupEnd = MinU (decompactGroupBase cfg CompactPtrBase (CompactPtrGroupBase (last GroupsToRelease))
                                 + GroupSize) AllocatedUserEnd;
          ReleaseEnd = roundUpSlow (LastGroupEnd - RegionBeg r) BlockSize + RegionBeg r;
          Context = PageReleaseContext_init (PPageSizeLog cfg) BlockSize 1 (ReleaseEnd - ReleaseBase)
                      (ReleaseBase - RegionBeg r);
          (ok, Context, Mask) = ensurePageMapAllocated (os_map_ok os) (PPageSizeLog cfg) (Context, Mask)
      in if \<not> ok then (Context, Mask)
         else fold (mark_group cfg os r BlockSize AllocatedUserEnd CompactPtrBase) GroupsToRelease (Context, Mask))"

section \<open>Merging the groups back\<close>

text \<open>Two groups of one base: the batches of the second are appended to the first, but its partial
  batch is first used to fill the partial batch of the other. Also returned: a batch that became
  empty.\<close>

definition merge_batches :: "u16 \<Rightarrow> batch list \<Rightarrow> batch list \<Rightarrow> batch list \<times> batch option" where
  "merge_batches Limit Bs Cs =
     (if getCount (hd Cs) = Limit then (Bs @ Cs, None)
      else
        let NonFullBatch = hd Cs; Bs = Bs @ tl Cs
        in if getCount (hd Bs) = Limit then (NonFullBatch # Bs, None)
           else
             let n = unat (MinU (Limit - getCount (hd Bs)) (getCount NonFullBatch));
                 (Front, NonFullBatch') = appendFromBatch NonFullBatch n (hd Bs)
             in if Blocks NonFullBatch' = [] then (Front # tl Bs, Some NonFullBatch')
                else (NonFullBatch' # Front # tl Bs, None))"

text \<open>The addresses of blocks to recycle are collected in an array of eight; a full array is
  pushed to the batch class.\<close>

definition recycle_slots :: "primary_config \<Rightarrow> uptr list \<Rightarrow> uptr list \<times> heap \<Rightarrow> uptr list \<times> heap" where
  "recycle_slots cfg Addrs = (\<lambda>(Slots, h).
     let (Slots, h) = (if length Slots + length Addrs > 8 then ([], pushBatchClassBlocks cfg Slots h)
                       else (Slots, h))
     in (Slots @ map (\<lambda>A. compactPtr cfg BatchClassId A h) Addrs, h))"

function merge_loop_groups ::
    "primary_config \<Rightarrow> batch_group list \<Rightarrow> batch_group list \<Rightarrow> batch_group list \<Rightarrow> uptr list \<times> heap
      \<Rightarrow> batch_group list \<times> uptr list \<times> heap" where
  "merge_loop_groups cfg Before [] Gs sh = (rev Before @ Gs, sh)"
| "merge_loop_groups cfg Before (BG # BGs) [] sh = (rev Before @ BG # BGs, sh)"
| "merge_loop_groups cfg Before (BG # BGs) (Cur # Gs) sh =
     (if CompactPtrGroupBase BG < CompactPtrGroupBase Cur
      then merge_loop_groups cfg (BG # Before) BGs (Cur # Gs) sh
      else if CompactPtrGroupBase BG = CompactPtrGroupBase Cur then
        let (Bs, UnusedBatch) = merge_batches (MaxCachedPerBatch BG) (Batches BG) (Batches Cur);
            BG = BG\<lparr>BytesInBGAtLastCheckpoint := BytesInBGAtLastCheckpoint Cur, Batches := Bs\<rparr>;
            sh = recycle_slots cfg (GroupAddr Cur # (case UnusedBatch of None \<Rightarrow> [] | Some B \<Rightarrow> [BatchAddr B])) sh
        in merge_loop_groups cfg (BG # Before) BGs Gs sh
      else merge_loop_groups cfg (Cur # Before) (BG # BGs) Gs sh)"
  by pat_completeness auto
termination by (relation "measure (\<lambda>(cfg, Before, BGs, Gs, sh). length BGs + length Gs)") auto

definition mergeGroupsToReleaseBack ::
    "primary_config \<Rightarrow> uptr \<Rightarrow> batch_group list \<Rightarrow> heap \<Rightarrow> heap" where
  "mergeGroupsToReleaseBack cfg ClassId GroupsToRelease h =
     (let (BGs, Slots, h) =
            merge_loop_groups cfg [] (BlockList (getRegionInfo ClassId h)) GroupsToRelease ([], h);
          h = upd_region ClassId (\<lambda>r. r\<lparr>BlockList := BGs\<rparr>) h
      in if Slots \<noteq> [] then pushBatchClassBlocks cfg Slots h else h)"

section \<open>Releasing\<close>

definition adapt_thresholds ::
    "primary_config \<Rightarrow> u64 \<Rightarrow> uptr \<Rightarrow> uptr \<Rightarrow> uptr \<Rightarrow> uptr \<Rightarrow> region \<Rightarrow> region" where
  "adapt_thresholds cfg Now BlockSize BytesInFreeList RegionPushedBytesDelta Released r =
     (let r = (if Released > 0 then
                 (if \<not> isSmallBlock cfg BlockSize
                     \<and> RegionPushedBytesDelta < TryReleaseThreshold r
                     \<and> Released > LastReleasedBytes r + getMinReleaseAttemptSize cfg BlockSize
                  then r\<lparr>TryReleaseThreshold :=
                           MaxU (TryReleaseThreshold r div 2) (getMinReleaseAttemptSize cfg BlockSize)\<rparr>
                  else r)\<lparr>BytesInFreeListAtLastCheckpoint := BytesInFreeList, LastReleasedBytes := Released\<rparr>
               else r);
          r = r\<lparr>LastReleaseAtNs := Now\<rparr>
      in if PendingPushedBytesDelta r > 0
         then r\<lparr>TryReleaseThreshold :=
                  MinU (TryReleaseThreshold r + PendingPushedBytesDelta r div 2) (push_bit (GroupSizeLog cfg) 1 div 2),
                PendingPushedBytesDelta := 0\<rparr>
         else r)"

text \<open>Returns the number of bytes released, the calls to the system, the heap and the mask of the
  page map's buffer pool.\<close>

definition releaseToOSMaybe ::
    "primary_config \<Rightarrow> os \<Rightarrow> uptr \<Rightarrow> ReleaseToOS \<Rightarrow> heap \<times> uptr
      \<Rightarrow> uptr \<times> (uptr \<times> uptr) list \<times> heap \<times> uptr" where
  "releaseToOSMaybe cfg os ClassId ReleaseType = (\<lambda>(h, Mask).
     let BlockSize = p_getSizeByClassId cfg ClassId;
         r = getRegionInfo ClassId h;
         AllocatedUserEnd = AllocatedUser r + RegionBeg r;
         BytesInFreeList = AllocatedUser r - (PoppedBlocks r - PushedBlocks r) * BlockSize
     in if BytesInFreeList = 0 then (0, [], h, Mask)
        else
          let (chance, r) = (if ReleaseType \<noteq> ReleaseForceAll
                             then hasChanceToReleasePages cfg (ReleaseToOsIntervalMs h) (os_now os) BlockSize
                                    BytesInFreeList ReleaseType r
                             else (True, r));
              h = upd_region ClassId (\<lambda>_. r) h
          in if \<not> chance then (0, [], h, Mask)
             else
               let RegionPushedBytesDelta = BytesInFreeList - BytesInFreeListAtLastCheckpoint r;
                   (Groups, r) = (if ReleaseType = ReleaseForceAll then (BlockList r, r\<lparr>BlockList := []\<rparr>)
                                  else collectGroupsToRelease cfg (SmallerBlockReleasePageDelta h) BlockSize
                                         AllocatedUserEnd (RegionBeg r) r);
                   h = upd_region ClassId (\<lambda>_. r) h
               in if Groups = [] then (0, [], h, Mask)
                  else
                    let h = upd_region ClassId (\<lambda>r. r\<lparr>NumReleasesAttempted := NumReleasesAttempted r + 1\<rparr>) h;
                        (Context, Mask) = markFreeBlocks cfg os r BlockSize AllocatedUserEnd (RegionBeg r) Groups Mask
                    in if \<not> hasBlockMarked Context
                       then (0, [], mergeGroupsToReleaseBack cfg ClassId Groups h,
                             page_map_destroy (CtxPageMap Context) Mask)
                       else
                         let (Context, Rec) = releaseFreeMemoryToOS RegionReleaseRecorder_release (PPageSizeLog cfg)
                               Context (\<lambda>_. False)
                               \<lparr>RecBase = RegionBeg r, RecOffset = getReleaseOffset (PPageSizeLog cfg) Context,
                                ReleasedBytes = 0, OsReleases = []\<rparr>;
                             h = upd_region ClassId (adapt_thresholds cfg (os_now os) BlockSize BytesInFreeList
                                   RegionPushedBytesDelta (ReleasedBytes Rec)) h
                         in (ReleasedBytes Rec, OsReleases Rec, mergeGroupsToReleaseBack cfg ClassId Groups h,
                             page_map_destroy (CtxPageMap Context) Mask))"

text \<open>\<open>lock_ok\<close>: whether \<^verbatim>\<open>MMLock.tryLock()\<close> succeeds.\<close>

definition tryReleaseToOS ::
    "primary_config \<Rightarrow> os \<Rightarrow> bool \<Rightarrow> uptr \<Rightarrow> ReleaseToOS \<Rightarrow> heap \<times> uptr
      \<Rightarrow> uptr \<times> (uptr \<times> uptr) list \<times> heap \<times> uptr" where
  "tryReleaseToOS cfg os lock_ok ClassId ReleaseType hm =
     (if lock_ok then releaseToOSMaybe cfg os ClassId ReleaseType hm else (0, [], hm))"

definition p_releaseToOS ::
    "primary_config \<Rightarrow> os \<Rightarrow> ReleaseToOS \<Rightarrow> heap \<times> uptr \<Rightarrow> uptr \<times> (uptr \<times> uptr) list \<times> heap \<times> uptr" where
  "p_releaseToOS cfg os ReleaseType hm =
     fold (\<lambda>I (Total, Calls, hm).
            let (n, cs, hm) = releaseToOSMaybe cfg os (of_nat I) ReleaseType hm in (Total + n, Calls @ cs, hm))
       (filter (\<lambda>I. of_nat I \<noteq> BatchClassId) [0 ..< unat (NumClasses (PSizeMap cfg))]) (0, [], hm)"

section \<open>Walking over blocks\<close>

text \<open>\<^verbatim>\<open>for (Block = From; Block < To; Block += BlockSize)\<close>: the addresses given to the callback.\<close>

partial_function (option) block_walk :: "uptr \<Rightarrow> uptr \<Rightarrow> uptr \<Rightarrow> uptr list option" where
  "block_walk BlockSize Block To =
     (if Block < To
      then Option.bind (block_walk BlockSize (Block + BlockSize) To) (\<lambda>bs. Some (Block # bs))
      else Some [])"

fun walk_regions :: "primary_config \<Rightarrow> uptr list \<Rightarrow> heap \<Rightarrow> uptr list option" where
  "walk_regions cfg [] h = Some []"
| "walk_regions cfg (I # Is) h =
     (let r = getRegionInfo I h in
      Option.bind (block_walk (p_getSizeByClassId cfg I) (RegionBeg r) (RegionBeg r + AllocatedUser r)) (\<lambda>bs.
        Option.bind (walk_regions cfg Is h) (\<lambda>cs. Some (bs @ cs))))"

definition p_iterateOverBlocks :: "primary_config \<Rightarrow> heap \<Rightarrow> uptr list option" where
  "p_iterateOverBlocks cfg h =
     walk_regions cfg (filter (\<lambda>I. I \<noteq> BatchClassId) (map of_nat [0 ..< unat (NumClasses (PSizeMap cfg))])) h"

section \<open>Finding the block nearest to an address\<close>

text \<open>The crash handler of another process calls this with a copy of the regions that may hold anything, so
  every read of the copy is checked: \<open>OutsideBuffer\<close> is a read outside of it, \<open>Hangs\<close> a loop that does not
  end.\<close>

datatype dump_error = OutsideBuffer | Hangs

type_synonym 'a dump = "dump_error + 'a"

definition region_at :: "region list \<Rightarrow> uptr \<Rightarrow> region dump" where
  "region_at rs I = (if unat I < length rs then Inr (rs ! unat I) else Inl OutsideBuffer)"

record BlockInfo =
  BlockBegin :: uptr
  BlockSize :: uptr
  RegionBegin :: uptr
  RegionEnd :: uptr

text \<open>The distance of an address to a region; \<open>None\<close> for a region that is skipped.\<close>

definition region_distance :: "primary_config \<Rightarrow> uptr \<Rightarrow> uptr \<Rightarrow> region \<Rightarrow> uptr option" where
  "region_distance cfg I Ptr r =
     (let Begin = RegionBeg r; End = Begin + AllocatedUser r
      in if Begin > End \<or> End - Begin < getSizeByClassId (PSizeMap cfg) I then None
         else Some (if Begin \<le> Ptr then (if Ptr < End then 0 else Ptr - End) else Begin - Ptr))"

fun nearest_region :: "primary_config \<Rightarrow> region list \<Rightarrow> uptr \<Rightarrow> uptr list \<Rightarrow> uptr \<times> uptr \<Rightarrow> (uptr \<times> uptr) dump" where
  "nearest_region cfg rs Ptr [] acc = Inr acc"
| "nearest_region cfg rs Ptr (I # Is) (MinDistance, ClassId) =
     bindE (region_at rs I) (\<lambda>r.
       nearest_region cfg rs Ptr Is
         (case region_distance cfg I Ptr r of
            None \<Rightarrow> (MinDistance, ClassId)
          | Some d \<Rightarrow> if d < MinDistance then (d, I) else (MinDistance, ClassId)))"

text \<open>The two loops that move the block into the region.\<close>

partial_function (option) move_up :: "uptr \<Rightarrow> uptr \<Rightarrow> uptr \<Rightarrow> uptr option" where
  "move_up RBegin BSize B = (if B < RBegin then move_up RBegin BSize (B + BSize) else Some B)"

partial_function (option) move_down :: "uptr \<Rightarrow> uptr \<Rightarrow> uptr \<Rightarrow> uptr option" where
  "move_down REnd BSize B = (if REnd < B + BSize then move_down REnd BSize (B - BSize) else Some B)"

definition ends :: "'a option \<Rightarrow> 'a dump" where
  "ends x = (case x of None \<Rightarrow> Inl Hangs | Some v \<Rightarrow> Inr v)"

definition findNearestBlock :: "primary_config \<Rightarrow> region list \<Rightarrow> uptr \<Rightarrow> BlockInfo dump" where
  "findNearestBlock cfg rs Ptr =
     bindE (nearest_region cfg rs Ptr
            (filter (\<lambda>I. I \<noteq> BatchClassId) (map of_nat [0 ..< unat (NumClasses (PSizeMap cfg))])) (- 1, 0))
       (\<lambda>(MinDistance, ClassId).
          if MinDistance \<le> 8192 then
            bindE (region_at rs ClassId) (\<lambda>r.
              let RBegin = RegionBeg r;
                  REnd = RBegin + AllocatedUser r;
                  BSize = getSizeByClassId (PSizeMap cfg) ClassId;
                  B = RBegin + word_of_int (sint (Ptr - RBegin) sdiv sint BSize * sint BSize)
              in bindE (ends (move_up RBegin BSize B)) (\<lambda>B. bindE (ends (move_down REnd BSize B)) (\<lambda>B.
                   Inr \<lparr>BlockBegin = B, BlockSize = BSize, RegionBegin = RBegin, RegionEnd = REnd\<rparr>)))
          else Inr \<lparr>BlockBegin = 0, BlockSize = 0, RegionBegin = 0, RegionEnd = 0\<rparr>)"

section \<open>Unmapping\<close>

text \<open>The reservations that are unmapped, base and size, and the regions, which are all empty again.\<close>

definition p_unmapTestOnly :: "primary_config \<Rightarrow> heap \<Rightarrow> (uptr \<times> uptr) list \<times> heap" where
  "p_unmapTestOnly cfg h =
     fold (\<lambda>I (Calls, h).
         (Calls @ (case MemMapBase (getRegionInfo (of_nat I) h) of None \<Rightarrow> [] | Some b \<Rightarrow> [(b, push_bit (RegionSizeLog cfg) 1)]),
          upd_region (of_nat I) (\<lambda>_. empty_region) h))
       [0 ..< unat (NumClasses (PSizeMap cfg))] ([], h)"

end
