(* ===== verification/BatchClass.thy ===== *)
theory BatchClass
  imports Primary64
begin

text \<open>
  The blocks of the primary, as multisets, and what popping and pushing do to them. This theory
  covers the steps that no class needs another for: carving new blocks out of a region, batches
  and groups as containers, and the batch class, for which it interprets \<open>block_source\<close>. The
  other classes, which allocate their batches through the batch class, follow in \<open>PrimarySafe\<close>.

  \<^item> \<open>free_blocks\<close>: the blocks in the free list of a class. A group of the batch class without
    batches stands for the block it is stored in.
  \<^item> \<open>carved_blocks\<close>: the blocks in the part of the region handed out so far.
  \<^item> \<open>region_ok\<close>: that part is a whole number of blocks, inside the mapped part, inside the
    reserved region.
\<close>

unbundle bit_operations_syntax

section \<open>Configurations\<close>

definition block_size :: "primary_config \<Rightarrow> uptr \<Rightarrow> nat" where
  "block_size cfg I = unat (p_getSizeByClassId cfg I)"

definition primary_ok :: "primary_config \<Rightarrow> bool" where
  "primary_ok cfg \<longleftrightarrow> valid_config (PSizeMap cfg)
     \<and> MaxSizeLog (PSizeMap cfg) < RegionSizeLog cfg \<and> RegionSizeLog cfg \<le> 35
     \<and> CompactPtrScale cfg \<le> 4 \<and> GroupSizeLog cfg \<le> RegionSizeLog cfg \<and> CompactPtrScale cfg < GroupSizeLog cfg
     \<and> (\<exists>k < RegionSizeLog cfg. MapSizeIncrement cfg = 2 ^ k)
     \<and> 0 < unat (MaxNumBatches cfg) \<and> unat (MaxNumBatches cfg) < 2 ^ 15
     \<and> unat (MaxNumBlocksInBatch cfg) < 2 ^ 14
     \<and> 2 \<le> getMaxCached (PSizeMap cfg) (p_getSizeByClassId cfg BatchClassId)
     \<and> (\<forall>I < NumClasses (PSizeMap cfg). 16 \<le> block_size cfg I \<and> 16 dvd block_size cfg I \<and> block_size cfg I < 2 ^ 36
          \<and> 2 ^ CompactPtrScale cfg dvd block_size cfg I)"

lemma region_size: "primary_ok cfg \<Longrightarrow> unat (push_bit (RegionSizeLog cfg) 1 :: uptr) = 2 ^ RegionSizeLog cfg"
  by (intro unat_push_bit_1) (simp add: primary_ok_def)

lemma region_size_le: "primary_ok cfg \<Longrightarrow> (2::nat) ^ RegionSizeLog cfg \<le> 2 ^ 35"
  unfolding primary_ok_def by (intro power_increasing) auto

section \<open>Regions as components of the state\<close>

lemma getRegionInfo_upd_region:
  "unat J < length (RegionInfoArray h) \<Longrightarrow>
    getRegionInfo I (upd_region J f h) = (if I = J then f (getRegionInfo J h) else getRegionInfo I h)"
  by (auto simp: getRegionInfo_def upd_region_def nth_list_update word_unat_eq_iff)

lemma upd_region_simps [simp]:
  "length (RegionInfoArray (upd_region J f h)) = length (RegionInfoArray h)"
  "PerClassArray (upd_region J f h) = PerClassArray h"
  "get_class I (upd_region J f h) = get_class I h"
  by (simp_all add: upd_region_def get_class_def)

lemma upd_other_regions [simp]:
  "RegionInfoArray (upd_class J f h) = RegionInfoArray h"
  "RegionInfoArray (upd_stats g h) = RegionInfoArray h"
  "getRegionInfo I (upd_class J f h) = getRegionInfo I h"
  "getRegionInfo I (upd_stats g h) = getRegionInfo I h"
  by (simp_all add: upd_class_def upd_stats_def getRegionInfo_def)

lemma upd_region_upd:
  "unat J < length (RegionInfoArray h) \<Longrightarrow> upd_region J f (upd_region J g h) = upd_region J (\<lambda>r. f (g r)) h"
  by (simp add: upd_region_def)

section \<open>Blocks\<close>

definition group_blocks :: "primary_config \<Rightarrow> uptr \<Rightarrow> batch_group \<Rightarrow> uptr multiset" where
  "group_blocks cfg B0 G =
     (if Batches G = [] then {#compactPtrInternal cfg B0 (GroupAddr G)#}
      else mset (concat (map Blocks (Batches G))))"

definition groups_blocks :: "primary_config \<Rightarrow> uptr \<Rightarrow> batch_group list \<Rightarrow> uptr multiset" where
  "groups_blocks cfg B0 Gs = sum_list (map (group_blocks cfg B0) Gs)"

definition free_blocks :: "primary_config \<Rightarrow> uptr \<Rightarrow> heap \<Rightarrow> uptr multiset" where
  "free_blocks cfg I h = groups_blocks cfg (RegionBeg (getRegionInfo BatchClassId h)) (BlockList (getRegionInfo I h))"

definition nth_block :: "primary_config \<Rightarrow> uptr \<Rightarrow> nat \<Rightarrow> uptr" where
  "nth_block cfg I n = drop_bit (CompactPtrScale cfg) (of_nat n * p_getSizeByClassId cfg I)"

definition num_blocks :: "primary_config \<Rightarrow> uptr \<Rightarrow> region \<Rightarrow> nat" where
  "num_blocks cfg I r = unat (AllocatedUser r) div block_size cfg I"

definition carved_blocks :: "primary_config \<Rightarrow> uptr \<Rightarrow> heap \<Rightarrow> uptr multiset" where
  "carved_blocks cfg I h = mset (map (nth_block cfg I) [0 ..< num_blocks cfg I (getRegionInfo I h)])"

lemma groups_blocks_simps [simp]:
  "groups_blocks cfg B0 [] = {#}"
  "groups_blocks cfg B0 (G # Gs) = group_blocks cfg B0 G + groups_blocks cfg B0 Gs"
  "groups_blocks cfg B0 (Gs @ Hs) = groups_blocks cfg B0 Gs + groups_blocks cfg B0 Hs"
  by (simp_all add: groups_blocks_def)

lemma groups_blocks_rev [simp]: "groups_blocks cfg B0 (rev Gs) = groups_blocks cfg B0 Gs"
  by (induction Gs) (simp_all add: add.commute)

section \<open>The geometry of a region\<close>

definition region_ok :: "primary_config \<Rightarrow> uptr \<Rightarrow> region \<Rightarrow> bool" where
  "region_ok cfg I r \<longleftrightarrow>
     (\<exists>b. MemMapBase r = Some b \<and> unat b \<le> unat (RegionBeg r)
        \<and> unat (RegionBeg r) + unat (MappedUser r) \<le> unat b + 2 ^ RegionSizeLog cfg
        \<and> unat b + 2 ^ RegionSizeLog cfg < 2 ^ 56)
     \<and> 16 dvd unat (RegionBeg r)
     \<and> block_size cfg I dvd unat (AllocatedUser r) \<and> AllocatedUser r \<le> MappedUser r"

text \<open>\<open>region_ok\<close> only looks at these fields.\<close>

lemma region_ok_cong:
  assumes "MemMapBase r' = MemMapBase r" "RegionBeg r' = RegionBeg r" "MappedUser r' = MappedUser r"
    "AllocatedUser r' = AllocatedUser r"
  shows "region_ok cfg I r' = region_ok cfg I r"
  using assms by (simp add: region_ok_def)

lemma region_ok_mapped:
  assumes "region_ok cfg I r"
  shows "unat (MappedUser r) \<le> 2 ^ RegionSizeLog cfg"
  using assms unfolding region_ok_def by auto

lemma alloc_count:
  assumes "region_ok cfg I r" "0 < block_size cfg I"
  shows "AllocatedUser r = of_nat (num_blocks cfg I r) * p_getSizeByClassId cfg I"
    and "unat (AllocatedUser r) = num_blocks cfg I r * block_size cfg I"
proof -
  show u: "unat (AllocatedUser r) = num_blocks cfg I r * block_size cfg I"
    using assms by (auto simp: region_ok_def num_blocks_def)
  have "of_nat (unat (AllocatedUser r)) = (of_nat (num_blocks cfg I r) * of_nat (block_size cfg I) :: uptr)"
    unfolding u by simp
  then show "AllocatedUser r = of_nat (num_blocks cfg I r) * p_getSizeByClassId cfg I"
    by (simp add: block_size_def)
qed

lemma new_blocks_nth:
  assumes "region_ok cfg I r" "0 < block_size cfg I"
  shows "new_blocks cfg (RegionBeg r) (p_getSizeByClassId cfg I) r N =
    map (nth_block cfg I) [num_blocks cfg I r ..< num_blocks cfg I r + N]"
proof -
  have "compactPtrInternal cfg (RegionBeg r) (RegionBeg r + AllocatedUser r + of_nat i * p_getSizeByClassId cfg I)
      = nth_block cfg I (i + num_blocks cfg I r)" for i
    by (simp add: compactPtrInternal_def nth_block_def alloc_count(1) [OF assms] algebra_simps)
  then have "new_blocks cfg (RegionBeg r) (p_getSizeByClassId cfg I) r N =
      map (nth_block cfg I) (map (\<lambda>i. i + num_blocks cfg I r) [0 ..< N])"
    by (simp add: new_blocks_def comp_def)
  then show ?thesis by (simp only: map_add_upt add_0 add.commute [of N])
qed

lemma alloc_more:
  assumes ok: "region_ok cfg I r" and sz: "0 < block_size cfg I"
    and N: "unat N \<le> (unat (MappedUser r) - unat (AllocatedUser r)) div block_size cfg I"
  shows "region_ok cfg I (r\<lparr>AllocatedUser := AllocatedUser r + p_getSizeByClassId cfg I * N\<rparr>)"
    and "num_blocks cfg I (r\<lparr>AllocatedUser := AllocatedUser r + p_getSizeByClassId cfg I * N\<rparr>)
      = num_blocks cfg I r + unat N"
proof -
  let ?S = "block_size cfg I"
  have le: "unat (AllocatedUser r) \<le> unat (MappedUser r)" using ok by (simp add: region_ok_def word_le_nat_alt)
  have "unat N * ?S \<le> (unat (MappedUser r) - unat (AllocatedUser r)) div ?S * ?S"
    using N by (rule mult_le_mono1)
  also have "\<dots> \<le> unat (MappedUser r) - unat (AllocatedUser r)" by (rule div_times_less_eq_dividend)
  finally have n: "unat N * ?S \<le> unat (MappedUser r) - unat (AllocatedUser r)" .
  have lt: "unat (MappedUser r) < 18446744073709551616" by (rule unat_less_64)
  then have n64: "unat N * ?S < 18446744073709551616" using n by linarith
  have p: "unat (p_getSizeByClassId cfg I * N) = ?S * unat N"
    unfolding block_size_def using n64 by (intro unat_mult_small) (simp add: block_size_def mult.commute)
  have a: "unat (AllocatedUser r + p_getSizeByClassId cfg I * N) = unat (AllocatedUser r) + ?S * unat N"
  proof -
    have "unat (AllocatedUser r) + unat N * ?S < 18446744073709551616" using n lt le by linarith
    then show ?thesis using p by (subst unat_add_small) (simp_all add: mult.commute)
  qed
  show "region_ok cfg I (r\<lparr>AllocatedUser := AllocatedUser r + p_getSizeByClassId cfg I * N\<rparr>)"
    using ok n le by (auto simp: region_ok_def word_le_nat_alt a mult.commute [of "unat N"])
  show "num_blocks cfg I (r\<lparr>AllocatedUser := AllocatedUser r + p_getSizeByClassId cfg I * N\<rparr>)
      = num_blocks cfg I r + unat N"
    using sz by (simp add: num_blocks_def a)
qed

lemma ok_size:
  assumes "primary_ok cfg" "I < NumClasses (PSizeMap cfg)"
  shows "16 \<le> block_size cfg I" "block_size cfg I < 2 ^ 36" "2 ^ CompactPtrScale cfg dvd block_size cfg I"
    "16 dvd block_size cfg I"
  using assms by (auto simp: primary_ok_def)

lemma map_more_ok:
  assumes cfg: "primary_ok cfg" and idx: "unat I < length (RegionInfoArray h)"
    and ok: "region_ok cfg I (getRegionInfo I h)"
    and T: "MappedUser (getRegionInfo I h) < T" "unat T < 2 ^ 60"
    and m: "map_more cfg os I T h = (True, h')"
  obtains M g where "h' = upd_stats g (upd_region I (\<lambda>r. r\<lparr>MappedUser := M\<rparr>) h)" "T \<le> M"
    "region_ok cfg I ((getRegionInfo I h)\<lparr>MappedUser := M\<rparr>)"
proof -
  let ?r = "getRegionInfo I h"
  define S where "S = roundUp (T - MappedUser ?r) (MapSizeIncrement cfg)"
  define M where "M = MappedUser ?r + S"
  obtain k where k: "k < RegionSizeLog cfg" "MapSizeIncrement cfg = 2 ^ k" "k < 36"
    using cfg by (auto simp: primary_ok_def)
  obtain b where b: "MemMapBase ?r = Some b" "unat b \<le> unat (RegionBeg ?r)"
      "unat (RegionBeg ?r) + unat (MappedUser ?r) \<le> unat b + 2 ^ RegionSizeLog cfg"
      "unat b + 2 ^ RegionSizeLog cfg < 2 ^ 56"
    using ok by (auto simp: region_ok_def)
  have h': "h' = upd_stats (stats_add StatMapped S) (upd_region I (\<lambda>r. r\<lparr>MappedUser := MappedUser r + S\<rparr>) h)"
    and lim: "RegionBeg ?r - b + MappedUser ?r + S \<le> push_bit (RegionSizeLog cfg) 1"
    using m by (auto simp: map_more_def Let_def S_def getRegionBaseByClassId_def b split: if_splits)
  have "upd_region I (\<lambda>r. r\<lparr>MappedUser := MappedUser r + S\<rparr>) h = upd_region I (\<lambda>r. r\<lparr>MappedUser := M\<rparr>) h"
    by (simp add: upd_region_def M_def getRegionInfo_def)
  then have h'': "h' = upd_stats (stats_add StatMapped S) (upd_region I (\<lambda>r. r\<lparr>MappedUser := M\<rparr>) h)"
    by (simp add: h')
  have d: "unat (T - MappedUser ?r) = unat T - unat (MappedUser ?r)"
    using T(1) by (simp add: unat_sub)
  have pw: "isPowerOfTwo (MapSizeIncrement cfg)" "unat (MapSizeIncrement cfg) = 2 ^ k"
    using k unat_push_bit_1 [of k] by (simp_all add: push_bit_of_1)
  have k36: "(2::nat) ^ k \<le> 2 ^ 36" using k(3) by (intro power_increasing) auto
  then have small: "unat (T - MappedUser ?r) + unat (MapSizeIncrement cfg) \<le> 2 ^ 64"
    using T(2) by (simp add: d pw(2))
  have R: "T - MappedUser ?r \<le> S \<and> unat S < unat (T - MappedUser ?r) + unat (MapSizeIncrement cfg)"
    using roundUp_least [OF pw(1) small] unfolding S_def by blast
  then have "unat S < unat T - unat (MappedUser ?r) + 2 ^ k" by (simp only: d pw(2))
  also have "\<dots> < 2 ^ 61" using T(2) k36 by simp
  finally have S: "unat T - unat (MappedUser ?r) \<le> unat S" "unat S < 2 ^ 61"
    using R by (simp_all add: word_le_nat_alt d)
  have mp: "unat (MappedUser ?r) \<le> 2 ^ 35" using region_ok_mapped [OF ok] region_size_le [OF cfg] by linarith
  have M: "unat M = unat (MappedUser ?r) + unat S"
    unfolding M_def using mp S(2) by (intro unat_add_small) simp
  have o: "unat (RegionBeg ?r - b) = unat (RegionBeg ?r) - unat b" using b(2) by (simp add: unat_sub word_le_nat_alt)
  have bb: "unat (RegionBeg ?r) < 2 ^ 56" using b by linarith
  have sm: "unat (RegionBeg ?r - b + MappedUser ?r + S) = unat (RegionBeg ?r) - unat b + unat (MappedUser ?r) + unat S"
  proof -
    have "unat (RegionBeg ?r - b + MappedUser ?r) = unat (RegionBeg ?r) - unat b + unat (MappedUser ?r)"
      using o mp bb by (subst unat_add_small) simp_all
    then show ?thesis using o mp bb S(2) by (subst unat_add_small) simp_all
  qed
  have "unat (RegionBeg ?r) - unat b + unat M \<le> 2 ^ RegionSizeLog cfg"
    using lim by (simp only: word_le_nat_alt sm region_size [OF cfg] M)
  then have "region_ok cfg I (?r\<lparr>MappedUser := M\<rparr>)"
    using ok b M by (auto simp: region_ok_def word_le_nat_alt)
  moreover have "T \<le> M" using S(1) M by (simp add: word_le_nat_alt)
  ultimately show thesis using that [OF h''] by blast
qed

section \<open>Batches as containers\<close>

definition batches_blocks :: "batch list \<Rightarrow> uptr multiset" where
  "batches_blocks Bs = mset (concat (map Blocks Bs))"

definition batches_fit :: "u16 \<Rightarrow> batch list \<Rightarrow> bool" where
  "batches_fit Limit Bs \<longleftrightarrow> (\<forall>B \<in> set Bs. length (Blocks B) \<le> unat Limit)"

definition groups_fit :: "u16 \<Rightarrow> batch_group list \<Rightarrow> bool" where
  "groups_fit Limit Gs \<longleftrightarrow> (\<forall>G \<in> set Gs. MaxCachedPerBatch G = Limit \<and> batches_fit Limit (Batches G))"

lemma batches_simps [simp]:
  "batches_blocks [] = {#}"
  "batches_blocks (B # Bs) = mset (Blocks B) + batches_blocks Bs"
  "batches_blocks (Bs @ Cs) = batches_blocks Bs + batches_blocks Cs"
  "batches_fit L []"
  "batches_fit L (B # Bs) \<longleftrightarrow> length (Blocks B) \<le> unat L \<and> batches_fit L Bs"
  "groups_fit L []"
  "groups_fit L (G # Gs) \<longleftrightarrow> MaxCachedPerBatch G = L \<and> batches_fit L (Batches G) \<and> groups_fit L Gs"
  "groups_fit L (Gs @ Hs) \<longleftrightarrow> groups_fit L Gs \<and> groups_fit L Hs"
  "groups_fit L (rev Gs) \<longleftrightarrow> groups_fit L Gs"
  by (auto simp: batches_blocks_def batches_fit_def groups_fit_def)

lemma group_blocks_batches: "Batches G \<noteq> [] \<Longrightarrow> group_blocks cfg B0 G = batches_blocks (Batches G)"
  by (simp add: group_blocks_def batches_blocks_def)

lemma mset_take_drop: "mset (take n xs) + mset (drop n xs) = mset xs"
  by (simp only: mset_append [symmetric] append_take_drop_id)

lemma unat_getCount: "length (Blocks B) \<le> unat Limit \<Longrightarrow> unat (getCount B) = length (Blocks B)" for Limit :: u16
proof -
  assume "length (Blocks B) \<le> unat Limit"
  moreover have "unat Limit < 65536" by (rule unat_less_16)
  ultimately have "length (Blocks B) < 65536" by linarith
  then show ?thesis unfolding getCount_def by (intro unat_of_nat_small) simp
qed

text \<open>The room in a batch, as the number the insertion loops compute.\<close>

lemma room:
  assumes "length (Blocks B) \<le> unat Limit"
  shows "unat (Limit - getCount B) = unat Limit - length (Blocks B)"
    and "Limit - getCount B = 0 \<longleftrightarrow> length (Blocks B) = unat Limit"
proof -
  note u = unat_getCount [OF assms]
  show r: "unat (Limit - getCount B) = unat Limit - length (Blocks B)"
    using assms u by (simp add: unat_sub word_le_nat_alt)
  show "Limit - getCount B = 0 \<longleftrightarrow> length (Blocks B) = unat Limit"
    using assms r by (metis diff_is_0_eq le_antisym order.refl unat_eq_0)
qed

section \<open>The batch class\<close>

lemma batch_class_insert_ok:
  assumes "2 \<le> Limit" "batches_fit Limit Bs" "Bs \<noteq> []"
  shows "batches_blocks (batch_class_insert dec Limit Xs Bs) = batches_blocks Bs + mset Xs
    \<and> batches_fit Limit (batch_class_insert dec Limit Xs Bs) \<and> batch_class_insert dec Limit Xs Bs \<noteq> []"
  using assms
proof (induction dec Limit Xs Bs rule: batch_class_insert.induct)
  case (2 dec Limit X Xs Bs)
  obtain B Bs' where Bs: "Bs = B # Bs'" using "2.prems" by (cases Bs) auto
  have fit: "length (Blocks B) \<le> unat Limit" "batches_fit Limit Bs'" using "2.prems" Bs by auto
  have "Limit \<noteq> 0" using "2.prems"(1) by auto
  then have L: "unat (Limit - 1) = unat Limit - 1" "2 \<le> unat Limit"
    using "2.prems"(1) by (auto simp: word_le_nat_alt unat_minus_one)
  show ?case
  proof (cases "Limit - getCount B = 0")
    case True
    let ?n = "min (unat (Limit - 1)) (length Xs)"
    let ?C = "\<lparr>BatchAddr = dec X, Blocks = X # take ?n Xs\<rparr>"
    have "batches_fit Limit (?C # B # Bs')" using fit L by simp
    from "2.IH"(1) [OF Bs True refl refl "2.prems"(1) this]
    show ?thesis using True mset_take_drop [of ?n Xs] by (simp add: Bs Let_def ac_simps)
  next
    case False
    let ?n = "min (unat (Limit - getCount B)) (length (X # Xs))"
    have "batches_fit Limit (appendFromArray (take ?n (X # Xs)) B # Bs')"
      using fit by (simp add: appendFromArray_def room(1))
    from "2.IH"(2) [OF Bs False refl "2.prems"(1) this]
    show ?thesis using False mset_take_drop [of ?n "X # Xs"]
      by (simp add: Bs Let_def appendFromArray_def ac_simps del: take_Cons drop_Cons)
  qed
qed simp

definition batch_limit :: "primary_config \<Rightarrow> u16" where
  "batch_limit cfg = getMaxCached (PSizeMap cfg) (p_getSizeByClassId cfg BatchClassId)"

lemma batch_limit_ge: "primary_ok cfg \<Longrightarrow> 2 \<le> batch_limit cfg"
  by (simp add: primary_ok_def batch_limit_def)

lemma compact_decompact:
  "x = drop_bit (CompactPtrScale cfg) y \<Longrightarrow>
    compactPtrInternal cfg Base (decompactPtrInternal cfg Base x) = x"
  unfolding compactPtrInternal_def decompactPtrInternal_def
  by (rule bit_word_eqI) (auto simp: bit_simps dest: bit_imp_le_length)

text \<open>What an operation on one class may change: that region and the statistics.\<close>

definition only_region :: "uptr \<Rightarrow> heap \<Rightarrow> heap \<Rightarrow> bool" where
  "only_region I h h' \<longleftrightarrow> (\<exists>r st. h' = upd_stats st (upd_region I (\<lambda>_. r) h))"

lemma only_region_refl [simp]: "only_region I h h"
  unfolding only_region_def
  by (rule exI [of _ "RegionInfoArray h ! unat I"], rule exI [of _ id]) (simp add: upd_stats_def upd_region_def)

lemma only_region_trans: "only_region I h h1 \<Longrightarrow> only_region I h1 h2 \<Longrightarrow> only_region I h h2"
  unfolding only_region_def
proof (elim exE)
  fix r st r' st'
  assume "h1 = upd_stats st (upd_region I (\<lambda>_. r) h)" "h2 = upd_stats st' (upd_region I (\<lambda>_. r') h1)"
  then have "h2 = upd_stats (st' \<circ> st) (upd_region I (\<lambda>_. r') h)"
    by (simp add: upd_stats_def upd_region_def)
  then show "\<exists>r st. h2 = upd_stats st (upd_region I (\<lambda>_. r) h)" by blast
qed

lemma only_region_upd [simp]: "only_region I h (upd_region I f h)"
  unfolding only_region_def
  by (rule exI [of _ "f (RegionInfoArray h ! unat I)"], rule exI [of _ id]) (simp add: upd_stats_def upd_region_def)

lemma only_region_stats [simp]: "only_region I h (upd_stats g h)"
  unfolding only_region_def
  by (rule exI [of _ "RegionInfoArray h ! unat I"], rule exI [of _ g]) (simp add: upd_stats_def upd_region_def)

lemma only_regionD:
  assumes "only_region I h h'"
  shows "PerClassArray h' = PerClassArray h" "get_class J h' = get_class J h"
    "length (RegionInfoArray h') = length (RegionInfoArray h)"
    "J \<noteq> I \<Longrightarrow> getRegionInfo J h' = getRegionInfo J h"
  using assms
  by (auto simp: only_region_def get_class_def upd_stats_def upd_region_def getRegionInfo_def nth_list_update
      word_unat_eq_iff)

definition same_geometry :: "region \<Rightarrow> region \<Rightarrow> bool" where
  "same_geometry r r' \<longleftrightarrow> MemMapBase r' = MemMapBase r \<and> RegionBeg r' = RegionBeg r
     \<and> MappedUser r' = MappedUser r \<and> AllocatedUser r' = AllocatedUser r"

lemma same_geometryD:
  assumes "same_geometry r r'"
  shows "region_ok cfg I r' = region_ok cfg I r" "num_blocks cfg I r' = num_blocks cfg I r"
    "RegionBeg r' = RegionBeg r" "MappedUser r' = MappedUser r" "AllocatedUser r' = AllocatedUser r"
    "MemMapBase r' = MemMapBase r"
  using assms by (simp_all add: same_geometry_def num_blocks_def region_ok_cong [of r' r])

lemma same_geometry_trans: "same_geometry r r1 \<Longrightarrow> same_geometry r1 r2 \<Longrightarrow> same_geometry r r2"
  by (simp add: same_geometry_def)

lemma butlast_last_mset: "xs \<noteq> [] \<Longrightarrow> mset xs = add_mset (last xs) (mset (butlast xs))"
proof -
  assume "xs \<noteq> []"
  then have "mset xs = mset (butlast xs @ [last xs])" by simp
  then show ?thesis by simp
qed

definition is_offset :: "primary_config \<Rightarrow> uptr \<Rightarrow> bool" where
  "is_offset cfg x \<longleftrightarrow> (\<exists>y. x = drop_bit (CompactPtrScale cfg) y)"

lemma compact_decompact_offset:
  "is_offset cfg x \<Longrightarrow> compactPtrInternal cfg Base (decompactPtrInternal cfg Base x) = x"
  by (auto simp: is_offset_def intro: compact_decompact)

lemma push_batch_region_ok:
  assumes cfg: "primary_ok cfg" and ne: "Xs \<noteq> []" and off: "\<forall>x \<in> set Xs. is_offset cfg x"
    and fit: "groups_fit (batch_limit cfg) (BlockList r)"
  defines "r' \<equiv> pushBatchClassBlocks_region cfg Xs r"
  shows "same_geometry r r'" and "groups_fit (batch_limit cfg) (BlockList r')"
    and "groups_blocks cfg (RegionBeg r) (BlockList r') = groups_blocks cfg (RegionBeg r) (BlockList r) + mset Xs"
proof -
  let ?L = "batch_limit cfg" and ?dec = "decompactPtrInternal cfg (RegionBeg r)"
  note L = batch_limit_ge [OF cfg]
  have L2: "2 \<le> unat ?L" using L by (simp add: word_le_nat_alt)
  note ins = batch_class_insert_ok [OF L]
  show "same_geometry r r'"
    by (simp add: r'_def pushBatchClassBlocks_region_def same_geometry_def Let_def split: prod.splits)
  define push :: "batch_group \<Rightarrow> uptr list \<Rightarrow> batch_group" where "push = (\<lambda>G Array.
    let (G, Array) = (if Array \<noteq> [] \<and> Batches G = []
        then (G\<lparr>Batches := [\<lparr>BatchAddr = ?dec (last Array),
               Blocks = [last Array, compactPtrInternal cfg (RegionBeg r) (GroupAddr G)]\<rparr>]\<rparr>, butlast Array)
        else (G, Array))
    in G\<lparr>Batches := batch_class_insert ?dec (MaxCachedPerBatch G) Array (Batches G)\<rparr>)"
  have P: "MaxCachedPerBatch (push G Array) = ?L \<and> batches_fit ?L (Batches (push G Array))
      \<and> group_blocks cfg (RegionBeg r) (push G Array) = group_blocks cfg (RegionBeg r) G + mset Array"
    if "MaxCachedPerBatch G = ?L" "batches_fit ?L (Batches G)" for G Array
  proof (cases "Batches G = []")
    case False
    with ins [OF that(2) False, of ?dec Array] that show ?thesis
      by (simp add: push_def group_blocks_batches)
  next
    case True
    show ?thesis
    proof (cases "Array = []")
      case True
      then show ?thesis using that \<open>Batches G = []\<close> by (simp add: push_def group_blocks_def)
    next
      case False
      let ?Bs = "[\<lparr>BatchAddr = ?dec (last Array),
        Blocks = [last Array, compactPtrInternal cfg (RegionBeg r) (GroupAddr G)]\<rparr>]"
      have "batches_fit ?L ?Bs" using L2 by simp
      with ins [OF this, of ?dec "butlast Array"] that True False show ?thesis
        by (simp add: push_def group_blocks_batches butlast_last_mset [OF False])
          (simp add: group_blocks_def)
    qed
  qed
  show "groups_fit ?L (BlockList r')" and
    "groups_blocks cfg (RegionBeg r) (BlockList r') = groups_blocks cfg (RegionBeg r) (BlockList r) + mset Xs"
  proof -
    have "groups_fit ?L (BlockList r') \<and>
      groups_blocks cfg (RegionBeg r) (BlockList r') = groups_blocks cfg (RegionBeg r) (BlockList r) + mset Xs"
    proof (cases "BlockList r")
      case (Cons G Gs)
      then have "BlockList r' = push G Xs # Gs"
        by (simp add: r'_def pushBatchClassBlocks_region_def push_def Let_def split: prod.splits)
      then show ?thesis using P [of G Xs] fit Cons by (simp add: ac_simps)
    next
      case Nil
      let ?G = "\<lparr>GroupAddr = ?dec (last Xs), CompactPtrGroupBase = 0, BytesInBGAtLastCheckpoint = 0,
        Batches = [], MaxCachedPerBatch = ?L\<rparr>"
      from Nil have "BlockList r' = [push ?G (butlast Xs)]"
        by (simp add: r'_def pushBatchClassBlocks_region_def push_def Let_def batch_limit_def split: prod.splits)
      moreover have "group_blocks cfg (RegionBeg r) ?G = {#last Xs#}"
        using off ne by (simp add: group_blocks_def compact_decompact_offset)
      ultimately show ?thesis using P [of ?G "butlast Xs"] Nil butlast_last_mset [OF ne] by simp
    qed
    then show "groups_fit ?L (BlockList r')" and
      "groups_blocks cfg (RegionBeg r) (BlockList r') = groups_blocks cfg (RegionBeg r) (BlockList r) + mset Xs"
      by simp_all
  qed
qed

section \<open>Popping and carving, the part common to all classes\<close>

lemma append_moved: "moveNToArray n B = (A, B') \<Longrightarrow>
    mset (Blocks B) = mset A + mset (Blocks B') \<and> length A \<le> n \<and> length (Blocks B') \<le> length (Blocks B)"
  using mset_take_drop [of "length (Blocks B) - n" "Blocks B"] by (auto simp: moveNToArray_def ac_simps)

definition class_count :: "primary_config \<Rightarrow> uptr \<Rightarrow> u16" where
  "class_count cfg I = getMaxCached (PSizeMap cfg) (p_getSizeByClassId cfg I)"

definition populate_target :: "primary_config \<Rightarrow> uptr \<Rightarrow> region \<Rightarrow> uptr" where
  "populate_target cfg I r = AllocatedUser r + ucast (class_count cfg I) * p_getSizeByClassId cfg I"

definition populate_blocks :: "primary_config \<Rightarrow> uptr \<Rightarrow> region \<Rightarrow> u32" where
  "populate_blocks cfg I r = MinU (MaxNumBatches cfg * ucast (class_count cfg I))
     (ucast ((MappedUser r - AllocatedUser r) div p_getSizeByClassId cfg I))"

lemma alloc_le:
  assumes "primary_ok cfg" "region_ok cfg I r"
  shows "unat (AllocatedUser r) \<le> unat (MappedUser r)" "unat (MappedUser r) \<le> 2 ^ 35"
  using assms region_ok_mapped [OF assms(2)] region_size_le [OF assms(1)]
  by (auto simp: region_ok_def word_le_nat_alt)

lemma unat_populate_target:
  assumes "primary_ok cfg" "I < NumClasses (PSizeMap cfg)" "region_ok cfg I r"
  shows "unat (populate_target cfg I r) = unat (AllocatedUser r) + unat (class_count cfg I) * block_size cfg I"
    and "unat (populate_target cfg I r) < 2 ^ 60"
proof -
  let ?S = "block_size cfg I" and ?m = "unat (class_count cfg I)"
  have b: "?m * ?S < 2 ^ 53"
  proof -
    have "?m * ?S \<le> 65535 * 2 ^ 36"
      using ok_size(2) [OF assms(1,2)] unat_less_16 [of "class_count cfg I"] by (intro mult_le_mono) linarith+
    then show ?thesis by simp
  qed
  have u: "unat (ucast (class_count cfg I) * p_getSizeByClassId cfg I) = ?m * ?S"
    unfolding block_size_def using b
    by (subst unat_mult_small) (simp_all add: unat_ucast_up block_size_def)
  show "unat (populate_target cfg I r) = unat (AllocatedUser r) + ?m * ?S"
    unfolding populate_target_def using b u alloc_le [OF assms(1,3)] by (subst unat_add_small) simp_all
  then show "unat (populate_target cfg I r) < 2 ^ 60" using b alloc_le [OF assms(1,3)] by simp
qed

lemma populate_blocks_bounds:
  assumes "primary_ok cfg" "I < NumClasses (PSizeMap cfg)" "region_ok cfg I r"
    and "populate_target cfg I r \<le> MappedUser r"
  shows "unat (populate_blocks cfg I r) \<le> (unat (MappedUser r) - unat (AllocatedUser r)) div block_size cfg I"
    and "0 < class_count cfg I \<Longrightarrow> 0 < unat (populate_blocks cfg I r)"
proof -
  let ?S = "block_size cfg I" and ?m = "unat (class_count cfg I)"
  let ?q = "(unat (MappedUser r) - unat (AllocatedUser r)) div ?S"
  note S = ok_size [OF assms(1,2)] and le = alloc_le [OF assms(1,3)]
  have "unat ((MappedUser r - AllocatedUser r) div p_getSizeByClassId cfg I) = ?q"
    using le by (simp add: unat_div unat_sub word_le_nat_alt block_size_def)
  moreover have "?q < 2 ^ 32"
  proof -
    have "?q \<le> unat (MappedUser r) div 16" using S(1) by (intro order.trans [OF div_le_mono2 div_le_mono]) auto
    then show ?thesis using le(2) by simp
  qed
  ultimately have q: "unat (ucast ((MappedUser r - AllocatedUser r) div p_getSizeByClassId cfg I) :: u32) = ?q"
    by (simp add: unat_ucast_eq)
  then show "unat (populate_blocks cfg I r) \<le> ?q"
    by (simp add: populate_blocks_def min_def word_le_nat_alt)
  have "unat (AllocatedUser r) + ?m * ?S \<le> unat (MappedUser r)"
    using assms(4) unat_populate_target(1) [OF assms(1-3)] by (simp add: word_le_nat_alt)
  then have "?m * ?S div ?S \<le> ?q" by (intro div_le_mono) simp
  then have mq: "?m \<le> ?q" using S(1) by simp
  have c: "unat (MaxNumBatches cfg * ucast (class_count cfg I)) = unat (MaxNumBatches cfg) * ?m"
  proof -
    have n: "unat (MaxNumBatches cfg) \<le> 2 ^ 15" using assms(1) by (simp add: primary_ok_def)
    have "?m < 65536" by (rule unat_less_16)
    with n have "unat (MaxNumBatches cfg) * ?m \<le> 2 ^ 15 * 65536" by (intro mult_le_mono) linarith+
    then show ?thesis by (subst unat_mult_small) (simp_all add: unat_ucast_up)
  qed
  show "0 < unat (populate_blocks cfg I r)" if "0 < class_count cfg I"
  proof -
    have "0 < ?m" using that by (simp add: word_less_nat_alt)
    then have "0 < unat (MaxNumBatches cfg * ucast (class_count cfg I))" "0 < ?q"
      using assms(1) mq by (auto simp: c primary_ok_def)
    then show ?thesis using q by (simp add: populate_blocks_def min_def)
  qed
qed

lemma map_more_fails:
  "map_more cfg os I T h = (False, h') \<Longrightarrow> h' = h \<or> h' = upd_region I (\<lambda>r. r\<lparr>Exhausted := True\<rparr>) h"
  by (auto simp: map_more_def Let_def split: if_splits)

text \<open>The first half of \<^verbatim>\<open>populateFreeListAndPopBlocks\<close>.\<close>

lemma populate_map:
  assumes cfg: "primary_ok cfg" "I < NumClasses (PSizeMap cfg)" "unat I < length (RegionInfoArray h)"
    and ok: "region_ok cfg I (getRegionInfo I h)"
    and m: "(if populate_target cfg I (getRegionInfo I h) > MappedUser (getRegionInfo I h)
             then map_more cfg os I (populate_target cfg I (getRegionInfo I h)) h else (True, h)) = (mapped, h1)"
  shows "only_region I h h1"
    and "\<exists>M E. getRegionInfo I h1 = (getRegionInfo I h)\<lparr>MappedUser := M, Exhausted := E\<rparr>"
    and "region_ok cfg I (getRegionInfo I h1)"
    and "mapped \<Longrightarrow> populate_target cfg I (getRegionInfo I h1) \<le> MappedUser (getRegionInfo I h1)"
proof -
  let ?r = "getRegionInfo I h" and ?T = "populate_target cfg I (getRegionInfo I h)"
  have "only_region I h h1
      \<and> (\<exists>M E. getRegionInfo I h1 = ?r\<lparr>MappedUser := M, Exhausted := E\<rparr>)
      \<and> region_ok cfg I (getRegionInfo I h1)
      \<and> (mapped \<longrightarrow> populate_target cfg I (getRegionInfo I h1) \<le> MappedUser (getRegionInfo I h1))"
  proof (cases "?T > MappedUser ?r")
    case False
    have "\<exists>M E. ?r = ?r\<lparr>MappedUser := M, Exhausted := E\<rparr>"
      by (rule exI [of _ "MappedUser ?r"], rule exI [of _ "Exhausted ?r"]) simp
    then show ?thesis using False m ok by auto
  next
    case True
    then have mm: "map_more cfg os I ?T h = (mapped, h1)" using m by simp
    show ?thesis
    proof (cases mapped)
      case True
      with mm have "map_more cfg os I ?T h = (True, h1)" by simp
      from map_more_ok [OF cfg(1,3) ok \<open>?T > MappedUser ?r\<close> unat_populate_target(2) [OF cfg(1,2) ok] this]
      obtain M g where M: "h1 = upd_stats g (upd_region I (\<lambda>r. r\<lparr>MappedUser := M\<rparr>) h)" "?T \<le> M"
        "region_ok cfg I (?r\<lparr>MappedUser := M\<rparr>)" by blast
      have "only_region I h h1" unfolding M(1) by (rule only_region_trans [OF only_region_upd only_region_stats])
      moreover have g: "getRegionInfo I h1 = ?r\<lparr>MappedUser := M\<rparr>"
        by (simp add: M(1) getRegionInfo_upd_region [OF cfg(3)])
      moreover have "\<exists>M' E. getRegionInfo I h1 = ?r\<lparr>MappedUser := M', Exhausted := E\<rparr>"
        by (rule exI [of _ M], rule exI [of _ "Exhausted ?r"]) (simp add: g)
      ultimately show ?thesis using M by (simp add: populate_target_def)
    next
      case False
      with mm have "h1 = h \<or> h1 = upd_region I (\<lambda>r. r\<lparr>Exhausted := True\<rparr>) h" by (auto dest: map_more_fails)
      then show ?thesis
      proof
        assume h1: "h1 = h"
        have "\<exists>M E. ?r = ?r\<lparr>MappedUser := M, Exhausted := E\<rparr>"
          by (rule exI [of _ "MappedUser ?r"], rule exI [of _ "Exhausted ?r"]) simp
        then show ?thesis using h1 False ok by simp
      next
        assume h1: "h1 = upd_region I (\<lambda>r. r\<lparr>Exhausted := True\<rparr>) h"
        then have g: "getRegionInfo I h1 = ?r\<lparr>Exhausted := True\<rparr>" by (simp add: getRegionInfo_upd_region [OF cfg(3)])
        have "\<exists>M E. getRegionInfo I h1 = ?r\<lparr>MappedUser := M, Exhausted := E\<rparr>"
          by (rule exI [of _ "MappedUser ?r"], rule exI [of _ True]) (simp add: g)
        moreover have "region_ok cfg I (getRegionInfo I h1)" using ok by (simp add: g region_ok_def)
        ultimately show ?thesis using h1 False by simp
      qed
    qed
  qed
  then show "only_region I h h1"
    "\<exists>M E. getRegionInfo I h1 = ?r\<lparr>MappedUser := M, Exhausted := E\<rparr>"
    "region_ok cfg I (getRegionInfo I h1)"
    "mapped \<Longrightarrow> populate_target cfg I (getRegionInfo I h1) \<le> MappedUser (getRegionInfo I h1)"
    by blast+
qed

section \<open>The batch class as a source of blocks\<close>

definition batch_inv :: "primary_config \<Rightarrow> heap \<Rightarrow> bool" where
  "batch_inv cfg h \<longleftrightarrow> 0 < length (RegionInfoArray h)
     \<and> region_ok cfg BatchClassId (getRegionInfo BatchClassId h)
     \<and> groups_fit (batch_limit cfg) (BlockList (getRegionInfo BatchClassId h))"

lemma unat_BatchClassId [simp]: "unat BatchClassId = 0"
  by (simp add: BatchClassId_def)

lemma batch_region_upd:
  "0 < length (RegionInfoArray h) \<Longrightarrow>
    getRegionInfo BatchClassId (upd_region BatchClassId f h) = f (getRegionInfo BatchClassId h)"
  using getRegionInfo_upd_region [of BatchClassId h BatchClassId f] by simp

lemma batch_class_exists: "primary_ok cfg \<Longrightarrow> BatchClassId < NumClasses (PSizeMap cfg)"
  using unat_NumClasses [of "PSizeMap cfg"]
  by (simp add: primary_ok_def BatchClassId_def word_less_nat_alt num_classes_def)

text \<open>One operation on the batch class: it changes that region only, keeps its invariant, carves the
  offsets \<open>new\<close> and gives away \<open>out\<close>.\<close>

definition batch_step :: "primary_config \<Rightarrow> uptr multiset \<Rightarrow> uptr multiset \<Rightarrow> heap \<Rightarrow> heap \<Rightarrow> bool" where
  "batch_step cfg new out h h' \<longleftrightarrow> only_region BatchClassId h h' \<and> batch_inv cfg h'
     \<and> RegionBeg (getRegionInfo BatchClassId h') = RegionBeg (getRegionInfo BatchClassId h)
     \<and> carved_blocks cfg BatchClassId h' = carved_blocks cfg BatchClassId h + new
     \<and> free_blocks cfg BatchClassId h + new = free_blocks cfg BatchClassId h' + out"

lemma batch_step_trans:
  assumes "batch_step cfg n1 o1 h h1" "batch_step cfg n2 o2 h1 h2"
  shows "batch_step cfg (n1 + n2) (o1 + o2) h h2"
proof -
  have "free_blocks cfg BatchClassId h + (n1 + n2) = free_blocks cfg BatchClassId h1 + n2 + o1"
    using assms(1) by (simp add: batch_step_def add.assoc [symmetric])
  also have "\<dots> = free_blocks cfg BatchClassId h2 + (o1 + o2)"
    using assms(2) by (simp add: batch_step_def ac_simps)
  finally show ?thesis using assms
    by (auto simp: batch_step_def ac_simps intro: only_region_trans)
qed

lemma batch_step_refl: "batch_inv cfg h \<Longrightarrow> batch_step cfg {#} {#} h h"
  by (simp add: batch_step_def)

lemma pop_batch_impl:
  assumes inv: "batch_inv cfg h" and pop: "popBlocksImpl cfg d BatchClassId n h = Inr (bs, h')"
  shows "only_region BatchClassId h h'"
    and "same_geometry (getRegionInfo BatchClassId h) (getRegionInfo BatchClassId h')"
    and "groups_fit (batch_limit cfg) (BlockList (getRegionInfo BatchClassId h'))"
    and "free_blocks cfg BatchClassId h = free_blocks cfg BatchClassId h' + mset bs"
    and "length bs \<le> max 1 (unat (batch_limit cfg))"
proof -
  let ?r = "getRegionInfo BatchClassId h"
  have l: "0 < length (RegionInfoArray h)" using inv by (simp add: batch_inv_def)
  note upd = batch_region_upd [OF l] batch_region_upd
  have fit: "groups_fit (batch_limit cfg) (BlockList ?r)" using inv by (simp add: batch_inv_def)
  have "only_region BatchClassId h h' \<and> same_geometry ?r (getRegionInfo BatchClassId h')
    \<and> groups_fit (batch_limit cfg) (BlockList (getRegionInfo BatchClassId h'))
    \<and> free_blocks cfg BatchClassId h = free_blocks cfg BatchClassId h' + mset bs
    \<and> length bs \<le> max 1 (unat (batch_limit cfg))"
  proof (cases "BlockList ?r")
    case Nil
    then show ?thesis using pop fit by (auto simp: popBlocksImpl_def same_geometry_def)
  next
    case (Cons BG BGs)
    show ?thesis
    proof (cases "Batches BG")
      case Nil
      then have bs: "bs = [compactPtrInternal cfg (RegionBeg ?r) (GroupAddr BG)]"
        and h': "h' = upd_region BatchClassId (\<lambda>r. r\<lparr>BlockList := BGs, PoppedBlocks := PoppedBlocks r + 1\<rparr>) h"
        using pop Cons by (auto simp: popBlocksImpl_def)
      show ?thesis using fit Cons Nil l
        by (simp add: bs h' upd same_geometry_def free_blocks_def group_blocks_def)
    next
      case (Cons B Bs)
      note BG = \<open>BlockList ?r = BG # BGs\<close> Cons
      have fB: "length (Blocks B) \<le> unat (batch_limit cfg)" using fit BG by simp
      note c = unat_getCount [OF fB]
      have mv: "moveNToArray (unat (getCount B)) B = (Blocks B, B\<lparr>Blocks := []\<rparr>)"
        by (simp add: moveNToArray_def c)
      note uu = upd_region_upd [of BatchClassId h] upd_region_upd [of BatchClassId]
      define f :: "region \<Rightarrow> region" where "f = (\<lambda>r. r\<lparr>BlockList := (if Bs \<noteq> [] then BG\<lparr>Batches := Bs\<rparr> # BGs else BGs),
        PoppedBlocks := PoppedBlocks r + ucast (getCount B)\<rparr>)"
      have bs: "bs = Blocks B" and h': "h' = upd_region BatchClassId f h"
        using pop BG mv l by (auto simp: popBlocksImpl_def Let_def uu f_def split: if_splits)
      have f: "h' = upd_region BatchClassId f h" "\<And>r. same_geometry r (f r)"
        "\<And>r. BlockList (f r) = (if Bs \<noteq> [] then BG\<lparr>Batches := Bs\<rparr> # BGs else BGs)"
        using h' by (simp_all add: f_def same_geometry_def)
      have rb: "RegionBeg (f ?r) = RegionBeg ?r" using f(2) by (simp add: same_geometry_def)
      have "free_blocks cfg BatchClassId h = free_blocks cfg BatchClassId h' + mset bs"
        using BG by (cases "Bs = []") (simp_all add: free_blocks_def f upd l rb bs group_blocks_batches)
      moreover have "groups_fit (batch_limit cfg) (BlockList (getRegionInfo BatchClassId h'))"
        using fit BG by (auto simp: f upd l)
      ultimately show ?thesis using f(2) fB by (simp add: f(1) upd l bs)
    qed
  qed
  then show "only_region BatchClassId h h'" "same_geometry ?r (getRegionInfo BatchClassId h')"
    "groups_fit (batch_limit cfg) (BlockList (getRegionInfo BatchClassId h'))"
    "free_blocks cfg BatchClassId h = free_blocks cfg BatchClassId h' + mset bs"
    "length bs \<le> max 1 (unat (batch_limit cfg))" by blast+
qed

lemma pop_batch_impl_step:
  assumes "batch_inv cfg h" "popBlocksImpl cfg d BatchClassId n h = Inr (bs, h')"
  shows "batch_step cfg {#} (mset bs) h h'"
  using pop_batch_impl [OF assms] assms(1)
  by (simp add: batch_step_def batch_inv_def only_regionD(3) same_geometryD carved_blocks_def)

lemma nth_block_offset [simp]: "is_offset cfg (nth_block cfg I n)"
  unfolding is_offset_def nth_block_def by blast

lemma push_batch_class_blocks:
  assumes "primary_ok cfg" "batch_inv cfg h" "Xs \<noteq> []" "\<forall>x \<in> set Xs. is_offset cfg x"
  defines "h' \<equiv> pushBatchClassBlocks cfg Xs h"
  shows "only_region BatchClassId h h'"
    and "same_geometry (getRegionInfo BatchClassId h) (getRegionInfo BatchClassId h')"
    and "groups_fit (batch_limit cfg) (BlockList (getRegionInfo BatchClassId h'))"
    and "free_blocks cfg BatchClassId h' = free_blocks cfg BatchClassId h + mset Xs"
proof -
  have l: "0 < length (RegionInfoArray h)" using assms(2) by (simp add: batch_inv_def)
  have fit: "groups_fit (batch_limit cfg) (BlockList (getRegionInfo BatchClassId h))"
    using assms(2) by (simp add: batch_inv_def)
  note p = push_batch_region_ok [OF assms(1,3,4) fit]
  show "only_region BatchClassId h h'" by (simp add: h'_def pushBatchClassBlocks_def)
  show "same_geometry (getRegionInfo BatchClassId h) (getRegionInfo BatchClassId h')"
    "groups_fit (batch_limit cfg) (BlockList (getRegionInfo BatchClassId h'))"
    using p by (simp_all add: h'_def pushBatchClassBlocks_def batch_region_upd [OF l])
  show "free_blocks cfg BatchClassId h' = free_blocks cfg BatchClassId h + mset Xs"
    using p by (simp add: h'_def pushBatchClassBlocks_def free_blocks_def batch_region_upd [OF l] same_geometryD)
qed

definition populate_finish :: "primary_config \<Rightarrow> uptr \<Rightarrow> u32 \<Rightarrow> heap \<Rightarrow> heap" where
  "populate_finish cfg I N h =
     upd_region I (\<lambda>r. r\<lparr>AllocatedUser := AllocatedUser r + p_getSizeByClassId cfg I * ucast N\<rparr>)
       (upd_stats (stats_add StatFree (p_getSizeByClassId cfg I * ucast N))
         (upd_region I (\<lambda>r. r\<lparr>PushedBlocks := PushedBlocks r - ucast N\<rparr>) h))"

lemma populate_unfold:
  assumes "MemMapBase (getRegionInfo I h) \<noteq> None"
  shows "populateFreeListAndPopBlocks cfg os getb dealloc I n h =
    (let T = populate_target cfg I (getRegionInfo I h);
         (mapped, h) = (if T > MappedUser (getRegionInfo I h) then map_more cfg os I T h else (True, h))
     in if \<not> mapped then Inr ([], h)
        else let r = getRegionInfo I h; N = populate_blocks cfg I r;
                 Array = new_blocks cfg (RegionBeg r) (p_getSizeByClassId cfg I) r (unat N)
             in bindE (if I \<noteq> BatchClassId then push_new_blocks cfg getb I Array h
                       else Inr (pushBatchClassBlocks cfg Array h)) (\<lambda>h.
                bindE (popBlocksImpl cfg dealloc I n h) (\<lambda>(ToArray, h).
                  Inr (ToArray, populate_finish cfg I N h))))"
proof -
  have c: "(\<not> EnableContiguousRegions cfg \<and> MemMapBase (getRegionInfo I h) = None) = False" using assms by simp
  show ?thesis
    unfolding populateFreeListAndPopBlocks_def populate_target_def class_count_def populate_blocks_def
      populate_finish_def Let_def
    by (simp only: c if_False if_True prod.case not_True_eq_False)
qed

lemma populate_finish_ok:
  assumes "unat I < length (RegionInfoArray h)"
  shows "only_region I h (populate_finish cfg I N h)"
    and "getRegionInfo I (populate_finish cfg I N h) = (getRegionInfo I h)
      \<lparr>PushedBlocks := PushedBlocks (getRegionInfo I h) - ucast N,
       AllocatedUser := AllocatedUser (getRegionInfo I h) + p_getSizeByClassId cfg I * ucast N\<rparr>"
  using assms
  by (auto simp: populate_finish_def getRegionInfo_upd_region
      intro: only_region_trans [OF only_region_trans [OF only_region_upd only_region_stats] only_region_upd])

text \<open>Carving \<open>N\<close> blocks.\<close>

lemma carve:
  assumes cfg: "primary_ok cfg" "I < NumClasses (PSizeMap cfg)" "unat I < length (RegionInfoArray h)"
    and r: "region_ok cfg I r" "populate_target cfg I r \<le> MappedUser r" "same_geometry r (getRegionInfo I h)"
    and Array: "Array = new_blocks cfg (RegionBeg r) (p_getSizeByClassId cfg I) r (unat (populate_blocks cfg I r))"
  shows "region_ok cfg I (getRegionInfo I (populate_finish cfg I (populate_blocks cfg I r) h))"
    and "carved_blocks cfg I (populate_finish cfg I (populate_blocks cfg I r) h) = carved_blocks cfg I h + mset Array"
    and "0 < class_count cfg I \<Longrightarrow> Array \<noteq> []"
    and "\<forall>x \<in> set Array. is_offset cfg x"
proof -
  let ?N = "populate_blocks cfg I r" and ?r = "getRegionInfo I h"
  have S: "0 < block_size cfg I" using ok_size(1) [OF cfg(1,2)] by linarith
  note arr = new_blocks_nth [OF r(1) S, of "unat ?N"]
  have "unat (ucast ?N :: uptr) = unat ?N" by (simp add: unat_ucast_up)
  then have N: "unat (ucast ?N :: uptr) \<le> (unat (MappedUser ?r) - unat (AllocatedUser ?r)) div block_size cfg I"
    using populate_blocks_bounds(1) [OF cfg(1,2) r(1,2)] r(3) by (simp add: same_geometryD)
  have ok: "region_ok cfg I ?r" using r(1,3) by (simp add: same_geometryD)
  note more = alloc_more [OF ok S N]
  note fin = populate_finish_ok(2) [OF cfg(3)]
  have k: "num_blocks cfg I ?r = num_blocks cfg I r" using r(3) by (simp add: same_geometryD)
  show "region_ok cfg I (getRegionInfo I (populate_finish cfg I ?N h))"
    using more(1) unfolding fin by (simp add: region_ok_def)
  have "num_blocks cfg I (getRegionInfo I (populate_finish cfg I ?N h)) = num_blocks cfg I r + unat ?N"
    using more(2) k unfolding fin by (simp add: num_blocks_def unat_ucast_up)
  moreover have "[0 ..< num_blocks cfg I r + unat ?N]
      = [0 ..< num_blocks cfg I r] @ [num_blocks cfg I r ..< num_blocks cfg I r + unat ?N]"
    by (rule upt_add_eq_append) simp
  ultimately show "carved_blocks cfg I (populate_finish cfg I ?N h) = carved_blocks cfg I h + mset Array"
    by (simp add: carved_blocks_def Array arr k)
  show "Array \<noteq> []" if "0 < class_count cfg I"
    using populate_blocks_bounds(2) [OF cfg(1,2) r(1,2) that] by (simp add: Array arr)
  show "\<forall>x \<in> set Array. is_offset cfg x" by (auto simp: Array arr)
qed

lemma populate_batch:
  assumes cfg: "primary_ok cfg" and inv: "batch_inv cfg h"
    and pop: "populateFreeListAndPopBlocks cfg os g d BatchClassId n h = Inr (bs, h')"
  shows "\<exists>new. batch_step cfg new (mset bs) h h' \<and> length bs \<le> max 1 (unat (batch_limit cfg))"
proof -
  let ?I = BatchClassId
  note I = batch_class_exists [OF cfg]
  have l: "unat ?I < length (RegionInfoArray h)" and ok: "region_ok cfg ?I (getRegionInfo ?I h)"
    using inv by (auto simp: batch_inv_def)
  have base: "MemMapBase (getRegionInfo ?I h) \<noteq> None" using ok by (auto simp: region_ok_def)
  define T where "T = populate_target cfg ?I (getRegionInfo ?I h)"
  obtain mapped h1 where m: "(if T > MappedUser (getRegionInfo ?I h) then map_more cfg os ?I T h else (True, h)) = (mapped, h1)"
    by (meson surj_pair)
  note pm = populate_map [OF cfg I l ok m [unfolded T_def]]
  obtain M E where r1: "getRegionInfo ?I h1 = (getRegionInfo ?I h)\<lparr>MappedUser := M, Exhausted := E\<rparr>" using pm(2) by blast
  have l1: "unat ?I < length (RegionInfoArray h1)" using l pm(1) by (simp add: only_regionD(3))
  have inv1: "batch_inv cfg h1" using inv pm(3) l1 by (simp add: batch_inv_def r1)
  have s1: "batch_step cfg {#} {#} h h1"
    using pm(1) inv1 by (simp add: batch_step_def r1 carved_blocks_def num_blocks_def free_blocks_def)
  show ?thesis
  proof (cases mapped)
    case False
    then have "bs = []" "h' = h1" 
      using pop unfolding populate_unfold [OF base] Let_def T_def [symmetric] m by simp_all
    then show ?thesis using s1 by auto
  next
    case True
    let ?r1 = "getRegionInfo ?I h1"
    let ?N = "populate_blocks cfg ?I ?r1"
    define Array where "Array = new_blocks cfg (RegionBeg ?r1) (p_getSizeByClassId cfg ?I) ?r1 (unat ?N)"
    define h2 where "h2 = pushBatchClassBlocks cfg Array h1"
    obtain h3 where p: "popBlocksImpl cfg d ?I n h2 = Inr (bs, h3)" and h': "h' = populate_finish cfg ?I ?N h3"
      using pop True unfolding populate_unfold [OF base] Let_def T_def [symmetric] m
      by (auto simp: bindE_eq_Inr h2_def Array_def)
    have "0 < class_count cfg ?I" using batch_limit_ge [OF cfg]
      by (auto simp: class_count_def batch_limit_def word_less_nat_alt word_le_nat_alt)
    then have A: "Array \<noteq> []" "\<forall>x \<in> set Array. is_offset cfg x"
      using carve(3,4) [OF cfg I l1 pm(3) pm(4) [OF True] _ Array_def] by (simp_all add: same_geometry_def)
    note p2 = push_batch_class_blocks [OF cfg inv1 A, folded h2_def]
    have l2: "unat ?I < length (RegionInfoArray h2)" using l1 p2(1) by (simp add: only_regionD(3))
    have inv2: "batch_inv cfg h2" using pm(3) p2(2,3) l2 by (simp add: batch_inv_def same_geometryD)
    note p3 = pop_batch_impl [OF inv2 p]
    have l3: "unat ?I < length (RegionInfoArray h3)" using l2 p3(1) by (simp add: only_regionD(3))
    have geo: "same_geometry ?r1 (getRegionInfo ?I h3)" using p2(2) p3(2) by (rule same_geometry_trans)
    note c = carve [OF cfg I l3 pm(3) pm(4) [OF True] geo Array_def, folded h']
    note f = populate_finish_ok [OF l3, of cfg ?N, folded h']
    have or: "only_region ?I h1 h'" using p2(1) p3(1) f(1) by (blast intro: only_region_trans)
    have "batch_inv cfg h'" using c(1) p3(3) l3 f(1) by (simp add: batch_inv_def f(2) only_regionD(3))
    moreover have "carved_blocks cfg ?I h3 = carved_blocks cfg ?I h1"
      using geo by (simp add: carved_blocks_def same_geometryD)
    moreover have "free_blocks cfg ?I h' = free_blocks cfg ?I h3" by (simp add: free_blocks_def f(2))
    ultimately have "batch_step cfg (mset Array) (mset bs) h1 h'"
      using or c(2) p2(4) p3(4) geo by (simp add: batch_step_def f(2) same_geometryD)
    from batch_step_trans [OF s1 this] p3(5) show ?thesis by auto
  qed
qed

text \<open>\<^verbatim>\<open>popBlocks\<close> and \<^verbatim>\<open>pushBlocks\<close> on the batch class.\<close>

lemma pop_batch_class_step:
  assumes cfg: "primary_ok cfg" and inv: "batch_inv cfg h"
    and pop: "pop_batch_class cfg os BatchClassId n h = Inr (bs, h')"
  shows "\<exists>new. batch_step cfg new (mset bs) h h' \<and> length bs \<le> max 1 (unat (batch_limit cfg))"
proof -
  let ?d = "\<lambda>_ h :: heap. Inl NullDeref"
  obtain bs1 h1 where p1: "popBlocksImpl cfg ?d BatchClassId n h = Inr (bs1, h1)"
    using pop by (auto simp: pop_batch_class_def popBlocks_gen_def bindE_eq_Inr)
  note s1 = pop_batch_impl_step [OF inv p1]
  show ?thesis
  proof (cases "bs1 = []")
    case False
    then have "bs = bs1" "h' = h1" using pop p1 by (auto simp: pop_batch_class_def popBlocks_gen_def)
    then show ?thesis using s1 pop_batch_impl(5) [OF inv p1] by auto
  next
    case True
    have inv1: "batch_inv cfg h1" using s1 by (simp add: batch_step_def)
    obtain bs2 h2 where p2: "popBlocksImpl cfg ?d BatchClassId n h1 = Inr (bs2, h2)"
      using pop p1 True by (auto simp: pop_batch_class_def popBlocks_gen_def bindE_eq_Inr)
    note s2 = batch_step_trans [OF s1 pop_batch_impl_step [OF inv1 p2]]
    show ?thesis
    proof (cases "bs2 = []")
      case False
      then have "bs = bs2" "h' = h2" using pop p1 p2 True by (auto simp: pop_batch_class_def popBlocks_gen_def)
      then show ?thesis using s2 True pop_batch_impl(5) [OF inv1 p2] by auto
    next
      case nil: True
      have inv2: "batch_inv cfg h2" using s2 by (simp add: batch_step_def)
      show ?thesis
      proof (cases "Exhausted (getRegionInfo BatchClassId h2)")
        case True
        then have "bs = []" "h' = h2" using pop p1 p2 nil \<open>bs1 = []\<close>
          by (auto simp: pop_batch_class_def popBlocks_gen_def)
        then show ?thesis using s2 nil \<open>bs1 = []\<close> by auto
      next
        case False
        then have "populateFreeListAndPopBlocks cfg os (\<lambda>h. Inl NullDeref) ?d BatchClassId n h2 = Inr (bs, h')"
          using pop p1 p2 nil \<open>bs1 = []\<close>
          by (auto simp: pop_batch_class_def popBlocks_gen_def bindE_eq_Inr split: if_splits)
        from populate_batch [OF cfg inv2 this] obtain new where
          "batch_step cfg new (mset bs) h2 h'" "length bs \<le> max 1 (unat (batch_limit cfg))" by blast
        with batch_step_trans [OF s2] nil \<open>bs1 = []\<close> show ?thesis by fastforce
      qed
    qed
  qed
qed

lemma push_batch_class_eq: "push_batch_class cfg BatchClassId Xs h = Inr (ys, h') \<longleftrightarrow>
    ys = Xs \<and> h' = pushBatchClassBlocks cfg Xs h"
  by (auto simp: push_batch_class_def pushBlocks_gen_def)

lemma carved_offset: "x \<in># carved_blocks cfg I h \<Longrightarrow> is_offset cfg x"
  by (auto simp: carved_blocks_def)

lemma push_batch_class_step:
  assumes "primary_ok cfg" "batch_inv cfg h" "Xs \<noteq> []"
    and le: "free_blocks cfg BatchClassId h + mset Xs \<subseteq># carved_blocks cfg BatchClassId h"
  shows "only_region BatchClassId h (pushBatchClassBlocks cfg Xs h)"
    and "batch_inv cfg (pushBatchClassBlocks cfg Xs h)"
    and "free_blocks cfg BatchClassId (pushBatchClassBlocks cfg Xs h) = free_blocks cfg BatchClassId h + mset Xs"
    and "carved_blocks cfg BatchClassId (pushBatchClassBlocks cfg Xs h) = carved_blocks cfg BatchClassId h"
    and "compactPtr cfg J P (pushBatchClassBlocks cfg Xs h) = compactPtr cfg J P h"
proof -
  have "\<forall>x \<in> set Xs. is_offset cfg x"
    using le by (metis carved_offset mset_subset_eqD set_mset_mset union_iff)
  note p = push_batch_class_blocks [OF assms(1-3) this]
  show o: "only_region BatchClassId h (pushBatchClassBlocks cfg Xs h)" by (rule p(1))
  show "batch_inv cfg (pushBatchClassBlocks cfg Xs h)"
    using p assms(2) by (simp add: batch_inv_def only_regionD(3) [OF o] same_geometryD)
  show "free_blocks cfg BatchClassId (pushBatchClassBlocks cfg Xs h) = free_blocks cfg BatchClassId h + mset Xs"
    by (rule p(4))
  show "carved_blocks cfg BatchClassId (pushBatchClassBlocks cfg Xs h) = carved_blocks cfg BatchClassId h"
    using p(2) by (simp add: carved_blocks_def same_geometryD)
  show "compactPtr cfg J P (pushBatchClassBlocks cfg Xs h) = compactPtr cfg J P h"
    using p(2) only_regionD(4) [OF o, of J] by (cases "J = BatchClassId") (simp_all add: compactPtr_def same_geometryD)
qed

lemma batch_limit_le: "primary_ok cfg \<Longrightarrow> unat (batch_limit cfg) < 2 ^ 14"
proof -
  assume "primary_ok cfg"
  then have "unat (MaxNumCachedHint (PSizeMap cfg)) < 2 ^ 14" by (simp add: primary_ok_def MaxNumBlocksInBatch_def)
  moreover have "unat (batch_limit cfg) \<le> unat (MaxNumCachedHint (PSizeMap cfg))"
    by (simp add: batch_limit_def getMaxCached_def min_def word_le_nat_alt)
  ultimately show ?thesis by linarith
qed

lemma double_half: "unat n < 2 ^ 14 \<Longrightarrow> 2 * n div 2 = (n :: u16)"
  by (simp add: word_unat_eq_iff unat_div unat_mult_small)

interpretation bc: block_source "pop_batch_class cfg os" "push_batch_class cfg" "compactPtr cfg"
  "\<lambda>I. I = BatchClassId" "\<lambda>_. 2 * batch_limit cfg" "\<lambda>h. primary_ok cfg \<and> batch_inv cfg h"
  "free_blocks cfg" "carved_blocks cfg" for cfg os
proof (unfold_locales, goal_cases)
  case (1 c I n bs c')
  then show ?case using pop_batch_class_step by (fastforce simp: batch_step_def)
next
  case (2 c I n bs c')
  then show ?case using pop_batch_class_step by (fastforce simp: batch_step_def)
next
  case (3 c I bs c')
  then have "length bs \<le> max 1 (unat (batch_limit cfg))" using pop_batch_class_step by blast
  with 3 show ?case using batch_limit_ge [of cfg] double_half [OF batch_limit_le [of cfg]]
    by (simp add: word_le_nat_alt max_def split: if_splits)
next
  case (4 c I n bs c' J)
  then show ?case using pop_batch_class_step [of cfg c os n bs c'] by (auto simp: batch_step_def only_regionD)
next
  case (5 c I n bs c')
  then show ?case using pop_batch_class_step [of cfg c os n bs c'] by (auto simp: batch_step_def only_regionD)
next
  case (6 c I xs ys c')
  then show ?case using push_batch_class_step(2) [of cfg c xs] by (simp add: push_batch_class_eq)
next
  case (7 c I xs ys c')
  then show ?case using push_batch_class_step(3,4) [of cfg c xs] by (simp add: push_batch_class_eq)
next
  case (8 c I xs ys c' J)
  then show ?case using only_regionD(2) [OF push_batch_class_step(1) [of cfg c xs]]
    by (simp add: push_batch_class_eq)
next
  case (9 c I xs ys c')
  then show ?case using only_regionD(1) [OF push_batch_class_step(1) [of cfg c xs]]
    by (simp add: push_batch_class_eq)
next
  case (10 c I xs ys c' J P)
  then show ?case using push_batch_class_step(5) [of cfg c xs] by (simp add: push_batch_class_eq)
qed (simp_all add: batch_inv_def compactPtr_def free_blocks_def carved_blocks_def)

end
