(* ===== verification/NodeStore.thy ===== *)
theory NodeStore
  imports BatchClass
begin

text \<open>
  Batches and groups of a free list are stored in blocks of the batch class. This theory is about
  the insertion of blocks into the sorted list of groups, which \<^verbatim>\<open>primary64.h\<close> and \<^verbatim>\<open>primary32.h\<close> have in
  common, over any source of such blocks: the locale \<open>node_store\<close> says what the source promises,
  and its lemmas that an insertion keeps every block in the list and every node accounted for.
\<close>

section \<open>Groups and where they are stored\<close>

definition group_addrs :: "batch_group \<Rightarrow> uptr multiset" where
  "group_addrs G = add_mset (GroupAddr G) (mset (map BatchAddr (Batches G)))"

definition groups_addrs :: "batch_group list \<Rightarrow> uptr multiset" where
  "groups_addrs Gs = sum_list (map group_addrs Gs)"

text \<open>A group of a class that is not the batch class has a batch.\<close>

definition groups_ok :: "primary_config \<Rightarrow> batch_group list \<Rightarrow> bool" where
  "groups_ok cfg Gs \<longleftrightarrow> groups_fit (MaxNumBlocksInBatch cfg) Gs \<and> (\<forall>G \<in> set Gs. Batches G \<noteq> [])"

definition listed_blocks :: "batch_group list \<Rightarrow> uptr multiset" where
  "listed_blocks Gs = sum_list (map (\<lambda>G. batches_blocks (Batches G)) Gs)"

lemma groups_simps [simp]:
  "groups_addrs [] = {#}" "groups_addrs (G # Gs) = group_addrs G + groups_addrs Gs"
  "groups_addrs (Gs @ Hs) = groups_addrs Gs + groups_addrs Hs"
  "listed_blocks [] = {#}" "listed_blocks (G # Gs) = batches_blocks (Batches G) + listed_blocks Gs"
  "listed_blocks (Gs @ Hs) = listed_blocks Gs + listed_blocks Hs"
  "groups_ok cfg []"
  "groups_ok cfg (G # Gs) \<longleftrightarrow> MaxCachedPerBatch G = MaxNumBlocksInBatch cfg
     \<and> batches_fit (MaxNumBlocksInBatch cfg) (Batches G) \<and> Batches G \<noteq> [] \<and> groups_ok cfg Gs"
  "groups_ok cfg (Gs @ Hs) \<longleftrightarrow> groups_ok cfg Gs \<and> groups_ok cfg Hs"
  "groups_ok cfg (rev Gs) \<longleftrightarrow> groups_ok cfg Gs"
  by (auto simp: groups_addrs_def groups_ok_def listed_blocks_def)

lemma groups_rev [simp]:
  "groups_addrs (rev Gs) = groups_addrs Gs" "listed_blocks (rev Gs) = listed_blocks Gs"
  by (induction Gs) (simp_all add: add.commute)

lemma groups_blocks_listed: "groups_ok cfg Gs \<Longrightarrow> groups_blocks cfg B0 Gs = listed_blocks Gs"
  by (induction Gs) (simp_all add: group_blocks_batches)

abbreviation "pos_groups \<equiv> \<lambda>(Passed, Rest). rev Passed @ Rest"

lemma advance_groups: "pos_groups (advance T pos) = pos_groups pos"
  by (induction T pos rule: advance.induct) simp_all

lemma mset_insert_from_back: "mset (insert_from_back grp X Sorted) = add_mset X (mset Sorted)"
proof -
  let ?P = "\<lambda>Y. grp X < grp Y"
  have "mset (takeWhile ?P (rev Sorted)) + mset (dropWhile ?P (rev Sorted)) = mset Sorted"
    by (simp only: mset_append [symmetric] takeWhile_dropWhile_id mset_rev)
  then show ?thesis by (simp add: insert_from_back_def add.commute)
qed

lemma mset_group_sort_loop: "mset (snd (group_sort_loop grp Xs acc)) = mset Xs + mset (snd acc)"
  by (induction grp Xs acc rule: group_sort_loop.induct) (simp_all add: mset_insert_from_back)

section \<open>A source of nodes\<close>

text \<open>\<open>held A s\<close>: the source is in order, and the nodes at the addresses \<open>A\<close> are exactly those that
  were taken and not returned. \<open>frame\<close> relates the states an operation of the source may lead to.\<close>

locale node_store =
  fixes getb :: "'s \<Rightarrow> (uptr \<times> 's) result"
    and dealloc :: "uptr \<Rightarrow> 's \<Rightarrow> (bool \<times> 's) result"
    and held :: "uptr multiset \<Rightarrow> 's \<Rightarrow> bool"
    and frame :: "'s \<Rightarrow> 's \<Rightarrow> bool"
  assumes getb_laws: "held A s \<Longrightarrow> getb s = Inr (a, s') \<Longrightarrow> held (add_mset a A) s' \<and> frame s s'"
    and dealloc_laws: "held (add_mset a A) s \<Longrightarrow> dealloc a s = Inr (r, s') \<Longrightarrow> held A s' \<and> frame s s'"
    and frame_refl: "frame s s"
    and frame_trans: "frame s s1 \<Longrightarrow> frame s1 s2 \<Longrightarrow> frame s s2"

context node_store
begin

lemmas frame_same [simp] = frame_refl

lemma getb_held:
  assumes "held A h" "getb h = Inr (a, h')"
  shows "held (add_mset a A) h'" and "frame h h'"
  using getb_laws [OF assms] by blast+

text \<open>What is known of the state of the list while blocks are pushed: \<open>A\<close> are the addresses that
  other lists are stored in.\<close>

definition stored :: "primary_config \<Rightarrow> uptr multiset \<Rightarrow> batch_group list \<Rightarrow> 's \<Rightarrow> bool" where
  "stored cfg A Gs h \<longleftrightarrow> held (A + groups_addrs Gs) h \<and> groups_ok cfg Gs"

lemma InsertBlocks_held:
  assumes "held (A + mset (map BatchAddr Bs)) h" "batches_fit L Bs" "Bs \<noteq> []"
    and "InsertBlocks getb L Xs Bs h = Inr (Bs', h')"
  shows "held (A + mset (map BatchAddr Bs')) h' \<and> frame h h'
    \<and> batches_blocks Bs' = batches_blocks Bs + mset Xs \<and> batches_fit L Bs' \<and> Bs' \<noteq> []"
  using assms
proof (induction g \<equiv> getb L Xs Bs h rule: InsertBlocks.induct)
  case (2 L X Xs Bs h)
  obtain B Cs where Bs: "Bs = B # Cs" using "2.prems" by (cases Bs) auto
  have fit: "length (Blocks B) \<le> unat L" "batches_fit L Cs" using "2.prems"(2) Bs by auto
  show ?case
  proof (cases "L - getCount B = 0")
    case True
    let ?n = "min (unat L) (length (X # Xs))"
    obtain a h1 where g: "getb h = Inr (a, h1)"
      using "2.prems"(4) True Bs by (auto split: sum.splits)
    have L0: "L \<noteq> 0" using "2.prems"(4) True Bs g by auto
    note c = getb_held [OF "2.prems"(1) g]
    let ?C = "\<lparr>BatchAddr = a, Blocks = take ?n (X # Xs)\<rparr>"
    have "held (A + mset (map BatchAddr (?C # B # Cs))) h1" using c(1) by (simp add: Bs)
    moreover have "batches_fit L (?C # B # Cs)" using fit by simp
    moreover have "InsertBlocks getb L (drop ?n (X # Xs)) (?C # B # Cs) h1 = Inr (Bs', h')"
      using "2.prems"(4) True Bs g L0 by (simp add: Let_def)
    ultimately show ?thesis
      using "2.hyps"(1) [OF Bs True g refl L0 refl] mset_take_drop [of ?n "X # Xs"] frame_trans [OF c(2)]
      by (auto simp: Bs ac_simps simp del: take_Cons drop_Cons)
  next
    case False
    let ?n = "min (unat (L - getCount B)) (length (X # Xs))"
    have "held (A + mset (map BatchAddr (appendFromArray (take ?n (X # Xs)) B # Cs))) h"
      using "2.prems"(1) by (simp add: Bs appendFromArray_def)
    moreover have "batches_fit L (appendFromArray (take ?n (X # Xs)) B # Cs)"
      using fit by (simp add: appendFromArray_def room(1))
    moreover have "InsertBlocks getb L (drop ?n (X # Xs)) (appendFromArray (take ?n (X # Xs)) B # Cs) h
        = Inr (Bs', h')"
      using "2.prems"(4) False Bs by (simp add: Let_def)
    ultimately show ?thesis
      using "2.hyps"(2) [OF Bs False refl] mset_take_drop [of ?n "X # Xs"]
      by (auto simp: Bs appendFromArray_def ac_simps simp del: take_Cons drop_Cons)
  qed
qed simp

lemma CreateGroup_held:
  assumes "held A h" "CreateGroup cfg getb Base h = Inr (G, h')"
  shows "held (A + group_addrs G) h' \<and> frame h h' \<and> batches_blocks (Batches G) = {#}
    \<and> MaxCachedPerBatch G = MaxNumBlocksInBatch cfg \<and> batches_fit (MaxNumBlocksInBatch cfg) (Batches G)
    \<and> Batches G \<noteq> [] \<and> CompactPtrGroupBase G = Base"
proof -
  obtain bg h1 tb where g: "getb h = Inr (bg, h1)" "getb h1 = Inr (tb, h')"
    and G: "G = \<lparr>GroupAddr = bg, CompactPtrGroupBase = Base, BytesInBGAtLastCheckpoint = 0,
             Batches = [\<lparr>BatchAddr = tb, Blocks = []\<rparr>], MaxCachedPerBatch = MaxNumBlocksInBatch cfg\<rparr>"
    using assms(2) by (auto simp: CreateGroup_def bindE_eq_Inr)
  note c1 = getb_held [OF assms(1) g(1)]
  note c2 = getb_held [OF c1(1) g(2)]
  show ?thesis using c2(1) frame_trans [OF c1(2) c2(2)] by (simp add: G group_addrs_def add_mset_commute)
qed

lemma find_or_create_held:
  assumes "stored cfg A (pos_groups pos) h"
    and "find_or_create_group cfg getb T pos h = Inr (pos', h')"
  shows "stored cfg A (pos_groups pos') h' \<and> frame h h'
    \<and> listed_blocks (pos_groups pos') = listed_blocks (pos_groups pos)
    \<and> (\<exists>Passed G Rest. pos' = (Passed, G # Rest) \<and> CompactPtrGroupBase G = T)"
proof -
  obtain Passed Rest where adv: "advance T pos = (Passed, Rest)" by fastforce
  have eq: "pos_groups pos = rev Passed @ Rest" using advance_groups [of T pos] adv by simp
  show ?thesis
  proof (cases "Rest = [] \<or> T \<noteq> CompactPtrGroupBase (hd Rest)")
    case True
    then obtain G where G: "CreateGroup cfg getb T h = Inr (G, h')" "pos' = (Passed, G # Rest)"
      using assms(2) adv by (auto simp: find_or_create_group_def bindE_eq_Inr)
    have "held (A + groups_addrs (pos_groups pos)) h" using assms(1) by (simp add: stored_def)
    from CreateGroup_held [OF this G(1)] show ?thesis using assms(1)
      by (simp add: stored_def eq G(2) ac_simps)
  next
    case False
    then have "pos' = (Passed, Rest)" "h' = h" using assms(2) adv by (auto simp: find_or_create_group_def)
    then show ?thesis using False assms(1) by (cases Rest) (simp_all add: stored_def eq)
  qed
qed

lemma insert_at_held:
  assumes "stored cfg A (pos_groups pos) h"
    and "insert_at getb Xs pos h = Inr (pos', h')"
  shows "stored cfg A (pos_groups pos') h' \<and> frame h h'
    \<and> listed_blocks (pos_groups pos') = listed_blocks (pos_groups pos) + mset Xs"
proof -
  obtain Passed G Rest where pos: "pos = (Passed, G # Rest)"
    using assms(2) by (cases pos; cases "snd pos") (auto simp: insert_at_def)
  obtain Bs where i: "InsertBlocks getb (MaxCachedPerBatch G) Xs (Batches G) h = Inr (Bs, h')"
    and pos': "pos' = (Passed, G\<lparr>Batches := Bs\<rparr> # Rest)"
    using assms(2) by (auto simp: insert_at_def pos bindE_eq_Inr)
  let ?A = "A + groups_addrs Passed + groups_addrs Rest + {#GroupAddr G#}"
  have c: "held (?A + mset (map BatchAddr (Batches G))) h"
    using assms(1) by (simp add: stored_def pos group_addrs_def ac_simps)
  have ok: "batches_fit (MaxCachedPerBatch G) (Batches G)" "Batches G \<noteq> []"
    using assms(1) by (simp_all add: stored_def pos)
  from InsertBlocks_held [OF c ok i] show ?thesis using assms(1)
    by (simp add: stored_def pos pos' group_addrs_def ac_simps)
qed

lemma push_runs_held:
  assumes "stored cfg A (pos_groups pos) h"
    and "push_runs cfg grp getb Xs pos h = Inr (pos', h')"
  shows "stored cfg A (pos_groups pos') h' \<and> frame h h'
    \<and> listed_blocks (pos_groups pos') = listed_blocks (pos_groups pos) + mset Xs"
  using assms
proof (induction "length Xs" arbitrary: Xs pos h rule: less_induct)
  case less
  show ?case
  proof (cases Xs)
    case Nil
    then show ?thesis using less.prems by simp
  next
    case (Cons X Ys)
    let ?P = "\<lambda>Y. grp Y = grp X"
    obtain pos1 h1 where 1: "find_or_create_group cfg getb (grp X) pos h = Inr (pos1, h1)"
      using less.prems(2) by (auto simp: Cons split: sum.splits)
    obtain pos2 h2 where 2: "insert_at getb (X # takeWhile ?P Ys) pos1 h1 = Inr (pos2, h2)"
      using less.prems(2) by (auto simp: Cons 1 split: sum.splits)
    have 3: "push_runs cfg grp getb (dropWhile ?P Ys) pos2 h2 = Inr (pos', h')"
      using less.prems(2) by (simp add: Cons 1 2)
    note c1 = find_or_create_held [OF less.prems(1) 1]
    have l1: "stored cfg A (pos_groups pos1) h1" using c1 by blast
    note c2 = insert_at_held [OF l1 2]
    have l2: "stored cfg A (pos_groups pos2) h2" using c2 by blast
    have "length (dropWhile ?P Ys) < length Xs" by (simp add: Cons less_Suc_eq_le length_dropWhile_le)
    note c3 = less.hyps [OF this l2 3]
    have "mset Ys = mset (takeWhile ?P Ys) + mset (dropWhile ?P Ys)"
      by (simp only: mset_append [symmetric] takeWhile_dropWhile_id)
    then have "listed_blocks (pos_groups pos') = listed_blocks (pos_groups pos) + mset Xs"
      using c1 c2 c3 by (simp add: Cons)
    moreover have "frame h h'"
      using c1 c2 c3 frame_trans [of h h1 h2] frame_trans [of h h2 h'] by blast
    ultimately show ?thesis using c3 by blast
  qed
qed

end

end
