(* ===== verification/PrimarySafe.thy ===== *)
theory PrimarySafe
  imports NodeStore
begin

text \<open>
  The classes other than the batch class, and the whole primary with the cache of a thread. Their
  batches and groups are stored in blocks of the batch class, taken and returned while their own
  free list is changed. \<open>custody A h\<close> says that the batch class and its cache are in order and that
  the blocks at the addresses \<open>A\<close> are exactly those that were taken and not returned; each
  operation is shown to hold custody of the addresses its free lists are stored in.

  The result is an interpretation of \<open>block_source\<close> for all classes; \<open>PrimaryLife\<close> draws the
  conclusions.
\<close>

unbundle bit_operations_syntax

section \<open>Custody of batch class blocks\<close>

definition custody :: "primary_config \<Rightarrow> uptr multiset \<Rightarrow> heap \<Rightarrow> bool" where
  "custody cfg A h \<longleftrightarrow> primary_ok cfg \<and> batch_inv cfg h \<and> 0 < length (PerClassArray h)
     \<and> class_ok (get_class BatchClassId h) \<and> MaxCount (get_class BatchClassId h) = 2 * batch_limit cfg
     \<and> carved_blocks cfg BatchClassId h = free_blocks cfg BatchClassId h + cached BatchClassId h
         + image_mset (\<lambda>a. compactPtr cfg BatchClassId a h) A"

definition batch_frame :: "heap \<Rightarrow> heap \<Rightarrow> bool" where
  "batch_frame h h' \<longleftrightarrow> (\<forall>J. J \<noteq> BatchClassId \<longrightarrow>
       getRegionInfo J h' = getRegionInfo J h \<and> get_class J h' = get_class J h)
     \<and> RegionBeg (getRegionInfo BatchClassId h') = RegionBeg (getRegionInfo BatchClassId h)
     \<and> length (RegionInfoArray h') = length (RegionInfoArray h)
     \<and> length (PerClassArray h') = length (PerClassArray h)"

lemma batch_frame_refl [simp]: "batch_frame h h"
  by (simp add: batch_frame_def)

lemma batch_frame_trans: "batch_frame h h1 \<Longrightarrow> batch_frame h1 h2 \<Longrightarrow> batch_frame h h2"
  by (simp add: batch_frame_def)

lemma batch_frame_region:
  "only_region BatchClassId h h' \<Longrightarrow>
    RegionBeg (getRegionInfo BatchClassId h') = RegionBeg (getRegionInfo BatchClassId h) \<Longrightarrow> batch_frame h h'"
  by (simp add: batch_frame_def only_regionD)

lemma batch_frame_class: "batch_frame h (upd_class BatchClassId f h)"
  by (auto simp: batch_frame_def get_class_def upd_class_def getRegionInfo_def nth_list_update word_unat_eq_iff)

lemma batch_frame_stats: "batch_frame h (upd_stats g h)"
  by (simp add: batch_frame_def)

lemma compactPtr_frame: "batch_frame h h' \<Longrightarrow> compactPtr cfg BatchClassId a h' = compactPtr cfg BatchClassId a h"
  by (simp add: batch_frame_def compactPtr_def)

lemma custody_iff: "custody cfg A h \<longleftrightarrow> bc.cache_inv cfg h
    \<and> bc.owned cfg (\<lambda>_. image_mset (\<lambda>a. compactPtr cfg BatchClassId a h) A) h"
  by (auto simp: custody_def bc.cache_inv_def bc.owned_def)

lemma push_batch_region_geometry: "same_geometry r (pushBatchClassBlocks_region cfg Xs r)"
  by (simp add: pushBatchClassBlocks_region_def same_geometry_def Let_def split: prod.splits)

lemma custody_cong:
  assumes "batch_inv cfg h' = batch_inv cfg h" "length (PerClassArray h') = length (PerClassArray h)"
    "get_class BatchClassId h' = get_class BatchClassId h"
    "getRegionInfo BatchClassId h' = getRegionInfo BatchClassId h"
  shows "custody cfg A h' = custody cfg A h"
  using assms by (simp add: custody_def free_blocks_def carved_blocks_def cached_def compactPtr_def)

lemma custody_upd_region [simp]: "I \<noteq> BatchClassId \<Longrightarrow> custody cfg A (upd_region I f h) = custody cfg A h"
proof -
  assume "I \<noteq> BatchClassId"
  then have g: "getRegionInfo BatchClassId (upd_region I f h) = getRegionInfo BatchClassId h"
    by (auto simp: getRegionInfo_def upd_region_def nth_list_update word_unat_eq_iff)
  show ?thesis by (rule custody_cong) (simp_all add: g batch_inv_def)
qed

lemma custody_upd_class [simp]: "I \<noteq> BatchClassId \<Longrightarrow> custody cfg A (upd_class I f h) = custody cfg A h"
proof -
  assume "I \<noteq> BatchClassId"
  then have g: "get_class BatchClassId (upd_class I f h) = get_class BatchClassId h"
    by (auto simp: get_class_def upd_class_def nth_list_update word_unat_eq_iff)
  show ?thesis by (rule custody_cong) (simp_all add: g batch_inv_def)
qed

lemma custody_upd_stats [simp]: "custody cfg A (upd_stats g h) = custody cfg A h"
  by (rule custody_cong) (simp_all add: batch_inv_def)

lemma cache_allocate_frame:
  assumes "primary_ok cfg" "batch_inv cfg h"
    and "cache_allocate (pop_batch_class cfg os) dec BatchClassId h = Inr (r, h')"
  shows "batch_frame h h'"
proof -
  obtain ok h1 where o: "(if Count (get_class BatchClassId h) = 0
      then refill (pop_batch_class cfg os) BatchClassId (MaxCount (get_class BatchClassId h) div 2) h
      else Inr (True, h)) = Inr (ok, h1)"
    using assms(3) unfolding cache_allocate_def by (auto simp: bindE_eq_Inr)
  have 1: "batch_frame h h1"
  proof (cases "Count (get_class BatchClassId h) = 0")
    case True
    then obtain bs h2 where p: "pop_batch_class cfg os BatchClassId (MaxCount (get_class BatchClassId h) div 2) h = Inr (bs, h2)"
      and h1: "\<exists>f. h1 = upd_class BatchClassId f h2"
      using o by (auto simp: refill_def bindE_eq_Inr)
    have "batch_frame h h2" using pop_batch_class_step [OF assms(1,2) p]
      by (auto simp: batch_step_def intro: batch_frame_region)
    then show ?thesis using h1 batch_frame_class batch_frame_trans by blast
  qed (use o in simp)
  have "\<exists>f g. h' = h1 \<or> h' = upd_stats g (upd_class BatchClassId f h1)"
    using assms(3) o by (cases ok) (auto simp: cache_allocate_def Let_def)
  then have "batch_frame h1 h'" using batch_frame_class batch_frame_stats batch_frame_trans batch_frame_refl by metis
  with 1 show ?thesis by (rule batch_frame_trans)
qed

lemma getBatchClassBlock_custody:
  assumes "custody cfg A h" "getBatchClassBlock cfg os h = Inr (a, h')"
  shows "custody cfg (add_mset a A) h'" and "batch_frame h h'"
proof -
  let ?L = "\<lambda>_ :: uptr. image_mset (\<lambda>a. compactPtr cfg BatchClassId a h) A"
  have c: "bc.cache_inv cfg h" "bc.owned cfg ?L h" using assms(1) by (simp_all add: custody_iff)
  have al: "cache_allocate (pop_batch_class cfg os) (decompactPtr cfg) BatchClassId h = Inr (Some a, h')"
    using assms(2) by (auto simp: getBatchClassBlock_def cache_getBatchClassBlock_def bindE_eq_Inr split: option.splits)
  show f: "batch_frame h h'" using assms(1) cache_allocate_frame [OF _ _ al] by (simp add: custody_def)
  obtain b where b: "bc.cache_inv cfg h'" "a = decompactPtr cfg BatchClassId b h'"
      "bc.owned cfg (?L(BatchClassId := add_mset b (?L BatchClassId))) h'"
    using bc.allocate_spec [OF c(1) refl c(2) al] by auto
  have "b \<in># carved_blocks cfg BatchClassId h'" using b(3) by (simp add: bc.owned_def)
  then have "compactPtr cfg BatchClassId a h' = b"
    by (simp add: b(2) compactPtr_def decompactPtr_def compact_decompact_offset carved_offset)
  then show "custody cfg (add_mset a A) h'"
    using b(1,3) by (simp add: custody_iff bc.owned_def compactPtr_frame [OF f])
qed

lemma deallocate_batch_block_custody:
  assumes "custody cfg A h" "a \<in># A" "deallocate_batch_block cfg a h = Inr (r, h')"
  shows "custody cfg (A - {#a#}) h'" and "batch_frame h h'"
proof -
  let ?L = "\<lambda>_ :: uptr. image_mset (\<lambda>a. compactPtr cfg BatchClassId a h) A"
  have c: "bc.cache_inv cfg h" "bc.owned cfg ?L h" using assms(1) by (simp_all add: custody_iff)
  have d: "cache_deallocate (PSizeMap cfg) (push_batch_class cfg) (compactPtr cfg) BatchClassId a h = Inr (r, h')"
    using assms(3) by (simp add: deallocate_batch_block_def)
  have "\<exists>h1 f g. (h1 = h \<or> (\<exists>Xs f. h1 = upd_class BatchClassId f (pushBatchClassBlocks cfg Xs h)))
      \<and> h' = upd_stats g (upd_class BatchClassId f h1)"
    using d by (auto simp: cache_deallocate_def drain_class_def Let_def bindE_eq_Inr push_batch_class_eq split: if_splits)
  then obtain h1 f g where h1: "h1 = h \<or> (\<exists>Xs f. h1 = upd_class BatchClassId f (pushBatchClassBlocks cfg Xs h))"
    and h': "h' = upd_stats g (upd_class BatchClassId f h1)" by blast
  have "0 < length (RegionInfoArray h)" using assms(1) by (simp add: custody_def batch_inv_def)
  then have "batch_frame h (pushBatchClassBlocks cfg Xs h)" for Xs
    by (intro batch_frame_region)
      (simp_all add: pushBatchClassBlocks_def batch_region_upd same_geometryD [OF push_batch_region_geometry])
  then have "batch_frame h h1" using h1 by (auto intro: batch_frame_trans [OF _ batch_frame_class])
  then show f: "batch_frame h h'" unfolding h'
    by (intro batch_frame_trans [OF _ batch_frame_stats] batch_frame_trans [OF _ batch_frame_class])
  have "compactPtr cfg BatchClassId a h \<in># ?L BatchClassId" using assms(2) by auto
  from bc.deallocate_spec [OF c(1) refl c(2) this d]
  have "bc.cache_inv cfg h'" "bc.owned cfg (\<lambda>_. ?L BatchClassId - {#compactPtr cfg BatchClassId a h#}) h'"
    by (auto simp: bc.owned_def)
  moreover have "image_mset (\<lambda>a. compactPtr cfg BatchClassId a h') (A - {#a#})
      = ?L BatchClassId - {#compactPtr cfg BatchClassId a h#}"
    using assms(2) by (simp add: image_mset_Diff compactPtr_frame [OF f])
  ultimately show "custody cfg (A - {#a#}) h'" by (simp add: custody_iff)
qed

section \<open>The batch class as a source of nodes\<close>

lemma free_node:
  assumes "custody cfg (add_mset a A) h" "deallocate_batch_block cfg a h = Inr (r, h')"
  shows "custody cfg A h' \<and> batch_frame h h'"
  using deallocate_batch_block_custody [OF assms(1) _ assms(2)] by simp

interpretation nodes: node_store "getBatchClassBlock cfg os" "deallocate_batch_block cfg" "custody cfg" batch_frame
  for cfg os
proof (unfold_locales, goal_cases)
  case 1
  then show ?case using getBatchClassBlock_custody by blast
next
  case 2
  then show ?case by (rule free_node)
next
  case 4
  then show ?case by (rule batch_frame_trans)
qed simp

abbreviation list_state :: "primary_config \<Rightarrow> uptr multiset \<Rightarrow> batch_group list \<Rightarrow> heap \<Rightarrow> bool" where
  "list_state cfg \<equiv> nodes.stored cfg cfg"

lemmas list_state_def = nodes.stored_def

section \<open>Pushing to a class\<close>

text \<open>What an operation on a class may change: its region and the batch class.\<close>

definition class_frame :: "uptr \<Rightarrow> heap \<Rightarrow> heap \<Rightarrow> bool" where
  "class_frame I h h' \<longleftrightarrow> (\<forall>J. J \<noteq> BatchClassId \<longrightarrow> get_class J h' = get_class J h
       \<and> (J \<noteq> I \<longrightarrow> getRegionInfo J h' = getRegionInfo J h))
     \<and> RegionBeg (getRegionInfo BatchClassId h') = RegionBeg (getRegionInfo BatchClassId h)
     \<and> length (RegionInfoArray h') = length (RegionInfoArray h)
     \<and> length (PerClassArray h') = length (PerClassArray h)"

lemma class_frame_trans: "class_frame I h h1 \<Longrightarrow> class_frame I h1 h2 \<Longrightarrow> class_frame I h h2"
  by (simp add: class_frame_def)

lemma class_frame_batch: "batch_frame h h' \<Longrightarrow> class_frame I h h'"
  by (simp add: class_frame_def batch_frame_def)

lemma class_frame_region: "only_region I h h' \<Longrightarrow> I \<noteq> BatchClassId \<Longrightarrow> class_frame I h h'"
  by (simp add: class_frame_def only_regionD)

lemmas class_frame_upd = class_frame_region [OF only_region_upd]
lemmas class_frame_stats = class_frame_batch [OF batch_frame_stats]

definition region_state :: "primary_config \<Rightarrow> uptr multiset \<Rightarrow> uptr \<Rightarrow> heap \<Rightarrow> bool" where
  "region_state cfg A I h \<longleftrightarrow> unat I < length (RegionInfoArray h) \<and> list_state cfg A (BlockList (getRegionInfo I h)) h"

abbreviation region_blocks :: "uptr \<Rightarrow> heap \<Rightarrow> uptr multiset" where
  "region_blocks I h \<equiv> listed_blocks (BlockList (getRegionInfo I h))"

text \<open>An operation that pops \<open>out\<close> from a class and pushes \<open>new\<close> to it.\<close>

definition class_step ::
    "primary_config \<Rightarrow> uptr multiset \<Rightarrow> uptr \<Rightarrow> uptr multiset \<Rightarrow> uptr multiset \<Rightarrow> heap \<Rightarrow> heap \<Rightarrow> bool" where
  "class_step cfg A I new out h h' \<longleftrightarrow> region_state cfg A I h' \<and> class_frame I h h'
     \<and> same_geometry (getRegionInfo I h) (getRegionInfo I h')
     \<and> region_blocks I h + new = region_blocks I h' + out"

lemma class_step_trans:
  assumes "class_step cfg A I n1 o1 h h1" "class_step cfg A I n2 o2 h1 h2"
  shows "class_step cfg A I (n1 + n2) (o1 + o2) h h2"
proof -
  have "region_blocks I h + (n1 + n2) = region_blocks I h1 + n2 + o1"
    using assms(1) by (simp add: class_step_def add.assoc [symmetric])
  also have "\<dots> = region_blocks I h2 + (o1 + o2)"
    using assms(2) by (simp add: class_step_def ac_simps)
  finally show ?thesis using assms
    by (auto simp: class_step_def intro: class_frame_trans same_geometry_trans)
qed

lemma class_step_refl: "region_state cfg A I h \<Longrightarrow> class_step cfg A I {#} {#} h h"
  by (simp add: class_step_def class_frame_def same_geometry_def)

text \<open>Changing fields of the region that are not its list.\<close>

lemma class_step_field:
  assumes "region_state cfg A I h" "I \<noteq> BatchClassId"
    and "\<And>r. same_geometry r (f r)" "\<And>r. BlockList (f r) = BlockList r"
  shows "class_step cfg A I {#} {#} h (upd_region I f h)"
  using assms by (simp add: class_step_def region_state_def list_state_def getRegionInfo_upd_region class_frame_upd)

lemma pushBlocksImpl_step:
  assumes "region_state cfg A I h" "I \<noteq> BatchClassId"
    and "pushBlocksImpl cfg (getBatchClassBlock cfg os) I Xs Same h = Inr h'"
  shows "class_step cfg A I (mset Xs) {#} h h'"
proof -
  let ?g = "getBatchClassBlock cfg os"
  define h1 where "h1 = upd_region I (\<lambda>r. r\<lparr>PushedBlocks := PushedBlocks r + of_nat (length Xs)\<rparr>) h"
  define pos where "pos = ([] :: batch_group list, BlockList (getRegionInfo I h1))"
  have s1: "class_step cfg A I {#} {#} h h1"
    unfolding h1_def by (rule class_step_field [OF assms(1,2)]) (simp_all add: same_geometry_def)
  then have l1: "list_state cfg A (pos_groups pos) h1" "unat I < length (RegionInfoArray h1)"
    by (simp_all add: pos_def class_step_def region_state_def)
  obtain pos2 h2 where p: "(if Same then bindE (find_or_create_group cfg ?g (compactPtrGroup cfg (hd Xs)) pos h1)
        (\<lambda>(pos, h). insert_at ?g Xs pos h) else push_runs cfg (compactPtrGroup cfg) ?g Xs pos h1) = Inr (pos2, h2)"
    and h': "h' = upd_region I (\<lambda>r. r\<lparr>BlockList := pos_groups pos2\<rparr>) h2"
    using assms(3) unfolding pushBlocksImpl_def Let_def h1_def [symmetric] pos_def [symmetric]
    by (auto simp: bindE_eq_Inr)
  have q: "list_state cfg A (pos_groups pos2) h2 \<and> batch_frame h1 h2
      \<and> listed_blocks (pos_groups pos2) = listed_blocks (pos_groups pos) + mset Xs"
  proof (cases Same)
    case True
    then obtain pos1 h1' where 1: "find_or_create_group cfg ?g (compactPtrGroup cfg (hd Xs)) pos h1 = Inr (pos1, h1')"
      and 2: "insert_at ?g Xs pos1 h1' = Inr (pos2, h2)" using p by (auto simp: bindE_eq_Inr)
    note c1 = nodes.find_or_create_held [OF l1(1) 1]
    have "list_state cfg A (pos_groups pos1) h1'" using c1 by blast
    from nodes.insert_at_held [OF this 2] c1 batch_frame_trans [of h1 h1' h2] show ?thesis by simp
  next
    case False
    then show ?thesis using nodes.push_runs_held [OF l1(1)] p by simp
  qed
  have r: "getRegionInfo I h2 = getRegionInfo I h1" "length (RegionInfoArray h2) = length (RegionInfoArray h1)"
    using q assms(2) by (auto simp: batch_frame_def)
  have "class_frame I h1 h'" unfolding h'
    using q class_frame_trans [OF class_frame_batch class_frame_upd [OF assms(2)]] by blast
  then have "class_step cfg A I (mset Xs) {#} h1 h'"
    using q l1(2) assms(2) unfolding h' class_step_def region_state_def
    by (simp add: getRegionInfo_upd_region r same_geometry_def list_state_def pos_def)
  from class_step_trans [OF s1 this] show ?thesis by simp
qed

lemma mset_group_sort: "mset (snd (group_sort cfg Xs)) = mset Xs"
  by (simp add: group_sort_def mset_group_sort_loop)

lemma push_new_blocks_step:
  assumes "region_state cfg A I h" "I \<noteq> BatchClassId"
    and "push_new_blocks cfg (getBatchClassBlock cfg os) I Xs h = Inr h'" "length Xs < 2 ^ 32"
  shows "class_step cfg A I (mset Xs) {#} h h'"
  using assms(1,3,4)
proof (induction "length Xs" arbitrary: Xs h rule: less_induct)
  case less
  show ?case
  proof (cases Xs)
    case Nil
    then show ?thesis using less.prems class_step_refl by simp
  next
    case (Cons X Ys)
    let ?P = "\<lambda>Y. compactPtrGroup cfg Y = compactPtrGroup cfg X"
    obtain run rs where sh: "shuffle (X # takeWhile ?P Ys) (RandState (getRegionInfo I h)) = (run, rs)" by fastforce
    define h1 where "h1 = upd_region I (\<lambda>r. r\<lparr>RandState := rs\<rparr>) h"
    have s1: "class_step cfg A I {#} {#} h h1"
      unfolding h1_def by (rule class_step_field [OF less.prems(1) assms(2)]) (simp_all add: same_geometry_def)
    obtain h2 where p: "pushBlocksImpl cfg (getBatchClassBlock cfg os) I run True h1 = Inr h2"
      and n: "push_new_blocks cfg (getBatchClassBlock cfg os) I (dropWhile ?P Ys) h2 = Inr h'"
      using less.prems(2) by (auto simp: Cons sh h1_def split: sum.splits)
    have st1: "region_state cfg A I h1" using s1 by (simp add: class_step_def)
    note s2 = pushBlocksImpl_step [OF st1 assms(2) p]
    then have st2: "region_state cfg A I h2" by (simp add: class_step_def)
    have "length (dropWhile ?P Ys) < length Xs" by (simp add: Cons less_Suc_eq_le length_dropWhile_le)
    moreover from this have "length (dropWhile ?P Ys) < 2 ^ 32" using less.prems(3) by linarith
    ultimately have s3: "class_step cfg A I (mset (dropWhile ?P Ys)) {#} h2 h'" using less.hyps st2 n by blast
    have "length (X # takeWhile ?P Ys) < 2 ^ 32"
      using less.prems(3) length_takeWhile_le [of ?P Ys] by (simp add: Cons)
    then have "mset run = mset (X # takeWhile ?P Ys)" using shuffle_mset [of "X # takeWhile ?P Ys"] sh by (metis fst_conv)
    moreover have "mset Ys = mset (takeWhile ?P Ys) + mset (dropWhile ?P Ys)"
      by (simp only: mset_append [symmetric] takeWhile_dropWhile_id)
    ultimately show ?thesis using class_step_trans [OF s1 class_step_trans [OF s2 s3]] by (simp add: Cons)
  qed
qed

lemma pushBlocks_step:
  assumes "region_state cfg A I h" "I \<noteq> BatchClassId" "pushBlocks cfg os I Xs h = Inr (Ys, h')"
  shows "class_step cfg A I (mset Xs) {#} h h' \<and> mset Ys = mset Xs"
proof -
  obtain Same Sorted where s: "group_sort cfg Xs = (Same, Sorted)" by fastforce
  then have "Ys = Sorted" "pushBlocksImpl cfg (getBatchClassBlock cfg os) I Sorted Same h = Inr h'"
    using assms(2,3) by (auto simp: pushBlocks_def pushBlocks_gen_def bindE_eq_Inr)
  with pushBlocksImpl_step [OF assms(1,2) this(2)] mset_group_sort [of cfg Xs] s show ?thesis by simp
qed

section \<open>Popping from a class\<close>

lemma popBlocksImpl_step:
  assumes st: "region_state cfg A I h" and I: "I \<noteq> BatchClassId"
    and pop: "popBlocksImpl cfg (deallocate_batch_block cfg) I n h = Inr (bs, h')"
  shows "class_step cfg A I {#} (mset bs) h h' \<and> length bs \<le> unat n"
proof (cases "BlockList (getRegionInfo I h)")
  case Nil
  then show ?thesis using pop class_step_refl [OF st] by (simp add: popBlocksImpl_def)
next
  case (Cons G Gs)
  note L = this
  have ok: "MaxCachedPerBatch G = MaxNumBlocksInBatch cfg" "batches_fit (MaxNumBlocksInBatch cfg) (Batches G)"
      "Batches G \<noteq> []" "groups_ok cfg Gs"
    and cu: "custody cfg (A + (group_addrs G + groups_addrs Gs)) h" and l: "unat I < length (RegionInfoArray h)"
    using st L by (simp_all add: region_state_def list_state_def)
  obtain B Bs where B: "Batches G = B # Bs" using ok(3) by (cases "Batches G") auto
  have fit: "length (Blocks B) \<le> unat (MaxNumBlocksInBatch cfg)" "batches_fit (MaxNumBlocksInBatch cfg) Bs"
    using ok(2) B by simp_all
  define c where "c = MinU n (getCount B)"
  obtain B' where mv: "moveNToArray (unat c) B = (drop (length (Blocks B) - unat c) (Blocks B), B')"
    and B': "BatchAddr B' = BatchAddr B" by (simp add: moveNToArray_def)
  define out where "out = drop (length (Blocks B) - unat c) (Blocks B)"
  note m = append_moved [OF mv, folded out_def]
  have cn: "unat c \<le> unat n" by (simp add: c_def min_def word_le_nat_alt)
  define set_list where "set_list = (\<lambda>Hs. upd_region I (\<lambda>r. r\<lparr>BlockList := Hs\<rparr>))"
  define count where "count = upd_region I (\<lambda>r. r\<lparr>PoppedBlocks := PoppedBlocks r + ucast c\<rparr>)"
  have I': "(I = BatchClassId) = False" using I by simp
  have body: "(if Blocks B' \<noteq> [] then Inr (out, count (set_list (G\<lparr>Batches := B' # Bs\<rparr> # Gs) h))
      else bindE (deallocate_batch_block cfg (BatchAddr B) (set_list (G\<lparr>Batches := Bs\<rparr> # Gs) h)) (\<lambda>(_, h).
             if Bs \<noteq> [] then Inr (out, count h)
             else bindE (deallocate_batch_block cfg (GroupAddr G) (set_list Gs h))
                    (\<lambda>(_, h). Inr (out, count h)))) = Inr (bs, h')"
    using pop I' mv unfolding popBlocksImpl_def Let_def L list.case B I' if_False if_True not_False_eq_True
      out_def c_def set_list_def count_def MinU_min
    by simp
  have fields: "custody cfg X (set_list Hs k) = custody cfg X k" "custody cfg X (count k) = custody cfg X k"
    "class_frame I k (set_list Hs k)" "class_frame I k (count k)"
    "length (RegionInfoArray (set_list Hs k)) = length (RegionInfoArray k)"
    "length (RegionInfoArray (count k)) = length (RegionInfoArray k)" for X Hs k
    using I by (simp_all add: set_list_def count_def class_frame_upd)
  have reg: "getRegionInfo I (set_list Hs k) = (getRegionInfo I k)\<lparr>BlockList := Hs\<rparr>"
    "BlockList (getRegionInfo I (count k)) = BlockList (getRegionInfo I k)"
    "same_geometry r (getRegionInfo I (count k)) = same_geometry r (getRegionInfo I k)"
    if "unat I < length (RegionInfoArray k)" for Hs k r
    using that by (simp_all add: set_list_def count_def getRegionInfo_upd_region same_geometry_def)
  have fr: "getRegionInfo I k' = getRegionInfo I k \<and> length (RegionInfoArray k') = length (RegionInfoArray k)"
    if "batch_frame k k'" for k k'
    using that I by (simp add: batch_frame_def)
  have geo: "same_geometry r (r\<lparr>BlockList := Hs\<rparr>)" for r Hs by (simp add: same_geometry_def)
  show ?thesis
  proof (cases "Blocks B' = []")
    case False
    then have "bs = out" "h' = count (set_list (G\<lparr>Batches := B' # Bs\<rparr> # Gs) h)" using body by simp_all
    then show ?thesis
      using cu ok fit m cn l B L B' class_frame_trans [OF fields(3) fields(4)]
      by (simp add: class_step_def region_state_def list_state_def fields reg group_addrs_def geo)
  next
    case True
    have bl: "batches_blocks (Batches G) = mset out + batches_blocks Bs" using m True B by simp
    let ?h1 = "set_list (G\<lparr>Batches := Bs\<rparr> # Gs) h"
    obtain r2 h2 where d: "deallocate_batch_block cfg (BatchAddr B) ?h1 = Inr (r2, h2)"
      and rest: "(if Bs \<noteq> [] then Inr (out, count h2)
             else bindE (deallocate_batch_block cfg (GroupAddr G) (set_list Gs h2))
                    (\<lambda>(_, h). Inr (out, count h))) = Inr (bs, h')"
      using body True by (auto simp: bindE_eq_Inr)
    let ?A2 = "A + add_mset (GroupAddr G) (mset (map BatchAddr Bs) + groups_addrs Gs)"
    have "custody cfg (add_mset (BatchAddr B) ?A2) ?h1"
      using cu B by (simp add: fields group_addrs_def add_mset_commute ac_simps)
    from free_node [OF this d] have c2: "custody cfg ?A2 h2" and f2: "batch_frame ?h1 h2" by blast+
    have l2: "unat I < length (RegionInfoArray h2)" using fr [OF f2] l by (simp add: fields)
    have r2: "getRegionInfo I h2 = (getRegionInfo I h)\<lparr>BlockList := G\<lparr>Batches := Bs\<rparr> # Gs\<rparr>"
      using fr [OF f2] l by (simp add: reg)
    have k2: "class_frame I h h2" by (rule class_frame_trans [OF fields(3) class_frame_batch [OF f2]])
    show ?thesis
    proof (cases "Bs = []")
      case False
      then have "bs = out" "h' = count h2" using rest by simp_all
      then show ?thesis
        using c2 l2 ok fit m cn False L bl class_frame_trans [OF k2 fields(4)]
        by (simp add: class_step_def region_state_def list_state_def fields reg r2 group_addrs_def
            geo ac_simps)
    next
      case Bs: True
      obtain r3 h3 where d3: "deallocate_batch_block cfg (GroupAddr G) (set_list Gs h2) = Inr (r3, h3)"
        and bs: "bs = out" "h' = count h3" using rest Bs by (auto simp: bindE_eq_Inr)
      have "custody cfg (add_mset (GroupAddr G) (A + groups_addrs Gs)) (set_list Gs h2)"
        using c2 Bs by (simp add: fields)
      from free_node [OF this d3] have c3: "custody cfg (A + groups_addrs Gs) h3" and f3: "batch_frame (set_list Gs h2) h3"
        by blast+
      have l3: "unat I < length (RegionInfoArray h3)" using fr [OF f3] l2 by (simp add: fields)
      have r3: "getRegionInfo I h3 = (getRegionInfo I h)\<lparr>BlockList := Gs\<rparr>"
        using fr [OF f3] l2 by (simp add: reg r2)
      have "class_frame I h h3"
        by (rule class_frame_trans [OF class_frame_trans [OF k2 fields(3)] class_frame_batch [OF f3]])
      then show ?thesis
        using c3 l3 ok m cn Bs L bl bs class_frame_trans [OF _ fields(4)]
        by (simp add: class_step_def region_state_def list_state_def fields reg r3 geo ac_simps)
    qed
  qed
qed

section \<open>One operation on a class\<close>

lemma custody_only_region: "I \<noteq> BatchClassId \<Longrightarrow> only_region I h h' \<Longrightarrow> custody cfg A h' = custody cfg A h"
  by (rule custody_cong) (simp_all add: batch_inv_def only_regionD)

definition class_op ::
    "primary_config \<Rightarrow> uptr multiset \<Rightarrow> uptr \<Rightarrow> uptr multiset \<Rightarrow> uptr multiset \<Rightarrow> heap \<Rightarrow> heap \<Rightarrow> bool" where
  "class_op cfg A I new out h h' \<longleftrightarrow> region_state cfg A I h' \<and> class_frame I h h'
     \<and> region_ok cfg I (getRegionInfo I h') \<and> RegionBeg (getRegionInfo I h') = RegionBeg (getRegionInfo I h)
     \<and> carved_blocks cfg I h' = carved_blocks cfg I h + new
     \<and> region_blocks I h + new = region_blocks I h' + out"

lemma class_op_trans:
  assumes "class_op cfg A I n1 o1 h h1" "class_op cfg A I n2 o2 h1 h2"
  shows "class_op cfg A I (n1 + n2) (o1 + o2) h h2"
proof -
  have "region_blocks I h + (n1 + n2) = region_blocks I h1 + n2 + o1"
    using assms(1) by (simp add: class_op_def add.assoc [symmetric])
  also have "\<dots> = region_blocks I h2 + (o1 + o2)"
    using assms(2) by (simp add: class_op_def ac_simps)
  finally show ?thesis using assms
    by (auto simp: class_op_def ac_simps intro: class_frame_trans)
qed

lemma class_step_op:
  "class_step cfg A I {#} out h h' \<Longrightarrow> region_ok cfg I (getRegionInfo I h) \<Longrightarrow> class_op cfg A I {#} out h h'"
  by (auto simp: class_step_def class_op_def same_geometryD carved_blocks_def)

lemma custody_cfg: "custody cfg A h \<Longrightarrow> primary_ok cfg"
  by (simp add: custody_def)

lemma populate_step:
  assumes st: "region_state cfg A I h" and I: "I \<noteq> BatchClassId" "I < NumClasses (PSizeMap cfg)"
    and ok: "region_ok cfg I (getRegionInfo I h)"
    and pop: "populateFreeListAndPopBlocks cfg os (getBatchClassBlock cfg os) (deallocate_batch_block cfg) I n h
      = Inr (bs, h')"
  shows "\<exists>new. class_op cfg A I new (mset bs) h h' \<and> length bs \<le> unat n"
proof -
  have cfg: "primary_ok cfg" and l: "unat I < length (RegionInfoArray h)"
    using st by (auto simp: region_state_def list_state_def dest: custody_cfg)
  have base: "MemMapBase (getRegionInfo I h) \<noteq> None" using ok by (auto simp: region_ok_def)
  define T where "T = populate_target cfg I (getRegionInfo I h)"
  obtain mapped h1 where m: "(if T > MappedUser (getRegionInfo I h) then map_more cfg os I T h else (True, h)) = (mapped, h1)"
    by (meson surj_pair)
  note pm = populate_map [OF cfg I(2) l ok m [unfolded T_def]]
  obtain M E where r1: "getRegionInfo I h1 = (getRegionInfo I h)\<lparr>MappedUser := M, Exhausted := E\<rparr>" using pm(2) by blast
  have l1: "unat I < length (RegionInfoArray h1)" using l pm(1) by (simp add: only_regionD(3))
  have s1: "class_op cfg A I {#} {#} h h1"
    using st pm(1,3) l1 custody_only_region [OF I(1) pm(1)] class_frame_region [OF pm(1) I(1)]
    by (simp add: class_op_def region_state_def list_state_def r1 carved_blocks_def num_blocks_def)
  have st1: "region_state cfg A I h1" using s1 by (simp add: class_op_def)
  show ?thesis
  proof (cases mapped)
    case False
    then have "bs = []" "h' = h1"
      using pop unfolding populate_unfold [OF base] Let_def T_def [symmetric] m by simp_all
    then show ?thesis using s1 by auto
  next
    case True
    let ?r1 = "getRegionInfo I h1"
    let ?N = "populate_blocks cfg I ?r1"
    define Array where "Array = new_blocks cfg (RegionBeg ?r1) (p_getSizeByClassId cfg I) ?r1 (unat ?N)"
    obtain h2 h3 where q: "push_new_blocks cfg (getBatchClassBlock cfg os) I Array h1 = Inr h2"
      and p: "popBlocksImpl cfg (deallocate_batch_block cfg) I n h2 = Inr (bs, h3)"
      and h': "h' = populate_finish cfg I ?N h3"
      using pop True I(1) unfolding populate_unfold [OF base] Let_def T_def [symmetric] m
      by (auto simp: bindE_eq_Inr Array_def)
    have "unat ?N < 4294967296" by (rule unat_less_32)
    then have "length Array < 2 ^ 32" by (simp add: Array_def new_blocks_def)
    note s2 = push_new_blocks_step [OF st1 I(1) q this]
    then have st2: "region_state cfg A I h2" by (simp add: class_step_def)
    note s3 = popBlocksImpl_step [OF st2 I(1) p]
    have s: "class_step cfg A I (mset Array) (mset bs) h1 h3" using class_step_trans [OF s2] s3 by fastforce
    then have geo: "same_geometry ?r1 (getRegionInfo I h3)" and st3: "region_state cfg A I h3"
      by (simp_all add: class_step_def)
    have l3: "unat I < length (RegionInfoArray h3)" using st3 by (simp add: region_state_def)
    note c = carve [OF cfg I(2) l3 pm(3) pm(4) [OF True] geo Array_def, folded h']
    note f = populate_finish_ok [OF l3, of cfg ?N, folded h']
    have "carved_blocks cfg I h3 = carved_blocks cfg I h1" using geo by (simp add: carved_blocks_def same_geometryD)
    moreover have "class_frame I h1 h'"
      using s class_frame_trans [OF _ class_frame_region [OF f(1) I(1)]] by (simp add: class_step_def)
    moreover have "region_state cfg A I h'"
      using st3 custody_only_region [OF I(1) f(1)] l3
      by (simp add: region_state_def list_state_def f(2) only_regionD(3) [OF f(1)])
    ultimately have "class_op cfg A I (mset Array) (mset bs) h1 h'"
      using c(1,2) s geo by (simp add: class_op_def class_step_def f(2) same_geometryD)
    from class_op_trans [OF s1 this] s3 show ?thesis by auto
  qed
qed

lemma popBlocks_step:
  assumes st: "region_state cfg A I h" and I: "I \<noteq> BatchClassId" "I < NumClasses (PSizeMap cfg)"
    and ok: "region_ok cfg I (getRegionInfo I h)"
    and pop: "popBlocks cfg os I n h = Inr (bs, h')"
  shows "\<exists>new. class_op cfg A I new (mset bs) h h' \<and> length bs \<le> unat n"
proof -
  let ?d = "deallocate_batch_block cfg" and ?g = "getBatchClassBlock cfg os"
  obtain bs1 h1 where p1: "popBlocksImpl cfg ?d I n h = Inr (bs1, h1)"
    using pop by (auto simp: popBlocks_def popBlocks_gen_def bindE_eq_Inr)
  note c1 = popBlocksImpl_step [OF st I(1) p1]
  have s1: "class_op cfg A I {#} (mset bs1) h h1" using c1 ok class_step_op by blast
  then have st1: "region_state cfg A I h1" and ok1: "region_ok cfg I (getRegionInfo I h1)"
    by (simp_all add: class_op_def)
  show ?thesis
  proof (cases "bs1 = []")
    case False
    then have "bs = bs1" "h' = h1" using pop p1 by (auto simp: popBlocks_def popBlocks_gen_def)
    then show ?thesis using s1 c1 by auto
  next
    case nil1: True
    obtain bs2 h2 where p2: "popBlocksImpl cfg ?d I n h1 = Inr (bs2, h2)"
      using pop p1 nil1 by (auto simp: popBlocks_def popBlocks_gen_def bindE_eq_Inr)
    note c2 = popBlocksImpl_step [OF st1 I(1) p2]
    have "class_op cfg A I {#} (mset bs2) h1 h2" using c2 ok1 class_step_op by blast
    from class_op_trans [OF s1 this] nil1 have s2: "class_op cfg A I {#} (mset bs2) h h2" by simp
    then have st2: "region_state cfg A I h2" and ok2: "region_ok cfg I (getRegionInfo I h2)"
      by (simp_all add: class_op_def)
    show ?thesis
    proof (cases "bs2 = []")
      case False
      then have "bs = bs2" "h' = h2" using pop p1 p2 nil1 by (auto simp: popBlocks_def popBlocks_gen_def)
      then show ?thesis using s2 c2 by auto
    next
      case nil2: True
      show ?thesis
      proof (cases "Exhausted (getRegionInfo I h2)")
        case True
        then have "bs = []" "h' = h2" using pop p1 p2 nil1 nil2
          by (auto simp: popBlocks_def popBlocks_gen_def)
        then show ?thesis using s2 nil2 by auto
      next
        case False
        then have "populateFreeListAndPopBlocks cfg os ?g ?d I n h2 = Inr (bs, h')"
          using pop p1 p2 nil1 nil2 I
          by (auto simp: popBlocks_def popBlocks_gen_def bindE_eq_Inr split: if_splits)
        from populate_step [OF st2 I ok2 this] obtain new where
          s3: "class_op cfg A I new (mset bs) h2 h'" "length bs \<le> unat n" by blast
        from class_op_trans [OF s2 s3(1)] s3(2) nil2 show ?thesis by auto
      qed
    qed
  qed
qed

section \<open>All classes as a source of blocks\<close>

definition list_of :: "heap \<Rightarrow> nat \<Rightarrow> batch_group list" where
  "list_of h J = BlockList (RegionInfoArray h ! J)"

definition primary_inv :: "primary_config \<Rightarrow> heap \<Rightarrow> bool" where
  "primary_inv cfg h \<longleftrightarrow> length (RegionInfoArray h) = unat (NumClasses (PSizeMap cfg))
     \<and> custody cfg (\<Sum>J \<in> {1 ..< length (RegionInfoArray h)}. groups_addrs (list_of h J)) h
     \<and> (\<forall>J \<in> {1 ..< length (RegionInfoArray h)}.
          region_ok cfg (of_nat J) (RegionInfoArray h ! J) \<and> groups_ok cfg (list_of h J))"

definition is_class :: "primary_config \<Rightarrow> uptr \<Rightarrow> bool" where
  "is_class cfg I \<longleftrightarrow> I \<noteq> BatchClassId \<and> I < NumClasses (PSizeMap cfg)"

definition other_addrs :: "uptr \<Rightarrow> heap \<Rightarrow> uptr multiset" where
  "other_addrs I h = (\<Sum>J \<in> {1 ..< length (RegionInfoArray h)} - {unat I}. groups_addrs (list_of h J))"

lemma class_index: "is_class cfg I \<Longrightarrow> length (RegionInfoArray h) = unat (NumClasses (PSizeMap cfg)) \<Longrightarrow>
    unat I \<in> {1 ..< length (RegionInfoArray h)}"
  by (auto simp: is_class_def BatchClassId_def word_less_nat_alt Suc_le_eq unat_gt_0)

lemma list_of_class: "list_of h (unat I) = BlockList (getRegionInfo I h)"
  by (simp add: list_of_def getRegionInfo_def)

lemma primary_inv_region:
  assumes "primary_inv cfg h" "is_class cfg I"
  shows "region_state cfg (other_addrs I h) I h" "region_ok cfg I (getRegionInfo I h)"
    "groups_ok cfg (BlockList (getRegionInfo I h))"
proof -
  note i = class_index [OF assms(2)]
  have l: "length (RegionInfoArray h) = unat (NumClasses (PSizeMap cfg))" using assms(1) by (simp add: primary_inv_def)
  note i = class_index [OF assms(2) this]
  have r: "region_ok cfg (of_nat (unat I)) (RegionInfoArray h ! unat I) \<and> groups_ok cfg (list_of h (unat I))"
    using assms(1) i unfolding primary_inv_def by blast
  show "region_ok cfg I (getRegionInfo I h)" using r by (simp add: getRegionInfo_def)
  show g: "groups_ok cfg (BlockList (getRegionInfo I h))" using r by (simp add: list_of_class)
  have "(\<Sum>J \<in> {1 ..< length (RegionInfoArray h)}. groups_addrs (list_of h J))
      = other_addrs I h + groups_addrs (list_of h (unat I))"
    using i by (simp add: other_addrs_def sum.remove [of _ "unat I"] add.commute)
  then show "region_state cfg (other_addrs I h) I h"
    using assms(1) g i by (simp add: primary_inv_def region_state_def list_state_def list_of_class)
qed

lemma primary_inv_step:
  assumes "primary_inv cfg h" "is_class cfg I" "region_state cfg (other_addrs I h) I h'" "class_frame I h h'"
    "region_ok cfg I (getRegionInfo I h')"
  shows "primary_inv cfg h'"
proof -
  have l: "length (RegionInfoArray h) = unat (NumClasses (PSizeMap cfg))"
    and l': "length (RegionInfoArray h') = length (RegionInfoArray h)"
    using assms(1,4) by (simp_all add: primary_inv_def class_frame_def)
  note i = class_index [OF assms(2) l]
  have J: "RegionInfoArray h' ! J = RegionInfoArray h ! J"
    if "J \<in> {1 ..< length (RegionInfoArray h)} - {unat I}" for J
  proof -
    have "J < 2 ^ 64" using that order.strict_trans [OF _ unat_less_64 [of "NumClasses (PSizeMap cfg)"], of J] by (simp add: l)
    then have u: "unat (of_nat J :: uptr) = J" by (intro unat_of_nat_small) simp
    then have "of_nat J \<noteq> I" "of_nat J \<noteq> BatchClassId" using that by (auto simp: BatchClassId_def)
    then have "getRegionInfo (of_nat J) h' = getRegionInfo (of_nat J) h" using assms(4) by (simp add: class_frame_def)
    then show ?thesis by (simp add: getRegionInfo_def u)
  qed
  have "(\<Sum>J \<in> {1 ..< length (RegionInfoArray h)}. groups_addrs (list_of h' J))
      = other_addrs I h + groups_addrs (list_of h' (unat I))"
    using i J by (simp add: other_addrs_def sum.remove [of _ "unat I"] add.commute list_of_def)
  then have "custody cfg (\<Sum>J \<in> {1 ..< length (RegionInfoArray h')}. groups_addrs (list_of h' J)) h'"
    using assms(3) by (simp add: l' region_state_def list_state_def list_of_class)
  moreover have "region_ok cfg (of_nat J) (RegionInfoArray h' ! J) \<and> groups_ok cfg (list_of h' J)"
    if j: "J \<in> {1 ..< length (RegionInfoArray h')}" for J
  proof (cases "J = unat I")
    case True
    then show ?thesis using assms(3,5)
      by (simp add: list_of_class region_state_def list_state_def) (simp add: getRegionInfo_def)
  next
    case False
    then show ?thesis using assms(1) j J [of J] by (simp add: primary_inv_def list_of_def l')
  qed
  ultimately show ?thesis using l l' by (simp add: primary_inv_def)
qed

lemma free_blocks_class: "primary_inv cfg h \<Longrightarrow> is_class cfg I \<Longrightarrow> free_blocks cfg I h = region_blocks I h"
  using primary_inv_region(3) by (simp add: free_blocks_def groups_blocks_listed)

lemma class_frame_blocks:
  assumes "class_frame I h h'" "is_class cfg J"
  shows "get_class J h' = get_class J h
    \<and> (J \<noteq> I \<longrightarrow> free_blocks cfg J h' = free_blocks cfg J h \<and> carved_blocks cfg J h' = carved_blocks cfg J h)"
  using assms by (simp add: class_frame_def is_class_def free_blocks_def carved_blocks_def)

lemma class_frame_compact:
  assumes "class_frame I h h'" "RegionBeg (getRegionInfo I h') = RegionBeg (getRegionInfo I h)"
  shows "RegionBeg (getRegionInfo J h') = RegionBeg (getRegionInfo J h)"
  using assms by (cases "J = I"; cases "J = BatchClassId") (simp_all add: class_frame_def)

text \<open>\<^verbatim>\<open>popBlocks\<close> on a class.\<close>

lemma pop_class:
  assumes inv: "primary_inv cfg h" and I: "is_class cfg I" and pop: "popBlocks cfg os I n h = Inr (bs, h')"
  shows "primary_inv cfg h'" and "class_frame I h h'" and "length bs \<le> unat n"
    and "\<exists>new. carved_blocks cfg I h' = carved_blocks cfg I h + new
      \<and> free_blocks cfg I h + new = free_blocks cfg I h' + mset bs"
    and "RegionBeg (getRegionInfo J h') = RegionBeg (getRegionInfo J h)"
proof -
  have i: "I \<noteq> BatchClassId" "I < NumClasses (PSizeMap cfg)" using I by (simp_all add: is_class_def)
  obtain new where c: "class_op cfg (other_addrs I h) I new (mset bs) h h'" and le: "length bs \<le> unat n"
    using popBlocks_step [OF primary_inv_region(1) [OF inv I] i primary_inv_region(2) [OF inv I] pop] by blast
  show inv': "primary_inv cfg h'" using primary_inv_step [OF inv I] c by (simp add: class_op_def)
  show f: "class_frame I h h'" using c by (simp add: class_op_def)
  show "length bs \<le> unat n" by (rule le)
  show "\<exists>new. carved_blocks cfg I h' = carved_blocks cfg I h + new
      \<and> free_blocks cfg I h + new = free_blocks cfg I h' + mset bs"
    using c by (auto simp: class_op_def free_blocks_class [OF inv I] free_blocks_class [OF inv' I])
  show "RegionBeg (getRegionInfo J h') = RegionBeg (getRegionInfo J h)"
    using class_frame_compact [OF f] c by (simp add: class_op_def)
qed

text \<open>\<^verbatim>\<open>pushBlocks\<close> on a class.\<close>

lemma push_class:
  assumes inv: "primary_inv cfg h" and I: "is_class cfg I" and push: "pushBlocks cfg os I Xs h = Inr (Ys, h')"
  shows "primary_inv cfg h'" and "class_frame I h h'" and "mset Ys = mset Xs"
    and "carved_blocks cfg I h' = carved_blocks cfg I h" and "free_blocks cfg I h' = free_blocks cfg I h + mset Xs"
    and "RegionBeg (getRegionInfo J h') = RegionBeg (getRegionInfo J h)"
proof -
  have i: "I \<noteq> BatchClassId" using I by (simp add: is_class_def)
  have c: "class_step cfg (other_addrs I h) I (mset Xs) {#} h h'" and ys: "mset Ys = mset Xs"
    using pushBlocks_step [OF primary_inv_region(1) [OF inv I] i push] by blast+
  have geo: "same_geometry (getRegionInfo I h) (getRegionInfo I h')" using c by (simp add: class_step_def)
  have "region_ok cfg I (getRegionInfo I h')" using geo primary_inv_region(2) [OF inv I] by (simp add: same_geometryD)
  then show inv': "primary_inv cfg h'" using primary_inv_step [OF inv I] c by (simp add: class_step_def)
  show f: "class_frame I h h'" using c by (simp add: class_step_def)
  show "mset Ys = mset Xs" by (rule ys)
  show "carved_blocks cfg I h' = carved_blocks cfg I h" using geo by (simp add: carved_blocks_def same_geometryD)
  show "free_blocks cfg I h' = free_blocks cfg I h + mset Xs"
    using c by (simp add: class_step_def free_blocks_class [OF inv I] free_blocks_class [OF inv' I])
  show "RegionBeg (getRegionInfo J h') = RegionBeg (getRegionInfo J h)"
    using class_frame_compact [OF f] geo by (simp add: same_geometryD)
qed

lemma primary_inv_upd_class: "is_class cfg I \<Longrightarrow> primary_inv cfg (upd_class I f h) = primary_inv cfg h"
  by (simp add: primary_inv_def list_of_def is_class_def)

lemma primary_inv_upd_stats: "primary_inv cfg (upd_stats g h) = primary_inv cfg h"
  by (simp add: primary_inv_def list_of_def)

interpretation nc: block_source "popBlocks cfg os" "pushBlocks cfg os" "compactPtr cfg" "is_class cfg"
  "\<lambda>I. 2 * class_count cfg I" "primary_inv cfg" "free_blocks cfg" "carved_blocks cfg" for cfg os
proof (unfold_locales, goal_cases)
  case (1 c I n bs c')
  then show ?case by (rule pop_class(1))
next
  case (2 c I n bs c')
  then show ?case by (rule pop_class(4))
next
  case (3 c I bs c')
  then show ?case by (rule pop_class(3))
next
  case (4 c I n bs c' J)
  then show ?case by (intro class_frame_blocks pop_class(2) [OF 4(1-3)])
next
  case (5 c I n bs c')
  then show ?case using pop_class(2) [OF 5(1-3)] by (simp add: class_frame_def)
next
  case (6 c I xs ys c')
  then show ?case using push_class(1) by blast
next
  case (7 c I xs ys c')
  then show ?case using push_class(3-5) [OF 7(1,2,5)] by simp
next
  case (8 c I xs ys c' J)
  then show ?case by (intro class_frame_blocks push_class(2) [OF 8(1,2,5)])
next
  case (9 c I xs ys c')
  then show ?case using push_class(2) [OF 9(1,2,5)] by (simp add: class_frame_def)
next
  case (10 c I xs ys c' J P)
  then show ?case using push_class(6) [OF 10(1,2,5)] by (simp add: compactPtr_def)
qed (simp_all add: primary_inv_upd_class primary_inv_upd_stats compactPtr_def free_blocks_def carved_blocks_def)

section \<open>Allocation, deallocation and draining\<close>

definition heap_ok :: "primary_config \<Rightarrow> heap \<Rightarrow> bool" where
  "heap_ok cfg h \<longleftrightarrow> primary_inv cfg h \<and> (\<forall>I. is_class cfg I \<longrightarrow> unat I < length (PerClassArray h)
     \<and> class_ok (get_class I h) \<and> MaxCount (get_class I h) = 2 * class_count cfg I)"

text \<open>The blocks of a class are in its free list, in the cache, or live.\<close>

definition live_blocks :: "primary_config \<Rightarrow> (uptr \<Rightarrow> uptr multiset) \<Rightarrow> heap \<Rightarrow> bool" where
  "live_blocks cfg L h \<longleftrightarrow> (\<forall>I. is_class cfg I \<longrightarrow>
     carved_blocks cfg I h = free_blocks cfg I h + cached I h + L I)"

lemma heap_ok_cache: "heap_ok cfg h = nc.cache_inv cfg h" "live_blocks cfg L h = nc.owned cfg L h"
  by (simp_all add: heap_ok_def live_blocks_def nc.cache_inv_def nc.owned_def)

lemma nth_block_exact:
  assumes "primary_ok cfg" "I < NumClasses (PSizeMap cfg)" "n * block_size cfg I < 2 ^ 64"
  shows "unat (nth_block cfg I n) * 2 ^ CompactPtrScale cfg = n * block_size cfg I"
    and "push_bit (CompactPtrScale cfg) (nth_block cfg I n) = of_nat n * p_getSizeByClassId cfg I"
proof -
  let ?s = "CompactPtrScale cfg"
  have word_len_64: "LENGTH(64) = 64" by simp
  have dv: "2 ^ ?s dvd n * block_size cfg I" using ok_size(3) [OF assms(1,2)] by simp
  have u: "unat (of_nat n * p_getSizeByClassId cfg I :: uptr) = n * block_size cfg I"
  proof -
    have "of_nat n * p_getSizeByClassId cfg I = (of_nat (n * block_size cfg I) :: uptr)" by (simp add: block_size_def)
    then show ?thesis using assms(3) by (metis unat_of_nat_small word_len_64)
  qed
  show nb: "unat (nth_block cfg I n) * 2 ^ ?s = n * block_size cfg I"
    by (simp only: nth_block_def unat_drop_bit u dvd_div_mult_self [OF dv])
  have "unat (push_bit ?s (nth_block cfg I n)) = n * block_size cfg I"
    using assms(3) unat_push_bit_small [of "nth_block cfg I n" ?s] by (simp only: nb word_len_64)
  then show "push_bit ?s (nth_block cfg I n) = of_nat n * p_getSizeByClassId cfg I"
    by (simp only: word_unat_eq_iff u)
qed

lemma carved_in_region:
  assumes "primary_ok cfg" "is_class cfg I" "region_ok cfg I r"
  shows "n < num_blocks cfg I r \<Longrightarrow> Suc n * block_size cfg I \<le> unat (MappedUser r)"
    and "n < num_blocks cfg I r \<Longrightarrow> n * block_size cfg I < 2 ^ 64"
    and "inj_on (nth_block cfg I) {0 ..< num_blocks cfg I r}"
proof -
  have I: "I < NumClasses (PSizeMap cfg)" using assms(2) by (simp add: is_class_def)
  have S: "0 < block_size cfg I" using ok_size(1) [OF assms(1) I] by linarith
  have le: "Suc n * block_size cfg I \<le> unat (MappedUser r)" if "n < num_blocks cfg I r" for n
  proof -
    have "Suc n * block_size cfg I \<le> num_blocks cfg I r * block_size cfg I" using that by (intro mult_le_mono1) simp
    then show ?thesis using alloc_count(2) [OF assms(3) S] alloc_le(1) [OF assms(1,3)] by linarith
  qed
  have lt: "n * block_size cfg I < 2 ^ 64" if "n < num_blocks cfg I r" for n
    using le [OF that] alloc_le(2) [OF assms(1,3)] by simp
  show "inj_on (nth_block cfg I) {0 ..< num_blocks cfg I r}"
  proof (rule inj_onI)
    fix m n assume "m \<in> {0 ..< num_blocks cfg I r}" "n \<in> {0 ..< num_blocks cfg I r}"
      and eq: "nth_block cfg I m = nth_block cfg I n"
    then have "m * block_size cfg I = n * block_size cfg I"
      using nth_block_exact(1) [OF assms(1) I lt] by (metis atLeastLessThan_iff)
    then show "m = n" using S by simp
  qed
  show "n < num_blocks cfg I r \<Longrightarrow> Suc n * block_size cfg I \<le> unat (MappedUser r)" by (rule le)
  show "n < num_blocks cfg I r \<Longrightarrow> n * block_size cfg I < 2 ^ 64" by (rule lt)
qed

lemma live_once:
  assumes "heap_ok cfg h" "live_blocks cfg L h" "is_class cfg I"
  shows "count (L I) b \<le> 1"
proof -
  have inv: "primary_inv cfg h" using assms(1) by (simp add: heap_ok_def)
  note ok = primary_inv_region [OF inv assms(3)]
  have cfg: "primary_ok cfg" using ok(1) by (auto simp: region_state_def list_state_def dest: custody_cfg)
  have "distinct (map (nth_block cfg I) [0 ..< num_blocks cfg I (getRegionInfo I h)])"
    using carved_in_region(3) [OF cfg assms(3) ok(2)] by (simp add: distinct_map)
  then have "count (carved_blocks cfg I h) b \<le> 1"
    unfolding carved_blocks_def by (metis distinct_count_atmost_1 le_refl zero_le)
  moreover have "count (L I) b \<le> count (carved_blocks cfg I h) b"
    using assms(2,3) by (simp add: live_blocks_def)
  ultimately show ?thesis by linarith
qed

end
