(* ===== verification/PrimaryLife.thy ===== *)
theory PrimaryLife
  imports PrimarySafe
begin

text \<open>
  The life of the primary as a client sees it: after initialisation every block is free, an
  allocation hands out a block that no one else has, a deallocation takes exactly that block back,
  and draining the cache of a thread ends with every block that is not live in the free lists.
\<close>

unbundle bit_operations_syntax

text \<open>A block that the primary hands out: its place, and that it was free.\<close>

definition block_placed :: "primary_config \<Rightarrow> uptr \<Rightarrow> uptr \<Rightarrow> bool" where
  "block_placed cfg I P \<longleftrightarrow> unat P + block_size cfg I < 2 ^ 56 \<and> 16 dvd unat P"

lemma sca_allocate_block:
  assumes "heap_ok cfg h" "live_blocks cfg L h" "is_class cfg I" "sca_allocate cfg os I h = Inr (r, h')"
  shows "heap_ok cfg h' \<and> (case r of
      None \<Rightarrow> live_blocks cfg L h'
    | Some P \<Rightarrow> live_blocks cfg (L(I := add_mset (compactPtr cfg I P h') (L I))) h'
        \<and> compactPtr cfg I P h' \<notin># L I \<and> block_placed cfg I P
        \<and> (\<exists>k. P = RegionBeg (getRegionInfo I h') + of_nat k * p_getSizeByClassId cfg I
             \<and> Suc k * unat (p_getSizeByClassId cfg I) \<le> unat (MappedUser (getRegionInfo I h'))))"
proof -
  have al: "cache_allocate (popBlocks cfg os) (decompactPtr cfg) I h = Inr (r, h')"
    using assms(4) by (simp add: sca_allocate_def)
  have "heap_ok cfg h' \<and> (case r of None \<Rightarrow> live_blocks cfg L h' | Some P \<Rightarrow>
      \<exists>b. P = decompactPtr cfg I b h' \<and> live_blocks cfg (L(I := add_mset b (L I))) h')"
    using nc.allocate_spec [OF _ assms(3) _ al] assms(1,2) unfolding heap_ok_cache by blast
  then have ok: "heap_ok cfg h'" and sp: "case r of None \<Rightarrow> live_blocks cfg L h' | Some P \<Rightarrow>
      \<exists>b. P = decompactPtr cfg I b h' \<and> live_blocks cfg (L(I := add_mset b (L I))) h'" by blast+
  show ?thesis
  proof (cases r)
    case None
    then show ?thesis using ok sp by simp
  next
    case (Some P)
    then obtain b where P: "P = decompactPtr cfg I b h'" and lv: "live_blocks cfg (L(I := add_mset b (L I))) h'"
      using sp by auto
    have inv: "primary_inv cfg h'" using ok by (simp add: heap_ok_def)
    note reg = primary_inv_region [OF inv assms(3)]
    have cfg: "primary_ok cfg" using reg(1) by (auto simp: region_state_def list_state_def dest: custody_cfg)
    have "b \<in># carved_blocks cfg I h'" using lv assms(3) by (simp add: live_blocks_def)
    then obtain k where k: "k < num_blocks cfg I (getRegionInfo I h')" "b = nth_block cfg I k"
      by (auto simp: carved_blocks_def)
    note c = carved_in_region(1,2) [OF cfg assms(3) reg(2) k(1)]
    have I: "I < NumClasses (PSizeMap cfg)" using assms(3) by (simp add: is_class_def)
    have b: "compactPtr cfg I P h' = b"
      by (simp add: P k(2) compactPtr_def decompactPtr_def compact_decompact_offset)
    have Pk: "P = RegionBeg (getRegionInfo I h') + of_nat k * p_getSizeByClassId cfg I"
      using nth_block_exact(2) [OF cfg I c(2)] by (simp add: P k(2) decompactPtr_def decompactPtrInternal_def)
    moreover have "block_placed cfg I P"
    proof -
      let ?r = "getRegionInfo I h'"
      have lim: "unat (RegionBeg ?r) + unat (MappedUser ?r) < 2 ^ 56" "16 dvd unat (RegionBeg ?r)"
        using reg(2) by (auto simp: region_ok_def)
      have "of_nat k * p_getSizeByClassId cfg I = (of_nat (k * block_size cfg I) :: uptr)" by (simp add: block_size_def)
      moreover have "unat (of_nat (k * block_size cfg I) :: uptr) = k * block_size cfg I"
        using c(2) by (intro unat_of_nat_small) simp
      ultimately have "unat P = unat (RegionBeg ?r) + k * block_size cfg I"
        unfolding Pk using lim(1) c(1) by (subst unat_add_small) simp_all
      then show ?thesis using lim c(1) ok_size(4) [OF cfg I] by (simp add: block_placed_def)
    qed
    moreover have "count (L I) b = 0" using live_once [OF ok lv assms(3), of b] by simp
    ultimately show ?thesis using ok lv c(1) b Some by (auto simp: not_in_iff block_size_def)
  qed
qed

text \<open>C3: When the primary's \<^verbatim>\<open>allocate\<close> (through the thread's cache, with \<^verbatim>\<open>popBlocks\<close>,
  \<^verbatim>\<open>populateFreeListAndPopBlocks\<close> and the batch class behind it) returns a block, it is the \<open>k\<close>-th
  block of the class's region, it lies in the mapped part, nobody else has it, and it is now the
  only change to the live blocks. When it returns none, nothing is lost.\<close>

theorem allocate_hands_out_fresh_block:
  assumes "heap_ok cfg h" "live_blocks cfg L h" "is_class cfg I" "sca_allocate cfg os I h = Inr (r, h')"
  shows "heap_ok cfg h' \<and> (case r of
      None \<Rightarrow> live_blocks cfg L h'
    | Some P \<Rightarrow> live_blocks cfg (L(I := add_mset (compactPtr cfg I P h') (L I))) h'
        \<and> compactPtr cfg I P h' \<notin># L I
        \<and> (\<exists>k. P = RegionBeg (getRegionInfo I h') + of_nat k * p_getSizeByClassId cfg I
             \<and> Suc k * unat (p_getSizeByClassId cfg I) \<le> unat (MappedUser (getRegionInfo I h'))))"
  using sca_allocate_block [OF assms] by (auto split: option.splits)

text \<open>C4: Returning a live block to the primary through the thread's cache (draining half of the
  cache when it is full) makes exactly that block free again.\<close>

theorem deallocate_takes_back:
  assumes "heap_ok cfg h" "live_blocks cfg L h" "is_class cfg I" "compactPtr cfg I P h \<in># L I"
    and "sca_deallocate cfg os I P h = Inr (drain, h')"
  shows "heap_ok cfg h' \<and> live_blocks cfg (L(I := L I - {#compactPtr cfg I P h#})) h'"
  using nc.deallocate_spec [of cfg h I L P "PSizeMap cfg" os drain h'] assms
  unfolding heap_ok_cache sca_deallocate_def by blast

section \<open>Draining\<close>

lemma drain_loop_mono:
  assumes "\<And>xs c. push I xs c = push' I xs c" "drain_loop push I c = Some r"
  shows "drain_loop push' I c = Some r"
proof -
  have d: "drain_class push I c = drain_class push' I c" for c
    using assms(1) by (simp add: drain_class_def)
  have "(\<forall>c. drain_class push I c = drain_class push' I c) \<longrightarrow> drain_loop push' I c = Some r"
    by (rule drain_loop.raw_induct [OF _ assms(2)], subst drain_loop.simps) (auto split: if_splits sum.splits)
  then show ?thesis using d by blast
qed

lemma push_batch_same: "pushBlocks cfg os BatchClassId Xs h = push_batch_class cfg BatchClassId Xs h"
  by (simp add: pushBlocks_def push_batch_class_def pushBlocks_gen_def)

lemma drain_batch_class_frame:
  assumes "custody cfg A h" "drain_class (push_batch_class cfg) BatchClassId h = Inr h'"
  shows "batch_frame h h'"
proof -
  have l: "0 < length (RegionInfoArray h)" using assms(1) by (simp add: custody_def batch_inv_def)
  obtain Xs f where h': "h' = upd_class BatchClassId f (pushBatchClassBlocks cfg Xs h)"
    using assms(2) by (auto simp: drain_class_def Let_def bindE_eq_Inr push_batch_class_eq)
  have "batch_frame h (pushBatchClassBlocks cfg Xs h)"
    by (intro batch_frame_region)
      (simp_all add: pushBatchClassBlocks_def batch_region_upd [OF l] same_geometryD [OF push_batch_region_geometry])
  then show ?thesis unfolding h' by (rule batch_frame_trans [OF _ batch_frame_class])
qed

lemma custody_frame_owned:
  assumes "batch_frame h h'" "bc.cache_inv cfg h'" "bc.owned cfg (\<lambda>_. image_mset (\<lambda>a. compactPtr cfg BatchClassId a h) A) h'"
  shows "custody cfg A h'"
  using assms by (simp add: custody_iff compactPtr_frame)

lemma drain_batch:
  assumes "custody cfg A h"
  shows "\<exists>h'. drain_loop (push_batch_class cfg) BatchClassId h = Some (Inr h') \<and> custody cfg A h' \<and> batch_frame h h'
    \<and> Count (get_class BatchClassId h') = 0"
  using assms
proof (induction "unat (Count (get_class BatchClassId h))" arbitrary: h rule: less_induct)
  case less
  show ?case
  proof (cases "Count (get_class BatchClassId h) > 0")
    case False
    then show ?thesis using less.prems by (subst drain_loop.simps) (auto simp: word_gt_0)
  next
    case True
    obtain h1 where d: "drain_class (push_batch_class cfg) BatchClassId h = Inr h1"
      by (simp add: drain_class_def push_batch_class_def pushBlocks_gen_def Let_def)
    have c: "bc.cache_inv cfg h" "bc.owned cfg (\<lambda>_. image_mset (\<lambda>a. compactPtr cfg BatchClassId a h) A) h"
      using less.prems by (simp_all add: custody_iff)
    note s = bc.drain_class_spec [OF c(1) refl c(2) True d]
    note f = drain_batch_class_frame [OF less.prems d]
    have "unat (Count (get_class BatchClassId h1)) < unat (Count (get_class BatchClassId h))"
      using s(3) by (simp add: word_less_nat_alt)
    from less.hyps [OF this custody_frame_owned [OF f s(1,2)]] show ?thesis
      using True d batch_frame_trans [OF f] by (subst drain_loop.simps) auto
  qed
qed

lemma heap_ok_batch_frame:
  assumes "heap_ok cfg h" "batch_frame h h'" "\<And>A. custody cfg A h \<Longrightarrow> custody cfg A h'"
  shows "heap_ok cfg h'"
proof -
  have r: "RegionInfoArray h' ! J = RegionInfoArray h ! J" if "J \<in> {1 ..< length (RegionInfoArray h)}" for J
  proof -
    have "J < unat (NumClasses (PSizeMap cfg))" using that assms(1) by (simp add: heap_ok_def primary_inv_def)
    then have "J < 18446744073709551616" using unat_less_64 [of "NumClasses (PSizeMap cfg)"] by linarith
    then have u: "unat (of_nat J :: uptr) = J" by (intro unat_of_nat_small) simp
    then have "of_nat J \<noteq> BatchClassId" using that by (auto simp: BatchClassId_def)
    then have "getRegionInfo (of_nat J) h' = getRegionInfo (of_nat J) h" using assms(2) by (simp add: batch_frame_def)
    then show ?thesis by (simp add: getRegionInfo_def u)
  qed
  have l: "length (RegionInfoArray h') = length (RegionInfoArray h)" using assms(2) by (simp add: batch_frame_def)
  have "(\<Sum>J \<in> {1 ..< length (RegionInfoArray h)}. groups_addrs (list_of h' J))
      = (\<Sum>J \<in> {1 ..< length (RegionInfoArray h)}. groups_addrs (list_of h J))"
    using r by (intro sum.cong) (simp_all add: list_of_def)
  moreover have "custody cfg (\<Sum>J \<in> {1 ..< length (RegionInfoArray h)}. groups_addrs (list_of h J)) h'"
    by (rule assms(3)) (use assms(1) in \<open>unfold heap_ok_def primary_inv_def, blast\<close>)
  ultimately have "custody cfg (\<Sum>J \<in> {1 ..< length (RegionInfoArray h')}. groups_addrs (list_of h' J)) h'"
    by (simp only: l)
  then have "primary_inv cfg h'"
    using assms(1) r by (auto simp: heap_ok_def primary_inv_def l list_of_def)
  then show ?thesis using assms(1,2) by (simp add: heap_ok_def batch_frame_def is_class_def)
qed

lemma live_blocks_batch_frame:
  assumes "live_blocks cfg L h" "batch_frame h h'"
  shows "live_blocks cfg L h'"
  using assms by (simp add: live_blocks_def batch_frame_def is_class_def free_blocks_def carved_blocks_def cached_def)

lemma drain_classes_append:
  "drain_classes push (Is @ Js) c = (case drain_classes push Is c of None \<Rightarrow> None
     | Some (Inl e) \<Rightarrow> Some (Inl e) | Some (Inr c') \<Rightarrow> drain_classes push Js c')"
  by (induction Is arbitrary: c) (auto split: option.splits sum.splits)

text \<open>C5: Draining the cache of a thread ends, and when it ends without an error the cache holds no
  block of any class, no live block was touched and every block that is not live is in a free list.\<close>

theorem drain_empties_cache:
  assumes "heap_ok cfg h" "live_blocks cfg L h"
  shows "\<exists>r. sca_drain cfg os h = Some r \<and> (\<forall>h'. r = Inr h' \<longrightarrow> heap_ok cfg h' \<and> live_blocks cfg L h'
    \<and> (\<forall>I < NumClasses (PSizeMap cfg). Count (get_class I h') = 0)
    \<and> (\<forall>I. is_class cfg I \<longrightarrow> carved_blocks cfg I h' = free_blocks cfg I h' + L I))"
proof -
  define Is where "Is = filter (\<lambda>I. I \<noteq> BatchClassId) (map of_nat [0 ..< unat (NumClasses (PSizeMap cfg))] :: uptr list)"
  have served: "I \<in> set Is \<longleftrightarrow> is_class cfg I" for I
  proof
    assume "I \<in> set Is"
    then obtain n where n: "I = of_nat n" "n < unat (NumClasses (PSizeMap cfg))" "I \<noteq> BatchClassId" by (auto simp: Is_def)
    have "n < 18446744073709551616" using n(2) unat_less_64 [of "NumClasses (PSizeMap cfg)"] by linarith
    then have "unat I = n" unfolding n(1) by (intro unat_of_nat_small) simp
    then show "is_class cfg I" using n by (simp add: is_class_def word_less_nat_alt)
  next
    assume "is_class cfg I"
    then show "I \<in> set Is"
      by (auto simp: Is_def is_class_def word_less_nat_alt intro!: image_eqI [of _ _ "unat I"])
  qed
  have nc: "nc.cache_inv cfg h" "nc.owned cfg L h" using assms by (simp_all add: heap_ok_cache)
  obtain r where r: "drain_classes (pushBlocks cfg os) Is h = Some r"
    "\<And>h1. r = Inr h1 \<Longrightarrow> nc.cache_inv cfg h1 \<and> nc.owned cfg L h1 \<and> (\<forall>I \<in> set Is. Count (get_class I h1) = 0)"
    using nc.drain_classes_spec [OF nc, of Is] served by blast
  have sd: "sca_drain cfg os h = drain_classes (pushBlocks cfg os) (Is @ [BatchClassId]) h"
    by (simp add: sca_drain_def cache_drain_def drain_order_def Is_def)
  show ?thesis
  proof (cases r)
    case (Inl e)
    then show ?thesis using r(1) by (simp add: sd drain_classes_append)
  next
    case (Inr h1)
    then have h1: "heap_ok cfg h1" "live_blocks cfg L h1" "\<forall>I \<in> set Is. Count (get_class I h1) = 0"
      using r(2) by (simp_all add: heap_ok_cache)
    obtain A where A: "custody cfg A h1" using h1(1) by (auto simp: heap_ok_def primary_inv_def)
    obtain h2 where h2: "drain_loop (push_batch_class cfg) BatchClassId h1 = Some (Inr h2)"
        "batch_frame h1 h2" "Count (get_class BatchClassId h2) = 0"
      and cu: "\<And>A. custody cfg A h1 \<Longrightarrow> custody cfg A h2"
      using drain_batch [OF A] drain_batch by fastforce
    have "drain_loop (pushBlocks cfg os) BatchClassId h1 = Some (Inr h2)"
      by (rule drain_loop_mono [OF _ h2(1)]) (simp add: push_batch_same)
    then have "sca_drain cfg os h = Some (Inr h2)" using r(1) Inr by (simp add: sd drain_classes_append)
    moreover have hl: "heap_ok cfg h2" "live_blocks cfg L h2"
      using heap_ok_batch_frame [OF h1(1) h2(2) cu] live_blocks_batch_frame [OF h1(2) h2(2)] by blast+
    moreover have z: "Count (get_class I h2) = 0" if "I < NumClasses (PSizeMap cfg)" for I
    proof (cases "I = BatchClassId")
      case False
      then have "is_class cfg I" using that by (simp add: is_class_def)
      then show ?thesis using False h1(3) served h2(2) by (simp add: batch_frame_def)
    qed (use h2 in simp)
    moreover have "carved_blocks cfg I h2 = free_blocks cfg I h2 + L I" if "is_class cfg I" for I
      using hl(2) z [of I] that by (simp add: live_blocks_def cached_def is_class_def)
    ultimately show ?thesis by simp
  qed
qed

section \<open>Initialisation\<close>

lemma getMaxCached_bounds:
  assumes "primary_ok cfg"
  shows "1 \<le> getMaxCached (PSizeMap cfg) Size" "unat (getMaxCached (PSizeMap cfg) Size) < 2 ^ 14"
    "unat (getMaxCached (PSizeMap cfg) Size) \<le> unat (MaxNumCachedHint (PSizeMap cfg))"
proof -
  let ?M = "MaxNumCachedHint (PSizeMap cfg)"
  have M: "unat ?M < 2 ^ 14" using assms by (simp add: primary_ok_def MaxNumBlocksInBatch_def)
  have "2 \<le> batch_limit cfg" by (rule batch_limit_ge [OF assms])
  then have M2: "2 \<le> ?M" by (auto simp: batch_limit_def getMaxCached_def min_def split: if_splits)
  show c: "unat (getMaxCached (PSizeMap cfg) Size) \<le> unat ?M" for Size
    by (simp add: getMaxCached_def min_def word_le_nat_alt)
  then show "unat (getMaxCached (PSizeMap cfg) Size) < 2 ^ 14" using M by (rule order.strict_trans1)
  define N where "N = (if MaxBytesCachedLog (PSizeMap cfg) > 31 \<or> MaxSizeLog (PSizeMap cfg) > 31
    then ucast (push_bit (MaxBytesCachedLog (PSizeMap cfg)) 1 div Size) :: u32
    else push_bit (MaxBytesCachedLog (PSizeMap cfg)) 1 div (ucast Size :: u32))"
  have "unat (max 1 (min (ucast ?M) N)) \<le> max 1 (unat ?M)"
  proof -
    have "unat (min (ucast ?M) N) \<le> unat (ucast ?M :: u32)" by (simp add: min_def word_le_nat_alt)
    then have "unat (min (ucast ?M) N) \<le> unat ?M" by (simp add: unat_ucast_up)
    then show ?thesis by (simp add: max_def)
  qed
  then have "unat (max 1 (min (ucast ?M) N)) < 65536" using M by simp
  then have "unat (ucast (max 1 (min (ucast ?M) N)) :: u16) = unat (max 1 (min (ucast ?M) N))"
    by (simp add: unat_ucast_eq)
  moreover have "1 \<le> unat (max 1 (min (ucast ?M) N))" by (simp add: max_def word_le_nat_alt)
  ultimately have "1 \<le> getMaxCachedHint (PSizeMap cfg) Size"
    by (simp add: getMaxCachedHint_def N_def [symmetric] Let_def word_le_nat_alt)
  then show "1 \<le> getMaxCached (PSizeMap cfg) Size" using M2 by (auto simp: getMaxCached_def min_def word_le_nat_alt)
qed

lemma new_class_ok:
  assumes "primary_ok cfg"
  shows "class_ok (new_class (PSizeMap cfg) sz I)"
proof -
  note b = getMaxCached_bounds [OF assms, of "sz I"]
  have "unat (2 * getMaxCached (PSizeMap cfg) (sz I)) = 2 * unat (getMaxCached (PSizeMap cfg) (sz I))"
    using b(2) by (simp add: unat_mult_small)
  then show ?thesis using b by (simp add: class_ok_def new_class_def word_le_nat_alt)
qed

text \<open>A region right after \<^verbatim>\<open>initRegion\<close>.\<close>

definition fresh_region :: "primary_config \<Rightarrow> region \<Rightarrow> bool" where
  "fresh_region cfg r \<longleftrightarrow> BlockList r = [] \<and> MappedUser r = 0 \<and> AllocatedUser r = 0
     \<and> 16 dvd unat (RegionBeg r)
     \<and> (\<exists>b. MemMapBase r = Some b \<and> unat b \<le> unat (RegionBeg r)
          \<and> unat (RegionBeg r) \<le> unat b + 2 ^ RegionSizeLog cfg \<and> unat b + 2 ^ RegionSizeLog cfg < 2 ^ 56)"

lemma fresh_region_ok: "fresh_region cfg r \<Longrightarrow> region_ok cfg I r \<and> num_blocks cfg I r = 0"
  by (auto simp: fresh_region_def region_ok_def num_blocks_def)

lemma seed_regions_empty:
  "length (fst (seed_regions Seed n)) = n \<and> (\<forall>r \<in> set (fst (seed_regions Seed n)). \<exists>s. r = empty_region\<lparr>RandState := s\<rparr>)"
proof (induction n arbitrary: Seed)
  case (Suc n)
  obtain r s where g: "getRandomU32 Seed = (r, s)" by fastforce
  from Suc.IH [of s] show ?case by (auto simp: g split: prod.splits)
qed simp

lemma initRegion_fresh:
  assumes "unat b + 2 ^ RegionSizeLog cfg < 2 ^ 56" "PPageSizeLog cfg + 4 \<le> RegionSizeLog cfg"
    and "16 dvd unat b" "4 \<le> PPageSizeLog cfg"
  shows "fresh_region cfg (initRegion cfg D I b rnd (empty_region\<lparr>RandState := s\<rparr>))"
proof -
  have pw: "(2::nat) ^ PPageSizeLog cfg * 16 \<le> 2 ^ RegionSizeLog cfg"
  proof -
    have "(2::nat) ^ (PPageSizeLog cfg + 4) \<le> 2 ^ RegionSizeLog cfg" using assms(2) by (intro power_increasing) simp_all
    then show ?thesis by (simp add: power_add)
  qed
  have l56: "(2::nat) ^ RegionSizeLog cfg < 2 ^ 56" using assms(1) by linarith
  have "PPageSizeLog cfg < 56"
  proof (rule ccontr)
    assume "\<not> PPageSizeLog cfg < 56"
    then have "(2::nat) ^ 56 \<le> 2 ^ PPageSizeLog cfg" by (intro power_increasing) simp_all
    then show False using pw l56 by linarith
  qed
  then have ps: "unat (PageSizeOf cfg) = 2 ^ PPageSizeLog cfg"
    using unat_push_bit_1 [of "PPageSizeLog cfg"] by (simp add: PageSizeOf_def)
  obtain n s' where g: "getRandomModN s 16 = (n, s')" by fastforce
  have "unat n < 16" using g by (auto simp: getRandomModN_def unat_mod split: prod.splits)
  then have n: "unat (ucast n + 1 :: uptr) \<le> 16" by (subst unat_add_small) (simp_all add: unat_ucast_up)
  have off: "unat ((ucast n + 1) * PageSizeOf cfg) \<le> 2 ^ RegionSizeLog cfg"
  proof -
    have "unat (ucast n + 1 :: uptr) * unat (PageSizeOf cfg) \<le> 16 * 2 ^ PPageSizeLog cfg"
      unfolding ps using n by (rule mult_le_mono1)
    moreover have "unat ((ucast n + 1) * PageSizeOf cfg) \<le> unat (ucast n + 1 :: uptr) * unat (PageSizeOf cfg)"
      by (simp add: unat_word_ariths)
    ultimately show ?thesis using pw by linarith
  qed
  have "unat (ucast n + 1 :: uptr) * unat (PageSizeOf cfg) < 2 ^ LENGTH(64)"
  proof -
    have "unat (ucast n + 1 :: uptr) * unat (PageSizeOf cfg) \<le> 16 * 2 ^ PPageSizeLog cfg"
      unfolding ps using n by (rule mult_le_mono1)
    then show ?thesis using pw l56 by simp
  qed
  then have "unat ((ucast n + 1) * PageSizeOf cfg) = unat (ucast n + 1 :: uptr) * 2 ^ PPageSizeLog cfg"
    by (simp only: unat_mult_small ps)
  moreover have "16 dvd (2::nat) ^ PPageSizeLog cfg" using le_imp_power_dvd [OF assms(4), of "2::nat"] by simp
  ultimately have dv: "16 dvd unat ((ucast n + 1) * PageSizeOf cfg)" by simp
  define o' where "o' = (if rnd then (ucast n + 1) * PageSizeOf cfg else 0)"
  have o: "unat o' \<le> 2 ^ RegionSizeLog cfg" "16 dvd unat o'" using off dv by (simp_all add: o'_def)
  have "unat (b + o') = unat b + unat o'" using o assms(1) by (intro unat_add_small) simp
  then show ?thesis using o assms(1,3)
    by (simp add: fresh_region_def initRegion_def empty_region_def g o'_def Let_def split: if_splits)
qed

lemma fresh_heap_ok:
  assumes cfg: "primary_ok cfg" and l: "length (RegionInfoArray h) = unat (NumClasses (PSizeMap cfg))"
    and fresh: "\<forall>r \<in> set (RegionInfoArray h). fresh_region cfg r"
    and pc: "PerClassArray h = PerClassArray (cache_init (PSizeMap cfg) (p_getSizeByClassId cfg))"
  shows "heap_ok cfg h \<and> live_blocks cfg (\<lambda>_. {#}) h"
proof -
  let ?n = "unat (NumClasses (PSizeMap cfg))"
  have n0: "0 < ?n" using batch_class_exists [OF cfg] by (simp add: BatchClassId_def word_less_nat_alt)
  have r: "fresh_region cfg (RegionInfoArray h ! J)" if "J < ?n" for J using fresh that by (simp add: l)
  have g: "fresh_region cfg (getRegionInfo I h)" if "I < NumClasses (PSizeMap cfg)" for I
    using r [of "unat I"] that by (simp add: getRegionInfo_def word_less_nat_alt)
  have lp: "length (PerClassArray h) = ?n" by (simp add: pc cache_init_def)
  have cls: "get_class I h = new_class (PSizeMap cfg) (p_getSizeByClassId cfg) I" if "I < NumClasses (PSizeMap cfg)" for I
    using that by (simp add: get_class_def pc cache_init_def word_less_nat_alt)
  note B = batch_class_exists [OF cfg]
  have empty: "free_blocks cfg I h = {#}" "carved_blocks cfg I h = {#}" "cached I h = {#}"
    if "I < NumClasses (PSizeMap cfg)" for I
    using g [OF that] fresh_region_ok [OF g [OF that], of I] cls [OF that]
    by (simp_all add: free_blocks_def fresh_region_def carved_blocks_def cached_def new_class_def)
  have nil: "list_of h J = []" if "J < ?n" for J using r [OF that] by (simp add: list_of_def fresh_region_def)
  have "batch_inv cfg h" using n0 l g [OF B] fresh_region_ok [OF g [OF B]] by (simp add: batch_inv_def fresh_region_def)
  then have "custody cfg {#} h"
    using cfg n0 lp cls [OF B] new_class_ok [OF cfg] empty [OF B]
    by (simp add: custody_def batch_limit_def) (simp add: new_class_def)
  moreover have "(\<Sum>J \<in> {1 ..< ?n}. groups_addrs (list_of h J)) = {#}"
    by (rule sum.neutral) (simp add: nil)
  ultimately have "primary_inv cfg h" using nil fresh_region_ok [OF r] by (simp add: primary_inv_def l)
  then show ?thesis
    using lp cls new_class_ok [OF cfg] empty
    by (auto simp: heap_ok_def live_blocks_def is_class_def word_less_nat_alt class_count_def)
      (simp add: new_class_def)
qed

text \<open>C6: Initialising the primary over one contiguous reservation, and the cache of the thread,
  succeeds and leaves no block live or carved: it establishes what allocation, deallocation and
  draining keep. It does so although the regions are shuffled after each was initialised for the
  class at its old index.\<close>

theorem init_establishes:
  assumes "primary_ok cfg" "EnableContiguousRegions cfg" "PPageSizeLog cfg + 4 \<le> RegionSizeLog cfg"
    and "unat (NumClasses (PSizeMap cfg)) < 2 ^ 32"
    and "os_reserve os (push_bit (RegionSizeLog cfg) 1 * NumClasses (PSizeMap cfg)) = Some Base"
    and "unat Base + unat (NumClasses (PSizeMap cfg)) * 2 ^ RegionSizeLog cfg < 2 ^ 56"
      "16 dvd unat Base" "4 \<le> PPageSizeLog cfg"
    and "PerClassArray h = PerClassArray (cache_init (PSizeMap cfg) (p_getSizeByClassId cfg))"
  shows "\<exists>h'. p_init cfg os Seed Interval h = Inr h' \<and> heap_ok cfg h' \<and> live_blocks cfg (\<lambda>_. {#}) h'"
proof -
  let ?n = "unat (NumClasses (PSizeMap cfg))"
  obtain rs S where seed: "seed_regions Seed ?n = (rs, S)" by fastforce
  then have rs: "length rs = ?n" "\<And>r. r \<in> set rs \<Longrightarrow> \<exists>s. r = empty_region\<lparr>RandState := s\<rparr>"
    using seed_regions_empty [where n = ?n and Seed = Seed] by (simp_all add: seed)
  define D where "D = push_bit (GroupSizeLog cfg) 1 div PageSizeOf cfg * (1 + p_getSizeByClassId cfg 1 div 16) div 100"
  define f where "f = (\<lambda>I. initRegion cfg D (of_nat I) (Base + push_bit (RegionSizeLog cfg) (of_nat I)) (EnableRandomOffset cfg))"
  define A where "A = map2 f [0 ..< ?n] rs"
  define R where "R = fst (shuffle A S)"
  obtain X where p: "p_init cfg os Seed Interval h =
      Inr (h\<lparr>RegionInfoArray := R, SmallerBlockReleasePageDelta := D, ReleaseToOsIntervalMs := X\<rparr>)"
    using assms(2,5) seed by (simp add: p_init_def Let_def D_def f_def A_def R_def)
  have lA: "length A = ?n" by (simp add: A_def rs)
  have fresh: "fresh_region cfg a" if "a \<in> set A" for a
  proof -
    obtain i where i: "i < ?n" "a = A ! i" using \<open>a \<in> set A\<close> lA by (auto simp: in_set_conv_nth)
    obtain s where s: "rs ! i = empty_region\<lparr>RandState := s\<rparr>" using rs i(1) by (metis nth_mem)
    let ?b = "Base + push_bit (RegionSizeLog cfg) (of_nat i)"
    have "Suc i * 2 ^ RegionSizeLog cfg \<le> ?n * 2 ^ RegionSizeLog cfg" using i(1) by (intro mult_le_mono1) simp
    then have ib: "unat Base + i * 2 ^ RegionSizeLog cfg + 2 ^ RegionSizeLog cfg < 2 ^ 56" using assms(6) by simp
    have "i < 18446744073709551616" using i(1) unat_less_64 [of "NumClasses (PSizeMap cfg)"] by linarith
    then have ui: "unat (of_nat i :: uptr) = i" by (intro unat_of_nat_small) simp
    have "unat (push_bit (RegionSizeLog cfg) (of_nat i) :: uptr) = i * 2 ^ RegionSizeLog cfg"
      using ib by (subst unat_push_bit_small) (simp_all add: ui)
    then have "unat ?b = unat Base + i * 2 ^ RegionSizeLog cfg"
      using ib by (subst unat_add_small) simp_all
    then have "unat ?b + 2 ^ RegionSizeLog cfg < 2 ^ 56" using ib by simp
    moreover have "16 dvd (2::nat) ^ RegionSizeLog cfg"
      using le_imp_power_dvd [of 4 "RegionSizeLog cfg" "2::nat"] assms(3,8) by simp
    ultimately have "16 dvd unat ?b" "unat ?b + 2 ^ RegionSizeLog cfg < 2 ^ 56"
      using assms(7) \<open>unat ?b = unat Base + i * 2 ^ RegionSizeLog cfg\<close> by simp_all
    from initRegion_fresh [OF this(2) assms(3) this(1) assms(8)] show ?thesis using i s rs(1) by (simp add: A_def f_def)
  qed
  have m: "mset R = mset A" using shuffle_mset [of A S] assms(4) lA by (simp add: R_def)
  then have "length R = ?n" "set R = set A" using lA by (metis size_mset, metis set_mset_mset)
  then have "heap_ok cfg (h\<lparr>RegionInfoArray := R, SmallerBlockReleasePageDelta := D, ReleaseToOsIntervalMs := X\<rparr>)
      \<and> live_blocks cfg (\<lambda>_. {#}) (h\<lparr>RegionInfoArray := R, SmallerBlockReleasePageDelta := D, ReleaseToOsIntervalMs := X\<rparr>)"
    using fresh assms(9) by (intro fresh_heap_ok [OF assms(1)]) simp_all
  then show ?thesis using p by blast
qed

section \<open>The default configuration\<close>

definition DefaultPrimaryConfig :: primary_config where
  "DefaultPrimaryConfig = \<lparr>PSizeMap = DefaultSizeClassConfig, CompactPtrScale = 0, RegionSizeLog = 32,
     GroupSizeLog = 21, MapSizeIncrement = push_bit 18 1, MaxNumBatches = 8,
     MinReleaseToOsIntervalMs = 0x80000000, MaxReleaseToOsIntervalMs = 0x7FFFFFFF,
     DefaultReleaseToOsIntervalMs = 0x80000000, EnableContiguousRegions = True, EnableRandomOffset = True,
     PPageSizeLog = 12\<rparr>"

lemma default_classes: "NumClasses (PSizeMap DefaultPrimaryConfig) = 45"
  by code_simp

lemma default_counts: "2 \<le> getMaxCached (PSizeMap DefaultPrimaryConfig) (p_getSizeByClassId DefaultPrimaryConfig BatchClassId)
    \<and> MaxNumBlocksInBatch DefaultPrimaryConfig = 14"
  by code_simp

lemma class_block_size:
  assumes "valid_config (PSizeMap cfg)" "is_class cfg I"
  shows "block_size cfg I = class_size (PSizeMap cfg) (unat I) + unat (SizeDelta (PSizeMap cfg))"
    and "2 ^ MinSizeLog (PSizeMap cfg) \<le> block_size cfg I"
    and "block_size cfg I \<le> 2 ^ MaxSizeLog (PSizeMap cfg) + unat (SizeDelta (PSizeMap cfg))"
proof -
  have n: "unat I < num_classes (PSizeMap cfg)" "1 \<le> unat I"
    using assms unat_NumClasses [OF assms(1)] by (auto simp: is_class_def BatchClassId_def word_less_nat_alt unat_gt_0 Suc_le_eq)
  show b: "block_size cfg I = class_size (PSizeMap cfg) (unat I) + unat (SizeDelta (PSizeMap cfg))"
    using unat_getSizeByClassId [OF assms(1) n(1)] assms(2) by (simp add: block_size_def p_getSizeByClassId_def is_class_def)
  show "2 ^ MinSizeLog (PSizeMap cfg) \<le> block_size cfg I"
    using class_size_le [OF assms(1) n(2)] class_size_1 [OF assms(1)] by (simp add: b)
  show "block_size cfg I \<le> 2 ^ MaxSizeLog (PSizeMap cfg) + unat (SizeDelta (PSizeMap cfg))"
    using class_size_bound [OF assms(1) n(1)] by (simp add: b)
qed

lemma class_size_dvd:
  assumes "sc_S cfg + 4 \<le> MidSizeLog cfg" "4 \<le> MinSizeLog cfg"
  shows "16 dvd class_size cfg c"
proof -
  have p: "16 dvd (2::nat) ^ n" if "4 \<le> n" for n using le_imp_power_dvd [OF that, of "2::nat"] by simp
  have "16 dvd upper_size (MidSizeLog cfg) (sc_S cfg) u" for u
  proof -
    have "upper_size (MidSizeLog cfg) (sc_S cfg) (u div 2 ^ sc_S cfg * 2 ^ sc_S cfg + u mod 2 ^ sc_S cfg)
        = 2 ^ (MidSizeLog cfg + u div 2 ^ sc_S cfg - sc_S cfg) * (2 ^ sc_S cfg + u mod 2 ^ sc_S cfg)"
      using assms(1) by (intro upper_size_decomp) simp_all
    then show ?thesis using p [of "MidSizeLog cfg + u div 2 ^ sc_S cfg - sc_S cfg"] assms(1)
      by (simp only: div_mult_mod_eq) simp
  qed
  then show ?thesis using p [OF assms(2)] by (simp add: class_size_def Let_def)
qed

lemma DefaultPrimaryConfig_ok: "primary_ok DefaultPrimaryConfig"
proof -
  have v: "valid_config (PSizeMap DefaultPrimaryConfig)" by (simp add: DefaultPrimaryConfig_def valid_source_configs)
  have s: "16 \<le> block_size DefaultPrimaryConfig I \<and> 16 dvd block_size DefaultPrimaryConfig I
      \<and> block_size DefaultPrimaryConfig I < 2 ^ 36"
    if "I < NumClasses (PSizeMap DefaultPrimaryConfig)" for I
  proof (cases "I = BatchClassId")
    case True
    have "p_getSizeByClassId DefaultPrimaryConfig BatchClassId = 128" by code_simp
    then show ?thesis by (simp add: True block_size_def)
  next
    case False
    then have "is_class DefaultPrimaryConfig I" using that by (simp add: is_class_def)
    note b = class_block_size [OF v this]
    have "16 dvd class_size (PSizeMap DefaultPrimaryConfig) (unat I)"
      by (rule class_size_dvd) (simp_all add: DefaultPrimaryConfig_def DefaultSizeClassConfig_def sc_S_def)
    then have "16 dvd block_size DefaultPrimaryConfig I"
      unfolding b(1) by (simp add: DefaultPrimaryConfig_def DefaultSizeClassConfig_def)
    then show ?thesis using b(2,3) by (simp add: DefaultPrimaryConfig_def DefaultSizeClassConfig_def)
  qed
  have k: "\<exists>k < 32. (262144 :: uptr) = 2 ^ k" by (rule exI [of _ 18]) simp
  show ?thesis
    using s k v default_counts unfolding primary_ok_def
    by (auto simp: DefaultPrimaryConfig_def push_bit_of_1) (simp add: DefaultSizeClassConfig_def)
qed

section \<open>Examples\<close>

text \<open>A configuration with one class of 32-byte blocks and the batch class, and a heap in which two
  blocks of the class were carved: \<open>n\<close> of them are in the cache, the others are live.\<close>

definition small_config :: primary_config where
  "small_config = \<lparr>PSizeMap = \<lparr>NumBits = 1, MinSizeLog = 5, MidSizeLog = 5, MaxSizeLog = 5,
       MaxNumCachedHint = 2, MaxBytesCachedLog = 6, SizeDelta = 0\<rparr>,
     CompactPtrScale = 0, RegionSizeLog = 12, GroupSizeLog = 10, MapSizeIncrement = 128, MaxNumBatches = 1,
     MinReleaseToOsIntervalMs = 0x80000000, MaxReleaseToOsIntervalMs = 0x7FFFFFFF,
     DefaultReleaseToOsIntervalMs = 0x80000000, EnableContiguousRegions = True, EnableRandomOffset = False,
     PPageSizeLog = 8\<rparr>"

definition small_os :: os where
  "small_os = \<lparr>os_reserve = (\<lambda>_. Some 0x10000), os_remap = (\<lambda>_ _. True), os_map_ok = (\<lambda>_. True), os_now = 0\<rparr>"

definition small_heap :: "u16 \<Rightarrow> heap" where
  "small_heap n = \<lparr>PerClassArray = [
       \<lparr>Count = 0, MaxCount = 4, ClassSize = 0, Chunks = [0, 0, 0, 0]\<rparr>,
       \<lparr>Count = n, MaxCount = 4, ClassSize = 32, Chunks = [0, 32, 0, 0]\<rparr>],
     CacheStats = LocalStats_init,
     RegionInfoArray = [
       empty_region\<lparr>RegionBeg := 0x10000, MemMapBase := Some 0x10000\<rparr>,
       empty_region\<lparr>RegionBeg := 0x11000, MemMapBase := Some 0x11000, MappedUser := 128, AllocatedUser := 64\<rparr>],
     SmallerBlockReleasePageDelta = 0, ReleaseToOsIntervalMs = 0, POptions = 0\<rparr>"

lemma small_config_values:
  "NumClasses (PSizeMap small_config) = 2" "p_getSizeByClassId small_config 0 = 32"
  "p_getSizeByClassId small_config 1 = 32" "batch_limit small_config = 2" "class_count small_config 1 = 2"
  "MaxNumBlocksInBatch small_config = 2"
  by code_simp+

lemma small_classes: "is_class small_config I \<longleftrightarrow> I = 1"
  by (auto simp: is_class_def small_config_values BatchClassId_def word_less_nat_alt word_unat_eq_iff)

lemma small_config_ok: "primary_ok small_config"
proof -
  have s: "block_size small_config I = 32" if "I < NumClasses (PSizeMap small_config)" for I
  proof -
    have "I = 0 \<or> I = 1" using that by (auto simp: small_config_values word_less_nat_alt word_unat_eq_iff)
    then show ?thesis by (auto simp: block_size_def small_config_values)
  qed
  have k: "\<exists>k < 12. (128 :: uptr) = 2 ^ k" by (rule exI [of _ 7]) simp
  show ?thesis
    using k s small_config_values(4,6) unfolding primary_ok_def batch_limit_def
    by (simp add: valid_config_def sc_S_def) (simp add: small_config_def)
qed

lemma small_heap_ok:
  assumes "n \<le> 4"
  shows "heap_ok small_config (small_heap n)"
proof -
  have regs: "length (RegionInfoArray (small_heap n)) = 2" by (simp add: small_heap_def)
  have "custody small_config {#} (small_heap n)"
    using small_config_ok small_config_values
    by (simp add: custody_def batch_inv_def small_heap_def getRegionInfo_def get_class_def BatchClassId_def
        region_ok_def class_ok_def empty_region_def free_blocks_def carved_blocks_def cached_def num_blocks_def
        small_config_def)
  moreover have "{1 ..< 2 :: nat} = {1}" by auto
  moreover have "block_size small_config 1 = 32" by (simp add: block_size_def small_config_values)
  ultimately have "primary_inv small_config (small_heap n)"
    by (simp add: primary_inv_def small_config_values regs list_of_def)
      (simp add: small_heap_def list_of_def empty_region_def region_ok_def small_config_def)
  then show ?thesis using assms
    by (simp add: heap_ok_def small_classes small_config_values)
      (simp add: small_heap_def get_class_def class_ok_def)
qed

lemma small_live:
  assumes "mset (take (unat n) [0, 32, 0, 0]) + M = {#0, 32#}"
  shows "live_blocks small_config (\<lambda>_. M) (small_heap n)"
proof -
  have "carved_blocks small_config 1 (small_heap n) = {#0, 32#}"
    using small_config_values
    by (simp add: carved_blocks_def num_blocks_def block_size_def small_heap_def getRegionInfo_def nth_block_def
        upt_rec) (simp add: small_config_def)
  moreover have "free_blocks small_config 1 (small_heap n) = {#}"
    by (simp add: free_blocks_def small_heap_def getRegionInfo_def empty_region_def)
  ultimately show ?thesis using assms
    by (simp add: live_blocks_def small_classes cached_def) (simp add: small_heap_def get_class_def)
qed

theorem allocate_hands_out_fresh_block_witness:
  "\<exists>h'. sca_allocate small_config small_os 1 (small_heap 2) = Inr (Some 0x11020, h')
     \<and> heap_ok small_config h' \<and> live_blocks small_config ((\<lambda>_. {#})(1 := {#32#})) h'"
proof -
  have l: "live_blocks small_config (\<lambda>_. {#}) (small_heap 2)" by (rule small_live) simp
  have ok: "heap_ok small_config (small_heap 2)" by (rule small_heap_ok) simp
  have c: "is_class small_config 1" by (simp add: small_classes)
  obtain h' where h': "sca_allocate small_config small_os 1 (small_heap 2) = Inr (Some 0x11020, h')"
    and b: "compactPtr small_config 1 0x11020 h' = 32"
    by (simp add: sca_allocate_def cache_allocate_def small_heap_def get_class_def upd_class_def upd_stats_def
        decompactPtr_def decompactPtrInternal_def compactPtr_def compactPtrInternal_def getRegionInfo_def
        small_config_def)
  show ?thesis using allocate_hands_out_fresh_block [OF ok l c h'] h' b by auto
qed

theorem deallocate_takes_back_witness:
  "\<exists>h'. sca_deallocate small_config small_os 1 0x11020 (small_heap 1) = Inr (False, h')
     \<and> heap_ok small_config h' \<and> live_blocks small_config ((\<lambda>_. {#32#})(1 := {#})) h'"
proof -
  have l: "live_blocks small_config (\<lambda>_. {#32#}) (small_heap 1)" by (rule small_live) simp
  have ok: "heap_ok small_config (small_heap 1)" by (rule small_heap_ok) simp
  have c: "is_class small_config 1" by (simp add: small_classes)
  have b: "compactPtr small_config 1 0x11020 (small_heap 1) = 32"
    by (simp add: compactPtr_def compactPtrInternal_def getRegionInfo_def small_heap_def small_config_def)
  obtain h' where h': "sca_deallocate small_config small_os 1 0x11020 (small_heap 1) = Inr (False, h')"
    using small_config_values
    by (simp add: sca_deallocate_def cache_deallocate_def small_heap_def get_class_def CHECK_def)
  have "compactPtr small_config 1 0x11020 (small_heap 1) \<in># {#32#}" by (simp add: b)
  from deallocate_takes_back [OF ok l c this h'] h' b show ?thesis by auto
qed

theorem drain_empties_cache_witness:
  "\<exists>r. sca_drain small_config small_os (small_heap 2) = Some r \<and> (\<forall>h'. r = Inr h' \<longrightarrow>
     Count (get_class 1 h') = 0 \<and> carved_blocks small_config 1 h' = free_blocks small_config 1 h')"
proof -
  have l: "live_blocks small_config (\<lambda>_. {#}) (small_heap 2)" by (rule small_live) simp
  have ok: "heap_ok small_config (small_heap 2)" by (rule small_heap_ok) simp
  have c: "is_class small_config 1" "1 < NumClasses (PSizeMap small_config)"
    by (simp_all add: small_classes small_config_values)
  show ?thesis using drain_empties_cache [OF ok l, of small_os] c by (metis add.right_neutral)
qed

theorem init_establishes_witness:
  "\<exists>h'. p_init DefaultPrimaryConfig small_os 7 0
      \<lparr>PerClassArray = PerClassArray (cache_init (PSizeMap DefaultPrimaryConfig) (p_getSizeByClassId DefaultPrimaryConfig)),
       CacheStats = LocalStats_init, RegionInfoArray = [], SmallerBlockReleasePageDelta = 0,
       ReleaseToOsIntervalMs = 0, POptions = 0\<rparr> = Inr h'
     \<and> heap_ok DefaultPrimaryConfig h' \<and> live_blocks DefaultPrimaryConfig (\<lambda>_. {#}) h'"
proof (rule init_establishes [OF DefaultPrimaryConfig_ok])
  show "EnableContiguousRegions DefaultPrimaryConfig" "PPageSizeLog DefaultPrimaryConfig + 4 \<le> RegionSizeLog DefaultPrimaryConfig"
    "4 \<le> PPageSizeLog DefaultPrimaryConfig"
    by (simp_all add: DefaultPrimaryConfig_def)
  show "unat (NumClasses (PSizeMap DefaultPrimaryConfig)) < 2 ^ 32" by (simp add: default_classes)
  show "unat (0x10000 :: uptr) + unat (NumClasses (PSizeMap DefaultPrimaryConfig)) * 2 ^ RegionSizeLog DefaultPrimaryConfig < 2 ^ 56"
    by (simp add: default_classes) (simp add: DefaultPrimaryConfig_def)
qed (simp_all add: small_os_def)

end
