(* ===== verification/Secondary.thy ===== *)
theory Secondary
  imports Chunk Options Stats VectorBuf
begin

text \<open>
  \<^verbatim>\<open>secondary.h\<close>: allocations too large for the primary get a mapping of their own, with a header in
  front of the block; freed mappings are kept in a cache. The cache's array of entries is a list,
  its least-recently-used and available lists are lists of indices into it (most recent first; the
  linked lists themselves are in \<open>IntrusiveList\<close>). Block headers are in the byte memory, except
  their list links; the in-use list is the list of header addresses.

  The platform is a parameter: where a reservation is placed, which remappings succeed, the time.
  Released and freshly mapped pages read as zero with tag zero; every call that changes mappings is
  logged. The version of \<^verbatim>\<open>mapSecondary\<close> is the one for platforms other than Trusty.
\<close>

unbundle bit_operations_syntax

section \<open>Configuration and platform\<close>

record sec_config =
  EntriesArraySize :: u32
  SecQuarantineSize :: u32
  SecQuarantineDisabled :: bool
  DefaultMaxEntriesCount :: u32
  DefaultMaxEntrySize :: uptr
  SMinReleaseToOsIntervalMs :: s32
  SMaxReleaseToOsIntervalMs :: s32
  SDefaultReleaseToOsIntervalMs :: s32
  EnableGuardPages :: bool
  SPageSizeLog :: nat
  SMaySupportMemoryTagging :: bool

record sec_os =
  so_reserve :: "uptr \<Rightarrow> uptr option"
  so_remap :: "uptr \<Rightarrow> uptr \<Rightarrow> bool"
  so_now :: u64

record mem_map =
  MapBase :: uptr
  MapCapacity :: uptr

datatype sec_call =
    CallUnmap mem_map
  | CallRelease uptr uptr
  | CallProtect uptr uptr bool
  | CallRemap uptr uptr bool

definition SPageSize :: "sec_config \<Rightarrow> uptr" where
  "SPageSize cfg = push_bit (SPageSizeLog cfg) 1"

definition zero_pages :: "uptr \<Rightarrow> uptr \<Rightarrow> memory \<Rightarrow> memory" where
  "zero_pages From Size m =
     m\<lparr>mem_byte := (\<lambda>a. if a - untagPointer From < Size then 0 else mem_byte m a),
       mem_tag := (\<lambda>g. if granule From \<le> g \<and> g < granule From + unat (drop_bit 4 Size) then 0 else mem_tag m g)\<rparr>"

section \<open>Block headers\<close>

text \<open>Two links, the committed range and the mapping: 48 bytes.\<close>

definition LargeBlock_getHeaderSize :: uptr where
  "LargeBlock_getHeaderSize = 48"

definition LargeBlock_addHeaderTag :: "zimte \<Rightarrow> sec_config \<Rightarrow> uptr \<Rightarrow> uptr" where
  "LargeBlock_addHeaderTag z cfg Ptr =
     (if allocatorSupportsMemoryTagging (SMaySupportMemoryTagging cfg) then addFixedTag z Ptr 1 else Ptr)"

definition LargeBlock_getHeader :: "zimte \<Rightarrow> sec_config \<Rightarrow> uptr \<Rightarrow> uptr" where
  "LargeBlock_getHeader z cfg Ptr = LargeBlock_addHeaderTag z cfg Ptr - LargeBlock_getHeaderSize"

definition write_header :: "uptr \<Rightarrow> uptr \<Rightarrow> uptr \<Rightarrow> mem_map \<Rightarrow> memory \<Rightarrow> memory" where
  "write_header H CommitBase CommitSize M m =
     store_u64 (store_u64 (store_u64 (store_u64 m (H + 16) CommitBase) (H + 24) CommitSize)
       (H + 32) (MapBase M)) (H + 40) (MapCapacity M)"

definition H_CommitBase :: "memory \<Rightarrow> uptr \<Rightarrow> uptr" where "H_CommitBase m H = load_u64 m (H + 16)"
definition H_CommitSize :: "memory \<Rightarrow> uptr \<Rightarrow> uptr" where "H_CommitSize m H = load_u64 m (H + 24)"
definition H_MemMap :: "memory \<Rightarrow> uptr \<Rightarrow> mem_map" where
  "H_MemMap m H = \<lparr>MapBase = load_u64 m (H + 32), MapCapacity = load_u64 m (H + 40)\<rparr>"

definition getHeadersSize :: uptr where
  "getHeadersSize = Chunk.getHeaderSize + LargeBlock_getHeaderSize"

section \<open>The cache\<close>

record cached_block =
  CBCommitBase :: uptr
  CBCommitSize :: uptr
  CBBlockBegin :: uptr
  CBMemMap :: mem_map
  CBTime :: u64

definition invalid_block :: cached_block where
  "invalid_block = \<lparr>CBCommitBase = 0, CBCommitSize = 0, CBBlockBegin = 0,
     CBMemMap = \<lparr>MapBase = 0, MapCapacity = 0\<rparr>, CBTime = 0\<rparr>"

definition block_isValid :: "cached_block \<Rightarrow> bool" where
  "block_isValid B = (CBCommitBase B \<noteq> 0)"

definition block_invalidate :: "cached_block \<Rightarrow> cached_block" where
  "block_invalidate B = B\<lparr>CBCommitBase := 0\<rparr>"

record sec_cache =
  Entries :: "cached_block list"
  LRUEntries :: "nat list"
  AvailEntries :: "nat list"
  OldestPresentEntry :: "nat option"
  SecQuarantine :: "cached_block list"
  QuarantinePos :: u32
  MaxEntriesCount :: u32
  MaxEntrySize :: uptr
  CacheReleaseToOsIntervalMs :: s32
  CallsToRetrieve :: u32
  SuccessfulRetrieves :: u32
  ReleaseToOsSkips :: uptr

text \<open>The entry before another one in the list, that is, the next more recent one.\<close>

fun prev_of :: "nat \<Rightarrow> nat list \<Rightarrow> nat option" where
  "prev_of X [] = None"
| "prev_of X [Y] = None"
| "prev_of X (Y # Z # Zs) = (if Z = X then Some Y else prev_of X (Z # Zs))"

definition MaxUnreleasedCachePages :: uptr where "MaxUnreleasedCachePages = 4"
definition MaxReleasedCachePages :: uptr where "MaxReleasedCachePages = 4"

type_synonym sec_mem = "memory \<times> sec_call list"

definition sec_release :: "uptr \<Rightarrow> uptr \<Rightarrow> sec_mem \<Rightarrow> sec_mem" where
  "sec_release From Size = (\<lambda>(m, calls). (zero_pages From Size m, calls @ [CallRelease From Size]))"

definition sec_unmap :: "mem_map \<Rightarrow> sec_mem \<Rightarrow> sec_mem" where
  "sec_unmap M = (\<lambda>(m, calls). (m, calls @ [CallUnmap M]))"

definition sec_protect :: "uptr \<Rightarrow> uptr \<Rightarrow> bool \<Rightarrow> sec_mem \<Rightarrow> sec_mem" where
  "sec_protect Addr Size NoAccess = (\<lambda>(m, calls). (m, calls @ [CallProtect Addr Size NoAccess]))"

definition sec_remap :: "sec_os \<Rightarrow> uptr \<Rightarrow> uptr \<Rightarrow> bool \<Rightarrow> sec_mem \<Rightarrow> bool \<times> sec_mem" where
  "sec_remap os Addr Size NoAccess = (\<lambda>(m, calls).
     if so_remap os Addr Size then (True, zero_pages Addr Size m, calls @ [CallRemap Addr Size NoAccess])
     else (False, m, calls))"

definition mapSecondary ::
    "sec_config \<Rightarrow> sec_os \<Rightarrow> u32 \<Rightarrow> uptr \<Rightarrow> uptr \<Rightarrow> uptr \<Rightarrow> bool \<Rightarrow> sec_mem \<Rightarrow> bool \<times> sec_mem" where
  "mapSecondary cfg os Opts CommitBase CommitSize AllocPos NoAccess mc =
     (let MaxUnreleasedCacheBytes = MaxUnreleasedCachePages * SPageSize cfg
      in if useMemoryTagging (SMaySupportMemoryTagging cfg) Opts \<and> CommitSize > MaxUnreleasedCacheBytes then
           let UntaggedPos = MaxU AllocPos (CommitBase + MaxUnreleasedCacheBytes);
               (ok, mc) = sec_remap os CommitBase (UntaggedPos - CommitBase) NoAccess mc
           in if ok then sec_remap os UntaggedPos (CommitBase + CommitSize - UntaggedPos) NoAccess mc
              else (False, mc)
         else sec_remap os CommitBase CommitSize NoAccess mc)"

definition cache_insert :: "cached_block \<Rightarrow> sec_cache \<Rightarrow> sec_cache result" where
  "cache_insert Entry c =
     (case AvailEntries c of
        [] \<Rightarrow> Inl NullDeref
      | A # As \<Rightarrow>
          Inr (c\<lparr>AvailEntries := As, Entries := (Entries c)[A := Entry], LRUEntries := A # LRUEntries c,
                 OldestPresentEntry := (if OldestPresentEntry c = None \<and> CBTime Entry \<noteq> 0 then Some A
                                        else OldestPresentEntry c)\<rparr>))"

definition cache_remove :: "nat \<Rightarrow> sec_cache \<Rightarrow> sec_cache" where
  "cache_remove E c =
     c\<lparr>OldestPresentEntry := (if OldestPresentEntry c = Some E then prev_of E (LRUEntries c)
                              else OldestPresentEntry c),
       LRUEntries := remove1 E (LRUEntries c),
       Entries := (Entries c)[E := block_invalidate (Entries c ! E)],
       AvailEntries := E # AvailEntries c\<rparr>"

text \<open>Entries of the quarantine that are old enough, then the list from the oldest present entry
  towards the most recent one.\<close>

fun release_quarantine :: "u64 \<Rightarrow> cached_block list \<Rightarrow> sec_mem \<Rightarrow> cached_block list \<times> sec_mem" where
  "release_quarantine T [] mc = ([], mc)"
| "release_quarantine T (E # Es) mc =
     (let (E, mc) = (if \<not> block_isValid E \<or> CBTime E = 0 \<or> CBTime E > T then (E, mc)
                     else (E\<lparr>CBTime := 0\<rparr>, sec_release (CBCommitBase E) (CBCommitSize E) mc));
          (Es, mc) = release_quarantine T Es mc
      in (E # Es, mc))"

fun release_walk :: "u64 \<Rightarrow> nat list \<Rightarrow> cached_block list \<Rightarrow> sec_mem
    \<Rightarrow> nat option \<times> cached_block list \<times> sec_mem" where
  "release_walk T [] es mc = (None, es, mc)"
| "release_walk T (E # Es) es mc =
     (if CBTime (es ! E) > T then (Some E, es, mc)
      else release_walk T Es (es[E := (es ! E)\<lparr>CBTime := 0\<rparr>])
             (sec_release (CBCommitBase (es ! E)) (CBCommitSize (es ! E)) mc))"

definition walk_from :: "nat option \<Rightarrow> nat list \<Rightarrow> nat list" where
  "walk_from Start lru = (case Start of None \<Rightarrow> [] | Some E \<Rightarrow> E # rev (takeWhile (\<lambda>X. X \<noteq> E) lru))"

definition releaseOlderThan :: "sec_config \<Rightarrow> u64 \<Rightarrow> sec_cache \<Rightarrow> sec_mem \<Rightarrow> sec_cache \<times> sec_mem" where
  "releaseOlderThan cfg T c mc =
     (let (q, mc) = (if SecQuarantineDisabled cfg then (SecQuarantine c, mc)
                     else release_quarantine T (SecQuarantine c) mc);
          (oldest, es, mc) = release_walk T (walk_from (OldestPresentEntry c) (LRUEntries c)) (Entries c) mc
      in (c\<lparr>SecQuarantine := q, OldestPresentEntry := oldest, Entries := es\<rparr>, mc))"

text \<open>Eviction: \<open>fuel\<close> is the number of entries, each round removes one. Reading the last entry of
  an empty list is a null dereference.\<close>

fun evict :: "nat \<Rightarrow> sec_cache \<Rightarrow> mem_map list \<Rightarrow> (sec_cache \<times> mem_map list) result" where
  "evict fuel c Maps =
     (if of_nat (length (LRUEntries c)) \<ge> (ucast (MaxEntriesCount c) :: uptr) then
        (if LRUEntries c = [] then Inl NullDeref
         else case fuel of
                0 \<Rightarrow> Inl Diverges
              | Suc n \<Rightarrow> evict n (cache_remove (last (LRUEntries c)) c)
                          (Maps @ [CBMemMap (Entries c ! last (LRUEntries c))]))
      else Inr (c, Maps))"

definition cache_canCache :: "uptr \<Rightarrow> sec_cache \<Rightarrow> bool" where
  "cache_canCache Size c = (MaxEntriesCount c \<noteq> 0 \<and> Size \<le> MaxEntrySize c)"

text \<open>\<open>lock_ok\<close>: whether the \<^verbatim>\<open>tryLock\<close> before the release succeeds. The options are a value read
  earlier, so the second test of \<^verbatim>\<open>useMemoryTagging\<close> sees the same options as the first.\<close>

definition cache_store ::
    "sec_config \<Rightarrow> sec_os \<Rightarrow> bool \<Rightarrow> u32 \<Rightarrow> uptr \<Rightarrow> uptr \<Rightarrow> uptr \<Rightarrow> mem_map \<Rightarrow> sec_cache \<Rightarrow> sec_mem
      \<Rightarrow> (sec_cache \<times> sec_mem) result" where
  "cache_store cfg os lock_ok Opts CommitBase CommitSize Begin M c mc =
     (let Interval = CacheReleaseToOsIntervalMs c;
          Tagging = useMemoryTagging (SMaySupportMemoryTagging cfg) Opts;
          Entry = \<lparr>CBCommitBase = CommitBase, CBCommitSize = CommitSize, CBBlockBegin = Begin,
                   CBMemMap = M, CBTime = - 1\<rparr>;
          (Entry, mc) =
            (if Tagging then
               if Interval = 0 then (Entry\<lparr>CBTime := 0\<rparr>, snd (mapSecondary cfg os Opts CommitBase CommitSize CommitBase True mc))
               else (Entry, sec_protect CommitBase CommitSize True mc)
             else (Entry, mc));
          Time = so_now os;
          Entry = (if CBTime Entry \<noteq> 0 then Entry\<lparr>CBTime := Time\<rparr> else Entry);
          finish = (\<lambda>(c, Maps, mc).
            let mc = fold sec_unmap Maps mc
            in if 0 \<le> sint Interval then
                 (if lock_ok then releaseOlderThan cfg (Time - (scast Interval :: u64) * 1000000) c mc
                  else (c\<lparr>ReleaseToOsSkips := ReleaseToOsSkips c + 1\<rparr>, mc))
               else (c, mc));
          put = (\<lambda>c Entry. bindE (evict (length (LRUEntries c)) c []) (\<lambda>(c, Maps).
                   bindE (cache_insert Entry c) (\<lambda>c. Inr (finish (c, Maps, mc)))))
      in if Tagging \<and> \<not> useMemoryTagging (SMaySupportMemoryTagging cfg) Opts
         then Inr (finish (c, [], sec_unmap (CBMemMap Entry) mc))
         else if \<not> SecQuarantineDisabled cfg \<and> SecQuarantineSize cfg \<noteq> 0 then
           let pos = (QuarantinePos c + 1) mod MaxU (SecQuarantineSize cfg) 1;
               Old = SecQuarantine c ! unat pos;
               c = c\<lparr>QuarantinePos := pos, SecQuarantine := (SecQuarantine c)[unat pos := Entry]\<rparr>
           in if \<not> block_isValid Old then Inr (c, mc) else put c Old
         else put c Entry)"

text \<open>The search for a cached block. The first component is the smallest waste so far.\<close>

fun retrieve_loop ::
    "sec_config \<Rightarrow> uptr \<Rightarrow> uptr \<Rightarrow> uptr \<Rightarrow> uptr \<Rightarrow> cached_block list \<Rightarrow> nat list
      \<Rightarrow> uptr \<times> nat option \<times> uptr \<Rightarrow> uptr \<times> nat option \<times> uptr" where
  "retrieve_loop cfg MaxPages Size Alignment HeadersSize es [] acc = acc"
| "retrieve_loop cfg MaxPages Size Alignment HeadersSize es (E # Es) (MinDiff, Found, EntryHeaderPos) =
     (let CommitBase = CBCommitBase (es ! E);
          CommitSize = CBCommitSize (es ! E);
          AllocPos = roundDown (CommitBase + CommitSize - Size) Alignment;
          HeaderPos = AllocPos - HeadersSize;
          MaxAllowedFragmentedBytes = MaxPages * SPageSize cfg;
          Diff = roundDown HeaderPos (SPageSize cfg) - CommitBase;
          OptimalFitThesholdBytes = (CommitBase + CommitSize - HeaderPos) div 10;
          continue = retrieve_loop cfg MaxPages Size Alignment HeadersSize es Es
      in if HeaderPos > CommitBase + CommitSize then continue (MinDiff, Found, EntryHeaderPos)
         else if HeaderPos < CommitBase \<or> AllocPos > CommitBase + MaxAllowedFragmentedBytes
         then continue (MinDiff, Found, EntryHeaderPos)
         else if Diff \<ge> MinDiff then continue (MinDiff, Found, EntryHeaderPos)
         else if Diff \<le> OptimalFitThesholdBytes then (Diff, Some E, HeaderPos)
         else continue (Diff, Some E, HeaderPos))"

definition cache_retrieve ::
    "sec_config \<Rightarrow> uptr \<Rightarrow> uptr \<Rightarrow> uptr \<Rightarrow> uptr \<Rightarrow> sec_cache \<Rightarrow> sec_mem
      \<Rightarrow> cached_block \<times> uptr \<times> sec_cache \<times> sec_mem" where
  "cache_retrieve cfg MaxPages Size Alignment HeadersSize c mc =
     (let PageSize = SPageSize cfg;
          c = c\<lparr>CallsToRetrieve := CallsToRetrieve c + 1\<rparr>
      in if LRUEntries c = [] then (invalid_block, 0, c, mc)
         else
           let (_, Found, EntryHeaderPos) =
                 retrieve_loop cfg MaxPages Size Alignment HeadersSize (Entries c) (LRUEntries c) (- 1, None, 0)
           in case Found of
                None \<Rightarrow> (invalid_block, EntryHeaderPos, c, mc)
              | Some E \<Rightarrow>
                  let Entry = Entries c ! E;
                      c = (cache_remove E c)\<lparr>SuccessfulRetrieves := SuccessfulRetrieves c + 1\<rparr>;
                      FragmentedBytes = roundDown EntryHeaderPos PageSize - CBCommitBase Entry;
                      MaxUnreleasedCacheBytes = MaxUnreleasedCachePages * PageSize;
                      BytesToRelease = roundUp (MinU (MaxReleasedCachePages * PageSize)
                                                 (FragmentedBytes - MaxUnreleasedCacheBytes)) PageSize;
                      mc = (if CBTime Entry \<noteq> 0 \<and> FragmentedBytes > MaxUnreleasedCacheBytes
                            then sec_release (CBCommitBase Entry) BytesToRelease mc else mc)
                  in (Entry, EntryHeaderPos, c, mc))"

definition clamp_interval :: "sec_config \<Rightarrow> s32 \<Rightarrow> s32" where
  "clamp_interval cfg Value =
     (let M = (if sint Value < sint (SMaxReleaseToOsIntervalMs cfg) then Value else SMaxReleaseToOsIntervalMs cfg)
      in if sint M > sint (SMinReleaseToOsIntervalMs cfg) then M else SMinReleaseToOsIntervalMs cfg)"

definition sec_setOption :: "sec_config \<Rightarrow> RtOption \<Rightarrow> sptr \<Rightarrow> sec_cache \<Rightarrow> bool \<times> sec_cache" where
  "sec_setOption cfg Opt Value c =
     (case Opt of
        ReleaseInterval \<Rightarrow> (True, c\<lparr>CacheReleaseToOsIntervalMs := clamp_interval cfg (ucast Value)\<rparr>)
      | MaxCacheEntriesCount \<Rightarrow>
          (if sint Value < 0 then (False, c)
           else (True, c\<lparr>MaxEntriesCount := MinU (ucast Value) (EntriesArraySize cfg)\<rparr>))
      | MaxCacheEntrySize \<Rightarrow> (True, c\<lparr>MaxEntrySize := Value\<rparr>)
      | _ \<Rightarrow> (True, c))"

definition sec_cache_init :: "sec_config \<Rightarrow> s32 \<Rightarrow> sec_cache" where
  "sec_cache_init cfg ReleaseToOsInterval =
     (let N = unat (EntriesArraySize cfg);
          c = \<lparr>Entries = replicate N invalid_block, LRUEntries = [], AvailEntries = [0 ..< N],
               OldestPresentEntry = None,
               SecQuarantine = replicate (unat (SecQuarantineSize cfg)) invalid_block, QuarantinePos = 0,
               MaxEntriesCount = 0, MaxEntrySize = 0, CacheReleaseToOsIntervalMs = 0, CallsToRetrieve = 0,
               SuccessfulRetrieves = 0, ReleaseToOsSkips = 0\<rparr>;
          c = snd (sec_setOption cfg MaxCacheEntriesCount (ucast (DefaultMaxEntriesCount cfg)) c);
          c = snd (sec_setOption cfg MaxCacheEntrySize (DefaultMaxEntrySize cfg) c);
          Interval = (if SDefaultReleaseToOsIntervalMs cfg \<noteq> push_bit 31 1
                      then SDefaultReleaseToOsIntervalMs cfg else ReleaseToOsInterval)
      in snd (sec_setOption cfg ReleaseInterval (scast Interval) c))"

definition sec_cache_releaseToOS :: "sec_config \<Rightarrow> sec_cache \<Rightarrow> sec_mem \<Rightarrow> sec_cache \<times> sec_mem" where
  "sec_cache_releaseToOS cfg c mc = releaseOlderThan cfg (- 1) c mc"

definition sec_cache_disableMemoryTagging :: "sec_config \<Rightarrow> sec_cache \<Rightarrow> sec_mem \<Rightarrow> sec_cache \<times> sec_mem" where
  "sec_cache_disableMemoryTagging cfg c mc =
     (let (c, mc) =
            (if \<not> SecQuarantineDisabled cfg
             then (c\<lparr>SecQuarantine := map (\<lambda>E. if block_isValid E then block_invalidate E else E) (SecQuarantine c),
                     QuarantinePos := - 1\<rparr>,
                   fold (\<lambda>E. if block_isValid E then sec_unmap (CBMemMap E) else id) (SecQuarantine c) mc)
             else (c, mc))
      in (c, fold (\<lambda>E. sec_protect (CBCommitBase (Entries c ! E)) (CBCommitSize (Entries c ! E)) False)
               (LRUEntries c) mc))"

text \<open>\<^verbatim>\<open>empty\<close> does not return the entries to the list of available ones.\<close>

definition sec_cache_empty :: "sec_cache \<Rightarrow> sec_mem \<Rightarrow> sec_cache \<times> sec_mem" where
  "sec_cache_empty c mc =
     (c\<lparr>LRUEntries := [], OldestPresentEntry := None\<rparr>,
      fold (\<lambda>E. sec_unmap (CBMemMap (Entries c ! E))) (LRUEntries c) mc)"

section \<open>The allocator\<close>

record secondary =
  SCache :: sec_cache
  InUseBlocks :: "uptr list"
  SAllocatedBytes :: uptr
  SFreedBytes :: uptr
  SFragmentedBytes :: uptr
  SLargestSize :: uptr
  SNumberOfAllocs :: u32
  SNumberOfFrees :: u32
  SStats :: local_stats

definition secondary_init :: "sec_config \<Rightarrow> s32 \<Rightarrow> secondary" where
  "secondary_init cfg Interval = \<lparr>SCache = sec_cache_init cfg Interval, InUseBlocks = [], SAllocatedBytes = 0,
     SFreedBytes = 0, SFragmentedBytes = 0, SLargestSize = 0, SNumberOfAllocs = 0, SNumberOfFrees = 0,
     SStats = LocalStats_init\<rparr>"

definition secondary_getBlockEnd :: "zimte \<Rightarrow> sec_config \<Rightarrow> memory \<Rightarrow> uptr \<Rightarrow> uptr" where
  "secondary_getBlockEnd z cfg m Ptr =
     (let B = LargeBlock_getHeader z cfg Ptr in H_CommitBase m B + H_CommitSize m B)"

definition getGuardPageSize :: "sec_config \<Rightarrow> uptr" where
  "getGuardPageSize cfg = (if EnableGuardPages cfg then SPageSize cfg else 0)"

definition sec_account_alloc :: "uptr \<Rightarrow> uptr \<Rightarrow> uptr \<Rightarrow> secondary \<Rightarrow> secondary" where
  "sec_account_alloc H CommitSize Capacity s =
     s\<lparr>InUseBlocks := InUseBlocks s @ [H],
       SAllocatedBytes := SAllocatedBytes s + CommitSize,
       SFragmentedBytes := SFragmentedBytes s + (Capacity - CommitSize),
       SNumberOfAllocs := SNumberOfAllocs s + 1,
       SStats := stats_add StatMapped Capacity (stats_add StatAllocated CommitSize (SStats s))\<rparr>"

definition fill_memory :: "uptr \<Rightarrow> uptr \<Rightarrow> u8 \<Rightarrow> memory \<Rightarrow> memory" where
  "fill_memory Ptr Size V m =
     m\<lparr>mem_byte := (\<lambda>a. if a - untagPointer Ptr < Size then V else mem_byte m a)\<rparr>"

definition fill_byte :: "u32 \<Rightarrow> u8" where
  "fill_byte FillContents = (if FillContents = ZeroFill then 0 else PatternFillByte)"

text \<open>\<open>Diverges\<close> when a tagging loop does not end.\<close>

definition tags_or_diverge :: "zimte \<Rightarrow> uptr \<Rightarrow> uptr \<Rightarrow> sec_mem \<Rightarrow> sec_mem result" where
  "tags_or_diverge z Begin End = (\<lambda>(m, calls).
     case storeTags z Begin End m of None \<Rightarrow> Inl Diverges | Some (_, m) \<Rightarrow> Inr (m, calls))"

text \<open>Returns the pointer and \<^verbatim>\<open>BlockEnd\<close>, or \<open>None\<close>.\<close>

definition tryAllocateFromCache ::
    "zimte \<Rightarrow> sec_config \<Rightarrow> u32 \<Rightarrow> uptr \<Rightarrow> uptr \<Rightarrow> u32 \<Rightarrow> secondary \<Rightarrow> sec_mem
      \<Rightarrow> ((uptr \<times> uptr) option \<times> secondary \<times> sec_mem) result" where
  "tryAllocateFromCache z cfg Opts Size Alignment FillContents s mc =
     (let Tagging = useMemoryTagging (SMaySupportMemoryTagging cfg) Opts;
          MaxPages = MaxUnreleasedCachePages + (if \<not> Tagging then MaxReleasedCachePages else 0);
          (Entry, EntryHeaderPos, c, mc) = cache_retrieve cfg MaxPages Size Alignment getHeadersSize (SCache s) mc;
          s = s\<lparr>SCache := c\<rparr>
      in if \<not> block_isValid Entry then Inr (None, s, mc)
         else
           let H = LargeBlock_addHeaderTag z cfg EntryHeaderPos;
               Zeroed = (CBTime Entry = 0);
               NewBlockBegin = H + LargeBlock_getHeaderSize
           in bindE (if Tagging then
                let mc = sec_protect (CBCommitBase Entry) (CBCommitSize Entry) False mc
                in if Zeroed then tags_or_diverge z (LargeBlock_addHeaderTag z cfg (CBCommitBase Entry)) NewBlockBegin mc
                   else if CBBlockBegin Entry < NewBlockBegin then tags_or_diverge z (CBBlockBegin Entry) NewBlockBegin mc
                   else tags_or_diverge z (untagPointer NewBlockBegin) (untagPointer (CBBlockBegin Entry)) mc
              else Inr mc) (\<lambda>(m, calls).
                let m = write_header H (CBCommitBase Entry) (CBCommitSize Entry) (CBMemMap Entry) m;
                    End = H_CommitBase m H + H_CommitSize m H;
                    HInt = (if allocatorSupportsMemoryTagging (SMaySupportMemoryTagging cfg) then untagPointer H else H);
                    Ptr = HInt + LargeBlock_getHeaderSize;
                    m = (if FillContents \<noteq> 0 \<and> \<not> Zeroed then fill_memory Ptr (End - Ptr) (fill_byte FillContents) m else m)
                in Inr (Some (Ptr, End),
                        sec_account_alloc H (H_CommitSize m H) (MapCapacity (H_MemMap m H)) s, m, calls)))"

definition secondary_commit_base :: "sec_config \<Rightarrow> uptr \<Rightarrow> uptr \<Rightarrow> uptr" where
  "secondary_commit_base cfg MBase Alignment =
     (if Alignment \<ge> SPageSize cfg
      then roundUp (MBase + getGuardPageSize cfg + 1) Alignment - SPageSize cfg
      else MBase + getGuardPageSize cfg)"

definition secondary_rounded_size :: "sec_config \<Rightarrow> uptr \<Rightarrow> uptr \<Rightarrow> uptr" where
  "secondary_rounded_size cfg Size Alignment =
     (let RoundedSize = roundUp (roundUp Size Alignment + getHeadersSize) (SPageSize cfg)
      in if Alignment > SPageSize cfg then RoundedSize + (Alignment - SPageSize cfg) else RoundedSize)"

definition secondary_allocate ::
    "zimte \<Rightarrow> sec_config \<Rightarrow> sec_os \<Rightarrow> u32 \<Rightarrow> uptr \<Rightarrow> uptr \<Rightarrow> u32 \<Rightarrow> secondary \<Rightarrow> sec_mem
      \<Rightarrow> ((uptr \<times> uptr) option \<times> secondary \<times> sec_mem) result" where
  "secondary_allocate z cfg os Opts Size Alignment FillContents s mc =
     (let Size = (if opt_get AddLargeAllocationSlack Opts then Size + push_bit SCUDO_MIN_ALIGNMENT_LOG 1 else Size);
          Alignment = MaxU Alignment (push_bit SCUDO_MIN_ALIGNMENT_LOG 1);
          PageSize = SPageSize cfg;
          MinNeededSizeForCache = roundUp (Size + getHeadersSize) PageSize
      in bindE (if Alignment < PageSize \<and> cache_canCache MinNeededSizeForCache (SCache s)
                then tryAllocateFromCache z cfg Opts Size Alignment FillContents s mc
                else Inr (None, s, mc)) (\<lambda>(P, s, mc).
           if P \<noteq> None then Inr (P, s, mc)
           else
             let MapSize = secondary_rounded_size cfg Size Alignment + 2 * getGuardPageSize cfg
             in case so_reserve os MapSize of
                  None \<Rightarrow> Inr (None, s, mc)
                | Some MBase \<Rightarrow>
                    let M = \<lparr>MapBase = MBase, MapCapacity = MapSize\<rparr>;
                        CommitBase = secondary_commit_base cfg MBase Alignment;
                        MapEnd = MBase + MapSize;
                        CommitSize = MapEnd - getGuardPageSize cfg - CommitBase;
                        AllocPos = roundDown (CommitBase + CommitSize - Size) Alignment;
                        (ok, mc) = mapSecondary cfg os Opts CommitBase CommitSize AllocPos False mc
                    in if \<not> ok then Inr (None, s, sec_unmap M mc)
                       else
                         let HeaderPos = AllocPos - getHeadersSize;
                             H = LargeBlock_addHeaderTag z cfg HeaderPos
                         in bindE (if useMemoryTagging (SMaySupportMemoryTagging cfg) Opts
                                   then tags_or_diverge z (LargeBlock_addHeaderTag z cfg CommitBase)
                                          (H + LargeBlock_getHeaderSize) mc
                                   else Inr mc) (\<lambda>(m, calls).
                              let m = write_header H CommitBase CommitSize M m;
                                  s = s\<lparr>SLargestSize := (if SLargestSize s < CommitSize then CommitSize else SLargestSize s)\<rparr>
                              in Inr (Some (HeaderPos + LargeBlock_getHeaderSize, CommitBase + CommitSize),
                                      sec_account_alloc H CommitSize (MapCapacity (H_MemMap m H)) s, m, calls))))"

text \<open>Removing a header that is not in the list is caught by the checks of the linked list, or
  undefined; here it is a failed check.\<close>

definition secondary_deallocate ::
    "zimte \<Rightarrow> sec_config \<Rightarrow> sec_os \<Rightarrow> bool \<Rightarrow> u32 \<Rightarrow> uptr \<Rightarrow> secondary \<Rightarrow> sec_mem
      \<Rightarrow> (secondary \<times> sec_mem) result" where
  "secondary_deallocate z cfg os lock_ok Opts Ptr s mc =
     (let H = LargeBlock_getHeader z cfg Ptr;
          m = fst mc;
          CommitSize = H_CommitSize m H;
          Capacity = MapCapacity (H_MemMap m H)
      in bindE (CHECK (H \<in> set (InUseBlocks s)) ''InUseBlocks.remove'') (\<lambda>_.
           let s = s\<lparr>InUseBlocks := remove1 H (InUseBlocks s),
                     SFreedBytes := SFreedBytes s + CommitSize,
                     SFragmentedBytes := SFragmentedBytes s - (Capacity - CommitSize),
                     SNumberOfFrees := SNumberOfFrees s + 1,
                     SStats := stats_sub StatMapped Capacity (stats_sub StatAllocated CommitSize (SStats s))\<rparr>
           in if cache_canCache (H_CommitSize m H) (SCache s) then
                bindE (cache_store cfg os lock_ok Opts (H_CommitBase m H) (H_CommitSize m H)
                         (H + LargeBlock_getHeaderSize) (H_MemMap m H) (SCache s) mc) (\<lambda>(c, mc).
                  Inr (s\<lparr>SCache := c\<rparr>, mc))
              else Inr (s, sec_unmap (H_MemMap m H) mc)))"

definition secondary_iterateOverBlocks :: "sec_config \<Rightarrow> secondary \<Rightarrow> uptr list" where
  "secondary_iterateOverBlocks cfg s =
     map (\<lambda>H. let Ptr = H + LargeBlock_getHeaderSize
              in if allocatorSupportsMemoryTagging (SMaySupportMemoryTagging cfg) then untagPointer Ptr else Ptr)
       (InUseBlocks s)"

text \<open>The numbers \<^verbatim>\<open>getStats\<close> prints, in the order of the format string.\<close>

definition secondary_stats :: "secondary \<Rightarrow> uptr list" where
  "secondary_stats s =
     [ucast (SNumberOfAllocs s), drop_bit 10 (SAllocatedBytes s), ucast (SNumberOfFrees s),
      drop_bit 10 (SFreedBytes s), ucast (SNumberOfAllocs s - SNumberOfFrees s),
      drop_bit 10 (SAllocatedBytes s - SFreedBytes s), drop_bit 20 (SLargestSize s),
      drop_bit 10 (SFragmentedBytes s)]"

end
