(* ===== verification/Combined.thy ===== *)
theory Combined
  imports Quarantine Primary64Release Secondary
begin

text \<open>
  \<^verbatim>\<open>combined.h\<close>, first part: the state of the allocator, the initialisation of chunks with and
  without memory tagging, the ring buffer of allocations, retagging on free, and the callback
  with which the quarantine gives chunks back.

  The state is seen by one thread: its cache of the primary is part of the heap, its quarantine
  cache is a field. Memory is the bytes and tags of \<open>Memtag\<close> and the log of calls to the system.
  Configuration, platform and the compiler builtins are the record \<open>cconfig\<close>. The stack trace
  is zero as on every platform but Android; GWP-ASan is not built in.
\<close>

unbundle bit_operations_syntax

section \<open>State\<close>

record cconfig =
  CPrimary :: primary_config
  CSecondary :: sec_config
  CZ :: zimte
  COs :: os
  CSecOs :: sec_os
  CCrc :: "u32 \<Rightarrow> uptr \<Rightarrow> u32"
  CLockOk :: bool
  CMaySupportMemoryTagging :: bool
  CSystemSupportsMemoryTagging :: bool
  CQuarantineDisabled :: bool
  CExactUsableSize :: bool
  CTid :: u32
  CTmpAddr :: uptr  \<comment> \<open>where the temporary cache of \<^verbatim>\<open>recycle\<close> is\<close>

record ring_entry =
  REPtr :: uptr
  REAllocationSize :: uptr
  REAllocationTrace :: u32
  REAllocationTid :: u32
  REDeallocationTrace :: u32
  REDeallocationTid :: u32

record ring_buffer =
  RingPos :: uptr
  RingEntries :: "ring_entry list"

record scudo =
  SMem :: sec_mem
  Heap :: heap
  Second :: secondary
  GlobalQ :: gquarantine
  ThreadQ :: qcache
  Cookie :: u32
  HashAlgorithm :: Checksum_kind
  QuarantineMaxChunkSize :: u32
  DisableMemInit :: bool
  RingBuffer :: "ring_buffer option"
  PoolMask :: uptr

abbreviation memory_of :: "scudo \<Rightarrow> memory" where
  "memory_of s \<equiv> fst (SMem s)"

definition upd_mem :: "(memory \<Rightarrow> memory) \<Rightarrow> scudo \<Rightarrow> scudo" where
  "upd_mem f s = s\<lparr>SMem := (f (fst (SMem s)), snd (SMem s))\<rparr>"

definition load_options :: "scudo \<Rightarrow> u32" where
  "load_options s = POptions (Heap s)"

definition MinAlignment :: uptr where "MinAlignment = push_bit SCUDO_MIN_ALIGNMENT_LOG 1"
definition MaxAlignment :: uptr where "MaxAlignment = push_bit 24 1"
definition MaxAllowedMallocSize :: uptr where "MaxAllowedMallocSize = push_bit 40 1"
definition BlockMarker :: u32 where "BlockMarker = 0x44554353"

section \<open>Pointers\<close>

abbreviation tagging_built :: "cconfig \<Rightarrow> bool" where
  "tagging_built cfg \<equiv> allocatorSupportsMemoryTagging (CMaySupportMemoryTagging cfg)"

definition addHeaderTag :: "cconfig \<Rightarrow> uptr \<Rightarrow> uptr" where
  "addHeaderTag cfg Ptr = (if \<not> tagging_built cfg then Ptr else addFixedTag (CZ cfg) Ptr 2)"

definition getHeaderTaggedPointer :: "cconfig \<Rightarrow> uptr \<Rightarrow> uptr" where
  "getHeaderTaggedPointer cfg Ptr =
     (if \<not> tagging_built cfg then Ptr
      else let UntaggedPtr = untagPointer Ptr
           in if UntaggedPtr \<noteq> Ptr then UntaggedPtr else addHeaderTag cfg Ptr)"

definition getBlockBegin :: "uptr \<Rightarrow> UnpackedHeader \<Rightarrow> uptr" where
  "getBlockBegin Ptr Header =
     Ptr - getHeaderSize - push_bit SCUDO_MIN_ALIGNMENT_LOG (ucast (HOffset Header))"

definition getSize :: "cconfig \<Rightarrow> memory \<Rightarrow> uptr \<Rightarrow> UnpackedHeader \<Rightarrow> uptr" where
  "getSize cfg m Ptr Header =
     (if HClassId Header \<noteq> 0 then ucast (SizeOrUnusedBytes Header)
      else let Ptr = (if tagging_built cfg then untagPointer Ptr else Ptr)
           in secondary_getBlockEnd (CZ cfg) (CSecondary cfg) m (getBlockBegin Ptr Header) - Ptr
              - ucast (SizeOrUnusedBytes Header))"

text \<open>\<^verbatim>\<open>0x5555U << x\<close> is a 32-bit value that is widened to \<^verbatim>\<open>uptr\<close>.\<close>

definition computeOddEvenMaskForPointerMaybe :: "cconfig \<Rightarrow> u32 \<Rightarrow> uptr \<Rightarrow> uptr \<Rightarrow> uptr" where
  "computeOddEvenMaskForPointerMaybe cfg Opts Ptr ClassId =
     (if \<not> opt_get UseOddEvenTags Opts then 0
      else ucast (push_bit (unat (drop_bit (unat (getSizeLSBByClassId (PSizeMap (CPrimary cfg)) ClassId)) Ptr AND 1))
                    (0x5555 :: u32)))"

section \<open>Words of 32 bits in memory\<close>

definition load_u32 :: "memory \<Rightarrow> uptr \<Rightarrow> u32" where
  "load_u32 m p =
     (let b = (\<lambda>i. mem_byte m (untagPointer p + i))
      in ucast (b 0) OR push_bit 8 (ucast (b 1)) OR push_bit 16 (ucast (b 2)) OR push_bit 24 (ucast (b 3)))"

definition store_u32 :: "uptr \<Rightarrow> u32 \<Rightarrow> memory \<Rightarrow> memory" where
  "store_u32 p v m =
     m\<lparr>mem_byte := (\<lambda>a. let i = a - untagPointer p
                        in if i < 4 then ucast (drop_bit (8 * unat i) v) else mem_byte m a)\<rparr>"

definition copy_memory :: "uptr \<Rightarrow> uptr \<Rightarrow> uptr \<Rightarrow> memory \<Rightarrow> memory" where
  "copy_memory Dst Src N m =
     m\<lparr>mem_byte := (\<lambda>a. if a - untagPointer Dst < N then mem_byte m (untagPointer Src + (a - untagPointer Dst))
                        else mem_byte m a)\<rparr>"

section \<open>Finding a chunk in a block\<close>

definition getChunkOffsetFromBlock :: "memory \<Rightarrow> uptr \<Rightarrow> uptr" where
  "getChunkOffsetFromBlock m Block =
     ucast (if load_u32 m Block = BlockMarker then load_u32 m (Block + 4) else 0) + getHeaderSize"

definition getChunkFromBlock :: "cconfig \<Rightarrow> scudo \<Rightarrow> uptr \<Rightarrow> bool \<times> uptr \<times> UnpackedHeader" where
  "getChunkFromBlock cfg s Block =
     (let Chunk = Block + getChunkOffsetFromBlock (memory_of s) Block;
          (ok, Header) = isValid (CCrc cfg) (HashAlgorithm s) (Cookie s) Chunk (memory_of s)
      in (ok, Chunk, Header))"

section \<open>The ring buffer\<close>

definition collectStackTrace :: u32 where
  "collectStackTrace = 0"

definition storeRingBufferEntry ::
    "uptr \<Rightarrow> u32 \<Rightarrow> u32 \<Rightarrow> uptr \<Rightarrow> u32 \<Rightarrow> u32 \<Rightarrow> ring_buffer \<Rightarrow> ring_buffer" where
  "storeRingBufferEntry Ptr AllocationTrace AllocationTid AllocationSize DeallocationTrace DeallocationTid rb =
     rb\<lparr>RingPos := RingPos rb + 1,
        RingEntries := (RingEntries rb)[unat (RingPos rb mod of_nat (length (RingEntries rb))) :=
          \<lparr>REPtr = Ptr, REAllocationSize = AllocationSize, REAllocationTrace = AllocationTrace,
            REAllocationTid = AllocationTid, REDeallocationTrace = DeallocationTrace,
            REDeallocationTid = DeallocationTid\<rparr>]\<rparr>"

definition store_trace :: "uptr \<Rightarrow> u32 \<Rightarrow> u32 \<Rightarrow> memory \<Rightarrow> memory" where
  "store_trace Ptr Trace Tid m = store_u32 (Ptr - 4) Tid (store_u32 (Ptr - 8) Trace m)"

definition storePrimaryAllocationStackMaybe :: "cconfig \<Rightarrow> u32 \<Rightarrow> uptr \<Rightarrow> scudo \<Rightarrow> scudo" where
  "storePrimaryAllocationStackMaybe cfg Opts Ptr s =
     (if \<not> opt_get TrackAllocationStacks Opts then s
      else case RingBuffer s of None \<Rightarrow> s
           | Some rb \<Rightarrow> upd_mem (store_trace Ptr collectStackTrace (CTid cfg)) s)"

definition storeSecondaryAllocationStackMaybe :: "cconfig \<Rightarrow> u32 \<Rightarrow> uptr \<Rightarrow> uptr \<Rightarrow> scudo \<Rightarrow> scudo" where
  "storeSecondaryAllocationStackMaybe cfg Opts Ptr Size s =
     (if \<not> opt_get TrackAllocationStacks Opts then s
      else case RingBuffer s of None \<Rightarrow> s
           | Some rb \<Rightarrow>
               (upd_mem (store_trace Ptr collectStackTrace (CTid cfg)) s)
                 \<lparr>RingBuffer := Some (storeRingBufferEntry (untagPointer Ptr) collectStackTrace (CTid cfg) Size 0 0 rb)\<rparr>)"

definition storeDeallocationStackMaybe ::
    "cconfig \<Rightarrow> u32 \<Rightarrow> uptr \<Rightarrow> uptr \<Rightarrow> uptr \<Rightarrow> scudo \<Rightarrow> scudo" where
  "storeDeallocationStackMaybe cfg Opts Ptr PrevTag Size s =
     (if \<not> opt_get TrackAllocationStacks Opts then s
      else case RingBuffer s of None \<Rightarrow> s
           | Some rb \<Rightarrow>
               s\<lparr>RingBuffer := Some (storeRingBufferEntry (addFixedTag (CZ cfg) (untagPointer Ptr) PrevTag)
                   (load_u32 (memory_of s) (Ptr - 8)) (load_u32 (memory_of s) (Ptr - 4)) Size
                   collectStackTrace (CTid cfg) rb)\<rparr>)"

section \<open>Tagging a chunk\<close>

definition tag_range :: "cconfig \<Rightarrow> uptr \<Rightarrow> uptr \<Rightarrow> memory \<Rightarrow> (uptr \<times> memory) result" where
  "tag_range cfg Begin End m = (case storeTags (CZ cfg) Begin End m of None \<Rightarrow> Inl Diverges | Some r \<Rightarrow> Inr r)"

definition storeEndMarker :: "cconfig \<Rightarrow> uptr \<Rightarrow> uptr \<Rightarrow> uptr \<Rightarrow> memory \<Rightarrow> memory" where
  "storeEndMarker cfg End Size BlockEnd m =
     (let UntaggedEnd = untagPointer End
      in if UntaggedEnd \<noteq> BlockEnd then
           let m = storeTag (CZ cfg) UntaggedEnd m
           in if Size = 0 then m\<lparr>mem_byte := (mem_byte m)(UntaggedEnd := ucast (extractTag End))\<rparr> else m
         else m)"

definition prepareTaggedChunk ::
    "cconfig \<Rightarrow> uptr \<Rightarrow> uptr \<Rightarrow> uptr \<Rightarrow> uptr \<Rightarrow> memory \<Rightarrow> (uptr \<times> memory) result" where
  "prepareTaggedChunk cfg Ptr Size ExcludeMask BlockEnd m =
     (let m = storeTag (CZ cfg) (Ptr - archMemoryTagGranuleSize) m
      in case setRandomTag (CZ cfg) Ptr Size ExcludeMask m of
           None \<Rightarrow> Inl Diverges
         | Some (TaggedBegin, TaggedEnd, m) \<Rightarrow>
             Inr (TaggedBegin, storeEndMarker cfg TaggedEnd Size BlockEnd m))"

definition resizeTaggedChunk ::
    "cconfig \<Rightarrow> uptr \<Rightarrow> uptr \<Rightarrow> uptr \<Rightarrow> uptr \<Rightarrow> memory \<Rightarrow> memory result" where
  "resizeTaggedChunk cfg OldPtr NewPtr NewSize BlockEnd m =
     (let RoundOldPtr = roundUp OldPtr archMemoryTagGranuleSize
      in bindE (if RoundOldPtr \<ge> NewPtr then Inr (roundUp NewPtr archMemoryTagGranuleSize, m)
                else tag_range cfg RoundOldPtr NewPtr m) (\<lambda>(RoundNewPtr, m).
           Inr (storeEndMarker cfg RoundNewPtr NewSize BlockEnd m)))"

section \<open>Initialising a chunk\<close>

definition empty_header :: UnpackedHeader where
  "empty_header = \<lparr>HClassId = 0, HState = 0, OriginOrWasZeroed = 0, SizeOrUnusedBytes = 0, HOffset = 0,
     HChecksum = 0\<rparr>"

definition store_header :: "cconfig \<Rightarrow> uptr \<Rightarrow> UnpackedHeader \<Rightarrow> scudo \<Rightarrow> scudo" where
  "store_header cfg Ptr Header s =
     upd_mem (\<lambda>m. snd (storeHeader (CCrc cfg) (HashAlgorithm s) (Cookie s) Ptr Header m)) s"

definition load_header :: "cconfig \<Rightarrow> uptr \<Rightarrow> scudo \<Rightarrow> UnpackedHeader result" where
  "load_header cfg Ptr s = loadHeader (CCrc cfg) (HashAlgorithm s) (Cookie s) Ptr (memory_of s)"

text \<open>The end of both \<^verbatim>\<open>initChunk\<close> functions: the marker that leads from the block to a chunk that
  does not start at the default place, and the header.\<close>

definition new_header :: "uptr \<Rightarrow> Origin \<Rightarrow> uptr \<Rightarrow> uptr \<Rightarrow> uptr \<Rightarrow> UnpackedHeader" where
  "new_header ClassId Orig DefaultAlignedPtr UserPtr SizeOrUnused =
     empty_header\<lparr>HClassId := ucast ClassId, HState := State_code Allocated,
       OriginOrWasZeroed := Origin_code Orig,
       SizeOrUnusedBytes := ucast (SizeOrUnused AND SizeOrUnusedBytesMask),
       HOffset := (if DefaultAlignedPtr \<noteq> UserPtr
                   then ucast (drop_bit SCUDO_MIN_ALIGNMENT_LOG (UserPtr - DefaultAlignedPtr) AND OffsetMask)
                   else 0)\<rparr>"

definition store_marker :: "uptr \<Rightarrow> uptr \<Rightarrow> uptr \<Rightarrow> memory \<Rightarrow> memory" where
  "store_marker Block DefaultAlignedPtr UserPtr m =
     (if DefaultAlignedPtr \<noteq> UserPtr
      then store_u32 (Block + 4) (ucast (UserPtr - DefaultAlignedPtr)) (store_u32 Block BlockMarker m)
      else m)"

definition initChunk ::
    "cconfig \<Rightarrow> uptr \<Rightarrow> Origin \<Rightarrow> uptr \<Rightarrow> uptr \<Rightarrow> uptr \<Rightarrow> u32 \<Rightarrow> scudo \<Rightarrow> uptr \<times> scudo" where
  "initChunk cfg ClassId Orig Block UserPtr SizeOrUnused FillContents s =
     (let DefaultAlignedPtr = Block + getHeaderSize;
          Block = addHeaderTag cfg Block;
          s = (if ClassId \<noteq> 0 \<and> FillContents \<noteq> NoFill
               then upd_mem (fill_memory Block (p_getSizeByClassId (CPrimary cfg) ClassId) (fill_byte FillContents)) s
               else s);
          s = upd_mem (store_marker Block DefaultAlignedPtr UserPtr) s
      in (UserPtr, store_header cfg (addHeaderTag cfg UserPtr)
                     (new_header ClassId Orig DefaultAlignedPtr UserPtr SizeOrUnused) s))"

text \<open>The primary part of \<^verbatim>\<open>initChunkWithMemoryTagging\<close>: reuse the tag that the free left, or prepare
  the chunk from scratch. \<^verbatim>\<open>getPageSizeCached\<close> is that of the primary.\<close>

definition tagged_primary_chunk ::
    "cconfig \<Rightarrow> uptr \<Rightarrow> uptr \<Rightarrow> uptr \<Rightarrow> uptr \<Rightarrow> u32 \<Rightarrow> scudo \<Rightarrow> (uptr \<times> scudo) result" where
  "tagged_primary_chunk cfg ClassId Block UserPtr Size FillContents s =
     (let Opts = load_options s;
          BlockEnd = Block + p_getSizeByClassId (CPrimary cfg) ClassId;
          (ok, PrevUserPtr, Header) = getChunkFromBlock cfg s Block;
          TaggedUserPtr = loadTag UserPtr
      in if ok \<and> PrevUserPtr = UserPtr \<and> TaggedUserPtr \<noteq> UserPtr then
           let PrevEnd = TaggedUserPtr + ucast (SizeOrUnusedBytes Header);
               NextPage = roundUp TaggedUserPtr (PageSizeOf (CPrimary cfg));
               PrevEnd = (if NextPage < PrevEnd \<and> loadTag NextPage \<noteq> NextPage then NextPage else PrevEnd)
           in bindE (resizeTaggedChunk cfg PrevEnd (TaggedUserPtr + Size) Size BlockEnd (memory_of s)) (\<lambda>m.
                let s = upd_mem (\<lambda>_. m) s;
                    s = (if FillContents \<noteq> NoFill \<and> OriginOrWasZeroed Header = 0
                         then upd_mem (fill_memory TaggedUserPtr
                                (MinU Size (roundUp (PrevEnd - TaggedUserPtr) archMemoryTagGranuleSize)) 0) s
                         else if Size \<noteq> 0 then upd_mem (fill_memory TaggedUserPtr archMemoryTagGranuleSize 0) s
                         else s)
                in Inr (TaggedUserPtr, s))
         else
           bindE (prepareTaggedChunk cfg UserPtr Size (computeOddEvenMaskForPointerMaybe cfg Opts Block ClassId)
                    BlockEnd (memory_of s)) (\<lambda>(TaggedPtr, m). Inr (TaggedPtr, upd_mem (\<lambda>_. m) s)))"

definition initChunkWithMemoryTagging ::
    "cconfig \<Rightarrow> uptr \<Rightarrow> Origin \<Rightarrow> uptr \<Rightarrow> uptr \<Rightarrow> uptr \<Rightarrow> uptr \<Rightarrow> u32 \<Rightarrow> scudo \<Rightarrow> (uptr \<times> scudo) result" where
  "initChunkWithMemoryTagging cfg ClassId Orig Block UserPtr Size SizeOrUnused FillContents s =
     (let Opts = load_options s;
          DefaultAlignedPtr = Block + getHeaderSize
      in bindE
           (if ClassId \<noteq> 0 then
              bindE (tagged_primary_chunk cfg ClassId Block UserPtr Size FillContents s) (\<lambda>(TaggedPtr, s).
                Inr (Block, UserPtr, TaggedPtr, storePrimaryAllocationStackMaybe cfg Opts UserPtr s))
            else
              let Block = addHeaderTag cfg Block; Ptr = addHeaderTag cfg UserPtr
              in bindE (tag_range cfg Block Ptr (memory_of s)) (\<lambda>(_, m).
                   Inr (Block, Ptr, UserPtr, storeSecondaryAllocationStackMaybe cfg Opts Ptr Size (upd_mem (\<lambda>_. m) s))))
           (\<lambda>(Block, Ptr, TaggedPtr, s).
              let s = upd_mem (store_marker Block DefaultAlignedPtr UserPtr) s
              in Inr (TaggedPtr, store_header cfg Ptr (new_header ClassId Orig DefaultAlignedPtr UserPtr SizeOrUnused) s)))"

section \<open>Freeing a chunk\<close>

text \<open>Returns the untagged pointer, the begin of the block and the state.\<close>

definition retagBlock ::
    "cconfig \<Rightarrow> u32 \<Rightarrow> uptr \<Rightarrow> uptr \<Rightarrow> UnpackedHeader \<Rightarrow> uptr \<Rightarrow> bool \<Rightarrow> scudo
      \<Rightarrow> (uptr \<times> uptr \<times> scudo) result" where
  "retagBlock cfg Opts TaggedPtr Ptr Header Size BypassQuarantine s =
     (let PrevTag = extractTag TaggedPtr;
          s = storeDeallocationStackMaybe cfg Opts Ptr PrevTag Size s
      in bindE
           (if HClassId Header \<noteq> 0 \<and> \<not> DisableMemInit s then
              (case setRandomTag (CZ cfg) Ptr Size
                 (computeOddEvenMaskForPointerMaybe cfg Opts (getBlockBegin Ptr Header) (ucast (HClassId Header))
                  OR push_bit (unat PrevTag) 1) (memory_of s) of
                 None \<Rightarrow> Inl Diverges
               | Some (_, _, m) \<Rightarrow> Inr (upd_mem (\<lambda>_. m) s))
            else Inr s)
           (\<lambda>s. let Ptr = untagPointer Ptr; BlockBegin = getBlockBegin Ptr Header
                in bindE (if BypassQuarantine \<and> HClassId Header = 0
                          then bindE (tag_range cfg BlockBegin Ptr (memory_of s)) (\<lambda>(_, m). Inr (upd_mem (\<lambda>_. m) s))
                          else Inr s)
                     (\<lambda>s. Inr (Ptr, BlockBegin, s))))"

definition heap_deallocate :: "cconfig \<Rightarrow> uptr \<Rightarrow> uptr \<Rightarrow> scudo \<Rightarrow> (bool \<times> scudo) result" where
  "heap_deallocate cfg ClassId P s =
     bindE (sca_deallocate (CPrimary cfg) (COs cfg) ClassId P (Heap s)) (\<lambda>(drained, h).
       Inr (drained, s\<lparr>Heap := h\<rparr>))"

text \<open>The callbacks of the quarantine.\<close>

definition QuarantineClassId :: "cconfig \<Rightarrow> uptr" where
  "QuarantineClassId cfg = getClassIdBySize (PSizeMap (CPrimary cfg)) (sizeof_QuarantineBatch + getHeaderSize)"

definition callback_recycle :: "cconfig \<Rightarrow> uptr \<Rightarrow> scudo \<Rightarrow> scudo result" where
  "callback_recycle cfg Ptr s =
     bindE (load_header cfg Ptr s) (\<lambda>Header.
       if HState Header \<noteq> State_code Quarantined then Inl (InvalidChunkState Recycling Ptr)
       else
         let s = store_header cfg Ptr (Header\<lparr>HState := State_code Available\<rparr>) s;
             Ptr = (if tagging_built cfg then untagPointer Ptr else Ptr)
         in bindE (heap_deallocate cfg (ucast (HClassId Header)) (getBlockBegin Ptr Header) s) (\<lambda>(_, s). Inr s))"

definition callback_allocate :: "cconfig \<Rightarrow> uptr \<Rightarrow> scudo \<Rightarrow> (uptr \<times> scudo) result" where
  "callback_allocate cfg Size s =
     bindE (sca_allocate (CPrimary cfg) (COs cfg) (QuarantineClassId cfg) (Heap s)) (\<lambda>(P, h).
       let s = s\<lparr>Heap := h\<rparr>
       in case P of
            None \<Rightarrow> Inl (OutOfMemory (getSizeByClassId (PSizeMap (CPrimary cfg)) (QuarantineClassId cfg)))
          | Some P \<Rightarrow>
              let Ptr = P + getHeaderSize;
                  s = store_header cfg Ptr
                        (empty_header\<lparr>HClassId := ucast (QuarantineClassId cfg),
                           SizeOrUnusedBytes := ucast sizeof_QuarantineBatch,
                           HState := State_code Quarantined\<rparr>) s
              in bindE (if useMemoryTagging (CMaySupportMemoryTagging cfg) (load_options s)
                        then bindE (tag_range cfg Ptr (Ptr + sizeof_QuarantineBatch) (memory_of s))
                               (\<lambda>(_, m). Inr (upd_mem (\<lambda>_. m) s))
                        else Inr s) (\<lambda>s. Inr (Ptr, s)))"

definition callback_deallocate :: "cconfig \<Rightarrow> uptr \<Rightarrow> scudo \<Rightarrow> scudo result" where
  "callback_deallocate cfg Ptr s =
     bindE (load_header cfg Ptr s) (\<lambda>Header.
       if HState Header \<noteq> State_code Quarantined then Inl (InvalidChunkState Deallocating Ptr)
       else
         let s = store_header cfg Ptr (Header\<lparr>HState := State_code Available\<rparr>) s
         in bindE (heap_deallocate cfg (QuarantineClassId cfg) (Ptr - getHeaderSize) s) (\<lambda>(_, s). Inr s))"

definition QuarantineCallback :: "cconfig \<Rightarrow> scudo callback" where
  "QuarantineCallback cfg = \<lparr>cb_allocate = callback_allocate cfg, cb_recycle = callback_recycle cfg,
     cb_deallocate = callback_deallocate cfg\<rparr>"

text \<open>An operation of the quarantine on the caches that are in the state.\<close>

definition with_quarantine ::
    "(qcache \<times> gquarantine \<times> scudo \<Rightarrow> (qcache \<times> gquarantine \<times> scudo) result) \<Rightarrow> scudo \<Rightarrow> scudo result" where
  "with_quarantine f s =
     bindE (f (ThreadQ s, GlobalQ s, s)) (\<lambda>(C, q, s). Inr (s\<lparr>ThreadQ := C, GlobalQ := q\<rparr>))"

definition primary_tryReleaseToOS :: "cconfig \<Rightarrow> uptr \<Rightarrow> ReleaseToOS \<Rightarrow> scudo \<Rightarrow> scudo" where
  "primary_tryReleaseToOS cfg ClassId ReleaseType s =
     (let (_, Released, h, Mask) =
            tryReleaseToOS (CPrimary cfg) (COs cfg) (CLockOk cfg) ClassId ReleaseType (Heap s, PoolMask s)
      in s\<lparr>Heap := h, PoolMask := Mask, SMem := fold (\<lambda>(From, Size). sec_release From Size) Released (SMem s)\<rparr>)"

definition bypass_quarantine :: "cconfig \<Rightarrow> uptr \<Rightarrow> UnpackedHeader \<Rightarrow> scudo \<Rightarrow> bool" where
  "bypass_quarantine cfg Size Header s =
     (CQuarantineDisabled cfg \<or> QMaxCacheSize (GlobalQ s) = 0
      \<or> Size - 1 \<ge> ucast (QuarantineMaxChunkSize s) \<or> HClassId Header = 0)"

definition quarantineOrDeallocateChunk ::
    "cconfig \<Rightarrow> u32 \<Rightarrow> uptr \<Rightarrow> UnpackedHeader \<Rightarrow> uptr \<Rightarrow> scudo \<Rightarrow> scudo result" where
  "quarantineOrDeallocateChunk cfg Opts TaggedPtr Header Size s =
     (let Ptr = getHeaderTaggedPointer cfg TaggedPtr;
          Bypass = bypass_quarantine cfg Size Header s;
          Tagging = useMemoryTagging (CMaySupportMemoryTagging cfg) Opts;
          Header = Header\<lparr>HState := State_code (if Bypass then Available else Quarantined),
            OriginOrWasZeroed := (if \<not> Tagging then 0
                                  else if HClassId Header \<noteq> 0 \<and> \<not> DisableMemInit s then 1 else 0)\<rparr>;
          s = store_header cfg Ptr Header s
      in if Bypass then
           bindE (if \<not> Tagging
                  then Inr (getBlockBegin (if tagging_built cfg then untagPointer Ptr else Ptr) Header, s)
                  else bindE (retagBlock cfg Opts TaggedPtr Ptr Header Size True s) (\<lambda>(_, B, s). Inr (B, s)))
             (\<lambda>(BlockBegin, s).
                let ClassId = ucast (HClassId Header)
                in if ClassId \<noteq> 0 then
                     bindE (heap_deallocate cfg ClassId BlockBegin s) (\<lambda>(CacheDrained, s).
                       Inr (if CacheDrained then primary_tryReleaseToOS cfg ClassId ReleaseNormal s else s))
                   else
                     bindE (secondary_deallocate (CZ cfg) (CSecondary cfg) (CSecOs cfg) (CLockOk cfg) Opts BlockBegin
                              (Second s) (SMem s)) (\<lambda>(sec, mc). Inr (s\<lparr>Second := sec, SMem := mc\<rparr>)))
         else
           bindE (if Tagging then bindE (retagBlock cfg Opts TaggedPtr Ptr Header Size False s) (\<lambda>(P, _, s). Inr (P, s))
                  else Inr (Ptr, s)) (\<lambda>(Ptr, s).
             with_quarantine (put (QuarantineCallback cfg) (CTmpAddr cfg) Ptr Size) s))"

end
