(* ===== verification/Allocator.thy ===== *)
theory Allocator
  imports Combined
begin

text \<open>
  \<^verbatim>\<open>combined.h\<close>, second part: the operations a program calls. \<^verbatim>\<open>allocate\<close> picks a size class, retries
  larger ones and falls back to the secondary; \<^verbatim>\<open>deallocate\<close> and \<^verbatim>\<open>reallocate\<close> check the header before
  they act; the rest are sizes, ownership, iteration, options and initialisation.

  A pointer result is an \<open>option\<close>: \<open>None\<close> is the null pointer. The lemmas after the definitions
  give every reported misuse as the error it ends in, and the geometry of an allocated chunk.
\<close>

unbundle bit_operations_syntax

section \<open>Allocation\<close>

abbreviation size_map :: "cconfig \<Rightarrow> size_class_config" where
  "size_map cfg \<equiv> PSizeMap (CPrimary cfg)"

lemma retry_progress: "C < L \<Longrightarrow> unat L - unat (C + 1) < unat L - unat C" for C L :: uptr
proof -
  assume "C < L"
  then have "unat C < unat L" by (simp add: word_less_nat_alt)
  moreover have "unat L < 18446744073709551616" by (rule unat_less_64)
  ultimately have "unat C + 1 < 18446744073709551616" by linarith
  then have "unat (C + 1) = unat C + 1" using unat_add_small [of C 1] by simp
  with \<open>unat C < unat L\<close> show ?thesis by simp
qed

function retry_larger_classes :: "cconfig \<Rightarrow> uptr \<Rightarrow> heap \<Rightarrow> (uptr option \<times> uptr \<times> heap) result" where
  "retry_larger_classes cfg ClassId h =
     (if ClassId < LargestClassId (size_map cfg) then
        case sca_allocate (CPrimary cfg) (COs cfg) (ClassId + 1) h of
          Inl e \<Rightarrow> Inl e
        | Inr (Some B, h) \<Rightarrow> Inr (Some B, ClassId + 1, h)
        | Inr (None, h) \<Rightarrow> retry_larger_classes cfg (ClassId + 1) h
      else Inr (None, 0, h))"
  by pat_completeness auto
termination
  by (relation "measure (\<lambda>(cfg, C, h). unat (LargestClassId (size_map cfg)) - unat C)")
    (simp_all add: retry_progress)

declare retry_larger_classes.simps [simp del]

text \<open>The block, its class (0: none in the primary) and the heap.\<close>

definition primary_block :: "cconfig \<Rightarrow> uptr \<Rightarrow> heap \<Rightarrow> (uptr option \<times> uptr \<times> heap) result" where
  "primary_block cfg NeededSize h =
     (if canAllocate (CPrimary cfg) NeededSize then
        let ClassId = getClassIdBySize (size_map cfg) NeededSize
        in bindE (sca_allocate (CPrimary cfg) (COs cfg) ClassId h) (\<lambda>(B, h).
             if B = None then retry_larger_classes cfg ClassId h else Inr (B, ClassId, h))
      else Inr (None, 0, h))"

definition fill_mode :: "u32 \<Rightarrow> bool \<Rightarrow> scudo \<Rightarrow> u32" where
  "fill_mode Opts ZeroContents s =
     (if ZeroContents then ZeroFill else if DisableMemInit s then NoFill else getFillContentsMode Opts)"

definition NeededSize_of :: "uptr \<Rightarrow> uptr \<Rightarrow> uptr" where
  "NeededSize_of Size Alignment =
     roundUp Size MinAlignment + (if Alignment > MinAlignment then Alignment else getHeaderSize)"

definition scudo_allocate ::
    "cconfig \<Rightarrow> uptr \<Rightarrow> Origin \<Rightarrow> uptr \<Rightarrow> bool \<Rightarrow> scudo \<Rightarrow> (uptr option \<times> scudo) result" where
  "scudo_allocate cfg Size Orig Alignment ZeroContents s =
     (let Opts = load_options s
      in if Alignment > MaxAlignment then
           (if opt_get MayReturnNull Opts then Inr (None, s) else Inl (AlignmentTooBig Alignment MaxAlignment))
         else
           let Alignment = (if Alignment < MinAlignment then MinAlignment else Alignment);
               FillContents = fill_mode Opts ZeroContents s;
               NeededSize = NeededSize_of Size Alignment
           in if Size \<ge> MaxAllowedMallocSize then
                (if opt_get MayReturnNull Opts then Inr (None, s)
                 else Inl (AllocationSizeTooBig Size NeededSize MaxAllowedMallocSize))
              else
                bindE (primary_block cfg NeededSize (Heap s)) (\<lambda>(Block, ClassId, h).
                let s = s\<lparr>Heap := h\<rparr>
                in bindE (if ClassId = 0 then
                            bindE (secondary_allocate (CZ cfg) (CSecondary cfg) (CSecOs cfg) Opts Size Alignment
                                     FillContents (Second s) (SMem s)) (\<lambda>(P, sec, mc).
                              Inr (case P of None \<Rightarrow> (None, 0) | Some (B, End) \<Rightarrow> (Some B, End),
                                   s\<lparr>Second := sec, SMem := mc\<rparr>))
                          else Inr ((Block, 0), s)) (\<lambda>((Block, SecondaryBlockEnd), s).
                   case Block of
                     None \<Rightarrow> if opt_get MayReturnNull Opts then Inr (None, s) else Inl (OutOfMemory NeededSize)
                   | Some Block \<Rightarrow>
                       let UserPtr = roundUp (Block + getHeaderSize) Alignment;
                           SizeOrUnused = (if ClassId \<noteq> 0 then Size else SecondaryBlockEnd - (UserPtr + Size))
                       in if \<not> useMemoryTagging (CMaySupportMemoryTagging cfg) Opts
                          then let (P, s) = initChunk cfg ClassId Orig Block UserPtr SizeOrUnused FillContents s
                               in Inr (Some P, s)
                          else bindE (initChunkWithMemoryTagging cfg ClassId Orig Block UserPtr Size SizeOrUnused
                                        FillContents s) (\<lambda>(P, s). Inr (Some P, s)))))"

section \<open>Deallocation\<close>

definition check_origin :: "AllocatorAction \<Rightarrow> uptr \<Rightarrow> UnpackedHeader \<Rightarrow> Origin \<Rightarrow> scudo_error" where
  "check_origin act Ptr Header Orig =
     DeallocTypeMismatch act Ptr (ucast (OriginOrWasZeroed Header)) (ucast (Origin_code Orig))"

text \<open>A null pointer is 0.\<close>

definition scudo_deallocate :: "cconfig \<Rightarrow> uptr \<Rightarrow> Origin \<Rightarrow> uptr \<Rightarrow> scudo \<Rightarrow> scudo result" where
  "scudo_deallocate cfg TaggedPtr Orig DeleteSize s =
     (if TaggedPtr = 0 then Inr s
      else if \<not> isAligned TaggedPtr MinAlignment then Inl (MisalignedPointer Deallocating TaggedPtr)
      else
        let Ptr = getHeaderTaggedPointer cfg TaggedPtr
        in bindE (load_header cfg Ptr s) (\<lambda>Header.
           if HState Header \<noteq> State_code Allocated then Inl (InvalidChunkState Deallocating Ptr)
           else
             let Opts = load_options s
             in if opt_get OptDeallocTypeMismatch Opts \<and> OriginOrWasZeroed Header \<noteq> Origin_code Orig
                   \<and> (OriginOrWasZeroed Header \<noteq> Origin_code Memalign \<or> Orig \<noteq> Malloc)
                then Inl (check_origin Deallocating Ptr Header Orig)
                else
                  let Size = getSize cfg (memory_of s) Ptr Header
                  in if DeleteSize \<noteq> 0 \<and> opt_get OptDeleteSizeMismatch Opts \<and> DeleteSize \<noteq> Size
                     then Inl (DeleteSizeMismatch Ptr DeleteSize Size)
                     else quarantineOrDeallocateChunk cfg Opts TaggedPtr Header Size s))"

section \<open>Reallocation\<close>

text \<open>The end of the block and the size of the chunk before.\<close>

definition old_block :: "cconfig \<Rightarrow> uptr \<Rightarrow> UnpackedHeader \<Rightarrow> memory \<Rightarrow> uptr \<times> uptr" where
  "old_block cfg OldTaggedPtr Header m =
     (let BlockBegin = getBlockBegin OldTaggedPtr Header; ClassId = ucast (HClassId Header)
      in if ClassId \<noteq> 0 then (BlockBegin + getSizeByClassId (size_map cfg) ClassId, ucast (SizeOrUnusedBytes Header))
         else let BlockEnd = secondary_getBlockEnd (CZ cfg) (CSecondary cfg) m BlockBegin
              in (BlockEnd, BlockEnd - (OldTaggedPtr + ucast (SizeOrUnusedBytes Header))))"

definition realloc_in_place ::
    "cconfig \<Rightarrow> u32 \<Rightarrow> uptr \<Rightarrow> uptr \<Rightarrow> uptr \<Rightarrow> uptr \<Rightarrow> uptr \<Rightarrow> UnpackedHeader \<Rightarrow> scudo \<Rightarrow> scudo result" where
  "realloc_in_place cfg Opts OldTaggedPtr OldPtr NewSize OldSize BlockEnd Header s =
     (let ClassId = HClassId Header;
          FillContents = (if DisableMemInit s then NoFill else getFillContentsMode Opts);
          s = (if NewSize < OldSize \<and> FillContents \<noteq> NoFill
               then upd_mem (fill_memory (OldTaggedPtr + NewSize) (OldSize - NewSize) (fill_byte FillContents)) s
               else s);
          Header = Header\<lparr>SizeOrUnusedBytes :=
            ucast ((if ClassId \<noteq> 0 then NewSize else BlockEnd - (OldTaggedPtr + NewSize)) AND SizeOrUnusedBytesMask)\<rparr>;
          s = store_header cfg OldPtr Header s
      in if \<not> useMemoryTagging (CMaySupportMemoryTagging cfg) Opts then Inr s
         else if ClassId \<noteq> 0 then
           bindE (resizeTaggedChunk cfg (OldTaggedPtr + OldSize) (OldTaggedPtr + NewSize) NewSize
                    (untagPointer BlockEnd) (memory_of s))
             (\<lambda>m. Inr (storePrimaryAllocationStackMaybe cfg Opts OldPtr (upd_mem (\<lambda>_. m) s)))
         else Inr (storeSecondaryAllocationStackMaybe cfg Opts OldPtr NewSize s))"

definition scudo_reallocate ::
    "cconfig \<Rightarrow> uptr \<Rightarrow> uptr \<Rightarrow> uptr \<Rightarrow> scudo \<Rightarrow> (uptr option \<times> scudo) result" where
  "scudo_reallocate cfg OldTaggedPtr NewSize Alignment s =
     (let Opts = load_options s
      in if NewSize \<ge> MaxAllowedMallocSize then
           (if opt_get MayReturnNull Opts then Inr (None, s)
            else Inl (AllocationSizeTooBig NewSize 0 MaxAllowedMallocSize))
         else
           let OldPtr = getHeaderTaggedPointer cfg OldTaggedPtr
           in if \<not> isAligned OldPtr MinAlignment then Inl (MisalignedPointer Reallocating OldPtr)
              else bindE (load_header cfg OldPtr s) (\<lambda>Header.
                if HState Header \<noteq> State_code Allocated then Inl (InvalidChunkState Reallocating OldPtr)
                else if opt_get OptDeallocTypeMismatch Opts \<and> OriginOrWasZeroed Header \<noteq> Origin_code Malloc
                then Inl (check_origin Reallocating OldPtr Header Malloc)
                else
                  let (BlockEnd, OldSize) = old_block cfg OldTaggedPtr Header (memory_of s)
                  in if OldTaggedPtr + NewSize \<le> BlockEnd
                        \<and> (NewSize > OldSize \<or> OldSize - NewSize < PageSizeOf (CPrimary cfg))
                     then bindE (realloc_in_place cfg Opts OldTaggedPtr OldPtr NewSize OldSize BlockEnd Header s)
                            (\<lambda>s. Inr (Some OldTaggedPtr, s))
                     else
                       bindE (scudo_allocate cfg NewSize Malloc Alignment False s) (\<lambda>(NewPtr, s).
                         case NewPtr of
                           None \<Rightarrow> Inr (None, s)
                         | Some P \<Rightarrow>
                             bindE (quarantineOrDeallocateChunk cfg Opts OldTaggedPtr Header OldSize
                                      (upd_mem (copy_memory P OldTaggedPtr (MinU NewSize OldSize)) s))
                               (\<lambda>s. Inr (Some P, s)))))"

section \<open>Sizes, ownership, iteration\<close>

definition usable_size :: "cconfig \<Rightarrow> memory \<Rightarrow> uptr \<Rightarrow> UnpackedHeader \<Rightarrow> uptr" where
  "usable_size cfg m Ptr Header =
     (let BlockBegin = getBlockBegin Ptr Header
      in if HClassId Header \<noteq> 0 then getSizeByClassId (size_map cfg) (ucast (HClassId Header)) - (Ptr - BlockBegin)
         else let (U, B) = (if tagging_built cfg then (untagPointer Ptr, untagPointer BlockBegin) else (Ptr, BlockBegin))
              in secondary_getBlockEnd (CZ cfg) (CSecondary cfg) m B - U)"

definition sized_header :: "cconfig \<Rightarrow> uptr \<Rightarrow> scudo \<Rightarrow> (uptr \<times> UnpackedHeader) result" where
  "sized_header cfg Ptr s =
     (let Ptr = getHeaderTaggedPointer cfg Ptr
      in bindE (load_header cfg Ptr s) (\<lambda>Header.
           if HState Header \<noteq> State_code Allocated then Inl (InvalidChunkState Sizing Ptr) else Inr (Ptr, Header)))"

definition getAllocSize :: "cconfig \<Rightarrow> uptr \<Rightarrow> scudo \<Rightarrow> uptr result" where
  "getAllocSize cfg Ptr s =
     bindE (sized_header cfg Ptr s) (\<lambda>(Ptr, Header). Inr (getSize cfg (memory_of s) Ptr Header))"

definition getUsableSize :: "cconfig \<Rightarrow> uptr \<Rightarrow> scudo \<Rightarrow> uptr result" where
  "getUsableSize cfg Ptr s =
     (if Ptr = 0 then Inr 0
      else if CExactUsableSize cfg \<or> useMemoryTagging (CMaySupportMemoryTagging cfg) (load_options s)
      then getAllocSize cfg Ptr s
      else bindE (sized_header cfg Ptr s) (\<lambda>(Ptr, Header). Inr (usable_size cfg (memory_of s) Ptr Header)))"

definition isOwned :: "cconfig \<Rightarrow> uptr \<Rightarrow> scudo \<Rightarrow> bool" where
  "isOwned cfg Ptr s =
     (if Ptr = 0 \<or> \<not> isAligned Ptr MinAlignment then False
      else let (ok, Header) = isValid (CCrc cfg) (HashAlgorithm s) (Cookie s) (getHeaderTaggedPointer cfg Ptr) (memory_of s)
           in ok \<and> HState Header = State_code Allocated)"

text \<open>The body of the callback that \<^verbatim>\<open>iterateOverChunks\<close> gives to both allocators: what it passes to
  the user's callback, if anything.\<close>

definition chunk_of_block :: "cconfig \<Rightarrow> scudo \<Rightarrow> uptr \<Rightarrow> (uptr \<times> UnpackedHeader) option" where
  "chunk_of_block cfg s Block =
     (let tagged = getChunkFromBlock cfg s (addHeaderTag cfg Block);
          plain = getChunkFromBlock cfg s Block
      in if tagging_built cfg \<and> CSystemSupportsMemoryTagging cfg \<and> fst plain then Some (snd plain)
         else if fst tagged then Some (snd tagged) else None)"

definition iterate_block :: "cconfig \<Rightarrow> uptr \<Rightarrow> uptr \<Rightarrow> scudo \<Rightarrow> uptr \<Rightarrow> (uptr \<times> uptr) option" where
  "iterate_block cfg From To s Block =
     (if Block < From \<or> Block \<ge> To then None
      else case chunk_of_block cfg s Block of
             None \<Rightarrow> None
           | Some (Chunk, Header) \<Rightarrow>
               if HState Header \<noteq> State_code Allocated then None
               else if useMemoryTagging (CMaySupportMemoryTagging cfg) (load_options s)
               then Some (loadTag Chunk, getSize cfg (memory_of s) Chunk Header)
               else Some (if tagging_built cfg then untagPointer Chunk else Chunk,
                          if CExactUsableSize cfg then getSize cfg (memory_of s) Chunk Header
                          else usable_size cfg (memory_of s) Chunk Header))"

definition iterateOverChunks :: "cconfig \<Rightarrow> uptr \<Rightarrow> uptr \<Rightarrow> scudo \<Rightarrow> (uptr \<times> uptr) list option" where
  "iterateOverChunks cfg Base Size s =
     (let From = (if archSupportsMemoryTagging then untagPointer Base else Base); To = From + Size
      in map_option (\<lambda>Blocks. List.map_filter (iterate_block cfg From To s)
                                (Blocks @ secondary_iterateOverBlocks (CSecondary cfg) (Second s)))
           (p_iterateOverBlocks (CPrimary cfg) (Heap s)))"

section \<open>Options and maintenance\<close>

definition set_opts :: "(u32 \<Rightarrow> u32) \<Rightarrow> scudo \<Rightarrow> scudo" where
  "set_opts f s = s\<lparr>Heap := (Heap s)\<lparr>POptions := f (POptions (Heap s))\<rparr>\<rparr>"

text \<open>\<^verbatim>\<open>TSDRegistry.setOption\<close> is the one of the exclusive registry.\<close>

definition tsd_setOption :: "RtOption \<Rightarrow> sptr \<Rightarrow> scudo \<Rightarrow> bool \<times> scudo" where
  "tsd_setOption Opt Value s =
     (let s = (if Opt = ThreadDisableMemInit then s\<lparr>DisableMemInit := (Value \<noteq> 0)\<rparr> else s)
      in (Opt \<noteq> MaxTSDsCount, s))"

definition scudo_setOption :: "cconfig \<Rightarrow> RtOption \<Rightarrow> sptr \<Rightarrow> scudo \<Rightarrow> bool \<times> scudo" where
  "scudo_setOption cfg Opt Value s =
     (if Opt = MemtagTuning then
        (True, if Value = 0 then set_opts (opt_set UseOddEvenTags) s
               else if Value = 1 then set_opts (opt_clear UseOddEvenTags) s else s)
      else
        let (PrimaryResult, h) = p_setOption (CPrimary cfg) Opt Value (Heap s);
            (SecondaryResult, c) = sec_setOption (CSecondary cfg) Opt Value (SCache (Second s));
            s = s\<lparr>Heap := h, Second := (Second s)\<lparr>SCache := c\<rparr>\<rparr>;
            (RegistryResult, s) = tsd_setOption Opt Value s
        in (PrimaryResult \<and> SecondaryResult \<and> RegistryResult, s))"

definition canReturnNull :: "scudo \<Rightarrow> bool" where
  "canReturnNull s = opt_get MayReturnNull (load_options s)"

definition disableMemoryTagging :: "cconfig \<Rightarrow> scudo \<Rightarrow> scudo" where
  "disableMemoryTagging cfg s =
     (if tagging_built cfg then
        let (c, mc) = sec_cache_disableMemoryTagging (CSecondary cfg) (SCache (Second s)) (SMem s)
        in set_opts (opt_clear UseMemoryTagging) (s\<lparr>Second := (Second s)\<lparr>SCache := c\<rparr>, SMem := mc\<rparr>)
      else s)"

definition setAddLargeAllocationSlack :: "bool \<Rightarrow> scudo \<Rightarrow> scudo" where
  "setAddLargeAllocationSlack AddSlack =
     set_opts (if AddSlack then opt_set AddLargeAllocationSlack else opt_clear AddLargeAllocationSlack)"

definition setFillContents :: "u32 \<Rightarrow> scudo \<Rightarrow> scudo" where
  "setFillContents FillContents = set_opts (setFillContentsMode FillContents)"

definition heap_drain :: "cconfig \<Rightarrow> scudo \<Rightarrow> scudo result" where
  "heap_drain cfg s =
     (case sca_drain (CPrimary cfg) (COs cfg) (Heap s) of
        None \<Rightarrow> Inl Diverges
      | Some r \<Rightarrow> bindE r (\<lambda>h. Inr (s\<lparr>Heap := h\<rparr>)))"

definition drainCache :: "cconfig \<Rightarrow> scudo \<Rightarrow> scudo result" where
  "drainCache cfg s =
     bindE (if \<not> CQuarantineDisabled cfg
            then with_quarantine (drainAndRecycle (QuarantineCallback cfg) (CTmpAddr cfg)) s else Inr s)
       (heap_drain cfg)"

text \<open>\<^verbatim>\<open>destroy\<close> drains the cache; unlinking its statistics is in \<open>Stats\<close>.\<close>

definition commitBack :: "cconfig \<Rightarrow> scudo \<Rightarrow> scudo result" where
  "commitBack cfg s =
     bindE (if \<not> CQuarantineDisabled cfg
            then with_quarantine (drain (QuarantineCallback cfg) (CTmpAddr cfg)) s else Inr s)
       (heap_drain cfg)"

definition scudo_releaseToOS :: "cconfig \<Rightarrow> ReleaseToOS \<Rightarrow> scudo \<Rightarrow> scudo result" where
  "scudo_releaseToOS cfg ReleaseType s =
     bindE (if ReleaseType = ReleaseForceAll then drainCache cfg s else Inr s) (\<lambda>s.
       let (_, Released, h, Mask) = p_releaseToOS (CPrimary cfg) (COs cfg) ReleaseType (Heap s, PoolMask s);
           mc = fold (\<lambda>(From, Size). sec_release From Size) Released (SMem s);
           (c, mc) = sec_cache_releaseToOS (CSecondary cfg) (SCache (Second s)) mc
       in Inr (s\<lparr>Heap := h, PoolMask := Mask, Second := (Second s)\<lparr>SCache := c\<rparr>, SMem := mc\<rparr>))"

text \<open>\<^verbatim>\<open>getStats\<close> into a buffer: the text without its terminator, and whether there is a buffer. What
  is written, and the length returned.\<close>

definition getStats_buffer :: "string \<Rightarrow> bool \<Rightarrow> nat \<Rightarrow> nat \<times> char list" where
  "getStats_buffer Str HasBuffer Size =
     (let Length = length Str + 1;
          Size = (if Length < Size then Length else Size)
      in (Length, if HasBuffer \<and> Size \<noteq> 0 then (take Size (Str @ [CHR 0x00]))[Size - 1 := CHR 0x00] else []))"

section \<open>Initialisation\<close>

record flags =
  quarantine_size_kb :: s32
  thread_local_quarantine_size_kb :: s32
  quarantine_max_chunk_size :: s32
  dealloc_type_mismatch :: bool
  delete_size_mismatch :: bool
  zero_contents :: bool
  pattern_fill_contents :: bool
  may_return_null :: bool
  release_to_os_interval_ms :: s32
  allocation_ring_buffer_size :: s32

text \<open>The flags of the header are wide enough for the class map in use.\<close>

definition performSanityChecks :: "cconfig \<Rightarrow> unit result" where
  "performSanityChecks cfg =
     (let MaxSz = MaxSize (size_map cfg);
          MaxPrimaryAlignment = push_bit (unat (getMostSignificantSetBitIndex (MaxSz - MinAlignment))) 1 :: uptr;
          MaxOffset = drop_bit SCUDO_MIN_ALIGNMENT_LOG (MaxPrimaryAlignment - getHeaderSize);
          Off = ucast (MaxOffset AND OffsetMask) :: 16 word;
          MaxSizeOrUnusedBytes = MaxSz - 1;
          Sz = ucast MaxSizeOrUnusedBytes :: 20 word;
          Cls = ucast (LargestClassId (size_map cfg)) :: 8 word
      in if ucast Off \<noteq> MaxOffset then Inl (SanityCheckError ''offset'')
         else if ucast Sz \<noteq> MaxSizeOrUnusedBytes then Inl (SanityCheckError ''size (or unused bytes)'')
         else if ucast Cls \<noteq> LargestClassId (size_map cfg) then Inl (SanityCheckError ''class ID'')
         else Inr ())"

definition init_options :: "cconfig \<Rightarrow> flags \<Rightarrow> u32 \<Rightarrow> u32" where
  "init_options cfg fl Opts =
     (let o1 = (if may_return_null fl then opt_set MayReturnNull Opts else Opts);
          o2 = (if zero_contents fl then setFillContentsMode ZeroFill o1
                else if pattern_fill_contents fl then setFillContentsMode PatternOrZeroFill o1 else o1);
          o3 = (if dealloc_type_mismatch fl then opt_set OptDeallocTypeMismatch o2 else o2);
          o4 = (if delete_size_mismatch fl then opt_set OptDeleteSizeMismatch o3 else o3)
      in if tagging_built cfg \<and> CSystemSupportsMemoryTagging cfg then opt_set UseMemoryTagging o4 else o4)"

text \<open>\<open>Random\<close> is the cookie when \<^verbatim>\<open>getRandom\<close> succeeds; \<open>Time\<close>, \<open>This\<close> and \<open>Seed\<close> are the monotonic
  time, the address of the allocator and the seed of the primary.\<close>

definition scudo_init ::
    "cconfig \<Rightarrow> flags \<Rightarrow> u32 option \<Rightarrow> u64 \<Rightarrow> uptr \<Rightarrow> u32 \<Rightarrow> scudo \<Rightarrow> scudo result" where
  "scudo_init cfg fl Random Time This Seed s =
     bindE (performSanityChecks cfg) (\<lambda>_.
     bindE (p_init (CPrimary cfg) (COs cfg) Seed (release_to_os_interval_ms fl)
              ((Heap s)\<lparr>POptions := init_options cfg fl (POptions (Heap s))\<rparr>)) (\<lambda>h.
     bindE (if CQuarantineDisabled cfg then Inr (GlobalQ s)
            else quarantine_init (scast (push_bit 10 (quarantine_size_kb fl)))
                   (scast (push_bit 10 (thread_local_quarantine_size_kb fl)))) (\<lambda>q.
       Inr (s\<lparr>Heap := h, GlobalQ := q,
              HashAlgorithm := (if hasHardwareCRC32 then HardwareCRC32 else HashAlgorithm s),
              Cookie := (case Random of Some c \<Rightarrow> c | None \<Rightarrow> ucast (Time XOR drop_bit 4 This)),
              QuarantineMaxChunkSize := quarantine_max_chunk_size fl,
              Second := secondary_init (CSecondary cfg) (release_to_os_interval_ms fl)\<rparr>))))"

end
