(* ===== verification/AllocatorSafe.thy ===== *)
theory AllocatorSafe
  imports Allocator PrimaryLife
begin

text \<open>
  What the combined allocator promises a program: a chunk from the primary lies in its block, is
  aligned, has a header from which its size is read back, and is owned; a chunk that was freed is
  reported when it is freed again; growing or shrinking in place keeps the contents. With memory
  tagging the contents of a new chunk are not cleared, whatever was asked for.
\<close>

unbundle bit_operations_syntax

section \<open>Addresses without their tag\<close>

lemma untag_small: "unat p < 2 ^ 56 \<Longrightarrow> untagPointer p = p"
  by (simp add: word_unat_eq_iff unat_untagPointer)

lemma untag_diff:
  assumes "unat k \<le> unat (untagPointer p)"
  shows "untagPointer (p - k) = untagPointer p - k"
proof -
  have le: "unat k \<le> unat p mod 2 ^ 56" using assms by (simp add: unat_untagPointer)
  have lp: "unat p mod 2 ^ 56 \<le> unat p" by (rule mod_less_eq_dividend)
  have d: "unat (p - k) = unat p - unat k"
    using le lp by (intro unat_sub) (simp add: word_le_nat_alt)
  have e: "unat p = unat p div 2 ^ 56 * 2 ^ 56 + unat p mod 2 ^ 56" by (simp only: div_mult_mod_eq)
  have "unat p - unat k = unat p div 2 ^ 56 * 2 ^ 56 + (unat p mod 2 ^ 56 - unat k)" using le e by linarith
  moreover have "unat p mod 2 ^ 56 - unat k < 2 ^ 56" by (simp add: less_imp_diff_less)
  ultimately have "(unat p - unat k) mod 2 ^ 56 = unat p mod 2 ^ 56 - unat k"
    by (simp only: mod_mult_self3 mod_less)
  moreover have "unat (untagPointer p - k) = unat p mod 2 ^ 56 - unat k"
    using assms by (simp add: unat_sub word_le_nat_alt unat_untagPointer)
  ultimately show ?thesis by (simp add: word_unat_eq_iff unat_untagPointer d)
qed

text \<open>The bytes that a store leaves alone.\<close>

lemma byte_unchanged:
  "\<not> a - untagPointer p < 8 \<Longrightarrow> mem_byte (store_u64 m p v) a = mem_byte m a"
  "\<not> a - untagPointer p < 4 \<Longrightarrow> mem_byte (store_u32 p w m) a = mem_byte m a"
  "\<not> a - untagPointer p < n \<Longrightarrow> mem_byte (fill_memory p n b m) a = mem_byte m a"
  by (simp_all add: store_u64_def store_u32_def fill_memory_def Let_def)

lemma byte_filled: "a - untagPointer p < n \<Longrightarrow> mem_byte (fill_memory p n b m) a = b"
  by (simp add: fill_memory_def)

lemma getHeaderSize_16: "getHeaderSize = 16"
  by (simp add: getHeaderSize_def roundUp_def SCUDO_MIN_ALIGNMENT_LOG_def)

lemma MinAlignment_16: "MinAlignment = 16"
  by (simp add: MinAlignment_def SCUDO_MIN_ALIGNMENT_LOG_def)

section \<open>Blocks for a request\<close>

lemma class_sizes_grow:
  assumes "valid_config cfg" "C < D" "D < NumClasses cfg"
  shows "getSizeByClassId cfg C \<le> getSizeByClassId cfg D"
proof -
  have n: "unat C < num_classes cfg" "unat D < num_classes cfg" "unat C \<le> unat D"
    using assms unat_NumClasses [OF assms(1)] by (auto simp: word_less_nat_alt)
  show ?thesis
    using unat_getSizeByClassId [OF assms(1) n(1)] unat_getSizeByClassId [OF assms(1) n(2)]
      class_size_le [OF assms(1) n(3)] by (simp add: word_le_nat_alt)
qed

text \<open>The heap after a request, and the block if there is one.\<close>

definition request_done ::
    "primary_config \<Rightarrow> (uptr \<Rightarrow> uptr multiset) \<Rightarrow> uptr option \<Rightarrow> uptr \<Rightarrow> heap \<Rightarrow> bool" where
  "request_done cfg L Bo C h \<longleftrightarrow> heap_ok cfg h \<and> (case Bo of
      None \<Rightarrow> live_blocks cfg L h
    | Some B \<Rightarrow> is_class cfg C \<and> live_blocks cfg (L(C := add_mset (compactPtr cfg C B h) (L C))) h
        \<and> compactPtr cfg C B h \<notin># L C \<and> block_placed cfg C B)"

lemma heap_ok_cfg: "heap_ok cfg h \<Longrightarrow> primary_ok cfg"
  unfolding heap_ok_def primary_inv_def by (blast dest: custody_cfg)

lemma primary_valid: "primary_ok cfg \<Longrightarrow> valid_config (PSizeMap cfg)"
  by (simp add: primary_ok_def)

lemma sca_allocate_request:
  assumes "heap_ok cfg h" "live_blocks cfg L h" "is_class cfg C" "sca_allocate cfg os C h = Inr (Bo, h')"
  shows "request_done cfg L Bo C h'"
  using sca_allocate_block [OF assms] assms(3) by (cases Bo) (simp_all add: request_done_def)

lemma next_class:
  assumes "primary_ok cfg" "is_class cfg C" "C < LargestClassId (PSizeMap cfg)"
  shows "is_class cfg (C + 1)" "C < C + 1"
proof -
  have "unat (LargestClassId (PSizeMap cfg)) = num_classes (PSizeMap cfg) - 1"
    by (rule unat_LargestClassId) (rule primary_valid [OF assms(1)])
  then have lt: "unat C + 1 < num_classes (PSizeMap cfg)" using assms(3) by (simp add: word_less_nat_alt)
  have "unat (LargestClassId (PSizeMap cfg)) < 18446744073709551616" by (rule unat_less_64)
  then have "unat C + 1 < 18446744073709551616" using assms(3) unfolding word_less_nat_alt by linarith
  then have s: "unat (C + 1) = unat C + 1" using unat_add_small [of C 1] by simp
  then show "C < C + 1" by (simp add: word_less_nat_alt)
  show "is_class cfg (C + 1)"
    using lt s unat_NumClasses [OF primary_valid [OF assms(1)]]
    by (auto simp: is_class_def word_less_nat_alt BatchClassId_def)
qed

lemma retry_request:
  assumes "heap_ok (CPrimary cfg) h" "live_blocks (CPrimary cfg) L h" "is_class (CPrimary cfg) C"
    and "retry_larger_classes cfg C h = Inr (Bo, D, h')"
  shows "request_done (CPrimary cfg) L Bo D h' \<and> (Bo = None \<longrightarrow> D = 0) \<and> (Bo \<noteq> None \<longrightarrow> C < D)"
  using assms
proof (induction cfg C h rule: retry_larger_classes.induct)
  case (1 cfg C h)
  show ?case
  proof (cases "C < LargestClassId (size_map cfg)")
    case False
    then show ?thesis using "1.prems" by (simp add: retry_larger_classes.simps [of cfg C] request_done_def)
  next
    case True
    note n = next_class [OF heap_ok_cfg [OF "1.prems"(1)] "1.prems"(3) True]
    obtain B1 h1 where a: "sca_allocate (CPrimary cfg) (COs cfg) (C + 1) h = Inr (B1, h1)"
      using "1.prems"(4) True by (auto simp: retry_larger_classes.simps [of cfg C] split: sum.splits)
    note r = sca_allocate_request [OF "1.prems"(1,2) n(1) a]
    show ?thesis
    proof (cases B1)
      case (Some B)
      then show ?thesis using "1.prems"(4) True a r n(2) by (auto simp: retry_larger_classes.simps [of cfg C])
    next
      case None
      then have "retry_larger_classes cfg (C + 1) h1 = Inr (Bo, D, h')"
        using "1.prems"(4) True a by (simp add: retry_larger_classes.simps [of cfg C])
      moreover have "heap_ok (CPrimary cfg) h1" "live_blocks (CPrimary cfg) L h1"
        using r None by (simp_all add: request_done_def)
      ultimately have "request_done (CPrimary cfg) L Bo D h' \<and> (Bo = None \<longrightarrow> D = 0) \<and> (Bo \<noteq> None \<longrightarrow> C + 1 < D)"
        using "1.IH" [OF True a refl None] n(1) by blast
      then show ?thesis using n(2) by auto
    qed
  qed
qed

lemma primary_block_request:
  assumes "heap_ok (CPrimary cfg) h" "live_blocks (CPrimary cfg) L h" "0 < N"
    and "primary_block cfg N h = Inr (Bo, C, h')"
  shows "request_done (CPrimary cfg) L Bo C h' \<and> (Bo = None \<longrightarrow> C = 0)
    \<and> (Bo \<noteq> None \<longrightarrow> N \<le> getSizeByClassId (size_map cfg) C \<and> N \<le> MaxSize (size_map cfg))"
proof (cases "canAllocate (CPrimary cfg) N")
  case False
  then show ?thesis using assms by (simp add: primary_block_def request_done_def)
next
  case True
  let ?c = "getClassIdBySize (size_map cfg) N"
  have v: "valid_config (size_map cfg)" by (rule primary_valid [OF heap_ok_cfg [OF assms(1)]])
  have c: "1 \<le> unat ?c" "unat ?c < num_classes (size_map cfg)"
      "unat N \<le> class_size (size_map cfg) (unat ?c) + unat (SizeDelta (size_map cfg))"
    using classify [OF v, of N] assms(3) True by (simp_all add: canAllocate_def word_le_nat_alt word_less_nat_alt)
  have cls: "is_class (CPrimary cfg) ?c"
    using c(1,2) unat_NumClasses [OF v] by (auto simp: is_class_def word_less_nat_alt BatchClassId_def)
  have fits: "N \<le> getSizeByClassId (size_map cfg) ?c"
    using c unat_getSizeByClassId [OF v c(2)] by (simp add: word_le_nat_alt)
  have mx: "N \<le> MaxSize (size_map cfg)" using True by (simp add: canAllocate_def)
  obtain B1 h1 where a: "sca_allocate (CPrimary cfg) (COs cfg) ?c h = Inr (B1, h1)"
    using assms(4) True by (auto simp: primary_block_def Let_def bindE_eq_Inr)
  note r = sca_allocate_request [OF assms(1,2) cls a]
  show ?thesis
  proof (cases B1)
    case (Some B)
    then have "Bo = Some B" "C = ?c" "h' = h1" using assms(4) True a by (simp_all add: primary_block_def)
    then show ?thesis using r Some cls fits mx by (auto simp: is_class_def BatchClassId_def)
  next
    case None
    then have t: "retry_larger_classes cfg ?c h1 = Inr (Bo, C, h')"
      using assms(4) True a by (simp add: primary_block_def)
    have h1: "heap_ok (CPrimary cfg) h1" "live_blocks (CPrimary cfg) L h1" using r None by (simp_all add: request_done_def)
    note q = retry_request [OF h1 cls t]
    have "N \<le> getSizeByClassId (size_map cfg) C" if "Bo \<noteq> None"
    proof -
      have "?c < C" "C < NumClasses (size_map cfg)" using q that by (auto simp: request_done_def is_class_def split: option.splits)
      then show ?thesis using class_sizes_grow [OF v] fits by (meson order.trans)
    qed
    then show ?thesis using q mx by blast
  qed
qed

section \<open>The place of a chunk in its block\<close>

text \<open>The alignment \<^verbatim>\<open>allocate\<close> uses, and the pointer it computes from a block.\<close>

abbreviation eff_align :: "uptr \<Rightarrow> uptr" where
  "eff_align A \<equiv> (if A < MinAlignment then MinAlignment else A)"

definition user_ptr :: "uptr \<Rightarrow> uptr \<Rightarrow> uptr" where
  "user_ptr B A = roundUp (B + getHeaderSize) A"

lemma roundUp_bounded:
  assumes "isPowerOfTwo A" "unat X < 2 ^ 57" "unat A \<le> 2 ^ 24"
  shows "X \<le> roundUp X A" "unat (roundUp X A) < unat X + unat A" "unat A dvd unat (roundUp X A)"
    "unat A dvd m \<Longrightarrow> unat X \<le> m \<Longrightarrow> unat (roundUp X A) \<le> m"
proof -
  have "unat X + unat A \<le> 2 ^ 64" using assms(2,3) by simp
  from roundUp_least [OF assms(1) this] show "X \<le> roundUp X A" "unat (roundUp X A) < unat X + unat A"
    "unat A dvd unat (roundUp X A)" "unat A dvd m \<Longrightarrow> unat X \<le> m \<Longrightarrow> unat (roundUp X A) \<le> m" by blast+
qed

lemma power_dvd_16:
  assumes "isPowerOfTwo A" "16 < unat A"
  shows "16 dvd unat A"
proof (rule isPowerOfTwoE [OF assms(1)])
  fix k assume k: "unat A = 2 ^ k"
  have "4 \<le> k"
  proof (rule ccontr)
    assume "\<not> 4 \<le> k"
    then have "(2::nat) ^ k \<le> 2 ^ 4" by (intro power_increasing) simp_all
    then show False using assms(2) k by simp
  qed
  from le_imp_power_dvd [OF this, of "2::nat"] show "16 dvd unat A" by (simp add: k)
qed

lemma NeededSize_value:
  assumes A: "16 \<le> unat A" "unat A \<le> 2 ^ 24" and S: "unat Size < 2 ^ 40"
  shows "unat (NeededSize_of Size A) = unat (roundUp Size 16) + (if A > MinAlignment then unat A else 16)"
    and "unat Size \<le> unat (roundUp Size 16)" and "unat Size < unat (NeededSize_of Size A)"
proof -
  have p16: "isPowerOfTwo 16" by (simp add: isPowerOfTwo_def)
  note s = roundUp_bounded [OF p16, of Size]
  have sl: "unat Size < 2 ^ 57" using S by simp
  have RS: "unat Size \<le> unat (roundUp Size 16)" "unat (roundUp Size 16) < unat Size + 16"
    using s(1,2) [OF sl] by (simp_all add: word_le_nat_alt)
  define P where "P = (if A > MinAlignment then A else getHeaderSize)"
  have P: "16 \<le> unat P" "unat P \<le> 2 ^ 24" using A by (auto simp: P_def MinAlignment_16 getHeaderSize_16)
  have "NeededSize_of Size A = roundUp Size 16 + P" by (simp add: NeededSize_of_def P_def MinAlignment_16)
  then have N: "unat (NeededSize_of Size A) = unat (roundUp Size 16) + unat P" using RS S P by (simp add: unat_add_small)
  show "unat (NeededSize_of Size A) = unat (roundUp Size 16) + (if A > MinAlignment then unat A else 16)"
    by (simp add: N P_def getHeaderSize_16)
  show "unat Size \<le> unat (roundUp Size 16)" by (rule RS(1))
  show "unat Size < unat (NeededSize_of Size A)" using N RS P by linarith
qed

lemma chunk_in_block:
  assumes A: "isPowerOfTwo A" "16 \<le> unat A" "unat A \<le> 2 ^ 24" and S: "unat Size < 2 ^ 40"
    and B: "unat B + unat Sz < 2 ^ 56" "16 dvd unat B"
    and fits: "NeededSize_of Size A \<le> Sz"
  shows "unat B + 16 \<le> unat (user_ptr B A)" and "unat (user_ptr B A) + unat Size \<le> unat B + unat Sz"
    and "unat A dvd unat (user_ptr B A)"
proof -
  have u: "unat (B + 16) = unat B + 16" using B(1) by (subst unat_add_small) simp_all
  note r = roundUp_bounded [OF A(1) _ A(3), of "B + 16"]
  have lt57: "unat (B + 16) < 2 ^ 57" using u B(1) by simp
  have U: "user_ptr B A = roundUp (B + 16) A" by (simp add: user_ptr_def getHeaderSize_16)
  note N = NeededSize_value [OF A(2,3) S]
  show "unat B + 16 \<le> unat (user_ptr B A)" using r(1) [OF lt57] by (simp add: U word_le_nat_alt u)
  show "unat A dvd unat (user_ptr B A)" using r(3) [OF lt57] by (simp add: U)
  have "unat (user_ptr B A) \<le> unat B + (if A > MinAlignment then unat A else 16)"
  proof (cases "A > MinAlignment")
    case False
    then have A16: "unat A = 16" using A(2) by (simp add: MinAlignment_16 word_less_nat_alt)
    have "unat (roundUp (B + 16) A) \<le> unat B + 16" using B(2) by (intro r(4) [OF lt57]) (simp_all add: A16 u)
    then show ?thesis using False by (simp add: U)
  next
    case True
    then have gt: "16 < unat A" by (simp add: MinAlignment_16 word_less_nat_alt)
    have d: "16 dvd unat A" by (rule power_dvd_16 [OF A(1) gt])
    then have "16 dvd unat (roundUp (B + 16) A)" using r(3) [OF lt57] dvd_trans by blast
    then have "16 dvd unat B + 16 + unat A - unat (roundUp (B + 16) A)"
      using B(2) d by (intro dvd_diff_nat) simp_all
    moreover have "0 < unat B + 16 + unat A - unat (roundUp (B + 16) A)" using r(2) [OF lt57] u by simp
    ultimately have "16 \<le> unat B + 16 + unat A - unat (roundUp (B + 16) A)" by (rule dvd_imp_le)
    then show ?thesis using True by (simp add: U)
  qed
  moreover have "unat (NeededSize_of Size A) \<le> unat Sz" using fits by (simp add: word_le_nat_alt)
  ultimately show "unat (user_ptr B A) + unat Size \<le> unat B + unat Sz" using N(1,2) by linarith
qed

section \<open>Headers of new chunks\<close>

text \<open>The widths of the header fields, as \<^verbatim>\<open>performSanityChecks\<close> establishes them.\<close>

lemma sanity_widths:
  assumes "performSanityChecks cfg = Inr ()" "0 < MaxSize (size_map cfg)"
  shows "unat (MaxSize (size_map cfg)) \<le> 2 ^ 20" and "unat (LargestClassId (size_map cfg)) < 2 ^ 8"
proof -
  have e: "(ucast (ucast (MaxSize (size_map cfg) - 1) :: 20 word) :: uptr) = MaxSize (size_map cfg) - 1"
    "(ucast (ucast (LargestClassId (size_map cfg)) :: 8 word) :: uptr) = LargestClassId (size_map cfg)"
    using assms(1) by (auto simp: performSanityChecks_def Let_def split: if_splits)
  have b: "unat (ucast (x :: 20 word) :: uptr) < 2 ^ 20" "unat (ucast (y :: 8 word) :: uptr) < 2 ^ 8" for x y
    using unsigned_less [of x, where ?'a = nat] unsigned_less [of y, where ?'a = nat] by (simp_all add: unat_ucast_up)
  have "unat (MaxSize (size_map cfg) - 1) < 2 ^ 20" using b(1) e(1) by metis
  moreover have "unat (MaxSize (size_map cfg) - 1) = unat (MaxSize (size_map cfg)) - 1"
    using assms(2) by (intro unat_minus_one) auto
  ultimately show "unat (MaxSize (size_map cfg)) \<le> 2 ^ 20" by simp
  show "unat (LargestClassId (size_map cfg)) < 2 ^ 8" using b(2) e(2) by metis
qed

lemma field_id: "unat x < 2 ^ LENGTH('a) \<Longrightarrow> (ucast (ucast x :: 'a::len word) :: uptr) = x" for x :: uptr
  by (rule word_unat_eq_iff [THEN iffD2], cases "LENGTH('a) \<le> 64")
    (simp_all add: unat_ucast_eq unat_ucast_up)

lemma size_field: "unat Size < 2 ^ 20 \<Longrightarrow> (ucast (ucast (Size AND SizeOrUnusedBytesMask) :: 20 word) :: uptr) = Size"
proof -
  assume s: "unat Size < 2 ^ 20"
  have m: "SizeOrUnusedBytesMask = mask 20" by (simp add: SizeOrUnusedBytesMask_def mask_eq_exp_minus_1 push_bit_of_1)
  have "unat (Size AND SizeOrUnusedBytesMask) = unat Size" using s by (simp only: m unat_mask_and mod_less)
  then have "Size AND SizeOrUnusedBytesMask = Size" by (simp only: word_unat_eq_iff)
  then show ?thesis using field_id [of Size, where ?'a = 20] s by simp
qed

lemma class_field:
  assumes "performSanityChecks cfg = Inr ()" "0 < MaxSize (size_map cfg)" "is_class (CPrimary cfg) C"
    "valid_config (size_map cfg)"
  shows "ucast (ucast C :: 8 word) = C" "(ucast C :: 8 word) \<noteq> 0"
proof -
  have "unat C < num_classes (size_map cfg)" "C \<noteq> 0"
    using assms(3) unat_NumClasses [OF assms(4)] by (auto simp: is_class_def word_less_nat_alt BatchClassId_def)
  then have "unat C < 2 ^ 8"
    using sanity_widths(2) [OF assms(1,2)] unat_LargestClassId [OF assms(4)] by linarith
  then show e: "ucast (ucast C :: 8 word) = C" using field_id [of C, where ?'a = 8] by simp
  show "(ucast C :: 8 word) \<noteq> 0"
  proof
    assume "(ucast C :: 8 word) = 0"
    then have "ucast (ucast C :: 8 word) = (0 :: uptr)" by simp
    then show False using e \<open>C \<noteq> 0\<close> by simp
  qed
qed

text \<open>Loading what \<open>store_header\<close> wrote.\<close>

lemma load_store_header:
  "load_header cfg Ptr (store_header cfg Ptr H s)
    = Inr (H\<lparr>HChecksum := computeHeaderChecksum (CCrc cfg) (HashAlgorithm s) (Cookie s) Ptr H\<rparr>)"
  using loadHeader_storeHeader by (simp add: load_header_def store_header_def upd_mem_def)

lemma isValid_store_header:
  "isValid (CCrc cfg) (HashAlgorithm s) (Cookie s) Ptr (memory_of (store_header cfg Ptr H s))
    = (True, H\<lparr>HChecksum := computeHeaderChecksum (CCrc cfg) (HashAlgorithm s) (Cookie s) Ptr H\<rparr>)"
proof -
  let ?h = "H\<lparr>HChecksum := computeHeaderChecksum (CCrc cfg) (HashAlgorithm s) (Cookie s) Ptr H\<rparr>"
  have "computeHeaderChecksum (CCrc cfg) (HashAlgorithm s) (Cookie s) Ptr ?h
      = computeHeaderChecksum (CCrc cfg) (HashAlgorithm s) (Cookie s) Ptr H"
    by (simp add: computeHeaderChecksum_def)
  then show ?thesis by (simp add: isValid_def store_header_def storeHeader_def upd_mem_def Let_def)
qed

lemma upd_mem_simps [simp]:
  "Heap (upd_mem f s) = Heap s" "HashAlgorithm (upd_mem f s) = HashAlgorithm s" "Cookie (upd_mem f s) = Cookie s"
  "memory_of (upd_mem f s) = f (memory_of s)" "load_options (upd_mem f s) = load_options s"
  "DisableMemInit (upd_mem f s) = DisableMemInit s" "RingBuffer (upd_mem f s) = RingBuffer s"
  by (simp_all add: upd_mem_def load_options_def)

lemma store_header_simps [simp]:
  "Heap (store_header cfg P H s) = Heap s" "HashAlgorithm (store_header cfg P H s) = HashAlgorithm s"
  "Cookie (store_header cfg P H s) = Cookie s" "load_options (store_header cfg P H s) = load_options s"
  by (simp_all add: store_header_def)

section \<open>Chunks without memory tagging\<close>

lemma untag_addHeaderTag: "zimte_isa (CZ cfg) \<Longrightarrow> untagPointer (addHeaderTag cfg p) = untagPointer p"
  by (simp add: addHeaderTag_def addFixedTag_untag)

lemma untag_add:
  assumes "unat (untagPointer p) + unat k < 2 ^ 56"
  shows "untagPointer (p + k) = untagPointer p + k"
proof -
  have "unat p mod 2 ^ 56 + unat k < 2 ^ 56" using assms by (simp add: unat_untagPointer)
  note t = tagged_add [OF this]
  have "unat (untagPointer p + k) = unat (untagPointer p) + unat k"
    using assms by (intro unat_add_small) simp
  then show ?thesis using t(2) by (simp add: word_unat_eq_iff unat_untagPointer)
qed

text \<open>Storing the header and the marker of a chunk does not change the bytes from the chunk on.\<close>

lemma user_byte_offset:
  fixes B P Size i :: uptr
  assumes "unat B + k \<le> unat P" "unat P + unat Size < 2 ^ 56" "i < Size" "unat B + k = unat (B + of_nat k)"
  shows "unat (P + i - B) = unat P - unat B + unat i" and "\<not> P + i - B < of_nat k"
    and "unat (P + i) = unat P + unat i"
proof -
  have i: "unat i < unat Size" using assms(3) by (simp add: word_less_nat_alt)
  show p: "unat (P + i) = unat P + unat i" using i assms(2) by (intro unat_add_small) simp
  have "unat B \<le> unat (P + i)" using p assms(1) by simp
  then show d: "unat (P + i - B) = unat P - unat B + unat i"
    using p assms(1) by (simp add: unat_sub word_le_nat_alt)
  have "unat (of_nat k :: uptr) = k"
    using assms(1,2) by (intro unat_of_nat_small) simp
  then show "\<not> P + i - B < of_nat k" using d assms(1) by (simp add: word_less_nat_alt)
qed

lemma header_keeps_user_bytes:
  assumes "untagPointer Q = P" "16 \<le> unat P" "unat P + unat Size < 2 ^ 56" "i < Size"
  shows "mem_byte (memory_of (store_header cfg Q H s)) (P + i) = mem_byte (memory_of s) (P + i)"
proof -
  have u: "untagPointer (getAtomicHeader Q) = P - 16"
    unfolding getAtomicHeader_def getHeaderSize_16 using assms(1,2) by (subst untag_diff) simp_all
  have d: "unat (P - 16) = unat P - 16" using assms(2) by (simp add: unat_sub word_le_nat_alt)
  have "\<not> P + i - (P - 16) < of_nat 16"
    by (rule user_byte_offset [OF _ assms(3,4)]) (use d assms(2) in simp_all)
  then have "\<not> P + i - (P - 16) < 8" by (auto simp: word_less_nat_alt)
  then show ?thesis by (simp add: store_header_def storeHeader_def Let_def byte_unchanged u)
qed

lemma marker_keeps_user_bytes:
  assumes "untagPointer Bt = B" "unat B + 16 \<le> unat P" "unat P + unat Size < 2 ^ 56" "i < Size"
  shows "mem_byte (store_marker Bt D U m) (P + i) = mem_byte m (P + i)"
proof -
  have b4: "unat (B + 4) = unat B + 4" "unat (B + 8) = unat B + 8" "unat (B + 16) = unat B + 16"
    using assms(2,3) by (subst unat_add_small; simp)+
  have u4: "untagPointer (Bt + 4) = B + 4" using assms by (subst untag_add) simp_all
  have "\<not> P + i - (B + 4) < of_nat 4"
    by (rule user_byte_offset [OF _ assms(3,4)]) (use assms(2) b4 in \<open>simp_all add: add.assoc\<close>)
  moreover have "\<not> P + i - B < of_nat 16"
    by (rule user_byte_offset [OF assms(2,3,4)]) (simp add: b4)
  then have "\<not> P + i - B < 4" by (auto simp: word_less_nat_alt)
  ultimately show ?thesis using assms(1) u4 by (simp add: store_marker_def byte_unchanged)
qed

lemma OriginMask_code: "HState (new_header C Orig D U S) = State_code Allocated"
  "OriginOrWasZeroed (new_header C Orig D U S) = Origin_code Orig" "HClassId (new_header C Orig D U S) = ucast C"
  "SizeOrUnusedBytes (new_header C Orig D U S) = ucast (S AND SizeOrUnusedBytesMask)"
  by (simp_all add: new_header_def)

lemma Available_not_Allocated [simp]: "State_code Available \<noteq> State_code Allocated"
  "State_code Quarantined \<noteq> State_code Allocated" "State_code Available = 0"
  by simp_all

lemma header_tagged_small:
  assumes "unat P < 2 ^ 56"
  shows "getHeaderTaggedPointer cfg P = addHeaderTag cfg P"
  using untag_small [OF assms] by (simp add: getHeaderTaggedPointer_def addHeaderTag_def)

text \<open>\<^verbatim>\<open>initChunk\<close>, for a block of the primary.\<close>

lemma initChunk_primary:
  assumes z: "zimte_isa (CZ cfg)" and C: "C \<noteq> 0"
    and place: "unat B + 16 \<le> unat P" "unat P + unat Size \<le> unat B + unat (getSizeByClassId (size_map cfg) C)"
      "unat B + unat (getSizeByClassId (size_map cfg) C) < 2 ^ 56"
    and init: "initChunk cfg C Orig B P S Fill s = (P', s')"
  shows "P' = P" and "Heap s' = Heap s"
    and "load_header cfg (getHeaderTaggedPointer cfg P) s'
      = Inr (let H = new_header C Orig (B + getHeaderSize) P S
             in H\<lparr>HChecksum := computeHeaderChecksum (CCrc cfg) (HashAlgorithm s) (Cookie s) (addHeaderTag cfg P) H\<rparr>)"
    and "isValid (CCrc cfg) (HashAlgorithm s') (Cookie s') (getHeaderTaggedPointer cfg P) (memory_of s')
      = (True, let H = new_header C Orig (B + getHeaderSize) P S
             in H\<lparr>HChecksum := computeHeaderChecksum (CCrc cfg) (HashAlgorithm s) (Cookie s) (addHeaderTag cfg P) H\<rparr>)"
    and "Fill = ZeroFill \<Longrightarrow> i < Size \<Longrightarrow> mem_byte (memory_of s') (P + i) = 0"
proof -
  have P56: "unat P + unat Size < 2 ^ 56" using place by linarith
  have small: "unat P < 2 ^ 56" "unat B < 2 ^ 56" using place by linarith+
  note tp = header_tagged_small [OF small(1), of cfg]
  have uB: "untagPointer (addHeaderTag cfg B) = B" and uP: "untagPointer (addHeaderTag cfg P) = P"
    using untag_small small by (simp_all add: untag_addHeaderTag [OF z])
  define s1 where "s1 = (if C \<noteq> 0 \<and> Fill \<noteq> NoFill
     then upd_mem (fill_memory (addHeaderTag cfg B) (p_getSizeByClassId (CPrimary cfg) C) (fill_byte Fill)) s else s)"
  define s2 where "s2 = upd_mem (store_marker (addHeaderTag cfg B) (B + getHeaderSize) P) s1"
  define H where "H = new_header C Orig (B + getHeaderSize) P S"
  have r: "P' = P" "s' = store_header cfg (addHeaderTag cfg P) H s2"
    using init unfolding initChunk_def Let_def s1_def s2_def H_def by blast+
  have keep: "HashAlgorithm s2 = HashAlgorithm s" "Cookie s2 = Cookie s" "Heap s2 = Heap s"
    by (simp_all add: s2_def s1_def)
  show "P' = P" "Heap s' = Heap s" using r keep by simp_all
  show "load_header cfg (getHeaderTaggedPointer cfg P) s'
      = Inr (let H = new_header C Orig (B + getHeaderSize) P S
             in H\<lparr>HChecksum := computeHeaderChecksum (CCrc cfg) (HashAlgorithm s) (Cookie s) (addHeaderTag cfg P) H\<rparr>)"
    by (simp add: tp r(2) load_store_header keep H_def Let_def)
  show "isValid (CCrc cfg) (HashAlgorithm s') (Cookie s') (getHeaderTaggedPointer cfg P) (memory_of s')
      = (True, let H = new_header C Orig (B + getHeaderSize) P S
             in H\<lparr>HChecksum := computeHeaderChecksum (CCrc cfg) (HashAlgorithm s) (Cookie s) (addHeaderTag cfg P) H\<rparr>)"
    using isValid_store_header [of cfg s2 "addHeaderTag cfg P" H] by (simp add: tp r(2) keep H_def Let_def)
  show "mem_byte (memory_of s') (P + i) = 0" if "Fill = ZeroFill" "i < Size"
  proof -
    have "unat (P + i - B) = unat P - unat B + unat i"
      by (rule user_byte_offset(1) [where k = 0 and Size = Size]) (use place P56 that in simp_all)
    then have "P + i - B < p_getSizeByClassId (CPrimary cfg) C"
      using place that(2) C by (simp add: word_less_nat_alt p_getSizeByClassId_def BatchClassId_def)
    then have "mem_byte (memory_of s1) (P + i) = 0"
      using that(1) C by (simp add: s1_def byte_filled uB fill_byte_def ZeroFill_def NoFill_def)
    then show ?thesis
      using header_keeps_user_bytes [OF uP _ P56 that(2), of cfg H s2] place
        marker_keeps_user_bytes [OF uB place(1) P56 that(2), of "B + getHeaderSize" P "memory_of s1"]
      by (simp add: r(2) s2_def)
  qed
qed

text \<open>What \<^verbatim>\<open>allocate\<close> does once the primary has a block, without memory tagging.\<close>

lemma allocate_untagged:
  assumes "\<not> useMemoryTagging (CMaySupportMemoryTagging cfg) (load_options s)"
    and "Alignment \<le> MaxAlignment" "Size < MaxAllowedMallocSize" "C \<noteq> 0"
    and "primary_block cfg (NeededSize_of Size (eff_align Alignment)) (Heap s) = Inr (Some B, C, h)"
  shows "scudo_allocate cfg Size Orig Alignment Zero s =
    (let (P, s) = initChunk cfg C Orig B (user_ptr B (eff_align Alignment)) Size
                    (fill_mode (load_options s) Zero s) (s\<lparr>Heap := h\<rparr>)
     in Inr (Some P, s))"
proof -
  have a: "\<not> Alignment > MaxAlignment" "\<not> Size \<ge> MaxAllowedMallocSize" using assms(2,3) by auto
  show ?thesis
    unfolding scudo_allocate_def Let_def if_not_P [OF a(1)] if_not_P [OF a(2)] assms(5) user_ptr_def
    using assms(1,4) by simp
qed

text \<open>C1: When the primary has a block for a request, \<^verbatim>\<open>allocate\<close> returns a chunk (memory tagging
  off): it lies inside the block, which nobody else has, behind the header, aligned as asked; it is
  owned, the size read back from its header is the size asked for, and its bytes are zero when zero
  contents were asked for. The request reaches a class that is big enough, also when larger classes
  had to be tried.\<close>

theorem allocate_returns_chunk:
  assumes "zimte_isa (CZ cfg)" "performSanityChecks cfg = Inr ()"
    and "heap_ok (CPrimary cfg) (Heap s)" "live_blocks (CPrimary cfg) L (Heap s)"
    and "\<not> useMemoryTagging (CMaySupportMemoryTagging cfg) (load_options s)"
    and "isPowerOfTwo Alignment" "Alignment \<le> MaxAlignment" "Size < MaxAllowedMallocSize"
    and "primary_block cfg (NeededSize_of Size (eff_align Alignment)) (Heap s) = Inr (Some B, C, h)"
  shows "\<exists>P s'. scudo_allocate cfg Size Orig Alignment Zero s = Inr (Some P, s') \<and> Heap s' = h
    \<and> heap_ok (CPrimary cfg) h
    \<and> live_blocks (CPrimary cfg) (L(C := add_mset (compactPtr (CPrimary cfg) C B h) (L C))) h
    \<and> compactPtr (CPrimary cfg) C B h \<notin># L C
    \<and> unat (eff_align Alignment) dvd unat P \<and> unat B + 16 \<le> unat P
    \<and> unat P + unat Size \<le> unat B + unat (getSizeByClassId (size_map cfg) C)
    \<and> isOwned cfg P s' \<and> getAllocSize cfg P s' = Inr Size
    \<and> (Zero \<longrightarrow> (\<forall>i < Size. mem_byte (memory_of s') (P + i) = 0))"
proof -
  let ?A = "eff_align Alignment" and ?N = "NeededSize_of Size (eff_align Alignment)"
  have A: "isPowerOfTwo ?A" "16 \<le> unat ?A" "unat ?A \<le> 2 ^ 24"
    using assms(6,7) by (auto simp: MinAlignment_16 MaxAlignment_def word_le_nat_alt word_less_nat_alt isPowerOfTwo_def)
  have S: "unat Size < 2 ^ 40" using assms(8) by (simp add: MaxAllowedMallocSize_def word_less_nat_alt)
  note N = NeededSize_value [OF A(2,3) S]
  have N0: "0 < ?N" using N(3) by (simp add: word_less_nat_alt)
  note rq = primary_block_request [OF assms(3,4) N0 assms(9)]
  have cls: "is_class (CPrimary cfg) C" and live: "live_blocks (CPrimary cfg) (L(C := add_mset (compactPtr (CPrimary cfg) C B h) (L C))) h"
    and new: "compactPtr (CPrimary cfg) C B h \<notin># L C" and placed: "block_placed (CPrimary cfg) C B" and ok: "heap_ok (CPrimary cfg) h"
    and fits: "?N \<le> getSizeByClassId (size_map cfg) C" and mx: "?N \<le> MaxSize (size_map cfg)"
    using rq by (simp_all add: request_done_def)
  have v: "valid_config (size_map cfg)" by (rule primary_valid [OF heap_ok_cfg [OF assms(3)]])
  have C0: "C \<noteq> 0" using cls by (simp add: is_class_def BatchClassId_def)
  have bs: "block_size (CPrimary cfg) C = unat (getSizeByClassId (size_map cfg) C)"
    using cls by (simp add: block_size_def p_getSizeByClassId_def is_class_def)
  have B: "unat B + unat (getSizeByClassId (size_map cfg) C) < 2 ^ 56" "16 dvd unat B"
    using placed by (simp_all add: block_placed_def bs)
  let ?P = "user_ptr B ?A"
  note pl = chunk_in_block [OF A S B fits]
  have mx0: "0 < MaxSize (size_map cfg)" using N0 mx by (rule order.strict_trans2)
  have S20: "unat Size < 2 ^ 20" using N(3) mx sanity_widths(1) [OF assms(2) mx0] by (simp add: word_le_nat_alt)
  obtain P' s' where init: "initChunk cfg C Orig B ?P Size (fill_mode (load_options s) Zero s) (s\<lparr>Heap := h\<rparr>) = (P', s')"
    by fastforce
  note ic = initChunk_primary [OF assms(1) C0 pl(1,2) B(1) init]
  have al: "scudo_allocate cfg Size Orig Alignment Zero s = Inr (Some ?P, s')"
    using allocate_untagged [OF assms(5,7,8) C0 assms(9)] init ic(1) by simp
  have "16 dvd unat ?A"
    using A(1,2) power_dvd_16 [OF A(1)] by (cases "unat ?A = 16") simp_all
  then have "16 dvd unat ?P" using pl(3) dvd_trans by blast
  then have al16: "isAligned ?P MinAlignment"
    using rounding_mask_eq_division [of 16 ?P] by (simp add: MinAlignment_16 isPowerOfTwo_def isAlignedSlow_def word_unat_eq_iff unat_mod)
  have P0: "?P \<noteq> 0" using pl(1) by auto
  have "getAllocSize cfg ?P s' = Inr Size"
    using class_field [OF assms(2) mx0 cls v] size_field [OF S20]
    by (simp add: getAllocSize_def sized_header_def ic(3) Let_def OriginMask_code getSize_def)
  moreover have "isOwned cfg ?P s'"
    using al16 P0 by (simp add: isOwned_def ic(4) Let_def OriginMask_code)
  moreover have "\<forall>i < Size. mem_byte (memory_of s') (?P + i) = 0" if Zero
    using ic(5) that by (simp add: fill_mode_def)
  ultimately show ?thesis using al ok live new pl ic(2) by auto
qed

section \<open>An example\<close>

text \<open>An allocator over the small primary of \<open>PrimaryLife\<close>, whose memory holds 7 everywhere; the
  flag turns memory tagging on.\<close>

definition small_cconfig :: cconfig where
  "small_cconfig = \<lparr>CPrimary = small_config,
     CSecondary = \<lparr>EntriesArraySize = 2, SecQuarantineSize = 0, SecQuarantineDisabled = False,
       DefaultMaxEntriesCount = 2, DefaultMaxEntrySize = 0x1000, SMinReleaseToOsIntervalMs = 0,
       SMaxReleaseToOsIntervalMs = 1000, SDefaultReleaseToOsIntervalMs = 0, EnableGuardPages = True,
       SPageSizeLog = 8, SMaySupportMemoryTagging = True\<rparr>,
     CZ = zimte_ref 5, COs = small_os,
     CSecOs = \<lparr>so_reserve = (\<lambda>_. None), so_remap = (\<lambda>_ _. True), so_now = 0\<rparr>,
     CCrc = (\<lambda>_ _. 0), CLockOk = True, CMaySupportMemoryTagging = True, CSystemSupportsMemoryTagging = True,
     CQuarantineDisabled = False, CExactUsableSize = True, CTid = 1, CTmpAddr = 0\<rparr>"

definition small_scudo :: "bool \<Rightarrow> scudo" where
  "small_scudo tagging = \<lparr>SMem = (\<lparr>mem_byte = (\<lambda>_. 7), mem_tag = (\<lambda>_. 0)\<rparr>, []),
     Heap = (small_heap 2)\<lparr>POptions := (if tagging then opt_set UseMemoryTagging 0 else 0)\<rparr>,
     Second = secondary_init (CSecondary small_cconfig) 0, GlobalQ = \<lparr>QCache = qcache_empty, QMinSize = 0, QMaxSize = 0, QMaxCacheSize = 0, CacheMutex = False,
       RecycleMutex = False\<rparr>, ThreadQ = qcache_empty,
     Cookie = 0x1234, HashAlgorithm = BSD, QuarantineMaxChunkSize = 0, DisableMemInit = False,
     RingBuffer = None, PoolMask = 0\<rparr>"

lemma small_cconfig_primary [simp]: "CPrimary small_cconfig = small_config" "CZ small_cconfig = zimte_ref 5"
  "CMaySupportMemoryTagging small_cconfig = True" "COs small_cconfig = small_os"
  by (simp_all add: small_cconfig_def)

lemma small_sanity: "performSanityChecks small_cconfig = Inr ()"
  by code_simp

lemma heap_ok_options [simp]: "heap_ok cfg (h\<lparr>POptions := x\<rparr>) = heap_ok cfg h"
  "live_blocks cfg L (h\<lparr>POptions := x\<rparr>) = live_blocks cfg L h"
proof -
  have c: "custody cfg A (h\<lparr>POptions := x\<rparr>) = custody cfg A h" for A
    by (rule custody_cong) (simp_all add: batch_inv_def get_class_def getRegionInfo_def)
  show "heap_ok cfg (h\<lparr>POptions := x\<rparr>) = heap_ok cfg h"
    by (simp add: heap_ok_def primary_inv_def list_of_def get_class_def c)
  show "live_blocks cfg L (h\<lparr>POptions := x\<rparr>) = live_blocks cfg L h"
    by (simp add: live_blocks_def carved_blocks_def free_blocks_def cached_def get_class_def getRegionInfo_def)
qed

lemma small_scudo_heap:
  "heap_ok small_config (Heap (small_scudo t))" "live_blocks small_config (\<lambda>_. {#}) (Heap (small_scudo t))"
proof -
  have l: "live_blocks small_config (\<lambda>_. {#}) (small_heap 2)" by (rule small_live) simp
  have k: "heap_ok small_config (small_heap 2)" by (rule small_heap_ok) simp
  show "heap_ok small_config (Heap (small_scudo t))" using k by (simp add: small_scudo_def)
  show "live_blocks small_config (\<lambda>_. {#}) (Heap (small_scudo t))" using l by (simp add: small_scudo_def)
qed

lemma small_request: "NeededSize_of 10 (eff_align 8) = 32" "NeededSize_of 10 16 = 32"
  by (simp_all add: NeededSize_of_def MinAlignment_16 getHeaderSize_16 roundUp_def)

lemma small_class_of_32: "getClassIdBySize (PSizeMap small_config) 32 = 1" "MaxSize (PSizeMap small_config) = 32"
  by code_simp+

lemma small_primary_block:
  "\<exists>h. primary_block small_cconfig 32 (Heap (small_scudo t)) = Inr (Some 0x11020, 1, h)"
  by (simp add: primary_block_def canAllocate_def small_class_of_32 sca_allocate_def cache_allocate_def small_scudo_def
      small_heap_def get_class_def upd_class_def upd_stats_def decompactPtr_def decompactPtrInternal_def
      getRegionInfo_def)
    (simp add: small_config_def)

theorem allocate_returns_chunk_witness:
  "\<exists>P s'. scudo_allocate small_cconfig 10 Malloc 8 True (small_scudo False) = Inr (Some P, s')
    \<and> getAllocSize small_cconfig P s' = Inr 10 \<and> isOwned small_cconfig P s'
    \<and> mem_byte (memory_of s') (P + 9) = 0"
proof -
  obtain h where h: "primary_block small_cconfig (NeededSize_of 10 (eff_align 8)) (Heap (small_scudo False)) = Inr (Some 0x11020, 1, h)"
    using small_primary_block [of False] small_request by auto
  have o: "\<not> useMemoryTagging (CMaySupportMemoryTagging small_cconfig) (load_options (small_scudo False))"
    by (simp add: small_scudo_def load_options_def useMemoryTagging_def opt_get_def)
  have k: "zimte_isa (CZ small_cconfig)" "heap_ok (CPrimary small_cconfig) (Heap (small_scudo False))"
    "live_blocks (CPrimary small_cconfig) (\<lambda>_. {#}) (Heap (small_scudo False))"
    using zimte_isa_ref small_scudo_heap [of False] by simp_all
  have n: "isPowerOfTwo 8" "8 \<le> MaxAlignment" "10 < MaxAllowedMallocSize"
    by (simp_all add: MaxAlignment_def MaxAllowedMallocSize_def isPowerOfTwo_def)
  obtain P s' where "scudo_allocate small_cconfig 10 Malloc 8 True (small_scudo False) = Inr (Some P, s')"
      "isOwned small_cconfig P s'" "getAllocSize small_cconfig P s' = Inr 10"
      "\<forall>i < 10. mem_byte (memory_of s') (P + i) = 0"
    using allocate_returns_chunk [OF k(1) small_sanity k(2,3) o n h, of Malloc True] by blast
  moreover have "(9 :: uptr) < 10" by simp
  ultimately show ?thesis by blast
qed

section \<open>Chunks with memory tagging\<close>

lemma storeTags_bytes:
  assumes "zimte_isa z" "unat Begin mod 2 ^ 56 + 16 * ((unat Size + 15) div 16) < 2 ^ 56"
  shows "\<exists>m'. storeTags z Begin (Begin + Size) m = Some (Begin + Size, m') \<and> mem_byte m' = mem_byte m"
proof -
  have "unat Size \<le> 16 * ((unat Size + 15) div 16)" by linarith
  then have "unat Begin mod 2 ^ 56 + unat Size < 2 ^ 56" using assms(2) by linarith
  then have "unat (Begin + Size) = unat Begin + unat Size" by (rule tagged_add)
  then have n: "(unat Size + 15) div 16 = (unat (Begin + Size) - unat Begin + 15) div 16" by simp
  show ?thesis unfolding storeTags_def using storeTags_loop_spec [OF assms(1) extractTag_less n assms(2)] by simp
qed

lemma storeTag_byte: "zimte_isa z \<Longrightarrow> mem_byte (storeTag z p m) = mem_byte m"
  by (simp add: storeTag_def settag_apply)

lemma storeEndMarker_byte:
  "zimte_isa (CZ cfg) \<Longrightarrow> Size \<noteq> 0 \<Longrightarrow> mem_byte (storeEndMarker cfg End Size BlockEnd m) = mem_byte m"
  by (simp add: storeEndMarker_def Let_def storeTag_byte)

lemma prepareTaggedChunk_ok:
  assumes z: "zimte_isa (CZ cfg)" and b: "unat P + 16 * ((unat Size + 15) div 16) < 2 ^ 56"
  shows "\<exists>m'. prepareTaggedChunk cfg P Size M BlockEnd m = Inr (selectRandomTag (CZ cfg) P M, m')
    \<and> (Size \<noteq> 0 \<longrightarrow> mem_byte m' = mem_byte m)"
proof -
  let ?T = "selectRandomTag (CZ cfg) P M"
  have "untagPointer P = P" using b by (intro untag_small) simp
  then have "unat ?T mod 2 ^ 56 = unat P"
    using gentag_untag [OF z, of P M] unat_untagPointer [of ?T] by simp
  then obtain m' where m': "storeTags (CZ cfg) ?T (?T + Size) (storeTag (CZ cfg) (P - archMemoryTagGranuleSize) m) = Some (?T + Size, m')"
    "mem_byte m' = mem_byte m"
    using storeTags_bytes [OF z, of ?T Size "storeTag (CZ cfg) (P - archMemoryTagGranuleSize) m"] b storeTag_byte [OF z] by auto
  then show ?thesis
    using storeEndMarker_byte [OF z] by (simp add: prepareTaggedChunk_def setRandomTag_def Let_def)
qed

text \<open>\<^verbatim>\<open>loadTag\<close> returns its argument, so the tag of an earlier chunk is never reused.\<close>

lemma tagged_primary_chunk_prepares:
  "tagged_primary_chunk cfg C B P Size Fill s =
    bindE (prepareTaggedChunk cfg P Size (computeOddEvenMaskForPointerMaybe cfg (load_options s) B C)
      (B + p_getSizeByClassId (CPrimary cfg) C) (memory_of s)) (\<lambda>(T, m). Inr (T, upd_mem (\<lambda>_. m) s))"
  by (simp add: tagged_primary_chunk_def loadTag_def Let_def split: prod.splits)

lemma trace_keeps_user_bytes:
  assumes "16 \<le> unat P" "unat P + unat Size < 2 ^ 56" "i < Size"
  shows "mem_byte (store_trace P T U m) (P + i) = mem_byte m (P + i)"
proof -
  have k: "\<not> P + i - untagPointer (P - k) < 4" if "k = 8 \<or> k = 4" for k
  proof -
    have "untagPointer P = P" using assms(2) by (intro untag_small) simp
    then have u: "untagPointer (P - k) = P - k" using assms(1) that by (subst untag_diff) auto
    have "unat (P - k) + 4 \<le> unat P"
      using assms(1) that by (auto simp: unat_sub word_le_nat_alt)
    moreover from this assms(2) have "unat (P - k) + 4 = unat (P - k + of_nat 4)"
      using unat_add_small [of "P - k" 4] by simp
    ultimately have "\<not> P + i - (P - k) < of_nat 4" using assms(2,3) by (intro user_byte_offset)
    then show ?thesis by (simp add: u)
  qed
  then show ?thesis by (simp add: store_trace_def byte_unchanged)
qed

lemma initTagged_primary:
  fixes s :: scudo and S :: uptr and Orig :: Origin
  assumes z: "zimte_isa (CZ cfg)" and C: "C \<noteq> 0"
    and place: "unat B + 16 \<le> unat P" "unat P + 16 * ((unat Size + 15) div 16) < 2 ^ 56"
  defines "T \<equiv> selectRandomTag (CZ cfg) P (computeOddEvenMaskForPointerMaybe cfg (load_options s) B C)"
    and "H \<equiv> new_header C Orig (B + getHeaderSize) P S"
  shows "\<exists>s2 s'. initChunkWithMemoryTagging cfg C Orig B P Size S Fill s = Inr (T, s') \<and> Heap s' = Heap s
    \<and> s' = store_header cfg P H s2 \<and> HashAlgorithm s' = HashAlgorithm s \<and> Cookie s' = Cookie s
    \<and> untagPointer T = P \<and> (\<forall>i < Size. mem_byte (memory_of s') (P + i) = mem_byte (memory_of s) (P + i))"
proof -
  have P56: "unat P + unat Size < 2 ^ 56" using place(2) by linarith
  then have uP: "untagPointer P = P" by (intro untag_small) simp
  have uB: "untagPointer B = B" using place by (intro untag_small) linarith
  obtain m1 where m1: "prepareTaggedChunk cfg P Size (computeOddEvenMaskForPointerMaybe cfg (load_options s) B C)
      (B + p_getSizeByClassId (CPrimary cfg) C) (memory_of s) = Inr (T, m1)"
    "Size \<noteq> 0 \<longrightarrow> mem_byte m1 = mem_byte (memory_of s)"
    using prepareTaggedChunk_ok [OF z place(2)] unfolding T_def by blast
  define s1 where "s1 = storePrimaryAllocationStackMaybe cfg (load_options s) P (upd_mem (\<lambda>_. m1) s)"
  define s2 where "s2 = upd_mem (store_marker B (B + getHeaderSize) P) s1"
  have s1: "Heap s1 = Heap s" "HashAlgorithm s1 = HashAlgorithm s" "Cookie s1 = Cookie s"
    by (simp_all add: s1_def storePrimaryAllocationStackMaybe_def split: option.splits)
  have init: "initChunkWithMemoryTagging cfg C Orig B P Size S Fill s = Inr (T, store_header cfg P H s2)"
    using C by (simp add: initChunkWithMemoryTagging_def tagged_primary_chunk_prepares m1(1) Let_def s1_def s2_def H_def)
  have keep: "mem_byte (memory_of (store_header cfg P H s2)) (P + i) = mem_byte (memory_of s) (P + i)" if i: "i < Size" for i
  proof -
    have P16: "16 \<le> unat P" using place(1) by linarith
    have "mem_byte (memory_of (store_header cfg P H s2)) (P + i) = mem_byte (memory_of s1) (P + i)"
      using header_keeps_user_bytes [OF uP P16 P56 i] marker_keeps_user_bytes [OF uB place(1) P56 i] by (simp add: s2_def)
    also have "\<dots> = mem_byte m1 (P + i)"
      using trace_keeps_user_bytes [OF P16 P56 i] by (simp add: s1_def storePrimaryAllocationStackMaybe_def split: option.splits)
    finally show ?thesis using m1(2) i by auto
  qed
  have "untagPointer T = P" using gentag_untag [OF z] uP by (simp add: T_def)
  then show ?thesis using init keep s1 by (auto simp: s2_def)
qed

text \<open>The checksum of a header depends on the tag of the pointer it is computed for.\<close>

lemma untag_eq_bytes:
  assumes "untagPointer p = untagPointer q" "p \<noteq> q"
  shows "data_byte 7 p \<noteq> data_byte 7 q" "i < 7 \<Longrightarrow> data_byte i p = data_byte i q"
proof -
  have u: "bit p n = bit q n" if "n < 56" for n
    using assms(1) that by (metis bit_take_bit_iff untagPointer_take)
  show "data_byte i p = data_byte i q" if "i < 7"
    using that by (intro bit_word_eqI) (auto simp: data_byte_def bit_simps intro!: u)
  show "data_byte 7 p \<noteq> data_byte 7 q"
  proof
    assume e: "data_byte 7 p = data_byte 7 q"
    have "bit p n = bit q n" if n: "n < LENGTH(64)" for n
    proof (cases "n < 56")
      case False
      have "bit (data_byte 7 p) (n - 56) = bit (data_byte 7 q) (n - 56)" by (simp only: e)
      moreover have "n - 56 < 8" using n by simp
      ultimately show ?thesis using False n by (simp add: data_byte_def bit_simps)
    qed (rule u)
    then have "p = q" by (rule bit_word_eqI)
    then show False using assms(2) by simp
  qed
qed

lemma BSD_pointer_byte:
  assumes "untagPointer p = untagPointer q" "p \<noteq> q"
  shows "computeHeaderChecksum crc BSD ck p H \<noteq> computeHeaderChecksum crc BSD ck q H"
proof -
  have "computeBSDChecksum (ucast ck) p \<noteq> computeBSDChecksum (ucast ck) q"
    using untag_eq_bytes [OF assms] by (intro computeBSD_one_byte [of 7]) simp_all
  then show ?thesis unfolding header_checksum_BSD using computeBSD_inj by blast
qed

text \<open>The tag 2 that marks header accesses changes any pointer.\<close>

lemma addtag_moves: "zimte_isa z \<Longrightarrow> builtin_addtag z p 2 \<noteq> p"
proof
  assume z: "zimte_isa z" and e: "builtin_addtag z p 2 = p"
  have "unat (pointer_tag (tag_lsb z) p) = unat (pointer_tag (tag_lsb z) p + 2) mod 16"
    using addtag_tag [OF z, of 2 p] unfolding e by (simp add: unat_and_f [symmetric])
  moreover have l: "unat (pointer_tag (tag_lsb z) p) < 16" by (simp add: unat_pointer_tag)
  ultimately have "unat (pointer_tag (tag_lsb z) p) = (unat (pointer_tag (tag_lsb z) p) + 2) mod 16"
    by (subst (asm) unat_add_small) simp_all
  then show False using l by presburger
qed

lemma load_u64_untag: "untagPointer p = untagPointer q \<Longrightarrow> load_u64 m p = load_u64 m q"
  by (simp add: load_u64_def)

text \<open>A header read through a pointer with another tag than it was stored with.\<close>

lemma wrong_tag_rejected:
  assumes "untagPointer p = untagPointer q" "p \<noteq> q" "16 \<le> unat (untagPointer p)"
    and "HashAlgorithm s = BSD"
  shows "\<exists>w. load_header cfg q (store_header cfg p H s) = Inl (HeaderCorruption w q)"
proof -
  let ?h = "H\<lparr>HChecksum := computeHeaderChecksum (CCrc cfg) BSD (Cookie s) p H\<rparr>"
  have "untagPointer (getAtomicHeader p) = untagPointer (getAtomicHeader q)"
    using assms(1,3) unfolding getAtomicHeader_def getHeaderSize_16 by (subst (1 2) untag_diff) simp_all
  then have l: "load_u64 m (getAtomicHeader q) = load_u64 m (getAtomicHeader p)" for m by (metis load_u64_untag)
  have "computeHeaderChecksum (CCrc cfg) BSD (Cookie s) q ?h = computeHeaderChecksum (CCrc cfg) BSD (Cookie s) q H"
    by (simp add: computeHeaderChecksum_def)
  then have "HChecksum ?h \<noteq> computeHeaderChecksum (CCrc cfg) BSD (Cookie s) q ?h"
    using BSD_pointer_byte [OF assms(1,2)] by simp
  then show ?thesis
    by (simp add: load_header_def loadHeader_def store_header_def storeHeader_def upd_mem_def assms(4) Let_def l)
qed

text \<open>\<^verbatim>\<open>allocate\<close> once the primary has a block, with memory tagging.\<close>

lemma allocate_tagged:
  assumes "useMemoryTagging (CMaySupportMemoryTagging cfg) (load_options s)"
    and "Alignment \<le> MaxAlignment" "Size < MaxAllowedMallocSize" "C \<noteq> 0"
    and "primary_block cfg (NeededSize_of Size (eff_align Alignment)) (Heap s) = Inr (Some B, C, h)"
  shows "scudo_allocate cfg Size Orig Alignment Zero s =
    bindE (initChunkWithMemoryTagging cfg C Orig B (user_ptr B (eff_align Alignment)) Size Size
             (fill_mode (load_options s) Zero s) (s\<lparr>Heap := h\<rparr>)) (\<lambda>(P, s). Inr (Some P, s))"
proof -
  have a: "\<not> Alignment > MaxAlignment" "\<not> Size \<ge> MaxAllowedMallocSize" using assms(2,3) by auto
  show ?thesis
    unfolding scudo_allocate_def Let_def if_not_P [OF a(1)] if_not_P [OF a(2)] assms(5) user_ptr_def
    using assms(1,4) by simp
qed

text \<open>C21: With memory tagging, \<^verbatim>\<open>allocate\<close> of a chunk of the primary returns the address of the
  chunk with the tag \<^verbatim>\<open>gentag\<close> gave it and leaves the bytes of the new chunk as they were, whether zero contents were asked for or not: \<^verbatim>\<open>initChunkWithMemoryTagging\<close> relies on
  \<^verbatim>\<open>storeTags\<close> to clear memory, which the Zimte version does not do (\<^verbatim>\<open>settag\<close> changes tags only).
  A chunk whose tag is not zero has a header that reads back with the size asked for. With tag
  zero, which \<^verbatim>\<open>selectRandomTag\<close> does not exclude, and the BSD checksum, freeing the chunk is
  reported as a corrupted header: the header is stored for the bare pointer and looked for
  through the pointer with the header tag.\<close>

theorem tagged_allocate_keeps_contents:
  assumes "zimte_isa (CZ cfg)" "performSanityChecks cfg = Inr ()"
    and "heap_ok (CPrimary cfg) (Heap s)" "live_blocks (CPrimary cfg) L (Heap s)"
    and "useMemoryTagging (CMaySupportMemoryTagging cfg) (load_options s)"
    and "isPowerOfTwo Alignment" "Alignment \<le> MaxAlignment" "Size < MaxAllowedMallocSize"
    and "primary_block cfg (NeededSize_of Size (eff_align Alignment)) (Heap s) = Inr (Some B, C, h)"
  shows "\<exists>P s'. scudo_allocate cfg Size Orig Alignment Zero s = Inr (Some P, s')
    \<and> P = builtin_gentag (CZ cfg) (user_ptr B (eff_align Alignment))
    \<and> untagPointer P = user_ptr B (eff_align Alignment)
    \<and> (\<forall>i < Size. mem_byte (memory_of s') (untagPointer P + i) = mem_byte (memory_of s) (untagPointer P + i))
    \<and> (if P \<noteq> untagPointer P then getAllocSize cfg P s' = Inr Size
       else HashAlgorithm s = BSD \<longrightarrow>
         (\<exists>w. scudo_deallocate cfg P Orig' DeleteSize s' = Inl (HeaderCorruption w (addHeaderTag cfg P))))"
proof -
  let ?A = "eff_align Alignment" and ?N = "NeededSize_of Size (eff_align Alignment)"
  have A: "isPowerOfTwo ?A" "16 \<le> unat ?A" "unat ?A \<le> 2 ^ 24"
    using assms(6,7) by (auto simp: MinAlignment_16 MaxAlignment_def word_le_nat_alt word_less_nat_alt isPowerOfTwo_def)
  have S: "unat Size < 2 ^ 40" using assms(8) by (simp add: MaxAllowedMallocSize_def word_less_nat_alt)
  note N = NeededSize_value [OF A(2,3) S]
  have N0: "0 < ?N" using N(3) by (simp add: word_less_nat_alt)
  note rq = primary_block_request [OF assms(3,4) N0 assms(9)]
  have cls: "is_class (CPrimary cfg) C" and placed: "block_placed (CPrimary cfg) C B"
    and fits: "?N \<le> getSizeByClassId (size_map cfg) C" and mx: "?N \<le> MaxSize (size_map cfg)"
    using rq by (simp_all add: request_done_def)
  have v: "valid_config (size_map cfg)" by (rule primary_valid [OF heap_ok_cfg [OF assms(3)]])
  have C0: "C \<noteq> 0" using cls by (simp add: is_class_def BatchClassId_def)
  have bs: "block_size (CPrimary cfg) C = unat (getSizeByClassId (size_map cfg) C)"
    using cls by (simp add: block_size_def p_getSizeByClassId_def is_class_def)
  have B: "unat B + unat (getSizeByClassId (size_map cfg) C) < 2 ^ 56" "16 dvd unat B"
    using placed by (simp_all add: block_placed_def bs)
  let ?P = "user_ptr B ?A"
  note pl = chunk_in_block [OF A S B fits]
  have mx0: "0 < MaxSize (size_map cfg)" using N0 mx by (rule order.strict_trans2)
  have S20: "unat Size < 2 ^ 20" using N(3) mx sanity_widths(1) [OF assms(2) mx0] by (simp add: word_le_nat_alt)
  have "16 dvd unat ?A" using A(1,2) power_dvd_16 [OF A(1)] by (cases "unat ?A = 16") simp_all
  then have d16: "16 dvd unat ?P" using pl(3) dvd_trans by blast
  have "16 dvd block_size (CPrimary cfg) C"
    using ok_size(4) [OF heap_ok_cfg [OF assms(3)]] cls by (simp add: is_class_def)
  then have "16 dvd unat B + unat (getSizeByClassId (size_map cfg) C) - unat ?P"
    using B(2) d16 by (intro dvd_diff_nat) (simp_all add: bs)
  then have "16 * ((unat Size + 15) div 16) \<le> unat B + unat (getSizeByClassId (size_map cfg) C) - unat ?P"
    using pl(2) by (elim dvdE) simp
  then have room: "unat ?P + 16 * ((unat Size + 15) div 16) < 2 ^ 56" using B(1) pl(2) by linarith
  obtain P s2 s' where
    init: "initChunkWithMemoryTagging cfg C Orig B ?P Size Size (fill_mode (load_options s) Zero s) (s\<lparr>Heap := h\<rparr>) = Inr (P, s')"
    and s': "s' = store_header cfg ?P (new_header C Orig (B + getHeaderSize) ?P Size) s2" "HashAlgorithm s' = HashAlgorithm s"
    and uP: "untagPointer P = ?P" and gP: "P = builtin_gentag (CZ cfg) ?P"
    and keep: "\<forall>i < Size. mem_byte (memory_of s') (?P + i) = mem_byte (memory_of s) (?P + i)"
    using initTagged_primary [OF assms(1) C0 pl(1) room,
        where s = "s\<lparr>Heap := h\<rparr>" and Orig = Orig and S = Size and Fill = "fill_mode (load_options s) Zero s"]
    unfolding selectRandomTag_def by auto
  have al: "scudo_allocate cfg Size Orig Alignment Zero s = Inr (Some P, s')"
    using allocate_tagged [OF assms(5,7,8) C0 assms(9)] init by simp
  have built: "tagging_built cfg" using assms(5) by (simp add: useMemoryTagging_def)
  have "getAllocSize cfg P s' = Inr Size" if "P \<noteq> untagPointer P"
    using class_field [OF assms(2) mx0 cls v] size_field [OF S20] that built
    by (simp add: getAllocSize_def sized_header_def getHeaderTaggedPointer_def Let_def uP s'(1) load_store_header
        OriginMask_code getSize_def)
  moreover have "\<exists>w. scudo_deallocate cfg P Orig' DeleteSize s' = Inl (HeaderCorruption w (addHeaderTag cfg P))"
    if "P = untagPointer P" "HashAlgorithm s = BSD"
  proof -
    have P: "P = ?P" using that uP by simp
    have "isAligned ?P MinAlignment"
      using d16 rounding_mask_eq_division [of 16 ?P]
      by (simp add: MinAlignment_16 isPowerOfTwo_def isAlignedSlow_def word_unat_eq_iff unat_mod)
    moreover have "?P \<noteq> 0" using pl(1) by auto
    moreover have h: "addHeaderTag cfg ?P = builtin_addtag (CZ cfg) ?P 2"
      using built by (simp add: addHeaderTag_def addFixedTag_def addTagImmediate_def)
    have u: "untagPointer ?P = ?P" using that P by simp
    have "?P \<noteq> addHeaderTag cfg ?P" unfolding h by (rule not_sym [OF addtag_moves [OF assms(1)]])
    moreover have "HashAlgorithm s2 = BSD" using s' that(2) by simp
    moreover have "16 \<le> unat (untagPointer ?P)" using pl(1) u by simp
    ultimately show ?thesis
      using wrong_tag_rejected [of ?P "addHeaderTag cfg ?P" s2 cfg "new_header C Orig (B + getHeaderSize) ?P Size"] u s'
        untag_addHeaderTag [OF assms(1), of ?P] built
      by (auto simp: scudo_deallocate_def P Let_def getHeaderTaggedPointer_def)
  qed
  ultimately show ?thesis using al uP keep gP by auto
qed

lemma retry_larger_CZ: "retry_larger_classes (cfg\<lparr>CZ := z\<rparr>) C h = retry_larger_classes cfg C h"
proof (induction cfg C h rule: retry_larger_classes.induct)
  case (1 cfg C h)
  then show ?case
    by (subst (1 2) retry_larger_classes.simps) (auto split: sum.split option.split)
qed

lemma primary_block_CZ: "primary_block (cfg\<lparr>CZ := z\<rparr>) N h = primary_block cfg N h"
  by (simp add: primary_block_def retry_larger_CZ Let_def cong: if_cong)

text \<open>The small allocator with an instance of the instructions that gives every pointer the tag \<open>T\<close>.\<close>

lemma small_tagged_hypotheses:
  fixes T :: uptr
  defines "cfg \<equiv> small_cconfig\<lparr>CZ := zimte_ref T\<rparr>"
  shows "zimte_isa (CZ cfg)" "performSanityChecks cfg = Inr ()"
    "heap_ok (CPrimary cfg) (Heap (small_scudo True))" "live_blocks (CPrimary cfg) (\<lambda>_. {#}) (Heap (small_scudo True))"
    "useMemoryTagging (CMaySupportMemoryTagging cfg) (load_options (small_scudo True))"
    "\<exists>h. primary_block cfg (NeededSize_of 10 (eff_align 8)) (Heap (small_scudo True)) = Inr (Some 0x11020, 1, h)"
proof -
  show "zimte_isa (CZ cfg)" by (simp add: cfg_def zimte_isa_ref)
  have "performSanityChecks cfg = performSanityChecks small_cconfig" by (simp add: performSanityChecks_def cfg_def)
  then show "performSanityChecks cfg = Inr ()" by (simp only: small_sanity)
  show "heap_ok (CPrimary cfg) (Heap (small_scudo True))" "live_blocks (CPrimary cfg) (\<lambda>_. {#}) (Heap (small_scudo True))"
    using small_scudo_heap [of True] by (simp_all add: cfg_def)
  show "useMemoryTagging (CMaySupportMemoryTagging cfg) (load_options (small_scudo True))"
    by (simp add: cfg_def small_scudo_def load_options_def useMemoryTagging_def opt_get_def opt_set_def
      allocatorSupportsMemoryTagging_def archSupportsMemoryTagging_def archMemoryTagGranuleSize_def
      SCUDO_MIN_ALIGNMENT_LOG_def)
  show "\<exists>h. primary_block cfg (NeededSize_of 10 (eff_align 8)) (Heap (small_scudo True)) = Inr (Some 0x11020, 1, h)"
    using small_primary_block [of True] by (simp add: small_request cfg_def primary_block_CZ)
qed

theorem tagged_allocate_keeps_contents_witness:
  "(\<exists>P s'. scudo_allocate (small_cconfig\<lparr>CZ := zimte_ref 5\<rparr>) 10 Malloc 8 True (small_scudo True) = Inr (Some P, s')
     \<and> mem_byte (memory_of s') (untagPointer P + 9) = 7
     \<and> getAllocSize (small_cconfig\<lparr>CZ := zimte_ref 5\<rparr>) P s' = Inr 10)
   \<and> (\<exists>P s' w. scudo_allocate (small_cconfig\<lparr>CZ := zimte_ref 0\<rparr>) 10 Malloc 8 True (small_scudo True) = Inr (Some P, s')
     \<and> scudo_deallocate (small_cconfig\<lparr>CZ := zimte_ref 0\<rparr>) P Malloc 0 s'
         = Inl (HeaderCorruption w (addHeaderTag (small_cconfig\<lparr>CZ := zimte_ref 0\<rparr>) P)))"
proof (rule conjI)
  have n: "isPowerOfTwo 8" "8 \<le> MaxAlignment" "10 < MaxAllowedMallocSize"
    by (simp_all add: MaxAlignment_def MaxAllowedMallocSize_def isPowerOfTwo_def)
  have u: "user_ptr 0x11020 (eff_align 8) = 0x11030" by code_simp
  have m: "mem_byte (memory_of (small_scudo True)) x = 7" for x by (simp add: small_scudo_def)
  have nine: "(9 :: uptr) < 10" by simp
  let ?c = "small_cconfig\<lparr>CZ := zimte_ref 5\<rparr>" and ?d = "small_cconfig\<lparr>CZ := zimte_ref 0\<rparr>"
  have g: "builtin_gentag (CZ ?c) 0x11030 = 0x5000000000011030" "untagPointer 0x5000000000011030 = 0x11030"
    "builtin_gentag (CZ ?d) 0x11030 = 0x11030" "untagPointer 0x11030 = 0x11030"
    by (simp_all add: zimte_ref_def with_tag_def untagPointer_def)
  obtain h where h: "primary_block ?c (NeededSize_of 10 (eff_align 8)) (Heap (small_scudo True)) = Inr (Some 0x11020, 1, h)"
    using small_tagged_hypotheses(6) by blast
  note t = tagged_allocate_keeps_contents [OF small_tagged_hypotheses(1-5) n h, of Malloc True, unfolded u g]
  show "\<exists>P s'. scudo_allocate ?c 10 Malloc 8 True (small_scudo True) = Inr (Some P, s')
     \<and> mem_byte (memory_of s') (untagPointer P + 9) = 7 \<and> getAllocSize ?c P s' = Inr 10"
    using t m nine g(2) by (auto dest: spec [of _ 9])
  obtain h' where h': "primary_block ?d (NeededSize_of 10 (eff_align 8)) (Heap (small_scudo True)) = Inr (Some 0x11020, 1, h')"
    using small_tagged_hypotheses(6) by blast
  have b: "HashAlgorithm s = BSD" if "HashAlgorithm s = HashAlgorithm (small_scudo True)" for s
    using that by (simp add: small_scudo_def)
  note t' = tagged_allocate_keeps_contents [OF small_tagged_hypotheses(1-5) n h', of Malloc True Malloc 0, unfolded u g]
  show "\<exists>P s' w. scudo_allocate ?d 10 Malloc 8 True (small_scudo True) = Inr (Some P, s')
     \<and> scudo_deallocate ?d P Malloc 0 s' = Inl (HeaderCorruption w (addHeaderTag ?d P))"
    using t' g(4) b [OF refl] by auto
qed

end
