(* ===== verification/AllocatorMisuse.thy ===== *)
theory AllocatorMisuse
  imports AllocatorSafe
begin

text \<open>
  Misuse of the combined allocator ends in a report: a chunk of the primary that was freed is
  reported when it is freed, resized or sized again, whether it went through the quarantine or
  not and whatever happened to its pages in between. The argument follows the byte of the
  chunk's header that holds the state: what is written after the header was marked either clears
  bytes or is the header of another chunk, and neither makes the state read as
  \<^verbatim>\<open>Allocated\<close>. The last part is about resizing in place.
\<close>

unbundle bit_operations_syntax

section \<open>The state field of a header in memory\<close>

lemma state_byte: "HState (unpack_header (load_u64 m p)) = ucast (mem_byte m (untagPointer p + 1))"
proof -
  have "HState (unpack_header w) = ucast (data_byte 1 w)" for w
    by (rule bit_word_eqI) (auto simp: unpack_header_def data_byte_def bit_simps)
  then show ?thesis using data_byte_load [of 1 m p] by simp
qed

text \<open>Memory in which bytes were at most cleared.\<close>

definition only_cleared :: "memory \<Rightarrow> memory \<Rightarrow> bool" where
  "only_cleared m m' \<longleftrightarrow> (\<forall>a. mem_byte m' a = mem_byte m a \<or> mem_byte m' a = 0)"

named_theorems cleared

lemma only_cleared_refl [cleared]: "mem_byte m' = mem_byte m \<Longrightarrow> only_cleared m m'"
  by (simp add: only_cleared_def)

lemma only_cleared_trans: "only_cleared m m' \<Longrightarrow> only_cleared m' m'' \<Longrightarrow> only_cleared m m''"
  unfolding only_cleared_def by metis

lemma only_cleared_release: "only_cleared (fst mc) (fst (fold (\<lambda>(From, Size). sec_release From Size) rs mc))"
proof (induction rs arbitrary: mc)
  case Nil
  show ?case by (simp add: only_cleared_def)
next
  case (Cons r rs)
  have "only_cleared (fst mc) (fst ((\<lambda>(From, Size). sec_release From Size) r mc))"
    by (cases r; cases mc) (simp add: sec_release_def zero_pages_def only_cleared_def)
  from only_cleared_trans [OF this Cons.IH] show ?case by simp
qed

lemma cleared_state:
  assumes "only_cleared m m'" "HState (unpack_header (load_u64 m p)) \<noteq> State_code Allocated"
  shows "HState (unpack_header (load_u64 m' p)) \<noteq> State_code Allocated"
  using assms by (auto simp: state_byte only_cleared_def dest: spec [of _ "untagPointer p + 1"])

section \<open>Retagging changes no byte\<close>

lemma storeTags_loop_byte:
  assumes "zimte_isa z" "storeTags_loop z T P End m = Some m'"
  shows "mem_byte m' = mem_byte m"
proof -
  have "zimte_isa z \<longrightarrow> mem_byte m' = mem_byte m"
    by (rule storeTags_loop.raw_induct [OF _ assms(2)]) (auto split: if_splits simp: settag_apply)
  then show ?thesis using assms(1) by blast
qed

lemma setRandomTag_byte:
  assumes "zimte_isa z" "setRandomTag z P Size M m = Some (b, e, m')"
  shows "mem_byte m' = mem_byte m"
  using assms(2) storeTags_loop_byte [OF assms(1)]
  by (auto simp: setRandomTag_def storeTags_def Let_def split: option.splits)

lemma storeDeallocationStackMaybe_simps [simp]:
  "memory_of (storeDeallocationStackMaybe cfg Opts P T Size s) = memory_of s"
  "DisableMemInit (storeDeallocationStackMaybe cfg Opts P T Size s) = DisableMemInit s"
  by (simp_all add: storeDeallocationStackMaybe_def split: option.splits)

lemma retagBlock_primary_byte:
  assumes "zimte_isa (CZ cfg)" "HClassId H \<noteq> 0" "retagBlock cfg Opts TP P H Size By s = Inr (P', B, s')"
  shows "mem_byte (memory_of s') = mem_byte (memory_of s)"
  using assms(2,3) setRandomTag_byte [OF assms(1)]
  by (fastforce simp: retagBlock_def Let_def bindE_eq_Inr split: option.splits if_splits)

section \<open>Freed chunks\<close>

text \<open>The header in front of a pointer says that the chunk is not allocated.\<close>

definition header_freed :: "cconfig \<Rightarrow> uptr \<Rightarrow> scudo \<Rightarrow> bool" where
  "header_freed cfg P s \<longleftrightarrow>
     HState (unpack_header (load_u64 (memory_of s) (getAtomicHeader (getHeaderTaggedPointer cfg P))))
       \<noteq> State_code Allocated"

definition rejected :: "AllocatorAction \<Rightarrow> uptr \<Rightarrow> 'a result \<Rightarrow> bool" where
  "rejected act P r \<longleftrightarrow> r = Inl (InvalidChunkState act P) \<or> (\<exists>w. r = Inl (HeaderCorruption w P))"

lemma freed_load:
  assumes "header_freed cfg P s"
  shows "(\<exists>w. load_header cfg (getHeaderTaggedPointer cfg P) s = Inl (HeaderCorruption w (getHeaderTaggedPointer cfg P)))
    \<or> (\<exists>H. load_header cfg (getHeaderTaggedPointer cfg P) s = Inr H \<and> HState H \<noteq> State_code Allocated)"
  using assms by (simp add: load_header_def loadHeader_def header_freed_def Let_def)

lemma freed_rejected:
  assumes "header_freed cfg P s"
  shows "P \<noteq> 0 \<Longrightarrow> isAligned P MinAlignment \<Longrightarrow>
      rejected Deallocating (getHeaderTaggedPointer cfg P) (scudo_deallocate cfg P Orig DeleteSize s)"
    and "isAligned (getHeaderTaggedPointer cfg P) MinAlignment \<Longrightarrow> NewSize < MaxAllowedMallocSize \<Longrightarrow>
      rejected Reallocating (getHeaderTaggedPointer cfg P) (scudo_reallocate cfg P NewSize Alignment s)"
    and "rejected Sizing (getHeaderTaggedPointer cfg P) (getAllocSize cfg P s)"
    and "\<not> isOwned cfg P s"
proof -
  note l = freed_load [OF assms]
  show "rejected Deallocating (getHeaderTaggedPointer cfg P) (scudo_deallocate cfg P Orig DeleteSize s)"
    if "P \<noteq> 0" "isAligned P MinAlignment"
    using l that by (auto simp: scudo_deallocate_def rejected_def Let_def)
  show "rejected Reallocating (getHeaderTaggedPointer cfg P) (scudo_reallocate cfg P NewSize Alignment s)"
    if "isAligned (getHeaderTaggedPointer cfg P) MinAlignment" "NewSize < MaxAllowedMallocSize"
    using l that by (auto simp: scudo_reallocate_def rejected_def Let_def not_le)
  show "rejected Sizing (getHeaderTaggedPointer cfg P) (getAllocSize cfg P s)"
    using l by (auto simp: getAllocSize_def sized_header_def rejected_def Let_def)
  show "\<not> isOwned cfg P s"
    using assms by (simp add: isOwned_def isValid_def header_freed_def Let_def)
qed

lemma store_header_freed:
  "HState H \<noteq> State_code Allocated \<Longrightarrow> header_freed cfg P (store_header cfg (getHeaderTaggedPointer cfg P) H s)"
  by (simp add: header_freed_def store_header_def storeHeader_def Let_def)

lemma cleared_freed:
  "header_freed cfg P s \<Longrightarrow> only_cleared (memory_of s) (memory_of s') \<Longrightarrow> header_freed cfg P s'"
  unfolding header_freed_def by (rule cleared_state)

lemma heap_deallocate_memory: "heap_deallocate cfg C B s = Inr (d, s') \<Longrightarrow> SMem s' = SMem s"
  by (auto simp: heap_deallocate_def bindE_eq_Inr)

lemma primary_tryReleaseToOS_cleared:
  "only_cleared (memory_of s) (memory_of (primary_tryReleaseToOS cfg C R s))"
  using only_cleared_release [of "SMem s"] by (simp add: primary_tryReleaseToOS_def split: prod.splits)

text \<open>Freeing without the quarantine leaves a header that says so.\<close>

lemma bypass_frees_header:
  assumes "zimte_isa (CZ cfg)" "bypass_quarantine cfg Size H s" "HClassId H \<noteq> 0"
    and "quarantineOrDeallocateChunk cfg Opts P H Size s = Inr s'"
  shows "header_freed cfg P s'"
proof -
  let ?Tagging = "useMemoryTagging (CMaySupportMemoryTagging cfg) Opts"
  let ?P = "getHeaderTaggedPointer cfg P"
  define H1 where "H1 = H\<lparr>HState := State_code (if True then Available else Quarantined),
            OriginOrWasZeroed := (if \<not> ?Tagging then 0 else if HClassId H \<noteq> 0 \<and> \<not> DisableMemInit s then 1 else 0)\<rparr>"
  define s1 where "s1 = store_header cfg ?P H1 s"
  have H1: "HClassId H1 \<noteq> 0" using assms(3) by (simp add: H1_def)
  have "HState H1 \<noteq> State_code Allocated" by (simp add: H1_def)
  then have f1: "header_freed cfg P s1" unfolding s1_def by (rule store_header_freed)
  have C: "(ucast (HClassId H) :: uptr) \<noteq> 0"
    using assms(3) by (simp add: word_unat_eq_iff unat_ucast_up)
  define r where "r = (if \<not> ?Tagging then Inr (getBlockBegin (if tagging_built cfg then untagPointer ?P else ?P) H1, s1)
      else bindE (retagBlock cfg Opts P ?P H1 Size True s1) (\<lambda>(_, B, s). Inr (B, s)))"
  have "bindE r (\<lambda>(B, s). bindE (heap_deallocate cfg (ucast (HClassId H)) B s) (\<lambda>(CacheDrained, s).
       Inr (if CacheDrained then primary_tryReleaseToOS cfg (ucast (HClassId H)) ReleaseNormal s else s))) = Inr s'"
    using assms(2,4) C unfolding quarantineOrDeallocateChunk_def Let_def r_def s1_def H1_def
    by (simp cong: if_cong)
  then obtain B s2 where r: "r = Inr (B, s2)"
    and d: "bindE (heap_deallocate cfg (ucast (HClassId H)) B s2) (\<lambda>(CacheDrained, s).
       Inr (if CacheDrained then primary_tryReleaseToOS cfg (ucast (HClassId H)) ReleaseNormal s else s)) = Inr s'"
    by (auto simp: bindE_eq_Inr)
  have "only_cleared (memory_of s1) (memory_of s2)"
    using r unfolding r_def
    by (auto simp: bindE_eq_Inr split: if_splits intro!: only_cleared_refl
        dest!: retagBlock_primary_byte [OF assms(1) H1])
  moreover obtain dr s3 where d3: "heap_deallocate cfg (ucast (HClassId H)) B s2 = Inr (dr, s3)"
    "s' = (if dr then primary_tryReleaseToOS cfg (ucast (HClassId H)) ReleaseNormal s3 else s3)"
    using d by (auto simp: bindE_eq_Inr)
  moreover have "only_cleared (memory_of s2) (memory_of s')"
    using heap_deallocate_memory [OF d3(1)] primary_tryReleaseToOS_cleared [of s3 cfg "ucast (HClassId H)" ReleaseNormal]
    by (auto simp: d3(2) intro: only_cleared_refl)
  ultimately show ?thesis using cleared_freed [OF f1] only_cleared_trans by blast
qed

text \<open>A successful call has passed the checks on its pointer and found the header.\<close>

lemma deallocate_passed:
  assumes "scudo_deallocate cfg P Orig DeleteSize s = Inr s'" "P \<noteq> 0"
  shows "isAligned P MinAlignment"
    and "load_header cfg (getHeaderTaggedPointer cfg P) s = Inr H \<Longrightarrow>
      quarantineOrDeallocateChunk cfg (load_options s) P H
        (getSize cfg (memory_of s) (getHeaderTaggedPointer cfg P) H) s = Inr s'"
  using assms unfolding scudo_deallocate_def Let_def by (auto simp: bindE_eq_Inr split: if_splits)

lemma mask_16: "(16 - 1 :: uptr) = mask 4"
  by (simp add: mask_eq_exp_minus_1)

lemma aligned_untag:
  assumes "untagPointer p = untagPointer q"
  shows "isAligned p MinAlignment = isAligned q MinAlignment"
proof -
  have "x AND (16 - 1) = untagPointer x AND (16 - 1)" for x :: uptr
    by (rule bit_word_eqI) (auto simp: untagPointer_take bit_simps mask_16 simp del: diff_numeral_simps diff_numeral_special)
  then have "p AND (16 - 1) = q AND (16 - 1)" using assms by metis
  then show ?thesis by (simp add: isAligned_def MinAlignment_16)
qed

lemma untag_getHeaderTaggedPointer:
  "zimte_isa (CZ cfg) \<Longrightarrow> untagPointer (getHeaderTaggedPointer cfg P) = untagPointer P"
  by (simp add: getHeaderTaggedPointer_def Let_def untag_addHeaderTag)

section \<open>What putting a pointer into the quarantine keeps\<close>

text \<open>Batches at addresses of which \<open>A\<close> holds, with pointers of which it holds.\<close>

definition batch_of :: "(uptr \<Rightarrow> bool) \<Rightarrow> qbatch \<Rightarrow> bool" where
  "batch_of A B \<longleftrightarrow> A (QAddr B) \<and> (\<forall>P \<in> set (QBatch B). A P) \<and> length (QBatch B) \<le> Quarantine.MaxCount"

definition qcache_of :: "(uptr \<Rightarrow> bool) \<Rightarrow> qcache \<Rightarrow> bool" where
  "qcache_of A C \<longleftrightarrow> (\<forall>B \<in> set (QList C). batch_of A B)"

definition batch_room :: "qcache \<Rightarrow> bool" where
  "batch_room C \<longleftrightarrow> QList C \<noteq> [] \<and> length (QBatch (last (QList C))) \<noteq> Quarantine.MaxCount"

lemma qcache_of_empty [simp]: "qcache_of A qcache_empty"
  by (simp add: qcache_of_def qcache_empty_def)

lemma enqueueBatch_of: "batch_of A B \<Longrightarrow> qcache_of A C \<Longrightarrow> qcache_of A (enqueueBatch B C)"
  by (auto simp: qcache_of_def enqueueBatch_def)

lemma merge_loop_of:
  "merge_loop Cur rest e d = (kept, e', d') \<Longrightarrow> \<forall>B \<in> set (Cur # rest). batch_of A B \<Longrightarrow> qcache_of A d
    \<Longrightarrow> (\<forall>B \<in> set kept. batch_of A B) \<and> qcache_of A d'"
proof (induction Cur rest e d arbitrary: kept e' d' rule: merge_loop.induct)
  case (2 Cur Nxt rest e d)
  show ?case
  proof (cases "canMerge Cur Nxt")
    case True
    obtain M X where bm: "batch_merge Cur Nxt = (M, X)" by fastforce
    then have "batch_of A M" "batch_of A X"
      using "2.prems"(2) True by (auto simp: batch_of_def batch_merge_def canMerge_def)
    then show ?thesis
      using "2.IH"(1) [OF True bm [symmetric] refl, of kept e' d'] "2.prems" True
      by (simp add: bm enqueueBatch_of)
  next
    case False
    obtain k e1 d1 where r: "merge_loop Nxt rest e d = (k, e1, d1)" by (metis prod_cases3)
    then show ?thesis using "2.IH"(2) [OF False r] "2.prems" False by auto
  qed
qed simp

lemma mergeBatches_of:
  "qcache_of A C \<Longrightarrow> mergeBatches C qcache_empty = (C', T) \<Longrightarrow> qcache_of A C' \<and> qcache_of A T"
proof (cases "QList C")
  case (Cons Cur rest)
  assume C: "qcache_of A C" and m: "mergeBatches C qcache_empty = (C', T)"
  obtain kept e d where l: "merge_loop Cur rest 0 qcache_empty = (kept, e, d)" by (metis prod_cases3)
  have "\<forall>B \<in> set (Cur # rest). batch_of A B" using C Cons by (simp add: qcache_of_def)
  from merge_loop_of [OF l this] m show ?thesis by (auto simp: mergeBatches_def Cons l qcache_of_def)
qed (simp add: mergeBatches_def)

lemma extract_loop_of:
  "extract_loop M Bs Size T = Inr (C', T') \<Longrightarrow> \<forall>B \<in> set Bs. batch_of A B \<Longrightarrow> qcache_of A T
    \<Longrightarrow> qcache_of A C' \<and> qcache_of A T'"
  by (induction Bs arbitrary: Size T) (auto simp: enqueueBatch_of qcache_of_def [of _ C'] split: if_splits)

lemma recycle_extract_of:
  assumes "recycle_extract M C = Inr (C', T)" "qcache_of A C"
  shows "qcache_of A C' \<and> qcache_of A T"
proof -
  obtain C1 T1 where m: "(if QCSize C > getOverheadSize C \<and> getOverheadSize C * (100 + 100) > QCSize C * 100
      then mergeBatches C qcache_empty else (C, qcache_empty)) = (C1, T1)" by (meson surj_pair)
  then have g: "qcache_of A C1" "qcache_of A T1"
    using mergeBatches_of [OF assms(2)] assms(2) by (auto split: if_splits)
  have "extract_loop M (QList C1) (QCSize C1) T1 = Inr (C', T)"
    using assms(1) m by (simp add: recycle_extract_def Let_def)
  then show ?thesis using extract_loop_of g by (metis qcache_of_def)
qed

text \<open>What the callbacks keep when they are called for such addresses, recycling keeps.\<close>

lemma recycle_all_keeps:
  assumes r: "\<And>p a a'. A p \<Longrightarrow> I a \<Longrightarrow> cb_recycle Cb p a = Inr a' \<Longrightarrow> I a'"
    and "recycle_all Cb Ps a = Inr a'" "\<forall>P \<in> set Ps. A P" "I a"
  shows "I a'"
  using assms(2-4) by (induction Ps arbitrary: a) (auto simp: bindE_eq_Inr dest: r)

lemma doRecycle_keeps:
  assumes r: "\<And>p a a'. A p \<Longrightarrow> I a \<Longrightarrow> cb_recycle Cb p a = Inr a' \<Longrightarrow> I a'"
    and d: "\<And>p a a'. A p \<Longrightarrow> I a \<Longrightarrow> cb_deallocate Cb p a = Inr a' \<Longrightarrow> I a'"
    and "doRecycle Cb CAddr Bs a = Inr a'" "\<forall>B \<in> set Bs. batch_of A B" "I a"
  shows "I a'"
  using assms(3-5)
proof (induction Bs arbitrary: a)
  case (Cons B Bs)
  define B' where "B' = batch_shuffle (ucast (drop_bit 4 (QAddr B XOR CAddr))) B"
  obtain a1 a2 where a: "recycle_all Cb (QBatch B') a = Inr a1" "cb_deallocate Cb (QAddr B) a1 = Inr a2"
    "doRecycle Cb CAddr Bs a2 = Inr a'"
    using Cons.prems(1) by (auto simp: bindE_eq_Inr Let_def B'_def)
  have "mset (QBatch B') = mset (QBatch B)"
    using mset_batch_shuffle [of B] Cons.prems(2) by (simp add: B'_def batch_of_def)
  then have "set (QBatch B') = set (QBatch B)" by (metis set_mset_mset)
  then have "\<forall>P \<in> set (QBatch B'). A P" using Cons.prems(2) by (simp add: batch_of_def)
  then have "I a1" using Cons.prems(3) by (intro recycle_all_keeps [where A = A and I = I, OF r a(1)])
  then have "I a2" using d [OF _ _ a(2)] Cons.prems(2) by (simp add: batch_of_def)
  then show ?case using Cons.IH [OF a(3)] Cons.prems(2) by simp
qed simp

lemma put_keeps:
  assumes p: "put Cb CAddr Ptr Size (C, q, a) = Inr (C', q', a')"
    and A: "A Ptr" "qcache_of A C" "qcache_of A (QCache q)" and I: "I a"
    and al: "\<And>B b. \<not> batch_room C \<Longrightarrow> cb_allocate Cb sizeof_QuarantineBatch a = Inr (B, b) \<Longrightarrow> A B \<and> I b"
    and r: "\<And>p a a'. A p \<Longrightarrow> I a \<Longrightarrow> cb_recycle Cb p a = Inr a' \<Longrightarrow> I a'"
    and d: "\<And>p a a'. A p \<Longrightarrow> I a \<Longrightarrow> cb_deallocate Cb p a = Inr a' \<Longrightarrow> I a'"
  shows "I a'"
proof -
  obtain C1 a1 where e: "enqueue Cb Ptr Size (C, a) = Inr (C1, a1)"
    and n: "(if QCSize C1 > QMaxCacheSize q then drain Cb CAddr (C1, q, a1) else Inr (C1, q, a1)) = Inr (C', q', a')"
    using p by (auto simp: put_def bindE_eq_Inr)
  have 1: "qcache_of A C1 \<and> I a1"
  proof (cases "batch_room C")
    case True
    then have l: "batch_of A (last (QList C))" "length (QBatch (last (QList C))) \<noteq> Quarantine.MaxCount"
      using A(2) by (auto simp: batch_room_def qcache_of_def)
    then have "batch_of A (batch_push_back Ptr Size (last (QList C)))"
      using A(1) by (auto simp: batch_of_def batch_push_back_def)
    moreover have "\<forall>B \<in> set (butlast (QList C)). batch_of A B"
      using A(2) by (auto simp: qcache_of_def dest: in_set_butlastD)
    ultimately show ?thesis
      using e True I by (auto simp: enqueue_def batch_room_def qcache_of_def)
  next
    case False
    then obtain B b where c: "cb_allocate Cb sizeof_QuarantineBatch a = Inr (B, b)"
      and "C1 = enqueueBatch (batch_init B Ptr Size) C" "a1 = b"
      using e by (auto simp: enqueue_def batch_room_def bindE_eq_Inr split: if_splits)
    moreover from al [OF False c] have ab: "A B" "I b" by simp_all
    moreover have "batch_of A (batch_init B Ptr Size)"
      using A(1) ab by (simp add: batch_of_def batch_init_def Quarantine.MaxCount_def)
    ultimately show ?thesis using A(2) by (simp add: enqueueBatch_of)
  qed
  show ?thesis
  proof (cases "QCSize C1 > QMaxCacheSize q")
    case False
    then show ?thesis using n 1 by simp
  next
    case True
    obtain G C2 where t: "transfer (QCache q) C1 = (G, C2)" by (cases "transfer (QCache q) C1")
    have G: "qcache_of A G" using t A(3) 1 by (auto simp: transfer_def qcache_of_def)
    show ?thesis
    proof (cases "QCSize G > QMaxSize q \<and> \<not> RecycleMutex q")
      case False
      then show ?thesis using n True 1 t by (auto simp: drain_def Let_def split: if_splits)
    next
      case rc: True
      obtain G' T where x: "recycle_extract (QMinSize q) G = Inr (G', T)"
        and dr: "doRecycle Cb CAddr (QList T) a1 = Inr a'"
        using n True t rc by (auto simp: drain_def Let_def recycle_def bindE_eq_Inr)
      have "\<forall>B \<in> set (QList T). batch_of A B" using recycle_extract_of [OF x G] by (simp add: qcache_of_def)
      then show ?thesis using 1 by (intro doRecycle_keeps [where A = A and I = I, OF r d dr]) simp_all
    qed
  qed
qed

section \<open>Chunks that go through the quarantine\<close>

definition aligned16 :: "uptr \<Rightarrow> bool" where
  "aligned16 P \<longleftrightarrow> unat P mod 16 = 0"

lemma aligned16_eq: "isAligned P MinAlignment \<longleftrightarrow> aligned16 P"
proof -
  have "aligned16 P \<longleftrightarrow> unat (P AND 0xf) = 0" by (simp only: aligned16_def unat_and_f)
  also have "\<dots> \<longleftrightarrow> P AND 0xf = 0" by (rule unat_eq_zero)
  finally show ?thesis by (simp add: isAligned_def MinAlignment_16)
qed

lemma aligned16_diff:
  fixes u v :: uptr
  assumes "unat u mod 16 = 0" "unat v mod 16 = 0" shows "unat (u - v) mod 16 = 0"
proof -
  have d: "16 dvd unat u" "16 dvd unat v" "16 dvd (2 :: nat) ^ 64" using assms by auto
  have "unat (u - v) = (if v \<le> u then unat u - unat v else unat u + 2 ^ 64 - unat v)"
    by (simp add: unat_sub_if' word_le_nat_alt)
  then have "16 dvd unat (u - v)" using d by (auto intro!: dvd_diff_nat dvd_add simp del: power_numeral)
  then show ?thesis by simp
qed

lemma aligned16_untag: "aligned16 p \<Longrightarrow> unat (untagPointer p) mod 16 = 0"
proof -
  assume "aligned16 p"
  moreover have "unat p mod 2 ^ 56 mod 16 = unat p mod 16" by (rule mod_mod_cancel) simp
  ultimately show ?thesis by (simp only: unat_untagPointer aligned16_def)
qed

lemma aligned16_header: "aligned16 P \<Longrightarrow> unat (untagPointer (getAtomicHeader P)) mod 16 = 0"
  using aligned16_diff [of P 16] by (intro aligned16_untag) (simp add: aligned16_def getAtomicHeader_def getHeaderSize_16)

text \<open>Headers of chunks at aligned addresses coincide or do not overlap.\<close>

lemma header_disjoint:
  fixes u v :: uptr
  assumes "unat u mod 16 = 0" "unat v mod 16 = 0" "u + 1 - v < 8"
  shows "u = v"
proof -
  obtain k where k: "unat (u - v) = 16 * k" using aligned16_diff [OF assms(1,2)] by (auto elim: dvdE)
  have "16 * k < 16 * 2 ^ 60" using unat_less_64 [of "u - v"] k by simp
  then have "k < 2 ^ 60" by simp
  then have "unat (u - v + 1) = unat (u - v) + 1" using k by (subst unat_add_small) simp_all
  moreover have "u + 1 - v = u - v + 1" by simp
  ultimately have "unat (u + 1 - v) = 16 * k + 1" using k by (simp only:)
  then have "16 * k + 1 < 8" using assms(3) by (simp add: word_less_nat_alt)
  then have "unat (u - v) = 0" using k by simp
  then show ?thesis by (simp add: unat_eq_zero)
qed

lemma store_keeps_freed:
  assumes z: "zimte_isa (CZ cfg)" and "header_freed cfg P s" "aligned16 P" "aligned16 Q"
    and "HState H \<noteq> State_code Allocated"
  shows "header_freed cfg P (store_header cfg Q H s)"
proof -
  let ?P = "getHeaderTaggedPointer cfg P"
  let ?u = "untagPointer (getAtomicHeader ?P)" and ?v = "untagPointer (getAtomicHeader Q)"
  have "aligned16 ?P" using assms(3) aligned_untag [OF untag_getHeaderTaggedPointer [OF z]] by (simp add: aligned16_eq)
  then have al: "unat ?u mod 16 = 0" "unat ?v mod 16 = 0" using assms(4) by (simp_all add: aligned16_header)
  show ?thesis
  proof (cases "?u = ?v")
    case True
    then have "load_u64 m (getAtomicHeader ?P) = load_u64 m (getAtomicHeader Q)" for m by (rule load_u64_untag)
    then show ?thesis using assms(5) by (simp add: header_freed_def store_header_def storeHeader_def Let_def)
  next
    case False
    then have "\<not> ?u + 1 - ?v < 8" using header_disjoint [OF al] by blast
    then show ?thesis
      using assms(2) by (simp add: header_freed_def state_byte store_header_def storeHeader_def Let_def byte_unchanged)
  qed
qed

lemma same_memory_freed: "header_freed cfg P s \<Longrightarrow> mem_byte (memory_of s') = mem_byte (memory_of s) \<Longrightarrow> header_freed cfg P s'"
  by (simp add: header_freed_def state_byte)

lemma tag_range_byte: "zimte_isa (CZ cfg) \<Longrightarrow> tag_range cfg B E m = Inr (e, m') \<Longrightarrow> mem_byte m' = mem_byte m"
  by (auto simp: tag_range_def storeTags_def split: option.splits dest: storeTags_loop_byte)

text \<open>The callbacks write headers of chunks that are quarantined or available.\<close>

lemma callbacks_keep_freed:
  assumes z: "zimte_isa (CZ cfg)" and P: "aligned16 P" and f: "header_freed cfg P s"
  shows "aligned16 Q \<Longrightarrow> cb_recycle (QuarantineCallback cfg) Q s = Inr s' \<Longrightarrow> header_freed cfg P s'"
    and "aligned16 Q \<Longrightarrow> cb_deallocate (QuarantineCallback cfg) Q s = Inr s' \<Longrightarrow> header_freed cfg P s'"
    and "cb_allocate (QuarantineCallback cfg) n s = Inr (B, s') \<Longrightarrow> aligned16 B \<Longrightarrow> header_freed cfg P s'"
proof -
  have k: "header_freed cfg P s'"
    if "aligned16 Q" "bindE (heap_deallocate cfg C B (store_header cfg Q (H\<lparr>HState := 0\<rparr>) s)) (\<lambda>(_, s). Inr s) = Inr s'"
    for Q C B H
  proof -
    have "header_freed cfg P (store_header cfg Q (H\<lparr>HState := 0\<rparr>) s)"
      using that(1) by (intro store_keeps_freed [OF z f P]) simp_all
    then show ?thesis using that(2) by (auto simp: bindE_eq_Inr dest!: heap_deallocate_memory intro: same_memory_freed)
  qed
  show "aligned16 Q \<Longrightarrow> cb_recycle (QuarantineCallback cfg) Q s = Inr s' \<Longrightarrow> header_freed cfg P s'"
    by (cases "load_header cfg Q s")
      (auto simp: QuarantineCallback_def callback_recycle_def Let_def split: if_splits intro: k)
  show "aligned16 Q \<Longrightarrow> cb_deallocate (QuarantineCallback cfg) Q s = Inr s' \<Longrightarrow> header_freed cfg P s'"
    by (cases "load_header cfg Q s")
      (auto simp: QuarantineCallback_def callback_deallocate_def Let_def split: if_splits intro: k)
  assume a: "cb_allocate (QuarantineCallback cfg) n s = Inr (B, s')" "aligned16 B"
  let ?H = "empty_header\<lparr>HClassId := ucast (QuarantineClassId cfg), SizeOrUnusedBytes := ucast sizeof_QuarantineBatch,
      HState := State_code Quarantined\<rparr>"
  obtain h where s': "mem_byte (memory_of s') = mem_byte (memory_of (store_header cfg B ?H (s\<lparr>Heap := h\<rparr>)))"
    using a(1) tag_range_byte [OF z]
    by (fastforce simp: QuarantineCallback_def callback_allocate_def bindE_eq_Inr Let_def split: option.splits if_splits)
  have "header_freed cfg P (store_header cfg B ?H (s\<lparr>Heap := h\<rparr>))"
    using f a(2) by (intro store_keeps_freed [OF z _ P]) (simp_all add: header_freed_def)
  then show "header_freed cfg P s'" using s' by (rule same_memory_freed)
qed

text \<open>A batch comes from a block of the primary.\<close>

lemma callback_allocate_aligned:
  assumes "heap_ok (CPrimary cfg) (Heap s)" "live_blocks (CPrimary cfg) L (Heap s)"
    and "is_class (CPrimary cfg) (QuarantineClassId cfg)"
    and "cb_allocate (QuarantineCallback cfg) n s = Inr (B, s')"
  shows "aligned16 B"
proof -
  obtain P h where a: "sca_allocate (CPrimary cfg) (COs cfg) (QuarantineClassId cfg) (Heap s) = Inr (Some P, h)"
    and B: "B = P + 16"
    using assms(4) by (auto simp: QuarantineCallback_def callback_allocate_def bindE_eq_Inr Let_def getHeaderSize_16
        split: option.splits if_splits)
  have "16 dvd unat P" using sca_allocate_block [OF assms(1-3) a] by (simp add: block_placed_def)
  then show ?thesis
    using aligned16_diff [of P "- 16"] by (simp add: aligned16_def B)
qed

text \<open>What \<open>put\<close> needs of the quarantine: its pointers and the addresses of its batches are aligned,
  no batch is longer than its array, and the thread's last batch has room or a batch can be had
  from the primary.\<close>

definition quarantine_ready :: "cconfig \<Rightarrow> scudo \<Rightarrow> bool" where
  "quarantine_ready cfg s \<longleftrightarrow> qcache_of aligned16 (ThreadQ s) \<and> qcache_of aligned16 (QCache (GlobalQ s))
     \<and> (batch_room (ThreadQ s)
        \<or> heap_ok (CPrimary cfg) (Heap s) \<and> (\<exists>L. live_blocks (CPrimary cfg) L (Heap s))
          \<and> is_class (CPrimary cfg) (QuarantineClassId cfg))"

lemma quarantine_frees_header:
  assumes z: "zimte_isa (CZ cfg)" and nb: "\<not> bypass_quarantine cfg Size H s" and P: "aligned16 P"
    and rd: "quarantine_ready cfg s"
    and q: "quarantineOrDeallocateChunk cfg Opts P H Size s = Inr s'"
  shows "header_freed cfg P s'"
proof -
  let ?Tagging = "useMemoryTagging (CMaySupportMemoryTagging cfg) Opts"
  let ?P = "getHeaderTaggedPointer cfg P"
  have C: "HClassId H \<noteq> 0" using nb by (simp add: bypass_quarantine_def)
  define H1 where "H1 = H\<lparr>HState := State_code (if False then Available else Quarantined),
            OriginOrWasZeroed := (if \<not> ?Tagging then 0 else if HClassId H \<noteq> 0 \<and> \<not> DisableMemInit s then 1 else 0)\<rparr>"
  define s1 where "s1 = store_header cfg ?P H1 s"
  have f1: "header_freed cfg P s1" unfolding s1_def by (rule store_header_freed) (simp add: H1_def)
  have uP: "aligned16 ?P" using P aligned_untag [OF untag_getHeaderTaggedPointer [OF z]] by (simp add: aligned16_eq)
  define r where "r = (if ?Tagging then bindE (retagBlock cfg Opts P ?P H1 Size False s1) (\<lambda>(P, _, s). Inr (P, s))
                  else Inr (?P, s1))"
  have "bindE r (\<lambda>(Ptr, s). with_quarantine (put (QuarantineCallback cfg) (CTmpAddr cfg) Ptr Size) s) = Inr s'"
    using nb q unfolding quarantineOrDeallocateChunk_def Let_def r_def s1_def H1_def by (simp cong: if_cong)
  then obtain Q s2 where r: "r = Inr (Q, s2)"
    and w: "with_quarantine (put (QuarantineCallback cfg) (CTmpAddr cfg) Q Size) s2 = Inr s'"
    by (auto simp: bindE_eq_Inr)
  have 2: "header_freed cfg P s2 \<and> aligned16 Q \<and> Heap s2 = Heap s \<and> ThreadQ s2 = ThreadQ s \<and> GlobalQ s2 = GlobalQ s"
  proof (cases ?Tagging)
    case False
    then show ?thesis using r f1 uP by (auto simp: r_def s1_def store_header_def upd_mem_def)
  next
    case True
    then obtain B where b: "retagBlock cfg Opts P ?P H1 Size False s1 = Inr (Q, B, s2)"
      using r by (auto simp: r_def bindE_eq_Inr)
    have "HClassId H1 \<noteq> 0" using C by (simp add: H1_def)
    from retagBlock_primary_byte [OF z this b] have "header_freed cfg P s2" using f1 by (rule same_memory_freed [rotated])
    moreover have "Q = untagPointer ?P" "Heap s2 = Heap s1" "ThreadQ s2 = ThreadQ s1" "GlobalQ s2 = GlobalQ s1"
      using b by (auto simp: retagBlock_def storeDeallocationStackMaybe_def upd_mem_def Let_def bindE_eq_Inr
          split: option.splits if_splits)
    moreover have "aligned16 (untagPointer ?P)"
      using uP aligned_untag [of "untagPointer ?P" ?P] by (simp add: aligned16_eq)
    ultimately show ?thesis by (simp add: s1_def store_header_def upd_mem_def)
  qed
  obtain C' q' a' where p: "put (QuarantineCallback cfg) (CTmpAddr cfg) Q Size (ThreadQ s2, GlobalQ s2, s2) = Inr (C', q', a')"
    and s': "s' = a'\<lparr>ThreadQ := C', GlobalQ := q'\<rparr>"
    using w by (auto simp: with_quarantine_def bindE_eq_Inr)
  note rdy = rd [unfolded quarantine_ready_def]
  have al: "aligned16 B \<and> header_freed cfg P b"
    if "\<not> batch_room (ThreadQ s2)" "cb_allocate (QuarantineCallback cfg) sizeof_QuarantineBatch s2 = Inr (B, b)" for B b
  proof -
    have "aligned16 B" using callback_allocate_aligned [OF _ _ _ that(2)] 2 rdy that(1) by auto
    then show ?thesis using callbacks_keep_freed(3) [OF z P _ that(2)] 2 by simp
  qed
  have q2: "aligned16 Q" "qcache_of aligned16 (ThreadQ s2)" "qcache_of aligned16 (QCache (GlobalQ s2))"
    "header_freed cfg P s2"
    using 2 rdy by simp_all
  have "header_freed cfg P a'"
    using put_keeps [where I = "header_freed cfg P" and A = aligned16, OF p q2 al] callbacks_keep_freed(1,2) [OF z P]
    by blast
  then show ?thesis by (simp add: s' header_freed_def)
qed

text \<open>C2: A chunk of the primary that was freed, into the quarantine or past it, is not accepted
  again: freeing it a second time, reallocating it or asking for its size is reported, as
  an invalid state or as a corrupted header, and it is no longer owned. This holds with and without
  memory tagging, when putting the chunk into the quarantine makes it recycle others, and when
  pages were returned to the system in between. A quarantine that is used
  is assumed to hold aligned pointers and batches, and to have room in the thread's last batch or a
  class of the primary for a new one.\<close>

theorem double_free_reported:
  assumes "zimte_isa (CZ cfg)" "P \<noteq> 0" "load_header cfg (getHeaderTaggedPointer cfg P) s = Inr H"
    and "HClassId H \<noteq> 0"
    and "bypass_quarantine cfg (getSize cfg (memory_of s) (getHeaderTaggedPointer cfg P) H) H s \<or> quarantine_ready cfg s"
    and "scudo_deallocate cfg P Orig DeleteSize s = Inr s'"
    and "only_cleared (memory_of s') (memory_of s2)" "NewSize < MaxAllowedMallocSize"
  shows "rejected Deallocating (getHeaderTaggedPointer cfg P) (scudo_deallocate cfg P Orig2 DeleteSize2 s2)
    \<and> rejected Reallocating (getHeaderTaggedPointer cfg P) (scudo_reallocate cfg P NewSize Alignment s2)
    \<and> rejected Sizing (getHeaderTaggedPointer cfg P) (getAllocSize cfg P s2) \<and> \<not> isOwned cfg P s2"
proof -
  note d = deallocate_passed [OF assms(6,2)]
  have "header_freed cfg P s'"
  proof (cases "bypass_quarantine cfg (getSize cfg (memory_of s) (getHeaderTaggedPointer cfg P) H) H s")
    case True
    then show ?thesis by (rule bypass_frees_header [OF assms(1) _ assms(4) d(2) [OF assms(3)]])
  next
    case False
    moreover have "quarantine_ready cfg s" using False assms(5) by blast
    ultimately show ?thesis
      using quarantine_frees_header [OF assms(1) _ _ _ d(2) [OF assms(3)]] d(1) by (simp add: aligned16_eq)
  qed
  then have f: "header_freed cfg P s2" using assms(7) by (rule cleared_freed)
  have "isAligned (getHeaderTaggedPointer cfg P) MinAlignment"
    using d(1) aligned_untag [OF untag_getHeaderTaggedPointer [OF assms(1)]] by simp
  then show ?thesis using freed_rejected [OF f] assms(2,8) d(1) by blast
qed

text \<open>A chunk of ten bytes in the second block of the small allocator, which its cache does not hold.\<close>

definition small_chunk :: "scudo" where
  "small_chunk = store_header small_cconfig (getHeaderTaggedPointer small_cconfig 0x11030)
     (new_header 1 Malloc 0x11030 0x11030 10) ((small_scudo False)\<lparr>Heap := small_heap 1\<rparr>)"

lemma small_chunk_header:
  "\<exists>c. load_header small_cconfig (getHeaderTaggedPointer small_cconfig 0x11030) small_chunk
    = Inr (new_header 1 Malloc 0x11030 0x11030 10\<lparr>HChecksum := c\<rparr>)"
  unfolding small_chunk_def load_store_header by blast

lemma small_chunk_simps: "load_options small_chunk = 0" "QMaxCacheSize (GlobalQ small_chunk) = 0"
  "Heap small_chunk = small_heap 1"
  by (simp_all add: small_chunk_def store_header_def upd_mem_def load_options_def small_heap_def small_scudo_def)

lemma small_push: "\<exists>h. sca_deallocate small_config small_os 1 0x11020 (small_heap 1) = Inr (False, h)"
  by (simp add: sca_deallocate_def cache_deallocate_def CHECK_def small_config_values small_heap_def get_class_def Let_def)

lemma small_free: "\<exists>s'. scudo_deallocate small_cconfig 0x11030 Malloc 0 small_chunk = Inr s'"
proof -
  obtain c where c: "load_header small_cconfig (getHeaderTaggedPointer small_cconfig 0x11030) small_chunk
    = Inr (new_header 1 Malloc 0x11030 0x11030 10\<lparr>HChecksum := c\<rparr>)" (is "_ = Inr ?H")
    using small_chunk_header by blast
  obtain h where h: "sca_deallocate small_config small_os 1 0x11020 (small_heap 1) = Inr (False, h)"
    using small_push by blast
  have t: "useMemoryTagging (CMaySupportMemoryTagging small_cconfig) 0 = False" by (simp add: useMemoryTagging_def opt_get_def)
  have u: "untagPointer (getHeaderTaggedPointer small_cconfig 0x11030) = 0x11030"
    using untag_getHeaderTaggedPointer [of small_cconfig] zimte_isa_ref untag_small [of "0x11030"] by simp
  have b: "tagging_built small_cconfig"
    by (simp add: allocatorSupportsMemoryTagging_def archSupportsMemoryTagging_def archMemoryTagGranuleSize_def SCUDO_MIN_ALIGNMENT_LOG_def)
  have "\<exists>s'. quarantineOrDeallocateChunk small_cconfig 0 0x11030 ?H S small_chunk = Inr s'" for S
    using h t u b
    by (simp add: quarantineOrDeallocateChunk_def bypass_quarantine_def small_chunk_simps Let_def heap_deallocate_def
        new_header_def empty_header_def getBlockBegin_def getHeaderSize_16)
  then show ?thesis
    using c small_chunk_simps
    by (simp add: scudo_deallocate_def Let_def new_header_def opt_get_def isAligned_def MinAlignment_16)
qed

text \<open>The same chunk with a quarantine for chunks up to 100 bytes and a batch with room.\<close>

definition small_quarantined :: "scudo" where
  "small_quarantined = small_chunk\<lparr>QuarantineMaxChunkSize := 100,
     ThreadQ := enqueueBatch (batch_init 0x20000 0x30000 10) qcache_empty,
     GlobalQ := (GlobalQ small_chunk)\<lparr>QMaxCacheSize := 0x10000\<rparr>\<rparr>"

lemma small_quarantined_simps: "load_options small_quarantined = 0" "QMaxCacheSize (GlobalQ small_quarantined) = 0x10000"
  "memory_of small_quarantined = memory_of small_chunk" "HashAlgorithm small_quarantined = HashAlgorithm small_chunk"
  "Cookie small_quarantined = Cookie small_chunk" "QuarantineMaxChunkSize small_quarantined = 100"
  "ThreadQ small_quarantined = enqueueBatch (batch_init 0x20000 0x30000 10) qcache_empty"
  "qcache_of aligned16 (QCache (GlobalQ small_quarantined))"
  using small_chunk_simps(1)
  by (simp_all add: small_quarantined_def load_options_def small_chunk_def store_header_def upd_mem_def small_scudo_def)

lemma small_quarantined_free:
  "\<exists>s'. scudo_deallocate small_cconfig 0x11030 Malloc 0 small_quarantined = Inr s'"
proof -
  obtain c where c: "load_header small_cconfig (getHeaderTaggedPointer small_cconfig 0x11030) small_quarantined
    = Inr (new_header 1 Malloc 0x11030 0x11030 10\<lparr>HChecksum := c\<rparr>)" (is "_ = Inr ?H")
    using small_chunk_header by (auto simp: load_header_def small_quarantined_simps)
  have t: "useMemoryTagging (CMaySupportMemoryTagging small_cconfig) 0 = False" by (simp add: useMemoryTagging_def opt_get_def)
  have "getSize small_cconfig m Q ?H = 10" for m Q
    by (simp add: getSize_def new_header_def SizeOrUnusedBytesMask_def empty_header_def)
  moreover have "\<exists>s'. quarantineOrDeallocateChunk small_cconfig 0 0x11030 ?H 10 small_quarantined = Inr s'"
    using t
    by (simp add: quarantineOrDeallocateChunk_def bypass_quarantine_def small_quarantined_simps Let_def
        with_quarantine_def put_def enqueue_def enqueueBatch_def batch_init_def qcache_empty_def Quarantine.MaxCount_def
        batch_push_back_def sizeof_QuarantineBatch_def store_header_def upd_mem_def new_header_def small_cconfig_def)
  ultimately show ?thesis
    using c small_quarantined_simps
    by (simp add: scudo_deallocate_def Let_def new_header_def opt_get_def isAligned_def MinAlignment_16)
qed

theorem double_free_reported_witness:
  "(\<exists>s'. scudo_deallocate small_cconfig 0x11030 Malloc 0 small_chunk = Inr s'
    \<and> rejected Deallocating (getHeaderTaggedPointer small_cconfig 0x11030)
         (scudo_deallocate small_cconfig 0x11030 Malloc 0 s'))
   \<and> (\<exists>s'. scudo_deallocate small_cconfig 0x11030 Malloc 0 small_quarantined = Inr s'
    \<and> \<not> bypass_quarantine small_cconfig 10 (new_header 1 Malloc 0x11030 0x11030 10) small_quarantined
    \<and> rejected Deallocating (getHeaderTaggedPointer small_cconfig 0x11030)
         (scudo_deallocate small_cconfig 0x11030 Malloc 0 s'))"
proof -
  have z: "zimte_isa (CZ small_cconfig)" using zimte_isa_ref by simp
  obtain c where c: "load_header small_cconfig (getHeaderTaggedPointer small_cconfig 0x11030) small_chunk
    = Inr (new_header 1 Malloc 0x11030 0x11030 10\<lparr>HChecksum := c\<rparr>)" (is "_ = Inr ?H")
    using small_chunk_header by blast
  then have c': "load_header small_cconfig (getHeaderTaggedPointer small_cconfig 0x11030) small_quarantined = Inr ?H"
    by (simp add: load_header_def small_quarantined_simps)
  obtain s' where s': "scudo_deallocate small_cconfig 0x11030 Malloc 0 small_chunk = Inr s'" using small_free by blast
  obtain t where t: "scudo_deallocate small_cconfig 0x11030 Malloc 0 small_quarantined = Inr t"
    using small_quarantined_free by blast
  have k: "HClassId ?H \<noteq> 0" "(0x11030 :: uptr) \<noteq> 0" "(5 :: uptr) < MaxAllowedMallocSize"
    by (simp_all add: new_header_def MaxAllowedMallocSize_def)
  have q: "bypass_quarantine small_cconfig S ?H small_chunk \<or> quarantine_ready small_cconfig small_chunk" for S
    by (simp add: bypass_quarantine_def small_chunk_simps)
  have "quarantine_ready small_cconfig small_quarantined"
    unfolding quarantine_ready_def small_quarantined_simps(7)
    by (intro conjI small_quarantined_simps(8) disjI1)
      (simp_all add: batch_room_def enqueueBatch_def batch_init_def qcache_empty_def Quarantine.MaxCount_def
        qcache_of_def batch_of_def aligned16_def)
  then have q': "bypass_quarantine small_cconfig S ?H small_quarantined \<or> quarantine_ready small_cconfig small_quarantined" for S
    by blast
  have nb: "\<not> bypass_quarantine small_cconfig 10 (new_header 1 Malloc 0x11030 0x11030 10) small_quarantined"
    by (simp add: bypass_quarantine_def small_quarantined_simps new_header_def) (simp add: small_cconfig_def)
  have cl: "only_cleared (memory_of s) (memory_of s)" for s :: scudo by (simp add: only_cleared_refl)
  from double_free_reported [OF z k(2) c k(1) q s' cl k(3)] double_free_reported [OF z k(2) c' k(1) q' t cl k(3)]
  show ?thesis using s' t nb by blast
qed

section \<open>Resizing in place\<close>

lemma shrink_keeps_bytes:
  assumes "unat P + unat Old < 2 ^ 56" "N < Old" "i < N"
  shows "mem_byte (fill_memory (P + N) (Old - N) b m) (P + i) = mem_byte m (P + i)"
proof -
  have n: "unat N < unat Old" "unat i < unat N" using assms(2,3) by (simp_all add: word_less_nat_alt)
  then have u: "unat (P + N) = unat P + unat N" "unat (P + i) = unat P + unat i"
    using assms(1) by (simp_all add: unat_add_small)
  have t: "untagPointer (P + N) = P + N" using u(1) n assms(1) by (intro untag_small) simp
  have "P + i - (P + N) = i - N" by simp
  moreover have "\<not> i - N < Old - N"
  proof -
    have "unat (i - N) = 2 ^ 64 + unat i - unat N" using n(2) by (simp add: unat_sub_if')
    moreover have "unat (Old - N) = unat Old - unat N" using n(1) by (simp add: unat_sub word_le_nat_alt)
    moreover have "unat Old < 2 ^ 56" using assms(1) by simp
    ultimately show ?thesis using n by (simp add: word_less_nat_alt)
  qed
  ultimately show ?thesis using byte_unchanged(3) [of "P + i" "P + N" "Old - N" b m] t by simp
qed

text \<open>C20: Without memory tagging, \<^verbatim>\<open>reallocate\<close> of a chunk of the primary that still fits into
  its block and either grows or gives up less than a page (a chunk that gives up a page or more is
  moved even if it fits) returns the same pointer without touching the primary: the new size is read
  back from the header, the chunk stays owned, and the bytes it had and keeps are unchanged, also
  when the memory that was given up is filled.\<close>

theorem reallocate_in_place:
  assumes "zimte_isa (CZ cfg)" "\<not> useMemoryTagging (CMaySupportMemoryTagging cfg) (load_options s)"
    and "load_header cfg (getHeaderTaggedPointer cfg P) s = Inr H" "HState H = State_code Allocated"
    and "HClassId H \<noteq> 0" "isAligned P MinAlignment" "16 \<le> unat P"
    and "\<not> opt_get OptDeallocTypeMismatch (load_options s) \<or> OriginOrWasZeroed H = Origin_code Malloc"
    and "unat P + unat (SizeOrUnusedBytes H) < 2 ^ 56" "unat P + unat NewSize < 2 ^ 56" "unat NewSize < 2 ^ 20"
    and "P + NewSize \<le> getBlockBegin P H + getSizeByClassId (size_map cfg) (ucast (HClassId H))"
    and "ucast (SizeOrUnusedBytes H) < NewSize \<or> ucast (SizeOrUnusedBytes H) - NewSize < PageSizeOf (CPrimary cfg)"
  shows "\<exists>s'. scudo_reallocate cfg P NewSize Alignment s = Inr (Some P, s') \<and> Heap s' = Heap s
    \<and> getAllocSize cfg P s' = Inr NewSize \<and> isOwned cfg P s'
    \<and> (\<forall>i < MinU NewSize (ucast (SizeOrUnusedBytes H)). mem_byte (memory_of s') (P + i) = mem_byte (memory_of s) (P + i))"
proof -
  let ?Old = "ucast (SizeOrUnusedBytes H) :: uptr" and ?P = "getHeaderTaggedPointer cfg P"
  have old: "unat ?Old = unat (SizeOrUnusedBytes H)" by (simp add: unat_ucast_up)
  have uP: "untagPointer ?P = P"
    using untag_getHeaderTaggedPointer [OF assms(1), of P] assms(9) by (simp add: untag_small)
  have al: "isAligned ?P MinAlignment"
    using assms(6) aligned_untag [OF untag_getHeaderTaggedPointer [OF assms(1), of P]] by simp
  have C: "(ucast (HClassId H) :: uptr) \<noteq> 0"
    using assms(5) by (simp add: word_unat_eq_iff unat_ucast_up)
  define Fill where "Fill = (if DisableMemInit s then NoFill else getFillContentsMode (load_options s))"
  define s1 where "s1 = (if NewSize < ?Old \<and> Fill \<noteq> NoFill
     then upd_mem (fill_memory (P + NewSize) (?Old - NewSize) (fill_byte Fill)) s else s)"
  define H1 where "H1 = H\<lparr>SizeOrUnusedBytes := ucast (NewSize AND SizeOrUnusedBytesMask)\<rparr>"
  define s' where "s' = store_header cfg ?P H1 s1"
  have hs: "Heap s' = Heap s" "load_options s' = load_options s" by (simp_all add: s'_def s1_def)
  have "unat NewSize < 2 ^ 40" using assms(11) by simp
  then have n: "\<not> NewSize \<ge> MaxAllowedMallocSize" by (simp add: MaxAllowedMallocSize_def word_le_nat_alt)
  have ip: "realloc_in_place cfg (load_options s) P ?P NewSize ?Old
      (getBlockBegin P H + getSizeByClassId (size_map cfg) (ucast (HClassId H))) H s = Inr s'"
    using assms(2,5) unfolding realloc_in_place_def Let_def s'_def s1_def H1_def Fill_def by simp
  have re: "scudo_reallocate cfg P NewSize Alignment s = Inr (Some P, s')"
    unfolding scudo_reallocate_def Let_def if_not_P [OF n]
    using assms(3,4,8,12,13) al C ip by (auto simp: old_block_def Let_def)
  have ld: "load_header cfg ?P s' = Inr (H1\<lparr>HChecksum := computeHeaderChecksum (CCrc cfg) (HashAlgorithm s1) (Cookie s1) ?P H1\<rparr>)"
    unfolding s'_def by (rule load_store_header)
  have "getAllocSize cfg P s' = Inr NewSize"
    using assms(4,5) size_field [OF assms(11)] by (simp add: getAllocSize_def sized_header_def ld Let_def getSize_def H1_def)
  moreover have "isOwned cfg P s'"
    using isValid_store_header [of cfg s1 ?P H1] assms(4,6,7) unfolding isOwned_def s'_def
    by (auto simp: H1_def Let_def)
  moreover have "mem_byte (memory_of s') (P + i) = mem_byte (memory_of s) (P + i)"
    if i: "i < MinU NewSize ?Old" for i
  proof -
    have i2: "i < NewSize" "i < ?Old" using i by (auto simp: MinU_min)
    have "mem_byte (memory_of s') (P + i) = mem_byte (memory_of s1) (P + i)"
      unfolding s'_def using header_keeps_user_bytes [OF uP assms(7,10) i2(1)] .
    also have "\<dots> = mem_byte (memory_of s) (P + i)"
      using shrink_keeps_bytes [of P ?Old NewSize i] i2(1) assms(9) old by (simp add: s1_def)
    finally show ?thesis .
  qed
  ultimately show ?thesis using re hs by blast
qed

theorem reallocate_in_place_witness:
  "\<exists>s'. scudo_reallocate small_cconfig 0x11030 16 16 small_chunk = Inr (Some 0x11030, s')
    \<and> getAllocSize small_cconfig 0x11030 s' = Inr 16"
proof -
  obtain c where c: "load_header small_cconfig (getHeaderTaggedPointer small_cconfig 0x11030) small_chunk
    = Inr (new_header 1 Malloc 0x11030 0x11030 10\<lparr>HChecksum := c\<rparr>)" (is "_ = Inr ?H")
    using small_chunk_header by blast
  have z: "zimte_isa (CZ small_cconfig)" using zimte_isa_ref by simp
  have t: "\<not> useMemoryTagging (CMaySupportMemoryTagging small_cconfig) (load_options small_chunk)"
    by (simp add: useMemoryTagging_def opt_get_def small_chunk_simps)
  have sz: "SizeOrUnusedBytes ?H = 10" "HState ?H = State_code Allocated" "HClassId ?H = 1" "HOffset ?H = 0"
    "OriginOrWasZeroed ?H = Origin_code Malloc"
    by (simp_all add: new_header_def SizeOrUnusedBytesMask_def empty_header_def)
  have e: "getBlockBegin 0x11030 ?H + getSizeByClassId (size_map small_cconfig) (ucast (HClassId ?H)) = 0x11040"
    using small_config_values(3) by (simp add: getBlockBegin_def sz getHeaderSize_16 p_getSizeByClassId_def BatchClassId_def)
  show ?thesis
    using reallocate_in_place [OF z t c sz(2), of 16 16] e
    by (simp add: sz isAligned_def MinAlignment_16) blast
qed

end
