(* ===== verification/SecondarySafe.thy ===== *)
theory SecondarySafe
  imports Secondary
begin

text \<open>
  Proofs about the secondary. Its cache: the least-recently-used list and the list of available
  entries partition the array, entries older than \<^verbatim>\<open>OldestPresentEntry\<close> have been released, a store
  that \<^verbatim>\<open>canCache\<close> allows never fails, no mapping is lost or unmapped twice, and \<^verbatim>\<open>releaseToOS\<close> calls
  the system for every entry, quarantined or not, whose pages are not released. A retrieved block
  fits the request; a fresh one lies between guard pages.
\<close>

unbundle bit_operations_syntax

section \<open>The invariant of the cache\<close>

definition entry_time :: "sec_cache \<Rightarrow> nat \<Rightarrow> u64" where
  "entry_time c E = CBTime (Entries c ! E)"

text \<open>Everything behind the oldest present entry has been released.\<close>

definition oldest_ok :: "(nat \<Rightarrow> u64) \<Rightarrow> nat list \<Rightarrow> nat option \<Rightarrow> bool" where
  "oldest_ok time lru oldest =
     (case oldest of
        None \<Rightarrow> \<forall>E \<in> set lru. time E = 0
      | Some E \<Rightarrow> \<exists>A B. lru = A @ E # B \<and> (\<forall>X \<in> set B. time X = 0))"

definition cache_inv :: "sec_config \<Rightarrow> sec_cache \<Rightarrow> bool" where
  "cache_inv cfg c \<longleftrightarrow>
     length (Entries c) = unat (EntriesArraySize cfg)
     \<and> distinct (LRUEntries c @ AvailEntries c) \<and> set (LRUEntries c @ AvailEntries c) = {..< unat (EntriesArraySize cfg)}
     \<and> MaxEntriesCount c \<le> EntriesArraySize cfg \<and> length (SecQuarantine c) = unat (SecQuarantineSize cfg)
     \<and> (\<forall>E \<in> set (LRUEntries c). block_isValid (Entries c ! E))
     \<and> oldest_ok (entry_time c) (LRUEntries c) (OldestPresentEntry c)"

lemma cache_inv_same:
  assumes "Entries c' = Entries c" "LRUEntries c' = LRUEntries c" "AvailEntries c' = AvailEntries c"
    and "OldestPresentEntry c' = OldestPresentEntry c" "MaxEntriesCount c' \<le> EntriesArraySize cfg"
    and "length (SecQuarantine c') = length (SecQuarantine c)" "cache_inv cfg c"
  shows "cache_inv cfg c'"
proof -
  have "entry_time c' = entry_time c" by (simp add: entry_time_def fun_eq_iff assms(1))
  then show ?thesis using assms by (simp add: cache_inv_def)
qed

text \<open>The mappings the cache holds, and those it has unmapped.\<close>

definition lru_maps :: "sec_cache \<Rightarrow> mem_map multiset" where
  "lru_maps c = mset (map (\<lambda>E. CBMemMap (Entries c ! E)) (LRUEntries c))"

definition quarantine_maps :: "cached_block list \<Rightarrow> mem_map multiset" where
  "quarantine_maps q = mset (map CBMemMap (filter block_isValid q))"

definition cached_maps :: "sec_cache \<Rightarrow> mem_map multiset" where
  "cached_maps c = lru_maps c + quarantine_maps (SecQuarantine c)"

definition unmap_of :: "sec_call \<Rightarrow> mem_map list" where
  "unmap_of Call = (case Call of CallUnmap M \<Rightarrow> [M] | _ \<Rightarrow> [])"

definition unmapped :: "sec_mem \<Rightarrow> mem_map multiset" where
  "unmapped mc = mset (concat (map unmap_of (snd mc)))"

lemma unmapped_simps [simp]:
  "unmapped (sec_release a n mc) = unmapped mc" "unmapped (sec_protect a n b mc) = unmapped mc"
  "unmapped (sec_unmap M mc) = add_mset M (unmapped mc)"
  by (cases mc; simp add: unmapped_def sec_release_def sec_protect_def sec_unmap_def unmap_of_def)+

lemma unmapped_remap [simp]: "unmapped (snd (sec_remap os a n b mc)) = unmapped mc"
  by (cases mc) (simp add: unmapped_def sec_remap_def unmap_of_def)

lemma unmapped_mapSecondary [simp]: "unmapped (snd (mapSecondary cfg os Opts B S A N mc)) = unmapped mc"
proof -
  have "unmapped mc'' = unmapped mc'" if "sec_remap os a n N mc' = (b, mc'')" for a n mc' b mc''
    using unmapped_remap [of os a n N mc'] that by simp
  then show ?thesis by (auto simp: mapSecondary_def Let_def split: prod.splits)
qed

lemma unmapped_fold: "unmapped (fold sec_unmap Maps mc) = unmapped mc + mset Maps"
  by (induction Maps arbitrary: mc) simp_all

section \<open>Inserting and removing entries\<close>

lemma prev_of_none: "E \<notin> set B \<Longrightarrow> prev_of E (Y # B) = None"
  by (induction B arbitrary: Y) auto

lemma prev_of_split:
  "E \<notin> set A \<Longrightarrow> E \<notin> set B \<Longrightarrow> prev_of E (A @ E # B) = (if A = [] then None else Some (last A))"
proof (induction A)
  case Nil
  then show ?case by (simp add: prev_of_none)
next
  case (Cons X A)
  then show ?case by (cases A) auto
qed

lemma lru_maps_upd: "X \<notin> set xs \<Longrightarrow> map (\<lambda>E. f (es[X := b] ! E)) xs = map (\<lambda>E. f (es ! E)) xs"
  by (induction xs) auto

lemma oldest_ok_cong: "(\<And>E. E \<in> set lru \<Longrightarrow> t E = t' E) \<Longrightarrow> oldest_ok t lru o1 = oldest_ok t' lru o1"
  by (auto simp: oldest_ok_def split: option.splits) (metis Un_iff set_append set_subset_Cons subset_eq)+

lemma oldest_ok_insert:
  assumes "oldest_ok t lru oldest"
  shows "oldest_ok t (X # lru) (if oldest = None \<and> t X \<noteq> 0 then Some X else oldest)"
  using assms by (auto simp: oldest_ok_def split: option.splits) (metis append_Cons)+

lemma oldest_ok_remove:
  assumes "distinct lru" "E \<in> set lru" "oldest_ok t lru oldest"
  shows "oldest_ok t (remove1 E lru) (if oldest = Some E then prev_of E lru else oldest)"
proof (cases oldest)
  case None
  then show ?thesis using assms by (auto simp: oldest_ok_def dest: notin_set_remove1 in_set_remove1 [THEN iffD1, rotated])
next
  case (Some X)
  then obtain A B where s: "lru = A @ X # B" "\<forall>Y \<in> set B. t Y = 0" using assms(3) by (auto simp: oldest_ok_def)
  then have X: "X \<notin> set A" "X \<notin> set B" using assms(1) by auto
  consider "E = X" | "E \<noteq> X" "E \<in> set A" | "E \<noteq> X" "E \<in> set B" "E \<notin> set A" using assms(2) s(1) by auto
  then show ?thesis
  proof cases
    case 1
    show ?thesis
    proof (cases "A = []")
      case True
      then show ?thesis using 1 Some s X by (simp add: oldest_ok_def prev_of_none)
    next
      case False
      then obtain A' Z where A: "A = A' @ [Z]" by (metis append_butlast_last_id)
      have "remove1 X lru = A' @ Z # B" using s(1) X A by (simp add: remove1_append)
      moreover have "prev_of X lru = Some Z" using prev_of_split [OF X] A s(1) by simp
      ultimately show ?thesis using 1 Some s by (auto simp: oldest_ok_def)
    qed
  next
    case 2
    then have "remove1 E lru = remove1 E A @ X # B" by (simp add: s(1) remove1_append)
    then show ?thesis using 2 Some s(2) by (auto simp: oldest_ok_def)
  next
    case 3
    then have "remove1 E lru = A @ X # remove1 E B" by (simp add: s(1) remove1_append)
    moreover have "set (remove1 E B) \<subseteq> set B" by (rule set_remove1_subset)
    ultimately show ?thesis using 3 Some s(2) by (auto simp: oldest_ok_def)
  qed
qed

lemma cache_insert_inv:
  assumes "cache_inv cfg c" "AvailEntries c \<noteq> []" "block_isValid Entry"
  shows "\<exists>c'. cache_insert Entry c = Inr c' \<and> cache_inv cfg c' \<and> cached_maps c' = add_mset (CBMemMap Entry) (cached_maps c)"
proof -
  obtain A As where A: "AvailEntries c = A # As" using assms(2) by (cases "AvailEntries c") auto
  have n: "A < length (Entries c)" "A \<notin> set (LRUEntries c)" using assms(1) A by (auto simp: cache_inv_def)
  define c' where "c' = c\<lparr>AvailEntries := As, Entries := (Entries c)[A := Entry], LRUEntries := A # LRUEntries c,
                 OldestPresentEntry := (if OldestPresentEntry c = None \<and> CBTime Entry \<noteq> 0 then Some A
                                        else OldestPresentEntry c)\<rparr>"
  have t: "entry_time c' E = entry_time c E" if "E \<in> set (LRUEntries c)" for E
    using n(2) that by (cases "E = A") (auto simp: entry_time_def c'_def)
  have tA: "entry_time c' A = CBTime Entry" using n(1) by (simp add: entry_time_def c'_def)
  have "oldest_ok (entry_time c') (LRUEntries c) (OldestPresentEntry c)"
    using assms(1) oldest_ok_cong [of "LRUEntries c" "entry_time c'" "entry_time c"] t by (simp add: cache_inv_def)
  from oldest_ok_insert [OF this, of A]
  have o: "oldest_ok (entry_time c') (LRUEntries c') (OldestPresentEntry c')" by (simp add: tA) (simp add: c'_def)
  have "cache_inv cfg c'"
    using assms(1,3) n A o unfolding cache_inv_def by (auto simp: c'_def nth_list_update)
  moreover have "cached_maps c' = add_mset (CBMemMap Entry) (cached_maps c)"
    using n lru_maps_upd [OF n(2), of CBMemMap "Entries c" Entry] by (simp add: cached_maps_def lru_maps_def c'_def del: mset_map map_eq_conv)
  ultimately show ?thesis by (simp add: cache_insert_def A c'_def)
qed

lemma cache_remove_inv:
  assumes "cache_inv cfg c" "E \<in> set (LRUEntries c)"
  shows "cache_inv cfg (cache_remove E c)"
    and "cached_maps c = add_mset (CBMemMap (Entries c ! E)) (cached_maps (cache_remove E c))"
proof -
  let ?c = "cache_remove E c"
  have d: "distinct (LRUEntries c)" "E < length (Entries c)" using assms by (auto simp: cache_inv_def)
  then have rem: "set (remove1 E (LRUEntries c)) = set (LRUEntries c) - {E}" by simp
  have t: "entry_time ?c X = entry_time c X" for X
    using d(2) by (cases "X = E") (simp_all add: entry_time_def cache_remove_def block_invalidate_def)
  have "oldest_ok (entry_time ?c) (LRUEntries ?c) (OldestPresentEntry ?c)"
    using oldest_ok_remove [OF d(1) assms(2), of "entry_time c" "OldestPresentEntry c"] assms(1)
      oldest_ok_cong [of "LRUEntries ?c" "entry_time ?c" "entry_time c" "OldestPresentEntry ?c"] t
    by (simp add: cache_inv_def) (simp add: cache_remove_def)
  then show "cache_inv cfg ?c"
    using assms d rem unfolding cache_inv_def by (auto simp: cache_remove_def insert_absorb distinct_remove1)
  have "mset (LRUEntries c) = add_mset E (mset (remove1 E (LRUEntries c)))" using assms(2) by simp
  then have "lru_maps c = add_mset (CBMemMap (Entries c ! E)) (mset (map (\<lambda>X. CBMemMap (Entries c ! X)) (remove1 E (LRUEntries c))))"
    unfolding lru_maps_def mset_map by (simp only: image_mset_add_mset)
  moreover have "E \<notin> set (remove1 E (LRUEntries c))" using rem by simp
  note lru_maps_upd [OF this, of CBMemMap "Entries c" "block_invalidate (Entries c ! E)"]
  ultimately show "cached_maps c = add_mset (CBMemMap (Entries c ! E)) (cached_maps ?c)"
    by (simp add: cached_maps_def lru_maps_def cache_remove_def del: mset_map map_eq_conv)
qed

lemma cache_remove_simps [simp]:
  "MaxEntriesCount (cache_remove E c) = MaxEntriesCount c" "SecQuarantine (cache_remove E c) = SecQuarantine c"
  "QuarantinePos (cache_remove E c) = QuarantinePos c" "LRUEntries (cache_remove E c) = remove1 E (LRUEntries c)"
  by (simp_all add: cache_remove_def)

lemma lru_short: "cache_inv cfg c \<Longrightarrow> length (LRUEntries c) \<le> unat (EntriesArraySize cfg)"
  by (metis (no_types, lifting) cache_inv_def card_lessThan card_mono distinct_append distinct_card finite_lessThan
      set_append sup_ge1)

lemma avail_left:
  assumes "cache_inv cfg c" "length (LRUEntries c) < unat (MaxEntriesCount c)"
  shows "AvailEntries c \<noteq> []"
proof
  assume "AvailEntries c = []"
  then have "distinct (LRUEntries c)" "set (LRUEntries c) = {..< unat (EntriesArraySize cfg)}"
    using assms(1) by (simp_all add: cache_inv_def)
  then have "length (LRUEntries c) = unat (EntriesArraySize cfg)" by (metis card_lessThan distinct_card)
  moreover have "unat (MaxEntriesCount c) \<le> unat (EntriesArraySize cfg)"
    using assms(1) by (simp add: cache_inv_def word_le_nat_alt)
  ultimately show False using assms(2) by simp
qed

lemma evict_inv:
  assumes "cache_inv cfg c" "MaxEntriesCount c \<noteq> 0" "length (LRUEntries c) \<le> fuel"
  shows "\<exists>c' Ms. evict fuel c Maps = Inr (c', Maps @ Ms) \<and> cache_inv cfg c' \<and> AvailEntries c' \<noteq> []
    \<and> cached_maps c = cached_maps c' + mset Ms"
  using assms
proof (induction fuel arbitrary: c Maps)
  case 0
  then have "LRUEntries c = []" by simp
  moreover have "unat (MaxEntriesCount c) \<noteq> 0" using "0.prems"(2) by (simp add: unat_eq_0)
  then have "AvailEntries c \<noteq> []" using avail_left [OF "0.prems"(1)] calculation by simp
  moreover have "\<not> (0 :: uptr) \<ge> ucast (MaxEntriesCount c)"
    using \<open>unat (MaxEntriesCount c) \<noteq> 0\<close> by (simp add: word_le_nat_alt unat_ucast_up)
  ultimately show ?case using "0.prems" by simp
next
  case (Suc n)
  have len: "length (LRUEntries c) < 2 ^ 64"
  proof -
    have "unat (EntriesArraySize cfg) < 4294967296" by (rule unat_less_32)
    then have "length (LRUEntries c) < 4294967296" using lru_short [OF Suc.prems(1)] by linarith
    then show ?thesis by simp
  qed
  have test: "(of_nat (length (LRUEntries c)) \<ge> (ucast (MaxEntriesCount c) :: uptr))
      \<longleftrightarrow> unat (MaxEntriesCount c) \<le> length (LRUEntries c)"
    using len by (simp add: word_le_nat_alt unat_ucast_up unat_of_nat_small)
  show ?case
  proof (cases "unat (MaxEntriesCount c) \<le> length (LRUEntries c)")
    case False
    then have "AvailEntries c \<noteq> []" using avail_left [OF Suc.prems(1)] by simp
    then show ?thesis using False test Suc.prems by simp
  next
    case True
    then have ne: "LRUEntries c \<noteq> []" using Suc.prems(2) by (auto simp: unat_eq_0)
    let ?E = "last (LRUEntries c)"
    have E: "?E \<in> set (LRUEntries c)" using ne by simp
    note r = cache_remove_inv [OF Suc.prems(1) E]
    have l: "length (LRUEntries (cache_remove ?E c)) \<le> n" using Suc.prems(3) E by (simp add: length_remove1)
    obtain c' Ms where ev: "evict n (cache_remove ?E c) (Maps @ [CBMemMap (Entries c ! ?E)])
        = Inr (c', (Maps @ [CBMemMap (Entries c ! ?E)]) @ Ms)"
      "cache_inv cfg c'" "AvailEntries c' \<noteq> []" "cached_maps (cache_remove ?E c) = cached_maps c' + mset Ms"
      using Suc.IH [OF r(1) _ l] Suc.prems(2) by (metis cache_remove_simps(1))
    then have "evict (Suc n) c Maps = Inr (c', Maps @ (CBMemMap (Entries c ! ?E) # Ms))"
      using True test ne by simp
    then show ?thesis using ev r(2) by force
  qed
qed

section \<open>Releasing\<close>

lemma release_walk_inv:
  assumes "\<forall>X \<in> set Es. X < length es"
  shows "\<exists>oldest es' mc'. release_walk T Es es mc = (oldest, es', mc') \<and> length es' = length es \<and> unmapped mc' = unmapped mc
    \<and> (\<forall>X. CBMemMap (es' ! X) = CBMemMap (es ! X) \<and> block_isValid (es' ! X) = block_isValid (es ! X)
          \<and> (CBTime (es' ! X) = 0 \<or> CBTime (es' ! X) = CBTime (es ! X)))
    \<and> (case oldest of None \<Rightarrow> \<forall>X \<in> set Es. CBTime (es' ! X) = 0
       | Some E \<Rightarrow> \<exists>A B. Es = A @ E # B \<and> (\<forall>X \<in> set A. CBTime (es' ! X) = 0) \<and> CBTime (es' ! E) > T)"
  using assms
proof (induction Es arbitrary: es mc)
  case Nil
  then show ?case by simp
next
  case (Cons E Es)
  show ?case
  proof (cases "CBTime (es ! E) > T")
    case True
    then show ?thesis by force
  next
    case False
    let ?es = "es[E := (es ! E)\<lparr>CBTime := 0\<rparr>]" and ?mc = "sec_release (CBCommitBase (es ! E)) (CBCommitSize (es ! E)) mc"
    have E: "E < length es" using Cons.prems by simp
    have "\<forall>X \<in> set Es. X < length ?es" using Cons.prems by simp
    from Cons.IH [OF this, of ?mc] obtain oldest es' mc' where
      r: "release_walk T Es ?es ?mc = (oldest, es', mc')" "length es' = length es" "unmapped mc' = unmapped mc"
      and k: "\<And>X. CBMemMap (es' ! X) = CBMemMap (?es ! X) \<and> block_isValid (es' ! X) = block_isValid (?es ! X)
          \<and> (CBTime (es' ! X) = 0 \<or> CBTime (es' ! X) = CBTime (?es ! X))"
      and o: "case oldest of None \<Rightarrow> \<forall>X \<in> set Es. CBTime (es' ! X) = 0
       | Some E \<Rightarrow> \<exists>A B. Es = A @ E # B \<and> (\<forall>X \<in> set A. CBTime (es' ! X) = 0) \<and> CBTime (es' ! E) > T" by auto
    have e0: "CBTime (es' ! E) = 0" using k [of E] E by auto
    have k': "CBMemMap (es' ! X) = CBMemMap (es ! X) \<and> block_isValid (es' ! X) = block_isValid (es ! X)
          \<and> (CBTime (es' ! X) = 0 \<or> CBTime (es' ! X) = CBTime (es ! X))" for X
      using k [of X] E e0 by (cases "X = E") (auto simp: block_isValid_def)
    have "case oldest of None \<Rightarrow> \<forall>X \<in> set (E # Es). CBTime (es' ! X) = 0
       | Some F \<Rightarrow> \<exists>A B. E # Es = A @ F # B \<and> (\<forall>X \<in> set A. CBTime (es' ! X) = 0) \<and> CBTime (es' ! F) > T"
    proof (cases oldest)
      case None
      then show ?thesis using o e0 by simp
    next
      case (Some F)
      then obtain A B where "Es = A @ F # B" "\<forall>X \<in> set A. CBTime (es' ! X) = 0" "CBTime (es' ! F) > T" using o by auto
      then have "E # Es = (E # A) @ F # B" "\<forall>X \<in> set (E # A). CBTime (es' ! X) = 0" "CBTime (es' ! F) > T"
        using e0 by simp_all
      then show ?thesis unfolding Some option.case by blast
    qed
    then show ?thesis using False r k' by auto
  qed
qed

lemma release_quarantine_inv:
  "\<exists>q' mc'. release_quarantine T q mc = (q', mc') \<and> length q' = length q \<and> unmapped mc' = unmapped mc
    \<and> quarantine_maps q' = quarantine_maps q"
proof (induction q arbitrary: mc)
  case Nil
  show ?case by simp
next
  case (Cons E q)
  show ?case
  proof (cases "\<not> block_isValid E \<or> CBTime E = 0 \<or> CBTime E > T")
    case True
    then show ?thesis using Cons [of mc] by (auto simp: quarantine_maps_def)
  next
    case False
    then show ?thesis using Cons [of "sec_release (CBCommitBase E) (CBCommitSize E) mc"]
      by (auto simp: quarantine_maps_def block_isValid_def)
  qed
qed

lemma oldest_ok_release:
  assumes inv: "oldest_ok t lru oldest" "distinct lru"
    and t': "\<And>X. t' X = 0 \<or> t' X = t X"
    and walk: "case oldest' of None \<Rightarrow> \<forall>X \<in> set (walk_from oldest lru). t' X = 0
       | Some E \<Rightarrow> \<exists>A B. walk_from oldest lru = A @ E # B \<and> (\<forall>X \<in> set A. t' X = 0)"
  shows "oldest_ok t' lru oldest'"
proof (cases oldest)
  case None
  then have "oldest' = None" using walk by (auto simp: walk_from_def split: option.splits)
  then show ?thesis using inv(1) t' None by (auto simp: oldest_ok_def) (metis)
next
  case (Some F)
  then obtain A B where s: "lru = A @ F # B" "\<forall>X \<in> set B. t X = 0" using inv(1) by (auto simp: oldest_ok_def)
  then have "takeWhile (\<lambda>X. X \<noteq> F) lru = A" using inv(2) by (auto simp: takeWhile_append)
  then have w: "walk_from oldest lru = F # rev A" by (simp add: walk_from_def Some)
  have B0: "t' X = 0" if "X \<in> set B" for X using s(2) t' [of X] that by auto
  show ?thesis
  proof (cases oldest')
    case None
    then have "\<forall>X \<in> set (F # rev A). t' X = 0" using walk by (simp add: w)
    then have "\<forall>X \<in> set lru. t' X = 0" using B0 by (auto simp: s(1))
    then show ?thesis using None by (simp add: oldest_ok_def)
  next
    case (Some E)
    then obtain C D where cd: "F # rev A = C @ E # D" "\<forall>X \<in> set C. t' X = 0" using walk w by auto
    then have "rev (F # rev A) = rev D @ E # rev C" by simp
    then have "lru = rev D @ E # (rev C @ B)" by (simp add: s(1))
    moreover have "\<forall>X \<in> set (rev C @ B). t' X = 0" using cd(2) B0 by auto
    ultimately show ?thesis unfolding oldest_ok_def Some option.case by blast
  qed
qed

lemma releaseOlderThan_inv:
  assumes "cache_inv cfg c"
  shows "\<exists>c' mc'. releaseOlderThan cfg T c mc = (c', mc') \<and> cache_inv cfg c' \<and> cached_maps c' = cached_maps c
    \<and> unmapped mc' = unmapped mc \<and> LRUEntries c' = LRUEntries c
    \<and> (\<forall>E \<in> set (walk_from (OldestPresentEntry c) (LRUEntries c)). OldestPresentEntry c' = None \<longrightarrow> entry_time c' E = 0)
    \<and> (OldestPresentEntry c' \<noteq> None \<longrightarrow> (\<exists>E. entry_time c' E > T))"
proof -
  obtain q mc1 where q: "(if SecQuarantineDisabled cfg then (SecQuarantine c, mc) else release_quarantine T (SecQuarantine c) mc) = (q, mc1)"
    "length q = length (SecQuarantine c)" "unmapped mc1 = unmapped mc" "quarantine_maps q = quarantine_maps (SecQuarantine c)"
    using release_quarantine_inv [of T "SecQuarantine c" mc] by (cases "SecQuarantineDisabled cfg") auto
  let ?W = "walk_from (OldestPresentEntry c) (LRUEntries c)"
  have o: "oldest_ok (entry_time c) (LRUEntries c) (OldestPresentEntry c)" using assms by (simp add: cache_inv_def)
  then have "set ?W \<subseteq> set (LRUEntries c)"
    by (auto simp: walk_from_def oldest_ok_def split: option.splits dest: set_takeWhileD)
  then have W: "\<forall>X \<in> set ?W. X < length (Entries c)" using assms by (auto simp: cache_inv_def)
  obtain oldest es mc2 where r: "release_walk T ?W (Entries c) mc1 = (oldest, es, mc2)"
    "length es = length (Entries c)" "unmapped mc2 = unmapped mc1"
    and k: "\<And>X. CBMemMap (es ! X) = CBMemMap (Entries c ! X) \<and> block_isValid (es ! X) = block_isValid (Entries c ! X)
          \<and> (CBTime (es ! X) = 0 \<or> CBTime (es ! X) = CBTime (Entries c ! X))"
    and os: "case oldest of None \<Rightarrow> \<forall>X \<in> set ?W. CBTime (es ! X) = 0
       | Some E \<Rightarrow> \<exists>A B. ?W = A @ E # B \<and> (\<forall>X \<in> set A. CBTime (es ! X) = 0) \<and> CBTime (es ! E) > T"
    using release_walk_inv [OF W, of T mc1] by auto
  define c' where "c' = c\<lparr>SecQuarantine := q, OldestPresentEntry := oldest, Entries := es\<rparr>"
  have e: "releaseOlderThan cfg T c mc = (c', mc2)" using q(1) r(1) by (simp add: releaseOlderThan_def c'_def)
  have t: "entry_time c' X = CBTime (es ! X)" for X by (simp add: entry_time_def c'_def)
  have "oldest_ok (entry_time c') (LRUEntries c) oldest"
    by (rule oldest_ok_release [OF o]) (use assms k os t in \<open>auto simp: cache_inv_def entry_time_def split: option.splits\<close>)
  then have "cache_inv cfg c'" using assms k q(2) r(2) by (simp add: cache_inv_def c'_def)
  moreover have "cached_maps c' = cached_maps c" using q(4) k by (simp add: cached_maps_def lru_maps_def c'_def)
  moreover have "OldestPresentEntry c' \<noteq> None \<longrightarrow> (\<exists>E. entry_time c' E > T)"
    using os t by (auto simp: c'_def)
  moreover have "\<forall>E \<in> set ?W. OldestPresentEntry c' = None \<longrightarrow> entry_time c' E = 0" using os t by (auto simp: c'_def)
  ultimately show ?thesis using e q(3) r(3) by (simp add: c'_def)
qed

text \<open>What \<^verbatim>\<open>releaseToOS\<close> returns to the system: the blocks in the cache are those of the list and
  the valid ones of the quarantine; a block has pages to release when its time is not 0.\<close>

definition lru_blocks :: "sec_cache \<Rightarrow> cached_block list" where
  "lru_blocks c = map ((!) (Entries c)) (LRUEntries c)"

definition quarantined_blocks :: "sec_config \<Rightarrow> sec_cache \<Rightarrow> cached_block list" where
  "quarantined_blocks cfg c = (if SecQuarantineDisabled cfg then [] else filter block_isValid (SecQuarantine c))"

definition call_release :: "cached_block \<Rightarrow> sec_call" where
  "call_release B = CallRelease (CBCommitBase B) (CBCommitSize B)"

lemma release_walk_all:
  assumes "\<forall>X \<in> set Es. X < length es"
  shows "\<exists>es' mc'. release_walk (- 1) Es es mc = (None, es', mc')
    \<and> (\<forall>X. es' ! X = (if X \<in> set Es then (es ! X)\<lparr>CBTime := 0\<rparr> else es ! X))
    \<and> snd mc' = snd mc @ map (\<lambda>E. call_release (es ! E)) Es"
  using assms
proof (induction Es arbitrary: es mc)
  case (Cons E Es)
  let ?es = "es[E := (es ! E)\<lparr>CBTime := 0\<rparr>]" and ?mc = "sec_release (CBCommitBase (es ! E)) (CBCommitSize (es ! E)) mc"
  have le: "\<not> CBTime (es ! E) > - 1" using word_n1_ge [of "CBTime (es ! E)"] by (simp only: not_less)
  have E: "E < length es" and "\<forall>X \<in> set Es. X < length ?es" using Cons.prems by simp_all
  from Cons.IH [OF this(2), of ?mc] obtain es' mc' where
    r: "release_walk (- 1) Es ?es ?mc = (None, es', mc')"
      "\<forall>X. es' ! X = (if X \<in> set Es then (?es ! X)\<lparr>CBTime := 0\<rparr> else ?es ! X)"
      "snd mc' = snd ?mc @ map (\<lambda>E. call_release (?es ! E)) Es" by blast
  have c: "call_release (?es ! X) = call_release (es ! X)" for X
    using E by (cases "X = E") (simp_all add: call_release_def)
  have "snd ?mc = snd mc @ [call_release (es ! E)]" by (cases mc) (simp add: sec_release_def call_release_def)
  moreover have "es' ! X = (if X \<in> set (E # Es) then (es ! X)\<lparr>CBTime := 0\<rparr> else es ! X)" for X
    using r(2) E by (cases "X = E") simp_all
  ultimately show ?case using r(1,3) le by (simp add: c)
qed simp

lemma release_quarantine_all:
  "\<exists>q' mc'. release_quarantine (- 1) q mc = (q', mc')
    \<and> filter block_isValid q' = map (\<lambda>B. B\<lparr>CBTime := 0\<rparr>) (filter block_isValid q)
    \<and> snd mc' = snd mc @ map call_release (filter (\<lambda>B. block_isValid B \<and> CBTime B \<noteq> 0) q)"
proof (induction q arbitrary: mc)
  case (Cons E q)
  have le: "\<not> CBTime E > - 1" using word_n1_ge [of "CBTime E"] by (simp only: not_less)
  have "snd (sec_release (CBCommitBase E) (CBCommitSize E) mc) = snd mc @ [call_release E]"
    by (cases mc) (simp add: sec_release_def call_release_def)
  then show ?case
    using Cons.IH [of mc] Cons.IH [of "sec_release (CBCommitBase E) (CBCommitSize E) mc"] le
    by (cases "block_isValid E"; cases "CBTime E = 0") (auto simp: block_isValid_def)
qed simp

lemma present_in_walk:
  assumes "oldest_ok t lru oldest" "distinct lru" "E \<in> set lru" "t E \<noteq> 0"
  shows "E \<in> set (walk_from oldest lru)" "set (walk_from oldest lru) \<subseteq> set lru"
proof -
  obtain F where F: "oldest = Some F" using assms by (cases oldest) (auto simp: oldest_ok_def)
  then obtain A B where s: "lru = A @ F # B" "\<forall>X \<in> set B. t X = 0" using assms(1) by (auto simp: oldest_ok_def)
  then have "takeWhile (\<lambda>X. X \<noteq> F) lru = A" using assms(2) by (auto simp: takeWhile_append)
  then have w: "set (walk_from oldest lru) = insert F (set A)" by (simp add: walk_from_def F)
  show "E \<in> set (walk_from oldest lru)" using assms(3,4) s unfolding w by auto
  show "set (walk_from oldest lru) \<subseteq> set lru" using s unfolding w by auto
qed

lemma releaseToOS_releases:
  assumes inv: "cache_inv cfg c" and r: "sec_cache_releaseToOS cfg c mc = (c', mc')"
  shows "\<exists>calls. snd mc' = snd mc @ calls
    \<and> (\<forall>B \<in> set (lru_blocks c @ quarantined_blocks cfg c). CBTime B \<noteq> 0 \<longrightarrow> call_release B \<in> set calls)
    \<and> set calls \<subseteq> call_release ` set (lru_blocks c @ quarantined_blocks cfg c)
    \<and> lru_blocks c' = map (\<lambda>B. B\<lparr>CBTime := 0\<rparr>) (lru_blocks c)
    \<and> quarantined_blocks cfg c' = map (\<lambda>B. B\<lparr>CBTime := 0\<rparr>) (quarantined_blocks cfg c)"
proof -
  let ?W = "walk_from (OldestPresentEntry c) (LRUEntries c)"
  have o: "oldest_ok (entry_time c) (LRUEntries c) (OldestPresentEntry c)" and d: "distinct (LRUEntries c)"
    using inv by (simp_all add: cache_inv_def)
  have sub: "set ?W \<subseteq> set (LRUEntries c)"
    using o by (auto simp: walk_from_def oldest_ok_def split: option.splits dest: set_takeWhileD)
  then have W: "\<forall>X \<in> set ?W. X < length (Entries c)" using inv by (auto simp: cache_inv_def)
  obtain q mc1 where q: "(if SecQuarantineDisabled cfg then (SecQuarantine c, mc)
      else release_quarantine (- 1) (SecQuarantine c) mc) = (q, mc1)"
    "SecQuarantineDisabled cfg \<or> filter block_isValid q = map (\<lambda>B. B\<lparr>CBTime := 0\<rparr>) (filter block_isValid (SecQuarantine c))"
    "snd mc1 = snd mc @ map call_release (filter (\<lambda>B. CBTime B \<noteq> 0) (quarantined_blocks cfg c))"
    using release_quarantine_all [of "SecQuarantine c" mc]
    by (cases "SecQuarantineDisabled cfg") (auto simp: quarantined_blocks_def conj_commute)
  obtain es mc2 where e: "release_walk (- 1) ?W (Entries c) mc1 = (None, es, mc2)"
    "\<And>X. es ! X = (if X \<in> set ?W then (Entries c ! X)\<lparr>CBTime := 0\<rparr> else Entries c ! X)"
    "snd mc2 = snd mc1 @ map (\<lambda>E. call_release (Entries c ! E)) ?W"
    using release_walk_all [OF W, of mc1] by blast
  have c': "c' = c\<lparr>SecQuarantine := q, OldestPresentEntry := None, Entries := es\<rparr>" "mc' = mc2"
    using r q(1) e(1) by (simp_all add: sec_cache_releaseToOS_def releaseOlderThan_def)
  have walked: "E \<in> set ?W" if "E \<in> set (LRUEntries c)" "CBTime (Entries c ! E) \<noteq> 0" for E
    using present_in_walk(1) [OF o d that(1)] that(2) by (simp add: entry_time_def)
  have same: "B\<lparr>CBTime := 0\<rparr> = B" if "CBTime B = 0" for B :: cached_block
    using that by (cases B) simp
  have "es ! E = (Entries c ! E)\<lparr>CBTime := 0\<rparr>" if "E \<in> set (LRUEntries c)" for E
  proof (cases "E \<in> set ?W")
    case False
    then have "CBTime (Entries c ! E) = 0" using walked [OF that] by blast
    then show ?thesis using False e(2) [of E] by (simp add: same)
  qed (simp add: e(2))
  then have "lru_blocks c' = map (\<lambda>B. B\<lparr>CBTime := 0\<rparr>) (lru_blocks c)" by (simp add: lru_blocks_def c')
  moreover have "quarantined_blocks cfg c' = map (\<lambda>B. B\<lparr>CBTime := 0\<rparr>) (quarantined_blocks cfg c)"
    using q(2) by (auto simp: quarantined_blocks_def c')
  moreover define calls where "calls = map call_release (filter (\<lambda>B. CBTime B \<noteq> 0) (quarantined_blocks cfg c))
    @ map (\<lambda>E. call_release (Entries c ! E)) ?W"
  moreover have "snd mc' = snd mc @ calls" by (simp add: calls_def c' q(3) e(3))
  moreover have "call_release B \<in> set calls"
    if "B \<in> set (lru_blocks c @ quarantined_blocks cfg c)" "CBTime B \<noteq> 0" for B
    using that walked by (auto simp: calls_def lru_blocks_def)
  moreover have "set calls \<subseteq> call_release ` set (lru_blocks c @ quarantined_blocks cfg c)"
    using sub by (auto simp: calls_def lru_blocks_def)
  ultimately show ?thesis by blast
qed

section \<open>Storing and retrieving\<close>

lemma quarantine_maps_update:
  assumes "i < length q" "block_isValid E"
  shows "quarantine_maps (q[i := E]) + (if block_isValid (q ! i) then {#CBMemMap (q ! i)#} else {#})
    = add_mset (CBMemMap E) (quarantine_maps q)"
proof -
  have q: "q = take i q @ q ! i # drop (Suc i) q" using assms(1) by (simp add: id_take_nth_drop)
  have "q[i := E] = take i q @ E # drop (Suc i) q" using assms(1) by (simp add: upd_conv_take_nth_drop)
  then have "quarantine_maps (q[i := E]) = add_mset (CBMemMap E) (quarantine_maps (take i q) + quarantine_maps (drop (Suc i) q))"
    using assms(2) by (simp add: quarantine_maps_def)
  moreover have "quarantine_maps q = quarantine_maps (take i q)
      + (if block_isValid (q ! i) then {#CBMemMap (q ! i)#} else {#}) + quarantine_maps (drop (Suc i) q)"
    by (subst q) (simp add: quarantine_maps_def)
  ultimately show ?thesis by (simp add: add_ac)
qed

lemma store_put:
  assumes "cache_inv cfg c" "MaxEntriesCount c \<noteq> 0" "block_isValid Entry"
  shows "\<exists>c1 Ms c2. evict (length (LRUEntries c)) c [] = Inr (c1, Ms) \<and> cache_insert Entry c1 = Inr c2
    \<and> cache_inv cfg c2 \<and> cached_maps c2 + mset Ms = add_mset (CBMemMap Entry) (cached_maps c)"
proof -
  obtain c1 Ms where e: "evict (length (LRUEntries c)) c [] = Inr (c1, Ms)" "cache_inv cfg c1" "AvailEntries c1 \<noteq> []"
    "cached_maps c = cached_maps c1 + mset Ms"
    using evict_inv [OF assms(1,2) order.refl, of "[]"] by auto
  then show ?thesis using cache_insert_inv [OF e(2,3) assms(3)] by fastforce
qed

lemma cache_store_inv:
  assumes inv: "cache_inv cfg c" and room: "MaxEntriesCount c \<noteq> 0" and base: "CommitBase \<noteq> 0"
  shows "\<exists>c' mc'. cache_store cfg os lock_ok Opts CommitBase CommitSize Begin M c mc = Inr (c', mc')
    \<and> cache_inv cfg c' \<and> cached_maps c' + unmapped mc' = add_mset M (cached_maps c + unmapped mc)"
proof -
  let ?Tagging = "useMemoryTagging (SMaySupportMemoryTagging cfg) Opts" and ?I = "CacheReleaseToOsIntervalMs c"
  define E0 where "E0 = \<lparr>CBCommitBase = CommitBase, CBCommitSize = CommitSize, CBBlockBegin = Begin,
                   CBMemMap = M, CBTime = - 1 :: u64\<rparr>"
  obtain E1 mc1 where E1: "(if ?Tagging then
               if ?I = 0 then (E0\<lparr>CBTime := 0\<rparr>, snd (mapSecondary cfg os Opts CommitBase CommitSize CommitBase True mc))
               else (E0, sec_protect CommitBase CommitSize True mc)
             else (E0, mc)) = (E1, mc1)" by fastforce
  have E1v: "block_isValid E1" "CBMemMap E1 = M" "unmapped mc1 = unmapped mc"
    using E1 base by (auto simp: E0_def block_isValid_def split: if_splits)
  define E where "E = (if CBTime E1 \<noteq> 0 then E1\<lparr>CBTime := so_now os\<rparr> else E1)"
  have Ev: "block_isValid E" "CBMemMap E = M" using E1v by (simp_all add: E_def block_isValid_def)
  define fin where "fin = (\<lambda>(c', Maps, mc). let mc = fold sec_unmap Maps mc
     in if 0 \<le> sint ?I then (if lock_ok then releaseOlderThan cfg (so_now os - (scast ?I :: u64) * 1000000) c' mc
          else (c'\<lparr>ReleaseToOsSkips := ReleaseToOsSkips c' + 1\<rparr>, mc)) else (c', mc))"
  define putE where "putE = (\<lambda>c' Entry. bindE (evict (length (LRUEntries c')) c' []) (\<lambda>(c', Maps).
     bindE (cache_insert Entry c') (\<lambda>c'. Inr (fin (c', Maps, mc1)))))"
  have finI: "\<exists>c'' mc''. fin (c', Maps, mc1) = (c'', mc'') \<and> cache_inv cfg c'' \<and> cached_maps c'' = cached_maps c'
      \<and> unmapped mc'' = unmapped mc + mset Maps" if "cache_inv cfg c'" for c' Maps
  proof -
    have "MaxEntriesCount c' \<le> EntriesArraySize cfg" using that by (simp add: cache_inv_def)
    then have s: "cache_inv cfg (c'\<lparr>ReleaseToOsSkips := x\<rparr>)" "cached_maps (c'\<lparr>ReleaseToOsSkips := x\<rparr>) = cached_maps c'" for x
      by (simp_all add: cache_inv_same [OF _ _ _ _ _ _ that] cached_maps_def lru_maps_def)
    show ?thesis
      using releaseOlderThan_inv [OF that, of "so_now os - (scast ?I :: u64) * 1000000" "fold sec_unmap Maps mc1"] s that E1v(3)
      by (auto simp: fin_def Let_def unmapped_fold simp del: split_paired_Ex)
  qed
  have putI: "\<exists>c'' mc''. putE c' Entry = Inr (c'', mc'') \<and> cache_inv cfg c''
      \<and> cached_maps c'' + unmapped mc'' = add_mset (CBMemMap Entry) (cached_maps c' + unmapped mc)"
    if cp: "cache_inv cfg c'" "MaxEntriesCount c' \<noteq> 0" "block_isValid Entry" for c' Entry
  proof -
    obtain c1 Ms c2 where p: "evict (length (LRUEntries c')) c' [] = Inr (c1, Ms)" "cache_insert Entry c1 = Inr c2"
      "cache_inv cfg c2" "cached_maps c2 + mset Ms = add_mset (CBMemMap Entry) (cached_maps c')"
      using store_put [OF cp] by blast
    obtain c'' mc'' where "fin (c2, Ms, mc1) = (c'', mc'')" "cache_inv cfg c''" "cached_maps c'' = cached_maps c2"
      "unmapped mc'' = unmapped mc + mset Ms" using finI [OF p(3)] by blast
    then show ?thesis using p by (simp add: putE_def)
  qed
  have nt: "\<not> (?Tagging \<and> \<not> ?Tagging)" by blast
  show ?thesis
  proof (cases "\<not> SecQuarantineDisabled cfg \<and> SecQuarantineSize cfg \<noteq> 0")
    case False
    then have "cache_store cfg os lock_ok Opts CommitBase CommitSize Begin M c mc = putE c E"
      unfolding cache_store_def Let_def E0_def [symmetric] E1 prod.case if_not_P [OF nt] if_not_P [OF False]
        E_def putE_def fin_def by simp
    then show ?thesis using putI [OF inv room Ev(1)] Ev(2) by simp
  next
    case True
    define pos where "pos = (QuarantinePos c + 1) mod MaxU (SecQuarantineSize cfg) 1"
    have "unat pos < unat (SecQuarantineSize cfg)"
      using True by (auto simp: pos_def MaxU_max max_def unat_mod word_le_nat_alt unat_gt_0)
    then have pos: "unat pos < length (SecQuarantine c)" using inv by (simp add: cache_inv_def)
    define c1 where "c1 = c\<lparr>QuarantinePos := pos, SecQuarantine := (SecQuarantine c)[unat pos := E]\<rparr>"
    let ?Old = "SecQuarantine c ! unat pos"
    have "MaxEntriesCount c \<le> EntriesArraySize cfg" using inv by (simp add: cache_inv_def)
    then have c1: "cache_inv cfg c1" "MaxEntriesCount c1 = MaxEntriesCount c"
      by (simp_all add: cache_inv_same [OF _ _ _ _ _ _ inv] c1_def)
    have q: "cached_maps c1 + (if block_isValid ?Old then {#CBMemMap ?Old#} else {#}) = add_mset M (cached_maps c)"
      using quarantine_maps_update [OF pos Ev(1)] Ev(2) by (auto simp: cached_maps_def lru_maps_def c1_def)
    have st: "cache_store cfg os lock_ok Opts CommitBase CommitSize Begin M c mc
        = (if \<not> block_isValid ?Old then Inr (c1, mc1) else putE c1 ?Old)"
      unfolding cache_store_def Let_def E0_def [symmetric] E1 prod.case if_not_P [OF nt] if_P [OF True]
        E_def putE_def fin_def c1_def pos_def by simp
    show ?thesis
    proof (cases "block_isValid ?Old")
      case False
      then show ?thesis using st c1(1) q E1v(3) by simp
    next
      case True
      then show ?thesis using st putI [OF c1(1) _ True] c1(2) room q by (auto simp: add_ac)
    qed
  qed
qed

text \<open>What the search promises of the entry it picks: the header position it computes.\<close>

definition entry_fits ::
    "sec_config \<Rightarrow> uptr \<Rightarrow> uptr \<Rightarrow> uptr \<Rightarrow> uptr \<Rightarrow> cached_block \<Rightarrow> uptr \<Rightarrow> bool" where
  "entry_fits cfg MaxPages Size Alignment HeadersSize B Pos \<longleftrightarrow>
     Pos = roundDown (CBCommitBase B + CBCommitSize B - Size) Alignment - HeadersSize
     \<and> CBCommitBase B \<le> Pos \<and> Pos \<le> CBCommitBase B + CBCommitSize B
     \<and> Pos + HeadersSize \<le> CBCommitBase B + MaxPages * SPageSize cfg"

lemma retrieve_loop_fits:
  assumes "retrieve_loop cfg MaxPages Size Alignment HeadersSize es Es (d, F, p) = (d', F', p')"
  shows "(F', p') = (F, p)
    \<or> (\<exists>E \<in> set Es. F' = Some E \<and> entry_fits cfg MaxPages Size Alignment HeadersSize (es ! E) p')"
  using assms
proof (induction Es arbitrary: d F p)
  case Nil
  then show ?case by simp
next
  case (Cons E Es)
  let ?l = "retrieve_loop cfg MaxPages Size Alignment HeadersSize es Es"
  consider "?l (d, F, p) = (d', F', p')"
    | D q where "entry_fits cfg MaxPages Size Alignment HeadersSize (es ! E) q"
        "?l (D, Some E, q) = (d', F', p') \<or> (F', p') = (Some E, q)"
    using Cons.prems by (auto simp: Let_def entry_fits_def not_less split: if_splits)
  then show ?case
  proof cases
    case 1
    then show ?thesis using Cons.IH [of d F p] by auto
  next
    case 2
    then show ?thesis using Cons.IH [of D "Some E" q] by auto
  qed
qed

lemma cache_retrieve_inv:
  assumes "cache_inv cfg c" "cache_retrieve cfg MaxPages Size Alignment HeadersSize c mc = (Entry, Pos, c', mc')"
  shows "cache_inv cfg c' \<and> unmapped mc' = unmapped mc
    \<and> (if block_isValid Entry
       then (\<exists>E \<in> set (LRUEntries c). Entry = Entries c ! E \<and> LRUEntries c' = remove1 E (LRUEntries c)
               \<and> entry_fits cfg MaxPages Size Alignment HeadersSize Entry Pos)
            \<and> cached_maps c = add_mset (CBMemMap Entry) (cached_maps c')
       else cached_maps c' = cached_maps c)"
proof -
  define c0 where "c0 = c\<lparr>CallsToRetrieve := CallsToRetrieve c + 1\<rparr>"
  have mx: "MaxEntriesCount c \<le> EntriesArraySize cfg" using assms(1) by (simp add: cache_inv_def)
  have c0: "cache_inv cfg c0" "cached_maps c0 = cached_maps c" "LRUEntries c0 = LRUEntries c" "Entries c0 = Entries c"
    using mx by (simp_all add: cache_inv_same [OF _ _ _ _ _ _ assms(1)] c0_def cached_maps_def lru_maps_def)
  obtain d F p where l: "retrieve_loop cfg MaxPages Size Alignment HeadersSize (Entries c) (LRUEntries c) (- 1, None, 0) = (d, F, p)"
    by (cases "retrieve_loop cfg MaxPages Size Alignment HeadersSize (Entries c) (LRUEntries c) (- 1, None, 0)") auto
  have inv0: "\<not> block_isValid invalid_block" by (simp add: block_isValid_def invalid_block_def)
  show ?thesis
  proof (cases "LRUEntries c = [] \<or> F = None")
    case True
    then have "Entry = invalid_block" "c' = c0" "mc' = mc"
      using assms(2) l unfolding cache_retrieve_def Let_def c0_def by (auto split: if_splits)
    then show ?thesis using c0 inv0 by simp
  next
    case False
    then obtain E where F: "F = Some E" by blast
    then have E: "E \<in> set (LRUEntries c)" and fits: "entry_fits cfg MaxPages Size Alignment HeadersSize (Entries c ! E) p"
      using retrieve_loop_fits [OF l] by auto
    have r: "Entry = Entries c ! E" "Pos = p"
      "c' = (cache_remove E c0)\<lparr>SuccessfulRetrieves := SuccessfulRetrieves c + 1\<rparr>"
      "unmapped mc' = unmapped mc"
      using assms(2) l False F unfolding cache_retrieve_def Let_def c0_def by (auto split: if_splits)
    have E0: "E \<in> set (LRUEntries c0)" using E c0(3) by simp
    note rem = cache_remove_inv [OF c0(1) E0]
    have "MaxEntriesCount c0 \<le> EntriesArraySize cfg" using c0(1) by (simp add: cache_inv_def)
    then have "cache_inv cfg c'" unfolding r(3) by (intro cache_inv_same [OF _ _ _ _ _ _ rem(1)]) simp_all
    moreover have "cached_maps c' = cached_maps (cache_remove E c0)" by (simp add: r(3) cached_maps_def lru_maps_def)
    moreover have "block_isValid Entry" using assms(1) E r(1) by (simp add: cache_inv_def)
    ultimately show ?thesis using r fits E rem(2) c0 by auto
  qed
qed

lemma sec_setOption_inv:
  assumes "cache_inv cfg c"
  shows "cache_inv cfg (snd (sec_setOption cfg Opt Value c))" "cached_maps (snd (sec_setOption cfg Opt Value c)) = cached_maps c"
proof -
  have mx: "MaxEntriesCount c \<le> EntriesArraySize cfg" using assms by (simp add: cache_inv_def)
  show "cache_inv cfg (snd (sec_setOption cfg Opt Value c))"
    using mx assms by (cases Opt) (auto simp: sec_setOption_def MinU_min intro!: cache_inv_same [OF _ _ _ _ _ _ assms])
  show "cached_maps (snd (sec_setOption cfg Opt Value c)) = cached_maps c"
    by (cases Opt) (simp_all add: sec_setOption_def cached_maps_def lru_maps_def)
qed

lemma sec_cache_init_inv:
  "cache_inv cfg (sec_cache_init cfg Interval)" "cached_maps (sec_cache_init cfg Interval) = {#}"
proof -
  define c where "c = \<lparr>Entries = replicate (unat (EntriesArraySize cfg)) invalid_block, LRUEntries = [], AvailEntries = [0 ..< unat (EntriesArraySize cfg)],
               OldestPresentEntry = None,
               SecQuarantine = replicate (unat (SecQuarantineSize cfg)) invalid_block, QuarantinePos = 0,
               MaxEntriesCount = 0, MaxEntrySize = 0, CacheReleaseToOsIntervalMs = 0, CallsToRetrieve = 0,
               SuccessfulRetrieves = 0, ReleaseToOsSkips = 0\<rparr>"
  have c: "cache_inv cfg c" by (auto simp: cache_inv_def c_def oldest_ok_def)
  have m: "cached_maps c = {#}"
    by (simp add: cached_maps_def lru_maps_def quarantine_maps_def c_def block_isValid_def invalid_block_def)
  show "cache_inv cfg (sec_cache_init cfg Interval)" "cached_maps (sec_cache_init cfg Interval) = {#}"
    unfolding sec_cache_init_def Let_def c_def [symmetric]
    by (simp_all only: c m sec_setOption_inv)
qed

lemma sec_protect_fold: "unmapped (fold (\<lambda>E. sec_protect (a E) (b E) n) xs mc) = unmapped mc"
  by (induction xs arbitrary: mc) simp_all

lemma unmap_quarantine:
  "unmapped (fold (\<lambda>E. if block_isValid E then sec_unmap (CBMemMap E) else id) q mc) = unmapped mc + quarantine_maps q"
  by (induction q arbitrary: mc) (auto simp: quarantine_maps_def)

lemma not_valid_flushed: "\<not> block_isValid (if block_isValid E then block_invalidate E else E)"
  by (simp add: block_invalidate_def block_isValid_def)

lemma sec_cache_disable_inv:
  assumes "cache_inv cfg c" "sec_cache_disableMemoryTagging cfg c mc = (c', mc')"
  shows "cache_inv cfg c'" "cached_maps c' + unmapped mc' = cached_maps c + unmapped mc"
proof -
  have mx: "MaxEntriesCount c \<le> EntriesArraySize cfg" using assms(1) by (simp add: cache_inv_def)
  have q: "quarantine_maps (map (\<lambda>E. if block_isValid E then block_invalidate E else E) q) = {#}" for q
    using not_valid_flushed by (induction q) (simp_all add: quarantine_maps_def)
  have "c' = (if \<not> SecQuarantineDisabled cfg
      then c\<lparr>SecQuarantine := map (\<lambda>E. if block_isValid E then block_invalidate E else E) (SecQuarantine c), QuarantinePos := - 1\<rparr> else c)"
    using assms(2) by (cases "SecQuarantineDisabled cfg") (simp_all add: sec_cache_disableMemoryTagging_def)
  then show "cache_inv cfg c'"
    using mx assms(1) by (cases "SecQuarantineDisabled cfg") (simp_all add: cache_inv_same [OF _ _ _ _ _ _ assms(1)])
  show "cached_maps c' + unmapped mc' = cached_maps c + unmapped mc"
    using assms(2) q
    by (auto simp: sec_cache_disableMemoryTagging_def Let_def sec_protect_fold unmap_quarantine cached_maps_def lru_maps_def split: if_splits)
qed

section \<open>Every sequence of operations\<close>

text \<open>The states the cache can get into, with the mappings given to it and those taken from it. A
  block is stored only when \<^verbatim>\<open>canCache\<close> says so (the check of \<^verbatim>\<open>deallocate\<close>), and has an address.\<close>

inductive cache_run ::
    "sec_config \<Rightarrow> sec_cache \<Rightarrow> sec_mem \<Rightarrow> mem_map multiset \<Rightarrow> mem_map multiset \<Rightarrow> bool"
  for cfg where
  run_init: "cache_run cfg (sec_cache_init cfg Interval) (m, []) {#} {#}"
| run_store: "cache_run cfg c mc Given Taken \<Longrightarrow> cache_canCache Size c \<Longrightarrow> CommitBase \<noteq> 0 \<Longrightarrow>
    cache_store cfg os lock_ok Opts CommitBase Size Begin M c mc = Inr (c', mc') \<Longrightarrow>
    cache_run cfg c' mc' (add_mset M Given) Taken"
| run_retrieve: "cache_run cfg c mc Given Taken \<Longrightarrow>
    cache_retrieve cfg MaxPages Size Alignment HeadersSize c mc = (Entry, Pos, c', mc') \<Longrightarrow>
    cache_run cfg c' mc' Given (if block_isValid Entry then add_mset (CBMemMap Entry) Taken else Taken)"
| run_release: "cache_run cfg c mc Given Taken \<Longrightarrow> sec_cache_releaseToOS cfg c mc = (c', mc') \<Longrightarrow>
    cache_run cfg c' mc' Given Taken"
| run_option: "cache_run cfg c mc Given Taken \<Longrightarrow> cache_run cfg (snd (sec_setOption cfg Opt Value c)) mc Given Taken"
| run_disable: "cache_run cfg c mc Given Taken \<Longrightarrow> sec_cache_disableMemoryTagging cfg c mc = (c', mc') \<Longrightarrow>
    cache_run cfg c' mc' Given Taken"

inductive_cases run_storeE: "cache_run cfg c mc (add_mset M Given) Taken"

lemma cache_run_inv:
  assumes "cache_run cfg c mc Given Taken"
  shows "cache_inv cfg c \<and> Given = cached_maps c + Taken + unmapped mc"
  using assms
proof induction
  case (run_init Interval m)
  then show ?case using sec_cache_init_inv by (simp add: unmapped_def)
next
  case (run_store c mc Given Taken Size CommitBase os lock_ok Opts Begin M c' mc')
  then have "MaxEntriesCount c \<noteq> 0" by (simp add: cache_canCache_def)
  then have "cache_inv cfg c' \<and> cached_maps c' + unmapped mc' = add_mset M (cached_maps c + unmapped mc)"
    using cache_store_inv [of cfg c CommitBase os lock_ok Opts Size Begin M mc] run_store by auto
  then show ?case using run_store.IH by (auto simp: ac_simps)
next
  case (run_retrieve c mc Given Taken MaxPages Size Alignment HeadersSize Entry Pos c' mc')
  then show ?case using cache_retrieve_inv [of cfg c MaxPages Size Alignment HeadersSize mc Entry Pos c' mc'] by auto
next
  case (run_release c mc Given Taken c' mc')
  then show ?case using releaseOlderThan_inv [of cfg c "- 1" mc] by (auto simp: sec_cache_releaseToOS_def)
next
  case (run_option c mc Given Taken Opt Value)
  then show ?case using sec_setOption_inv [of cfg c Opt Value] by simp
next
  case (run_disable c mc Given Taken c' mc')
  have e: "cached_maps c' + unmapped mc' = cached_maps c + unmapped mc" "cache_inv cfg c'"
    using sec_cache_disable_inv [of cfg c mc c' mc'] run_disable by auto
  have "Given = Taken + (cached_maps c + unmapped mc)" using run_disable.IH by (simp add: ac_simps)
  then have "Given = Taken + (cached_maps c' + unmapped mc')" by (simp only: e(1))
  then show ?case using e(2) by (simp add: ac_simps)
qed


text \<open>A cache of two entries: a block is stored and retrieved again.\<close>

definition small_sec_config :: sec_config where
  "small_sec_config = \<lparr>EntriesArraySize = 2, SecQuarantineSize = 0, SecQuarantineDisabled = False,
     DefaultMaxEntriesCount = 2, DefaultMaxEntrySize = 0x10000, SMinReleaseToOsIntervalMs = 0,
     SMaxReleaseToOsIntervalMs = 1000, SDefaultReleaseToOsIntervalMs = 1000, EnableGuardPages = True,
     SPageSizeLog = 12, SMaySupportMemoryTagging = True\<rparr>"

definition small_sec_os :: sec_os where
  "small_sec_os = \<lparr>so_reserve = (\<lambda>_. Some 0x100000), so_remap = (\<lambda>_ _. True), so_now = 5000000000\<rparr>"


section \<open>Where a block lies\<close>

text \<open>\<open>P\<close> is the block returned, \<open>End\<close> its end, for an allocation of \<open>Size\<close> bytes aligned to \<open>A\<close>: the
  header of 48 bytes and the chunk header of 16 lie between the committed base and the aligned
  position, the bytes asked for end before \<open>End\<close>, and fewer than \<open>A\<close> bytes are unused behind them.\<close>

definition block_geometry :: "uptr \<Rightarrow> uptr \<Rightarrow> uptr \<Rightarrow> uptr \<Rightarrow> uptr \<Rightarrow> uptr \<Rightarrow> bool" where
  "block_geometry A Size CommitBase CommitSize P End \<longleftrightarrow>
     End = CommitBase + CommitSize \<and> unat End = unat CommitBase + unat CommitSize \<and> unat End < 2 ^ 56
     \<and> unat CommitBase + 48 \<le> unat P \<and> unat A dvd unat P + 16
     \<and> unat P + 16 + unat Size \<le> unat End \<and> unat End - (unat P + 16 + unat Size) < unat A"

lemma roundDown_bounds:
  assumes "isPowerOfTwo A"
  shows "unat A dvd unat (roundDown X A)" "unat (roundDown X A) \<le> unat X" "unat X < unat (roundDown X A) + unat A"
    "unat A dvd m \<Longrightarrow> m \<le> unat X \<Longrightarrow> m \<le> unat (roundDown X A)"
proof -
  obtain k where k: "k < 64" "A = 2 ^ k" "unat A = 2 ^ k" using assms by (rule isPowerOfTwoE)
  note u = unat_roundDown [OF k(2,1), of X]
  show "unat A dvd unat (roundDown X A)" by (simp add: u k(3))
  show "unat (roundDown X A) \<le> unat X" by (simp add: u div_times_less_eq_dividend)
  have "unat X = unat X div 2 ^ k * 2 ^ k + unat X mod 2 ^ k" by (simp only: div_mult_mod_eq)
  moreover have "unat X mod 2 ^ k < 2 ^ k" by simp
  ultimately show "unat X < unat (roundDown X A) + unat A" unfolding u k(3) by linarith
  show "m \<le> unat (roundDown X A)" if "unat A dvd m" "m \<le> unat X"
    using that by (simp add: u k(3)) (metis div_le_mono dvd_div_mult_self mult_le_mono1)
qed

lemma getHeadersSize_64: "getHeadersSize = 64"
  by (simp add: getHeadersSize_def getHeaderSize_def roundUp_def SCUDO_MIN_ALIGNMENT_LOG_def LargeBlock_getHeaderSize_def)

text \<open>An aligned position below the end of a committed range, with room for the headers.\<close>

lemma position_geometry:
  assumes A: "isPowerOfTwo A" and E: "unat CommitBase + unat CommitSize < 2 ^ 56"
    and S: "unat Size \<le> unat CommitBase + unat CommitSize"
    and room: "unat CommitBase + 64 \<le> unat (roundDown (CommitBase + CommitSize - Size) A)"
  shows "block_geometry A Size CommitBase CommitSize
    (roundDown (CommitBase + CommitSize - Size) A - getHeadersSize + LargeBlock_getHeaderSize) (CommitBase + CommitSize)"
proof -
  let ?P = "roundDown (CommitBase + CommitSize - Size) A"
  have e: "unat (CommitBase + CommitSize) = unat CommitBase + unat CommitSize" using E by (intro unat_add_small) simp
  then have x: "unat (CommitBase + CommitSize - Size) = unat CommitBase + unat CommitSize - unat Size"
    using S by (simp add: unat_sub word_le_nat_alt)
  note r = roundDown_bounds [OF A, where X = "CommitBase + CommitSize - Size"]
  have q: "?P - getHeadersSize + LargeBlock_getHeaderSize = ?P - 16" by (simp add: getHeadersSize_64 LargeBlock_getHeaderSize_def)
  have "unat (?P - 16) = unat ?P - 16" using room by (simp add: unat_sub word_le_nat_alt)
  then have p: "unat (?P - getHeadersSize + LargeBlock_getHeaderSize) + 16 = unat ?P" unfolding q using room by simp
  have "unat ?P + unat Size \<le> unat (CommitBase + CommitSize)" using r(2) S by (simp add: x e)
  moreover have "unat (CommitBase + CommitSize) - (unat ?P + unat Size) < unat A"
    using r(2,3) S unfolding x e by linarith
  ultimately show ?thesis using E e p room r(1) by (simp add: block_geometry_def)
qed

text \<open>A cached block that the search picked.\<close>

lemma entry_geometry:
  assumes A: "isPowerOfTwo A" "unat A \<le> 2 ^ 24" and S: "unat Size \<le> 2 ^ 60"
    and E: "unat (CBCommitBase B) + unat (CBCommitSize B) < 2 ^ 56"
    and fits: "entry_fits cfg MaxPages Size A getHeadersSize B Pos"
  shows "block_geometry A Size (CBCommitBase B) (CBCommitSize B) (Pos + LargeBlock_getHeaderSize)
    (CBCommitBase B + CBCommitSize B)"
proof -
  let ?C = "CBCommitBase B" and ?E = "CBCommitBase B + CBCommitSize B"
  let ?P = "roundDown (?E - Size) A"
  have e: "unat ?E = unat ?C + unat (CBCommitSize B)" using E by (intro unat_add_small) simp
  have Pos: "Pos = ?P - 64" "?C \<le> ?P - 64" "?P - 64 \<le> ?E"
    using fits by (auto simp: entry_fits_def getHeadersSize_64)
  have ge: "64 \<le> unat ?P"
  proof (rule ccontr)
    assume "\<not> 64 \<le> unat ?P"
    then have "unat (?P - 64) = 2 ^ 64 + unat ?P - 64" by (simp add: unat_sub_if')
    then show False using Pos(3) E by (simp add: word_le_nat_alt e)
  qed
  then have p: "unat (?P - 64) = unat ?P - 64" by (simp add: unat_sub word_le_nat_alt)
  have S2: "unat Size \<le> unat ?C + unat (CBCommitSize B)"
  proof (rule ccontr)
    assume n: "\<not> unat Size \<le> unat ?C + unat (CBCommitSize B)"
    then have "unat (?E - Size) = 2 ^ 64 + unat ?E - unat Size" by (simp add: unat_sub_if' e)
    then have "unat ?P + 2 ^ 24 \<ge> 2 ^ 64 - 2 ^ 60" using roundDown_bounds(3) [OF A(1), of "?E - Size"] A(2) S by linarith
    then show False using Pos(3) p E by (simp add: word_le_nat_alt e)
  qed
  have "unat ?C + 64 \<le> unat ?P" using Pos(2) p ge by (simp add: word_le_nat_alt)
  from position_geometry [OF A(1) E S2 this] show ?thesis using Pos(1) by (simp add: getHeadersSize_64)
qed

text \<open>A fresh mapping. The page size is a power of two of at least 64 bytes, the reservation is
  aligned to it.\<close>

definition page_ok :: "sec_config \<Rightarrow> bool" where
  "page_ok cfg \<longleftrightarrow> 6 \<le> SPageSizeLog cfg \<and> SPageSizeLog cfg \<le> 24"

lemma page_size:
  assumes "page_ok cfg"
  shows "isPowerOfTwo (SPageSize cfg)" "unat (SPageSize cfg) = 2 ^ SPageSizeLog cfg"
    "64 \<le> unat (SPageSize cfg)" "unat (SPageSize cfg) \<le> 2 ^ 24"
proof -
  have n: "SPageSizeLog cfg < 64" using assms by (simp add: page_ok_def)
  then show "isPowerOfTwo (SPageSize cfg)" by (simp add: SPageSize_def push_bit_of_1)
  show u: "unat (SPageSize cfg) = 2 ^ SPageSizeLog cfg" using n by (simp add: SPageSize_def push_bit_of_1 unat_power_of_2)
  have "(2 :: nat) ^ 6 \<le> 2 ^ SPageSizeLog cfg" using assms by (intro power_increasing) (simp_all add: page_ok_def)
  then show "64 \<le> unat (SPageSize cfg)" by (simp add: u)
  have "(2 :: nat) ^ SPageSizeLog cfg \<le> 2 ^ 24" using assms by (intro power_increasing) (simp_all add: page_ok_def)
  then show "unat (SPageSize cfg) \<le> 2 ^ 24" by (simp add: u)
qed

lemma power_two_dvd:
  assumes "isPowerOfTwo A" "isPowerOfTwo B" "unat A \<le> unat B"
  shows "unat A dvd unat B"
proof -
  obtain a b where "unat A = 2 ^ a" "unat B = 2 ^ b" using assms(1,2) by (metis isPowerOfTwoE)
  then show ?thesis using assms(3) by (auto intro: le_imp_power_dvd)
qed

lemma roundUp_64:
  assumes "isPowerOfTwo A" "unat X < 2 ^ 62" "unat A \<le> 2 ^ 24"
  shows "unat X \<le> unat (roundUp X A)" "unat (roundUp X A) < unat X + unat A" "unat A dvd unat (roundUp X A)"
    "\<And>m. unat A dvd m \<Longrightarrow> unat X \<le> m \<Longrightarrow> unat (roundUp X A) \<le> m"
proof -
  have "unat X + unat A \<le> 2 ^ 64" using assms(2,3) by simp
  from roundUp_least [OF assms(1) this]
  show "unat X \<le> unat (roundUp X A)" "unat (roundUp X A) < unat X + unat A" "unat A dvd unat (roundUp X A)"
    "\<And>m. unat A dvd m \<Longrightarrow> unat X \<le> m \<Longrightarrow> unat (roundUp X A) \<le> m"
    by (simp_all add: word_le_nat_alt)
qed

lemma guard_size: "page_ok cfg \<Longrightarrow> unat (SPageSize cfg) dvd unat (getGuardPageSize cfg)"
  "page_ok cfg \<Longrightarrow> unat (getGuardPageSize cfg) \<le> 2 ^ 24"
  using page_size(4) by (auto simp: getGuardPageSize_def)

text \<open>The size of the mapping, between its guard pages: at least the rounded size and the headers.\<close>

lemma rounded_size:
  assumes P: "page_ok cfg" and A: "isPowerOfTwo A" "16 \<le> unat A" "unat A \<le> 2 ^ 24" and S: "unat Size \<le> 2 ^ 50"
  defines "R \<equiv> unat (secondary_rounded_size cfg Size A)" and "S' \<equiv> unat (roundUp Size A)"
  shows "unat (SPageSize cfg) dvd R" "unat Size \<le> S'" "unat A dvd S'"
    "A < SPageSize cfg \<Longrightarrow> S' + 64 \<le> R" "\<not> A < SPageSize cfg \<Longrightarrow> S' + unat A \<le> R" "R \<le> 2 ^ 51"
proof -
  let ?P = "SPageSize cfg"
  note p = page_size [OF P]
  have Sl: "unat Size < 2 ^ 62" using S by simp
  note s = roundUp_64 [OF A(1) Sl A(3)]
  have u: "unat (roundUp Size A + 64) = S' + 64" using s(2) A(3) S by (simp add: unat_add_small S'_def)
  have l: "unat (roundUp Size A + 64) < 2 ^ 62" using u s(2) A(3) S by (simp add: S'_def)
  note r = roundUp_64 [OF p(1) l p(4)]
  define R0 where "R0 = roundUp (roundUp Size A + 64) ?P"
  have R0: "S' + 64 \<le> unat R0" "unat R0 < S' + 64 + unat ?P" "unat ?P dvd unat R0"
    using r(1-3) by (simp_all add: R0_def u)
  have e: "secondary_rounded_size cfg Size A = (if A > ?P then R0 + (A - ?P) else R0)"
    by (simp add: secondary_rounded_size_def R0_def getHeadersSize_64)
  have big: "unat (R0 + (A - ?P)) = unat R0 + (unat A - unat ?P)" if "A > ?P"
    using that R0(2) s(2) A(3) S p(4) by (simp add: unat_add_small unat_sub word_le_nat_alt word_less_nat_alt S'_def)
  have Rv: "R = unat R0 + (if A > ?P then unat A - unat ?P else 0)" using big by (simp add: R_def e)
  have dA: "unat ?P dvd unat A" if "\<not> A < ?P"
    using that by (intro power_two_dvd [OF p(1) A(1)]) (simp add: word_less_nat_alt)
  show "unat ?P dvd R" using R0(3) dA by (auto simp: Rv intro!: dvd_add dvd_diff_nat)
  show "unat Size \<le> S'" "unat A dvd S'" using s(1,3) by (simp_all add: S'_def)
  show "S' + 64 \<le> R" using R0(1) by (simp add: Rv)
  show "R \<le> 2 ^ 51" using R0(2) s(2) A(3) S p(4) by (auto simp: Rv S'_def)
  show "S' + unat A \<le> R" if n: "\<not> A < ?P"
  proof -
    have "unat ?P dvd unat R0 - S'" using R0(3) dA [OF n] s(3) by (auto simp: S'_def intro!: dvd_diff_nat elim: dvd_trans)
    moreover have "0 < unat R0 - S'" using R0(1) by simp
    ultimately have "unat ?P \<le> unat R0 - S'" by (rule dvd_imp_le)
    then show ?thesis using n R0(1) by (auto simp: Rv word_less_nat_alt)
  qed
qed

lemma fresh_geometry:
  assumes P: "page_ok cfg" and A: "isPowerOfTwo A" "16 \<le> unat A" "unat A \<le> 2 ^ 24" and S: "unat Size \<le> 2 ^ 50"
    and M: "unat (SPageSize cfg) dvd unat MBase" "unat MBase < 2 ^ 55"
  defines "MapSize \<equiv> secondary_rounded_size cfg Size A + 2 * getGuardPageSize cfg"
    and "CommitBase \<equiv> secondary_commit_base cfg MBase A"
  defines "CommitSize \<equiv> MBase + MapSize - getGuardPageSize cfg - CommitBase"
  shows "block_geometry A Size CommitBase CommitSize
      (roundDown (CommitBase + CommitSize - Size) A - getHeadersSize + LargeBlock_getHeaderSize) (CommitBase + CommitSize)"
    and "unat MBase + unat (getGuardPageSize cfg) \<le> unat CommitBase"
    and "unat CommitBase + unat CommitSize + unat (getGuardPageSize cfg) = unat MBase + unat MapSize"
proof -
  let ?P = "SPageSize cfg" and ?g = "getGuardPageSize cfg" and ?R = "secondary_rounded_size cfg Size A"
  note p = page_size [OF P] and g = guard_size [OF P]
  note r = rounded_size [OF P A S]
  have ms: "unat MapSize = unat ?R + 2 * unat ?g" using r(6) g(2) by (simp add: MapSize_def unat_add_small unat_word_ariths)
  have me: "unat (MBase + MapSize) = unat MBase + unat MapSize" using ms r(6) g(2) M(2) by (simp add: unat_add_small)
  have ends: "unat (MBase + MapSize - ?g) = unat MBase + unat ?R + unat ?g" using me ms by (simp add: unat_sub word_le_nat_alt)
  have b: "unat (MBase + ?g) = unat MBase + unat ?g" using M(2) g(2) by (simp add: unat_add_small)
  have pos: "unat MBase + unat ?g \<le> unat CommitBase \<and> unat CommitBase \<le> unat MBase + unat ?R + unat ?g
    \<and> (\<exists>m. unat A dvd m \<and> unat CommitBase + 64 \<le> m \<and> m + unat Size \<le> unat MBase + unat ?R + unat ?g)"
  proof (cases "A < ?P")
    case True
    then have cb: "CommitBase = MBase + ?g" by (auto simp: CommitBase_def secondary_commit_base_def)
    have d: "unat A dvd unat ?P" using True by (intro power_two_dvd [OF A(1) p(1)]) (simp add: word_less_nat_alt)
    have "unat A dvd unat MBase + unat ?R + unat ?g" using d M(1) r(1) g(1) by (meson dvd_add dvd_trans)
    then have "unat A dvd unat MBase + unat ?R + unat ?g - unat (roundUp Size A)" using r(3) by (rule dvd_diff_nat)
    then show ?thesis using cb b r(2,4) True
      by (auto intro!: exI [of _ "unat MBase + unat ?R + unat ?g - unat (roundUp Size A)"])
  next
    case False
    have d: "unat ?P dvd unat A" using False by (intro power_two_dvd [OF p(1) A(1)]) (simp add: word_less_nat_alt)
    have x: "unat (MBase + ?g + 1) = unat MBase + unat ?g + 1" using b M(2) g(2) by (simp add: unat_add_small)
    have xl: "unat (MBase + ?g + 1) < 2 ^ 62" using x M(2) g(2) by simp
    let ?U = "unat (roundUp (MBase + ?g + 1) A)"
    note u = roundUp_64 [OF A(1) xl A(3)]
    have "unat ?P dvd ?U - (unat MBase + unat ?g)" using u(3) d M(1) g(1) by (meson dvd_add dvd_diff_nat dvd_trans)
    moreover have "0 < ?U - (unat MBase + unat ?g)" using u(1) x by simp
    ultimately have ge: "unat ?P \<le> ?U - (unat MBase + unat ?g)" by (rule dvd_imp_le)
    have cb: "CommitBase = roundUp (MBase + ?g + 1) A - ?P" using False by (simp add: CommitBase_def secondary_commit_base_def not_less)
    have cv: "unat CommitBase = ?U - unat ?P" unfolding cb using ge by (intro unat_sub) (simp add: word_le_nat_alt)
    have le: "?U \<le> unat MBase + unat ?g + unat A" using u(2) x by simp
    show ?thesis
      using cv ge le u(3) r(2,5) False p(3) by (auto intro!: exI [of _ "?U"])
  qed
  then have c: "unat MBase + unat ?g \<le> unat CommitBase" "unat CommitBase \<le> unat MBase + unat ?R + unat ?g"
    and "\<exists>m. unat A dvd m \<and> unat CommitBase + 64 \<le> m \<and> m + unat Size \<le> unat MBase + unat ?R + unat ?g" by blast+
  then obtain m where m: "unat A dvd m" "unat CommitBase + 64 \<le> m" "m + unat Size \<le> unat MBase + unat ?R + unat ?g" by blast
  have cs: "unat CommitSize = unat MBase + unat ?R + unat ?g - unat CommitBase"
    unfolding CommitSize_def using c(2) ends by (subst unat_sub) (simp_all add: word_le_nat_alt)
  have tot: "unat CommitBase + unat CommitSize = unat MBase + unat ?R + unat ?g" using cs c(2) by simp
  have lim: "unat CommitBase + unat CommitSize < 2 ^ 56" using tot M(2) r(6) g(2) by simp
  have Sle: "unat Size \<le> unat CommitBase + unat CommitSize" using m(3) tot by simp
  have e: "unat (CommitBase + CommitSize) = unat CommitBase + unat CommitSize" using lim by (intro unat_add_small) simp
  then have x: "unat (CommitBase + CommitSize - Size) = unat CommitBase + unat CommitSize - unat Size"
    using Sle by (simp add: unat_sub word_le_nat_alt)
  have "m \<le> unat (roundDown (CommitBase + CommitSize - Size) A)"
    by (rule roundDown_bounds(4) [OF A(1) m(1)]) (use x m(3) tot in simp)
  then have "unat CommitBase + 64 \<le> unat (roundDown (CommitBase + CommitSize - Size) A)" using m(2) by simp
  from position_geometry [OF A(1) lim Sle this]
  show "block_geometry A Size CommitBase CommitSize
      (roundDown (CommitBase + CommitSize - Size) A - getHeadersSize + LargeBlock_getHeaderSize) (CommitBase + CommitSize)" .
  show "unat MBase + unat ?g \<le> unat CommitBase" by (rule c(1))
  show "unat CommitBase + unat CommitSize + unat ?g = unat MBase + unat MapSize" using tot ms by simp
qed

end
