(* ===== verification/AllocatorLarge.thy ===== *)
theory AllocatorLarge
  imports AllocatorMisuse SecondarySafe
begin

text \<open>
  Chunks of the secondary: where the block is in the range that was committed for it, cached or fresh, that
  its header is read back, and what size the
  combined allocator reports for the chunk. The unused bytes behind a chunk are kept in 20 bits,
  which is enough for alignments up to 512 KiB only.
\<close>

unbundle bit_operations_syntax

section \<open>The header of a large block\<close>

lemma load_far:
  assumes "unat (untagPointer p) + 8 \<le> unat (untagPointer q) \<or> unat (untagPointer q) + 8 \<le> unat (untagPointer p)"
  shows "load_u64 (store_u64 m p v) q = load_u64 m q"
proof (rule load_store_u64_other, intro allI impI)
  fix i j :: uptr
  assume i: "i < 8" and j: "j < 8"
  have l: "unat (untagPointer x) < 2 ^ 56" for x by (simp add: unat_untagPointer)
  have "unat (untagPointer q + i) = unat (untagPointer q) + unat i" "unat (untagPointer p + j) = unat (untagPointer p) + unat j"
    using l [of p] l [of q] i j by (simp_all add: unat_add_small word_less_nat_alt)
  moreover have "unat i < 8" "unat j < 8" using i j by (simp_all add: word_less_nat_alt)
  ultimately have n: "unat (untagPointer q + i) \<noteq> unat (untagPointer p + j)" using assms by linarith
  then show "untagPointer q + i \<noteq> untagPointer p + j" by auto
qed

text \<open>Offsets from a header address.\<close>

lemma header_offset:
  assumes "unat (untagPointer H) + 48 < 2 ^ 56" "unat k \<le> 48"
  shows "unat (untagPointer (H + k)) = unat (untagPointer H) + unat k"
  using assms untag_add [of H k] by (simp add: unat_add_small)

lemma write_header_reads:
  assumes "unat (untagPointer H) + 48 < 2 ^ 56" "untagPointer H' = untagPointer H"
  shows "H_CommitBase (write_header H CB CS M m) H' = CB" "H_CommitSize (write_header H CB CS M m) H' = CS"
    "H_MemMap (write_header H CB CS M m) H' = \<lparr>MapBase = MapBase M, MapCapacity = MapCapacity M\<rparr>"
proof -
  have o: "unat (untagPointer (H + k)) = unat (untagPointer H) + unat k" if "unat k \<le> 48" for k
    using header_offset [OF assms(1) that] .
  have "untagPointer (H' + k) = untagPointer (H + k)" if "unat k \<le> 48" for k
    using assms that untag_add [of H k] untag_add [of H' k] by simp
  then have l: "load_u64 x (H' + k) = load_u64 x (H + k)" if "unat k \<le> 48" for x k
    using that load_u64_untag by blast
  show "H_CommitBase (write_header H CB CS M m) H' = CB" "H_CommitSize (write_header H CB CS M m) H' = CS"
    "H_MemMap (write_header H CB CS M m) H' = \<lparr>MapBase = MapBase M, MapCapacity = MapCapacity M\<rparr>"
    by (simp_all add: H_CommitBase_def H_CommitSize_def H_MemMap_def write_header_def l load_far o)
qed

text \<open>Stores behind the header do not change it.\<close>

lemma header_kept:
  assumes "unat (untagPointer H) + 48 < 2 ^ 56" "untagPointer H' = untagPointer H"
    and "\<And>a. unat a < unat (untagPointer H) + 48 \<Longrightarrow> mem_byte m' a = mem_byte m a"
  shows "H_CommitBase m' H' = H_CommitBase m H" "H_CommitSize m' H' = H_CommitSize m H"
proof -
  have l: "load_u64 m' (H' + k) = load_u64 m (H + k)" if k: "unat k \<le> 40" for k
  proof -
    have u: "untagPointer (H + k) = untagPointer H + k" "untagPointer (H' + k) = untagPointer H + k"
      using assms(1,2) k untag_add [of H k] untag_add [of H' k] by simp_all
    have "mem_byte m' (untagPointer H + k + i) = mem_byte m (untagPointer H + k + i)" if "unat i < 8" for i
      using assms(1) k that by (intro assms(3)) (simp add: unat_add_small)
    from this [of 0] this [of 1] this [of 2] this [of 3] this [of 4] this [of 5] this [of 6] this [of 7]
    show ?thesis by (simp add: load_u64_def Let_def u)
  qed
  show "H_CommitBase m' H' = H_CommitBase m H" "H_CommitSize m' H' = H_CommitSize m H"
    using l [of 16] l [of 24] by (simp_all add: H_CommitBase_def H_CommitSize_def)
qed

lemma LargeBlock_tag_untag:
  "zimte_isa z \<Longrightarrow> untagPointer (LargeBlock_addHeaderTag z cfg p) = untagPointer p"
  by (simp add: LargeBlock_addHeaderTag_def addFixedTag_untag)

lemma tags_or_diverge_bytes:
  assumes "zimte_isa z" "tags_or_diverge z B E mc = Inr mc'"
  shows "mem_byte (fst mc') = mem_byte (fst mc)"
  using assms(2) storeTags_loop_byte [OF assms(1)]
  by (cases mc) (auto simp: tags_or_diverge_def storeTags_def split: option.splits)

text \<open>Where the committed range of a block comes from: an entry of the cache's list, or a range that
  the system reserved and then mapped, without its guard pages.\<close>

definition cached_range :: "sec_cache \<Rightarrow> uptr \<Rightarrow> uptr \<Rightarrow> bool" where
  "cached_range c CommitBase CommitSize \<longleftrightarrow>
     (\<exists>E \<in> set (LRUEntries c). CommitBase = CBCommitBase (Entries c ! E) \<and> CommitSize = CBCommitSize (Entries c ! E))"

definition mapped_range :: "sec_config \<Rightarrow> sec_os \<Rightarrow> uptr \<Rightarrow> uptr \<Rightarrow> bool" where
  "mapped_range cfg os CommitBase CommitSize \<longleftrightarrow>
     (\<exists>MapSize MBase. so_reserve os MapSize = Some MBase \<and> so_remap os CommitBase CommitSize
        \<and> unat MBase + unat (getGuardPageSize cfg) \<le> unat CommitBase
        \<and> unat CommitBase + unat CommitSize + unat (getGuardPageSize cfg) = unat MBase + unat MapSize)"

text \<open>A block that \<^verbatim>\<open>allocate\<close> of the secondary returned: its range, its place in it, and the header
  that is read back.\<close>

definition large_block ::
    "zimte \<Rightarrow> sec_config \<Rightarrow> (uptr \<Rightarrow> uptr \<Rightarrow> bool) \<Rightarrow> uptr \<Rightarrow> uptr \<Rightarrow> memory \<Rightarrow> uptr \<Rightarrow> uptr \<Rightarrow> bool" where
  "large_block z cfg R A Size m P End \<longleftrightarrow>
     (\<exists>CommitBase CommitSize. R CommitBase CommitSize \<and> block_geometry A Size CommitBase CommitSize P End
        \<and> H_CommitBase m (LargeBlock_getHeader z cfg P) = CommitBase
        \<and> H_CommitSize m (LargeBlock_getHeader z cfg P) = CommitSize)"

text \<open>The header address computed from a block is the one the header was written at, up to the tag.\<close>

lemma getHeader_untag:
  assumes "zimte_isa z" "48 \<le> unat P" "unat P < 2 ^ 56"
  shows "untagPointer (LargeBlock_getHeader z cfg P) = P - 48"
    and "untagPointer (LargeBlock_addHeaderTag z cfg (P - 48)) = P - 48"
proof -
  have u: "unat (P - 48) = unat P - 48" using assms(2) by (simp add: unat_sub word_le_nat_alt)
  show "untagPointer (LargeBlock_getHeader z cfg P) = P - 48"
    using assms untag_small [OF assms(3)]
    by (simp add: LargeBlock_getHeader_def LargeBlock_getHeaderSize_def untag_diff LargeBlock_tag_untag)
  have "unat (P - 48) < 2 ^ 56" using u assms(3) by simp
  then show "untagPointer (LargeBlock_addHeaderTag z cfg (P - 48)) = P - 48"
    using assms(1) by (simp add: LargeBlock_tag_untag untag_small)
qed

lemma large_block_written:
  assumes z: "zimte_isa z" and R: "R CB CS" and g: "block_geometry A Size CB CS P End"
    and m': "\<And>a. unat a < unat P \<Longrightarrow>
      mem_byte m' a = mem_byte (write_header (LargeBlock_addHeaderTag z cfg (P - 48)) CB CS M m) a"
  shows "large_block z cfg R A Size m' P End"
proof -
  have P: "48 \<le> unat P" "unat P < 2 ^ 56" using g by (auto simp: block_geometry_def)
  note u = getHeader_untag [OF z P, of cfg]
  let ?H = "LargeBlock_addHeaderTag z cfg (P - 48)" and ?H' = "LargeBlock_getHeader z cfg P"
  have uu: "untagPointer ?H' = untagPointer ?H" "unat (untagPointer ?H) + 48 < 2 ^ 56" "unat (untagPointer ?H) + 48 = unat P"
    using u P by (simp_all add: unat_sub word_le_nat_alt)
  from uu(3) have "H_CommitBase m' ?H' = H_CommitBase (write_header ?H CB CS M m) ?H"
    "H_CommitSize m' ?H' = H_CommitSize (write_header ?H CB CS M m) ?H"
    using header_kept [OF uu(2,1)] m' by simp_all
  then show ?thesis
    using write_header_reads(1,2) [OF uu(2) refl] R g unfolding large_block_def by metis
qed

text \<open>What is known of addresses: the system reserves page-aligned ranges in the lower half of the
  address space, and the ranges in the cache came from there.\<close>

definition reserve_ok :: "sec_config \<Rightarrow> sec_os \<Rightarrow> bool" where
  "reserve_ok cfg os \<longleftrightarrow> (\<forall>N MBase. so_reserve os N = Some MBase \<longrightarrow>
     unat (SPageSize cfg) dvd unat MBase \<and> unat MBase < 2 ^ 55)"

definition cached_ranges_ok :: "sec_cache \<Rightarrow> bool" where
  "cached_ranges_ok c \<longleftrightarrow> (\<forall>E \<in> set (LRUEntries c).
     unat (CBCommitBase (Entries c ! E)) + unat (CBCommitSize (Entries c ! E)) < 2 ^ 56)"

lemma fill_above:
  assumes "unat a < unat P" "unat P \<le> unat End" "unat End < 2 ^ 56"
  shows "mem_byte (fill_memory P (End - P) b m) a = mem_byte m a"
proof (rule byte_unchanged(3))
  have u: "untagPointer P = P" using assms(2,3) by (intro untag_small) simp
  have "unat (a - P) = 2 ^ 64 + unat a - unat P" using assms(1) by (simp add: unat_sub_if')
  moreover have "unat (End - P) = unat End - unat P" using assms(2) by (simp add: unat_sub word_le_nat_alt)
  ultimately show "\<not> a - untagPointer P < End - P" using assms by (simp add: u word_less_nat_alt)
qed

text \<open>From the cache.\<close>

lemma cached_large_block:
  assumes z: "zimte_isa z" and A: "isPowerOfTwo A" "unat A \<le> 2 ^ 24" and S: "unat Size \<le> 2 ^ 60"
    and inv: "cache_inv cfg (SCache s)"
    and lim: "cached_ranges_ok (SCache s)"
    and res: "tryAllocateFromCache z cfg Opts Size A Fill s mc = Inr (Some (P, End), s', mc')"
  shows "large_block z cfg (cached_range (SCache s)) A Size (fst mc') P End"
proof -
  define MaxPages where "MaxPages = MaxUnreleasedCachePages
    + (if \<not> useMemoryTagging (SMaySupportMemoryTagging cfg) Opts then MaxReleasedCachePages else 0)"
  obtain B Pos c mc1 where r: "cache_retrieve cfg MaxPages Size A getHeadersSize (SCache s) mc = (B, Pos, c, mc1)"
    by (cases "cache_retrieve cfg MaxPages Size A getHeadersSize (SCache s) mc") auto
  have v: "block_isValid B"
    using res r unfolding tryAllocateFromCache_def Let_def MaxPages_def by (auto split: if_splits)
  obtain E where E: "E \<in> set (LRUEntries (SCache s))" "B = Entries (SCache s) ! E"
    "entry_fits cfg MaxPages Size A getHeadersSize B Pos"
    using cache_retrieve_inv [OF inv r] v by auto
  have l: "unat (CBCommitBase B) + unat (CBCommitSize B) < 2 ^ 56" using lim E(1,2) by (simp add: cached_ranges_ok_def)
  have g: "block_geometry A Size (CBCommitBase B) (CBCommitSize B) (Pos + LargeBlock_getHeaderSize) (CBCommitBase B + CBCommitSize B)"
    by (rule entry_geometry [OF A S l E(3)])
  have cr: "cached_range (SCache s) (CBCommitBase B) (CBCommitSize B)" using E(1,2) by (auto simp: cached_range_def)
  let ?H = "LargeBlock_addHeaderTag z cfg Pos"
  let ?P = "(if allocatorSupportsMemoryTagging (SMaySupportMemoryTagging cfg) then untagPointer ?H else ?H) + LargeBlock_getHeaderSize"
  have P48: "Pos = Pos + LargeBlock_getHeaderSize - 48" by (simp add: LargeBlock_getHeaderSize_def)
  have gP: "48 \<le> unat (Pos + LargeBlock_getHeaderSize)" "unat (Pos + LargeBlock_getHeaderSize) < 2 ^ 56"
    using g by (auto simp: block_geometry_def)
  have "unat (Pos + LargeBlock_getHeaderSize - 48) = unat (Pos + LargeBlock_getHeaderSize) - 48"
    using gP(1) unat_sub [of 48 "Pos + LargeBlock_getHeaderSize"] by (simp add: word_le_nat_alt)
  then have pos: "unat Pos + 48 < 2 ^ 56" using gP P48 by simp
  have uH: "untagPointer ?H = Pos" using getHeader_untag(2) [OF z gP, of cfg] P48 by simp
  have PP: "?P = Pos + LargeBlock_getHeaderSize" using uH by (auto simp: LargeBlock_addHeaderTag_def)
  obtain m calls m' where m': "m' = write_header ?H (CBCommitBase B) (CBCommitSize B) (CBMemMap B) m"
      and m: "P = ?P" "End = H_CommitBase m' ?H + H_CommitSize m' ?H"
      "mc' = (if Fill \<noteq> 0 \<and> CBTime B \<noteq> 0 then fill_memory P (End - P) (fill_byte Fill) m' else m', calls)"
    using res r v unfolding tryAllocateFromCache_def Let_def MaxPages_def
    by (auto simp: bindE_eq_Inr split: prod.splits)
  have wr: "End = CBCommitBase B + CBCommitSize B"
    using write_header_reads(1,2) [of ?H ?H] uH pos m(2) by (simp add: m')
  have P: "P = Pos + LargeBlock_getHeaderSize" using m(1) PP by simp
  have below: "mem_byte (fst mc') a = mem_byte m' a" if "unat a < unat P" for a
    using fill_above [of a P End] that gP(2) g unfolding P wr m(3) by (auto simp: block_geometry_def)
  show ?thesis
    using large_block_written [where R = "cached_range (SCache s)", OF z cr g, where m' = "fst mc'" and cfg = cfg and m = m and M = "CBMemMap B"] below unfolding wr P
    by (simp add: m' LargeBlock_getHeaderSize_def)
qed

text \<open>From the cache or from a fresh mapping. \<^verbatim>\<open>AddLargeAllocationSlack\<close> adds sixteen bytes.\<close>

definition slack_size :: "u32 \<Rightarrow> uptr \<Rightarrow> uptr" where
  "slack_size Opts Size = (if opt_get AddLargeAllocationSlack Opts then Size + push_bit SCUDO_MIN_ALIGNMENT_LOG 1 else Size)"

lemma large_block_allocated:
  assumes z: "zimte_isa z" and pg: "page_ok cfg" and A: "isPowerOfTwo A" "16 \<le> unat A" "unat A \<le> 2 ^ 24"
    and S: "unat (slack_size Opts Size) \<le> 2 ^ 50" and inv: "cache_inv cfg (SCache s)"
    and lim: "cached_ranges_ok (SCache s)"
    and os: "reserve_ok cfg os" and tg: "\<not> useMemoryTagging (SMaySupportMemoryTagging cfg) Opts"
    and res: "secondary_allocate z cfg os Opts Size A Fill s mc = Inr (Some (P, End), s', mc')"
  shows "large_block z cfg (\<lambda>CB CS. cached_range (SCache s) CB CS \<or> mapped_range cfg os CB CS) A (slack_size Opts Size)
    (fst mc') P End"
proof -
  let ?R = "\<lambda>CB CS. cached_range (SCache s) CB CS \<or> mapped_range cfg os CB CS"
  let ?S = "slack_size Opts Size"
  have mx: "MaxU A (push_bit SCUDO_MIN_ALIGNMENT_LOG 1) = A"
    using A(2) by (simp add: MaxU_max max_def SCUDO_MIN_ALIGNMENT_LOG_def word_le_nat_alt word_unat_eq_iff)
  define X where "X = (if A < SPageSize cfg \<and> cache_canCache (roundUp (?S + getHeadersSize) (SPageSize cfg)) (SCache s)
                then tryAllocateFromCache z cfg Opts ?S A Fill s mc else Inr (None, s, mc))"
  obtain P1 s1 mc1 where X: "X = Inr (P1, s1, mc1)"
    using res unfolding secondary_allocate_def Let_def mx slack_size_def [symmetric] X_def [symmetric]
    by (auto simp: bindE_eq_Inr)
  show ?thesis
  proof (cases P1)
    case (Some r)
    then have "P1 = Some (P, End) \<and> s1 = s' \<and> mc1 = mc'"
      using res unfolding secondary_allocate_def Let_def mx slack_size_def [symmetric] X_def [symmetric] X by simp
    then have "tryAllocateFromCache z cfg Opts ?S A Fill s mc = Inr (Some (P, End), s', mc')"
      using X by (simp add: X_def split: if_splits)
    moreover have "unat ?S \<le> 2 ^ 60" using S by simp
    ultimately show ?thesis using cached_large_block [OF z A(1,3) _ inv lim] unfolding large_block_def by blast
  next
    case None
    define MapSize where "MapSize = secondary_rounded_size cfg ?S A + 2 * getGuardPageSize cfg"
    obtain MBase where M: "so_reserve os MapSize = Some MBase"
      using res None unfolding secondary_allocate_def Let_def mx slack_size_def [symmetric] X_def [symmetric] X MapSize_def [symmetric]
      by (auto split: option.splits)
    define CB where "CB = secondary_commit_base cfg MBase A"
    define CS where "CS = MBase + MapSize - getGuardPageSize cfg - CB"
    define Pos where "Pos = roundDown (CB + CS - ?S) A"
    have g: "block_geometry A ?S CB CS (Pos - getHeadersSize + LargeBlock_getHeaderSize) (CB + CS)"
      unfolding Pos_def CS_def CB_def MapSize_def
      using fresh_geometry(1) [OF pg A S] os M unfolding reserve_ok_def by blast
    have pl: "unat MBase + unat (getGuardPageSize cfg) \<le> unat CB"
      "unat CB + unat CS + unat (getGuardPageSize cfg) = unat MBase + unat MapSize"
      unfolding CS_def CB_def MapSize_def
      using fresh_geometry(2,3) [OF pg A S] os M unfolding reserve_ok_def by blast+
    have nn: "\<not> (None :: (uptr \<times> uptr) option) \<noteq> None" by simp
    obtain m Mm calls where rm: "so_remap os CB CS" and r: "P = Pos - getHeadersSize + LargeBlock_getHeaderSize" "End = CB + CS"
      "mc' = (write_header (LargeBlock_addHeaderTag z cfg (Pos - getHeadersSize)) CB CS Mm m, calls)"
      using res unfolding secondary_allocate_def Let_def mx slack_size_def [symmetric] X_def [symmetric] X bindE_simps prod.case
        None if_not_P [OF nn] MapSize_def [symmetric] M option.case CB_def [symmetric] CS_def [symmetric] Pos_def [symmetric]
      using tg by (auto simp: bindE_eq_Inr mapSecondary_def sec_remap_def split: prod.splits if_splits)
    have "?R CB CS" using M rm pl unfolding mapped_range_def by blast
    then show ?thesis
      using large_block_written [where R = ?R, OF z _ g, where m' = "fst mc'" and cfg = cfg and m = m and M = Mm] unfolding r by (simp add: LargeBlock_getHeaderSize_def)
  qed
qed

section \<open>Chunks in large blocks\<close>

lemma roundUp_same:
  assumes "isPowerOfTwo A" "unat A dvd unat X" "unat X < 2 ^ 57" "unat A \<le> 2 ^ 24"
  shows "roundUp X A = X"
  using roundUp_bounded(1) [OF assms(1,3,4)] roundUp_bounded(4) [OF assms(1,3,4,2) order.refl]
  by (auto simp: word_le_nat_alt word_unat_eq_iff)

lemma large_user_ptr:
  assumes "block_geometry A Size CB CS B End" "isPowerOfTwo A" "unat A \<le> 2 ^ 24"
  shows "user_ptr B A = B + 16" "unat (B + 16) = unat B + 16" "unat B + 16 + unat Size < 2 ^ 56" "48 \<le> unat B"
proof -
  have g: "unat B + 16 + unat Size \<le> unat End" "unat End < 2 ^ 56" "48 \<le> unat B" "unat A dvd unat B + 16"
    using assms(1) by (auto simp: block_geometry_def)
  show u: "unat (B + 16) = unat B + 16" using g by (simp add: unat_add_small)
  show "unat B + 16 + unat Size < 2 ^ 56" "48 \<le> unat B" using g by simp_all
  show "user_ptr B A = B + 16"
    using roundUp_same [OF assms(2) _ _ assms(3), of "B + 16"] g u by (simp add: user_ptr_def getHeaderSize_16)
qed

text \<open>\<^verbatim>\<open>initChunk\<close> writes a header and nothing else; the block's own header stays.\<close>

lemma initChunk_large:
  assumes "unat B + 16 < 2 ^ 56" "16 \<le> unat B"
  shows "initChunk cfg 0 Orig B (B + 16) S Fill s =
    (B + 16, store_header cfg (addHeaderTag cfg (B + 16)) (new_header 0 Orig (B + 16) (B + 16) S) s)"
  by (simp add: initChunk_def getHeaderSize_16 store_marker_def upd_mem_def Let_def)

lemma header_store_below:
  assumes "untagPointer Q = B + 16" "unat (B + 16) = unat B + 16" "unat a < unat B"
  shows "mem_byte (memory_of (store_header cfg Q H s)) a = mem_byte (memory_of s) a"
proof -
  have u: "untagPointer (getAtomicHeader Q) = B"
    unfolding getAtomicHeader_def getHeaderSize_16 using assms(1,2) by (subst untag_diff) simp_all
  have "unat (a - B) = 2 ^ 64 + unat a - unat B" using assms(3) by (simp add: unat_sub_if')
  moreover have "unat B < 2 ^ 56" using assms(1,2) unat_untagPointer [of Q] by simp
  ultimately have "\<not> a - B < 8" by (simp add: word_less_nat_alt)
  then show ?thesis by (simp add: store_header_def storeHeader_def Let_def byte_unchanged u)
qed

lemma unused_field: "unat (ucast (ucast (x AND SizeOrUnusedBytesMask) :: 20 word) :: uptr) = unat x mod 2 ^ 20" for x :: uptr
proof -
  have m: "SizeOrUnusedBytesMask = mask 20" by (simp add: SizeOrUnusedBytesMask_def mask_eq_exp_minus_1 push_bit_of_1)
  have "unat (x AND SizeOrUnusedBytesMask) = unat x mod 2 ^ 20" by (simp only: m unat_mask_and)
  moreover from this have "unat (x AND SizeOrUnusedBytesMask) < 2 ^ LENGTH(20)" by simp
  ultimately show ?thesis using field_id [of "x AND SizeOrUnusedBytesMask", where ?'a = 20] by simp
qed

text \<open>What \<^verbatim>\<open>allocate\<close> does once the primary has no block and the secondary has one.\<close>

lemma allocate_large:
  assumes "\<not> useMemoryTagging (CMaySupportMemoryTagging cfg) (load_options s)"
    and "Alignment \<le> MaxAlignment" "Size < MaxAllowedMallocSize"
    and "primary_block cfg (NeededSize_of Size (eff_align Alignment)) (Heap s) = Inr (b, 0, h)"
    and "secondary_allocate (CZ cfg) (CSecondary cfg) (CSecOs cfg) (load_options s) Size (eff_align Alignment)
      (fill_mode (load_options s) Zero s) (Second s) (SMem s) = Inr (Some (B, End), sec, mc)"
  shows "scudo_allocate cfg Size Orig Alignment Zero s =
    (let P = user_ptr B (eff_align Alignment);
         (P, s) = initChunk cfg 0 Orig B P (End - (P + Size)) (fill_mode (load_options s) Zero s)
                    (s\<lparr>Heap := h, Second := sec, SMem := mc\<rparr>)
     in Inr (Some P, s))"
proof -
  have a: "\<not> Alignment > MaxAlignment" "\<not> Size \<ge> MaxAllowedMallocSize" using assms(2,3) by auto
  show ?thesis
    unfolding scudo_allocate_def Let_def if_not_P [OF a(1)] if_not_P [OF a(2)] assms(4) user_ptr_def
    using assms(1,5) by simp
qed

lemma allocate_large_source:
  assumes "\<not> useMemoryTagging (CMaySupportMemoryTagging cfg) (load_options s)"
    and "Alignment \<le> MaxAlignment" "Size < MaxAllowedMallocSize"
    and "primary_block cfg (NeededSize_of Size (eff_align Alignment)) (Heap s) = Inr (b, 0, h)"
    and "scudo_allocate cfg Size Orig Alignment Zero s = Inr (Some P, s')"
  shows "\<exists>r sec mc. secondary_allocate (CZ cfg) (CSecondary cfg) (CSecOs cfg) (load_options s) Size (eff_align Alignment)
      (fill_mode (load_options s) Zero s) (Second s) (SMem s) = Inr (Some r, sec, mc)"
proof -
  have a: "\<not> Alignment > MaxAlignment" "\<not> Size \<ge> MaxAllowedMallocSize" using assms(2,3) by auto
  let ?r = "secondary_allocate (CZ cfg) (CSecondary cfg) (CSecOs cfg) (load_options s) Size (eff_align Alignment)
      (fill_mode (load_options s) Zero s) (Second s) (SMem s)"
  show ?thesis
  proof (cases ?r)
    case (Inl e)
    then show ?thesis using assms(5)
      unfolding scudo_allocate_def Let_def if_not_P [OF a(1)] if_not_P [OF a(2)] assms(4) by simp
  next
    case (Inr x)
    obtain ro sec mc where x: "x = (ro, sec, mc)" by (cases x)
    show ?thesis
    proof (cases ro)
      case None
      then show ?thesis using assms(5) Inr x
        unfolding scudo_allocate_def Let_def if_not_P [OF a(1)] if_not_P [OF a(2)] assms(4) by (simp split: if_splits)
    next
      case (Some r)
      then show ?thesis using Inr x by blast
    qed
  qed
qed

text \<open>The size that is read back from the header of such a chunk.\<close>

lemma large_size_read:
  assumes z: "zimte_isa (CZ cfg)" and g: "unat P + unat Size \<le> unat End" "unat End < 2 ^ 56" "16 \<le> unat P"
    and e: "secondary_getBlockEnd (CZ cfg) (CSecondary cfg) (memory_of s') (P - 16) = End"
    and l: "load_header cfg (addHeaderTag cfg P) s' = Inr (new_header 0 Orig P P (End - (P + Size))\<lparr>HChecksum := c\<rparr>)"
  shows "\<exists>Read. getAllocSize cfg P s' = Inr Read
    \<and> unat Read = unat Size + 2 ^ 20 * ((unat End - unat P - unat Size) div 2 ^ 20)"
proof -
  let ?x = "End - (P + Size)" and ?h = "new_header 0 Orig P P (End - (P + Size))\<lparr>HChecksum := c\<rparr>"
  have small: "unat P < 2 ^ 56" using g by simp
  have s: "unat (P + Size) = unat P + unat Size" using g by (simp add: unat_add_small)
  then have x: "unat ?x = unat End - unat P - unat Size" using g(1) by (simp add: unat_sub word_le_nat_alt)
  have b: "(if tagging_built cfg then untagPointer (addHeaderTag cfg P) else addHeaderTag cfg P) = P"
    using untag_addHeaderTag [OF z, of P] untag_small [OF small] by (auto simp: addHeaderTag_def)
  define Read where "Read = End - P - ucast (ucast (?x AND SizeOrUnusedBytesMask) :: 20 word)"
  have "getSize cfg (memory_of s') (addHeaderTag cfg P) ?h = Read"
    using b e by (simp add: getSize_def Let_def getBlockBegin_def Read_def new_header_def empty_header_def getHeaderSize_16)
  then have "getAllocSize cfg P s' = Inr Read"
    using l by (simp add: getAllocSize_def sized_header_def header_tagged_small [OF small] Let_def OriginMask_code)
  moreover have "unat Read = unat Size + 2 ^ 20 * ((unat End - unat P - unat Size) div 2 ^ 20)"
  proof -
    have p: "unat (End - P) = unat End - unat P" using g(1) by (simp add: unat_sub word_le_nat_alt)
    have m: "unat ?x mod 2 ^ 20 \<le> unat End - unat P" using x mod_less_eq_dividend [of "unat ?x" "2 ^ 20"] by linarith
    have "unat Read = unat (End - P) - unat ?x mod 2 ^ 20"
      unfolding Read_def using m p unused_field [of ?x] by (subst unat_sub) (simp_all add: word_le_nat_alt)
    moreover define q r where "q = 2 ^ 20 * (unat ?x div 2 ^ 20)" and "r = unat ?x mod 2 ^ 20"
    moreover have "unat ?x = q + r" unfolding q_def r_def by (simp only: mult_div_mod_eq)
    ultimately have "unat Read = unat Size + q" using p x g(1) by linarith
    then show ?thesis by (simp only: q_def x)
  qed
  ultimately show ?thesis by blast
qed

lemma large_chunk:
  assumes "zimte_isa (CZ cfg)" "page_ok (CSecondary cfg)" "cache_inv (CSecondary cfg) (SCache (Second s))"
    and "cached_ranges_ok (SCache (Second s))"
    and "reserve_ok (CSecondary cfg) (CSecOs cfg)"
    and "\<not> useMemoryTagging (CMaySupportMemoryTagging cfg) (load_options s)"
    and "isPowerOfTwo Alignment" "Alignment \<le> MaxAlignment" "Size < MaxAllowedMallocSize"
    and "primary_block cfg (NeededSize_of Size (eff_align Alignment)) (Heap s) = Inr (b, 0, h)"
    and same: "SMaySupportMemoryTagging (CSecondary cfg) = CMaySupportMemoryTagging cfg"
    and "scudo_allocate cfg Size Orig Alignment Zero s = Inr (Some P, s')"
    and r: "secondary_allocate (CZ cfg) (CSecondary cfg) (CSecOs cfg) (load_options s) Size (eff_align Alignment)
      (fill_mode (load_options s) Zero s) (Second s) (SMem s) = Inr (Some (B, End), sec, mc)"
  shows "\<exists>CB CS Read. unat (eff_align Alignment) dvd unat P
    \<and> (cached_range (SCache (Second s)) CB CS \<or> mapped_range (CSecondary cfg) (CSecOs cfg) CB CS)
    \<and> unat End = unat CB + unat CS \<and> unat CB + 64 \<le> unat P \<and> unat P + unat Size \<le> unat End
    \<and> H_CommitBase (memory_of s') (LargeBlock_getHeader (CZ cfg) (CSecondary cfg) (P - getHeaderSize)) = CB
    \<and> H_CommitSize (memory_of s') (LargeBlock_getHeader (CZ cfg) (CSecondary cfg) (P - getHeaderSize)) = CS
    \<and> secondary_getBlockEnd (CZ cfg) (CSecondary cfg) (memory_of s') (P - getHeaderSize) = End
    \<and> isOwned cfg P s' \<and> getAllocSize cfg P s' = Inr Read
    \<and> unat Read = unat Size + 2 ^ 20 * ((unat End - unat P - unat Size) div 2 ^ 20)
    \<and> (unat Alignment \<le> 2 ^ 19 \<longrightarrow> Read = Size)"
proof -
  let ?A = "eff_align Alignment" and ?Opts = "load_options s" and ?z = "CZ cfg" and ?c = "CSecondary cfg"
  let ?Fill = "fill_mode ?Opts Zero s" and ?S = "slack_size (load_options s) Size"
  have A: "isPowerOfTwo ?A" "16 \<le> unat ?A" "unat ?A \<le> 2 ^ 24"
    using assms(7,8) by (auto simp: MinAlignment_16 MaxAlignment_def word_le_nat_alt word_less_nat_alt isPowerOfTwo_def)
  have S: "unat Size < 2 ^ 40" using assms(9) by (simp add: MaxAllowedMallocSize_def word_less_nat_alt)
  have Sl: "unat ?S = unat Size + (if opt_get AddLargeAllocationSlack ?Opts then 16 else 0)"
    using S by (simp add: slack_size_def SCUDO_MIN_ALIGNMENT_LOG_def unat_add_small)
  then have S50: "unat ?S \<le> 2 ^ 50" using S by simp
  let ?R = "\<lambda>CB CS. cached_range (SCache (Second s)) CB CS \<or> mapped_range ?c (CSecOs cfg) CB CS"
  have tg: "\<not> useMemoryTagging (SMaySupportMemoryTagging ?c) ?Opts" using assms(6) same by simp
  have lb: "large_block ?z ?c ?R ?A ?S (fst mc) B End"
    by (rule large_block_allocated [OF assms(1,2) A S50 assms(3,4) assms(5) tg r])
  then obtain CB CS where R: "?R CB CS" and g: "block_geometry ?A ?S CB CS B End"
    and rd: "H_CommitBase (fst mc) (LargeBlock_getHeader ?z ?c B) = CB" "H_CommitSize (fst mc) (LargeBlock_getHeader ?z ?c B) = CS"
    by (auto simp: large_block_def)
  note u = large_user_ptr [OF g A(1,3)]
  define s1 where "s1 = s\<lparr>Heap := h, Second := sec, SMem := mc\<rparr>"
  define H where "H = new_header 0 Orig (B + 16) (B + 16) (End - (B + 16 + Size))"
  have P: "P = B + 16" "s' = store_header cfg (addHeaderTag cfg P) H s1"
    using allocate_large [OF assms(6,8,9,10) r, of Orig] assms(12) initChunk_large [of B cfg Orig] u
    by (simp_all add: Let_def s1_def H_def)
  have g': "unat P + unat ?S \<le> unat End" "unat End < 2 ^ 56" "unat End - (unat P + unat ?S) < unat ?A" "unat ?A dvd unat P"
    using g u(2) P(1) by (auto simp: block_geometry_def)
  have PS: "unat P + unat Size \<le> unat End" using g'(1) Sl by (simp split: if_splits)
  have P16: "16 \<le> unat P" "unat P < 2 ^ 56" "P - 16 = B" using u(2) g'(1,2) P(1) by simp_all
  have B: "48 \<le> unat B" "unat B < 2 ^ 56" using u by simp_all
  note uH = getHeader_untag(1) [OF assms(1) B, of ?c]
  have uH48: "unat (untagPointer (LargeBlock_getHeader ?z ?c B)) + 48 = unat B" using uH B(1) by (simp add: unat_sub word_le_nat_alt)
  have uT: "untagPointer (addHeaderTag cfg P) = B + 16"
    using untag_addHeaderTag [OF assms(1), of P] untag_small [OF P16(2)] P(1) by simp
  have below: "mem_byte (memory_of s') a = mem_byte (fst mc) a" if "unat a < unat B" for a
    using header_store_below [OF uT u(2) that, of cfg H s1] by (simp add: P(2) s1_def)
  have rd': "H_CommitBase (memory_of s') (LargeBlock_getHeader ?z ?c B) = CB" "H_CommitSize (memory_of s') (LargeBlock_getHeader ?z ?c B) = CS"
    using header_kept [of "LargeBlock_getHeader ?z ?c B" "LargeBlock_getHeader ?z ?c B" "memory_of s'" "fst mc"] below uH48 B rd by simp_all
  from this have e: "secondary_getBlockEnd ?z ?c (memory_of s') (P - 16) = End"
    using g P16(3) by (simp add: secondary_getBlockEnd_def Let_def block_geometry_def)
  have ld: "load_header cfg (addHeaderTag cfg P) s' = Inr (new_header 0 Orig P P (End - (P + Size))
      \<lparr>HChecksum := computeHeaderChecksum (CCrc cfg) (HashAlgorithm s1) (Cookie s1) (addHeaderTag cfg P) H\<rparr>)"
    by (simp add: P load_store_header H_def)
  obtain Read where Rd: "getAllocSize cfg P s' = Inr Read"
    "unat Read = unat Size + 2 ^ 20 * ((unat End - unat P - unat Size) div 2 ^ 20)"
    using large_size_read [OF assms(1) PS g'(2) P16(1) e ld] by blast
  have "16 dvd unat ?A" using A(1,2) power_dvd_16 [OF A(1)] by (cases "unat ?A = 16") simp_all
  then have "16 dvd unat P" using g'(4) dvd_trans by blast
  then have "isAligned P MinAlignment"
    using rounding_mask_eq_division [of 16 P] by (simp add: MinAlignment_16 isPowerOfTwo_def isAlignedSlow_def word_unat_eq_iff unat_mod)
  then have own: "isOwned cfg P s'"
    using isValid_store_header [of cfg s1 "addHeaderTag cfg P" H] P16 unfolding isOwned_def header_tagged_small [OF P16(2)] P(2)
    by (auto simp: Let_def H_def OriginMask_code)
  have "Read = Size" if "unat Alignment \<le> 2 ^ 19"
  proof -
    have "unat ?A \<le> 2 ^ 19" using that by (simp add: MinAlignment_16)
    then have "unat End - unat P - unat Size < 2 ^ 20" using g'(1,3) Sl by (simp split: if_splits)
    then show ?thesis using Rd(2) by (simp add: word_unat_eq_iff)
  qed
  moreover have "unat End = unat CB + unat CS" "unat CB + 64 \<le> unat P"
    using g u(2) P(1) by (auto simp: block_geometry_def)
  moreover have ph: "P - getHeaderSize = B" using P16(3) getHeaderSize_16 by simp
  moreover have "secondary_getBlockEnd ?z ?c (memory_of s') B = End" using e P16(3) by simp
  ultimately show ?thesis unfolding ph using R g'(4) PS rd' own Rd by blast
qed

text \<open>C18: A request that the secondary serves (memory tagging off) returns a chunk inside a committed
  range: one that the cache held, or a fresh one that the system reserved and mapped, inside its
  guard pages. The 64 bytes for the two headers lie between the begin of the range and the chunk,
  the chunk ends inside the range, and the block's header says where the range is. The chunk is
  aligned as asked and owned. The size read back is the size asked for when the alignment is at most 512 KiB. In
  general the unused bytes behind the chunk are truncated to 20 bits, and the size read back is too
  big by the bits that were lost.\<close>

theorem allocate_large_chunk:
  assumes "zimte_isa (CZ cfg)" "page_ok (CSecondary cfg)" "cache_inv (CSecondary cfg) (SCache (Second s))"
    and "cached_ranges_ok (SCache (Second s))"
    and "reserve_ok (CSecondary cfg) (CSecOs cfg)"
    and "\<not> useMemoryTagging (CMaySupportMemoryTagging cfg) (load_options s)"
    and "isPowerOfTwo Alignment" "Alignment \<le> MaxAlignment" "Size < MaxAllowedMallocSize"
    and "primary_block cfg (NeededSize_of Size (eff_align Alignment)) (Heap s) = Inr (b, 0, h)"
    and same: "SMaySupportMemoryTagging (CSecondary cfg) = CMaySupportMemoryTagging cfg"
    and "scudo_allocate cfg Size Orig Alignment Zero s = Inr (Some P, s')"
  shows "\<exists>CB CS End Read. unat (eff_align Alignment) dvd unat P
    \<and> (cached_range (SCache (Second s)) CB CS \<or> mapped_range (CSecondary cfg) (CSecOs cfg) CB CS)
    \<and> unat End = unat CB + unat CS \<and> unat CB + 64 \<le> unat P \<and> unat P + unat Size \<le> unat End
    \<and> H_CommitBase (memory_of s') (LargeBlock_getHeader (CZ cfg) (CSecondary cfg) (P - getHeaderSize)) = CB
    \<and> H_CommitSize (memory_of s') (LargeBlock_getHeader (CZ cfg) (CSecondary cfg) (P - getHeaderSize)) = CS
    \<and> secondary_getBlockEnd (CZ cfg) (CSecondary cfg) (memory_of s') (P - getHeaderSize) = End
    \<and> isOwned cfg P s' \<and> getAllocSize cfg P s' = Inr Read
    \<and> unat Read = unat Size + 2 ^ 20 * ((unat End - unat P - unat Size) div 2 ^ 20)
    \<and> (unat Alignment \<le> 2 ^ 19 \<longrightarrow> Read = Size)"
proof -
  obtain B End sec mc where "secondary_allocate (CZ cfg) (CSecondary cfg) (CSecOs cfg) (load_options s) Size
      (eff_align Alignment) (fill_mode (load_options s) Zero s) (Second s) (SMem s) = Inr (Some (B, End), sec, mc)"
    using allocate_large_source [OF assms(6,8,9,10,12)] by auto
  then show ?thesis using large_chunk [OF assms] by blast
qed

text \<open>Two MiB aligned to 16 MiB, with pages of 4096 bytes: the size that is read back is 16 MiB.\<close>

definition large_cconfig :: cconfig where
  "large_cconfig = small_cconfig\<lparr>CSecondary := small_sec_config,
     CSecOs := \<lparr>so_reserve = (\<lambda>_. Some 0x10001000), so_remap = (\<lambda>_ _. True), so_now = 0\<rparr>\<rparr>"

lemma large_cconfig_simps [simp]: "CPrimary large_cconfig = small_config" "CZ large_cconfig = zimte_ref 5"
  "CSecondary large_cconfig = small_sec_config" "CMaySupportMemoryTagging large_cconfig = True"
  "CSecOs large_cconfig = \<lparr>so_reserve = (\<lambda>_. Some 0x10001000), so_remap = (\<lambda>_ _. True), so_now = 0\<rparr>"
  by (simp_all add: large_cconfig_def)

lemma small_sec_page: "SPageSize small_sec_config = 0x1000" "getGuardPageSize small_sec_config = 0x1000"
  by (simp_all add: SPageSize_def getGuardPageSize_def small_sec_config_def)

lemma large_options: "load_options (small_scudo False) = 0"
  by (simp add: load_options_def small_scudo_def)

lemma large_secondary:
  "\<exists>sec mc. secondary_allocate (zimte_ref 5) small_sec_config (CSecOs large_cconfig) 0 0x200000 0x1000000 F s m
    = Inr (Some (0x10FFFFF0, 0x12002000), sec, mc)"
proof -
  have o: "\<not> useMemoryTagging b 0" for b by (simp add: useMemoryTagging_def opt_get_def)
  obtain mm cc where m: "m = (mm, cc)" by (cases m)
  show ?thesis
    by (simp add: secondary_allocate_def small_sec_page secondary_rounded_size_def secondary_commit_base_def
        getHeadersSize_64 roundUp_def roundDown_def mapSecondary_def o sec_remap_def m opt_get_def
        MaxU_max SCUDO_MIN_ALIGNMENT_LOG_def LargeBlock_getHeaderSize_def Let_def)
qed

lemma large_request:
  "primary_block large_cconfig (NeededSize_of 0x200000 (eff_align 0x1000000)) (Heap (small_scudo False))
    = Inr (None, 0, Heap (small_scudo False))"
  using small_class_of_32(2)
  by (simp add: primary_block_def canAllocate_def NeededSize_of_def MinAlignment_16 roundUp_def)

definition large_scudo_state :: scudo where
  "large_scudo_state = (small_scudo False)\<lparr>Second := secondary_init small_sec_config 0\<rparr>"

lemma large_hypotheses:
  "page_ok small_sec_config" "cache_inv small_sec_config (SCache (Second large_scudo_state))"
  "cached_ranges_ok (SCache (Second large_scudo_state))"
  "reserve_ok small_sec_config (CSecOs large_cconfig)"
proof -
  have e: "SCache (Second large_scudo_state) = sec_cache_init small_sec_config 0"
    by (simp add: large_scudo_state_def secondary_init_def)
  show "page_ok small_sec_config" by (simp add: page_ok_def small_sec_config_def)
  show "cache_inv small_sec_config (SCache (Second large_scudo_state))" unfolding e by (rule sec_cache_init_inv)
  have "LRUEntries (sec_cache_init small_sec_config 0) = []" by code_simp
  then show "cached_ranges_ok (SCache (Second large_scudo_state))" unfolding e by (simp add: cached_ranges_ok_def)
  show "reserve_ok small_sec_config (CSecOs large_cconfig)" by (simp add: reserve_ok_def small_sec_page)
qed

theorem allocate_large_chunk_witness:
  "\<exists>s'. scudo_allocate large_cconfig 0x200000 Malloc 0x1000000 False large_scudo_state = Inr (Some 0x11000000, s')
    \<and> isOwned large_cconfig 0x11000000 s' \<and> getAllocSize large_cconfig 0x11000000 s' = Inr 0x1000000"
proof -
  let ?s = large_scudo_state and ?o = "load_options large_scudo_state" and ?A = "eff_align 0x1000000"
  have o: "?o = 0" "Heap ?s = Heap (small_scudo False)"
    by (simp_all add: large_scudo_state_def load_options_def small_scudo_def)
  have t: "\<not> useMemoryTagging (CMaySupportMemoryTagging large_cconfig) ?o"
    by (simp add: o useMemoryTagging_def opt_get_def)
  have n: "isPowerOfTwo 0x1000000" "0x1000000 \<le> MaxAlignment" "0x200000 < MaxAllowedMallocSize"
    by (simp_all add: MaxAlignment_def MaxAllowedMallocSize_def isPowerOfTwo_def)
  have pb: "primary_block large_cconfig (NeededSize_of 0x200000 ?A) (Heap ?s) = Inr (None, 0, Heap ?s)"
    using large_request o(2) by simp
  obtain sec mc where sa: "secondary_allocate (CZ large_cconfig) (CSecondary large_cconfig) (CSecOs large_cconfig) ?o 0x200000 ?A
      (fill_mode ?o False ?s) (Second ?s) (SMem ?s) = Inr (Some (0x10FFFFF0, 0x12002000), sec, mc)"
    using large_secondary [of "fill_mode 0 False ?s" "Second ?s" "SMem ?s"] by (auto simp: o MinAlignment_16)
  have up: "user_ptr 0x10FFFFF0 ?A = 0x11000000" by (simp add: user_ptr_def getHeaderSize_16 roundUp_def MinAlignment_16)
  obtain s' where al: "scudo_allocate large_cconfig 0x200000 Malloc 0x1000000 False ?s = Inr (Some 0x11000000, s')"
    using allocate_large [OF t n(2,3) pb sa, of Malloc] by (simp add: up initChunk_def Let_def split: prod.splits)
  have h: "zimte_isa (CZ large_cconfig)" "page_ok (CSecondary large_cconfig)"
    "cache_inv (CSecondary large_cconfig) (SCache (Second ?s))" "cached_ranges_ok (SCache (Second ?s))"
    "reserve_ok (CSecondary large_cconfig) (CSecOs large_cconfig)"
    using zimte_isa_ref large_hypotheses by simp_all
  have sm: "SMaySupportMemoryTagging (CSecondary large_cconfig) = CMaySupportMemoryTagging large_cconfig"
    by (simp add: small_sec_config_def)
  obtain R where R: "getAllocSize large_cconfig 0x11000000 s' = Inr R"
    "unat R = unat (0x200000 :: uptr) + 2 ^ 20 * ((unat (0x12002000 :: uptr) - unat (0x11000000 :: uptr) - unat (0x200000 :: uptr)) div 2 ^ 20)"
    "secondary_getBlockEnd (CZ large_cconfig) (CSecondary large_cconfig) (memory_of s') (0x11000000 - getHeaderSize) = 0x12002000"
    using large_chunk [OF h t n pb sm al sa] by blast
  obtain End Read where e: "isOwned large_cconfig 0x11000000 s'" "getAllocSize large_cconfig 0x11000000 s' = Inr Read"
    "unat Read = unat (0x200000 :: uptr) + 2 ^ 20 * ((unat End - unat (0x11000000 :: uptr) - unat (0x200000 :: uptr)) div 2 ^ 20)"
    "secondary_getBlockEnd (CZ large_cconfig) (CSecondary large_cconfig) (memory_of s') (0x11000000 - getHeaderSize) = End"
    using allocate_large_chunk [OF h t n pb sm al] by blast
  have "End = 0x12002000" using e(4) R(3) by simp
  then have "unat Read = unat (0x1000000 :: uptr)" using e(3) by simp
  then show ?thesis using al e(1,2) by (simp add: word_unat_eq_iff)
qed

end
