(* ===== verification/SizeTable.thy ===== *)
theory SizeTable
  imports SizeClassMap
begin

text \<open>
  \<^verbatim>\<open>size_class_map.h\<close>: \<^verbatim>\<open>TableSizeClassMap\<close>, the map with an explicit list of sizes that Android uses,
  and its two compile-time tables: from the rounded logarithm of a size to its class, and from a
  class to its lowest set bit, in a compressed format when it fits.

  The lemmas show that the table lookup equals the linear search through the list of sizes, and
  the compressed format the plain one.
\<close>

unbundle bit_operations_syntax

section \<open>The tables\<close>

record table_config = size_class_config +
  Classes :: "uptr list"

definition ClassesSize :: "'a table_config_scheme \<Rightarrow> uptr" where
  "ClassesSize cfg = of_nat (length (Classes cfg))"

fun computeClassId_loop :: "uptr \<Rightarrow> uptr list \<Rightarrow> uptr \<Rightarrow> u8" where
  "computeClassId_loop Size [] i = - 1"
| "computeClassId_loop Size (C # Cs) i =
     (if Size \<le> C then ucast (i + 1) else computeClassId_loop Size Cs (i + 1))"

definition computeClassId :: "table_config \<Rightarrow> uptr \<Rightarrow> u8" where
  "computeClassId cfg Size = computeClassId_loop Size (Classes cfg) 0"

definition table_S :: "table_config \<Rightarrow> nat" where
  "table_S cfg = NumBits cfg - 1"

definition getTableSize :: "table_config \<Rightarrow> nat" where
  "getTableSize cfg = (MaxSizeLog cfg - MidSizeLog cfg) * 2 ^ table_S cfg"

text \<open>The constructor of \<^verbatim>\<open>SizeTable\<close>: \<open>n\<close> rounds are left.\<close>

fun size_table_loop :: "table_config \<Rightarrow> nat \<Rightarrow> uptr \<Rightarrow> uptr \<Rightarrow> u8 list" where
  "size_table_loop cfg 0 Pos Inc = []"
| "size_table_loop cfg (Suc n) Pos Inc =
     (let Pos = Pos + Inc;
          Inc = (if Pos AND (Pos - 1) = 0 then Inc * 2 else Inc)
      in computeClassId cfg (Pos + SizeDelta cfg) # size_table_loop cfg n Pos Inc)"

definition SzTable :: "table_config \<Rightarrow> u8 list" where
  "SzTable cfg = size_table_loop cfg (getTableSize cfg) (push_bit (MidSizeLog cfg) 1)
     (push_bit (MidSizeLog cfg - table_S cfg) 1)"

text \<open>The constructor of \<^verbatim>\<open>LSBTable\<close>. \<^verbatim>\<open>1 << Bit\<close> is an \<^verbatim>\<open>int\<close>; the loop ends at the lowest set bit,
  which is below 31 for every size in use.\<close>

fun lowest_bit :: "uptr \<Rightarrow> nat \<Rightarrow> nat \<Rightarrow> u8 option" where
  "lowest_bit C 0 Bit = None"
| "lowest_bit C (Suc n) Bit =
     (if C AND push_bit Bit 1 \<noteq> 0 then Some (of_nat Bit) else lowest_bit C n (Suc Bit))"

fun lsb_loop :: "uptr list \<Rightarrow> u8 \<Rightarrow> u8 \<Rightarrow> u8 list \<times> u8 \<times> u8" where
  "lsb_loop [] Mn Mx = ([], Mn, Mx)"
| "lsb_loop (C # Cs) Mn Mx =
     (case lowest_bit C 64 0 of
        None \<Rightarrow> let (Tab, Mn, Mx) = lsb_loop Cs Mn Mx in (0 # Tab, Mn, Mx)
      | Some Bit \<Rightarrow>
          let (Tab, Mn, Mx) = lsb_loop Cs (if Bit < Mn then Bit else Mn) (if Bit > Mx then Bit else Mx)
          in (Bit # Tab, Mn, Mx))"

record lsb_table =
  LTab :: "u8 list"
  UseCompressedFormat :: bool
  CompressedMin :: u8
  CompressedValue :: u64

fun compress_loop :: "u8 list \<Rightarrow> u8 \<Rightarrow> nat \<Rightarrow> u64 \<Rightarrow> u64" where
  "compress_loop [] Mn I V = V"
| "compress_loop (B # Bs) Mn I V = compress_loop Bs Mn (I + 1) (V OR push_bit (I * 2) (ucast (B - Mn)))"

text \<open>\<^verbatim>\<open>Max - Min\<close> is computed as an \<^verbatim>\<open>int\<close>.\<close>

definition LTable :: "table_config \<Rightarrow> lsb_table" where
  "LTable cfg =
     (let (Tab, Mn, Mx) = lsb_loop (Classes cfg) 255 0
      in if uint Mx - uint Mn > 3 \<or> ClassesSize cfg > 32
         then \<lparr>LTab = Tab, UseCompressedFormat = False, CompressedMin = 0, CompressedValue = 0\<rparr>
         else \<lparr>LTab = Tab, UseCompressedFormat = True, CompressedMin = Mn,
                CompressedValue = compress_loop Tab Mn 0 0\<rparr>)"

section \<open>The map\<close>

definition table_NumClasses :: "table_config \<Rightarrow> uptr" where
  "table_NumClasses cfg = ClassesSize cfg + 1"

definition table_LargestClassId :: "table_config \<Rightarrow> uptr" where
  "table_LargestClassId cfg = table_NumClasses cfg - 1"

definition table_getSizeByClassId :: "table_config \<Rightarrow> uptr \<Rightarrow> uptr" where
  "table_getSizeByClassId cfg ClassId = Classes cfg ! unat (ClassId - 1)"

definition table_MaxSize :: "table_config \<Rightarrow> uptr" where
  "table_MaxSize cfg = Classes cfg ! unat (table_LargestClassId cfg - 1)"

definition table_getSizeLSBByClassId :: "table_config \<Rightarrow> uptr \<Rightarrow> u8" where
  "table_getSizeLSBByClassId cfg ClassId =
     (if UseCompressedFormat (LTable cfg)
      then ucast (drop_bit (unat ((ClassId - 1) * 2)) (CompressedValue (LTable cfg)) AND 3)
             + CompressedMin (LTable cfg)
      else LTab (LTable cfg) ! unat (ClassId - 1))"

definition table_getClassIdBySize :: "table_config \<Rightarrow> uptr \<Rightarrow> uptr" where
  "table_getClassIdBySize cfg Size =
     (if Size \<le> Classes cfg ! 0 then 1
      else let Size = Size - SizeDelta cfg
           in if Size \<le> push_bit (MidSizeLog cfg) 1 then drop_bit (MinSizeLog cfg) (Size - 1) + 1
              else ucast (SzTable cfg ! unat (scaledLog2 (Size - 1) (MidSizeLog cfg) (table_S cfg))))"

section \<open>The configurations of the source\<close>

definition AndroidSizeClassConfig :: table_config where
  "AndroidSizeClassConfig = \<lparr>NumBits = 7, MinSizeLog = 4, MidSizeLog = 6, MaxSizeLog = 16,
     MaxNumCachedHint = 13, MaxBytesCachedLog = 13, SizeDelta = 16, Classes = [
      0x00020, 0x00030, 0x00040, 0x00050, 0x00060, 0x00070, 0x00090, 0x000b0,
      0x000c0, 0x000e0, 0x00120, 0x00160, 0x001c0, 0x00250, 0x00320, 0x00450,
      0x00670, 0x00830, 0x00a10, 0x00c30, 0x01010, 0x01210, 0x01bd0, 0x02210,
      0x02d90, 0x03790, 0x04010, 0x04810, 0x05a10, 0x07310, 0x08210, 0x10010]\<rparr>"

definition AndroidSizeClassConfig32 :: table_config where
  "AndroidSizeClassConfig32 = \<lparr>NumBits = 8, MinSizeLog = 4, MidSizeLog = 7, MaxSizeLog = 16,
     MaxNumCachedHint = 14, MaxBytesCachedLog = 13, SizeDelta = 16, Classes = [
      0x00020, 0x00030, 0x00040, 0x00050, 0x00060, 0x00070, 0x00080, 0x00090,
      0x000a0, 0x000b0, 0x000c0, 0x000e0, 0x000f0, 0x00110, 0x00120, 0x00130,
      0x00150, 0x00160, 0x00170, 0x00190, 0x001d0, 0x00210, 0x00240, 0x002a0,
      0x00330, 0x00370, 0x003a0, 0x00400, 0x00430, 0x004a0, 0x00530, 0x00610,
      0x00730, 0x00840, 0x00910, 0x009c0, 0x00a60, 0x00b10, 0x00ca0, 0x00e00,
      0x00fb0, 0x01030, 0x01130, 0x011f0, 0x01490, 0x01650, 0x01930, 0x02010,
      0x02190, 0x02490, 0x02850, 0x02d50, 0x03010, 0x03210, 0x03c90, 0x04090,
      0x04510, 0x04810, 0x05c10, 0x06f10, 0x07310, 0x08010, 0x0c010, 0x10010]\<rparr>"

section \<open>Linear search\<close>

text \<open>The index of the first class that covers a size.\<close>

definition class_index :: "uptr \<Rightarrow> uptr list \<Rightarrow> nat" where
  "class_index Size Cs = length (takeWhile (\<lambda>C. C < Size) Cs)"

lemma class_index_simps [simp]:
  "class_index Size [] = 0"
  "class_index Size (C # Cs) = (if Size \<le> C then 0 else Suc (class_index Size Cs))"
  by (auto simp: class_index_def)

lemma class_index_spec:
  assumes "Size \<le> last Cs" "Cs \<noteq> []"
  shows "class_index Size Cs < length Cs" "Size \<le> Cs ! class_index Size Cs"
    "j < class_index Size Cs \<Longrightarrow> Cs ! j < Size"
proof -
  have ex: "\<not> (\<forall>C \<in> set Cs. C < Size)" using assms last_in_set by (meson leD)
  show l: "class_index Size Cs < length Cs"
    unfolding class_index_def using ex by (metis length_takeWhile_le linorder_neqE_nat not_le set_takeWhileD takeWhile_eq_take take_all)
  show "Size \<le> Cs ! class_index Size Cs"
    using nth_length_takeWhile [of "\<lambda>C. C < Size" Cs] l by (simp add: class_index_def)
  show "Cs ! j < Size" if "j < class_index Size Cs"
    using that by (metis class_index_def nth_mem set_takeWhileD takeWhile_nth)
qed

lemma class_index_cong:
  "(\<And>C. C \<in> set Cs \<Longrightarrow> (Size \<le> C) = (Size' \<le> C)) \<Longrightarrow> class_index Size Cs = class_index Size' Cs"
  by (induction Cs) auto

lemma computeClassId_loop_index:
  "class_index Size Cs < length Cs \<Longrightarrow>
    computeClassId_loop Size Cs i = ucast (i + of_nat (class_index Size Cs) + 1)"
  by (induction Cs arbitrary: i) (auto simp: add_ac split: if_splits)

section \<open>The table of classes\<close>

lemma length_size_table [simp]: "length (size_table_loop cfg n Pos Inc) = n"
  by (induction n arbitrary: Pos Inc) (simp_all add: Let_def)

text \<open>The increment between two neighbouring sizes of the table.\<close>

lemma upper_size_step:
  assumes "S \<le> m"
  shows "upper_size m S (Suc u) = upper_size m S u + 2 ^ (m + u div 2 ^ S - S)"
proof -
  define q r where "q = u div 2 ^ S" and "r = u mod 2 ^ S"
  have u: "u = q * 2 ^ S + r" and r: "r < 2 ^ S"
    unfolding q_def r_def by (simp_all only: div_mult_mod_eq) simp
  have s: "Suc u = q * 2 ^ S + Suc r" by (simp add: u)
  have "upper_size m S (Suc u) = 2 ^ (m + q - S) * (2 ^ S + Suc r)"
    unfolding s using assms r by (subst upper_size_decomp) simp_all
  moreover have "upper_size m S u = 2 ^ (m + q - S) * (2 ^ S + r)"
    using assms r upper_size_decomp [of S m r q] by (simp only: u [symmetric])
  ultimately show ?thesis by (simp add: q_def)
qed

lemma upper_size_power:
  assumes "S \<le> m"
  shows "(\<exists>k. upper_size m S u = 2 ^ k) \<longleftrightarrow> u mod 2 ^ S = 0"
proof -
  define q r where "q = u div 2 ^ S" and "r = u mod 2 ^ S"
  have u: "u = q * 2 ^ S + r" and r: "r < 2 ^ S"
    unfolding q_def r_def by (simp_all only: div_mult_mod_eq) simp
  have e: "upper_size m S u = 2 ^ (m + q - S) * (2 ^ S + r)"
    using assms r upper_size_decomp [of S m r q] by (simp only: u [symmetric])
  show ?thesis
  proof
    assume "u mod 2 ^ S = 0"
    then have "upper_size m S u = 2 ^ (m + q - S + S)" using e by (simp add: r_def power_add)
    then show "\<exists>k. upper_size m S u = 2 ^ k" by blast
  next
    assume "\<exists>k. upper_size m S u = 2 ^ k"
    then obtain k where k: "2 ^ (m + q - S) * (2 ^ S + r) = (2 :: nat) ^ k" using e by auto
    define a where "a = m + q - S"
    have "(2 :: nat) ^ (a + S) \<le> 2 ^ k" using k by (simp add: a_def power_add flip: k)
    then have lo: "a + S \<le> k" by simp
    have "(2 :: nat) ^ k < 2 ^ (a + S + 1)" using r by (simp add: a_def power_add flip: k)
    then have "k < a + S + 1" by (simp only: power_strict_increasing_iff)
    then have "k = a + S" using lo by simp
    then show "u mod 2 ^ S = 0" using k by (simp add: a_def power_add r_def)
  qed
qed

lemma size_table_entry:
  assumes "S = table_S cfg" "m = MidSizeLog cfg" "S \<le> m"
    and "Pos = of_nat (upper_size m S u)" "Inc = of_nat (2 ^ (m + u div 2 ^ S - S))"
    and "upper_size m S (u + n) < 2 ^ 63" "i < n"
  shows "size_table_loop cfg n Pos Inc ! i = computeClassId cfg (of_nat (upper_size m S (Suc (u + i))) + SizeDelta cfg)"
  using assms(4-7)
proof (induction n arbitrary: u Pos Inc i)
  case (Suc n)
  let ?Pos = "Pos + Inc" and ?up = "upper_size m S (Suc u)"
  have p: "?Pos = of_nat ?up" using Suc.prems(1,2) upper_size_step [OF assms(3), of u] by simp
  have lt: "?up < 2 ^ 63"
    using Suc.prems(3) upper_size_less [OF assms(3), of "Suc u" "u + Suc n"] by (cases "n = 0") auto
  have up: "unat ?Pos = ?up" unfolding p using lt by (intro unat_of_nat_small) simp
  have pos0: "0 < ?up" using upper_size_less_Suc [OF assms(3), of u] by simp
  have pw: "?Pos AND (?Pos - 1) = 0 \<longleftrightarrow> Suc u mod 2 ^ S = 0"
  proof -
    have nz: "?Pos \<noteq> 0" using up pos0 by auto
    have "?Pos AND (?Pos - 1) = 0 \<longleftrightarrow> (\<exists>k < 64. ?Pos = 2 ^ k)" using nz isPowerOfTwo_iff [of ?Pos] by (simp add: isPowerOfTwo_def)
    also have "\<dots> \<longleftrightarrow> (\<exists>k. ?up = 2 ^ k)"
    proof
      assume "\<exists>k < 64. ?Pos = 2 ^ k"
      then obtain k where "k < 64" "?Pos = 2 ^ k" by blast
      then have "unat ?Pos = 2 ^ k" using unat_power_of_2 [of k, where ?'a = 64] by simp
      then show "\<exists>k. ?up = 2 ^ k" using up by auto
    next
      assume "\<exists>k. ?up = 2 ^ k"
      then obtain k where k: "?up = 2 ^ k" by blast
      then have "(2 :: nat) ^ k < 2 ^ 63" using lt by simp
      then have "k < 63" by (rule power_less_imp_less_exp [rotated]) simp
      then show "\<exists>k < 64. ?Pos = 2 ^ k" using k p by (intro exI [of _ k]) simp
    qed
    finally show ?thesis using upper_size_power [OF assms(3)] by simp
  qed
  define Inc' where "Inc' = (if ?Pos AND (?Pos - 1) = 0 then Inc * 2 else Inc)"
  have inc: "Inc' = of_nat (2 ^ (m + Suc u div 2 ^ S - S))"
  proof (cases "Suc u mod 2 ^ S = 0")
    case True
    then have "Suc u div 2 ^ S = Suc (u div 2 ^ S)" by (simp add: div_Suc)
    then have "m + Suc u div 2 ^ S - S = Suc (m + u div 2 ^ S - S)" using assms(3) by simp
    then show ?thesis using True pw Suc.prems(2) by (simp add: Inc'_def)
  next
    case False
    then have "Suc u div 2 ^ S = u div 2 ^ S" by (simp add: div_Suc)
    then show ?thesis using False pw Suc.prems(2) by (simp add: Inc'_def)
  qed
  have st: "size_table_loop cfg (Suc n) Pos Inc = computeClassId cfg (?Pos + SizeDelta cfg) # size_table_loop cfg n ?Pos Inc'"
    by (simp add: Let_def Inc'_def)
  show ?case
  proof (cases i)
    case 0
    then show ?thesis using st p by simp
  next
    case (Suc j)
    then have "size_table_loop cfg n ?Pos Inc' ! j = computeClassId cfg (of_nat (upper_size m S (Suc (Suc u + j))) + SizeDelta cfg)"
      using Suc.IH [OF p inc] Suc.prems(3,4) by simp
    then show ?thesis using st Suc by simp
  qed
qed simp

section \<open>The lookup is the search\<close>

text \<open>What a table must satisfy: sizes in increasing order, the first at least \<^verbatim>\<open>SizeDelta\<close>; the classes up
  to the middle size are where the shift finds them; every larger class is one of the sizes of the
  table, that is, has no bits below the \<^verbatim>\<open>NumBits\<close> leading ones.\<close>

definition mid_sizes :: "table_config \<Rightarrow> uptr list" where
  "mid_sizes cfg = filter (\<lambda>X. Classes cfg ! 0 < X)
     (map (\<lambda>i. of_nat (Suc i) + SizeDelta cfg) [0 ..< 2 ^ MidSizeLog cfg])"

definition representable :: "table_config \<Rightarrow> uptr \<Rightarrow> bool" where
  "representable cfg C \<longleftrightarrow> C \<le> push_bit (MidSizeLog cfg) 1 + SizeDelta cfg
     \<or> 2 ^ (msb_nat (unat C - unat (SizeDelta cfg)) - table_S cfg) dvd unat C - unat (SizeDelta cfg)"

definition valid_table :: "table_config \<Rightarrow> bool" where
  "valid_table cfg \<longleftrightarrow> table_S cfg \<le> MidSizeLog cfg \<and> 0 < MidSizeLog cfg \<and> table_S cfg \<le> 8
     \<and> MidSizeLog cfg \<le> MaxSizeLog cfg \<and> MaxSizeLog cfg < 48 \<and> unat (SizeDelta cfg) < 2 ^ 32
     \<and> Classes cfg \<noteq> [] \<and> length (Classes cfg) < 255 \<and> SizeDelta cfg \<le> Classes cfg ! 0
     \<and> last (Classes cfg) = push_bit (MaxSizeLog cfg) 1 + SizeDelta cfg
     \<and> list_all (representable cfg) (Classes cfg)
     \<and> list_all (\<lambda>X. drop_bit (MinSizeLog cfg) (X - SizeDelta cfg - 1) = of_nat (class_index X (Classes cfg))) (mid_sizes cfg)"

lemma class_id_field:
  assumes "class_index Size (Classes cfg) < length (Classes cfg)" "length (Classes cfg) < 255"
  shows "(ucast (computeClassId cfg Size) :: uptr) = of_nat (class_index Size (Classes cfg)) + 1"
proof -
  let ?i = "class_index Size (Classes cfg)"
  have n: "unat (of_nat (Suc ?i) :: uptr) = Suc ?i" using assms by (intro unat_of_nat_small) simp
  have e: "computeClassId cfg Size = ucast (of_nat (Suc ?i) :: uptr)"
    using computeClassId_loop_index [OF assms(1), of 0] by (simp add: computeClassId_def add.commute)
  have "unat (ucast (of_nat (Suc ?i) :: uptr) :: u8) = Suc ?i"
    unfolding unat_ucast_eq n using assms by simp
  then show ?thesis unfolding e using n by (simp add: word_unat_eq_iff unat_ucast_up add.commute)
qed

lemma table_lookup:
  assumes v: "valid_table cfg" and hi: "Size \<le> last (Classes cfg)"
  shows "table_getClassIdBySize cfg Size = of_nat (class_index Size (Classes cfg)) + 1"
proof -
  let ?m = "MidSizeLog cfg" and ?S = "table_S cfg" and ?D = "unat (SizeDelta cfg)" and ?Cs = "Classes cfg"
  have t: "?S \<le> ?m" "0 < ?m" "?S \<le> 8" "?m \<le> MaxSizeLog cfg" "MaxSizeLog cfg < 48" "?D < 2 ^ 32" "?Cs \<noteq> []" "length ?Cs < 255"
    "?D \<le> unat (?Cs ! 0)" "last ?Cs = push_bit (MaxSizeLog cfg) 1 + SizeDelta cfg"
    using v by (auto simp: valid_table_def word_le_nat_alt)
  note ix = class_index_spec [OF hi t(7)]
  have pm: "unat (push_bit k 1 :: uptr) = 2 ^ k" if "k < 48" for k using that by (intro unat_push_bit_1) simp
  have P48: "(2 :: nat) ^ k \<le> 2 ^ 47" if "k < 48" for k using that by (intro power_increasing) simp_all
  have max: "unat (last ?Cs) = 2 ^ MaxSizeLog cfg + ?D"
    unfolding t(10) using t(6) pm [OF t(5)] P48 [OF t(5)] by (subst unat_add_small) simp_all
  show ?thesis
  proof (cases "Size \<le> ?Cs ! 0")
    case True
    then have "class_index Size ?Cs = 0" using t(7) by (cases ?Cs) simp_all
    then show ?thesis using True by (simp add: table_getClassIdBySize_def)
  next
    case F: False
    then have big: "?D < unat Size" using t(9) by (simp add: word_le_nat_alt)
    define s where "s = unat Size - ?D"
    have us: "unat (Size - SizeDelta cfg) = s" using big by (simp add: s_def unat_sub word_le_nat_alt)
    have s: "0 < s" "s \<le> 2 ^ MaxSizeLog cfg" using big hi max by (auto simp: s_def word_le_nat_alt)
    have "Size - SizeDelta cfg \<noteq> 0" using us s(1) by (metis less_irrefl unat_0)
    then have us1: "unat (Size - SizeDelta cfg - 1) = s - 1" by (metis unat_minus_one us)
    have m48: "?m < 48" using t by simp
    have mid: "Size - SizeDelta cfg \<le> push_bit ?m 1 \<longleftrightarrow> s \<le> 2 ^ ?m" using pm [OF m48] us by (simp add: word_le_nat_alt)
    show ?thesis
    proof (cases "s \<le> 2 ^ ?m")
      case True
      have "of_nat s = Size - SizeDelta cfg" unfolding us [symmetric] by simp
      then have Sz: "Size = of_nat (Suc (s - 1)) + SizeDelta cfg" using s(1) by simp
      have "Size \<in> set (mid_sizes cfg)"
        unfolding mid_sizes_def using True s(1) F Sz by (auto simp: not_le intro!: image_eqI [of _ _ "s - 1"])
      then have "drop_bit (MinSizeLog cfg) (Size - SizeDelta cfg - 1) = of_nat (class_index Size ?Cs)"
        using v by (simp add: valid_table_def list_all_iff)
      then show ?thesis using F True mid by (simp add: table_getClassIdBySize_def)
    next
      case False
      let ?L = "msb_nat (s - 1)"
      define u where "u = (?L - ?m) * 2 ^ ?S + ((s - 1) div 2 ^ (?L - ?S) - 2 ^ ?S)"
      have mL: "?m \<le> ?L" using False by (intro msb_nat_ge) simp
      have s1: "0 < s - 1" using False by (metis less_imp_diff_less nat_less_le not_le one_le_power one_le_numeral zero_less_diff s(1) le_antisym less_one)
      have b: "upper_size ?m ?S u \<le> s - 1" "s - 1 < upper_size ?m ?S (Suc u)"
        using upper_size_bounds(1,2) [OF t(1) mL s1] by (simp_all only: u_def)
      have lg: "unat (scaledLog2 (Size - SizeDelta cfg - 1) ?m ?S) = u"
        using unat_scaledLog2 [OF t(1,2) _ t(3), of "Size - SizeDelta cfg - 1"] mL by (simp add: us1 u_def)
      have top: "upper_size ?m ?S (getTableSize cfg) = 2 ^ MaxSizeLog cfg"
        using t(4) by (simp add: upper_size_def getTableSize_def)
      have un: "u < getTableSize cfg"
      proof (rule ccontr)
        assume "\<not> u < getTableSize cfg"
        then have "upper_size ?m ?S (getTableSize cfg) \<le> upper_size ?m ?S u"
          using upper_size_less [OF t(1), of "getTableSize cfg" u] by (cases "u = getTableSize cfg") auto
        then show False using b(1) s top by simp
      qed
      have st: "(of_nat (upper_size ?m ?S 0) :: uptr) = push_bit ?m 1"
        "(of_nat (2 ^ (?m + 0 div 2 ^ ?S - ?S)) :: uptr) = push_bit (?m - ?S) 1"
        by (simp_all add: upper_size_0 push_bit_of_1)
      have top63: "upper_size ?m ?S (0 + getTableSize cfg) < 2 ^ 63" using top P48 [OF t(5)] by simp
      let ?U = "of_nat (upper_size ?m ?S (Suc u)) + SizeDelta cfg"
      have entry: "SzTable cfg ! u = computeClassId cfg ?U"
        using size_table_entry [OF refl refl t(1) refl refl top63 un] unfolding SzTable_def st by simp
      have upu: "upper_size ?m ?S (Suc u) \<le> 2 ^ MaxSizeLog cfg"
        using un top upper_size_less [OF t(1), of "Suc u" "getTableSize cfg"] by (cases "Suc u = getTableSize cfg") auto
      then have lt47: "upper_size ?m ?S (Suc u) \<le> 2 ^ 47" using P48 [OF t(5)] by linarith
      then have uw: "unat (of_nat (upper_size ?m ?S (Suc u)) :: uptr) = upper_size ?m ?S (Suc u)"
        by (intro unat_of_nat_small) simp
      have uU: "unat ?U = upper_size ?m ?S (Suc u) + ?D"
        using uw lt47 t(6) by (subst unat_add_small) simp_all
      have "(Size \<le> C) = (?U \<le> C)" if C: "C \<in> set ?Cs" for C
      proof
        assume "?U \<le> C"
        then show "Size \<le> C" using uU b(2) by (simp add: word_le_nat_alt s_def)
      next
        assume le: "Size \<le> C"
        define c where "c = unat C - ?D"
        have cs: "s \<le> c" using le by (simp add: c_def s_def word_le_nat_alt)
        have "unat (push_bit ?m 1 + SizeDelta cfg) = 2 ^ ?m + ?D"
          using pm [OF m48] P48 [OF m48] t(6) by (subst unat_add_small) simp_all
        then have "\<not> C \<le> push_bit ?m 1 + SizeDelta cfg"
          using cs False big by (simp add: word_le_nat_alt c_def)
        then have dv: "2 ^ (msb_nat c - ?S) dvd c"
          using v C by (auto simp: valid_table_def list_all_iff representable_def c_def)
        have "2 ^ ?m < Suc c" using cs False by simp
        then have mc: "?m \<le> msb_nat c" using msb_nat_ge [of ?m "Suc c"] by simp
        have c0: "0 < c" using cs s(1) by simp
        define w where "w = (msb_nat c - ?m) * 2 ^ ?S + (c div 2 ^ (msb_nat c - ?S) - 2 ^ ?S)"
        have w: "upper_size ?m ?S w = c" using upper_size_bounds(3) [OF t(1) mc c0] dv by (simp only: w_def)
        have "\<not> w < Suc u"
        proof
          assume "w < Suc u"
          then have "upper_size ?m ?S w \<le> upper_size ?m ?S u"
            using upper_size_less [OF t(1), of w u] by (cases "w = u") auto
          then show False using w cs b(1) s1 by simp
        qed
        then have "upper_size ?m ?S (Suc u) \<le> c"
          using w upper_size_less [OF t(1), of "Suc u" w] by (cases "w = Suc u") auto
        then show "?U \<le> C" using uU c0 by (simp add: word_le_nat_alt c_def)
      qed
      then have ci: "class_index Size ?Cs = class_index ?U ?Cs" by (rule class_index_cong)
      then have "(ucast (SzTable cfg ! u) :: uptr) = of_nat (class_index Size ?Cs) + 1"
        using class_id_field [of ?U cfg] ix(1) t(8) by (simp add: entry)
      then show ?thesis using F False mid lg by (simp add: table_getClassIdBySize_def)
    qed
  qed
qed

lemma msb_nat_numeral:
  "msb_nat (numeral (Num.Bit0 k)) = Suc (msb_nat (numeral k))"
  "msb_nat (numeral (Num.Bit1 k)) = Suc (msb_nat (numeral k))"
  "msb_nat (Suc 0) = 0"
  by (subst msb_nat.simps, simp)+

lemma android_representable:
  "list_all (representable AndroidSizeClassConfig) (Classes AndroidSizeClassConfig)"
  "list_all (representable AndroidSizeClassConfig32) (Classes AndroidSizeClassConfig32)"
  by (simp_all add: representable_def AndroidSizeClassConfig_def AndroidSizeClassConfig32_def table_S_def msb_nat_numeral)

lemma android_mid:
  "list_all (\<lambda>X. drop_bit 4 (X - 16 - 1) = of_nat (class_index X (Classes AndroidSizeClassConfig))) (mid_sizes AndroidSizeClassConfig)"
  "list_all (\<lambda>X. drop_bit 4 (X - 16 - 1) = of_nat (class_index X (Classes AndroidSizeClassConfig32))) (mid_sizes AndroidSizeClassConfig32)"
  by (simp_all add: mid_sizes_def AndroidSizeClassConfig_def AndroidSizeClassConfig32_def upt_rec)

lemma android_valid: "valid_table AndroidSizeClassConfig" "valid_table AndroidSizeClassConfig32"
  using android_representable android_mid
  by (simp_all add: valid_table_def) (simp_all add: AndroidSizeClassConfig_def AndroidSizeClassConfig32_def table_S_def)

lemma lowest_bit_numeral:
  "lowest_bit C (numeral k) Bit =
     (if C AND push_bit Bit 1 \<noteq> 0 then Some (of_nat Bit) else lowest_bit C (pred_numeral k) (Suc Bit))"
  by (simp add: numeral_eq_Suc)

lemma android_LTable:
  "LTable AndroidSizeClassConfig = \<lparr>LTab = [5, 4, 6, 4, 5, 4, 4, 4, 6, 5, 5, 5, 6, 4, 5, 4, 4, 4, 4, 4, 4, 4, 4, 4, 4, 4, 4, 4, 4, 4, 4, 4],
     UseCompressedFormat = True, CompressedMin = 4, CompressedValue = 0x12560121\<rparr>"
  by (simp add: LTable_def AndroidSizeClassConfig_def ClassesSize_def lowest_bit_numeral)

lemma android_lsb:
  "list_all (\<lambda>C. table_getSizeLSBByClassId AndroidSizeClassConfig C
      = ucast (getLeastSignificantSetBitIndex (table_getSizeByClassId AndroidSizeClassConfig C))) (map of_nat [1 ..< 33])"
  unfolding table_getSizeLSBByClassId_def android_LTable table_getSizeByClassId_def getLeastSignificantSetBitIndex_def builtin_ctzl_def
  by (simp add: AndroidSizeClassConfig_def upt_rec lsb_nat.simps)

lemma table_MaxSize_last: "Classes cfg \<noteq> [] \<Longrightarrow> length (Classes cfg) < 255 \<Longrightarrow> table_MaxSize cfg = last (Classes cfg)"
proof -
  assume ne: "Classes cfg \<noteq> []" "length (Classes cfg) < 255"
  have n: "unat (of_nat (length (Classes cfg)) :: uptr) = length (Classes cfg)" using ne by (intro unat_of_nat_small) simp
  then have "unat (of_nat (length (Classes cfg)) - 1 :: uptr) = length (Classes cfg) - 1"
    using ne by (metis length_greater_0_conv less_irrefl unat_0 unat_minus_one)
  then show ?thesis
    using ne by (simp add: table_MaxSize_def table_LargestClassId_def table_NumClasses_def ClassesSize_def last_conv_nth)
qed

text \<open>C24: The table of \<^verbatim>\<open>TableSizeClassMap\<close> is the linear search through the list of sizes: for every
  size up to the largest, \<^verbatim>\<open>getClassIdBySize\<close> gives the first class that covers it, and every class
  before is too small. Both of Android's configurations satisfy what this needs of a table, and
  the compressed table of lowest set bits gives the lowest set bit of each of the 32 sizes.\<close>

theorem table_lookup_is_search:
  assumes "valid_table cfg" "Size \<le> table_MaxSize cfg"
  shows "(let c = table_getClassIdBySize cfg Size
    in c = ucast (computeClassId cfg Size) \<and> 1 \<le> unat c \<and> c \<le> table_LargestClassId cfg
       \<and> Size \<le> table_getSizeByClassId cfg c
       \<and> (\<forall>d. 1 \<le> unat d \<longrightarrow> d < c \<longrightarrow> table_getSizeByClassId cfg d < Size))
    \<and> valid_table AndroidSizeClassConfig \<and> valid_table AndroidSizeClassConfig32
    \<and> list_all (\<lambda>C. table_getSizeLSBByClassId AndroidSizeClassConfig C
        = ucast (getLeastSignificantSetBitIndex (table_getSizeByClassId AndroidSizeClassConfig C))) (map of_nat [1 ..< 33])"
proof -
  let ?Cs = "Classes cfg" and ?i = "class_index Size (Classes cfg)" and ?c = "table_getClassIdBySize cfg Size"
  have ne: "?Cs \<noteq> []" "length ?Cs < 255" using assms(1) by (simp_all add: valid_table_def)
  have hi: "Size \<le> last ?Cs" using assms(2) table_MaxSize_last [OF ne] by simp
  note ix = class_index_spec [OF hi ne(1)]
  have c: "?c = of_nat ?i + 1" by (rule table_lookup [OF assms(1) hi])
  have u: "unat (of_nat n + 1 :: uptr) = Suc n" if "n < 300" for n
  proof -
    have "unat (of_nat (Suc n) :: uptr) = Suc n" using that by (intro unat_of_nat_small) simp
    then show ?thesis by (simp add: add.commute)
  qed
  have uc: "unat ?c = Suc ?i" using u [of ?i] ix(1) ne(2) by (simp add: c)
  have "table_LargestClassId cfg = of_nat (length ?Cs)"
    by (simp add: table_LargestClassId_def table_NumClasses_def ClassesSize_def)
  moreover have "unat (of_nat (length ?Cs) :: uptr) = length ?Cs" using ne(2) by (intro unat_of_nat_small) simp
  ultimately have "?c \<le> table_LargestClassId cfg" using uc ix(1) by (simp add: word_le_nat_alt)
  moreover have "Size \<le> table_getSizeByClassId cfg ?c"
  proof -
    have "unat (?c - 1) = ?i" using uc by (metis Suc_neq_Zero diff_Suc_1 unat_0 unat_minus_one)
    then show ?thesis using ix(2) by (simp add: table_getSizeByClassId_def)
  qed
  moreover have "table_getSizeByClassId cfg d < Size" if "1 \<le> unat d" "d < ?c" for d
  proof -
    have "d \<noteq> 0" using that(1) by auto
    then have "unat (d - 1) < ?i" using that uc by (simp add: unat_minus_one word_less_nat_alt)
    then show ?thesis using ix(3) by (simp add: table_getSizeByClassId_def)
  qed
  moreover have "?c = ucast (computeClassId cfg Size)" using class_id_field [OF ix(1) ne(2)] c by simp
  ultimately show ?thesis using uc android_valid android_lsb(1) by (simp add: Let_def)
qed

theorem table_lookup_is_search_witness:
  "valid_table AndroidSizeClassConfig \<and> table_getSizeByClassId AndroidSizeClassConfig 12 = 0x160
    \<and> table_getClassIdBySize AndroidSizeClassConfig 0x121 = ucast (computeClassId AndroidSizeClassConfig 0x121)"
proof -
  have ne: "Classes AndroidSizeClassConfig \<noteq> []" "length (Classes AndroidSizeClassConfig) < 255"
    by (simp_all add: AndroidSizeClassConfig_def)
  have "0x121 \<le> table_MaxSize AndroidSizeClassConfig"
    unfolding table_MaxSize_last [OF ne] by (simp add: AndroidSizeClassConfig_def)
  from table_lookup_is_search [OF android_valid(1) this] android_valid(1) show ?thesis
    by (simp add: Let_def) (simp add: table_getSizeByClassId_def AndroidSizeClassConfig_def)
qed

end
