(* ===== verification/Tsd.thy ===== *)
theory Tsd
  imports Options Report
begin

text \<open>
  \<^verbatim>\<open>tsd.h\<close>, \<^verbatim>\<open>tsd_shared.h\<close> and \<^verbatim>\<open>tsd_exclusive.h\<close>: which thread-specific data (cache and
  quarantine cache) a thread uses. The shared registry keeps a few of them for all threads: each
  thread has a current one, in a word whose lowest bit is the thread's \<^verbatim>\<open>DisableMemInit\<close>, and when
  it is busy looks at up to four others, in an order given by a number coprime to their count. The
  exclusive registry has one per thread and a fallback.

  The caches themselves are parameters here (\<open>Combined\<close> has them for one thread). The mutex of a
  context is the thread that holds it, if any; threads are numbers, and the thread that runs an
  operation is its argument \<open>me\<close>. \<open>tsd_lock\<close> is the state in which \<^verbatim>\<open>lock\<close> returns, when the
  thread that held the mutex has given it back: the mutex is then held by \<open>me\<close>. How long that takes
  and what other threads do meanwhile is not modelled, and a thread that locks a mutex it holds
  never returns, so the theorems assume that it holds none.
\<close>

unbundle bit_operations_syntax

section \<open>A TSD\<close>

definition PTHREAD_DESTRUCTOR_ITERATIONS :: u8 where
  "PTHREAD_DESTRUCTOR_ITERATIONS = 4"

record tsd =
  DestructorIterations :: u8
  TOwner :: "nat option"
  TPrecedence :: uptr

abbreviation TLocked :: "tsd \<Rightarrow> bool" where
  "TLocked t \<equiv> TOwner t \<noteq> None"

definition tsd_empty :: tsd where
  "tsd_empty = \<lparr>DestructorIterations = 0, TOwner = None, TPrecedence = 0\<rparr>"

definition tsd_init :: "tsd \<Rightarrow> tsd" where
  "tsd_init t = t\<lparr>DestructorIterations := PTHREAD_DESTRUCTOR_ITERATIONS\<rparr>"

text \<open>\<open>now\<close> is the monotonic time, not shifted on 64 bits.\<close>

definition tsd_tryLock :: "nat \<Rightarrow> uptr \<Rightarrow> tsd \<Rightarrow> bool \<times> tsd" where
  "tsd_tryLock me now t =
     (if \<not> TLocked t then (True, t\<lparr>TOwner := Some me, TPrecedence := 0\<rparr>)
      else if TPrecedence t = 0 then (False, t\<lparr>TPrecedence := now\<rparr>)
      else (False, t))"

definition tsd_lock :: "nat \<Rightarrow> tsd \<Rightarrow> tsd" where
  "tsd_lock me t = t\<lparr>TPrecedence := 0, TOwner := Some me\<rparr>"

definition tsd_unlock :: "tsd \<Rightarrow> tsd" where
  "tsd_unlock t = t\<lparr>TOwner := None\<rparr>"

section \<open>The word of a thread\<close>

definition setCurrentTSD :: "uptr \<Rightarrow> uptr \<Rightarrow> uptr" where
  "setCurrentTSD CurrentTSD Tls = (Tls AND 1) OR CurrentTSD"

definition getCurrentTSD :: "uptr \<Rightarrow> uptr" where
  "getCurrentTSD Tls = Tls AND NOT 1"

definition shared_setDisableMemInit :: "bool \<Rightarrow> uptr \<Rightarrow> uptr" where
  "shared_setDisableMemInit B Tls = (Tls AND NOT 1) OR (if B then 1 else 0)"

definition shared_getDisableMemInit :: "uptr \<Rightarrow> bool" where
  "shared_getDisableMemInit Tls = (Tls AND 1 \<noteq> 0)"

section \<open>The shared registry\<close>

text \<open>\<^verbatim>\<open>CoPrimes\<close> is the part of the array in use; \<open>TsdBase\<close> and \<open>TsdSize\<close> place the array in memory.\<close>

record shared_registry =
  TSDs :: "tsd list"
  NumberOfTSDs :: u32
  CoPrimes :: "u32 list"
  CurrentIndex :: u32
  TsdInitialized :: bool
  TsdBase :: uptr
  TsdSize :: uptr

definition tsd_addr :: "shared_registry \<Rightarrow> nat \<Rightarrow> uptr" where
  "tsd_addr r I = TsdBase r + of_nat I * TsdSize r"

definition tsd_index :: "shared_registry \<Rightarrow> uptr \<Rightarrow> nat" where
  "tsd_index r P = unat ((P - TsdBase r) div TsdSize r)"

function gcd_loop :: "u32 \<Rightarrow> u32 \<Rightarrow> u32" where
  "gcd_loop A B = (if B = 0 then A else gcd_loop B (A mod B))"
  by pat_completeness auto
termination
  by (relation "measure (\<lambda>(A, B). unat B)") (auto simp: unat_mod unat_gt_0 word_neq_0_conv [symmetric] intro!: mod_less_divisor)

declare gcd_loop.simps [simp del]

definition compute_coprimes :: "u32 \<Rightarrow> u32 list" where
  "compute_coprimes N = filter (\<lambda>A. gcd_loop A N = 1) (map (\<lambda>I. of_nat I + 1) [0 ..< unat N])"

definition setNumberOfTSDs :: "u32 \<Rightarrow> shared_registry \<Rightarrow> bool \<times> shared_registry" where
  "setNumberOfTSDs N r =
     (if N < NumberOfTSDs r then (False, r)
      else let N = (if N > of_nat (length (TSDs r)) then of_nat (length (TSDs r)) else N)
           in (True, r\<lparr>NumberOfTSDs := N, CoPrimes := compute_coprimes N\<rparr>))"

definition shared_init :: "u32 \<Rightarrow> u32 \<Rightarrow> shared_registry \<Rightarrow> shared_registry" where
  "shared_init NumberOfCPUs DefaultTSDCount r =
     (let r = r\<lparr>TSDs := map tsd_init (TSDs r)\<rparr>;
          r = snd (setNumberOfTSDs (if NumberOfCPUs = 0 then DefaultTSDCount
                                    else MinU NumberOfCPUs DefaultTSDCount) r)
      in r\<lparr>TsdInitialized := True\<rparr>)"

definition shared_initOnceMaybe :: "u32 \<Rightarrow> u32 \<Rightarrow> shared_registry \<Rightarrow> shared_registry" where
  "shared_initOnceMaybe NumberOfCPUs DefaultTSDCount r =
     (if TsdInitialized r then r else shared_init NumberOfCPUs DefaultTSDCount r)"

definition shared_initThread ::
    "u32 \<Rightarrow> u32 \<Rightarrow> shared_registry \<Rightarrow> uptr \<Rightarrow> shared_registry \<times> uptr" where
  "shared_initThread NumberOfCPUs DefaultTSDCount r Tls =
     (let r = shared_initOnceMaybe NumberOfCPUs DefaultTSDCount r;
          Index = CurrentIndex r
      in (r\<lparr>CurrentIndex := Index + 1\<rparr>,
          setCurrentTSD (tsd_addr r (unat (Index mod NumberOfTSDs r))) Tls))"

definition shared_initThreadMaybe ::
    "u32 \<Rightarrow> u32 \<Rightarrow> shared_registry \<Rightarrow> uptr \<Rightarrow> shared_registry \<times> uptr" where
  "shared_initThreadMaybe NumberOfCPUs DefaultTSDCount r Tls =
     (if getCurrentTSD Tls \<noteq> 0 then (r, Tls) else shared_initThread NumberOfCPUs DefaultTSDCount r Tls)"

definition shared_setOption :: "RtOption \<Rightarrow> sptr \<Rightarrow> shared_registry \<Rightarrow> uptr \<Rightarrow> bool \<times> shared_registry \<times> uptr" where
  "shared_setOption Opt Value r Tls =
     (if Opt = MaxTSDsCount then let (ok, r) = setNumberOfTSDs (ucast Value) r in (ok, r, Tls)
      else (True, r, if Opt = ThreadDisableMemInit then shared_setDisableMemInit (Value \<noteq> 0) Tls else Tls))"

definition shared_disable :: "nat \<Rightarrow> shared_registry \<Rightarrow> shared_registry" where
  "shared_disable me r = r\<lparr>TSDs := map (tsd_lock me) (TSDs r)\<rparr>"

definition shared_enable :: "shared_registry \<Rightarrow> shared_registry" where
  "shared_enable r = r\<lparr>TSDs := map tsd_unlock (TSDs r)\<rparr>"

text \<open>The search for a free context: \<open>n\<close> rounds are left, \<open>Lowest\<close> is the lowest precedence seen.
  The result is the context that was locked, or the candidate to wait for.\<close>

definition next_index :: "u32 \<Rightarrow> u32 \<Rightarrow> u32 \<Rightarrow> u32" where
  "next_index N Inc Index = (let Index = Index + Inc in if Index \<ge> N then Index - N else Index)"

fun slow_loop :: "nat \<Rightarrow> uptr \<Rightarrow> u32 \<Rightarrow> u32 \<Rightarrow> nat \<Rightarrow> u32 \<Rightarrow> uptr \<Rightarrow> nat option \<Rightarrow> tsd list
    \<Rightarrow> nat option \<times> nat option \<times> tsd list" where
  "slow_loop me now N Inc 0 Index Lowest Candidate ts = (None, Candidate, ts)"
| "slow_loop me now N Inc (Suc n) Index Lowest Candidate ts =
     (let I = unat Index; (ok, t) = tsd_tryLock me now (ts ! I); ts = ts[I := t]
      in if ok then (Some I, Candidate, ts)
         else let Precedence = TPrecedence t;
                  (Lowest, Candidate) = (if Precedence \<noteq> 0 \<and> Precedence < Lowest then (Precedence, Some I)
                                         else (Lowest, Candidate))
              in slow_loop me now N Inc n (next_index N Inc Index) Lowest Candidate ts)"

text \<open>Returns the index of the context, the registry and the word of the thread.\<close>

definition getTSDAndLockSlow ::
    "nat \<Rightarrow> uptr \<Rightarrow> nat \<Rightarrow> shared_registry \<Rightarrow> uptr \<Rightarrow> nat \<times> shared_registry \<times> uptr" where
  "getTSDAndLockSlow me now Current r Tls =
     (let R = ucast (TPrecedence (TSDs r ! Current)) :: u32;
          N = NumberOfTSDs r;
          Inc = CoPrimes r ! unat (R mod of_nat (length (CoPrimes r)));
          stay = (\<lambda>ts. (Current, r\<lparr>TSDs := ts[Current := tsd_lock me (ts ! Current)]\<rparr>, Tls))
      in if N > 1 then
           case slow_loop me now N Inc (unat (MinU 4 N)) (R mod N) (- 1) None (TSDs r) of
             (Some I, _, ts) \<Rightarrow> (I, r\<lparr>TSDs := ts\<rparr>, setCurrentTSD (tsd_addr r I) Tls)
           | (None, Some C, ts) \<Rightarrow>
               (C, r\<lparr>TSDs := ts[C := tsd_lock me (ts ! C)]\<rparr>, setCurrentTSD (tsd_addr r C) Tls)
           | (None, None, ts) \<Rightarrow> stay ts
         else stay (TSDs r))"

definition shared_getTSDAndLock ::
    "nat \<Rightarrow> uptr \<Rightarrow> shared_registry \<Rightarrow> uptr \<Rightarrow> nat \<times> shared_registry \<times> uptr" where
  "shared_getTSDAndLock me now r Tls =
     (let Current = tsd_index r (getCurrentTSD Tls);
          (ok, t) = tsd_tryLock me now (TSDs r ! Current);
          r = r\<lparr>TSDs := (TSDs r)[Current := t]\<rparr>
      in if ok then (Current, r, Tls)
         else if length (TSDs r) = 1
         then (Current, r\<lparr>TSDs := (TSDs r)[Current := tsd_lock me (TSDs r ! Current)]\<rparr>, Tls)
         else getTSDAndLockSlow me now Current r Tls)"

text \<open>\<open>drain I\<close> is \<^verbatim>\<open>Instance->drainCache(&TSDs[I])\<close> on the allocator's state.\<close>

definition shared_drainCaches ::
    "nat \<Rightarrow> (nat \<Rightarrow> 'a \<Rightarrow> 'a) \<Rightarrow> shared_registry \<Rightarrow> 'a \<Rightarrow> shared_registry \<times> 'a" where
  "shared_drainCaches me drain r a =
     fold (\<lambda>I (r, a).
         let r = r\<lparr>TSDs := (TSDs r)[I := tsd_lock me (TSDs r ! I)]\<rparr>;
             a = drain I a
         in (r\<lparr>TSDs := (TSDs r)[I := tsd_unlock (TSDs r ! I)]\<rparr>, a))
       [0 ..< unat (NumberOfTSDs r)] (r, a)"

text \<open>\<open>commit I\<close> is \<^verbatim>\<open>TSDs[I].commitBack(Instance)\<close>.\<close>

definition shared_unmapTestOnly ::
    "(nat \<Rightarrow> 'a \<Rightarrow> 'a) \<Rightarrow> shared_registry \<Rightarrow> uptr \<Rightarrow> 'a \<Rightarrow> shared_registry \<times> uptr \<times> 'a" where
  "shared_unmapTestOnly commit r Tls a =
     (r\<lparr>TSDs := map (\<lambda>_. tsd_empty) (TSDs r), TsdInitialized := False\<rparr>, setCurrentTSD 0 Tls,
      fold commit [0 ..< length (TSDs r)] a)"

section \<open>The exclusive registry\<close>

datatype init_state = NotInitialized | Initialized | TornDown

record thread_state =
  TSDisableMemInit :: bool
  InitState :: init_state
  ThreadTSD :: tsd

record ex_registry =
  ExInitialized :: bool
  ExDisabled :: bool
  FallbackTSD :: tsd

text \<open>\<open>key_ok\<close>: whether \<^verbatim>\<open>pthread_key_create\<close> and \<^verbatim>\<open>pthread_setspecific\<close> succeed.\<close>

definition ex_init :: "bool \<Rightarrow> ex_registry \<Rightarrow> ex_registry result" where
  "ex_init key_ok r =
     bindE (CHECK key_ok ''pthread_key_create'') (\<lambda>_.
       Inr (r\<lparr>FallbackTSD := tsd_init (FallbackTSD r), ExInitialized := True\<rparr>))"

definition ex_initOnceMaybe :: "bool \<Rightarrow> ex_registry \<Rightarrow> ex_registry result" where
  "ex_initOnceMaybe key_ok r = (if ExInitialized r then Inr r else ex_init key_ok r)"

definition ex_initThread ::
    "bool \<Rightarrow> bool \<Rightarrow> ex_registry \<Rightarrow> thread_state \<Rightarrow> (ex_registry \<times> thread_state) result" where
  "ex_initThread key_ok MinimalInit r s =
     bindE (ex_initOnceMaybe key_ok r) (\<lambda>r.
       if MinimalInit then Inr (r, s)
       else bindE (CHECK key_ok ''pthread_setspecific'') (\<lambda>_.
         Inr (r, s\<lparr>ThreadTSD := tsd_init (ThreadTSD s), InitState := Initialized\<rparr>)))"

definition ex_initThreadMaybe ::
    "bool \<Rightarrow> bool \<Rightarrow> ex_registry \<Rightarrow> thread_state \<Rightarrow> (ex_registry \<times> thread_state) result" where
  "ex_initThreadMaybe key_ok MinimalInit r s =
     (if InitState s \<noteq> NotInitialized then Inr (r, s) else ex_initThread key_ok MinimalInit r s)"

definition ex_disable :: "nat \<Rightarrow> ex_registry \<Rightarrow> ex_registry" where
  "ex_disable me r = r\<lparr>FallbackTSD := tsd_lock me (FallbackTSD r), ExDisabled := True\<rparr>"

definition ex_enable :: "ex_registry \<Rightarrow> ex_registry" where
  "ex_enable r = r\<lparr>ExDisabled := False, FallbackTSD := tsd_unlock (FallbackTSD r)\<rparr>"

definition ex_setOption :: "RtOption \<Rightarrow> sptr \<Rightarrow> thread_state \<Rightarrow> bool \<times> thread_state" where
  "ex_setOption Opt Value s =
     (let s = (if Opt = ThreadDisableMemInit then s\<lparr>TSDisableMemInit := Value \<noteq> 0\<rparr> else s)
      in if Opt = MaxTSDsCount then (False, s) else (True, s))"

definition ex_getDisableMemInit :: "thread_state \<Rightarrow> bool" where
  "ex_getDisableMemInit s = TSDisableMemInit s"

text \<open>\<open>drain_thread\<close> and \<open>drain_fallback\<close> are \<^verbatim>\<open>Instance->drainCache\<close> of the two contexts.\<close>

definition ex_drainCaches ::
    "nat \<Rightarrow> ('a \<Rightarrow> 'a) \<Rightarrow> ('a \<Rightarrow> 'a) \<Rightarrow> ex_registry \<Rightarrow> 'a \<Rightarrow> ex_registry \<times> 'a" where
  "ex_drainCaches me drain_thread drain_fallback r a =
     (let a = drain_thread a;
          r = r\<lparr>FallbackTSD := tsd_lock me (FallbackTSD r)\<rparr>;
          a = drain_fallback a
      in (r\<lparr>FallbackTSD := tsd_unlock (FallbackTSD r)\<rparr>, a))"

text \<open>\<open>registered\<close>: \<^verbatim>\<open>pthread_getspecific\<close> has a value; \<open>key_ok\<close>: \<^verbatim>\<open>pthread_key_delete\<close> succeeds.\<close>

definition ex_unmapTestOnly ::
    "bool \<Rightarrow> bool \<Rightarrow> ('a \<Rightarrow> 'a) \<Rightarrow> ('a \<Rightarrow> 'a) \<Rightarrow> ex_registry \<Rightarrow> thread_state \<Rightarrow> 'a
     \<Rightarrow> (ex_registry \<times> thread_state \<times> 'a) result" where
  "ex_unmapTestOnly registered key_ok commit_thread commit_fallback r s a =
     (let (s, a) = (if registered then (s\<lparr>ThreadTSD := tsd_empty\<rparr>, commit_thread a) else (s, a))
      in bindE (CHECK key_ok ''pthread_key_delete'') (\<lambda>_.
           Inr (r\<lparr>FallbackTSD := tsd_empty, ExInitialized := False\<rparr>,
                s\<lparr>TSDisableMemInit := False, InitState := NotInitialized\<rparr>, commit_fallback a)))"

text \<open>\<^verbatim>\<open>UnlockRequired\<close>, which is also whether the fallback is used, and the registry.\<close>

definition ex_getTSDAndLock :: "nat \<Rightarrow> thread_state \<Rightarrow> ex_registry \<Rightarrow> bool \<times> ex_registry" where
  "ex_getTSDAndLock me s r =
     (if InitState s = Initialized \<and> \<not> ExDisabled r then (False, r)
      else (True, r\<lparr>FallbackTSD := tsd_lock me (FallbackTSD r)\<rparr>))"

definition ex_release :: "bool \<Rightarrow> ex_registry \<Rightarrow> ex_registry" where
  "ex_release UnlockRequired r =
     (if UnlockRequired then r\<lparr>FallbackTSD := tsd_unlock (FallbackTSD r)\<rparr> else r)"

text \<open>\<open>commit\<close> is \<^verbatim>\<open>ThreadTSD.commitBack(Instance)\<close> on the allocator's state. The first component is
  whether the destructor has been armed again.\<close>

definition teardownThread :: "bool \<Rightarrow> ('a \<Rightarrow> 'a) \<Rightarrow> thread_state \<Rightarrow> 'a \<Rightarrow> bool \<times> thread_state \<times> 'a" where
  "teardownThread setspecific_ok commit s a =
     (let more = DestructorIterations (ThreadTSD s) > 1;
          s = (if more then s\<lparr>ThreadTSD := (ThreadTSD s)\<lparr>DestructorIterations := DestructorIterations (ThreadTSD s) - 1\<rparr>\<rparr>
               else s)
      in if more \<and> setspecific_ok then (True, s, a)
         else (False, s\<lparr>InitState := TornDown\<rparr>, commit a))"

end
