(* ===== verification/TsdSafe.thy ===== *)
theory TsdSafe
  imports Tsd
begin

text \<open>
  Proofs about the registries of thread-specific data: the walk by a coprime step visits every
  context once; a thread that asks for a context gets one whose lock it then owns, alone and as its only one,
  and waits only when the contexts it looked at are busy; a thread's caches are given back exactly once, in the
  last round of its destructors.
\<close>

unbundle bit_operations_syntax

section \<open>Coprime steps\<close>

lemma gcd_loop_gcd: "unat (gcd_loop A B) = gcd (unat A) (unat B)"
proof (induction A B rule: gcd_loop.induct)
  case (1 A B)
  show ?case
  proof (cases "B = 0")
    case False
    then have "unat (gcd_loop A B) = gcd (unat B) (unat (A mod B))" using 1 by (subst gcd_loop.simps) simp
    also have "\<dots> = gcd (unat A) (unat B)" by (metis gcd.commute gcd_red_nat unat_mod)
    finally show ?thesis .
  qed (simp add: gcd_loop.simps)
qed

lemma compute_coprimes_set:
  "X \<in> set (compute_coprimes N) \<longleftrightarrow> 1 \<le> unat X \<and> X \<le> N \<and> coprime (unat X) (unat N)"
proof -
  have u: "unat (of_nat I + 1 :: u32) = Suc I" if "I < unat N" for I
  proof -
    have "Suc I < 4294967296" using that unat_less_32 [of N] by linarith
    then have "unat (of_nat (Suc I) :: u32) = Suc I" by (intro unat_of_nat_small) simp
    then show ?thesis by (simp add: add.commute)
  qed
  have g: "gcd_loop A N = 1 \<longleftrightarrow> coprime (unat A) (unat N)" for A
    using gcd_loop_gcd [of A N] by (auto simp: word_unat_eq_iff coprime_iff_gcd_eq_1)
  show ?thesis
  proof
    assume "X \<in> set (compute_coprimes N)"
    then obtain I where "I < unat N" "X = of_nat I + 1" "gcd_loop X N = 1" by (auto simp: compute_coprimes_def)
    then show "1 \<le> unat X \<and> X \<le> N \<and> coprime (unat X) (unat N)" using u g by (simp add: word_le_nat_alt)
  next
    assume X: "1 \<le> unat X \<and> X \<le> N \<and> coprime (unat X) (unat N)"
    then have "unat X - 1 < unat N" by (simp add: word_le_nat_alt) linarith
    moreover have "X = of_nat (unat X - 1) + 1" using X u [OF calculation] by (simp add: word_unat_eq_iff)
    ultimately show "X \<in> set (compute_coprimes N)"
      unfolding compute_coprimes_def using X g by (auto intro!: image_eqI [of _ _ "unat X - 1"])
  qed
qed

lemma compute_coprimes_nonempty: "N \<noteq> 0 \<Longrightarrow> compute_coprimes N \<noteq> []"
  using compute_coprimes_set [of 1 N] by (auto simp: word_le_nat_alt unat_gt_0 Suc_le_eq)

definition walk :: "u32 \<Rightarrow> u32 \<Rightarrow> u32 \<Rightarrow> nat \<Rightarrow> u32" where
  "walk N Inc Index k = (next_index N Inc ^^ k) Index"

lemma walk_simps: "walk N Inc Index 0 = Index" "walk N Inc Index (Suc k) = walk N Inc (next_index N Inc Index) k"
  by (simp_all add: walk_def funpow_swap1)

lemma next_index_value:
  assumes "Index < N" "Inc \<le> N" "unat N \<le> 2 ^ 31"
  shows "unat (next_index N Inc Index) = (unat Index + unat Inc) mod unat N" "next_index N Inc Index < N"
proof -
  have l: "unat Index < unat N" "unat Inc \<le> unat N" using assms by (simp_all add: word_less_nat_alt word_le_nat_alt)
  then have s: "unat (Index + Inc) = unat Index + unat Inc" using assms(3) by (intro unat_add_small) simp
  show u: "unat (next_index N Inc Index) = (unat Index + unat Inc) mod unat N"
  proof (cases "Index + Inc \<ge> N")
    case True
    then have "unat (Index + Inc - N) = unat Index + unat Inc - unat N" by (simp add: unat_sub s)
    moreover have "(unat Index + unat Inc) mod unat N = unat Index + unat Inc - unat N"
      using True l s by (simp add: le_mod_geq word_le_nat_alt)
    ultimately show ?thesis using True by (simp add: next_index_def)
  next
    case False
    then show ?thesis using s by (simp add: next_index_def word_le_nat_alt)
  qed
  then show "next_index N Inc Index < N" using l by (simp add: word_less_nat_alt)
qed

lemma walk_value:
  assumes "Index < N" "Inc \<le> N" "unat N \<le> 2 ^ 31"
  shows "unat (walk N Inc Index k) = (unat Index + k * unat Inc) mod unat N"
  using assms(1)
proof (induction k arbitrary: Index)
  case 0
  then show ?case by (simp add: walk_simps word_less_nat_alt)
next
  case (Suc k)
  note n = next_index_value [OF Suc.prems assms(2,3)]
  show ?case using Suc.IH [OF n(2)] n(1) by (simp add: walk_simps mod_add_left_eq add.assoc)
qed

lemma walk_inj:
  assumes "Index < N" "Inc \<le> N" "unat N \<le> 2 ^ 31" "coprime (unat Inc) (unat N)"
  shows "inj_on (walk N Inc Index) {..< unat N}"
proof -
  have w: "i = j" if e: "walk N Inc Index i = walk N Inc Index j" and ij: "i \<le> j" "j < unat N" for i j
  proof -
    have "(unat Index + i * unat Inc) mod unat N = (unat Index + j * unat Inc) mod unat N"
      using walk_value [OF assms(1-3), of i] walk_value [OF assms(1-3), of j] e by simp
    then have "unat N dvd (unat Index + j * unat Inc) - (unat Index + i * unat Inc)"
      using ij(1) by (intro mod_eq_dvd_iff_nat [THEN iffD1]) (simp_all add: mult_le_mono1)
    then have "unat N dvd (j - i) * unat Inc" by (simp add: diff_mult_distrib)
    then have "unat N dvd j - i" using assms(4) by (simp add: coprime_commute coprime_dvd_mult_left_iff)
    then show "i = j" using ij by (metis diff_is_0_eq dvd_imp_le gr0I le_antisym less_imp_diff_less not_le)
  qed
  show ?thesis
    unfolding inj_on_def using w by (metis lessThan_iff nat_le_linear)
qed

text \<open>\<^verbatim>\<open>setNumberOfTSDs\<close> stores exactly the steps coprime to the number of contexts, of which there is
  always one, and walking the contexts with such a step from any start visits each of them exactly
  once before it repeats.\<close>

theorem coprime_walk_visits_all:
  assumes "Index < N" "unat N \<le> 2 ^ 31" "Inc \<in> set (compute_coprimes N)"
  shows "distinct (map (walk N Inc Index) [0 ..< unat N]) \<and> set (map (walk N Inc Index) [0 ..< unat N]) = {I. I < N}
    \<and> compute_coprimes N \<noteq> []
    \<and> set (compute_coprimes N) = {X. 1 \<le> unat X \<and> X \<le> N \<and> gcd (unat X) (unat N) = 1}"
proof -
  have c: "Inc \<le> N" "coprime (unat Inc) (unat N)" using assms(3) by (simp_all add: compute_coprimes_set)
  note inj = walk_inj [OF assms(1) c(1) assms(2) c(2)]
  have N: "0 < unat N" using assms(1) by (simp add: word_less_nat_alt)
  have sub: "unat ` (walk N Inc Index ` {..< unat N}) \<subseteq> {..< unat N}"
    using walk_value [OF assms(1) c(1) assms(2)] N by auto
  have "card (unat ` (walk N Inc Index ` {..< unat N})) = unat N"
    using inj by (simp add: card_image inj_on_def word_unat_eq_iff)
  then have "unat ` (walk N Inc Index ` {..< unat N}) = {..< unat N}"
    using card_subset_eq [OF _ sub] by simp
  then have "walk N Inc Index ` {..< unat N} = {I. I < N}"
    by (auto simp: word_less_nat_alt set_eq_iff image_iff) (metis word_unat_eq_iff)+
  moreover have "distinct (map (walk N Inc Index) [0 ..< unat N])"
    using inj by (simp add: distinct_map atLeast0LessThan)
  ultimately show ?thesis
    using assms(3) compute_coprimes_set [of _ N] by (auto simp: atLeast0LessThan coprime_iff_gcd_eq_1)
qed

theorem coprime_walk_visits_all_witness:
  "compute_coprimes 8 = [1, 3, 5, 7] \<and> distinct (map (walk 8 3 5) [0 ..< 8])"
proof -
  have c: "compute_coprimes 8 = [1, 3, 5, 7]" by code_simp
  have "(3 :: u32) \<in> set (compute_coprimes 8)" by (simp add: c)
  then show ?thesis using coprime_walk_visits_all [of 5 8 3] c by simp
qed

section \<open>Getting a context\<close>

lemma tryLock_facts:
  assumes "tsd_tryLock me now t = (ok, t')"
  shows "ok = (\<not> TLocked t)" "TOwner t' = (if ok then Some me else TOwner t)"
  using assms by (auto simp: tsd_tryLock_def split: if_splits)

text \<open>The search changes no lock but the one it takes, and it looks at the contexts of the walk.\<close>

lemma slow_loop_facts:
  assumes "Index < N" "Inc \<le> N" "unat N \<le> 2 ^ 31" "unat N \<le> length ts"
    and "slow_loop me now N Inc n Index Lowest Candidate ts = (found, cand, ts')"
  shows "length ts' = length ts"
    and "case found of
      Some I \<Rightarrow> I < unat N \<and> \<not> TLocked (ts ! I) \<and> map TOwner ts' = (map TOwner ts)[I := Some me]
    | None \<Rightarrow> map TOwner ts' = map TOwner ts \<and> (\<forall>k < n. TLocked (ts ! unat (walk N Inc Index k)))
        \<and> (cand = Candidate \<or> (\<exists>C < unat N. cand = Some C))"
  using assms(1,4,5)
proof (induction n arbitrary: Index Lowest Candidate ts)
  case (Suc n)
  case 1
  obtain ok t where t: "tsd_tryLock me now (ts ! unat Index) = (ok, t)" by fastforce
  note nx = next_index_value(2) [OF 1(1) assms(2,3)]
  have l: "unat N \<le> length (ts[unat Index := t])" using 1(2) by simp
  show ?case
  proof (cases ok)
    case False
    obtain L' C' where r: "slow_loop me now N Inc n (next_index N Inc Index) L' C' (ts[unat Index := t]) = (found, cand, ts')"
      using 1(3) t False by (auto simp: Let_def split: prod.splits if_splits)
    show ?thesis using Suc.IH(1) [OF nx l r] by simp
  qed (use 1(3) t in \<open>auto simp: Let_def\<close>)
next
  case (Suc n)
  case 2
  let ?I = "unat Index"
  obtain ok t where t: "tsd_tryLock me now (ts ! ?I) = (ok, t)" by fastforce
  note tf = tryLock_facts [OF t]
  have I: "?I < unat N" "?I < length ts" using 2(1,2) by (simp_all add: word_less_nat_alt)
  note nx = next_index_value(2) [OF 2(1) assms(2,3)]
  show ?case
  proof (cases ok)
    case True
    then have "found = Some ?I" "ts' = ts[?I := t]" using 2(3) t by (auto simp: Let_def)
    then show ?thesis using I tf True by (simp add: map_update)
  next
    case False
    then have L: "TLocked (ts ! ?I)" using tf(1) by simp
    have m: "map TOwner (ts[?I := t]) = map TOwner ts"
      using I(2) False tf(2) by (simp add: map_update list_update_same_conv)
    obtain L' C' where r: "slow_loop me now N Inc n (next_index N Inc Index) L' C' (ts[?I := t]) = (found, cand, ts')"
      and C': "C' = Candidate \<or> C' = Some ?I"
      using 2(3) t False by (auto simp: Let_def split: prod.splits if_splits)
    have l: "unat N \<le> length (ts[?I := t])" using 2(2) by simp
    have nth: "TLocked (ts[?I := t] ! J) = TLocked (ts ! J)" if "J < length ts" for J
      using arg_cong [OF m, of "\<lambda>xs. xs ! J"] that by simp
    have wl: "unat (walk N Inc X k) < length ts" if "X < N" for X k
    proof -
      have "0 < unat N" using that by (simp add: word_less_nat_alt)
      then show ?thesis using walk_value [OF that assms(2,3), of k] 2(2) by (metis mod_less_divisor order_less_le_trans)
    qed
    show ?thesis
    proof (cases found)
      case (Some J)
      then show ?thesis using Suc.IH(2) [OF nx l r] m nth [of J] 2(2) by auto
    next
      case None
      then have h: "map TOwner ts' = map TOwner ts" "\<forall>k < n. TLocked (ts ! unat (walk N Inc (next_index N Inc Index) k))"
        "cand = C' \<or> (\<exists>C < unat N. cand = Some C)"
        using Suc.IH(2) [OF nx l r] m nth wl [OF nx] by auto
      have "TLocked (ts ! unat (walk N Inc Index k))" if "k < Suc n" for k
        using that L h(2) by (cases k) (simp_all add: walk_simps)
      then show ?thesis using None h C' I(1) by auto
    qed
  qed
qed auto

text \<open>The registry after \<^verbatim>\<open>init\<close>: the array of contexts lies in memory at even addresses, since the lowest
  bit of the word of a thread is taken.\<close>

definition shared_ok :: "shared_registry \<Rightarrow> bool" where
  "shared_ok r \<longleftrightarrow> 0 < NumberOfTSDs r \<and> unat (NumberOfTSDs r) \<le> length (TSDs r) \<and> length (TSDs r) \<le> 2 ^ 31
     \<and> CoPrimes r = compute_coprimes (NumberOfTSDs r) \<and> 0 < TsdSize r
     \<and> even (TsdBase r) \<and> even (TsdSize r) \<and> unat (TsdBase r) + length (TSDs r) * unat (TsdSize r) < 2 ^ 64"

lemma tsd_addr_facts:
  assumes "shared_ok r" "I < length (TSDs r)"
  shows "tsd_index r (tsd_addr r I) = I" "even (tsd_addr r I)"
proof -
  note s = assms(1) [unfolded shared_ok_def]
  have p: "0 < unat (TsdSize r)" using s by (simp add: unat_gt_0 word_neq_0_conv)
  have "I * unat (TsdSize r) \<le> length (TSDs r) * unat (TsdSize r)" using assms(2) by simp
  moreover have "unat (TsdBase r) + length (TSDs r) * unat (TsdSize r) < 18446744073709551616" using s by simp
  ultimately have b: "I * unat (TsdSize r) < 18446744073709551616" by linarith
  have i: "unat (of_nat I :: uptr) = I" using assms(2) s by (intro unat_of_nat_small) simp
  have m: "unat (of_nat I * TsdSize r) = I * unat (TsdSize r)" using b i by (simp add: unat_word_ariths)
  show "tsd_index r (tsd_addr r I) = I"
    unfolding tsd_index_def tsd_addr_def using m p by (simp add: unat_div)
  show "even (tsd_addr r I)" unfolding tsd_addr_def using s by simp
qed

lemma setCurrentTSD_facts:
  assumes "even P"
  shows "getCurrentTSD (setCurrentTSD P Tls) = P"
    "shared_getDisableMemInit (setCurrentTSD P Tls) = shared_getDisableMemInit Tls"
proof -
  have p: "\<not> bit P 0" using assms by (simp add: bit_0)
  show "getCurrentTSD (setCurrentTSD P Tls) = P"
    unfolding getCurrentTSD_def setCurrentTSD_def using p
    by (intro bit_word_eqI) (auto simp: bit_and_iff bit_or_iff bit_not_iff bit_1_iff, metis gr0I)
  have "setCurrentTSD P Tls AND 1 = Tls AND 1"
    unfolding setCurrentTSD_def using p
    by (intro bit_word_eqI) (auto simp: bit_and_iff bit_or_iff bit_1_iff)
  then show "shared_getDisableMemInit (setCurrentTSD P Tls) = shared_getDisableMemInit Tls"
    by (simp add: shared_getDisableMemInit_def)
qed

lemma coprime_pick:
  fixes R :: u32
  assumes "N \<noteq> 0"
  shows "compute_coprimes N ! unat (R mod of_nat (length (compute_coprimes N))) \<in> set (compute_coprimes N)"
proof -
  have l: "length (compute_coprimes N) \<le> unat N" unfolding compute_coprimes_def
    by (rule order_trans [OF length_filter_le]) simp
  have "length (compute_coprimes N) < 4294967296" using l unat_less_32 [of N] by linarith
  then have u: "unat (of_nat (length (compute_coprimes N)) :: u32) = length (compute_coprimes N)"
    by (intro unat_of_nat_small) simp
  have "0 < length (compute_coprimes N)" using compute_coprimes_nonempty [OF assms] by simp
  then have "unat (R mod of_nat (length (compute_coprimes N))) < length (compute_coprimes N)"
    by (simp only: unat_mod u mod_less_divisor)
  then show ?thesis by (rule nth_mem)
qed

text \<open>The contexts the search found busy are as many as it looked at.\<close>

lemma busy_card:
  assumes "Index < N" "Inc \<in> set (compute_coprimes N)" "unat N \<le> 2 ^ 31" "n \<le> unat N"
    and "\<forall>k < n. B (unat (walk N Inc Index k))"
  shows "n \<le> card {J. J < unat N \<and> B J}"
proof -
  have c: "Inc \<le> N" "coprime (unat Inc) (unat N)" using assms(2) by (simp_all add: compute_coprimes_set)
  have N: "0 < unat N" using assms(1) by (simp add: word_less_nat_alt)
  have i: "inj_on (\<lambda>k. unat (walk N Inc Index k)) {..< n}"
    using inj_on_subset [OF walk_inj [OF assms(1) c(1) assms(3) c(2)], of "{..< n}"] assms(4)
    by (auto simp: inj_on_def word_unat_eq_iff)
  have "(\<lambda>k. unat (walk N Inc Index k)) ` {..< n} \<subseteq> {J. J < unat N \<and> B J}"
    using walk_value [OF assms(1) c(1) assms(3)] assms(5) N by auto
  from card_mono [OF _ this] show ?thesis by (simp add: card_image [OF i])
qed

definition got_context :: "nat \<Rightarrow> shared_registry \<Rightarrow> uptr \<Rightarrow> nat \<times> shared_registry \<times> uptr \<Rightarrow> bool" where
  "got_context me r Tls = (\<lambda>(I, r', Tls').
     I < unat (NumberOfTSDs r) \<and> getCurrentTSD Tls' = tsd_addr r I
     \<and> shared_getDisableMemInit Tls' = shared_getDisableMemInit Tls
     \<and> map TOwner (TSDs r') = (map TOwner (TSDs r))[I := Some me] \<and> r' = r\<lparr>TSDs := TSDs r'\<rparr>
     \<and> (TLocked (TSDs r ! I) \<longrightarrow>
          min 4 (unat (NumberOfTSDs r)) \<le> card {J. J < unat (NumberOfTSDs r) \<and> TLocked (TSDs r ! J)}))"

lemma map_lock: "I < length ts \<Longrightarrow> map TOwner (ts[I := tsd_lock me t]) = (map TOwner ts)[I := Some me]"
  by (simp add: map_update tsd_lock_def)

lemma getTSDAndLockSlow_gets:
  assumes ok: "shared_ok r" and C: "Current < unat (NumberOfTSDs r)" "getCurrentTSD Tls = tsd_addr r Current"
    and busy: "TLocked (TSDs r ! Current)"
  shows "got_context me r Tls (getTSDAndLockSlow me now Current r Tls)"
proof -
  note s = ok [unfolded shared_ok_def]
  let ?N = "NumberOfTSDs r" and ?ts = "TSDs r" and ?R = "ucast (TPrecedence (TSDs r ! Current)) :: u32"
  let ?Inc = "CoPrimes r ! unat (?R mod of_nat (length (CoPrimes r)))"
  let ?n = "unat (MinU 4 ?N)"
  have N: "?N \<noteq> 0" "unat ?N \<le> 2 ^ 31" using s by auto
  have Cl: "Current < length ?ts" using C s by simp
  have Inc: "?Inc \<in> set (compute_coprimes ?N)" using coprime_pick [OF N(1)] s by simp
  then have Inc_le: "?Inc \<le> ?N" by (simp add: compute_coprimes_set)
  have ix: "?R mod ?N < ?N" using N(1) by (simp add: word_less_nat_alt unat_mod word_neq_0_conv)
  have n: "?n = min 4 (unat ?N)" by (simp add: MinU_def word_less_nat_alt word_le_nat_alt min_def)
  obtain found cand ts' where l: "slow_loop me now ?N ?Inc ?n (?R mod ?N) (- 1) None ?ts = (found, cand, ts')"
    by (cases "slow_loop me now ?N ?Inc ?n (?R mod ?N) (- 1) None ?ts")
  note f = slow_loop_facts [OF ix Inc_le N(2) _ l]
  have len: "length ts' = length ?ts" using f(1) s by simp
  have lt: "I < length ?ts" if "I < unat ?N" for I using that s by simp
  note at = tsd_addr_facts(2) [OF ok lt, THEN setCurrentTSD_facts(1)] tsd_addr_facts(2) [OF ok lt, THEN setCurrentTSD_facts(2)]
  show ?thesis
  proof (cases "?N > 1")
    case False
    then have "unat ?N = 1" using N(1) by (simp add: word_less_nat_alt unat_gt_0) (metis le_antisym not_less One_nat_def Suc_leI unat_gt_0)
    moreover from this have "{J. J < unat ?N \<and> TLocked (?ts ! J)} = {0}" using C busy by auto
    ultimately show ?thesis
      using False C Cl by (simp add: getTSDAndLockSlow_def got_context_def map_lock)
  next
    case True
    show ?thesis
    proof (cases found)
      case (Some I)
      then have i: "I < unat ?N" "\<not> TLocked (?ts ! I)" "map TOwner ts' = (map TOwner ?ts)[I := Some me]"
        using f(2) s by simp_all
      show ?thesis using True Some i l at [OF i(1)] by (simp add: getTSDAndLockSlow_def got_context_def)
    next
      case None
      then have m: "map TOwner ts' = map TOwner ?ts" "\<forall>k < ?n. TLocked (?ts ! unat (walk ?N ?Inc (?R mod ?N) k))"
        "cand = None \<or> (\<exists>C < unat ?N. cand = Some C)"
        using f(2) s by simp_all
      have b: "min 4 (unat ?N) \<le> card {J. J < unat ?N \<and> TLocked (?ts ! J)}"
        using busy_card [OF ix Inc N(2) _ m(2)] n by simp
      have lk: "map TOwner (ts'[J := tsd_lock me t]) = (map TOwner ?ts)[J := Some me]" if "J < unat ?N" for J t
        using map_lock [of J ts'] m(1) len lt [OF that] by simp
      show ?thesis using m(3)
      proof
        assume "cand = None"
        then show ?thesis using True None l b C lk [OF C(1)] by (simp add: getTSDAndLockSlow_def got_context_def)
      next
        assume "\<exists>C < unat ?N. cand = Some C"
        then obtain J where J: "J < unat ?N" "cand = Some J" by auto
        then show ?thesis using True None l b lk [OF J(1)] at [OF J(1)]
          by (simp add: getTSDAndLockSlow_def got_context_def)
      qed
    qed
  qed
qed

lemma shared_ok_relock:
  assumes "shared_ok r" "length ts = length (TSDs r)"
  shows "shared_ok (r\<lparr>TSDs := ts\<rparr>)"
  using assms by (simp add: shared_ok_def)

text \<open>What a search promises does not depend on the precedences.\<close>

lemma got_context_relock:
  assumes m: "map TOwner ts = map TOwner (TSDs r)" and ok: "shared_ok r" and g: "got_context me (r\<lparr>TSDs := ts\<rparr>) Tls x"
  shows "got_context me r Tls x"
proof -
  obtain I r' Tls' where x: "x = (I, r', Tls')" by (cases x)
  have nth: "TLocked (ts ! J) = TLocked (TSDs r ! J)" if "J < unat (NumberOfTSDs r)" for J
    using arg_cong [OF m, of "\<lambda>xs. xs ! J"] map_eq_imp_length_eq [OF m] that ok by (simp add: shared_ok_def)
  then have "{J. J < unat (NumberOfTSDs r) \<and> TLocked (ts ! J)} = {J. J < unat (NumberOfTSDs r) \<and> TLocked (TSDs r ! J)}"
    by auto
  then show ?thesis using g m nth by (simp add: x got_context_def tsd_addr_def)
qed

lemma got_context_only:
  assumes "got_context me r Tls (I, r', Tls')" "shared_ok r" "\<forall>t \<in> set (TSDs r). TOwner t \<noteq> Some me"
  shows "{J. J < length (TSDs r') \<and> TOwner (TSDs r' ! J) = Some me} = {I}"
proof -
  have m: "map TOwner (TSDs r') = (map TOwner (TSDs r))[I := Some me]" and I: "I < length (TSDs r)"
    using assms(1,2) by (simp_all add: got_context_def shared_ok_def)
  then have l: "length (TSDs r') = length (TSDs r)" by (metis length_list_update length_map)
  have "TOwner (TSDs r' ! J) = (if J = I then Some me else TOwner (TSDs r ! J))" if "J < length (TSDs r)" for J
    using arg_cong [OF m, of "\<lambda>xs. xs ! J"] that l by (simp add: nth_list_update)
  then show ?thesis using assms(3) I l by (auto split: if_splits dest: nth_mem)
qed

text \<open>C22: A thread that holds no context and asks the shared registry for one gets one whose mutex
  it then holds, also when it had to wait for another thread to give it back: the
  context it gets is within the count, it is the only one the thread holds, no other lock changes,
  the thread's word then points to that context and
  still holds its \<^verbatim>\<open>DisableMemInit\<close>, and it waits for a lock somebody else holds only when four contexts,
  or all if there are fewer, are busy.\<close>

theorem shared_get_locks_a_context:
  assumes "shared_ok r" "C < unat (NumberOfTSDs r)" "getCurrentTSD Tls = tsd_addr r C"
    and "\<forall>t \<in> set (TSDs r). TOwner t \<noteq> Some me"
  shows "case shared_getTSDAndLock me now r Tls of (I, r', Tls') \<Rightarrow>
     I < unat (NumberOfTSDs r) \<and> getCurrentTSD Tls' = tsd_addr r I
     \<and> shared_getDisableMemInit Tls' = shared_getDisableMemInit Tls
     \<and> map TOwner (TSDs r') = (map TOwner (TSDs r))[I := Some me] \<and> r' = r\<lparr>TSDs := TSDs r'\<rparr>
     \<and> {J. J < length (TSDs r') \<and> TOwner (TSDs r' ! J) = Some me} = {I}
     \<and> (TLocked (TSDs r ! I) \<longrightarrow>
          min 4 (unat (NumberOfTSDs r)) \<le> card {J. J < unat (NumberOfTSDs r) \<and> TLocked (TSDs r ! J)})"
proof -
  have Cl: "C < length (TSDs r)" using assms(1,2) by (simp add: shared_ok_def)
  have ix: "tsd_index r (getCurrentTSD Tls) = C" using tsd_addr_facts(1) [OF assms(1) Cl] assms(3) by simp
  obtain ok t where t: "tsd_tryLock me now (TSDs r ! C) = (ok, t)" by fastforce
  note tf = tryLock_facts [OF t]
  have "got_context me r Tls (shared_getTSDAndLock me now r Tls)"
  proof (cases ok)
    case True
    then show ?thesis
      using ix t tf Cl assms(2,3) by (simp add: shared_getTSDAndLock_def got_context_def map_update Let_def)
  next
    case False
    let ?r = "r\<lparr>TSDs := (TSDs r)[C := t]\<rparr>"
    have busy: "TLocked (TSDs r ! C)" using tf(1) False by simp
    have m: "map TOwner ((TSDs r)[C := t]) = map TOwner (TSDs r)"
      using Cl False tf(2) by (simp add: map_update list_update_same_conv)
    note cong = got_context_relock [OF m assms(1)]
    have ok': "shared_ok ?r" using assms(1) by (simp add: shared_ok_relock)
    show ?thesis
    proof (cases "length (TSDs r) = 1")
      case True
      then have one: "unat (NumberOfTSDs r) = 1" "C = 0" using assms(1,2) by (auto simp: shared_ok_def)
      then have "{J. J < unat (NumberOfTSDs r) \<and> TLocked (TSDs r ! J)} = {0}" using busy by auto
      then show ?thesis
        using ix t False True one Cl assms(3) by (simp add: shared_getTSDAndLock_def got_context_def map_lock Let_def)
    next
      case len: False
      have "shared_getTSDAndLock me now r Tls = getTSDAndLockSlow me now C ?r Tls"
        using ix t False len by (simp add: shared_getTSDAndLock_def Let_def)
      moreover have "got_context me ?r Tls (getTSDAndLockSlow me now C ?r Tls)"
        using assms(2,3) tf(2) Cl False busy by (intro getTSDAndLockSlow_gets [OF ok']) (simp_all add: tsd_addr_def)
      ultimately show ?thesis using cong by simp
    qed
  qed
  moreover obtain I r' Tls' where g: "shared_getTSDAndLock me now r Tls = (I, r', Tls')" by (rule prod_cases3)
  ultimately have gc: "got_context me r Tls (I, r', Tls')" by simp
  show ?thesis using got_context_only [OF gc assms(1,4)] gc by (simp add: g got_context_def)
qed

theorem shared_get_locks_a_context_witness:
  "let r = \<lparr>TSDs = [tsd_empty, tsd_empty\<lparr>TOwner := Some 5\<rparr>], NumberOfTSDs = 2, CoPrimes = [1],
            CurrentIndex = 0, TsdInitialized = True, TsdBase = 0x1000, TsdSize = 0x80\<rparr>
   in shared_ok r \<and> getCurrentTSD 0x1081 = tsd_addr r 1
      \<and> map TOwner (TSDs (fst (snd (shared_getTSDAndLock 3 7 r 0x1081)))) = [Some 3, Some 5]
      \<and> fst (shared_getTSDAndLock 3 7 r 0x1081) = 0 \<and> shared_getDisableMemInit (snd (snd (shared_getTSDAndLock 3 7 r 0x1081)))"
proof -
  let ?r = "\<lparr>TSDs = [tsd_empty, tsd_empty\<lparr>TOwner := Some 5\<rparr>], NumberOfTSDs = 2, CoPrimes = [1],
    CurrentIndex = 0, TsdInitialized = True, TsdBase = 0x1000, TsdSize = 0x80\<rparr>"
  have c: "compute_coprimes 2 = [1]" by code_simp
  have ok: "shared_ok ?r" by (simp add: shared_ok_def c)
  have cur: "getCurrentTSD 0x1081 = tsd_addr ?r 1" by (simp add: getCurrentTSD_def tsd_addr_def)
  have i: "fst (shared_getTSDAndLock 3 7 ?r 0x1081) = 0" by code_simp
  have d: "shared_getDisableMemInit 0x1081" by code_simp
  note g = shared_get_locks_a_context [OF ok, of 1 "0x1081" 3 7, OF _ cur]
  have "map TOwner (TSDs (fst (snd (shared_getTSDAndLock 3 7 ?r 0x1081)))) = [Some 3, Some 5]
      \<and> shared_getDisableMemInit (snd (snd (shared_getTSDAndLock 3 7 ?r 0x1081)))"
    using g i d by (auto simp: tsd_empty_def split: prod.splits)
  then show ?thesis using ok cur i by (simp add: Let_def)
qed

section \<open>The end of a thread\<close>

text \<open>The destructor runs again as long as it arms itself; \<open>oks\<close> are the results of
  \<^verbatim>\<open>pthread_setspecific\<close>. Returns the number of rounds.\<close>

fun destructor_rounds :: "bool list \<Rightarrow> ('a \<Rightarrow> 'a) \<Rightarrow> thread_state \<Rightarrow> 'a \<Rightarrow> nat \<times> thread_state \<times> 'a" where
  "destructor_rounds [] commit s a = (0, s, a)"
| "destructor_rounds (ok # oks) commit s a =
     (case teardownThread ok commit s a of
        (True, s, a) \<Rightarrow> (let (n, r) = destructor_rounds oks commit s a in (Suc n, r))
      | (False, s, a) \<Rightarrow> (1, s, a))"

lemma ex_initThread_state:
  "ex_initThread key_ok False r s = Inr (r', s0) \<Longrightarrow>
     s0 = s\<lparr>ThreadTSD := tsd_init (ThreadTSD s), InitState := Initialized\<rparr>"
  by (auto simp: ex_initThread_def bindE_def split: sum.splits)

text \<open>C23: A thread's caches are given back: at most four rounds of destructors after it ends,
  \<^verbatim>\<open>teardownThread\<close> has committed them exactly once and the thread is torn down, in the fourth round
  when the destructor could be armed each time; from then on the thread uses the fallback context.\<close>

theorem teardown_commits_once:
  assumes "ex_initThread key_ok False r s = Inr (r', s0)" "4 \<le> length oks"
  shows "case destructor_rounds oks commit s0 a of (n, s', a') \<Rightarrow>
     a' = commit a \<and> InitState s' = TornDown \<and> 1 \<le> n \<and> n \<le> 4 \<and> ((\<forall>ok \<in> set (take 3 oks). ok) \<longrightarrow> n = 4)
     \<and> ex_getTSDAndLock me s' r' = (True, r'\<lparr>FallbackTSD := tsd_lock me (FallbackTSD r')\<rparr>)"
proof -
  obtain o1 o2 o3 o4 rest where o: "oks = o1 # o2 # o3 # o4 # rest"
    using assms(2) by (auto simp: Suc_le_length_iff numeral_eq_Suc)
  have "DestructorIterations (ThreadTSD s0) = 4" "InitState s0 = Initialized"
    using ex_initThread_state [OF assms(1)] by (simp_all add: tsd_init_def PTHREAD_DESTRUCTOR_ITERATIONS_def)
  then show ?thesis
    by (cases o1; cases o2; cases o3; cases o4) (simp_all add: o teardownThread_def Let_def ex_getTSDAndLock_def)
qed

theorem teardown_commits_once_witness:
  "let s = \<lparr>TSDisableMemInit = False, InitState = NotInitialized, ThreadTSD = tsd_empty\<rparr>;
       r = \<lparr>ExInitialized = False, ExDisabled = False, FallbackTSD = tsd_empty\<rparr>
   in \<exists>r' s0. ex_initThread True False r s = Inr (r', s0)
       \<and> snd (snd (destructor_rounds [True, True, True, True] Suc s0 (0 :: nat))) = 1
       \<and> fst (destructor_rounds [True, True, True, True] Suc s0 (0 :: nat)) = 4"
proof -
  let ?s = "\<lparr>TSDisableMemInit = False, InitState = NotInitialized, ThreadTSD = tsd_empty\<rparr>"
  let ?r = "\<lparr>ExInitialized = False, ExDisabled = False, FallbackTSD = tsd_empty\<rparr>"
  obtain r' s0 where i: "ex_initThread True False ?r ?s = Inr (r', s0)"
    by (simp add: ex_initThread_def ex_initOnceMaybe_def ex_init_def CHECK_def)
  from teardown_commits_once [OF i, of "[True, True, True, True]" Suc 0 1] i
  show ?thesis by (auto simp: Let_def split: prod.splits)
qed

end
