(* ===== verification/FlagParser.thy ===== *)
theory FlagParser
  imports Report
begin

text \<open>
  \<^verbatim>\<open>flags_parser.h\<close> and \<^verbatim>\<open>flags_parser.cpp\<close>: reading flags from text such as
  \<^verbatim>\<open>may_return_null=0:quarantine_size_kb=64\<close>. A pointer into a string is the rest of the string from
  there, so \<^verbatim>\<open>Buffer + Pos\<close> is the text that is left; a string has no character 0 of its own, and
  reading at its end gives one. A variable of a flag is named, its value is an \<open>int\<close>, 0 or 1 for a
  \<^verbatim>\<open>bool\<close>. \<^verbatim>\<open>strtol\<close> is the C library's, on base 10.

  The properties: parsing a rendered list of settings makes exactly those settings; and any text at
  all leaves every variable with a value of its type or ends in one of four reports.
\<close>

section \<open>The C library\<close>

definition cur :: "string \<Rightarrow> char" where
  "cur s = (case s of [] \<Rightarrow> CHR 0x00 | c # _ \<Rightarrow> c)"

lemma cur_simps [simp]: "cur [] = CHR 0x00" "cur (c # s) = c"
  by (simp_all add: cur_def)

definition strncmp_eq :: "string \<Rightarrow> string \<Rightarrow> nat \<Rightarrow> bool" where
  "strncmp_eq a b n = (take n a = take n b)"

definition isspace :: "char \<Rightarrow> bool" where
  "isspace c \<longleftrightarrow> c \<in> {CHR '' '', CHR 0x09, CHR 0x0A, CHR 0x0B, CHR 0x0C, CHR 0x0D}"

definition isdigit :: "char \<Rightarrow> bool" where
  "isdigit c \<longleftrightarrow> 48 \<le> (of_char c :: nat) \<and> (of_char c :: nat) \<le> 57"

fun strtol_digits :: "nat \<Rightarrow> string \<Rightarrow> nat \<times> string" where
  "strtol_digits acc [] = (acc, [])"
| "strtol_digits acc (c # s) =
     (if isdigit c then strtol_digits (acc * 10 + (of_char c - 48)) s else (acc, c # s))"

definition LONG_MAX :: int where "LONG_MAX = 2 ^ 63 - 1"
definition LONG_MIN :: int where "LONG_MIN = - (2 ^ 63)"
definition INT_MAX :: int where "INT_MAX = 2 ^ 31 - 1"
definition INT_MIN :: int where "INT_MIN = - (2 ^ 31)"

text \<open>The value, whether \<^verbatim>\<open>errno\<close> is set, and the text after the number.\<close>

definition strtol_sign :: "string \<Rightarrow> bool \<times> string" where
  "strtol_sign s = (case s of [] \<Rightarrow> (False, s)
     | c # t \<Rightarrow> if c = CHR ''-'' then (True, t) else if c = CHR ''+'' then (False, t) else (False, s))"

definition strtol :: "string \<Rightarrow> int \<times> bool \<times> string" where
  "strtol s =
     (let (neg, t) = strtol_sign (dropWhile isspace s)
      in if \<not> isdigit (cur t) then (0, False, s)
         else let (n, rest) = strtol_digits 0 t; v = (if neg then - int n else int n)
              in if v > LONG_MAX then (LONG_MAX, True, rest)
                 else if v < LONG_MIN then (LONG_MIN, True, rest)
                 else (v, False, rest))"

section \<open>State\<close>

datatype FlagType = FT_bool | FT_int

record flag =
  FlagName :: string
  FlagDesc :: string
  FlagKind :: FlagType
  FlagVar :: string

text \<open>The parser, the variables it writes and the registry \<^verbatim>\<open>UnknownFlags\<close>.\<close>

record flag_parser =
  FlagList :: "flag list"
  Variables :: "string \<Rightarrow> int"
  UnknownNames :: "string list"

definition MaxFlags :: nat where "MaxFlags = 20"
definition MaxUnknownFlags :: nat where "MaxUnknownFlags = 16"

definition UnknownFlags_add :: "string \<Rightarrow> flag_parser \<Rightarrow> flag_parser result" where
  "UnknownFlags_add Name p =
     bindE (CHECK (length (UnknownNames p) < MaxUnknownFlags) ''NumberOfUnknownFlags'') (\<lambda>_.
       Inr (p\<lparr>UnknownNames := UnknownNames p @ [Name]\<rparr>))"

text \<open>Each report is the list of the \<^verbatim>\<open>Printf\<close> calls.\<close>

definition UnknownFlags_report :: "flag_parser \<Rightarrow> (string \<times> fmt_arg list) list \<times> flag_parser" where
  "UnknownFlags_report p =
     (if UnknownNames p = [] then ([], p)
      else ((''Scudo WARNING: found %d unrecognized flag(s):'' @ newline, [ArgNum (of_nat (length (UnknownNames p)))])
              # map (\<lambda>Name. (''    %s'' @ newline, [StrArg Name])) (UnknownNames p),
            p\<lparr>UnknownNames := []\<rparr>))"

definition printFlagDescriptions :: "flag_parser \<Rightarrow> (string \<times> fmt_arg list) list" where
  "printFlagDescriptions p =
     (''Available flags for Scudo:'' @ newline, [])
     # map (\<lambda>f. ([CHR 0x09] @ ''%s'' @ newline @ [CHR 0x09, CHR 0x09] @ ''- %s'' @ newline,
                 [StrArg (FlagName f), StrArg (FlagDesc f)])) (FlagList p)"

definition registerFlag :: "string \<Rightarrow> string \<Rightarrow> FlagType \<Rightarrow> string \<Rightarrow> flag_parser \<Rightarrow> flag_parser result" where
  "registerFlag Name Desc Kind Var p =
     bindE (CHECK (length (FlagList p) < MaxFlags) ''NumberOfFlags'') (\<lambda>_.
       Inr (p\<lparr>FlagList := FlagList p @ [\<lparr>FlagName = Name, FlagDesc = Desc, FlagKind = Kind, FlagVar = Var\<rparr>]\<rparr>))"

section \<open>Parsing\<close>

definition isSeparator :: "char \<Rightarrow> bool" where
  "isSeparator C \<longleftrightarrow> C \<in> {CHR '' '', CHR '','', CHR '':'', CHR 0x0A, CHR 0x09, CHR 0x0D}"

definition isSeparatorOrNull :: "char \<Rightarrow> bool" where
  "isSeparatorOrNull C \<longleftrightarrow> C = CHR 0x00 \<or> isSeparator C"

definition skipWhitespace :: "string \<Rightarrow> string" where
  "skipWhitespace s = dropWhile isSeparator s"

definition parseBool :: "string \<Rightarrow> bool option" where
  "parseBool Value =
     (if strncmp_eq Value ''0'' 1 \<or> strncmp_eq Value ''no'' 2 \<or> strncmp_eq Value ''false'' 5 then Some False
      else if strncmp_eq Value ''1'' 1 \<or> strncmp_eq Value ''yes'' 3 \<or> strncmp_eq Value ''true'' 4 then Some True
      else None)"

definition set_var :: "flag \<Rightarrow> int \<Rightarrow> flag_parser \<Rightarrow> flag_parser" where
  "set_var f v p = p\<lparr>Variables := (Variables p)(FlagVar f := v)\<rparr>"

text \<open>What is done with the flag that was found: the \<^verbatim>\<open>switch\<close>.\<close>

definition set_flag :: "flag \<Rightarrow> string \<Rightarrow> flag_parser \<Rightarrow> (bool \<times> flag_parser) result" where
  "set_flag f Value p =
     (case FlagKind f of
        FT_bool \<Rightarrow>
          (case parseBool Value of
             Some b \<Rightarrow> Inr (True, set_var f (if b then 1 else 0) p)
           | None \<Rightarrow> Inl (InvalidFlag ''bool'' Value))
      | FT_int \<Rightarrow>
          (let (V, err, ValueEnd) = strtol Value
           in if err \<or> V > INT_MAX \<or> V < INT_MIN
                 \<or> (cur ValueEnd \<noteq> CHR 0x22 \<and> cur ValueEnd \<noteq> CHR 0x27 \<and> \<not> isSeparatorOrNull (cur ValueEnd))
              then Inl (InvalidFlag ''int'' Value)
              else Inr (True, set_var f V p)))"

definition flag_matches :: "string \<Rightarrow> char \<Rightarrow> flag \<Rightarrow> bool" where
  "flag_matches Name Sep f \<longleftrightarrow>
     strncmp_eq Name (FlagName f) (length (FlagName f)) \<and> cur (drop (length (FlagName f)) Name) = Sep"

fun runHandler_loop :: "flag list \<Rightarrow> string \<Rightarrow> string \<Rightarrow> char \<Rightarrow> flag_parser \<Rightarrow> (bool \<times> flag_parser) result" where
  "runHandler_loop [] Name Value Sep p = bindE (UnknownFlags_add Name p) (\<lambda>p. Inr (True, p))"
| "runHandler_loop (f # fs) Name Value Sep p =
     (if \<not> flag_matches Name Sep f then runHandler_loop fs Name Value Sep p else set_flag f Value p)"

definition runHandler :: "string \<Rightarrow> string \<Rightarrow> char \<Rightarrow> flag_parser \<Rightarrow> (bool \<times> flag_parser) result" where
  "runHandler Name Value Sep p = runHandler_loop (FlagList p) Name Value Sep p"

definition run_or_report :: "string \<Rightarrow> string \<Rightarrow> char \<Rightarrow> flag_parser \<Rightarrow> flag_parser result" where
  "run_or_report Name Value Sep p =
     bindE (runHandler Name Value Sep p) (\<lambda>(Ok, p). if Ok then Inr p else Inl (GenericError ''flag parsing failed.''))"

text \<open>The value that starts here, and the text after it.\<close>

definition parse_value :: "string \<Rightarrow> (string \<times> string) result" where
  "parse_value s =
     (if cur s = CHR 0x27 \<or> cur s = CHR 0x22 then
        let Quote = cur s; Value = tl s; rest = dropWhile (\<lambda>c. c \<noteq> CHR 0x00 \<and> c \<noteq> Quote) Value
        in if cur rest = CHR 0x00 then Inl (GenericError ''unterminated string'') else Inr (Value, tl rest)
      else Inr (s, dropWhile (\<lambda>c. \<not> isSeparatorOrNull c) s))"

definition parseFlag :: "string \<Rightarrow> flag_parser \<Rightarrow> (flag_parser \<times> string) result" where
  "parseFlag s p =
     (let rest = dropWhile (\<lambda>c. c \<noteq> CHR ''='' \<and> \<not> isSeparatorOrNull c) s
      in if cur rest \<noteq> CHR ''='' then Inl (GenericError (''expected '' @ [CHR 0x27] @ ''='' @ [CHR 0x27]))
         else bindE (parse_value (tl rest)) (\<lambda>(Value, rest).
                bindE (run_or_report s Value (CHR ''='') p) (\<lambda>p. Inr (p, rest))))"

lemma parse_value_shorter:
  assumes "parse_value s = Inr (v, r)"
  shows "length r \<le> length s"
proof -
  obtain P t where "r = dropWhile P s \<or> r = tl (dropWhile P t) \<and> t = tl s"
    using assms unfolding parse_value_def Let_def by (auto split: if_splits)
  then show ?thesis
    using length_dropWhile_le [of P s] length_dropWhile_le [of P t] by auto
qed

lemma parseFlag_shorter:
  assumes "parseFlag s p = Inr (p', r)"
  shows "length r < length s"
proof -
  obtain t where t: "t = dropWhile (\<lambda>c. c \<noteq> CHR ''='' \<and> \<not> isSeparatorOrNull c) s" by blast
  have c: "cur t = CHR ''=''" "length r \<le> length (tl t)"
    using assms unfolding parseFlag_def t [symmetric] Let_def
    by (auto simp: bindE_eq_Inr split: if_splits dest: parse_value_shorter)
  then have "t \<noteq> []" by (cases t) simp_all
  moreover have "length t \<le> length s" unfolding t by (rule length_dropWhile_le)
  ultimately show ?thesis using c(2) by (cases t) simp_all
qed

function parseFlags :: "string \<Rightarrow> flag_parser \<Rightarrow> flag_parser result" where
  "parseFlags s p =
     (let s = skipWhitespace s
      in if cur s = CHR 0x00 then Inr p
         else case parseFlag s p of Inl e \<Rightarrow> Inl e | Inr (p, s) \<Rightarrow> parseFlags s p)"
  by pat_completeness auto
termination
proof (relation "measure (\<lambda>(s, p). length s)", simp, clarify)
  fix s :: string and p p' r
  assume "parseFlag (skipWhitespace s) p = Inr (p', r)"
  from parseFlag_shorter [OF this] show "((r, p'), s, p) \<in> measure (\<lambda>(s, p). length s)"
    using length_dropWhile_le [of isSeparator s] by (simp add: skipWhitespace_def)
qed

declare parseFlags.simps [simp del]

definition parseString :: "string option \<Rightarrow> flag_parser \<Rightarrow> flag_parser result" where
  "parseString S p = (case S of None \<Rightarrow> Inr p | Some s \<Rightarrow> parseFlags s p)"

definition parseStringPair :: "string \<Rightarrow> string \<Rightarrow> flag_parser \<Rightarrow> flag_parser result" where
  "parseStringPair Name Value p = run_or_report Name Value (CHR 0x00) p"

section \<open>Every text\<close>

definition var_ok :: "flag \<Rightarrow> int \<Rightarrow> bool" where
  "var_ok f v = (case FlagKind f of FT_bool \<Rightarrow> v = 0 \<or> v = 1 | FT_int \<Rightarrow> INT_MIN \<le> v \<and> v \<le> INT_MAX)"

definition vars_typed :: "flag_parser \<Rightarrow> bool" where
  "vars_typed p \<longleftrightarrow> distinct (map FlagVar (FlagList p)) \<and> length (UnknownNames p) \<le> MaxUnknownFlags
     \<and> (\<forall>f \<in> set (FlagList p). var_ok f (Variables p (FlagVar f)))"

definition parse_error :: "scudo_error \<Rightarrow> bool" where
  "parse_error e \<longleftrightarrow>
     (case e of GenericError m \<Rightarrow> m = ''expected '' @ [CHR 0x27] @ ''='' @ [CHR 0x27] \<or> m = ''unterminated string''
      | InvalidFlag t v \<Rightarrow> t = ''bool'' \<or> t = ''int'' | CheckFailed m \<Rightarrow> m = ''NumberOfUnknownFlags'' | _ \<Rightarrow> False)"

definition parsed :: "flag_parser \<Rightarrow> flag_parser result \<Rightarrow> bool" where
  "parsed p r = (case r of
     Inl e \<Rightarrow> parse_error e
   | Inr p' \<Rightarrow> vars_typed p' \<and> FlagList p' = FlagList p
       \<and> (\<forall>v. v \<notin> FlagVar ` set (FlagList p) \<longrightarrow> Variables p' v = Variables p v))"

lemma set_var_typed:
  assumes "vars_typed p" "f \<in> set (FlagList p)" "var_ok f v"
  shows "parsed p (Inr (set_var f v p))"
proof -
  have "var_ok g (((Variables p)(FlagVar f := v)) (FlagVar g))" if "g \<in> set (FlagList p)" for g
    using assms that by (cases "FlagVar g = FlagVar f") (auto simp: vars_typed_def distinct_map dest: inj_onD)
  then show ?thesis using assms by (auto simp: parsed_def vars_typed_def set_var_def)
qed

lemma set_flag_cases:
  assumes "vars_typed p" "f \<in> set (FlagList p)"
  shows "(\<exists>e. set_flag f Value p = Inl e \<and> parse_error e) \<or> (\<exists>p'. set_flag f Value p = Inr (True, p') \<and> parsed p (Inr p'))"
proof (cases "FlagKind f")
  case FT_bool
  have "parsed p (Inr (set_var f (if b then 1 else 0) p))" for b
    using FT_bool by (intro set_var_typed assms) (simp add: var_ok_def)
  then show ?thesis using FT_bool by (auto simp: set_flag_def parse_error_def split: option.split)
next
  case FT_int
  obtain V err E where t: "strtol Value = (V, err, E)" by (cases "strtol Value")
  have "parsed p (Inr (set_var f V p))" if "INT_MIN \<le> V" "V \<le> INT_MAX"
    using FT_int that by (intro set_var_typed assms) (simp add: var_ok_def)
  then show ?thesis using FT_int t by (auto simp: set_flag_def parse_error_def Let_def)
qed

lemma runHandler_loop_cases:
  assumes "vars_typed p" "set fs \<subseteq> set (FlagList p)"
  shows "(\<exists>e. runHandler_loop fs Name Value Sep p = Inl e \<and> parse_error e)
    \<or> (\<exists>p'. runHandler_loop fs Name Value Sep p = Inr (True, p') \<and> parsed p (Inr p'))"
  using assms(2)
proof (induction fs)
  case Nil
  then show ?case
    using assms(1) by (auto simp: UnknownFlags_add_def CHECK_def parse_error_def parsed_def vars_typed_def)
next
  case (Cons f fs)
  then show ?case using set_flag_cases [OF assms(1), of f Value] by simp
qed

lemma run_or_report_parsed: "vars_typed p \<Longrightarrow> parsed p (run_or_report Name Value Sep p)"
  using runHandler_loop_cases [of p "FlagList p" Name Value Sep]
  by (auto simp: run_or_report_def runHandler_def parsed_def)

lemma parsed_trans: "parsed p (Inr q) \<Longrightarrow> parsed q r \<Longrightarrow> parsed p r"
  by (auto simp: parsed_def split: sum.splits)

lemma parseFlag_parsed:
  assumes "vars_typed p"
  shows "case parseFlag s p of Inl e \<Rightarrow> parse_error e | Inr (q, r) \<Rightarrow> parsed p (Inr q)"
proof -
  let ?t = "dropWhile (\<lambda>c. c \<noteq> CHR ''='' \<and> \<not> isSeparatorOrNull c) s"
  have v: "parse_error e" if "parse_value t = Inl e" for t e
    using that by (auto simp: parse_value_def Let_def parse_error_def split: if_splits)
  show ?thesis
  proof (cases "cur ?t = CHR ''=''")
    case False
    then show ?thesis by (simp add: parseFlag_def Let_def parse_error_def)
  next
    case eq: True
    show ?thesis
    proof (cases "parse_value (tl ?t)")
      case (Inl e)
      then show ?thesis using eq v by (simp add: parseFlag_def Let_def)
    next
      case (Inr w)
      obtain Value r where w: "w = (Value, r)" by (cases w)
      have "parsed p (run_or_report s Value (CHR ''='') p)" by (rule run_or_report_parsed [OF assms])
      then show ?thesis using eq Inr w
        by (cases "run_or_report s Value (CHR ''='') p") (simp_all add: parseFlag_def Let_def parsed_def)
    qed
  qed
qed

lemma parseFlags_parsed: "vars_typed p \<Longrightarrow> parsed p (parseFlags s p)"
proof (induction s p rule: parseFlags.induct)
  case (1 s p)
  have self: "parsed p (Inr p)" using 1(2) by (simp add: parsed_def)
  note f = parseFlag_parsed [OF 1(2), of "skipWhitespace s"]
  show ?case
  proof (cases "cur (skipWhitespace s) = CHR 0x00")
    case True
    then show ?thesis using self by (subst parseFlags.simps) (simp add: Let_def)
  next
    case False
    show ?thesis
    proof (cases "parseFlag (skipWhitespace s) p")
      case (Inl e)
      then show ?thesis using False f by (subst parseFlags.simps) (simp add: Let_def parsed_def)
    next
      case (Inr qr)
      obtain q r where qr: "qr = (q, r)" by (cases qr)
      have pq: "parsed p (Inr q)" using f Inr qr by simp
      then have "vars_typed q" by (simp add: parsed_def)
      then have "parsed q (parseFlags r q)" using 1(1) [OF refl False Inr qr [symmetric]] by simp
      then have "parsed p (parseFlags r q)" by (rule parsed_trans [OF pq])
      then show ?thesis using False Inr qr by (subst parseFlags.simps) (simp add: Let_def)
    qed
  qed
qed

text \<open>C27: Whatever the text, parsing it ends in a fatal report about a missing equals sign, an
  unterminated string, an invalid value or too many unknown flags, or every variable of a flag holds a
  value of its type: 0 or 1 for a \<^verbatim>\<open>bool\<close>, a 32-bit number for an \<^verbatim>\<open>int\<close>; no other variable has
  changed.\<close>

theorem parsing_keeps_types:
  assumes "vars_typed p"
  shows "case parseString S p of
      Inl e \<Rightarrow> parse_error e
    | Inr p' \<Rightarrow> vars_typed p' \<and> FlagList p' = FlagList p
        \<and> (\<forall>v. v \<notin> FlagVar ` set (FlagList p) \<longrightarrow> Variables p' v = Variables p v)"
  using parseFlags_parsed [OF assms] assms
  by (cases S) (auto simp: parseString_def parsed_def split: sum.splits)

theorem parsing_keeps_types_witness:
  "let p = \<lparr>FlagList = [\<lparr>FlagName = ''n'', FlagDesc = [], FlagKind = FT_int, FlagVar = ''n''\<rparr>],
            Variables = (\<lambda>_. 0), UnknownNames = []\<rparr>
   in vars_typed p \<and> (case parseString (Some ''n=99999999999'') p of
      Inl e \<Rightarrow> parse_error e
    | Inr p' \<Rightarrow> vars_typed p' \<and> FlagList p' = FlagList p
        \<and> (\<forall>v. v \<notin> FlagVar ` set (FlagList p) \<longrightarrow> Variables p' v = Variables p v))"
proof -
  let ?p = "\<lparr>FlagList = [\<lparr>FlagName = ''n'', FlagDesc = [], FlagKind = FT_int, FlagVar = ''n''\<rparr>],
            Variables = (\<lambda>_. 0), UnknownNames = []\<rparr>"
  have t: "vars_typed ?p" by (simp add: vars_typed_def var_ok_def INT_MIN_def INT_MAX_def)
  show ?thesis unfolding Let_def using t parsing_keeps_types [OF t, of "Some ''n=99999999999''"] by blast
qed

section \<open>Rendered settings\<close>

function nat_digits :: "nat \<Rightarrow> string" where
  "nat_digits n = (if n < 10 then [char_of (48 + n)] else nat_digits (n div 10) @ [char_of (48 + n mod 10)])"
  by pat_completeness auto
termination by (relation "measure id") auto

declare nat_digits.simps [simp del]

definition decimal :: "int \<Rightarrow> string" where
  "decimal v = (if v < 0 then CHR ''-'' # nat_digits (nat (- v)) else nat_digits (nat v))"

text \<open>The texts that stand for a value, a setting of a flag, and how it is written.\<close>

definition value_text :: "FlagType \<Rightarrow> int \<Rightarrow> string \<Rightarrow> bool" where
  "value_text k v t =
     (case k of
        FT_bool \<Rightarrow> v = 0 \<and> t \<in> {''0'', ''no'', ''false''} \<or> v = 1 \<and> t \<in> {''1'', ''yes'', ''true''}
      | FT_int \<Rightarrow> INT_MIN \<le> v \<and> v \<le> INT_MAX \<and> t = decimal v)"

record setting =
  SFlag :: flag
  SValue :: int
  SText :: string
  SQuote :: "char option"
  SSep :: string

definition quoted :: "char option \<Rightarrow> string \<Rightarrow> string" where
  "quoted q t = (case q of None \<Rightarrow> t | Some c \<Rightarrow> c # t @ [c])"

fun render :: "setting list \<Rightarrow> string" where
  "render [] = []"
| "render (x # xs) = FlagName (SFlag x) @ CHR ''='' # quoted (SQuote x) (SText x) @ SSep x @ render xs"

definition name_ok :: "string \<Rightarrow> bool" where
  "name_ok n \<longleftrightarrow> n \<noteq> [] \<and> (\<forall>c \<in> set n. c \<noteq> CHR ''='' \<and> \<not> isSeparatorOrNull c)"

definition flags_ok :: "flag_parser \<Rightarrow> bool" where
  "flags_ok p \<longleftrightarrow> distinct (map FlagName (FlagList p)) \<and> (\<forall>f \<in> set (FlagList p). name_ok (FlagName f))"

fun settings_ok :: "flag_parser \<Rightarrow> setting list \<Rightarrow> bool" where
  "settings_ok p [] = True"
| "settings_ok p (x # xs) =
     (SFlag x \<in> set (FlagList p) \<and> value_text (FlagKind (SFlag x)) (SValue x) (SText x)
      \<and> (SQuote x = None \<or> SQuote x = Some (CHR 0x27) \<or> SQuote x = Some (CHR 0x22))
      \<and> list_all isSeparator (SSep x) \<and> (SSep x = [] \<longrightarrow> xs = []) \<and> settings_ok p xs)"

subsection \<open>Numbers\<close>

lemma of_char_digit: "n < 10 \<Longrightarrow> (of_char (char_of (48 + n)) :: nat) = 48 + n"
  by simp

lemma isdigit_digit: "n < 10 \<Longrightarrow> isdigit (char_of (48 + n :: nat))"
  by (simp only: isdigit_def of_char_digit) simp

lemma nat_digits_digits: "c \<in> set (nat_digits n) \<Longrightarrow> isdigit c"
proof (induction n rule: nat_digits.induct)
  case (1 n)
  then show ?case
    by (subst (asm) nat_digits.simps) (auto simp: isdigit_digit split: if_splits)
qed

lemma nat_digits_nonempty: "nat_digits n \<noteq> []"
  by (subst nat_digits.simps) simp

lemma strtol_digits_append:
  assumes "\<forall>c \<in> set xs. isdigit c" "\<not> isdigit (cur t)"
  shows "strtol_digits acc (xs @ t) = (foldl (\<lambda>a c. a * 10 + (of_char c - 48)) acc xs, t)"
  using assms by (induction xs arbitrary: acc) (cases t, simp_all)

lemma nat_digits_value: "foldl (\<lambda>a c. a * 10 + (of_char c - 48)) 0 (nat_digits n) = n"
proof (induction n rule: nat_digits.induct)
  case (1 n)
  show ?case
  proof (cases "n < 10")
    case True
    then show ?thesis by (subst nat_digits.simps) simp
  next
    case False
    have m: "(of_char (char_of (48 + n mod 10)) :: nat) = 48 + n mod 10" by (rule of_char_digit) simp
    show ?thesis using False 1 by (subst nat_digits.simps) (simp only: foldl_append foldl.simps m, simp)
  qed
qed

lemma digit_plain:
  assumes "isdigit c"
  shows "\<not> isspace c" "c \<noteq> CHR ''-''" "c \<noteq> CHR ''+''" "\<not> isSeparatorOrNull c" "c \<noteq> CHR 0x27" "c \<noteq> CHR 0x22"
  using assms by (auto simp: isdigit_def isspace_def isSeparatorOrNull_def isSeparator_def)

lemma strtol_decimal:
  assumes "INT_MIN \<le> v" "v \<le> INT_MAX" "\<not> isdigit (cur t)"
  shows "strtol (decimal v @ t) = (v, False, t)"
proof -
  let ?n = "nat_digits (nat \<bar>v\<bar>)"
  obtain c r where n: "?n = c # r" using nat_digits_nonempty by (cases ?n) auto
  have d: "isdigit c" using nat_digits_digits [of c "nat \<bar>v\<bar>"] n by simp
  note pl = digit_plain [OF d]
  have all: "\<forall>x \<in> set ?n. isdigit x" using nat_digits_digits by blast
  have dig: "strtol_digits 0 (?n @ t) = (nat \<bar>v\<bar>, t)"
    using strtol_digits_append [OF all assms(3)] nat_digits_value by simp
  have sign: "strtol_sign (dropWhile isspace (decimal v @ t)) = (v < 0, ?n @ t)"
    using pl n by (auto simp: decimal_def strtol_sign_def isspace_def)
  have b: "\<not> v > LONG_MAX" "\<not> v < LONG_MIN"
    using assms(1,2) by (simp_all add: INT_MIN_def INT_MAX_def LONG_MIN_def LONG_MAX_def)
  show ?thesis
    unfolding strtol_def sign Let_def prod.case using dig n d b by (simp split: if_splits)
qed

subsection \<open>Finding the flag\<close>

lemma split_at_first: "n @ a # r = m @ a # r' \<Longrightarrow> a \<notin> set n \<Longrightarrow> a \<notin> set m \<Longrightarrow> m = n"
  by (induction n arbitrary: m) (case_tac m; auto)+

lemma flag_matches_iff:
  assumes "name_ok n" "name_ok (FlagName f)"
  shows "flag_matches (n @ CHR ''='' # r) (CHR ''='') f \<longleftrightarrow> FlagName f = n"
proof
  let ?s = "n @ CHR ''='' # r" and ?L = "length (FlagName f)"
  assume m: "flag_matches ?s (CHR ''='') f"
  then have pre: "take ?L ?s = FlagName f" and c: "cur (drop ?L ?s) = CHR ''=''"
    by (simp_all add: flag_matches_def strncmp_eq_def)
  obtain r' where r': "drop ?L ?s = CHR ''='' # r'" using c by (cases "drop ?L ?s") auto
  have "n @ CHR ''='' # r = FlagName f @ CHR ''='' # r'"
    using append_take_drop_id [of ?L ?s] unfolding pre r' by (rule sym)
  moreover have "CHR ''='' \<notin> set n" "CHR ''='' \<notin> set (FlagName f)" using assms by (auto simp: name_ok_def)
  ultimately show "FlagName f = n" by (rule split_at_first)
qed (simp add: flag_matches_def strncmp_eq_def)

lemma runHandler_finds:
  assumes "distinct (map FlagName fs)" "\<forall>g \<in> set fs. name_ok (FlagName g)" "f \<in> set fs"
  shows "runHandler_loop fs (FlagName f @ CHR ''='' # r) Value (CHR ''='') p = set_flag f Value p"
  using assms
proof (induction fs)
  case (Cons g fs)
  have "name_ok (FlagName f)" "name_ok (FlagName g)" using Cons.prems by auto
  from flag_matches_iff [OF this] show ?case using Cons by (cases "g = f") force+
qed simp

definition value_end :: "string \<Rightarrow> bool" where
  "value_end t \<longleftrightarrow> cur t = CHR 0x27 \<or> cur t = CHR 0x22 \<or> isSeparatorOrNull (cur t)"

lemma parseBool_text:
  "t \<in> {''0'', ''no'', ''false''} \<Longrightarrow> parseBool (t @ r) = Some False"
  "t \<in> {''1'', ''yes'', ''true''} \<Longrightarrow> parseBool (t @ r) = Some True"
  by (auto simp: parseBool_def strncmp_eq_def)

lemma set_flag_text:
  assumes "value_text (FlagKind f) v t" "value_end r"
  shows "set_flag f (t @ r) p = Inr (True, set_var f v p)"
proof (cases "FlagKind f")
  case FT_bool
  then show ?thesis
    using assms(1) parseBool_text [of t r] by (auto simp: set_flag_def value_text_def)
next
  case FT_int
  have v: "INT_MIN \<le> v" "v \<le> INT_MAX" "t = decimal v" using assms(1) FT_int by (simp_all add: value_text_def)
  have "\<not> isdigit (cur r)"
    using assms(2) digit_plain [of "cur r"] by (auto simp: value_end_def)
  from strtol_decimal [OF v(1,2) this] show ?thesis
    using FT_int v assms(2) by (auto simp: set_flag_def value_end_def)
qed

subsection \<open>One setting\<close>

definition plain_text :: "string \<Rightarrow> bool" where
  "plain_text t \<longleftrightarrow> t \<noteq> [] \<and> (\<forall>c \<in> set t. \<not> isSeparatorOrNull c \<and> c \<noteq> CHR 0x27 \<and> c \<noteq> CHR 0x22)"

lemma value_text_plain:
  assumes "value_text k v t"
  shows "plain_text t"
proof (cases k)
  case FT_bool
  then show ?thesis
    using assms by (auto simp: value_text_def plain_text_def isSeparatorOrNull_def isSeparator_def)
next
  case FT_int
  have "\<forall>c \<in> set (nat_digits n). \<not> isSeparatorOrNull c \<and> c \<noteq> CHR 0x27 \<and> c \<noteq> CHR 0x22" for n
    using digit_plain nat_digits_digits by blast
  moreover have "\<not> isSeparatorOrNull (CHR ''-'')" by (simp add: isSeparatorOrNull_def isSeparator_def)
  ultimately show ?thesis
    using FT_int assms nat_digits_nonempty by (auto simp: value_text_def plain_text_def decimal_def)
qed

lemma dropWhile_stop: "\<forall>c \<in> set xs. P c \<Longrightarrow> \<not> P (cur t) \<Longrightarrow> t \<noteq> [] \<Longrightarrow> dropWhile P (xs @ t) = t"
  by (induction xs) (cases t, auto)

lemma parse_value_quoted:
  assumes "plain_text t" "q = None \<longrightarrow> isSeparatorOrNull (cur r)" "q = None \<or> q = Some (CHR 0x27) \<or> q = Some (CHR 0x22)"
  shows "\<exists>e. parse_value (quoted q t @ r) = Inr (t @ e, r) \<and> value_end e"
proof (cases q)
  case None
  have "dropWhile (\<lambda>c. \<not> isSeparatorOrNull c) (t @ r) = r"
  proof (cases r)
    case Nil
    then show ?thesis using assms(1) by (simp add: plain_text_def)
  next
    case Cons
    then show ?thesis using None assms by (intro dropWhile_stop) (auto simp: plain_text_def)
  qed
  moreover have "cur (t @ r) \<noteq> CHR 0x27" "cur (t @ r) \<noteq> CHR 0x22"
    using assms(1) by (cases t; auto simp: plain_text_def)+
  ultimately show ?thesis
    using None assms(2) by (auto simp: parse_value_def quoted_def value_end_def)
next
  case (Some c)
  have c: "c = CHR 0x27 \<or> c = CHR 0x22" using assms(3) Some by auto
  have "dropWhile (\<lambda>x. x \<noteq> CHR 0x00 \<and> x \<noteq> c) (t @ c # r) = c # r"
    using assms(1) c by (intro dropWhile_stop) (auto simp: plain_text_def isSeparatorOrNull_def)
  then show ?thesis
    using Some c by (auto simp: parse_value_def quoted_def Let_def value_end_def)
qed

lemma parseFlag_setting:
  assumes "flags_ok p" "settings_ok p (x # xs)"
  shows "parseFlag (render (x # xs)) p = Inr (set_var (SFlag x) (SValue x) p, SSep x @ render xs)"
proof -
  let ?f = "SFlag x" and ?r = "SSep x @ render xs"
  let ?tail = "quoted (SQuote x) (SText x) @ ?r"
  have f: "?f \<in> set (FlagList p)" and vt: "value_text (FlagKind ?f) (SValue x) (SText x)" using assms(2) by auto
  have n: "name_ok (FlagName ?f)" using assms(1) f by (simp add: flags_ok_def)
  have name: "dropWhile (\<lambda>c. c \<noteq> CHR ''='' \<and> \<not> isSeparatorOrNull c) (FlagName ?f @ CHR ''='' # ?tail) = CHR ''='' # ?tail"
    using n by (intro dropWhile_stop) (auto simp: name_ok_def)
  have "isSeparatorOrNull (cur ?r)"
    using assms(2) by (cases "SSep x") (auto simp: isSeparatorOrNull_def)
  then obtain e where e: "parse_value ?tail = Inr (SText x @ e, ?r)" "value_end e"
    using parse_value_quoted [OF value_text_plain [OF vt], of "SQuote x" ?r] assms(2) by auto
  have "runHandler (FlagName ?f @ CHR ''='' # ?tail) (SText x @ e) (CHR ''='') p = Inr (True, set_var ?f (SValue x) p)"
    unfolding runHandler_def using assms(1) f runHandler_finds [of "FlagList p" ?f] set_flag_text [OF vt e(2)]
    by (simp add: flags_ok_def)
  then show ?thesis
    unfolding parseFlag_def Let_def render.simps name using e(1) by (simp add: run_or_report_def)
qed

lemma skip_seps: "list_all isSeparator s \<Longrightarrow> \<not> isSeparator (cur t) \<Longrightarrow> skipWhitespace (s @ t) = t"
  by (induction s) (cases t, simp_all add: skipWhitespace_def)

lemma parseFlags_render:
  assumes "flags_ok p" "settings_ok p xs" "list_all isSeparator lead"
  shows "parseFlags (lead @ render xs) p = Inr (fold (\<lambda>x. set_var (SFlag x) (SValue x)) xs p)"
  using assms
proof (induction xs arbitrary: lead p)
  case Nil
  have "skipWhitespace lead = []" using skip_seps [of lead "[]"] Nil by (simp add: isSeparator_def)
  then show ?case by (subst parseFlags.simps) (simp add: Let_def)
next
  case (Cons x xs)
  let ?p = "set_var (SFlag x) (SValue x) p"
  obtain c r where n: "FlagName (SFlag x) = c # r" and c: "\<not> isSeparatorOrNull c"
  proof -
    have "name_ok (FlagName (SFlag x))" using Cons.prems(1,2) by (simp add: flags_ok_def)
    then show thesis using that by (cases "FlagName (SFlag x)") (simp_all add: name_ok_def)
  qed
  have h: "cur (render (x # xs)) = c" using n by simp
  have skip: "skipWhitespace (lead @ render (x # xs)) = render (x # xs)"
    using h c Cons.prems(3) by (intro skip_seps) (simp_all add: isSeparatorOrNull_def)
  have same: "FlagList ?p = FlagList p" by (simp add: set_var_def)
  have ok: "settings_ok ?p ys = settings_ok p ys" for ys by (induction ys) (simp_all add: same)
  have "parseFlags (SSep x @ render xs) ?p = Inr (fold (\<lambda>x. set_var (SFlag x) (SValue x)) xs ?p)"
    using Cons.prems ok by (intro Cons.IH) (simp_all add: flags_ok_def same)
  then show ?case
    using h c parseFlag_setting [OF Cons.prems(1,2)]
    by (subst parseFlags.simps) (simp add: Let_def skip isSeparatorOrNull_def del: render.simps)
qed

text \<open>C26: Reading back: a list of settings, each written as a name, an equals sign and a text for its
  value, quoted or not and followed by separators, makes exactly those settings in their order, with no
  report and no unknown flag.\<close>

theorem rendered_settings_parse:
  assumes "flags_ok p" "settings_ok p xs" "list_all isSeparator lead"
  shows "parseString (Some (lead @ render xs)) p = Inr (fold (\<lambda>x. set_var (SFlag x) (SValue x)) xs p)"
  using parseFlags_render [OF assms] by (simp add: parseString_def)

theorem rendered_settings_parse_witness:
  "let n = \<lparr>FlagName = ''kb'', FlagDesc = [], FlagKind = FT_int, FlagVar = ''kb''\<rparr>;
       b = \<lparr>FlagName = ''kbz'', FlagDesc = [], FlagKind = FT_bool, FlagVar = ''kbz''\<rparr>;
       p = \<lparr>FlagList = [n, b], Variables = (\<lambda>_. 7), UnknownNames = []\<rparr>
   in \<exists>p'. parseString (Some (''  kbz='' @ [CHR 0x27] @ ''no'' @ [CHR 0x27] @ '', kb=-64:'')) p = Inr p'
        \<and> Variables p' ''kb'' = -64 \<and> Variables p' ''kbz'' = 0"
proof -
  let ?n = "\<lparr>FlagName = ''kb'', FlagDesc = [], FlagKind = FT_int, FlagVar = ''kb''\<rparr>"
  let ?b = "\<lparr>FlagName = ''kbz'', FlagDesc = [], FlagKind = FT_bool, FlagVar = ''kbz''\<rparr>"
  let ?p = "\<lparr>FlagList = [?n, ?b], Variables = (\<lambda>_. 7), UnknownNames = []\<rparr>"
  let ?xs = "[\<lparr>SFlag = ?b, SValue = 0, SText = ''no'', SQuote = Some (CHR 0x27), SSep = '', ''\<rparr>,
    \<lparr>SFlag = ?n, SValue = -64, SText = ''-64'', SQuote = None, SSep = '':''\<rparr>]"
  have d: "decimal (-64) = ''-64''" by code_simp
  have ok: "flags_ok ?p" by (simp add: flags_ok_def name_ok_def isSeparatorOrNull_def isSeparator_def)
  have so: "settings_ok ?p ?xs" by (simp add: value_text_def isSeparator_def d INT_MIN_def INT_MAX_def)
  have "list_all isSeparator ''  ''" by (simp add: isSeparator_def)
  from rendered_settings_parse [OF ok so this] show ?thesis by (simp add: quoted_def set_var_def)
qed

end
