(* ===== verification/Flags.thy ===== *)
theory Flags
  imports FlagParser AllocatorSafe
begin

text \<open>
  \<^verbatim>\<open>flags.h\<close>, \<^verbatim>\<open>flags.cpp\<close> and \<^verbatim>\<open>flags.inc\<close>: the allocator's flags with their defaults, where their
  settings come from, and how \<^verbatim>\<open>Allocator::init\<close> starts with them. The hooks of GWP-ASan are not
  built. The property follows the settings in the environment to the option bits of the allocator.
\<close>

text \<open>The registry of \<^verbatim>\<open>flags.inc\<close>: type, name, default and description.\<close>

definition scudo_flag_list :: "(FlagType \<times> string \<times> int \<times> string) list" where
  "scudo_flag_list =
     [(FT_int, ''quarantine_size_kb'', 0,
       ''Size (in kilobytes) of quarantine used to delay the actual deallocation of chunks. Lower value may reduce memory usage but decrease the effectiveness of the mitigation.''),
      (FT_int, ''thread_local_quarantine_size_kb'', 0,
       ''Size (in kilobytes) of per-thread cache used to offload the global quarantine. Lower value may reduce memory usage but might increase the contention on the global quarantine.''),
      (FT_int, ''quarantine_max_chunk_size'', 0,
       ''Size (in bytes) up to which chunks will be quarantined (if lower than or equal to).''),
      (FT_bool, ''dealloc_type_mismatch'', 0,
       ''Terminate on a type mismatch in allocation-deallocation functions, eg: malloc/delete, new/free, new/delete[], etc.''),
      (FT_bool, ''delete_size_mismatch'', 1,
       ''Terminate on a size mismatch between a sized-delete and the actual size of a chunk (as provided to new/new[]).''),
      (FT_bool, ''zero_contents'', 0, ''Zero chunk contents on allocation.''),
      (FT_bool, ''pattern_fill_contents'', 0, ''Pattern fill chunk contents on allocation.''),
      (FT_bool, ''may_return_null'', 1,
       ''Indicate whether the allocator should terminate instead of returning NULL in otherwise non-fatal error scenarios, eg: OOM, invalid allocation alignments, etc.''),
      (FT_int, ''release_to_os_interval_ms'', 5000,
       ''Interval (in milliseconds) at which to attempt release of unused memory to the OS. Negative values disable the feature.''),
      (FT_int, ''allocation_ring_buffer_size'', 32768,
       ''Entries to keep in the allocation ring buffer for scudo. Values less or equal to zero disable the buffer.'')]"

definition Flags_setDefaults :: "(string \<Rightarrow> int) \<Rightarrow> (string \<Rightarrow> int)" where
  "Flags_setDefaults vars = fold (\<lambda>(_, Name, DefaultValue, _) vars. vars(Name := DefaultValue)) scudo_flag_list vars"

fun register_all :: "(FlagType \<times> string \<times> int \<times> string) list \<Rightarrow> flag_parser \<Rightarrow> flag_parser result" where
  "register_all [] p = Inr p"
| "register_all ((Kind, Name, _, Desc) # fs) p = bindE (registerFlag Name Desc Kind Name p) (register_all fs)"

definition registerFlags :: "flag_parser \<Rightarrow> flag_parser result" where
  "registerFlags p = register_all scudo_flag_list p"

text \<open>\<^verbatim>\<open>SCUDO_DEFAULT_OPTIONS\<close>, \<^verbatim>\<open>__scudo_default_options\<close> and the two variables of the environment.\<close>

record flag_sources =
  CompileDefinition :: "string option"
  DefaultOptionsHook :: "string option"
  EnvOptions :: "string option"
  EnvRingBufferSize :: "string option"

definition getCompileDefinitionScudoDefaultOptions :: "flag_sources \<Rightarrow> string" where
  "getCompileDefinitionScudoDefaultOptions src = (case CompileDefinition src of Some s \<Rightarrow> s | None \<Rightarrow> [])"

text \<open>The hook itself may return a null pointer, which \<^verbatim>\<open>parseString\<close> ignores.\<close>

definition getScudoDefaultOptions :: "flag_sources \<Rightarrow> string" where
  "getScudoDefaultOptions src = (case DefaultOptionsHook src of Some s \<Rightarrow> s | None \<Rightarrow> [])"

definition initFlags :: "flag_sources \<Rightarrow> (string \<Rightarrow> int) \<Rightarrow> flag_parser result" where
  "initFlags src F =
     bindE (registerFlags \<lparr>FlagList = [], Variables = Flags_setDefaults F, UnknownNames = []\<rparr>) (\<lambda>p.
     bindE (parseString (Some (getCompileDefinitionScudoDefaultOptions src)) p) (\<lambda>p.
     bindE (parseString (Some (getScudoDefaultOptions src)) p) (\<lambda>p.
     bindE (parseString (EnvOptions src) p) (\<lambda>p.
       case EnvRingBufferSize src of
         Some V \<Rightarrow> parseStringPair ''allocation_ring_buffer_size'' V p
       | None \<Rightarrow> Inr p))))"

definition getFlags :: "(string \<Rightarrow> int) \<Rightarrow> flags" where
  "getFlags F =
     \<lparr>quarantine_size_kb = of_int (F ''quarantine_size_kb''),
      thread_local_quarantine_size_kb = of_int (F ''thread_local_quarantine_size_kb''),
      quarantine_max_chunk_size = of_int (F ''quarantine_max_chunk_size''),
      dealloc_type_mismatch = (F ''dealloc_type_mismatch'' \<noteq> 0),
      delete_size_mismatch = (F ''delete_size_mismatch'' \<noteq> 0),
      zero_contents = (F ''zero_contents'' \<noteq> 0),
      pattern_fill_contents = (F ''pattern_fill_contents'' \<noteq> 0),
      may_return_null = (F ''may_return_null'' \<noteq> 0),
      release_to_os_interval_ms = of_int (F ''release_to_os_interval_ms''),
      allocation_ring_buffer_size = of_int (F ''allocation_ring_buffer_size'')\<rparr>"

text \<open>\<^verbatim>\<open>Allocator::init\<close> from its sources, with what \<^verbatim>\<open>reportUnrecognizedFlags\<close> prints. The variables
  of a flag hold anything before.\<close>

definition Allocator_init ::
    "cconfig \<Rightarrow> flag_sources \<Rightarrow> (string \<Rightarrow> int) \<Rightarrow> u32 option \<Rightarrow> u64 \<Rightarrow> uptr \<Rightarrow> u32 \<Rightarrow> scudo
     \<Rightarrow> ((string \<times> fmt_arg list) list \<times> scudo) result" where
  "Allocator_init cfg src F Random Time This Seed s =
     bindE (initFlags src F) (\<lambda>p.
       let (msgs, p) = UnknownFlags_report p
       in bindE (scudo_init cfg (getFlags (Variables p)) Random Time This Seed s) (\<lambda>s. Inr (msgs, s)))"

section \<open>From the environment to the options\<close>

definition scudo_parser :: "(string \<Rightarrow> int) \<Rightarrow> flag_parser" where
  "scudo_parser F =
     \<lparr>FlagList = map (\<lambda>(Kind, Name, _, Desc). \<lparr>FlagName = Name, FlagDesc = Desc, FlagKind = Kind, FlagVar = Name\<rparr>) scudo_flag_list,
      Variables = Flags_setDefaults F, UnknownNames = []\<rparr>"

lemma registerFlags_scudo:
  "registerFlags \<lparr>FlagList = [], Variables = Flags_setDefaults F, UnknownNames = []\<rparr> = Inr (scudo_parser F)"
  by (simp add: registerFlags_def scudo_flag_list_def registerFlag_def scudo_parser_def MaxFlags_def)

lemma scudo_flags_ok: "flags_ok (scudo_parser F)"
  by (simp add: flags_ok_def scudo_parser_def scudo_flag_list_def name_ok_def isSeparatorOrNull_def isSeparator_def)

text \<open>The last setting of a flag decides.\<close>

definition setting_of :: "setting list \<Rightarrow> string \<Rightarrow> int \<Rightarrow> int" where
  "setting_of xs n v = fold (\<lambda>x v. if FlagName (SFlag x) = n then SValue x else v) xs v"

lemma settings_ok_same: "FlagList p = FlagList q \<Longrightarrow> settings_ok p xs = settings_ok q xs"
  by (induction xs) simp_all

lemma fold_set_var:
  "FlagList (fold (\<lambda>x. set_var (SFlag x) (SValue x)) xs p) = FlagList p"
  "UnknownNames (fold (\<lambda>x. set_var (SFlag x) (SValue x)) xs p) = UnknownNames p"
  by (induction xs arbitrary: p) (simp_all add: set_var_def)

lemma fold_set_var_value:
  assumes "settings_ok p xs" "\<forall>f \<in> set (FlagList p). FlagVar f = FlagName f"
  shows "Variables (fold (\<lambda>x. set_var (SFlag x) (SValue x)) xs p) n = setting_of xs n (Variables p n)"
  using assms
proof (induction xs arbitrary: p)
  case (Cons x xs)
  let ?q = "set_var (SFlag x) (SValue x) p"
  have q: "FlagList ?q = FlagList p" by (simp add: set_var_def)
  have "Variables (fold (\<lambda>x. set_var (SFlag x) (SValue x)) xs ?q) n = setting_of xs n (Variables ?q n)"
    using Cons.prems settings_ok_same [OF q] q by (intro Cons.IH) simp_all
  moreover have "Variables ?q n = (if FlagName (SFlag x) = n then SValue x else Variables p n)"
    using Cons.prems by (auto simp: set_var_def)
  ultimately show ?case by (simp add: setting_of_def)
qed (simp add: setting_of_def)

lemma parse_settings:
  assumes "settings_ok p xs" "FlagList p = FlagList (scudo_parser F)" "UnknownNames p = []"
  shows "\<exists>q. parseString (Some (render xs)) p = Inr q \<and> FlagList q = FlagList p \<and> UnknownNames q = []
    \<and> (\<forall>n. Variables q n = setting_of xs n (Variables p n))"
proof -
  have ok: "flags_ok p" using scudo_flags_ok [of F] assms(2) by (simp add: flags_ok_def)
  have "\<forall>f \<in> set (FlagList p). FlagVar f = FlagName f"
    unfolding assms(2) by (auto simp: scudo_parser_def)
  then show ?thesis
    using parseFlags_render [OF ok assms(1), of "[]"] fold_set_var [of xs p] fold_set_var_value [OF assms(1)]
    by (simp add: parseString_def assms(3))
qed

lemma setting_of_append: "setting_of (xs @ ys) n v = setting_of ys n (setting_of xs n v)"
  by (simp add: setting_of_def)

lemma initFlags_settings:
  assumes "settings_ok (scudo_parser F) xs" "settings_ok (scudo_parser F) ys" "settings_ok (scudo_parser F) zs"
  shows "\<exists>q. initFlags \<lparr>CompileDefinition = Some (render xs), DefaultOptionsHook = Some (render ys),
        EnvOptions = Some (render zs), EnvRingBufferSize = None\<rparr> F = Inr q \<and> UnknownNames q = []
     \<and> (\<forall>n. Variables q n = setting_of (xs @ ys @ zs) n (Flags_setDefaults F n))"
proof -
  let ?p = "scudo_parser F"
  have p: "UnknownNames ?p = []" "Variables ?p = Flags_setDefaults F" by (simp_all add: scudo_parser_def)
  obtain q1 where 1: "parseString (Some (render xs)) ?p = Inr q1" "FlagList q1 = FlagList ?p" "UnknownNames q1 = []"
    "\<forall>n. Variables q1 n = setting_of xs n (Variables ?p n)" using parse_settings [OF assms(1) refl p(1)] by auto
  have "settings_ok q1 ys" using assms(2) settings_ok_same [OF 1(2)] by simp
  from parse_settings [OF this 1(2,3)]
  obtain q2 where 2: "parseString (Some (render ys)) q1 = Inr q2" "FlagList q2 = FlagList ?p" "UnknownNames q2 = []"
    "\<forall>n. Variables q2 n = setting_of ys n (Variables q1 n)" using 1(2) by auto
  have "settings_ok q2 zs" using assms(3) settings_ok_same [OF 2(2)] by simp
  from parse_settings [OF this 2(2,3)]
  obtain q3 where 3: "parseString (Some (render zs)) q2 = Inr q3" "UnknownNames q3 = []"
    "\<forall>n. Variables q3 n = setting_of zs n (Variables q2 n)" by auto
  show ?thesis
    using 1 2 3 p by (simp add: initFlags_def registerFlags_scudo getCompileDefinitionScudoDefaultOptions_def
        getScudoDefaultOptions_def setting_of_append)
qed

lemma p_init_options: "p_init cfg os Seed Interval h = Inr h' \<Longrightarrow> POptions h' = POptions h"
  unfolding p_init_def Let_def by (auto split: prod.splits if_splits option.splits)

lemma scudo_init_facts:
  assumes "scudo_init cfg fl Random Time This Seed s = Inr s'"
  shows "load_options s' = init_options cfg fl (load_options s)" "QuarantineMaxChunkSize s' = quarantine_max_chunk_size fl"
  using assms by (auto simp: scudo_init_def bindE_eq_Inr load_options_def dest: p_init_options)

lemma getFill_set:
  assumes "B \<noteq> FillContents0of2" "B \<noteq> FillContents1of2"
  shows "getFillContentsMode (opt_set B Val) = getFillContentsMode Val"
proof -
  have "OptionBit_code B \<noteq> 1" "OptionBit_code B \<noteq> 2"
    using assms by (cases B; simp)+
  then have "OptionBit_code B \<noteq> 1 + n" "1 + n \<noteq> OptionBit_code B" if "n < 2" for n
    using that by (auto simp: less_2_cases_iff)
  then show ?thesis
    unfolding getFillContentsMode_def opt_set_def three_mask OptionBit_code.simps
    by (intro bit_word_eqI) (auto simp: bit_simps bit_1_iff simp del: push_bit_Suc One_nat_def)
qed

lemma opt_get_zero: "\<not> opt_get A 0"
  by (simp add: opt_get_def)

lemma getFill_zero: "getFillContentsMode 0 = 0"
  by (simp add: getFillContentsMode_def)

lemmas fill_modes = NoFill_def ZeroFill_def PatternOrZeroFill_def

lemma init_options_facts:
  "opt_get MayReturnNull (init_options cfg fl 0) \<longleftrightarrow> may_return_null fl"
  "opt_get OptDeallocTypeMismatch (init_options cfg fl 0) \<longleftrightarrow> dealloc_type_mismatch fl"
  "opt_get OptDeleteSizeMismatch (init_options cfg fl 0) \<longleftrightarrow> delete_size_mismatch fl"
  "opt_get UseMemoryTagging (init_options cfg fl 0) \<longleftrightarrow> tagging_built cfg \<and> CSystemSupportsMemoryTagging cfg"
  "getFillContentsMode (init_options cfg fl 0) =
     (if zero_contents fl then ZeroFill else if pattern_fill_contents fl then PatternOrZeroFill else NoFill)"
  by (simp_all add: init_options_def Let_def opt_get_set opt_get_zero setFillContentsMode_eq opt_get_newFill
      getFill_set getFill_newFill getFill_zero fill_modes)

text \<open>C25: The settings of the environment reach the allocator: after \<^verbatim>\<open>init\<close> with settings given at
  compile time, by the program's hook and in \<^verbatim>\<open>SCUDO_OPTIONS\<close>, each option is the one of the last
  setting of its flag in this order, or its default, and nothing is printed about unknown flags.\<close>

theorem options_from_environment:
  assumes "settings_ok (scudo_parser F) xs" "settings_ok (scudo_parser F) ys" "settings_ok (scudo_parser F) zs"
    and "Allocator_init cfg \<lparr>CompileDefinition = Some (render xs), DefaultOptionsHook = Some (render ys),
           EnvOptions = Some (render zs), EnvRingBufferSize = None\<rparr> F Random Time This Seed s = Inr (msgs, s')"
    and "load_options s = 0"
  shows "(let v = (\<lambda>n d. setting_of (xs @ ys @ zs) n d); Opts = load_options s'
     in msgs = []
       \<and> (opt_get MayReturnNull Opts \<longleftrightarrow> v ''may_return_null'' 1 \<noteq> 0)
       \<and> (opt_get OptDeallocTypeMismatch Opts \<longleftrightarrow> v ''dealloc_type_mismatch'' 0 \<noteq> 0)
       \<and> (opt_get OptDeleteSizeMismatch Opts \<longleftrightarrow> v ''delete_size_mismatch'' 1 \<noteq> 0)
       \<and> getFillContentsMode Opts = (if v ''zero_contents'' 0 \<noteq> 0 then ZeroFill
            else if v ''pattern_fill_contents'' 0 \<noteq> 0 then PatternOrZeroFill else NoFill)
       \<and> QuarantineMaxChunkSize s' = of_int (v ''quarantine_max_chunk_size'' 0))"
proof -
  obtain q where q: "initFlags \<lparr>CompileDefinition = Some (render xs), DefaultOptionsHook = Some (render ys),
        EnvOptions = Some (render zs), EnvRingBufferSize = None\<rparr> F = Inr q" "UnknownNames q = []"
      "\<And>n. Variables q n = setting_of (xs @ ys @ zs) n (Flags_setDefaults F n)"
    using initFlags_settings [OF assms(1-3)] by auto
  have d: "Flags_setDefaults F ''may_return_null'' = 1" "Flags_setDefaults F ''dealloc_type_mismatch'' = 0"
    "Flags_setDefaults F ''delete_size_mismatch'' = 1" "Flags_setDefaults F ''zero_contents'' = 0"
    "Flags_setDefaults F ''pattern_fill_contents'' = 0" "Flags_setDefaults F ''quarantine_max_chunk_size'' = 0"
    by (simp_all add: Flags_setDefaults_def scudo_flag_list_def)
  have i: "msgs = []" "scudo_init cfg (getFlags (Variables q)) Random Time This Seed s = Inr s'"
    using assms(4) q(1,2) by (auto simp: Allocator_init_def UnknownFlags_report_def bindE_eq_Inr)
  note f = scudo_init_facts [OF i(2)]
  show ?thesis
    unfolding Let_def f assms(5) init_options_facts using i(1) by (simp add: getFlags_def q(3) d)
qed

lemma scudo_flag_facts:
  "FlagName (FlagList (scudo_parser F) ! 7) = ''may_return_null''" "FlagKind (FlagList (scudo_parser F) ! 7) = FT_bool"
  "FlagName (FlagList (scudo_parser F) ! 5) = ''zero_contents''" "FlagKind (FlagList (scudo_parser F) ! 5) = FT_bool"
  by (simp_all add: scudo_parser_def scudo_flag_list_def)

lemma small_init:
  assumes "quarantine_size_kb fl = 0" "thread_local_quarantine_size_kb fl = 0"
  shows "\<exists>s'. scudo_init small_cconfig fl Random Time This Seed (small_scudo False) = Inr s'"
proof -
  have "\<exists>h'. p_init small_config small_os Seed I h = Inr h'" for I h
    unfolding p_init_def Let_def by (auto simp: small_os_def split: prod.splits)
  then show ?thesis
    using assms by (fastforce simp: scudo_init_def small_sanity quarantine_init_def bindE_eq_Inr)
qed

theorem options_from_environment_witness:
  "\<exists>msgs s'. Allocator_init small_cconfig
       \<lparr>CompileDefinition = Some ''may_return_null=yes'', DefaultOptionsHook = Some ''zero_contents=1'',
        EnvOptions = Some ''may_return_null=false'', EnvRingBufferSize = None\<rparr>
       (\<lambda>_. 0) None 1 2 3 (small_scudo False) = Inr (msgs, s')
     \<and> \<not> opt_get MayReturnNull (load_options s') \<and> getFillContentsMode (load_options s') = ZeroFill
     \<and> opt_get OptDeleteSizeMismatch (load_options s') \<and> QuarantineMaxChunkSize s' = 0"
proof -
  define mk where "mk = (\<lambda>i v t. \<lparr>SFlag = FlagList (scudo_parser (\<lambda>_. 0)) ! i, SValue = v :: int, SText = t,
    SQuote = None, SSep = []\<rparr>)"
  let ?x = "mk 7 1 ''yes''" and ?y = "mk 5 1 ''1''" and ?z = "mk 7 0 ''false''"
  let ?src = "\<lparr>CompileDefinition = Some ''may_return_null=yes'', DefaultOptionsHook = Some ''zero_contents=1'',
        EnvOptions = Some ''may_return_null=false'', EnvRingBufferSize = None\<rparr>"
  have mem: "i < 10 \<Longrightarrow> FlagList (scudo_parser (\<lambda>_. 0)) ! i \<in> set (FlagList (scudo_parser (\<lambda>_. 0)))" for i
    by (rule nth_mem) (simp add: scudo_parser_def scudo_flag_list_def)
  have ok: "settings_ok (scudo_parser (\<lambda>_. 0)) [?x]" "settings_ok (scudo_parser (\<lambda>_. 0)) [?y]" "settings_ok (scudo_parser (\<lambda>_. 0)) [?z]"
    using mem [of 7] mem [of 5] scudo_flag_facts [of "\<lambda>_. 0"] by (simp_all add: mk_def value_text_def)
  have r: "render [?x] = ''may_return_null=yes''" "render [?y] = ''zero_contents=1''" "render [?z] = ''may_return_null=false''"
    by (simp_all add: mk_def quoted_def scudo_flag_facts)
  obtain q where q: "initFlags ?src (\<lambda>_. 0) = Inr q" "UnknownNames q = []"
    "\<And>n. Variables q n = setting_of ([?x] @ [?y] @ [?z]) n (Flags_setDefaults (\<lambda>_. 0) n)"
    using initFlags_settings [OF ok] unfolding r by auto
  have "quarantine_size_kb (getFlags (Variables q)) = 0" "thread_local_quarantine_size_kb (getFlags (Variables q)) = 0"
    by (simp_all add: getFlags_def q(3) setting_of_def mk_def scudo_flag_facts) (simp_all add: Flags_setDefaults_def scudo_flag_list_def)
  from small_init [OF this] obtain s' where s':
    "scudo_init small_cconfig (getFlags (Variables q)) None 1 2 3 (small_scudo False) = Inr s'" by blast
  have a: "Allocator_init small_cconfig ?src (\<lambda>_. 0) None 1 2 3 (small_scudo False) = Inr ([], s')"
    by (simp add: Allocator_init_def q(1,2) UnknownFlags_report_def s')
  have z: "load_options (small_scudo False) = 0" by (simp add: load_options_def small_scudo_def)
  note t = options_from_environment [OF ok, unfolded r, OF a z]
  show ?thesis using a t by (auto simp: Let_def setting_of_def mk_def scudo_flag_facts)
qed

end
