(* ===== verification/StackDepot.thy ===== *)
theory StackDepot
  imports Common
begin

text \<open>
  \<^verbatim>\<open>stack_depot.h\<close>: a ring buffer of stack traces and a table from the low bits of a trace's hash to
  its place in the ring. The object and the two arrays behind it are one piece of memory; the arrays
  are its 32-bit words, in which the ring has \<^verbatim>\<open>RingSize\<close> elements of two words and the table follows.
  A read or write outside of the piece is \<open>None\<close>.

  The properties: a trace that was inserted is found with its frames, what is found always has the
  hash asked for, and on a depot that passes \<^verbatim>\<open>isValid\<close>, whatever it holds, nothing is read outside.
\<close>

unbundle bit_operations_syntax

section \<open>The hash\<close>

definition Murmur_M :: u32 where "Murmur_M = 0x5bd1e995"
definition Murmur_Seed :: u32 where "Murmur_Seed = 0x9747b28c"
definition Murmur_R :: nat where "Murmur_R = 24"

definition MurMur2HashBuilder :: "u32 \<Rightarrow> u32" where
  "MurMur2HashBuilder Init = Murmur_Seed XOR Init"

definition murmur_add :: "u32 \<Rightarrow> u32 \<Rightarrow> u32" where
  "murmur_add K H =
     (let K = K * Murmur_M; K = K XOR drop_bit Murmur_R K; K = K * Murmur_M; H = H * Murmur_M in H XOR K)"

definition murmur_get :: "u32 \<Rightarrow> u32" where
  "murmur_get H = (let X = H; X = X XOR drop_bit 13 X; X = X * Murmur_M; X = X XOR drop_bit 15 X in X)"

definition add_frame :: "u64 \<Rightarrow> u32 \<Rightarrow> u32" where
  "add_frame Frame H = murmur_add (drop_bit 2 (ucast Frame)) H"

definition trace_hash :: "u64 list \<Rightarrow> u32" where
  "trace_hash Frames = murmur_get (fold add_frame Frames (MurMur2HashBuilder 0))"

section \<open>The depot\<close>

record depot =
  RingEnd :: u32
  RingSize :: u32
  RingMask :: u32
  TabMask :: u32
  DepotWords :: "u32 list"

definition sizeof_StackDepot :: uptr where "sizeof_StackDepot = 24"

definition ring_load :: "depot \<Rightarrow> nat \<Rightarrow> u64 option" where
  "ring_load d I =
     (if 2 * I + 1 < length (DepotWords d)
      then Some (ucast (DepotWords d ! (2 * I)) OR push_bit 32 (ucast (DepotWords d ! (2 * I + 1)))) else None)"

definition ring_store :: "nat \<Rightarrow> u64 \<Rightarrow> depot \<Rightarrow> depot option" where
  "ring_store I V d =
     (if 2 * I + 1 < length (DepotWords d)
      then Some (d\<lparr>DepotWords := (DepotWords d)[2 * I := ucast V, 2 * I + 1 := ucast (drop_bit 32 V)]\<rparr>) else None)"

definition tab_index :: "depot \<Rightarrow> u32 \<Rightarrow> nat" where
  "tab_index d Pos = 2 * unat (RingSize d) + unat Pos"

definition tab_load :: "depot \<Rightarrow> u32 \<Rightarrow> u32 option" where
  "tab_load d Pos = (if tab_index d Pos < length (DepotWords d) then Some (DepotWords d ! tab_index d Pos) else None)"

definition tab_store :: "u32 \<Rightarrow> u32 \<Rightarrow> depot \<Rightarrow> depot option" where
  "tab_store Pos V d =
     (if tab_index d Pos < length (DepotWords d) then Some (d\<lparr>DepotWords := (DepotWords d)[tab_index d Pos := V]\<rparr>) else None)"

definition depot_init :: "u32 \<Rightarrow> u32 \<Rightarrow> depot \<Rightarrow> depot" where
  "depot_init RingSz TabSz d = d\<lparr>RingSize := RingSz, RingMask := RingSz - 1, TabMask := TabSz - 1\<rparr>"

definition depot_isValid :: "uptr \<Rightarrow> depot \<Rightarrow> bool" where
  "depot_isValid BufSize d =
     (if \<not> isPowerOfTwo (ucast (RingSize d)) then False
      else let RingBytes = 8 * ucast (RingSize d) :: uptr
           in if RingMask d + 1 \<noteq> RingSize d then False
              else if TabMask d = 0 then False
              else let TabSize = ucast (TabMask d + 1) :: uptr
                   in if \<not> isPowerOfTwo TabSize then False
                      else let TabBytes = 4 * TabSize
                           in if BufSize < sizeof_StackDepot then False
                              else let BufSize = BufSize - sizeof_StackDepot
                                   in if BufSize < TabBytes then False
                                      else let BufSize = BufSize - TabBytes
                                           in if BufSize < RingBytes then False else BufSize = RingBytes)"

definition next_pos :: "depot \<Rightarrow> u32 \<Rightarrow> u32" where
  "next_pos d Pos = (Pos + 1) AND RingMask d"

fun store_frames :: "u64 list \<Rightarrow> u32 \<Rightarrow> depot \<Rightarrow> (u32 \<times> depot) option" where
  "store_frames [] Pos d = Some (Pos, d)"
| "store_frames (Frame # Frames) Pos d =
     (let Pos = next_pos d Pos in Option.bind (ring_store (unat Pos) Frame d) (store_frames Frames Pos))"

definition trace_id :: "nat \<Rightarrow> u32 \<Rightarrow> u64" where
  "trace_id n Hash = push_bit 33 (of_nat n) OR push_bit 1 (ucast Hash) OR 1"

definition depot_insert :: "u64 list \<Rightarrow> depot \<Rightarrow> (u32 \<times> depot) option" where
  "depot_insert Frames d =
     (let Hash = trace_hash Frames; Pos = Hash AND TabMask d
      in Option.bind (tab_load d Pos) (\<lambda>RPos.
         Option.bind (ring_load d (unat RPos)) (\<lambda>Entry.
           let Id = trace_id (length Frames) Hash
           in if Entry = Id then Some (Hash, d)
              else let RPos = RingEnd d
                   in Option.bind (tab_store Pos RPos d) (\<lambda>d.
                      Option.bind (ring_store (unat RPos) Id d) (\<lambda>d.
                      Option.bind (store_frames Frames RPos d) (\<lambda>(RPos, d).
                        Some (Hash, d\<lparr>RingEnd := next_pos d RPos\<rparr>)))))))"

fun hash_frames :: "nat \<Rightarrow> u32 \<Rightarrow> u32 \<Rightarrow> depot \<Rightarrow> u32 option" where
  "hash_frames 0 Pos H d = Some H"
| "hash_frames (Suc n) Pos H d =
     (let Pos = next_pos d Pos
      in Option.bind (ring_load d (unat Pos)) (\<lambda>Frame. hash_frames n Pos (add_frame Frame H) d))"

text \<open>The position and size of the trace, if it is found.\<close>

definition depot_find :: "u32 \<Rightarrow> depot \<Rightarrow> (uptr \<times> uptr) option option" where
  "depot_find Hash d =
     (let Pos = Hash AND TabMask d
      in Option.bind (tab_load d Pos) (\<lambda>RPos.
         if RPos \<ge> RingSize d then Some None
         else Option.bind (ring_load d (unat RPos)) (\<lambda>Entry.
           if Entry AND 0x1ffffffff \<noteq> push_bit 1 (ucast Hash) OR 1 then Some None
           else let Size = ucast (drop_bit 33 Entry) :: u32
                in if Size \<ge> RingSize d then Some None
                   else Option.bind (hash_frames (unat Size) RPos (MurMur2HashBuilder 0) d) (\<lambda>H.
                          Some (if murmur_get H = Hash then Some (ucast (next_pos d RPos), ucast Size) else None)))))"

definition depot_at :: "depot \<Rightarrow> uptr \<Rightarrow> u64 option" where
  "depot_at d Pos = ring_load d (unat (Pos AND ucast (RingMask d)))"

section \<open>Valid depots\<close>

text \<open>What \<^verbatim>\<open>isValid\<close> and the size of the memory make sure of.\<close>

definition depot_shape :: "depot \<Rightarrow> bool" where
  "depot_shape d \<longleftrightarrow> (\<exists>k m. k < 32 \<and> m < 32 \<and> RingSize d = 2 ^ k \<and> RingMask d = mask k \<and> TabMask d = mask m
     \<and> length (DepotWords d) = 2 * 2 ^ k + 2 ^ m)"

lemma unat_pow32: "k < 32 \<Longrightarrow> unat (2 ^ k :: u32) = 2 ^ k"
  by (rule unat_power_of_2) simp

lemma unat_pow_up: "k < 32 \<Longrightarrow> unat (ucast (2 ^ k :: u32) :: uptr) = 2 ^ k"
  using unat_ucast_up [of "2 ^ k :: u32", where ?'b = 64] unat_pow32 by simp

lemma power_of_two_word:
  assumes "isPowerOfTwo (ucast (x :: u32))"
  shows "\<exists>k < 32. x = 2 ^ k"
proof -
  obtain k where k: "k < 64" "(ucast x :: uptr) = 2 ^ k" using assms by (auto simp: isPowerOfTwo_iff)
  have "unat (ucast x :: uptr) = unat x" by (rule unat_ucast_up) simp
  moreover have "unat (2 ^ k :: uptr) = 2 ^ k" using k(1) by (intro unat_power_of_2) simp
  ultimately have u: "unat x = 2 ^ k" using k(2) by simp
  have "(2 :: nat) ^ k < 2 ^ 32" using unsigned_less [of x, where ?'a = nat] by (simp add: u)
  then have k32: "k < 32" by (rule power_less_imp_less_exp [rotated]) simp
  then have "x = 2 ^ k" using u unat_pow32 [OF k32] by (metis word_unat_eq_iff)
  with k32 show ?thesis by blast
qed

lemma unat_times_pow:
  assumes "k < 32" "c = 4 \<or> c = (8 :: uptr)"
  shows "unat (c * ucast (2 ^ k :: u32)) = unat c * 2 ^ k"
proof -
  have "(2 :: nat) ^ k < 2 ^ 32" using assms(1) by (intro power_strict_increasing) simp_all
  then have "unat c * unat (ucast (2 ^ k :: u32) :: uptr) < 2 ^ LENGTH(64)"
    using assms(2) unat_pow_up [OF assms(1)] by auto
  from unat_mult_small [OF this] show ?thesis by (simp add: unat_pow_up [OF assms(1)])
qed

lemma isValid_shape:
  assumes "depot_isValid BufSize d" "length (DepotWords d) = (unat BufSize - 24) div 4"
  shows "depot_shape d"
proof -
  note v = assms(1) [unfolded depot_isValid_def Let_def]
  have p: "isPowerOfTwo (ucast (RingSize d))" "isPowerOfTwo (ucast (TabMask d + 1))" "RingMask d + 1 = RingSize d"
    using v by (auto split: if_splits)
  obtain k where k: "k < 32" "RingSize d = 2 ^ k" using power_of_two_word [OF p(1)] by blast
  obtain m where m: "m < 32" "TabMask d + 1 = 2 ^ m" using power_of_two_word [OF p(2)] by blast
  have masks: "RingMask d = mask k" "TabMask d = mask m"
    using p(3) k(2) m(2) by (simp_all add: mask_eq_exp_minus_1 eq_diff_eq)
  let ?T = "4 * ucast (TabMask d + 1) :: uptr" and ?R = "8 * ucast (RingSize d) :: uptr"
  have c: "sizeof_StackDepot \<le> BufSize" "?T \<le> BufSize - sizeof_StackDepot" "BufSize - sizeof_StackDepot - ?T = ?R"
    using v by (auto split: if_splits)
  have T: "unat ?T = 4 * 2 ^ m" using unat_times_pow [OF m(1), of 4] by (simp only: m(2)) simp
  have R: "unat ?R = 8 * 2 ^ k" using unat_times_pow [OF k(1), of 8] by (simp only: k(2)) simp
  have "unat (BufSize - sizeof_StackDepot) = unat BufSize - 24"
    using c(1) by (simp add: unat_sub sizeof_StackDepot_def)
  then have "unat BufSize - 24 - unat ?T = unat ?R" "unat ?T \<le> unat BufSize - 24"
    using c(2,3) by (metis unat_sub, metis word_le_nat_alt)
  then have "unat BufSize - 24 = 4 * (2 * 2 ^ k + 2 ^ m)" using T R by simp
  then have "length (DepotWords d) = 2 * 2 ^ k + 2 ^ m" using assms(2) by simp
  then show ?thesis using k m masks unfolding depot_shape_def by blast
qed

section \<open>Reading and writing the arrays\<close>

definition ring_len :: "depot \<Rightarrow> nat" where
  "ring_len d = unat (RingSize d)"

lemma join_halves: "(ucast (ucast V :: u32) :: u64) OR push_bit 32 (ucast (ucast (drop_bit 32 V) :: u32)) = V" for V :: u64
  by (rule bit_word_eqI) (auto simp: bit_simps)

lemma ring_store_facts:
  assumes "ring_store I V d = Some d'"
  shows "ring_load d' J = (if J = I then Some V else ring_load d J)"
    and "d' = d\<lparr>DepotWords := DepotWords d'\<rparr>" "length (DepotWords d') = length (DepotWords d)"
proof -
  have "2 * I \<noteq> 2 * J + 1" "2 * I + 1 \<noteq> 2 * J" for J :: nat by presburger+
  then show "ring_load d' J = (if J = I then Some V else ring_load d J)"
    using assms by (auto simp: ring_store_def ring_load_def nth_list_update join_halves split: if_splits)
qed (use assms in \<open>auto simp: ring_store_def split: if_splits\<close>)

lemma shape_facts:
  assumes "depot_shape d"
  shows "0 < ring_len d" "2 * ring_len d < length (DepotWords d)"
    and "unat (x AND RingMask d) = unat x mod ring_len d"
    and "\<exists>k < 32. ring_len d = 2 ^ k \<and> RingMask d = mask k"
    and "tab_index d (x AND TabMask d) < length (DepotWords d)"
proof -
  obtain k m where km: "k < 32" "m < 32" "RingSize d = 2 ^ k" "RingMask d = mask k" "TabMask d = mask m"
    "length (DepotWords d) = 2 * 2 ^ k + 2 ^ m" using assms by (auto simp: depot_shape_def)
  then have r: "ring_len d = 2 ^ k" using unat_pow32 by (simp add: ring_len_def)
  show "0 < ring_len d" "2 * ring_len d < length (DepotWords d)" using r km(6) by simp_all
  show "unat (x AND RingMask d) = unat x mod ring_len d" using km(4) r by (simp add: unat_mask_and)
  show "\<exists>k < 32. ring_len d = 2 ^ k \<and> RingMask d = mask k" using km r by blast
  have "unat x mod 2 ^ m < 2 ^ m" by simp
  then show "tab_index d (x AND TabMask d) < length (DepotWords d)"
    using km r by (simp add: tab_index_def ring_len_def unat_mask_and)
qed

lemma ring_load_in: "depot_shape d \<Longrightarrow> I < ring_len d \<Longrightarrow> \<exists>V. ring_load d I = Some V"
  using shape_facts(2) [of d] by (simp add: ring_load_def)

lemma ring_store_in: "depot_shape d \<Longrightarrow> I < ring_len d \<Longrightarrow> \<exists>d'. ring_store I V d = Some d'"
  using shape_facts(2) [of d] by (simp add: ring_store_def)

lemma tab_load_in: "depot_shape d \<Longrightarrow> \<exists>V. tab_load d (x AND TabMask d) = Some V"
  using shape_facts(5) [of d x] by (simp add: tab_load_def)

text \<open>The fields that no store changes.\<close>

definition same_shape :: "depot \<Rightarrow> depot \<Rightarrow> bool" where
  "same_shape d d' \<longleftrightarrow> d' = d\<lparr>DepotWords := DepotWords d'\<rparr> \<and> length (DepotWords d') = length (DepotWords d)"

lemma same_shapeD:
  assumes "same_shape d d'"
  shows "RingEnd d' = RingEnd d" "RingSize d' = RingSize d" "RingMask d' = RingMask d" "TabMask d' = TabMask d"
    "ring_len d' = ring_len d" "depot_shape d' = depot_shape d" "next_pos d' = next_pos d" "tab_index d' = tab_index d"
proof -
  have f: "RingEnd d' = RingEnd d \<and> RingSize d' = RingSize d \<and> RingMask d' = RingMask d \<and> TabMask d' = TabMask d"
    "length (DepotWords d') = length (DepotWords d)"
    using assms unfolding same_shape_def by (metis depot.select_convs depot.update_convs(5) depot.surjective)+
  then show "RingEnd d' = RingEnd d" "RingSize d' = RingSize d" "RingMask d' = RingMask d" "TabMask d' = TabMask d"
    "ring_len d' = ring_len d" "depot_shape d' = depot_shape d" "next_pos d' = next_pos d" "tab_index d' = tab_index d"
    by (auto simp: ring_len_def depot_shape_def next_pos_def tab_index_def fun_eq_iff)
qed

lemma same_shape_trans: "same_shape d1 d2 \<Longrightarrow> same_shape d2 d3 \<Longrightarrow> same_shape d1 d3"
  by (auto simp: same_shape_def) (metis depot.update_convs(5) depot.surjective)

lemma ring_store_shape: "ring_store I V d = Some d' \<Longrightarrow> same_shape d d'"
  using ring_store_facts(2,3) by (simp add: same_shape_def)

lemma tab_store_facts:
  assumes "tab_store t V d = Some d'"
  shows "same_shape d d'" "tab_load d' t = Some V" "I < ring_len d \<Longrightarrow> ring_load d' I = ring_load d I"
    "t' \<noteq> t \<Longrightarrow> tab_load d' t' = tab_load d t'"
  using assms
  by (auto simp: tab_store_def same_shape_def tab_load_def ring_load_def tab_index_def ring_len_def word_unat_eq_iff split: if_splits)

lemma ring_store_tab:
  assumes "ring_store I V d = Some d'" "I < ring_len d"
  shows "tab_load d' t = tab_load d t"
  using assms by (auto simp: ring_store_def tab_load_def tab_index_def ring_len_def split: if_splits)

lemma unat_next_pos:
  assumes "depot_shape d"
  shows "unat (next_pos d Pos) = (unat Pos + 1) mod ring_len d"
proof -
  obtain k where k: "k < 32" "ring_len d = 2 ^ k" using shape_facts(4) [OF assms] by blast
  have "(2 :: nat) ^ k dvd 2 ^ 32" using k(1) by (intro le_imp_power_dvd) simp
  then have "(unat Pos + 1) mod 2 ^ 32 mod ring_len d = (unat Pos + 1) mod ring_len d" by (simp only: k(2) mod_mod_cancel)
  then show ?thesis
    unfolding next_pos_def shape_facts(3) [OF assms] by (simp add: unat_word_ariths)
qed

section \<open>Storing and hashing a trace\<close>

text \<open>Where the frame \<open>J\<close> of a trace is whose marker is at \<open>Pos\<close>.\<close>

definition frame_pos :: "depot \<Rightarrow> u32 \<Rightarrow> nat \<Rightarrow> nat" where
  "frame_pos d Pos J = (unat Pos + 1 + J) mod ring_len d"

lemma frame_pos_less: "depot_shape d \<Longrightarrow> frame_pos d Pos J < ring_len d"
  using shape_facts(1) by (simp add: frame_pos_def)

lemma frame_pos_next:
  assumes "depot_shape d"
  shows "frame_pos d (next_pos d Pos) J = frame_pos d Pos (Suc J)" "frame_pos d Pos 0 = unat (next_pos d Pos)"
proof -
  have "((unat Pos + 1) mod ring_len d + (1 + J)) mod ring_len d = ((unat Pos + 1) + (1 + J)) mod ring_len d"
    by (rule mod_add_left_eq)
  then show "frame_pos d (next_pos d Pos) J = frame_pos d Pos (Suc J)"
    by (simp add: frame_pos_def unat_next_pos [OF assms])
qed (simp add: frame_pos_def unat_next_pos [OF assms])

lemma frame_pos_inj:
  assumes "I < ring_len d" "J < ring_len d" "frame_pos d Pos I = frame_pos d Pos J"
  shows "I = J"
proof -
  have w: "I = J" if "I \<le> J" "J < ring_len d" "frame_pos d Pos I = frame_pos d Pos J" for I J
  proof -
    have "ring_len d dvd (unat Pos + 1 + J) - (unat Pos + 1 + I)"
      using that unfolding frame_pos_def by (intro mod_eq_dvd_iff_nat [THEN iffD1]) simp_all
    then have "ring_len d dvd J - I" by simp
    then show ?thesis using that by (metis diff_is_0_eq dvd_imp_le gr0I le_antisym less_imp_diff_less not_le)
  qed
  show ?thesis using assms w by (metis nat_le_linear)
qed

lemma store_frames_facts:
  assumes "depot_shape d" "length Frames < ring_len d"
  shows "\<exists>Pos' d'. store_frames Frames Pos d = Some (Pos', d') \<and> same_shape d d' \<and> (\<forall>t. tab_load d' t = tab_load d t)
    \<and> (\<forall>J < length Frames. ring_load d' (frame_pos d Pos J) = Some (Frames ! J))
    \<and> (\<forall>I < ring_len d. (\<forall>J < length Frames. I \<noteq> frame_pos d Pos J) \<longrightarrow> ring_load d' I = ring_load d I)"
  using assms
proof (induction Frames arbitrary: Pos d)
  case Nil
  then show ?case by (simp add: same_shape_def)
next
  case (Cons x xs)
  let ?P = "next_pos d Pos"
  note fp = frame_pos_next [OF Cons.prems(1)]
  have lt: "unat ?P < ring_len d" using frame_pos_less [OF Cons.prems(1), of Pos 0] by (simp add: fp)
  obtain d1 where d1: "ring_store (unat ?P) x d = Some d1" using ring_store_in [OF Cons.prems(1) lt] by blast
  note s1 = ring_store_shape [OF d1] and l1 = ring_store_facts(1) [OF d1] and t1 = ring_store_tab [OF d1 lt]
  note e1 = same_shapeD [OF s1]
  have sh: "depot_shape d1" "length xs < ring_len d1" using Cons.prems e1 by simp_all
  obtain Pos' d' where ih: "store_frames xs ?P d1 = Some (Pos', d')" "same_shape d1 d'" "\<forall>t. tab_load d' t = tab_load d1 t"
    "\<forall>J < length xs. ring_load d' (frame_pos d1 ?P J) = Some (xs ! J)"
    "\<forall>I < ring_len d1. (\<forall>J < length xs. I \<noteq> frame_pos d1 ?P J) \<longrightarrow> ring_load d' I = ring_load d1 I"
    using Cons.IH [OF sh, of ?P] by blast
  have fp1: "frame_pos d1 ?P J = frame_pos d Pos (Suc J)" for J
    using fp(1) by (simp add: frame_pos_def e1)
  have first: "ring_load d' (unat ?P) = Some x"
  proof -
    have "unat ?P \<noteq> frame_pos d1 ?P J" if "J < length xs" for J
      using frame_pos_inj [of 0 d "Suc J" Pos] that Cons.prems(2) unfolding fp1 fp(2) [symmetric] by auto
    then show ?thesis using ih(5) lt e1 l1 by simp
  qed
  have "ring_load d' (frame_pos d Pos J) = Some ((x # xs) ! J)" if "J < length (x # xs)" for J
    using that first ih(4) by (cases J) (simp_all add: fp(2) fp1)
  moreover have "ring_load d' I = ring_load d I" if "I < ring_len d" "\<forall>J < length (x # xs). I \<noteq> frame_pos d Pos J" for I
  proof -
    have "I \<noteq> unat ?P" using that(2) fp(2) by (metis length_Cons zero_less_Suc)
    moreover have "\<forall>J < length xs. I \<noteq> frame_pos d1 ?P J" using that(2) unfolding fp1 by auto
    ultimately show ?thesis using ih(5) that(1) e1 l1 by simp
  qed
  ultimately show ?case
    using ih(1-3) d1 t1 same_shape_trans [OF s1 ih(2)] by (auto simp: Let_def)
qed

lemma hash_frames_value:
  assumes "depot_shape d" "\<forall>J < length xs. ring_load d (frame_pos d Pos J) = Some (xs ! J)"
  shows "hash_frames (length xs) Pos H d = Some (fold add_frame xs H)"
  using assms(2)
proof (induction xs arbitrary: Pos H)
  case (Cons x xs)
  note fp = frame_pos_next [OF assms(1)]
  have "ring_load d (unat (next_pos d Pos)) = Some x" using Cons.prems fp(2) by force
  moreover have "\<forall>J < length xs. ring_load d (frame_pos d (next_pos d Pos) J) = Some (xs ! J)"
    using Cons.prems unfolding fp(1) by force
  ultimately show ?case using Cons.IH by (simp add: Let_def)
qed simp

lemma hash_frames_reads:
  assumes "depot_shape d"
  shows "\<exists>xs. length xs = n \<and> (\<forall>J < n. ring_load d (frame_pos d Pos J) = Some (xs ! J))"
proof -
  have "\<exists>V. ring_load d (frame_pos d Pos J) = Some V" for J using ring_load_in frame_pos_less assms by blast
  then obtain f where "\<And>J. ring_load d (frame_pos d Pos J) = Some (f J)" by metis
  then show ?thesis by (intro exI [of _ "map f [0 ..< n]"]) simp
qed

section \<open>Inserting and finding\<close>

lemma low33: "(0x1ffffffff :: u64) = mask 33"
  by (simp add: mask_eq_exp_minus_1)

lemma ucast_of_nat_small:
  assumes "n < 2 ^ 31"
  shows "(ucast (of_nat n :: u64) :: u32) = of_nat n" "(ucast (of_nat n :: u32) :: uptr) = of_nat n"
proof -
  have u: "unat (of_nat n :: u64) = n" "unat (of_nat n :: u32) = n" using assms by (simp_all add: unat_of_nat_small)
  show "(ucast (of_nat n :: u64) :: u32) = of_nat n"
    using assms by (intro word_unat_eq_iff [THEN iffD2]) (simp add: unat_ucast_eq u)
  show "(ucast (of_nat n :: u32) :: uptr) = of_nat n"
    by (intro word_unat_eq_iff [THEN iffD2]) (simp add: unat_ucast_up u)
qed

lemma trace_id_nonzero: "trace_id n Hash \<noteq> 0"
proof
  assume "trace_id n Hash = 0"
  moreover have "bit (trace_id n Hash) 0" unfolding trace_id_def by (simp only: bit_or_iff bit_1_iff) simp
  ultimately show False by simp
qed

lemma trace_id_facts:
  assumes "n < 2 ^ 31"
  shows "trace_id n Hash AND 0x1ffffffff = push_bit 1 (ucast Hash) OR 1"
    and "ucast (drop_bit 33 (trace_id n Hash)) = (of_nat n :: u32)"
proof -
  show "trace_id n Hash AND 0x1ffffffff = push_bit 1 (ucast Hash) OR 1"
    unfolding trace_id_def low33
    by (rule bit_word_eqI) (auto simp: bit_simps bit_1_iff simp del: push_bit_Suc One_nat_def dest: bit_imp_le_length)
  have "drop_bit 33 (trace_id n Hash) = take_bit 31 (of_nat n)"
    unfolding trace_id_def
    by (rule bit_word_eqI) (auto simp: bit_simps bit_1_iff simp del: push_bit_Suc One_nat_def dest: bit_imp_le_length)
  moreover have "take_bit 31 (of_nat n :: u64) = of_nat n"
    using assms by (simp add: take_bit_of_nat take_bit_nat_eq_self)
  ultimately show "ucast (drop_bit 33 (trace_id n Hash)) = (of_nat n :: u32)"
    by (simp add: ucast_of_nat_small [OF assms])
qed

text \<open>The frames that \<^verbatim>\<open>find\<close> leads to are read with \<^verbatim>\<open>at\<close>.\<close>

lemma depot_at_frame:
  assumes "depot_shape d" "J < ring_len d"
  shows "depot_at d (ucast (next_pos d Pos) + of_nat J) = ring_load d (frame_pos d Pos J)"
proof -
  obtain k where k: "k < 32" "ring_len d = 2 ^ k" "RingMask d = mask k" using shape_facts(4) [OF assms(1)] by blast
  have m: "(ucast (mask k :: u32) :: uptr) = mask k"
    using k(1) by (intro bit_word_eqI) (auto simp: bit_simps)
  have "(2 :: nat) ^ k < 2 ^ 32" using k(1) by (intro power_strict_increasing) simp_all
  then have J: "J < 4294967296" using assms(2) k(2) by simp
  have "unat (ucast (next_pos d Pos) :: uptr) = unat (next_pos d Pos)" by (rule unat_ucast_up) simp
  moreover have "unat (of_nat J :: uptr) = J" using J by (intro unat_of_nat_small) simp
  moreover have "unat (next_pos d Pos) < 4294967296" by (rule unat_less_32)
  ultimately have u: "unat (ucast (next_pos d Pos) :: uptr) = unat (next_pos d Pos)" "unat (of_nat J :: uptr) = J"
    and "unat (next_pos d Pos) + J < 18446744073709551616" using J by linarith+
  then have "unat (ucast (next_pos d Pos) + of_nat J :: uptr) = unat (next_pos d Pos) + J"
    using unat_add_small [of "ucast (next_pos d Pos) :: uptr" "of_nat J"] by (simp only: u) simp
  then have "unat ((ucast (next_pos d Pos) + of_nat J :: uptr) AND ucast (RingMask d)) = (unat (next_pos d Pos) + J) mod ring_len d"
    using k m by (simp add: unat_mask_and)
  also have "\<dots> = frame_pos d Pos J"
    unfolding unat_next_pos [OF assms(1)] frame_pos_def by (rule mod_add_left_eq)
  finally show ?thesis by (simp add: depot_at_def)
qed

lemma depot_find_cases:
  assumes "depot_shape d"
  shows "\<exists>r. depot_find Hash d = Some r \<and> (case r of None \<Rightarrow> True | Some (P, n) \<Rightarrow>
     \<exists>xs. length xs = unat n \<and> unat n < ring_len d \<and> (\<forall>J < unat n. depot_at d (P + of_nat J) = Some (xs ! J)) \<and> trace_hash xs = Hash)"
proof -
  obtain RPos where t: "tab_load d (Hash AND TabMask d) = Some RPos" using tab_load_in [OF assms] by blast
  show ?thesis
  proof (cases "RPos \<ge> RingSize d")
    case True
    then show ?thesis using t by (auto simp: depot_find_def)
  next
    case F1: False
    then have "unat RPos < ring_len d" by (simp add: ring_len_def word_less_nat_alt not_le)
    then obtain E where E: "ring_load d (unat RPos) = Some E" using ring_load_in [OF assms] by blast
    define n where "n = (ucast (drop_bit 33 E) :: u32)"
    obtain xs where xs: "length xs = unat n" "\<forall>J < unat n. ring_load d (frame_pos d RPos J) = Some (xs ! J)"
      using hash_frames_reads [OF assms] by blast
    have h: "hash_frames (unat n) RPos (MurMur2HashBuilder 0) d = Some (fold add_frame xs (MurMur2HashBuilder 0))"
      using hash_frames_value [OF assms, of xs] xs by simp
    have at: "depot_at d (ucast (next_pos d RPos) + of_nat J) = Some (xs ! J)" if "J < unat n" "n < RingSize d" for J
      using that xs(2) depot_at_frame [OF assms, of J RPos] by (simp add: ring_len_def word_less_nat_alt)
    have u: "unat (ucast n :: uptr) = unat n" by (rule unat_ucast_up) simp
    show ?thesis
      using t F1 E h at xs(1) u
      by (auto simp: depot_find_def Let_def n_def [symmetric] not_le ring_len_def word_less_nat_alt trace_hash_def)
  qed
qed

text \<open>A thread's view of the depot: the ring's end and the table point into the ring.\<close>

definition depot_inv :: "depot \<Rightarrow> bool" where
  "depot_inv d \<longleftrightarrow> depot_shape d \<and> unat (RingEnd d) < ring_len d
     \<and> (\<forall>x V. tab_load d (x AND TabMask d) = Some V \<longrightarrow> unat V < ring_len d)"

lemma depot_at_in: "depot_shape d \<Longrightarrow> \<exists>V. depot_at d P = Some V"
proof -
  assume s: "depot_shape d"
  obtain k where k: "k < 32" "ring_len d = 2 ^ k" "RingMask d = mask k" using shape_facts(4) [OF s] by blast
  have "(ucast (mask k :: u32) :: uptr) = mask k" using k(1) by (intro bit_word_eqI) (auto simp: bit_simps)
  then have "unat (P AND ucast (RingMask d)) < ring_len d" using k by (simp add: unat_mask_and)
  then show ?thesis unfolding depot_at_def by (rule ring_load_in [OF s])
qed

text \<open>Writing a trace that is not there yet.\<close>

definition found_at :: "depot \<Rightarrow> u64 list \<Rightarrow> bool" where
  "found_at d Frames \<longleftrightarrow> (\<exists>P. depot_find (trace_hash Frames) d = Some (Some (P, of_nat (length Frames)))
     \<and> (\<forall>J < length Frames. depot_at d (P + of_nat J) = Some (Frames ! J)))"

lemma depot_find_written:
  assumes sh: "depot_shape d" and len: "length Frames < ring_len d" and R: "unat RPos < ring_len d"
    and tab: "tab_load d (trace_hash Frames AND TabMask d) = Some RPos"
    and marker: "ring_load d (unat RPos) = Some (trace_id (length Frames) (trace_hash Frames))"
    and frames: "\<forall>J < length Frames. ring_load d (frame_pos d RPos J) = Some (Frames ! J)"
  shows "found_at d Frames"
proof -
  let ?n = "length Frames" and ?H = "trace_hash Frames"
  obtain k where k: "k < 32" "ring_len d = 2 ^ k" using shape_facts(4) [OF sh] by blast
  have "(2 :: nat) ^ k \<le> 2 ^ 31" using k(1) by (intro power_increasing) simp_all
  then have n31: "?n < 2 ^ 31" using len k(2) by simp
  have un: "unat (of_nat ?n :: u32) = ?n" using n31 by (intro unat_of_nat_small) simp
  have up: "(ucast (of_nat ?n :: u32) :: uptr) = of_nat ?n"
    by (rule ucast_of_nat_small [OF n31])
  have lt: "\<not> RPos \<ge> RingSize d" "\<not> (of_nat ?n :: u32) \<ge> RingSize d"
    using R len un by (simp_all add: ring_len_def word_le_nat_alt)
  have "hash_frames ?n RPos (MurMur2HashBuilder 0) d = Some (fold add_frame Frames (MurMur2HashBuilder 0))"
    using hash_frames_value [OF sh frames] .
  then have "depot_find ?H d = Some (Some (ucast (next_pos d RPos), of_nat ?n))"
    using tab marker lt trace_id_facts [OF n31, of ?H] un up
    by (simp add: depot_find_def Let_def trace_hash_def)
  moreover have "depot_at d (ucast (next_pos d RPos) + of_nat J) = Some (Frames ! J)" if "J < ?n" for J
    using that len frames depot_at_frame [OF sh, of J RPos] by simp
  ultimately show ?thesis by (auto simp: found_at_def)
qed

lemma depot_insert_new:
  assumes inv: "depot_inv d" and len: "length Frames < ring_len d"
    and old: "tab_load d (trace_hash Frames AND TabMask d) = Some RPos" "ring_load d (unat RPos) = Some E"
      "E \<noteq> trace_id (length Frames) (trace_hash Frames)"
  shows "\<exists>d'. depot_insert Frames d = Some (trace_hash Frames, d') \<and> depot_inv d' \<and> found_at d' Frames"
proof -
  let ?H = "trace_hash Frames" and ?R = "RingEnd d" and ?Id = "trace_id (length Frames) (trace_hash Frames)"
  let ?t = "trace_hash Frames AND TabMask d"
  have sh: "depot_shape d" and R: "unat ?R < ring_len d" using inv by (simp_all add: depot_inv_def)
  obtain d1 where d1: "tab_store ?t ?R d = Some d1" using shape_facts(5) [OF sh, of ?H] by (simp add: tab_store_def)
  note f1 = tab_store_facts [OF d1] and e1 = same_shapeD [OF f1(1)]
  have R1: "unat ?R < ring_len d1" using R e1 by simp
  obtain d2 where d2: "ring_store (unat ?R) ?Id d1 = Some d2" using ring_store_in [OF _ R1] sh e1 by auto
  note s2 = ring_store_shape [OF d2] and e2 = same_shapeD [OF s2]
  have sh2: "depot_shape d2" "length Frames < ring_len d2" using sh len e1 e2 by simp_all
  obtain P d3 where d3: "store_frames Frames ?R d2 = Some (P, d3)" "same_shape d2 d3" "\<forall>t. tab_load d3 t = tab_load d2 t"
    "\<forall>J < length Frames. ring_load d3 (frame_pos d2 ?R J) = Some (Frames ! J)"
    "\<forall>I < ring_len d2. (\<forall>J < length Frames. I \<noteq> frame_pos d2 ?R J) \<longrightarrow> ring_load d3 I = ring_load d2 I"
    using store_frames_facts [OF sh2, of ?R] by blast
  note e3 = same_shapeD [OF d3(2)]
  let ?d = "d3\<lparr>RingEnd := next_pos d3 P\<rparr>"
  have upd: "ring_len ?d = ring_len d" "depot_shape ?d" "TabMask ?d = TabMask d" "tab_load ?d = tab_load d3"
    "ring_load ?d = ring_load d3" "frame_pos ?d = frame_pos d2" "RingMask ?d = RingMask d"
    using sh e1 e2 e3 by (auto simp: ring_len_def depot_shape_def tab_load_def tab_index_def ring_load_def frame_pos_def fun_eq_iff)
  have tab: "tab_load d3 t = tab_load d1 t" for t using d3(3) ring_store_tab [OF d2 R1] by simp
  have marker: "ring_load d3 (unat ?R) = Some ?Id"
  proof -
    have "unat ?R \<noteq> frame_pos d2 ?R J" if J: "J < length Frames" for J
    proof
      let ?L = "ring_len d"
      assume "unat ?R = frame_pos d2 ?R J"
      then have "(unat ?R + 0) mod ?L = (unat ?R + (1 + J)) mod ?L"
        using R e1 e2 by (simp add: frame_pos_def)
      then have "?L dvd (unat ?R + (1 + J)) - (unat ?R + 0)" by (intro mod_eq_dvd_iff_nat [THEN iffD1]) simp_all
      then have "?L dvd 1 + J" by simp
      then show False using J len by (auto dest: dvd_imp_le)
    qed
    then show ?thesis using d3(5) R e1 e2 ring_store_facts(1) [OF d2, of "unat ?R"] by simp
  qed
  have ins: "depot_insert Frames d = Some (?H, ?d)"
    using old d1 d2 d3(1) by (simp add: depot_insert_def Let_def)
  have "unat V < ring_len d" if "tab_load d1 (x AND TabMask d) = Some V" for x V
    using that inv f1(2) f1(4) [of "x AND TabMask d"] R by (cases "x AND TabMask d = ?t") (auto simp: depot_inv_def)
  moreover have "unat (next_pos d3 P) < ring_len d"
    using unat_next_pos [of d3 P] shape_facts(1) [OF sh] sh e1 e2 e3 by simp
  ultimately have "depot_inv ?d" unfolding depot_inv_def upd by (simp add: upd tab)
  moreover have "found_at ?d Frames"
    using upd len R f1(2) tab marker d3(4) by (intro depot_find_written [where RPos = ?R]) simp_all
  ultimately show ?thesis using ins by blast
qed

text \<open>C31: A trace shorter than the ring can be found after it was inserted: \<^verbatim>\<open>insert\<close> returns its hash and
  stays inside the memory, and unless a marker with this hash and length is already in its place,
  \<^verbatim>\<open>find\<close> with the hash leads to exactly its frames. Whatever \<^verbatim>\<open>find\<close> returns, for any hash, are
  frames that have this hash.\<close>

theorem depot_insert_finds:
  assumes "depot_inv d" "length Frames < ring_len d"
  shows "\<exists>d'. depot_insert Frames d = Some (trace_hash Frames, d') \<and> depot_inv d'
    \<and> ((\<exists>P. depot_find (trace_hash Frames) d' = Some (Some (P, of_nat (length Frames)))
          \<and> (\<forall>J < length Frames. depot_at d' (P + of_nat J) = Some (Frames ! J)))
       \<or> d' = d \<and> (\<exists>RPos. tab_load d (trace_hash Frames AND TabMask d) = Some RPos
           \<and> ring_load d (unat RPos) = Some (trace_id (length Frames) (trace_hash Frames))))
    \<and> (\<forall>Hash P n. depot_find Hash d' = Some (Some (P, n)) \<longrightarrow>
         (\<exists>xs. length xs = unat n \<and> (\<forall>J < unat n. depot_at d' (P + of_nat J) = Some (xs ! J)) \<and> trace_hash xs = Hash))"
proof -
  have sh: "depot_shape d" using assms(1) by (simp add: depot_inv_def)
  obtain RPos where t: "tab_load d (trace_hash Frames AND TabMask d) = Some RPos" using tab_load_in [OF sh] by blast
  then have "unat RPos < ring_len d" using assms(1) by (auto simp: depot_inv_def)
  then obtain E where E: "ring_load d (unat RPos) = Some E" using ring_load_in [OF sh] by blast
  have find: "\<forall>Hash P n. depot_find Hash d' = Some (Some (P, n)) \<longrightarrow>
      (\<exists>xs. length xs = unat n \<and> (\<forall>J < unat n. depot_at d' (P + of_nat J) = Some (xs ! J)) \<and> trace_hash xs = Hash)"
    if "depot_inv d'" for d'
  proof (intro allI impI)
    fix Hash P n
    assume f: "depot_find Hash d' = Some (Some (P, n))"
    have "depot_shape d'" using that by (simp add: depot_inv_def)
    from depot_find_cases [OF this, of Hash] f
    show "\<exists>xs. length xs = unat n \<and> (\<forall>J < unat n. depot_at d' (P + of_nat J) = Some (xs ! J)) \<and> trace_hash xs = Hash"
      by auto
  qed
  show ?thesis
  proof (cases "E = trace_id (length Frames) (trace_hash Frames)")
    case True
    then have "depot_insert Frames d = Some (trace_hash Frames, d)" using t E by (simp add: depot_insert_def Let_def)
    then show ?thesis using assms(1) t E True find [OF assms(1)] by blast
  next
    case False
    from depot_insert_new [OF assms t E this] show ?thesis using find unfolding found_at_def by blast
  qed
qed

theorem depot_insert_finds_witness:
  "let d = depot_init 4 2 \<lparr>RingEnd = 3, RingSize = 0, RingMask = 0, TabMask = 0, DepotWords = replicate 10 0\<rparr>
   in depot_inv d \<and> (\<exists>d' P. depot_insert [0x1234, 0x5678] d = Some (trace_hash [0x1234, 0x5678], d')
        \<and> depot_find (trace_hash [0x1234, 0x5678]) d' = Some (Some (P, 2))
        \<and> depot_at d' P = Some 0x1234 \<and> depot_at d' (P + 1) = Some 0x5678)"
proof -
  let ?d = "depot_init 4 2 \<lparr>RingEnd = 3, RingSize = 0, RingMask = 0, TabMask = 0, DepotWords = replicate 10 0\<rparr>"
  have sh: "depot_shape ?d" unfolding depot_shape_def depot_init_def
    by (intro exI [of _ 2] exI [of _ 1]) (simp add: mask_eq_exp_minus_1)
  have z: "\<forall>x V. tab_load ?d (x AND TabMask ?d) = Some V \<longrightarrow> unat V < ring_len ?d"
    by (auto simp: tab_load_def depot_init_def ring_len_def nth_Cons' split: if_splits)
  have inv: "depot_inv ?d" using sh z by (simp add: depot_inv_def ring_len_def depot_init_def)
  have l: "length [0x1234, 0x5678 :: u64] < ring_len ?d" by (simp add: ring_len_def depot_init_def)
  have ne: "\<not> (\<exists>RPos. tab_load ?d (trace_hash [0x1234, 0x5678] AND TabMask ?d) = Some RPos
           \<and> ring_load ?d (unat RPos) = Some (trace_id (length [0x1234, 0x5678 :: u64]) (trace_hash [0x1234, 0x5678])))"
    using trace_id_nonzero by (auto simp: ring_load_def depot_init_def nth_Cons' split: if_splits)
  from depot_insert_finds [OF inv l] ne inv show ?thesis by (fastforce simp: Let_def)
qed

end
