(* ===== verification/ErrorInfo.thy ===== *)
theory ErrorInfo
  imports StackDepot Primary64Release Allocator Flags
begin

text \<open>
  \<^verbatim>\<open>combined.h\<close>, third part: the ring buffer of freed allocations with its stack depot, and
  \<^verbatim>\<open>getErrorInfo\<close>, with which another process explains a tag fault from copies of the depot, the
  regions, the ring buffer and the memory around the fault. The copies may hold anything, so every
  access to them is checked here, those to the copy of the regions in \<open>Primary64Release\<close>: \<open>OutsideBuffer\<close>
  is an access outside of what was given and \<open>Hangs\<close> a loop that does not end.

  The properties: a ring buffer is set up with a valid depot; \<^verbatim>\<open>findNearestBlock\<close> ends on any regions;
  \<^verbatim>\<open>getErrorInfo\<close> on any data ends and stays inside; and a use after free of the last freed chunk is
  reported.
\<close>

unbundle bit_operations_syntax

section \<open>Setting up the ring buffer\<close>

definition sizeof_AllocationRingBuffer :: uptr where "sizeof_AllocationRingBuffer = 64"
definition sizeof_Entry :: uptr where "sizeof_Entry = 32"

definition ringBufferSizeInBytes :: "u32 \<Rightarrow> uptr" where
  "ringBufferSizeInBytes RingBufferElements = sizeof_AllocationRingBuffer + ucast RingBufferElements * sizeof_Entry"

definition ringBufferElementsFromBytes :: "uptr \<Rightarrow> uptr" where
  "ringBufferElementsFromBytes Bytes =
     (if Bytes < sizeof_AllocationRingBuffer then 0 else (Bytes - sizeof_AllocationRingBuffer) div sizeof_Entry)"

definition empty_entry :: ring_entry where
  "empty_entry = \<lparr>REPtr = 0, REAllocationSize = 0, REAllocationTrace = 0, REAllocationTid = 0,
     REDeallocationTrace = 0, REDeallocationTid = 0\<rparr>"

text \<open>\<open>map_pages\<close> is the mapping of zeroed pages, which dies when it fails. The depot and its size
  are kept beside the allocator.\<close>

type_synonym depot_info = "(depot \<times> uptr) option"

definition initRingBufferMaybe ::
    "(uptr \<Rightarrow> unit result) \<Rightarrow> uptr \<Rightarrow> s32 \<Rightarrow> scudo \<Rightarrow> depot_info \<Rightarrow> (scudo \<times> depot_info) result" where
  "initRingBufferMaybe map_pages PageSize ring_buffer_size s D =
     (if RingBuffer s \<noteq> None then Inr (s, D)
      else if sint ring_buffer_size \<le> 0 then Inr (s, D)
      else
        let AllocationRingBufferSize = ring_buffer_size;
            kStacksPerRingBufferEntry = 2; kMaxU32Pow2 = 0x80000000; kFramesPerStack = 16
        in if AllocationRingBufferSize > kMaxU32Pow2 div kStacksPerRingBufferEntry then Inr (s, D)
           else
             let TabSize = ucast (roundUpPowerOfTwo (ucast (kStacksPerRingBufferEntry * AllocationRingBufferSize))) :: u32
             in if TabSize > (- 1) div kFramesPerStack then Inr (s, D)
                else
                  let RingSz = TabSize * kFramesPerStack;
                      StackDepotSize = sizeof_StackDepot + 8 * ucast RingSz + 4 * ucast TabSize;
                      zeroed = \<lparr>RingEnd = 0, RingSize = 0, RingMask = 0, TabMask = 0,
                                DepotWords = replicate (2 * unat RingSz + unat TabSize) 0\<rparr>
                  in bindE (map_pages (roundUp StackDepotSize PageSize)) (\<lambda>_.
                     bindE (map_pages (roundUp (ringBufferSizeInBytes AllocationRingBufferSize) PageSize)) (\<lambda>_.
                       Inr (s\<lparr>RingBuffer := Some \<lparr>RingPos = 0,
                                RingEntries = replicate (unat AllocationRingBufferSize) empty_entry\<rparr>\<rparr>,
                            Some (depot_init RingSz TabSize zeroed, StackDepotSize)))))"

definition setTrackAllocationStacks ::
    "(uptr \<Rightarrow> unit result) \<Rightarrow> uptr \<Rightarrow> flags \<Rightarrow> bool \<Rightarrow> scudo \<Rightarrow> depot_info \<Rightarrow> (scudo \<times> depot_info) result" where
  "setTrackAllocationStacks map_pages PageSize fl Track s D =
     (if sint (allocation_ring_buffer_size fl) \<le> 0 then Inr (s, D)
      else if Track then
        bindE (initRingBufferMaybe map_pages PageSize (allocation_ring_buffer_size fl) s D) (\<lambda>(s, D).
          Inr (set_opts (opt_set TrackAllocationStacks) s, D))
      else Inr (set_opts (opt_clear TrackAllocationStacks) s, D))"

definition unmapRingBuffer :: "scudo \<Rightarrow> depot_info \<Rightarrow> scudo \<times> depot_info" where
  "unmapRingBuffer s D = (if RingBuffer s = None then (s, D) else (s\<lparr>RingBuffer := None\<rparr>, None))"

definition getStackDepotSize :: "scudo \<Rightarrow> depot_info \<Rightarrow> uptr" where
  "getStackDepotSize s D = (if RingBuffer s = None then 0 else case D of Some (_, Size) \<Rightarrow> Size | None \<Rightarrow> 0)"

definition getRingBufferSize :: "scudo \<Rightarrow> uptr" where
  "getRingBufferSize s =
     (case RingBuffer s of
        Some rb \<Rightarrow> if RingEntries rb \<noteq> [] then ringBufferSizeInBytes (of_nat (length (RingEntries rb))) else 0
      | None \<Rightarrow> 0)"

section \<open>The data of a crash\<close>

definition inside :: "'a option \<Rightarrow> 'a dump" where
  "inside x = (case x of None \<Rightarrow> Inl OutsideBuffer | Some v \<Rightarrow> Inr v)"

datatype error_type = UNKNOWN | USE_AFTER_FREE | BUFFER_OVERFLOW | BUFFER_UNDERFLOW

record error_report =
  report_type :: error_type
  allocation_address :: uptr
  allocation_size :: uptr
  allocation_tid :: u32
  allocation_trace :: "u64 list"
  deallocation_tid :: u32
  deallocation_trace :: "u64 list"

definition MaxTraceSize :: nat where "MaxTraceSize = 64"
definition NumErrorReports :: nat where "NumErrorReports = 3"

definition empty_report :: error_report where
  "empty_report = \<lparr>report_type = UNKNOWN, allocation_address = 0, allocation_size = 0, allocation_tid = 0,
     allocation_trace = replicate MaxTraceSize 0, deallocation_tid = 0, deallocation_trace = replicate MaxTraceSize 0\<rparr>"

text \<open>The reports and \<^verbatim>\<open>NextErrorReport\<close>. A report is written only where the array has one.\<close>

type_synonym report_list = "error_report list \<times> nat"

definition add_report :: "error_report \<Rightarrow> report_list \<Rightarrow> report_list dump" where
  "add_report R = (\<lambda>(rs, n). if n < length rs then Inr (rs[n := R], n + 1) else Inl OutsideBuffer)"

text \<open>\<open>n\<close> frames are left.\<close>

fun collect_frames :: "depot \<Rightarrow> uptr \<Rightarrow> nat \<Rightarrow> nat \<Rightarrow> u64 list \<Rightarrow> u64 list dump" where
  "collect_frames d RPos 0 I Trace = Inr Trace"
| "collect_frames d RPos (Suc n) I Trace =
     bindE (inside (depot_at d (RPos + of_nat I))) (\<lambda>Frame.
       if I < length Trace then collect_frames d RPos n (I + 1) (Trace[I := Frame]) else Inl OutsideBuffer)"

definition collectTraceMaybe :: "depot \<Rightarrow> u64 list \<Rightarrow> u32 \<Rightarrow> u64 list dump" where
  "collectTraceMaybe d Trace Hash =
     bindE (inside (depot_find Hash d)) (\<lambda>r.
       case r of None \<Rightarrow> Inr Trace
       | Some (RPos, Size) \<Rightarrow> collect_frames d RPos (min (unat Size) MaxTraceSize) 0 Trace)"

section \<open>Blocks around the fault\<close>

text \<open>The memory around the fault: its bytes, one tag for each 16 of them, address and size.\<close>

record crash_memory =
  CrashBytes :: "u8 list"
  CrashTags :: "u8 list"
  MemoryAddr :: uptr
  MemorySize :: uptr

definition crash_byte :: "crash_memory \<Rightarrow> int \<Rightarrow> u8 dump" where
  "crash_byte m Off =
     (if 0 \<le> Off \<and> Off < int (length (CrashBytes m)) then Inr (CrashBytes m ! nat Off) else Inl OutsideBuffer)"

definition crash_u32 :: "crash_memory \<Rightarrow> int \<Rightarrow> u32 dump" where
  "crash_u32 m Off =
     bindE (crash_byte m Off) (\<lambda>b0. bindE (crash_byte m (Off + 1)) (\<lambda>b1.
     bindE (crash_byte m (Off + 2)) (\<lambda>b2. bindE (crash_byte m (Off + 3)) (\<lambda>b3.
       Inr (ucast b0 OR push_bit 8 (ucast b1) OR push_bit 16 (ucast b2) OR push_bit 24 (ucast b3))))))"

definition crash_u64 :: "crash_memory \<Rightarrow> int \<Rightarrow> u64 dump" where
  "crash_u64 m Off =
     bindE (crash_u32 m Off) (\<lambda>lo. bindE (crash_u32 m (Off + 4)) (\<lambda>hi. Inr (ucast lo OR push_bit 32 (ucast hi))))"

text \<open>Where the granule's data is in the bytes, and its tag.\<close>

definition GetGranule :: "crash_memory \<Rightarrow> uptr \<Rightarrow> (int \<times> u8) option dump" where
  "GetGranule m Addr =
     (if Addr < MemoryAddr m \<or> Addr + archMemoryTagGranuleSize < Addr
         \<or> Addr + archMemoryTagGranuleSize > MemoryAddr m + MemorySize m then Inr None
      else let I = unat ((Addr - MemoryAddr m) div archMemoryTagGranuleSize)
           in if I < length (CrashTags m) then Inr (Some (int (unat (Addr - MemoryAddr m)), CrashTags m ! I))
              else Inl OutsideBuffer)"

definition crash_chunk_offset :: "crash_memory \<Rightarrow> int \<Rightarrow> uptr dump" where
  "crash_chunk_offset m Off =
     bindE (crash_u32 m Off) (\<lambda>Marker.
       bindE (if Marker = BlockMarker then crash_u32 m (Off + 4) else Inr 0) (\<lambda>Offset. Inr (ucast Offset + getHeaderSize)))"

text \<open>The address of the chunk, its header, where its data is in the bytes, and its tag.\<close>

definition ReadBlock :: "crash_memory \<Rightarrow> uptr \<Rightarrow> (uptr \<times> UnpackedHeader \<times> int \<times> u8) option dump" where
  "ReadBlock m Addr =
     bindE (GetGranule m Addr) (\<lambda>g. case g of None \<Rightarrow> Inr None
     | Some (BlockOff, BlockBeginTag) \<Rightarrow>
         bindE (crash_chunk_offset m BlockOff) (\<lambda>ChunkOffset.
         let ChunkAddr = Addr + ChunkOffset
         in bindE (GetGranule m ChunkAddr) (\<lambda>g. case g of None \<Rightarrow> Inr None
            | Some (ChunkOff, Tag) \<Rightarrow>
                bindE (crash_u64 m (ChunkOff - int (unat getHeaderSize))) (\<lambda>w.
                  let Header = unpack_header w
                  in if SizeOrUnusedBytes Header = 0
                     then bindE (crash_byte m ChunkOff) (\<lambda>T. Inr (Some (ChunkAddr, Header, ChunkOff, T)))
                     else Inr (Some (ChunkAddr, Header, ChunkOff, Tag))))))"

text \<open>Whether the reports are full, and the reports.\<close>

definition CheckOOB ::
    "crash_memory \<Rightarrow> depot option \<Rightarrow> BlockInfo \<Rightarrow> uptr \<Rightarrow> uptr \<Rightarrow> report_list \<Rightarrow> (bool \<times> report_list) dump" where
  "CheckOOB m Depot Info FaultAddr BlockAddr st =
     (if BlockAddr < RegionBegin Info \<or> BlockAddr \<ge> RegionEnd Info then Inr (False, st)
      else bindE (ReadBlock m BlockAddr) (\<lambda>b. case b of None \<Rightarrow> Inr (False, st)
        | Some (ChunkAddr, Header, Data, Tag) \<Rightarrow>
            if HState Header \<noteq> State_code Allocated \<or> Tag \<noteq> ucast (extractTag FaultAddr) then Inr (False, st)
            else
              bindE (case Depot of None \<Rightarrow> Inr (replicate MaxTraceSize 0)
                     | Some d \<Rightarrow> bindE (crash_u32 m (Data - 8)) (collectTraceMaybe d (replicate MaxTraceSize 0))) (\<lambda>Trace.
              bindE (crash_u32 m (Data - 4)) (\<lambda>Tid.
              bindE (add_report (empty_report\<lparr>
                  report_type := (if untagPointer FaultAddr < ChunkAddr then BUFFER_UNDERFLOW else BUFFER_OVERFLOW),
                  allocation_address := ChunkAddr, allocation_size := ucast (SizeOrUnusedBytes Header),
                  allocation_trace := Trace, allocation_tid := Tid\<rparr>) st) (\<lambda>st.
                Inr (snd st = NumErrorReports, st))))))"

fun check_blocks ::
    "crash_memory \<Rightarrow> depot option \<Rightarrow> BlockInfo \<Rightarrow> uptr \<Rightarrow> uptr list \<Rightarrow> report_list \<Rightarrow> report_list dump" where
  "check_blocks m Depot Info FaultAddr [] st = Inr st"
| "check_blocks m Depot Info FaultAddr (B # Bs) st =
     bindE (CheckOOB m Depot Info FaultAddr B st) (\<lambda>(full, st).
       if full then Inr st else check_blocks m Depot Info FaultAddr Bs st)"

text \<open>The blocks in the order of the loop.\<close>

definition blocks_around :: "BlockInfo \<Rightarrow> nat \<Rightarrow> nat \<Rightarrow> uptr list" where
  "blocks_around Info MinDistance MaxDistance =
     (if MinDistance = 0 then [BlockBegin Info] else [])
     @ concat (map (\<lambda>I. [BlockBegin Info + of_nat I * BlockSize Info, BlockBegin Info - of_nat I * BlockSize Info])
                   [max MinDistance 1 ..< MaxDistance])"

definition getInlineErrorInfo ::
    "cconfig \<Rightarrow> crash_memory \<Rightarrow> depot option \<Rightarrow> region list \<Rightarrow> uptr \<Rightarrow> nat \<Rightarrow> nat \<Rightarrow> report_list \<Rightarrow> report_list dump" where
  "getInlineErrorInfo cfg m Depot RegionArray FaultAddr MinDistance MaxDistance st =
     bindE (findNearestBlock (CPrimary cfg) RegionArray (untagPointer FaultAddr)) (\<lambda>Info.
       if snd st = NumErrorReports then Inr st
       else check_blocks m Depot Info FaultAddr (blocks_around Info MinDistance MaxDistance) st)"

section \<open>The ring buffer\<close>

definition in_entry :: "uptr \<Rightarrow> uptr \<Rightarrow> report_list \<Rightarrow> ring_entry \<Rightarrow> bool" where
  "in_entry PageSize FaultAddr st e =
     (let EntryPtr = REPtr e; EntrySize = REAllocationSize e
      in EntryPtr \<noteq> 0 \<and>
         (if REDeallocationTid e \<noteq> 0 then \<not> (FaultAddr < EntryPtr \<or> FaultAddr \<ge> EntryPtr + EntrySize)
          else \<not> (FaultAddr < EntryPtr - PageSize \<or> FaultAddr \<ge> EntryPtr + EntrySize + PageSize)
               \<and> (\<forall>R \<in> set (take (snd st) (fst st)). allocation_address R \<noteq> untagPointer EntryPtr)))"

definition entry_report :: "depot \<Rightarrow> uptr \<Rightarrow> ring_entry \<Rightarrow> report_list \<Rightarrow> report_list dump" where
  "entry_report d FaultAddr e st =
     bindE (collectTraceMaybe d (replicate MaxTraceSize 0) (REAllocationTrace e)) (\<lambda>ATrace.
     bindE (collectTraceMaybe d (replicate MaxTraceSize 0) (REDeallocationTrace e)) (\<lambda>DTrace.
       add_report \<lparr>report_type = (if REDeallocationTid e \<noteq> 0 then USE_AFTER_FREE
                                  else if FaultAddr < REPtr e then BUFFER_UNDERFLOW else BUFFER_OVERFLOW),
         allocation_address = untagPointer (REPtr e), allocation_size = REAllocationSize e,
         allocation_tid = REAllocationTid e, allocation_trace = ATrace,
         deallocation_tid = REDeallocationTid e, deallocation_trace = DTrace\<rparr> st))"

text \<open>\<open>n\<close> entries are left; \<open>I\<close> is the loop variable.\<close>

fun ring_loop ::
    "depot \<Rightarrow> uptr \<Rightarrow> uptr \<Rightarrow> ring_entry list \<Rightarrow> uptr \<Rightarrow> nat \<Rightarrow> uptr \<Rightarrow> report_list \<Rightarrow> report_list dump" where
  "ring_loop d PageSize FaultAddr es Elements 0 I st = Inr st"
| "ring_loop d PageSize FaultAddr es Elements (Suc n) I st =
     (if snd st = NumErrorReports then Inr st
      else if unat (I mod Elements) < length es then
        let e = es ! unat (I mod Elements)
        in bindE (if in_entry PageSize FaultAddr st e then entry_report d FaultAddr e st else Inr st)
             (ring_loop d PageSize FaultAddr es Elements n (I - 1))
      else Inl OutsideBuffer)"

definition getRingBufferErrorInfo ::
    "uptr \<Rightarrow> depot option \<Rightarrow> ring_buffer option \<Rightarrow> uptr \<Rightarrow> uptr \<Rightarrow> report_list \<Rightarrow> report_list dump" where
  "getRingBufferErrorInfo PageSize Depot RB RingBufferSize FaultAddr st =
     (let Elements = ringBufferElementsFromBytes RingBufferSize
      in case (RB, Depot) of
           (Some rb, Some d) \<Rightarrow>
             if Elements = 0 then Inr st
             else ring_loop d PageSize FaultAddr (RingEntries rb) Elements (unat Elements) (RingPos rb - 1) st
         | _ \<Rightarrow> Inr st)"

definition getErrorInfo ::
    "cconfig \<Rightarrow> uptr \<Rightarrow> uptr \<Rightarrow> depot option \<Rightarrow> uptr \<Rightarrow> region list \<Rightarrow> ring_buffer option \<Rightarrow> uptr \<Rightarrow> crash_memory
      \<Rightarrow> error_report list dump" where
  "getErrorInfo cfg PageSize FaultAddr Depot DepotSize RegionArray RB RingBufferSize m =
     (let none = replicate NumErrorReports empty_report
      in if \<not> tagging_built cfg \<or> MemoryAddr m + MemorySize m < MemoryAddr m then Inr none
         else if Depot \<noteq> None \<and> (DepotSize < sizeof_StackDepot \<or> \<not> depot_isValid DepotSize (the Depot)) then Inr none
         else
           let inline = (\<lambda>lo hi st. if extractTag FaultAddr \<noteq> 0
                           then getInlineErrorInfo cfg m Depot RegionArray FaultAddr lo hi st else Inr st)
           in bindE (inline 0 2 (none, 0)) (\<lambda>st.
              bindE (getRingBufferErrorInfo PageSize Depot RB RingBufferSize FaultAddr st) (\<lambda>st.
              bindE (inline 2 16 st) (\<lambda>st. Inr (fst st)))))"

end
