(* ===== verification/ErrorSafe.thy ===== *)
theory ErrorSafe
  imports ErrorInfo AllocatorSafe
begin

text \<open>
  Proofs about \<open>ErrorInfo\<close>: the crash handler on arbitrary data ends and reads and writes only what it was
  given; a use after free of the last freed chunk is reported; a new ring buffer has a valid depot.
\<close>

unbundle bit_operations_syntax

lemma add64: "unat x + unat y < 18446744073709551616 \<Longrightarrow> unat (x + y) = unat x + unat y" for x y :: uptr
  by (rule unat_add_small) simp

lemma wrap64:
  fixes x y :: uptr
  assumes "18446744073709551616 \<le> unat x + unat y"
  shows "unat (x + y) = unat x + unat y - 18446744073709551616"
proof -
  have "unat x + unat y - 18446744073709551616 < 18446744073709551616"
    using unat_less_64 [of x] unat_less_64 [of y] by linarith
  then have "(unat x + unat y) mod 18446744073709551616 = unat x + unat y - 18446744073709551616"
    using assms by (simp only: le_mod_geq mod_less)
  then show ?thesis by (simp add: unat_word_ariths)
qed

section \<open>The nearest block\<close>

lemma move_up_ends:
  assumes "0 < unat BSize" "unat RBegin + unat BSize < 2 ^ 64"
  shows "\<exists>y. move_up RBegin BSize B = Some y"
proof (induction "unat RBegin - unat B" arbitrary: B rule: less_induct)
  case less
  show ?case
  proof (cases "B < RBegin")
    case True
    then have l: "unat B < unat RBegin" by (simp add: word_less_nat_alt)
    then have "unat (B + BSize) = unat B + unat BSize" using assms(2) by (intro unat_add_small) simp
    then have "unat RBegin - unat (B + BSize) < unat RBegin - unat B" using assms(1) l by simp
    from less [OF this] show ?thesis using True by (subst move_up.simps) simp
  qed (subst move_up.simps, simp)
qed

lemma move_down_ends:
  assumes "0 < unat BSize" "unat BSize \<le> unat REnd"
  shows "\<exists>y. move_down REnd BSize B = Some y"
proof (induction "unat B" arbitrary: B rule: less_induct)
  case less
  show ?case
  proof (cases "REnd < B + BSize")
    case True
    have nw: "unat B + unat BSize < 18446744073709551616"
    proof (rule ccontr)
      assume "\<not> ?thesis"
      then have w: "18446744073709551616 \<le> unat B + unat BSize" by simp
      have "unat (B + BSize) = unat B + unat BSize - 18446744073709551616" by (rule wrap64 [OF w])
      then have "unat (B + BSize) < unat BSize" using unat_less_64 [of B] w by linarith
      then show False using True assms(2) by (simp add: word_less_nat_alt)
    qed
    show ?thesis
    proof (cases "unat B < unat BSize")
      case below: True
      have "\<not> REnd < B - BSize + BSize" using below assms(2) by (simp add: word_less_nat_alt)
      then show ?thesis using True by (subst move_down.simps, subst move_down.simps) simp
    next
      case False
      then have "unat (B - BSize) = unat B - unat BSize" by (simp add: unat_sub word_le_nat_alt)
      then have "unat (B - BSize) < unat B" using False assms(1) by simp
      from less [OF this] show ?thesis using True by (subst move_down.simps) simp
    qed
  qed (subst move_down.simps, simp)
qed

lemma nearest_region_result:
  assumes "\<forall>I \<in> set Is. unat I < length rs"
  shows "\<exists>D C. nearest_region cfg rs Ptr Is acc = Inr (D, C)
    \<and> ((D, C) = acc \<or> C \<in> set Is \<and> region_distance cfg C Ptr (rs ! unat C) = Some D)"
  using assms
proof (induction Is arbitrary: acc)
  case Nil
  then show ?case by (cases acc) simp
next
  case (Cons I Is)
  obtain M K where acc: "acc = (M, K)" by (cases acc)
  show ?case
    using Cons.IH [of "case region_distance cfg I Ptr (rs ! unat I) of None \<Rightarrow> (M, K)
      | Some d \<Rightarrow> if d < M then (d, I) else (M, K)"] Cons.prems
    by (auto simp: acc region_at_def split: option.splits if_splits)
qed

lemma region_distance_room:
  assumes "region_distance cfg I Ptr r = Some D"
  shows "unat (RegionBeg r) + unat (getSizeByClassId (PSizeMap cfg) I) \<le> unat (RegionBeg r + AllocatedUser r)"
proof -
  let ?b = "RegionBeg r" and ?e = "RegionBeg r + AllocatedUser r" and ?s = "getSizeByClassId (PSizeMap cfg) I"
  have "\<not> ?b > ?e \<and> \<not> ?e - ?b < ?s"
    using assms unfolding region_distance_def Let_def by (simp only: de_Morgan_disj option.distinct if_False split: if_splits) simp_all
  then have c: "?b \<le> ?e" "?s \<le> ?e - ?b" by (simp_all only: not_less)
  then have "unat ?b \<le> unat ?e" "unat ?s \<le> unat ?e - unat ?b"
    using unat_sub [OF c(1)] by (simp_all only: word_le_nat_alt)
  then show ?thesis by linarith
qed

lemma findNearestBlock_ends:
  assumes "valid_config (PSizeMap cfg)" "unat (NumClasses (PSizeMap cfg)) \<le> length rs"
  shows "\<exists>Info. findNearestBlock cfg rs Ptr = Inr Info"
proof -
  let ?Is = "filter (\<lambda>I. I \<noteq> BatchClassId) (map of_nat [0 ..< unat (NumClasses (PSizeMap cfg))]) :: uptr list"
  have "unat I < length rs" if I: "I \<in> set ?Is" for I
  proof -
    obtain j where j: "I = of_nat j" "j < unat (NumClasses (PSizeMap cfg))" using I by auto
    moreover have "j < 18446744073709551616" using j(2) unat_less_64 [of "NumClasses (PSizeMap cfg)"] by linarith
    ultimately show ?thesis using assms(2) by (simp add: unat_of_nat_small)
  qed
  then have inside: "\<forall>I \<in> set ?Is. unat I < length rs" by blast
  obtain D C where n: "nearest_region cfg rs Ptr ?Is (- 1, 0) = Inr (D, C)"
    and res: "(D, C) = (- 1, 0) \<or> C \<in> set ?Is \<and> region_distance cfg C Ptr (rs ! unat C) = Some D"
    using nearest_region_result [OF inside] by metis
  show ?thesis
  proof (cases "D \<le> 8192")
    case True
    moreover have "\<not> (- 1 :: uptr) \<le> 8192" by code_simp
    ultimately have "(D, C) \<noteq> (- 1, 0)" by auto
    then have c: "C \<in> set ?Is" "region_distance cfg C Ptr (rs ! unat C) = Some D"
      using res by auto
    have at: "region_at rs C = Inr (rs ! unat C)" using inside c(1) by (simp add: region_at_def)
    obtain j where j: "C = of_nat j" "j < unat (NumClasses (PSizeMap cfg))" "C \<noteq> 0" using c(1) by (auto simp: BatchClassId_def)
    have "j < 18446744073709551616" using j(2) unat_less_64 [of "NumClasses (PSizeMap cfg)"] by linarith
    then have "unat C = j" using j(1) by (simp add: unat_of_nat_small)
    then have C: "unat C < num_classes (PSizeMap cfg)" "0 < unat C"
      using j(2,3) unat_NumClasses [OF assms(1)] unat_gt_0 [of C] by auto
    let ?S = "getSizeByClassId (PSizeMap cfg) C"
    have S: "0 < unat ?S"
      using unat_getSizeByClassId [OF assms(1) C(1)] class_size_mono [OF assms(1) C(2)] by simp
    note room = region_distance_room [OF c(2)]
    have "unat (RegionBeg (rs ! unat C)) + unat ?S < 18446744073709551616"
      using room unat_less_64 [of "RegionBeg (rs ! unat C) + AllocatedUser (rs ! unat C)"] by linarith
    then have "unat (RegionBeg (rs ! unat C)) + unat ?S < 2 ^ 64" by simp
    note up = move_up_ends [OF S this] and down = move_down_ends [OF S]
    have "\<exists>y. bindE (ends (move_up (RegionBeg (rs ! unat C)) ?S B))
        (\<lambda>B. bindE (ends (move_down (RegionBeg (rs ! unat C) + AllocatedUser (rs ! unat C)) ?S B))
          (\<lambda>B. Inr (f B))) = Inr y" for B and f :: "uptr \<Rightarrow> BlockInfo"
    proof -
      obtain y where y: "move_up (RegionBeg (rs ! unat C)) ?S B = Some y" using up [of B] by blast
      have "unat ?S \<le> unat (RegionBeg (rs ! unat C) + AllocatedUser (rs ! unat C))" using room by linarith
      from down [OF this, of y] show ?thesis using y by (auto simp: ends_def)
    qed
    then show ?thesis unfolding findNearestBlock_def n Let_def prod.case bindE_simps using True at by simp
  next
    case False
    then show ?thesis unfolding findNearestBlock_def n Let_def prod.case bindE_simps by simp
  qed
qed

section \<open>Reading the crash data\<close>

text \<open>What the handler is given: as many bytes and tags as it is told, and no address beyond the end.\<close>

definition crash_given :: "crash_memory \<Rightarrow> bool" where
  "crash_given m \<longleftrightarrow> length (CrashBytes m) = unat (MemorySize m) \<and> length (CrashTags m) = unat (MemorySize m) div 16
     \<and> unat (MemorySize m) < 2 ^ 63"

definition no_wrap :: "crash_memory \<Rightarrow> bool" where
  "no_wrap m \<longleftrightarrow> \<not> MemoryAddr m + MemorySize m < MemoryAddr m"

lemma no_wrap_sum:
  assumes "no_wrap m"
  shows "unat (MemoryAddr m + MemorySize m) = unat (MemoryAddr m) + unat (MemorySize m)"
  using assms unfolding no_wrap_def not_less by (metis add.commute unat_plus_simple)

lemma granule_facts:
  assumes "crash_given m" "no_wrap m"
  shows "\<exists>g. GetGranule m Addr = Inr g \<and> (\<forall>Off Tag. g = Some (Off, Tag) \<longrightarrow>
     Off = int (unat Addr - unat (MemoryAddr m)) \<and> unat (MemoryAddr m) \<le> unat Addr
     \<and> unat Addr + 16 \<le> unat (MemoryAddr m) + unat (MemorySize m))"
proof (cases "Addr < MemoryAddr m \<or> Addr + 16 < Addr \<or> Addr + 16 > MemoryAddr m + MemorySize m")
  case True
  then show ?thesis by (simp add: GetGranule_def archMemoryTagGranuleSize_def)
next
  case False
  then have c: "MemoryAddr m \<le> Addr" "Addr \<le> Addr + 16" "Addr + 16 \<le> MemoryAddr m + MemorySize m" by auto
  have u: "unat (Addr + 16) = unat Addr + 16" using unat_plus_simple [THEN iffD1, OF c(2)] by simp
  have d: "unat (Addr - MemoryAddr m) = unat Addr - unat (MemoryAddr m)" using c(1) by (rule unat_sub)
  have le: "unat (MemoryAddr m) \<le> unat Addr" "unat Addr + 16 \<le> unat (MemoryAddr m) + unat (MemorySize m)"
    using c(1,3) no_wrap_sum [OF assms(2)] u by (simp_all add: word_le_nat_alt)
  have "unat ((Addr - MemoryAddr m) div 16) = (unat Addr - unat (MemoryAddr m)) div 16" by (simp add: unat_div d)
  also have "\<dots> < unat (MemorySize m) div 16" using le by linarith
  finally show ?thesis
    using False assms(1) d le by (simp add: GetGranule_def archMemoryTagGranuleSize_def crash_given_def)
qed

lemma crash_byte_in: "0 \<le> Off \<Longrightarrow> Off < int (length (CrashBytes m)) \<Longrightarrow> \<exists>b. crash_byte m Off = Inr b"
  by (simp add: crash_byte_def)

lemma crash_u32_in:
  assumes "0 \<le> Off" "Off + 4 \<le> int (length (CrashBytes m))"
  shows "\<exists>v. crash_u32 m Off = Inr v"
  using assms by (simp add: crash_u32_def crash_byte_def)

lemma crash_u64_in:
  assumes "0 \<le> Off" "Off + 8 \<le> int (length (CrashBytes m))"
  shows "\<exists>v. crash_u64 m Off = Inr v"
  using assms crash_u32_in [of Off m] crash_u32_in [of "Off + 4" m] by (auto simp: crash_u64_def)

text \<open>A block whose chunk lies in the memory: its data starts behind a header.\<close>

lemma ReadBlock_inside:
  assumes "crash_given m" "no_wrap m"
  shows "\<exists>b. ReadBlock m Addr = Inr b \<and> (\<forall>C H Data T. b = Some (C, H, Data, T) \<longrightarrow>
     16 \<le> Data \<and> Data + 16 \<le> int (length (CrashBytes m)))"
proof -
  have len: "length (CrashBytes m) = unat (MemorySize m)" using assms(1) by (simp add: crash_given_def)
  obtain g where g: "GetGranule m Addr = Inr g" "\<And>Off Tag. g = Some (Off, Tag) \<Longrightarrow>
     Off = int (unat Addr - unat (MemoryAddr m)) \<and> unat (MemoryAddr m) \<le> unat Addr
     \<and> unat Addr + 16 \<le> unat (MemoryAddr m) + unat (MemorySize m)"
    using granule_facts [OF assms] by blast
  show ?thesis
  proof (cases g)
    case None
    then show ?thesis by (simp add: ReadBlock_def g(1))
  next
    case (Some p)
    obtain Off Tag where p: "p = (Off, Tag)" by (cases p)
    note G = g(2) [OF Some [unfolded p]]
    have rd: "0 \<le> Off" "Off + 8 \<le> int (length (CrashBytes m))" using G len by linarith+
    obtain o' :: u32 where o': "crash_chunk_offset m Off = Inr (ucast o' + getHeaderSize)"
    proof -
      obtain v va where "crash_u32 m Off = Inr v" "crash_u32 m (Off + 4) = Inr va"
        using crash_u32_in [of Off m] crash_u32_in [of "Off + 4" m] rd by auto
      then show thesis using that [of "if v = BlockMarker then va else 0"] by (simp add: crash_chunk_offset_def)
    qed
    let ?C = "Addr + (ucast o' + getHeaderSize)"
    obtain h where h: "GetGranule m ?C = Inr h" "\<And>Off Tag. h = Some (Off, Tag) \<Longrightarrow>
       Off = int (unat ?C - unat (MemoryAddr m)) \<and> unat (MemoryAddr m) \<le> unat ?C
       \<and> unat ?C + 16 \<le> unat (MemoryAddr m) + unat (MemorySize m)"
      using granule_facts [OF assms, of ?C] by blast
    show ?thesis
    proof (cases h)
      case None
      then show ?thesis using Some by (simp add: ReadBlock_def g(1) p o' h(1))
    next
      case (Some q)
      obtain D T where q: "q = (D, T)" by (cases q)
      note H = h(2) [OF Some [unfolded q]]
      have C: "unat Addr + 16 \<le> unat ?C"
      proof -
        have "unat (ucast o' :: uptr) = unat o'" by (rule unat_ucast_up) simp
        moreover have o: "unat o' < 4294967296" by (rule unat_less_32)
        moreover have "unat (16 :: uptr) = 16" by simp
        ultimately have off: "unat (ucast o' + 16 :: uptr) = unat o' + 16"
          using add64 [of "ucast o' :: uptr" 16] by linarith
        have "unat Addr + (unat o' + 16) < 18446744073709551616"
        proof (rule ccontr)
          assume nw: "\<not> ?thesis"
          then have "unat ?C = unat Addr + (unat o' + 16) - 18446744073709551616"
            using wrap64 [of Addr "ucast o' + 16"] off by (simp add: getHeaderSize_16)
          moreover have "unat (MemorySize m) < 9223372036854775808" using assms(1) by (simp add: crash_given_def)
          ultimately show False using H G o nw unat_less_64 [of Addr] by linarith
        qed
        then show ?thesis using add64 [of Addr "ucast o' + 16 :: uptr"] off by (simp add: getHeaderSize_16)
      qed
      have D: "16 \<le> D" "D + 16 \<le> int (length (CrashBytes m))" using H G C len by linarith+
      obtain w where w: "crash_u64 m (D - 16) = Inr w" using crash_u64_in [of "D - 16" m] D by auto
      obtain b where b: "crash_byte m D = Inr b" using crash_byte_in [of D m] D by auto
      have u: "int (unat getHeaderSize) = 16" by (simp add: getHeaderSize_16)
      show ?thesis
        unfolding ReadBlock_def g(1) \<open>g = Some p\<close> p bindE_simps option.case prod.case o' Let_def h(1) Some q u w b
        using D by simp
    qed
  qed
qed

section \<open>The reports stay in their array\<close>

lemma collect_frames_ends:
  assumes "depot_shape d" "I + n \<le> length T"
  shows "\<exists>T'. collect_frames d P n I T = Inr T' \<and> length T' = length T"
  using assms(2)
proof (induction n arbitrary: I T)
  case (Suc n)
  obtain V where "depot_at d (P + of_nat I) = Some V" using depot_at_in [OF assms(1)] by blast
  then show ?case using Suc.IH [of "I + 1" "T[I := V]"] Suc.prems by (simp add: inside_def)
qed simp

lemma collectTraceMaybe_ends:
  assumes "depot_shape d"
  shows "\<exists>T. collectTraceMaybe d (replicate MaxTraceSize 0) Hash = Inr T"
proof -
  obtain r where r: "depot_find Hash d = Some r" using depot_find_cases [OF assms] by blast
  show ?thesis
  proof (cases r)
    case None
    then show ?thesis by (simp add: collectTraceMaybe_def r inside_def)
  next
    case (Some p)
    obtain P S where p: "p = (P, S)" by (cases p)
    show ?thesis
      using collect_frames_ends [OF assms, of 0 "min (unat S) MaxTraceSize" "replicate MaxTraceSize 0" P] Some
      by (auto simp: collectTraceMaybe_def r inside_def p)
  qed
qed

definition reports_ok :: "report_list \<Rightarrow> bool" where
  "reports_ok st \<longleftrightarrow> length (fst st) = NumErrorReports \<and> snd st \<le> NumErrorReports"

definition keeps_reports :: "report_list \<Rightarrow> report_list dump \<Rightarrow> bool" where
  "keeps_reports st r \<longleftrightarrow> (\<exists>st'. r = Inr st' \<and> reports_ok st' \<and> take (snd st) (fst st') = take (snd st) (fst st)
     \<and> snd st \<le> snd st')"

lemma keeps_refl: "reports_ok st \<Longrightarrow> keeps_reports st (Inr st)"
  by (simp add: keeps_reports_def)

lemma keeps_trans:
  assumes "keeps_reports st r" "\<And>st'. r = Inr st' \<Longrightarrow> reports_ok st' \<Longrightarrow> keeps_reports st' (f st')"
  shows "keeps_reports st (bindE r f)"
proof -
  obtain s1 where s1: "r = Inr s1" "reports_ok s1" "take (snd st) (fst s1) = take (snd st) (fst st)" "snd st \<le> snd s1"
    using assms(1) by (auto simp: keeps_reports_def)
  obtain s2 where s2: "f s1 = Inr s2" "reports_ok s2" "take (snd s1) (fst s2) = take (snd s1) (fst s1)" "snd s1 \<le> snd s2"
    using assms(2) [OF s1(1,2)] by (auto simp: keeps_reports_def)
  have "take (snd st) (fst s2) = take (snd st) (take (snd s1) (fst s2))" using s1(4) by (simp add: min_absorb1)
  also have "\<dots> = take (snd st) (fst st)" using s1(3,4) s2(3) by (simp add: min_absorb1)
  finally show ?thesis using s1 s2 by (auto simp: keeps_reports_def)
qed

lemma add_report_keeps:
  assumes "reports_ok st" "snd st < NumErrorReports"
  shows "keeps_reports st (add_report R st)" "add_report R st = Inr ((fst st)[snd st := R], snd st + 1)"
  using assms by (auto simp: keeps_reports_def add_report_def reports_ok_def split: prod.splits)

lemma ex_Not: "Ex Not"
  by (rule exI [of _ False]) simp

lemma CheckOOB_keeps:
  assumes "crash_given m" "no_wrap m" "\<forall>d. Depot = Some d \<longrightarrow> depot_shape d" "reports_ok st" "snd st < NumErrorReports"
  shows "\<exists>full st'. CheckOOB m Depot Info FaultAddr B st = Inr (full, st') \<and> keeps_reports st (Inr st')
     \<and> (full \<or> snd st' < NumErrorReports)"
proof -
  obtain b where b: "ReadBlock m B = Inr b" "\<And>C H D T. b = Some (C, H, D, T) \<Longrightarrow>
      16 \<le> D \<and> D + 16 \<le> int (length (CrashBytes m))"
    using ReadBlock_inside [OF assms(1,2), of B] by blast
  show ?thesis
  proof (cases b)
    case None
    then show ?thesis using keeps_refl [OF assms(4)] assms(5) b(1)
      by (intro exI [of _ False] exI [of _ st]) (simp add: CheckOOB_def)
  next
    case (Some q)
    obtain C H D T where q: "b = Some (C, H, D, T)" using Some by (cases q) auto
    note D = b(2) [OF q]
    obtain Tid where tid: "crash_u32 m (D - 4) = Inr Tid" using crash_u32_in [of "D - 4" m] D by auto
    obtain h where h: "crash_u32 m (D - 8) = Inr h" using crash_u32_in [of "D - 8" m] D by auto
    have "\<exists>Tr. (case Depot of None \<Rightarrow> Inr (replicate MaxTraceSize 0)
        | Some d \<Rightarrow> bindE (crash_u32 m (D - 8)) (collectTraceMaybe d (replicate MaxTraceSize 0))) = Inr Tr"
      using assms(3) collectTraceMaybe_ends h by (cases Depot) auto
    then obtain Tr where tr: "(case Depot of None \<Rightarrow> Inr (replicate MaxTraceSize 0)
        | Some d \<Rightarrow> bindE (crash_u32 m (D - 8)) (collectTraceMaybe d (replicate MaxTraceSize 0))) = Inr Tr" ..
    note ar = add_report_keeps [OF assms(4,5)]
    have n: "snd st + 1 = NumErrorReports \<or> snd st + 1 < NumErrorReports" using assms(5) by linarith
    show ?thesis
      unfolding CheckOOB_def b(1) q bindE_simps option.case prod.case tr tid ar(2)
      using n ar(1) [unfolded ar(2)] assms(5) keeps_refl [OF assms(4)] by (simp add: ex_Not del: split_paired_Ex)
  qed
qed

lemma check_blocks_keeps:
  assumes "crash_given m" "no_wrap m" "\<forall>d. Depot = Some d \<longrightarrow> depot_shape d" "reports_ok st" "snd st < NumErrorReports"
  shows "keeps_reports st (check_blocks m Depot Info FaultAddr Bs st)"
  using assms(4,5)
proof (induction Bs arbitrary: st)
  case Nil
  then show ?case by (simp add: keeps_refl)
next
  case (Cons B Bs)
  obtain full s1 where s1: "CheckOOB m Depot Info FaultAddr B st = Inr (full, s1)" "keeps_reports st (Inr s1)"
    "full \<or> snd s1 < NumErrorReports" using CheckOOB_keeps [OF assms(1-3) Cons.prems] by blast
  have "keeps_reports s1 (if full then Inr s1 else check_blocks m Depot Info FaultAddr Bs s1)" if "reports_ok s1"
    using Cons.IH [OF that] s1(3) keeps_refl [OF that] by auto
  from keeps_trans [OF s1(2), of "\<lambda>st. if full then Inr st else check_blocks m Depot Info FaultAddr Bs st"] this
  show ?case using s1(1) by simp
qed

lemma ring_loop_keeps:
  assumes "depot_shape d" "0 < unat Elements" "unat Elements \<le> length es" "reports_ok st"
  shows "keeps_reports st (ring_loop d PageSize FaultAddr es Elements n I st)"
  using assms(4)
proof (induction n arbitrary: I st)
  case 0
  then show ?case by (simp add: keeps_refl)
next
  case (Suc n)
  have i: "unat (I mod Elements) < length es"
    using mod_less_divisor [OF assms(2), of "unat I"] assms(3) by (simp only: unat_mod)
  let ?e = "es ! unat (I mod Elements)"
  have "keeps_reports st (if in_entry PageSize FaultAddr st ?e then entry_report d FaultAddr ?e st else Inr st)"
    if n: "snd st \<noteq> NumErrorReports"
  proof -
    have "snd st < NumErrorReports" using n Suc.prems by (simp add: reports_ok_def)
    moreover obtain T1 T2 where "collectTraceMaybe d (replicate MaxTraceSize 0) (REAllocationTrace ?e) = Inr T1"
      "collectTraceMaybe d (replicate MaxTraceSize 0) (REDeallocationTrace ?e) = Inr T2"
      using collectTraceMaybe_ends [OF assms(1)] by metis
    ultimately show ?thesis using add_report_keeps [OF Suc.prems] keeps_refl [OF Suc.prems] by (simp add: entry_report_def)
  qed
  from keeps_trans [OF this, of "ring_loop d PageSize FaultAddr es Elements n (I - 1)"] Suc.IH
  show ?case using i keeps_refl [OF Suc.prems] by (simp add: Let_def)
qed

lemma getInlineErrorInfo_keeps:
  assumes "valid_config (PSizeMap (CPrimary cfg))" "crash_given m" "no_wrap m"
    "\<forall>d. Depot = Some d \<longrightarrow> depot_shape d" "reports_ok st"
    "unat (NumClasses (PSizeMap (CPrimary cfg))) \<le> length RegionArray"
  shows "keeps_reports st (getInlineErrorInfo cfg m Depot RegionArray FaultAddr lo hi st)"
proof -
  obtain Info where i: "findNearestBlock (CPrimary cfg) RegionArray (untagPointer FaultAddr) = Inr Info"
    using findNearestBlock_ends [OF assms(1,6)] by blast
  show ?thesis
  proof (cases "snd st = NumErrorReports")
    case True
    then show ?thesis by (simp add: getInlineErrorInfo_def i keeps_refl assms(5))
  next
    case False
    then have "snd st < NumErrorReports" using assms(5) by (simp add: reports_ok_def)
    from check_blocks_keeps [OF assms(2-5) this] False show ?thesis by (simp add: getInlineErrorInfo_def i)
  qed
qed

lemma getRingBufferErrorInfo_keeps:
  assumes "\<forall>d. Depot = Some d \<longrightarrow> depot_shape d" "reports_ok st"
    "\<forall>rb. RB = Some rb \<longrightarrow> unat (ringBufferElementsFromBytes Size) \<le> length (RingEntries rb)"
  shows "keeps_reports st (getRingBufferErrorInfo PageSize Depot RB Size FaultAddr st)"
proof (cases "RB = None \<or> Depot = None \<or> ringBufferElementsFromBytes Size = 0")
  case True
  then show ?thesis using keeps_refl [OF assms(2)] by (auto simp: getRingBufferErrorInfo_def Let_def split: option.splits)
next
  case False
  then obtain rb d where r: "RB = Some rb" "Depot = Some d" "ringBufferElementsFromBytes Size \<noteq> 0" by auto
  have "0 < unat (ringBufferElementsFromBytes Size)" using r(3) by (simp add: unat_gt_0)
  then show ?thesis
    using ring_loop_keeps [of d "ringBufferElementsFromBytes Size" "RingEntries rb" st] assms r
    by (simp add: getRingBufferErrorInfo_def Let_def)
qed

text \<open>C29: The crash handler is safe on any data: whatever the depot, the regions, the ring buffer, the
  memory and the tags hold, \<^verbatim>\<open>getErrorInfo\<close> ends, reads only inside the copies it was given with their
  sizes, the copy of the regions being the one whose size \<^verbatim>\<open>getRegionInfoArraySize\<close> gives, a region for every
  class, and writes only inside the three reports.\<close>

theorem crash_handler_safe:
  assumes "valid_config (PSizeMap (CPrimary cfg))" "crash_given m"
    and "\<forall>d. Depot = Some d \<longrightarrow> length (DepotWords d) = (unat DepotSize - 24) div 4"
    and "\<forall>rb. RB = Some rb \<longrightarrow> unat (ringBufferElementsFromBytes RingBufferSize) \<le> length (RingEntries rb)"
    and "unat (NumClasses (PSizeMap (CPrimary cfg))) \<le> length RegionArray"
  shows "\<exists>reports. getErrorInfo cfg PageSize FaultAddr Depot DepotSize RegionArray RB RingBufferSize m = Inr reports
    \<and> length reports = 3"
proof -
  let ?none = "replicate NumErrorReports empty_report"
  let ?inline = "\<lambda>lo hi st. if extractTag FaultAddr \<noteq> 0
    then getInlineErrorInfo cfg m Depot RegionArray FaultAddr lo hi st else Inr st"
  show ?thesis
  proof (cases "(\<not> tagging_built cfg \<or> MemoryAddr m + MemorySize m < MemoryAddr m)
      \<or> Depot \<noteq> None \<and> (DepotSize < sizeof_StackDepot \<or> \<not> depot_isValid DepotSize (the Depot))")
    case True
    then show ?thesis by (auto simp: getErrorInfo_def Let_def NumErrorReports_def)
  next
    case False
    then have nw: "no_wrap m" and d: "\<forall>d. Depot = Some d \<longrightarrow> depot_shape d"
      using isValid_shape assms(3) by (auto simp: no_wrap_def)
    have inl: "reports_ok st \<Longrightarrow> keeps_reports st (?inline lo hi st)" for lo hi st
      using getInlineErrorInfo_keeps [OF assms(1,2) nw d _ assms(5)] keeps_refl by simp
    have ok: "reports_ok (?none, 0)" by (simp add: reports_ok_def)
    have "keeps_reports (?none, 0) (bindE (?inline 0 2 (?none, 0)) (\<lambda>st.
        bindE (getRingBufferErrorInfo PageSize Depot RB RingBufferSize FaultAddr st) (?inline 2 16)))"
      by (rule keeps_trans [OF inl [OF ok]], rule keeps_trans [OF getRingBufferErrorInfo_keeps [OF d _ assms(4)]]) (simp, rule inl)
    then obtain st where st: "bindE (?inline 0 2 (?none, 0)) (\<lambda>st.
        bindE (getRingBufferErrorInfo PageSize Depot RB RingBufferSize FaultAddr st) (?inline 2 16)) = Inr st" "reports_ok st"
      by (auto simp: keeps_reports_def)
    obtain s1 s2 where s: "?inline 0 2 (?none, 0) = Inr s1"
      "getRingBufferErrorInfo PageSize Depot RB RingBufferSize FaultAddr s1 = Inr s2" "?inline 2 16 s2 = Inr st"
      using st(1) unfolding bindE_eq_Inr by blast
    have "getErrorInfo cfg PageSize FaultAddr Depot DepotSize RegionArray RB RingBufferSize m
        = bindE (?inline 0 2 (?none, 0)) (\<lambda>st. bindE (getRingBufferErrorInfo PageSize Depot RB RingBufferSize FaultAddr st)
            (\<lambda>st. bindE (?inline 2 16 st) (\<lambda>st. Inr (fst st))))"
      using False unfolding getErrorInfo_def Let_def by (simp only: if_False de_Morgan_disj) simp
    also have "\<dots> = Inr (fst st)" unfolding s bindE_simps ..
    finally show ?thesis using st(2) by (simp add: reports_ok_def NumErrorReports_def)
  qed
qed

theorem crash_handler_safe_witness:
  "\<exists>reports. getErrorInfo small_cconfig 4096 0x0300000000011008
       (Some \<lparr>RingEnd = 9, RingSize = 4, RingMask = 3, TabMask = 1, DepotWords = replicate 10 0xFFFFFFFF\<rparr>) 64
       [empty_region\<lparr>RegionBeg := 0x10000\<rparr>, empty_region\<lparr>RegionBeg := 0x11000, AllocatedUser := 64\<rparr>]
       (Some \<lparr>RingPos = 3, RingEntries = [empty_entry\<lparr>REPtr := 1, REAllocationSize := - 1\<rparr>]\<rparr>) 96
       \<lparr>CrashBytes = replicate 32 0x53, CrashTags = [3, 3], MemoryAddr = 0x11000, MemorySize = 32\<rparr> = Inr reports
     \<and> length reports = 3"
proof (rule crash_handler_safe)
  show "valid_config (PSizeMap (CPrimary small_cconfig))" using small_config_ok by (simp add: primary_ok_def)
qed (simp_all add: crash_given_def ringBufferElementsFromBytes_def sizeof_AllocationRingBuffer_def sizeof_Entry_def
    small_config_values)

section \<open>Use after free\<close>

lemma ring_elements_bytes:
  assumes "n < 2 ^ 32"
  shows "ringBufferElementsFromBytes (ringBufferSizeInBytes (of_nat n)) = of_nat n"
proof -
  have u: "unat (of_nat n :: u32) = n" using assms by (intro unat_of_nat_small) simp
  have c: "unat (ucast (of_nat n :: u32) :: uptr) = n" using u unat_ucast_up [of "of_nat n :: u32", where ?'b = 64] by simp
  have m: "unat (ucast (of_nat n :: u32) * sizeof_Entry) = n * 32"
    using unat_mult_small [of "ucast (of_nat n :: u32)" sizeof_Entry] c assms by (simp add: sizeof_Entry_def)
  have a: "unat (ringBufferSizeInBytes (of_nat n)) = 64 + n * 32"
    using add64 [of sizeof_AllocationRingBuffer "ucast (of_nat n :: u32) * sizeof_Entry"] m assms
    by (simp add: ringBufferSizeInBytes_def sizeof_AllocationRingBuffer_def)
  have "unat (ringBufferElementsFromBytes (ringBufferSizeInBytes (of_nat n))) = n"
    using a by (simp add: ringBufferElementsFromBytes_def word_less_nat_alt unat_div unat_sub word_le_nat_alt
        sizeof_AllocationRingBuffer_def sizeof_Entry_def)
  moreover have "unat (of_nat n :: uptr) = n" using assms by (intro unat_of_nat_small) simp
  ultimately show ?thesis by (intro word_unat_eq_iff [THEN iffD2]) simp
qed

lemma entry_report_first:
  assumes "depot_shape d" "reports_ok st" "snd st < NumErrorReports"
    and "REDeallocationTid e \<noteq> 0"
  shows "\<exists>R. entry_report d FaultAddr e st = Inr ((fst st)[snd st := R], snd st + 1)
    \<and> report_type R = USE_AFTER_FREE \<and> allocation_address R = untagPointer (REPtr e)
    \<and> allocation_size R = REAllocationSize e \<and> allocation_tid R = REAllocationTid e
    \<and> deallocation_tid R = REDeallocationTid e"
proof -
  obtain T1 T2 where "collectTraceMaybe d (replicate MaxTraceSize 0) (REAllocationTrace e) = Inr T1"
    "collectTraceMaybe d (replicate MaxTraceSize 0) (REDeallocationTrace e) = Inr T2"
    using collectTraceMaybe_ends [OF assms(1)] by metis
  moreover define R where "R = \<lparr>report_type = USE_AFTER_FREE,
      allocation_address = untagPointer (REPtr e), allocation_size = REAllocationSize e,
      allocation_tid = REAllocationTid e, allocation_trace = T1,
      deallocation_tid = REDeallocationTid e, deallocation_trace = T2\<rparr>"
  ultimately have "entry_report d FaultAddr e st = Inr ((fst st)[snd st := R], snd st + 1)"
    using add_report_keeps(2) [OF assms(2,3)] assms(4) by (simp add: entry_report_def)
  then show ?thesis by (intro exI [of _ R]) (simp add: R_def)
qed

text \<open>The last entry is looked at first, and a report once written stays.\<close>

lemma ring_last_entry_reported:
  assumes d: "depot_shape d" and st: "reports_ok st" "snd st < NumErrorReports"
    and es: "es \<noteq> []" "length es < 2 ^ 32"
    and e: "e = es ! unat (I mod of_nat (length es))" "in_entry PageSize FaultAddr st e" "REDeallocationTid e \<noteq> 0"
  shows "\<exists>st'. ring_loop d PageSize FaultAddr es (of_nat (length es)) (length es) I st = Inr st'
    \<and> reports_ok st' \<and> (let R = fst st' ! snd st in report_type R = USE_AFTER_FREE
      \<and> allocation_address R = untagPointer (REPtr e) \<and> allocation_size R = REAllocationSize e
      \<and> allocation_tid R = REAllocationTid e \<and> deallocation_tid R = REDeallocationTid e)"
proof -
  let ?E = "of_nat (length es) :: uptr"
  have uE: "unat ?E = length es" using es(2) by (intro unat_of_nat_small) simp
  have E: "0 < unat ?E" "unat ?E \<le> length es" using uE es(1) by simp_all
  have i: "unat (I mod ?E) < length es" using mod_less_divisor [OF E(1), of "unat I"] uE by (simp only: unat_mod)
  obtain n where n: "length es = Suc n" using es(1) by (cases es) auto
  obtain R where R: "entry_report d FaultAddr e st = Inr ((fst st)[snd st := R], snd st + 1)"
    "report_type R = USE_AFTER_FREE" "allocation_address R = untagPointer (REPtr e)"
    "allocation_size R = REAllocationSize e" "allocation_tid R = REAllocationTid e"
    "deallocation_tid R = REDeallocationTid e"
    using entry_report_first [OF d st e(3)] by blast
  let ?s = "((fst st)[snd st := R], snd st + 1)"
  have s: "reports_ok ?s" using st by (simp add: reports_ok_def)
  obtain st' where st': "ring_loop d PageSize FaultAddr es ?E n (I - 1) ?s = Inr st'" "reports_ok st'"
    "take (snd ?s) (fst st') = take (snd ?s) (fst ?s)"
    using ring_loop_keeps [OF d E s, of PageSize FaultAddr n "I - 1"] by (auto simp: keeps_reports_def)
  have "fst st' ! snd st = take (snd ?s) (fst st') ! snd st" by simp
  also have "\<dots> = R" using st'(3) st by (simp add: reports_ok_def)
  finally have "fst st' ! snd st = R" .
  moreover have "ring_loop d PageSize FaultAddr es ?E (length es) I st = Inr st'"
    using st(2) i e R(1) st'(1) by (simp add: n Let_def del: of_nat_Suc)
  ultimately show ?thesis using st'(2) R by (simp add: Let_def)
qed

text \<open>C30: A use after free is reported: when a chunk is freed with tracking on, and an access through a
  pointer with the tag it had faults inside it before another chunk is freed, then \<^verbatim>\<open>getErrorInfo\<close>'s walk
  through the ring buffer reports it, unless three reports are there already: the next report is a use
  after free of this chunk, with its address, its size, and the threads that allocated and freed it.\<close>

theorem use_after_free_reported:
  assumes "RingBuffer s = Some rb" "RingEntries rb \<noteq> []" "length (RingEntries rb) < 2 ^ 32"
    and "opt_get TrackAllocationStacks Opts" "CTid cfg \<noteq> 0"
    and "Tagged = addFixedTag (CZ cfg) (untagPointer Ptr) PrevTag" "Tagged \<noteq> 0"
    and "unat Tagged + unat Size < 2 ^ 64" "unat Tagged \<le> unat FaultAddr" "unat FaultAddr < unat Tagged + unat Size"
    and "depot_shape d" "reports_ok st" "snd st < NumErrorReports"
  shows "let s' = storeDeallocationStackMaybe cfg Opts Ptr PrevTag Size s
    in \<exists>st'. getRingBufferErrorInfo PageSize (Some d) (RingBuffer s') (getRingBufferSize s') FaultAddr st = Inr st'
      \<and> reports_ok st' \<and> (let R = fst st' ! snd st in report_type R = USE_AFTER_FREE
        \<and> allocation_address R = untagPointer Tagged \<and> allocation_size R = Size
        \<and> allocation_tid R = load_u32 (memory_of s) (Ptr - 4) \<and> deallocation_tid R = CTid cfg)"
proof -
  let ?es = "RingEntries rb" and ?i = "unat (RingPos rb mod of_nat (length (RingEntries rb)))"
  define e where "e = \<lparr>REPtr = Tagged, REAllocationSize = Size, REAllocationTrace = load_u32 (memory_of s) (Ptr - 8),
    REAllocationTid = load_u32 (memory_of s) (Ptr - 4), REDeallocationTrace = collectStackTrace, REDeallocationTid = CTid cfg\<rparr>"
  let ?rb = "rb\<lparr>RingPos := RingPos rb + 1, RingEntries := ?es[?i := e]\<rparr>"
  have rb: "RingBuffer (storeDeallocationStackMaybe cfg Opts Ptr PrevTag Size s) = Some ?rb"
    using assms(1,4,6) by (simp add: storeDeallocationStackMaybe_def storeRingBufferEntry_def e_def)
  have u: "unat (of_nat (length ?es) :: uptr) = length ?es" using assms(3) by (intro unat_of_nat_small) simp
  have "0 < unat (of_nat (length ?es) :: uptr)" using u assms(2) by simp
  from mod_less_divisor [OF this, of "unat (RingPos rb)"] have "?i < length ?es" using u by (simp only: unat_mod)
  then have e: "e = ?es[?i := e] ! ?i" by simp
  have en: "in_entry PageSize FaultAddr st e"
    using assms(5,7-10) add64 [of Tagged Size] by (simp add: in_entry_def e_def word_less_nat_alt word_le_nat_alt)
  have el: "ringBufferElementsFromBytes (getRingBufferSize (storeDeallocationStackMaybe cfg Opts Ptr PrevTag Size s))
      = of_nat (length ?es)"
    using rb assms(2) ring_elements_bytes [OF assms(3)] by (simp add: getRingBufferSize_def)
  have t: "REDeallocationTid e \<noteq> 0" using assms(5) by (simp add: e_def)
  have nz: "(of_nat (length ?es) :: uptr) \<noteq> 0" using u assms(2) by (metis length_greater_0_conv less_not_refl unat_0)
  obtain st' where "ring_loop d PageSize FaultAddr (?es[?i := e]) (of_nat (length ?es)) (length ?es) (RingPos rb) st = Inr st'"
    "reports_ok st'" "let R = fst st' ! snd st in report_type R = USE_AFTER_FREE
      \<and> allocation_address R = untagPointer (REPtr e) \<and> allocation_size R = REAllocationSize e
      \<and> allocation_tid R = REAllocationTid e \<and> deallocation_tid R = REDeallocationTid e"
    using ring_last_entry_reported [OF assms(11-13), of "?es[?i := e]" e "RingPos rb", OF _ _ _ en t] assms(2,3) e by auto
  then show ?thesis
    unfolding Let_def getRingBufferErrorInfo_def rb el option.case prod.case using nz u by (simp add: e_def)
qed

lemma small_depot_shape:
  "depot_shape \<lparr>RingEnd = 3, RingSize = 4, RingMask = 3, TabMask = 1, DepotWords = replicate 10 0\<rparr>"
  unfolding depot_shape_def by (rule exI [of _ 2], rule exI [of _ 1]) (simp add: mask_eq_exp_minus_1)

theorem use_after_free_reported_witness:
  "let s = (small_scudo True)\<lparr>RingBuffer := Some \<lparr>RingPos = 5, RingEntries = [empty_entry, empty_entry]\<rparr>\<rparr>;
       s' = storeDeallocationStackMaybe small_cconfig (opt_set TrackAllocationStacks 0) 0x10010 5 24 s
   in \<exists>st'. getRingBufferErrorInfo 4096
        (Some \<lparr>RingEnd = 3, RingSize = 4, RingMask = 3, TabMask = 1, DepotWords = replicate 10 0\<rparr>)
        (RingBuffer s') (getRingBufferSize s') 0x5000000000010018 (replicate 3 empty_report, 0) = Inr st'
      \<and> report_type (fst st' ! 0) = USE_AFTER_FREE \<and> allocation_address (fst st' ! 0) = 0x10010
      \<and> allocation_size (fst st' ! 0) = 24 \<and> deallocation_tid (fst st' ! 0) = 1"
proof -
  let ?s = "(small_scudo True)\<lparr>RingBuffer := Some \<lparr>RingPos = 5, RingEntries = [empty_entry, empty_entry]\<rparr>\<rparr>"
  have t: "0x5000000000010010 = addFixedTag (CZ small_cconfig) (untagPointer 0x10010) 5" by simp code_simp
  have o: "opt_get TrackAllocationStacks (opt_set TrackAllocationStacks 0)" by (simp add: opt_get_set)
  have c: "CTid small_cconfig \<noteq> 0" "CTid small_cconfig = 1" by (simp_all add: small_cconfig_def)
  have u: "untagPointer 0x5000000000010010 = 0x10010" by code_simp
  have st: "reports_ok (replicate 3 empty_report, 0)" "snd (replicate 3 empty_report, 0) < NumErrorReports"
    by (simp_all add: reports_ok_def NumErrorReports_def)
  note r = use_after_free_reported [where s = ?s and FaultAddr = "0x5000000000010018" and Size = 24 and PageSize = 4096,
      OF _ _ _ o c(1) t _ _ _ _ small_depot_shape st]
  show ?thesis using r [of "\<lparr>RingPos = 5, RingEntries = [empty_entry, empty_entry]\<rparr>"] unfolding Let_def by (simp add: u c(2) del: split_paired_Ex) blast
qed

section \<open>A new ring buffer\<close>

lemma table_size:
  assumes "0 < unat N" "unat N \<le> 2 ^ 30"
  shows "\<exists>j < 32. (ucast (roundUpPowerOfTwo (ucast (2 * N :: u32))) :: u32) = 2 ^ j \<and> 2 * unat N \<le> 2 ^ j \<and> 2 ^ j < 4 * unat N"
proof -
  let ?X = "ucast (2 * N :: u32) :: uptr"
  have "unat (2 * N) = 2 * unat N" using assms(2) unat_mult_small [of 2 N] by simp
  then have X: "unat ?X = 2 * unat N" using unat_ucast_up [of "2 * N", where ?'b = 64] by simp
  then have nz: "?X \<noteq> 0" "unat ?X \<le> 2 ^ 63" using assms by auto
  obtain j where j: "j < 64" "roundUpPowerOfTwo ?X = 2 ^ j" using roundUpPowerOfTwo_least [OF nz] isPowerOfTwo_iff by blast
  note l = roundUpPowerOfTwo_least [OF nz, unfolded j(2)]
  have pw: "unat (2 ^ i :: uptr) = 2 ^ i" if "i < 64" for i using that by (intro unat_power_of_2) simp
  have lo: "2 * unat N \<le> 2 ^ j" using l X pw [OF j(1)] by (simp add: word_le_nat_alt)
  have hi: "2 ^ j < 4 * unat N"
  proof (cases j)
    case 0
    then show ?thesis using assms(1) by simp
  next
    case (Suc i)
    have "\<not> ?X \<le> 2 ^ i"
    proof
      assume "?X \<le> 2 ^ i"
      then have "(2 ^ j :: uptr) \<le> 2 ^ i" using l isPowerOfTwo_power [of i] Suc j(1) by auto
      then show False using pw [of i] pw [OF j(1)] Suc j(1) by (simp add: word_le_nat_alt)
    qed
    then show ?thesis using X pw [of i] Suc j(1) by (simp add: word_le_nat_alt)
  qed
  then have "(2 :: nat) ^ j < 2 ^ 32" using assms(2) by simp
  then have j32: "j < 32" by (rule power_less_imp_less_exp [rotated]) simp
  have "(ucast (2 ^ j :: uptr) :: u32) = 2 ^ j"
    using j32 pw [OF j(1)] unat_pow32 [OF j32]
    using power_strict_increasing [of j 32 "2 :: nat"]
    by (intro word_unat_eq_iff [THEN iffD2]) (simp add: unat_ucast_eq)
  then show ?thesis using j32 lo hi j(2) by auto
qed

lemma new_depot_valid:
  assumes "j < 28" "TabSz = 2 ^ j" "1 \<le> j"
    and "d = depot_init (TabSz * 16) TabSz \<lparr>RingEnd = 0, RingSize = 0, RingMask = 0, TabMask = 0,
           DepotWords = replicate (2 * unat (TabSz * 16) + unat TabSz) 0\<rparr>"
  shows "depot_inv d" "depot_isValid (sizeof_StackDepot + 8 * ucast (TabSz * 16) + 4 * ucast TabSz) d"
    "ring_len d = 16 * 2 ^ j"
proof -
  let ?RS = "2 ^ (j + 4) :: u32"
  have R: "TabSz * 16 = ?RS" by (simp add: assms(2) power_add)
  have u: "unat ?RS = 2 ^ (j + 4)" "unat TabSz = 2 ^ j"
    using assms(1) unat_pow32 [of "j + 4"] unat_pow32 [of j] by (simp_all add: assms(2))
  have d: "d = \<lparr>RingEnd = 0, RingSize = ?RS, RingMask = mask (j + 4), TabMask = mask j,
      DepotWords = replicate (2 * 2 ^ (j + 4) + 2 ^ j) 0\<rparr>"
    unfolding assms(4) R u depot_init_def by (simp add: assms(2) power_minus_1_mask)
  show sh: "depot_inv d" "ring_len d = 16 * 2 ^ j"
  proof -
    show r: "ring_len d = 16 * 2 ^ j" by (simp only: ring_len_def d depot.select_convs u) (simp add: power_add)
    have "depot_shape d"
      unfolding depot_shape_def using assms(1)
      by (rule_tac exI [of _ "j + 4"], rule_tac exI [of _ j]) (simp add: d)
    moreover have w: "i < length (DepotWords d) \<Longrightarrow> DepotWords d ! i = 0" for i by (simp add: d)
    have "unat V < ring_len d" if "tab_load d (x AND TabMask d) = Some V" for x V
      using that w by (auto simp: tab_load_def r split: if_splits)
    ultimately show "depot_inv d" by (simp add: depot_inv_def r) (simp add: d)
  qed
  let ?A = "8 * ucast ?RS :: uptr" and ?B = "4 * ucast TabSz :: uptr"
  have A: "unat ?A = 8 * 2 ^ (j + 4)" using unat_times_pow [of "j + 4" 8] assms(1) by simp
  have B: "unat ?B = 4 * 2 ^ j" using unat_times_pow [of j 4] assms(1,2) by simp
  have small: "(2 :: nat) ^ j < 2 ^ 28" using assms(1) by (intro power_strict_increasing) simp_all
  have AB: "unat (?A + ?B) = unat ?A + unat ?B" using A B small by (intro add64) (simp add: power_add)
  have S: "unat (sizeof_StackDepot + (?A + ?B)) = 24 + (unat ?A + unat ?B)"
    using A B AB small add64 [of sizeof_StackDepot "?A + ?B"] by (simp add: sizeof_StackDepot_def power_add)
  have p: "isPowerOfTwo (ucast ?RS)" "isPowerOfTwo (ucast TabSz)"
  proof -
    have "(ucast ?RS :: uptr) = 2 ^ (j + 4)" "(ucast TabSz :: uptr) = 2 ^ j"
      unfolding assms(2) using assms(1) unat_pow_up [of "j + 4"] unat_pow_up [of j] unat_power_of_2 [of "j + 4", where ?'a = 64]
        unat_power_of_2 [of j, where ?'a = 64] by (simp_all add: word_unat_eq_iff)
    then show "isPowerOfTwo (ucast ?RS)" "isPowerOfTwo (ucast TabSz)" using assms(1) isPowerOfTwo_power [of "j + 4"] by simp_all
  qed
  have t: "mask j + 1 = TabSz" "mask (j + 4) + 1 = ?RS" by (simp_all add: assms(2) mask_eq_exp_minus_1)
  have "unat (mask j :: u32) = 2 ^ j - 1" using assms(1) by (intro unat_mask) simp
  moreover have "(2 :: nat) ^ 1 \<le> 2 ^ j" using assms(3) by (intro power_increasing) simp_all
  ultimately have nz: "(mask j :: u32) \<noteq> 0" using assms(3) by auto
  have "\<not> sizeof_StackDepot + (?A + ?B) < sizeof_StackDepot" using S by (simp add: word_less_nat_alt sizeof_StackDepot_def)
  moreover have "\<not> ?A + ?B < ?B" using AB by (simp add: word_less_nat_alt)
  ultimately have "depot_isValid (sizeof_StackDepot + (?A + ?B)) d"
    unfolding depot_isValid_def d depot.select_convs Let_def t using p nz by simp
  then show "depot_isValid (sizeof_StackDepot + 8 * ucast (TabSz * 16) + 4 * ucast TabSz) d" by (simp add: R add.assoc)
qed

text \<open>Setting up the ring buffer: either nothing changes, because the size is not positive or too
  big, or there are as many entries as asked for, their number is the one that is computed from the size
  of the mapping, and the stack depot is valid for its size, fit for traces, and has at least 32 frames
  for each entry.\<close>

theorem ring_buffer_set_up:
  assumes "RingBuffer s = None" "initRingBufferMaybe map_pages PageSize N s D = Inr (s', D')"
  shows "(s', D') = (s, D) \<and> (sint N \<le> 0 \<or> 2 ^ 26 < unat N)
    \<or> (\<exists>d Size rb. D' = Some (d, Size) \<and> RingBuffer s' = Some rb \<and> length (RingEntries rb) = unat N
         \<and> ringBufferElementsFromBytes (getRingBufferSize s') = ucast N
         \<and> depot_isValid Size d \<and> depot_inv d \<and> 32 * unat N \<le> ring_len d)"
proof (cases "sint N \<le> 0 \<or> N > 0x40000000")
  case True
  then have "(s', D') = (s, D)" using assms by (cases "sint N \<le> 0") (simp_all add: initRingBufferMaybe_def Let_def)
  moreover have "sint N \<le> 0 \<or> 2 ^ 26 < unat N" using True by (auto simp: word_less_nat_alt)
  ultimately show ?thesis by blast
next
  case False
  have "N \<noteq> 0" using False by auto
  then have N: "0 < unat N" "unat N \<le> 2 ^ 30" using False by (simp_all add: word_le_nat_alt not_less unat_gt_0)
  obtain j where j: "j < 32" "(ucast (roundUpPowerOfTwo (ucast (2 * N))) :: u32) = 2 ^ j" "2 * unat N \<le> 2 ^ j" "2 ^ j < 4 * unat N"
    using table_size [OF N] by blast
  let ?T = "2 ^ j :: u32"
  show ?thesis
  proof (cases "?T > (- 1) div 16")
    case True
    then have "(s', D') = (s, D)" using assms False j(2) by (simp add: initRingBufferMaybe_def Let_def)
    moreover have "2 ^ 26 < unat N"
    proof -
      have "unat ((- 1 :: u32) div 16) = 268435455" by (simp add: unat_div unsigned_minus_1_eq_mask mask_eq_exp_minus_1)
      then have "268435455 < (2 :: nat) ^ j" using True unat_pow32 [OF j(1)] by (simp add: word_less_nat_alt)
      then show ?thesis using j(4) by simp
    qed
    ultimately show ?thesis by blast
  next
    case ok: False
    define d where "d = depot_init (?T * 16) ?T \<lparr>RingEnd = 0, RingSize = 0, RingMask = 0, TabMask = 0,
           DepotWords = replicate (2 * unat (?T * 16) + unat ?T) 0\<rparr>"
    let ?Size = "sizeof_StackDepot + 8 * ucast (?T * 16) + 4 * ucast ?T :: uptr"
    let ?rb = "\<lparr>RingPos = 0, RingEntries = replicate (unat N) empty_entry\<rparr>"
    have r: "D' = Some (d, ?Size)" "s' = s\<lparr>RingBuffer := Some ?rb\<rparr>"
      using assms False ok j(2) by (auto simp: initRingBufferMaybe_def Let_def bindE_eq_Inr d_def)
    have "unat ((- 1 :: u32) div 16) = 268435455" by (simp add: unat_div unsigned_minus_1_eq_mask mask_eq_exp_minus_1)
    then have "(2 :: nat) ^ j < 2 ^ 28" using ok unat_pow32 [OF j(1)] by (simp add: word_less_nat_alt)
    from power_less_imp_less_exp [OF _ this] have j28: "j < 28" by simp
    have "j \<noteq> 0" using j(3) N(1) by (intro notI) simp
    then have j1: "1 \<le> j" by simp
    note v = new_depot_valid [OF j28 refl j1 d_def]
    have "ringBufferElementsFromBytes (getRingBufferSize s') = ucast N"
      using ring_elements_bytes [of "unat N"] N by (simp add: r getRingBufferSize_def)
    moreover have "32 * unat N \<le> ring_len d" using v(3) j(3) by simp
    ultimately show ?thesis using r v by auto
  qed
qed

theorem ring_buffer_set_up_witness:
  "\<exists>s' d Size rb. initRingBufferMaybe (\<lambda>_. Inr ()) 4096 100 (small_scudo True) None = Inr (s', Some (d, Size))
     \<and> RingBuffer s' = Some rb \<and> length (RingEntries rb) = 100 \<and> depot_isValid Size d \<and> depot_inv d \<and> 3200 \<le> ring_len d"
proof -
  have n: "RingBuffer (small_scudo True) = None" by (simp add: small_scudo_def)
  have "\<exists>r. initRingBufferMaybe (\<lambda>_. Inr ()) 4096 100 (small_scudo True) None = Inr r"
    unfolding initRingBufferMaybe_def Let_def bindE_simps by (simp only: split: if_split) blast
  then obtain s' D' where i: "initRingBufferMaybe (\<lambda>_. Inr ()) 4096 100 (small_scudo True) None = Inr (s', D')" by auto
  have "\<not> sint (100 :: s32) \<le> 0" "\<not> 2 ^ 26 < unat (100 :: s32)" by simp_all
  with ring_buffer_set_up [OF n i] i show ?thesis by auto
qed

end
