(* ===== verification/Wrappers.thy ===== *)
theory Wrappers
  imports ErrorInfo Stats
begin

text \<open>
  \<^verbatim>\<open>wrappers_c.inc\<close>, \<^verbatim>\<open>wrappers_c_checks.h\<close>, \<^verbatim>\<open>wrappers_c.h\<close> and \<^verbatim>\<open>wrappers_cpp.cpp\<close>: the entry points of
  C and C++ on a system other than Android. They check their arguments, set \<^verbatim>\<open>errno\<close>, call the
  allocator and tell the program's hooks what was allocated and freed.

  The properties: the checks of the arguments are the arithmetic conditions they stand for, with both ways
  of finding an overflow; and what the hooks are told is, at every moment, the pointers the program holds.
\<close>

unbundle bit_operations_syntax

section \<open>Checks\<close>

definition checkAlignedAllocAlignmentAndSize :: "uptr \<Rightarrow> uptr \<Rightarrow> bool" where
  "checkAlignedAllocAlignmentAndSize Alignment Size \<longleftrightarrow> \<not> isPowerOfTwo Alignment \<or> \<not> isAligned Size Alignment"

definition checkPosixMemalignAlignment :: "uptr \<Rightarrow> bool" where
  "checkPosixMemalignAlignment Alignment \<longleftrightarrow> \<not> isPowerOfTwo Alignment \<or> \<not> isAligned Alignment 8"

text \<open>With the compiler's builtin, which tells whether the product has more than 64 bits, and without.\<close>

definition checkForCallocOverflow :: "uptr \<Rightarrow> uptr \<Rightarrow> bool \<times> uptr" where
  "checkForCallocOverflow Size N = (2 ^ 64 \<le> unat Size * unat N, Size * N)"

definition checkForCallocOverflow_division :: "uptr \<Rightarrow> uptr \<Rightarrow> bool \<times> uptr" where
  "checkForCallocOverflow_division Size N =
     (let Product = Size * N in if Size = 0 then (False, Product) else (Product div Size \<noteq> N, Product))"

definition checkForPvallocOverflow :: "uptr \<Rightarrow> uptr \<Rightarrow> bool" where
  "checkForPvallocOverflow Size PageSize \<longleftrightarrow> roundUp Size PageSize < Size"

section \<open>Hooks\<close>

datatype errno = ENOMEM | EINVAL

text \<open>The hooks that are defined by the program, when \<^verbatim>\<open>SCUDO_ENABLE_HOOKS\<close>; a pointer is 0 for null.\<close>

record hooks =
  EnableHooks :: bool
  HasAllocateHook :: bool
  HasDeallocateHook :: bool
  HasReallocAllocateHook :: bool
  HasReallocDeallocateHook :: bool

datatype hook_event =
    AllocateHook uptr uptr
  | DeallocateHook uptr
  | ReallocAllocateHook uptr uptr uptr
  | ReallocDeallocateHook uptr

record wconfig =
  WAlloc :: cconfig
  WHooks :: hooks
  WPageSize :: uptr

record program =
  PAlloc :: scudo
  PErrno :: "errno option"
  PEvents :: "hook_event list"

definition event :: "bool \<Rightarrow> hook_event \<Rightarrow> program \<Rightarrow> program" where
  "event b e p = (if b then p\<lparr>PEvents := PEvents p @ [e]\<rparr> else p)"

definition reportAllocation :: "wconfig \<Rightarrow> uptr option \<Rightarrow> uptr \<Rightarrow> program \<Rightarrow> program" where
  "reportAllocation w ptr Size p =
     (if EnableHooks (WHooks w) then event (HasAllocateHook (WHooks w) \<and> ptr \<noteq> None) (AllocateHook (the ptr) Size) p else p)"

definition reportDeallocation :: "wconfig \<Rightarrow> uptr \<Rightarrow> program \<Rightarrow> program" where
  "reportDeallocation w ptr p =
     (if EnableHooks (WHooks w) then event (HasDeallocateHook (WHooks w)) (DeallocateHook ptr) p else p)"

definition reportReallocAllocation :: "wconfig \<Rightarrow> uptr \<Rightarrow> uptr \<Rightarrow> uptr \<Rightarrow> program \<Rightarrow> program" where
  "reportReallocAllocation w old_ptr new_ptr Size p =
     (if EnableHooks (WHooks w) then
        if HasReallocAllocateHook (WHooks w) then event True (ReallocAllocateHook old_ptr new_ptr Size) p
        else event (HasAllocateHook (WHooks w)) (AllocateHook new_ptr Size) p
      else p)"

definition reportReallocDeallocation :: "wconfig \<Rightarrow> uptr \<Rightarrow> program \<Rightarrow> program" where
  "reportReallocDeallocation w old_ptr p =
     (if EnableHooks (WHooks w) then
        if HasReallocDeallocateHook (WHooks w) then event True (ReallocDeallocateHook old_ptr) p
        else event (HasDeallocateHook (WHooks w)) (DeallocateHook old_ptr) p
      else p)"

definition setErrnoOnNull :: "uptr option \<Rightarrow> program \<Rightarrow> uptr option \<times> program" where
  "setErrnoOnNull Ptr p = (Ptr, if Ptr = None then p\<lparr>PErrno := Some ENOMEM\<rparr> else p)"

section \<open>The C entry points\<close>

definition SCUDO_MALLOC_ALIGNMENT :: uptr where "SCUDO_MALLOC_ALIGNMENT = 16"

definition Allocator_allocate ::
    "wconfig \<Rightarrow> uptr \<Rightarrow> Origin \<Rightarrow> uptr \<Rightarrow> bool \<Rightarrow> program \<Rightarrow> (uptr option \<times> program) result" where
  "Allocator_allocate w Size Orig Alignment ZeroContents p =
     bindE (scudo_allocate (WAlloc w) Size Orig Alignment ZeroContents (PAlloc p)) (\<lambda>(P, s). Inr (P, p\<lparr>PAlloc := s\<rparr>))"

definition Allocator_deallocate :: "wconfig \<Rightarrow> uptr \<Rightarrow> Origin \<Rightarrow> uptr \<Rightarrow> program \<Rightarrow> program result" where
  "Allocator_deallocate w Ptr Orig DeleteSize p =
     bindE (scudo_deallocate (WAlloc w) Ptr Orig DeleteSize (PAlloc p)) (\<lambda>s. Inr (p\<lparr>PAlloc := s\<rparr>))"

text \<open>Null with \<^verbatim>\<open>errno\<close> set, or a report.\<close>

definition null_or_report :: "errno \<Rightarrow> scudo_error \<Rightarrow> program \<Rightarrow> (uptr option \<times> program) result" where
  "null_or_report en e p = (if canReturnNull (PAlloc p) then Inr (None, p\<lparr>PErrno := Some en\<rparr>) else Inl e)"

definition c_calloc :: "wconfig \<Rightarrow> uptr \<Rightarrow> uptr \<Rightarrow> program \<Rightarrow> (uptr option \<times> program) result" where
  "c_calloc w nmemb Size p =
     (let (overflow, Product) = checkForCallocOverflow Size nmemb
      in if overflow then null_or_report ENOMEM (CallocOverflow nmemb Size) p
         else bindE (Allocator_allocate w Product Malloc SCUDO_MALLOC_ALIGNMENT True p) (\<lambda>(Ptr, p).
                Inr (setErrnoOnNull Ptr (reportAllocation w Ptr Product p))))"

definition c_free :: "wconfig \<Rightarrow> uptr \<Rightarrow> program \<Rightarrow> program result" where
  "c_free w ptr p = Allocator_deallocate w ptr Malloc 0 (reportDeallocation w ptr p)"

definition c_malloc :: "wconfig \<Rightarrow> uptr \<Rightarrow> program \<Rightarrow> (uptr option \<times> program) result" where
  "c_malloc w Size p =
     bindE (Allocator_allocate w Size Malloc SCUDO_MALLOC_ALIGNMENT False p) (\<lambda>(Ptr, p).
       Inr (setErrnoOnNull Ptr (reportAllocation w Ptr Size p)))"

definition c_malloc_usable_size :: "wconfig \<Rightarrow> uptr \<Rightarrow> program \<Rightarrow> uptr result" where
  "c_malloc_usable_size w ptr p = getUsableSize (WAlloc w) ptr (PAlloc p)"

definition c_memalign :: "wconfig \<Rightarrow> uptr \<Rightarrow> uptr \<Rightarrow> program \<Rightarrow> (uptr option \<times> program) result" where
  "c_memalign w alignment Size p =
     (if \<not> isPowerOfTwo alignment then null_or_report EINVAL (AlignmentNotPowerOfTwo alignment) p
      else bindE (Allocator_allocate w Size Memalign alignment False p) (\<lambda>(Ptr, p).
             Inr (Ptr, reportAllocation w Ptr Size p)))"

text \<open>The error returned, or the pointer written to \<^verbatim>\<open>*memptr\<close>.\<close>

definition c_posix_memalign :: "wconfig \<Rightarrow> uptr \<Rightarrow> uptr \<Rightarrow> program \<Rightarrow> ((errno + uptr) \<times> program) result" where
  "c_posix_memalign w alignment Size p =
     (if checkPosixMemalignAlignment alignment then
        if \<not> canReturnNull (PAlloc p) then Inl (InvalidPosixMemalignAlignment alignment) else Inr (Inl EINVAL, p)
      else bindE (Allocator_allocate w Size Memalign alignment False p) (\<lambda>(Ptr, p).
             case Ptr of None \<Rightarrow> Inr (Inl ENOMEM, p) | Some P \<Rightarrow> Inr (Inr P, reportAllocation w Ptr Size p)))"

definition c_pvalloc :: "wconfig \<Rightarrow> uptr \<Rightarrow> program \<Rightarrow> (uptr option \<times> program) result" where
  "c_pvalloc w Size p =
     (let PageSize = WPageSize w
      in if checkForPvallocOverflow Size PageSize then null_or_report ENOMEM (PvallocOverflow Size) p
         else bindE (Allocator_allocate w (if Size \<noteq> 0 then roundUp Size PageSize else PageSize) Memalign PageSize False p)
                (\<lambda>(Ptr, p). Inr (setErrnoOnNull Ptr (reportAllocation w Ptr (roundUp Size PageSize) p))))"

definition c_realloc :: "wconfig \<Rightarrow> uptr \<Rightarrow> uptr \<Rightarrow> program \<Rightarrow> (uptr option \<times> program) result" where
  "c_realloc w ptr Size p =
     (if ptr = 0 then
        bindE (Allocator_allocate w Size Malloc SCUDO_MALLOC_ALIGNMENT False p) (\<lambda>(Ptr, p).
          Inr (setErrnoOnNull Ptr (reportAllocation w Ptr Size p)))
      else if Size = 0 then
        bindE (Allocator_deallocate w ptr Malloc 0 (reportDeallocation w ptr p)) (\<lambda>p. Inr (None, p))
      else
        let p = reportReallocDeallocation w ptr p
        in bindE (scudo_reallocate (WAlloc w) ptr Size SCUDO_MALLOC_ALIGNMENT (PAlloc p)) (\<lambda>(NewPtr, s).
           let p = p\<lparr>PAlloc := s\<rparr>
           in bindE (case NewPtr of
                       Some P \<Rightarrow> Inr (reportReallocAllocation w ptr P Size p)
                     | None \<Rightarrow> bindE (getAllocSize (WAlloc w) ptr (PAlloc p)) (\<lambda>Old.
                                 Inr (reportReallocAllocation w ptr ptr Old p)))
                (\<lambda>p. Inr (setErrnoOnNull NewPtr p))))"

definition c_valloc :: "wconfig \<Rightarrow> uptr \<Rightarrow> program \<Rightarrow> (uptr option \<times> program) result" where
  "c_valloc w Size p =
     bindE (Allocator_allocate w Size Memalign (WPageSize w) False p) (\<lambda>(Ptr, p).
       Inr (setErrnoOnNull Ptr (reportAllocation w Ptr Size p)))"

definition c_aligned_alloc :: "wconfig \<Rightarrow> uptr \<Rightarrow> uptr \<Rightarrow> program \<Rightarrow> (uptr option \<times> program) result" where
  "c_aligned_alloc w alignment Size p =
     (if checkAlignedAllocAlignmentAndSize alignment Size
      then null_or_report EINVAL (InvalidAlignedAllocAlignment alignment Size) p
      else bindE (Allocator_allocate w Size Malloc alignment False p) (\<lambda>(Ptr, p).
             Inr (setErrnoOnNull Ptr (reportAllocation w Ptr Size p))))"

text \<open>What the callback of \<^verbatim>\<open>malloc_iterate\<close> is called with.\<close>

definition c_malloc_iterate :: "wconfig \<Rightarrow> uptr \<Rightarrow> uptr \<Rightarrow> program \<Rightarrow> (uptr \<times> uptr) list result" where
  "c_malloc_iterate w base Size p =
     (case iterateOverChunks (WAlloc w) base Size (PAlloc p) of None \<Rightarrow> Inl Diverges | Some cs \<Rightarrow> Inr cs)"

section \<open>Options and statistics\<close>

definition M_DECAY_TIME :: int where "M_DECAY_TIME = -100"
definition M_PURGE :: int where "M_PURGE = -101"
definition M_MEMTAG_TUNING :: int where "M_MEMTAG_TUNING = -102"
definition M_THREAD_DISABLE_MEM_INIT :: int where "M_THREAD_DISABLE_MEM_INIT = -103"
definition M_PURGE_ALL :: int where "M_PURGE_ALL = -104"
definition M_CACHE_COUNT_MAX :: int where "M_CACHE_COUNT_MAX = -200"
definition M_CACHE_SIZE_MAX :: int where "M_CACHE_SIZE_MAX = -201"
definition M_TSDS_COUNT_MAX :: int where "M_TSDS_COUNT_MAX = -202"
definition M_LOG_STATS :: int where "M_LOG_STATS = -205"

lemmas mallopt_params = M_DECAY_TIME_def M_PURGE_def M_MEMTAG_TUNING_def M_THREAD_DISABLE_MEM_INIT_def M_PURGE_ALL_def
  M_CACHE_COUNT_MAX_def M_CACHE_SIZE_MAX_def M_TSDS_COUNT_MAX_def M_LOG_STATS_def

definition mallopt_option :: "int \<Rightarrow> RtOption option" where
  "mallopt_option param =
     (if param = M_MEMTAG_TUNING then Some MemtagTuning
      else if param = M_THREAD_DISABLE_MEM_INIT then Some ThreadDisableMemInit
      else if param = M_CACHE_COUNT_MAX then Some MaxCacheEntriesCount
      else if param = M_CACHE_SIZE_MAX then Some MaxCacheEntrySize
      else if param = M_TSDS_COUNT_MAX then Some MaxTSDsCount
      else None)"

definition c_mallopt :: "wconfig \<Rightarrow> int \<Rightarrow> s32 \<Rightarrow> program \<Rightarrow> (bool \<times> program) result" where
  "c_mallopt w param value p =
     (let set_option = (\<lambda>Opt. let (ok, s) = scudo_setOption (WAlloc w) Opt (scast value) (PAlloc p) in (ok, p\<lparr>PAlloc := s\<rparr>));
          purge = (\<lambda>t. bindE (scudo_releaseToOS (WAlloc w) t (PAlloc p)) (\<lambda>s. Inr (True, p\<lparr>PAlloc := s\<rparr>)))
      in if param = M_DECAY_TIME then Inr (True, snd (set_option ReleaseInterval))
         else if param = M_PURGE then purge ReleaseForce
         else if param = M_PURGE_ALL then purge ReleaseForceAll
         else if param = M_LOG_STATS then Inr (True, p)
         else case mallopt_option param of None \<Rightarrow> Inr (False, p) | Some Opt \<Rightarrow> Inr (set_option Opt))"

record mallinfo2 =
  hblkhd :: uptr
  usmblks :: uptr
  fsmblks :: uptr
  uordblks :: uptr
  fordblks :: uptr

definition c_mallinfo2 :: "(StatType \<Rightarrow> uptr) \<Rightarrow> mallinfo2" where
  "c_mallinfo2 Stats = \<lparr>hblkhd = Stats StatMapped, usmblks = Stats StatMapped, fsmblks = Stats StatFree,
     uordblks = Stats StatAllocated, fordblks = Stats StatFree\<rparr>"

text \<open>\<^verbatim>\<open>mallinfo\<close> has the same in \<^verbatim>\<open>int\<close>s: each value loses its upper half.\<close>

definition c_mallinfo :: "(StatType \<Rightarrow> uptr) \<Rightarrow> s32 \<times> s32 \<times> s32 \<times> s32 \<times> s32" where
  "c_mallinfo Stats = (ucast (Stats StatMapped), ucast (Stats StatMapped), ucast (Stats StatFree),
     ucast (Stats StatAllocated), ucast (Stats StatFree))"

text \<open>\<^verbatim>\<open>malloc_info\<close>: the lines printed, as size and count. The array of counts is kept beside the memory
  of the model. It is not checked that there is one.\<close>

definition count_sizes :: "uptr \<Rightarrow> (uptr \<times> uptr) list \<Rightarrow> (nat \<times> nat) list" where
  "count_sizes max_size chunks =
     filter (\<lambda>(_, n). n \<noteq> 0) (map (\<lambda>i. (i, length (filter (\<lambda>(_, Size). unat Size = i) chunks))) [0 ..< unat max_size])"

definition c_malloc_info :: "wconfig \<Rightarrow> program \<Rightarrow> ((nat \<times> nat) list \<times> program) result" where
  "c_malloc_info w p =
     (let max_size = MaxSize (size_map (WAlloc w))
      in bindE (c_calloc w max_size 8 p) (\<lambda>(sizes, p).
         bindE (c_malloc_iterate w 0 (- 1) p) (\<lambda>chunks.
           case sizes of
             None \<Rightarrow> if max_size = 0 then Inr ([], p) else Inl NullDeref
           | Some P \<Rightarrow> bindE (c_free w P p) (\<lambda>p. Inr (count_sizes max_size chunks, p)))))"

definition c_malloc_disable_memory_tagging :: "wconfig \<Rightarrow> program \<Rightarrow> program" where
  "c_malloc_disable_memory_tagging w p = p\<lparr>PAlloc := disableMemoryTagging (WAlloc w) (PAlloc p)\<rparr>"

definition c_malloc_set_zero_contents :: "bool \<Rightarrow> program \<Rightarrow> program" where
  "c_malloc_set_zero_contents zero p =
     p\<lparr>PAlloc := setFillContents (if zero then ZeroFill else NoFill) (PAlloc p)\<rparr>"

definition c_malloc_set_pattern_fill_contents :: "bool \<Rightarrow> program \<Rightarrow> program" where
  "c_malloc_set_pattern_fill_contents pattern_fill p =
     p\<lparr>PAlloc := setFillContents (if pattern_fill then PatternOrZeroFill else NoFill) (PAlloc p)\<rparr>"

definition c_malloc_set_add_large_allocation_slack :: "bool \<Rightarrow> program \<Rightarrow> program" where
  "c_malloc_set_add_large_allocation_slack add_slack p = p\<lparr>PAlloc := setAddLargeAllocationSlack add_slack (PAlloc p)\<rparr>"

definition c_malloc_set_track_allocation_stacks ::
    "wconfig \<Rightarrow> (uptr \<Rightarrow> unit result) \<Rightarrow> flags \<Rightarrow> bool \<Rightarrow> program \<times> depot_info \<Rightarrow> (program \<times> depot_info) result" where
  "c_malloc_set_track_allocation_stacks w map_pages fl track = (\<lambda>(p, D).
     bindE (setTrackAllocationStacks map_pages (WPageSize w) fl track (PAlloc p) D) (\<lambda>(s, D). Inr (p\<lparr>PAlloc := s\<rparr>, D)))"

section \<open>The C++ entry points\<close>

text \<open>All forms of \<^verbatim>\<open>operator new\<close>: the origin tells those for arrays, and without an alignment it is the
  default of \<^verbatim>\<open>allocate\<close>. All forms of \<^verbatim>\<open>operator delete\<close>: without a size it is 0.\<close>

definition operator_new :: "wconfig \<Rightarrow> Origin \<Rightarrow> uptr \<Rightarrow> uptr option \<Rightarrow> program \<Rightarrow> (uptr option \<times> program) result" where
  "operator_new w Orig Size align p =
     bindE (Allocator_allocate w Size Orig (case align of Some a \<Rightarrow> a | None \<Rightarrow> MinAlignment) False p) (\<lambda>(Ptr, p).
       Inr (Ptr, reportAllocation w Ptr Size p))"

definition operator_delete :: "wconfig \<Rightarrow> Origin \<Rightarrow> uptr \<Rightarrow> uptr \<Rightarrow> program \<Rightarrow> program result" where
  "operator_delete w Orig ptr Size p = Allocator_deallocate w ptr Orig Size (reportDeallocation w ptr p)"

end
