(* ===== verification/WrappersSafe.thy ===== *)
theory WrappersSafe
  imports Wrappers AllocatorSafe
begin

text \<open>
  What the C and C++ entry points promise: the checks of \<^verbatim>\<open>wrappers_c_checks.h\<close> are exact, and the hooks
  of \<^verbatim>\<open>wrappers_c.inc\<close> and \<^verbatim>\<open>wrappers_cpp.cpp\<close> are told what the program holds, whatever sequence of
  calls it makes.
\<close>

unbundle bit_operations_syntax

section \<open>The checks\<close>

lemma calloc_division_exact:
  "checkForCallocOverflow_division Size N = checkForCallocOverflow Size N"
proof (cases "Size = 0")
  case False
  then have s: "0 < unat Size" by (simp add: unat_gt_0)
  show ?thesis
  proof (cases "unat Size * unat N < 2 ^ 64")
    case True
    then have "unat (Size * N) = unat Size * unat N" by (subst unat_mult_lem [THEN iffD1]) simp_all
    then have "Size * N div Size = N" using s by (simp add: word_unat_eq_iff unat_div)
    then show ?thesis using True False
      by (simp add: checkForCallocOverflow_division_def checkForCallocOverflow_def not_le)
  next
    case over: False
    have "Size * N div Size \<noteq> N"
    proof
      assume "Size * N div Size = N"
      then have "unat (Size * N) div unat Size = unat N" by (metis unat_div)
      then have "unat Size * unat N \<le> unat (Size * N)" by (metis times_div_less_eq_dividend)
      moreover have "unat (Size * N) < 2 ^ 64" by simp
      ultimately show False using over by linarith
    qed
    then show ?thesis using over False
      by (simp add: checkForCallocOverflow_division_def checkForCallocOverflow_def not_less)
  qed
qed (simp add: checkForCallocOverflow_division_def checkForCallocOverflow_def)

lemma power_aligned_iff:
  assumes "k < 64" shows "isAligned X (2 ^ k) \<longleftrightarrow> 2 ^ k dvd unat X"
  using rounding_mask_eq_division [OF isPowerOfTwo_power [OF assms], of X] assms
  by (simp add: isAlignedSlow_def word_unat_eq_iff unat_mod unat_power_of_2 dvd_eq_mod_eq_0)

lemma posix_alignment_exact:
  "\<not> checkPosixMemalignAlignment A \<longleftrightarrow> (\<exists>k. 3 \<le> k \<and> k < 64 \<and> A = 2 ^ k)"
proof -
  have "isAligned (2 ^ k) 8 \<longleftrightarrow> 3 \<le> k" if "k < 64" for k
  proof -
    have "(2 :: nat) ^ 3 dvd 2 ^ k \<longleftrightarrow> 3 \<le> k" by (metis power_dvd_imp_le le_imp_power_dvd one_less_numeral_iff semiring_norm(76))
    then show ?thesis using power_aligned_iff [of 3 "2 ^ k"] that by (simp add: unat_power_of_2)
  qed
  then show ?thesis by (auto simp: checkPosixMemalignAlignment_def isPowerOfTwo_iff)
qed

lemma aligned_alloc_exact:
  "\<not> checkAlignedAllocAlignmentAndSize A S \<longleftrightarrow> (\<exists>k < 64. A = 2 ^ k \<and> 2 ^ k dvd unat S)"
  using power_aligned_iff by (auto simp: checkAlignedAllocAlignmentAndSize_def isPowerOfTwo_iff)

lemma pvalloc_exact:
  assumes "isPowerOfTwo P"
  shows "checkForPvallocOverflow S P \<longleftrightarrow> 2 ^ 64 < unat S + unat P"
proof -
  obtain k where k: "k < 64" "unat P = 2 ^ k" using assms by (auto simp: isPowerOfTwo_iff unat_power_of_2)
  have "\<not> 2 ^ k dvd unat S" if "2 ^ 64 < unat S + 2 ^ k"
  proof
    assume "2 ^ k dvd unat S"
    moreover have "(2 :: nat) ^ k dvd 2 ^ 64" using k(1) by (intro le_imp_power_dvd) simp
    ultimately have "2 ^ k dvd 2 ^ 64 - unat S" by (intro dvd_diff_nat)
    moreover have "0 < 2 ^ 64 - unat S" using unat_less_64 [of S] by simp
    ultimately have "2 ^ k \<le> 2 ^ 64 - unat S" by (rule dvd_imp_le)
    moreover have "unat S < 2 ^ 64" by simp
    ultimately show False using that by linarith
  qed
  then show ?thesis using roundUp_wraps_iff [OF assms, of S] k(2) by (auto simp: checkForPvallocOverflow_def)
qed

text \<open>C32: The checks of the arguments are the conditions they stand for: \<^verbatim>\<open>calloc\<close> is refused exactly
  when the product of its arguments does not fit in 64 bits, and the check by division, which is used
  without the compiler's builtin, decides and computes the same as the one with it; the alignments that
  \<^verbatim>\<open>posix_memalign\<close> accepts are the powers of two from 8 on; \<^verbatim>\<open>aligned_alloc\<close> accepts a power of two and a
  multiple of it; \<^verbatim>\<open>pvalloc\<close>, with pages whose size is a power of two, is refused exactly when the size is
  more than the multiple of the page size that is the last one below $2^{64}$.\<close>

theorem argument_checks_exact:
  assumes "isPowerOfTwo PageSize"
  shows "(fst (checkForCallocOverflow Size N) \<longleftrightarrow> 2 ^ 64 \<le> unat Size * unat N)
    \<and> checkForCallocOverflow_division Size N = checkForCallocOverflow Size N
    \<and> (\<not> checkPosixMemalignAlignment A \<longleftrightarrow> (\<exists>k. 3 \<le> k \<and> k < 64 \<and> A = 2 ^ k))
    \<and> (\<not> checkAlignedAllocAlignmentAndSize A S \<longleftrightarrow> (\<exists>k < 64. A = 2 ^ k \<and> 2 ^ k dvd unat S))
    \<and> (checkForPvallocOverflow S PageSize \<longleftrightarrow> 2 ^ 64 - unat PageSize < unat S)"
proof -
  have "2 ^ 64 - unat PageSize < unat S \<longleftrightarrow> 2 ^ 64 < unat S + unat PageSize"
    by (rule less_diff_conv2) (simp add: order_less_imp_le)
  then show ?thesis
    using calloc_division_exact posix_alignment_exact aligned_alloc_exact pvalloc_exact [OF assms]
    by (simp add: checkForCallocOverflow_def)
qed

theorem argument_checks_exact_witness:
  "checkForPvallocOverflow 0xfffffffffffff001 4096 \<and> \<not> checkForPvallocOverflow 0xfffffffffffff000 4096
    \<and> checkForCallocOverflow_division 0x100000000 0x100000000 = (True, 0)"
proof -
  have p: "isPowerOfTwo 4096" by (simp add: isPowerOfTwo_def)
  show ?thesis
    using argument_checks_exact [OF p, of "0x100000000" "0x100000000" 0 "0xfffffffffffff001"]
      argument_checks_exact [OF p, of 0 0 0 "0xfffffffffffff000"]
    by (simp add: checkForCallocOverflow_def)
qed

section \<open>Hooks\<close>

text \<open>The calls a program makes, and the pointers it holds after each.\<close>

datatype c_call =
    Call_malloc uptr | Call_calloc uptr uptr | Call_free uptr | Call_realloc uptr uptr
  | Call_memalign uptr uptr | Call_posix_memalign uptr uptr | Call_pvalloc uptr | Call_valloc uptr
  | Call_aligned_alloc uptr uptr | Call_new Origin uptr "uptr option" | Call_delete Origin uptr uptr

definition gained :: "uptr option \<Rightarrow> uptr multiset \<Rightarrow> uptr multiset" where
  "gained Ptr H = (case Ptr of None \<Rightarrow> H | Some P \<Rightarrow> add_mset P H)"

definition given_up :: "uptr \<Rightarrow> uptr multiset \<Rightarrow> uptr multiset" where
  "given_up P H = (if P = 0 then H else H - {#P#})"

definition gaining :: "uptr multiset \<Rightarrow> (uptr option \<times> program) result \<Rightarrow> (program \<times> uptr multiset) result" where
  "gaining H r = bindE r (\<lambda>(Ptr, p). Inr (p, gained Ptr H))"

fun program_call :: "wconfig \<Rightarrow> c_call \<Rightarrow> program \<times> uptr multiset \<Rightarrow> (program \<times> uptr multiset) result" where
  "program_call w (Call_malloc Size) (p, H) = gaining H (c_malloc w Size p)"
| "program_call w (Call_calloc N Size) (p, H) = gaining H (c_calloc w N Size p)"
| "program_call w (Call_free P) (p, H) = bindE (c_free w P p) (\<lambda>p. Inr (p, given_up P H))"
| "program_call w (Call_realloc P Size) (p, H) =
     bindE (c_realloc w P Size p) (\<lambda>(Ptr, p).
       Inr (p, if Ptr = None \<and> Size \<noteq> 0 then H else gained Ptr (given_up P H)))"
| "program_call w (Call_memalign A Size) (p, H) = gaining H (c_memalign w A Size p)"
| "program_call w (Call_posix_memalign A Size) (p, H) =
     gaining H (bindE (c_posix_memalign w A Size p) (\<lambda>(r, p). Inr (case r of Inl _ \<Rightarrow> None | Inr P \<Rightarrow> Some P, p)))"
| "program_call w (Call_pvalloc Size) (p, H) = gaining H (c_pvalloc w Size p)"
| "program_call w (Call_valloc Size) (p, H) = gaining H (c_valloc w Size p)"
| "program_call w (Call_aligned_alloc A Size) (p, H) = gaining H (c_aligned_alloc w A Size p)"
| "program_call w (Call_new Orig Size A) (p, H) = gaining H (operator_new w Orig Size A p)"
| "program_call w (Call_delete Orig P Size) (p, H) = bindE (operator_delete w Orig P Size p) (\<lambda>p. Inr (p, given_up P H))"

text \<open>The program does what it likes, but gives \<^verbatim>\<open>realloc\<close> only pointers that it holds.\<close>

definition call_allowed :: "c_call \<Rightarrow> uptr multiset \<Rightarrow> bool" where
  "call_allowed c H = (case c of Call_realloc P _ \<Rightarrow> P = 0 \<or> P \<in># H | _ \<Rightarrow> True)"

inductive program_step :: "wconfig \<Rightarrow> program \<times> uptr multiset \<Rightarrow> program \<times> uptr multiset \<Rightarrow> bool" for w where
  call: "call_allowed c H \<Longrightarrow> program_call w c (p, H) = Inr st \<Longrightarrow> program_step w (p, H) st"

inductive_cases program_stepE: "program_step w st st'"

text \<open>What a tool that only sees the hooks takes to be allocated.\<close>

fun hook_seen :: "hook_event \<Rightarrow> uptr multiset \<Rightarrow> uptr multiset" where
  "hook_seen (AllocateHook P Size) = add_mset P"
| "hook_seen (DeallocateHook P) = given_up P"
| "hook_seen (ReallocAllocateHook Old P Size) = add_mset P"
| "hook_seen (ReallocDeallocateHook P) = given_up P"

definition hook_live :: "program \<Rightarrow> uptr multiset" where
  "hook_live p = fold hook_seen (PEvents p) {#}"

definition hooks_on :: "wconfig \<Rightarrow> bool" where
  "hooks_on w \<longleftrightarrow> EnableHooks (WHooks w) \<and> HasAllocateHook (WHooks w) \<and> HasDeallocateHook (WHooks w)"

lemma hook_live_fields [simp]:
  "hook_live (p\<lparr>PErrno := e\<rparr>) = hook_live p" "hook_live (p\<lparr>PAlloc := s\<rparr>) = hook_live p"
  by (simp_all add: hook_live_def)

lemma hook_live_event: "hook_live (event b e p) = (if b then hook_seen e (hook_live p) else hook_live p)"
  by (simp add: hook_live_def event_def)

lemma hook_live_reports:
  assumes "hooks_on w"
  shows "hook_live (reportAllocation w Ptr Size p) = gained Ptr (hook_live p)"
    and "hook_live (reportDeallocation w P p) = given_up P (hook_live p)"
    and "hook_live (reportReallocAllocation w Old P Size p) = add_mset P (hook_live p)"
    and "hook_live (reportReallocDeallocation w P p) = given_up P (hook_live p)"
  using assms
  by (auto simp: hooks_on_def reportAllocation_def reportDeallocation_def reportReallocAllocation_def
      reportReallocDeallocation_def hook_live_event gained_def split: option.splits)

lemma setErrnoD: "setErrnoOnNull Ptr p = (Q, q) \<Longrightarrow> Q = Ptr \<and> hook_live q = hook_live p"
  by (auto simp: setErrnoOnNull_def)

lemma Allocator_allocate_live: "Allocator_allocate w Size Orig A Z p = Inr (Ptr, p') \<Longrightarrow> hook_live p' = hook_live p"
  by (auto simp: Allocator_allocate_def bindE_eq_Inr)

lemma Allocator_deallocate_live: "Allocator_deallocate w P Orig Size p = Inr p' \<Longrightarrow> hook_live p' = hook_live p"
  by (auto simp: Allocator_deallocate_def bindE_eq_Inr)

text \<open>Every entry point that allocates, when it returns: the hooks gain what the program gains.\<close>

definition told :: "program \<Rightarrow> (uptr option \<times> program) result \<Rightarrow> bool" where
  "told p r \<longleftrightarrow> (\<forall>Ptr p'. r = Inr (Ptr, p') \<longrightarrow> hook_live p' = gained Ptr (hook_live p))"

lemma toldD: "told p r \<Longrightarrow> gaining H r = Inr (p', H') \<Longrightarrow> hook_live p = H \<Longrightarrow> hook_live p' = H'"
  by (auto simp: told_def gaining_def bindE_eq_Inr)

lemma told_null: "told p (null_or_report en e p)"
  by (simp add: told_def null_or_report_def gained_def)

lemma told_allocate:
  assumes "hooks_on w"
  shows "told p (bindE (Allocator_allocate w Size Orig A Z p) (\<lambda>(Ptr, p). Inr (setErrnoOnNull Ptr (reportAllocation w Ptr S p))))"
    and "told p (bindE (Allocator_allocate w Size Orig A Z p) (\<lambda>(Ptr, p). Inr (Ptr, reportAllocation w Ptr S p)))"
  using assms
  by (auto simp: told_def bindE_eq_Inr hook_live_reports dest!: Allocator_allocate_live setErrnoD)

lemma told_all:
  assumes "hooks_on w"
  shows "told p (c_malloc w Size p)" "told p (c_calloc w N Size p)" "told p (c_memalign w A Size p)"
    "told p (c_pvalloc w Size p)" "told p (c_valloc w Size p)" "told p (c_aligned_alloc w A Size p)"
    "told p (operator_new w Orig Size al p)"
  using assms
  by (simp_all add: c_malloc_def c_calloc_def c_memalign_def c_pvalloc_def c_valloc_def c_aligned_alloc_def
      operator_new_def told_null told_allocate checkForCallocOverflow_def Let_def)

lemma told_posix_memalign:
  assumes "hooks_on w" "c_posix_memalign w A Size p = Inr (r, p')"
  shows "hook_live p' = gained (case r of Inl _ \<Rightarrow> None | Inr P \<Rightarrow> Some P) (hook_live p)"
  using assms
  by (auto simp: c_posix_memalign_def bindE_eq_Inr gained_def hook_live_reports split: if_splits option.splits
      dest!: Allocator_allocate_live)

lemma told_free:
  assumes "hooks_on w"
  shows "c_free w P p = Inr p' \<Longrightarrow> hook_live p' = given_up P (hook_live p)"
    and "operator_delete w Orig P Size p = Inr p' \<Longrightarrow> hook_live p' = given_up P (hook_live p)"
  using assms by (auto simp: c_free_def operator_delete_def hook_live_reports dest!: Allocator_deallocate_live)

lemma given_up_0 [simp]: "given_up 0 H = H"
  by (simp add: given_up_def)

lemma told_realloc:
  assumes h: "hooks_on w" and P: "P = 0 \<or> P \<in># hook_live p" and r: "c_realloc w P Size p = Inr (Ptr, p')"
  shows "hook_live p' = (if Ptr = None \<and> Size \<noteq> 0 then hook_live p else gained Ptr (given_up P (hook_live p)))"
proof -
  consider "P = 0" | "P \<noteq> 0" "Size = 0" | "P \<noteq> 0" "Size \<noteq> 0" by blast
  then show ?thesis
  proof cases
    case 1
    then show ?thesis using r told_allocate(1) [OF h, of p Size Malloc SCUDO_MALLOC_ALIGNMENT False Size]
      by (simp add: c_realloc_def told_def gained_def)
  next
    case 2
    then show ?thesis using r h
      by (auto simp: c_realloc_def bindE_eq_Inr hook_live_reports gained_def dest!: Allocator_deallocate_live)
  next
    case 3
    let ?p = "reportReallocDeallocation w P p"
    obtain s q where q: "scudo_reallocate (WAlloc w) P Size SCUDO_MALLOC_ALIGNMENT (PAlloc ?p) = Inr (Ptr, s)"
      "(case Ptr of Some N \<Rightarrow> Inr (reportReallocAllocation w P N Size (?p\<lparr>PAlloc := s\<rparr>))
        | None \<Rightarrow> bindE (getAllocSize (WAlloc w) P (PAlloc (?p\<lparr>PAlloc := s\<rparr>))) (\<lambda>Old. Inr (reportReallocAllocation w P P Old (?p\<lparr>PAlloc := s\<rparr>)))) = Inr q"
      "hook_live p' = hook_live q"
      using r 3 by (auto 4 4 simp: c_realloc_def bindE_eq_Inr Let_def dest!: setErrnoD)
    have "hook_live q = add_mset (case Ptr of None \<Rightarrow> P | Some N \<Rightarrow> N) (given_up P (hook_live p))"
      using q(2) h by (auto simp: bindE_eq_Inr hook_live_reports split: option.splits)
    then show ?thesis using q(3) 3 P by (auto simp: gained_def given_up_def split: option.splits)
  qed
qed

lemma program_step_told:
  assumes "hooks_on w" and "program_step w (p, H) (p', H')" and "hook_live p = H"
  shows "hook_live p' = H'"
proof -
  obtain c where c: "call_allowed c H" "program_call w c (p, H) = Inr (p', H')"
    using assms(2) by (auto elim: program_stepE)
  show ?thesis
  proof (cases c)
    case (Call_realloc P Size)
    then show ?thesis using c assms(3) told_realloc [OF assms(1), of P p Size]
      by (auto simp: call_allowed_def bindE_eq_Inr)
  next
    case (Call_posix_memalign A Size)
    then show ?thesis using c assms(3)
      by (auto simp: gaining_def bindE_eq_Inr dest!: told_posix_memalign [OF assms(1)])
  qed (use c assms(3) told_all [OF assms(1)] told_free [OF assms(1)] in \<open>auto simp: bindE_eq_Inr elim!: toldD [rotated]\<close>)
qed

text \<open>C28: With the hooks for allocation and deallocation defined, in every state that a program reaches by any
  sequence of calls of the C and C++ entry points, the pointers the hooks were told to be allocated, less those
  they were told to be freed, are exactly those the program holds, with their number: also when a call fails
  and returns null, when \<^verbatim>\<open>realloc\<close> moves, keeps or does not get memory, when null is freed, and whether the
  hooks for \<^verbatim>\<open>realloc\<close> are defined or not, both or one of them.\<close>

theorem hooks_track_program:
  assumes "hooks_on w" and "(program_step w)\<^sup>*\<^sup>* (p, {#}) (p', H)" and "PEvents p = []"
  shows "hook_live p' = H"
proof -
  have "hook_live (fst st) = snd st" if "(program_step w)\<^sup>*\<^sup>* (p, {#}) st" for st
    using that
  proof (induction rule: rtranclp_induct)
    case base
    then show ?case by (simp add: hook_live_def assms(3))
  next
    case (step st st')
    then show ?case using program_step_told [OF assms(1), of "fst st" "snd st" "fst st'" "snd st'"] by simp
  qed
  from this [OF assms(2)] show ?thesis by simp
qed

definition small_wconfig :: wconfig where
  "small_wconfig = \<lparr>WAlloc = small_cconfig, WHooks = \<lparr>EnableHooks = True, HasAllocateHook = True, HasDeallocateHook = True,
     HasReallocAllocateHook = True, HasReallocDeallocateHook = False\<rparr>, WPageSize = 4096\<rparr>"

lemma small_malloc:
  "\<exists>s. scudo_allocate small_cconfig 10 Malloc SCUDO_MALLOC_ALIGNMENT False (small_scudo False) = Inr (Some 0x11030, s)"
proof -
  obtain h where h: "primary_block small_cconfig (NeededSize_of 10 (eff_align SCUDO_MALLOC_ALIGNMENT)) (Heap (small_scudo False))
      = Inr (Some 0x11020, 1, h)"
    using small_primary_block [of False] small_request by (auto simp: SCUDO_MALLOC_ALIGNMENT_def MinAlignment_16)
  have o: "\<not> useMemoryTagging (CMaySupportMemoryTagging small_cconfig) (load_options (small_scudo False))"
    by (simp add: small_scudo_def load_options_def useMemoryTagging_def opt_get_def)
  have n: "SCUDO_MALLOC_ALIGNMENT \<le> MaxAlignment" "(10 :: uptr) < MaxAllowedMallocSize"
    by (simp_all add: MaxAlignment_def MaxAllowedMallocSize_def SCUDO_MALLOC_ALIGNMENT_def)
  show ?thesis
    using allocate_untagged [OF o n _ h, of Malloc False]
    by (simp add: initChunk_def Let_def user_ptr_def SCUDO_MALLOC_ALIGNMENT_def MinAlignment_16 getHeaderSize_16 roundUp_def)
qed

theorem hooks_track_program_witness:
  "\<exists>p p'. (program_step small_wconfig)\<^sup>*\<^sup>* (p, {#}) (p', {#0x11030#}) \<and> PEvents p = [] \<and> hook_live p' = {#0x11030#}"
proof -
  let ?p = "\<lparr>PAlloc = small_scudo False, PErrno = None, PEvents = []\<rparr>"
  have on: "hooks_on small_wconfig" by (simp add: hooks_on_def small_wconfig_def)
  obtain p' where "program_call small_wconfig (Call_malloc 10) (?p, {#}) = Inr (p', {#0x11030#})"
    using small_malloc
    by (auto simp: gaining_def c_malloc_def Allocator_allocate_def small_wconfig_def setErrnoOnNull_def gained_def)
  then have "program_step small_wconfig (?p, {#}) (p', {#0x11030#})"
    by (intro program_step.call [where c = "Call_malloc 10"]) (simp_all add: call_allowed_def)
  then have "(program_step small_wconfig)\<^sup>*\<^sup>* (?p, {#}) (p', {#0x11030#})" by blast
  moreover from this have "hook_live p' = {#0x11030#}" using hooks_track_program [OF on] by simp
  moreover have "PEvents ?p = []" by simp
  ultimately show ?thesis by blast
qed

end
