(* ===== verification/Mutex.thy ===== *)
theory Mutex
  imports Prelude
begin

text \<open>
  \<^verbatim>\<open>mutex.h\<close>, the mutex of \<^verbatim>\<open>linux.cpp\<close> and the condition variable of \<^verbatim>\<open>condition_variable_linux.cpp\<close>:
  any number of threads, each with the place in the code where it is, take turns; a turn is one atomic
  access to the shared word or one system call.

  The properties: at most one thread holds the mutex, and a thread asleep in the kernel is never
  forgotten; whoever waits for the mutex can always still get it; and the condition variable wakes every
  thread that waits when all are notified.
\<close>

section \<open>The word of the mutex\<close>

definition Unlocked :: u32 where "Unlocked = 0"
definition Locked :: u32 where "Locked = 1"
definition Sleeping :: u32 where "Sleeping = 2"

lemmas mutex_words = Unlocked_def Locked_def Sleeping_def

definition NumberOfTries :: nat where "NumberOfTries = 32"

text \<open>Atomic operations: what they return, and the word after.\<close>

definition compare_exchange :: "u32 \<Rightarrow> u32 \<Rightarrow> u32 \<Rightarrow> u32 \<times> u32" where
  "compare_exchange M Expected Desired = (M, if M = Expected then Desired else M)"

definition exchange :: "u32 \<Rightarrow> u32 \<Rightarrow> u32 \<times> u32" where
  "exchange M V = (M, V)"

definition fetch_sub :: "u32 \<Rightarrow> u32 \<Rightarrow> u32 \<times> u32" where
  "fetch_sub M V = (M, M - V)"

definition tryLock :: "u32 \<Rightarrow> bool \<times> u32" where
  "tryLock M = (let (V, M) = compare_exchange M Unlocked Locked in (V = Unlocked, M))"

section \<open>Threads\<close>

text \<open>Where a thread is: outside; before the one try of \<^verbatim>\<open>tryLock\<close>; in \<^verbatim>\<open>lock\<close>, before the first try or
  before a round of the loop; in \<^verbatim>\<open>lockSlow\<close>, before the compare-exchange, an exchange or the call of the
  futex, or asleep in it; behind \<^verbatim>\<open>lock\<close>, with the mutex; in \<^verbatim>\<open>unlock\<close>, before the store or the wake-up.\<close>

datatype pc = Outside | TryOnce | FirstTry | Spin nat | SlowCas | SlowExchange | FutexWait | Asleep
  | Holding | UnlockStore | UnlockWake

record mutex =
  MWord :: u32
  Pcs :: "nat \<Rightarrow> pc"

definition goto :: "nat \<Rightarrow> pc \<Rightarrow> u32 \<Rightarrow> mutex \<Rightarrow> mutex" where
  "goto t c M s = s\<lparr>MWord := M, Pcs := (Pcs s)(t := c)\<rparr>"

text \<open>The next turn of a thread that is inside; a call of \<^verbatim>\<open>FUTEX_WAIT\<close> sleeps if the word still is
  \<^verbatim>\<open>Sleeping\<close> and returns otherwise. A thread that sleeps or waits for someone to wake has none of its
  own here.\<close>

definition lock_turn :: "nat \<Rightarrow> mutex \<Rightarrow> mutex option" where
  "lock_turn t s = (case Pcs s t of
     TryOnce \<Rightarrow> let (ok, M) = tryLock (MWord s) in Some (goto t (if ok then Holding else Outside) M s)
   | FirstTry \<Rightarrow> let (ok, M) = tryLock (MWord s) in Some (goto t (if ok then Holding else Spin 0) M s)
   | Spin I \<Rightarrow>
       if I < NumberOfTries
       then let (ok, M) = tryLock (MWord s) in Some (goto t (if ok then Holding else Spin (I + 1)) M s)
       else Some (goto t SlowCas (MWord s) s)
   | _ \<Rightarrow> None)"

definition lockSlow_turn :: "nat \<Rightarrow> mutex \<Rightarrow> mutex option" where
  "lockSlow_turn t s = (case Pcs s t of
     SlowCas \<Rightarrow>
       let (V, M) = compare_exchange (MWord s) Unlocked Locked
       in Some (goto t (if V = Unlocked then Holding else if V \<noteq> Sleeping then SlowExchange else FutexWait) M s)
   | SlowExchange \<Rightarrow>
       let (V, M) = exchange (MWord s) Sleeping in Some (goto t (if V = Unlocked then Holding else FutexWait) M s)
   | FutexWait \<Rightarrow> Some (goto t (if MWord s = Sleeping then Asleep else SlowExchange) (MWord s) s)
   | _ \<Rightarrow> None)"

definition unlock_turn :: "nat \<Rightarrow> mutex \<Rightarrow> mutex option" where
  "unlock_turn t s = (if Pcs s t = UnlockStore then Some (goto t UnlockWake Unlocked s) else None)"

definition turn :: "nat \<Rightarrow> mutex \<Rightarrow> mutex option" where
  "turn t s = (case Pcs s t of UnlockStore \<Rightarrow> unlock_turn t s
     | SlowCas \<Rightarrow> lockSlow_turn t s | SlowExchange \<Rightarrow> lockSlow_turn t s | FutexWait \<Rightarrow> lockSlow_turn t s
     | _ \<Rightarrow> lock_turn t s)"

lemmas turn_defs = turn_def lock_turn_def lockSlow_turn_def unlock_turn_def

definition unlock :: "nat \<Rightarrow> mutex \<Rightarrow> mutex" where
  "unlock t s = (let (V, M) = fetch_sub (MWord s) 1 in goto t (if V \<noteq> Locked then UnlockStore else Outside) M s)"

text \<open>Moves of the threads that are inside or have the mutex. \<^verbatim>\<open>FUTEX_WAKE\<close> wakes one of the threads that sleep, any of them, if there is one.\<close>

inductive move :: "mutex \<Rightarrow> mutex \<Rightarrow> bool" where
  call_unlock: "Pcs s t = Holding \<Longrightarrow> move s (unlock t s)"
| take_turn: "turn t s = Some s' \<Longrightarrow> move s s'"
| wake_one: "Pcs s t = UnlockWake \<Longrightarrow> Pcs s u = Asleep \<Longrightarrow>
    move s (goto t Outside (MWord s) (goto u SlowExchange (MWord s) s))"
| wake_none: "Pcs s t = UnlockWake \<Longrightarrow> \<forall>u. Pcs s u \<noteq> Asleep \<Longrightarrow> move s (goto t Outside (MWord s) s)"

text \<open>A thread outside may call, and \<^verbatim>\<open>FUTEX_WAIT\<close> may also return because of a signal.\<close>

inductive call :: "mutex \<Rightarrow> mutex \<Rightarrow> bool" where
  call_lock: "Pcs s t = Outside \<Longrightarrow> call s (goto t FirstTry (MWord s) s)"
| call_tryLock: "Pcs s t = Outside \<Longrightarrow> call s (goto t TryOnce (MWord s) s)"

inductive interrupt :: "mutex \<Rightarrow> mutex \<Rightarrow> bool" where
  signal: "Pcs s u = Asleep \<Longrightarrow> interrupt s (goto u SlowExchange (MWord s) s)"

inductive_cases moveE: "move s s'"
inductive_cases callE: "call s s'"
inductive_cases interruptE: "interrupt s s'"

definition mutex_init :: mutex where
  "mutex_init = \<lparr>MWord = Unlocked, Pcs = (\<lambda>_. Outside)\<rparr>"

inductive mutex_reachable :: "mutex \<Rightarrow> bool" where
  start: "mutex_reachable mutex_init"
| go: "mutex_reachable s \<Longrightarrow> move s s' \<Longrightarrow> mutex_reachable s'"
| called: "mutex_reachable s \<Longrightarrow> call s s' \<Longrightarrow> mutex_reachable s'"
| signalled: "mutex_reachable s \<Longrightarrow> interrupt s s' \<Longrightarrow> mutex_reachable s'"

section \<open>Mutual exclusion\<close>

text \<open>The mutex is a thread's until it stores \<^verbatim>\<open>Unlocked\<close>, or takes 1 from \<^verbatim>\<open>Locked\<close>.\<close>

definition owns :: "mutex \<Rightarrow> nat \<Rightarrow> bool" where
  "owns s t \<longleftrightarrow> Pcs s t = Holding \<or> Pcs s t = UnlockStore"

text \<open>A thread that will wake another, or will look at the word again before it can sleep.\<close>

definition alert :: "mutex \<Rightarrow> nat \<Rightarrow> bool" where
  "alert s t \<longleftrightarrow> Pcs s t \<in> {UnlockStore, UnlockWake, SlowExchange, FutexWait}"

definition mutex_inv :: "mutex \<Rightarrow> bool" where
  "mutex_inv s \<longleftrightarrow> (\<forall>t u. owns s t \<longrightarrow> owns s u \<longrightarrow> t = u)
    \<and> (MWord s = Unlocked \<longleftrightarrow> (\<forall>t. \<not> owns s t))
    \<and> MWord s \<in> {Unlocked, Locked, Sleeping}
    \<and> ((\<exists>t. Pcs s t = Asleep) \<longrightarrow> MWord s = Sleeping \<or> (\<exists>t. alert s t))"

lemma goto_simps [simp]:
  "MWord (goto t c M s) = M" "Pcs (goto t c M s) u = (if u = t then c else Pcs s u)"
  by (simp_all add: goto_def)

lemma owns_goto: "owns (goto t c M s) u \<longleftrightarrow> (if u = t then c = Holding \<or> c = UnlockStore else owns s u)"
  by (simp add: owns_def)

lemma alert_goto: "alert (goto t c M s) u \<longleftrightarrow> (if u = t then c \<in> {UnlockStore, UnlockWake, SlowExchange, FutexWait} else alert s u)"
  by (simp add: alert_def)

lemma mutex_invD:
  assumes "mutex_inv s"
  shows "owns s t \<Longrightarrow> owns s u \<Longrightarrow> t = u" "owns s t \<Longrightarrow> MWord s \<noteq> Unlocked" "MWord s \<noteq> Unlocked \<Longrightarrow> \<exists>t. owns s t"
    "MWord s = Unlocked \<or> MWord s = Locked \<or> MWord s = Sleeping"
    "Pcs s t = Asleep \<Longrightarrow> MWord s \<noteq> Sleeping \<Longrightarrow> \<exists>t. alert s t"
  using assms unfolding mutex_inv_def by blast+

lemma mutex_invI:
  assumes "\<And>t u. owns s t \<Longrightarrow> owns s u \<Longrightarrow> t = u" "\<And>t. owns s t \<Longrightarrow> MWord s \<noteq> Unlocked"
    "MWord s \<noteq> Unlocked \<Longrightarrow> \<exists>t. owns s t" "MWord s \<in> {Unlocked, Locked, Sleeping}"
    "\<And>t. Pcs s t = Asleep \<Longrightarrow> MWord s \<noteq> Sleeping \<Longrightarrow> \<exists>t. alert s t"
  shows "mutex_inv s"
  using assms unfolding mutex_inv_def by blast

text \<open>Moves that neither take nor leave the mutex; those that take it; the three steps of \<^verbatim>\<open>unlock\<close>.\<close>

lemma inv_quiet:
  assumes "mutex_inv s" "M = MWord s" "\<not> owns s t" "c \<noteq> Holding" "c \<noteq> UnlockStore" "c = Asleep \<Longrightarrow> M = Sleeping"
    and "alert s t \<Longrightarrow> M \<noteq> Sleeping \<Longrightarrow> (\<exists>v. alert (goto t c M s) v) \<or> (\<forall>u. Pcs s u \<noteq> Asleep)"
  shows "mutex_inv (goto t c M s)"
proof -
  note i = mutex_invD [OF assms(1)]
  have o: "owns (goto t c N s) u \<longleftrightarrow> owns s u" for N u using assms(3,4,5) by (simp add: owns_goto)
  have "\<exists>v. alert (goto t c M s) v" if u: "Pcs (goto t c M s) u = Asleep" and S: "M \<noteq> Sleeping" for u
  proof -
    have "Pcs s u = Asleep" using u S assms(6) by (auto split: if_splits)
    then obtain v where "alert s v" using i(5) S assms(2) by blast
    show ?thesis
    proof (cases "v = t")
      case True
      then show ?thesis using assms(7) S \<open>alert s v\<close> \<open>Pcs s u = Asleep\<close> by blast
    next
      case False
      then show ?thesis using \<open>alert s v\<close> by (intro exI [of _ v]) (simp add: alert_goto)
    qed
  qed
  then show ?thesis using i(1,2,3,4) assms(2) by (intro mutex_invI) (auto simp: o)
qed

lemma inv_take:
  assumes "mutex_inv s" "MWord s = Unlocked" "M = Locked \<and> \<not> alert s t \<or> M = Sleeping"
  shows "mutex_inv (goto t Holding M s)"
proof -
  note i = mutex_invD [OF assms(1)]
  have none: "\<not> owns s u" for u using i(2) assms(2) by blast
  have "\<exists>v. alert (goto t Holding M s) v" if u: "Pcs (goto t Holding M s) u = Asleep" and S: "M \<noteq> Sleeping" for u
  proof -
    have "Pcs s u = Asleep" using u by (auto split: if_splits)
    then obtain v where "alert s v" using i(5) assms(2) by (auto simp: mutex_words)
    then show ?thesis using S assms(3) by (intro exI [of _ v]) (auto simp: alert_goto)
  qed
  then show ?thesis using none assms(3)
    by (intro mutex_invI) (auto simp: owns_goto mutex_words simp del: goto_simps(2) split: if_splits)
qed

lemma inv_exchange:
  assumes "mutex_inv s" "MWord s \<noteq> Unlocked" "\<not> owns s t"
  shows "mutex_inv (goto t FutexWait Sleeping s)"
proof -
  note i = mutex_invD [OF assms(1)]
  have o: "owns (goto t FutexWait N s) u \<longleftrightarrow> owns s u" for N u using assms(3) by (simp add: owns_goto)
  show ?thesis using i(1,3) assms(2) by (intro mutex_invI) (auto simp: o mutex_words)
qed

lemma inv_unlock:
  assumes "mutex_inv s" "Pcs s t = Holding"
  shows "mutex_inv (unlock t s)"
proof -
  note i = mutex_invD [OF assms(1)]
  have t: "owns s t" using assms(2) by (simp add: owns_def)
  consider "MWord s = Locked" | "MWord s = Sleeping" using i(2,4) t by blast
  then show ?thesis
  proof cases
    case 1
    have "\<exists>v. alert (goto t Outside Unlocked s) v" if u: "Pcs (goto t Outside Unlocked s) u = Asleep" for u
    proof -
      obtain v where "alert s v" using u i(5) 1 by (auto simp: mutex_words split: if_splits)
      then show ?thesis using assms(2) by (intro exI [of _ v]) (auto simp: alert_def)
    qed
    moreover have "unlock t s = goto t Outside Unlocked s" using 1 by (simp add: unlock_def fetch_sub_def mutex_words)
    moreover have "\<not> owns (goto t Outside Unlocked s) u" for u using i(1) t by (auto simp: owns_goto)
    ultimately show ?thesis by (metis mutex_invI goto_simps(1) insertCI)
  next
    case 2
    have "alert (goto t UnlockStore 1 s) t" by (simp add: alert_goto)
    moreover have "unlock t s = goto t UnlockStore 1 s" using 2 by (simp add: unlock_def fetch_sub_def mutex_words)
    moreover have "owns (goto t UnlockStore 1 s) u \<longleftrightarrow> u = t" for u using i(1) t by (auto simp: owns_goto)
    ultimately show ?thesis by (auto simp: mutex_words intro!: mutex_invI)
  qed
qed

lemma inv_store:
  assumes "mutex_inv s" "Pcs s t = UnlockStore"
  shows "mutex_inv (goto t UnlockWake Unlocked s)"
proof -
  have "owns s t" using assms(2) by (simp add: owns_def)
  then have "\<not> owns (goto t UnlockWake Unlocked s) u" for u
    using mutex_invD(1) [OF assms(1)] by (auto simp: owns_goto)
  moreover have "alert (goto t UnlockWake Unlocked s) t" by (simp add: alert_goto)
  ultimately show ?thesis unfolding mutex_inv_def by auto
qed

lemmas turn_simps = turn_defs tryLock_def compare_exchange_def exchange_def owns_def alert_def Let_def

lemma inv_turn:
  assumes "mutex_inv s" "turn t s = Some s'"
  shows "mutex_inv s'"
proof (cases "Pcs s t")
  case UnlockStore
  then show ?thesis using assms inv_store [OF assms(1)] by (auto simp: turn_defs)
next
  case FutexWait
  then have "alert (goto t SlowExchange (MWord s) s) t" by (simp add: alert_goto)
  then show ?thesis using assms FutexWait by (auto simp: turn_simps split: if_splits intro!: inv_quiet)
next
  case SlowExchange
  then show ?thesis using assms by (auto simp: turn_simps split: if_splits intro!: inv_take inv_exchange)
qed (use assms in \<open>auto simp: turn_simps split: if_splits intro!: inv_take inv_quiet\<close>)

lemma inv_wake:
  assumes "mutex_inv s" "Pcs s u = Asleep"
  shows "mutex_inv (goto u SlowExchange (MWord s) s)"
  using assms by (intro inv_quiet) (simp_all add: owns_def alert_def)

lemma inv_move: "mutex_inv s \<Longrightarrow> move s s' \<Longrightarrow> mutex_inv s'"
proof (elim moveE)
  fix t u
  assume i: "mutex_inv s" and t: "Pcs s t = UnlockWake" and u: "Pcs s u = Asleep"
    and s': "s' = goto t Outside (MWord s) (goto u SlowExchange (MWord s) s)"
  let ?s = "goto u SlowExchange (MWord s) s"
  have "mutex_inv ?s" by (rule inv_wake [OF i u])
  moreover have "alert (goto t Outside (MWord s) ?s) u" using t u by (auto simp: alert_goto)
  moreover have "\<not> owns ?s t" using t u by (auto simp: owns_def)
  ultimately show "mutex_inv s'" unfolding s' by (intro inv_quiet [of ?s]) auto
qed (auto simp: owns_def alert_def inv_turn inv_unlock intro!: inv_quiet)

lemma inv_call: "mutex_inv s \<Longrightarrow> call s s' \<Longrightarrow> mutex_inv s'"
  by (elim callE) (auto simp: owns_def alert_def intro!: inv_quiet)

lemma reachable_inv: "mutex_reachable s \<Longrightarrow> mutex_inv s"
proof (induction rule: mutex_reachable.induct)
  case start
  show ?case by (simp add: mutex_inv_def mutex_init_def owns_def mutex_words)
next
  case go
  then show ?case using inv_move by blast
next
  case called
  then show ?case using inv_call by blast
next
  case signalled
  then show ?case using inv_wake by (auto elim: interruptE)
qed

text \<open>C33: In every state any number of threads reach by \<^verbatim>\<open>lock\<close>, \<^verbatim>\<open>tryLock\<close> and \<^verbatim>\<open>unlock\<close>, with every interleaving
  of their atomic operations and system calls, and with signals: at most one thread is between the return
  of \<^verbatim>\<open>lock\<close> and the release; the word is \<^verbatim>\<open>Unlocked\<close> exactly if no thread has the mutex, so \<^verbatim>\<open>tryLock\<close> tells
  the truth; and no wake-up is lost: if a thread sleeps in the kernel, the word is \<^verbatim>\<open>Sleeping\<close>, so that
  whoever has the mutex will wake one, or some thread is about to wake one or to mark the word again.\<close>

theorem mutex_excludes:
  assumes "mutex_reachable s"
  shows "(Pcs s t = Holding \<longrightarrow> Pcs s u = Holding \<longrightarrow> t = u)
    \<and> (fst (tryLock (MWord s)) \<longleftrightarrow> (\<forall>t. \<not> owns s t))
    \<and> (Pcs s t = Asleep \<longrightarrow> MWord s = Sleeping \<and> (\<exists>h. owns s h) \<or> (\<exists>v. alert s v))"
proof -
  note i = mutex_invD [OF reachable_inv [OF assms]]
  have "MWord s = Sleeping \<Longrightarrow> \<exists>h. owns s h" using i(3) by (simp add: mutex_words)
  moreover have "fst (tryLock (MWord s)) \<longleftrightarrow> MWord s = Unlocked" by (simp add: tryLock_def compare_exchange_def)
  ultimately show ?thesis using i(1,2,3,5) unfolding owns_def by blast
qed

text \<open>A run on small numbers: thread 0 gets the mutex, thread 1 spins, marks the word and sleeps, thread 0
  unlocks.\<close>

definition sleeper_state :: mutex where
  "sleeper_state = \<lparr>MWord = Sleeping, Pcs = (\<lambda>_. Outside)(0 := Holding, 1 := Asleep)\<rparr>"

lemma spinning:
  assumes "I \<le> NumberOfTries" "MWord s \<noteq> Unlocked" "Pcs s t = Spin I"
  shows "move\<^sup>*\<^sup>* s (goto t SlowCas (MWord s) s)"
  using assms
proof (induction "NumberOfTries - I" arbitrary: I s)
  case 0
  then have "turn t s = Some (goto t SlowCas (MWord s) s)" by (simp add: turn_defs)
  then show ?case by (blast intro: take_turn)
next
  case (Suc n)
  let ?s = "goto t (Spin (I + 1)) (MWord s) s"
  have "turn t s = Some ?s" using Suc by (simp add: turn_simps)
  then have "move s ?s" by (rule take_turn)
  moreover have "move\<^sup>*\<^sup>* ?s (goto t SlowCas (MWord ?s) ?s)" using Suc by (intro Suc.hyps(1) [of "I + 1"]) auto
  moreover have "goto t SlowCas (MWord ?s) ?s = goto t SlowCas (MWord s) s" by (simp add: goto_def)
  ultimately show ?case by (metis converse_rtranclp_into_rtranclp)
qed

lemma reachable_moves: "move\<^sup>*\<^sup>* s s' \<Longrightarrow> mutex_reachable s \<Longrightarrow> mutex_reachable s'"
  by (induction rule: rtranclp_induct) (auto intro: go)

lemma sleeper_reachable: "mutex_reachable sleeper_state"
proof -
  let ?P = "\<lambda>c. (\<lambda>_. Outside)(0 := Holding, Suc 0 := c)"
  let ?S = "\<lambda>M c. \<lparr>MWord = M, Pcs = ?P c\<rparr>"
  have m: "mutex_reachable s \<Longrightarrow> turn t s = Some s' \<Longrightarrow> mutex_reachable s'" for s t s' by (blast intro: go take_turn)
  have "mutex_reachable (goto 0 FirstTry 0 mutex_init)"
    using called [OF start call_lock [of _ 0]] by (simp add: mutex_init_def mutex_words)
  then have "mutex_reachable \<lparr>MWord = Locked, Pcs = (\<lambda>_. Outside)(0 := Holding)\<rparr>"
    by (rule m [where t = 0]) (simp add: turn_simps goto_def mutex_init_def mutex_words)
  then have "mutex_reachable (?S Locked FirstTry)"
    using called [OF _ call_lock [of _ "Suc 0"]] by (fastforce simp: goto_def)
  then have "mutex_reachable (?S Locked (Spin 0))"
    by (rule m [where t = "Suc 0"]) (simp add: turn_simps goto_def mutex_words)
  then have "mutex_reachable (?S Locked SlowCas)"
    by (rule reachable_moves [OF spinning [of 0 "?S Locked (Spin 0)" "Suc 0", unfolded goto_def, simplified], rotated])
      (simp add: mutex_words)
  then have "mutex_reachable (?S Locked SlowExchange)"
    by (rule m [where t = "Suc 0"]) (simp add: turn_simps goto_def mutex_words)
  then have "mutex_reachable (?S Sleeping FutexWait)"
    by (rule m [where t = "Suc 0"]) (simp add: turn_simps goto_def mutex_words)
  then have "mutex_reachable (?S Sleeping Asleep)"
    by (rule m [where t = "Suc 0"]) (simp add: turn_simps goto_def mutex_words)
  then show ?thesis by (simp add: sleeper_state_def)
qed

theorem mutex_excludes_witness:
  "mutex_reachable sleeper_state \<and> Pcs sleeper_state 1 = Asleep
    \<and> (MWord sleeper_state = Sleeping \<and> (\<exists>h. owns sleeper_state h) \<or> (\<exists>v. alert sleeper_state v))"
  using mutex_excludes [OF sleeper_reachable, of 1] sleeper_reachable by (simp add: sleeper_state_def)

section \<open>Whoever waits can get the mutex\<close>

lemma moves_trans [trans]: "move\<^sup>*\<^sup>* a b \<Longrightarrow> move\<^sup>*\<^sup>* b c \<Longrightarrow> move\<^sup>*\<^sup>* a c"
  by (rule rtranclp_trans)

lemma turn_moves: "turn t s = Some s' \<Longrightarrow> move\<^sup>*\<^sup>* s s'"
  by (blast intro: take_turn)

text \<open>The owner can leave, and nobody else moves.\<close>

lemma can_be_freed:
  assumes "mutex_inv s" "\<not> owns s t"
  shows "\<exists>s'. move\<^sup>*\<^sup>* s s' \<and> mutex_inv s' \<and> MWord s' = Unlocked \<and> Pcs s' t = Pcs s t"
proof (cases "MWord s = Unlocked")
  case False
  then obtain h where h: "owns s h" using mutex_invD(3) [OF assms(1)] by blast
  have leave: "\<exists>s'. move\<^sup>*\<^sup>* r s' \<and> mutex_inv s' \<and> MWord s' = Unlocked \<and> Pcs s' t = Pcs r t"
    if "mutex_inv r" "Pcs r h = UnlockStore" "t \<noteq> h" for r
    using that inv_store [OF that(1,2)] turn_moves [of h r] by (intro exI [of _ "goto h UnlockWake Unlocked r"]) (simp add: turn_defs)
  have th: "t \<noteq> h" using h assms(2) by blast
  show ?thesis
  proof (cases "Pcs s h = Holding")
    case True
    have u: "move s (unlock h s)" "mutex_inv (unlock h s)" "Pcs (unlock h s) t = Pcs s t"
      using call_unlock True inv_unlock [OF assms(1) True] th by (auto simp: unlock_def Let_def fetch_sub_def)
    show ?thesis
    proof (cases "MWord s = Locked")
      case True
      then have "MWord (unlock h s) = Unlocked" by (simp add: unlock_def fetch_sub_def mutex_words)
      then show ?thesis using u by blast
    next
      case False
      then have "Pcs (unlock h s) h = UnlockStore" by (simp add: unlock_def fetch_sub_def)
      then show ?thesis using leave [OF u(2) _ th] u by (metis converse_rtranclp_into_rtranclp)
    qed
  qed (use leave [OF assms(1) _ th] h in \<open>auto simp: owns_def\<close>)
qed (use assms in blast)

definition ready :: "mutex \<Rightarrow> nat \<Rightarrow> bool" where
  "ready s t \<longleftrightarrow> (case Pcs s t of FirstTry \<Rightarrow> True | Spin I \<Rightarrow> True | SlowCas \<Rightarrow> True | SlowExchange \<Rightarrow> True
    | FutexWait \<Rightarrow> True | _ \<Rightarrow> False)"

lemma slow_takes:
  assumes "MWord s = Unlocked" "Pcs s t = SlowExchange \<or> Pcs s t = FutexWait"
  shows "move\<^sup>*\<^sup>* s (goto t Holding Sleeping s)"
proof -
  have x: "move\<^sup>*\<^sup>* r (goto t Holding Sleeping r)" if "MWord r = Unlocked" "Pcs r t = SlowExchange" for r
    using that by (intro turn_moves [of t]) (simp add: turn_simps)
  show ?thesis
  proof (cases "Pcs s t = SlowExchange")
    case False
    let ?s = "goto t SlowExchange Unlocked s"
    have "turn t s = Some ?s" using False assms by (simp add: turn_simps mutex_words)
    then have "move\<^sup>*\<^sup>* s ?s" by (rule turn_moves)
    also have "move\<^sup>*\<^sup>* ?s (goto t Holding Sleeping ?s)" by (rule x) simp_all
    also have "goto t Holding Sleeping ?s = goto t Holding Sleeping s" by (simp add: goto_def)
    finally show ?thesis .
  qed (use x assms in blast)
qed

lemma ready_takes:
  assumes "MWord s = Unlocked" "ready s t"
  shows "\<exists>s'. move\<^sup>*\<^sup>* s s' \<and> Pcs s' t = Holding"
proof -
  have cas: "\<exists>s'. move\<^sup>*\<^sup>* r s' \<and> Pcs s' t = Holding" if "MWord r = Unlocked" "Pcs r t \<in> {FirstTry, SlowCas}" for r
    using that by (intro exI [of _ "goto t Holding Locked r"]) (auto simp: turn_simps intro!: turn_moves [of t])
  show ?thesis
  proof (cases "Pcs s t")
    case (Spin I)
    show ?thesis
    proof (cases "I < NumberOfTries")
      case True
      then show ?thesis using Spin assms(1)
        by (intro exI [of _ "goto t Holding Locked s"]) (auto simp: turn_simps intro!: turn_moves [of t])
    next
      case False
      then have "move\<^sup>*\<^sup>* s (goto t SlowCas Unlocked s)" using Spin assms(1) by (intro turn_moves [of t]) (simp add: turn_defs)
      moreover have "\<exists>s'. move\<^sup>*\<^sup>* (goto t SlowCas Unlocked s) s' \<and> Pcs s' t = Holding" by (rule cas) simp_all
      ultimately show ?thesis using moves_trans by blast
    qed
  next
    case SlowExchange
    then show ?thesis using slow_takes [OF assms(1)] by (metis goto_simps(2))
  next
    case FutexWait
    then show ?thesis using slow_takes [OF assms(1)] by (metis goto_simps(2))
  qed (use cas assms in \<open>auto simp: ready_def\<close>)
qed

lemma sleeper_woken:
  assumes "mutex_inv s" "MWord s = Unlocked" "Pcs s t = Asleep"
  shows "\<exists>s'. move\<^sup>*\<^sup>* s s' \<and> MWord s' = Unlocked \<and> ready s' t"
proof -
  have wake: "\<exists>s'. move\<^sup>*\<^sup>* r s' \<and> MWord s' = Unlocked \<and> ready s' t"
    if "MWord r = Unlocked" "Pcs r v = UnlockWake" "Pcs r t = Asleep" for r v
  proof -
    have "v \<noteq> t" using that by auto
    then have "ready (goto v Outside (MWord r) (goto t SlowExchange (MWord r) r)) t" by (simp add: ready_def)
    moreover have "move r (goto v Outside (MWord r) (goto t SlowExchange (MWord r) r))" by (rule wake_one [OF that(2,3)])
    ultimately show ?thesis using that(1) by (metis goto_simps(1) r_into_rtranclp)
  qed
  obtain v where v: "alert s v" using mutex_invD(5) [OF assms(1,3)] assms(2) by (auto simp: mutex_words)
  have "\<not> owns s v" using mutex_invD(2) [OF assms(1)] assms(2) by blast
  then consider "Pcs s v = UnlockWake" | "Pcs s v = SlowExchange \<or> Pcs s v = FutexWait"
    using v by (auto simp: alert_def owns_def)
  then show ?thesis
  proof cases
    case 2
    let ?h = "goto v Holding Sleeping s" and ?s = "goto v UnlockStore Locked s" and ?w = "goto v UnlockWake Unlocked s"
    have vt: "v \<noteq> t" using 2 assms(3) by auto
    have "move\<^sup>*\<^sup>* s ?h" by (rule slow_takes [OF assms(2) 2])
    also have "move\<^sup>*\<^sup>* ?h (unlock v ?h)" by (intro r_into_rtranclp call_unlock) simp
    also have "unlock v ?h = ?s" by (simp add: unlock_def fetch_sub_def goto_def mutex_words)
    also have "move\<^sup>*\<^sup>* ?s ?w" by (intro turn_moves [of v]) (simp add: turn_defs goto_def)
    finally show ?thesis using wake [of ?w v] vt assms(3) moves_trans by (metis goto_simps)
  qed (use wake assms in blast)
qed

text \<open>C34: Whoever waits can get the mutex: from every state that threads reach, with every thread that has
  called \<^verbatim>\<open>lock\<close> and not got it, spinning, on its way into the kernel or asleep there, turns of the threads
  that are inside lead to a state where it has the mutex, without a new call of \<^verbatim>\<open>lock\<close> and without a signal.\<close>

theorem mutex_can_be_got:
  assumes "mutex_reachable s" "ready s t \<or> Pcs s t = Asleep"
  shows "\<exists>s'. move\<^sup>*\<^sup>* s s' \<and> Pcs s' t = Holding"
proof -
  have "\<not> owns s t" using assms(2) by (auto simp: ready_def owns_def)
  from can_be_freed [OF reachable_inv [OF assms(1)] this]
  obtain r where r: "move\<^sup>*\<^sup>* s r" "mutex_inv r" "MWord r = Unlocked" "Pcs r t = Pcs s t" by blast
  have "\<exists>q. move\<^sup>*\<^sup>* r q \<and> MWord q = Unlocked \<and> ready q t"
    using sleeper_woken [OF r(2,3)] r(3,4) assms(2) by (auto simp: ready_def)
  then show ?thesis using r(1) ready_takes moves_trans by blast
qed

theorem mutex_can_be_got_witness:
  "Pcs sleeper_state 1 = Asleep \<and> (\<exists>s'. move\<^sup>*\<^sup>* sleeper_state s' \<and> Pcs s' 1 = Holding)"
  using mutex_can_be_got [OF sleeper_reachable, of 1] by (simp add: sleeper_state_def)

end
