(* ===== verification/CondVar.thy ===== *)
theory CondVar
  imports Prelude
begin

text \<open>
  The condition variable of \<^verbatim>\<open>condition_variable_linux.cpp\<close>, with the mutex it is used under as one that is
  free or some thread's. The 32-bit counter is in memory the kernel looks at; what the program does not
  have is counted beside it: how many threads have begun to wait since all were notified the last time,
  and for each thread how often the counter has moved since it began to wait.
\<close>

section \<open>Threads\<close>

text \<open>Where a thread is: outside; about to lock the mutex, for the first time or at the end of \<^verbatim>\<open>wait\<close>; with
  the mutex; in \<^verbatim>\<open>wait\<close>, with the value it stored, before the unlock or before the call of the futex; asleep
  there; in \<^verbatim>\<open>notifyAll\<close>, with the value it loaded, before it wakes the others.\<close>

datatype cvpc = CvOutside | CvLocking | CvInside | CvUnlocking u32 | CvWaitCall u32 | CvAsleep | CvNotifying u32

record cond_var =
  Counter :: u32
  LastNotifyAll :: u32
  MutexOwner :: "nat option"
  CvPcs :: "nat \<Rightarrow> cvpc"
  Waits :: nat
  Age :: "nat \<Rightarrow> nat"

definition at_pc :: "nat \<Rightarrow> cvpc \<Rightarrow> cond_var \<Rightarrow> cond_var" where
  "at_pc t c s = s\<lparr>CvPcs := (CvPcs s)(t := c)\<rparr>"

text \<open>The two halves of \<^verbatim>\<open>waitImpl\<close> before it locks the mutex again.\<close>

definition wait_store :: "nat \<Rightarrow> cond_var \<Rightarrow> cond_var" where
  "wait_store t s = (let V = Counter s + 1 in
     at_pc t (CvUnlocking V) (s\<lparr>Counter := V, Waits := Waits s + 1, Age := (\<lambda>u. Age s u + 1)(t := 0)\<rparr>))"

definition futex_wait :: "nat \<Rightarrow> u32 \<Rightarrow> cond_var \<Rightarrow> cond_var" where
  "futex_wait t V s = at_pc t (if Counter s = V then CvAsleep else CvLocking) s"

text \<open>\<^verbatim>\<open>notifyAllImpl\<close>: the store, and the wake-up.\<close>

definition notify_store :: "nat \<Rightarrow> cond_var \<Rightarrow> cond_var" where
  "notify_store t s = (let V = Counter s in
     at_pc t (CvNotifying V) (s\<lparr>Counter := V + 1, Age := (\<lambda>u. Age s u + 1)\<rparr>))"

definition wake_all :: "cond_var \<Rightarrow> cond_var" where
  "wake_all s = s\<lparr>CvPcs := (\<lambda>u. if CvPcs s u = CvAsleep then CvLocking else CvPcs s u)\<rparr>"

definition notify_wake :: "nat \<Rightarrow> u32 \<Rightarrow> cond_var \<Rightarrow> cond_var" where
  "notify_wake t V s =
     at_pc t CvInside ((if LastNotifyAll s \<noteq> V then wake_all s else s)\<lparr>LastNotifyAll := V + 1, Waits := 0\<rparr>)"

inductive cv_move :: "cond_var \<Rightarrow> cond_var \<Rightarrow> bool" where
  enter: "CvPcs s t = CvOutside \<Longrightarrow> cv_move s (at_pc t CvLocking s)"
| acquire: "CvPcs s t = CvLocking \<Longrightarrow> MutexOwner s = None \<Longrightarrow> cv_move s (at_pc t CvInside (s\<lparr>MutexOwner := Some t\<rparr>))"
| leave: "CvPcs s t = CvInside \<Longrightarrow> cv_move s (at_pc t CvOutside (s\<lparr>MutexOwner := None\<rparr>))"
| wait: "CvPcs s t = CvInside \<Longrightarrow> cv_move s (wait_store t s)"
| unlocked: "CvPcs s t = CvUnlocking V \<Longrightarrow> cv_move s (at_pc t (CvWaitCall V) (s\<lparr>MutexOwner := None\<rparr>))"
| futex: "CvPcs s t = CvWaitCall V \<Longrightarrow> cv_move s (futex_wait t V s)"
| signal: "CvPcs s t = CvAsleep \<Longrightarrow> cv_move s (at_pc t CvLocking s)"
| notify: "CvPcs s t = CvInside \<Longrightarrow> cv_move s (notify_store t s)"
| notified: "CvPcs s t = CvNotifying V \<Longrightarrow> cv_move s (notify_wake t V s)"

inductive_cases cv_moveE: "cv_move s s'"

definition cv_init :: cond_var where
  "cv_init = \<lparr>Counter = 0, LastNotifyAll = 0, MutexOwner = None, CvPcs = (\<lambda>_. CvOutside), Waits = 0, Age = (\<lambda>_. 0)\<rparr>"

text \<open>The counter has not come round: fewer than $2^{32}$ threads began to wait since the last
  notification, and it moved less often than that while a thread was on its way to the futex.\<close>

definition waiting_value :: "cond_var \<Rightarrow> nat \<Rightarrow> u32 option" where
  "waiting_value s t = (case CvPcs s t of CvUnlocking V \<Rightarrow> Some V | CvWaitCall V \<Rightarrow> Some V | _ \<Rightarrow> None)"

definition not_round :: "cond_var \<Rightarrow> bool" where
  "not_round s \<longleftrightarrow> Waits s < 2 ^ 32 \<and> (\<forall>t. waiting_value s t \<noteq> None \<longrightarrow> Age s t < 2 ^ 32)"

inductive cv_reachable :: "cond_var \<Rightarrow> bool" where
  cv_start: "cv_reachable cv_init"
| cv_go: "cv_reachable s \<Longrightarrow> cv_move s s' \<Longrightarrow> not_round s' \<Longrightarrow> cv_reachable s'"

section \<open>The invariant\<close>

definition inside :: "cvpc \<Rightarrow> bool" where
  "inside c \<longleftrightarrow> (case c of CvInside \<Rightarrow> True | CvUnlocking V \<Rightarrow> True | CvNotifying V \<Rightarrow> True | _ \<Rightarrow> False)"

definition notifying :: "cond_var \<Rightarrow> bool" where
  "notifying s \<longleftrightarrow> (\<exists>t V. CvPcs s t = CvNotifying V)"

definition cv_inv :: "cond_var \<Rightarrow> bool" where
  "cv_inv s \<longleftrightarrow> (\<forall>t. inside (CvPcs s t) \<longleftrightarrow> MutexOwner s = Some t)
    \<and> Counter s = LastNotifyAll s + of_nat (Waits s) + (if notifying s then 1 else 0)
    \<and> (\<forall>t V. CvPcs s t = CvNotifying V \<longrightarrow> Counter s = V + 1)
    \<and> (\<forall>t V. waiting_value s t = Some V \<longrightarrow> Counter s = V + of_nat (Age s t)
         \<and> (Age s t = 0 \<longrightarrow> 0 < Waits s \<and> \<not> notifying s))
    \<and> (\<forall>t. CvPcs s t = CvAsleep \<longrightarrow> 0 < Waits s)"

lemma at_pc_simps [simp]:
  "CvPcs (at_pc t c s) u = (if u = t then c else CvPcs s u)" "Counter (at_pc t c s) = Counter s"
  "LastNotifyAll (at_pc t c s) = LastNotifyAll s" "MutexOwner (at_pc t c s) = MutexOwner s"
  "Waits (at_pc t c s) = Waits s" "Age (at_pc t c s) = Age s"
  by (simp_all add: at_pc_def)

lemma waiting_at_pc: "waiting_value (at_pc t c s) u
    = (if u = t then case c of CvUnlocking V \<Rightarrow> Some V | CvWaitCall V \<Rightarrow> Some V | _ \<Rightarrow> None else waiting_value s u)"
  by (simp add: waiting_value_def)

lemma waiting_fields [simp]:
  "waiting_value (s\<lparr>Counter := a\<rparr>) u = waiting_value s u" "waiting_value (s\<lparr>Waits := b\<rparr>) u = waiting_value s u"
  "waiting_value (s\<lparr>Age := c\<rparr>) u = waiting_value s u" "waiting_value (s\<lparr>MutexOwner := d\<rparr>) u = waiting_value s u"
  "waiting_value (s\<lparr>LastNotifyAll := a\<rparr>) u = waiting_value s u" "waiting_value (wake_all s) u = waiting_value s u"
  by (simp_all add: waiting_value_def wake_all_def split: cvpc.splits)

lemma notifying_only:
  assumes "cv_inv s" "MutexOwner s = Some t"
  shows "notifying s \<longleftrightarrow> (\<exists>V. CvPcs s t = CvNotifying V)"
proof -
  have "u = t" if "CvPcs s u = CvNotifying V" for u V
  proof -
    have "inside (CvPcs s u)" using that by (simp add: inside_def)
    then show ?thesis using assms by (simp add: cv_inv_def)
  qed
  then show ?thesis unfolding notifying_def by blast
qed

lemma owner_inside: "cv_inv s \<Longrightarrow> inside (CvPcs s t) \<longleftrightarrow> MutexOwner s = Some t"
  by (simp add: cv_inv_def)

text \<open>A thread that has no part in a notification changes its place.\<close>

lemma notifying_at_pc:
  assumes "\<forall>V. CvPcs s t \<noteq> CvNotifying V" "\<forall>V. c \<noteq> CvNotifying V"
  shows "notifying (at_pc t c s) = notifying s"
  using assms unfolding notifying_def by (metis at_pc_simps(1))

lemma notifying_fields [simp]:
  "notifying (s\<lparr>Counter := a\<rparr>) = notifying s" "notifying (s\<lparr>Waits := b\<rparr>) = notifying s" "notifying (s\<lparr>Age := c\<rparr>) = notifying s"
  "notifying (s\<lparr>MutexOwner := d\<rparr>) = notifying s" "notifying (s\<lparr>LastNotifyAll := a\<rparr>) = notifying s"
  by (simp_all add: notifying_def)

lemma cv_invI:
  assumes "\<And>t. inside (CvPcs s t) \<longleftrightarrow> MutexOwner s = Some t"
    and "Counter s = LastNotifyAll s + of_nat (Waits s) + (if notifying s then 1 else 0)"
    and "\<And>t V. CvPcs s t = CvNotifying V \<Longrightarrow> Counter s = V + 1"
    and "\<And>t V. waiting_value s t = Some V \<Longrightarrow> Counter s = V + of_nat (Age s t) \<and> (Age s t = 0 \<longrightarrow> 0 < Waits s \<and> \<not> notifying s)"
    and "\<And>t. CvPcs s t = CvAsleep \<Longrightarrow> 0 < Waits s"
  shows "cv_inv s"
  using assms unfolding cv_inv_def by blast

lemma cv_invD:
  assumes "cv_inv s"
  shows "inside (CvPcs s t) \<longleftrightarrow> MutexOwner s = Some t"
    and "Counter s = LastNotifyAll s + of_nat (Waits s) + (if notifying s then 1 else 0)"
    and "CvPcs s t = CvNotifying V \<Longrightarrow> Counter s = V + 1"
    and "waiting_value s t = Some V \<Longrightarrow> Counter s = V + of_nat (Age s t)"
    and "waiting_value s t = Some V \<Longrightarrow> Age s t = 0 \<Longrightarrow> 0 < Waits s \<and> \<not> notifying s"
    and "CvPcs s t = CvAsleep \<Longrightarrow> 0 < Waits s"
  using assms unfolding cv_inv_def by blast+

text \<open>Moves that leave the counter alone: the thread's place and the owner change together.\<close>

lemma cv_inv_place:
  assumes i: "cv_inv s" and c: "\<forall>V. CvPcs s t \<noteq> CvNotifying V" "\<forall>V. c \<noteq> CvNotifying V"
    and own: "\<And>u. inside (if u = t then c else CvPcs s u) \<longleftrightarrow> m = Some u"
    and wv: "\<And>V. c = CvUnlocking V \<or> c = CvWaitCall V \<Longrightarrow> waiting_value s t = Some V"
    and sleep: "c = CvAsleep \<Longrightarrow> 0 < Waits s"
  shows "cv_inv (at_pc t c (s\<lparr>MutexOwner := m\<rparr>))"
proof -
  have w: "waiting_value (at_pc t c (s\<lparr>MutexOwner := m\<rparr>)) u = Some V \<Longrightarrow> waiting_value s u = Some V" for u V
    using wv by (auto simp: waiting_at_pc split: if_splits cvpc.splits)
  have n: "notifying (at_pc t c (s\<lparr>MutexOwner := m\<rparr>)) = notifying s" using notifying_at_pc [of "s\<lparr>MutexOwner := m\<rparr>"] c by simp
  show ?thesis
  proof (rule cv_invI)
    fix u V assume "waiting_value (at_pc t c (s\<lparr>MutexOwner := m\<rparr>)) u = Some V"
    from cv_invD(4,5) [OF i w [OF this]]
    show "Counter (at_pc t c (s\<lparr>MutexOwner := m\<rparr>)) = V + of_nat (Age (at_pc t c (s\<lparr>MutexOwner := m\<rparr>)) u)
      \<and> (Age (at_pc t c (s\<lparr>MutexOwner := m\<rparr>)) u = 0 \<longrightarrow> 0 < Waits (at_pc t c (s\<lparr>MutexOwner := m\<rparr>))
        \<and> \<not> notifying (at_pc t c (s\<lparr>MutexOwner := m\<rparr>)))"
      by (simp add: n)
  next
    fix u show "inside (CvPcs (at_pc t c (s\<lparr>MutexOwner := m\<rparr>)) u) \<longleftrightarrow> MutexOwner (at_pc t c (s\<lparr>MutexOwner := m\<rparr>)) = Some u"
      using own [of u] by (simp split: if_splits)
  next
    fix u V assume "CvPcs (at_pc t c (s\<lparr>MutexOwner := m\<rparr>)) u = CvNotifying V"
    then show "Counter (at_pc t c (s\<lparr>MutexOwner := m\<rparr>)) = V + 1" using c cv_invD(3) [OF i, of u V] by (simp split: if_splits)
  next
    fix u assume "CvPcs (at_pc t c (s\<lparr>MutexOwner := m\<rparr>)) u = CvAsleep"
    then show "0 < Waits (at_pc t c (s\<lparr>MutexOwner := m\<rparr>))" using sleep cv_invD(6) [OF i, of u] by (simp split: if_splits)
  qed (use cv_invD(2) [OF i] n in simp)
qed

lemma cv_inv_quiet:
  assumes i: "cv_inv s" and t: "\<not> inside (CvPcs s t)" "\<not> inside c" "\<forall>V. c \<noteq> CvWaitCall V" "c = CvAsleep \<Longrightarrow> 0 < Waits s"
  shows "cv_inv (at_pc t c s)"
proof -
  have "MutexOwner s \<noteq> Some t" "\<forall>V. CvPcs s t \<noteq> CvNotifying V" using cv_invD(1) [OF i, of t] t(1) by (auto simp: inside_def)
  moreover from this have "inside (if u = t then c else CvPcs s u) \<longleftrightarrow> MutexOwner s = Some u" for u
    using cv_invD(1) [OF i, of u] t(2) by (cases "u = t") simp_all
  ultimately have "cv_inv (at_pc t c (s\<lparr>MutexOwner := MutexOwner s\<rparr>))"
    using t by (intro cv_inv_place [OF i]) (auto simp: inside_def)
  then show ?thesis by simp
qed

lemma not_notifying:
  assumes "cv_inv s" "CvPcs s t = CvInside" shows "\<not> notifying s"
proof -
  have "MutexOwner s = Some t" using owner_inside [OF assms(1), of t] assms(2) by (simp add: inside_def)
  then show ?thesis using notifying_only [OF assms(1)] assms(2) by simp
qed

lemma few_none: "(of_nat n :: u32) = 0 \<Longrightarrow> n < 2 ^ 32 \<Longrightarrow> n = 0"
  by (simp add: word_of_nat_eq_0_iff) (metis gr0I nat_dvd_not_less)

lemma owner_only:
  assumes "cv_inv s" "inside (CvPcs s t)" "inside (CvPcs s u)" shows "u = t"
  using assms owner_inside by (metis option.inject)

lemma cv_inv_wait_store:
  assumes i: "cv_inv s" and t: "CvPcs s t = CvInside"
  shows "cv_inv (wait_store t s)"
proof -
  have nn: "\<not> notifying s" by (rule not_notifying [OF i t])
  let ?s = "s\<lparr>Counter := Counter s + 1, Waits := Waits s + 1, Age := (\<lambda>u. Age s u + 1)(t := 0)\<rparr>"
  have n: "\<not> notifying (at_pc t (CvUnlocking (Counter s + 1)) ?s)" using nn t by (subst notifying_at_pc) simp_all
  show ?thesis unfolding wait_store_def Let_def
  proof (rule cv_invI)
    fix u
    show "inside (CvPcs (at_pc t (CvUnlocking (Counter s + 1)) ?s) u) \<longleftrightarrow> MutexOwner (at_pc t (CvUnlocking (Counter s + 1)) ?s) = Some u"
      using cv_invD(1) [OF i, of u] t by (auto simp: inside_def)
  next
    fix u V assume "CvPcs (at_pc t (CvUnlocking (Counter s + 1)) ?s) u = CvNotifying V"
    then show "Counter (at_pc t (CvUnlocking (Counter s + 1)) ?s) = V + 1" using n unfolding notifying_def by blast
  qed (use cv_invD(2,4) [OF i] nn n in \<open>auto simp: waiting_at_pc algebra_simps split: if_splits\<close>)
qed

lemma cv_inv_notify_store:
  assumes i: "cv_inv s" and t: "CvPcs s t = CvInside"
  shows "cv_inv (notify_store t s)"
proof -
  have nn: "\<not> notifying s" by (rule not_notifying [OF i t])
  let ?s = "at_pc t (CvNotifying (Counter s)) (s\<lparr>Counter := Counter s + 1, Age := (\<lambda>u. Age s u + 1)\<rparr>)"
  have n: "notifying ?s" unfolding notifying_def by (intro exI [of _ t] exI [of _ "Counter s"]) simp
  show ?thesis unfolding notify_store_def Let_def
  proof (rule cv_invI)
    fix u
    show "inside (CvPcs ?s u) \<longleftrightarrow> MutexOwner ?s = Some u" using cv_invD(1) [OF i, of u] t by (auto simp: inside_def)
  next
    fix u V assume "CvPcs ?s u = CvNotifying V"
    then show "Counter ?s = V + 1" using nn unfolding notifying_def by (auto split: if_splits)
  qed (use cv_invD(2,4,6) [OF i] nn n in \<open>auto simp: waiting_at_pc algebra_simps split: if_splits\<close>)
qed

text \<open>The wake-up: everyone who sleeps is woken, because the counter moved since the last time.\<close>

lemma must_wake:
  assumes i: "cv_inv s" and t: "CvPcs s t = CvNotifying V" and u: "CvPcs s u = CvAsleep" and r: "Waits s < 2 ^ 32"
  shows "LastNotifyAll s \<noteq> V"
proof
  assume e: "LastNotifyAll s = V"
  have "notifying s" using t unfolding notifying_def by blast
  then have "V + 1 = LastNotifyAll s + of_nat (Waits s) + 1" using cv_invD(2,3) [OF i] t by metis
  then have "(of_nat (Waits s) :: u32) = 0" using e by simp
  then have "Waits s = 0" using r by (rule few_none)
  then show False using cv_invD(6) [OF i u] by simp
qed

lemma notify_wakes:
  assumes "cv_inv s" "CvPcs s t = CvNotifying V" "Waits s < 2 ^ 32"
  shows "CvPcs (notify_wake t V s) u \<noteq> CvAsleep"
  using must_wake [OF assms(1,2) _ assms(3)] by (auto simp: notify_wake_def wake_all_def)

lemma notify_wake_places:
  "waiting_value (notify_wake t V s) u = (if u = t then None else waiting_value s u)"
  "Counter (notify_wake t V s) = Counter s" "LastNotifyAll (notify_wake t V s) = V + 1" "Waits (notify_wake t V s) = 0"
  "Age (notify_wake t V s) = Age s" "MutexOwner (notify_wake t V s) = MutexOwner s"
  "inside (CvPcs (notify_wake t V s) u) = (u = t \<or> inside (CvPcs s u))"
  by (auto simp: notify_wake_def wake_all_def waiting_at_pc inside_def waiting_value_def split: if_splits cvpc.splits)

lemma notify_wake_notifying: "CvPcs (notify_wake t V s) u = CvNotifying W \<Longrightarrow> u \<noteq> t \<and> CvPcs s u = CvNotifying W"
  by (auto simp: notify_wake_def wake_all_def split: if_splits)

lemma cv_inv_notify_wake:
  assumes i: "cv_inv s" and t: "CvPcs s t = CvNotifying V" and r: "Waits s < 2 ^ 32"
  shows "cv_inv (notify_wake t V s)"
proof -
  have it: "inside (CvPcs s t)" using t by (simp add: inside_def)
  then have own: "inside (CvPcs s u) \<Longrightarrow> u = t" for u using owner_only [OF i it] by blast
  have none: "CvPcs (notify_wake t V s) u \<noteq> CvNotifying W" for u W
    using notify_wake_notifying [of t V s u W] own [of u] by (auto simp: inside_def)
  then have n: "\<not> notifying (notify_wake t V s)" unfolding notifying_def by blast
  have ns: "notifying s" using t unfolding notifying_def by blast
  show ?thesis
  proof (rule cv_invI)
    fix u
    show "inside (CvPcs (notify_wake t V s) u) \<longleftrightarrow> MutexOwner (notify_wake t V s) = Some u"
      using cv_invD(1) [OF i, of u] cv_invD(1) [OF i, of t] it by (auto simp only: notify_wake_places)
  next
    fix u W assume "waiting_value (notify_wake t V s) u = Some W"
    then show "Counter (notify_wake t V s) = W + of_nat (Age (notify_wake t V s) u)
      \<and> (Age (notify_wake t V s) u = 0 \<longrightarrow> 0 < Waits (notify_wake t V s) \<and> \<not> notifying (notify_wake t V s))"
      using cv_invD(4,5) [OF i, of u W] ns by (auto simp: notify_wake_places split: if_splits)
  next
    show "Counter (notify_wake t V s) = LastNotifyAll (notify_wake t V s) + of_nat (Waits (notify_wake t V s))
      + (if notifying (notify_wake t V s) then 1 else 0)"
      using cv_invD(3) [OF i t] n by (simp add: notify_wake_places)
  qed (use none notify_wakes [OF i t r] in blast)+
qed

lemma cv_inv_futex:
  assumes i: "cv_inv s" and t: "CvPcs s t = CvWaitCall V" and a: "Age s t < 2 ^ 32"
  shows "cv_inv (futex_wait t V s)"
proof -
  have w: "waiting_value s t = Some V" using t by (simp add: waiting_value_def)
  have "0 < Waits s" if "Counter s = V"
  proof -
    have "(of_nat (Age s t) :: u32) = 0" using cv_invD(4) [OF i w] that by simp
    then have "Age s t = 0" using a by (rule few_none)
    then show ?thesis using cv_invD(5) [OF i w] by blast
  qed
  then show ?thesis unfolding futex_wait_def using t by (intro cv_inv_quiet [OF i]) (auto simp: inside_def split: if_splits)
qed

lemma cv_inv_move:
  assumes i: "cv_inv s" and r: "not_round s" and m: "cv_move s s'"
  shows "cv_inv s'"
  using m
proof (elim cv_moveE)
  fix t V assume "CvPcs s t = CvWaitCall V" "s' = futex_wait t V s"
  then show ?thesis using cv_inv_futex [OF i] r by (auto simp: not_round_def waiting_value_def)
next
  fix t assume t: "CvPcs s t = CvLocking" "MutexOwner s = None" "s' = at_pc t CvInside (s\<lparr>MutexOwner := Some t\<rparr>)"
  have "\<not> inside (CvPcs s u)" for u using cv_invD(1) [OF i] t(2) by simp
  then show ?thesis unfolding t(3) using t(1) by (intro cv_inv_place [OF i]) (auto simp: inside_def)
next
  fix t assume t: "CvPcs s t = CvInside" "s' = at_pc t CvOutside (s\<lparr>MutexOwner := None\<rparr>)"
  have "inside (CvPcs s u) \<Longrightarrow> u = t" for u using owner_only [OF i, of t u] t(1) by (simp add: inside_def)
  then show ?thesis unfolding t(2) using t(1) by (intro cv_inv_place [OF i]) (auto simp: inside_def)
next
  fix t V assume t: "CvPcs s t = CvUnlocking V" "s' = at_pc t (CvWaitCall V) (s\<lparr>MutexOwner := None\<rparr>)"
  have "inside (CvPcs s u) \<Longrightarrow> u = t" for u using owner_only [OF i, of t u] t(1) by (simp add: inside_def)
  then show ?thesis unfolding t(2) using t(1) by (intro cv_inv_place [OF i]) (auto simp: inside_def waiting_value_def)
next
  fix t assume t: "CvPcs s t = CvOutside" "s' = at_pc t CvLocking s"
  then show ?thesis by (auto simp: inside_def intro!: cv_inv_quiet [OF i])
next
  fix t assume t: "CvPcs s t = CvAsleep" "s' = at_pc t CvLocking s"
  then show ?thesis by (auto simp: inside_def intro!: cv_inv_quiet [OF i])
qed (use i r cv_inv_wait_store cv_inv_notify_store cv_inv_notify_wake in \<open>auto simp: not_round_def\<close>)

lemma cv_reachable_inv: "cv_reachable s \<Longrightarrow> cv_inv s \<and> not_round s"
proof (induction rule: cv_reachable.induct)
  case cv_start
  show ?case by (simp add: cv_inv_def not_round_def cv_init_def inside_def notifying_def waiting_value_def)
next
  case cv_go
  then show ?case using cv_inv_move by blast
qed

section \<open>Nobody is forgotten\<close>

text \<open>C35: \<^verbatim>\<open>notifyAll\<close> reaches every thread that waits: in every state that any number of threads reach under
  one mutex, with every interleaving of their turns, as long as the 32-bit counter has not come round while
  a thread was on its way to sleep: when \<^verbatim>\<open>notifyAll\<close> is through, no thread sleeps in the kernel, although
  the call that wakes is left out when the counter has the value the last notification left; no thread is
  between its store and the unlock; and every thread that has unlocked but not yet called the kernel will
  return from that call at once. And only the thread that notifies has the mutex.\<close>

theorem notify_reaches_all:
  assumes "cv_reachable s" "CvPcs s t = CvNotifying V"
  shows "CvPcs (notify_wake t V s) u \<noteq> CvAsleep
    \<and> CvPcs (notify_wake t V s) u \<noteq> CvUnlocking W
    \<and> (CvPcs (notify_wake t V s) u = CvWaitCall W \<longrightarrow> CvPcs (futex_wait u W (notify_wake t V s)) u = CvLocking)
    \<and> (inside (CvPcs s u) \<longleftrightarrow> u = t)"
proof -
  have i: "cv_inv s" and r: "not_round s" using cv_reachable_inv [OF assms(1)] by blast+
  let ?s = "notify_wake t V s"
  have it: "inside (CvPcs s t)" using assms(2) by (simp add: inside_def)
  then have own: "inside (CvPcs s u) \<longleftrightarrow> u = t" using owner_only [OF i it] by blast
  have "CvPcs ?s u \<noteq> CvAsleep" using notify_wakes [OF i assms(2)] r by (simp add: not_round_def)
  moreover have "CvPcs ?s u \<noteq> CvUnlocking W"
  proof
    assume a: "CvPcs ?s u = CvUnlocking W"
    then have "CvPcs s u = CvUnlocking W" by (auto simp: notify_wake_def wake_all_def split: if_splits)
    then have "u = t" using own by (simp add: inside_def)
    then show False using a by (simp add: notify_wake_def)
  qed
  moreover have "Counter ?s \<noteq> W" if "CvPcs ?s u = CvWaitCall W"
  proof
    assume e: "Counter ?s = W"
    have "waiting_value ?s u = Some W" using that by (simp add: waiting_value_def)
    then have w: "waiting_value s u = Some W" by (simp add: notify_wake_places split: if_splits)
    have "(of_nat (Age s u) :: u32) = 0" using cv_invD(4) [OF i w] e by (simp add: notify_wake_places)
    moreover have "Age s u < 2 ^ 32" using r w unfolding not_round_def by auto
    ultimately have "Age s u = 0" by (rule few_none)
    then have "\<not> notifying s" using cv_invD(5) [OF i w] by blast
    then show False using assms(2) unfolding notifying_def by blast
  qed
  ultimately show ?thesis using own by (auto simp: futex_wait_def)
qed

text \<open>Thread 1 waits and sleeps, then thread 0 notifies.\<close>

lemma sleeper_notified: "\<exists>s. cv_reachable s \<and> CvPcs s 0 = CvNotifying 1 \<and> CvPcs s 1 = CvAsleep"
proof -
  define s1 where "s1 = at_pc 1 CvLocking cv_init"
  define s2 where "s2 = at_pc 1 CvInside (s1\<lparr>MutexOwner := Some 1\<rparr>)"
  define s3 where "s3 = wait_store 1 s2"
  define s4 where "s4 = at_pc 1 (CvWaitCall 1) (s3\<lparr>MutexOwner := None\<rparr>)"
  define s5 where "s5 = futex_wait 1 1 s4"
  define s6 where "s6 = at_pc 0 CvLocking s5"
  define s7 where "s7 = at_pc 0 CvInside (s6\<lparr>MutexOwner := Some 0\<rparr>)"
  define s8 where "s8 = notify_store 0 s7"
  note defs = s1_def s2_def s3_def s4_def s5_def s6_def s7_def s8_def wait_store_def futex_wait_def notify_store_def Let_def
  have p: "CvPcs cv_init t = CvOutside" "Counter cv_init = 0" "MutexOwner cv_init = None" "Waits cv_init = 0"
    "waiting_value cv_init t = None" for t
    by (simp_all add: cv_init_def waiting_value_def)
  have nr: "not_round s1" "not_round s2" "not_round s3" "not_round s4" "not_round s5" "not_round s6" "not_round s7" "not_round s8"
    by (simp_all add: defs not_round_def p waiting_at_pc)
  have "cv_move cv_init s1" unfolding s1_def by (rule cv_move.enter) (simp add: p)
  with cv_start have "cv_reachable s1" using nr by (blast intro: cv_go)
  moreover have "cv_move s1 s2" unfolding s2_def by (rule cv_move.acquire) (simp_all add: s1_def p)
  ultimately have "cv_reachable s2" using nr by (blast intro: cv_go)
  moreover have "cv_move s2 s3" unfolding s3_def by (rule cv_move.wait) (simp add: s2_def)
  ultimately have "cv_reachable s3" using nr by (blast intro: cv_go)
  moreover have "cv_move s3 s4" unfolding s4_def by (rule cv_move.unlocked) (simp add: defs p)
  ultimately have "cv_reachable s4" using nr by (blast intro: cv_go)
  moreover have "cv_move s4 s5" unfolding s5_def by (rule cv_move.futex) (simp add: s4_def)
  ultimately have "cv_reachable s5" using nr by (blast intro: cv_go)
  moreover have "cv_move s5 s6" unfolding s6_def by (rule cv_move.enter) (simp add: defs p)
  ultimately have "cv_reachable s6" using nr by (blast intro: cv_go)
  moreover have "cv_move s6 s7" unfolding s7_def by (rule cv_move.acquire) (simp_all add: defs p)
  ultimately have "cv_reachable s7" using nr by (blast intro: cv_go)
  moreover have "cv_move s7 s8" unfolding s8_def by (rule cv_move.notify) (simp add: s7_def)
  ultimately have "cv_reachable s8" using nr by (blast intro: cv_go)
  moreover have "CvPcs s8 0 = CvNotifying 1" "CvPcs s8 1 = CvAsleep" by (simp_all add: defs p)
  ultimately show ?thesis by blast
qed

theorem notify_reaches_all_witness:
  "\<exists>s. CvPcs s 1 = CvAsleep \<and> CvPcs s 0 = CvNotifying 1 \<and> CvPcs (notify_wake 0 1 s) 1 \<noteq> CvAsleep"
  using sleeper_notified notify_reaches_all [of _ 0 1 1] by blast

end
