(* ===== verification/PopCV.thy ===== *)
theory PopCV
  imports PrimaryLife
begin

text \<open>
  \<^verbatim>\<open>popBlocks\<close> of \<^verbatim>\<open>primary64.h\<close> when the region has a condition variable (\<^verbatim>\<open>popBlocksWithCV\<close>): one
  thread fills the free list while others wait for it. Any number of threads take turns at their critical
  sections; what all of them share is a state \<open>'h\<close>, with the thread's own operations on it as parameters,
  so that \<^verbatim>\<open>popBlocksImpl\<close>, \<^verbatim>\<open>populateFreeListAndPopBlocks\<close> and \<^verbatim>\<open>pushBlocks\<close> of the model fit.

  The property: at most one thread fills the free list, and a thread that waits waits for one that does.
\<close>

section \<open>Threads\<close>

text \<open>What a thread calls: it gives the blocks it gets, and the state after; and whether the region is
  exhausted.\<close>

record 'h pop_ops =
  PopImpl :: "'h \<Rightarrow> uptr list \<times> 'h"
  Populate :: "'h \<Rightarrow> uptr list \<times> 'h"
  IsExhausted :: "'h \<Rightarrow> bool"

text \<open>Where a thread is: outside; before the first try; at the head of the loop; with the task to fill the
  list, before it has \<^verbatim>\<open>MMLock\<close>, with it, and after, before it tells the others; before the second try;
  in the wait; awake again; at the end, with the blocks and whether the region was found exhausted; and in
  \<^verbatim>\<open>releaseToOS\<close>, which also takes \<^verbatim>\<open>MMLock\<close>.\<close>

datatype pop_pc = PopOutside | PopFirst | PopLoop | PopMMLock | PopPopulate | PopNotify "uptr list" bool
  | PopSecond | PopWaiting | PopAwake | PopDone "uptr list" bool | PopReleasing

record 'h pop_sys =
  Shared :: 'h
  isPopulatingFreeList :: bool
  MMLock :: "nat option"
  PopPcs :: "nat \<Rightarrow> pop_pc"

definition pop_goto :: "nat \<Rightarrow> pop_pc \<Rightarrow> 'h pop_sys \<Rightarrow> 'h pop_sys" where
  "pop_goto t c s = s\<lparr>PopPcs := (PopPcs s)(t := c)\<rparr>"

text \<open>\<^verbatim>\<open>FLLockCV.notifyAll\<close>.\<close>

definition pop_notifyAll :: "'h pop_sys \<Rightarrow> 'h pop_sys" where
  "pop_notifyAll s = s\<lparr>PopPcs := (\<lambda>u. if PopPcs s u = PopWaiting then PopAwake else PopPcs s u)\<rparr>"

definition try_pop :: "'h pop_ops \<Rightarrow> nat \<Rightarrow> ('h pop_sys \<Rightarrow> pop_pc) \<Rightarrow> 'h pop_sys \<Rightarrow> 'h pop_sys" where
  "try_pop ops t other s =
     (let (ToArray, h) = PopImpl ops (Shared s); s = s\<lparr>Shared := h\<rparr>
      in pop_goto t (if ToArray \<noteq> [] then PopDone ToArray False else other s) s)"

text \<open>The critical sections of \<^verbatim>\<open>popBlocksWithCV\<close>.\<close>

definition take_task :: "nat \<Rightarrow> 'h pop_sys \<Rightarrow> 'h pop_sys" where
  "take_task t s =
     (if \<not> isPopulatingFreeList s then pop_goto t PopMMLock (s\<lparr>isPopulatingFreeList := True\<rparr>) else pop_goto t PopSecond s)"

definition populate :: "'h pop_ops \<Rightarrow> nat \<Rightarrow> 'h pop_sys \<Rightarrow> 'h pop_sys" where
  "populate ops t s =
     (let RegionIsExhausted = IsExhausted ops (Shared s);
          (ToArray, h) = (if \<not> RegionIsExhausted then Populate ops (Shared s) else ([], Shared s));
          ReportRegionExhausted = (\<not> RegionIsExhausted \<and> IsExhausted ops h)
      in pop_goto t (PopNotify ToArray ReportRegionExhausted) (s\<lparr>Shared := h\<rparr>))"

definition end_task :: "nat \<Rightarrow> uptr list \<Rightarrow> bool \<Rightarrow> 'h pop_sys \<Rightarrow> 'h pop_sys" where
  "end_task t ToArray Report s =
     pop_goto t (PopDone ToArray Report) (pop_notifyAll (s\<lparr>isPopulatingFreeList := False, MMLock := None\<rparr>))"

definition second_try :: "'h pop_ops \<Rightarrow> nat \<Rightarrow> 'h pop_sys \<Rightarrow> 'h pop_sys" where
  "second_try ops t = try_pop ops t (\<lambda>s. if \<not> isPopulatingFreeList s then PopLoop else PopWaiting)"

inductive pop_move :: "'h pop_ops \<Rightarrow> 'h pop_sys \<Rightarrow> 'h pop_sys \<Rightarrow> bool" for ops where
  pop_first: "PopPcs s t = PopFirst \<Longrightarrow> pop_move ops s (try_pop ops t (\<lambda>_. PopLoop) s)"
| pop_task: "PopPcs s t = PopLoop \<Longrightarrow> pop_move ops s (take_task t s)"
| pop_mm: "PopPcs s t = PopMMLock \<Longrightarrow> MMLock s = None \<Longrightarrow> pop_move ops s (pop_goto t PopPopulate (s\<lparr>MMLock := Some t\<rparr>))"
| pop_populate: "PopPcs s t = PopPopulate \<Longrightarrow> pop_move ops s (populate ops t s)"
| pop_end: "PopPcs s t = PopNotify ToArray Report \<Longrightarrow> pop_move ops s (end_task t ToArray Report s)"
| pop_second: "PopPcs s t = PopSecond \<Longrightarrow> pop_move ops s (second_try ops t s)"
| pop_awake: "PopPcs s t = PopAwake \<Longrightarrow> pop_move ops s (try_pop ops t (\<lambda>_. PopLoop) s)"
| pop_return: "PopPcs s t = PopDone ToArray Report \<Longrightarrow> pop_move ops s (pop_goto t PopOutside s)"
| pop_released: "PopPcs s t = PopReleasing \<Longrightarrow> pop_move ops s (pop_goto t PopOutside (s\<lparr>MMLock := None, Shared := h\<rparr>))"

text \<open>What happens besides: a thread calls; a thread wakes without being notified; another gives blocks
  back under \<^verbatim>\<open>FLLock\<close> and notifies; another takes \<^verbatim>\<open>MMLock\<close> to release pages.\<close>

inductive pop_other :: "'h pop_sys \<Rightarrow> 'h pop_sys \<Rightarrow> bool" where
  pop_call: "PopPcs s t = PopOutside \<Longrightarrow> pop_other s (pop_goto t PopFirst s)"
| pop_spurious: "PopPcs s t = PopWaiting \<Longrightarrow> pop_other s (pop_goto t PopAwake s)"
| pop_push: "pop_other s (pop_notifyAll (s\<lparr>Shared := h\<rparr>))"
| pop_release: "PopPcs s t = PopOutside \<Longrightarrow> MMLock s = None \<Longrightarrow> pop_other s (pop_goto t PopReleasing (s\<lparr>MMLock := Some t\<rparr>))"

inductive_cases pop_moveE: "pop_move ops s s'"
inductive_cases pop_otherE: "pop_other s s'"

definition pop_init :: "'h \<Rightarrow> 'h pop_sys" where
  "pop_init h = \<lparr>Shared = h, isPopulatingFreeList = False, MMLock = None, PopPcs = (\<lambda>_. PopOutside)\<rparr>"

inductive pop_reachable :: "'h pop_ops \<Rightarrow> 'h pop_sys \<Rightarrow> bool" for ops where
  pop_start: "pop_reachable ops (pop_init h)"
| pop_go: "pop_reachable ops s \<Longrightarrow> pop_move ops s s' \<Longrightarrow> pop_reachable ops s'"
| pop_env: "pop_reachable ops s \<Longrightarrow> pop_other s s' \<Longrightarrow> pop_reachable ops s'"

section \<open>The invariant\<close>

definition filling :: "pop_pc \<Rightarrow> bool" where
  "filling c \<longleftrightarrow> (case c of PopMMLock \<Rightarrow> True | PopPopulate \<Rightarrow> True | PopNotify B r \<Rightarrow> True | _ \<Rightarrow> False)"

definition has_mm :: "pop_pc \<Rightarrow> bool" where
  "has_mm c \<longleftrightarrow> (case c of PopPopulate \<Rightarrow> True | PopNotify B r \<Rightarrow> True | PopReleasing \<Rightarrow> True | _ \<Rightarrow> False)"

definition pop_inv :: "'h pop_sys \<Rightarrow> bool" where
  "pop_inv s \<longleftrightarrow> (\<forall>t u. filling (PopPcs s t) \<longrightarrow> filling (PopPcs s u) \<longrightarrow> t = u)
    \<and> (isPopulatingFreeList s \<longleftrightarrow> (\<exists>t. filling (PopPcs s t)))
    \<and> (\<forall>t. PopPcs s t = PopWaiting \<longrightarrow> isPopulatingFreeList s)
    \<and> (\<forall>t. has_mm (PopPcs s t) \<longleftrightarrow> MMLock s = Some t)"

lemma pop_goto_simps [simp]:
  "PopPcs (pop_goto t c s) u = (if u = t then c else PopPcs s u)" "Shared (pop_goto t c s) = Shared s"
  "isPopulatingFreeList (pop_goto t c s) = isPopulatingFreeList s" "MMLock (pop_goto t c s) = MMLock s"
  by (simp_all add: pop_goto_def)

lemma pop_notifyAll_simps [simp]:
  "isPopulatingFreeList (pop_notifyAll s) = isPopulatingFreeList s" "MMLock (pop_notifyAll s) = MMLock s"
  "filling (PopPcs (pop_notifyAll s) u) = filling (PopPcs s u)" "has_mm (PopPcs (pop_notifyAll s) u) = has_mm (PopPcs s u)"
  "PopPcs (pop_notifyAll s) u \<noteq> PopWaiting"
  by (simp_all add: pop_notifyAll_def filling_def has_mm_def)

lemma pop_invD:
  assumes "pop_inv s"
  shows "filling (PopPcs s t) \<Longrightarrow> filling (PopPcs s u) \<Longrightarrow> t = u" "filling (PopPcs s t) \<Longrightarrow> isPopulatingFreeList s"
    "isPopulatingFreeList s \<Longrightarrow> \<exists>t. filling (PopPcs s t)" "PopPcs s t = PopWaiting \<Longrightarrow> isPopulatingFreeList s"
    "has_mm (PopPcs s t) \<longleftrightarrow> MMLock s = Some t"
  using assms unfolding pop_inv_def by blast+

lemma pop_invI:
  assumes "\<And>t u. filling (PopPcs s t) \<Longrightarrow> filling (PopPcs s u) \<Longrightarrow> t = u"
    and "isPopulatingFreeList s \<longleftrightarrow> (\<exists>t. filling (PopPcs s t))"
    and "\<And>t. PopPcs s t = PopWaiting \<Longrightarrow> isPopulatingFreeList s"
    and "\<And>t. has_mm (PopPcs s t) \<longleftrightarrow> MMLock s = Some t"
  shows "pop_inv s"
  using assms unfolding pop_inv_def by blast

lemma pop_inv_shared [simp]: "pop_inv (s\<lparr>Shared := h\<rparr>) = pop_inv s"
  by (simp add: pop_inv_def)

lemma pop_inv_notify: "pop_inv s \<Longrightarrow> pop_inv (pop_notifyAll s)"
  by (simp add: pop_inv_def)

lemma pop_inv_cong:
  assumes "pop_inv s" "isPopulatingFreeList s' = isPopulatingFreeList s" "\<And>u. filling (PopPcs s' u) = filling (PopPcs s u)"
    and "\<And>u. PopPcs s' u = PopWaiting \<Longrightarrow> isPopulatingFreeList s" "\<And>u. has_mm (PopPcs s' u) \<longleftrightarrow> MMLock s' = Some u"
  shows "pop_inv s'"
  using pop_invD [OF assms(1)] assms(4) by (intro pop_invI) (auto simp: assms(2,3,5))

text \<open>A thread moves on, without taking or ending the task to fill the list, and with the lock it has.\<close>

lemma pop_inv_goto:
  assumes i: "pop_inv s" and f: "filling c = filling (PopPcs s t)" and m: "has_mm c = has_mm (PopPcs s t)"
    and w: "c = PopWaiting \<Longrightarrow> isPopulatingFreeList s"
  shows "pop_inv (pop_goto t c s)"
proof -
  have "filling (if u = t then c else PopPcs s u) = filling (PopPcs s u)" "has_mm (if u = t then c else PopPcs s u) = has_mm (PopPcs s u)" for u
    using f m by simp_all
  then show ?thesis using pop_invD(4,5) [OF i] w by (intro pop_inv_cong [OF i]) (simp_all split: if_splits)
qed

lemma pop_inv_lock:
  assumes i: "pop_inv s" and m: "MMLock s = None" and f: "filling c = filling (PopPcs s t)" and c: "has_mm c" "c \<noteq> PopWaiting"
  shows "pop_inv (pop_goto t c (s\<lparr>MMLock := Some t\<rparr>))"
proof -
  have "filling (if u = t then c else PopPcs s u) = filling (PopPcs s u)" "\<not> has_mm (PopPcs s u)" for u
    using f m pop_invD(5) [OF i] by simp_all
  then show ?thesis using pop_invD(4) [OF i] c f by (intro pop_inv_cong [OF i]) (auto split: if_splits)
qed

lemma pop_inv_unlock:
  assumes i: "pop_inv s" and m: "has_mm (PopPcs s t)" and f: "\<not> filling (PopPcs s t)" "\<not> filling c" "\<not> has_mm c" "c \<noteq> PopWaiting"
  shows "pop_inv (pop_goto t c (s\<lparr>MMLock := None\<rparr>))"
proof -
  have "has_mm (PopPcs s u) \<longleftrightarrow> u = t" for u using pop_invD(5) [OF i] m by (metis option.inject)
  moreover have "filling (if u = t then c else PopPcs s u) = filling (PopPcs s u)" for u using f by simp
  ultimately show ?thesis using pop_invD(4) [OF i] f by (intro pop_inv_cong [OF i]) (auto split: if_splits)
qed

lemma pop_inv_task:
  assumes i: "pop_inv s" and t: "PopPcs s t = PopLoop"
  shows "pop_inv (take_task t s)"
proof (cases "isPopulatingFreeList s")
  case False
  then have "\<not> filling (PopPcs s u)" "PopPcs s u \<noteq> PopWaiting" for u using pop_invD(2,4) [OF i] by blast+
  moreover have "\<not> has_mm (PopPcs s t)" using t by (simp add: has_mm_def)
  ultimately show ?thesis using False pop_invD(5) [OF i] unfolding take_task_def
    by (intro pop_invI) (auto simp: filling_def has_mm_def split: if_splits)
next
  case True
  then show ?thesis using t unfolding take_task_def by (auto simp: filling_def has_mm_def intro!: pop_inv_goto [OF i])
qed

lemma pop_inv_end:
  assumes i: "pop_inv s" and t: "PopPcs s t = PopNotify B r"
  shows "pop_inv (end_task t B r s)"
proof -
  have "filling (PopPcs s t)" "has_mm (PopPcs s t)" using t by (simp_all add: filling_def has_mm_def)
  then have u: "filling (PopPcs s u) \<longleftrightarrow> u = t" "has_mm (PopPcs s u) \<longleftrightarrow> u = t" for u
    using pop_invD(1,5) [OF i] by (metis, metis option.inject)
  show ?thesis unfolding end_task_def
    by (rule pop_invI) (auto simp: u filling_def [of "PopDone B r"] has_mm_def [of "PopDone B r"] split: if_splits)
qed

lemma pop_inv_try:
  assumes "pop_inv s" "\<not> filling (PopPcs s t)" "\<not> has_mm (PopPcs s t)"
    and "\<And>h. \<not> filling (other (s\<lparr>Shared := h\<rparr>)) \<and> \<not> has_mm (other (s\<lparr>Shared := h\<rparr>))"
    and "\<And>h. other (s\<lparr>Shared := h\<rparr>) = PopWaiting \<Longrightarrow> isPopulatingFreeList s"
  shows "pop_inv (try_pop ops t other s)"
  using assms unfolding try_pop_def Let_def
  by (auto simp: filling_def [of "PopDone B r" for B r] has_mm_def [of "PopDone B r" for B r] split: prod.split intro!: pop_inv_goto)

lemma pop_inv_move: "pop_inv s \<Longrightarrow> pop_move ops s s' \<Longrightarrow> pop_inv s'"
proof (elim pop_moveE)
  fix t assume i: "pop_inv s" and t: "PopPcs s t = PopPopulate" and s': "s' = populate ops t s"
  show ?thesis unfolding s' populate_def Let_def
    by (auto simp: t filling_def has_mm_def i split: prod.split intro!: pop_inv_goto)
next
  fix t h assume i: "pop_inv s" and t: "PopPcs s t = PopReleasing" and s': "s' = pop_goto t PopOutside (s\<lparr>MMLock := None, Shared := h\<rparr>)"
  have "pop_inv (pop_goto t PopOutside ((s\<lparr>Shared := h\<rparr>)\<lparr>MMLock := None\<rparr>))"
    using i t by (intro pop_inv_unlock) (simp_all add: filling_def has_mm_def)
  moreover have "(s\<lparr>Shared := h\<rparr>)\<lparr>MMLock := None\<rparr> = s\<lparr>MMLock := None, Shared := h\<rparr>" by simp
  ultimately show ?thesis unfolding s' by (simp only:)
qed (auto simp: filling_def has_mm_def second_try_def pop_inv_task pop_inv_end intro: pop_inv_goto pop_inv_lock intro!: pop_inv_try split: if_splits)

lemma pop_inv_other: "pop_inv s \<Longrightarrow> pop_other s s' \<Longrightarrow> pop_inv s'"
  by (elim pop_otherE) (auto simp: filling_def has_mm_def pop_inv_notify intro: pop_inv_goto pop_inv_lock)

lemma pop_reachable_inv: "pop_reachable ops s \<Longrightarrow> pop_inv s"
proof (induction rule: pop_reachable.induct)
  case (pop_start h)
  show ?case by (simp add: pop_inv_def pop_init_def filling_def has_mm_def)
qed (use pop_inv_move pop_inv_other in blast)+

section \<open>Nobody waits in vain\<close>

text \<open>The thread that fills the list can go on, once a thread that releases pages is through.\<close>

lemma filling_ends:
  assumes i: "pop_inv s" and u: "filling (PopPcs s u)" and t: "PopPcs s t = PopWaiting"
  shows "\<exists>s'. (pop_move ops)\<^sup>*\<^sup>* s s' \<and> PopPcs s' t = PopAwake"
proof -
  have notify: "\<exists>s'. (pop_move ops)\<^sup>*\<^sup>* r s' \<and> PopPcs s' t = PopAwake"
    if "PopPcs r u = PopNotify B q" "PopPcs r t = PopWaiting" for r B q
  proof -
    have "PopPcs (end_task u B q r) t = PopAwake" using that by (auto simp: end_task_def pop_notifyAll_def)
    then show ?thesis using pop_end [OF that(1)] by blast
  qed
  have fill: "\<exists>s'. (pop_move ops)\<^sup>*\<^sup>* r s' \<and> PopPcs s' t = PopAwake"
    if "PopPcs r u = PopPopulate" "PopPcs r t = PopWaiting" for r
  proof -
    have "u \<noteq> t" using that by auto
    then have "PopPcs (populate ops u r) t = PopWaiting" "\<exists>B q. PopPcs (populate ops u r) u = PopNotify B q"
      using that by (auto simp: populate_def Let_def split: prod.split)
    then show ?thesis using notify pop_populate [OF that(1)] by (metis converse_rtranclp_into_rtranclp)
  qed
  have lock: "\<exists>s'. (pop_move ops)\<^sup>*\<^sup>* r s' \<and> PopPcs s' t = PopAwake"
    if "PopPcs r u = PopMMLock" "MMLock r = None" "PopPcs r t = PopWaiting" for r
  proof -
    let ?r = "pop_goto u PopPopulate (r\<lparr>MMLock := Some u\<rparr>)"
    have "u \<noteq> t" using that by auto
    then have "PopPcs ?r u = PopPopulate" "PopPcs ?r t = PopWaiting" using that by simp_all
    then show ?thesis using fill pop_mm [OF that(1,2)] by (metis converse_rtranclp_into_rtranclp)
  qed
  consider "PopPcs s u = PopMMLock" | "PopPcs s u = PopPopulate" | B q where "PopPcs s u = PopNotify B q"
    using u by (auto simp: filling_def split: pop_pc.splits)
  then show ?thesis
  proof cases
    case 1
    show ?thesis
    proof (cases "MMLock s")
      case (Some v)
      then have m: "has_mm (PopPcs s v)" using pop_invD(5) [OF i] by blast
      then have vu: "v \<noteq> u" "v \<noteq> t" using 1 t by (auto simp: has_mm_def)
      then have "\<not> filling (PopPcs s v)" using pop_invD(1) [OF i u] by metis
      with m vu have v: "PopPcs s v = PopReleasing" "v \<noteq> u" "v \<noteq> t"
        by (auto simp: has_mm_def filling_def split: pop_pc.splits)
      let ?r = "pop_goto v PopOutside (s\<lparr>MMLock := None, Shared := Shared s\<rparr>)"
      have "pop_move ops s ?r" by (rule pop_released [OF v(1)])
      moreover have "PopPcs ?r u = PopMMLock" "MMLock ?r = None" "PopPcs ?r t = PopWaiting" using v 1 t by simp_all
      ultimately show ?thesis using lock by (meson converse_rtranclp_into_rtranclp)
    qed (use lock 1 t in blast)
  qed (use fill notify t in blast)+
qed

text \<open>C37: In every state any number of threads reach that take blocks from one region, while others give
  blocks back, release pages or wake up by themselves: at most one thread fills the free list, and it is
  marked; a thread waits only while another one fills the list; and turns of the threads inside lead to a
  state in which it was notified. This does not depend on what the operations on the free list do.\<close>

theorem waiting_thread_is_notified:
  assumes "pop_reachable ops s"
  shows "(filling (PopPcs s u) \<longrightarrow> filling (PopPcs s v) \<longrightarrow> u = v) \<and> (filling (PopPcs s u) \<longrightarrow> isPopulatingFreeList s)
    \<and> (PopPcs s t = PopWaiting \<longrightarrow> (\<exists>u. u \<noteq> t \<and> filling (PopPcs s u))
         \<and> (\<exists>s'. (pop_move ops)\<^sup>*\<^sup>* s s' \<and> PopPcs s' t = PopAwake))"
proof -
  note i = pop_reachable_inv [OF assms]
  have "(\<exists>u. u \<noteq> t \<and> filling (PopPcs s u)) \<and> (\<exists>s'. (pop_move ops)\<^sup>*\<^sup>* s s' \<and> PopPcs s' t = PopAwake)" if t: "PopPcs s t = PopWaiting"
  proof -
    obtain u where u: "filling (PopPcs s u)" using pop_invD(3,4) [OF i] t by blast
    moreover have "u \<noteq> t" using u t by (auto simp: filling_def)
    ultimately show ?thesis using filling_ends [OF i u t] by blast
  qed
  then show ?thesis using pop_invD(1,2) [OF i] by blast
qed

text \<open>Thread 0 has the task to fill the empty list of a region of the model, thread 1 waits.\<close>

definition region_ops :: "primary_config \<Rightarrow> os \<Rightarrow> uptr \<Rightarrow> u16 \<Rightarrow> heap result pop_ops" where
  "region_ops cfg os ClassId MaxBlockCount =
     (let run = (\<lambda>f h. case bindE h f of Inl e \<Rightarrow> ([], Inl e) | Inr (B, h) \<Rightarrow> (B, Inr h))
      in \<lparr>PopImpl = run (popBlocksImpl cfg (deallocate_batch_block cfg) ClassId MaxBlockCount),
          Populate = run (populateFreeListAndPopBlocks cfg os (getBatchClassBlock cfg os) (deallocate_batch_block cfg) ClassId MaxBlockCount),
          IsExhausted = (\<lambda>h. case h of Inl e \<Rightarrow> True | Inr h \<Rightarrow> Exhausted (getRegionInfo ClassId h))\<rparr>)"

lemma two_threads_wait:
  fixes ops :: "'h pop_ops"
  assumes "PopImpl ops h = ([], h)"
  shows "\<exists>s. pop_reachable ops s \<and> filling (PopPcs s 0) \<and> PopPcs s 1 = PopWaiting"
proof -
  define s1 where "s1 = pop_goto 0 PopFirst (pop_init h)"
  define s2 where "s2 = try_pop ops 0 (\<lambda>_. PopLoop) s1"
  define s3 where "s3 = take_task 0 s2"
  define s4 where "s4 = pop_goto 1 PopFirst s3"
  define s5 where "s5 = try_pop ops 1 (\<lambda>_. PopLoop) s4"
  define s6 where "s6 = take_task 1 s5"
  define s7 where "s7 = second_try ops 1 s6"
  note defs = s1_def s2_def s3_def s4_def s5_def s6_def s7_def try_pop_def second_try_def take_task_def pop_init_def
  have sh: "Shared s1 = h" "Shared s2 = h" "Shared s3 = h" "Shared s4 = h" "Shared s5 = h" "Shared s6 = h"
    by (simp_all add: defs assms)
  have "pop_reachable ops s1" unfolding s1_def by (rule pop_env [OF pop_start [of ops h] pop_call]) (simp add: pop_init_def)
  moreover have "pop_move ops s1 s2" unfolding s2_def by (rule pop_first) (simp add: s1_def)
  moreover have "pop_move ops s2 s3" unfolding s3_def by (rule pop_task) (simp add: s2_def try_pop_def sh assms)
  moreover have "pop_other s3 s4" unfolding s4_def by (rule pop_call) (simp add: defs assms)
  moreover have "pop_move ops s4 s5" unfolding s5_def by (rule pop_first) (simp add: s4_def)
  moreover have "pop_move ops s5 s6" unfolding s6_def by (rule pop_task) (simp add: s5_def try_pop_def sh assms)
  moreover have "pop_move ops s6 s7" unfolding s7_def by (rule pop_second) (simp add: defs assms)
  ultimately have "pop_reachable ops s7" by (meson pop_go pop_env)
  moreover have "filling (PopPcs s7 0)" "PopPcs s7 1 = PopWaiting" by (simp_all add: defs assms filling_def)
  ultimately show ?thesis by blast
qed

theorem waiting_thread_is_notified_witness:
  "\<exists>s. pop_reachable (region_ops small_config small_os 1 8) s \<and> PopPcs s 1 = PopWaiting
    \<and> (\<exists>s'. (pop_move (region_ops small_config small_os 1 8))\<^sup>*\<^sup>* s s' \<and> PopPcs s' 1 = PopAwake)"
proof -
  let ?ops = "region_ops small_config small_os 1 8"
  have "PopImpl ?ops (Inr (small_heap 0)) = ([], Inr (small_heap 0))"
    by (simp add: region_ops_def popBlocksImpl_def small_heap_def getRegionInfo_def empty_region_def Let_def)
  then obtain s where "pop_reachable ?ops s" "PopPcs s 1 = PopWaiting" using two_threads_wait [of ?ops] by blast
  then show ?thesis using waiting_thread_is_notified [of ?ops s _ _ 1] by blast
qed

end
