(* ===== verification/Platform.thy ===== *)
theory Platform
  imports Secondary
begin

text \<open>
  \<^verbatim>\<open>mem_map_linux.cpp\<close>, \<^verbatim>\<open>mem_map_base.h\<close> and the rest of \<^verbatim>\<open>linux.cpp\<close>: how the allocator asks the system
  for memory, time, random bytes and output. The system is a parameter, the record \<open>sys\<close> of its calls over
  a state \<open>'k\<close> of its own.

  The properties: an object of class \<^verbatim>\<open>MemMapLinux\<close>, new or dispatched from a reservation, always describes exactly
  the pages it has, through any sequence of its operations, on a system that maps and unmaps whole pages and
  whose fixed mappings replace what they meet; and the output of a report loses nothing but line ends.
\<close>

unbundle bit_operations_syntax

section \<open>The system\<close>

datatype sys_errno = E_NOMEM | E_AGAIN | E_NOSYS | E_other

datatype prot = PROT_NONE | PROT_READ_WRITE

text \<open>\<^verbatim>\<open>mmap\<close> gets the address, the size, the protection, and whether \<^verbatim>\<open>MAP_NORESERVE\<close> and \<^verbatim>\<open>MAP_FIXED\<close> are
  set; \<^verbatim>\<open>madvise\<close> is always called with \<^verbatim>\<open>MADV_DONTNEED\<close>.\<close>

record 'k sys =
  sys_mmap :: "uptr \<Rightarrow> uptr \<Rightarrow> prot \<Rightarrow> bool \<Rightarrow> bool \<Rightarrow> 'k \<Rightarrow> (sys_errno + uptr) \<times> 'k"
  sys_munmap :: "uptr \<Rightarrow> uptr \<Rightarrow> 'k \<Rightarrow> bool \<times> 'k"
  sys_mprotect :: "uptr \<Rightarrow> uptr \<Rightarrow> prot \<Rightarrow> 'k \<Rightarrow> bool \<times> 'k"
  sys_madvise :: "uptr \<Rightarrow> uptr \<Rightarrow> 'k \<Rightarrow> sys_errno option \<times> 'k"
  sys_memset0 :: "uptr \<Rightarrow> uptr \<Rightarrow> 'k \<Rightarrow> 'k"

definition MAP_ALLOWNOMEM :: uptr where "MAP_ALLOWNOMEM = push_bit 0 1"
definition MAP_NOACCESS :: uptr where "MAP_NOACCESS = push_bit 1 1"

definition prot_of :: "uptr \<Rightarrow> prot" where
  "prot_of Flags = (if Flags AND MAP_NOACCESS \<noteq> 0 then PROT_NONE else PROT_READ_WRITE)"

text \<open>The value of \<^verbatim>\<open>PROT_READ | PROT_WRITE\<close> in a report.\<close>

definition prot_code :: "prot \<Rightarrow> s32" where
  "prot_code p = (case p of PROT_NONE \<Rightarrow> 0 | PROT_READ_WRITE \<Rightarrow> 3)"

section \<open>Mappings\<close>

text \<open>A null pointer is 0.\<close>

definition mmapWrapper :: "'k sys \<Rightarrow> uptr \<Rightarrow> uptr \<Rightarrow> uptr \<Rightarrow> 'k \<Rightarrow> (uptr \<times> 'k) result" where
  "mmapWrapper sys Addr Size Flags k =
     (case sys_mmap sys Addr Size (prot_of Flags) (Flags AND MAP_NOACCESS \<noteq> 0) (Addr \<noteq> 0) k of
        (Inl e, k) \<Rightarrow>
          if Flags AND MAP_ALLOWNOMEM = 0 \<or> e \<noteq> E_NOMEM then Inl (MapError (if e = E_NOMEM then Size else 0))
          else Inr (0, k)
      | (Inr P, k) \<Rightarrow> Inr (P, k))"

definition mapImpl :: "'k sys \<Rightarrow> uptr \<Rightarrow> uptr \<Rightarrow> uptr \<Rightarrow> mem_map \<times> 'k \<Rightarrow> (bool \<times> mem_map \<times> 'k) result" where
  "mapImpl sys Addr Size Flags = (\<lambda>(m, k).
     bindE (mmapWrapper sys Addr Size Flags k) (\<lambda>(P, k).
       Inr (if P = 0 then (False, m, k) else (True, m\<lparr>MapBase := P, MapCapacity := Size\<rparr>, k))))"

definition unmapImpl :: "'k sys \<Rightarrow> uptr \<Rightarrow> uptr \<Rightarrow> mem_map \<times> 'k \<Rightarrow> (mem_map \<times> 'k) result" where
  "unmapImpl sys Addr Size = (\<lambda>(m, k).
     let m = (if Size = MapCapacity m then m\<lparr>MapBase := 0, MapCapacity := 0\<rparr>
              else m\<lparr>MapBase := (if MapBase m = Addr then Addr + Size else MapBase m), MapCapacity := MapCapacity m - Size\<rparr>);
         (ok, k) = sys_munmap sys Addr Size k
     in if \<not> ok then Inl (UnmapError Addr Size) else Inr (m, k))"

definition unmap_all :: "'k sys \<Rightarrow> mem_map \<times> 'k \<Rightarrow> (mem_map \<times> 'k) result" where
  "unmap_all sys st = unmapImpl sys (MapBase (fst st)) (MapCapacity (fst st)) st"

definition remapImpl :: "'k sys \<Rightarrow> uptr \<Rightarrow> uptr \<Rightarrow> uptr \<Rightarrow> mem_map \<times> 'k \<Rightarrow> (bool \<times> mem_map \<times> 'k) result" where
  "remapImpl sys Addr Size Flags = (\<lambda>(m, k).
     bindE (mmapWrapper sys Addr Size Flags k) (\<lambda>(P, k). if P \<noteq> Addr then Inl (MapError 0) else Inr (True, m, k)))"

definition setMemoryPermissionImpl :: "'k sys \<Rightarrow> uptr \<Rightarrow> uptr \<Rightarrow> uptr \<Rightarrow> 'k \<Rightarrow> 'k result" where
  "setMemoryPermissionImpl sys Addr Size Flags k =
     (let (ok, k) = sys_mprotect sys Addr Size (prot_of Flags) k
      in if \<not> ok then Inl (ProtectError Addr Size (prot_code (prot_of Flags))) else Inr k)"

text \<open>The loop ends with the first answer other than \<^verbatim>\<open>EAGAIN\<close>, if there is one.\<close>

partial_function (option) madvise_loop :: "'k sys \<Rightarrow> uptr \<Rightarrow> uptr \<Rightarrow> 'k \<Rightarrow> (bool \<times> 'k) option" where
  "madvise_loop sys Addr Size k =
     (case sys_madvise sys Addr Size k of
        (Some E_AGAIN, k) \<Rightarrow> madvise_loop sys Addr Size k
      | (r, k) \<Rightarrow> Some (r = None, k))"

definition releaseAndZeroPagesToOSImpl :: "'k sys \<Rightarrow> uptr \<Rightarrow> uptr \<Rightarrow> 'k \<Rightarrow> 'k option" where
  "releaseAndZeroPagesToOSImpl sys From Size k =
     map_option (\<lambda>(ok, k). if ok then k else sys_memset0 sys From Size k) (madvise_loop sys From Size k)"

text \<open>\<^verbatim>\<open>ReservedMemoryLinux\<close>: its state is a range like that of a mapping.\<close>

definition createImpl :: "'k sys \<Rightarrow> uptr \<Rightarrow> uptr \<Rightarrow> uptr \<Rightarrow> mem_map \<times> 'k \<Rightarrow> (bool \<times> mem_map \<times> 'k) result" where
  "createImpl sys Addr Size Flags = (\<lambda>(r, k).
     bindE (mapImpl sys Addr Size (Flags OR MAP_NOACCESS) (\<lparr>MapBase = 0, MapCapacity = 0\<rparr>, k)) (\<lambda>(ok, m, k).
       Inr (if \<not> ok then (False, r, k) else (True, r\<lparr>MapBase := MapBase m, MapCapacity := MapCapacity m\<rparr>, k))))"

definition releaseImpl :: "'k sys \<Rightarrow> mem_map \<times> 'k \<Rightarrow> (mem_map \<times> 'k) result" where
  "releaseImpl sys = (\<lambda>(r, k).
     let (ok, k) = sys_munmap sys (MapBase r) (MapCapacity r) k
     in if \<not> ok then Inl (UnmapError (MapBase r) (MapCapacity r)) else Inr (r, k))"

definition dispatchImpl :: "uptr \<Rightarrow> uptr \<Rightarrow> mem_map" where
  "dispatchImpl Addr Size = \<lparr>MapBase = Addr, MapCapacity = Size\<rparr>"

definition mem_map_isAllocated :: "mem_map \<Rightarrow> bool" where
  "mem_map_isAllocated m \<longleftrightarrow> MapBase m \<noteq> 0"

section \<open>Time, randomness and output\<close>

text \<open>Seconds and nanoseconds of \<^verbatim>\<open>clock_gettime\<close>.\<close>

definition getMonotonicTime :: "u64 \<times> u64 \<Rightarrow> u64" where
  "getMonotonicTime TS = fst TS * 1000000000 + snd TS"

definition getNumberOfCPUs :: "nat option \<Rightarrow> u32" where
  "getNumberOfCPUs affinity = (case affinity of None \<Rightarrow> 0 | Some n \<Rightarrow> of_nat n)"

definition MaxRandomLength :: uptr where "MaxRandomLength = 256"

text \<open>\<open>getrandom\<close> gives an error or how many bytes were read; \<open>urandom\<close> is whether \<^verbatim>\<open>/dev/urandom\<close> could be
  opened, and how many bytes were read from it (-1 on error).\<close>

definition getRandom :: "bool \<Rightarrow> uptr \<Rightarrow> (sys_errno + int) \<Rightarrow> int option \<Rightarrow> bool" where
  "getRandom Buffer Length getrandom urandom =
     (if \<not> Buffer \<or> Length = 0 \<or> Length > MaxRandomLength then False
      else if getrandom = Inr (sint Length) then True
      else if getrandom \<noteq> Inl E_NOSYS then False
      else case urandom of None \<Rightarrow> False | Some ReadBytes \<Rightarrow> ReadBytes = sint Length)"

definition LogMaxLength :: nat where "LogMaxLength = 1024"

text \<open>The last place from \<open>P\<close> down to 1 where there is a line end, or 0.\<close>

fun find_newline :: "string \<Rightarrow> nat \<Rightarrow> nat" where
  "find_newline Buffer 0 = 0"
| "find_newline Buffer (Suc P) = (if Buffer ! Suc P = CHR 0x0A then Suc P else find_newline Buffer P)"

lemma find_newline_le: "find_newline Buffer P \<le> P"
  by (induction P) auto

text \<open>What is logged, when there is a log; one call for each element.\<close>

function outputRaw :: "string \<Rightarrow> string list" where
  "outputRaw Buffer =
     (if LogMaxLength < length Buffer then
        let P = find_newline Buffer (LogMaxLength - 1)
        in if P = 0 then [Buffer] else take P Buffer # outputRaw (drop (P + 1) Buffer)
      else [Buffer])"
  by pat_completeness auto

termination by (relation "measure length") auto

declare outputRaw.simps [simp del]

section \<open>Logging\<close>

text \<open>The pieces that are logged, with a line end between each two, are the text; all but the last fit the
  buffer that is given to the log.\<close>

lemma find_newline_found: "find_newline Buffer P \<noteq> 0 \<Longrightarrow> Buffer ! find_newline Buffer P = CHR 0x0A"
  by (induction P) auto

fun join_lines :: "string list \<Rightarrow> string" where
  "join_lines [] = []"
| "join_lines [l] = l"
| "join_lines (l # ls) = l @ CHR 0x0A # join_lines ls"

lemma outputRaw_keeps_text:
  "outputRaw Buffer \<noteq> [] \<and> join_lines (outputRaw Buffer) = Buffer \<and> (\<forall>l \<in> set (butlast (outputRaw Buffer)). length l < LogMaxLength)"
proof (induction Buffer rule: outputRaw.induct)
  case (1 Buffer)
  let ?P = "find_newline Buffer (LogMaxLength - 1)"
  show ?case
  proof (cases "LogMaxLength < length Buffer \<and> ?P \<noteq> 0")
    case True
    let ?rest = "outputRaw (drop (?P + 1) Buffer)"
    have IH: "?rest \<noteq> []" "join_lines ?rest = drop (?P + 1) Buffer" "\<forall>l \<in> set (butlast ?rest). length l < LogMaxLength"
      using 1 True by (metis less_irrefl)+
    have e: "outputRaw Buffer = take ?P Buffer # ?rest" using True by (subst outputRaw.simps) (simp add: Let_def)
    have P: "?P < LogMaxLength" "?P < length Buffer"
      using find_newline_le [of Buffer "LogMaxLength - 1"] True by (auto simp: LogMaxLength_def)
    have "join_lines (outputRaw Buffer) = take ?P Buffer @ CHR 0x0A # drop (?P + 1) Buffer"
      using IH(1,2) e by (cases ?rest) simp_all
    also have "\<dots> = Buffer" using id_take_nth_drop [OF P(2)] find_newline_found [of Buffer "LogMaxLength - 1"] True by simp
    finally show ?thesis using e IH P(1) by (auto simp: butlast_append)
  next
    case False
    then have "outputRaw Buffer = [Buffer]" by (subst outputRaw.simps) (auto simp: Let_def)
    then show ?thesis by simp
  qed
qed

section \<open>A mapping describes its pages\<close>

text \<open>Pages are numbered; a page has \<open>2 ^ s\<close> bytes. The pages that hold a part of the \<open>S\<close> bytes from \<open>A\<close> on.\<close>

definition page_set :: "nat \<Rightarrow> uptr \<Rightarrow> uptr \<Rightarrow> nat set" where
  "page_set s A S = {unat A div 2 ^ s ..< (unat A + unat S + 2 ^ s - 1) div 2 ^ s}"

definition page_aligned :: "nat \<Rightarrow> uptr \<Rightarrow> bool" where
  "page_aligned s A \<longleftrightarrow> 2 ^ s dvd unat A"

abbreviation map_pages :: "nat \<Rightarrow> mem_map \<Rightarrow> nat set" where
  "map_pages s m \<equiv> page_set s (MapBase m) (MapCapacity m)"

text \<open>
  What the manual pages of the system promise about the set of mapped pages:
  \<^item> \<^verbatim>\<open>mmap\<close> gives an aligned address and maps all pages of the range, whole; without \<^verbatim>\<open>MAP_FIXED\<close> they were not
    mapped before, with it the address is the one that was asked for, and what was mapped there is
    replaced; a size of 0 and an address for \<^verbatim>\<open>MAP_FIXED\<close> that is not aligned are errors. When it fails nothing changes,
    but a call with \<^verbatim>\<open>MAP_FIXED\<close> may already have discarded pages of the range;
  \<^item> \<^verbatim>\<open>munmap\<close> removes all pages that hold a part of the range; an address that is not aligned and a
    size of 0 are errors;
  \<^item> \<^verbatim>\<open>mprotect\<close>, \<^verbatim>\<open>madvise\<close> with \<^verbatim>\<open>MADV_DONTNEED\<close> and a write map and unmap nothing.\<close>

definition sys_laws :: "nat \<Rightarrow> 'k sys \<Rightarrow> ('k \<Rightarrow> nat set) \<Rightarrow> bool" where
  "sys_laws s sys pages \<longleftrightarrow>
     (\<forall>Addr Size p nr fx k r k'. sys_mmap sys Addr Size p nr fx k = (r, k') \<longrightarrow>
        (case r of
           Inl e \<Rightarrow> pages k' \<subseteq> pages k \<and> pages k - (if fx then page_set s Addr Size else {}) \<subseteq> pages k'
         | Inr P \<Rightarrow> Size \<noteq> 0 \<and> page_aligned s P \<and> unat P + unat Size < 2 ^ 64 \<and> pages k' = pages k \<union> page_set s P Size
             \<and> (if fx then P = Addr else P \<noteq> 0 \<and> page_set s P Size \<inter> pages k = {})))
     \<and> (\<forall>Addr Size k k'. sys_munmap sys Addr Size k = (True, k') \<longrightarrow>
          page_aligned s Addr \<and> Size \<noteq> 0 \<and> pages k' = pages k - page_set s Addr Size)
     \<and> (\<forall>Addr Size p k. pages (snd (sys_mprotect sys Addr Size p k)) = pages k)
     \<and> (\<forall>Addr Size k. pages (snd (sys_madvise sys Addr Size k)) = pages k)
     \<and> (\<forall>Addr Size k. pages (sys_memset0 sys Addr Size k) = pages k)"

text \<open>The operations of \<^verbatim>\<open>MemMapBase\<close> with their arguments.\<close>

datatype mm_op = OpMap uptr uptr uptr | OpUnmap uptr uptr | OpUnmapAll
  | OpRemap uptr uptr uptr | OpProtect uptr uptr uptr | OpRelease uptr uptr

text \<open>
  The conditions of the \<^verbatim>\<open>DCHECK\<close>s. For \<^verbatim>\<open>unmap\<close> the comment at its declaration asks for more: what is unmapped is a part
  of the mapping, \<open>S \<le> MapCapacity m\<close>, and what remains is contiguous pages, so that a part cut off at
  the beginning, but not all, is whole pages.\<close>

definition in_map :: "uptr \<Rightarrow> uptr \<Rightarrow> mem_map \<Rightarrow> bool" where
  "in_map A S m \<longleftrightarrow> A \<ge> MapBase m \<and> A + S \<le> MapBase m + MapCapacity m"

definition mm_allowed :: "nat \<Rightarrow> mm_op \<Rightarrow> mem_map \<Rightarrow> bool" where
  "mm_allowed s op m = (case op of
     OpMap A S Flags \<Rightarrow> \<not> mem_map_isAllocated m
   | OpUnmap A S \<Rightarrow> mem_map_isAllocated m \<and> (A = MapBase m \<or> A + S = MapBase m + MapCapacity m)
       \<and> S \<le> MapCapacity m \<and> (A = MapBase m \<and> S \<noteq> MapCapacity m \<longrightarrow> page_aligned s S)
   | OpUnmapAll \<Rightarrow> mem_map_isAllocated m
   | OpRemap A S Flags \<Rightarrow> mem_map_isAllocated m \<and> in_map A S m
   | OpProtect A S Flags \<Rightarrow> mem_map_isAllocated m \<and> in_map A S m
   | OpRelease A S \<Rightarrow> mem_map_isAllocated m \<and> in_map A S m)"

definition mm_run :: "'k sys \<Rightarrow> mm_op \<Rightarrow> mem_map \<times> 'k \<Rightarrow> (mem_map \<times> 'k) result" where
  "mm_run sys op = (\<lambda>(m, k). case op of
     OpMap A S Flags \<Rightarrow> bindE (mapImpl sys A S Flags (m, k)) (\<lambda>(_, st). Inr st)
   | OpUnmap A S \<Rightarrow> unmapImpl sys A S (m, k)
   | OpUnmapAll \<Rightarrow> unmap_all sys (m, k)
   | OpRemap A S Flags \<Rightarrow> bindE (remapImpl sys A S Flags (m, k)) (\<lambda>(_, st). Inr st)
   | OpProtect A S Flags \<Rightarrow> bindE (setMemoryPermissionImpl sys A S Flags k) (\<lambda>k. Inr (m, k))
   | OpRelease A S \<Rightarrow> (case releaseAndZeroPagesToOSImpl sys A S k of None \<Rightarrow> Inl Diverges | Some k \<Rightarrow> Inr (m, k)))"

text \<open>A sequence of operations, none of which ends in a report.\<close>

inductive mm_steps :: "nat \<Rightarrow> 'k sys \<Rightarrow> mm_op list \<Rightarrow> mem_map \<times> 'k \<Rightarrow> mem_map \<times> 'k \<Rightarrow> bool" for s sys where
  mm_done: "mm_steps s sys [] st st"
| mm_next: "mm_steps s sys ops st (m, k) \<Longrightarrow> mm_allowed s op m \<Longrightarrow> mm_run sys op (m, k) = Inr st'
    \<Longrightarrow> mm_steps s sys (ops @ [op]) st st'"

text \<open>Reservations, and where an object comes from: it is made empty, or it is a range of a reservation.\<close>

definition reserved :: "nat \<Rightarrow> ('k \<Rightarrow> nat set) \<Rightarrow> mem_map \<Rightarrow> 'k \<Rightarrow> bool" where
  "reserved s pages r k \<longleftrightarrow> MapBase r \<noteq> 0 \<and> page_aligned s (MapBase r) \<and> unat (MapBase r) + unat (MapCapacity r) < 2 ^ 64
     \<and> map_pages s r \<subseteq> pages k"

definition mm_start :: "nat \<Rightarrow> ('k \<Rightarrow> nat set) \<Rightarrow> mem_map \<Rightarrow> 'k \<Rightarrow> bool" where
  "mm_start s pages m k \<longleftrightarrow> m = \<lparr>MapBase = 0, MapCapacity = 0\<rparr>
     \<or> (\<exists>r A S. reserved s pages r k \<and> m = dispatchImpl A S \<and> S \<noteq> 0 \<and> page_aligned s A
          \<and> MapBase r \<le> A \<and> unat A + unat S \<le> unat (MapBase r) + unat (MapCapacity r))"

text \<open>The pages that mappings at a given address may have replaced.\<close>

definition replaced :: "nat \<Rightarrow> mm_op list \<Rightarrow> nat set" where
  "replaced s ops = \<Union> (set (map (\<lambda>op. case op of OpMap A S Flags \<Rightarrow> if A \<noteq> 0 then page_set s A S else {} | _ \<Rightarrow> {}) ops))"

definition mm_ok :: "nat \<Rightarrow> ('k \<Rightarrow> nat set) \<Rightarrow> mem_map \<times> 'k \<Rightarrow> bool" where
  "mm_ok s pages = (\<lambda>(m, k). map_pages s m \<subseteq> pages k
     \<and> (if MapCapacity m = 0 then MapBase m = 0
        else MapBase m \<noteq> 0 \<and> page_aligned s (MapBase m) \<and> unat (MapBase m) + unat (MapCapacity m) < 2 ^ 64))"

text \<open>The mapped pages that are not the object's.\<close>

definition other_pages :: "nat \<Rightarrow> ('k \<Rightarrow> nat set) \<Rightarrow> mem_map \<times> 'k \<Rightarrow> nat set" where
  "other_pages s pages = (\<lambda>(m, k). pages k - map_pages s m)"

subsection \<open>Ranges of pages\<close>

lemma page_set_empty [simp]: "page_set s 0 0 = {}"
  by (simp add: page_set_def)

lemma ceil_aligned: "2 ^ s dvd n \<Longrightarrow> (n + 2 ^ s - 1) div 2 ^ s = (n div 2 ^ s :: nat)"
proof -
  assume "2 ^ s dvd n"
  then obtain a where a: "n = 2 ^ s * a" by (auto simp: dvd_def)
  have P: "0 < (2 :: nat) ^ s" by simp
  then have "n + 2 ^ s - 1 = 2 ^ s - 1 + 2 ^ s * a" unfolding a by simp
  also have "\<dots> div 2 ^ s = (2 ^ s - 1) div 2 ^ s + a" by (subst div_mult_self2) simp_all
  finally show ?thesis using P by (simp add: a)
qed

lemma page_set_nonempty: "S \<noteq> 0 \<Longrightarrow> page_aligned s A \<Longrightarrow> page_set s A S \<noteq> {}"
proof -
  assume S: "S \<noteq> 0" and A: "page_aligned s A"
  obtain a where a: "unat A = 2 ^ s * a" using A by (auto simp: page_aligned_def dvd_def)
  have "0 < unat S" using S by (simp add: unat_gt_0)
  then have "2 ^ s * (a + 1) \<le> unat A + unat S + 2 ^ s - 1" unfolding a by simp
  then have "a + 1 \<le> (unat A + unat S + 2 ^ s - 1) div 2 ^ s" by (simp add: less_eq_div_iff_mult_less_eq mult.commute)
  then show ?thesis unfolding page_set_def a by simp
qed

lemma page_set_sub:
  assumes "unat B \<le> unat A" "unat A + unat S \<le> unat B + unat C"
  shows "page_set s A S \<subseteq> page_set s B C"
  using div_le_mono [OF assms(1), of "2 ^ s"] div_le_mono [OF add_le_mono1 [OF assms(2)], of "2 ^ s - 1" "2 ^ s"]
  by (auto simp: page_set_def)

text \<open>What remains when a range is cut off at the beginning, whole pages, or at the end, from a page on.\<close>

lemma page_set_cut_front:
  assumes "page_aligned s B" "page_aligned s n" "unat n \<le> unat C" "unat B + unat C < 2 ^ 64"
  shows "unat (B + n) = unat B + unat n" "page_aligned s (B + n)"
    "page_set s B n \<subseteq> page_set s B C" "page_set s B C - page_set s B n = page_set s (B + n) (C - n)"
proof -
  show u: "unat (B + n) = unat B + unat n" using assms(3,4) by (intro unat_add_lem [THEN iffD1]) simp
  have d: "2 ^ s dvd unat B + unat n" using assms(1,2) by (simp add: page_aligned_def)
  then show "page_aligned s (B + n)" by (simp add: page_aligned_def u)
  show "page_set s B n \<subseteq> page_set s B C" using assms(3) by (intro page_set_sub) simp_all
  have c: "unat (C - n) = unat C - unat n" using assms(3) by (intro unat_sub) (simp add: word_le_nat_alt)
  have "unat B + unat n + (unat C - unat n) = unat B + unat C" using assms(3) by simp
  moreover have "unat B div 2 ^ s \<le> (unat B + unat n) div 2 ^ s" by (intro div_le_mono) simp
  ultimately show "page_set s B C - page_set s B n = page_set s (B + n) (C - n)"
    unfolding page_set_def u c ceil_aligned [OF d] by auto
qed

lemma page_set_cut_back:
  assumes "page_aligned s A" "A + n = B + C" "unat n \<le> unat C" "unat B + unat C < 2 ^ 64"
  shows "page_set s A n \<subseteq> page_set s B C" "page_set s B C - page_set s A n = page_set s B (C - n)"
proof -
  have c: "unat (C - n) = unat C - unat n" using assms(3) by (intro unat_sub) (simp add: word_le_nat_alt)
  have "A = B + (C - n)" using assms(2) by (simp add: algebra_simps)
  moreover have "unat (B + (C - n)) = unat B + unat (C - n)" using assms(3,4) c by (intro unat_add_lem [THEN iffD1]) simp
  ultimately have A: "unat A = unat B + unat C - unat n" using c assms(3) by simp
  then have e: "unat A + unat n = unat B + unat C" "unat B + unat (C - n) = unat A" using assms(3) c by simp_all
  show "page_set s A n \<subseteq> page_set s B C" using e A assms(3) by (intro page_set_sub) simp_all
  have d: "2 ^ s dvd unat A" using assms(1) by (simp add: page_aligned_def)
  have "unat A div 2 ^ s \<le> (unat B + unat C + 2 ^ s - 1) div 2 ^ s"
  proof (rule div_le_mono)
    have "(1 :: nat) \<le> 2 ^ s" by simp
    then show "unat A \<le> unat B + unat C + 2 ^ s - 1" using e(1) by linarith
  qed
  moreover have "unat B div 2 ^ s \<le> unat A div 2 ^ s" using A assms(3) by (intro div_le_mono) simp
  ultimately show "page_set s B C - page_set s A n = page_set s B (C - n)"
    unfolding page_set_def e ceil_aligned [OF d] by auto
qed

subsection \<open>The operations\<close>

lemma sys_lawsD:
  assumes "sys_laws s sys pages"
  shows "sys_mmap sys Addr Size p nr fx k = (Inl e, k') \<Longrightarrow>
      pages k' \<subseteq> pages k \<and> pages k - (if fx then page_set s Addr Size else {}) \<subseteq> pages k'"
    and "sys_mmap sys Addr Size p nr fx k = (Inr P, k') \<Longrightarrow> Size \<noteq> 0 \<and> page_aligned s P \<and> unat P + unat Size < 2 ^ 64
      \<and> pages k' = pages k \<union> page_set s P Size \<and> (if fx then P = Addr else P \<noteq> 0 \<and> page_set s P Size \<inter> pages k = {})"
    and "sys_munmap sys Addr Size k = (True, k') \<Longrightarrow>
      page_aligned s Addr \<and> Size \<noteq> 0 \<and> pages k' = pages k - page_set s Addr Size"
    and "pages (snd (sys_mprotect sys Addr Size p k)) = pages k"
    and "pages (snd (sys_madvise sys Addr Size k)) = pages k"
    and "pages (sys_memset0 sys Addr Size k) = pages k"
  using assms unfolding sys_laws_def by (fastforce split: sum.splits)+

lemma madvise_keeps:
  assumes "sys_laws s sys pages" "madvise_loop sys Addr Size k = Some (ok, k')"
  shows "pages k' = pages k"
proof -
  have step: "pages k2 = pages k1" if "sys_madvise sys Addr Size k1 = (r, k2)" for Addr Size k1 k2 r
    using sys_lawsD(5) [OF assms(1), of Addr Size k1] that by simp
  have "(\<forall>Addr Size k1 r k2. sys_madvise sys Addr Size k1 = (r, k2) \<longrightarrow> pages k2 = pages k1) \<longrightarrow> pages (snd (ok, k')) = pages k"
    by (rule madvise_loop.raw_induct [OF _ assms(2), where P = "\<lambda>sys Addr Size k r.
          (\<forall>Addr Size k1 r k2. sys_madvise sys Addr Size k1 = (r, k2) \<longrightarrow> pages k2 = pages k1) \<longrightarrow> pages (snd r) = pages k"])
      (fastforce split: prod.splits option.splits sys_errno.splits)
  then show ?thesis using step by auto
qed

text \<open>An operation keeps the object's pages mapped, and of the others it loses at most those it may replace.\<close>

definition mm_keeps :: "nat \<Rightarrow> ('k \<Rightarrow> nat set) \<Rightarrow> nat set \<Rightarrow> mem_map \<times> 'k \<Rightarrow> mem_map \<times> 'k \<Rightarrow> bool" where
  "mm_keeps s pages R st st' \<longleftrightarrow> mm_ok s pages st' \<and> other_pages s pages st' \<subseteq> other_pages s pages st
     \<and> other_pages s pages st - R \<subseteq> other_pages s pages st'"

lemma mm_keeps_same: "mm_ok s pages (m, k) \<Longrightarrow> pages k' = pages k \<Longrightarrow> mm_keeps s pages R (m, k) (m, k')"
  by (auto simp: mm_keeps_def mm_ok_def other_pages_def)

lemma unmap_keeps:
  assumes L: "sys_laws s sys pages" and i: "mm_ok s pages (m, k)" and al: "mm_allowed s (OpUnmap A n) m"
    and r: "unmapImpl sys A n (m, k) = Inr (m', k')"
  shows "mm_keeps s pages R (m, k) (m', k')"
proof -
  let ?B = "MapBase m" and ?C = "MapCapacity m"
  have p: "page_aligned s A" "n \<noteq> 0" "pages k' = pages k - page_set s A n"
    using r sys_lawsD(3) [OF L, of A n k] by (auto simp: unmapImpl_def Let_def split: prod.splits if_splits)
  have m': "m' = (if n = ?C then m\<lparr>MapBase := 0, MapCapacity := 0\<rparr>
      else m\<lparr>MapBase := (if ?B = A then A + n else ?B), MapCapacity := ?C - n\<rparr>)"
    using r by (simp add: unmapImpl_def Let_def split: prod.splits if_splits)
  have i': "page_set s ?B ?C \<subseteq> pages k" "?B \<noteq> 0" "page_aligned s ?B" "unat ?B + unat ?C < 2 ^ 64"
    using i al by (auto simp: mm_ok_def mm_allowed_def mem_map_isAllocated_def split: if_splits)
  have n: "unat n \<le> unat ?C" and A: "A = ?B \<or> A + n = ?B + ?C" and cut: "A = ?B \<and> n \<noteq> ?C \<longrightarrow> page_aligned s n"
    using al by (auto simp: mm_allowed_def word_le_nat_alt)
  have "page_set s A n \<subseteq> page_set s ?B ?C \<and> page_set s ?B ?C - page_set s A n = map_pages s m'
    \<and> (if MapCapacity m' = 0 then MapBase m' = 0
       else MapBase m' \<noteq> 0 \<and> page_aligned s (MapBase m') \<and> unat (MapBase m') + unat (MapCapacity m') < 2 ^ 64)"
  proof (cases "n = ?C")
    case True
    then show ?thesis using A m' by auto
  next
    case False
    have c: "unat (?C - n) = unat ?C - unat n" using n by (intro unat_sub) (simp add: word_le_nat_alt)
    show ?thesis
    proof (cases "A = ?B")
      case True
      note f = page_set_cut_front [OF i'(3) _ n i'(4)]
      have n': "page_aligned s n" using cut True False by simp
      have "?B + n \<noteq> 0" using f(1) [OF n'] i'(2) by (metis add_is_0 unat_0 unat_eq_zero)
      then show ?thesis using True False m' f [OF n'] i'(4) c n by auto
    next
      case F: False
      then have "A + n = ?B + ?C" using A by simp
      note b = page_set_cut_back [OF p(1) this n i'(4)]
      show ?thesis using F False m' b i' c n by auto
    qed
  qed
  then show ?thesis using p(3) i'(1) by (auto simp: mm_keeps_def mm_ok_def other_pages_def)
qed

lemma map_keeps:
  assumes L: "sys_laws s sys pages" and i: "mm_ok s pages (m, k)" and "\<not> mem_map_isAllocated m"
    and r: "mapImpl sys A S Flags (m, k) = Inr (ok, m', k')"
  shows "mm_keeps s pages (if A \<noteq> 0 then page_set s A S else {}) (m, k) (m', k')"
proof -
  have o: "MapBase m = 0" "MapCapacity m = 0" using i assms(3) by (auto simp: mm_ok_def mem_map_isAllocated_def split: if_splits)
  obtain e k1 where c: "sys_mmap sys A S (prot_of Flags) (Flags AND MAP_NOACCESS \<noteq> 0) (A \<noteq> 0) k = (e, k1)" by fastforce
  show ?thesis
  proof (cases e)
    case (Inl x)
    then have "m' = m" "k' = k1" using r c by (auto simp: mapImpl_def mmapWrapper_def split: if_splits)
    with sys_lawsD(1) [OF L c [unfolded Inl]] show ?thesis by (simp add: mm_keeps_def mm_ok_def other_pages_def o)
  next
    case (Inr P)
    note p = sys_lawsD(2) [OF L c [unfolded Inr]]
    have P: "P \<noteq> 0" using p by (auto split: if_splits)
    then have "m' = m\<lparr>MapBase := P, MapCapacity := S\<rparr>" "k' = k1" using r c Inr by (auto simp: mapImpl_def mmapWrapper_def)
    then show ?thesis using p P by (auto simp: mm_keeps_def mm_ok_def other_pages_def o split: if_splits)
  qed
qed

lemma remap_keeps:
  assumes L: "sys_laws s sys pages" and i: "mm_ok s pages (m, k)" and al: "mm_allowed s (OpRemap A S Flags) m"
    and r: "remapImpl sys A S Flags (m, k) = Inr (ok, m', k')"
  shows "mm_keeps s pages R (m, k) (m', k')"
proof -
  have i': "MapBase m \<noteq> 0" "unat (MapBase m) + unat (MapCapacity m) < 2 ^ 64" "MapBase m \<le> A"
    "A + S \<le> MapBase m + MapCapacity m" "map_pages s m \<subseteq> pages k"
    using i al by (auto simp: mm_ok_def mm_allowed_def in_map_def mem_map_isAllocated_def split: if_splits)
  have A: "A \<noteq> 0" using i'(1,3) by (metis word_le_0_iff)
  obtain e k1 where c: "sys_mmap sys A S (prot_of Flags) (Flags AND MAP_NOACCESS \<noteq> 0) (A \<noteq> 0) k = (e, k1)" by fastforce
  show ?thesis
  proof (cases e)
    case (Inl x)
    then show ?thesis using A r c by (auto simp: remapImpl_def mmapWrapper_def split: if_splits)
  next
    case (Inr P)
    note p = sys_lawsD(2) [OF L c [unfolded Inr]]
    have e: "P = A" "m' = m" "k' = k1" using p A r c Inr by (auto simp: remapImpl_def mmapWrapper_def split: if_splits)
    have "unat (A + S) = unat A + unat S" using p e(1) by (intro unat_add_lem [THEN iffD1]) simp
    moreover have "unat (MapBase m + MapCapacity m) = unat (MapBase m) + unat (MapCapacity m)"
      using i'(2) by (intro unat_add_lem [THEN iffD1]) simp
    ultimately have "page_set s A S \<subseteq> map_pages s m" using i'(3,4) by (intro page_set_sub) (simp_all add: word_le_nat_alt)
    then have "pages k' = pages k" using p e i'(5) by blast
    then show ?thesis using mm_keeps_same [OF i] e(2) by simp
  qed
qed

lemma mm_run_keeps:
  assumes L: "sys_laws s sys pages" and i: "mm_ok s pages (m, k)" and al: "mm_allowed s op m" and r: "mm_run sys op (m, k) = Inr st'"
  shows "mm_keeps s pages (replaced s [op]) (m, k) st'"
proof -
  obtain m' k' where st': "st' = (m', k')" by fastforce
  show ?thesis
  proof (cases op)
    case (OpMap A S Flags)
    then obtain ok where "mapImpl sys A S Flags (m, k) = Inr (ok, m', k')" "\<not> mem_map_isAllocated m"
      using r al st' by (auto simp: mm_run_def mm_allowed_def bindE_eq_Inr)
    then have "mm_keeps s pages (if A \<noteq> 0 then page_set s A S else {}) (m, k) (m', k')" by (intro map_keeps [OF L i])
    moreover have "replaced s [op] = (if A \<noteq> 0 then page_set s A S else {})" by (simp add: OpMap replaced_def)
    ultimately show ?thesis unfolding st' by (simp only:)
  next
    case (OpUnmap A S)
    then show ?thesis using r al unmap_keeps [OF L i] st' by (auto simp: mm_run_def)
  next
    case OpUnmapAll
    have "mm_allowed s (OpUnmap (MapBase m) (MapCapacity m)) m" using al OpUnmapAll by (simp add: mm_allowed_def)
    then show ?thesis using OpUnmapAll r unmap_keeps [OF L i] st' by (auto simp: mm_run_def unmap_all_def)
  next
    case (OpRemap A S Flags)
    then show ?thesis using r al remap_keeps [OF L i] st' by (auto simp: mm_run_def bindE_eq_Inr)
  next
    case (OpProtect A S Flags)
    then have "m' = m" "k' = snd (sys_mprotect sys A S (prot_of Flags) k)"
      using r st' by (auto simp: mm_run_def bindE_eq_Inr setMemoryPermissionImpl_def Let_def split: prod.splits if_splits)
    then show ?thesis using mm_keeps_same [OF i] sys_lawsD(4) [OF L] st' by simp
  next
    case (OpRelease A S)
    then obtain ok k1 where k1: "madvise_loop sys A S k = Some (ok, k1)" "m' = m" "k' = (if ok then k1 else sys_memset0 sys A S k1)"
      using r st' by (auto simp: mm_run_def releaseAndZeroPagesToOSImpl_def split: option.splits)
    then show ?thesis using mm_keeps_same [OF i] madvise_keeps [OF L k1(1)] sys_lawsD(6) [OF L] st' by simp
  qed
qed

lemma mm_keeps_trans:
  assumes "mm_keeps s pages R st st1" "mm_keeps s pages R' st1 st2"
  shows "mm_keeps s pages (R \<union> R') st st2"
  using assms unfolding mm_keeps_def by blast

lemma replaced_snoc: "replaced s (ops @ [op]) = replaced s ops \<union> replaced s [op]"
  by (simp add: replaced_def Un_commute)

lemma mm_steps_keeps:
  assumes "mm_steps s sys ops st st'" "sys_laws s sys pages" "mm_ok s pages st"
  shows "mm_keeps s pages (replaced s ops) st st'"
  using assms
proof (induction rule: mm_steps.induct)
  case (mm_done st)
  then show ?case by (simp add: mm_keeps_def replaced_def)
next
  case (mm_next ops st m k op st')
  then have "mm_keeps s pages (replaced s ops) st (m, k)" by blast
  moreover from this have "mm_ok s pages (m, k)" by (simp add: mm_keeps_def)
  ultimately show ?case unfolding replaced_snoc
    using mm_keeps_trans mm_run_keeps [OF mm_next.prems(1) _ mm_next.hyps(2,3)] by blast
qed

text \<open>A reservation is mapped pages; an object made from a range of it starts in order.\<close>

lemma createImpl_reserves:
  assumes "sys_laws s sys pages" "createImpl sys A S Flags (r, k) = Inr (True, r', k')"
  shows "reserved s pages r' k'"
proof -
  let ?f = "Flags OR MAP_NOACCESS"
  obtain e k1 where c: "sys_mmap sys A S (prot_of ?f) (?f AND MAP_NOACCESS \<noteq> 0) (A \<noteq> 0) k = (e, k1)" by fastforce
  then obtain P where e: "e = Inr P" "P \<noteq> 0" "MapBase r' = P" "MapCapacity r' = S" "k' = k1"
    using assms(2) by (cases e) (auto simp: createImpl_def mapImpl_def mmapWrapper_def bindE_eq_Inr split: if_splits)
  from sys_lawsD(2) [OF assms(1) c [unfolded e(1)]] e show ?thesis by (auto simp: reserved_def)
qed

lemma mm_start_ok: "mm_start s pages m k \<Longrightarrow> mm_ok s pages (m, k)"
proof (cases "m = \<lparr>MapBase = 0, MapCapacity = 0\<rparr>")
  case False
  assume "mm_start s pages m k"
  then obtain r A S where d: "reserved s pages r k" "m = dispatchImpl A S" "S \<noteq> 0" "page_aligned s A" "MapBase r \<le> A"
    "unat A + unat S \<le> unat (MapBase r) + unat (MapCapacity r)" using False unfolding mm_start_def by blast
  have "page_set s A S \<subseteq> map_pages s r" using d(5,6) by (intro page_set_sub) (simp_all add: word_le_nat_alt)
  moreover have "A \<noteq> 0" using d(1,5) by (metis reserved_def word_le_0_iff)
  ultimately show ?thesis using d by (auto simp: mm_ok_def reserved_def dispatchImpl_def)
qed (simp add: mm_ok_def)

text \<open>C36: An object of class \<^verbatim>\<open>MemMapLinux\<close>, new or dispatched from a reservation, describes the pages it has,
  through any sequence of its operations that respects their conditions and ends in none of the
  reports, on any system that keeps to the manual: the pages of the \<^verbatim>\<open>getCapacity()\<close> bytes from \<^verbatim>\<open>getBase()\<close> on are
  mapped; no page of another owner is added, and none is lost but for those that a mapping at a given
  address, which replaces what is there, takes; so that without such a mapping the rest of the process has
  exactly the pages it had. The object says it is allocated exactly if it has any pages.\<close>

theorem mem_map_tracks_pages:
  assumes "sys_laws s sys pages" and "mm_start s pages m0 k0" and "mm_steps s sys ops (m0, k0) (m, k)"
  shows "map_pages s m \<subseteq> pages k
    \<and> pages k - map_pages s m \<subseteq> pages k0 - map_pages s m0
    \<and> pages k0 - map_pages s m0 - replaced s ops \<subseteq> pages k - map_pages s m
    \<and> (mem_map_isAllocated m \<longleftrightarrow> map_pages s m \<noteq> {})"
proof -
  have i: "mm_keeps s pages (replaced s ops) (m0, k0) (m, k)"
    by (rule mm_steps_keeps [OF assms(3,1) mm_start_ok [OF assms(2)]])
  have "mem_map_isAllocated m \<longleftrightarrow> map_pages s m \<noteq> {}"
    using i page_set_nonempty by (auto simp: mm_keeps_def mm_ok_def mem_map_isAllocated_def split: if_splits)
  then show ?thesis using i by (auto simp: mm_keeps_def mm_ok_def other_pages_def)
qed

text \<open>A system with pages of 4096 bytes and one place for new mappings.\<close>

definition tiny_sys :: "nat set sys" where
  "tiny_sys = \<lparr>
     sys_mmap = (\<lambda>Addr Size p nr fx k.
       let P = (if fx then Addr else 0x10000)
       in if Size = 0 \<or> \<not> page_aligned 12 P then (Inl E_other, k)
          else if unat P + unat Size < 2 ^ 64 \<and> (fx \<or> page_set 12 P Size \<inter> k = {}) then (Inr P, k \<union> page_set 12 P Size)
          else (Inl E_NOMEM, k)),
     sys_munmap = (\<lambda>Addr Size k. if Size = 0 \<or> \<not> page_aligned 12 Addr then (False, k) else (True, k - page_set 12 Addr Size)),
     sys_mprotect = (\<lambda>Addr Size p k. (True, k)), sys_madvise = (\<lambda>Addr Size k. (None, k)), sys_memset0 = (\<lambda>Addr Size k. k)\<rparr>"

lemma tiny_sys_laws: "sys_laws 12 tiny_sys id"
  by (auto simp: sys_laws_def tiny_sys_def Let_def split: if_splits)

text \<open>A reservation of four pages is made while page 3 is another's; from its second page on three bytes less
  than three pages are dispatched, made accessible, and cut at both ends. And a new object is mapped where the
  other's page is.\<close>

lemma tiny_pages:
  "page_set 12 0x10000 0x4000 = {16, 17, 18, 19}" "page_set 12 0x11000 0x2FFD = {17, 18, 19}"
  "page_set 12 0x11000 0x1000 = {17}" "page_set 12 0x12000 0x1FFD = {18, 19}" "page_set 12 0x13000 0xFFD = {19}"
  "page_set 12 0x12000 0x1000 = {18}" "page_set 12 0x2000 0x1001 = {2, 3}"
  by (simp_all add: page_set_def atLeastLessThan_upt del: set_upt)

theorem mem_map_tracks_pages_witness:
  "(\<exists>k. mm_steps 12 tiny_sys [OpRemap 0x11000 0x2FFD 0, OpUnmap 0x11000 0x1000, OpUnmap 0x13000 0xFFD]
       (dispatchImpl 0x11000 0x2FFD, {3, 16, 17, 18, 19}) (\<lparr>MapBase = 0x12000, MapCapacity = 0x1000\<rparr>, k)
     \<and> 18 \<in> k \<and> k - {18} = {3, 16})
   \<and> (\<exists>k. mm_steps 12 tiny_sys [OpMap 0x2000 0x1001 0] (\<lparr>MapBase = 0, MapCapacity = 0\<rparr>, {3, 16})
       (\<lparr>MapBase = 0x2000, MapCapacity = 0x1001\<rparr>, k)
     \<and> {2, 3} \<subseteq> k \<and> k - {2, 3} = {16})"
proof -
  let ?r = "\<lparr>MapBase = 0x10000, MapCapacity = 0x4000\<rparr>" and ?k = "{3, 16, 17, 18, 19}"
  have "createImpl tiny_sys 0 0x4000 0 (\<lparr>MapBase = 0, MapCapacity = 0\<rparr>, {3}) = Inr (True, ?r, ?k)"
    by (simp add: createImpl_def mapImpl_def mmapWrapper_def tiny_sys_def tiny_pages page_aligned_def insert_commute)
  from createImpl_reserves [OF tiny_sys_laws this] have r: "reserved 12 id ?r ?k" .
  have st: "mm_start 12 id (dispatchImpl 0x11000 0x2FFD) ?k"
    using r unfolding mm_start_def
    by (intro disjI2 exI [of _ ?r] exI [of _ "0x11000"] exI [of _ "0x2FFD"]) (simp add: page_aligned_def)
  have "mm_steps 12 tiny_sys ([] @ [OpRemap 0x11000 0x2FFD 0]) (dispatchImpl 0x11000 0x2FFD, ?k) (dispatchImpl 0x11000 0x2FFD, ?k)"
    by (rule mm_next [OF mm_done [of 12 tiny_sys "(dispatchImpl 0x11000 0x2FFD, ?k)"]])
      (auto simp: mm_allowed_def in_map_def mem_map_isAllocated_def dispatchImpl_def mm_run_def remapImpl_def
        mmapWrapper_def tiny_sys_def tiny_pages page_aligned_def)
  from mm_next [OF this, of "OpUnmap 0x11000 0x1000" "(\<lparr>MapBase = 0x12000, MapCapacity = 0x1FFD\<rparr>, {3, 16, 18, 19})"]
  have 2: "mm_steps 12 tiny_sys ([OpRemap 0x11000 0x2FFD 0, OpUnmap 0x11000 0x1000])
      (dispatchImpl 0x11000 0x2FFD, ?k) (\<lparr>MapBase = 0x12000, MapCapacity = 0x1FFD\<rparr>, {3, 16, 18, 19})"
    by (simp add: mm_allowed_def mem_map_isAllocated_def dispatchImpl_def mm_run_def unmapImpl_def tiny_sys_def
        tiny_pages page_aligned_def insert_commute insert_Diff_if)
  from mm_next [OF this, of "OpUnmap 0x13000 0xFFD" "(\<lparr>MapBase = 0x12000, MapCapacity = 0x1000\<rparr>, {3, 16, 18})"]
  have 3: "mm_steps 12 tiny_sys [OpRemap 0x11000 0x2FFD 0, OpUnmap 0x11000 0x1000, OpUnmap 0x13000 0xFFD]
      (dispatchImpl 0x11000 0x2FFD, ?k) (\<lparr>MapBase = 0x12000, MapCapacity = 0x1000\<rparr>, {3, 16, 18})"
    by (simp add: mm_allowed_def mem_map_isAllocated_def mm_run_def unmapImpl_def tiny_sys_def
        tiny_pages page_aligned_def insert_commute insert_Diff_if)
  from mem_map_tracks_pages [OF tiny_sys_laws st 3] 3
  have 4: "\<exists>k. mm_steps 12 tiny_sys [OpRemap 0x11000 0x2FFD 0, OpUnmap 0x11000 0x1000, OpUnmap 0x13000 0xFFD]
       (dispatchImpl 0x11000 0x2FFD, ?k) (\<lparr>MapBase = 0x12000, MapCapacity = 0x1000\<rparr>, k)
     \<and> 18 \<in> k \<and> k - {18} = {3, 16}" by (auto simp: tiny_pages replaced_def)
  let ?e = "\<lparr>MapBase = 0, MapCapacity = 0\<rparr>"
  have "mm_start 12 id ?e {3, 16}" by (simp add: mm_start_def)
  note t = mem_map_tracks_pages [OF tiny_sys_laws this]
  have "mm_steps 12 tiny_sys ([] @ [OpMap 0x2000 0x1001 0]) (?e, {3, 16}) (\<lparr>MapBase = 0x2000, MapCapacity = 0x1001\<rparr>, {2, 3, 16})"
    by (rule mm_next [OF mm_done [of 12 tiny_sys "(?e, {3, 16})"]])
      (auto simp: mm_allowed_def mem_map_isAllocated_def mm_run_def mapImpl_def mmapWrapper_def tiny_sys_def
        tiny_pages page_aligned_def)
  with t [OF this] have "\<exists>k. mm_steps 12 tiny_sys [OpMap 0x2000 0x1001 0] (?e, {3, 16})
       (\<lparr>MapBase = 0x2000, MapCapacity = 0x1001\<rparr>, k) \<and> {2, 3} \<subseteq> k \<and> k - {2, 3} = {16}"
    by (auto simp: tiny_pages replaced_def)
  with 4 show ?thesis by blast
qed

end
