(* ===== verification/Primary32.thy ===== *)
theory Primary32
  imports Primary64Release
begin

text \<open>
  \<^verbatim>\<open>primary32.h\<close> and \<^verbatim>\<open>bytemap.h\<close>: the other primary allocator. It has no reserved range per class:
  a class takes regions of one fixed size and alignment from the system as it needs them, carves the
  current one into blocks, and a byte map over the address space remembers the class of each region.
  Two regions are mapped at a time; the one not needed is stashed. Free lists are those of
  \<open>Primary64\<close>, but a compact pointer is the address itself and a memory group is a region.

  The configuration is a \<open>primary_config\<close>, of which \<open>CompactPtrScale\<close>, \<open>MapSizeIncrement\<close> and the two
  \<open>Enable\<close> fields are not used here, and \<open>GroupSizeLog\<close> must equal \<open>RegionSizeLog\<close> (a static
  assertion). Linked lists, locks and the order of the definitions are as in \<open>Primary64\<close>. The calls of
  \<^verbatim>\<open>map\<close> and \<^verbatim>\<open>unmap\<close> are logged, since what the system answers depends on them.
\<close>

unbundle bit_operations_syntax

section \<open>State\<close>

text \<open>\<^verbatim>\<open>SizeClassInfo\<close>, with \<^verbatim>\<open>FreeListInfo\<close> and \<^verbatim>\<open>ReleaseInfo\<close>.\<close>

record size_class_info =
  BlockList32 :: "batch_group list"
  PoppedBlocks32 :: uptr
  PushedBlocks32 :: uptr
  CurrentRegion :: uptr
  CurrentRegionAllocated :: uptr
  RandState32 :: u32
  AllocatedUser32 :: uptr
  MinRegionIndex :: uptr
  MaxRegionIndex :: uptr
  BytesInFreeListAtLastCheckpoint32 :: uptr
  NumReleasesAttempted32 :: uptr
  LastReleasedBytes32 :: uptr
  LastReleaseAtNs32 :: u64

datatype map_call = MapCall uptr uptr | UnmapCall uptr uptr

text \<open>The stash is a stack whose top is last.\<close>

record heap32 = local_cache +
  SizeClassInfoArray :: "size_class_info list"
  PossibleRegions :: "uptr \<Rightarrow> u8"
  ReleaseToOsIntervalMs32 :: s32
  RegionsStash :: "uptr list"
  MapCalls :: "map_call list"

text \<open>The system: the address of a new mapping or \<open>None\<close> when memory is exhausted, whether \<^verbatim>\<open>munmap\<close>
  succeeds, both after the calls made so far; mappings for page maps; the time.\<close>

record os32 =
  os32_map :: "map_call list \<Rightarrow> uptr \<Rightarrow> uptr option"
  os32_unmap :: "map_call list \<Rightarrow> uptr \<Rightarrow> uptr \<Rightarrow> bool"
  os32_map_ok :: "uptr \<Rightarrow> bool"
  os32_now :: u64

section \<open>The byte map\<close>

definition bytemap_init :: "uptr \<Rightarrow> u8" where
  "bytemap_init = (\<lambda>_. 0)"

definition bytemap_set :: "uptr \<Rightarrow> u8 \<Rightarrow> (uptr \<Rightarrow> u8) \<Rightarrow> uptr \<Rightarrow> u8" where
  "bytemap_set Index Value Map = Map(Index := Value)"

definition bytemap_get :: "(uptr \<Rightarrow> u8) \<Rightarrow> uptr \<Rightarrow> u8" where
  "bytemap_get Map Index = Map Index"

section \<open>Sizes and pointers\<close>

definition RegionSize :: "primary_config \<Rightarrow> uptr" where
  "RegionSize cfg = push_bit (RegionSizeLog cfg) 1"

text \<open>\<^verbatim>\<open>SCUDO_MMAP_RANGE_SIZE\<close> is \<open>2 ^ 47\<close> on 64-bit platforms other than AArch64.\<close>

definition NumRegions :: "primary_config \<Rightarrow> uptr" where
  "NumRegions cfg = drop_bit (RegionSizeLog cfg) (push_bit 47 1)"

definition getSizeOfBatchClass32 :: "primary_config \<Rightarrow> uptr" where
  "getSizeOfBatchClass32 cfg = 16 + 8 * ucast (MaxNumBlocksInBatch cfg)"

definition getSizeByClassId32 :: "primary_config \<Rightarrow> uptr \<Rightarrow> uptr" where
  "getSizeByClassId32 cfg ClassId =
     (if ClassId = BatchClassId then getSizeOfBatchClass32 cfg else getSizeByClassId (PSizeMap cfg) ClassId)"

definition compactPtr32 :: "uptr \<Rightarrow> uptr \<Rightarrow> 's \<Rightarrow> uptr" where
  "compactPtr32 ClassId Ptr s = Ptr"

definition decompactPtr32 :: "uptr \<Rightarrow> uptr \<Rightarrow> 's \<Rightarrow> uptr" where
  "decompactPtr32 ClassId CompactPtr s = CompactPtr"

definition compactPtrGroupBase32 :: "primary_config \<Rightarrow> uptr \<Rightarrow> uptr" where
  "compactPtrGroupBase32 cfg CompactPtr = CompactPtr AND NOT (push_bit (GroupSizeLog cfg) 1 - 1)"

definition decompactGroupBase32 :: "uptr \<Rightarrow> uptr" where
  "decompactGroupBase32 GroupBase = GroupBase"

definition isLargeBlock :: "primary_config \<Rightarrow> uptr \<Rightarrow> bool" where
  "isLargeBlock cfg BSize = (BSize > PageSizeOf cfg)"

definition getSizeClassInfo :: "uptr \<Rightarrow> heap32 \<Rightarrow> size_class_info" where
  "getSizeClassInfo ClassId h = SizeClassInfoArray h ! unat ClassId"

definition upd_sci :: "uptr \<Rightarrow> (size_class_info \<Rightarrow> size_class_info) \<Rightarrow> heap32 \<Rightarrow> heap32" where
  "upd_sci ClassId f h =
     h\<lparr>SizeClassInfoArray := (SizeClassInfoArray h)[unat ClassId := f (SizeClassInfoArray h ! unat ClassId)]\<rparr>"

definition computeRegionId :: "primary_config \<Rightarrow> uptr \<Rightarrow> uptr result" where
  "computeRegionId cfg Mem =
     (let Id = drop_bit (RegionSizeLog cfg) Mem
      in bindE (CHECK (Id < NumRegions cfg) ''Id < NumRegions'') (\<lambda>_. Inr Id))"

section \<open>Initialisation\<close>

definition empty_sci :: size_class_info where
  "empty_sci = \<lparr>BlockList32 = [], PoppedBlocks32 = 0, PushedBlocks32 = 0, CurrentRegion = 0,
     CurrentRegionAllocated = 0, RandState32 = 0, AllocatedUser32 = 0, MinRegionIndex = 0,
     MaxRegionIndex = 0, BytesInFreeListAtLastCheckpoint32 = 0, NumReleasesAttempted32 = 0,
     LastReleasedBytes32 = 0, LastReleaseAtNs32 = 0\<rparr>"

fun seed_classes :: "primary_config \<Rightarrow> u64 \<Rightarrow> u32 \<Rightarrow> nat \<Rightarrow> size_class_info list" where
  "seed_classes cfg Time Seed 0 = []"
| "seed_classes cfg Time Seed (Suc n) =
     (let (r, Seed) = getRandomU32 Seed
      in empty_sci\<lparr>RandState32 := r, MinRegionIndex := NumRegions cfg, LastReleaseAtNs32 := Time\<rparr>
         # seed_classes cfg Time Seed n)"

definition setOption32 :: "primary_config \<Rightarrow> RtOption \<Rightarrow> sptr \<Rightarrow> heap32 \<Rightarrow> bool \<times> heap32" where
  "setOption32 cfg Opt Value h =
     (case Opt of
        ReleaseInterval \<Rightarrow> (True, h\<lparr>ReleaseToOsIntervalMs32 := setReleaseInterval cfg (ucast Value)\<rparr>)
      | _ \<Rightarrow> (True, h))"

text \<open>The allocator's object is zero before; \<open>Seed\<close> is random or made of the time.\<close>

definition init32 :: "primary_config \<Rightarrow> os32 \<Rightarrow> u32 \<Rightarrow> s32 \<Rightarrow> heap32 \<Rightarrow> heap32" where
  "init32 cfg os Seed ReleaseToOsInterval h =
     (let h = h\<lparr>PossibleRegions := bytemap_init, RegionsStash := [],
               SizeClassInfoArray := seed_classes cfg (os32_now os) Seed (unat (NumClasses (PSizeMap cfg)))\<rparr>;
          Interval = (if DefaultReleaseToOsIntervalMs cfg \<noteq> push_bit 31 1
                      then DefaultReleaseToOsIntervalMs cfg else ReleaseToOsInterval)
      in snd (setOption32 cfg ReleaseInterval (scast Interval) h))"

section \<open>Regions\<close>

definition MaxStashedRegions :: nat where "MaxStashedRegions = 4"

definition unmap32 :: "os32 \<Rightarrow> uptr \<Rightarrow> uptr \<Rightarrow> heap32 \<Rightarrow> heap32 result" where
  "unmap32 os Addr Size h =
     (if os32_unmap os (MapCalls h) Addr Size then Inr (h\<lparr>MapCalls := MapCalls h @ [UnmapCall Addr Size]\<rparr>)
      else Inl (UnmapError Addr Size))"

text \<open>Twice the size is mapped: an aligned mapping is two regions, of which the second is stashed when
  there is room; of another one the aligned part is kept.\<close>

definition allocateRegionSlow :: "primary_config \<Rightarrow> os32 \<Rightarrow> heap32 \<Rightarrow> (uptr \<times> heap32) result" where
  "allocateRegionSlow cfg os h =
     (let MapSize = 2 * RegionSize cfg
      in case os32_map os (MapCalls h) MapSize of
           None \<Rightarrow> Inr (0, h)
         | Some MapBase \<Rightarrow>
             let h = h\<lparr>MapCalls := MapCalls h @ [MapCall MapBase MapSize]\<rparr>;
                 MapEnd = MapBase + MapSize
             in bindE
                  (if isAligned MapBase (RegionSize cfg) then
                     if length (RegionsStash h) < MaxStashedRegions
                     then Inr (MapBase, MapSize, h\<lparr>RegionsStash := RegionsStash h @ [MapBase + RegionSize cfg]\<rparr>)
                     else Inr (MapBase, RegionSize cfg, h)
                   else
                     let Region = roundUp MapBase (RegionSize cfg)
                     in bindE (unmap32 os MapBase (Region - MapBase) h) (\<lambda>h. Inr (Region, RegionSize cfg, h)))
                  (\<lambda>(Region, MapSize, h).
                     let End = Region + MapSize
                     in bindE (if End \<noteq> MapEnd then unmap32 os End (MapEnd - End) h else Inr h) (\<lambda>h.
                          Inr (Region, h))))"

text \<open>A null region, from the stash or the system, means failure.\<close>

definition pop_stash :: "heap32 \<Rightarrow> uptr \<times> heap32" where
  "pop_stash h =
     (if RegionsStash h \<noteq> [] then (last (RegionsStash h), h\<lparr>RegionsStash := butlast (RegionsStash h)\<rparr>)
      else (0, h))"

definition mark_region :: "primary_config \<Rightarrow> uptr \<Rightarrow> uptr \<Rightarrow> heap32 \<Rightarrow> heap32" where
  "mark_region cfg ClassId RegionIndex h =
     (let h = upd_sci ClassId (\<lambda>s. s\<lparr>
               MinRegionIndex := (if RegionIndex < MinRegionIndex s then RegionIndex else MinRegionIndex s),
               MaxRegionIndex := (if RegionIndex > MaxRegionIndex s then RegionIndex else MaxRegionIndex s)\<rparr>) h
      in h\<lparr>PossibleRegions := bytemap_set RegionIndex (ucast (ClassId + 1)) (PossibleRegions h)\<rparr>)"

definition allocateRegion :: "primary_config \<Rightarrow> os32 \<Rightarrow> uptr \<Rightarrow> heap32 \<Rightarrow> (uptr \<times> heap32) result" where
  "allocateRegion cfg os ClassId h =
     (let (Region, h) = pop_stash h
      in bindE (if Region = 0 then allocateRegionSlow cfg os h else Inr (Region, h)) (\<lambda>(Region, h).
           if Region = 0 then Inr (0, h)
           else bindE (computeRegionId cfg Region) (\<lambda>RegionIndex.
                  Inr (Region, mark_region cfg ClassId RegionIndex h))))"

section \<open>Popping and pushing blocks\<close>

definition popBlocksImpl32 ::
    "primary_config \<Rightarrow> (uptr \<Rightarrow> heap32 \<Rightarrow> (bool \<times> heap32) result) \<Rightarrow> uptr \<Rightarrow> u16 \<Rightarrow> heap32
      \<Rightarrow> (uptr list \<times> heap32) result" where
  "popBlocksImpl32 cfg dealloc ClassId MaxBlockCount h =
     (case BlockList32 (getSizeClassInfo ClassId h) of
        [] \<Rightarrow> Inr ([], h)
      | BG # BGs \<Rightarrow>
          (case Batches BG of
             [] \<Rightarrow>
               Inr ([compactPtr32 BatchClassId (GroupAddr BG) h],
                    upd_sci ClassId (\<lambda>s. s\<lparr>BlockList32 := BGs, PoppedBlocks32 := PoppedBlocks32 s + 1\<rparr>) h)
           | B # Bs \<Rightarrow>
               let PopCount = (if ClassId = BatchClassId then getCount B else MinU MaxBlockCount (getCount B));
                   (ToArray, B') = moveNToArray (unat PopCount) B;
                   count = upd_sci ClassId (\<lambda>s. s\<lparr>PoppedBlocks32 := PoppedBlocks32 s + ucast PopCount\<rparr>)
               in if Blocks B' \<noteq> [] then
                    Inr (ToArray, count (upd_sci ClassId
                      (\<lambda>s. s\<lparr>BlockList32 := BG\<lparr>Batches := B' # Bs\<rparr> # BGs\<rparr>) h))
                  else
                    let h = upd_sci ClassId (\<lambda>s. s\<lparr>BlockList32 := BG\<lparr>Batches := Bs\<rparr> # BGs\<rparr>) h
                    in bindE (if ClassId \<noteq> BatchClassId then dealloc (BatchAddr B) h else Inr (False, h)) (\<lambda>(_, h).
                         if Bs \<noteq> [] then Inr (ToArray, count h)
                         else
                           let h = upd_sci ClassId (\<lambda>s. s\<lparr>BlockList32 := BGs\<rparr>) h
                           in bindE (if ClassId \<noteq> BatchClassId then dealloc (GroupAddr BG) h else Inr (False, h))
                                (\<lambda>(_, h). Inr (ToArray, count h)))))"

definition pushBatchClassBlocks_list :: "primary_config \<Rightarrow> uptr list \<Rightarrow> batch_group list \<Rightarrow> batch_group list" where
  "pushBatchClassBlocks_list cfg Array BGs =
     (let (BG, BGs, Array) =
            (case BGs of
               BG # BGs \<Rightarrow> (BG, BGs, Array)
             | [] \<Rightarrow> (\<lparr>GroupAddr = last Array, CompactPtrGroupBase = 0, BytesInBGAtLastCheckpoint = 0,
                         Batches = [],
                         MaxCachedPerBatch = getMaxCached (PSizeMap cfg) (getSizeByClassId32 cfg BatchClassId)\<rparr>,
                       [], butlast Array));
          (BG, Array) =
            (if Array \<noteq> [] \<and> Batches BG = []
             then (BG\<lparr>Batches := [\<lparr>BatchAddr = last Array, Blocks = [last Array, GroupAddr BG]\<rparr>]\<rparr>, butlast Array)
             else (BG, Array))
      in BG\<lparr>Batches := batch_class_insert (\<lambda>A. A) (MaxCachedPerBatch BG) Array (Batches BG)\<rparr> # BGs)"

definition pushBatchClassBlocks32 :: "primary_config \<Rightarrow> uptr list \<Rightarrow> heap32 \<Rightarrow> heap32" where
  "pushBatchClassBlocks32 cfg Array h =
     upd_sci BatchClassId (\<lambda>s. s\<lparr>PushedBlocks32 := PushedBlocks32 s + of_nat (length Array),
       BlockList32 := pushBatchClassBlocks_list cfg Array (BlockList32 s)\<rparr>) h"

text \<open>The insertion into the sorted groups is the code of \<open>Primary64\<close>.\<close>

definition pushBlocksImpl32 ::
    "primary_config \<Rightarrow> (heap32 \<Rightarrow> (uptr \<times> heap32) result) \<Rightarrow> uptr \<Rightarrow> uptr list \<Rightarrow> bool \<Rightarrow> heap32
      \<Rightarrow> heap32 result" where
  "pushBlocksImpl32 cfg getb ClassId Array SameGroup h =
     (let h = upd_sci ClassId (\<lambda>s. s\<lparr>PushedBlocks32 := PushedBlocks32 s + of_nat (length Array)\<rparr>) h;
          pos = ([], BlockList32 (getSizeClassInfo ClassId h))
      in bindE
           (if SameGroup
            then bindE (find_or_create_group cfg getb (compactPtrGroupBase32 cfg (hd Array)) pos h)
                   (\<lambda>(pos, h). insert_at getb Array pos h)
            else push_runs cfg (compactPtrGroupBase32 cfg) getb Array pos h)
           (\<lambda>((Passed, Rest), h). Inr (upd_sci ClassId (\<lambda>s. s\<lparr>BlockList32 := rev Passed @ Rest\<rparr>) h)))"

definition pushBlocks_gen32 ::
    "primary_config \<Rightarrow> (heap32 \<Rightarrow> (uptr \<times> heap32) result) \<Rightarrow> uptr \<Rightarrow> uptr list \<Rightarrow> heap32
      \<Rightarrow> (uptr list \<times> heap32) result" where
  "pushBlocks_gen32 cfg getb ClassId Array h =
     (if ClassId = BatchClassId then Inr (Array, pushBatchClassBlocks32 cfg Array h)
      else let (SameGroup, Sorted) = group_sort_loop (compactPtrGroupBase32 cfg) Array (True, [])
           in bindE (pushBlocksImpl32 cfg getb ClassId Sorted SameGroup h) (\<lambda>h. Inr (Sorted, h)))"

section \<open>Carving blocks\<close>

function push_new_blocks32 ::
    "primary_config \<Rightarrow> (heap32 \<Rightarrow> (uptr \<times> heap32) result) \<Rightarrow> uptr \<Rightarrow> uptr list \<Rightarrow> heap32 \<Rightarrow> heap32 result" where
  "push_new_blocks32 cfg getb ClassId [] h = Inr h"
| "push_new_blocks32 cfg getb ClassId (X # Xs) h =
     (let run = X # takeWhile (\<lambda>Y. compactPtrGroupBase32 cfg Y = compactPtrGroupBase32 cfg X) Xs;
          (run, rs) = shuffle run (RandState32 (getSizeClassInfo ClassId h));
          h = upd_sci ClassId (\<lambda>s. s\<lparr>RandState32 := rs\<rparr>) h
      in case pushBlocksImpl32 cfg getb ClassId run True h of
           Inl e \<Rightarrow> Inl e
         | Inr h \<Rightarrow>
             push_new_blocks32 cfg getb ClassId
               (dropWhile (\<lambda>Y. compactPtrGroupBase32 cfg Y = compactPtrGroupBase32 cfg X) Xs) h)"
  by pat_completeness auto
termination by (relation "measure (\<lambda>(cfg, getb, ClassId, Xs, h). length Xs)") (auto simp: less_Suc_eq_le length_dropWhile_le)

text \<open>The region to carve from and the offset of its free part; \<open>None\<close> when there is no memory.\<close>

definition current_region ::
    "primary_config \<Rightarrow> os32 \<Rightarrow> uptr \<Rightarrow> heap32 \<Rightarrow> ((uptr \<times> uptr) option \<times> heap32) result" where
  "current_region cfg os ClassId h =
     (let s = getSizeClassInfo ClassId h
      in if CurrentRegion s \<noteq> 0 then Inr (Some (CurrentRegion s, CurrentRegionAllocated s), h)
         else bindE (allocateRegion cfg os ClassId h) (\<lambda>(Region, h).
                if Region = 0 then Inr (None, h)
                else Inr (Some (Region, 0),
                          upd_sci ClassId (\<lambda>s. s\<lparr>CurrentRegion := Region\<rparr>)
                            (upd_stats (stats_add StatMapped (RegionSize cfg)) h))))"

definition carve_count :: "primary_config \<Rightarrow> uptr \<Rightarrow> uptr \<Rightarrow> u32" where
  "carve_count cfg ClassId Offset =
     (let Size = getSizeByClassId32 cfg ClassId
      in MinU (MaxNumBatches cfg * ucast (getMaxCached (PSizeMap cfg) Size))
              (ucast ((RegionSize cfg - Offset) div Size)))"

text \<open>The counters after \<open>N\<close> blocks were carved; a region without room for one more is left.\<close>

definition finish_carving :: "primary_config \<Rightarrow> uptr \<Rightarrow> u32 \<Rightarrow> heap32 \<Rightarrow> heap32" where
  "finish_carving cfg ClassId N h =
     (let Size = getSizeByClassId32 cfg ClassId;
          h = upd_sci ClassId (\<lambda>s. s\<lparr>PushedBlocks32 := PushedBlocks32 s - ucast N\<rparr>) h;
          Allocated = Size * ucast N;
          h = upd_stats (stats_add StatFree Allocated) h;
          h = upd_sci ClassId (\<lambda>s.
            if RegionSize cfg - (CurrentRegionAllocated s + Allocated) < Size
            then s\<lparr>CurrentRegion := 0, CurrentRegionAllocated := 0\<rparr>
            else s\<lparr>CurrentRegionAllocated := CurrentRegionAllocated s + Allocated\<rparr>) h
      in upd_sci ClassId (\<lambda>s. s\<lparr>AllocatedUser32 := AllocatedUser32 s + Allocated\<rparr>) h)"

definition new_blocks32 :: "uptr \<Rightarrow> uptr \<Rightarrow> nat \<Rightarrow> uptr list" where
  "new_blocks32 P Size N = map (\<lambda>I. P + of_nat I * Size) [0 ..< N]"

definition populateFreeList ::
    "primary_config \<Rightarrow> os32 \<Rightarrow> (heap32 \<Rightarrow> (uptr \<times> heap32) result) \<Rightarrow> uptr \<Rightarrow> heap32 \<Rightarrow> (bool \<times> heap32) result" where
  "populateFreeList cfg os getb ClassId h =
     bindE (current_region cfg os ClassId h) (\<lambda>(r, h).
       case r of
         None \<Rightarrow> Inr (False, h)
       | Some (Region, Offset) \<Rightarrow>
           let N = carve_count cfg ClassId Offset;
               Array = new_blocks32 (Region + Offset) (getSizeByClassId32 cfg ClassId) (unat N)
           in bindE (if ClassId \<noteq> BatchClassId then push_new_blocks32 cfg getb ClassId Array h
                     else Inr (pushBatchClassBlocks32 cfg Array h)) (\<lambda>h.
                Inr (True, finish_carving cfg ClassId N h)))"

definition popBlocks_gen32 ::
    "primary_config \<Rightarrow> os32 \<Rightarrow> (heap32 \<Rightarrow> (uptr \<times> heap32) result) \<Rightarrow> (uptr \<Rightarrow> heap32 \<Rightarrow> (bool \<times> heap32) result)
      \<Rightarrow> uptr \<Rightarrow> u16 \<Rightarrow> heap32 \<Rightarrow> (uptr list \<times> heap32) result" where
  "popBlocks_gen32 cfg os getb dealloc ClassId MaxBlockCount h =
     bindE (popBlocksImpl32 cfg dealloc ClassId MaxBlockCount h) (\<lambda>(ToArray, h).
       if ToArray \<noteq> [] then Inr (ToArray, h)
       else bindE (populateFreeList cfg os getb ClassId h) (\<lambda>(ok, h).
         if \<not> ok then Inr ([], h) else popBlocksImpl32 cfg dealloc ClassId MaxBlockCount h))"

section \<open>The primary and the cache of the calling thread\<close>

definition pop_batch_class32 :: "primary_config \<Rightarrow> os32 \<Rightarrow> heap32 pop_fun" where
  "pop_batch_class32 cfg os = popBlocks_gen32 cfg os (\<lambda>h. Inl NullDeref) (\<lambda>_ h. Inl NullDeref)"

definition push_batch_class32 :: "primary_config \<Rightarrow> heap32 push_fun" where
  "push_batch_class32 cfg = pushBlocks_gen32 cfg (\<lambda>h. Inl NullDeref)"

definition getBatchClassBlock32 :: "primary_config \<Rightarrow> os32 \<Rightarrow> heap32 \<Rightarrow> (uptr \<times> heap32) result" where
  "getBatchClassBlock32 cfg os =
     cache_getBatchClassBlock (pop_batch_class32 cfg os) decompactPtr32 (getSizeByClassId32 cfg)"

definition deallocate_batch_block32 :: "primary_config \<Rightarrow> uptr \<Rightarrow> heap32 \<Rightarrow> (bool \<times> heap32) result" where
  "deallocate_batch_block32 cfg =
     cache_deallocate (PSizeMap cfg) (push_batch_class32 cfg) compactPtr32 BatchClassId"

definition popBlocks32 :: "primary_config \<Rightarrow> os32 \<Rightarrow> heap32 pop_fun" where
  "popBlocks32 cfg os = popBlocks_gen32 cfg os (getBatchClassBlock32 cfg os) (deallocate_batch_block32 cfg)"

definition pushBlocks32 :: "primary_config \<Rightarrow> os32 \<Rightarrow> heap32 push_fun" where
  "pushBlocks32 cfg os = pushBlocks_gen32 cfg (getBatchClassBlock32 cfg os)"

definition sca32_allocate :: "primary_config \<Rightarrow> os32 \<Rightarrow> uptr \<Rightarrow> heap32 \<Rightarrow> (uptr option \<times> heap32) result" where
  "sca32_allocate cfg os = cache_allocate (popBlocks32 cfg os) decompactPtr32"

definition sca32_deallocate :: "primary_config \<Rightarrow> os32 \<Rightarrow> uptr \<Rightarrow> uptr \<Rightarrow> heap32 \<Rightarrow> (bool \<times> heap32) result" where
  "sca32_deallocate cfg os = cache_deallocate (PSizeMap cfg) (pushBlocks32 cfg os) compactPtr32"

definition sca32_drain :: "primary_config \<Rightarrow> os32 \<Rightarrow> heap32 \<Rightarrow> heap32 result option" where
  "sca32_drain cfg os = cache_drain (PSizeMap cfg) (pushBlocks32 cfg os)"

end
