(* ===== verification/Primary32Release.thy ===== *)
theory Primary32Release
  imports Primary32
begin

text \<open>
  The rest of \<^verbatim>\<open>primary32.h\<close>: returning unused pages to the system, on top of \<open>Release\<close>, the walk over
  all blocks, and the numbers of its statistics. All regions of a class between its lowest and its
  highest are released in one pass; those of other classes are skipped by the byte map.
\<close>

unbundle bit_operations_syntax

section \<open>Deciding to release\<close>

definition hasChanceToReleasePages32 ::
    "primary_config \<Rightarrow> s32 \<Rightarrow> u64 \<Rightarrow> uptr \<Rightarrow> uptr \<Rightarrow> ReleaseToOS \<Rightarrow> size_class_info \<Rightarrow> bool \<times> size_class_info" where
  "hasChanceToReleasePages32 cfg IntervalMs Now BSize BytesInFreeList ReleaseType s =
     (let s = (if BytesInFreeList \<le> BytesInFreeListAtLastCheckpoint32 s
               then s\<lparr>BytesInFreeListAtLastCheckpoint32 := BytesInFreeList\<rparr> else s);
          PushedBytesDelta = BytesInFreeList - BytesInFreeListAtLastCheckpoint32 s
      in if PushedBytesDelta < PageSizeOf cfg then (False, s)
         else if isSmallBlock cfg BSize \<and> ReleaseType = ReleaseNormal
                 \<and> PushedBytesDelta < AllocatedUser32 s div 16 then (False, s)
         else if ReleaseType = ReleaseNormal then
           if sint IntervalMs < 0 then (False, s)
           else
             let ByPassReleaseInterval = (isLargeBlock cfg BSize \<and> PushedBytesDelta > 8 * PageSizeOf cfg)
             in if \<not> ByPassReleaseInterval
                   \<and> LastReleaseAtNs32 s + (scast IntervalMs :: u64) * 1000000 > Now
                then (False, s) else (True, s)
         else (True, s))"

section \<open>Marking free blocks\<close>

text \<open>One group: nothing to do, or the mark of its free blocks; the group gets its checkpoint.\<close>

definition allocated_group_size32 :: "primary_config \<Rightarrow> size_class_info \<Rightarrow> uptr \<Rightarrow> uptr \<Rightarrow> uptr" where
  "allocated_group_size32 cfg s BSize GroupBase =
     (if GroupBase = compactPtrGroupBase32 cfg (CurrentRegion s) then CurrentRegionAllocated s
      else roundDownSlow (push_bit (GroupSizeLog cfg) 1) BSize)"

definition examine_group32 ::
    "primary_config \<Rightarrow> size_class_info \<Rightarrow> uptr \<Rightarrow> ReleaseToOS \<Rightarrow> batch_group \<Rightarrow> bool \<times> batch_group" where
  "examine_group32 cfg s BSize ReleaseType BG =
     (let GroupBase = decompactGroupBase32 (CompactPtrGroupBase BG);
          AllocatedGroupSize = allocated_group_size32 cfg s BSize GroupBase;
          BytesInBG = group_num_blocks BG * BSize;
          checked = BG\<lparr>BytesInBGAtLastCheckpoint := BytesInBG\<rparr>
      in if AllocatedGroupSize = 0 then (False, BG)
         else if ReleaseType \<noteq> ReleaseForceAll then
           if BytesInBG \<le> BytesInBGAtLastCheckpoint BG then (False, checked)
           else
             let PushedBytesDelta = BytesInBG - BytesInBGAtLastCheckpoint BG
             in if PushedBytesDelta < PageSizeOf cfg then (False, BG)
                else if isSmallBlock cfg BSize
                        \<and> (BytesInBG * 100) div AllocatedGroupSize < 100 - 1 - BSize div 16 then (False, BG)
                else (True, checked)
         else (True, checked))"

definition mark_group32 ::
    "primary_config \<Rightarrow> os32 \<Rightarrow> size_class_info \<Rightarrow> uptr \<Rightarrow> uptr \<Rightarrow> batch_group
      \<Rightarrow> page_release_context \<times> uptr \<Rightarrow> page_release_context \<times> uptr" where
  "mark_group32 cfg os s BSize Base BG cm =
     (let GroupBase = decompactGroupBase32 (CompactPtrGroupBase BG);
          AllocatedGroupSize = allocated_group_size32 cfg s BSize GroupBase;
          MaxContainedBlocks = AllocatedGroupSize div BSize;
          RegionIndex = (GroupBase - Base) div RegionSize cfg
      in if group_num_blocks BG = MaxContainedBlocks
         then snd (markRangeAsAllCounted (os32_map_ok os) (PPageSizeLog cfg) GroupBase
                     (GroupBase + AllocatedGroupSize) GroupBase RegionIndex AllocatedGroupSize cm)
         else snd (markFreeBlocksInRegion (os32_map_ok os) (PPageSizeLog cfg) (map Blocks (Batches BG))
                     (\<lambda>P. P) GroupBase RegionIndex AllocatedGroupSize True cm))"

text \<open>The loop stops early when the page map cannot be allocated.\<close>

fun mark_groups32 ::
    "primary_config \<Rightarrow> os32 \<Rightarrow> size_class_info \<Rightarrow> uptr \<Rightarrow> uptr \<Rightarrow> ReleaseToOS \<Rightarrow> batch_group list
      \<Rightarrow> page_release_context \<times> uptr \<Rightarrow> batch_group list \<times> page_release_context \<times> uptr" where
  "mark_groups32 cfg os s BSize Base ReleaseType [] cm = ([], cm)"
| "mark_groups32 cfg os s BSize Base ReleaseType (BG # BGs) cm =
     (let (marks, BG) = examine_group32 cfg s BSize ReleaseType BG
      in if \<not> marks then
           let (BGs, cm) = mark_groups32 cfg os s BSize Base ReleaseType BGs cm in (BG # BGs, cm)
         else
           let cm = mark_group32 cfg os s BSize Base BG cm
           in if \<not> hasBlockMarked (fst cm) then (BG # BGs, cm)
              else let (BGs, cm) = mark_groups32 cfg os s BSize Base ReleaseType BGs cm in (BG # BGs, cm))"

definition markFreeBlocks32 ::
    "primary_config \<Rightarrow> os32 \<Rightarrow> size_class_info \<Rightarrow> uptr \<Rightarrow> uptr \<Rightarrow> uptr \<Rightarrow> ReleaseToOS \<Rightarrow> uptr
      \<Rightarrow> page_release_context \<times> uptr \<times> size_class_info" where
  "markFreeBlocks32 cfg os s BSize Base NumberOfRegions ReleaseType Mask =
     (let Context = PageReleaseContext_init (PPageSizeLog cfg) BSize NumberOfRegions (RegionSize cfg) 0;
          (BGs, Context, Mask) = mark_groups32 cfg os s BSize Base ReleaseType (BlockList32 s) (Context, Mask)
      in (Context, Mask, s\<lparr>BlockList32 := BGs\<rparr>))"

section \<open>Releasing\<close>

text \<open>\<^verbatim>\<open>PossibleRegions[I] - 1U\<close> is computed in 32 bits, so an unused region has no class.\<close>

definition skip_region :: "heap32 \<Rightarrow> uptr \<Rightarrow> uptr \<Rightarrow> uptr \<Rightarrow> bool" where
  "skip_region h ClassId Start RegionIndex =
     (ucast ((ucast (bytemap_get (PossibleRegions h) (Start + RegionIndex)) :: u32) - 1) \<noteq> ClassId)"

definition bytes_in_free_list :: "uptr \<Rightarrow> size_class_info \<Rightarrow> uptr" where
  "bytes_in_free_list BSize s = AllocatedUser32 s - (PoppedBlocks32 s - PushedBlocks32 s) * BSize"

definition releaseToOSMaybe32 ::
    "primary_config \<Rightarrow> os32 \<Rightarrow> uptr \<Rightarrow> ReleaseToOS \<Rightarrow> heap32 \<times> uptr
      \<Rightarrow> uptr \<times> (uptr \<times> uptr) list \<times> heap32 \<times> uptr" where
  "releaseToOSMaybe32 cfg os ClassId ReleaseType = (\<lambda>(h, Mask).
     let BSize = getSizeByClassId32 cfg ClassId;
         s = getSizeClassInfo ClassId h;
         BytesInFreeList = bytes_in_free_list BSize s
     in if BytesInFreeList = 0 then (0, [], h, Mask)
        else
          let (chance, s) = (if ReleaseType \<noteq> ReleaseForceAll
                             then hasChanceToReleasePages32 cfg (ReleaseToOsIntervalMs32 h) (os32_now os) BSize
                                    BytesInFreeList ReleaseType s
                             else (True, s));
              h = upd_sci ClassId (\<lambda>_. s) h
          in if \<not> chance then (0, [], h, Mask)
             else
               let Base = MinRegionIndex s * RegionSize cfg;
                   NumberOfRegions = MaxRegionIndex s - MinRegionIndex s + 1;
                   s = s\<lparr>NumReleasesAttempted32 := NumReleasesAttempted32 s + 1\<rparr>;
                   (Context, Mask, s) = markFreeBlocks32 cfg os s BSize Base NumberOfRegions ReleaseType Mask;
                   h = upd_sci ClassId (\<lambda>_. s) h
               in if \<not> hasBlockMarked Context
                  then (0, [], h, page_map_destroy (CtxPageMap Context) Mask)
                  else
                    let (Context, Rec) = releaseFreeMemoryToOS ReleaseRecorder_release (PPageSizeLog cfg) Context
                          (skip_region h ClassId (MinRegionIndex s))
                          \<lparr>RecBase = Base, RecOffset = 0, ReleasedBytes = 0, OsReleases = []\<rparr>;
                        s = (if ReleasedBytes Rec > 0
                             then s\<lparr>BytesInFreeListAtLastCheckpoint32 := BytesInFreeList,
                                    LastReleasedBytes32 := ReleasedBytes Rec\<rparr> else s);
                        s = s\<lparr>LastReleaseAtNs32 := os32_now os\<rparr>
                    in (ReleasedBytes Rec, OsReleases Rec, upd_sci ClassId (\<lambda>_. s) h,
                        page_map_destroy (CtxPageMap Context) Mask))"

definition tryReleaseToOS32 ::
    "primary_config \<Rightarrow> os32 \<Rightarrow> uptr \<Rightarrow> ReleaseToOS \<Rightarrow> heap32 \<times> uptr
      \<Rightarrow> uptr \<times> (uptr \<times> uptr) list \<times> heap32 \<times> uptr" where
  "tryReleaseToOS32 cfg os ClassId ReleaseType hm = releaseToOSMaybe32 cfg os ClassId ReleaseType hm"

definition releaseToOS32 ::
    "primary_config \<Rightarrow> os32 \<Rightarrow> ReleaseToOS \<Rightarrow> heap32 \<times> uptr
      \<Rightarrow> uptr \<times> (uptr \<times> uptr) list \<times> heap32 \<times> uptr" where
  "releaseToOS32 cfg os ReleaseType hm =
     fold (\<lambda>I (Total, Calls, hm).
            let (n, cs, hm) = releaseToOSMaybe32 cfg os (of_nat I) ReleaseType hm in (Total + n, Calls @ cs, hm))
       (filter (\<lambda>I. of_nat I \<noteq> BatchClassId) [0 ..< unat (NumClasses (PSizeMap cfg))]) (0, [], hm)"

section \<open>Walking over blocks\<close>

text \<open>The lowest and the highest region of all classes. A highest region of \<open>2 ^ 64 - 1\<close> would make the
  loop endless, but \<^verbatim>\<open>computeRegionId\<close> does not let it come about.\<close>

definition region_bounds :: "primary_config \<Rightarrow> size_class_info list \<Rightarrow> uptr \<times> uptr" where
  "region_bounds cfg ss =
     fold (\<lambda>s (Mi, Ma). (if MinRegionIndex s < Mi then MinRegionIndex s else Mi,
                         if MaxRegionIndex s > Ma then MaxRegionIndex s else Ma)) ss (NumRegions cfg, 0)"

definition region_walk :: "primary_config \<Rightarrow> uptr \<Rightarrow> u8 \<Rightarrow> uptr list option" where
  "region_walk cfg I V =
     (if V \<noteq> 0 \<and> ucast ((ucast V :: u32) - 1) \<noteq> BatchClassId
      then let BSize = getSizeByClassId32 cfg (ucast ((ucast V :: u32) - 1));
               From = I * RegionSize cfg;
               To = From + RegionSize cfg div BSize * BSize
           in block_walk BSize From To
      else Some [])"

fun walk_regions32 :: "primary_config \<Rightarrow> (uptr \<Rightarrow> u8) \<Rightarrow> uptr list \<Rightarrow> uptr list option" where
  "walk_regions32 cfg Map [] = Some []"
| "walk_regions32 cfg Map (I # Is) =
     Option.bind (region_walk cfg I (bytemap_get Map I)) (\<lambda>bs.
       Option.bind (walk_regions32 cfg Map Is) (\<lambda>cs. Some (bs @ cs)))"

definition iterateOverBlocks32 :: "primary_config \<Rightarrow> heap32 \<Rightarrow> uptr list option" where
  "iterateOverBlocks32 cfg h =
     (let (Mi, Ma) = region_bounds cfg (SizeClassInfoArray h)
      in walk_regions32 cfg (PossibleRegions h) (map of_nat [unat Mi ..< Suc (unat Ma)]))"

section \<open>Unmapping everything, for tests\<close>

fun unmap_stash :: "primary_config \<Rightarrow> os32 \<Rightarrow> uptr list \<Rightarrow> heap32 \<Rightarrow> heap32 result" where
  "unmap_stash cfg os [] h = Inr h"
| "unmap_stash cfg os (R # Rs) h = bindE (unmap32 os R (RegionSize cfg) h) (unmap_stash cfg os Rs)"

fun unmap_regions :: "primary_config \<Rightarrow> os32 \<Rightarrow> uptr list \<Rightarrow> heap32 \<Rightarrow> heap32 result" where
  "unmap_regions cfg os [] h = Inr h"
| "unmap_regions cfg os (I # Is) h =
     (if bytemap_get (PossibleRegions h) I \<noteq> 0
      then bindE (unmap32 os (I * RegionSize cfg) (RegionSize cfg) h) (unmap_regions cfg os Is)
      else unmap_regions cfg os Is h)"

definition unmapTestOnly32 :: "primary_config \<Rightarrow> os32 \<Rightarrow> heap32 \<Rightarrow> heap32 result" where
  "unmapTestOnly32 cfg os h =
     bindE (unmap_stash cfg os (rev (RegionsStash h)) h) (\<lambda>h.
       let (Mi, Ma) = region_bounds cfg (SizeClassInfoArray h);
           h = h\<lparr>RegionsStash := [], SizeClassInfoArray := map (\<lambda>_. empty_sci) (SizeClassInfoArray h)\<rparr>
       in bindE (unmap_regions cfg os (map of_nat [unat Mi ..< Suc (unat Ma)]) h) (\<lambda>h.
            Inr (h\<lparr>PossibleRegions := bytemap_init\<rparr>)))"

end
