(* ===== verification/Regions32.thy ===== *)
theory Regions32
  imports NodeStore Primary32
begin

text \<open>
  The regions of \<open>Primary32\<close>. A region is known by its index; \<open>area\<close> is the set of its addresses and
  \<open>mapped_by\<close> the set of addresses that the calls made so far have left mapped. The invariant
  \<open>regions_inv\<close> says that the byte map and the stash describe exactly the memory that is mapped, that
  no region is in both, and that the current region of a class is one of its own, with room for a block.

  Taking a region keeps the invariant, whatever the alignment of the mapping the system returns.
\<close>

unbundle bit_operations_syntax

section \<open>Configurations\<close>

definition block_size32 :: "primary_config \<Rightarrow> uptr \<Rightarrow> nat" where
  "block_size32 cfg I = unat (getSizeByClassId32 cfg I)"

definition batch_limit32 :: "primary_config \<Rightarrow> u16" where
  "batch_limit32 cfg = getMaxCached (PSizeMap cfg) (getSizeByClassId32 cfg BatchClassId)"

definition primary32_ok :: "primary_config \<Rightarrow> bool" where
  "primary32_ok cfg \<longleftrightarrow> valid_config (PSizeMap cfg) \<and> unat (NumClasses (PSizeMap cfg)) \<le> 255
     \<and> RegionSizeLog cfg \<le> 35 \<and> GroupSizeLog cfg = RegionSizeLog cfg
     \<and> 0 < unat (MaxNumBatches cfg) \<and> unat (MaxNumBatches cfg) < 2 ^ 15
     \<and> unat (MaxNumBlocksInBatch cfg) < 2 ^ 14 \<and> 2 \<le> batch_limit32 cfg
     \<and> (\<forall>I < NumClasses (PSizeMap cfg). 16 \<le> block_size32 cfg I \<and> block_size32 cfg I \<le> 2 ^ RegionSizeLog cfg
          \<and> 1 \<le> getMaxCached (PSizeMap cfg) (getSizeByClassId32 cfg I))"

lemma unat_RegionSize: "primary32_ok cfg \<Longrightarrow> unat (RegionSize cfg) = 2 ^ RegionSizeLog cfg"
  unfolding RegionSize_def by (intro unat_push_bit_1) (simp add: primary32_ok_def)

lemma RegionSize_power: "RegionSize cfg = 2 ^ RegionSizeLog cfg"
  by (simp add: RegionSize_def push_bit_of_1)

lemma unat_NumRegions: "primary32_ok cfg \<Longrightarrow> unat (NumRegions cfg) = 2 ^ (47 - RegionSizeLog cfg)"
proof -
  assume "primary32_ok cfg"
  then have L: "RegionSizeLog cfg \<le> 47" by (simp add: primary32_ok_def)
  have "unat (push_bit 47 1 :: uptr) = 2 ^ 47" by (rule unat_push_bit_1) simp
  then have "unat (NumRegions cfg) = 2 ^ 47 div 2 ^ RegionSizeLog cfg"
    by (simp only: NumRegions_def unat_drop_bit)
  also have "\<dots> = 2 ^ (47 - RegionSizeLog cfg)" using L by (simp add: power_diff)
  finally show ?thesis .
qed

section \<open>Regions and their addresses\<close>

definition region_at :: "primary_config \<Rightarrow> uptr \<Rightarrow> uptr" where
  "region_at cfg i = push_bit (RegionSizeLog cfg) i"

definition area :: "primary_config \<Rightarrow> uptr \<Rightarrow> nat set" where
  "area cfg i = {unat i * 2 ^ RegionSizeLog cfg ..< (unat i + 1) * 2 ^ RegionSizeLog cfg}"

definition region_index :: "primary_config \<Rightarrow> uptr \<Rightarrow> bool" where
  "region_index cfg i \<longleftrightarrow> 0 < i \<and> i < NumRegions cfg"

lemma region_index_bound:
  assumes "primary32_ok cfg" "region_index cfg i"
  shows "(unat i + 1) * 2 ^ RegionSizeLog cfg \<le> 2 ^ 47"
proof -
  have L: "RegionSizeLog cfg \<le> 47" using assms(1) by (simp add: primary32_ok_def)
  have "unat i + 1 \<le> 2 ^ (47 - RegionSizeLog cfg)"
    using assms by (simp add: region_index_def word_less_nat_alt unat_NumRegions)
  then have "(unat i + 1) * 2 ^ RegionSizeLog cfg \<le> 2 ^ (47 - RegionSizeLog cfg) * 2 ^ RegionSizeLog cfg"
    by (rule mult_le_mono1)
  also have "\<dots> = 2 ^ 47" using L by (simp only: power_add [symmetric] le_add_diff_inverse2)
  finally show ?thesis .
qed

lemma region_indexI:
  assumes "primary32_ok cfg" "0 < unat i" "(unat i + 1) * 2 ^ RegionSizeLog cfg \<le> 2 ^ 47"
  shows "region_index cfg i"
proof -
  have L: "RegionSizeLog cfg \<le> 47" using assms(1) by (simp add: primary32_ok_def)
  have "(2::nat) ^ 47 = 2 ^ (47 - RegionSizeLog cfg) * 2 ^ RegionSizeLog cfg"
    using L by (simp only: power_add [symmetric] le_add_diff_inverse2)
  then have "(unat i + 1) * 2 ^ RegionSizeLog cfg \<le> 2 ^ (47 - RegionSizeLog cfg) * 2 ^ RegionSizeLog cfg"
    using assms(3) by simp
  then have "unat i + 1 \<le> 2 ^ (47 - RegionSizeLog cfg)" by (simp only: mult_le_cancel2) simp
  then show ?thesis using assms(1,2) by (simp add: region_index_def word_less_nat_alt unat_NumRegions)
qed

lemma unat_region_at:
  assumes "primary32_ok cfg" "region_index cfg i"
  shows "unat (region_at cfg i) = unat i * 2 ^ RegionSizeLog cfg"
proof -
  have "unat i * 2 ^ RegionSizeLog cfg \<le> (unat i + 1) * 2 ^ RegionSizeLog cfg" by (rule mult_le_mono1) simp
  also have "\<dots> \<le> 2 ^ 47" by (rule region_index_bound [OF assms])
  also have "\<dots> < 2 ^ LENGTH(64)" by simp
  finally have "unat i * 2 ^ RegionSizeLog cfg < 2 ^ LENGTH(64)" .
  then show ?thesis unfolding region_at_def by (rule unat_push_bit_small)
qed

lemma region_at_inj:
  assumes "primary32_ok cfg" "region_index cfg i" "region_index cfg j" "region_at cfg i = region_at cfg j"
  shows "i = j"
proof -
  have "unat i * 2 ^ RegionSizeLog cfg = unat j * 2 ^ RegionSizeLog cfg"
    using assms by (metis unat_region_at)
  then show ?thesis by (simp add: word_unat_eq_iff)
qed

lemma region_at_nonzero: "primary32_ok cfg \<Longrightarrow> region_index cfg i \<Longrightarrow> region_at cfg i \<noteq> 0"
  using unat_region_at [of cfg i] by (auto simp: region_index_def word_less_nat_alt simp flip: unat_eq_0)

lemma computeRegionId_at:
  assumes "primary32_ok cfg" "region_index cfg i"
  shows "computeRegionId cfg (region_at cfg i) = Inr i"
proof -
  have "unat (drop_bit (RegionSizeLog cfg) (region_at cfg i)) = unat i"
    by (simp add: unat_drop_bit unat_region_at [OF assms])
  then have "drop_bit (RegionSizeLog cfg) (region_at cfg i) = i" by (simp add: word_unat_eq_iff)
  then show ?thesis using assms(2) by (simp add: computeRegionId_def region_index_def)
qed

lemma area_disjoint: "i \<noteq> j \<Longrightarrow> area cfg i \<inter> area cfg j = {}"
proof -
  have "unat i = a div 2 ^ RegionSizeLog cfg" if "a \<in> area cfg i" for a i
    using that by (auto simp: area_def intro!: div_nat_eqI [symmetric] simp: algebra_simps)
  then show "i \<noteq> j \<Longrightarrow> ?thesis" by (auto simp: word_unat_eq_iff)
qed

lemma area_nonempty: "area cfg i \<noteq> {}"
  by (simp add: area_def)

section \<open>What is mapped\<close>

fun apply_call :: "nat set \<Rightarrow> map_call \<Rightarrow> nat set" where
  "apply_call M (MapCall a n) = M \<union> {unat a ..< unat a + unat n}"
| "apply_call M (UnmapCall a n) = M - {unat a ..< unat a + unat n}"

definition mapped_by :: "map_call list \<Rightarrow> nat set" where
  "mapped_by calls = foldl apply_call {} calls"

lemma mapped_by_simps [simp]: "mapped_by [] = {}" "mapped_by (cs @ [c]) = apply_call (mapped_by cs) c"
  by (simp_all add: mapped_by_def)

text \<open>What \<^verbatim>\<open>mmap\<close> without a fixed address promises: a range of the address space that is not null and
  not mapped.\<close>

definition fresh_os :: "os32 \<Rightarrow> bool" where
  "fresh_os os \<longleftrightarrow> (\<forall>calls n b. os32_map os calls n = Some b \<longrightarrow>
     0 < unat b \<and> unat b + unat n \<le> 2 ^ 47 \<and> {unat b ..< unat b + unat n} \<inter> mapped_by calls = {})"

lemma area_range:
  "primary32_ok cfg \<Longrightarrow> region_index cfg i \<Longrightarrow>
    area cfg i = {unat (region_at cfg i) ..< unat (region_at cfg i) + 2 ^ RegionSizeLog cfg}"
  by (simp add: area_def unat_region_at algebra_simps)

text \<open>A multiple of the region size is a region.\<close>

lemma region_atE:
  assumes "primary32_ok cfg" "unat R = k * 2 ^ RegionSizeLog cfg" "0 < k" "(k + 1) * 2 ^ RegionSizeLog cfg \<le> 2 ^ 47"
  obtains i where "unat i = k" "R = region_at cfg i" "region_index cfg i"
proof -
  have "k \<le> k * 2 ^ RegionSizeLog cfg" by simp
  also have "\<dots> \<le> (k + 1) * 2 ^ RegionSizeLog cfg" by (rule mult_le_mono1) simp
  also have "\<dots> \<le> 2 ^ 47" by (rule assms(4))
  also have "\<dots> < 2 ^ LENGTH(64)" by simp
  finally have i: "unat (of_nat k :: uptr) = k" by (rule unat_of_nat_small)
  then have ix: "region_index cfg (of_nat k)" using assms(1,3,4) by (intro region_indexI) simp_all
  have "unat R = unat (region_at cfg (of_nat k))" using assms(2) by (simp only: unat_region_at [OF assms(1) ix] i)
  then have "R = region_at cfg (of_nat k)" by (simp only: word_unat_eq_iff)
  with i ix that show thesis by blast
qed

section \<open>Mapping two regions\<close>

lemma isAligned_region: "primary32_ok cfg \<Longrightarrow> isAligned b (RegionSize cfg) \<longleftrightarrow> unat b mod 2 ^ RegionSizeLog cfg = 0"
  by (simp add: isAligned_def RegionSize_power power_minus_1_mask unat_mask_and flip: unat_eq_0)

lemma unat_two_regions:
  assumes "primary32_ok cfg"
  shows "unat (2 * RegionSize cfg) = 2 * 2 ^ RegionSizeLog cfg"
proof -
  have "(2::nat) ^ RegionSizeLog cfg \<le> 2 ^ 35" using assms by (intro power_increasing) (simp_all add: primary32_ok_def)
  then have "unat (2 :: uptr) * unat (RegionSize cfg) < 2 ^ LENGTH(64)"
    by (simp add: unat_RegionSize [OF assms])
  from unat_mult_small [OF this] show ?thesis by (simp add: unat_RegionSize [OF assms])
qed

text \<open>The result of a mapping \<open>[b, b + 2 * RS)\<close>: the region \<open>i\<close> that is returned and perhaps the region
  \<open>j\<close> that is stashed are inside of it, and nothing else stays mapped.\<close>

definition two_regions :: "primary_config \<Rightarrow> nat set \<Rightarrow> nat set \<Rightarrow> uptr list \<Rightarrow> uptr list \<Rightarrow> uptr \<Rightarrow> bool" where
  "two_regions cfg M M' st st' i \<longleftrightarrow> region_index cfg i \<and> area cfg i \<inter> M = {}
     \<and> (st' = st \<and> M' = M \<union> area cfg i
        \<or> (\<exists>j. region_index cfg j \<and> j \<noteq> i \<and> area cfg j \<inter> M = {} \<and> st' = st @ [region_at cfg j]
              \<and> M' = M \<union> area cfg i \<union> area cfg j))"

lemma unat_sub_nat: "b \<le> a \<Longrightarrow> unat (a - b) = unat a - unat b" for a b :: uptr
  by (rule unat_sub)

lemma map_aligned:
  assumes cfg: "primary32_ok cfg" and os: "fresh_os os"
    and m: "os32_map os (MapCalls h) (2 * RegionSize cfg) = Some b"
    and al: "unat b mod 2 ^ RegionSizeLog cfg = 0"
  obtains i j where "b = region_at cfg i" "b + RegionSize cfg = region_at cfg j" "region_index cfg i" "region_index cfg j"
    "i \<noteq> j" "area cfg i \<inter> mapped_by (MapCalls h) = {}" "area cfg j \<inter> mapped_by (MapCalls h) = {}"
    "{unat b ..< unat b + unat (2 * RegionSize cfg)} = area cfg i \<union> area cfg j"
    "unat (b + RegionSize cfg) = unat b + 2 ^ RegionSizeLog cfg"
proof -
  let ?S = "(2::nat) ^ RegionSizeLog cfg"
  have b: "0 < unat b" "unat b + 2 * ?S \<le> 2 ^ 47" "{unat b ..< unat b + 2 * ?S} \<inter> mapped_by (MapCalls h) = {}"
    using os m unfolding fresh_os_def unat_two_regions [OF cfg, symmetric] by blast+
  obtain k where k: "unat b = k * ?S" using al by (metis mod_0_imp_dvd dvd_def mult.commute)
  have k0: "0 < k" using b(1) k by (cases k) simp_all
  have k1: "(k + 1) * ?S \<le> 2 ^ 47" using b(2) k by simp
  have bS: "unat (b + RegionSize cfg) = unat b + ?S"
  proof -
    have "unat b + unat (RegionSize cfg) < 2 ^ LENGTH(64)" using b(2) by (simp add: unat_RegionSize [OF cfg])
    from unat_add_small [OF this] show ?thesis by (simp add: unat_RegionSize [OF cfg])
  qed
  then have bS': "unat (b + RegionSize cfg) = (k + 1) * ?S" using k by simp
  have k2: "(k + 1 + 1) * ?S \<le> 2 ^ 47" using b(2) k by simp
  obtain i where i: "unat i = k" "b = region_at cfg i" "region_index cfg i" using region_atE [OF cfg k k0 k1] .
  obtain j where j: "unat j = k + 1" "b + RegionSize cfg = region_at cfg j" "region_index cfg j"
    using region_atE [OF cfg bS' _ k2] by auto
  have ij: "i \<noteq> j" using i(1) j(1) by auto
  have ai: "area cfg i = {unat b ..< unat b + ?S}" by (simp only: area_range [OF cfg i(3)] i(2) [symmetric])
  have aj: "area cfg j = {unat b + ?S ..< unat b + ?S + ?S}" by (simp only: area_range [OF cfg j(3)] j(2) [symmetric] bS)
  have "{unat b ..< unat b + 2 * ?S} = area cfg i \<union> area cfg j" unfolding ai aj by auto
  with b(3) have "{unat b ..< unat b + unat (2 * RegionSize cfg)} = area cfg i \<union> area cfg j"
    "area cfg i \<inter> mapped_by (MapCalls h) = {}" "area cfg j \<inter> mapped_by (MapCalls h) = {}"
    unfolding unat_two_regions [OF cfg] by blast+
  with that i j ij bS show thesis by blast
qed

lemma map_unaligned:
  assumes cfg: "primary32_ok cfg" and os: "fresh_os os"
    and m: "os32_map os (MapCalls h) (2 * RegionSize cfg) = Some b"
    and al: "unat b mod 2 ^ RegionSizeLog cfg \<noteq> 0"
  obtains i where "roundUp b (RegionSize cfg) = region_at cfg i" "region_index cfg i"
    "unat b < unat (region_at cfg i)" "unat (region_at cfg i) + 2 ^ RegionSizeLog cfg < unat b + 2 * 2 ^ RegionSizeLog cfg"
    "area cfg i \<inter> mapped_by (MapCalls h) = {}"
proof -
  let ?S = "(2::nat) ^ RegionSizeLog cfg"
  have b: "0 < unat b" "unat b + 2 * ?S \<le> 2 ^ 47" "{unat b ..< unat b + 2 * ?S} \<inter> mapped_by (MapCalls h) = {}"
    using os m unfolding fresh_os_def unat_two_regions [OF cfg, symmetric] by blast+
  have L: "RegionSizeLog cfg < 64" using cfg by (simp add: primary32_ok_def)
  define k where "k = unat b div ?S + 1"
  have d: "unat b = (k - 1) * ?S + unat b mod ?S"
    by (simp only: k_def add_diff_cancel_right' div_mult_mod_eq)
  have r: "0 < unat b mod ?S" "unat b mod ?S < ?S" using al by simp_all
  have kS: "k * ?S = (k - 1) * ?S + ?S" by (simp add: k_def)
  have "(unat b + ?S - 1) div ?S = k"
  proof (rule div_nat_eqI)
    show "?S * k \<le> unat b + ?S - 1" "unat b + ?S - 1 < ?S * Suc k"
      unfolding mult_Suc_right mult.commute [of ?S k] using d r kS by linarith+
  qed
  then have u: "unat (roundUp b (RegionSize cfg)) = k * ?S"
    using unat_roundUp [OF RegionSize_power L, of b] b(2) by simp
  have bounds: "unat b < k * ?S" "k * ?S + ?S < unat b + 2 * ?S" using d r kS by linarith+
  have k1: "(k + 1) * ?S \<le> 2 ^ 47" using bounds b(2) by simp
  obtain i where i: "unat i = k" "roundUp b (RegionSize cfg) = region_at cfg i" "region_index cfg i"
    using region_atE [OF cfg u _ k1] by (auto simp: k_def)
  have ui: "unat (region_at cfg i) = k * ?S" using u i(2) by simp
  have "area cfg i \<subseteq> {unat b ..< unat b + 2 * ?S}"
    using bounds by (auto simp: area_range [OF cfg i(3)] ui)
  then have "area cfg i \<inter> mapped_by (MapCalls h) = {}" using b(3) by blast
  with that i bounds ui show thesis by simp
qed

lemma unmap32_ok: "unmap32 os a n h = Inr h' \<Longrightarrow> h' = h\<lparr>MapCalls := MapCalls h @ [UnmapCall a n]\<rparr>"
  by (simp add: unmap32_def split: if_splits)

lemma slow_ok:
  assumes cfg: "primary32_ok cfg" and os: "fresh_os os" and s: "allocateRegionSlow cfg os h = Inr (R, h')"
  shows "R = 0 \<and> h' = h \<or> (\<exists>i st calls. R = region_at cfg i \<and> h' = h\<lparr>MapCalls := calls, RegionsStash := st\<rparr>
    \<and> two_regions cfg (mapped_by (MapCalls h)) (mapped_by calls) (RegionsStash h) st i)"
proof (cases "os32_map os (MapCalls h) (2 * RegionSize cfg)")
  case None
  then show ?thesis using s by (simp add: allocateRegionSlow_def)
next
  case (Some b)
  let ?S = "(2::nat) ^ RegionSizeLog cfg" and ?RS = "RegionSize cfg" and ?M = "mapped_by (MapCalls h)"
  have RS0: "?RS \<noteq> 0" using unat_RegionSize [OF cfg] by (auto simp flip: unat_eq_0)
  have two: "b + 2 * ?RS = b + ?RS + ?RS" by simp
  have b47: "unat b + 2 * ?S \<le> 2 ^ 47" using os Some unfolding fresh_os_def unat_two_regions [OF cfg, symmetric] by blast
  have uend: "unat (b + 2 * ?RS) = unat b + 2 * ?S"
  proof -
    have "unat b + unat (2 * ?RS) < 2 ^ LENGTH(64)" using b47 by (simp add: unat_two_regions [OF cfg])
    from unat_add_small [OF this] show ?thesis by (simp only: unat_two_regions [OF cfg])
  qed
  show ?thesis
  proof (cases "isAligned b ?RS")
    case True
    then have "unat b mod ?S = 0" by (simp add: isAligned_region [OF cfg])
    from map_aligned [OF cfg os Some this] obtain i j where ij: "b = region_at cfg i" "b + ?RS = region_at cfg j"
        "region_index cfg i" "region_index cfg j" "i \<noteq> j" "area cfg i \<inter> ?M = {}" "area cfg j \<inter> ?M = {}"
        "{unat b ..< unat b + unat (2 * ?RS)} = area cfg i \<union> area cfg j" "unat (b + ?RS) = unat b + ?S" by blast
    show ?thesis
    proof (cases "length (RegionsStash h) < MaxStashedRegions")
      case True
      then have "R = b" "h' = h\<lparr>MapCalls := MapCalls h @ [MapCall b (2 * ?RS)], RegionsStash := RegionsStash h @ [b + ?RS]\<rparr>"
        using s Some \<open>isAligned b ?RS\<close> by (auto simp: allocateRegionSlow_def Let_def)
      moreover have "two_regions cfg ?M (mapped_by (MapCalls h @ [MapCall b (2 * ?RS)])) (RegionsStash h)
          (RegionsStash h @ [b + ?RS]) i"
        using ij by (auto simp: two_regions_def)
      ultimately show ?thesis using ij(1) by blast
    next
      case False
      have ne: "b + ?RS \<noteq> b + 2 * ?RS" using RS0 by (simp add: two)
      have "R = b" "h' = h\<lparr>MapCalls := MapCalls h @ [MapCall b (2 * ?RS)] @ [UnmapCall (b + ?RS) ?RS]\<rparr>"
        using s Some \<open>isAligned b ?RS\<close> False ne
        by (auto simp: allocateRegionSlow_def Let_def bindE_eq_Inr dest!: unmap32_ok split: if_splits)
      moreover have "area cfg j = {unat (b + ?RS) ..< unat (b + ?RS) + unat ?RS}"
        using area_range [OF cfg ij(4)] by (simp only: ij(2) unat_RegionSize [OF cfg])
      then have "?M \<union> {unat b ..< unat b + unat (2 * ?RS)} - {unat (b + ?RS) ..< unat (b + ?RS) + unat ?RS} = ?M \<union> area cfg i"
        using ij(7,8) area_disjoint [OF ij(5), of cfg] by blast
      then have "two_regions cfg ?M (mapped_by ((MapCalls h @ [MapCall b (2 * ?RS)]) @ [UnmapCall (b + ?RS) ?RS]))
          (RegionsStash h) (RegionsStash h) i"
        unfolding mapped_by_simps apply_call.simps two_regions_def using ij(3,6) by blast
      ultimately show ?thesis using ij(1) by (intro disjI2 exI [of _ i] exI [of _ "RegionsStash h"] exI) auto
    qed
  next
    case False
    then have "unat b mod ?S \<noteq> 0" by (simp add: isAligned_region [OF cfg])
    from map_unaligned [OF cfg os Some this] obtain i where i: "roundUp b ?RS = region_at cfg i" "region_index cfg i"
      "unat b < unat (region_at cfg i)" "unat (region_at cfg i) + ?S < unat b + 2 * ?S" "area cfg i \<inter> ?M = {}" by blast
    let ?R = "region_at cfg i" and ?E = "region_at cfg i + ?RS"
    have uE: "unat ?E = unat ?R + ?S"
    proof -
      have "unat ?R + unat ?RS < 2 ^ LENGTH(64)" using i(4) b47 by (simp add: unat_RegionSize [OF cfg])
      from unat_add_small [OF this] show ?thesis by (simp only: unat_RegionSize [OF cfg])
    qed
    have ne: "?E \<noteq> b + 2 * ?RS"
    proof
      assume "?E = b + 2 * ?RS"
      then have "unat ?E = unat b + 2 * ?S" by (simp only: uend)
      with uE i(4) show False by linarith
    qed
    have "R = ?R" "h' = h\<lparr>MapCalls := ((MapCalls h @ [MapCall b (2 * ?RS)]) @ [UnmapCall b (?R - b)]) @ [UnmapCall ?E (b + 2 * ?RS - ?E)]\<rparr>"
      using s Some False ne i(1)
      by (auto simp: allocateRegionSlow_def Let_def bindE_eq_Inr dest!: unmap32_ok split: if_splits)
    moreover have d1: "unat (?R - b) = unat ?R - unat b" using i(3) by (intro unat_sub_nat) (simp add: word_le_nat_alt)
    have d2: "unat (b + 2 * ?RS - ?E) = unat (b + 2 * ?RS) - unat ?E"
      using i(4) uE uend by (intro unat_sub_nat) (simp add: word_le_nat_alt)
    have ai: "area cfg i = {unat ?R ..< unat ?R + ?S}" by (rule area_range [OF cfg i(2)])
    have "x \<notin> ?M" if "unat b \<le> x" "x < unat b + 2 * ?S" for x
      using os Some that unfolding fresh_os_def unat_two_regions [OF cfg, symmetric] by force
    then have "?M \<union> {unat b ..< unat b + unat (2 * ?RS)} - {unat b ..< unat b + unat (?R - b)}
        - {unat ?E ..< unat ?E + unat (b + 2 * ?RS - ?E)} = ?M \<union> area cfg i"
      unfolding d1 d2 uE uend ai unat_two_regions [OF cfg] using i(3,4) by auto
    then have "two_regions cfg ?M (mapped_by (((MapCalls h @ [MapCall b (2 * ?RS)]) @ [UnmapCall b (?R - b)])
        @ [UnmapCall ?E (b + 2 * ?RS - ?E)])) (RegionsStash h) (RegionsStash h) i"
      unfolding mapped_by_simps apply_call.simps two_regions_def using i(2,5) by blast
    ultimately show ?thesis by (intro disjI2 exI [of _ i] exI [of _ "RegionsStash h"] exI) auto
  qed
qed

section \<open>The invariant\<close>

definition class_byte :: "uptr \<Rightarrow> u8" where
  "class_byte I = ucast (I + 1)"

definition is_class32 :: "primary_config \<Rightarrow> uptr \<Rightarrow> bool" where
  "is_class32 cfg I \<longleftrightarrow> I < NumClasses (PSizeMap cfg)"

lemma unat_class_byte:
  assumes "primary32_ok cfg" "is_class32 cfg I"
  shows "unat (class_byte I) = unat I + 1"
proof -
  have I: "unat I + 1 \<le> 255" using assms by (simp add: primary32_ok_def is_class32_def word_less_nat_alt)
  then have "unat (I + 1) = unat I + 1" by (subst unat_add_small) simp_all
  then show ?thesis using I by (simp add: class_byte_def unat_ucast_eq)
qed

lemma class_byte_nonzero: "primary32_ok cfg \<Longrightarrow> is_class32 cfg I \<Longrightarrow> class_byte I \<noteq> 0"
  using unat_class_byte by (fastforce simp flip: unat_eq_0)

lemma class_byte_inj: "primary32_ok cfg \<Longrightarrow> is_class32 cfg I \<Longrightarrow> is_class32 cfg J \<Longrightarrow> class_byte I = class_byte J \<longleftrightarrow> I = J"
  using unat_class_byte [of cfg I] unat_class_byte [of cfg J] by (auto simp: word_unat_eq_iff)

definition sci_ok :: "primary_config \<Rightarrow> uptr \<Rightarrow> (uptr \<Rightarrow> u8) \<Rightarrow> size_class_info \<Rightarrow> bool" where
  "sci_ok cfg I Map s \<longleftrightarrow> (\<forall>i. Map i = class_byte I \<longrightarrow> MinRegionIndex s \<le> i \<and> i \<le> MaxRegionIndex s)
     \<and> (if CurrentRegion s = 0 then CurrentRegionAllocated s = 0
        else (\<exists>i. region_index cfg i \<and> CurrentRegion s = region_at cfg i \<and> Map i = class_byte I)
           \<and> block_size32 cfg I dvd unat (CurrentRegionAllocated s)
           \<and> unat (CurrentRegionAllocated s) + block_size32 cfg I \<le> 2 ^ RegionSizeLog cfg)"

definition known_regions :: "primary_config \<Rightarrow> (uptr \<Rightarrow> u8) \<Rightarrow> uptr list \<Rightarrow> uptr set" where
  "known_regions cfg Map st = {i. Map i \<noteq> 0} \<union> {i. region_index cfg i \<and> region_at cfg i \<in> set st}"

definition stash_ok :: "primary_config \<Rightarrow> (uptr \<Rightarrow> u8) \<Rightarrow> uptr list \<Rightarrow> bool" where
  "stash_ok cfg Map st \<longleftrightarrow> distinct st \<and> (\<forall>R \<in> set st. \<exists>i. region_index cfg i \<and> R = region_at cfg i \<and> Map i = 0)"

definition regions_inv :: "primary_config \<Rightarrow> heap32 \<Rightarrow> bool" where
  "regions_inv cfg h \<longleftrightarrow> length (SizeClassInfoArray h) = unat (NumClasses (PSizeMap cfg))
     \<and> (\<forall>i. PossibleRegions h i \<noteq> 0 \<longrightarrow> region_index cfg i
          \<and> (\<exists>I. is_class32 cfg I \<and> PossibleRegions h i = class_byte I))
     \<and> stash_ok cfg (PossibleRegions h) (RegionsStash h)
     \<and> mapped_by (MapCalls h) = (\<Union>i \<in> known_regions cfg (PossibleRegions h) (RegionsStash h). area cfg i)
     \<and> (\<forall>I. is_class32 cfg I \<longrightarrow> sci_ok cfg I (PossibleRegions h) (getSizeClassInfo I h))"

lemma sci_index: "regions_inv cfg h \<Longrightarrow> is_class32 cfg I \<Longrightarrow> unat I < length (SizeClassInfoArray h)"
  by (simp add: regions_inv_def is_class32_def word_less_nat_alt)

lemma getSizeClassInfo_upd:
  "unat J < length (SizeClassInfoArray h) \<Longrightarrow>
    getSizeClassInfo I (upd_sci J f h) = (if I = J then f (getSizeClassInfo J h) else getSizeClassInfo I h)"
  by (auto simp: getSizeClassInfo_def upd_sci_def nth_list_update word_unat_eq_iff)

lemma upd_sci_simps [simp]:
  "length (SizeClassInfoArray (upd_sci J f h)) = length (SizeClassInfoArray h)"
  "PerClassArray (upd_sci J f h) = PerClassArray h"
  "get_class I (upd_sci J f h) = get_class I h"
  "PossibleRegions (upd_sci J f h) = PossibleRegions h"
  "RegionsStash (upd_sci J f h) = RegionsStash h"
  "MapCalls (upd_sci J f h) = MapCalls h"
  by (simp_all add: upd_sci_def get_class_def)

lemma upd_other_sci [simp]:
  "SizeClassInfoArray (upd_class J g h) = SizeClassInfoArray h"
  "SizeClassInfoArray (upd_stats k h) = SizeClassInfoArray h"
  "getSizeClassInfo I (upd_class J g h) = getSizeClassInfo I h"
  "getSizeClassInfo I (upd_stats k h) = getSizeClassInfo I h"
  "PossibleRegions (upd_class J g h) = PossibleRegions h" "PossibleRegions (upd_stats k h) = PossibleRegions h"
  "RegionsStash (upd_class J g h) = RegionsStash h" "RegionsStash (upd_stats k h) = RegionsStash h"
  "MapCalls (upd_class J g h) = MapCalls h" "MapCalls (upd_stats k h) = MapCalls h"
  by (simp_all add: upd_class_def upd_stats_def getSizeClassInfo_def)

lemma regions_inv_upd [simp]:
  "regions_inv cfg (upd_class J g h) = regions_inv cfg h" "regions_inv cfg (upd_stats k h) = regions_inv cfg h"
  by (simp_all add: regions_inv_def)

section \<open>Taking a region\<close>

text \<open>Memory that is mapped and not known is made known as region \<open>i\<close> of class \<open>I\<close>.\<close>

lemma mark_ok:
  assumes cfg: "primary32_ok cfg" and I: "is_class32 cfg I" and inv: "regions_inv cfg h"
    and i: "region_index cfg i" "PossibleRegions h i = 0" "region_at cfg i \<notin> set st"
    and st: "stash_ok cfg (PossibleRegions h) st"
    and m: "mapped_by calls = (\<Union>k \<in> insert i (known_regions cfg (PossibleRegions h) st). area cfg k)"
  shows "regions_inv cfg (mark_region cfg I i (h\<lparr>MapCalls := calls, RegionsStash := st\<rparr>))"
proof -
  let ?h = "mark_region cfg I i (h\<lparr>MapCalls := calls, RegionsStash := st\<rparr>)"
  note nz = class_byte_nonzero [OF cfg I]
  have pr: "PossibleRegions ?h = (PossibleRegions h)(i := class_byte I)"
    by (simp add: mark_region_def bytemap_set_def class_byte_def upd_sci_def)
  have other: "RegionsStash ?h = st" "MapCalls ?h = calls" "length (SizeClassInfoArray ?h) = length (SizeClassInfoArray h)"
    by (simp_all add: mark_region_def upd_sci_def)
  have st': "stash_ok cfg (PossibleRegions ?h) st"
    using st i(3) unfolding stash_ok_def pr by (metis fun_upd_other)
  have "known_regions cfg (PossibleRegions ?h) st = insert i (known_regions cfg (PossibleRegions h) st)"
    using nz by (auto simp: known_regions_def pr)
  moreover have "sci_ok cfg J (PossibleRegions ?h) (getSizeClassInfo J ?h)" if J: "is_class32 cfg J" for J
  proof -
    have ok: "sci_ok cfg J (PossibleRegions h) (getSizeClassInfo J h)" using inv J by (simp add: regions_inv_def)
    have l: "unat I < length (SizeClassInfoArray h)" by (rule sci_index [OF inv I])
    have ex: "\<exists>k. region_index cfg k \<and> R = region_at cfg k \<and> PossibleRegions ?h k = class_byte J"
      if "\<exists>k. region_index cfg k \<and> R = region_at cfg k \<and> PossibleRegions h k = class_byte J" for R
      using that i(2) class_byte_nonzero [OF cfg J] unfolding pr by (metis fun_upd_other)
    show ?thesis
    proof (cases "J = I")
      case False
      then have "class_byte J \<noteq> class_byte I" using class_byte_inj [OF cfg J I] by simp
      moreover have "getSizeClassInfo J ?h = getSizeClassInfo J h"
        using False by (simp add: mark_region_def getSizeClassInfo_def upd_sci_def nth_list_update word_unat_eq_iff)
      moreover have "class_byte J \<noteq> 0" by (rule class_byte_nonzero [OF cfg J])
      moreover have "PossibleRegions ?h k = class_byte J \<longleftrightarrow> PossibleRegions h k = class_byte J" for k
        using \<open>class_byte J \<noteq> class_byte I\<close> \<open>class_byte J \<noteq> 0\<close> i(2) by (auto simp: pr)
      ultimately show ?thesis using ok unfolding sci_ok_def by simp
    next
      case True
      let ?s = "getSizeClassInfo I h"
      have s: "getSizeClassInfo I ?h = ?s\<lparr>MinRegionIndex := (if i < MinRegionIndex ?s then i else MinRegionIndex ?s),
          MaxRegionIndex := (if i > MaxRegionIndex ?s then i else MaxRegionIndex ?s)\<rparr>"
        using l by (simp add: mark_region_def getSizeClassInfo_def upd_sci_def)
      have "MinRegionIndex (getSizeClassInfo I ?h) \<le> k \<and> k \<le> MaxRegionIndex (getSizeClassInfo I ?h)"
        if "PossibleRegions ?h k = class_byte I" for k
        using ok that True unfolding sci_ok_def pr s by (cases "k = i") (auto simp: not_less intro: order.trans)
      then show ?thesis using ok True ex [of "CurrentRegion ?s"] by (auto simp: sci_ok_def s split: if_splits)
    qed
  qed
  ultimately show ?thesis
    using inv i(1) I st' m unfolding regions_inv_def other by (auto simp: pr)
qed

lemma known_mapped: "regions_inv cfg h \<Longrightarrow> PossibleRegions h i \<noteq> 0 \<Longrightarrow> area cfg i \<subseteq> mapped_by (MapCalls h)"
  by (auto simp: regions_inv_def known_regions_def)

lemma unmapped_unknown:
  "regions_inv cfg h \<Longrightarrow> area cfg i \<inter> mapped_by (MapCalls h) = {} \<Longrightarrow> PossibleRegions h i = 0"
  using known_mapped [of cfg h i] area_nonempty [of cfg i] by blast

lemma known_stash:
  assumes "primary32_ok cfg" "region_index cfg i"
  shows "known_regions cfg Map (st @ [region_at cfg i]) = insert i (known_regions cfg Map st)"
  using region_at_inj [OF assms(1) _ assms(2)] assms(2) by (auto simp: known_regions_def)

lemma allocateRegion_ok:
  assumes cfg: "primary32_ok cfg" and os: "fresh_os os" and I: "is_class32 cfg I" and inv: "regions_inv cfg h"
    and a: "allocateRegion cfg os I h = Inr (R, h')"
  shows "R = 0 \<and> h' = h \<or> (\<exists>i calls st. R = region_at cfg i \<and> region_index cfg i \<and> PossibleRegions h i = 0
    \<and> h' = mark_region cfg I i (h\<lparr>MapCalls := calls, RegionsStash := st\<rparr>) \<and> regions_inv cfg h')"
proof -
  note so = inv [unfolded regions_inv_def, THEN conjunct2, THEN conjunct2, THEN conjunct1]
  have mp: "mapped_by (MapCalls h) = (\<Union>k \<in> known_regions cfg (PossibleRegions h) (RegionsStash h). area cfg k)"
    using inv by (simp add: regions_inv_def)
  show ?thesis
  proof (cases "RegionsStash h = []")
    case False
    then obtain st R1 where st: "RegionsStash h = st @ [R1]" by (metis rev_exhaust)
    obtain i where i: "region_index cfg i" "R1 = region_at cfg i" "PossibleRegions h i = 0"
      using so by (auto simp: stash_ok_def st)
    have ns: "region_at cfg i \<notin> set st" "stash_ok cfg (PossibleRegions h) st"
      using so by (auto simp: stash_ok_def st i(2))
    have R: "R = region_at cfg i" and h': "h' = mark_region cfg I i (h\<lparr>MapCalls := MapCalls h, RegionsStash := st\<rparr>)"
      using a region_at_nonzero [OF cfg i(1)] computeRegionId_at [OF cfg i(1)]
      by (auto simp: allocateRegion_def pop_stash_def st i(2))
    have "mapped_by (MapCalls h) = (\<Union>k \<in> insert i (known_regions cfg (PossibleRegions h) st). area cfg k)"
      unfolding mp st i(2) known_stash [OF cfg i(1)] ..
    from mark_ok [OF cfg I inv i(1,3) ns this] R i h' show ?thesis by blast
  next
    case True
    obtain R1 h1 where sl: "allocateRegionSlow cfg os h = Inr (R1, h1)"
      and rest: "(if R1 = 0 then Inr (0, h1) else bindE (computeRegionId cfg R1) (\<lambda>i. Inr (R1, mark_region cfg I i h1)))
        = Inr (R, h')"
      using a True by (auto simp: allocateRegion_def pop_stash_def bindE_eq_Inr split: if_splits)
    from slow_ok [OF cfg os sl] show ?thesis
    proof (elim disjE conjE exE)
      assume "R1 = 0" "h1 = h"
      then show ?thesis using rest by simp
    next
      fix i st calls
      assume R1: "R1 = region_at cfg i" and h1: "h1 = h\<lparr>MapCalls := calls, RegionsStash := st\<rparr>"
        and two: "two_regions cfg (mapped_by (MapCalls h)) (mapped_by calls) (RegionsStash h) st i"
      have i: "region_index cfg i" "area cfg i \<inter> mapped_by (MapCalls h) = {}" using two by (simp_all add: two_regions_def)
      have ni: "PossibleRegions h i = 0" by (rule unmapped_unknown [OF inv i(2)])
      have R: "R = region_at cfg i" and h': "h' = mark_region cfg I i (h\<lparr>MapCalls := calls, RegionsStash := st\<rparr>)"
        using rest region_at_nonzero [OF cfg i(1)] computeRegionId_at [OF cfg i(1)] by (auto simp: R1 h1)
      have "region_at cfg i \<notin> set st \<and> stash_ok cfg (PossibleRegions h) st
          \<and> mapped_by calls = (\<Union>k \<in> insert i (known_regions cfg (PossibleRegions h) st). area cfg k)"
      proof (cases "st = []")
        case True
        then have "mapped_by calls = mapped_by (MapCalls h) \<union> area cfg i" using two by (auto simp: two_regions_def)
        then show ?thesis using True by (simp add: stash_ok_def mp \<open>RegionsStash h = []\<close> Un_commute)
      next
        case False
        then obtain j where j: "region_index cfg j" "j \<noteq> i" "area cfg j \<inter> mapped_by (MapCalls h) = {}"
            "st = [region_at cfg j]" "mapped_by calls = mapped_by (MapCalls h) \<union> area cfg i \<union> area cfg j"
          using two True by (auto simp: two_regions_def)
        have "region_at cfg i \<noteq> region_at cfg j" using region_at_inj [OF cfg i(1) j(1)] j(2) by blast
        moreover have "PossibleRegions h j = 0" by (rule unmapped_unknown [OF inv j(3)])
        moreover have "known_regions cfg (PossibleRegions h) st = insert j (known_regions cfg (PossibleRegions h) [])"
          using known_stash [OF cfg j(1), of "PossibleRegions h" "[]"] j(4) by simp
        ultimately show ?thesis using j by (auto simp: stash_ok_def mp True)
      qed
      then show ?thesis using mark_ok [OF cfg I inv i(1) ni] R i(1) ni h' by blast
    qed
  qed
qed

end
