(* ===== verification/Carving32.thy ===== *)
theory Carving32
  imports Regions32
begin

text \<open>
  The blocks of \<open>Primary32\<close>. \<open>carved32\<close> is the multiset of the blocks of a class that exist: all blocks
  of its regions, of the current region those carved so far. Preparing the current region changes no
  class's blocks, and carving adds exactly the blocks that are pushed to the free list.
\<close>

unbundle bit_operations_syntax

section \<open>Blocks\<close>

definition nth_block32 :: "primary_config \<Rightarrow> uptr \<Rightarrow> uptr \<Rightarrow> nat \<Rightarrow> uptr" where
  "nth_block32 cfg I i k = region_at cfg i + of_nat k * getSizeByClassId32 cfg I"

definition blocks_in :: "primary_config \<Rightarrow> uptr \<Rightarrow> size_class_info \<Rightarrow> uptr \<Rightarrow> nat" where
  "blocks_in cfg I s i =
     (if CurrentRegion s \<noteq> 0 \<and> CurrentRegion s = region_at cfg i
      then unat (CurrentRegionAllocated s) div block_size32 cfg I
      else 2 ^ RegionSizeLog cfg div block_size32 cfg I)"

definition region_blocks32 :: "primary_config \<Rightarrow> uptr \<Rightarrow> size_class_info \<Rightarrow> uptr \<Rightarrow> uptr multiset" where
  "region_blocks32 cfg I s i = mset (map (nth_block32 cfg I i) [0 ..< blocks_in cfg I s i])"

definition carved32 :: "primary_config \<Rightarrow> uptr \<Rightarrow> heap32 \<Rightarrow> uptr multiset" where
  "carved32 cfg I h =
     (\<Sum>i \<in> {i. PossibleRegions h i = class_byte I}. region_blocks32 cfg I (getSizeClassInfo I h) i)"

definition same_carving :: "size_class_info \<Rightarrow> size_class_info \<Rightarrow> bool" where
  "same_carving s s' \<longleftrightarrow> CurrentRegion s' = CurrentRegion s \<and> CurrentRegionAllocated s' = CurrentRegionAllocated s
     \<and> MinRegionIndex s' = MinRegionIndex s \<and> MaxRegionIndex s' = MaxRegionIndex s"

lemma same_carving_refl [simp]: "same_carving s s"
  by (simp add: same_carving_def)

lemma same_carving_trans: "same_carving s s1 \<Longrightarrow> same_carving s1 s2 \<Longrightarrow> same_carving s s2"
  by (simp add: same_carving_def)

lemma region_blocks_cong:
  "CurrentRegion s' = CurrentRegion s \<Longrightarrow> CurrentRegionAllocated s' = CurrentRegionAllocated s
    \<Longrightarrow> region_blocks32 cfg I s' i = region_blocks32 cfg I s i"
  by (simp add: region_blocks32_def blocks_in_def)

lemma carved32_cong:
  assumes "\<And>i. PossibleRegions h' i = class_byte I \<longleftrightarrow> PossibleRegions h i = class_byte I"
    "same_carving (getSizeClassInfo I h) (getSizeClassInfo I h')"
  shows "carved32 cfg I h' = carved32 cfg I h"
  using assms by (simp add: carved32_def same_carving_def region_blocks_cong [of "getSizeClassInfo I h'" "getSizeClassInfo I h"])

lemma sci_ok_cong: "same_carving s s' \<Longrightarrow> sci_ok cfg I Map s' = sci_ok cfg I Map s"
  by (simp add: sci_ok_def same_carving_def)

lemma regions_inv_sci:
  assumes "regions_inv cfg h" "is_class32 cfg I" "sci_ok cfg I (PossibleRegions h) (f (getSizeClassInfo I h))"
  shows "regions_inv cfg (upd_sci I f h)"
  using assms sci_index [OF assms(1,2)] by (simp add: regions_inv_def getSizeClassInfo_upd)

lemma regions_inv_same:
  assumes "regions_inv cfg h" "is_class32 cfg I" "\<And>s. same_carving s (f s)"
  shows "regions_inv cfg (upd_sci I f h)"
  using assms by (intro regions_inv_sci) (simp_all add: regions_inv_def sci_ok_cong [OF assms(3)])

lemma carved32_same [simp]:
  assumes "unat I < length (SizeClassInfoArray h)" "\<And>s. same_carving s (f s)"
  shows "carved32 cfg J (upd_sci I f h) = carved32 cfg J h"
  using assms by (intro carved32_cong) (simp_all add: getSizeClassInfo_upd)

lemma carved32_upd [simp]: "carved32 cfg J (upd_class I g h) = carved32 cfg J h" "carved32 cfg J (upd_stats k h) = carved32 cfg J h"
  by (simp_all add: carved32_def)

lemma block_size32_bounds:
  assumes "primary32_ok cfg" "is_class32 cfg I"
  shows "16 \<le> block_size32 cfg I" "block_size32 cfg I \<le> 2 ^ RegionSizeLog cfg"
    "1 \<le> getMaxCached (PSizeMap cfg) (getSizeByClassId32 cfg I)"
  using assms by (simp_all add: primary32_ok_def is_class32_def)

section \<open>The current region\<close>

text \<open>What preparing the current region of class \<open>I\<close> may change.\<close>

definition only_sci :: "primary_config \<Rightarrow> uptr \<Rightarrow> heap32 \<Rightarrow> heap32 \<Rightarrow> bool" where
  "only_sci cfg I h h' \<longleftrightarrow> PerClassArray h' = PerClassArray h
     \<and> length (SizeClassInfoArray h') = length (SizeClassInfoArray h)
     \<and> (\<forall>J. J \<noteq> I \<longrightarrow> getSizeClassInfo J h' = getSizeClassInfo J h
          \<and> (is_class32 cfg J \<longrightarrow> carved32 cfg J h' = carved32 cfg J h))"

definition region_step :: "primary_config \<Rightarrow> uptr \<Rightarrow> heap32 \<Rightarrow> heap32 \<Rightarrow> bool" where
  "region_step cfg I h h' \<longleftrightarrow> regions_inv cfg h' \<and> only_sci cfg I h h'
     \<and> BlockList32 (getSizeClassInfo I h') = BlockList32 (getSizeClassInfo I h)"

lemma only_sci_refl [simp]: "only_sci cfg I h h"
  by (simp add: only_sci_def)

lemma only_sci_trans: "only_sci cfg I h h1 \<Longrightarrow> only_sci cfg I h1 h2 \<Longrightarrow> only_sci cfg I h h2"
  by (simp add: only_sci_def)

lemma only_sci_upd:
  assumes "unat I < length (SizeClassInfoArray h)"
  shows "only_sci cfg I h (upd_sci I f h)"
  using assms by (auto simp: only_sci_def getSizeClassInfo_upd intro!: carved32_cong)

lemma only_sci_class: "only_sci cfg I h h' \<Longrightarrow> get_class J h' = get_class J h"
  by (simp add: only_sci_def get_class_def)

lemma current_region_ok:
  assumes cfg: "primary32_ok cfg" and os: "fresh_os os" and I: "is_class32 cfg I" and inv: "regions_inv cfg h"
    and c: "current_region cfg os I h = Inr (r, h1)"
  shows "region_step cfg I h h1" "carved32 cfg I h1 = carved32 cfg I h"
    and "\<And>Region Offset. r = Some (Region, Offset) \<Longrightarrow> CurrentRegion (getSizeClassInfo I h1) = Region
      \<and> CurrentRegionAllocated (getSizeClassInfo I h1) = Offset \<and> Region \<noteq> 0"
proof -
  let ?s = "getSizeClassInfo I h"
  have sok: "sci_ok cfg I (PossibleRegions h) ?s" using inv I by (simp add: regions_inv_def)
  have l: "unat I < length (SizeClassInfoArray h)" by (rule sci_index [OF inv I])
  have "region_step cfg I h h1 \<and> carved32 cfg I h1 = carved32 cfg I h
    \<and> (\<forall>Region Offset. r = Some (Region, Offset) \<longrightarrow> CurrentRegion (getSizeClassInfo I h1) = Region
      \<and> CurrentRegionAllocated (getSizeClassInfo I h1) = Offset \<and> Region \<noteq> 0)"
  proof (cases "CurrentRegion ?s = 0")
    case False
    then have "r = Some (CurrentRegion ?s, CurrentRegionAllocated ?s)" "h1 = h"
      using c by (auto simp: current_region_def Let_def)
    then show ?thesis using inv False by (auto simp: region_step_def only_sci_def)
  next
    case True
    then have "bindE (allocateRegion cfg os I h) (\<lambda>(R, h2). if R = 0 then Inr (None, h2) else Inr (Some (R, 0),
        upd_sci I (\<lambda>s. s\<lparr>CurrentRegion := R\<rparr>) (upd_stats (stats_add StatMapped (RegionSize cfg)) h2))) = (Inr (r, h1) :: _ result)"
      using c by (simp add: current_region_def Let_def)
    then obtain R h2 where a: "allocateRegion cfg os I h = Inr (R, h2)"
      and rest: "(if R = 0 then Inr (None, h2) else Inr (Some (R, 0), upd_sci I (\<lambda>s. s\<lparr>CurrentRegion := R\<rparr>)
        (upd_stats (stats_add StatMapped (RegionSize cfg)) h2))) = (Inr (r, h1) :: _ result)"
      by (cases "allocateRegion cfg os I h") auto
    from allocateRegion_ok [OF cfg os I inv a] show ?thesis
    proof (elim disjE conjE exE)
      assume "R = 0" "h2 = h"
      then show ?thesis using rest inv by (auto simp: region_step_def only_sci_def)
    next
      fix i calls st
      assume R: "R = region_at cfg i" and i: "region_index cfg i" "PossibleRegions h i = 0"
        and h2: "h2 = mark_region cfg I i (h\<lparr>MapCalls := calls, RegionsStash := st\<rparr>)" and inv2: "regions_inv cfg h2"
      note R0 = region_at_nonzero [OF cfg i(1), folded R]
      have r: "r = Some (R, 0)"
        and h1: "h1 = upd_sci I (\<lambda>s. s\<lparr>CurrentRegion := R\<rparr>) (upd_stats (stats_add StatMapped (RegionSize cfg)) h2)"
        using rest R0 by auto
      have pr: "PossibleRegions h2 = (PossibleRegions h)(i := class_byte I)" "PossibleRegions h1 = PossibleRegions h2"
        by (simp_all add: h1 h2 mark_region_def bytemap_set_def class_byte_def upd_sci_def upd_stats_def)
      have l2: "length (SizeClassInfoArray h2) = length (SizeClassInfoArray h)" "PerClassArray h2 = PerClassArray h"
        by (simp_all add: h2 mark_region_def upd_sci_def)
      have s2: "\<exists>a b. getSizeClassInfo I h2 = ?s\<lparr>MinRegionIndex := a, MaxRegionIndex := b\<rparr>"
      proof -
        have "getSizeClassInfo I h2 = ?s\<lparr>MinRegionIndex := (if i < MinRegionIndex ?s then i else MinRegionIndex ?s),
            MaxRegionIndex := (if i > MaxRegionIndex ?s then i else MaxRegionIndex ?s)\<rparr>"
          using l by (simp add: h2 mark_region_def getSizeClassInfo_def upd_sci_def)
        then show ?thesis by blast
      qed
      have sJ: "getSizeClassInfo J h2 = getSizeClassInfo J h" if "J \<noteq> I" for J
        using that by (simp add: h2 mark_region_def getSizeClassInfo_def upd_sci_def nth_list_update word_unat_eq_iff)
      have s1: "getSizeClassInfo I h1 = (getSizeClassInfo I h2)\<lparr>CurrentRegion := R\<rparr>"
        using l l2 by (simp add: h1 getSizeClassInfo_upd)
      have sJ1: "getSizeClassInfo J h1 = getSizeClassInfo J h" if "J \<noteq> I" for J
        using that sJ l l2 by (simp add: h1 getSizeClassInfo_upd)
      have cra: "CurrentRegionAllocated ?s = 0" using sok True by (simp add: sci_ok_def)
      have "sci_ok cfg I (PossibleRegions h2) ((getSizeClassInfo I h2)\<lparr>CurrentRegion := R\<rparr>)"
        using inv2 I s2 cra R i(1) pr block_size32_bounds(2) [OF cfg I]
        by (auto simp: regions_inv_def sci_ok_def split: if_splits)
      then have inv1: "regions_inv cfg h1" unfolding h1 using inv2 I by (intro regions_inv_sci) simp_all
      have "carved32 cfg J h1 = carved32 cfg J h" if "is_class32 cfg J" "J \<noteq> I" for J
        using that sJ1 [OF that(2)] class_byte_inj [OF cfg that(1) I] class_byte_nonzero [OF cfg that(1)] i(2)
        by (intro carved32_cong) (auto simp: pr)
      moreover have "carved32 cfg I h1 = carved32 cfg I h"
      proof -
        have set: "{k. PossibleRegions h1 k = class_byte I} = insert i {k. PossibleRegions h k = class_byte I}"
          "i \<notin> {k. PossibleRegions h k = class_byte I}"
          using i(2) class_byte_nonzero [OF cfg I] by (auto simp: pr)
        have "region_blocks32 cfg I (getSizeClassInfo I h1) k = region_blocks32 cfg I ?s k"
          if "PossibleRegions h k = class_byte I" for k
        proof -
          have "region_index cfg k" using inv that class_byte_nonzero [OF cfg I] by (simp add: regions_inv_def)
          then have "R \<noteq> region_at cfg k" using region_at_inj [OF cfg i(1)] that set(2) R by auto
          then show ?thesis using True s2 by (auto simp: region_blocks32_def blocks_in_def s1)
        qed
        moreover have "region_blocks32 cfg I (getSizeClassInfo I h1) i = {#}"
          using s2 cra R R0 by (auto simp: region_blocks32_def blocks_in_def s1)
        ultimately show ?thesis using set by (simp add: carved32_def)
      qed
      moreover have "CurrentRegionAllocated (getSizeClassInfo I h1) = 0" "BlockList32 (getSizeClassInfo I h1) = BlockList32 ?s"
        "CurrentRegion (getSizeClassInfo I h1) = R"
        using s2 cra by (auto simp: s1)
      moreover have "PerClassArray h1 = PerClassArray h" "length (SizeClassInfoArray h1) = length (SizeClassInfoArray h)"
        using l2 by (simp_all add: h1)
      ultimately show ?thesis using inv1 sJ1 R0 r by (simp add: region_step_def only_sci_def)
    qed
  qed
  then show "region_step cfg I h h1" "carved32 cfg I h1 = carved32 cfg I h"
    "\<And>Region Offset. r = Some (Region, Offset) \<Longrightarrow> CurrentRegion (getSizeClassInfo I h1) = Region
      \<and> CurrentRegionAllocated (getSizeClassInfo I h1) = Offset \<and> Region \<noteq> 0" by blast+
qed

section \<open>Carving\<close>

lemma finish_carving_eq:
  fixes N :: u32 and cfg :: primary_config
  assumes "unat I < length (SizeClassInfoArray h)"
  defines "s \<equiv> getSizeClassInfo I h" and "A \<equiv> getSizeByClassId32 cfg I * ucast N"
  shows "\<exists>p a k. finish_carving cfg I N h = upd_stats k (upd_sci I (\<lambda>_. s\<lparr>PushedBlocks32 := p, AllocatedUser32 := a,
      CurrentRegion := (if RegionSize cfg - (CurrentRegionAllocated s + A) < getSizeByClassId32 cfg I then 0 else CurrentRegion s),
      CurrentRegionAllocated := (if RegionSize cfg - (CurrentRegionAllocated s + A) < getSizeByClassId32 cfg I then 0
         else CurrentRegionAllocated s + A)\<rparr>) h)"
proof -
  have com: "upd_sci I f (upd_stats k h) = upd_stats k (upd_sci I f h)" for f k and h :: heap32
    by (simp add: upd_sci_def upd_stats_def)
  have twice: "upd_sci I f (upd_sci I g h) = upd_sci I (f \<circ> g) h" for f g
    using assms(1) by (simp add: upd_sci_def)
  have const: "upd_sci I f h = upd_sci I (\<lambda>_. f (getSizeClassInfo I h)) h" for f
    by (simp add: upd_sci_def getSizeClassInfo_def)
  define F :: "size_class_info \<Rightarrow> size_class_info" where "F = (\<lambda>s. s\<lparr>AllocatedUser32 := AllocatedUser32 s + A\<rparr>) \<circ>
    ((\<lambda>s. if RegionSize cfg - (CurrentRegionAllocated s + A) < getSizeByClassId32 cfg I
          then s\<lparr>CurrentRegion := 0, CurrentRegionAllocated := 0\<rparr>
          else s\<lparr>CurrentRegionAllocated := CurrentRegionAllocated s + A\<rparr>) \<circ>
     (\<lambda>s. s\<lparr>PushedBlocks32 := PushedBlocks32 s - ucast N\<rparr>))"
  have "finish_carving cfg I N h = upd_stats (stats_add StatFree A) (upd_sci I (\<lambda>_. F s) h)"
    unfolding finish_carving_def Let_def com twice A_def [symmetric] F_def [symmetric] s_def by (subst const) (rule refl)
  moreover have "F s = s\<lparr>PushedBlocks32 := PushedBlocks32 s - ucast N, AllocatedUser32 := AllocatedUser32 s + A,
      CurrentRegion := (if RegionSize cfg - (CurrentRegionAllocated s + A) < getSizeByClassId32 cfg I then 0 else CurrentRegion s),
      CurrentRegionAllocated := (if RegionSize cfg - (CurrentRegionAllocated s + A) < getSizeByClassId32 cfg I then 0
         else CurrentRegionAllocated s + A)\<rparr>"
    by (rule size_class_info.equality) (simp_all add: F_def)
  ultimately show ?thesis by auto
qed

text \<open>The number of blocks carved, as a natural number.\<close>

lemma carve_count_nat:
  assumes cfg: "primary32_ok cfg" and I: "is_class32 cfg I"
    and off: "unat Offset + block_size32 cfg I \<le> 2 ^ RegionSizeLog cfg"
  shows "0 < unat (carve_count cfg I Offset)"
    and "unat (carve_count cfg I Offset) * block_size32 cfg I \<le> 2 ^ RegionSizeLog cfg - unat Offset"
proof -
  let ?S = "block_size32 cfg I" and ?L = "(2::nat) ^ RegionSizeLog cfg"
  let ?m = "getMaxCached (PSizeMap cfg) (getSizeByClassId32 cfg I)"
  note b = block_size32_bounds [OF cfg I]
  have L: "?L \<le> 2 ^ 35" using cfg by (intro power_increasing) (simp_all add: primary32_ok_def)
  have "Offset \<le> RegionSize cfg" using off by (simp add: word_le_nat_alt unat_RegionSize [OF cfg])
  then have d: "unat ((RegionSize cfg - Offset) div getSizeByClassId32 cfg I) = (?L - unat Offset) div ?S"
    by (simp add: unat_div unat_sub unat_RegionSize [OF cfg] block_size32_def)
  have "(?L - unat Offset) div ?S \<le> (?L - unat Offset) div 16" using b(1) by (intro div_le_mono2) simp_all
  also have "\<dots> \<le> ?L div 16" by (rule div_le_mono) simp
  also have "\<dots> \<le> 2 ^ 35 div 16" by (rule div_le_mono [OF L])
  also have "\<dots> < 2 ^ LENGTH(32)" by simp
  finally have "(?L - unat Offset) div ?S < 2 ^ LENGTH(32)" .
  then have u: "unat (ucast ((RegionSize cfg - Offset) div getSizeByClassId32 cfg I) :: u32) = (?L - unat Offset) div ?S"
    by (simp add: unat_ucast_eq d)
  have "?m \<le> MaxNumCachedHint (PSizeMap cfg)" by (simp add: getMaxCached_def MinU_min)
  then have m: "unat ?m < 2 ^ 14" using cfg by (simp add: primary32_ok_def MaxNumBlocksInBatch_def word_le_nat_alt)
  have "unat (MaxNumBatches cfg) * unat (ucast ?m :: u32) < 2 ^ 15 * 2 ^ 14"
    using cfg m by (intro mult_strict_mono') (simp_all add: primary32_ok_def unat_ucast_up)
  then have "unat (MaxNumBatches cfg * ucast ?m) = unat (MaxNumBatches cfg) * unat ?m"
    by (subst unat_mult_small) (simp_all add: unat_ucast_up)
  moreover have "1 \<le> unat ?m" using b(3) by (simp add: word_le_nat_alt)
  ultimately have pos: "0 < unat (MaxNumBatches cfg * ucast ?m)" using cfg by (simp add: primary32_ok_def)
  have c: "unat (carve_count cfg I Offset) = min (unat (MaxNumBatches cfg * ucast ?m)) ((?L - unat Offset) div ?S)"
    by (simp add: carve_count_def Let_def MinU_min min_def word_le_nat_alt u)
  have "1 \<le> (?L - unat Offset) div ?S" using off b(1) by (simp add: Suc_le_eq div_greater_zero_iff)
  with c pos show "0 < unat (carve_count cfg I Offset)" by simp
  have "unat (carve_count cfg I Offset) \<le> (?L - unat Offset) div ?S" using c by simp
  then have "unat (carve_count cfg I Offset) * ?S \<le> (?L - unat Offset) div ?S * ?S" by (rule mult_le_mono1)
  also have "\<dots> \<le> ?L - unat Offset" by (rule div_times_less_eq_dividend)
  finally show "unat (carve_count cfg I Offset) * ?S \<le> ?L - unat Offset" .
qed

text \<open>A class whose current region has \<open>m\<close> blocks gets \<open>n\<close> more.\<close>

lemma carve32:
  assumes cfg: "primary32_ok cfg" and I: "is_class32 cfg I" and inv: "regions_inv cfg h"
    and cur: "CurrentRegion (getSizeClassInfo I h) \<noteq> 0"
  defines "s \<equiv> getSizeClassInfo I h"
  defines "N \<equiv> carve_count cfg I (CurrentRegionAllocated s)"
  defines "h' \<equiv> finish_carving cfg I N h"
    and "Array \<equiv> new_blocks32 (CurrentRegion s + CurrentRegionAllocated s) (getSizeByClassId32 cfg I) (unat N)"
  shows "region_step cfg I h h'" and "carved32 cfg I h' = carved32 cfg I h + mset Array" and "Array \<noteq> []"
proof -
  let ?S = "block_size32 cfg I" and ?L = "(2::nat) ^ RegionSizeLog cfg" and ?size = "getSizeByClassId32 cfg I"
  have l: "unat I < length (SizeClassInfoArray h)" by (rule sci_index [OF inv I])
  have sok: "sci_ok cfg I (PossibleRegions h) s" using inv I by (simp add: regions_inv_def s_def)
  have cs: "CurrentRegion s \<noteq> 0" using cur by (simp add: s_def)
  obtain i where i: "region_index cfg i" "CurrentRegion s = region_at cfg i" "PossibleRegions h i = class_byte I"
    and dv: "?S dvd unat (CurrentRegionAllocated s)" and room: "unat (CurrentRegionAllocated s) + ?S \<le> ?L"
    using sok cs by (auto simp: sci_ok_def)
  have S0: "0 < ?S" using block_size32_bounds(1) [OF cfg I] by linarith
  define m where "m = unat (CurrentRegionAllocated s) div ?S"
  have m: "unat (CurrentRegionAllocated s) = m * ?S" using dv by (simp add: m_def)
  note N = carve_count_nat [OF cfg I room, folded N_def]
  show "Array \<noteq> []" using N(1) by (simp add: Array_def new_blocks32_def)
  have L: "?L \<le> 2 ^ 35" using cfg by (intro power_increasing) (simp_all add: primary32_ok_def)
  define A where "A = ?size * ucast N"
  have le: "(m + unat N) * ?S \<le> ?L" using N(2) room m by (simp add: algebra_simps)
  have A: "unat A = unat N * ?S"
  proof -
    have "unat ?size * unat (ucast N :: uptr) < 2 ^ LENGTH(64)"
      using N(2) L by (simp add: unat_ucast_up block_size32_def mult.commute)
    from unat_mult_small [OF this] show ?thesis by (simp add: A_def unat_ucast_up block_size32_def mult.commute)
  qed
  have CA: "unat (CurrentRegionAllocated s + A) = (m + unat N) * ?S"
  proof -
    have "m * ?S + unat N * ?S \<le> ?L" using le by (simp only: distrib_right)
    then have "unat (CurrentRegionAllocated s) + unat A < 2 ^ LENGTH(64)" using L unfolding m A by simp
    from unat_add_small [OF this] show ?thesis by (simp only: m A distrib_right)
  qed
  then have "CurrentRegionAllocated s + A \<le> RegionSize cfg" using le by (simp add: word_le_nat_alt unat_RegionSize [OF cfg])
  then have rest: "unat (RegionSize cfg - (CurrentRegionAllocated s + A)) = ?L - (m + unat N) * ?S"
    by (simp add: unat_sub unat_RegionSize [OF cfg] CA)
  define full where "full \<longleftrightarrow> RegionSize cfg - (CurrentRegionAllocated s + A) < ?size"
  have full: "full \<longleftrightarrow> ?L < (m + unat N) * ?S + ?S"
    using le by (auto simp: full_def word_less_nat_alt rest block_size32_def)
  obtain p a k where h': "h' = upd_stats k (upd_sci I (\<lambda>_. s\<lparr>PushedBlocks32 := p, AllocatedUser32 := a,
      CurrentRegion := (if full then 0 else CurrentRegion s),
      CurrentRegionAllocated := (if full then 0 else CurrentRegionAllocated s + A)\<rparr>) h)"
    using finish_carving_eq [OF l, of cfg N] unfolding h'_def s_def [symmetric] A_def [symmetric] full_def by blast
  have s': "getSizeClassInfo I h' = s\<lparr>PushedBlocks32 := p, AllocatedUser32 := a,
      CurrentRegion := (if full then 0 else CurrentRegion s),
      CurrentRegionAllocated := (if full then 0 else CurrentRegionAllocated s + A)\<rparr>"
    using l by (simp add: h' getSizeClassInfo_upd)
  have sJ: "getSizeClassInfo J h' = getSizeClassInfo J h" if "J \<noteq> I" for J
    using l that by (simp add: h' getSizeClassInfo_upd)
  have "?S dvd unat (CurrentRegionAllocated s + A)" by (simp add: CA)
  then have "sci_ok cfg I (PossibleRegions h) (s\<lparr>PushedBlocks32 := p, AllocatedUser32 := a,
      CurrentRegion := (if full then 0 else CurrentRegion s),
      CurrentRegionAllocated := (if full then 0 else CurrentRegionAllocated s + A)\<rparr>)"
    using sok cs full CA by (auto simp: sci_ok_def)
  then have "regions_inv cfg h'" unfolding h' regions_inv_upd by (intro regions_inv_sci [OF inv I]) simp
  then show "region_step cfg I h h'"
    using l sJ s' by (auto simp: region_step_def only_sci_def h' s_def intro!: carved32_cong)
  have cnt: "blocks_in cfg I (getSizeClassInfo I h') i = m + unat N"
  proof (cases full)
    case True
    have "?L div ?S = m + unat N"
      using True full le by (intro div_nat_eqI) (simp_all add: algebra_simps)
    then show ?thesis using True by (simp add: blocks_in_def s')
  next
    case False
    then show ?thesis using cs i(2) CA S0 by (simp add: blocks_in_def s')
  qed
  have here: "region_blocks32 cfg I (getSizeClassInfo I h') i = region_blocks32 cfg I s i + mset Array"
  proof -
    have "blocks_in cfg I s i = m" using cs i(2) by (simp add: blocks_in_def m_def)
    moreover have "Array = map (nth_block32 cfg I i) [m ..< m + unat N]"
    proof -
      have "of_nat (unat (CurrentRegionAllocated s)) = (of_nat m * of_nat ?S :: uptr)" by (simp only: m of_nat_mult)
      then have cw: "CurrentRegionAllocated s = of_nat m * ?size" by (simp add: block_size32_def)
      have "CurrentRegion s + CurrentRegionAllocated s + of_nat x * ?size = nth_block32 cfg I i (x + m)" for x
        by (simp add: nth_block32_def i(2) cw algebra_simps)
      then have "Array = map (nth_block32 cfg I i) (map (\<lambda>x. x + m) [0 ..< unat N])"
        by (simp add: Array_def new_blocks32_def comp_def)
      then show ?thesis by (simp only: map_add_upt add_0 add.commute [of "unat N"])
    qed
    moreover have "[0 ..< m + unat N] = [0 ..< m] @ [m ..< m + unat N]" by (rule upt_add_eq_append) simp
    ultimately show ?thesis by (simp add: region_blocks32_def cnt)
  qed
  have there: "region_blocks32 cfg I (getSizeClassInfo I h') j = region_blocks32 cfg I s j"
    if "PossibleRegions h j = class_byte I" "j \<noteq> i" for j
  proof -
    have "region_index cfg j" using inv that(1) class_byte_nonzero [OF cfg I] by (simp add: regions_inv_def)
    then have "region_at cfg i \<noteq> region_at cfg j" using region_at_inj [OF cfg i(1)] that(2) by blast
    then show ?thesis using i(2) by (simp add: region_blocks32_def blocks_in_def s')
  qed
  let ?R = "{j. PossibleRegions h j = class_byte I}"
  have "carved32 cfg I h' = (\<Sum>j \<in> ?R. region_blocks32 cfg I (getSizeClassInfo I h') j)"
    by (simp add: carved32_def h')
  also have "\<dots> = region_blocks32 cfg I (getSizeClassInfo I h') i + (\<Sum>j \<in> ?R - {i}. region_blocks32 cfg I (getSizeClassInfo I h') j)"
    using i(3) by (intro sum.remove) simp_all
  also have "(\<Sum>j \<in> ?R - {i}. region_blocks32 cfg I (getSizeClassInfo I h') j) = (\<Sum>j \<in> ?R - {i}. region_blocks32 cfg I s j)"
    using there by (intro sum.cong) auto
  also have "region_blocks32 cfg I (getSizeClassInfo I h') i + (\<Sum>j \<in> ?R - {i}. region_blocks32 cfg I s j)
      = (\<Sum>j \<in> ?R. region_blocks32 cfg I s j) + mset Array"
    unfolding here using i(3) by (subst sum.remove [of ?R i]) (simp_all add: ac_simps)
  finally show "carved32 cfg I h' = carved32 cfg I h + mset Array" by (simp add: carved32_def s_def)
qed

end
