(* ===== verification/Primary32Batch.thy ===== *)
theory Primary32Batch
  imports Carving32
begin

text \<open>
  The batch class of \<open>Primary32\<close>. Its free blocks, its groups and its batches are all in blocks of its
  own; popping, pushing and carving keep every block in exactly one place. The theory interprets
  \<open>block_source\<close> for the batch class and, with it, \<open>node_store\<close> for the classes whose batches live in it.
\<close>

unbundle bit_operations_syntax

section \<open>Free blocks\<close>

definition group_blocks32 :: "batch_group \<Rightarrow> uptr multiset" where
  "group_blocks32 G = (if Batches G = [] then {#GroupAddr G#} else batches_blocks (Batches G))"

definition groups_blocks32 :: "batch_group list \<Rightarrow> uptr multiset" where
  "groups_blocks32 Gs = sum_list (map group_blocks32 Gs)"

definition free32 :: "uptr \<Rightarrow> heap32 \<Rightarrow> uptr multiset" where
  "free32 I h = groups_blocks32 (BlockList32 (getSizeClassInfo I h))"

lemma groups_blocks32_simps [simp]:
  "groups_blocks32 [] = {#}" "groups_blocks32 (G # Gs) = group_blocks32 G + groups_blocks32 Gs"
  by (simp_all add: groups_blocks32_def)

lemma groups_blocks32_listed: "groups_ok cfg Gs \<Longrightarrow> groups_blocks32 Gs = listed_blocks Gs"
  by (induction Gs) (simp_all add: group_blocks32_def)

lemma push_batch_list_ok:
  assumes L: "2 \<le> batch_limit32 cfg" and ne: "Xs \<noteq> []" and fit: "groups_fit (batch_limit32 cfg) Gs"
  shows "groups_fit (batch_limit32 cfg) (pushBatchClassBlocks_list cfg Xs Gs)
    \<and> groups_blocks32 (pushBatchClassBlocks_list cfg Xs Gs) = groups_blocks32 Gs + mset Xs"
proof -
  let ?L = "batch_limit32 cfg"
  note ins = batch_class_insert_ok [OF L]
  have L2: "2 \<le> unat ?L" using L by (simp add: word_le_nat_alt)
  define push :: "batch_group \<Rightarrow> uptr list \<Rightarrow> batch_group" where "push = (\<lambda>G Array.
    let (G, Array) = (if Array \<noteq> [] \<and> Batches G = []
        then (G\<lparr>Batches := [\<lparr>BatchAddr = last Array, Blocks = [last Array, GroupAddr G]\<rparr>]\<rparr>, butlast Array)
        else (G, Array))
    in G\<lparr>Batches := batch_class_insert (\<lambda>A. A) (MaxCachedPerBatch G) Array (Batches G)\<rparr>)"
  have P: "MaxCachedPerBatch (push G Array) = ?L \<and> batches_fit ?L (Batches (push G Array))
      \<and> group_blocks32 (push G Array) = group_blocks32 G + mset Array"
    if "MaxCachedPerBatch G = ?L" "batches_fit ?L (Batches G)" for G Array
  proof (cases "Batches G = []")
    case False
    with ins [OF that(2) False, of "\<lambda>A. A" Array] that show ?thesis
      by (simp add: push_def group_blocks32_def)
  next
    case True
    show ?thesis
    proof (cases "Array = []")
      case True
      then show ?thesis using that \<open>Batches G = []\<close> by (simp add: push_def group_blocks32_def)
    next
      case False
      have "batches_fit ?L [\<lparr>BatchAddr = last Array, Blocks = [last Array, GroupAddr G]\<rparr>]" using L2 by simp
      with ins [OF this, of "\<lambda>A. A" "butlast Array"] that True False show ?thesis
        by (simp add: push_def group_blocks32_def butlast_last_mset [OF False])
    qed
  qed
  show ?thesis
  proof (cases Gs)
    case (Cons G Hs)
    then have "pushBatchClassBlocks_list cfg Xs Gs = push G Xs # Hs"
      by (simp add: pushBatchClassBlocks_list_def push_def Let_def split: prod.splits)
    then show ?thesis using P [of G Xs] fit Cons by (simp add: ac_simps)
  next
    case Nil
    let ?G = "\<lparr>GroupAddr = last Xs, CompactPtrGroupBase = 0, BytesInBGAtLastCheckpoint = 0,
      Batches = [], MaxCachedPerBatch = ?L\<rparr>"
    have "pushBatchClassBlocks_list cfg Xs Gs = [push ?G (butlast Xs)]"
      by (simp add: Nil pushBatchClassBlocks_list_def push_def Let_def batch_limit32_def split: prod.splits)
    then show ?thesis using P [of ?G "butlast Xs"] Nil butlast_last_mset [OF ne] by (simp add: group_blocks32_def)
  qed
qed

section \<open>Operations on the batch class\<close>

definition batch_inv32 :: "primary_config \<Rightarrow> heap32 \<Rightarrow> bool" where
  "batch_inv32 cfg h \<longleftrightarrow> regions_inv cfg h
     \<and> groups_fit (batch_limit32 cfg) (BlockList32 (getSizeClassInfo BatchClassId h))"

lemma batch_is_class: "primary32_ok cfg \<Longrightarrow> is_class32 cfg BatchClassId"
  using unat_NumClasses [of "PSizeMap cfg"]
  by (simp add: primary32_ok_def is_class32_def BatchClassId_def word_less_nat_alt num_classes_def)

definition batch_step32 :: "primary_config \<Rightarrow> uptr multiset \<Rightarrow> uptr multiset \<Rightarrow> heap32 \<Rightarrow> heap32 \<Rightarrow> bool" where
  "batch_step32 cfg new out h h' \<longleftrightarrow> only_sci cfg BatchClassId h h' \<and> batch_inv32 cfg h'
     \<and> carved32 cfg BatchClassId h' = carved32 cfg BatchClassId h + new
     \<and> free32 BatchClassId h + new = free32 BatchClassId h' + out"

lemma batch_step32_trans:
  assumes "batch_step32 cfg n1 o1 h h1" "batch_step32 cfg n2 o2 h1 h2"
  shows "batch_step32 cfg (n1 + n2) (o1 + o2) h h2"
proof -
  have "free32 BatchClassId h + (n1 + n2) = free32 BatchClassId h1 + n2 + o1"
    using assms(1) by (simp add: batch_step32_def add.assoc [symmetric])
  also have "\<dots> = free32 BatchClassId h2 + (o1 + o2)"
    using assms(2) by (simp add: batch_step32_def ac_simps)
  finally show ?thesis using assms
    by (auto simp: batch_step32_def ac_simps intro: only_sci_trans)
qed

text \<open>Changing the free list of the batch class.\<close>

lemma batch_list_step:
  assumes cfg: "primary32_ok cfg" and inv: "batch_inv32 cfg h" and f: "\<And>s. same_carving s (f s)"
    and fit: "groups_fit (batch_limit32 cfg) (BlockList32 (f (getSizeClassInfo BatchClassId h)))"
    and out: "free32 BatchClassId h + new = groups_blocks32 (BlockList32 (f (getSizeClassInfo BatchClassId h))) + out"
  shows "only_sci cfg BatchClassId h (upd_sci BatchClassId f h)" "batch_inv32 cfg (upd_sci BatchClassId f h)"
    "carved32 cfg BatchClassId (upd_sci BatchClassId f h) = carved32 cfg BatchClassId h"
    "free32 BatchClassId h + new = free32 BatchClassId (upd_sci BatchClassId f h) + out"
    "same_carving (getSizeClassInfo BatchClassId h) (getSizeClassInfo BatchClassId (upd_sci BatchClassId f h))"
proof -
  note B = batch_is_class [OF cfg]
  have ri: "regions_inv cfg h" using inv by (simp add: batch_inv32_def)
  note l = sci_index [OF ri B]
  show "only_sci cfg BatchClassId h (upd_sci BatchClassId f h)" by (rule only_sci_upd [OF l])
  show "batch_inv32 cfg (upd_sci BatchClassId f h)"
    using regions_inv_same [OF ri B f] fit l by (simp add: batch_inv32_def getSizeClassInfo_upd)
  show "carved32 cfg BatchClassId (upd_sci BatchClassId f h) = carved32 cfg BatchClassId h"
    by (rule carved32_same [OF l f])
  show "free32 BatchClassId h + new = free32 BatchClassId (upd_sci BatchClassId f h) + out"
    "same_carving (getSizeClassInfo BatchClassId h) (getSizeClassInfo BatchClassId (upd_sci BatchClassId f h))"
    using out l f by (simp_all add: free32_def getSizeClassInfo_upd)
qed

lemma pop_batch_impl32:
  assumes cfg: "primary32_ok cfg" and inv: "batch_inv32 cfg h"
    and pop: "popBlocksImpl32 cfg d BatchClassId n h = Inr (bs, h')"
  shows "batch_step32 cfg {#} (mset bs) h h' \<and> length bs \<le> max 1 (unat (batch_limit32 cfg))"
proof -
  let ?s = "getSizeClassInfo BatchClassId h"
  have fit: "groups_fit (batch_limit32 cfg) (BlockList32 ?s)" using inv by (simp add: batch_inv32_def)
  note l = sci_index [OF _ batch_is_class [OF cfg], of h]
  show ?thesis
  proof (cases "BlockList32 ?s")
    case Nil
    then show ?thesis using pop inv by (auto simp: popBlocksImpl32_def batch_step32_def)
  next
    case (Cons BG BGs)
    show ?thesis
    proof (cases "Batches BG")
      case Nil
      let ?f = "\<lambda>s. s\<lparr>BlockList32 := BGs, PoppedBlocks32 := PoppedBlocks32 s + 1\<rparr>"
      have "bs = [GroupAddr BG]" "h' = upd_sci BatchClassId ?f h"
        using pop Cons Nil by (auto simp: popBlocksImpl32_def compactPtr32_def)
      then show ?thesis using batch_list_step [OF cfg inv, of ?f "{#}" "mset bs"] fit Cons Nil
        by (simp add: batch_step32_def same_carving_def free32_def group_blocks32_def)
    next
      case (Cons B Bs)
      note BG = \<open>BlockList32 ?s = BG # BGs\<close> Cons
      have fB: "length (Blocks B) \<le> unat (batch_limit32 cfg)" using fit BG by simp
      have mv: "moveNToArray (unat (getCount B)) B = (Blocks B, B\<lparr>Blocks := []\<rparr>)"
        by (simp add: moveNToArray_def unat_getCount [OF fB])
      define f :: "size_class_info \<Rightarrow> size_class_info" where
        "f = (\<lambda>s. s\<lparr>BlockList32 := (if Bs \<noteq> [] then BG\<lparr>Batches := Bs\<rparr> # BGs else BGs),
           PoppedBlocks32 := PoppedBlocks32 s + ucast (getCount B)\<rparr>)"
      have ll: "unat BatchClassId < length (SizeClassInfoArray h)" using l inv by (simp add: batch_inv32_def)
      have twice: "upd_sci BatchClassId g (upd_sci BatchClassId k h) = upd_sci BatchClassId (g \<circ> k) h" for g k
        using ll by (simp add: upd_sci_def)
      have "bs = Blocks B" "h' = upd_sci BatchClassId f h"
        using pop BG mv by (auto simp: popBlocksImpl32_def Let_def twice f_def comp_def split: if_splits)
      then show ?thesis using batch_list_step [OF cfg inv, of f "{#}" "mset bs"] fit BG fB
        by (auto simp: batch_step32_def same_carving_def free32_def group_blocks32_def f_def)
    qed
  qed
qed

lemma push_batch32:
  assumes cfg: "primary32_ok cfg" and inv: "batch_inv32 cfg h" and ne: "Xs \<noteq> []"
  defines "h' \<equiv> pushBatchClassBlocks32 cfg Xs h"
  shows "only_sci cfg BatchClassId h h'" "batch_inv32 cfg h'" "carved32 cfg BatchClassId h' = carved32 cfg BatchClassId h"
    "free32 BatchClassId h' = free32 BatchClassId h + mset Xs"
    "same_carving (getSizeClassInfo BatchClassId h) (getSizeClassInfo BatchClassId h')"
proof -
  have fit: "groups_fit (batch_limit32 cfg) (BlockList32 (getSizeClassInfo BatchClassId h))"
    using inv by (simp add: batch_inv32_def)
  have L: "2 \<le> batch_limit32 cfg" using cfg by (simp add: primary32_ok_def)
  let ?f = "\<lambda>s. s\<lparr>PushedBlocks32 := PushedBlocks32 s + of_nat (length Xs),
       BlockList32 := pushBatchClassBlocks_list cfg Xs (BlockList32 s)\<rparr>"
  note s = batch_list_step [OF cfg inv, of ?f "mset Xs" "{#}"]
  note p = push_batch_list_ok [OF L ne fit]
  show "only_sci cfg BatchClassId h h'" "batch_inv32 cfg h'" "carved32 cfg BatchClassId h' = carved32 cfg BatchClassId h"
    "free32 BatchClassId h' = free32 BatchClassId h + mset Xs"
    "same_carving (getSizeClassInfo BatchClassId h) (getSizeClassInfo BatchClassId h')"
    using s p by (simp_all add: h'_def pushBatchClassBlocks32_def same_carving_def free32_def)
qed

lemma populate_batch32:
  assumes cfg: "primary32_ok cfg" and os: "fresh_os os" and inv: "batch_inv32 cfg h"
    and p: "populateFreeList cfg os g BatchClassId h = Inr (ok, h')"
  shows "\<exists>new. batch_step32 cfg new {#} h h'"
proof -
  note B = batch_is_class [OF cfg]
  have ri: "regions_inv cfg h" using inv by (simp add: batch_inv32_def)
  obtain r h1 where c: "current_region cfg os BatchClassId h = Inr (r, h1)"
    and rest: "(case r of None \<Rightarrow> Inr (False, h1) | Some (Region, Offset) \<Rightarrow>
        Inr (True, finish_carving cfg BatchClassId (carve_count cfg BatchClassId Offset)
          (pushBatchClassBlocks32 cfg (new_blocks32 (Region + Offset) (getSizeByClassId32 cfg BatchClassId)
            (unat (carve_count cfg BatchClassId Offset))) h1))) = (Inr (ok, h') :: _ result)"
    using p by (auto simp: populateFreeList_def bindE_eq_Inr Let_def split: option.splits)
  note cr = current_region_ok [OF cfg os B ri c]
  have inv1: "batch_inv32 cfg h1" using cr(1) inv by (simp add: batch_inv32_def region_step_def)
  have s1: "batch_step32 cfg {#} {#} h h1"
    using cr(1,2) inv1 by (simp add: batch_step32_def region_step_def free32_def)
  show ?thesis
  proof (cases r)
    case None
    then show ?thesis using rest s1 by auto
  next
    case (Some RO)
    obtain Region Offset where RO: "RO = (Region, Offset)" by fastforce
    let ?s1 = "getSizeClassInfo BatchClassId h1"
    have cur: "CurrentRegion ?s1 = Region" "CurrentRegionAllocated ?s1 = Offset" "Region \<noteq> 0"
      using cr(3) Some RO by auto
    define N where "N = carve_count cfg BatchClassId Offset"
    define Array where "Array = new_blocks32 (Region + Offset) (getSizeByClassId32 cfg BatchClassId) (unat N)"
    define h2 where "h2 = pushBatchClassBlocks32 cfg Array h1"
    have h': "h' = finish_carving cfg BatchClassId N h2"
      using rest Some RO by (simp add: N_def Array_def h2_def)
    have ne: "Array \<noteq> []"
      using carve32(3) [OF cfg B, of h1] inv1 cur by (simp add: batch_inv32_def Array_def N_def)
    note p2 = push_batch32 [OF cfg inv1 ne, folded h2_def]
    have cur2: "CurrentRegion (getSizeClassInfo BatchClassId h2) = Region"
        "CurrentRegionAllocated (getSizeClassInfo BatchClassId h2) = Offset"
      using p2(5) cur by (simp_all add: same_carving_def)
    have ri2: "regions_inv cfg h2" using p2(2) by (simp add: batch_inv32_def)
    have c2: "CurrentRegion (getSizeClassInfo BatchClassId h2) \<noteq> 0" using cur2 cur by simp
    note k = carve32 [OF cfg B ri2 c2, unfolded cur2, folded N_def, folded Array_def h']
    have "free32 BatchClassId h' = free32 BatchClassId h2" using k(1) by (simp add: region_step_def free32_def)
    moreover have "batch_inv32 cfg h'" using k(1) p2(2) by (simp add: batch_inv32_def region_step_def)
    ultimately have "batch_step32 cfg (mset Array) {#} h1 h'"
      using k(1,2) p2 only_sci_trans [OF p2(1), of h'] by (simp add: batch_step32_def region_step_def)
    from batch_step32_trans [OF s1 this] show ?thesis by auto
  qed
qed

lemma pop_batch_class32_step:
  assumes cfg: "primary32_ok cfg" and os: "fresh_os os" and inv: "batch_inv32 cfg h"
    and pop: "pop_batch_class32 cfg os BatchClassId n h = Inr (bs, h')"
  shows "\<exists>new. batch_step32 cfg new (mset bs) h h' \<and> length bs \<le> max 1 (unat (batch_limit32 cfg))"
proof -
  let ?d = "\<lambda>_ h :: heap32. Inl NullDeref" and ?g = "\<lambda>h :: heap32. Inl NullDeref"
  obtain bs1 h1 where p1: "popBlocksImpl32 cfg ?d BatchClassId n h = Inr (bs1, h1)"
    using pop by (auto simp: pop_batch_class32_def popBlocks_gen32_def bindE_eq_Inr)
  note s1 = pop_batch_impl32 [OF cfg inv p1]
  show ?thesis
  proof (cases "bs1 = []")
    case False
    then have "bs = bs1" "h' = h1" using pop p1 by (auto simp: pop_batch_class32_def popBlocks_gen32_def)
    then show ?thesis using s1 by auto
  next
    case True
    obtain ok h2 where p2: "populateFreeList cfg os ?g BatchClassId h1 = Inr (ok, h2)"
      and rest: "(if \<not> ok then Inr ([], h2) else popBlocksImpl32 cfg ?d BatchClassId n h2) = Inr (bs, h')"
      using pop p1 True by (auto simp: pop_batch_class32_def popBlocks_gen32_def bindE_eq_Inr)
    have inv1: "batch_inv32 cfg h1" using s1 by (simp add: batch_step32_def)
    obtain new where s2: "batch_step32 cfg new {#} h1 h2" using populate_batch32 [OF cfg os inv1 p2] by blast
    from s1 True have "batch_step32 cfg {#} {#} h h1" by simp
    from batch_step32_trans [OF this s2] have s12: "batch_step32 cfg new {#} h h2" by simp
    have inv2: "batch_inv32 cfg h2" using s2 by (simp add: batch_step32_def)
    show ?thesis
    proof (cases ok)
      case False
      then show ?thesis using rest s12 by auto
    next
      case True
      then have "popBlocksImpl32 cfg ?d BatchClassId n h2 = Inr (bs, h')" using rest by simp
      note s3 = pop_batch_impl32 [OF cfg inv2 this]
      from batch_step32_trans [OF s12] s3 show ?thesis by fastforce
    qed
  qed
qed

lemma push_batch_class32_eq: "push_batch_class32 cfg BatchClassId Xs h = Inr (ys, h') \<longleftrightarrow>
    ys = Xs \<and> h' = pushBatchClassBlocks32 cfg Xs h"
  by (auto simp: push_batch_class32_def pushBlocks_gen32_def)

lemma batch_limit32_le: "primary32_ok cfg \<Longrightarrow> unat (batch_limit32 cfg) < 2 ^ 14"
proof -
  assume "primary32_ok cfg"
  then have "unat (MaxNumCachedHint (PSizeMap cfg)) < 2 ^ 14" by (simp add: primary32_ok_def MaxNumBlocksInBatch_def)
  moreover have "unat (batch_limit32 cfg) \<le> unat (MaxNumCachedHint (PSizeMap cfg))"
    by (simp add: batch_limit32_def getMaxCached_def min_def word_le_nat_alt)
  ultimately show ?thesis by linarith
qed

section \<open>The batch class as a source of blocks\<close>

lemma batch_inv32_upd [simp]: "batch_inv32 cfg (upd_class I f h) = batch_inv32 cfg h"
  "batch_inv32 cfg (upd_stats g h) = batch_inv32 cfg h"
  by (simp_all add: batch_inv32_def)

lemma free32_upd [simp]: "free32 J (upd_class I f h) = free32 J h" "free32 J (upd_stats g h) = free32 J h"
  by (simp_all add: free32_def)

interpretation bc32: block_source "pop_batch_class32 cfg os" "push_batch_class32 cfg" compactPtr32
  "\<lambda>I. I = BatchClassId" "\<lambda>_. 2 * batch_limit32 cfg"
  "\<lambda>h. primary32_ok cfg \<and> fresh_os os \<and> batch_inv32 cfg h" free32 "carved32 cfg" for cfg os
proof (unfold_locales, goal_cases)
  case (1 c I n bs c')
  then show ?case using pop_batch_class32_step by (fastforce simp: batch_step32_def)
next
  case (2 c I n bs c')
  then show ?case using pop_batch_class32_step by (fastforce simp: batch_step32_def)
next
  case (3 c I bs c')
  then have "length bs \<le> max 1 (unat (batch_limit32 cfg))" using pop_batch_class32_step by blast
  with 3 show ?case using double_half [OF batch_limit32_le [of cfg]]
    by (simp add: primary32_ok_def word_le_nat_alt max_def split: if_splits)
next
  case (4 c I n bs c' J)
  then show ?case using pop_batch_class32_step [of cfg os c n bs c'] by (auto simp: batch_step32_def only_sci_class)
next
  case (5 c I n bs c')
  then show ?case using pop_batch_class32_step [of cfg os c n bs c'] by (auto simp: batch_step32_def only_sci_def)
next
  case (6 c I xs ys c')
  then show ?case using push_batch32(2) [of cfg c xs] by (simp add: push_batch_class32_eq)
next
  case (7 c I xs ys c')
  then show ?case using push_batch32(3,4) [of cfg c xs] by (simp add: push_batch_class32_eq)
next
  case (8 c I xs ys c' J)
  then show ?case using only_sci_class [OF push_batch32(1) [of cfg c xs]] by (simp add: push_batch_class32_eq)
next
  case (9 c I xs ys c')
  then show ?case using push_batch32(1) [of cfg c xs] by (simp add: push_batch_class32_eq only_sci_def)
qed (simp_all add: compactPtr32_def)

section \<open>The batch class as a source of nodes\<close>

text \<open>The blocks at the addresses \<open>A\<close> are exactly those taken from the batch class and its cache.\<close>

definition custody32 :: "primary_config \<Rightarrow> os32 \<Rightarrow> uptr multiset \<Rightarrow> heap32 \<Rightarrow> bool" where
  "custody32 cfg os A h \<longleftrightarrow> bc32.cache_inv cfg os h \<and> bc32.owned cfg (\<lambda>_. A) h"

definition frame32 :: "primary_config \<Rightarrow> heap32 \<Rightarrow> heap32 \<Rightarrow> bool" where
  "frame32 cfg h h' \<longleftrightarrow> (\<forall>J. J \<noteq> BatchClassId \<longrightarrow> getSizeClassInfo J h' = getSizeClassInfo J h
       \<and> get_class J h' = get_class J h \<and> (is_class32 cfg J \<longrightarrow> carved32 cfg J h' = carved32 cfg J h))
     \<and> length (SizeClassInfoArray h') = length (SizeClassInfoArray h)
     \<and> length (PerClassArray h') = length (PerClassArray h)"

lemma frame32_refl [simp]: "frame32 cfg h h"
  by (simp add: frame32_def)

lemma frame32_trans: "frame32 cfg h h1 \<Longrightarrow> frame32 cfg h1 h2 \<Longrightarrow> frame32 cfg h h2"
  by (simp add: frame32_def)

lemma frame32_only: "only_sci cfg BatchClassId h h' \<Longrightarrow> frame32 cfg h h'"
  by (simp add: frame32_def only_sci_def get_class_def)

lemma frame32_class: "frame32 cfg h (upd_class BatchClassId f h)"
  by (auto simp: frame32_def get_class_def upd_class_def getSizeClassInfo_def nth_list_update word_unat_eq_iff carved32_def)

lemma frame32_stats: "frame32 cfg h (upd_stats g h)"
  by (simp add: frame32_def)

lemma custody32_inv: "custody32 cfg os A h \<Longrightarrow> primary32_ok cfg \<and> fresh_os os \<and> batch_inv32 cfg h"
  by (simp add: custody32_def bc32.cache_inv_def)

lemma cache_allocate_frame32:
  assumes "primary32_ok cfg" "fresh_os os" "batch_inv32 cfg h"
    and "cache_allocate (pop_batch_class32 cfg os) dec BatchClassId h = Inr (r, h')"
  shows "frame32 cfg h h'"
proof -
  obtain ok h1 where o: "(if Count (get_class BatchClassId h) = 0
      then refill (pop_batch_class32 cfg os) BatchClassId (MaxCount (get_class BatchClassId h) div 2) h
      else Inr (True, h)) = Inr (ok, h1)"
    using assms(4) unfolding cache_allocate_def by (auto simp: bindE_eq_Inr)
  have 1: "frame32 cfg h h1"
  proof (cases "Count (get_class BatchClassId h) = 0")
    case True
    then obtain bs h2 where p: "pop_batch_class32 cfg os BatchClassId (MaxCount (get_class BatchClassId h) div 2) h = Inr (bs, h2)"
      and h1: "\<exists>f. h1 = upd_class BatchClassId f h2"
      using o by (auto simp: refill_def bindE_eq_Inr)
    have "frame32 cfg h h2" using pop_batch_class32_step [OF assms(1,2,3) p]
      by (auto simp: batch_step32_def intro: frame32_only)
    then show ?thesis using h1 frame32_class frame32_trans by blast
  qed (use o in simp)
  have "\<exists>f g. h' = h1 \<or> h' = upd_stats g (upd_class BatchClassId f h1)"
    using assms(4) o by (cases ok) (auto simp: cache_allocate_def Let_def)
  then have "frame32 cfg h1 h'" using frame32_class frame32_stats frame32_trans frame32_refl by metis
  with 1 show ?thesis by (rule frame32_trans)
qed

lemma getBatchClassBlock32_custody:
  assumes "custody32 cfg os A h" "getBatchClassBlock32 cfg os h = Inr (a, h')"
  shows "custody32 cfg os (add_mset a A) h' \<and> frame32 cfg h h'"
proof -
  have c: "bc32.cache_inv cfg os h" "bc32.owned cfg (\<lambda>_. A) h" using assms(1) by (simp_all add: custody32_def)
  have al: "cache_allocate (pop_batch_class32 cfg os) decompactPtr32 BatchClassId h = Inr (Some a, h')"
    using assms(2) by (auto simp: getBatchClassBlock32_def cache_getBatchClassBlock_def bindE_eq_Inr split: option.splits)
  have f: "frame32 cfg h h'" using custody32_inv [OF assms(1)] cache_allocate_frame32 [OF _ _ _ al] by blast
  obtain b where b: "bc32.cache_inv cfg os h'" "a = decompactPtr32 BatchClassId b h'"
      "bc32.owned cfg ((\<lambda>_. A)(BatchClassId := add_mset b A)) h'"
    using bc32.allocate_spec [OF c(1) refl c(2) al] by auto
  then show ?thesis using f by (simp add: custody32_def bc32.owned_def decompactPtr32_def)
qed

lemma deallocate_batch_block32_custody:
  assumes "custody32 cfg os (add_mset a A) h" "deallocate_batch_block32 cfg a h = Inr (r, h')"
  shows "custody32 cfg os A h' \<and> frame32 cfg h h'"
proof -
  have c: "bc32.cache_inv cfg os h" "bc32.owned cfg (\<lambda>_. add_mset a A) h" using assms(1) by (simp_all add: custody32_def)
  have d: "cache_deallocate (PSizeMap cfg) (push_batch_class32 cfg) compactPtr32 BatchClassId a h = Inr (r, h')"
    using assms(2) by (simp add: deallocate_batch_block32_def)
  have "\<exists>h1 f g. (h1 = h \<or> (\<exists>Xs f. h1 = upd_class BatchClassId f (pushBatchClassBlocks32 cfg Xs h)))
      \<and> h' = upd_stats g (upd_class BatchClassId f h1)"
    using d by (auto simp: cache_deallocate_def drain_class_def Let_def bindE_eq_Inr push_batch_class32_eq split: if_splits)
  then obtain h1 f g where h1: "h1 = h \<or> (\<exists>Xs f. h1 = upd_class BatchClassId f (pushBatchClassBlocks32 cfg Xs h))"
    and h': "h' = upd_stats g (upd_class BatchClassId f h1)" by blast
  have ok: "primary32_ok cfg" "regions_inv cfg h" using custody32_inv [OF assms(1)] by (auto simp: batch_inv32_def)
  have "frame32 cfg h (pushBatchClassBlocks32 cfg Xs h)" for Xs
    unfolding pushBatchClassBlocks32_def
    by (intro frame32_only only_sci_upd sci_index [OF ok(2) batch_is_class [OF ok(1)]])
  then have "frame32 cfg h h1" using h1 by (auto intro: frame32_trans [OF _ frame32_class])
  then have f: "frame32 cfg h h'" unfolding h'
    by (intro frame32_trans [OF _ frame32_stats] frame32_trans [OF _ frame32_class])
  have "compactPtr32 BatchClassId a h \<in># add_mset a A" by (simp add: compactPtr32_def)
  from bc32.deallocate_spec [OF c(1) refl c(2) this d] f show ?thesis
    by (simp add: custody32_def bc32.owned_def compactPtr32_def)
qed

interpretation nodes32: node_store "getBatchClassBlock32 cfg os" "deallocate_batch_block32 cfg" "custody32 cfg os" "frame32 cfg"
  for cfg os
proof (unfold_locales, goal_cases)
  case 1
  then show ?case by (rule getBatchClassBlock32_custody)
next
  case 2
  then show ?case by (rule deallocate_batch_block32_custody)
next
  case 4
  then show ?case by (rule frame32_trans)
qed simp

end
