(* ===== verification/Primary32Safe.thy ===== *)
theory Primary32Safe
  imports Primary32Batch
begin

text \<open>
  The classes of \<open>Primary32\<close> other than the batch class. Their batches and groups are stored in blocks of
  the batch class, which \<open>custody32\<close> accounts for; pushing, popping and carving are shown to lose and
  duplicate no block. The result is an interpretation of \<open>block_source\<close> for these classes: what is proved
  of a thread's cache in \<open>LocalCache\<close> holds on top of the 32-bit primary as well.
\<close>

unbundle bit_operations_syntax

abbreviation stored32 :: "primary_config \<Rightarrow> os32 \<Rightarrow> uptr multiset \<Rightarrow> batch_group list \<Rightarrow> heap32 \<Rightarrow> bool" where
  "stored32 cfg os \<equiv> nodes32.stored cfg os cfg"

lemmas stored32_def = nodes32.stored_def

definition plain_class :: "primary_config \<Rightarrow> uptr \<Rightarrow> bool" where
  "plain_class cfg I \<longleftrightarrow> is_class32 cfg I \<and> I \<noteq> BatchClassId"

section \<open>The state of a class\<close>

definition class_state32 :: "primary_config \<Rightarrow> os32 \<Rightarrow> uptr multiset \<Rightarrow> uptr \<Rightarrow> heap32 \<Rightarrow> bool" where
  "class_state32 cfg os A I h \<longleftrightarrow> stored32 cfg os A (BlockList32 (getSizeClassInfo I h)) h"

abbreviation list_blocks32 :: "uptr \<Rightarrow> heap32 \<Rightarrow> uptr multiset" where
  "list_blocks32 I h \<equiv> listed_blocks (BlockList32 (getSizeClassInfo I h))"

definition class_frame32 :: "primary_config \<Rightarrow> uptr \<Rightarrow> heap32 \<Rightarrow> heap32 \<Rightarrow> bool" where
  "class_frame32 cfg I h h' \<longleftrightarrow> (\<forall>J. J \<noteq> BatchClassId \<longrightarrow> get_class J h' = get_class J h
       \<and> (J \<noteq> I \<longrightarrow> getSizeClassInfo J h' = getSizeClassInfo J h
            \<and> (is_class32 cfg J \<longrightarrow> carved32 cfg J h' = carved32 cfg J h)))
     \<and> length (SizeClassInfoArray h') = length (SizeClassInfoArray h)
     \<and> length (PerClassArray h') = length (PerClassArray h)"

lemma class_frame32_refl [simp]: "class_frame32 cfg I h h"
  by (simp add: class_frame32_def)

lemma class_frame32_trans: "class_frame32 cfg I h h1 \<Longrightarrow> class_frame32 cfg I h1 h2 \<Longrightarrow> class_frame32 cfg I h h2"
  by (simp add: class_frame32_def)

lemma class_frame32_batch: "frame32 cfg h h' \<Longrightarrow> class_frame32 cfg I h h'"
  by (simp add: class_frame32_def frame32_def)

lemma class_frame32_only: "only_sci cfg I h h' \<Longrightarrow> class_frame32 cfg I h h'"
  by (simp add: class_frame32_def only_sci_def get_class_def)

lemma custody32_regions: "custody32 cfg os A h \<Longrightarrow> regions_inv cfg h"
  using custody32_inv by (auto simp: batch_inv32_def)

lemma stored32_cfg: "stored32 cfg os A Gs h \<Longrightarrow> primary32_ok cfg \<and> fresh_os os \<and> regions_inv cfg h"
  using custody32_inv by (auto simp: stored32_def batch_inv32_def)

lemma custody32_iff: "custody32 cfg os A h \<longleftrightarrow> primary32_ok cfg \<and> fresh_os os \<and> batch_inv32 cfg h
    \<and> 0 < length (PerClassArray h) \<and> class_ok (get_class BatchClassId h)
    \<and> MaxCount (get_class BatchClassId h) = 2 * batch_limit32 cfg
    \<and> carved32 cfg BatchClassId h = free32 BatchClassId h + cached BatchClassId h + A"
proof -
  have "unat BatchClassId = 0" by (simp add: BatchClassId_def)
  then show ?thesis by (auto simp: custody32_def bc32.cache_inv_def bc32.owned_def)
qed

text \<open>A change of another class leaves the batch class and its cache alone.\<close>

lemma custody32_only:
  assumes "custody32 cfg os A h" "only_sci cfg I h h'" "I \<noteq> BatchClassId" "regions_inv cfg h'"
  shows "custody32 cfg os A h'"
proof -
  have ok: "primary32_ok cfg" using custody32_inv [OF assms(1)] by blast
  have "getSizeClassInfo BatchClassId h' = getSizeClassInfo BatchClassId h"
    "carved32 cfg BatchClassId h' = carved32 cfg BatchClassId h" "PerClassArray h' = PerClassArray h"
    using assms(2,3) batch_is_class [OF ok] by (simp_all add: only_sci_def)
  then show ?thesis using assms(1,4) only_sci_class [OF assms(2)]
    by (simp add: custody32_iff) (simp add: batch_inv32_def free32_def cached_def)
qed

section \<open>Steps on a class\<close>

text \<open>An operation that carves \<open>new\<close> blocks for a class, pushes \<open>inn\<close> to its list and pops \<open>out\<close>.\<close>

definition class_step32 ::
    "primary_config \<Rightarrow> os32 \<Rightarrow> uptr multiset \<Rightarrow> uptr \<Rightarrow> uptr multiset \<Rightarrow> uptr multiset \<Rightarrow> uptr multiset
      \<Rightarrow> heap32 \<Rightarrow> heap32 \<Rightarrow> bool" where
  "class_step32 cfg os A I new inn out h h' \<longleftrightarrow> class_state32 cfg os A I h' \<and> class_frame32 cfg I h h'
     \<and> carved32 cfg I h' = carved32 cfg I h + new
     \<and> list_blocks32 I h + inn = list_blocks32 I h' + out"

lemma class_step32_refl: "class_state32 cfg os A I h \<Longrightarrow> class_step32 cfg os A I {#} {#} {#} h h"
  by (simp add: class_step32_def)

lemma class_step32_trans:
  assumes "class_step32 cfg os A I n1 i1 o1 h h1" "class_step32 cfg os A I n2 i2 o2 h1 h2"
  shows "class_step32 cfg os A I (n1 + n2) (i1 + i2) (o1 + o2) h h2"
proof -
  have "list_blocks32 I h + (i1 + i2) = list_blocks32 I h1 + i2 + o1"
    using assms(1) by (simp add: class_step32_def add.assoc [symmetric])
  also have "\<dots> = list_blocks32 I h2 + (o1 + o2)"
    using assms(2) by (simp add: class_step32_def ac_simps)
  finally show ?thesis using assms
    by (auto simp: class_step32_def ac_simps intro: class_frame32_trans)
qed

text \<open>Preparing or finishing the current region of the class.\<close>

lemma class_step32_region:
  assumes "class_state32 cfg os A I h" "plain_class cfg I" "region_step cfg I h h'"
    "carved32 cfg I h' = carved32 cfg I h + new"
  shows "class_step32 cfg os A I new {#} {#} h h'"
  using assms custody32_only [of cfg os _ h I h']
  by (simp add: class_step32_def class_state32_def stored32_def region_step_def plain_class_def class_frame32_only)

text \<open>Changing fields that say nothing about the carving, the list perhaps.\<close>

lemma class_step32_fields:
  assumes cu: "custody32 cfg os (A + groups_addrs (BlockList32 (f (getSizeClassInfo I h)))) h"
    and ok: "groups_ok cfg (BlockList32 (f (getSizeClassInfo I h)))" and I: "plain_class cfg I"
    and f: "\<And>s. same_carving s (f s)"
    and l: "list_blocks32 I h + inn = listed_blocks (BlockList32 (f (getSizeClassInfo I h))) + out"
  shows "class_step32 cfg os A I {#} inn out h (upd_sci I f h)"
    and "same_carving (getSizeClassInfo I h) (getSizeClassInfo I (upd_sci I f h))"
proof -
  have c: "is_class32 cfg I" "I \<noteq> BatchClassId" using I by (simp_all add: plain_class_def)
  have inv: "regions_inv cfg h" by (rule custody32_regions [OF cu])
  note ix = sci_index [OF inv c(1)]
  note o = only_sci_upd [OF ix, of cfg f]
  have "custody32 cfg os (A + groups_addrs (BlockList32 (f (getSizeClassInfo I h)))) (upd_sci I f h)"
    by (rule custody32_only [OF cu o c(2) regions_inv_same [OF inv c(1) f]])
  then show "class_step32 cfg os A I {#} inn out h (upd_sci I f h)"
    using ok l ix carved32_same [OF ix f, of cfg I]
    by (simp add: class_step32_def class_state32_def stored32_def class_frame32_only [OF o] getSizeClassInfo_upd)
  show "same_carving (getSizeClassInfo I h) (getSizeClassInfo I (upd_sci I f h))"
    using f by (simp add: getSizeClassInfo_upd [OF ix])
qed

lemma class_step32_field:
  assumes "class_state32 cfg os A I h" "plain_class cfg I"
    "\<And>s. same_carving s (f s)" "\<And>s. BlockList32 (f s) = BlockList32 s"
  shows "class_step32 cfg os A I {#} {#} {#} h (upd_sci I f h)"
    and "same_carving (getSizeClassInfo I h) (getSizeClassInfo I (upd_sci I f h))"
proof -
  have cu: "custody32 cfg os (A + groups_addrs (BlockList32 (f (getSizeClassInfo I h)))) h"
    and ok: "groups_ok cfg (BlockList32 (f (getSizeClassInfo I h)))"
    and l: "list_blocks32 I h + {#} = listed_blocks (BlockList32 (f (getSizeClassInfo I h))) + {#}"
    using assms(1) by (simp_all add: class_state32_def stored32_def assms(4))
  show "class_step32 cfg os A I {#} {#} {#} h (upd_sci I f h)"
    "same_carving (getSizeClassInfo I h) (getSizeClassInfo I (upd_sci I f h))"
    by (rule class_step32_fields [OF cu ok assms(2,3) l])+
qed

section \<open>Pushing to a class\<close>

lemma frame32_sci: "frame32 cfg h h' \<Longrightarrow> plain_class cfg I \<Longrightarrow>
    getSizeClassInfo I h' = getSizeClassInfo I h \<and> carved32 cfg I h' = carved32 cfg I h"
  by (simp add: frame32_def plain_class_def)

text \<open>Storing a list that was changed while nodes were taken or returned.\<close>

lemma class_step32_store:
  assumes st: "stored32 cfg os A Gs h1" and f: "frame32 cfg h h1" and I: "plain_class cfg I"
    and l: "list_blocks32 I h + inn = listed_blocks Gs + out"
  shows "class_step32 cfg os A I {#} inn out h (upd_sci I (\<lambda>s. s\<lparr>BlockList32 := Gs\<rparr>) h1)"
    and "same_carving (getSizeClassInfo I h) (getSizeClassInfo I (upd_sci I (\<lambda>s. s\<lparr>BlockList32 := Gs\<rparr>) h1))"
proof -
  let ?f = "\<lambda>s. s\<lparr>BlockList32 := Gs\<rparr>"
  note fs = frame32_sci [OF f I]
  have cu: "custody32 cfg os (A + groups_addrs (BlockList32 (?f (getSizeClassInfo I h1)))) h1"
    and ok: "groups_ok cfg (BlockList32 (?f (getSizeClassInfo I h1)))"
    using st by (simp_all add: stored32_def)
  have l1: "list_blocks32 I h1 + inn = listed_blocks (BlockList32 (?f (getSizeClassInfo I h1))) + out"
    using l fs by simp
  have sc: "same_carving s (?f s)" for s by (simp add: same_carving_def)
  note s = class_step32_fields [where f = ?f, OF cu ok I sc l1]
  show "class_step32 cfg os A I {#} inn out h (upd_sci I ?f h1)"
    using s(1) fs class_frame32_trans [OF class_frame32_batch [OF f]] l by (simp add: class_step32_def)
  show "same_carving (getSizeClassInfo I h) (getSizeClassInfo I (upd_sci I ?f h1))" using s(2) fs by simp
qed

lemma pushBlocksImpl32_step:
  assumes "class_state32 cfg os A I h" "plain_class cfg I"
    and "pushBlocksImpl32 cfg (getBatchClassBlock32 cfg os) I Xs Same h = Inr h'"
  shows "class_step32 cfg os A I {#} (mset Xs) {#} h h'"
    and "same_carving (getSizeClassInfo I h) (getSizeClassInfo I h')"
proof -
  let ?g = "getBatchClassBlock32 cfg os"
  define h1 where "h1 = upd_sci I (\<lambda>s. s\<lparr>PushedBlocks32 := PushedBlocks32 s + of_nat (length Xs)\<rparr>) h"
  define pos where "pos = ([] :: batch_group list, BlockList32 (getSizeClassInfo I h1))"
  note s1 = class_step32_field [OF assms(1,2), where f = "\<lambda>s. s\<lparr>PushedBlocks32 := PushedBlocks32 s + of_nat (length Xs)\<rparr>",
      folded h1_def]
  have s1: "class_step32 cfg os A I {#} {#} {#} h h1" "same_carving (getSizeClassInfo I h) (getSizeClassInfo I h1)"
    by (rule s1; simp add: same_carving_def)+
  then have l1: "stored32 cfg os A (pos_groups pos) h1"
    by (simp add: pos_def class_step32_def class_state32_def)
  obtain pos2 h2 where p: "(if Same then bindE (find_or_create_group cfg ?g (compactPtrGroupBase32 cfg (hd Xs)) pos h1)
        (\<lambda>(pos, h). insert_at ?g Xs pos h) else push_runs cfg (compactPtrGroupBase32 cfg) ?g Xs pos h1) = Inr (pos2, h2)"
    and h': "h' = upd_sci I (\<lambda>s. s\<lparr>BlockList32 := pos_groups pos2\<rparr>) h2"
    using assms(3) unfolding pushBlocksImpl32_def Let_def h1_def [symmetric] pos_def [symmetric]
    by (auto simp: bindE_eq_Inr)
  have q: "stored32 cfg os A (pos_groups pos2) h2 \<and> frame32 cfg h1 h2
      \<and> listed_blocks (pos_groups pos2) = listed_blocks (pos_groups pos) + mset Xs"
  proof (cases Same)
    case True
    then obtain pos1 h1' where 1: "find_or_create_group cfg ?g (compactPtrGroupBase32 cfg (hd Xs)) pos h1 = Inr (pos1, h1')"
      and 2: "insert_at ?g Xs pos1 h1' = Inr (pos2, h2)" using p by (auto simp: bindE_eq_Inr)
    note c1 = nodes32.find_or_create_held [OF l1 1]
    have "stored32 cfg os A (pos_groups pos1) h1'" using c1 by blast
    from nodes32.insert_at_held [OF this 2] c1 frame32_trans [of cfg h1 h1' h2] show ?thesis by simp
  next
    case False
    then show ?thesis using nodes32.push_runs_held [OF l1] p by simp
  qed
  then have q: "stored32 cfg os A (pos_groups pos2) h2" "frame32 cfg h1 h2"
      "list_blocks32 I h1 + mset Xs = listed_blocks (pos_groups pos2) + {#}"
    by (simp_all add: pos_def)
  note s2 = class_step32_store [OF q(1,2) assms(2) q(3), folded h']
  show "class_step32 cfg os A I {#} (mset Xs) {#} h h'" using class_step32_trans [OF s1(1) s2(1)] by simp
  show "same_carving (getSizeClassInfo I h) (getSizeClassInfo I h')" by (rule same_carving_trans [OF s1(2) s2(2)])
qed

lemma push_new_blocks32_step:
  assumes "class_state32 cfg os A I h" "plain_class cfg I"
    and "push_new_blocks32 cfg (getBatchClassBlock32 cfg os) I Xs h = Inr h'" "length Xs < 2 ^ 32"
  shows "class_step32 cfg os A I {#} (mset Xs) {#} h h' \<and> same_carving (getSizeClassInfo I h) (getSizeClassInfo I h')"
  using assms(1,3,4)
proof (induction "length Xs" arbitrary: Xs h rule: less_induct)
  case less
  show ?case
  proof (cases Xs)
    case Nil
    then show ?thesis using less.prems class_step32_refl by simp
  next
    case (Cons X Ys)
    let ?P = "\<lambda>Y. compactPtrGroupBase32 cfg Y = compactPtrGroupBase32 cfg X"
    obtain run rs where sh: "shuffle (X # takeWhile ?P Ys) (RandState32 (getSizeClassInfo I h)) = (run, rs)" by fastforce
    define h1 where "h1 = upd_sci I (\<lambda>s. s\<lparr>RandState32 := rs\<rparr>) h"
    have s1: "class_step32 cfg os A I {#} {#} {#} h h1" "same_carving (getSizeClassInfo I h) (getSizeClassInfo I h1)"
      unfolding h1_def by (rule class_step32_field [OF less.prems(1) assms(2)]; simp add: same_carving_def)+
    obtain h2 where p: "pushBlocksImpl32 cfg (getBatchClassBlock32 cfg os) I run True h1 = Inr h2"
      and n: "push_new_blocks32 cfg (getBatchClassBlock32 cfg os) I (dropWhile ?P Ys) h2 = Inr h'"
      using less.prems(2) by (auto simp: Cons sh h1_def split: sum.splits)
    have st1: "class_state32 cfg os A I h1" using s1 by (simp add: class_step32_def)
    note s2 = pushBlocksImpl32_step [OF st1 assms(2) p]
    have st2: "class_state32 cfg os A I h2" using s2(1) by (simp add: class_step32_def)
    have "length (dropWhile ?P Ys) < length Xs" by (simp add: Cons less_Suc_eq_le length_dropWhile_le)
    moreover from this have "length (dropWhile ?P Ys) < 2 ^ 32" using less.prems(3) by linarith
    ultimately have s3: "class_step32 cfg os A I {#} (mset (dropWhile ?P Ys)) {#} h2 h'"
        "same_carving (getSizeClassInfo I h2) (getSizeClassInfo I h')" using less.hyps st2 n by blast+
    have "length (X # takeWhile ?P Ys) < 2 ^ 32"
      using less.prems(3) length_takeWhile_le [of ?P Ys] by (simp add: Cons)
    then have "mset run = mset (X # takeWhile ?P Ys)" using shuffle_mset [of "X # takeWhile ?P Ys"] sh by (metis fst_conv)
    moreover have "mset Ys = mset (takeWhile ?P Ys) + mset (dropWhile ?P Ys)"
      by (simp only: mset_append [symmetric] takeWhile_dropWhile_id)
    ultimately show ?thesis
      using class_step32_trans [OF s1(1) class_step32_trans [OF s2(1) s3(1)]]
        same_carving_trans [OF s1(2) same_carving_trans [OF s2(2) s3(2)]] by (simp add: Cons)
  qed
qed

lemma pushBlocks32_step:
  assumes "class_state32 cfg os A I h" "plain_class cfg I" "pushBlocks32 cfg os I Xs h = Inr (Ys, h')"
  shows "class_step32 cfg os A I {#} (mset Xs) {#} h h' \<and> mset Ys = mset Xs"
proof -
  obtain Same Sorted where s: "group_sort_loop (compactPtrGroupBase32 cfg) Xs (True, []) = (Same, Sorted)" by fastforce
  then have "Ys = Sorted" "pushBlocksImpl32 cfg (getBatchClassBlock32 cfg os) I Sorted Same h = Inr h'"
    using assms(2,3) by (auto simp: pushBlocks32_def pushBlocks_gen32_def bindE_eq_Inr plain_class_def)
  with pushBlocksImpl32_step(1) [OF assms(1,2) this(2)]
    mset_group_sort_loop [of "compactPtrGroupBase32 cfg" Xs "(True, [])"] s show ?thesis by simp
qed

section \<open>Popping from a class\<close>

text \<open>Between two steps of a pop the list may hold an empty group: the information on the class is \<open>s\<close>
  and the nodes that are taken are at the addresses \<open>X\<close>.\<close>

definition midway :: "primary_config \<Rightarrow> os32 \<Rightarrow> uptr \<Rightarrow> heap32 \<Rightarrow> uptr multiset \<Rightarrow> size_class_info \<Rightarrow> heap32 \<Rightarrow> bool" where
  "midway cfg os I h X s k \<longleftrightarrow> custody32 cfg os X k \<and> class_frame32 cfg I h k \<and> getSizeClassInfo I k = s
     \<and> carved32 cfg I k = carved32 cfg I h"

lemma midway_upd:
  assumes "midway cfg os I h X s k" "plain_class cfg I" "\<And>s. same_carving s (f s)"
  shows "midway cfg os I h X (f s) (upd_sci I f k)"
proof -
  have c: "is_class32 cfg I" "I \<noteq> BatchClassId" using assms(2) by (simp_all add: plain_class_def)
  have cu: "custody32 cfg os X k" using assms(1) by (simp add: midway_def)
  note inv = custody32_regions [OF cu]
  note ix = sci_index [OF inv c(1)]
  note o = only_sci_upd [OF ix, of cfg f]
  have "custody32 cfg os X (upd_sci I f k)" by (rule custody32_only [OF cu o c(2) regions_inv_same [OF inv c(1) assms(3)]])
  then show ?thesis
    using assms(1) ix carved32_same [OF ix assms(3), of cfg I] class_frame32_trans [OF _ class_frame32_only [OF o]]
    by (simp add: midway_def getSizeClassInfo_upd)
qed

lemma midway_free:
  assumes "midway cfg os I h (add_mset a X) s k" "plain_class cfg I" "deallocate_batch_block32 cfg a k = Inr (r, k')"
  shows "midway cfg os I h X s k'"
proof -
  have "custody32 cfg os (add_mset a X) k" using assms(1) by (simp add: midway_def)
  from deallocate_batch_block32_custody [OF this assms(3)]
  have c: "custody32 cfg os X k'" and f: "frame32 cfg k k'" by blast+
  show ?thesis using assms(1) c frame32_sci [OF f assms(2)] class_frame32_trans [OF _ class_frame32_batch [OF f]]
    by (simp add: midway_def)
qed

lemma midway_start: "class_state32 cfg os A I h \<Longrightarrow>
    midway cfg os I h (A + groups_addrs (BlockList32 (getSizeClassInfo I h))) (getSizeClassInfo I h) h"
  by (simp add: midway_def class_state32_def stored32_def)

lemma midway_done:
  assumes "midway cfg os I h X s k" "X = A + groups_addrs (BlockList32 s)" "groups_ok cfg (BlockList32 s)"
    "list_blocks32 I h = listed_blocks (BlockList32 s) + out"
  shows "class_step32 cfg os A I {#} {#} out h k"
  using assms by (simp add: midway_def class_step32_def class_state32_def stored32_def)

lemma popBlocksImpl32_step:
  assumes st: "class_state32 cfg os A I h" and I: "plain_class cfg I"
    and pop: "popBlocksImpl32 cfg (deallocate_batch_block32 cfg) I n h = Inr (bs, h')"
  shows "class_step32 cfg os A I {#} {#} (mset bs) h h' \<and> length bs \<le> unat n"
proof (cases "BlockList32 (getSizeClassInfo I h)")
  case Nil
  then show ?thesis using pop class_step32_refl [OF st] by (simp add: popBlocksImpl32_def)
next
  case (Cons G Gs)
  note L = this
  let ?s = "getSizeClassInfo I h"
  have ok: "batches_fit (MaxNumBlocksInBatch cfg) (Batches G)" "Batches G \<noteq> []" "groups_ok cfg (G # Gs)"
    using st L by (simp_all add: class_state32_def stored32_def)
  obtain B Bs where B: "Batches G = B # Bs" using ok(2) by (cases "Batches G") auto
  define c where "c = MinU n (getCount B)"
  define out where "out = drop (length (Blocks B) - unat c) (Blocks B)"
  obtain B' where mv: "moveNToArray (unat c) B = (out, B')" and B': "BatchAddr B' = BatchAddr B"
    by (simp add: moveNToArray_def out_def)
  note m = append_moved [OF mv]
  have "length out \<le> unat n"
    using m by (simp add: c_def out_def min_def word_le_nat_alt split: if_splits)
  moreover have "class_step32 cfg os A I {#} {#} (mset bs) h h' \<and> bs = out"
  proof -
    define count where "count = (\<lambda>s :: size_class_info. s\<lparr>PoppedBlocks32 := PoppedBlocks32 s + ucast c\<rparr>)"
    define put where "put = (\<lambda>Hs (s :: size_class_info). s\<lparr>BlockList32 := Hs\<rparr>)"
    have I': "(I = BatchClassId) = False" using I by (simp add: plain_class_def)
    have body: "(if Blocks B' \<noteq> [] then Inr (out, upd_sci I count (upd_sci I (put (G\<lparr>Batches := B' # Bs\<rparr> # Gs)) h))
        else bindE (deallocate_batch_block32 cfg (BatchAddr B) (upd_sci I (put (G\<lparr>Batches := Bs\<rparr> # Gs)) h)) (\<lambda>(_, h).
               if Bs \<noteq> [] then Inr (out, upd_sci I count h)
               else bindE (deallocate_batch_block32 cfg (GroupAddr G) (upd_sci I (put Gs) h))
                      (\<lambda>(_, h). Inr (out, upd_sci I count h)))) = Inr (bs, h')"
      using pop I' mv unfolding popBlocksImpl32_def Let_def L list.case B I' if_False if_True not_False_eq_True
        c_def count_def put_def by simp
    have sc: "same_carving s (count s)" "same_carving s (put Hs s)" "BlockList32 (count s) = BlockList32 s"
      "BlockList32 (put Hs s) = Hs" for s Hs
      by (simp_all add: count_def put_def same_carving_def)
    have start: "midway cfg os I h (A + groups_addrs (G # Gs)) (put Hs ?s) (upd_sci I (put Hs) h)" for Hs
      using midway_upd [OF midway_start [OF st] I sc(2)] by (simp add: L)
    show ?thesis
    proof (cases "Blocks B' = []")
      case False
      then have "bs = out" "h' = upd_sci I count (upd_sci I (put (G\<lparr>Batches := B' # Bs\<rparr> # Gs)) h)" using body by simp_all
      moreover have "A + groups_addrs (G # Gs) = A + groups_addrs (G\<lparr>Batches := B' # Bs\<rparr> # Gs)"
        by (simp add: group_addrs_def B B')
      ultimately show ?thesis
        using midway_done [where out = "mset out" and A = A, OF midway_upd [OF start [of "G\<lparr>Batches := B' # Bs\<rparr> # Gs"] I sc(1)]] ok B m L
        by (simp add: sc ac_simps)
    next
      case True
      let ?G = "G\<lparr>Batches := Bs\<rparr>"
      have bl: "batches_blocks (Batches G) = mset out + batches_blocks Bs" using m True B by simp
      obtain r2 h2 where d: "deallocate_batch_block32 cfg (BatchAddr B) (upd_sci I (put (?G # Gs)) h) = Inr (r2, h2)"
        and rest: "(if Bs \<noteq> [] then Inr (out, upd_sci I count h2)
               else bindE (deallocate_batch_block32 cfg (GroupAddr G) (upd_sci I (put Gs) h2))
                      (\<lambda>(_, h). Inr (out, upd_sci I count h))) = Inr (bs, h')"
        using body True by (auto simp: bindE_eq_Inr)
      have "A + groups_addrs (G # Gs) = add_mset (BatchAddr B) (A + groups_addrs (?G # Gs))"
        by (simp add: group_addrs_def B add_mset_commute)
      with start [of "?G # Gs"] have "midway cfg os I h (add_mset (BatchAddr B) (A + groups_addrs (?G # Gs)))
          (put (?G # Gs) ?s) (upd_sci I (put (?G # Gs)) h)" by simp
      note m2 = midway_free [OF this I d]
      show ?thesis
      proof (cases "Bs = []")
        case False
        then have "bs = out" "h' = upd_sci I count h2" using rest by simp_all
        then show ?thesis using midway_done [where out = "mset out" and A = A, OF midway_upd [OF m2 I sc(1)]] ok B bl False L
          by (simp add: sc ac_simps)
      next
        case Bs: True
        obtain r3 h3 where d3: "deallocate_batch_block32 cfg (GroupAddr G) (upd_sci I (put Gs) h2) = Inr (r3, h3)"
          and bs: "bs = out" "h' = upd_sci I count h3" using rest Bs by (auto simp: bindE_eq_Inr)
        have pp: "put Gs (put (?G # Gs) ?s) = put Gs ?s" by (simp add: put_def)
        have "midway cfg os I h (add_mset (GroupAddr G) (A + groups_addrs Gs)) (put Gs ?s) (upd_sci I (put Gs) h2)"
          using midway_upd [OF m2 I sc(2) [of _ Gs]] Bs unfolding pp by (simp add: group_addrs_def)
        note m3 = midway_free [OF this I d3]
        show ?thesis using midway_done [where out = "mset out" and A = A, OF midway_upd [OF m3 I sc(1)]] ok bl Bs L bs
          by (simp add: sc ac_simps)
      qed
    qed
  qed
  ultimately show ?thesis by blast
qed

section \<open>Carving for a class\<close>

lemma new_blocks32_length [simp]: "length (new_blocks32 P S n) = n"
  by (simp add: new_blocks32_def)

lemma populateFreeList_step:
  assumes st: "class_state32 cfg os A I h" and I: "plain_class cfg I"
    and p: "populateFreeList cfg os (getBatchClassBlock32 cfg os) I h = Inr (ok, h')"
  shows "\<exists>new. class_step32 cfg os A I new new {#} h h'"
proof -
  let ?g = "getBatchClassBlock32 cfg os"
  have c: "is_class32 cfg I" "(I = BatchClassId) = False" using I by (simp_all add: plain_class_def)
  have cfg: "primary32_ok cfg" "fresh_os os" and ri: "regions_inv cfg h"
    using stored32_cfg st by (auto simp: class_state32_def)
  obtain r h1 where cur: "current_region cfg os I h = Inr (r, h1)"
    and rest: "(case r of None \<Rightarrow> Inr (False, h1) | Some (Region, Offset) \<Rightarrow>
        bindE (push_new_blocks32 cfg ?g I (new_blocks32 (Region + Offset) (getSizeByClassId32 cfg I)
            (unat (carve_count cfg I Offset))) h1)
          (\<lambda>h. Inr (True, finish_carving cfg I (carve_count cfg I Offset) h))) = (Inr (ok, h') :: _ result)"
    using p c by (auto simp: populateFreeList_def bindE_eq_Inr Let_def split: option.splits)
  note cr = current_region_ok [OF cfg c(1) ri cur]
  have s1: "class_step32 cfg os A I {#} {#} {#} h h1"
    by (rule class_step32_region [OF st I cr(1)]) (simp add: cr(2))
  show ?thesis
  proof (cases r)
    case None
    then show ?thesis using rest s1 by auto
  next
    case (Some RO)
    obtain Region Offset where RO: "RO = (Region, Offset)" by fastforce
    have at: "CurrentRegion (getSizeClassInfo I h1) = Region" "CurrentRegionAllocated (getSizeClassInfo I h1) = Offset"
      "Region \<noteq> 0" using cr(3) Some RO by auto
    define N where "N = carve_count cfg I Offset"
    define Array where "Array = new_blocks32 (Region + Offset) (getSizeByClassId32 cfg I) (unat N)"
    obtain h2 where push: "push_new_blocks32 cfg ?g I Array h1 = Inr h2" and h': "h' = finish_carving cfg I N h2"
      using rest Some RO by (auto simp: N_def Array_def bindE_eq_Inr)
    have st1: "class_state32 cfg os A I h1" using s1 by (simp add: class_step32_def)
    have "unat N < 4294967296" by (rule unat_less_32)
    then have "length Array < 2 ^ 32" by (simp add: Array_def)
    from push_new_blocks32_step [OF st1 I push this]
    have s2: "class_step32 cfg os A I {#} (mset Array) {#} h1 h2"
      and sc: "same_carving (getSizeClassInfo I h1) (getSizeClassInfo I h2)" by blast+
    have st2: "class_state32 cfg os A I h2" using s2 by (simp add: class_step32_def)
    have at2: "CurrentRegion (getSizeClassInfo I h2) = Region" "CurrentRegionAllocated (getSizeClassInfo I h2) = Offset"
      using sc at by (simp_all add: same_carving_def)
    have ri2: "regions_inv cfg h2" using stored32_cfg st2 by (auto simp: class_state32_def)
    have "CurrentRegion (getSizeClassInfo I h2) \<noteq> 0" using at2 at by simp
    note k = carve32 [OF cfg(1) c(1) ri2 this, unfolded at2, folded N_def, folded Array_def h']
    have "class_step32 cfg os A I (mset Array) {#} {#} h2 h'" by (rule class_step32_region [OF st2 I k(1,2)])
    from class_step32_trans [OF s1 class_step32_trans [OF s2 this]] show ?thesis by auto
  qed
qed

lemma popBlocks32_step:
  assumes st: "class_state32 cfg os A I h" and I: "plain_class cfg I"
    and pop: "popBlocks32 cfg os I n h = Inr (bs, h')"
  shows "\<exists>new. class_step32 cfg os A I new new (mset bs) h h' \<and> length bs \<le> unat n"
proof -
  let ?d = "deallocate_batch_block32 cfg" and ?g = "getBatchClassBlock32 cfg os"
  obtain bs1 h1 where p1: "popBlocksImpl32 cfg ?d I n h = Inr (bs1, h1)"
    using pop by (auto simp: popBlocks32_def popBlocks_gen32_def bindE_eq_Inr)
  note s1 = popBlocksImpl32_step [OF st I p1]
  show ?thesis
  proof (cases "bs1 = []")
    case False
    then have "bs = bs1" "h' = h1" using pop p1 by (auto simp: popBlocks32_def popBlocks_gen32_def)
    then show ?thesis using s1 by auto
  next
    case True
    obtain ok h2 where p2: "populateFreeList cfg os ?g I h1 = Inr (ok, h2)"
      and rest: "(if \<not> ok then Inr ([], h2) else popBlocksImpl32 cfg ?d I n h2) = Inr (bs, h')"
      using pop p1 True by (auto simp: popBlocks32_def popBlocks_gen32_def bindE_eq_Inr)
    have st1: "class_state32 cfg os A I h1" using s1 by (simp add: class_step32_def)
    obtain new where s2: "class_step32 cfg os A I new new {#} h1 h2" using populateFreeList_step [OF st1 I p2] by blast
    have "class_step32 cfg os A I {#} {#} {#} h h1" using s1 True by simp
    from class_step32_trans [OF this s2] have s12: "class_step32 cfg os A I new new {#} h h2" by simp
    have st2: "class_state32 cfg os A I h2" using s2 by (simp add: class_step32_def)
    show ?thesis
    proof (cases ok)
      case False
      then show ?thesis using rest s12 by auto
    next
      case True
      then have "popBlocksImpl32 cfg ?d I n h2 = Inr (bs, h')" using rest by simp
      note s3 = popBlocksImpl32_step [OF st2 I this]
      from class_step32_trans [OF s12] s3 show ?thesis by fastforce
    qed
  qed
qed

section \<open>All classes as a source of blocks\<close>

definition list_of32 :: "heap32 \<Rightarrow> nat \<Rightarrow> batch_group list" where
  "list_of32 h J = BlockList32 (SizeClassInfoArray h ! J)"

definition addrs_except :: "nat set \<Rightarrow> heap32 \<Rightarrow> uptr multiset" where
  "addrs_except X h = (\<Sum>J \<in> {1 ..< length (SizeClassInfoArray h)} - X. groups_addrs (list_of32 h J))"

definition primary_inv32 :: "primary_config \<Rightarrow> os32 \<Rightarrow> heap32 \<Rightarrow> bool" where
  "primary_inv32 cfg os h \<longleftrightarrow> custody32 cfg os (addrs_except {} h) h
     \<and> (\<forall>J \<in> {1 ..< length (SizeClassInfoArray h)}. groups_ok cfg (list_of32 h J))"

lemma plain_index: "plain_class cfg I \<Longrightarrow> regions_inv cfg h \<Longrightarrow> unat I \<in> {1 ..< length (SizeClassInfoArray h)}"
  by (auto simp: plain_class_def is_class32_def regions_inv_def BatchClassId_def word_less_nat_alt Suc_le_eq unat_gt_0)

lemma list_of32_class: "list_of32 h (unat I) = BlockList32 (getSizeClassInfo I h)"
  by (simp add: list_of32_def getSizeClassInfo_def)

lemma addrs_except_split:
  assumes "plain_class cfg I" "regions_inv cfg h"
  shows "addrs_except {} h = addrs_except {unat I} h + groups_addrs (BlockList32 (getSizeClassInfo I h))"
  using plain_index [OF assms]
  by (simp add: addrs_except_def sum.remove [of _ "unat I"] list_of32_class add.commute)

lemma primary_inv32_state:
  assumes "primary_inv32 cfg os h" "plain_class cfg I"
  shows "class_state32 cfg os (addrs_except {unat I} h) I h"
proof -
  have cu: "custody32 cfg os (addrs_except {} h) h" using assms(1) by (simp add: primary_inv32_def)
  note inv = custody32_regions [OF cu]
  have "groups_ok cfg (list_of32 h (unat I))" using assms(1) plain_index [OF assms(2) inv] by (simp add: primary_inv32_def)
  then show ?thesis using cu
    by (simp add: class_state32_def stored32_def list_of32_class addrs_except_split [OF assms(2) inv])
qed

lemma primary_inv32_step:
  assumes inv: "primary_inv32 cfg os h" and I: "plain_class cfg I"
    and st: "class_state32 cfg os (addrs_except {unat I} h) I h'" and f: "class_frame32 cfg I h h'"
  shows "primary_inv32 cfg os h'"
proof -
  have ri: "regions_inv cfg h" using inv custody32_regions by (auto simp: primary_inv32_def)
  have ri': "regions_inv cfg h'" using st stored32_cfg by (auto simp: class_state32_def)
  have l': "length (SizeClassInfoArray h') = length (SizeClassInfoArray h)" using f by (simp add: class_frame32_def)
  have J: "list_of32 h' J = list_of32 h J" if "J \<in> {1 ..< length (SizeClassInfoArray h)} - {unat I}" for J
  proof -
    have "J < unat (NumClasses (PSizeMap cfg))" using that ri by (simp add: regions_inv_def)
    then have "J < 18446744073709551616" using unat_less_64 [of "NumClasses (PSizeMap cfg)"] by linarith
    then have u: "unat (of_nat J :: uptr) = J" by (intro unat_of_nat_small) simp
    then have "of_nat J \<noteq> I" "of_nat J \<noteq> BatchClassId" using that by (auto simp: BatchClassId_def)
    then have "getSizeClassInfo (of_nat J) h' = getSizeClassInfo (of_nat J) h" using f by (simp add: class_frame32_def)
    then show ?thesis by (simp add: getSizeClassInfo_def list_of32_def u)
  qed
  have "addrs_except {unat I} h' = addrs_except {unat I} h"
    unfolding addrs_except_def l' using J by (intro sum.cong) auto
  then have "custody32 cfg os (addrs_except {} h') h'"
    using st by (simp add: class_state32_def stored32_def addrs_except_split [OF I ri'])
  moreover have "groups_ok cfg (list_of32 h' J)" if "J \<in> {1 ..< length (SizeClassInfoArray h')}" for J
  proof (cases "J = unat I")
    case True
    then show ?thesis using st by (simp add: list_of32_class class_state32_def stored32_def)
  next
    case False
    then show ?thesis using that J [of J] inv by (simp add: l' primary_inv32_def)
  qed
  ultimately show ?thesis by (simp add: primary_inv32_def)
qed

lemma free32_class: "primary_inv32 cfg os h \<Longrightarrow> plain_class cfg I \<Longrightarrow> free32 I h = list_blocks32 I h"
proof -
  assume "primary_inv32 cfg os h" "plain_class cfg I"
  from primary_inv32_state [OF this] have "groups_ok cfg (BlockList32 (getSizeClassInfo I h))"
    by (simp add: class_state32_def stored32_def)
  from groups_blocks32_listed [OF this] show ?thesis by (simp add: free32_def)
qed

lemma class_frame32_blocks:
  "class_frame32 cfg I h h' \<Longrightarrow> plain_class cfg J \<Longrightarrow> get_class J h' = get_class J h
    \<and> (J \<noteq> I \<longrightarrow> free32 J h' = free32 J h \<and> carved32 cfg J h' = carved32 cfg J h)"
  by (simp add: class_frame32_def plain_class_def free32_def)

lemma step_class32:
  assumes inv: "primary_inv32 cfg os h" and I: "plain_class cfg I"
    and s: "class_step32 cfg os (addrs_except {unat I} h) I new inn out h h'"
  shows "primary_inv32 cfg os h'" "class_frame32 cfg I h h'" "carved32 cfg I h' = carved32 cfg I h + new"
    "free32 I h + inn = free32 I h' + out"
proof -
  show f: "class_frame32 cfg I h h'" and "carved32 cfg I h' = carved32 cfg I h + new"
    using s by (simp_all add: class_step32_def)
  show inv': "primary_inv32 cfg os h'" by (rule primary_inv32_step [OF inv I _ f]) (use s in \<open>simp add: class_step32_def\<close>)
  show "free32 I h + inn = free32 I h' + out"
    using s by (simp add: class_step32_def free32_class [OF inv I] free32_class [OF inv' I])
qed

lemma pop_class32:
  assumes inv: "primary_inv32 cfg os h" and I: "plain_class cfg I" and pop: "popBlocks32 cfg os I n h = Inr (bs, h')"
  shows "primary_inv32 cfg os h'" and "class_frame32 cfg I h h'" and "length bs \<le> unat n"
    and "\<exists>new. carved32 cfg I h' = carved32 cfg I h + new \<and> free32 I h + new = free32 I h' + mset bs"
  using popBlocks32_step [OF primary_inv32_state [OF inv I] I pop] step_class32 [OF inv I] by blast+

lemma push_class32:
  assumes inv: "primary_inv32 cfg os h" and I: "plain_class cfg I" and push: "pushBlocks32 cfg os I Xs h = Inr (Ys, h')"
  shows "primary_inv32 cfg os h'" and "class_frame32 cfg I h h'" and "mset Ys = mset Xs"
    and "carved32 cfg I h' = carved32 cfg I h" and "free32 I h' = free32 I h + mset Xs"
proof -
  have s: "class_step32 cfg os (addrs_except {unat I} h) I {#} (mset Xs) {#} h h'" "mset Ys = mset Xs"
    using pushBlocks32_step [OF primary_inv32_state [OF inv I] I push] by blast+
  note k = step_class32 [OF inv I s(1)]
  show "primary_inv32 cfg os h'" "class_frame32 cfg I h h'" "mset Ys = mset Xs" by (fact k s)+
  show "carved32 cfg I h' = carved32 cfg I h" "free32 I h' = free32 I h + mset Xs" using k(3,4) by simp_all
qed

lemma primary_inv32_upd: "plain_class cfg I \<Longrightarrow> primary_inv32 cfg os (upd_class I f h) = primary_inv32 cfg os h"
  "primary_inv32 cfg os (upd_stats g h) = primary_inv32 cfg os h"
proof -
  assume "plain_class cfg I"
  then have "get_class BatchClassId (upd_class I f h) = get_class BatchClassId h"
    by (auto simp: plain_class_def get_class_def upd_class_def nth_list_update word_unat_eq_iff)
  then show "primary_inv32 cfg os (upd_class I f h) = primary_inv32 cfg os h"
    by (simp add: primary_inv32_def custody32_iff addrs_except_def list_of32_def cached_def)
qed (simp add: primary_inv32_def custody32_iff addrs_except_def list_of32_def cached_def)

definition class_count32 :: "primary_config \<Rightarrow> uptr \<Rightarrow> u16" where
  "class_count32 cfg I = getMaxCached (PSizeMap cfg) (getSizeByClassId32 cfg I)"

interpretation nc32: block_source "popBlocks32 cfg os" "pushBlocks32 cfg os" compactPtr32 "plain_class cfg"
  "\<lambda>I. 2 * class_count32 cfg I" "primary_inv32 cfg os" free32 "carved32 cfg" for cfg os
proof (unfold_locales, goal_cases)
  case (1 c I n bs c')
  then show ?case by (rule pop_class32(1))
next
  case (2 c I n bs c')
  then show ?case by (rule pop_class32(4))
next
  case (3 c I bs c')
  then show ?case by (rule pop_class32(3))
next
  case (4 c I n bs c' J)
  then show ?case by (intro class_frame32_blocks pop_class32(2) [OF 4(1-3)])
next
  case (5 c I n bs c')
  then show ?case using pop_class32(2) [OF 5(1-3)] by (simp add: class_frame32_def)
next
  case (6 c I xs ys c')
  then show ?case using push_class32(1) by blast
next
  case (7 c I xs ys c')
  then show ?case using push_class32(3-5) [OF 7(1,2,5)] by simp
next
  case (8 c I xs ys c' J)
  then show ?case by (intro class_frame32_blocks push_class32(2) [OF 8(1,2,5)])
next
  case (9 c I xs ys c')
  then show ?case using push_class32(2) [OF 9(1,2,5)] by (simp add: class_frame32_def)
qed (simp_all add: primary_inv32_upd compactPtr32_def)

end
