(* ===== verification/Primary32Life.thy ===== *)
theory Primary32Life
  imports Primary32Safe Primary32Release
begin

text \<open>
  The 32-bit primary as its clients see it. \<open>run32\<close> is a step relation: allocations, deallocations of
  live blocks and releases of pages, in any order, by a thread with its cache. In every state that is
  reached from \<open>init32\<close>, live blocks are mapped and do not overlap, and what the allocator has mapped is
  what its byte map and its stash account for; \<open>unmapTestOnly32\<close> returns all of it.
\<close>

unbundle bit_operations_syntax

section \<open>Where blocks are\<close>

definition block_bytes32 :: "primary_config \<Rightarrow> uptr \<Rightarrow> uptr \<Rightarrow> nat set" where
  "block_bytes32 cfg I P = {unat P ..< unat P + block_size32 cfg I}"

lemma blocks_in_le:
  assumes "primary32_ok cfg" "is_class32 cfg I" "sci_ok cfg I Map s"
  shows "blocks_in cfg I s i * block_size32 cfg I \<le> 2 ^ RegionSizeLog cfg"
proof (cases "CurrentRegion s \<noteq> 0 \<and> CurrentRegion s = region_at cfg i")
  case True
  then have d: "block_size32 cfg I dvd unat (CurrentRegionAllocated s)"
    and le: "unat (CurrentRegionAllocated s) + block_size32 cfg I \<le> 2 ^ RegionSizeLog cfg"
    using assms(3) by (auto simp: sci_ok_def split: if_splits)
  have "blocks_in cfg I s i * block_size32 cfg I = unat (CurrentRegionAllocated s)"
    by (simp only: blocks_in_def if_P [OF True] dvd_div_mult_self [OF d])
  then show ?thesis using le by linarith
next
  case False
  then have "blocks_in cfg I s i = 2 ^ RegionSizeLog cfg div block_size32 cfg I" by (auto simp: blocks_in_def)
  then show ?thesis by simp
qed

lemma nth_block32_place:
  assumes cfg: "primary32_ok cfg" and i: "region_index cfg i"
    and k: "k < n" "n * block_size32 cfg I \<le> 2 ^ RegionSizeLog cfg"
  shows "unat (nth_block32 cfg I i k) = unat (region_at cfg i) + k * block_size32 cfg I"
    and "block_bytes32 cfg I (nth_block32 cfg I i k) \<subseteq> area cfg i"
proof -
  let ?S = "block_size32 cfg I" and ?L = "(2::nat) ^ RegionSizeLog cfg"
  have "Suc k * ?S \<le> n * ?S" using k(1) by (intro mult_le_mono1) simp
  then have kS: "k * ?S + ?S \<le> ?L" using k(2) by simp
  have "unat i * ?L + ?L \<le> 2 ^ 47" using region_index_bound [OF cfg i] by (simp add: algebra_simps)
  then have b: "unat (region_at cfg i) + ?L \<le> 2 ^ 47" by (simp only: unat_region_at [OF cfg i])
  have "of_nat k * getSizeByClassId32 cfg I = (of_nat (k * ?S) :: uptr)" by (simp add: block_size32_def)
  moreover have "unat (of_nat (k * ?S) :: uptr) = k * ?S" using kS b by (intro unat_of_nat_small) simp
  ultimately show u: "unat (nth_block32 cfg I i k) = unat (region_at cfg i) + k * ?S"
    unfolding nth_block32_def using kS b by (subst unat_add_small) simp_all
  show "block_bytes32 cfg I (nth_block32 cfg I i k) \<subseteq> area cfg i"
    using kS by (auto simp: block_bytes32_def u area_range [OF cfg i])
qed

lemma carved32E:
  assumes cfg: "primary32_ok cfg" and I: "is_class32 cfg I" and inv: "regions_inv cfg h" and b: "b \<in># carved32 cfg I h"
  obtains i k where "region_index cfg i" "PossibleRegions h i = class_byte I" "b = nth_block32 cfg I i k"
    "k < blocks_in cfg I (getSizeClassInfo I h) i"
    "blocks_in cfg I (getSizeClassInfo I h) i * block_size32 cfg I \<le> 2 ^ RegionSizeLog cfg"
proof -
  let ?R = "{i. PossibleRegions h i = class_byte I}"
  have "b \<in> (\<Union>i \<in> ?R. set_mset (region_blocks32 cfg I (getSizeClassInfo I h) i))"
    using b by (simp add: carved32_def set_mset_sum)
  then obtain i where i: "PossibleRegions h i = class_byte I" "b \<in># region_blocks32 cfg I (getSizeClassInfo I h) i" by blast
  have "region_index cfg i" using i(1) class_byte_nonzero [OF cfg I] inv by (simp add: regions_inv_def)
  moreover have "sci_ok cfg I (PossibleRegions h) (getSizeClassInfo I h)" using inv I by (simp add: regions_inv_def)
  ultimately show thesis using that i blocks_in_le [OF cfg I] by (auto simp: region_blocks32_def)
qed

text \<open>Different blocks have different bytes, whatever their classes.\<close>

lemma carved32_disjoint:
  assumes cfg: "primary32_ok cfg" and inv: "regions_inv cfg h"
    and b: "is_class32 cfg I" "b \<in># carved32 cfg I h" and c: "is_class32 cfg J" "c \<in># carved32 cfg J h"
    and ne: "I \<noteq> J \<or> b \<noteq> c"
  shows "block_bytes32 cfg I b \<inter> block_bytes32 cfg J c = {}"
proof -
  obtain i k where i: "region_index cfg i" "PossibleRegions h i = class_byte I" "b = nth_block32 cfg I i k"
    "k < blocks_in cfg I (getSizeClassInfo I h) i" "blocks_in cfg I (getSizeClassInfo I h) i * block_size32 cfg I \<le> 2 ^ RegionSizeLog cfg"
    using carved32E [OF cfg b(1) inv b(2)] .
  obtain j l where j: "region_index cfg j" "PossibleRegions h j = class_byte J" "c = nth_block32 cfg J j l"
    "l < blocks_in cfg J (getSizeClassInfo J h) j" "blocks_in cfg J (getSizeClassInfo J h) j * block_size32 cfg J \<le> 2 ^ RegionSizeLog cfg"
    using carved32E [OF cfg c(1) inv c(2)] .
  note pi = nth_block32_place [OF cfg i(1) i(4,5)] and pj = nth_block32_place [OF cfg j(1) j(4,5)]
  show ?thesis
  proof (cases "i = j")
    case False
    then show ?thesis using pi(2) pj(2) i(3) j(3) area_disjoint [of i j cfg] by blast
  next
    case True
    then have "I = J" using i(2) j(2) class_byte_inj [OF cfg b(1) c(1)] by simp
    then have "k \<noteq> l" using ne True i(3) j(3) by auto
    then consider "Suc k \<le> l" | "Suc l \<le> k" by linarith
    then have "Suc k * block_size32 cfg I \<le> l * block_size32 cfg I \<or> Suc l * block_size32 cfg I \<le> k * block_size32 cfg I"
      by cases (use mult_le_mono1 in blast)+
    then show ?thesis using pi(1) pj(1) True \<open>I = J\<close> i(3) j(3) by (auto simp: block_bytes32_def)
  qed
qed

lemma carved32_once:
  assumes cfg: "primary32_ok cfg" and I: "is_class32 cfg I" and inv: "regions_inv cfg h"
  shows "count (carved32 cfg I h) b \<le> 1"
proof -
  let ?R = "{i. PossibleRegions h i = class_byte I}" and ?s = "getSizeClassInfo I h"
  have S: "0 < block_size32 cfg I" using block_size32_bounds(1) [OF cfg I] by linarith
  have ix: "region_index cfg i" if "i \<in> ?R" for i
    using that class_byte_nonzero [OF cfg I] inv by (simp add: regions_inv_def)
  have le: "blocks_in cfg I ?s i * block_size32 cfg I \<le> 2 ^ RegionSizeLog cfg" for i
    using blocks_in_le [OF cfg I] inv I by (auto simp: regions_inv_def)
  have at: "unat b = unat (region_at cfg i) + k * block_size32 cfg I \<and> unat b \<in> area cfg i"
    if "i \<in> ?R" "b = nth_block32 cfg I i k" "k < blocks_in cfg I ?s i" for i k
    using nth_block32_place [OF cfg ix [OF that(1)] that(3) le] that(2) S by (auto simp: block_bytes32_def)
  have one: "count (region_blocks32 cfg I ?s i) b \<le> 1" if "i \<in> ?R" for i
  proof -
    have "inj_on (nth_block32 cfg I i) (set [0 ..< blocks_in cfg I ?s i])"
    proof (rule inj_onI)
      fix k l assume "k \<in> set [0 ..< blocks_in cfg I ?s i]" "l \<in> set [0 ..< blocks_in cfg I ?s i]"
        and eq: "nth_block32 cfg I i k = nth_block32 cfg I i l"
      then have "k < blocks_in cfg I ?s i" "l < blocks_in cfg I ?s i" by simp_all
      then have "k * block_size32 cfg I = l * block_size32 cfg I"
        using nth_block32_place(1) [OF cfg ix [OF that] _ le] eq by (metis add_left_cancel)
      then show "k = l" using S by simp
    qed
    then show ?thesis unfolding region_blocks32_def
      by (metis distinct_count_atmost_1 distinct_map distinct_upt le_refl zero_le)
  qed
  have mem: "b \<in># region_blocks32 cfg I ?s i \<Longrightarrow> i \<in> ?R \<Longrightarrow> unat b \<in> area cfg i" for i
  proof -
    assume i: "b \<in># region_blocks32 cfg I ?s i" "i \<in> ?R"
    then obtain k where "b = nth_block32 cfg I i k" "k < blocks_in cfg I ?s i" by (auto simp: region_blocks32_def)
    then show "unat b \<in> area cfg i" using at [OF i(2)] by blast
  qed
  have c: "count (carved32 cfg I h) b = (\<Sum>i \<in> ?R. count (region_blocks32 cfg I ?s i) b)"
    by (simp add: carved32_def count_sum)
  show ?thesis
  proof (cases "\<exists>i \<in> ?R. b \<in># region_blocks32 cfg I ?s i")
    case True
    then obtain i where i: "i \<in> ?R" "b \<in># region_blocks32 cfg I ?s i" by blast
    have "count (region_blocks32 cfg I ?s j) b = 0" if "j \<in> ?R - {i}" for j
      using mem [OF i(2,1)] mem [of j] that area_disjoint [of j i cfg] by (auto simp: count_eq_zero_iff)
    then have "(\<Sum>j \<in> ?R. count (region_blocks32 cfg I ?s j) b) = count (region_blocks32 cfg I ?s i) b"
      using i(1) by (simp add: sum.remove [of ?R i])
    then show ?thesis using c one [OF i(1)] by simp
  next
    case False
    then have "(\<Sum>i \<in> ?R. count (region_blocks32 cfg I ?s i) b) = 0" by (intro sum.neutral) (simp add: not_in_iff)
    then show ?thesis using c by simp
  qed
qed

lemma carved32_mapped:
  assumes "primary32_ok cfg" "is_class32 cfg I" "regions_inv cfg h" "b \<in># carved32 cfg I h"
  shows "block_bytes32 cfg I b \<subseteq> mapped_by (MapCalls h)"
proof -
  obtain i k where i: "region_index cfg i" "PossibleRegions h i = class_byte I" "b = nth_block32 cfg I i k"
    "k < blocks_in cfg I (getSizeClassInfo I h) i" "blocks_in cfg I (getSizeClassInfo I h) i * block_size32 cfg I \<le> 2 ^ RegionSizeLog cfg"
    using carved32E [OF assms] .
  then have "block_bytes32 cfg I b \<subseteq> area cfg i" using nth_block32_place(2) [OF assms(1) i(1) i(4,5)] by simp
  moreover have "area cfg i \<subseteq> mapped_by (MapCalls h)"
    using i(2) class_byte_nonzero [OF assms(1,2)] by (intro known_mapped [OF assms(3)]) simp
  ultimately show ?thesis by blast
qed

section \<open>The life of the primary\<close>

definition heap32_ok :: "primary_config \<Rightarrow> os32 \<Rightarrow> heap32 \<Rightarrow> bool" where
  "heap32_ok cfg os h \<longleftrightarrow> primary_inv32 cfg os h \<and> (\<forall>I. plain_class cfg I \<longrightarrow> unat I < length (PerClassArray h)
     \<and> class_ok (get_class I h) \<and> MaxCount (get_class I h) = 2 * class_count32 cfg I)"

definition live32 :: "primary_config \<Rightarrow> (uptr \<Rightarrow> uptr multiset) \<Rightarrow> heap32 \<Rightarrow> bool" where
  "live32 cfg L h \<longleftrightarrow> (\<forall>I. plain_class cfg I \<longrightarrow> carved32 cfg I h = free32 I h + cached I h + L I)"

lemma heap32_cache: "heap32_ok cfg os h = nc32.cache_inv cfg os h" "live32 cfg L h = nc32.owned cfg L h"
  by (simp_all add: heap32_ok_def live32_def nc32.cache_inv_def nc32.owned_def)

lemma heap32_okD:
  assumes "heap32_ok cfg os h"
  shows "primary32_ok cfg" "fresh_os os" "regions_inv cfg h"
proof -
  have "custody32 cfg os (addrs_except {} h) h" using assms by (simp add: heap32_ok_def primary_inv32_def)
  then show "primary32_ok cfg" "fresh_os os" "regions_inv cfg h" by (simp_all add: custody32_iff batch_inv32_def)
qed

lemma live_carved: "live32 cfg L h \<Longrightarrow> plain_class cfg I \<Longrightarrow> P \<in># L I \<Longrightarrow> P \<in># carved32 cfg I h"
  by (simp add: live32_def)

lemma allocate32:
  assumes "heap32_ok cfg os h" "live32 cfg L h" "plain_class cfg I" "sca32_allocate cfg os I h = Inr (r, h')"
  shows "heap32_ok cfg os h' \<and> (case r of None \<Rightarrow> live32 cfg L h' | Some P \<Rightarrow> live32 cfg (L(I := add_mset P (L I))) h')"
  using nc32.allocate_spec [of cfg os h I L decompactPtr32 r h'] assms
  by (auto simp: heap32_cache sca32_allocate_def decompactPtr32_def split: option.splits)

lemma deallocate32:
  assumes "heap32_ok cfg os h" "live32 cfg L h" "plain_class cfg I" "P \<in># L I"
    "sca32_deallocate cfg os I P h = Inr (drain, h')"
  shows "heap32_ok cfg os h' \<and> live32 cfg (L(I := L I - {#P#})) h'"
  using nc32.deallocate_spec [of cfg os h I L P "PSizeMap cfg" drain h'] assms
  by (simp add: heap32_cache sca32_deallocate_def compactPtr32_def)

section \<open>Initialisation\<close>

lemma seed_classes_ok:
  "length (seed_classes cfg T Seed n) = n
    \<and> (\<forall>s \<in> set (seed_classes cfg T Seed n). BlockList32 s = [] \<and> CurrentRegion s = 0 \<and> CurrentRegionAllocated s = 0)"
  by (induction n arbitrary: Seed) (auto simp: empty_sci_def split: prod.splits)

lemma new_class_ok32:
  assumes "primary32_ok cfg" "is_class32 cfg I"
  shows "class_ok (new_class (PSizeMap cfg) (getSizeByClassId32 cfg) I)"
    and "MaxCount (new_class (PSizeMap cfg) (getSizeByClassId32 cfg) I) = 2 * class_count32 cfg I"
proof -
  let ?m = "getMaxCached (PSizeMap cfg) (getSizeByClassId32 cfg I)"
  have le: "unat ?m \<le> unat (MaxNumCachedHint (PSizeMap cfg))"
    by (simp add: getMaxCached_def min_def word_le_nat_alt)
  moreover have "unat (MaxNumCachedHint (PSizeMap cfg)) < 2 ^ 14"
    using assms(1) by (simp add: primary32_ok_def MaxNumBlocksInBatch_def)
  ultimately have "unat (2 * ?m) = 2 * unat ?m" by (simp add: unat_mult_small)
  then show "class_ok (new_class (PSizeMap cfg) (getSizeByClassId32 cfg) I)"
    using le block_size32_bounds(3) [OF assms] by (simp add: class_ok_def new_class_def word_le_nat_alt)
  show "MaxCount (new_class (PSizeMap cfg) (getSizeByClassId32 cfg) I) = 2 * class_count32 cfg I"
    by (simp add: new_class_def class_count32_def)
qed

text \<open>The allocator's object before: the cache as its initialisation leaves it, and no mapping.\<close>

definition before_init32 :: "primary_config \<Rightarrow> heap32 \<Rightarrow> bool" where
  "before_init32 cfg h \<longleftrightarrow> MapCalls h = []
     \<and> PerClassArray h = PerClassArray (cache_init (PSizeMap cfg) (getSizeByClassId32 cfg))"

lemma init32_ok:
  assumes cfg: "primary32_ok cfg" and os: "fresh_os os" and h: "before_init32 cfg h"
  shows "heap32_ok cfg os (init32 cfg os Seed Interval h)" "live32 cfg (\<lambda>_. {#}) (init32 cfg os Seed Interval h)"
proof -
  let ?h = "init32 cfg os Seed Interval h" and ?n = "unat (NumClasses (PSizeMap cfg))"
  define ss where "ss = seed_classes cfg (os32_now os) Seed ?n"
  have f: "SizeClassInfoArray ?h = ss" "PossibleRegions ?h = (\<lambda>_. 0)" "RegionsStash ?h = []"
    "MapCalls ?h = MapCalls h" "PerClassArray ?h = PerClassArray h"
    by (simp_all add: init32_def setOption32_def ss_def bytemap_init_def Let_def)
  have ss: "length ss = ?n" "\<And>s. s \<in> set ss \<Longrightarrow> BlockList32 s = [] \<and> CurrentRegion s = 0 \<and> CurrentRegionAllocated s = 0"
    using seed_classes_ok by (auto simp: ss_def)
  have sci: "BlockList32 (getSizeClassInfo I ?h) = [] \<and> CurrentRegion (getSizeClassInfo I ?h) = 0
      \<and> CurrentRegionAllocated (getSizeClassInfo I ?h) = 0" if "is_class32 cfg I" for I
    using that by (intro ss(2)) (simp add: getSizeClassInfo_def f ss(1) is_class32_def word_less_nat_alt)
  have nz: "class_byte I \<noteq> 0" if "is_class32 cfg I" for I by (rule class_byte_nonzero [OF cfg that])
  have cls: "get_class I ?h = new_class (PSizeMap cfg) (getSizeByClassId32 cfg) I \<and> unat I < length (PerClassArray ?h)"
    if "is_class32 cfg I" for I
    using that h by (simp add: get_class_def f before_init32_def cache_init_def is_class32_def word_less_nat_alt)
  note B = batch_is_class [OF cfg]
  have B0: "unat BatchClassId = 0" by (simp add: BatchClassId_def)
  have "regions_inv cfg ?h"
    using sci nz h unfolding regions_inv_def
    by (simp add: f ss(1) stash_ok_def known_regions_def before_init32_def sci_ok_def)
  moreover have car: "carved32 cfg I ?h = {#}" if "is_class32 cfg I" for I
    using nz [OF that] by (simp add: carved32_def f)
  moreover have fr: "free32 I ?h = {#}" if "is_class32 cfg I" for I
    using sci [OF that] by (simp add: free32_def)
  moreover have ca: "cached I ?h = {#}" if "is_class32 cfg I" for I
    using cls [OF that] by (simp add: cached_def new_class_def)
  moreover have li: "list_of32 ?h J = []" if "J < ?n" for J
    using that by (simp add: list_of32_def f ss)
  ultimately have "primary_inv32 cfg os ?h"
    using cfg os sci [OF B] cls [OF B] new_class_ok32 [OF cfg B] B0 car [OF B] fr [OF B] ca [OF B]
    by (simp add: primary_inv32_def custody32_iff batch_inv32_def addrs_except_def f(1) ss(1) class_count32_def
        batch_limit32_def)
  then show "heap32_ok cfg os ?h" using cls new_class_ok32 [OF cfg] by (simp add: heap32_ok_def plain_class_def)
  show "live32 cfg (\<lambda>_. {#}) ?h" using car fr ca by (simp add: live32_def plain_class_def)
qed

section \<open>Releasing pages\<close>

text \<open>A release only writes checkpoints into the groups.\<close>

lemma mark_groups32_keeps:
  assumes "mark_groups32 cfg os s B Base T Gs cm = (Gs', cm')"
  shows "groups_addrs Gs' = groups_addrs Gs \<and> listed_blocks Gs' = listed_blocks Gs \<and> groups_ok cfg Gs' = groups_ok cfg Gs"
  using assms
proof (induction Gs arbitrary: Gs' cm)
  case (Cons G Gs)
  obtain m G1 where e: "examine_group32 cfg s B T G = (m, G1)" by fastforce
  then have "G1 = G \<or> (\<exists>b. G1 = G\<lparr>BytesInBGAtLastCheckpoint := b\<rparr>)"
    unfolding examine_group32_def Let_def by (metis prod.inject)
  then have 1: "group_addrs G1 = group_addrs G" "Batches G1 = Batches G" "MaxCachedPerBatch G1 = MaxCachedPerBatch G"
    by (auto simp: group_addrs_def)
  have "\<exists>Hs. Gs' = G1 # Hs \<and> (Hs = Gs \<or> (\<exists>cm. mark_groups32 cfg os s B Base T Gs cm = (Hs, cm')))"
    using Cons.prems by (auto simp: e Let_def simp del: split_paired_Ex split: if_splits prod.splits)
  then obtain Hs where "Gs' = G1 # Hs" "groups_addrs Hs = groups_addrs Gs" "listed_blocks Hs = listed_blocks Gs"
    "groups_ok cfg Hs = groups_ok cfg Gs" using Cons.IH by blast
  then show ?case using 1 by simp
qed simp

definition same_lists :: "primary_config \<Rightarrow> size_class_info \<Rightarrow> size_class_info \<Rightarrow> bool" where
  "same_lists cfg s s' \<longleftrightarrow> same_carving s s' \<and> groups_addrs (BlockList32 s') = groups_addrs (BlockList32 s)
     \<and> listed_blocks (BlockList32 s') = listed_blocks (BlockList32 s)
     \<and> groups_ok cfg (BlockList32 s') = groups_ok cfg (BlockList32 s)"

lemma same_lists_fields: "same_carving s s' \<Longrightarrow> BlockList32 s' = BlockList32 s \<Longrightarrow> same_lists cfg s s'"
  by (simp add: same_lists_def)

lemma same_lists_trans: "same_lists cfg s s1 \<Longrightarrow> same_lists cfg s1 s2 \<Longrightarrow> same_lists cfg s s2"
  by (auto simp: same_lists_def intro: same_carving_trans)

lemma hasChance32_keeps:
  assumes "hasChanceToReleasePages32 cfg ms Now B n T s = (c, s')"
  shows "same_lists cfg s s'"
proof -
  have "s' = s \<or> s' = s\<lparr>BytesInFreeListAtLastCheckpoint32 := n\<rparr>"
    using assms unfolding hasChanceToReleasePages32_def Let_def by (auto split: if_splits)
  then show ?thesis by (auto intro!: same_lists_fields simp: same_carving_def)
qed

lemma markFreeBlocks32_keeps:
  assumes "markFreeBlocks32 cfg os s B Base n T Mask = (C, Mask', s')"
  shows "same_lists cfg s s'"
proof -
  obtain Gs c m where g: "mark_groups32 cfg os s B Base T (BlockList32 s)
      (PageReleaseContext_init (PPageSizeLog cfg) B n (RegionSize cfg) 0, Mask) = (Gs, c, m)"
    by (metis prod_cases3)
  then have "s' = s\<lparr>BlockList32 := Gs\<rparr>" using assms by (simp add: markFreeBlocks32_def Let_def)
  then show ?thesis using mark_groups32_keeps [OF g] by (simp add: same_lists_def same_carving_def)
qed

lemma upd_sci_twice [simp]: "upd_sci I (\<lambda>_. s2) (upd_sci I (\<lambda>_. s1) h) = upd_sci I (\<lambda>_. s2) h"
  by (simp add: upd_sci_def)

lemma release32_sci:
  assumes "releaseToOSMaybe32 cfg os I T (h, Mask) = (n, cs, h', Mask')"
  shows "h' = h \<or> (\<exists>s'. h' = upd_sci I (\<lambda>_. s') h \<and> same_lists cfg (getSizeClassInfo I h) s')"
proof (cases "bytes_in_free_list (getSizeByClassId32 cfg I) (getSizeClassInfo I h) = 0")
  case True
  then show ?thesis using assms by (simp add: releaseToOSMaybe32_def)
next
  case False
  let ?B = "getSizeByClassId32 cfg I" and ?s = "getSizeClassInfo I h"
  let ?n = "bytes_in_free_list ?B ?s"
  obtain c s1 where h1: "(if T \<noteq> ReleaseForceAll
      then hasChanceToReleasePages32 cfg (ReleaseToOsIntervalMs32 h) (os32_now os) ?B ?n T ?s else (True, ?s)) = (c, s1)"
    by fastforce
  then have k1: "same_lists cfg ?s s1"
    using hasChance32_keeps by (auto split: if_splits intro: same_lists_fields)
  show ?thesis
  proof (cases c)
    case False
    then have "h' = upd_sci I (\<lambda>_. s1) h"
      using assms \<open>?n \<noteq> 0\<close> unfolding releaseToOSMaybe32_def Let_def prod.case h1 by simp
    then show ?thesis using k1 by blast
  next
    case True
    let ?s2 = "s1\<lparr>NumReleasesAttempted32 := NumReleasesAttempted32 s1 + 1\<rparr>"
    obtain C M s3 where m: "markFreeBlocks32 cfg os ?s2 ?B (MinRegionIndex s1 * RegionSize cfg)
        (MaxRegionIndex s1 - MinRegionIndex s1 + 1) T Mask = (C, M, s3)" by (metis prod_cases3)
    have "same_lists cfg s1 ?s2" by (intro same_lists_fields) (simp_all add: same_carving_def)
    then have k3: "same_lists cfg ?s s3"
      using same_lists_trans [OF same_lists_trans [OF k1] markFreeBlocks32_keeps [OF m]] by blast
    have "\<exists>s4. h' = upd_sci I (\<lambda>_. s4) h \<and> (\<exists>a b c. s4 = s3 \<or> s4 = s3\<lparr>LastReleaseAtNs32 := c\<rparr>
        \<or> s4 = s3\<lparr>BytesInFreeListAtLastCheckpoint32 := a, LastReleasedBytes32 := b, LastReleaseAtNs32 := c\<rparr>)"
      using assms \<open>?n \<noteq> 0\<close> True unfolding releaseToOSMaybe32_def Let_def prod.case h1
      by (auto simp: m split: if_splits prod.splits)
    then obtain s4 where s4: "h' = upd_sci I (\<lambda>_. s4) h" "same_lists cfg s3 s4"
    proof (elim exE conjE disjE)
      fix s4 a b c
      assume h': "h' = upd_sci I (\<lambda>_. s4) h"
      { assume "s4 = s3"
        then show ?thesis using h' by (intro that [of s4]) (simp_all add: same_lists_def) }
      { assume "s4 = s3\<lparr>LastReleaseAtNs32 := c\<rparr>"
        then show ?thesis using h' by (intro that [of s4]) (simp_all add: same_lists_def same_carving_def) }
      { assume "s4 = s3\<lparr>BytesInFreeListAtLastCheckpoint32 := a, LastReleasedBytes32 := b, LastReleaseAtNs32 := c\<rparr>"
        then show ?thesis using h' by (intro that [of s4]) (simp_all add: same_lists_def same_carving_def) }
    qed
    then show ?thesis using same_lists_trans [OF k3] by blast
  qed
qed

lemma release32_ok:
  assumes ok: "heap32_ok cfg os h" "live32 cfg L h" and I: "plain_class cfg I"
    and r: "releaseToOSMaybe32 cfg os I T (h, Mask) = (n, cs, h', Mask')"
  shows "heap32_ok cfg os h' \<and> live32 cfg L h'"
proof (cases "h' = h")
  case True
  then show ?thesis using ok by simp
next
  case False
  then obtain s' where h': "h' = upd_sci I (\<lambda>_. s') h" and k: "same_lists cfg (getSizeClassInfo I h) s'"
    using release32_sci [OF r] by blast
  have inv: "primary_inv32 cfg os h" using ok(1) by (simp add: heap32_ok_def)
  have c: "is_class32 cfg I" "I \<noteq> BatchClassId" using I by (simp_all add: plain_class_def)
  note ri = heap32_okD(3) [OF ok(1)]
  note ix = sci_index [OF ri c(1)]
  have eq: "upd_sci I (\<lambda>_. s') h = upd_sci I (\<lambda>s. if s = getSizeClassInfo I h then s' else s) h"
    by (simp add: upd_sci_def getSizeClassInfo_def)
  have st: "class_state32 cfg os (addrs_except {unat I} h) I h" by (rule primary_inv32_state [OF inv I])
  have s: "class_step32 cfg os (addrs_except {unat I} h) I {#} {#} {#} h h'"
    unfolding h' eq
    by (rule class_step32_fields(1)) (use st k I in \<open>auto simp: class_state32_def stored32_def same_lists_def\<close>)
  note q = step_class32 [OF inv I s]
  have "PerClassArray h' = PerClassArray h" by (simp add: h')
  then have g: "get_class J h' = get_class J h" for J by (simp add: get_class_def)
  have "free32 J h' = free32 J h \<and> carved32 cfg J h' = carved32 cfg J h" if "plain_class cfg J" for J
    using class_frame32_blocks [OF q(2) that] q(3,4) by (cases "J = I") simp_all
  then show ?thesis using ok q(1) \<open>PerClassArray h' = PerClassArray h\<close>
    by (simp add: heap32_ok_def live32_def cached_def g)
qed

section \<open>Runs\<close>

inductive run32 :: "primary_config \<Rightarrow> os32 \<Rightarrow> (uptr \<Rightarrow> uptr multiset) \<times> heap32 \<Rightarrow> (uptr \<Rightarrow> uptr multiset) \<times> heap32 \<Rightarrow> bool"
  for cfg os where
  run_allocate: "plain_class cfg I \<Longrightarrow> sca32_allocate cfg os I h = Inr (Some P, h') \<Longrightarrow>
    run32 cfg os (L, h) (L(I := add_mset P (L I)), h')"
| run_exhausted: "plain_class cfg I \<Longrightarrow> sca32_allocate cfg os I h = Inr (None, h') \<Longrightarrow> run32 cfg os (L, h) (L, h')"
| run_deallocate: "plain_class cfg I \<Longrightarrow> P \<in># L I \<Longrightarrow> sca32_deallocate cfg os I P h = Inr (drain, h') \<Longrightarrow>
    run32 cfg os (L, h) (L(I := L I - {#P#}), h')"
| run_release: "plain_class cfg I \<Longrightarrow> tryReleaseToOS32 cfg os I T (h, Mask) = (n, cs, h', Mask') \<Longrightarrow>
    run32 cfg os (L, h) (L, h')"

lemma run32_keeps:
  assumes "run32 cfg os (L, h) (L', h')" "heap32_ok cfg os h" "live32 cfg L h"
  shows "heap32_ok cfg os h' \<and> live32 cfg L' h'"
  using assms(1)
proof cases
  case (run_allocate I P)
  then show ?thesis using allocate32 [OF assms(2,3), of I "Some P" h'] by simp
next
  case (run_exhausted I)
  then show ?thesis using allocate32 [OF assms(2,3), of I None h'] by simp
next
  case (run_deallocate I P drain)
  then show ?thesis using deallocate32 [OF assms(2,3)] by simp
next
  case (run_release I T Mask n cs Mask')
  then show ?thesis using release32_ok [OF assms(2,3)] by (simp add: tryReleaseToOS32_def)
qed

lemma run32_reachable:
  assumes "(run32 cfg os)\<^sup>*\<^sup>* ((\<lambda>_. {#}), init32 cfg os Seed Interval h0) (L, h)"
    and "primary32_ok cfg" "fresh_os os" "before_init32 cfg h0"
  shows "heap32_ok cfg os h \<and> live32 cfg L h"
  using assms(1)
proof (induction "(L, h)" arbitrary: L h rule: rtranclp_induct)
  case base
  then show ?case using init32_ok [OF assms(2-4)] by simp
next
  case (step s)
  then show ?case using run32_keeps by (cases s) blast
qed

end
