(* ===== verification/Primary32Walk.thy ===== *)
theory Primary32Walk
  imports Primary32Life PrimaryLife
begin

text \<open>
  The walks of the 32-bit primary over its regions: \<^verbatim>\<open>iterateOverBlocks\<close> and \<^verbatim>\<open>unmapTestOnly\<close> go from the
  lowest to the highest region of all classes and look each up in the byte map. They miss no region.
  The theory ends with the properties of the 32-bit primary and a run of a small configuration.
\<close>

unbundle bit_operations_syntax

section \<open>The range of regions\<close>

lemma region_bounds_fold:
  "fold (\<lambda>s (Mi, Ma). (if MinRegionIndex s < Mi then MinRegionIndex s else Mi,
      if MaxRegionIndex s > Ma then MaxRegionIndex s else Ma)) ss (a, b) = (Mi, Ma) \<Longrightarrow>
    Mi \<le> a \<and> b \<le> Ma \<and> (\<forall>s \<in> set ss. Mi \<le> MinRegionIndex s \<and> MaxRegionIndex s \<le> Ma)"
  by (induction ss arbitrary: a b) (force split: if_splits)+

definition walked :: "primary_config \<Rightarrow> heap32 \<Rightarrow> uptr list" where
  "walked cfg h = (let (Mi, Ma) = region_bounds cfg (SizeClassInfoArray h) in map of_nat [unat Mi ..< Suc (unat Ma)])"

lemma walked_distinct: "distinct (walked cfg h)"
proof -
  obtain Mi Ma where r: "region_bounds cfg (SizeClassInfoArray h) = (Mi, Ma)" by fastforce
  have "n < 2 ^ LENGTH(64)" if "n < Suc (unat Ma)" for n
  proof -
    have "unat Ma < 18446744073709551616" by (rule unat_less_64)
    then have "n < 18446744073709551616" using that by linarith
    then show ?thesis by simp
  qed
  then have "inj_on (of_nat :: nat \<Rightarrow> uptr) (set [unat Mi ..< Suc (unat Ma)])"
    by (intro inj_onI) (metis atLeastLessThan_iff set_upt unat_of_nat_small)
  then show ?thesis by (simp add: walked_def r distinct_map)
qed

lemma walked_complete:
  assumes inv: "regions_inv cfg h" and i: "PossibleRegions h i \<noteq> 0"
  shows "i \<in> set (walked cfg h)"
proof -
  obtain Mi Ma where r: "region_bounds cfg (SizeClassInfoArray h) = (Mi, Ma)" by fastforce
  obtain I where I: "is_class32 cfg I" "PossibleRegions h i = class_byte I" using inv i by (auto simp: regions_inv_def)
  have "getSizeClassInfo I h \<in> set (SizeClassInfoArray h)" using sci_index [OF inv I(1)] by (simp add: getSizeClassInfo_def)
  then have b: "Mi \<le> MinRegionIndex (getSizeClassInfo I h)" "MaxRegionIndex (getSizeClassInfo I h) \<le> Ma"
    using region_bounds_fold [OF r [unfolded region_bounds_def]] by blast+
  have "MinRegionIndex (getSizeClassInfo I h) \<le> i \<and> i \<le> MaxRegionIndex (getSizeClassInfo I h)"
    using inv I by (simp add: regions_inv_def sci_ok_def)
  then have "unat i \<in> set [unat Mi ..< Suc (unat Ma)]" using b by (auto simp: word_le_nat_alt)
  then have "of_nat (unat i) \<in> set (walked cfg h)" unfolding walked_def r by (simp only: prod.case Let_def set_map imageI)
  then show ?thesis by simp
qed

lemma class_byte_class:
  assumes "primary32_ok cfg" "is_class32 cfg I"
  shows "ucast ((ucast (class_byte I) :: u32) - 1) = I"
proof -
  have u: "unat (class_byte I) = unat I + 1" by (rule unat_class_byte [OF assms])
  then have "unat (ucast (class_byte I) :: u32) = unat I + 1" by (simp add: unat_ucast_up)
  then have "unat ((ucast (class_byte I) :: u32) - 1) = unat I" by (subst unat_sub) (simp_all add: word_le_nat_alt)
  then have "unat (ucast ((ucast (class_byte I) :: u32) - 1) :: uptr) = unat I" by (simp add: unat_ucast_up)
  then show ?thesis by (simp only: word_unat_eq_iff)
qed

lemma region_mult: "I * RegionSize cfg = region_at cfg I"
  by (simp add: RegionSize_power region_at_def push_bit_eq_mult)

section \<open>Iterating over blocks\<close>

lemma block_walk_run:
  assumes "0 < unat S" "unat B + n * unat S < 2 ^ 64"
  shows "block_walk S B (B + of_nat n * S) = Some (map (\<lambda>k. B + of_nat k * S) [0 ..< n])"
  using assms(2)
proof (induction n arbitrary: B)
  case 0
  then show ?case by (subst block_walk.simps) simp
next
  case (Suc n)
  have le: "unat B + unat S + n * unat S < 2 ^ LENGTH(64)" using Suc.prems by simp
  have e: "unat (of_nat (Suc n) * S :: uptr) = Suc n * unat S"
  proof -
    have "of_nat (Suc n) * S = (of_nat (Suc n * unat S) :: uptr)" by (simp add: algebra_simps)
    moreover have "unat (of_nat (Suc n * unat S) :: uptr) = Suc n * unat S"
      using Suc.prems by (intro unat_of_nat_small) simp
    ultimately show ?thesis by simp
  qed
  have "unat (B + of_nat (Suc n) * S) = unat B + Suc n * unat S"
    using Suc.prems by (subst unat_add_small) (simp_all only: e, simp)
  then have lt: "B < B + of_nat (Suc n) * S" using assms(1) by (simp add: word_less_nat_alt)
  have "unat (B + S) = unat B + unat S" using le by (intro unat_add_small) simp
  then have "unat (B + S) + n * unat S < 2 ^ 64" using le by simp
  from Suc.IH [OF this] have ih: "block_walk S (B + S) (B + S + of_nat n * S) = Some (map (\<lambda>k. B + S + of_nat k * S) [0 ..< n])" .
  have t: "B + of_nat (Suc n) * S = B + S + of_nat n * S" by (simp add: algebra_simps)
  have "map (\<lambda>k. B + of_nat k * S) [0 ..< Suc n] = B # map (\<lambda>k. B + S + of_nat k * S) [0 ..< n]"
    by (simp add: upt_conv_Cons map_Suc_upt [symmetric] algebra_simps del: upt_Suc map_Suc_upt)
  then show ?case using lt ih by (subst block_walk.simps) (simp only: t, simp)
qed

lemma region_walk_class:
  assumes cfg: "primary32_ok cfg" and I: "is_class32 cfg I" and i: "region_index cfg i"
  shows "region_walk cfg i (class_byte I) = Some (if I = BatchClassId then []
    else map (nth_block32 cfg I i) [0 ..< 2 ^ RegionSizeLog cfg div block_size32 cfg I])"
proof (cases "I = BatchClassId")
  case True
  then show ?thesis using class_byte_class [OF cfg I] by (simp add: region_walk_def)
next
  case False
  let ?S = "getSizeByClassId32 cfg I" and ?n = "2 ^ RegionSizeLog cfg div block_size32 cfg I"
  have S: "0 < unat ?S" using block_size32_bounds(1) [OF cfg I] by (simp add: block_size32_def)
  have "unat i * 2 ^ RegionSizeLog cfg + 2 ^ RegionSizeLog cfg \<le> 2 ^ 47"
    using region_index_bound [OF cfg i] by (simp only: distrib_right mult_1)
  moreover have "?n * unat ?S \<le> 2 ^ RegionSizeLog cfg" by (simp add: block_size32_def)
  ultimately have lim: "unat (region_at cfg i) + ?n * unat ?S < 2 ^ 64" by (simp add: unat_region_at [OF cfg i])
  have "unat (RegionSize cfg div ?S) = ?n" by (simp add: unat_div unat_RegionSize [OF cfg] block_size32_def)
  then have "of_nat (unat (RegionSize cfg div ?S)) = (of_nat ?n :: uptr)" by (simp only:)
  then have "RegionSize cfg div ?S = of_nat ?n" by simp
  then show ?thesis
    using False class_byte_class [OF cfg I] class_byte_nonzero [OF cfg I] block_walk_run [OF S lim]
    by (simp add: region_walk_def Let_def region_mult nth_block32_def [abs_def])
qed

text \<open>The blocks a walk visits in region \<open>i\<close>.\<close>

definition visited :: "primary_config \<Rightarrow> heap32 \<Rightarrow> uptr \<Rightarrow> uptr list" where
  "visited cfg h i = the (region_walk cfg i (PossibleRegions h i))"

lemma region_walk_visited:
  assumes "primary32_ok cfg" "regions_inv cfg h"
  shows "region_walk cfg i (PossibleRegions h i) = Some (visited cfg h i)"
    and "visited cfg h i \<noteq> [] \<Longrightarrow> \<exists>I. plain_class cfg I \<and> PossibleRegions h i = class_byte I \<and> region_index cfg i
      \<and> visited cfg h i = map (nth_block32 cfg I i) [0 ..< 2 ^ RegionSizeLog cfg div block_size32 cfg I]"
proof -
  consider "PossibleRegions h i = 0"
    | I where "is_class32 cfg I" "PossibleRegions h i = class_byte I" "region_index cfg i"
    using assms(2) unfolding regions_inv_def by blast
  then have "region_walk cfg i (PossibleRegions h i) = Some (visited cfg h i)
    \<and> (visited cfg h i \<noteq> [] \<longrightarrow> (\<exists>I. plain_class cfg I \<and> PossibleRegions h i = class_byte I \<and> region_index cfg i
      \<and> visited cfg h i = map (nth_block32 cfg I i) [0 ..< 2 ^ RegionSizeLog cfg div block_size32 cfg I]))"
  proof cases
    case 1
    then show ?thesis by (simp add: visited_def region_walk_def)
  next
    case 2
    then show ?thesis using region_walk_class [OF assms(1) 2(1,3)]
      by (auto simp: visited_def plain_class_def split: if_splits)
  qed
  then show "region_walk cfg i (PossibleRegions h i) = Some (visited cfg h i)"
    "visited cfg h i \<noteq> [] \<Longrightarrow> \<exists>I. plain_class cfg I \<and> PossibleRegions h i = class_byte I \<and> region_index cfg i
      \<and> visited cfg h i = map (nth_block32 cfg I i) [0 ..< 2 ^ RegionSizeLog cfg div block_size32 cfg I]" by blast+
qed

lemma walk_regions32_visited:
  assumes "primary32_ok cfg" "regions_inv cfg h"
  shows "walk_regions32 cfg (PossibleRegions h) Is = Some (concat (map (visited cfg h) Is))"
  by (induction Is) (simp_all add: bytemap_get_def region_walk_visited(1) [OF assms])

lemma visited_place:
  assumes cfg: "primary32_ok cfg" and inv: "regions_inv cfg h" and P: "P \<in> set (visited cfg h i)"
  shows "unat P \<in> area cfg i"
proof -
  have "visited cfg h i \<noteq> []" using P by auto
  from region_walk_visited(2) [OF cfg inv this] obtain I k where I: "plain_class cfg I" "region_index cfg i"
    and k: "P = nth_block32 cfg I i k" "k < 2 ^ RegionSizeLog cfg div block_size32 cfg I" using P by auto
  have S: "0 < block_size32 cfg I" using block_size32_bounds(1) [OF cfg, of I] I(1) by (simp add: plain_class_def)
  have "2 ^ RegionSizeLog cfg div block_size32 cfg I * block_size32 cfg I \<le> 2 ^ RegionSizeLog cfg" by simp
  from nth_block32_place(2) [OF cfg I(2) k(2) this] S k(1) show ?thesis by (auto simp: block_bytes32_def)
qed

lemma visited_distinct:
  assumes cfg: "primary32_ok cfg" and inv: "regions_inv cfg h"
  shows "distinct (visited cfg h i)"
proof (cases "visited cfg h i = []")
  case False
  from region_walk_visited(2) [OF cfg inv this] obtain I where I: "plain_class cfg I" "region_index cfg i"
    and v: "visited cfg h i = map (nth_block32 cfg I i) [0 ..< 2 ^ RegionSizeLog cfg div block_size32 cfg I]" by blast
  let ?n = "2 ^ RegionSizeLog cfg div block_size32 cfg I"
  have S: "0 < block_size32 cfg I" using block_size32_bounds(1) [OF cfg, of I] I(1) by (simp add: plain_class_def)
  have le: "?n * block_size32 cfg I \<le> 2 ^ RegionSizeLog cfg" by simp
  have "inj_on (nth_block32 cfg I i) (set [0 ..< ?n])"
  proof (rule inj_onI)
    fix k l assume "k \<in> set [0 ..< ?n]" "l \<in> set [0 ..< ?n]" and eq: "nth_block32 cfg I i k = nth_block32 cfg I i l"
    then have kl: "k < ?n" "l < ?n" by simp_all
    have "k * block_size32 cfg I = l * block_size32 cfg I"
      using nth_block32_place(1) [OF cfg I(2) kl(1) le] nth_block32_place(1) [OF cfg I(2) kl(2) le] eq by (simp only: add_left_cancel)
    then show "k = l" using S by simp
  qed
  then show ?thesis by (simp add: v distinct_map)
qed simp

lemma concat_distinct:
  assumes "distinct Is" "\<And>i. distinct (f i)" "\<And>i j x. x \<in> set (f i) \<Longrightarrow> x \<in> set (f j) \<Longrightarrow> i = j"
  shows "distinct (concat (map f Is))"
  using assms(1) by (induction Is) (use assms(2,3) in auto)

text \<open>A walk visits every block that was carved, exactly once, whatever the order of the regions.\<close>

lemma iterate_visits:
  assumes cfg: "primary32_ok cfg" and inv: "regions_inv cfg h"
  shows "\<exists>bs. iterateOverBlocks32 cfg h = Some bs \<and> distinct bs
    \<and> (\<forall>I P. plain_class cfg I \<longrightarrow> P \<in># carved32 cfg I h \<longrightarrow> P \<in> set bs)"
proof (intro exI conjI allI impI)
  show "iterateOverBlocks32 cfg h = Some (concat (map (visited cfg h) (walked cfg h)))"
    by (simp add: iterateOverBlocks32_def walked_def walk_regions32_visited [OF cfg inv] split: prod.splits)
  show "distinct (concat (map (visited cfg h) (walked cfg h)))"
  proof (rule concat_distinct [OF walked_distinct visited_distinct [OF cfg inv]])
    fix i j x assume "x \<in> set (visited cfg h i)" "x \<in> set (visited cfg h j)"
    then show "i = j" using visited_place [OF cfg inv] area_disjoint [of i j cfg] by blast
  qed
  fix I P assume I: "plain_class cfg I" and P: "P \<in># carved32 cfg I h"
  then have c: "is_class32 cfg I" "I \<noteq> BatchClassId" by (simp_all add: plain_class_def)
  obtain i k where i: "region_index cfg i" "PossibleRegions h i = class_byte I" "P = nth_block32 cfg I i k"
    "k < blocks_in cfg I (getSizeClassInfo I h) i" "blocks_in cfg I (getSizeClassInfo I h) i * block_size32 cfg I \<le> 2 ^ RegionSizeLog cfg"
    using carved32E [OF cfg c(1) inv P] .
  have S: "0 < block_size32 cfg I" using block_size32_bounds(1) [OF cfg c(1)] by linarith
  have "blocks_in cfg I (getSizeClassInfo I h) i \<le> 2 ^ RegionSizeLog cfg div block_size32 cfg I"
    using i(5) S by (simp add: less_eq_div_iff_mult_less_eq)
  then have "P \<in> set (visited cfg h i)"
    using i region_walk_class [OF cfg c(1) i(1)] c(2) by (simp add: visited_def)
  moreover have "i \<in> set (walked cfg h)" using i(2) class_byte_nonzero [OF cfg c(1)] by (intro walked_complete [OF inv]) simp
  ultimately show "P \<in> set (concat (map (visited cfg h) (walked cfg h)))" by auto
qed

section \<open>Unmapping\<close>

definition never_fails :: "os32 \<Rightarrow> bool" where
  "never_fails os \<longleftrightarrow> (\<forall>calls a n. os32_unmap os calls a n)"

lemma unmap_region:
  assumes "primary32_ok cfg" "never_fails os" "region_index cfg i"
  shows "\<exists>calls. unmap32 os (region_at cfg i) (RegionSize cfg) h = Inr (h\<lparr>MapCalls := calls\<rparr>)
    \<and> mapped_by calls = mapped_by (MapCalls h) - area cfg i"
  using assms(2) by (auto simp: unmap32_def never_fails_def area_range [OF assms(1,3)] unat_RegionSize [OF assms(1)])

lemma unmap_stash_ok:
  assumes "primary32_ok cfg" "never_fails os" "\<forall>R \<in> set Rs. \<exists>i. region_index cfg i \<and> R = region_at cfg i"
  shows "\<exists>calls. unmap_stash cfg os Rs h = Inr (h\<lparr>MapCalls := calls\<rparr>)
    \<and> mapped_by calls = mapped_by (MapCalls h) - (\<Union>i \<in> {i. region_index cfg i \<and> region_at cfg i \<in> set Rs}. area cfg i)"
  using assms(3)
proof (induction Rs arbitrary: h)
  case Nil
  then show ?case by (simp add: exI [of _ "MapCalls h"])
next
  case (Cons R Rs)
  then obtain i where i: "region_index cfg i" "R = region_at cfg i" by auto
  obtain c1 where 1: "unmap32 os R (RegionSize cfg) h = Inr (h\<lparr>MapCalls := c1\<rparr>)"
    "mapped_by c1 = mapped_by (MapCalls h) - area cfg i"
    using unmap_region [OF assms(1,2) i(1)] i(2) by blast
  obtain c2 where 2: "unmap_stash cfg os Rs (h\<lparr>MapCalls := c1\<rparr>) = Inr (h\<lparr>MapCalls := c2\<rparr>)"
    "mapped_by c2 = mapped_by c1 - (\<Union>i \<in> {i. region_index cfg i \<and> region_at cfg i \<in> set Rs}. area cfg i)"
    using Cons.IH [of "h\<lparr>MapCalls := c1\<rparr>"] Cons.prems by auto
  have "{j. region_index cfg j \<and> region_at cfg j \<in> set (R # Rs)}
      = insert i {j. region_index cfg j \<and> region_at cfg j \<in> set Rs}"
    using i region_at_inj [OF assms(1)] by auto
  then show ?case using 1 2 by (intro exI [of _ c2]) auto
qed

lemma unmap_regions_ok:
  assumes "primary32_ok cfg" "never_fails os" "\<forall>i. PossibleRegions h i \<noteq> 0 \<longrightarrow> region_index cfg i"
  shows "\<exists>calls. unmap_regions cfg os Is h = Inr (h\<lparr>MapCalls := calls\<rparr>)
    \<and> mapped_by calls = mapped_by (MapCalls h) - (\<Union>i \<in> {i \<in> set Is. PossibleRegions h i \<noteq> 0}. area cfg i)"
  using assms(3)
proof (induction Is arbitrary: h)
  case Nil
  then show ?case by (simp add: exI [of _ "MapCalls h"])
next
  case (Cons i Is)
  show ?case
  proof (cases "PossibleRegions h i = 0")
    case True
    obtain c where "unmap_regions cfg os Is h = Inr (h\<lparr>MapCalls := c\<rparr>)"
      "mapped_by c = mapped_by (MapCalls h) - (\<Union>i \<in> {i \<in> set Is. PossibleRegions h i \<noteq> 0}. area cfg i)"
      using Cons.IH [OF Cons.prems] by blast
    then show ?thesis using True by (intro exI [of _ c]) (auto simp: bytemap_get_def)
  next
    case False
    then have "region_index cfg i" using Cons.prems by blast
    from unmap_region [OF assms(1,2) this] obtain c1 where
      1: "unmap32 os (region_at cfg i) (RegionSize cfg) h = Inr (h\<lparr>MapCalls := c1\<rparr>)"
      "mapped_by c1 = mapped_by (MapCalls h) - area cfg i" by blast
    have "\<forall>i. PossibleRegions (h\<lparr>MapCalls := c1\<rparr>) i \<noteq> 0 \<longrightarrow> region_index cfg i" using Cons.prems by simp
    from Cons.IH [OF this] obtain c2 where 2: "unmap_regions cfg os Is (h\<lparr>MapCalls := c1\<rparr>) = Inr (h\<lparr>MapCalls := c2\<rparr>)"
      "mapped_by c2 = mapped_by c1 - (\<Union>i \<in> {i \<in> set Is. PossibleRegions h i \<noteq> 0}. area cfg i)" by auto
    show ?thesis using 1 2 False by (intro exI [of _ c2]) (auto simp: bytemap_get_def region_mult)
  qed
qed

lemma unmapTestOnly32_ok:
  assumes cfg: "primary32_ok cfg" and os: "never_fails os" and inv: "regions_inv cfg h"
  shows "\<exists>h'. unmapTestOnly32 cfg os h = Inr h' \<and> mapped_by (MapCalls h') = {}"
proof -
  have st: "\<forall>R \<in> set (rev (RegionsStash h)). \<exists>i. region_index cfg i \<and> R = region_at cfg i"
    using inv by (auto simp: regions_inv_def stash_ok_def)
  obtain c1 where 1: "unmap_stash cfg os (rev (RegionsStash h)) h = Inr (h\<lparr>MapCalls := c1\<rparr>)"
    "mapped_by c1 = mapped_by (MapCalls h)
      - (\<Union>i \<in> {i. region_index cfg i \<and> region_at cfg i \<in> set (RegionsStash h)}. area cfg i)"
    using unmap_stash_ok [OF cfg os st, of h] by auto
  define h1 where "h1 = h\<lparr>MapCalls := c1, RegionsStash := [], SizeClassInfoArray := map (\<lambda>_. empty_sci) (SizeClassInfoArray h)\<rparr>"
  have "\<forall>i. PossibleRegions h1 i \<noteq> 0 \<longrightarrow> region_index cfg i" using inv by (simp add: h1_def regions_inv_def)
  from unmap_regions_ok [OF cfg os this, of "walked cfg h"] obtain c2 where
    2: "unmap_regions cfg os (walked cfg h) h1 = Inr (h1\<lparr>MapCalls := c2\<rparr>)"
      "mapped_by c2 = mapped_by c1 - (\<Union>i \<in> {i \<in> set (walked cfg h). PossibleRegions h i \<noteq> 0}. area cfg i)"
    by (auto simp: h1_def)
  have "unmapTestOnly32 cfg os h = Inr (h1\<lparr>MapCalls := c2, PossibleRegions := bytemap_init\<rparr>)"
  proof -
    obtain Mi Ma where r: "region_bounds cfg (SizeClassInfoArray h) = (Mi, Ma)" by fastforce
    show ?thesis using 1(1) 2(1) by (simp add: unmapTestOnly32_def walked_def r h1_def Let_def del: upt_Suc)
  qed
  moreover have "mapped_by c2 = {}"
  proof -
    have "{i \<in> set (walked cfg h). PossibleRegions h i \<noteq> 0} = {i. PossibleRegions h i \<noteq> 0}"
      using walked_complete [OF inv] by auto
    moreover have "mapped_by (MapCalls h) = (\<Union>i \<in> known_regions cfg (PossibleRegions h) (RegionsStash h). area cfg i)"
      using inv by (simp add: regions_inv_def)
    ultimately show ?thesis using 1(2) 2(2) by (auto simp: known_regions_def)
  qed
  ultimately show ?thesis by auto
qed

section \<open>Properties\<close>

text \<open>C7: In every state that allocations, deallocations and releases of pages can lead to from
  \<^verbatim>\<open>init\<close>, in any order, a live block of the 32-bit primary has all its bytes in memory that is mapped, it
  is live once, and it overlaps no other live block of any class.\<close>

theorem live_blocks32_disjoint:
  assumes "primary32_ok cfg" "fresh_os os" "before_init32 cfg h0"
    and "(run32 cfg os)\<^sup>*\<^sup>* ((\<lambda>_. {#}), init32 cfg os Seed Interval h0) (L, h)"
    and "plain_class cfg I" "P \<in># L I" "plain_class cfg J" "Q \<in># L J"
  shows "block_bytes32 cfg I P \<subseteq> mapped_by (MapCalls h) \<and> count (L I) P = 1
    \<and> (I \<noteq> J \<or> P \<noteq> Q \<longrightarrow> block_bytes32 cfg I P \<inter> block_bytes32 cfg J Q = {})"
proof -
  have ok: "heap32_ok cfg os h" "live32 cfg L h" using run32_reachable [OF assms(4,1-3)] by blast+
  have I: "is_class32 cfg I" and J: "is_class32 cfg J" using assms(5,7) by (simp_all add: plain_class_def)
  note inv = heap32_okD(3) [OF ok(1)]
  have P: "P \<in># carved32 cfg I h" by (rule live_carved [OF ok(2) assms(5,6)])
  have Q: "Q \<in># carved32 cfg J h" by (rule live_carved [OF ok(2) assms(7,8)])
  have "count (L I) P \<le> count (carved32 cfg I h) P" using ok(2) assms(5) by (simp add: live32_def)
  moreover have "count (carved32 cfg I h) P \<le> 1" by (rule carved32_once [OF assms(1) I inv])
  moreover have "0 < count (L I) P" using assms(6) by simp
  ultimately have "count (L I) P = 1" by linarith
  then show ?thesis using carved32_mapped [OF assms(1) I inv P] carved32_disjoint [OF assms(1) inv I P J Q] by blast
qed

text \<open>C10: In every state the 32-bit primary can reach, \<^verbatim>\<open>iterateOverBlocks\<close> ends; it visits no address
  twice, and every live block.\<close>

theorem iterate32_visits_live_blocks:
  assumes "primary32_ok cfg" "fresh_os os" "before_init32 cfg h0"
    and "(run32 cfg os)\<^sup>*\<^sup>* ((\<lambda>_. {#}), init32 cfg os Seed Interval h0) (L, h)"
  shows "\<exists>bs. iterateOverBlocks32 cfg h = Some bs \<and> distinct bs
    \<and> (\<forall>I P. plain_class cfg I \<longrightarrow> P \<in># L I \<longrightarrow> P \<in> set bs)"
proof -
  have ok: "heap32_ok cfg os h" "live32 cfg L h" using run32_reachable [OF assms(4,1-3)] by blast+
  show ?thesis using iterate_visits [OF assms(1) heap32_okD(3) [OF ok(1)]] live_carved [OF ok(2)] by metis
qed

text \<open>C8: In every state the 32-bit primary can reach, what its calls of the system have left mapped is
  exactly the regions marked in the byte map and those in the stash, none of them twice; and
  \<^verbatim>\<open>unmapTestOnly\<close> unmaps all of it when \<^verbatim>\<open>munmap\<close> does not fail.\<close>

theorem regions32_account_for_mappings:
  assumes "primary32_ok cfg" "fresh_os os" "before_init32 cfg h0"
    and "(run32 cfg os)\<^sup>*\<^sup>* ((\<lambda>_. {#}), init32 cfg os Seed Interval h0) (L, h)"
  shows "mapped_by (MapCalls h)
      = (\<Union>i \<in> {i. PossibleRegions h i \<noteq> 0} \<union> {i. region_index cfg i \<and> region_at cfg i \<in> set (RegionsStash h)}. area cfg i)
    \<and> distinct (RegionsStash h) \<and> (\<forall>i. PossibleRegions h i \<noteq> 0 \<longrightarrow> region_at cfg i \<notin> set (RegionsStash h))
    \<and> (never_fails os \<longrightarrow> (\<exists>h'. unmapTestOnly32 cfg os h = Inr h' \<and> mapped_by (MapCalls h') = {}))"
proof -
  have ok: "heap32_ok cfg os h" using run32_reachable [OF assms(4,1-3)] by blast
  note inv = heap32_okD(3) [OF ok]
  have "region_at cfg i \<notin> set (RegionsStash h)" if "PossibleRegions h i \<noteq> 0" for i
  proof
    assume "region_at cfg i \<in> set (RegionsStash h)"
    then obtain j where "region_index cfg j" "region_at cfg i = region_at cfg j" "PossibleRegions h j = 0"
      using inv by (auto simp: regions_inv_def stash_ok_def)
    moreover have "region_index cfg i" using inv that by (simp add: regions_inv_def)
    ultimately show False using region_at_inj [OF assms(1)] that by blast
  qed
  then show ?thesis using inv unmapTestOnly32_ok [OF assms(1) _ inv]
    by (simp add: regions_inv_def known_regions_def stash_ok_def)
qed

section \<open>An example\<close>

definition small_config32 :: primary_config where
  "small_config32 = small_config\<lparr>GroupSizeLog := 12, PSizeMap := \<lparr>NumBits = 1, MinSizeLog = 6, MidSizeLog = 6,
     MaxSizeLog = 6, MaxNumCachedHint = 2, MaxBytesCachedLog = 6, SizeDelta = 0\<rparr>\<rparr>"

text \<open>A system that maps above everything mapped before, at addresses that are not region-aligned.\<close>

fun call_top :: "map_call list \<Rightarrow> uptr" where
  "call_top [] = 0x10100"
| "call_top (MapCall a n # cs) = max (if a < 0x1000000 \<and> n < 0x1000000 then a + n else 0x10000000) (call_top cs)"
| "call_top (UnmapCall a n # cs) = call_top cs"

definition small_os32 :: os32 where
  "small_os32 = \<lparr>os32_map = (\<lambda>calls n. if call_top calls < 0x1000000 \<and> n < 0x1000000 then Some (call_top calls) else None),
     os32_unmap = (\<lambda>_ _ _. True), os32_map_ok = (\<lambda>_. True), os32_now = 0\<rparr>"

definition small_object32 :: heap32 where
  "small_object32 = \<lparr>PerClassArray = PerClassArray (cache_init (PSizeMap small_config32) (getSizeByClassId32 small_config32)),
     CacheStats = LocalStats_init, SizeClassInfoArray = [], PossibleRegions = (\<lambda>_. 0), ReleaseToOsIntervalMs32 = 0,
     RegionsStash = [], MapCalls = []\<rparr>"

lemma foldl_below_top:
  "call_top calls < 0x1000000 \<Longrightarrow> foldl apply_call M calls \<subseteq> M \<union> {..< unat (call_top calls)}"
proof (induction calls arbitrary: M)
  case (Cons c cs)
  show ?case
  proof (cases c)
    case (MapCall a n)
    have no: "\<not> 0x10000000 \<le> x" if "x < 0x1000000" for x :: uptr
      using that by (simp add: word_less_nat_alt word_le_nat_alt)
    have an: "a < 0x1000000" "n < 0x1000000" "a + n \<le> call_top (c # cs)" "call_top cs \<le> call_top (c # cs)"
      using Cons.prems no by (auto simp: MapCall max_def split: if_splits)
    have "unat (a + n) = unat a + unat n" using an(1,2) by (intro unat_add_small) (simp add: word_less_nat_alt)
    then have le: "unat a + unat n \<le> unat (call_top (c # cs))" "unat (call_top cs) \<le> unat (call_top (c # cs))"
      using an(3,4) by (simp_all add: word_le_nat_alt)
    have "call_top cs < 0x1000000" using an(4) Cons.prems by (rule order.strict_trans1)
    from Cons.IH [OF this, of "M \<union> {unat a ..< unat a + unat n}"]
    have "foldl apply_call M (c # cs) \<subseteq> M \<union> {unat a ..< unat a + unat n} \<union> {..< unat (call_top cs)}"
      by (simp add: MapCall)
    also have "\<dots> \<subseteq> M \<union> {..< unat (call_top (c # cs))}" using le by auto
    finally show ?thesis .
  next
    case (UnmapCall a n)
    show ?thesis using Cons.IH [of "M - {unat a ..< unat a + unat n}"] Cons.prems by (auto simp: UnmapCall)
  qed
qed simp

lemma call_top_pos: "0x10100 \<le> call_top calls"
  by (induction calls rule: call_top.induct) (auto simp: max_def)

lemma small_os32_fresh: "fresh_os small_os32" "never_fails small_os32"
proof -
  show "fresh_os small_os32"
    unfolding fresh_os_def
  proof (intro allI impI)
    fix calls n b assume "os32_map small_os32 calls n = Some b"
    then have b: "b = call_top calls" "call_top calls < 0x1000000" "n < 0x1000000"
      by (auto simp: small_os32_def split: if_splits)
    then show "0 < unat b \<and> unat b + unat n \<le> 2 ^ 47 \<and> {unat b ..< unat b + unat n} \<inter> mapped_by calls = {}"
      using call_top_pos [of calls] foldl_below_top [OF b(2), of "{}"] unfolding mapped_by_def
      by (auto simp: word_less_nat_alt word_le_nat_alt)
  qed
  show "never_fails small_os32" by (simp add: never_fails_def small_os32_def)
qed

lemma small32_values:
  "NumClasses (PSizeMap small_config32) = 2" "getSizeByClassId32 small_config32 0 = 32"
  "getSizeByClassId32 small_config32 1 = 64" "getMaxCached (PSizeMap small_config32) 32 = 2"
  "getMaxCached (PSizeMap small_config32) 64 = 1" "MaxNumBlocksInBatch small_config32 = 2"
  "batch_limit32 small_config32 = 2"
  by code_simp+

lemma small_config32_ok: "primary32_ok small_config32"
proof -
  have s: "(block_size32 small_config32 I = 32 \<or> block_size32 small_config32 I = 64)
      \<and> 1 \<le> getMaxCached (PSizeMap small_config32) (getSizeByClassId32 small_config32 I)"
    if "I < NumClasses (PSizeMap small_config32)" for I
  proof -
    have "I = 0 \<or> I = 1" using that by (auto simp: small32_values word_less_nat_alt word_unat_eq_iff)
    then show ?thesis by (auto simp: block_size32_def small32_values)
  qed
  then have s: "16 \<le> block_size32 small_config32 I \<and> block_size32 small_config32 I \<le> 4096
      \<and> 1 \<le> getMaxCached (PSizeMap small_config32) (getSizeByClassId32 small_config32 I)"
    if "I < NumClasses (PSizeMap small_config32)" for I using that by fastforce
  have "valid_config (PSizeMap small_config32)" by (simp add: valid_config_def sc_S_def small_config32_def)
  then show ?thesis using s small32_values(1,6,7)
    by (simp add: primary32_ok_def) (simp add: small_config32_def small_config_def)
qed

lemma small_before: "before_init32 small_config32 small_object32"
  by (simp add: before_init32_def small_object32_def)

definition small_start :: heap32 where
  "small_start = init32 small_config32 small_os32 7 0 small_object32"

text \<open>The state after initialisation, and two allocations evaluated in it: each takes a block of a region
  that the first call of \<^verbatim>\<open>mmap\<close> gave, with nodes from a region of the batch class.\<close>

definition small_fresh32 :: "s32 \<Rightarrow> u32 \<Rightarrow> u32 \<Rightarrow> heap32" where
  "small_fresh32 F s1 s2 = \<lparr>PerClassArray = [
       \<lparr>Count = 0, MaxCount = 4, ClassSize = 0, Chunks = [0, 0, 0, 0]\<rparr>,
       \<lparr>Count = 0, MaxCount = 2, ClassSize = 64, Chunks = [0, 0, 0, 0]\<rparr>],
     CacheStats = LocalStats_init,
     SizeClassInfoArray = [empty_sci\<lparr>RandState32 := s1, MinRegionIndex := 0x800000000\<rparr>,
       empty_sci\<lparr>RandState32 := s2, MinRegionIndex := 0x800000000\<rparr>],
     PossibleRegions = bytemap_init, ReleaseToOsIntervalMs32 = F, RegionsStash = [], MapCalls = []\<rparr>"

lemma small32_fields: "RegionSize small_config32 = 4096" "NumRegions small_config32 = 0x800000000"
  "RegionSizeLog small_config32 = 12" "GroupSizeLog small_config32 = 12" "MaxNumBatches small_config32 = 1"
  "MaxNumCachedHint (PSizeMap small_config32) = 2"
  by code_simp+

lemma upt_2: "[0 ..< 2] = [0, Suc 0]"
  by (simp add: upt_rec)

lemma small_start_fresh: "\<exists>F s1 s2. small_start = small_fresh32 F s1 s2"
proof -
  obtain r1 S1 where 1: "getRandomU32 7 = (r1, S1)" by fastforce
  obtain r2 S2 where 2: "getRandomU32 S1 = (r2, S2)" by fastforce
  have two: "seed_classes cfg T S 2 = seed_classes cfg T S (Suc (Suc 0))" for cfg T S by (simp add: numeral_2_eq_2)
  have "small_start = small_fresh32 (ReleaseToOsIntervalMs32 small_start) r1 r2"
    by (rule heap32.equality; simp add: small_fresh32_def small_start_def small32_values small_object32_def cache_init_def
        new_class_def init32_def setOption32_def two small_os32_def Let_def upt_2 BatchClassId_def small32_fields 1 2 empty_sci_def;
        simp add: numeral_eq_Suc)
  then show ?thesis by blast
qed

lemmas eval_cache32 = sca32_allocate_def cache_allocate_def refill_def getBatchClassBlock32_def cache_getBatchClassBlock_def
  deallocate_batch_block32_def cache_deallocate_def get_class_def upd_class_def upd_stats_def write_front_def

lemmas eval_lists32 = popBlocks32_def popBlocks_gen32_def popBlocksImpl32_def pop_batch_class32_def pushBlocksImpl32_def
  pushBatchClassBlocks32_def pushBatchClassBlocks_list_def find_or_create_group_def CreateGroup_def insert_at_def
  shuffle_def moveNToArray_def appendFromArray_def getCount_def MinU_def
  decompactPtr32_def compactPtr32_def compactPtrGroupBase32_def

lemmas eval_regions32 = populateFreeList_def current_region_def carve_count_def new_blocks32_def finish_carving_def
  allocateRegion_def allocateRegionSlow_def pop_stash_def mark_region_def unmap32_def computeRegionId_def
  getSizeClassInfo_def upd_sci_def isAligned_def roundUp_def CHECK_def

lemma small_allocates:
  "bindE (sca32_allocate small_config32 small_os32 1 (small_fresh32 F s1 s2)) (\<lambda>(P, h).
     bindE (sca32_allocate small_config32 small_os32 1 h) (\<lambda>(Q, h). Inr (P, Q))) = Inr (Some 0x11000, Some 0x11040)"
  by (simp add: eval_cache32 eval_lists32 eval_regions32 small_fresh32_def empty_sci_def small_os32_def Let_def
      upt_2 small32_values small32_fields BatchClassId_def)

definition small_live :: "uptr \<Rightarrow> uptr multiset" where
  "small_live = (\<lambda>_. {#})(1 := {#0x11040, 0x11000#})"

lemma small_run: "\<exists>h. (run32 small_config32 small_os32)\<^sup>*\<^sup>*
    ((\<lambda>_. {#}), init32 small_config32 small_os32 7 0 small_object32) (small_live, h)"
proof -
  obtain F s1 s2 where f: "init32 small_config32 small_os32 7 0 small_object32 = small_fresh32 F s1 s2"
    using small_start_fresh by (auto simp: small_start_def)
  obtain h1 h2 where a: "sca32_allocate small_config32 small_os32 1 (small_fresh32 F s1 s2) = Inr (Some 0x11000, h1)"
    "sca32_allocate small_config32 small_os32 1 h1 = Inr (Some 0x11040, h2)"
    using small_allocates [of F s1 s2] by (auto simp: bindE_eq_Inr)
  have c: "plain_class small_config32 1" by (simp add: plain_class_def is_class32_def small32_values BatchClassId_def)
  have "run32 small_config32 small_os32 ((\<lambda>_. {#}), small_fresh32 F s1 s2) ((\<lambda>_. {#})(1 := {#0x11000#}), h1)"
    using run_allocate [OF c a(1), of "\<lambda>_. {#}"] by simp
  moreover have "run32 small_config32 small_os32 ((\<lambda>_. {#})(1 := {#0x11000#}), h1) (small_live, h2)"
    using run_allocate [OF c a(2), of "(\<lambda>_. {#})(1 := {#0x11000#})"] by (simp add: small_live_def)
  ultimately show ?thesis unfolding f
    by (meson converse_rtranclp_into_rtranclp rtranclp.rtrancl_refl)
qed

theorem live_blocks32_disjoint_witness:
  "\<exists>h :: heap32. {0x11000 ..< 0x11040} \<subseteq> mapped_by (MapCalls h) \<and> count (small_live 1) 0x11000 = 1
    \<and> {0x11000 ..< 0x11040} \<inter> {0x11040 ..< 0x11080 :: nat} = {}"
proof -
  obtain h where r: "(run32 small_config32 small_os32)\<^sup>*\<^sup>*
      ((\<lambda>_. {#}), init32 small_config32 small_os32 7 0 small_object32) (small_live, h)" using small_run by blast
  have c: "plain_class small_config32 1" by (simp add: plain_class_def is_class32_def small32_values BatchClassId_def)
  have l: "0x11000 \<in># small_live 1" "0x11040 \<in># small_live 1" by (simp_all add: small_live_def)
  show ?thesis
    using live_blocks32_disjoint [OF small_config32_ok small_os32_fresh(1) small_before r c l(1) c l(2)]
    by (auto simp: block_bytes32_def block_size32_def small32_values)
qed

theorem iterate32_visits_live_blocks_witness:
  "\<exists>h bs. iterateOverBlocks32 small_config32 h = Some bs \<and> distinct bs \<and> 0x11000 \<in> set bs \<and> 0x11040 \<in> set bs"
proof -
  obtain h where r: "(run32 small_config32 small_os32)\<^sup>*\<^sup>*
      ((\<lambda>_. {#}), init32 small_config32 small_os32 7 0 small_object32) (small_live, h)" using small_run by blast
  have c: "plain_class small_config32 1" by (simp add: plain_class_def is_class32_def small32_values BatchClassId_def)
  have l: "0x11000 \<in># small_live 1" "0x11040 \<in># small_live 1" by (simp_all add: small_live_def)
  show ?thesis
    using iterate32_visits_live_blocks [OF small_config32_ok small_os32_fresh(1) small_before r] c l by blast
qed

theorem regions32_account_for_mappings_witness:
  "\<exists>h h'. mapped_by (MapCalls h) \<noteq> {} \<and> unmapTestOnly32 small_config32 small_os32 h = Inr h'
    \<and> mapped_by (MapCalls h') = {}"
proof -
  obtain h where r: "(run32 small_config32 small_os32)\<^sup>*\<^sup>*
      ((\<lambda>_. {#}), init32 small_config32 small_os32 7 0 small_object32) (small_live, h)" using small_run by blast
  note t = regions32_account_for_mappings [OF small_config32_ok small_os32_fresh(1) small_before r]
  have ok: "heap32_ok small_config32 small_os32 h" "live32 small_config32 small_live h"
    using run32_reachable [OF r small_config32_ok small_os32_fresh(1) small_before] by blast+
  have c: "plain_class small_config32 1" "is_class32 small_config32 1"
    by (simp_all add: plain_class_def is_class32_def small32_values BatchClassId_def)
  have "0x11000 \<in># carved32 small_config32 1 h"
    by (rule live_carved [OF ok(2) c(1)]) (simp add: small_live_def)
  from carved32_mapped [OF small_config32_ok c(2) heap32_okD(3) [OF ok(1)] this]
  have "mapped_by (MapCalls h) \<noteq> {}" by (auto simp: block_bytes32_def block_size32_def small32_values)
  then show ?thesis using t small_os32_fresh(2) by blast
qed

end
