(* ===== verification/PageCounters.thy ===== *)
theory PageCounters
  imports ReleaseSafety
begin

text \<open>
  The page map of \<open>Release\<close> as an array of numbers. \<open>cnt pm j\<close> is the counter of page \<open>j\<close> of region 0;
  \<open>wf_map\<close> says that the fields which \<^verbatim>\<open>RegionPageMap::reset\<close> computes fit together. Every operation on a
  counter changes that counter alone, as long as it does not exceed the mask.
\<close>

unbundle bit_operations_syntax

section \<open>Well-formed maps\<close>

text \<open>Counters of \<open>2 ^ l\<close> bits, \<open>2 ^ (6 - l)\<close> of them in a word.\<close>

definition wf_map :: "nat \<Rightarrow> page_map \<Rightarrow> bool" where
  "wf_map l pm \<longleftrightarrow> l \<le> 6 \<and> unat (CounterSizeBitsLog pm) = l \<and> CounterMask pm = mask (2 ^ l)
     \<and> unat (PackingRatioLog pm) = 6 - l \<and> BitOffsetMask pm = mask (6 - l)
     \<and> (\<exists>d. BufData (PMBuffer pm) = Some d \<and> unat (NumCounters pm) \<le> length d * 2 ^ (6 - l))
     \<and> \<not> AccessOutside pm"

definition cnt :: "page_map \<Rightarrow> nat \<Rightarrow> nat" where
  "cnt pm j = unat (pm_get pm 0 (of_nat j))"

definition cap :: "page_map \<Rightarrow> nat" where
  "cap pm = unat (CounterMask pm)"

lemma unat_mask_64: "b \<le> 64 \<Longrightarrow> unat (mask b :: uptr) = 2 ^ b - 1"
proof (cases "b = 64")
  case True
  then show ?thesis by (simp add: mask_eq_exp_minus_1 unsigned_minus_1_eq_mask)
next
  case False
  assume "b \<le> 64"
  then show ?thesis using False by (intro unat_mask) simp
qed

lemma power_le_6: "l \<le> 6 \<Longrightarrow> (2::nat) ^ l * 2 ^ (6 - l) = 64"
  by (simp add: power_add [symmetric])

lemma pow_pow_le: "l \<le> 6 \<Longrightarrow> (2::nat) ^ l \<le> 64"
  using power_increasing [of l 6 "2::nat"] by simp

lemma cap_eq: "wf_map l pm \<Longrightarrow> cap pm = 2 ^ 2 ^ l - 1"
  using pow_pow_le [of l] by (simp add: cap_def wf_map_def unat_mask_64)

lemma cap_bound: "wf_map l pm \<Longrightarrow> n \<le> cap pm \<longleftrightarrow> n < 2 ^ 2 ^ l"
  by (simp add: cap_eq Suc_le_eq [symmetric] le_diff_conv2)

lemma cnt_field:
  assumes "wf_map l pm" "j < unat (NumCounters pm)"
  shows "counter_word pm 0 (of_nat j) = j div 2 ^ (6 - l)"
    and "counter_bit pm (of_nat j) = j mod 2 ^ (6 - l) * 2 ^ l"
    and "j div 2 ^ (6 - l) < length (pm_data pm)"
    and "cnt pm j = fld (2 ^ l) (j mod 2 ^ (6 - l)) (unat (pm_data pm ! (j div 2 ^ (6 - l))))"
    and "(j mod 2 ^ (6 - l) + 1) * 2 ^ l \<le> 64"
proof -
  have l: "l \<le> 6" "unat (CounterSizeBitsLog pm) = l" "CounterMask pm = mask (2 ^ l)"
    "unat (PackingRatioLog pm) = 6 - l" "BitOffsetMask pm = mask (6 - l)" using assms(1) by (simp_all add: wf_map_def)
  have "j < 18446744073709551616" using assms(2) unat_less_64 [of "NumCounters pm"] by linarith
  then have u: "unat (of_nat j :: uptr) = j" by (intro unat_of_nat_small) simp
  show w: "counter_word pm 0 (of_nat j) = j div 2 ^ (6 - l)"
    by (simp only: counter_word_def mult_zero_left add_0 l(4) unat_drop_bit u)
  have m: "unat (of_nat j AND mask (6 - l) :: uptr) = j mod 2 ^ (6 - l)" by (simp only: unat_mask_and u)
  have "j mod 2 ^ (6 - l) < 2 ^ (6 - l)" by simp
  then have "(j mod 2 ^ (6 - l) + 1) * 2 ^ l \<le> 2 ^ (6 - l) * 2 ^ l" by (intro mult_le_mono1) linarith
  also have "\<dots> = 64" using power_le_6 [OF l(1)] by (simp add: mult.commute)
  finally show b: "(j mod 2 ^ (6 - l) + 1) * 2 ^ l \<le> 64" .
  then have "j mod 2 ^ (6 - l) * 2 ^ l < 2 ^ 64" by simp
  then have "unat (push_bit l (of_nat j AND mask (6 - l)) :: uptr) = j mod 2 ^ (6 - l) * 2 ^ l"
    by (subst unat_push_bit_small) (simp_all only: m, simp)
  then show bit: "counter_bit pm (of_nat j) = j mod 2 ^ (6 - l) * 2 ^ l"
    by (simp only: counter_bit_def l(2,5))
  have "j < length (pm_data pm) * 2 ^ (6 - l)" using assms by (auto simp: wf_map_def pm_data_def)
  then show "j div 2 ^ (6 - l) < length (pm_data pm)" by (simp add: less_mult_imp_div_less)
  show "cnt pm j = fld (2 ^ l) (j mod 2 ^ (6 - l)) (unat (pm_data pm ! (j div 2 ^ (6 - l))))"
    by (simp only: cnt_def pm_get_def w bit l(3) unat_field)
qed

lemma pm_modify_fields [simp]:
  "NumCounters (pm_modify pm w f) = NumCounters pm" "CounterMask (pm_modify pm w f) = CounterMask pm"
  "cap (pm_modify pm w f) = cap pm" "length (pm_data (pm_modify pm w f)) = length (pm_data pm)"
  by (auto simp: pm_modify_def pm_check_def cap_def pm_data_def split: option.splits)

lemma wf_modify: "wf_map l pm \<Longrightarrow> i < unat (NumCounters pm) \<Longrightarrow> wf_map l (pm_modify pm (counter_word pm 0 (of_nat i)) f)"
  using cnt_field(1,3) [of l pm i] by (auto simp: pm_modify_def pm_check_def wf_map_def pm_data_def split: option.splits)

lemma check_inside: "wf_map l pm \<Longrightarrow> i < unat (NumCounters pm) \<Longrightarrow> pm_check (counter_word pm 0 (of_nat i)) pm = pm"
  using cnt_field(1,3) [of l pm i] by (simp add: pm_check_def wf_map_def)

lemma pm_data_modify: "w < length (pm_data pm) \<Longrightarrow> pm_data (pm_modify pm w f) = (pm_data pm)[w := f (pm_data pm ! w)]"
  by (auto simp: pm_modify_def pm_check_def pm_data_def split: option.splits)

section \<open>Operations on one counter\<close>

text \<open>A change of one field of a word is a change of one counter.\<close>

lemma cnt_modify:
  assumes wf: "wf_map l pm" and i: "i < unat (NumCounters pm)" and j: "j < unat (NumCounters pm)"
    and f: "\<And>c. fld (2 ^ l) c (unat (f (pm_data pm ! (i div 2 ^ (6 - l)))))
      = (if c = i mod 2 ^ (6 - l) then n else fld (2 ^ l) c (unat (pm_data pm ! (i div 2 ^ (6 - l)))))"
  shows "cnt (pm_modify pm (counter_word pm 0 (of_nat i)) f) j = (if j = i then n else cnt pm j)"
proof -
  let ?pm = "pm_modify pm (counter_word pm 0 (of_nat i)) f" and ?q = "(2::nat) ^ (6 - l)"
  note ci = cnt_field [OF wf i] and cj = cnt_field [OF wf j]
  have "wf_map l ?pm" "j < unat (NumCounters ?pm)" using wf_modify [OF wf i] j by simp_all
  note c = cnt_field(4) [OF this]
  have d: "pm_data ?pm = (pm_data pm)[i div ?q := f (pm_data pm ! (i div ?q))]"
    unfolding ci(1) by (rule pm_data_modify [OF ci(3)])
  have eq: "j = i \<longleftrightarrow> j div ?q = i div ?q \<and> j mod ?q = i mod ?q" by (metis div_mult_mod_eq)
  show ?thesis
  proof (cases "j div ?q = i div ?q")
    case True
    then show ?thesis using c d ci(3) cj(4) f [of "j mod ?q"] eq by simp
  next
    case False
    then have "j \<noteq> i" by blast
    then show ?thesis using c d cj(4) False by simp
  qed
qed

lemma incN_counter:
  assumes wf: "wf_map l pm" and i: "i < unat (NumCounters pm)" and le: "cnt pm i + unat n \<le> cap pm"
  shows "wf_map l (pm_incN 0 (of_nat i) n pm)" "NumCounters (pm_incN 0 (of_nat i) n pm) = NumCounters pm"
    "cap (pm_incN 0 (of_nat i) n pm) = cap pm"
    "j < unat (NumCounters pm) \<Longrightarrow> cnt (pm_incN 0 (of_nat i) n pm) j = cnt pm j + (if j = i then unat n else 0)"
proof -
  show "wf_map l (pm_incN 0 (of_nat i) n pm)" "NumCounters (pm_incN 0 (of_nat i) n pm) = NumCounters pm"
    "cap (pm_incN 0 (of_nat i) n pm) = cap pm"
    using wf_modify [OF wf i] by (simp_all add: pm_incN_def)
  note c = cnt_field [OF wf i]
  assume j: "j < unat (NumCounters pm)"
  have "fld (2 ^ l) (i mod 2 ^ (6 - l)) (unat (pm_data pm ! (i div 2 ^ (6 - l)))) + unat n < 2 ^ 2 ^ l"
    using le by (simp add: cap_bound [OF wf] c(4))
  from field_add_word [OF this c(5)]
  have "cnt (pm_incN 0 (of_nat i) n pm) j = (if j = i then cnt pm i + unat n else cnt pm j)"
    unfolding pm_incN_def c(2) by (intro cnt_modify [OF wf i j]) (simp add: c(4))
  then show "cnt (pm_incN 0 (of_nat i) n pm) j = cnt pm j + (if j = i then unat n else 0)" by simp
qed

lemma inc_incN: "pm_inc R I pm = pm_incN R I 1 pm"
  by (simp add: pm_inc_def pm_incN_def)

lemma set_counter:
  assumes wf: "wf_map l pm" and i: "i < unat (NumCounters pm)"
  shows "wf_map l (setAsAllCounted 0 (of_nat i) pm)" "NumCounters (setAsAllCounted 0 (of_nat i) pm) = NumCounters pm"
    "cap (setAsAllCounted 0 (of_nat i) pm) = cap pm"
    "j < unat (NumCounters pm) \<Longrightarrow> cnt (setAsAllCounted 0 (of_nat i) pm) j = (if j = i then cap pm else cnt pm j)"
proof -
  show "wf_map l (setAsAllCounted 0 (of_nat i) pm)" "NumCounters (setAsAllCounted 0 (of_nat i) pm) = NumCounters pm"
    "cap (setAsAllCounted 0 (of_nat i) pm) = cap pm"
    using wf_modify [OF wf i] by (simp_all add: setAsAllCounted_def)
  note c = cnt_field [OF wf i]
  assume j: "j < unat (NumCounters pm)"
  have m: "CounterMask pm = mask (2 ^ l)" using wf by (simp add: wf_map_def)
  show "cnt (setAsAllCounted 0 (of_nat i) pm) j = (if j = i then cap pm else cnt pm j)"
    unfolding setAsAllCounted_def c(2) m
    by (intro cnt_modify [OF wf i j]) (simp add: field_or_word [OF c(5)] cap_eq [OF wf])
qed

section \<open>Ranges of counters\<close>

text \<open>Adding one to every counter of a range.\<close>

lemma inc_list:
  assumes "wf_map l pm" "distinct Is" "\<forall>i \<in> set Is. i < unat (NumCounters pm) \<and> cnt pm i < cap pm"
  defines "pm' \<equiv> fold (\<lambda>I. pm_inc 0 (of_nat I)) Is pm"
  shows "wf_map l pm' \<and> NumCounters pm' = NumCounters pm \<and> cap pm' = cap pm
    \<and> (\<forall>j < unat (NumCounters pm). cnt pm' j = cnt pm j + (if j \<in> set Is then 1 else 0))"
  using assms(1-3) unfolding pm'_def
proof (induction Is arbitrary: pm)
  case (Cons i Is)
  have i: "i < unat (NumCounters pm)" "cnt pm i + unat (1 :: uptr) \<le> cap pm" using Cons.prems(3) by simp_all
  let ?pm = "pm_inc 0 (of_nat i) pm"
  note c = incN_counter [OF Cons.prems(1) i, folded inc_incN]
  have k: "\<forall>k \<in> set Is. k < unat (NumCounters ?pm) \<and> cnt ?pm k < cap ?pm"
    using Cons.prems(2,3) c(2-4) by (auto split: if_splits)
  have d: "distinct Is" "i \<notin> set Is" using Cons.prems(2) by simp_all
  note ih = Cons.IH [OF c(1) d(1) k, unfolded c(2,3)]
  have "cnt ?pm j + (if j \<in> set Is then 1 else 0) = cnt pm j + (if j \<in> set (i # Is) then 1 else 0)"
    if "j < unat (NumCounters pm)" for j using c(4) [OF that] d(2) by auto
  with ih show ?case by simp
qed simp

lemma incRange_counter:
  assumes wf: "wf_map l pm" and T: "unat T < 2 ^ 64 - 1"
    and le: "\<And>i. unat F \<le> i \<Longrightarrow> i \<le> unat T \<Longrightarrow> i < unat (NumCounters pm) \<Longrightarrow> cnt pm i < cap pm"
  defines "pm' \<equiv> pm_incRange 0 F T pm"
  shows "wf_map l pm' \<and> NumCounters pm' = NumCounters pm \<and> cap pm' = cap pm
    \<and> (\<forall>j < unat (NumCounters pm). cnt pm' j = cnt pm j + (if unat F \<le> j \<and> j \<le> unat T then 1 else 0))"
proof -
  have "unat (T + 1) = unat T + 1" using T by (subst unat_add_small) simp_all
  then have top: "unat (MinU (T + 1) (NumCounters pm)) = min (unat T + 1) (unat (NumCounters pm))"
    by (simp add: MinU_min min_def word_le_nat_alt)
  let ?Is = "[unat F ..< min (unat T + 1) (unat (NumCounters pm))]"
  have "\<forall>i \<in> set ?Is. i < unat (NumCounters pm) \<and> cnt pm i < cap pm" using le by auto
  note r = inc_list [OF wf distinct_upt this]
  have "pm' = fold (\<lambda>I. pm_inc 0 (of_nat I)) ?Is pm" by (simp only: pm'_def pm_incRange_def Let_def top)
  then show ?thesis using r by (simp add: less_Suc_eq_le del: upt_Suc)
qed

lemma set_list:
  assumes "wf_map l pm" "\<forall>i \<in> set Is. i < unat (NumCounters pm)"
  defines "pm' \<equiv> fold (\<lambda>I. setAsAllCounted 0 (of_nat I)) Is pm"
  shows "wf_map l pm' \<and> NumCounters pm' = NumCounters pm \<and> cap pm' = cap pm
    \<and> (\<forall>j < unat (NumCounters pm). cnt pm' j = (if j \<in> set Is then cap pm else cnt pm j))"
  using assms(1,2) unfolding pm'_def
proof (induction Is arbitrary: pm)
  case (Cons i Is)
  have i: "i < unat (NumCounters pm)" using Cons.prems(2) by simp
  note c = set_counter [OF Cons.prems(1) i]
  have "\<forall>k \<in> set Is. k < unat (NumCounters (setAsAllCounted 0 (of_nat i) pm))" using Cons.prems(2) c(2) by simp
  from Cons.IH [OF c(1) this] c(2-4) show ?case by auto
qed simp

lemma setRange_counter:
  fixes F T :: uptr
  assumes wf: "wf_map l pm" and T: "unat T < 2 ^ 64 - 1"
  defines "pm' \<equiv> setAsAllCountedRange 0 F T pm"
  shows "wf_map l pm' \<and> NumCounters pm' = NumCounters pm \<and> cap pm' = cap pm
    \<and> (\<forall>j < unat (NumCounters pm). cnt pm' j = (if unat F \<le> j \<and> j \<le> unat T then cap pm else cnt pm j))"
proof -
  have "unat (T + 1) = unat T + 1" using T by (subst unat_add_small) simp_all
  then have top: "unat (MinU (T + 1) (NumCounters pm)) = min (unat T + 1) (unat (NumCounters pm))"
    by (simp add: MinU_min min_def word_le_nat_alt)
  let ?Is = "[unat F ..< min (unat T + 1) (unat (NumCounters pm))]"
  have "\<forall>i \<in> set ?Is. i < unat (NumCounters pm)" by auto
  note r = set_list [OF wf this]
  have "pm' = fold (\<lambda>I. setAsAllCounted 0 (of_nat I)) ?Is pm" by (simp only: pm'_def setAsAllCountedRange_def Let_def top)
  then show ?thesis using r by (simp add: less_Suc_eq_le del: upt_Suc)
qed

section \<open>A new map\<close>

text \<open>The map \<^verbatim>\<open>reset\<close> makes for \<open>N\<close> counters that are to hold \<open>Max\<close>: when there is memory for it, it is
  well-formed, zero, and has room for the maximum.\<close>

lemma counter_size:
  assumes "V \<noteq> 0"
  obtains l where "l \<le> 6" "roundUpPowerOfTwo (getMostSignificantSetBitIndex V + 1) = 2 ^ l" "unat V < 2 ^ 2 ^ l"
proof -
  let ?m = "msb_nat (unat V)" and ?n = "getMostSignificantSetBitIndex V + 1"
  have m: "unat V < 2 ^ Suc ?m" "?m < 64" using msb_nat_bounds [of "unat V"] assms msb_nat_less_64 [of V] by (auto simp: unat_gt_0)
  have n: "unat ?n = Suc ?m" using m(2) by (subst unat_add_small) (simp_all add: unat_getMostSignificantSetBitIndex)
  have "?n \<noteq> 0" "unat ?n \<le> 2 ^ 63" using n m(2) by (auto simp flip: unat_eq_0)
  note r = roundUpPowerOfTwo_least [OF this]
  obtain l where l: "roundUpPowerOfTwo ?n = 2 ^ l" "unat (2 ^ l :: uptr) = 2 ^ l" "l < 64"
    using r by (auto simp: isPowerOfTwo_iff unat_power_of_2)
  have "isPowerOfTwo (2 ^ 6)" "?n \<le> 2 ^ 6" using n m(2) by (simp_all add: word_le_nat_alt isPowerOfTwo_def)
  then have "roundUpPowerOfTwo ?n \<le> 2 ^ 6" using r by blast
  then have "(2::nat) ^ l \<le> 2 ^ 6" using l by (simp add: word_le_nat_alt)
  then have "l \<le> 6" by (rule power_le_imp_le_exp [rotated]) simp
  moreover have "Suc ?m \<le> 2 ^ l" using r n l by (simp add: word_le_nat_alt)
  then have "unat V < 2 ^ 2 ^ l" using m(1) power_increasing [of "Suc ?m" "2 ^ l" "2::nat"] by linarith
  ultimately show thesis using that l(1) by blast
qed

lemma drop_bit_ones: "n \<le> 64 \<Longrightarrow> drop_bit (64 - n) (NOT 0 :: uptr) = mask n"
  by (rule bit_word_eqI) (auto simp: bit_simps)

lemma getBuffer_data:
  assumes "BufData (fst (getBuffer map_ok (push_bit s 1) N M)) = Some d" "s < 32" "unat N < 2 ^ 48"
  shows "d = replicate (length d) 0" "unat N \<le> length d"
proof -
  have dyn: "e = replicate (length e) 0 \<and> unat N \<le> length e"
    if e: "BufData (getDynamicBuffer map_ok (push_bit s 1) N) = Some e" for e
  proof -
    have u: "unat (N * 8) = unat N * 8" using assms(3) by (subst unat_mult_small) simp_all
    have "unat (push_bit s 1 :: uptr) = 2 ^ s" using assms(2) by (intro unat_push_bit_1) simp
    moreover have "(2::nat) ^ s \<le> 2 ^ 32" using assms(2) by (intro power_increasing) simp_all
    ultimately have "N * 8 \<le> roundUp (N * 8) (push_bit s 1)"
      using roundUp_least [of "push_bit s 1" "N * 8"] assms(2,3) isPowerOfTwo_power [of s] u by (simp add: push_bit_of_1)
    then have "unat N * 8 \<le> unat (roundUp (N * 8) (push_bit s 1))" by (simp add: word_le_nat_alt u)
    then have "unat N \<le> unat (roundUp (N * 8) (push_bit s 1)) div 8" by (simp add: less_eq_div_iff_mult_less_eq)
    then have "unat N \<le> unat (roundUp (N * 8) (push_bit s 1) div 8)" by (simp add: unat_div)
    then show ?thesis using e by (auto simp: getDynamicBuffer_def no_buffer_def Let_def split: if_splits)
  qed
  have "d = replicate (length d) 0 \<and> unat N \<le> length d"
    using assms(1) dyn by (auto simp: getBuffer_def Let_def StaticBufferNumElements_def not_less word_le_nat_alt split: if_splits)
  then show "d = replicate (length d) 0" "unat N \<le> length d" by blast+
qed

lemma fld_zero [simp]: "fld b c 0 = 0"
  by (simp add: fld_def)

lemma reset_map:
  assumes r: "page_map_reset map_ok (push_bit s 1) 1 N V M = (pm, M')" and al: "isAllocated pm"
    and V: "V \<noteq> 0" and s: "s < 32" and N: "unat N \<le> 2 ^ 47"
  shows "\<exists>l. wf_map l pm" "NumCounters pm = N" "unat V \<le> cap pm" "j < unat N \<Longrightarrow> cnt pm j = 0"
proof -
  obtain l where l: "l \<le> 6" "roundUpPowerOfTwo (getMostSignificantSetBitIndex V + 1) = 2 ^ l" "unat V < 2 ^ 2 ^ l"
    using counter_size [OF V] .
  have l64: "unat (2 ^ l :: uptr) = 2 ^ l" using l(1) by (intro unat_power_of_2) simp
  have log: "unat (getLog2 (2 ^ l)) = l" using l(1) by (intro unat_getLog2) simp
  have ratio: "drop_bit l 64 = (2 ^ (6 - l) :: uptr)"
  proof -
    have "unat (drop_bit l 64 :: uptr) = 2 ^ (6 - l)" using power_diff [of "2::nat" l 6] l(1) by (simp add: unat_drop_bit)
    moreover have "unat (2 ^ (6 - l) :: uptr) = 2 ^ (6 - l)" by (intro unat_power_of_2) simp
    ultimately show ?thesis by (simp add: word_unat_eq_iff)
  qed
  have rlog: "unat (getLog2 (2 ^ (6 - l))) = 6 - l" by (intro unat_getLog2) simp
  define per where "per = drop_bit (6 - l) (roundUp N (push_bit (6 - l) 1))"
  have per: "unat N \<le> unat per * 2 ^ (6 - l)" "unat per < 2 ^ 48"
  proof -
    have le: "(2::nat) ^ (6 - l) \<le> 2 ^ 6" by (intro power_increasing) simp_all
    have "unat (roundUp N (push_bit (6 - l) 1)) = (unat N + 2 ^ (6 - l) - 1) div 2 ^ (6 - l) * 2 ^ (6 - l)"
      using N le by (intro unat_roundUp) (simp_all add: push_bit_of_1)
    then have u: "unat per = ceil_div (unat N) (2 ^ (6 - l))"
      by (simp add: per_def unat_drop_bit ceil_div_def)
    note b = ceil_div_bounds [of "2 ^ (6 - l)" "unat N"]
    show "unat N \<le> unat per * 2 ^ (6 - l)" using b u by simp
    have "unat per \<le> unat per * 2 ^ (6 - l)" by simp
    moreover have "unat per * 2 ^ (6 - l) < unat N + 2 ^ (6 - l)" using b u by simp
    moreover have "unat N \<le> 140737488355328" "(2::nat) ^ (6 - l) \<le> 64" using N le by simp_all
    ultimately have "unat per < 281474976710656" by linarith
    then show "unat per < 2 ^ 48" by simp
  qed
  obtain Buf where Buf: "getBuffer map_ok (push_bit s 1) per M = (Buf, M')"
    and pm: "pm = \<lparr>Regions = 1, NumCounters = N, CounterSizeBitsLog = getLog2 (2 ^ l),
           CounterMask = drop_bit (unat (64 - 2 ^ l :: uptr)) (NOT 0), PackingRatioLog = getLog2 (2 ^ (6 - l)),
           BitOffsetMask = 2 ^ (6 - l) - 1, SizePerRegion = per, BufferNumElements = per, PMBuffer = Buf, AccessOutside = False\<rparr>"
    using r by (auto simp: page_map_reset_def Let_def l(2) log ratio rlog per_def split: prod.splits)
  have "unat (64 - 2 ^ l :: uptr) = 64 - 2 ^ l"
    using pow_pow_le [OF l(1)] l64 by (subst unat_sub) (simp_all add: word_le_nat_alt)
  then have m: "CounterMask pm = mask (2 ^ l)" using drop_bit_ones [OF pow_pow_le [OF l(1)]] by (simp only: pm page_map.simps)
  obtain d where d: "BufData Buf = Some d" using al by (auto simp: isAllocated_def pm)
  have "BufData (fst (getBuffer map_ok (push_bit s 1) per M)) = Some d" by (simp only: Buf d fst_conv)
  from getBuffer_data [OF this s per(2)] have z: "d = replicate (length d) 0" and len: "unat per \<le> length d" .
  have "unat per * 2 ^ (6 - l) \<le> length d * 2 ^ (6 - l)" using len by (rule mult_le_mono1)
  then have "unat N \<le> length d * 2 ^ (6 - l)" using per(1) by linarith
  then have wf: "wf_map l pm" using l(1) log rlog m d by (simp add: wf_map_def pm power_minus_1_mask)
  then show "\<exists>l. wf_map l pm" by blast
  show "NumCounters pm = N" by (simp add: pm)
  then show "j < unat N \<Longrightarrow> cnt pm j = 0"
    using cnt_field(3,4) [OF wf, of j] z d by (simp add: pm_data_def pm) (metis nth_replicate unat_0 fld_zero)
  show "unat V \<le> cap pm" using l(3) by (simp add: cap_bound [OF wf])
qed

end
