(* ===== verification/ReleasePages.thy ===== *)
theory ReleasePages
  imports PageCounters
begin

text \<open>
  Which pages \<open>Release\<close> gives back. \<open>tally c F\<close> says that the counters of the context \<open>c\<close> stand for the
  set \<open>F\<close> of free blocks: marking blocks adds them to the set, and \<^verbatim>\<open>releaseFreeMemoryToOS\<close> releases
  exactly the pages all of whose blocks are in the set.
\<close>

unbundle bit_operations_syntax

section \<open>How many blocks are on a page\<close>

lemma blocks_on_card:
  "0 < B \<Longrightarrow> 0 < P \<Longrightarrow> card (blocks_on B x P) = ceil_div (x + P) B - x div B"
  by (simp add: blocks_on_interval)

lemma finite_blocks_on [simp]: "0 < B \<Longrightarrow> 0 < P \<Longrightarrow> finite (blocks_on B x P)"
  by (simp add: blocks_on_interval)

lemma ceil_div_mult: "0 < B \<Longrightarrow> ceil_div (m * B) B = m"
  by (rule ceil_div_unique) simp_all

lemma ceil_div_add: "0 < B \<Longrightarrow> ceil_div (m * B + a) B = m + ceil_div a B"
proof (rule ceil_div_unique)
  assume B: "0 < B"
  note b = ceil_div_bounds [OF B, of a]
  show "m * B + a \<le> (m + ceil_div a B) * B" "(m + ceil_div a B) * B < m * B + a + B"
    using b unfolding add_mult_distrib by linarith+
qed

lemma ceil_div_Suc: "0 < m \<Longrightarrow> ceil_div (Suc j) m = Suc (j div m)"
proof (rule ceil_div_unique)
  assume m: "0 < m"
  have "j div m * m \<le> j" "j < j div m * m + m" using div_mult_bounds [OF m, of j] by blast+
  then show "Suc j \<le> Suc (j div m) * m" "Suc (j div m) * m < Suc j + m" unfolding mult_Suc by linarith+
qed

lemma ceil_div_scale: "0 < m \<Longrightarrow> 0 < r \<Longrightarrow> ceil_div (j * r) (m * r) = ceil_div j m"
proof (rule ceil_div_unique)
  assume a: "0 < m" "0 < r"
  note b = ceil_div_bounds [OF a(1), of j]
  show "0 < m * r" using a by simp
  have "j * r \<le> ceil_div j m * m * r" using b by (intro mult_le_mono1) simp
  then show "j * r \<le> ceil_div j m * (m * r)" by (simp add: mult.assoc)
  have "ceil_div j m * m * r < (j + m) * r" using b a(2) by simp
  then show "ceil_div j m * (m * r) < j * r + m * r" by (simp add: mult.assoc add_mult_distrib)
qed

lemma card_same:
  assumes B: "0 < B" and P: "0 < P"
  shows "P mod B = 0 \<Longrightarrow> card (blocks_on B (j * P) P) = P div B"
    and "P mod B \<noteq> 0 \<Longrightarrow> B mod (P mod B) = 0 \<Longrightarrow> card (blocks_on B (j * P) P) = P div B + 1"
    and "B mod P = 0 \<Longrightarrow> card (blocks_on B (j * P) P) = 1"
proof -
  let ?q = "P div B" and ?r = "P mod B"
  have PqB: "P = ?q * B + ?r" by simp
  have x: "j * P + P = Suc j * P" by simp
  {
    assume "?r = 0"
    then have P': "?q * B = P" using PqB by linarith
    have "Suc j * P = (Suc j * ?q) * B" "j * P = (j * ?q) * B" by (simp_all only: mult.assoc P')
    note e = this
    have "ceil_div (j * P + P) B = Suc j * ?q" by (metis x e(1) ceil_div_mult [OF B])
    moreover have "j * P div B = j * ?q" using B by (metis e(2) nonzero_mult_div_cancel_right neq0_conv)
    ultimately show "card (blocks_on B (j * P) P) = ?q" by (simp add: blocks_on_card [OF B P])
  next
    assume r: "?r \<noteq> 0" "B mod ?r = 0"
    then obtain m where m: "B = m * ?r" by (metis mod_0_imp_dvd dvd_def mult.commute)
    have m0: "0 < m" using B m by (cases m) simp_all
    have e: "n * P = (n * ?q) * B + n * ?r" for n by (subst PqB) (simp only: add_mult_distrib2 mult.assoc)
    have "ceil_div (Suc j * ?r) B = Suc (j div m)"
    proof -
      have "ceil_div (Suc j * ?r) (m * ?r) = Suc (j div m)"
        using r(1) by (simp only: ceil_div_scale [OF m0] neq0_conv ceil_div_Suc [OF m0])
      then show ?thesis using m by simp
    qed
    moreover have "j * ?r div B = j div m"
    proof -
      have "j * ?r div (m * ?r) = j div m" using r(1) by (intro div_mult_mult2)
      then show ?thesis using m by simp
    qed
    moreover have "(j * ?q * B + j * ?r) div B = j * ?q + j * ?r div B" using B by simp
    ultimately have "ceil_div (Suc j * P) B = Suc j * ?q + Suc (j div m)" "j * P div B = j * ?q + j div m"
      by (simp_all only: e ceil_div_add [OF B])
    then have "card (blocks_on B (j * P) P) = Suc j * ?q + Suc (j div m) - (j * ?q + j div m)"
      by (simp only: blocks_on_card [OF B P] x)
    then show "card (blocks_on B (j * P) P) = ?q + 1" by simp
  next
    assume "B mod P = 0"
    then obtain m where m: "B = m * P" by (metis mod_0_imp_dvd dvd_def mult.commute)
    have m0: "0 < m" using B m by (cases m) simp_all
    have "ceil_div (Suc j * P) B = Suc (j div m)" unfolding m by (simp only: ceil_div_scale [OF m0 P] ceil_div_Suc [OF m0])
    moreover have "j * P div B = j div m" unfolding m using P by simp
    ultimately show "card (blocks_on B (j * P) P) = 1" by (simp only: blocks_on_card [OF B P] x)
  }
qed

lemma card_le:
  assumes B: "0 < B" and P: "0 < P"
  shows "card (blocks_on B x P) \<le> P div B + 2"
proof -
  have "(x + P) div B \<le> x div B + P div B + 1"
  proof -
    have "x div B * B \<le> x" "x < x div B * B + B" "P div B * B \<le> P" "P < P div B * B + B"
      using div_mult_bounds [OF B, of x] div_mult_bounds [OF B, of P] by blast+
    then have "x + P < (x div B + P div B + 2) * B" by (simp add: add_mult_distrib)
    then show ?thesis using div_less_iff_less_mult [OF B, of "x + P" "x div B + P div B + 2"] by linarith
  qed
  moreover have "ceil_div (x + P) B \<le> (x + P) div B + 1"
    by (rule ord_eq_le_trans [OF ceil_div_eq [OF B]]) simp
  ultimately show ?thesis by (simp add: blocks_on_card [OF B P])
qed

section \<open>Contexts\<close>

definition blk :: "page_release_context \<Rightarrow> nat" where
  "blk c = unat (CtxBlockSize c)"

definition first_page :: "page_release_context \<Rightarrow> nat" where
  "first_page c = unat (CtxReleasePageOffset c)"

definition pages :: "page_release_context \<Rightarrow> nat" where
  "pages c = unat (CtxPagesCount c)"

text \<open>The blocks on page \<open>j\<close> of the context.\<close>

definition page_blocks :: "nat \<Rightarrow> page_release_context \<Rightarrow> nat \<Rightarrow> nat set" where
  "page_blocks s c j = blocks_on (blk c) ((first_page c + j) * 2 ^ s) (2 ^ s)"

definition ctx_ok :: "nat \<Rightarrow> page_release_context \<Rightarrow> bool" where
  "ctx_ok s c \<longleftrightarrow> s < 32 \<and> CtxNumberOfRegions c = 1 \<and> 0 < blk c \<and> blk c < 2 ^ 47 \<and> (first_page c + pages c) * 2 ^ s \<le> 2 ^ 47
     \<and> CtxFullPagesBlockCountMax c \<noteq> 0
     \<and> (\<forall>j. card (page_blocks s c j) \<le> unat (CtxFullPagesBlockCountMax c))
     \<and> (CtxSameBlockCountPerPage c \<longrightarrow> (\<forall>j. card (page_blocks s c j) = unat (CtxFullPagesBlockCountMax c)))"

definition tally :: "nat \<Rightarrow> page_release_context \<Rightarrow> nat set \<Rightarrow> bool" where
  "tally s c F \<longleftrightarrow> (\<exists>l. wf_map l (CtxPageMap c)) \<and> NumCounters (CtxPageMap c) = CtxPagesCount c
     \<and> unat (CtxFullPagesBlockCountMax c) \<le> cap (CtxPageMap c)
     \<and> (\<forall>j < pages c. cnt (CtxPageMap c) j = card (page_blocks s c j \<inter> F)
          \<or> cnt (CtxPageMap c) j = cap (CtxPageMap c) \<and> page_blocks s c j \<subseteq> F)"

lemma init_ok:
  assumes B: "0 < unat B" "unat B < 2 ^ 47" and s: "s < 32"
    and lim: "unat Off div 2 ^ s * 2 ^ s + unat Size + 2 ^ s \<le> 2 ^ 47"
  defines "c \<equiv> PageReleaseContext_init s B 1 Size Off"
  shows "ctx_ok s c" "blk c = unat B" "first_page c = unat Off div 2 ^ s" "pages c = ceil_div (unat Size) (2 ^ s)"
    "CtxPageMap c = empty_page_map"
proof -
  let ?P = "(2::nat) ^ s" and ?B = "unat B"
  have P: "unat (push_bit s 1 :: uptr) = ?P" using s by (intro unat_push_bit_1) simp
  have P0: "0 < ?P" by simp
  have P32: "?P < 2 ^ 32" using s by (intro power_strict_increasing) simp_all
  show bl: "blk c = ?B" and map: "CtxPageMap c = empty_page_map"
    by (simp_all add: c_def PageReleaseContext_init_def blk_def Let_def split: prod.splits)
  show o: "first_page c = unat Off div ?P"
    by (simp add: c_def PageReleaseContext_init_def first_page_def unat_drop_bit Let_def split: prod.splits)
  have "unat Size + ?P \<le> 2 ^ 64" using lim by simp
  then have "unat (roundUp Size (push_bit s 1)) = ceil_div (unat Size) ?P * ?P"
    using unat_roundUp [of "push_bit s 1" s Size] s by (simp add: push_bit_of_1 ceil_div_def)
  then show n: "pages c = ceil_div (unat Size) ?P"
    by (simp add: c_def PageReleaseContext_init_def pages_def unat_drop_bit Let_def split: prod.splits)
  have "ceil_div (unat Size) ?P * ?P < unat Size + ?P" using ceil_div_bounds [OF P0] by blast
  then have lim2: "(first_page c + pages c) * ?P \<le> 2 ^ 47" using lim by (simp add: o n add_mult_distrib)
  define full where "full = unat (CtxFullPagesBlockCountMax c)"
  have le: "B \<le> push_bit s 1 \<longleftrightarrow> ?B \<le> ?P" by (simp only: word_le_nat_alt P)
  have md: "unat (push_bit s 1 mod B) = ?P mod ?B" "unat (B mod (push_bit s 1 mod B)) = ?B mod (?P mod ?B)"
    by (simp_all only: unat_mod P)
  have an: "unat (B AND (push_bit s 1 - 1)) = ?B mod ?P"
    using s by (simp add: push_bit_of_1 power_minus_1_mask unat_mask_and)
  have q: "unat (push_bit s 1 div B) = ?P div ?B" by (simp only: unat_div P)
  have q1: "unat (push_bit s 1 div B + 1) = ?P div ?B + 1" "unat (push_bit s 1 div B + 2) = ?P div ?B + 2"
  proof -
    have "?P div ?B \<le> ?P" by simp
    then have "unat (push_bit s 1 div B) < 4294967296" using P32 unfolding q by (auto intro: le_less_trans [of _ "2 ^ s"])
    then have "unat (push_bit s 1 div B) + unat (1 :: uptr) < 2 ^ 64" "unat (push_bit s 1 div B) + unat (2 :: uptr) < 2 ^ 64"
      by simp_all
    then show "unat (push_bit s 1 div B + 1) = ?P div ?B + 1" "unat (push_bit s 1 div B + 2) = ?P div ?B + 2"
      using unat_add_small [of "push_bit s 1 div B" 1] unat_add_small [of "push_bit s 1 div B" 2] by (simp_all only: q) simp_all
  qed
  have z: "push_bit s 1 mod B = 0 \<longleftrightarrow> ?P mod ?B = 0" "B mod (push_bit s 1 mod B) = 0 \<longleftrightarrow> ?B mod (?P mod ?B) = 0"
    "B AND (push_bit s 1 - 1) = 0 \<longleftrightarrow> ?B mod ?P = 0"
    using md an by (metis unat_eq_0)+
  have fs: "(CtxFullPagesBlockCountMax c, CtxSameBlockCountPerPage c) =
      (if ?B \<le> ?P then
         if ?P mod ?B = 0 then (push_bit s 1 div B, True)
         else if ?B mod (?P mod ?B) = 0 then (push_bit s 1 div B + 1, True)
         else (push_bit s 1 div B + 2, False)
       else if ?B mod ?P = 0 then (1, True) else (2, False))"
    unfolding c_def PageReleaseContext_init_def Let_def le z
    by (simp split: prod.splits)
  have pb: "page_blocks s c j = blocks_on ?B ((first_page c + j) * ?P) ?P" for j by (simp add: page_blocks_def bl)
  note cs = card_same [OF B(1) P0]
  have "unat (CtxFullPagesBlockCountMax c) \<noteq> 0 \<and> (\<forall>j. card (page_blocks s c j) \<le> unat (CtxFullPagesBlockCountMax c))
      \<and> (CtxSameBlockCountPerPage c \<longrightarrow> (\<forall>j. card (page_blocks s c j) = unat (CtxFullPagesBlockCountMax c)))"
  proof (cases "?B \<le> ?P")
    case True
    then have "?P div ?B \<noteq> 0" using B(1) by (simp add: div_greater_zero_iff)
    then show ?thesis using fs True cs(1,2) card_le [OF B(1) P0] q q1 by (simp add: pb split: if_splits)
  next
    case False
    then have "?P div ?B = 0" by simp
    then have "card (blocks_on ?B x ?P) \<le> 2" for x using card_le [OF B(1) P0, of x] by linarith
    then show ?thesis using fs False cs(3) by (simp add: pb split: if_splits)
  qed
  moreover have "CtxNumberOfRegions c = 1" by (simp add: c_def PageReleaseContext_init_def Let_def split: prod.splits)
  ultimately show "ctx_ok s c" using B s lim2 bl by (simp add: ctx_ok_def unat_gt_0)
qed

end
