(* ===== verification/MarkBlocks.thy ===== *)
theory MarkBlocks
  imports ReleasePages
begin

text \<open>
  Marking blocks adds them to the set the counters stand for: \<^verbatim>\<open>markFreeBlocksInRegion\<close> turns the counters
  of a new context into those of the blocks on the free list and, at the end of the region, of the bytes after
  the last block.
\<close>

unbundle bit_operations_syntax

section \<open>Adding blocks\<close>

lemma ctx_map_simps [simp]:
  "blk (c\<lparr>CtxPageMap := pm\<rparr>) = blk c" "first_page (c\<lparr>CtxPageMap := pm\<rparr>) = first_page c"
  "pages (c\<lparr>CtxPageMap := pm\<rparr>) = pages c" "page_blocks s (c\<lparr>CtxPageMap := pm\<rparr>) = page_blocks s c"
  "ctx_ok s (c\<lparr>CtxPageMap := pm\<rparr>) = ctx_ok s c"
  by (simp_all add: blk_def first_page_def pages_def page_blocks_def fun_eq_iff ctx_ok_def)

lemma finite_page_blocks: "ctx_ok s c \<Longrightarrow> finite (page_blocks s c j)"
  by (simp add: page_blocks_def ctx_ok_def)

lemma tally_room:
  assumes "ctx_ok s c" "tally s c F" "F \<inter> G = {}" "j < pages c"
  shows "cnt (CtxPageMap c) j + card (page_blocks s c j \<inter> G) \<le> cap (CtxPageMap c)"
proof -
  let ?p = "page_blocks s c j"
  have fin: "finite ?p" by (rule finite_page_blocks [OF assms(1)])
  have le: "card ?p \<le> cap (CtxPageMap c)" using assms(1,2) by (auto simp: ctx_ok_def tally_def intro: le_trans)
  from assms(2,4) consider "cnt (CtxPageMap c) j = card (?p \<inter> F)"
    | "cnt (CtxPageMap c) j = cap (CtxPageMap c)" "?p \<subseteq> F" unfolding tally_def by blast
  then show ?thesis
  proof cases
    case 1
    have "card (?p \<inter> F) + card (?p \<inter> G) = card (?p \<inter> F \<union> ?p \<inter> G)"
      using fin assms(3) by (intro card_Un_disjoint [symmetric]) auto
    also have "\<dots> \<le> card ?p" using fin by (intro card_mono) auto
    finally show ?thesis using 1 le by linarith
  next
    case 2
    then have "?p \<inter> G = {}" using assms(3) by blast
    then show ?thesis using 2 by simp
  qed
qed

lemma tally_add:
  assumes "ctx_ok s c" "tally s c F" "F \<inter> G = {}"
    and "wf_map l pm" "NumCounters pm = NumCounters (CtxPageMap c)" "cap pm = cap (CtxPageMap c)"
    and "\<And>j. j < pages c \<Longrightarrow> cnt pm j = cnt (CtxPageMap c) j + card (page_blocks s c j \<inter> G)"
  shows "tally s (c\<lparr>CtxPageMap := pm\<rparr>) (F \<union> G)"
proof -
  have "cnt pm j = card (page_blocks s c j \<inter> (F \<union> G)) \<or> cnt pm j = cap pm \<and> page_blocks s c j \<subseteq> F \<union> G"
    if j: "j < pages c" for j
  proof -
    let ?p = "page_blocks s c j"
    from assms(2) j consider "cnt (CtxPageMap c) j = card (?p \<inter> F)"
      | "cnt (CtxPageMap c) j = cap (CtxPageMap c)" "?p \<subseteq> F" unfolding tally_def by blast
    then show ?thesis
    proof cases
      case 1
      have "card (?p \<inter> F) + card (?p \<inter> G) = card (?p \<inter> F \<union> ?p \<inter> G)"
        using finite_page_blocks [OF assms(1)] assms(3) by (intro card_Un_disjoint [symmetric]) auto
      then show ?thesis using 1 assms(7) [OF j] by (simp add: Int_Un_distrib)
    next
      case 2
      then have "?p \<inter> G = {}" using assms(3) by blast
      then show ?thesis using 2 assms(6) assms(7) [OF j] by auto
    qed
  qed
  then show ?thesis using assms(2,4-6) by (auto simp: tally_def)
qed

text \<open>The pages of block \<open>k\<close>.\<close>

lemma on_page_iff:
  assumes "0 < B" "0 < (P::nat)"
  shows "k \<in> blocks_on B (i * P) P \<longleftrightarrow> k * B div P \<le> i \<and> i \<le> (k * B + B - 1) div P"
proof -
  have "k * B < i * P + P \<longleftrightarrow> k * B div P < Suc i"
    using assms(2) by (simp add: div_less_iff_less_mult add.commute)
  moreover have "i * P < (k + 1) * B \<longleftrightarrow> i * P \<le> k * B + B - 1" using assms(1) by (simp add: add.commute) linarith
  moreover have "\<dots> \<longleftrightarrow> i \<le> (k * B + B - 1) div P" using assms(2) by (simp add: less_eq_div_iff_mult_less_eq)
  ultimately show ?thesis by (simp add: blocks_on_def less_Suc_eq_le)
qed

lemma page_index:
  assumes "ctx_ok s c" "first_page c * 2 ^ s \<le> unat off"
  shows "unat (getPageIndex s c off) = unat off div 2 ^ s - first_page c" "first_page c \<le> unat off div 2 ^ s"
proof -
  show le: "first_page c \<le> unat off div 2 ^ s" using assms(2) by (simp add: less_eq_div_iff_mult_less_eq)
  then show "unat (getPageIndex s c off) = unat off div 2 ^ s - first_page c"
    by (simp add: getPageIndex_def unat_sub word_le_nat_alt unat_drop_bit first_page_def)
qed

lemma card_page_single:
  "card (page_blocks s c j \<inter> {k}) = (if k \<in> page_blocks s c j then 1 else 0)"
  by auto

text \<open>The first and the last page of block \<open>k\<close>, counted from the first page of the context.\<close>

definition page_from :: "nat \<Rightarrow> page_release_context \<Rightarrow> nat \<Rightarrow> nat" where
  "page_from s c k = k * blk c div 2 ^ s - first_page c"

definition page_to :: "nat \<Rightarrow> page_release_context \<Rightarrow> nat \<Rightarrow> nat" where
  "page_to s c k = (k * blk c + blk c - 1) div 2 ^ s - first_page c"

lemma block_pages:
  assumes c: "ctx_ok s c" and off: "unat off = k * blk c"
    and range: "first_page c * 2 ^ s \<le> k * blk c" "k * blk c < (first_page c + pages c) * 2 ^ s"
  shows "unat (getPageIndex s c off) = page_from s c k"
    and "unat (getPageIndex s c (off + CtxBlockSize c - 1)) = page_to s c k"
    and "k \<in> page_blocks s c j \<longleftrightarrow> page_from s c k \<le> j \<and> j \<le> page_to s c k"
    and "page_from s c k < pages c" "page_to s c k < 18446744073709551615"
proof -
  let ?P = "(2::nat) ^ s" and ?B = "blk c"
  have B: "0 < ?B" "?B < 140737488355328" and lim: "(first_page c + pages c) * ?P \<le> 140737488355328"
    using c by (simp_all add: ctx_ok_def)
  have P0: "0 < ?P" by simp
  have last: "unat (off + CtxBlockSize c - 1) = k * ?B + ?B - 1"
  proof -
    have "unat (off + CtxBlockSize c) = k * ?B + ?B" using B lim range off by (subst unat_add_small) (simp_all add: blk_def)
    then show ?thesis using B by (subst unat_sub) (simp_all add: word_le_nat_alt)
  qed
  have "first_page c * ?P \<le> unat (off + CtxBlockSize c - 1)" using last range(1) B by simp
  note i2 = page_index [OF c this, unfolded last]
  note i1 = page_index [OF c, of off, unfolded off, OF range(1)]
  show "unat (getPageIndex s c off) = page_from s c k" "unat (getPageIndex s c (off + CtxBlockSize c - 1)) = page_to s c k"
    by (simp_all only: i1 i2 page_from_def page_to_def)
  show "k \<in> page_blocks s c j \<longleftrightarrow> page_from s c k \<le> j \<and> j \<le> page_to s c k"
    using i1(2) i2(2) on_page_iff [OF B(1) P0, of k "first_page c + j"]
    by (simp add: page_blocks_def page_from_def page_to_def) linarith
  have "k * ?B div ?P < first_page c + pages c" using range(2) by (simp add: div_less_iff_less_mult)
  then show "page_from s c k < pages c" using i1(2) by (simp add: page_from_def)
  have "(k * ?B + ?B - 1) div ?P \<le> k * ?B + ?B - 1" by simp
  then show "page_to s c k < 18446744073709551615" using B lim range unfolding page_to_def by linarith
qed

lemma one_page:
  assumes "ctx_ok s c" "CtxBlockSize c \<le> push_bit s 1" "push_bit s 1 mod CtxBlockSize c = 0"
  shows "page_to s c k = page_from s c k"
proof -
  have s: "s < 32" and B: "0 < blk c" using assms(1) by (simp_all add: ctx_ok_def)
  have "unat (push_bit s 1 :: uptr) = 2 ^ s" using s by (intro unat_push_bit_1) simp
  then have "(2::nat) ^ s mod blk c = 0" using assms(3) by (metis blk_def unat_0 unat_mod)
  then obtain m where m: "2 ^ s = blk c * m" by (metis mod_0_imp_dvd dvd_def)
  have "(k * blk c + blk c - 1) div blk c = k * blk c div blk c"
    using B div_plus_div_distrib_dvd_left [of "blk c" "k * blk c" "blk c - 1"] by simp
  then show ?thesis by (simp only: page_to_def page_from_def m div_mult2_eq)
qed

lemma markBlock_adds:
  assumes c: "ctx_ok s c" and t: "tally s c F" and k: "k \<notin> F" and off: "unat off = k * blk c"
    and range: "first_page c * 2 ^ s \<le> k * blk c" "k * blk c < (first_page c + pages c) * 2 ^ s"
  shows "\<exists>pm. markBlock s 0 off c = c\<lparr>CtxPageMap := pm\<rparr> \<and> tally s (c\<lparr>CtxPageMap := pm\<rparr>) (insert k F)"
proof -
  let ?pm = "CtxPageMap c" and ?a = "page_from s c k" and ?b = "page_to s c k"
  obtain l where wf: "wf_map l ?pm" using t unfolding tally_def by blast
  have N: "unat (NumCounters ?pm) = pages c" using t by (simp add: tally_def pages_def)
  note bp = block_pages [OF c off range]
  have room: "cnt ?pm j < cap ?pm" if "?a \<le> j" "j \<le> ?b" "j < pages c" for j
    using tally_room [OF c t, of "{k}" j] k that bp(3) by (simp add: card_page_single)
  have add: ?thesis if m: "markBlock s 0 off c = c\<lparr>CtxPageMap := pm\<rparr>"
    and p: "wf_map l pm \<and> NumCounters pm = NumCounters ?pm \<and> cap pm = cap ?pm \<and>
      (\<forall>j < pages c. cnt pm j = cnt ?pm j + (if ?a \<le> j \<and> j \<le> ?b then 1 else 0))" for pm
  proof -
    have "cnt pm j = cnt ?pm j + card (page_blocks s c j \<inter> {k})" if "j < pages c" for j
      unfolding card_page_single bp(3) using p that by blast
    from tally_add [OF c t _ _ _ _ this] k m p show ?thesis by auto
  qed
  show ?thesis
  proof (cases "CtxBlockSize c \<le> push_bit s 1 \<and> push_bit s 1 mod CtxBlockSize c = 0")
    case True
    from True have ab: "?b = ?a" by (elim conjE) (rule one_page [OF c])
    have "cnt ?pm ?a + unat (1 :: uptr) \<le> cap ?pm" using room [of ?a] bp(4) ab by simp
    note r = incN_counter [OF wf _ this, folded inc_incN, unfolded N, OF bp(4)]
    have e: "getPageIndex s c off = of_nat ?a" by (simp flip: bp(1))
    have "markBlock s 0 off c = c\<lparr>CtxPageMap := pm_inc 0 (of_nat ?a) ?pm\<rparr>"
      using True by (simp add: markBlock_def with_map_def e)
    from add [OF this] r show ?thesis by (auto simp: ab)
  next
    case False
    let ?T = "getPageIndex s c (off + CtxBlockSize c - 1)"
    have T: "unat ?T < 2 ^ 64 - 1" using bp(5) by (simp add: bp(2))
    note r = incRange_counter [OF wf T, of "getPageIndex s c off", unfolded bp(1,2) N, OF room]
    have "markBlock s 0 off c = c\<lparr>CtxPageMap := pm_incRange 0 (getPageIndex s c off) ?T ?pm\<rparr>"
      unfolding markBlock_def with_map_def Let_def if_not_P [OF False] ..
    from add [OF this r] show ?thesis by blast
  qed
qed

section \<open>The blocks after the last one\<close>

lemma unat_roundUpSlow:
  assumes "0 < unat B" "unat X + unat B < 2 ^ 64"
  shows "unat (roundUpSlow X B) = ceil_div (unat X) (unat B) * unat B"
proof -
  have "unat (X + B) = unat X + unat B" using assms(2) by (intro unat_add_small) simp
  then have "unat (X + B - 1) = unat X + unat B - 1" using assms(1) by (subst unat_sub) (simp_all add: word_le_nat_alt)
  then have q: "unat ((X + B - 1) div B) = ceil_div (unat X) (unat B)" by (simp add: unat_div ceil_div_def)
  have "ceil_div (unat X) (unat B) * unat B < 2 ^ 64"
    using ceil_div_bounds [OF assms(1), of "unat X"] assms(2) by linarith
  then show ?thesis unfolding roundUpSlow_def q [symmetric] by (intro unat_mult_small) simp
qed

text \<open>How many blocks with a number from \<open>n\<close> on are on a page, when the region ends on page \<open>m - 1\<close>.\<close>

lemma card_trailing:
  assumes "0 < B" "0 < P" and n: "0 < n" and m: "m = ceil_div (n * B) P" and i: "i < m"
  shows "card (blocks_on B (i * P) P \<inter> {n..}) = (if i = m - 1 then ceil_div (m * P - n * B) B else 0)"
proof -
  have b: "n * B \<le> m * P" "m * P < n * B + P" using ceil_div_bounds [OF assms(2), of "n * B"] by (simp_all add: m)
  have e: "blocks_on B (i * P) P \<inter> {n..} = {max n (i * P div B) ..< ceil_div (Suc i * P) B}"
    using assms(1,2) by (auto simp: blocks_on_interval add.commute)
  show ?thesis
  proof (cases "i = m - 1")
    case True
    then have Si: "Suc i = m" using i by simp
    have "i * P < n * B" using b(2) by (simp flip: Si)
    then have "i * P div B < n" using assms(1) by (simp add: div_less_iff_less_mult)
    moreover have "ceil_div (m * P) B = n + ceil_div (m * P - n * B) B"
      using ceil_div_add [OF assms(1), of n "m * P - n * B"] b(1) by simp
    ultimately show ?thesis using True unfolding e Si by simp
  next
    case False
    then have "Suc (Suc i) * P \<le> m * P" using i by (intro mult_le_mono1) linarith
    then have "Suc i * P < n * B" using b(2) by simp
    moreover have "ceil_div (Suc i * P) B * B < Suc i * P + B" using ceil_div_bounds [OF assms(1)] by blast
    ultimately have "ceil_div (Suc i * P) B * B < (n + 1) * B" unfolding add_mult_distrib by linarith
    then have "ceil_div (Suc i * P) B < n + 1" using mult_less_cancel2 by blast
    then show ?thesis using False unfolding e by simp
  qed
qed

lemma trailing_words:
  assumes s: "s < 32" and B: "0 < unat B" "unat B < 2 ^ 47" and R: "unat R = n * unat B" "0 < n"
    and Z: "ceil_div (unat R) (2 ^ s) * 2 ^ s \<le> 2 ^ 47"
  shows "(R div B - 1) * B + B = R"
    and "unat ((roundUpSlow (roundUp R (push_bit s 1) - R) B + B - 1) div B)
      = ceil_div (ceil_div (unat R) (2 ^ s) * 2 ^ s - unat R) (unat B)"
proof -
  let ?P = "(2::nat) ^ s" and ?B = "unat B"
  have P0: "0 < ?P" by simp
  have P32: "?P \<le> 4294967296" using s power_increasing [of s 32 "2::nat"] by simp
  note b = ceil_div_bounds [OF P0, of "unat R"]
  have q: "unat (R div B) = n" using R B(1) by (simp add: unat_div)
  have "n * unat B < 2 ^ 64" by (simp flip: R(1))
  then have "unat (R div B * B) = n * unat B" by (subst unat_mult_small) (simp_all add: q)
  then have "R div B * B = R" by (simp add: word_unat_eq_iff R(1))
  then show "(R div B - 1) * B + B = R" by (simp add: algebra_simps)
  let ?Z = "ceil_div (unat R) ?P * ?P"
  have "unat R + ?P \<le> 18446744073709551616" using b Z P32 by simp
  then have z: "unat (roundUp R (push_bit s 1)) = ?Z"
    using unat_roundUp [of "push_bit s 1" s R] s by (simp add: push_bit_of_1 ceil_div_def)
  then have x: "unat (roundUp R (push_bit s 1) - R) = ?Z - unat R" using b by (subst unat_sub) (simp_all add: word_le_nat_alt)
  define x where "x = roundUp R (push_bit s 1) - R"
  have xs: "unat x + ?B < 2 ^ 64" using x Z B by (simp add: x_def)
  note r = unat_roundUpSlow [OF B(1) this]
  have cb: "ceil_div (unat x) ?B * ?B < unat x + ?B" using ceil_div_bounds [OF B(1)] by blast
  then have "ceil_div (unat x) ?B * ?B + ?B < 18446744073709551616" using x Z B unfolding x_def by simp
  then have "unat (roundUpSlow x B + B) = ceil_div (unat x) ?B * ?B + ?B" by (subst unat_add_small) (simp_all add: r)
  then have "unat (roundUpSlow x B + B - 1) = ceil_div (unat x) ?B * ?B + ?B - 1"
    using B(1) by (subst unat_sub) (simp_all add: word_le_nat_alt)
  then have "unat ((roundUpSlow x B + B - 1) div B) = ceil_div (ceil_div (unat x) ?B * ?B) ?B"
    by (simp add: unat_div ceil_div_def)
  then show "unat ((roundUpSlow (roundUp R (push_bit s 1) - R) B + B - 1) div B) = ceil_div (?Z - unat R) ?B"
    by (simp only: ceil_div_mult [OF B(1)] x_def x)
qed

lemma markTrailing_adds:
  assumes c: "ctx_ok s c" and t: "tally s c F" and R: "unat R = n * blk c" "0 < n" and F: "F \<inter> {n..} = {}"
    and last: "first_page c + pages c = ceil_div (unat R) (2 ^ s)" "0 < pages c"
  shows "\<exists>pm. markTrailingBlocks s 0 R c = c\<lparr>CtxPageMap := pm\<rparr> \<and> tally s (c\<lparr>CtxPageMap := pm\<rparr>) (F \<union> {n..})"
proof -
  let ?P = "(2::nat) ^ s" and ?B = "blk c" and ?pm = "CtxPageMap c" and ?i = "pages c - 1"
  let ?Z = "(first_page c + pages c) * ?P"
  have s: "s < 32" and B: "0 < ?B" "?B < 2 ^ 47" and lim: "?Z \<le> 2 ^ 47" using c by (simp_all add: ctx_ok_def)
  have P0: "0 < ?P" by simp
  obtain l where wf: "wf_map l ?pm" using t unfolding tally_def by blast
  have N: "unat (NumCounters ?pm) = pages c" using t by (simp add: tally_def pages_def)
  let ?N = "(roundUpSlow (roundUp R (push_bit s 1) - R) (CtxBlockSize c) + CtxBlockSize c - 1) div CtxBlockSize c"
  note w = trailing_words [OF s B [unfolded blk_def] R [unfolded blk_def] lim [unfolded last(1)]]
  define y where "y = ceil_div (?Z - n * ?B) ?B"
  have N_y: "unat ?N = y" using w(2) by (simp only: y_def last(1) R(1) blk_def)
  have card: "card (page_blocks s c j \<inter> {n..}) = (if j = ?i then y else 0)" if j: "j < pages c" for j
    unfolding page_blocks_def
    by (subst card_trailing [OF B(1) P0 R(2), of "first_page c + pages c"]) (use j last R y_def in auto)
  have m: "markTrailingBlocks s 0 R c = (if ?N > 0 then with_map (pm_incN 0 (getPageIndex s c R) ?N) c else c)"
    unfolding markTrailingBlocks_def Let_def w(1) ..
  show ?thesis
  proof (cases "?N > 0")
    case False
    then have "y = 0" using N_y by (metis unat_eq_0 word_gt_0)
    then have "cnt ?pm j = cnt ?pm j + card (page_blocks s c j \<inter> {n..})" if "j < pages c" for j
      using card [OF that] by simp
    from tally_add [OF c t F wf refl refl this] m False show ?thesis by (intro exI [of _ ?pm]) simp
  next
    case True
    have b: "unat R \<le> ?Z" "?Z < unat R + ?P" using ceil_div_bounds [OF P0, of "unat R"] by (simp_all add: last(1))
    have "y \<noteq> 0" using True N_y by (metis unat_eq_0 word_gt_0)
    then have "unat R \<noteq> ?Z" using ceil_div_mult [OF B(1), of 0] by (auto simp: y_def R(1))
    then have d: "unat R div ?P = first_page c + ?i"
      using b last(2) by (intro div_nat_eqI) (simp_all add: algebra_simps)
    have "(first_page c + ?i) * ?P \<le> unat R" using b last(2) by (simp add: algebra_simps)
    then have "first_page c * ?P \<le> unat R" by (simp add: add_mult_distrib)
    from page_index [OF c this] have "unat (getPageIndex s c R) = ?i" unfolding d by simp
    note u = this
    have e: "getPageIndex s c R = of_nat ?i" unfolding u [symmetric] by simp
    have "cnt ?pm ?i + unat ?N \<le> cap ?pm" 
      using tally_room [OF c t F, of ?i] card [of ?i] last(2) unfolding N_y by simp
    note r = incN_counter [OF wf _ this, unfolded N, unfolded N_y]
    have "?i < pages c" using last(2) by simp
    note r = r [OF this]
    have "cnt (pm_incN 0 (of_nat ?i) ?N ?pm) j = cnt ?pm j + card (page_blocks s c j \<inter> {n..})" if "j < pages c" for j
      unfolding card [OF that] by (rule r(4) [OF that])
    from tally_add [OF c t F r(1-3) this] m True show ?thesis by (auto simp: with_map_def e)
  qed
qed

section \<open>Marking a free list\<close>

lemma fold_fold_concat: "fold (\<lambda>xs. fold f xs) xss a = fold f (concat xss) a"
  by (induction xss arbitrary: a) simp_all

lemma mark_list:
  assumes "ctx_ok s c" "tally s c F" "distinct (map num ps)" "num ` set ps \<inter> F = {}"
    and "\<forall>p \<in> set ps. unat (offset p) = num p * blk c \<and> first_page c * 2 ^ s \<le> num p * blk c
      \<and> num p * blk c < (first_page c + pages c) * 2 ^ s"
  shows "\<exists>pm. fold (\<lambda>p. markBlock s 0 (offset p)) ps c = c\<lparr>CtxPageMap := pm\<rparr>
    \<and> tally s (c\<lparr>CtxPageMap := pm\<rparr>) (F \<union> num ` set ps)"
  using assms
proof (induction ps arbitrary: c F)
  case Nil
  then show ?case by (intro exI [of _ "CtxPageMap c"]) simp
next
  case (Cons p ps)
  have "num p \<notin> F" using Cons.prems(4) by auto
  then obtain pm where m: "markBlock s 0 (offset p) c = c\<lparr>CtxPageMap := pm\<rparr>"
    and t: "tally s (c\<lparr>CtxPageMap := pm\<rparr>) (insert (num p) F)"
    using markBlock_adds [OF Cons.prems(1,2), of "num p" "offset p"] Cons.prems(5) by auto
  from Cons.prems have "ctx_ok s (c\<lparr>CtxPageMap := pm\<rparr>)" "distinct (map num ps)" "num ` set ps \<inter> insert (num p) F = {}"
    "\<forall>p \<in> set ps. unat (offset p) = num p * blk (c\<lparr>CtxPageMap := pm\<rparr>)
      \<and> first_page (c\<lparr>CtxPageMap := pm\<rparr>) * 2 ^ s \<le> num p * blk (c\<lparr>CtxPageMap := pm\<rparr>)
      \<and> num p * blk (c\<lparr>CtxPageMap := pm\<rparr>) < (first_page (c\<lparr>CtxPageMap := pm\<rparr>) + pages (c\<lparr>CtxPageMap := pm\<rparr>)) * 2 ^ s"
    by auto
  from Cons.IH [OF this(1) t this(2-4)] show ?case by (auto simp: m)
qed

lemma ensure_tally:
  assumes "ctx_ok s c" "CtxPageMap c = empty_page_map"
    and "ensurePageMapAllocated map_ok s (c, M) = (True, c', M')"
  shows "\<exists>pm. c' = c\<lparr>CtxPageMap := pm\<rparr> \<and> tally s c' {}"
proof -
  have s: "s < 32" and N: "pages c * 2 ^ s \<le> 140737488355328" and V: "CtxFullPagesBlockCountMax c \<noteq> 0"
    and R: "CtxNumberOfRegions c = 1"
    using assms(1) by (simp_all add: ctx_ok_def add_mult_distrib)
  have "pages c * 1 \<le> pages c * 2 ^ s" by (intro mult_le_mono2) simp
  then have N: "unat (CtxPagesCount c) \<le> 2 ^ 47" using N unfolding pages_def by (simp only: mult_1_right) (rule le_trans, simp_all)
  obtain pm where r: "page_map_reset map_ok (push_bit s 1) 1 (CtxPagesCount c) (CtxFullPagesBlockCountMax c) M = (pm, M')"
    and al: "isAllocated pm" and c': "c' = c\<lparr>CtxPageMap := pm\<rparr>"
    using assms(2,3) R by (auto simp: ensurePageMapAllocated_def isAllocated_def empty_page_map_def no_buffer_def split: prod.splits)
  note m = reset_map [OF r al V s N]
  have "tally s c' {}" using m by (auto simp: tally_def c' pages_def)
  with c' show ?thesis by blast
qed

text \<open>Marking the blocks of a free list in a new context; with the last flag set, the bytes after the last
  block count as free blocks.\<close>

lemma markFreeBlocks_tally:
  assumes c: "ctx_ok s c" "CtxPageMap c = empty_page_map"
    and m: "markFreeBlocksInRegion map_ok s FL Dec Base 0 R lst (c, M) = (True, c', M')"
    and d: "distinct (map num (concat FL))"
    and off: "\<forall>p \<in> set (concat FL). unat (Dec p - Base) = num p * blk c \<and> first_page c * 2 ^ s \<le> num p * blk c
      \<and> num p * blk c < (first_page c + pages c) * 2 ^ s"
    and R: "lst \<Longrightarrow> unat R = n * blk c \<and> 0 < n \<and> first_page c + pages c = ceil_div (unat R) (2 ^ s) \<and> 0 < pages c"
    and below: "lst \<Longrightarrow> \<forall>p \<in> set (concat FL). num p < n"
  shows "\<exists>pm. c' = c\<lparr>CtxPageMap := pm\<rparr> \<and> tally s c' (num ` set (concat FL) \<union> (if lst then {n..} else {}))"
proof -
  let ?T = "if lst then {n..} else {}"
  obtain c1 M1 where e: "ensurePageMapAllocated map_ok s (c, M) = (True, c1, M1)"
    and c': "c' = fold (\<lambda>p. markBlock s 0 (Dec p - Base)) (concat FL) (if lst then markTrailingBlocks s 0 R c1 else c1)"
    using m by (auto simp: markFreeBlocksInRegion_def fold_fold_concat split: prod.splits if_splits)
  from ensure_tally [OF c e] obtain pm1 where c1: "c1 = c\<lparr>CtxPageMap := pm1\<rparr>" and t1: "tally s c1 {}" by blast
  have "\<exists>pm. (if lst then markTrailingBlocks s 0 R c1 else c1) = c\<lparr>CtxPageMap := pm\<rparr> \<and> tally s (c\<lparr>CtxPageMap := pm\<rparr>) ?T"
  proof (cases lst)
    case True
    have "ctx_ok s c1" using c(1) by (simp add: c1)
    from markTrailing_adds [OF this t1, of R n] R [OF True] show ?thesis by (auto simp: c1 True)
  next
    case False
    then show ?thesis using t1 c1 by auto
  qed
  then obtain pm2 where c2: "(if lst then markTrailingBlocks s 0 R c1 else c1) = c\<lparr>CtxPageMap := pm2\<rparr>"
    and t2: "tally s (c\<lparr>CtxPageMap := pm2\<rparr>) ?T" by blast
  have "ctx_ok s (c\<lparr>CtxPageMap := pm2\<rparr>)" using c(1) by simp
  note ml = mark_list [OF this t2 d, of "\<lambda>p. Dec p - Base"]
  have "num ` set (concat FL) \<inter> ?T = {}" using below by force
  note ml = ml [OF this, unfolded ctx_map_simps, OF off]
  then obtain pm where p: "c' = c\<lparr>CtxPageMap := pm\<rparr>"
    "tally s (c\<lparr>CtxPageMap := pm\<rparr>) (?T \<union> num ` set (concat FL))" unfolding c' c2 by auto
  then show ?thesis by (metis Un_commute)
qed

end
