(* ===== verification/ReleaseExact.thy ===== *)
theory ReleaseExact
  imports MarkBlocks
begin

text \<open>
  \<^verbatim>\<open>releaseFreeMemoryToOS\<close> releases the maximal runs of the pages all of whose blocks are free, and nothing
  else.
\<close>

unbundle bit_operations_syntax

section \<open>The decision for one page\<close>

lemma update_decides:
  assumes c: "ctx_ok s c" and t: "tally s c F" and j: "j < pages c" and M: "unat M = card (page_blocks s c j)"
  shows "\<exists>pm. updateAsAllCountedIf 0 (of_nat j) M (CtxPageMap c) = (page_blocks s c j \<subseteq> F, pm)
    \<and> tally s (c\<lparr>CtxPageMap := pm\<rparr>) F"
proof -
  let ?pm = "CtxPageMap c" and ?p = "page_blocks s c j" and ?n = "pm_get (CtxPageMap c) 0 (of_nat j)"
  obtain l where wf: "wf_map l ?pm" using t unfolding tally_def by blast
  have N: "unat (NumCounters ?pm) = pages c" using t by (simp add: tally_def pages_def)
  note chk = check_inside [OF wf, unfolded N, OF j]
  have full: "card ?p \<le> cap ?pm" using c t by (auto simp: ctx_ok_def tally_def intro: le_trans)
  have fin: "finite ?p" by (rule finite_page_blocks [OF c])
  have all: "?p \<subseteq> F \<longleftrightarrow> card (?p \<inter> F) = card ?p"
    using fin by (metis Int_absorb2 card_subset_eq inf.absorb_iff1 inf_le1)
  have le: "card (?p \<inter> F) \<le> card ?p" using fin by (intro card_mono) auto
  from t j have alt: "cnt ?pm j = card (?p \<inter> F) \<or> cnt ?pm j = cap ?pm \<and> ?p \<subseteq> F" unfolding tally_def by blast
  have m: "?n = CounterMask ?pm \<longleftrightarrow> cnt ?pm j = cap ?pm" by (simp add: cnt_def cap_def word_unat_eq_iff)
  have M': "?n = M \<longleftrightarrow> cnt ?pm j = card ?p" by (simp add: cnt_def word_unat_eq_iff M)
  have sub: "?p \<subseteq> F \<longleftrightarrow> ?n = CounterMask ?pm \<or> ?n = M" using alt le full unfolding m M' all by linarith
  have same: "tally s (c\<lparr>CtxPageMap := ?pm\<rparr>) F" using t by simp
  show ?thesis
  proof (cases "?n = CounterMask ?pm \<or> ?n \<noteq> M")
    case True
    then show ?thesis using sub same chk by (intro exI [of _ ?pm]) (auto simp: updateAsAllCountedIf_def Let_def)
  next
    case False
    note r = set_counter [OF wf, unfolded N, OF j]
    let ?q = "setAsAllCounted 0 (of_nat j) ?pm"
    have "cnt ?q i = card (page_blocks s c i \<inter> F) \<or> cnt ?q i = cap ?q \<and> page_blocks s c i \<subseteq> F" if i: "i < pages c" for i
      using r(3) r(4) [OF i] t i sub False unfolding tally_def by (cases "i = j") auto
    then have "tally s (c\<lparr>CtxPageMap := ?q\<rparr>) F" using t r(1-3) by (auto simp: tally_def)
    then show ?thesis using False sub chk by (auto simp: updateAsAllCountedIf_def Let_def)
  qed
qed

section \<open>The ranges\<close>

text \<open>\<open>rs\<close> are the maximal runs of consecutive numbers of \<open>A\<close>, in increasing order.\<close>

definition maximal_runs :: "(nat \<times> nat) list \<Rightarrow> nat set \<Rightarrow> bool" where
  "maximal_runs rs A \<longleftrightarrow> sorted_wrt (\<lambda>r r'. snd r < fst r') rs \<and> (\<forall>r \<in> set rs. fst r < snd r)
     \<and> (\<Union>r \<in> set rs. {fst r ..< snd r}) = A"

definition report :: "(uptr \<Rightarrow> uptr \<Rightarrow> 'r \<Rightarrow> 'r) \<Rightarrow> nat \<Rightarrow> (nat \<times> nat) list \<Rightarrow> 'r \<Rightarrow> 'r" where
  "report rel s rs = fold (\<lambda>r. rel (push_bit s (of_nat (fst r))) (push_bit s (of_nat (snd r)))) rs"

lemma maximal_runs_snoc:
  assumes "maximal_runs rs A" "\<forall>r \<in> set rs. snd r < a" "a < b"
  shows "maximal_runs (rs @ [(a, b)]) (A \<union> {a ..< b})"
  using assms by (auto simp: maximal_runs_def sorted_wrt_append)

text \<open>The tracker after \<open>n\<close> pages, of which those in \<open>A\<close> are to be released.\<close>

definition tracked :: "(uptr \<Rightarrow> uptr \<Rightarrow> 'r \<Rightarrow> 'r) \<Rightarrow> nat \<Rightarrow> 'r \<Rightarrow> nat set \<Rightarrow> nat \<Rightarrow> 'r range_tracker \<Rightarrow> bool" where
  "tracked rel s r A n t \<longleftrightarrow> CurrentPage t = of_nat n \<and>
     (\<exists>rs B. Recorder t = report rel s rs r \<and> maximal_runs rs B \<and>
       (if InRange t
        then \<exists>a < n. CurrentRangeStatePage t = of_nat a \<and> (\<forall>x \<in> set rs. snd x < a) \<and> A \<inter> {..<n} = B \<union> {a ..< n}
        else A \<inter> {..<n} = B \<and> (\<forall>x \<in> set rs. snd x < n)))"

lemma tracked_init: "tracked rel s r A 0 (tracker_init r)"
  by (auto simp: tracked_def tracker_init_def report_def maximal_runs_def intro!: exI [of _ "[]"])

lemma tracked_close:
  assumes "tracked rel s r A n t"
  shows "\<exists>rs. Recorder (closeOpenedRange rel s t) = report rel s rs r \<and> maximal_runs rs (A \<inter> {..<n})
    \<and> (\<forall>x \<in> set rs. snd x \<le> n)"
    and "\<not> InRange (closeOpenedRange rel s t)" "CurrentPage (closeOpenedRange rel s t) = of_nat n"
proof -
  show "\<not> InRange (closeOpenedRange rel s t)" "CurrentPage (closeOpenedRange rel s t) = of_nat n"
    using assms by (simp_all add: closeOpenedRange_def tracked_def)
  obtain rs B where rs: "Recorder t = report rel s rs r" "maximal_runs rs B"
    "if InRange t then \<exists>a < n. CurrentRangeStatePage t = of_nat a \<and> (\<forall>x \<in> set rs. snd x < a) \<and> A \<inter> {..<n} = B \<union> {a ..< n}
     else A \<inter> {..<n} = B \<and> (\<forall>x \<in> set rs. snd x < n)" and cp: "CurrentPage t = of_nat n"
    using assms unfolding tracked_def by blast
  show "\<exists>rs. Recorder (closeOpenedRange rel s t) = report rel s rs r \<and> maximal_runs rs (A \<inter> {..<n})
    \<and> (\<forall>x \<in> set rs. snd x \<le> n)"
  proof (cases "InRange t")
    case True
    then obtain a where a: "a < n" "CurrentRangeStatePage t = of_nat a" "\<forall>x \<in> set rs. snd x < a" "A \<inter> {..<n} = B \<union> {a ..< n}"
      using rs(3) by auto
    have "maximal_runs (rs @ [(a, n)]) (A \<inter> {..<n})" unfolding a(4) by (rule maximal_runs_snoc [OF rs(2) a(3,1)])
    moreover have "Recorder (closeOpenedRange rel s t) = report rel s (rs @ [(a, n)]) r"
      by (simp add: closeOpenedRange_def True rs(1) a(2) cp report_def)
    ultimately show ?thesis using a(1,3) by (intro exI [of _ "rs @ [(a, n)]"]) auto
  next
    case False
    then show ?thesis using rs by (intro exI [of _ rs]) (auto simp: closeOpenedRange_def less_imp_le)
  qed
qed

lemma tracked_next:
  assumes "tracked rel s r A n t"
  shows "tracked rel s r A (Suc n) (processNextPage rel s (n \<in> A) t)"
proof (cases "n \<in> A")
  case True
  obtain rs B where rs: "Recorder t = report rel s rs r" "maximal_runs rs B"
    "if InRange t then \<exists>a < n. CurrentRangeStatePage t = of_nat a \<and> (\<forall>x \<in> set rs. snd x < a) \<and> A \<inter> {..<n} = B \<union> {a ..< n}
     else A \<inter> {..<n} = B \<and> (\<forall>x \<in> set rs. snd x < n)" and cp: "CurrentPage t = of_nat n"
    using assms unfolding tracked_def by blast
  have "A \<inter> {..<Suc n} = insert n (A \<inter> {..<n})" using True by (auto simp: less_Suc_eq)
  then show ?thesis
    using rs cp True by (cases "InRange t") (auto simp: tracked_def processNextPage_def atLeastLessThanSuc Un_commute
      intro!: exI [of _ rs] exI [of _ B] intro: less_SucI)
next
  case False
  note c = tracked_close [OF assms]
  have e: "A \<inter> {..<Suc n} = A \<inter> {..<n}" using False by (auto simp: less_Suc_eq)
  obtain rs where rs: "Recorder (closeOpenedRange rel s t) = report rel s rs r" "maximal_runs rs (A \<inter> {..<n})"
    "\<forall>x \<in> set rs. snd x \<le> n" using c(1) by blast
  then have "\<forall>x \<in> set rs. snd x < Suc n" by (simp add: less_Suc_eq_le)
  then show ?thesis using rs c(2,3) False unfolding tracked_def processNextPage_def Let_def e
    by (auto simp: add.commute intro!: exI [of _ rs])
qed

section \<open>All pages\<close>

lemma release_page_step:
  assumes "ctx_ok s c" "tally s (c\<lparr>CtxPageMap := pm\<rparr>) F" "j < pages c" "unat M = card (page_blocks s c j)"
    and "tracked rel s r {i. page_blocks s c i \<subseteq> F} j t"
  shows "\<exists>pm' t'. release_page rel s 0 (of_nat j) M (pm, t) = (pm', t')
    \<and> tally s (c\<lparr>CtxPageMap := pm'\<rparr>) F \<and> tracked rel s r {i. page_blocks s c i \<subseteq> F} (Suc j) t'"
  using update_decides [of s "c\<lparr>CtxPageMap := pm\<rparr>" F j M] tracked_next [OF assms(5)] assms(1-4)
  by (auto simp: release_page_def)

lemma fast_pages_spec:
  assumes "ctx_ok s c" "tally s (c\<lparr>CtxPageMap := pm\<rparr>) F" "j + n \<le> pages c"
    and "\<And>i. i < pages c \<Longrightarrow> unat M = card (page_blocks s c i)"
    and "tracked rel s r {i. page_blocks s c i \<subseteq> F} j t"
  shows "tracked rel s r {i. page_blocks s c i \<subseteq> F} (j + n) (snd (fast_pages rel s M 0 n (of_nat j) (pm, t)))
    \<and> tally s (c\<lparr>CtxPageMap := fst (fast_pages rel s M 0 n (of_nat j) (pm, t))\<rparr>) F"
  using assms(2,3,5)
proof (induction n arbitrary: j pm t)
  case (Suc n)
  have j: "j < pages c" using Suc.prems(2) by simp
  obtain pm' t' where r: "release_page rel s 0 (of_nat j) M (pm, t) = (pm', t')"
    and n: "tally s (c\<lparr>CtxPageMap := pm'\<rparr>) F" "tracked rel s r {i. page_blocks s c i \<subseteq> F} (Suc j) t'"
    using release_page_step [OF assms(1) Suc.prems(1) j assms(4) [OF j] Suc.prems(3)] by blast
  show ?case using Suc.IH [OF n(1) _ n(2)] Suc.prems(2) by (simp add: r add.commute)
qed simp

lemma slow_pages_spec:
  assumes c: "ctx_ok s c" and "tally s (c\<lparr>CtxPageMap := pm\<rparr>) F" "j + n \<le> pages c"
    and "tracked rel s r {i. page_blocks s c i \<subseteq> F} j t"
    and "unat (fst b) = (first_page c + j) * 2 ^ s" "unat (snd b) = ceil_div ((first_page c + j) * 2 ^ s) (blk c) * blk c"
  shows "tracked rel s r {i. page_blocks s c i \<subseteq> F} (j + n)
      (snd (slow_pages rel s (CtxBlockSize c) 0 n (of_nat j) b (pm, t)))
    \<and> tally s (c\<lparr>CtxPageMap := fst (slow_pages rel s (CtxBlockSize c) 0 n (of_nat j) b (pm, t))\<rparr>) F"
  using assms(2-)
proof (induction n arbitrary: j pm t b)
  case (Suc n)
  let ?P = "(2::nat) ^ s"
  have j: "j < pages c" using Suc.prems(2) by simp
  obtain k b' where nb: "next_page_count (push_bit s 1) (CtxBlockSize c) b = (k, b')" by (metis surj_pair)
  have s: "s < 32" and B: "0 < blk c" "blk c < 140737488355328"
    and lim: "(first_page c + pages c) * ?P \<le> 140737488355328" using c by (simp_all add: ctx_ok_def)
  have P: "unat (push_bit s 1 :: uptr) = ?P" using s by (intro unat_push_bit_1) simp
  have P32: "?P \<le> 4294967296" using s power_increasing [of s 32 "2::nat"] by simp
  have "(first_page c + j) * ?P \<le> (first_page c + pages c) * ?P" using j by (intro mult_le_mono1) simp
  then have "unat (fst b) + ?P + 2 * blk c < 9223372036854775808" using Suc.prems(4) lim P32 B(2) by linarith
  then have small: "unat (fst b) + unat (push_bit s 1 :: uptr) + 2 * unat (CtxBlockSize c) < 2 ^ 63"
    by (simp only: P blk_def) simp
  have nc: "next_page_count (push_bit s 1) (CtxBlockSize c) (fst b, snd b) = (k, fst b', snd b')" using nb by simp
  note np = next_page_count_spec [OF B(1) [unfolded blk_def] _ small _ nc, unfolded P, folded blk_def, unfolded Suc.prems(4,5), OF _ refl]
  have e: "(first_page c + j) * ?P + ?P = (first_page c + Suc j) * ?P" by simp
  have k: "unat k = card (page_blocks s c j)" using np(1) by (simp add: page_blocks_def)
  have b': "unat (fst b') = (first_page c + Suc j) * ?P" "unat (snd b') = ceil_div ((first_page c + Suc j) * ?P) (blk c) * blk c"
    using np(2,3) unfolding e by simp_all
  obtain pm' t' where r: "release_page rel s 0 (of_nat j) k (pm, t) = (pm', t')"
    and n: "tally s (c\<lparr>CtxPageMap := pm'\<rparr>) F" "tracked rel s r {i. page_blocks s c i \<subseteq> F} (Suc j) t'"
    using release_page_step [OF c Suc.prems(1) j k Suc.prems(3)] by blast
  show ?case using Suc.IH [OF n(1) _ n(2) b'] Suc.prems(2) by (simp add: r nb [unfolded push_bit_of_1] add.commute)
qed simp

lemma start_boundaries_spec:
  assumes "ctx_ok s c"
  shows "unat (fst (start_boundaries s c)) = first_page c * 2 ^ s"
    and "unat (snd (start_boundaries s c)) = ceil_div (first_page c * 2 ^ s) (blk c) * blk c"
proof -
  have B: "0 < unat (CtxBlockSize c)" "unat (CtxBlockSize c) < 140737488355328"
    and lim: "first_page c * 2 ^ s \<le> 140737488355328" using assms by (simp_all add: ctx_ok_def add_mult_distrib blk_def)
  have p: "unat (push_bit s (CtxReleasePageOffset c)) = first_page c * 2 ^ s"
    using lim unfolding first_page_def by (intro unat_push_bit_small) simp
  have z: "ceil_div 0 (blk c) = 0" using ceil_div_mult [OF B(1), of 0] by (simp add: blk_def)
  have "unat (push_bit s (CtxReleasePageOffset c)) + unat (CtxBlockSize c) < 2 ^ 64" using lim B(2) unfolding p by simp
  note r = unat_roundUpSlow [OF B(1) this, unfolded p, folded blk_def]
  have "CtxReleasePageOffset c = 0 \<Longrightarrow> first_page c = 0" by (simp add: first_page_def)
  then show "unat (fst (start_boundaries s c)) = first_page c * 2 ^ s"
    "unat (snd (start_boundaries s c)) = ceil_div (first_page c * 2 ^ s) (blk c) * blk c"
    using p r z by (auto simp: start_boundaries_def Let_def blk_def word_gt_0)
qed

text \<open>What the whole release reports.\<close>

lemma release_reports:
  assumes c: "ctx_ok s c" and t: "tally s c F"
  shows "\<exists>rs. snd (releaseFreeMemoryToOS rel s c (\<lambda>_. False) r) = report rel s rs r
    \<and> maximal_runs rs {j. j < pages c \<and> page_blocks s c j \<subseteq> F}
    \<and> \<not> AccessOutside (CtxPageMap (fst (releaseFreeMemoryToOS rel s c (\<lambda>_. False) r)))"
proof -
  let ?A = "{i. page_blocks s c i \<subseteq> F}"
  have n: "CtxNumberOfRegions c = 1" using c by (simp add: ctx_ok_def)
  let ?st = "release_region rel s c (\<lambda>_. False) 0 (CtxPageMap c, tracker_init r)"
  have t': "tally s (c\<lparr>CtxPageMap := CtxPageMap c\<rparr>) F" using t by simp
  have st: "tracked rel s r ?A (pages c) (snd ?st) \<and> tally s (c\<lparr>CtxPageMap := fst ?st\<rparr>) F"
  proof (cases "CtxSameBlockCountPerPage c")
    case True
    then have "unat (CtxFullPagesBlockCountMax c) = card (page_blocks s c i)" for i using c by (simp add: ctx_ok_def)
    from fast_pages_spec [OF c t', of 0 "pages c", OF _ this tracked_init [of rel s r]] True
    show ?thesis by (simp add: release_region_def pages_def)
  next
    case False
    from slow_pages_spec [OF c t', of 0 "pages c", OF _ tracked_init [of rel s r]] start_boundaries_spec [OF c] False
    show ?thesis by (simp add: release_region_def pages_def)
  qed
  from tracked_close(1) [OF conjunct1 [OF this]] have "\<exists>rs. Recorder (closeOpenedRange rel s (snd ?st)) = report rel s rs r
      \<and> maximal_runs rs (?A \<inter> {..<pages c})" by blast
  moreover have "snd (releaseFreeMemoryToOS rel s c (\<lambda>_. False) r) = Recorder (closeOpenedRange rel s (snd ?st))"
    by (simp add: releaseFreeMemoryToOS_def n tracker_finish_def split: prod.splits)
  moreover have "?A \<inter> {..<pages c} = {j. j < pages c \<and> page_blocks s c j \<subseteq> F}" by auto
  moreover have "fst (releaseFreeMemoryToOS rel s c (\<lambda>_. False) r) = c\<lparr>CtxPageMap := fst ?st\<rparr>"
    by (simp add: releaseFreeMemoryToOS_def n split: prod.splits)
  moreover have "\<not> AccessOutside (fst ?st)" using st by (auto simp: tally_def wf_map_def)
  ultimately show ?thesis by simp
qed

section \<open>From the free list to the system calls\<close>

text \<open>The call of \<^verbatim>\<open>releasePagesToOS\<close> for a run of pages.\<close>

definition run_bytes :: "nat \<Rightarrow> release_recorder \<Rightarrow> nat \<times> nat \<Rightarrow> uptr \<times> uptr" where
  "run_bytes s r x = (RecBase r + RecOffset r + of_nat (fst x * 2 ^ s), of_nat ((snd x - fst x) * 2 ^ s))"

lemma report_calls:
  "\<forall>x \<in> set rs. fst x < snd x \<Longrightarrow>
    OsReleases (report RegionReleaseRecorder_release s rs r) = OsReleases r @ map (run_bytes s r) rs"
proof (induction rs arbitrary: r)
  case (Cons x rs)
  have p: "push_bit s (of_nat a :: uptr) = of_nat (a * 2 ^ s)" for a by (simp add: push_bit_eq_mult)
  have d: "push_bit s (of_nat (snd x)) - push_bit s (of_nat (fst x) :: uptr) = of_nat ((snd x - fst x) * 2 ^ s)"
    using Cons.prems by (simp add: p of_nat_diff left_diff_distrib)
  have f: "run_bytes s (RegionReleaseRecorder_release a b r) = run_bytes s r" for a b
    by (simp add: fun_eq_iff run_bytes_def RegionReleaseRecorder_release_def Let_def)
  show ?case using Cons.IH [of "RegionReleaseRecorder_release (push_bit s (of_nat (fst x))) (push_bit s (of_nat (snd x))) r"] Cons.prems
    unfolding f by (simp add: report_def run_bytes_def RegionReleaseRecorder_release_def Let_def d p left_diff_distrib)
qed (simp add: report_def)

text \<open>C9: Releasing the pages of a region. When the free list of a region, each block at most once, has been
  marked in a new context, \<^verbatim>\<open>releaseFreeMemoryToOS\<close> gives the system exactly the pages of the range
  all of whose blocks are on the list, the bytes after the last block of the region counting as free,
  in maximal runs of increasing address: no page with a live block is released and no free page is left. No
  access to the counters is outside of their buffer. This
  covers the packed counters, the count that is the same on every page and the boundary walk for
  the block sizes where it is not.\<close>

lemma released_pages_exact:
  fixes s :: nat and B Off Size R Base :: uptr and num :: "'c \<Rightarrow> nat"
  defines "P \<equiv> (2::nat) ^ s"
  assumes "s < 32" "0 < unat B" "unat B < 2 ^ 47" "unat Off div P * P + unat Size + P \<le> 2 ^ 47"
    and "markFreeBlocksInRegion map_ok s FL Dec Base 0 R lst (PageReleaseContext_init s B 1 Size Off, M) = (True, c, M')"
    and "distinct (map num (concat FL))"
    and "\<forall>p \<in> set (concat FL). unat (Dec p - Base) = num p * unat B \<and> unat Off div P * P \<le> num p * unat B
      \<and> num p * unat B < (unat Off div P + ceil_div (unat Size) P) * P"
    and "lst \<Longrightarrow> unat R = n * unat B \<and> 0 < n \<and> unat Off div P + ceil_div (unat Size) P = ceil_div (unat R) P
      \<and> 0 < unat Size \<and> (\<forall>p \<in> set (concat FL). num p < n)"
  shows "\<exists>rs. OsReleases (snd (releaseFreeMemoryToOS RegionReleaseRecorder_release s c (\<lambda>_. False) r))
      = OsReleases r @ map (run_bytes s r) rs
    \<and> maximal_runs rs {j. j < ceil_div (unat Size) P
        \<and> blocks_on (unat B) ((unat Off div P + j) * P) P \<subseteq> num ` set (concat FL) \<union> (if lst then {n..} else {})}
    \<and> \<not> AccessOutside (CtxPageMap (fst (releaseFreeMemoryToOS RegionReleaseRecorder_release s c (\<lambda>_. False) r)))"
proof -
  let ?F = "num ` set (concat FL) \<union> (if lst then {n..} else {})"
  note i = init_ok [OF assms(3,4,2) assms(5) [unfolded P_def]]
  have P0: "0 < P" by (simp add: P_def)
  have pos: "0 < ceil_div (unat Size) P" if "0 < unat Size"
    using ceil_div_bounds [OF P0, of "unat Size"] that by (cases "ceil_div (unat Size) P") simp_all
  have R: "lst \<Longrightarrow> unat R = n * unat B \<and> 0 < n \<and> unat Off div P + ceil_div (unat Size) P = ceil_div (unat R) P
      \<and> 0 < ceil_div (unat Size) P" and below: "lst \<Longrightarrow> \<forall>p \<in> set (concat FL). num p < n"
    using assms(9) pos by blast+
  note m = markFreeBlocks_tally [OF i(1,5) assms(6,7), unfolded i(2-4), folded P_def, OF assms(8) R below]
  then obtain pm where c: "c = PageReleaseContext_init s B 1 Size Off\<lparr>CtxPageMap := pm\<rparr>" and t: "tally s c ?F" by blast
  have ok: "ctx_ok s c" using i(1) by (simp add: c)
  have "blk c = unat B" "first_page c = unat Off div P" "pages c = ceil_div (unat Size) P"
    using i(2-4) by (simp_all add: c P_def)
  note e = this
  from release_reports [OF ok t, of RegionReleaseRecorder_release r, unfolded page_blocks_def e, folded P_def]
  obtain rs where rs: "snd (releaseFreeMemoryToOS RegionReleaseRecorder_release s c (\<lambda>_. False) r) = report RegionReleaseRecorder_release s rs r"
    "maximal_runs rs {j. j < ceil_div (unat Size) P \<and> blocks_on (unat B) ((unat Off div P + j) * P) P \<subseteq> ?F}"
    "\<not> AccessOutside (CtxPageMap (fst (releaseFreeMemoryToOS RegionReleaseRecorder_release s c (\<lambda>_. False) r)))" by blast
  from rs(2) have "\<forall>x \<in> set rs. fst x < snd x" by (simp add: maximal_runs_def)
  from report_calls [OF this] rs show ?thesis by (intro exI [of _ rs]) simp
qed

lemma example_pages:
  "{j. j < ceil_div (unat (9216 :: uptr)) 4096 \<and> blocks_on (unat (3072 :: uptr)) ((unat (0 :: uptr) div 4096 + j) * 4096) 4096
     \<subseteq> {0, 1} \<union> {3..}} = {0}"
proof -
  have c: "ceil_div 9216 4096 = 3" by (simp add: ceil_div_def)
  have z: "blocks_on 3072 (0 * 4096) 4096 = {0 ..< 2}"
    and o: "blocks_on 3072 (1 * 4096) 4096 = {1 ..< 3}" "blocks_on 3072 (2 * 4096) 4096 = {2 ..< 4}"
    by (simp_all add: blocks_on_interval ceil_div_def)
  have sub: "{0 ..< 2} \<subseteq> {0, 1} \<union> {3::nat ..}" "\<not> {1 ..< 3} \<subseteq> {0, 1} \<union> {3::nat ..}"
    "\<not> {2 ..< 4} \<subseteq> {0, 1} \<union> {3::nat ..}"
    by (auto simp: subset_eq intro!: bexI [of _ 2])
  have "j < 3 \<and> blocks_on 3072 (j * 4096) 4096 \<subseteq> {0, 1} \<union> {3..} \<longleftrightarrow> j = 0" for j
  proof -
    consider "j = 0" | "j = 1" | "j = 2" | "\<not> j < 3" by linarith
    then show ?thesis
    proof cases
      case 1
      show ?thesis unfolding 1 z using sub(1) by simp
    next
      case 2
      show ?thesis unfolding 2 o by (simp only: sub simp_thms one_neq_zero)
    next
      case 3
      show ?thesis unfolding 3 o by (simp only: sub simp_thms numeral_neq_zero)
    qed simp
  qed
  then show ?thesis by (simp add: c)
qed

text \<open>Marking fails only when there is no memory for the counters.\<close>

lemma mark_succeeds: "fst (markFreeBlocksInRegion (\<lambda>_. True) s FL Dec Base I R lst cm)"
  by (auto simp: markFreeBlocksInRegion_def ensurePageMapAllocated_def page_map_reset_def isAllocated_def
    getBuffer_def getDynamicBuffer_def Let_def split: prod.splits)

lemma released_pages_exact_witness:
  "\<exists>c M' rs. markFreeBlocksInRegion (\<lambda>_. True) 12 [[1], [0]] (\<lambda>k. 4096 + k * 3072) 4096 0 9216 True
       (PageReleaseContext_init 12 3072 1 9216 0, 3) = (True, c, M')
     \<and> OsReleases (snd (releaseFreeMemoryToOS RegionReleaseRecorder_release 12 c (\<lambda>_. False)
         \<lparr>RecBase = 4096, RecOffset = 0, ReleasedBytes = 0, OsReleases = []\<rparr>))
       = map (run_bytes 12 \<lparr>RecBase = 4096, RecOffset = 0, ReleasedBytes = 0, OsReleases = []\<rparr>) rs
     \<and> maximal_runs rs {0}"
proof -
  let ?r = "\<lparr>RecBase = 4096, RecOffset = 0, ReleasedBytes = 0, OsReleases = []\<rparr>"
  have ex: "\<exists>c M'. x = (True, c, M')" if "fst x" for x :: "bool \<times> page_release_context \<times> uptr"
    using that by (cases x) simp
  obtain c M' where m: "markFreeBlocksInRegion (\<lambda>_. True) 12 [[1], [0]] (\<lambda>k. 4096 + k * 3072) 4096 0 9216 True
      (PageReleaseContext_init 12 3072 1 9216 0, 3) = (True, c, M')"
    using ex [OF mark_succeeds] by blast
  have "distinct (map (unat :: uptr \<Rightarrow> nat) (concat [[1], [0]]))" by simp
  from released_pages_exact [OF _ _ _ _ m this, of 3 ?r] example_pages show ?thesis
    using m by (auto simp: ceil_div_def insert_commute)
qed

end
