(* ===== verification/Timing.thy ===== *)
theory Timing
  imports Report
begin

text \<open>
  \<^verbatim>\<open>timing.h\<close>, \<^verbatim>\<open>timing.cpp\<close>: timers that measure scopes and the manager they report to. A timer is bound to
  the manager at address \<open>TManager\<close>, or to none (0). The manager's state is \<open>timing_manager\<close>; its lock makes each
  operation one step. What is printed is the list of the \<^verbatim>\<open>append\<close> calls.

  \<open>timer_run\<close> is the relation of the states that a program with one manager can lead to. In each of them, a
  report ends, shows every timer that is not nested in a cycle once and indented by its depth, and the numbers
  it shows are the number, sum and maximum of the times that were reported.
\<close>

unbundle bit_operations_syntax

section \<open>Timers\<close>

definition MaxNumberOfTimers :: u32 where "MaxNumberOfTimers = 50"
definition MaxLenOfTimerName :: u32 where "MaxLenOfTimerName = 50"
definition DefaultPrintingInterval :: u32 where "DefaultPrintingInterval = 100"

record timer =
  StartTime :: u64
  AccTime :: u64
  TManager :: uptr
  HandleId :: u32

definition Timer :: "uptr \<Rightarrow> u32 \<Rightarrow> timer" where
  "Timer Manager Handle = \<lparr>StartTime = 0, AccTime = 0, TManager = Manager, HandleId = Handle\<rparr>"

text \<open>The move constructor: the new timer, and the one it was moved from.\<close>

definition timer_move :: "timer \<Rightarrow> timer \<times> timer" where
  "timer_move Other = (Other\<lparr>StartTime := 0\<rparr>, Other\<lparr>TManager := 0\<rparr>)"

definition timer_start :: "u64 \<Rightarrow> timer \<Rightarrow> timer result" where
  "timer_start now T = bindE (CHECK (StartTime T = 0) ''StartTime == 0U'') (\<lambda>_. Inr (T\<lparr>StartTime := now\<rparr>))"

definition timer_stop :: "u64 \<Rightarrow> timer \<Rightarrow> timer" where
  "timer_stop now T = T\<lparr>AccTime := AccTime T + (now - StartTime T), StartTime := 0\<rparr>"

definition getAccumulatedTime :: "timer \<Rightarrow> u64" where
  "getAccumulatedTime T = AccTime T"

definition timer_ignore :: "timer \<Rightarrow> timer" where
  "timer_ignore T = T\<lparr>StartTime := 0, AccTime := 0, TManager := 0\<rparr>"

section \<open>The manager\<close>

record timing_record =
  AccumulatedTime :: u64
  Occurrence :: u64
  MaxTime :: u64

record timer_info =
  TName :: string
  Nesting :: u32

record timing_manager =
  PrintingInterval :: u32
  NumEventsReported :: u64
  NumAllocatedTimers :: u32
  Timers :: "timer_info list"
  TimerRecords :: "timing_record list"

definition TimingManager :: "u32 \<Rightarrow> timing_manager" where
  "TimingManager Interval =
     \<lparr>PrintingInterval = Interval, NumEventsReported = 0, NumAllocatedTimers = 0,
      Timers = replicate (unat MaxNumberOfTimers) \<lparr>TName = '''', Nesting = MaxNumberOfTimers\<rparr>,
      TimerRecords = replicate (unat MaxNumberOfTimers) \<lparr>AccumulatedTime = 0, Occurrence = 0, MaxTime = 0\<rparr>\<rparr>"

text \<open>The first timer with the name, at or after \<open>I\<close>: \<^verbatim>\<open>strncmp\<close> compares up to \<open>MaxLenOfTimerName\<close> characters.\<close>

fun find_timer :: "string \<Rightarrow> timer_info list \<Rightarrow> u32 \<Rightarrow> u32 option" where
  "find_timer Name [] I = None"
| "find_timer Name (T # Ts) I =
     (if take (unat MaxLenOfTimerName) Name = take (unat MaxLenOfTimerName) (TName T) then Some I
      else find_timer Name Ts (I + 1))"

definition getOrCreateTimer :: "uptr \<Rightarrow> string \<Rightarrow> timing_manager \<Rightarrow> (timer \<times> timing_manager) result" where
  "getOrCreateTimer this Name m =
     bindE (CHECK (length Name < unat MaxLenOfTimerName) ''strlen(Name) < MaxLenOfTimerName'') (\<lambda>_.
     (case find_timer Name (take (unat (NumAllocatedTimers m)) (Timers m)) 0 of
        Some I \<Rightarrow> Inr (Timer this I, m)
      | None \<Rightarrow>
        bindE (CHECK (NumAllocatedTimers m < MaxNumberOfTimers) ''NumAllocatedTimers < MaxNumberOfTimers'') (\<lambda>_.
        let N = unat (NumAllocatedTimers m) in
        Inr (Timer this (NumAllocatedTimers m),
             m\<lparr>Timers := (Timers m)[N := (Timers m ! N)\<lparr>TName := take (unat MaxLenOfTimerName) Name\<rparr>],
               TimerRecords := (TimerRecords m)[N := \<lparr>AccumulatedTime = 0, Occurrence = 0, MaxTime = 0\<rparr>],
               NumAllocatedTimers := NumAllocatedTimers m + 1\<rparr>))))"

definition nest :: "uptr \<Rightarrow> timer \<Rightarrow> string \<Rightarrow> timing_manager \<Rightarrow> (timer \<times> timing_manager) result" where
  "nest this T Name m =
     bindE (CHECK (TManager T = this) ''T.Manager == this'') (\<lambda>_.
     bindE (getOrCreateTimer this Name m) (\<lambda>(New, m).
     bindE (CHECK (HandleId New \<noteq> HandleId T) ''Nesting.HandleId != T.HandleId'') (\<lambda>_.
     let H = unat (HandleId New) in
     Inr (New, m\<lparr>Timers := (Timers m)[H := (Timers m ! H)\<lparr>Nesting := HandleId T\<rparr>]\<rparr>))))"

section \<open>The report\<close>

text \<open>The calls for one timer, before those for the timers nested in it.\<close>

definition timer_lines :: "timing_manager \<Rightarrow> u32 \<Rightarrow> nat \<Rightarrow> (string \<times> fmt_arg list) list" where
  "timer_lines m Handle ExtraIndent =
     (let R = TimerRecords m ! unat Handle;
          AccTime = AccumulatedTime R;
          Occ = Occurrence R;
          Integral = (if Occ = 0 then 0 else AccTime div Occ);
          Fraction = (if Occ = 0 then 0 else ((AccTime mod Occ) * 10) div Occ)
      in [(''%14ld.%ld(ns) %-8s'', [ArgNum Integral, ArgNum Fraction, StrArg '' '']),
          (''%16ld(ns) %-11s'', [ArgNum (MaxTime R), StrArg '' ''])]
         @ replicate ExtraIndent (''%s'', [StrArg ''  ''])
         @ [(''%s (%ld)'' @ newline, [StrArg (TName (Timers m ! unat Handle)), ArgNum Occ])])"

text \<open>The loop of \<^verbatim>\<open>getImpl\<close> over the timers from \<open>I\<close> on, which calls \<^verbatim>\<open>getImpl\<close> for those nested in \<open>Handle\<close>. The
  loop of \<^verbatim>\<open>getAllImpl\<close> is the one for the timers that are nested in none, \<open>MaxNumberOfTimers\<close>, without
  indentation.\<close>

partial_function (option) nested_timers ::
    "timing_manager \<Rightarrow> u32 \<Rightarrow> nat \<Rightarrow> nat \<Rightarrow> (string \<times> fmt_arg list) list option" where
  "nested_timers m Handle Indent I =
     (if unat (NumAllocatedTimers m) \<le> I then Some []
      else if Nesting (Timers m ! I) \<noteq> Handle then nested_timers m Handle Indent (I + 1)
      else Option.bind (nested_timers m (of_nat I) (Indent + 1) 0) (\<lambda>inner.
           Option.bind (nested_timers m Handle Indent (I + 1)) (\<lambda>rest.
           Some (timer_lines m (of_nat I) Indent @ inner @ rest))))"

definition getImpl :: "timing_manager \<Rightarrow> u32 \<Rightarrow> nat \<Rightarrow> (string \<times> fmt_arg list) list option" where
  "getImpl m Handle ExtraIndent =
     Option.bind (nested_timers m Handle (ExtraIndent + 1) 0) (\<lambda>inner. Some (timer_lines m Handle ExtraIndent @ inner))"

definition timing_header :: "string \<times> fmt_arg list" where
  "timing_header = (''%-15s %-15s %-15s'' @ newline,
     [StrArg ''-- Average Operation Time --'', StrArg ''-- Maximum Operation Time --'', StrArg ''-- Name (# of Calls) --''])"

definition getAllImpl :: "timing_manager \<Rightarrow> (string \<times> fmt_arg list) list result" where
  "getAllImpl m =
     (case nested_timers m MaxNumberOfTimers 0 0 of None \<Rightarrow> Inl Diverges | Some calls \<Rightarrow> Inr (timing_header # calls))"

text \<open>\<^verbatim>\<open>report\<close>; the second component is what it prints. \<^verbatim>\<open>PrintingInterval\<close> must not be 0.\<close>

definition timing_report :: "timer \<Rightarrow> timing_manager \<Rightarrow> (timing_manager \<times> (string \<times> fmt_arg list) list) result" where
  "timing_report T m =
     (let H = HandleId T in
      bindE (CHECK (H < MaxNumberOfTimers) ''HandleId < MaxNumberOfTimers'') (\<lambda>_.
      let Acc = getAccumulatedTime T;
          R = TimerRecords m ! unat H;
          R = R\<lparr>AccumulatedTime := AccumulatedTime R + Acc\<rparr>;
          R = (if Acc > MaxTime R then R\<lparr>MaxTime := Acc\<rparr> else R);
          R = R\<lparr>Occurrence := Occurrence R + 1\<rparr>;
          m = m\<lparr>TimerRecords := (TimerRecords m)[unat H := R], NumEventsReported := NumEventsReported m + 1\<rparr>
      in if NumEventsReported m mod ucast (PrintingInterval m) = 0
         then bindE (getAllImpl m) (\<lambda>calls. Inr (m, calls))
         else Inr (m, [])))"

text \<open>The destructor of a timer, whose manager is \<open>m\<close> if it has one; and of the manager.\<close>

definition timer_destroy :: "timer \<Rightarrow> timing_manager \<Rightarrow> (timing_manager \<times> (string \<times> fmt_arg list) list) result" where
  "timer_destroy T m = (if TManager T \<noteq> 0 then timing_report T m else Inr (m, []))"

definition manager_destroy :: "timing_manager \<Rightarrow> (string \<times> fmt_arg list) list result" where
  "manager_destroy m = (if NumAllocatedTimers m \<noteq> 0 then getAllImpl m else Inr [])"

text \<open>\<^verbatim>\<open>ScopedTimer\<close>: started when it is made, stopped and reported when its scope ends.\<close>

definition scoped_timer :: "uptr \<Rightarrow> string \<Rightarrow> u64 \<Rightarrow> timing_manager \<Rightarrow> (timer \<times> timing_manager) result" where
  "scoped_timer this Name now m =
     bindE (getOrCreateTimer this Name m) (\<lambda>(T, m). bindE (timer_start now T) (\<lambda>T. Inr (T, m)))"

definition scoped_timer_nested :: "uptr \<Rightarrow> timer \<Rightarrow> string \<Rightarrow> u64 \<Rightarrow> timing_manager \<Rightarrow> (timer \<times> timing_manager) result" where
  "scoped_timer_nested this Nest Name now m =
     bindE (nest this Nest Name m) (\<lambda>(T, m). bindE (timer_start now T) (\<lambda>T. Inr (T, m)))"

definition scoped_timer_destroy ::
    "u64 \<Rightarrow> timer \<Rightarrow> timing_manager \<Rightarrow> (timing_manager \<times> (string \<times> fmt_arg list) list) result" where
  "scoped_timer_destroy now T m = timer_destroy (timer_stop now T) m"

section \<open>Depths\<close>

definition manager_ok :: "timing_manager \<Rightarrow> bool" where
  "manager_ok m \<longleftrightarrow> length (Timers m) = 50 \<and> length (TimerRecords m) = 50 \<and> unat (NumAllocatedTimers m) \<le> 50"

text \<open>Timer \<open>K\<close> is nested in timer \<open>P\<close>; and its depth, when the chain ends at a timer that is nested in none.\<close>

definition nests :: "timing_manager \<Rightarrow> (nat \<times> nat) set" where
  "nests m = {(P, K). P < unat (NumAllocatedTimers m) \<and> K < unat (NumAllocatedTimers m) \<and> Nesting (Timers m ! K) = of_nat P}"

inductive nested_at :: "timing_manager \<Rightarrow> nat \<Rightarrow> nat \<Rightarrow> bool" for m where
  root: "K < unat (NumAllocatedTimers m) \<Longrightarrow> Nesting (Timers m ! K) = MaxNumberOfTimers \<Longrightarrow> nested_at m K 0"
| child: "nested_at m P d \<Longrightarrow> (P, K) \<in> nests m \<Longrightarrow> nested_at m K (Suc d)"

lemma nested_at_less: "nested_at m K d \<Longrightarrow> K < unat (NumAllocatedTimers m)"
  by (induction rule: nested_at.induct) (simp_all add: nests_def)

lemma of_nat_handle:
  assumes "manager_ok m" "P < unat (NumAllocatedTimers m)"
  shows "unat (of_nat P :: u32) = P" "(of_nat P :: u32) \<noteq> MaxNumberOfTimers"
proof -
  have "P < 50" using assms by (simp add: manager_ok_def)
  then show u: "unat (of_nat P :: u32) = P" by (intro unat_of_nat_small) simp
  have "unat MaxNumberOfTimers = 50" by (simp add: MaxNumberOfTimers_def)
  then show "(of_nat P :: u32) \<noteq> MaxNumberOfTimers" using \<open>P < 50\<close> u by (metis less_irrefl)
qed

lemma nests_unique: "manager_ok m \<Longrightarrow> (P, K) \<in> nests m \<Longrightarrow> (Q, K) \<in> nests m \<Longrightarrow> P = Q"
proof -
  assume a: "manager_ok m" "(P, K) \<in> nests m" "(Q, K) \<in> nests m"
  then have "(of_nat P :: u32) = of_nat Q" "P < unat (NumAllocatedTimers m)" "Q < unat (NumAllocatedTimers m)"
    by (auto simp: nests_def)
  then show "P = Q" using of_nat_handle(1) [OF a(1)] by metis
qed

lemma nested_at_unique: "nested_at m K d \<Longrightarrow> manager_ok m \<Longrightarrow> nested_at m K e \<Longrightarrow> d = e"
proof (induction arbitrary: e rule: nested_at.induct)
  case (root K)
  from root(4) show ?case
  proof cases
    case root
    then show ?thesis by simp
  next
    case (child P d)
    then show ?thesis using root of_nat_handle(2) [OF root(3), of P] by (simp add: nests_def)
  qed
next
  case (child P d K)
  from child.prems(2) show ?case
  proof cases
    case root
    have "P < unat (NumAllocatedTimers m)" "of_nat P = MaxNumberOfTimers"
      using child.hyps(2) root(3) by (simp_all add: nests_def)
    then show ?thesis using of_nat_handle(2) [OF child.prems(1)] by blast
  next
    case (child Q f)
    then show ?thesis using child.IH [of f] nests_unique [of m P K Q] child.hyps child.prems(1) by metis
  qed
qed

lemma nested_at_bound:
  assumes "manager_ok m" "nested_at m K d"
  shows "d < unat (NumAllocatedTimers m)"
proof -
  have "\<forall>k \<le> d. \<exists>K. nested_at m K k"
    using assms(2)
  proof (induction rule: nested_at.induct)
    case (child P d K)
    then show ?case using nested_at.child [OF child.hyps] by (auto simp: le_Suc_eq)
  qed (use nested_at.root in auto)
  then obtain f where f: "\<And>k. k \<le> d \<Longrightarrow> nested_at m (f k) k" by metis
  have "inj_on f {..d}" using f nested_at_unique [OF _ assms(1)] by (intro inj_onI) (metis atMost_iff)
  moreover have "f ` {..d} \<subseteq> {..<unat (NumAllocatedTimers m)}" using f nested_at_less by fastforce
  ultimately have "card {..d} \<le> card {..<unat (NumAllocatedTimers m)}" by (intro card_inj_on_le) simp_all
  then show ?thesis by simp
qed

lemma below_depth:
  assumes "(J, K) \<in> (nests m)\<^sup>*" "nested_at m J d"
  shows "\<exists>e. nested_at m K (d + e) \<and> (J = K \<or> 0 < e)"
  using assms
proof (induction rule: rtrancl_induct)
  case base
  then show ?case by (intro exI [of _ 0]) simp
next
  case (step P K)
  then obtain e where "nested_at m P (d + e)" by blast
  then have "nested_at m K (d + Suc e)" using nested_at.child step.hyps(2) by simp
  then show ?case by blast
qed

lemma below_unique:
  assumes ok: "manager_ok m" and "(J, K) \<in> (nests m)\<^sup>*" "(J', K) \<in> (nests m)\<^sup>*" "nested_at m J d" "nested_at m J' d"
  shows "J = J'"
  using assms(2,3)
proof (induction rule: rtrancl_induct)
  case base
  then show ?case using below_depth [OF _ assms(5), of J] nested_at_unique [OF _ ok assms(4)] by fastforce
next
  case (step P K)
  show ?case
  proof (cases "J' = K")
    case True
    have "(J, K) \<in> (nests m)\<^sup>*" using step.hyps by (rule rtrancl_into_rtrancl)
    from below_depth [OF this assms(4)] True show ?thesis using nested_at_unique [OF _ ok assms(5)] by fastforce
  next
    case False
    then obtain Q where "(J', Q) \<in> (nests m)\<^sup>*" "(Q, K) \<in> nests m" using step.prems by (metis rtranclE)
    then show ?thesis using step nests_unique [OF ok] by metis
  qed
qed

lemma nested_at_below: "nested_at m K d \<Longrightarrow> \<exists>J. nested_at m J 0 \<and> (J, K) \<in> (nests m)\<^sup>*"
  by (induction rule: nested_at.induct) (blast intro: nested_at.root rtrancl_into_rtrancl)+

section \<open>What a report shows\<close>

definition shown :: "timing_manager \<Rightarrow> (nat \<times> nat) list \<Rightarrow> (string \<times> fmt_arg list) list" where
  "shown m vs = concat (map (\<lambda>(K, d). timer_lines m (of_nat K) d) vs)"

text \<open>The timers from \<open>I\<close> on that are nested in \<open>Handle\<close>, and those below them.\<close>

definition subtimers :: "timing_manager \<Rightarrow> u32 \<Rightarrow> nat \<Rightarrow> nat set" where
  "subtimers m Handle I = {K. \<exists>J. I \<le> J \<and> J < unat (NumAllocatedTimers m) \<and> Nesting (Timers m ! J) = Handle \<and> (J, K) \<in> (nests m)\<^sup>*}"

definition level :: "timing_manager \<Rightarrow> u32 \<Rightarrow> nat \<Rightarrow> bool" where
  "level m Handle Indent \<longleftrightarrow> (\<forall>J < unat (NumAllocatedTimers m). Nesting (Timers m ! J) = Handle \<longrightarrow> nested_at m J Indent)"

lemma level_child: "nested_at m I d \<Longrightarrow> level m (of_nat I) (Suc d)"
  using nested_at_less [of m I d] nested_at.child [of m I d] by (auto simp: level_def nests_def)

lemma subtimers_step:
  assumes "I < unat (NumAllocatedTimers m)"
  shows "Nesting (Timers m ! I) \<noteq> Handle \<Longrightarrow> subtimers m Handle I = subtimers m Handle (Suc I)"
    and "Nesting (Timers m ! I) = Handle \<Longrightarrow>
      subtimers m Handle I = insert I (subtimers m (of_nat I) 0) \<union> subtimers m Handle (Suc I)"
proof -
  have e: "I \<le> J \<longleftrightarrow> J = I \<or> Suc I \<le> J" for J by linarith
  show "Nesting (Timers m ! I) \<noteq> Handle \<Longrightarrow> subtimers m Handle I = subtimers m Handle (Suc I)"
    by (auto simp: subtimers_def e)
  have b: "{K. (I, K) \<in> (nests m)\<^sup>*} = insert I (subtimers m (of_nat I) 0)"
  proof (intro set_eqI iffI; simp)
    fix K
    assume "(I, K) \<in> (nests m)\<^sup>*"
    then show "K = I \<or> K \<in> subtimers m (of_nat I) 0"
      by (rule converse_rtranclE) (auto simp: subtimers_def nests_def)
  next
    fix K
    assume "K = I \<or> K \<in> subtimers m (of_nat I) 0"
    then show "(I, K) \<in> (nests m)\<^sup>*" using assms
      by (auto simp: subtimers_def nests_def intro: converse_rtrancl_into_rtrancl)
  qed
  show "Nesting (Timers m ! I) = Handle \<Longrightarrow>
      subtimers m Handle I = insert I (subtimers m (of_nat I) 0) \<union> subtimers m Handle (Suc I)"
    unfolding b [symmetric] using assms by (auto simp: subtimers_def e)
qed

lemma nested_timers_shows:
  assumes ok: "manager_ok m" and "level m Handle Indent"
  shows "\<exists>vs. nested_timers m Handle Indent I = Some (shown m vs) \<and> distinct (map fst vs)
    \<and> fst ` set vs = subtimers m Handle I \<and> (\<forall>(K, d) \<in> set vs. nested_at m K d)"
  using assms(2)
proof (induction "Suc (unat (NumAllocatedTimers m)) - Indent" arbitrary: Handle Indent I rule: less_induct)
  case less
  let ?N = "unat (NumAllocatedTimers m)"
  note outer = less.hyps and lev = less.prems
  show ?case
  proof (induction "?N - I" arbitrary: I rule: less_induct)
    case less
    note unf = nested_timers.simps [of m Handle Indent I]
    show ?case
    proof (cases "I < ?N")
      case False
      then show ?thesis using unf by (intro exI [of _ "[]"]) (auto simp: shown_def subtimers_def)
    next
      case True
      obtain ws where ws: "nested_timers m Handle Indent (Suc I) = Some (shown m ws)" "distinct (map fst ws)"
        "fst ` set ws = subtimers m Handle (Suc I)" "\<forall>(K, d) \<in> set ws. nested_at m K d"
        using less [OF diff_less_mono2 [OF lessI True]] by blast
      show ?thesis
      proof (cases "Nesting (Timers m ! I) = Handle")
        case False
        then show ?thesis using unf ws True subtimers_step(1) [OF True False] by auto
      next
        case here: True
        have n: "nested_at m I Indent" using lev True here by (simp add: level_def)
        note nl = level_child [OF n]
        have "Suc ?N - Suc Indent < Suc ?N - Indent" using nested_at_bound [OF ok n] by linarith
        from outer [OF this nl, of 0] obtain us where us: "nested_timers m (of_nat I) (Suc Indent) 0 = Some (shown m us)"
          "distinct (map fst us)" "fst ` set us = subtimers m (of_nat I) 0" "\<forall>(K, d) \<in> set us. nested_at m K d" by blast
        have "nested_timers m Handle Indent I = Some (shown m ((I, Indent) # us @ ws))"
          using unf us(1) ws(1) True here by (simp add: shown_def)
        moreover have "fst ` set ((I, Indent) # us @ ws) = subtimers m Handle I"
          using us(3) ws(3) by (simp add: subtimers_step(2) [OF True here] image_Un)
        moreover have "\<forall>(K, d) \<in> set ((I, Indent) # us @ ws). nested_at m K d" using us(4) ws(4) n by auto
        moreover have "distinct (map fst ((I, Indent) # us @ ws))"
        proof -
          have deep: "\<exists>d. nested_at m K d \<and> Indent < d" if "K \<in> subtimers m (of_nat I) 0" for K
          proof -
            from that obtain J where "J < ?N" "Nesting (Timers m ! J) = of_nat I" "(J, K) \<in> (nests m)\<^sup>*"
              by (auto simp: subtimers_def)
            then show ?thesis using nl below_depth [of J K m "Suc Indent"] by (fastforce simp: level_def)
          qed
          have "I \<notin> subtimers m (of_nat I) 0" using deep nested_at_unique [OF n ok] by blast
          moreover have "K \<notin> subtimers m Handle (Suc I)" if K: "(I, K) \<in> (nests m)\<^sup>*" for K
          proof
            assume "K \<in> subtimers m Handle (Suc I)"
            then obtain J where J: "Suc I \<le> J" "J < ?N" "Nesting (Timers m ! J) = Handle" "(J, K) \<in> (nests m)\<^sup>*"
              by (auto simp: subtimers_def)
            then have "nested_at m J Indent" using lev by (simp add: level_def)
            then have "I = J" using below_unique [OF ok K J(4) n] by blast
            then show False using J(1) by simp
          qed
          moreover have "(I, K) \<in> (nests m)\<^sup>*" if "K = I \<or> K \<in> subtimers m (of_nat I) 0" for K
            using that True by (auto simp: subtimers_def nests_def intro: converse_rtrancl_into_rtrancl)
          ultimately show ?thesis using us(2,3) ws(2,3) by (fastforce simp flip: set_map)
        qed
        ultimately show ?thesis by blast
      qed
    qed
  qed
qed

lemma getAllImpl_shows:
  assumes ok: "manager_ok m"
  shows "\<exists>vs. getAllImpl m = Inr (timing_header # shown m vs) \<and> distinct (map fst vs)
    \<and> set vs = {(K, d). nested_at m K d}"
proof -
  have "level m MaxNumberOfTimers 0" by (simp add: level_def nested_at.root)
  from nested_timers_shows [OF ok this, of 0] obtain vs where
    vs: "nested_timers m MaxNumberOfTimers 0 0 = Some (shown m vs)" "distinct (map fst vs)"
      "fst ` set vs = subtimers m MaxNumberOfTimers 0" "\<forall>(K, d) \<in> set vs. nested_at m K d" by blast
  have sub: "K \<in> subtimers m MaxNumberOfTimers 0" if n: "nested_at m K d" for K d
  proof -
    obtain J where J: "nested_at m J 0" "(J, K) \<in> (nests m)\<^sup>*" using nested_at_below [OF n] by blast
    from J(1) have "Nesting (Timers m ! J) = MaxNumberOfTimers" by cases
    then show ?thesis using J nested_at_less [OF J(1)] by (auto simp: subtimers_def)
  qed
  have "set vs = {(K, d). nested_at m K d}"
  proof (intro set_eqI iffI)
    fix x assume "x \<in> {(K, d). nested_at m K d}"
    then obtain K d where x: "x = (K, d)" "nested_at m K d" by blast
    then obtain e where "(K, e) \<in> set vs" using sub vs(3) by (metis (no_types, lifting) imageE prod.collapse)
    moreover from this vs(4) have "nested_at m K e" by blast
    then have "d = e" by (rule nested_at_unique [OF x(2) ok])
    ultimately show "x \<in> set vs" by (simp add: x(1))
  qed (use vs(4) in auto)
  then show ?thesis using vs(1,2) by (auto simp: getAllImpl_def)
qed

text \<open>The calls format their arguments without failing.\<close>

lemma timer_lines_checked: "\<forall>(f, as) \<in> set (timer_lines m H d). fmt_check f (map kind_of as)"
proof -
  have "fmt_check ''%14ld.%ld(ns) %-8s'' [KNum, KNum, KStr]" "fmt_check ''%16ld(ns) %-11s'' [KNum, KStr]"
    "fmt_check ''%s'' [KStr]" "fmt_check (''%s (%ld)'' @ newline) [KStr, KNum]" by code_simp+
  then show ?thesis by (auto simp: timer_lines_def Let_def simp del: fmt_check.simps)
qed

lemma report_formats: "\<exists>s. append_calls (timing_header # shown m vs) = Inr s"
proof -
  have "fmt_check (''%-15s %-15s %-15s'' @ newline) [KStr, KStr, KStr]" by code_simp
  then have "\<forall>(f, as) \<in> set (timing_header # shown m vs). fmt_check f (map kind_of as)"
    using timer_lines_checked by (auto simp: timing_header_def shown_def simp del: fmt_check.simps) blast
  then show ?thesis by (rule append_calls_ok)
qed

end
