(* ===== verification/TimingSafe.thy ===== *)
theory TimingSafe
  imports Timing
begin

text \<open>
  The states that a program with one \<open>Timing\<close> manager leads to: \<open>timer_run this Interval (m, Ts, L)\<close> says that it
  has the timers \<open>Ts\<close>, that the manager's state is \<open>m\<close>, and that the destructors have reported the times \<open>L\<close>, in
  this order, each with the handle of its timer.
\<close>

unbundle bit_operations_syntax

type_synonym timing_state = "timing_manager \<times> timer list \<times> (u32 \<times> u64) list"

inductive timer_run :: "uptr \<Rightarrow> u32 \<Rightarrow> timing_state \<Rightarrow> bool" for this Interval where
  init: "Interval \<noteq> 0 \<Longrightarrow> timer_run this Interval (TimingManager Interval, [], [])"
| create: "timer_run this Interval (m, Ts, L) \<Longrightarrow> getOrCreateTimer this Name m = Inr (T, m')
    \<Longrightarrow> timer_run this Interval (m', T # Ts, L)"
| nest: "timer_run this Interval (m, Ts, L) \<Longrightarrow> P \<in> set Ts \<Longrightarrow> nest this P Name m = Inr (T, m')
    \<Longrightarrow> timer_run this Interval (m', T # Ts, L)"
| move: "timer_run this Interval (m, Ts @ T # Us, L) \<Longrightarrow> timer_move T = (New, Old)
    \<Longrightarrow> timer_run this Interval (m, Ts @ New # Old # Us, L)"
| start: "timer_run this Interval (m, Ts @ T # Us, L) \<Longrightarrow> timer_start now T = Inr T'
    \<Longrightarrow> timer_run this Interval (m, Ts @ T' # Us, L)"
| stop: "timer_run this Interval (m, Ts @ T # Us, L) \<Longrightarrow> timer_run this Interval (m, Ts @ timer_stop now T # Us, L)"
| ignore: "timer_run this Interval (m, Ts @ T # Us, L) \<Longrightarrow> timer_run this Interval (m, Ts @ timer_ignore T # Us, L)"
| destroy: "timer_run this Interval (m, Ts @ T # Us, L) \<Longrightarrow> timer_destroy T m = Inr (m', printed)
    \<Longrightarrow> timer_run this Interval (m', Ts @ Us, if TManager T = 0 then L else L @ [(HandleId T, AccTime T)])"

section \<open>The records\<close>

definition times_of :: "nat \<Rightarrow> (u32 \<times> u64) list \<Rightarrow> u64 list" where
  "times_of K L = map snd (filter (\<lambda>x. unat (fst x) = K) L)"

text \<open>Number, sum and maximum of the times; number and sum as 64-bit words.\<close>

definition totals :: "u64 list \<Rightarrow> timing_record" where
  "totals ts = \<lparr>AccumulatedTime = sum_list ts, Occurrence = of_nat (length ts), MaxTime = fold max ts 0\<rparr>"

definition timing_inv :: "uptr \<Rightarrow> timing_state \<Rightarrow> bool" where
  "timing_inv this = (\<lambda>(m, Ts, L). manager_ok m
     \<and> (\<forall>T \<in> set Ts. (TManager T = 0 \<or> TManager T = this) \<and> unat (HandleId T) < unat (NumAllocatedTimers m))
     \<and> (\<forall>K < unat (NumAllocatedTimers m). length (TName (Timers m ! K)) < 50)
     \<and> distinct (map TName (take (unat (NumAllocatedTimers m)) (Timers m)))
     \<and> (\<forall>K < unat (NumAllocatedTimers m). TimerRecords m ! K = totals (times_of K L))
     \<and> (\<forall>x \<in> set L. unat (fst x) < unat (NumAllocatedTimers m))
     \<and> NumEventsReported m = of_nat (length L))"

lemma unat_limits: "unat MaxNumberOfTimers = 50" "unat MaxLenOfTimerName = 50"
  by (simp_all add: MaxNumberOfTimers_def MaxLenOfTimerName_def)

lemma find_timer_Some:
  "find_timer Name Ts I = Some J \<Longrightarrow> unat I + length Ts \<le> 50 \<Longrightarrow> unat J < unat I + length Ts"
proof (induction Name Ts I rule: find_timer.induct)
  case (2 Name T Ts I)
  show ?case
  proof (cases "take (unat MaxLenOfTimerName) Name = take (unat MaxLenOfTimerName) (TName T)")
    case False
    have "unat (I + 1) = unat I + 1" using "2.prems"(2) by (subst unat_add_small) simp_all
    then show ?thesis using 2 False by simp
  qed (use 2 in simp)
qed simp

lemma find_timer_None:
  "find_timer Name Ts I = None \<longleftrightarrow> (\<forall>T \<in> set Ts. take 50 Name \<noteq> take 50 (TName T))"
  by (induction Name Ts I rule: find_timer.induct) (auto simp: unat_limits)

lemma getOrCreateTimer_inv:
  assumes inv: "timing_inv this (m, Ts, L)" and g: "getOrCreateTimer this Name m = Inr (T, m')"
  shows "timing_inv this (m', T # Ts, L)" "TManager T = this"
proof -
  let ?N = "unat (NumAllocatedTimers m)"
  from inv have ok: "length (Timers m) = 50" "length (TimerRecords m) = 50" "?N \<le> 50"
    and Ts: "\<forall>T \<in> set Ts. (TManager T = 0 \<or> TManager T = this) \<and> unat (HandleId T) < ?N"
    and nm: "\<forall>K < ?N. length (TName (Timers m ! K)) < 50" "distinct (map TName (take ?N (Timers m)))"
    and rec: "\<forall>K < ?N. TimerRecords m ! K = totals (times_of K L)" "\<forall>x \<in> set L. unat (fst x) < ?N"
    and ev: "NumEventsReported m = of_nat (length L)"
    by (simp_all add: timing_inv_def manager_ok_def)
  let ?f = "find_timer Name (take ?N (Timers m)) 0"
  have len: "length Name < 50" using g by (auto simp: getOrCreateTimer_def bindE_eq_Inr unat_limits)
  have "timing_inv this (m', T # Ts, L) \<and> TManager T = this"
  proof (cases ?f)
    case (Some I)
    then have "T = Timer this I" "m' = m" using g by (auto simp: getOrCreateTimer_def bindE_eq_Inr)
    moreover have "unat I < ?N" using find_timer_Some [OF Some] ok by simp
    ultimately show ?thesis using inv by (simp add: timing_inv_def Timer_def)
  next
    case None
    let ?T = "(Timers m ! ?N)\<lparr>TName := Name\<rparr>"
    have lt: "NumAllocatedTimers m < MaxNumberOfTimers" and T: "T = Timer this (NumAllocatedTimers m)"
      and m': "m' = m\<lparr>Timers := (Timers m)[?N := ?T],
         TimerRecords := (TimerRecords m)[?N := totals []], NumAllocatedTimers := NumAllocatedTimers m + 1\<rparr>"
      using g None len by (auto simp: getOrCreateTimer_def bindE_eq_Inr Let_def totals_def unat_limits)
    have N: "?N < 50" using lt by (simp add: word_less_nat_alt unat_limits)
    then have N1: "unat (NumAllocatedTimers m + 1) = Suc ?N" by (subst unat_add_small) simp_all
    have tk: "take (Suc ?N) ((Timers m)[?N := ?T]) = take ?N (Timers m) @ [?T]"
      using N ok by (simp add: take_Suc_conv_app_nth)
    have new: "Name \<notin> TName ` set (take ?N (Timers m))"
    proof
      assume "Name \<in> TName ` set (take ?N (Timers m))"
      then obtain t where "t \<in> set (take ?N (Timers m))" "take 50 Name = take 50 (TName t)" by blast
      then show False using None find_timer_None by blast
    qed
    have "times_of ?N L = []" using rec(2) by (auto simp: times_of_def filter_empty_conv)
    then have r: "\<forall>K < Suc ?N. (TimerRecords m)[?N := totals []] ! K = totals (times_of K L)"
      using rec(1) ok N by (auto simp: nth_list_update less_Suc_eq)
    show ?thesis unfolding timing_inv_def prod.case m' T using ok N N1 Ts nm rec(2) ev r new len
      by (auto simp: tk manager_ok_def Timer_def nth_list_update less_Suc_eq)
  qed
  then show "timing_inv this (m', T # Ts, L)" "TManager T = this" by blast+
qed

lemma nest_inv:
  assumes inv: "timing_inv this (m, Ts, L)" and "nest this P Name m = Inr (T, m')"
  shows "timing_inv this (m', T # Ts, L)"
proof -
  obtain m1 where g: "getOrCreateTimer this Name m = Inr (T, m1)"
    and m': "m' = m1\<lparr>Timers := (Timers m1)[unat (HandleId T) := (Timers m1 ! unat (HandleId T))\<lparr>Nesting := HandleId P\<rparr>]\<rparr>"
    using assms(2) by (auto simp: nest_def bindE_eq_Inr Let_def)
  note i = getOrCreateTimer_inv(1) [OF inv g]
  let ?H = "unat (HandleId T)"
  have names: "map TName ((Timers m1)[?H := (Timers m1 ! ?H)\<lparr>Nesting := HandleId P\<rparr>]) = map TName (Timers m1)"
    by (metis list_update_id map_update timer_info.simps(3) timer_info.select_convs(1) timer_info.surjective timer_info.update_convs(2))
  then have "TName ((Timers m1)[?H := (Timers m1 ! ?H)\<lparr>Nesting := HandleId P\<rparr>] ! K) = TName (Timers m1 ! K)"
    if "K < length (Timers m1)" for K using that by (metis length_list_update nth_map)
  then show ?thesis using i unfolding m' timing_inv_def manager_ok_def by (simp add: names flip: take_map)
qed

lemma report_inv:
  assumes inv: "timing_inv this (m, Ts @ T # Us, L)" and r: "timing_report T m = Inr (m', printed)"
  shows "timing_inv this (m', Ts @ Us, L @ [(HandleId T, AccTime T)])"
proof -
  let ?N = "unat (NumAllocatedTimers m)" and ?H = "unat (HandleId T)"
  have H: "?H < ?N" "?H < length (TimerRecords m)" and R: "TimerRecords m ! ?H = totals (times_of ?H L)"
    using inv by (auto simp: timing_inv_def manager_ok_def)
  have m': "m' = m\<lparr>TimerRecords := (TimerRecords m)[?H := totals (times_of ?H L @ [AccTime T])],
      NumEventsReported := NumEventsReported m + 1\<rparr>"
    using r by (auto simp: timing_report_def bindE_eq_Inr Let_def R totals_def getAccumulatedTime_def max_def
        algebra_simps split: if_splits)
  have t: "times_of K (L @ [(HandleId T, AccTime T)]) = times_of K L @ (if K = ?H then [AccTime T] else [])" for K
    by (simp add: times_of_def)
  show ?thesis using inv H unfolding m' timing_inv_def prod.case
    by (auto simp: t manager_ok_def nth_list_update)
qed

theorem timer_run_inv: "timer_run this Interval s \<Longrightarrow> timing_inv this s"
proof (induction rule: timer_run.induct)
  case init
  show ?case by (simp add: timing_inv_def TimingManager_def manager_ok_def unat_limits)
next
  case create
  then show ?case using getOrCreateTimer_inv(1) by blast
next
  case nest
  then show ?case using nest_inv by blast
next
  case (destroy m Ts T Us L m' printed)
  show ?case
  proof (cases "TManager T = 0")
    case True
    then show ?thesis using destroy by (simp add: timer_destroy_def timing_inv_def)
  next
    case False
    then show ?thesis using destroy report_inv by (simp add: timer_destroy_def)
  qed
qed (auto simp: timing_inv_def timer_move_def timer_start_def timer_stop_def timer_ignore_def bindE_eq_Inr)

text \<open>C38: Whatever a program does with its timers, a report of the manager ends and formats its text
  without failing. It shows every timer whose chain of nesting ends at a timer that is nested in none,
  and each of them once, indented by its depth in the chain; the number of calls, the sum and the maximum that
  it shows for a timer are those of the times that timers of this handle have reported. (Timers that are
  nested in each other in a cycle are in no report.)\<close>

theorem timing_report_complete:
  assumes "timer_run this Interval (m, Ts, L)"
  shows "\<exists>vs s. getAllImpl m = Inr (timing_header # concat (map (\<lambda>(K, d). timer_lines m (of_nat K) d) vs))
    \<and> append_calls (timing_header # concat (map (\<lambda>(K, d). timer_lines m (of_nat K) d) vs)) = Inr s
    \<and> distinct (map fst vs) \<and> set vs = {(K, d). nested_at m K d}
    \<and> (\<forall>K < unat (NumAllocatedTimers m). TimerRecords m ! K = totals (times_of K L))"
proof -
  have inv: "timing_inv this (m, Ts, L)" using timer_run_inv [OF assms] .
  then have "manager_ok m" by (simp add: timing_inv_def)
  from getAllImpl_shows [OF this] obtain vs where vs: "getAllImpl m = Inr (timing_header # shown m vs)"
    "distinct (map fst vs)" "set vs = {(K, d). nested_at m K d}" by blast
  obtain s where "append_calls (timing_header # shown m vs) = Inr s" using report_formats by blast
  with vs inv show ?thesis by (auto simp: shown_def timing_inv_def)
qed

text \<open>Two scopes, one nested in the other: the inner one reports 5 and the outer one 9.\<close>

definition outer_created :: timing_manager where
  "outer_created = snd (projr (getOrCreateTimer 4096 ''Outer'' (TimingManager 100)))"

definition inner_created :: timing_manager where
  "inner_created = snd (projr (nest 4096 (Timer 4096 0) ''Inner'' outer_created))"

definition inner_done :: timing_manager where
  "inner_done = fst (projr (timer_destroy ((Timer 4096 1)\<lparr>AccTime := 5\<rparr>) inner_created))"

definition outer_done :: timing_manager where
  "outer_done = fst (projr (timer_destroy ((Timer 4096 0)\<lparr>AccTime := 9\<rparr>) inner_done))"

lemma example_run: "timer_run 4096 100 (outer_done, [], [(1, 5), (0, 9)])"
proof -
  let ?O = "Timer 4096 0" and ?I = "Timer 4096 1"
  have "getOrCreateTimer 4096 ''Outer'' (TimingManager 100) = Inr (?O, outer_created)" by code_simp
  from timer_run.create [OF timer_run.init this] have 1: "timer_run 4096 100 (outer_created, [?O], [])" by simp
  have "timer_start 1 ?O = Inr (?O\<lparr>StartTime := 1\<rparr>)" by code_simp
  from timer_run.start [of _ _ _ "[]", OF _ this] 1
  have 2: "timer_run 4096 100 (outer_created, [?O\<lparr>StartTime := 1\<rparr>], [])" by simp
  have "nest 4096 (?O\<lparr>StartTime := 1\<rparr>) ''Inner'' outer_created = Inr (?I, inner_created)" by code_simp
  from timer_run.nest [OF 2 _ this] have 3: "timer_run 4096 100 (inner_created, [?I, ?O\<lparr>StartTime := 1\<rparr>], [])" by simp
  have "timer_start 2 ?I = Inr (?I\<lparr>StartTime := 2\<rparr>)" by code_simp
  from timer_run.start [of _ _ _ "[]", OF _ this] 3
  have 4: "timer_run 4096 100 (inner_created, [?I\<lparr>StartTime := 2\<rparr>, ?O\<lparr>StartTime := 1\<rparr>], [])" by simp
  have "timer_stop 7 (?I\<lparr>StartTime := 2\<rparr>) = ?I\<lparr>AccTime := 5\<rparr>" by code_simp
  with timer_run.stop [of _ _ _ "[]" "?I\<lparr>StartTime := 2\<rparr>" _ _ 7] 4
  have 5: "timer_run 4096 100 (inner_created, [?I\<lparr>AccTime := 5\<rparr>, ?O\<lparr>StartTime := 1\<rparr>], [])" by simp
  have "timer_destroy (?I\<lparr>AccTime := 5\<rparr>) inner_created = Inr (inner_done, [])" by code_simp
  from timer_run.destroy [where Ts = "[]" and L = "[]", OF _ this] 5
  have 6: "timer_run 4096 100 (inner_done, [?O\<lparr>StartTime := 1\<rparr>], [(1, 5)])" by (simp add: Timer_def)
  have "timer_stop 10 (?O\<lparr>StartTime := 1\<rparr>) = ?O\<lparr>AccTime := 9\<rparr>" by code_simp
  with timer_run.stop [of _ _ _ "[]" "?O\<lparr>StartTime := 1\<rparr>" _ _ 10] 6
  have 7: "timer_run 4096 100 (inner_done, [?O\<lparr>AccTime := 9\<rparr>], [(1, 5)])" by simp
  have "timer_destroy (?O\<lparr>AccTime := 9\<rparr>) inner_done = Inr (outer_done, [])" by code_simp
  from timer_run.destroy [where Ts = "[]" and L = "[(1, 5)]", OF _ this] 7 show ?thesis by (simp add: Timer_def)
qed

theorem timing_report_complete_witness:
  "\<exists>vs s. getAllImpl outer_done = Inr (timing_header # concat (map (\<lambda>(K, d). timer_lines outer_done (of_nat K) d) vs))
    \<and> append_calls (timing_header # concat (map (\<lambda>(K, d). timer_lines outer_done (of_nat K) d) vs)) = Inr s
    \<and> distinct (map fst vs) \<and> set vs = {(K, d). nested_at outer_done K d}
    \<and> TimerRecords outer_done ! 1 = \<lparr>AccumulatedTime = 5, Occurrence = 1, MaxTime = 5\<rparr>"
proof -
  have "unat (NumAllocatedTimers outer_done) = 2" by code_simp
  moreover have "totals (times_of 1 [(1, 5), (0, 9)]) = \<lparr>AccumulatedTime = 5, Occurrence = 1, MaxTime = 5\<rparr>"
    by (simp add: totals_def times_of_def)
  ultimately show ?thesis using timing_report_complete [OF example_run] by fastforce
qed

end
