(* ===== verification/StatsText.thy ===== *)
theory StatsText
  imports Allocator Primary32Release Tsd
begin

text \<open>
  The statistics: \<^verbatim>\<open>getStats\<close> and \<^verbatim>\<open>getFragmentationInfo\<close> of every part. As in \<open>Report\<close>, what is printed is the
  list of the \<^verbatim>\<open>append\<close> calls, format and arguments; \<open>append_calls\<close> makes the text. The fragmentation functions
  take the free list of a class, count the pages that could be released, and put it back. The statistics of the
  quarantine are in \<open>Quarantine\<close>.

  \<open>StatsSafe\<close> shows that every call matches its arguments, so that the statistics can always be printed. The
  fragmentation can fail: it may read a page map that there is no memory for (\<open>NullDeref\<close>), or, on free lists that do
  not fit their region, a counter outside of one (\<open>OutOfBounds\<close>); otherwise that of the 64-bit primary is computed
  without changing it.
\<close>

unbundle bit_operations_syntax

type_synonym calls = "(string \<times> fmt_arg list) list"

text \<open>\<^verbatim>\<open>Interval >= 0 ? Interval : -1\<close>.\<close>

definition IntervalArg :: "s32 \<Rightarrow> fmt_arg" where
  "IntervalArg Interval = ArgNum (ucast (if sint Interval \<ge> 0 then Interval else -1))"

section \<open>Size classes and caches\<close>

definition printMap_line :: "size_class_config \<Rightarrow> uptr \<Rightarrow> uptr \<Rightarrow> string \<times> fmt_arg list" where
  "printMap_line cfg I PrevS =
     (let S = getSizeByClassId cfg I;
          D = S - PrevS;
          P = (if PrevS \<noteq> 0 then (D * 100) div PrevS else 0);
          L = (if S \<noteq> 0 then getMostSignificantSetBitIndex S else 0);
          Cached = ucast (getMaxCachedHint cfg S) * S
      in (''C%02zu => S: %zu diff: +%zu %02zu%% L %zu Cached: %u %zu; id %zu'' @ newline,
          [ArgNum I, ArgNum S, ArgNum D, ArgNum P, ArgNum L, ArgNum (ucast (getMaxCachedHint cfg S)), ArgNum Cached,
           ArgNum (getClassIdBySize cfg S)]))"

definition printMap :: "size_class_config \<Rightarrow> calls" where
  "printMap cfg =
     (let (out, PrevS, TotalCached) =
        fold (\<lambda>I (out, PrevS, TotalCached).
               if of_nat I = BatchClassId then (out, PrevS, TotalCached)
               else let S = getSizeByClassId cfg (of_nat I)
                    in (out @ [printMap_line cfg (of_nat I) PrevS], S, TotalCached + ucast (getMaxCachedHint cfg S) * S))
          [0 ..< unat (NumClasses cfg)] ([], 0, 0)
      in out @ [(''Total Cached: %zu'' @ newline, [ArgNum TotalCached])])"

definition sca_getStats :: "(uptr \<Rightarrow> uptr) \<Rightarrow> nat \<Rightarrow> 'a local_cache_scheme \<Rightarrow> calls" where
  "sca_getStats SizeByClassId N c =
     (let cached = concat (map (\<lambda>I.
            let P = PerClassArray c ! I;
                ClSize = (if of_nat I = BatchClassId then SizeByClassId (of_nat I) else ClassSize P)
            in if Count P = 0 then []
               else [(''    %02zu (%6zu): cached: %4zu max: %4zu'' @ newline,
                      [ArgNum (of_nat I), ArgNum ClSize, ArgNum (ucast (Count P)), ArgNum (ucast (MaxCount P))])])
          [0 ..< N])
      in if cached = [] then [(''    No block is cached.'' @ newline, [])] else cached)"

definition no_cache_getStats :: calls where
  "no_cache_getStats = [(''    No block is cached.'' @ newline, [])]"

text \<open>The contexts are locked one after the other; \<open>caches\<close> are their caches.\<close>

definition shared_getStats ::
    "nat \<Rightarrow> (uptr \<Rightarrow> uptr) \<Rightarrow> nat \<Rightarrow> 'a local_cache_scheme list \<Rightarrow> shared_registry \<Rightarrow> calls \<times> shared_registry" where
  "shared_getStats me SizeByClassId N caches r =
     fold (\<lambda>I (out, r).
         let r = r\<lparr>TSDs := (TSDs r)[I := tsd_lock me (TSDs r ! I)]\<rparr>;
             out = out @ [(''  Shared TSD[%zu]:'' @ newline, [ArgNum (of_nat I)])] @ sca_getStats SizeByClassId N (caches ! I)
         in (out, r\<lparr>TSDs := (TSDs r)[I := tsd_unlock (TSDs r ! I)]\<rparr>))
       [0 ..< unat (NumberOfTSDs r)]
       ([(''Stats: SharedTSDs: %u available; total %u'' @ newline,
          [ArgNum (ucast (NumberOfTSDs r)), ArgNum (of_nat (length (TSDs r)))])], r)"

definition ex_getStats :: calls where
  "ex_getStats = [(''Exclusive TSD don'' @ [chr 39] @ ''t support iterating each TSD'' @ newline, [])]"

section \<open>Secondary\<close>

definition no_sec_cache_getStats :: calls where
  "no_sec_cache_getStats = [(''Secondary Cache Disabled'' @ newline, [])]"

definition cached_block_line :: "cached_block \<Rightarrow> string \<times> fmt_arg list" where
  "cached_block_line B =
     (''  StartBlockAddress: 0x%zx, EndBlockAddress: 0x%zx, BlockSize: %zu %s'' @ newline,
      [ArgNum (CBCommitBase B), ArgNum (CBCommitBase B + CBCommitSize B), ArgNum (CBCommitSize B),
       StrArg (if CBTime B = 0 then ''[R]'' else '''')])"

definition sec_cache_getStats :: "sec_cache \<Rightarrow> calls" where
  "sec_cache_getStats c =
     (let (Integral, Fractional) = computePercentage (ucast (SuccessfulRetrieves c)) (ucast (CallsToRetrieve c));
          Interval = CacheReleaseToOsIntervalMs c
      in [(''Stats: MapAllocatorCache: EntriesCount: %zu, MaxEntriesCount: %u, MaxEntrySize: %zu, ReleaseToOsSkips: %zu, ReleaseToOsIntervalMs = %d'' @ newline,
           [ArgNum (of_nat (length (LRUEntries c))), ArgNum (ucast (MaxEntriesCount c)), ArgNum (MaxEntrySize c),
            ArgNum (ReleaseToOsSkips c), IntervalArg Interval]),
          (''Stats: CacheRetrievalStats: SuccessRate: %u/%u (%zu.%02zu%%)'' @ newline,
           [ArgNum (ucast (SuccessfulRetrieves c)), ArgNum (ucast (CallsToRetrieve c)), ArgNum Integral, ArgNum Fractional]),
          (''Cache Entry Info (Most Recent -> Least Recent):'' @ newline, [])]
         @ map (\<lambda>E. cached_block_line (Entries c ! E)) (LRUEntries c))"

definition secondary_getStats :: "secondary \<Rightarrow> calls" where
  "secondary_getStats s =
     [(''Stats: MapAllocator: allocated %u times (%zuK), freed %u times (%zuK), remains %u (%zuK) max %zuM, Fragmented %zuK'' @ newline,
       map ArgNum (secondary_stats s))]
     @ sec_cache_getStats (SCache s)"

section \<open>The 64-bit primary\<close>

definition region_getStats :: "primary_config \<Rightarrow> uptr \<Rightarrow> heap \<Rightarrow> calls" where
  "region_getStats cfg ClassId h =
     (let r = getRegionInfo ClassId h
      in if MappedUser r = 0 then []
         else
           let BSize = p_getSizeByClassId cfg ClassId;
               InUse = PoppedBlocks r - PushedBlocks r;
               BytesInFreeList = AllocatedUser r - InUse * BSize;
               RegionPushedBytesDelta = (if BytesInFreeList \<ge> BytesInFreeListAtLastCheckpoint r
                                         then BytesInFreeList - BytesInFreeListAtLastCheckpoint r else 0);
               TotalChunks = AllocatedUser r div BSize
           in [(''%s %02zu (%6zu): mapped: %6zuK popped: %7zu pushed: %7zu inuse: %6zu total: %6zu releases attempted: %6zu last released: %6zuK latest pushed bytes: %6zuK region: 0x%zx (0x%zx)'' @ newline,
                [StrArg (if Exhausted r then ''E'' else '' ''), ArgNum ClassId, ArgNum (p_getSizeByClassId cfg ClassId),
                 ArgNum (drop_bit 10 (MappedUser r)), ArgNum (PoppedBlocks r), ArgNum (PushedBlocks r),
                 ArgNum InUse, ArgNum TotalChunks, ArgNum (NumReleasesAttempted r),
                 ArgNum (drop_bit 10 (LastReleasedBytes r)), ArgNum (drop_bit 10 RegionPushedBytesDelta),
                 ArgNum (RegionBeg r), ArgNum (getRegionBaseByClassId cfg ClassId h)])])"

definition p_getStats :: "primary_config \<Rightarrow> heap \<Rightarrow> calls" where
  "p_getStats cfg h =
     (let Is = map of_nat [0 ..< unat (NumClasses (PSizeMap cfg))];
          TotalMapped = sum_list (map (\<lambda>I. MappedUser (getRegionInfo I h)) Is);
          Popped = sum_list (map (\<lambda>I. PoppedBlocks (getRegionInfo I h)) Is);
          Pushed = sum_list (map (\<lambda>I. PushedBlocks (getRegionInfo I h)) Is)
      in [(''Stats: SizeClassAllocator64: %zuM mapped (%uM rss) in %zu allocations; remains %zu; ReleaseToOsIntervalMs = %d'' @ newline,
           [ArgNum (drop_bit 20 TotalMapped), ArgNum 0, ArgNum Popped, ArgNum (Popped - Pushed),
            IntervalArg (ReleaseToOsIntervalMs h)])]
         @ concat (map (\<lambda>I. region_getStats cfg I h) Is))"

text \<open>What the two fragmentation functions share: the free list is taken, its pages are walked with the recorder
  \<open>rel\<close>, and it is merged back. When there is no memory for the page map, the walk reads through a null
  pointer; an access outside of the page map is an error too.\<close>

definition count_free_pages ::
    "(uptr \<Rightarrow> uptr \<Rightarrow> 'r \<Rightarrow> 'r) \<Rightarrow> 'r \<Rightarrow> primary_config \<Rightarrow> os \<Rightarrow> uptr \<Rightarrow> heap \<times> uptr \<Rightarrow> ('r \<times> heap \<times> uptr) result" where
  "count_free_pages rel rec0 cfg os ClassId = (\<lambda>(h, Mask).
     let BSize = p_getSizeByClassId cfg ClassId;
         r = getRegionInfo ClassId h;
         AllocatedUserEnd = AllocatedUser r + RegionBeg r;
         Groups = BlockList r;
         h = upd_region ClassId (\<lambda>r. r\<lparr>BlockList := []\<rparr>) h
     in if Groups = [] then Inr (rec0, h, Mask)
        else
          let (Context, Mask) = markFreeBlocks cfg os r BSize AllocatedUserEnd (RegionBeg r) Groups Mask
          in if \<not> hasBlockMarked Context \<and> CtxPagesCount Context \<noteq> 0 then Inl NullDeref
             else
               let (Context, rec1) = releaseFreeMemoryToOS rel (PPageSizeLog cfg) Context (\<lambda>_. False) rec0
               in if AccessOutside (CtxPageMap Context) then Inl OutOfBounds
                  else Inr (rec1, mergeGroupsToReleaseBack cfg ClassId Groups h, page_map_destroy (CtxPageMap Context) Mask))"

definition fragmentation_line :: "uptr \<Rightarrow> uptr \<Rightarrow> uptr \<Rightarrow> uptr \<Rightarrow> uptr \<Rightarrow> uptr \<Rightarrow> uptr \<Rightarrow> string \<times> fmt_arg list" where
  "fragmentation_line PageSize ClassId BSize InUse TotalBlocks InUsePages AllocatedPagesCount =
     (let InUseBytes = InUsePages * PageSize;
          (Integral, Fractional) = computePercentage (BSize * InUse) InUseBytes
      in (''  %02zu (%6zu): inuse/total blocks: %6zu/%6zu inuse/total pages: %6zu/%6zu inuse bytes: %6zuK util: %3zu.%02zu%%'' @ newline,
          [ArgNum ClassId, ArgNum BSize, ArgNum InUse, ArgNum TotalBlocks, ArgNum InUsePages,
           ArgNum AllocatedPagesCount, ArgNum (drop_bit 10 InUseBytes), ArgNum Integral, ArgNum Fractional]))"

definition getRegionFragmentationInfo ::
    "primary_config \<Rightarrow> os \<Rightarrow> uptr \<Rightarrow> heap \<times> uptr \<Rightarrow> (calls \<times> heap \<times> uptr) result" where
  "getRegionFragmentationInfo cfg os ClassId hm =
     bindE (count_free_pages (FragmentationRecorder_release (PPageSizeLog cfg)) 0 cfg os ClassId hm)
       (\<lambda>(ReleasedPagesCount, h, Mask).
          let BSize = p_getSizeByClassId cfg ClassId;
              r = getRegionInfo ClassId h;
              PageSize = PageSizeOf cfg;
              TotalBlocks = AllocatedUser r div BSize;
              InUse = PoppedBlocks r - PushedBlocks r;
              AllocatedPagesCount = roundUp (AllocatedUser r) PageSize div PageSize;
              InUsePages = AllocatedPagesCount - ReleasedPagesCount
          in Inr ([fragmentation_line PageSize ClassId BSize InUse TotalBlocks InUsePages AllocatedPagesCount], h, Mask))"

definition getMemoryGroupFragmentationInfoInRegion ::
    "primary_config \<Rightarrow> os \<Rightarrow> uptr \<Rightarrow> heap \<times> uptr \<Rightarrow> (calls \<times> heap \<times> uptr) result" where
  "getMemoryGroupFragmentationInfoInRegion cfg os ClassId hm =
     (let GroupSize = push_bit (GroupSizeLog cfg) 1;
          MaxNumGroups = push_bit (RegionSizeLog cfg) 1 div GroupSize;
          NumPagesInOneGroup = GroupSize div PageSizeOf cfg
      in bindE (count_free_pages (MemoryGroupFragmentationRecorder_release (PageSizeOf cfg) GroupSize)
                  (replicate (unat MaxNumGroups) 0) cfg os ClassId hm)
           (\<lambda>(FreePagesCount, h, Mask).
              let BSize = p_getSizeByClassId cfg ClassId;
                  r = getRegionInfo ClassId h;
                  MaxNumGroupsInUse = roundUp (AllocatedUser r) GroupSize div GroupSize
              in Inr ((''MemoryGroupFragmentationInfo in Region %zu (%zu)'' @ newline, [ArgNum ClassId, ArgNum BSize])
                      # map (\<lambda>I. let (Integral, Fractional) =
                                   computePercentage (NumPagesInOneGroup - FreePagesCount ! I) NumPagesInOneGroup
                               in (''MemoryGroup #%zu (0x%zx): util: %3zu.%02zu%%'' @ newline,
                                   [ArgNum (of_nat I), ArgNum (RegionBeg r + of_nat I * GroupSize), ArgNum Integral, ArgNum Fractional]))
                          [0 ..< unat MaxNumGroupsInUse], h, Mask)))"

text \<open>The loop over the classes, without the batch class.\<close>

fun for_classes :: "(uptr \<Rightarrow> 's \<Rightarrow> (calls \<times> 's) result) \<Rightarrow> uptr list \<Rightarrow> 's \<Rightarrow> (calls \<times> 's) result" where
  "for_classes f [] s = Inr ([], s)"
| "for_classes f (I # Is) s =
     bindE (f I s) (\<lambda>(out, s). bindE (for_classes f Is s) (\<lambda>(rest, s). Inr (out @ rest, s)))"

definition classes_from_1 :: "primary_config \<Rightarrow> uptr list" where
  "classes_from_1 cfg = map of_nat [1 ..< unat (NumClasses (PSizeMap cfg))]"

definition fragmentation_header :: "string \<Rightarrow> primary_config \<Rightarrow> string \<times> fmt_arg list" where
  "fragmentation_header Name cfg =
     (''Fragmentation Stats: '' @ Name @ '': page size = %zu bytes'' @ newline, [ArgNum (PageSizeOf cfg)])"

definition getFragmentationInfo :: "primary_config \<Rightarrow> os \<Rightarrow> heap \<times> uptr \<Rightarrow> (calls \<times> heap \<times> uptr) result" where
  "getFragmentationInfo cfg os hm =
     bindE (for_classes (getRegionFragmentationInfo cfg os) (classes_from_1 cfg) hm)
       (\<lambda>(out, hm). Inr (fragmentation_header ''SizeClassAllocator64'' cfg # out, hm))"

definition getMemoryGroupFragmentationInfo :: "primary_config \<Rightarrow> os \<Rightarrow> heap \<times> uptr \<Rightarrow> (calls \<times> heap \<times> uptr) result" where
  "getMemoryGroupFragmentationInfo cfg os hm =
     bindE (for_classes (getMemoryGroupFragmentationInfoInRegion cfg os) (classes_from_1 cfg) hm)
       (\<lambda>(out, hm). Inr (fragmentation_header ''SizeClassAllocator64'' cfg # out, hm))"

section \<open>The 32-bit primary\<close>

definition class_getStats32 :: "primary_config \<Rightarrow> uptr \<Rightarrow> size_class_info \<Rightarrow> calls" where
  "class_getStats32 cfg ClassId s =
     (if AllocatedUser32 s = 0 then []
      else
        let BSize = getSizeByClassId32 cfg ClassId;
            InUse = PoppedBlocks32 s - PushedBlocks32 s;
            BytesInFreeList = AllocatedUser32 s - InUse * BSize;
            PushedBytesDelta = (if BytesInFreeList \<ge> BytesInFreeListAtLastCheckpoint32 s
                                then BytesInFreeList - BytesInFreeListAtLastCheckpoint32 s else 0);
            AvailableChunks = AllocatedUser32 s div BSize
        in [(''  %02zu (%6zu): mapped: %6zuK popped: %7zu pushed: %7zu inuse: %6zu avail: %6zu releases attempted: %6zu last released: %6zuK latest pushed bytes: %6zuK'' @ newline,
             [ArgNum ClassId, ArgNum (getSizeByClassId32 cfg ClassId), ArgNum (drop_bit 10 (AllocatedUser32 s)),
              ArgNum (PoppedBlocks32 s), ArgNum (PushedBlocks32 s), ArgNum InUse, ArgNum AvailableChunks,
              ArgNum (NumReleasesAttempted32 s), ArgNum (drop_bit 10 (LastReleasedBytes32 s)),
              ArgNum (drop_bit 10 PushedBytesDelta)])])"

definition getStats32 :: "primary_config \<Rightarrow> heap32 \<Rightarrow> calls" where
  "getStats32 cfg h =
     (let Is = map of_nat [0 ..< unat (NumClasses (PSizeMap cfg))];
          TotalMapped = sum_list (map (\<lambda>I. AllocatedUser32 (getSizeClassInfo I h)) Is);
          Popped = sum_list (map (\<lambda>I. PoppedBlocks32 (getSizeClassInfo I h)) Is);
          Pushed = sum_list (map (\<lambda>I. PushedBlocks32 (getSizeClassInfo I h)) Is)
      in [(''Stats: SizeClassAllocator32: %zuM mapped in %zu allocations; remains %zu'' @ newline,
           [ArgNum (drop_bit 20 TotalMapped), ArgNum Popped, ArgNum (Popped - Pushed)])]
         @ concat (map (\<lambda>I. class_getStats32 cfg I (getSizeClassInfo I h)) Is))"

text \<open>Marking for the statistics is marking for \<^verbatim>\<open>ForceAll\<close>, which also moves the checkpoints of the groups.\<close>

definition getSizeClassFragmentationInfo ::
    "primary_config \<Rightarrow> os32 \<Rightarrow> uptr \<Rightarrow> heap32 \<times> uptr \<Rightarrow> (calls \<times> heap32 \<times> uptr) result" where
  "getSizeClassFragmentationInfo cfg os ClassId = (\<lambda>(h, Mask).
     let BSize = getSizeByClassId32 cfg ClassId;
         s = getSizeClassInfo ClassId h;
         First = MinRegionIndex s;
         Base = First * RegionSize cfg;
         NumberOfRegions = MaxRegionIndex s - First + 1;
         skip = skip_region h ClassId First;
         Indices = filter (\<lambda>I. \<not> skip I) (map of_nat [0 ..< unat NumberOfRegions])
     in bindE (if BlockList32 s = [] then Inr (0, h, Mask)
               else
                 let (Context, Mask, s) = markFreeBlocks32 cfg os s BSize Base NumberOfRegions ReleaseForceAll Mask
                 in if \<not> hasBlockMarked Context \<and> CtxPagesCount Context \<noteq> 0 \<and> Indices \<noteq> [] then Inl NullDeref
                    else
                      let (Context, Count) = releaseFreeMemoryToOS (FragmentationRecorder_release (PPageSizeLog cfg))
                            (PPageSizeLog cfg) Context skip 0
                      in if AccessOutside (CtxPageMap Context) then Inl OutOfBounds
                         else Inr (Count, upd_sci ClassId (\<lambda>_. s) h, page_map_destroy (CtxPageMap Context) Mask))
          (\<lambda>(ReleasedPagesCount, h, Mask).
             let TotalBlocks = AllocatedUser32 s div BSize;
                 InUse = PoppedBlocks32 s - PushedBlocks32 s;
                 AllocatedPagesCount = (if TotalBlocks \<noteq> 0
                   then sum_list (map (\<lambda>_. RegionSize cfg div PageSizeOf cfg) Indices) else 0);
                 InUsePages = AllocatedPagesCount - ReleasedPagesCount
             in Inr ([fragmentation_line (PageSizeOf cfg) ClassId BSize InUse TotalBlocks InUsePages
                        AllocatedPagesCount], h, Mask)))"

definition getFragmentationInfo32 :: "primary_config \<Rightarrow> os32 \<Rightarrow> heap32 \<times> uptr \<Rightarrow> (calls \<times> heap32 \<times> uptr) result" where
  "getFragmentationInfo32 cfg os hm =
     bindE (for_classes (getSizeClassFragmentationInfo cfg os) (classes_from_1 cfg) hm)
       (\<lambda>(out, hm). Inr (fragmentation_header ''SizeClassAllocator32'' cfg # out, hm))"

section \<open>The allocator\<close>

definition scudo_getStats :: "cconfig \<Rightarrow> scudo \<Rightarrow> calls" where
  "scudo_getStats cfg s =
     p_getStats (CPrimary cfg) (Heap s) @ secondary_getStats (Second s)
     @ (if CQuarantineDisabled cfg then [] else quarantine_getStats (GlobalQ s)) @ ex_getStats"

text \<open>What \<^verbatim>\<open>getStats\<close> writes into a buffer, and the length it returns; what \<^verbatim>\<open>printStats\<close> and
  \<^verbatim>\<open>printFragmentationInfo\<close> print.\<close>

definition scudo_getStats_buffer :: "cconfig \<Rightarrow> bool \<Rightarrow> nat \<Rightarrow> scudo \<Rightarrow> fmt_error + (nat \<times> char list)" where
  "scudo_getStats_buffer cfg HasBuffer Size s =
     bindE (append_calls (scudo_getStats cfg s)) (\<lambda>Str. Inr (getStats_buffer Str HasBuffer Size))"

definition printStats :: "cconfig \<Rightarrow> scudo \<Rightarrow> fmt_error + string" where
  "printStats cfg s = append_calls (scudo_getStats cfg s)"

definition printFragmentationInfo :: "cconfig \<Rightarrow> scudo \<Rightarrow> (calls \<times> scudo) result" where
  "printFragmentationInfo cfg s =
     bindE (getFragmentationInfo (CPrimary cfg) (COs cfg) (Heap s, PoolMask s))
       (\<lambda>(out, h, Mask). Inr (out, s\<lparr>Heap := h, PoolMask := Mask\<rparr>))"

end
