(* ===== verification/StatsSafe.thy ===== *)
theory StatsSafe
  imports StatsText AllocatorSafe
begin

text \<open>
  Properties of \<open>StatsText\<close>: every \<^verbatim>\<open>append\<close> finds the arguments its format asks for, and the fragmentation functions of the
  64-bit primary either read what is no page map or outside of one, or put back what they take.
\<close>

unbundle bit_operations_syntax

section \<open>Formats and arguments\<close>

definition fits :: "calls \<Rightarrow> bool" where
  "fits out \<longleftrightarrow> (\<forall>(f, as) \<in> set out. fmt_check f (map kind_of as))"

named_theorems fits_simps

lemma fits_append [simp]: "fits (xs @ ys) \<longleftrightarrow> fits xs \<and> fits ys"
  by (auto simp: fits_def)

lemma fits_Nil [simp]: "fits []"
  by (simp add: fits_def)

lemma fits_Cons: "fits (c # cs) \<longleftrightarrow> fmt_check (fst c) (map kind_of (snd c)) \<and> fits cs"
  by (simp add: fits_def split_beta)

lemma fits_concat: "(\<And>x. x \<in> set xs \<Longrightarrow> fits (f x)) \<Longrightarrow> fits (concat (map f xs))"
  by (auto simp: fits_def)

lemma fits_ok: "fits out \<Longrightarrow> \<exists>s. append_calls out = Inr s"
  unfolding fits_def by (rule append_calls_ok)

lemma kind_IntervalArg [simp]: "kind_of (IntervalArg i) = KNum"
  by (simp add: IntervalArg_def)

lemma formats [fits_simps]:
  "fmt_check (''C%02zu => S: %zu diff: +%zu %02zu%% L %zu Cached: %u %zu; id %zu'' @ newline) [KNum, KNum, KNum, KNum, KNum, KNum, KNum, KNum]"
  "fmt_check (''Total Cached: %zu'' @ newline) [KNum]"
  "fmt_check (''    %02zu (%6zu): cached: %4zu max: %4zu'' @ newline) [KNum, KNum, KNum, KNum]"
  "fmt_check (''    No block is cached.'' @ newline) []"
  "fmt_check (''  Shared TSD[%zu]:'' @ newline) [KNum]"
  "fmt_check (''Stats: SharedTSDs: %u available; total %u'' @ newline) [KNum, KNum]"
  "fmt_check (''Exclusive TSD don'' @ [chr 39] @ ''t support iterating each TSD'' @ newline) []"
  "fmt_check (''Stats: Quarantine: batches: %zu; bytes: %zu (user: %zu); chunks: %zu (capacity: %zu); %zu%% chunks used; %zu%% memory overhead'' @ newline) [KNum, KNum, KNum, KNum, KNum, KNum, KNum]"
  "fmt_check (''Quarantine limits: global: %zuK; thread local: %zuK'' @ newline) [KNum, KNum]"
  "fmt_check (''Secondary Cache Disabled'' @ newline) []"
  "fmt_check (''  StartBlockAddress: 0x%zx, EndBlockAddress: 0x%zx, BlockSize: %zu %s'' @ newline) [KNum, KNum, KNum, KStr]"
  "fmt_check (''Stats: MapAllocatorCache: EntriesCount: %zu, MaxEntriesCount: %u, MaxEntrySize: %zu, ReleaseToOsSkips: %zu, ReleaseToOsIntervalMs = %d'' @ newline) [KNum, KNum, KNum, KNum, KNum]"
  "fmt_check (''Stats: CacheRetrievalStats: SuccessRate: %u/%u (%zu.%02zu%%)'' @ newline) [KNum, KNum, KNum, KNum]"
  "fmt_check (''Cache Entry Info (Most Recent -> Least Recent):'' @ newline) []"
  "fmt_check (''Stats: MapAllocator: allocated %u times (%zuK), freed %u times (%zuK), remains %u (%zuK) max %zuM, Fragmented %zuK'' @ newline) [KNum, KNum, KNum, KNum, KNum, KNum, KNum, KNum]"
  "fmt_check (''%s %02zu (%6zu): mapped: %6zuK popped: %7zu pushed: %7zu inuse: %6zu total: %6zu releases attempted: %6zu last released: %6zuK latest pushed bytes: %6zuK region: 0x%zx (0x%zx)'' @ newline) [KStr, KNum, KNum, KNum, KNum, KNum, KNum, KNum, KNum, KNum, KNum, KNum, KNum]"
  "fmt_check (''Stats: SizeClassAllocator64: %zuM mapped (%uM rss) in %zu allocations; remains %zu; ReleaseToOsIntervalMs = %d'' @ newline) [KNum, KNum, KNum, KNum, KNum]"
  "fmt_check (''  %02zu (%6zu): inuse/total blocks: %6zu/%6zu inuse/total pages: %6zu/%6zu inuse bytes: %6zuK util: %3zu.%02zu%%'' @ newline) [KNum, KNum, KNum, KNum, KNum, KNum, KNum, KNum, KNum]"
  "fmt_check (''MemoryGroupFragmentationInfo in Region %zu (%zu)'' @ newline) [KNum, KNum]"
  "fmt_check (''MemoryGroup #%zu (0x%zx): util: %3zu.%02zu%%'' @ newline) [KNum, KNum, KNum, KNum]"
  "fmt_check (''Fragmentation Stats: '' @ ''SizeClassAllocator64'' @ '': page size = %zu bytes'' @ newline) [KNum]"
  "fmt_check (''Fragmentation Stats: '' @ ''SizeClassAllocator32'' @ '': page size = %zu bytes'' @ newline) [KNum]"
  "fmt_check (''  %02zu (%6zu): mapped: %6zuK popped: %7zu pushed: %7zu inuse: %6zu avail: %6zu releases attempted: %6zu last released: %6zuK latest pushed bytes: %6zuK'' @ newline) [KNum, KNum, KNum, KNum, KNum, KNum, KNum, KNum, KNum, KNum]"
  "fmt_check (''Stats: SizeClassAllocator32: %zuM mapped in %zu allocations; remains %zu'' @ newline) [KNum, KNum, KNum]"
  by code_simp+

lemmas fits_eval = fits_Cons fits_Nil fst_conv snd_conv list.map kind_of.simps kind_IntervalArg simp_thms formats

section \<open>Every part fits\<close>

lemma fits_map: "(\<And>x. x \<in> set xs \<Longrightarrow> fits [f x]) \<Longrightarrow> fits (map f xs)"
  by (auto simp: fits_def)

lemma printMap_fits: "fits (printMap cfg)"
proof -
  let ?step = "\<lambda>I (out, PrevS, TotalCached).
     if of_nat I = BatchClassId then (out, PrevS, TotalCached)
     else let S = getSizeByClassId cfg (of_nat I)
          in (out @ [printMap_line cfg (of_nat I) PrevS], S, TotalCached + ucast (getMaxCachedHint cfg S) * S)"
  have line: "fits [printMap_line cfg I P]" for I P
    unfolding printMap_line_def Let_def by (simp only: fits_eval)
  have "fits (fst a) \<Longrightarrow> fits (fst (fold ?step Is a))" for Is a
    by (induction Is arbitrary: a) (auto simp: Let_def line split: prod.splits)
  then have "fits (fst (fold ?step [0 ..< unat (NumClasses cfg)] ([], 0, 0)))" by simp
  moreover have "fits [(''Total Cached: %zu'' @ newline, [ArgNum n])]" for n by (simp only: fits_eval)
  ultimately show ?thesis unfolding printMap_def by (auto split: prod.splits simp del: append.simps)
qed

lemma fits_if: "(c \<Longrightarrow> fits a) \<Longrightarrow> (\<not> c \<Longrightarrow> fits b) \<Longrightarrow> fits (if c then a else b)"
  by simp

lemmas fits_intros = fits_if fits_concat fits_map fits_append [THEN iffD2] conjI

lemma sca_getStats_fits: "fits (sca_getStats sz N c)"
  unfolding sca_getStats_def Let_def by (intro fits_intros) (simp_all only: fits_eval)

lemma shared_getStats_fits: "fits (fst (shared_getStats me sz N caches r))"
proof -
  let ?step = "\<lambda>I (out, r).
     let r = r\<lparr>TSDs := (TSDs r)[I := tsd_lock me (TSDs r ! I)]\<rparr>;
         out = out @ [(''  Shared TSD[%zu]:'' @ newline, [ArgNum (of_nat I)])] @ sca_getStats sz N (caches ! I)
     in (out, r\<lparr>TSDs := (TSDs r)[I := tsd_unlock (TSDs r ! I)]\<rparr>)"
  have "fits [(''  Shared TSD[%zu]:'' @ newline, [ArgNum n])]" for n by (simp only: fits_eval)
  then have step: "fits (fst a) \<Longrightarrow> fits (fst (fold ?step Is a))" for Is a
    by (induction Is arbitrary: a) (auto simp: Let_def sca_getStats_fits simp del: append.simps split: prod.splits)
  have "fits [(''Stats: SharedTSDs: %u available; total %u'' @ newline, [ArgNum n, ArgNum m])]" for n m
    by (simp only: fits_eval)
  then show ?thesis unfolding shared_getStats_def by (intro step) (simp only: fst_conv)
qed

lemma ex_getStats_fits: "fits ex_getStats"
  unfolding ex_getStats_def by (simp only: fits_eval)

lemma quarantine_getStats_fits: "fits (quarantine_getStats q)"
  unfolding quarantine_getStats_def cache_getStats_def Let_def by (simp only: fits_eval)

lemma sec_cache_getStats_fits: "fits (sec_cache_getStats c)"
  unfolding sec_cache_getStats_def cached_block_line_def Let_def
  by (split prod.split, intro allI impI fits_intros) (simp_all only: fits_eval)

lemma secondary_getStats_fits: "fits (secondary_getStats s)"
  unfolding secondary_getStats_def secondary_stats_def
  by (intro fits_intros sec_cache_getStats_fits) (simp_all only: fits_eval)

lemma p_getStats_fits: "fits (p_getStats cfg h)"
  unfolding p_getStats_def region_getStats_def Let_def by (intro fits_intros) (simp_all only: fits_eval)

lemma getStats32_fits: "fits (getStats32 cfg h)"
  unfolding getStats32_def class_getStats32_def Let_def by (intro fits_intros) (simp_all only: fits_eval)

lemma scudo_getStats_fits: "fits (scudo_getStats cfg s)"
  unfolding scudo_getStats_def
  by (intro fits_intros p_getStats_fits secondary_getStats_fits quarantine_getStats_fits ex_getStats_fits fits_Nil)

lemma fragmentation_line_fits: "fits [fragmentation_line a b c d e f g]"
  unfolding fragmentation_line_def Let_def by (split prod.split) (simp only: fits_eval)

lemma for_classes_fits:
  "(\<And>I s out s'. f I s = Inr (out, s') \<Longrightarrow> fits out) \<Longrightarrow> for_classes f Is s = Inr (out, s') \<Longrightarrow> fits out"
  by (induction f Is s arbitrary: out s' rule: for_classes.induct) (auto simp: bindE_eq_Inr)

lemma header_fits:
  "fits out \<Longrightarrow> fits (fragmentation_header ''SizeClassAllocator64'' cfg # out)"
  "fits out \<Longrightarrow> fits (fragmentation_header ''SizeClassAllocator32'' cfg # out)"
  unfolding fragmentation_header_def by (simp_all only: fits_eval)

lemma getFragmentationInfo_fits: "getFragmentationInfo cfg os hm = Inr (out, hm') \<Longrightarrow> fits out"
proof -
  have "getRegionFragmentationInfo cfg os I s = Inr (out, s') \<Longrightarrow> fits out" for I s out s'
    by (auto simp: getRegionFragmentationInfo_def bindE_eq_Inr Let_def fragmentation_line_fits)
  then have "for_classes (getRegionFragmentationInfo cfg os) Is s = Inr (out, s') \<Longrightarrow> fits out" for Is s out s'
    by (rule for_classes_fits)
  note fc = this
  show "getFragmentationInfo cfg os hm = Inr (out, hm') \<Longrightarrow> fits out"
    by (auto simp: getFragmentationInfo_def bindE_eq_Inr intro!: header_fits dest: fc)
qed

lemma getFragmentationInfo32_fits: "getFragmentationInfo32 cfg os hm = Inr (out, hm') \<Longrightarrow> fits out"
proof -
  have "getSizeClassFragmentationInfo cfg os I s = Inr (out, s') \<Longrightarrow> fits out" for I s out s'
    by (auto simp: getSizeClassFragmentationInfo_def bindE_eq_Inr Let_def fragmentation_line_fits split: prod.splits)
  then have "for_classes (getSizeClassFragmentationInfo cfg os) Is s = Inr (out, s') \<Longrightarrow> fits out" for Is s out s'
    by (rule for_classes_fits)
  note fc = this
  show "getFragmentationInfo32 cfg os hm = Inr (out, hm') \<Longrightarrow> fits out"
    by (auto simp: getFragmentationInfo32_def bindE_eq_Inr intro!: header_fits dest: fc)
qed

lemma getMemoryGroupFragmentationInfo_fits: "getMemoryGroupFragmentationInfo cfg os hm = Inr (out, hm') \<Longrightarrow> fits out"
proof -
  have title: "fits ((''MemoryGroupFragmentationInfo in Region %zu (%zu)'' @ newline, [ArgNum a, ArgNum b]) # rest)"
    if "fits rest" for a b rest using that by (simp only: fits_eval)
  have line: "fits [(''MemoryGroup #%zu (0x%zx): util: %3zu.%02zu%%'' @ newline, [ArgNum a, ArgNum b, ArgNum c, ArgNum d])]"
    for a b c d by (simp only: fits_eval)
  have "getMemoryGroupFragmentationInfoInRegion cfg os I s = Inr (out, s') \<Longrightarrow> fits out" for I s out s'
    unfolding getMemoryGroupFragmentationInfoInRegion_def
    by (auto simp: bindE_eq_Inr Let_def line intro!: title fits_map split: prod.splits simp del: append.simps)
  then have "for_classes (getMemoryGroupFragmentationInfoInRegion cfg os) Is s = Inr (out, s') \<Longrightarrow> fits out" for Is s out s'
    by (rule for_classes_fits)
  note fc = this
  show "getMemoryGroupFragmentationInfo cfg os hm = Inr (out, hm') \<Longrightarrow> fits out"
    by (auto simp: getMemoryGroupFragmentationInfo_def bindE_eq_Inr intro!: header_fits dest: fc)
qed

section \<open>The free lists are put back\<close>

lemma merge_nothing: "merge_loop_groups cfg [] [] Gs sh = (Gs, sh)"
  by (cases Gs) simp_all

lemma take_and_put_back:
  assumes "unat ClassId < length (RegionInfoArray h)" "BlockList (getRegionInfo ClassId h) = Gs"
  shows "mergeGroupsToReleaseBack cfg ClassId Gs (upd_region ClassId (\<lambda>r. r\<lparr>BlockList := []\<rparr>) h) = h"
  using assms(1) unfolding assms(2) [symmetric]
  by (simp add: mergeGroupsToReleaseBack_def getRegionInfo_def upd_region_def merge_nothing)

lemma upd_no_blocks: "BlockList (getRegionInfo ClassId h) = [] \<Longrightarrow> upd_region ClassId (\<lambda>r. r\<lparr>BlockList := []\<rparr>) h = h"
proof -
  assume "BlockList (getRegionInfo ClassId h) = []"
  then have "(getRegionInfo ClassId h)\<lparr>BlockList := []\<rparr> = getRegionInfo ClassId h" by simp
  then show ?thesis by (simp add: upd_region_def getRegionInfo_def)
qed

lemma count_free_pages_keeps:
  assumes "unat ClassId < length (RegionInfoArray h)"
    and "count_free_pages rel rec0 cfg os ClassId (h, Mask) = Inr (rec1, h', Mask')"
  shows "h' = h"
  using assms(2) take_and_put_back [OF assms(1) refl] upd_no_blocks [of ClassId h]
  by (auto simp: count_free_pages_def Let_def split: if_splits prod.splits)

section \<open>There is a page map\<close>

text \<open>A mark leaves an allocated page map allocated; when mappings do not fail, the first mark allocates it.\<close>

lemma isAllocated_modify [simp]: "isAllocated (pm_modify pm w f) = isAllocated pm"
  by (simp add: isAllocated_def pm_modify_def split: option.splits)

lemma isAllocated_fold: "(\<And>x pm. isAllocated (f x pm) = isAllocated pm) \<Longrightarrow> isAllocated (fold f xs pm) = isAllocated pm"
  by (induction xs arbitrary: pm) simp_all

lemma isAllocated_pm [simp]:
  "isAllocated (pm_inc R I pm) = isAllocated pm" "isAllocated (pm_incN R I N pm) = isAllocated pm"
  "isAllocated (pm_incRange R F T pm) = isAllocated pm" "isAllocated (setAsAllCounted R I pm) = isAllocated pm"
  "isAllocated (setAsAllCountedRange R F T pm) = isAllocated pm"
  by (simp_all add: pm_inc_def pm_incN_def pm_incRange_def setAsAllCounted_def setAsAllCountedRange_def Let_def isAllocated_fold)

lemma marked_with_map [simp]:
  "(\<And>pm. isAllocated (f pm) = isAllocated pm) \<Longrightarrow> hasBlockMarked (with_map f c) = hasBlockMarked c"
  by (simp add: hasBlockMarked_def with_map_def)

lemma marked_fold: "(\<And>x c. hasBlockMarked (f x c) = hasBlockMarked c) \<Longrightarrow> hasBlockMarked (fold f xs c) = hasBlockMarked c"
  by (induction xs arbitrary: c) simp_all

lemma ensure_marked: "hasBlockMarked (fst cm) \<Longrightarrow> hasBlockMarked (fst (snd (ensurePageMapAllocated map_ok s cm)))"
  by (auto simp: ensurePageMapAllocated_def hasBlockMarked_def split: prod.splits)

lemma markFree_marked:
  assumes "hasBlockMarked (fst cm)"
  shows "hasBlockMarked (fst (snd (markFreeBlocksInRegion map_ok s FL D B I R l cm)))"
proof -
  have m: "hasBlockMarked (markBlock s I off c) = hasBlockMarked c" for off c by (simp add: markBlock_def Let_def)
  have t: "hasBlockMarked (markTrailingBlocks s I R c) = hasBlockMarked c" for c by (simp add: markTrailingBlocks_def Let_def)
  have f: "hasBlockMarked (fold (\<lambda>P. markBlock s I (D P - B)) xs c) = hasBlockMarked c" for xs c
    by (rule marked_fold) (rule m)
  have g: "hasBlockMarked (fold (\<lambda>It. fold (\<lambda>P. markBlock s I (D P - B)) It) FL c) = hasBlockMarked c" for c
    by (rule marked_fold) (rule f)
  obtain ok c M where e: "ensurePageMapAllocated map_ok s cm = (ok, c, M)" by (metis surj_pair)
  have "hasBlockMarked c" using ensure_marked [OF assms, of map_ok s] e by simp
  then show ?thesis unfolding markFreeBlocksInRegion_def e prod.case Let_def
    by (cases ok) (simp_all only: if_True if_False fst_conv snd_conv g t simp_thms if_distrib [where f = hasBlockMarked] split: if_split)
qed

lemma markRange_marked:
  assumes "hasBlockMarked (fst cm)"
  shows "hasBlockMarked (fst (snd (markRangeAsAllCounted map_ok s From To B I R cm)))"
  using ensure_marked [OF assms, of map_ok s]
  by (auto simp: markRangeAsAllCounted_def Let_def split: prod.splits)

lemma markFreeBlocks_marked:
  assumes "\<And>n. os_map_ok os n"
  shows "hasBlockMarked (fst (markFreeBlocks cfg os r BSize End Base Gs Mask))"
proof -
  have ens: "fst (ensurePageMapAllocated (os_map_ok os) s cm)
      \<and> hasBlockMarked (fst (snd (ensurePageMapAllocated (os_map_ok os) s cm)))" for s cm
    using assms by (auto simp: ensurePageMapAllocated_def page_map_reset_def isAllocated_def hasBlockMarked_def
      getBuffer_def getDynamicBuffer_def Let_def split: prod.splits)
  have g: "hasBlockMarked (fst cm) \<Longrightarrow> hasBlockMarked (fst (mark_group cfg os r BSize End Base BG cm))" for BG cm
    by (simp add: mark_group_def Let_def markFree_marked markRange_marked)
  have f: "hasBlockMarked (fst cm) \<Longrightarrow> hasBlockMarked (fst (fold (mark_group cfg os r BSize End Base) Gs cm))" for Gs cm
    by (induction Gs arbitrary: cm) (simp_all add: g)
  let ?c = "PageReleaseContext_init (PPageSizeLog cfg) BSize 1
    (roundUpSlow (MinU (decompactGroupBase cfg Base (CompactPtrGroupBase (last Gs)) + push_bit (GroupSizeLog cfg) 1) End - RegionBeg r) BSize
      + RegionBeg r - decompactGroupBase cfg Base (CompactPtrGroupBase (hd Gs)))
    (decompactGroupBase cfg Base (CompactPtrGroupBase (hd Gs)) - RegionBeg r)"
  obtain c M where e: "ensurePageMapAllocated (os_map_ok os) (PPageSizeLog cfg) (?c, Mask) = (True, c, M)"
    using ens [of "PPageSizeLog cfg" "(?c, Mask)"] by (metis (full_types) prod.collapse)
  have "hasBlockMarked c" using ens [of "PPageSizeLog cfg" "(?c, Mask)"] unfolding e by simp
  then show ?thesis unfolding markFreeBlocks_def Let_def e prod.case by (simp add: f)
qed

text \<open>The walk of one class has one of three ends: it reads a page map that there was no memory for, it reads
  outside of the page map, or it leaves the heap as it was.\<close>

definition pages_counted :: "os \<Rightarrow> heap \<Rightarrow> ('r \<times> heap \<times> uptr) result \<Rightarrow> bool" where
  "pages_counted os h x \<longleftrightarrow> (case x of
      Inl e \<Rightarrow> e = NullDeref \<and> (\<exists>n. \<not> os_map_ok os n) \<or> e = OutOfBounds
    | Inr (_, h', _) \<Rightarrow> h' = h)"

lemma pages_counted_simps [simp]:
  "pages_counted os h (Inr (a, h', M)) \<longleftrightarrow> h' = h"
  "pages_counted os h (Inl e) \<longleftrightarrow> e = NullDeref \<and> (\<exists>n. \<not> os_map_ok os n) \<or> e = OutOfBounds"
  by (simp_all add: pages_counted_def)

lemma pages_counted_bind:
  assumes "pages_counted os h m" "\<And>x M. m = Inr (x, h, M) \<Longrightarrow> pages_counted os h (f (x, h, M))"
  shows "pages_counted os h (bindE m f)"
  using assms by (auto simp: pages_counted_def bindE_def split: sum.splits)

lemma count_free_pages_counted:
  assumes "unat ClassId < length (RegionInfoArray h)"
  shows "pages_counted os h (count_free_pages rel rec0 cfg os ClassId (h, Mask))"
proof (cases "count_free_pages rel rec0 cfg os ClassId (h, Mask)")
  case (Inr x)
  then show ?thesis using count_free_pages_keeps [OF assms] by (cases x) auto
next
  case (Inl e)
  let ?r = "getRegionInfo ClassId h"
  obtain c M where m: "markFreeBlocks cfg os ?r (p_getSizeByClassId cfg ClassId) (AllocatedUser ?r + RegionBeg ?r)
      (RegionBeg ?r) (BlockList ?r) Mask = (c, M)" by (metis surj_pair)
  have marked: "(\<forall>n. os_map_ok os n) \<longrightarrow> hasBlockMarked c" using markFreeBlocks_marked [of os] m by (metis fst_conv)
  show ?thesis
    using Inl m marked by (auto simp: count_free_pages_def Let_def split: if_splits prod.splits)
qed

lemma for_classes_counted:
  assumes "\<And>I M. I \<in> set Is \<Longrightarrow> pages_counted os h (f I (h, M))"
  shows "pages_counted os h (for_classes f Is (h, M))"
  using assms
proof (induction Is arbitrary: M)
  case (Cons I Is)
  have "pages_counted os h (bindE (for_classes f Is (h, M1)) (\<lambda>(rest, s). Inr (out @ rest, s)))" for out M1
    using Cons.prems by (intro pages_counted_bind [OF Cons.IH]) auto
  then show ?case using Cons.prems by (auto intro: pages_counted_bind)
qed simp

lemma getFragmentationInfo_counted:
  assumes "unat (NumClasses (PSizeMap cfg)) \<le> length (RegionInfoArray h)"
  shows "pages_counted os h (getFragmentationInfo cfg os (h, Mask))"
proof -
  have "pages_counted os h (getRegionFragmentationInfo cfg os I (h, M))" if I: "I \<in> set (classes_from_1 cfg)" for I M
  proof -
    obtain i where i: "I = of_nat i" "i < unat (NumClasses (PSizeMap cfg))" using I by (auto simp: classes_from_1_def)
    have "i < 18446744073709551616" using i(2) unat_less_64 [of "NumClasses (PSizeMap cfg)"] by linarith
    then have I: "unat I < length (RegionInfoArray h)" using i assms by (simp add: unat_of_nat_small)
    show ?thesis unfolding getRegionFragmentationInfo_def
      by (rule pages_counted_bind [OF count_free_pages_counted [OF I]]) (simp add: Let_def)
  qed
  then show ?thesis unfolding getFragmentationInfo_def
    by (intro pages_counted_bind [OF for_classes_counted]) simp_all
qed

text \<open>C39: The statistics of the allocator can always be printed: every \<^verbatim>\<open>append\<close> of \<^verbatim>\<open>getStats\<close> finds the
  arguments its format asks for, and what \<^verbatim>\<open>getStats\<close> writes into a buffer of at least one byte ends in a
  zero byte within it. The fragmentation of the 64-bit primary, which has to walk the page maps, cannot
  always be computed: the walk may read a page map that there was no memory for, or a counter outside of a page map
  when the free lists are not those of the region. When neither happens its text can be printed, and
  the regions and their free lists are afterwards exactly what they were.\<close>

theorem statistics_complete:
  assumes "unat (NumClasses (PSizeMap (CPrimary cfg))) \<le> length (RegionInfoArray (Heap s))"
  shows "(\<exists>msg. printStats cfg s = Inr msg
      \<and> (\<forall>n > 0. \<exists>out. scudo_getStats_buffer cfg True n s = Inr (length msg + 1, out)
          \<and> 0 < length out \<and> length out \<le> n \<and> last out = CHR 0x00))
    \<and> (case printFragmentationInfo cfg s of
         Inl e \<Rightarrow> e = NullDeref \<and> (\<exists>n. \<not> os_map_ok (COs cfg) n) \<or> e = OutOfBounds
       | Inr (out, s') \<Rightarrow> s' = s\<lparr>PoolMask := PoolMask s'\<rparr> \<and> (\<exists>msg. append_calls out = Inr msg))"
proof
  obtain msg where t: "append_calls (scudo_getStats cfg s) = Inr msg" using fits_ok [OF scudo_getStats_fits] by blast
  have "\<exists>out. getStats_buffer msg True n = (length msg + 1, out) \<and> 0 < length out \<and> length out \<le> n \<and> last out = CHR 0x00"
    if "0 < n" for n
    using that by (auto simp: getStats_buffer_def Let_def last_conv_nth nth_list_update min_def)
  then have "\<forall>n > 0. \<exists>out. scudo_getStats_buffer cfg True n s = Inr (length msg + 1, out)
      \<and> 0 < length out \<and> length out \<le> n \<and> last out = CHR 0x00"
    by (auto simp: scudo_getStats_buffer_def t)
  then show "\<exists>msg. printStats cfg s = Inr msg \<and> (\<forall>n > 0. \<exists>out. scudo_getStats_buffer cfg True n s = Inr (length msg + 1, out)
      \<and> 0 < length out \<and> length out \<le> n \<and> last out = CHR 0x00)"
    unfolding printStats_def using t by blast
next
  let ?x = "getFragmentationInfo (CPrimary cfg) (COs cfg) (Heap s, PoolMask s)"
  have c: "pages_counted (COs cfg) (Heap s) ?x" by (rule getFragmentationInfo_counted [OF assms])
  show "case printFragmentationInfo cfg s of
         Inl e \<Rightarrow> e = NullDeref \<and> (\<exists>n. \<not> os_map_ok (COs cfg) n) \<or> e = OutOfBounds
       | Inr (out, s') \<Rightarrow> s' = s\<lparr>PoolMask := PoolMask s'\<rparr> \<and> (\<exists>msg. append_calls out = Inr msg)"
  proof (cases ?x)
    case (Inl e)
    then show ?thesis using c by (simp add: printFragmentationInfo_def)
  next
    case (Inr x)
    then obtain out M where x: "?x = Inr (out, Heap s, M)" using c by (cases x) auto
    from fits_ok [OF getFragmentationInfo_fits [OF x]] x show ?thesis by (simp add: printFragmentationInfo_def)
  qed
qed

text \<open>Both blocks of the small primary are in its free list.\<close>

definition small_free_scudo :: scudo where
  "small_free_scudo = (small_scudo False)\<lparr>Heap := upd_region 1 (\<lambda>r. r\<lparr>BlockList :=
     [\<lparr>GroupAddr = 0x10000, CompactPtrGroupBase = 0, BytesInBGAtLastCheckpoint = 0,
       Batches = [\<lparr>BatchAddr = 0x10020, Blocks = [32, 0]\<rparr>], MaxCachedPerBatch = 2\<rparr>]\<rparr>) (small_heap 0)\<rparr>"

lemma small_free_counted: "\<exists>out s'. printFragmentationInfo small_cconfig small_free_scudo = Inr (out, s')"
proof -
  have "isl (printFragmentationInfo small_cconfig small_free_scudo) = False" by code_simp
  then show ?thesis by (cases "printFragmentationInfo small_cconfig small_free_scudo") auto
qed

theorem statistics_complete_witness:
  "(\<exists>msg. printStats small_cconfig small_free_scudo = Inr msg
      \<and> (\<exists>out. scudo_getStats_buffer small_cconfig True 10 small_free_scudo = Inr (length msg + 1, out)
          \<and> 0 < length out \<and> length out \<le> 10 \<and> last out = CHR 0x00))
    \<and> (\<exists>out Mask msg. printFragmentationInfo small_cconfig small_free_scudo = Inr (out, small_free_scudo\<lparr>PoolMask := Mask\<rparr>)
        \<and> append_calls out = Inr msg)"
proof -
  have "unat (NumClasses (PSizeMap (CPrimary small_cconfig))) \<le> length (RegionInfoArray (Heap small_free_scudo))"
    by (simp add: small_config_values small_free_scudo_def small_heap_def upd_region_def)
  note r = statistics_complete [OF this]
  obtain out s' where f: "printFragmentationInfo small_cconfig small_free_scudo = Inr (out, s')"
    using small_free_counted by blast
  have "s' = small_free_scudo\<lparr>PoolMask := PoolMask s'\<rparr>" "\<exists>msg. append_calls out = Inr msg"
    using conjunct2 [OF r] unfolding f by simp_all
  then show ?thesis using f conjunct1 [OF r] by (metis zero_less_numeral)
qed

end
