(* ===== verification/ForkLocks.thy ===== *)
theory ForkLocks
  imports LocalCache
begin

text \<open>
  \<^verbatim>\<open>disable\<close> and \<^verbatim>\<open>enable\<close>, which \<^verbatim>\<open>fork\<close> and \<^verbatim>\<open>malloc_iterate\<close> rely on: each part of the allocator takes its locks,
  and gives them back. The functions are the lists of the locks in the order of the calls; \<open>run_locks\<close> runs them for one
  thread, for which taking a lock it has is a deadlock and releasing one it has not is an error (\<open>None\<close>).

  \<open>lock\<close> has a value for every \<^verbatim>\<open>HybridMutex\<close> that the classes of the allocator declare, and \<open>lock_exists\<close> says
  which of them a configuration has. \<open>disable_takes_locks\<close> shows which of these \<^verbatim>\<open>disable\<close> takes and which
  it does not, that it takes each once, those of the batch class after those of the other classes, and that
  \<^verbatim>\<open>enable\<close> is its exact reverse. The mutex of \<^verbatim>\<open>timing.h\<close> belongs to no part of the allocator, and those of
  GWP-ASan are not in this repository.
\<close>

section \<open>Locks\<close>

datatype lock =
    RegistryMutex | MutexTSDs | TsdLock nat
  | FallbackLock | ThreadTsdLock nat
  | StatsMutex
  | RecycleLock | QCacheLock
  | MMLock nat | FLLock nat
  | SciMutex nat | RegionsStashMutex | ByteMapMutex
  | SecondaryMutex | SecondaryCacheMutex
  | RingBufferInitLock | RingEndMu
  | PoolMutex

datatype lock_op = Acquire lock | Release lock

fun run_locks :: "lock_op list \<Rightarrow> lock set \<Rightarrow> lock set option" where
  "run_locks [] Held = Some Held"
| "run_locks (Acquire l # ops) Held = (if l \<in> Held then None else run_locks ops (insert l Held))"
| "run_locks (Release l # ops) Held = (if l \<notin> Held then None else run_locks ops (Held - {l}))"

section \<open>The parts\<close>

text \<open>The loops over the classes leave out the batch class, whose locks are taken last and released first.\<close>

definition other_classes :: "nat list \<Rightarrow> nat list" where
  "other_classes Is = filter (\<lambda>I. I \<noteq> unat BatchClassId) Is"

definition p_disable :: "nat \<Rightarrow> lock list" where
  "p_disable N = concat (map (\<lambda>I. [MMLock I, FLLock I]) (other_classes (rev [0 ..< N])))
     @ [MMLock (unat BatchClassId), FLLock (unat BatchClassId)]"

definition p_enable :: "nat \<Rightarrow> lock list" where
  "p_enable N = [FLLock (unat BatchClassId), MMLock (unat BatchClassId)]
     @ concat (map (\<lambda>I. [FLLock I, MMLock I]) (other_classes [0 ..< N]))"

definition p32_disable :: "nat \<Rightarrow> lock list" where
  "p32_disable N = map SciMutex (other_classes (rev [0 ..< N])) @ [SciMutex (unat BatchClassId)]
     @ [RegionsStashMutex, ByteMapMutex]"

definition p32_enable :: "nat \<Rightarrow> lock list" where
  "p32_enable N = [ByteMapMutex, RegionsStashMutex] @ [SciMutex (unat BatchClassId)]
     @ map SciMutex (other_classes [0 ..< N])"

text \<open>The registries; \<open>None\<close> is the exclusive one, \<open>Some n\<close> the shared one with \<open>n\<close> contexts.\<close>

definition registry_disable :: "nat option \<Rightarrow> lock list" where
  "registry_disable r = (case r of None \<Rightarrow> [RegistryMutex, FallbackLock] | Some n \<Rightarrow> RegistryMutex # map TsdLock [0 ..< n])"

definition registry_enable :: "nat option \<Rightarrow> lock list" where
  "registry_enable r =
     (case r of None \<Rightarrow> [FallbackLock, RegistryMutex] | Some n \<Rightarrow> map TsdLock (rev [0 ..< n]) @ [RegistryMutex])"

definition quarantine_lock :: "lock list" where "quarantine_lock = [RecycleLock, QCacheLock]"
definition quarantine_unlock :: "lock list" where "quarantine_unlock = [QCacheLock, RecycleLock]"

text \<open>The flag: whether the secondary has a cache; \<^verbatim>\<open>MapAllocatorNoCache\<close> has nothing to lock.\<close>

definition secondary_disable :: "bool \<Rightarrow> lock list" where
  "secondary_disable Cache = SecondaryMutex # (if Cache then [SecondaryCacheMutex] else [])"

definition secondary_enable :: "bool \<Rightarrow> lock list" where
  "secondary_enable Cache = (if Cache then [SecondaryCacheMutex] else []) @ [SecondaryMutex]"

text \<open>The flag: whether there is a ring buffer, whose stack depot has a lock. It cannot change while
  \<open>RingBufferInitLock\<close> is held.\<close>

definition disableRingBuffer :: "bool \<Rightarrow> lock list" where
  "disableRingBuffer RB = RingBufferInitLock # (if RB then [RingEndMu] else [])"

definition enableRingBuffer :: "bool \<Rightarrow> lock list" where
  "enableRingBuffer RB = (if RB then [RingEndMu] else []) @ [RingBufferInitLock]"

section \<open>The allocator\<close>

record lock_config =
  LRegistry :: "nat option"
  LQuarantineDisabled :: bool
  LPrimary32 :: bool
  LNumClasses :: nat
  LSecondaryCache :: bool
  LRingBuffer :: bool

definition scudo_disable :: "lock_config \<Rightarrow> lock_op list" where
  "scudo_disable c = map Acquire
     (registry_disable (LRegistry c) @ [StatsMutex]
      @ (if LQuarantineDisabled c then [] else quarantine_lock)
      @ (if LPrimary32 c then p32_disable (LNumClasses c) else p_disable (LNumClasses c))
      @ secondary_disable (LSecondaryCache c) @ disableRingBuffer (LRingBuffer c))"

definition scudo_enable :: "lock_config \<Rightarrow> lock_op list" where
  "scudo_enable c = map Release
     (enableRingBuffer (LRingBuffer c) @ secondary_enable (LSecondaryCache c)
      @ (if LPrimary32 c then p32_enable (LNumClasses c) else p_enable (LNumClasses c))
      @ (if LQuarantineDisabled c then [] else quarantine_unlock)
      @ [StatsMutex] @ registry_enable (LRegistry c))"

text \<open>The locks that the objects of a configuration contain, member by member. The contexts of the
  shared registry are an array; with the exclusive one every thread \<open>T\<close> has a context of its own, and all share
  \<^verbatim>\<open>FallbackTSD\<close>. The buffer pool of the page maps is a static member.\<close>

fun lock_exists :: "lock_config \<Rightarrow> lock \<Rightarrow> bool" where
  "lock_exists c RegistryMutex = True"
| "lock_exists c MutexTSDs = (LRegistry c \<noteq> None)"
| "lock_exists c (TsdLock I) = (case LRegistry c of None \<Rightarrow> False | Some n \<Rightarrow> I < n)"
| "lock_exists c FallbackLock = (LRegistry c = None)"
| "lock_exists c (ThreadTsdLock T) = (LRegistry c = None)"
| "lock_exists c StatsMutex = True"
| "lock_exists c RecycleLock = True"
| "lock_exists c QCacheLock = True"
| "lock_exists c (MMLock I) = (\<not> LPrimary32 c \<and> I < LNumClasses c)"
| "lock_exists c (FLLock I) = (\<not> LPrimary32 c \<and> I < LNumClasses c)"
| "lock_exists c (SciMutex I) = (LPrimary32 c \<and> I < LNumClasses c)"
| "lock_exists c RegionsStashMutex = LPrimary32 c"
| "lock_exists c ByteMapMutex = LPrimary32 c"
| "lock_exists c SecondaryMutex = True"
| "lock_exists c SecondaryCacheMutex = LSecondaryCache c"
| "lock_exists c RingBufferInitLock = True"
| "lock_exists c RingEndMu = LRingBuffer c"
| "lock_exists c PoolMutex = True"

section \<open>Facts\<close>

lemma run_acquire:
  "distinct ls \<Longrightarrow> set ls \<inter> Held = {} \<Longrightarrow> run_locks (map Acquire ls) Held = Some (set ls \<union> Held)"
  by (induction ls arbitrary: Held) auto

lemma run_release: "distinct ls \<Longrightarrow> set ls \<subseteq> Held \<Longrightarrow> run_locks (map Release ls) Held = Some (Held - set ls)"
proof (induction ls arbitrary: Held)
  case (Cons l ls)
  then have "run_locks (map Release ls) (Held - {l}) = Some (Held - {l} - set ls)" by (intro Cons.IH) auto
  moreover have "Held - {l} - set ls = Held - set (l # ls)" by auto
  ultimately show ?case using Cons.prems by simp
qed simp

lemma rev_pairs: "rev (concat (map (\<lambda>I. [f I, g I]) xs)) = concat (map (\<lambda>I. [g I, f I]) (rev xs))"
  by (induction xs) simp_all

lemma enable_reverses:
  "p_enable N = rev (p_disable N)" "p32_enable N = rev (p32_disable N)" "registry_enable r = rev (registry_disable r)"
  "quarantine_unlock = rev quarantine_lock" "secondary_enable Cache = rev (secondary_disable Cache)"
  "enableRingBuffer RB = rev (disableRingBuffer RB)"
  by (simp_all add: p_enable_def p_disable_def p32_enable_def p32_disable_def registry_enable_def registry_disable_def
      quarantine_unlock_def quarantine_lock_def secondary_enable_def secondary_disable_def enableRingBuffer_def
      disableRingBuffer_def rev_pairs other_classes_def rev_map rev_filter split: option.split)

lemma distinct_pairs: "distinct xs \<Longrightarrow> distinct (concat (map (\<lambda>I. [MMLock I, FLLock I]) xs))"
  by (induction xs) auto

lemma class_locks:
  assumes "0 < N"
  shows "set (p_disable N) = MMLock ` {..<N} \<union> FLLock ` {..<N}" "distinct (p_disable N)"
    "set (p32_disable N) = SciMutex ` {..<N} \<union> {RegionsStashMutex, ByteMapMutex}" "distinct (p32_disable N)"
proof -
  have b: "unat BatchClassId < N" using assms by (simp add: BatchClassId_def)
  show "set (p_disable N) = MMLock ` {..<N} \<union> FLLock ` {..<N}"
    "set (p32_disable N) = SciMutex ` {..<N} \<union> {RegionsStashMutex, ByteMapMutex}"
    using b by (auto simp: p_disable_def p32_disable_def other_classes_def)
  show "distinct (p32_disable N)" by (auto simp: p32_disable_def other_classes_def distinct_map inj_on_def)
  have "distinct (other_classes (rev [0 ..< N]))" by (simp add: other_classes_def)
  then show "distinct (p_disable N)"
    using distinct_pairs by (auto simp: p_disable_def other_classes_def)
qed

text \<open>The locks that \<^verbatim>\<open>disable\<close> leaves alone.\<close>

definition untaken_locks :: "lock_config \<Rightarrow> lock set" where
  "untaken_locks c = (if LRegistry c = None then range ThreadTsdLock else {MutexTSDs})
     \<union> {PoolMutex} \<union> (if LQuarantineDisabled c then {RecycleLock, QCacheLock} else {})"

lemma untaken_exist: "untaken_locks c \<subseteq> {l. lock_exists c l}"
  by (auto simp: untaken_locks_def split: if_splits)

text \<open>C40: Around a fork, \<^verbatim>\<open>disable\<close> called by a thread that holds no lock of the allocator takes, each once, so that
  the thread does not wait for itself, all the mutexes there are in the allocator except: that of every
  thread's own context (exclusive registry), \<^verbatim>\<open>MutexTSDs\<close> (shared registry), that of the buffer pool of the page
  maps, and those of a quarantine that the configuration disables. The locks of the batch class, which
  operations on other classes take, are taken after those of the other classes. \<^verbatim>\<open>enable\<close> releases the
  locks in the opposite order, and holds none at the end; when other threads have locked all that \<^verbatim>\<open>disable\<close> left to
  them, exactly these are still locked after the \<^verbatim>\<open>enable\<close> of the child process. This is for both primaries, both
  registries, with and without a quarantine, a cache of the secondary or a ring buffer.\<close>

theorem disable_takes_locks:
  assumes "0 < LNumClasses c"
  shows "run_locks (scudo_disable c) {} = Some ({l. lock_exists c l} - untaken_locks c)
    \<and> run_locks (scudo_enable c) ({l. lock_exists c l} - untaken_locks c) = Some {}
    \<and> run_locks (scudo_enable c) {l. lock_exists c l} = Some (untaken_locks c)
    \<and> (\<exists>ls. scudo_disable c = map Acquire ls \<and> distinct ls \<and> scudo_enable c = map Release (rev ls))
    \<and> (\<exists>ls. p_disable (LNumClasses c) = ls @ [MMLock (unat BatchClassId), FLLock (unat BatchClassId)])
    \<and> (\<exists>ls. p32_disable (LNumClasses c) = ls @ [SciMutex (unat BatchClassId), RegionsStashMutex, ByteMapMutex])"
proof -
  let ?L = "{l. lock_exists c l}" and ?U = "untaken_locks c"
  define ls where "ls = registry_disable (LRegistry c) @ [StatsMutex]
      @ (if LQuarantineDisabled c then [] else quarantine_lock)
      @ (if LPrimary32 c then p32_disable (LNumClasses c) else p_disable (LNumClasses c))
      @ secondary_disable (LSecondaryCache c) @ disableRingBuffer (LRingBuffer c)"
  note cl = class_locks [OF assms]
  have d: "scudo_disable c = map Acquire ls" by (simp add: scudo_disable_def ls_def)
  have e: "scudo_enable c = map Release (rev ls)" by (simp add: scudo_enable_def ls_def enable_reverses)
  have reg: "set (registry_disable r) = insert RegistryMutex (case r of None \<Rightarrow> {FallbackLock} | Some n \<Rightarrow> TsdLock ` {..<n})"
    "distinct (registry_disable r)" for r
    by (auto simp: registry_disable_def distinct_map inj_on_def atLeast0LessThan split: option.splits)
  have "l \<in> set ls \<longleftrightarrow> l \<in> ?L - ?U" for l
    by (cases l) (auto simp: ls_def untaken_locks_def reg cl quarantine_lock_def secondary_disable_def disableRingBuffer_def
        split: option.splits)
  then have set: "set ls = ?L - ?U" by blast
  have dist: "distinct ls"
    by (auto simp: ls_def reg cl quarantine_lock_def secondary_disable_def disableRingBuffer_def split: option.splits)
  have "run_locks (scudo_disable c) {} = Some (?L - ?U)" using run_acquire [OF dist, of "{}"] by (simp add: d set)
  moreover have "run_locks (scudo_enable c) H = Some (H - (?L - ?U))" if "?L - ?U \<subseteq> H" for H
    using run_release [of "rev ls" H] dist that by (simp add: e set)
  moreover have "?L - (?L - ?U) = ?U" using untaken_exist [of c] by blast
  ultimately show ?thesis using d e dist by (auto simp: p_disable_def p32_disable_def)
qed

theorem disable_takes_locks_witness:
  "let c = \<lparr>LRegistry = Some 2, LQuarantineDisabled = False, LPrimary32 = False, LNumClasses = 33,
         LSecondaryCache = True, LRingBuffer = True\<rparr>
   in run_locks (scudo_disable c) {} = Some ({l. lock_exists c l} - {MutexTSDs, PoolMutex})
    \<and> run_locks (scudo_enable c) {l. lock_exists c l} = Some {MutexTSDs, PoolMutex}
    \<and> lock_exists c (FLLock 32) \<and> lock_exists c RingEndMu"
proof -
  let ?c = "\<lparr>LRegistry = Some 2, LQuarantineDisabled = False, LPrimary32 = False, LNumClasses = 33,
         LSecondaryCache = True, LRingBuffer = True\<rparr>"
  have "0 < LNumClasses ?c" by simp
  note t = disable_takes_locks [OF this]
  have "untaken_locks ?c = {MutexTSDs, PoolMutex}" by (auto simp: untaken_locks_def)
  with t show ?thesis unfolding Let_def by simp
qed

end
