(* ===== verification/Spec2Isabelle.thy ===== *)
theory Spec2Isabelle
  imports Prelude Common SizeClassMap VectorBuf StringUtils Report Memtag Chunk IntrusiveList Quarantine
    QuarantineThreads Release ReleaseSafety Stats Options LocalCache Primary64 Primary64Release
    BatchClass PrimarySafe PrimaryLife Secondary Combined Allocator
    AllocatorSafe AllocatorMisuse SecondarySafe AllocatorLarge SizeTable Tsd TsdSafe FlagParser Flags
    StackDepot ErrorInfo ErrorSafe Wrappers WrappersSafe
    Mutex CondVar PopCV Platform
    NodeStore Primary32 Primary32Release Regions32 Carving32 Primary32Batch Primary32Safe
    Primary32Life Primary32Walk
    PageCounters ReleasePages MarkBlocks ReleaseExact
    Timing TimingSafe StatsText StatsSafe ForkLocks
begin

text \<open>
  This development models the memory allocator of the repository, the port of LLVM's Scudo to
  RISC-V with the memory tagging extension Zimte (\<^verbatim>\<open>src/LLVM_SCUDO_MTE\<close>), in the configuration the
  port is built in: 64 bits, \<^verbatim>\<open>SCUDO_ZIMTE\<close> and \<^verbatim>\<open>SCUDO_CAN_USE_MTE\<close> set, the minimal alignment 16,
  \<^verbatim>\<open>DCHECK\<close> compiled out and \<^verbatim>\<open>CHECK\<close> ending the program, \<^verbatim>\<open>DefaultConfig\<close>.

  \<^bold>\<open>How the program works.\<close> \<^verbatim>\<open>Allocator\<close> (\<^verbatim>\<open>combined.h\<close>) serves a request from the primary
  (\<^verbatim>\<open>primary64.h\<close>) when a size class is big enough and from the secondary (\<^verbatim>\<open>secondary.h\<close>)
  otherwise, writes a checksummed header in front of the chunk (\<^verbatim>\<open>chunk.h\<close>) and tags the memory
  (\<^verbatim>\<open>memtag.h\<close>). Freed chunks may wait in a quarantine (\<^verbatim>\<open>quarantine.h\<close>). The primary keeps free
  blocks in batches, which are stored in blocks of a class of their own, and talks to threads
  through caches (\<^verbatim>\<open>size_class_allocator.h\<close>); it returns pages to the system with the page counters
  of \<^verbatim>\<open>release.h\<close>.

  \<^bold>\<open>Theories and code.\<close>
  \<^item> \<open>Prelude\<close>: types, results that may be an error (\<open>'a result\<close>, bound by \<open>bindE\<close>), words as
    natural numbers.
  \<^item> \<open>Common\<close> (\<^verbatim>\<open>common.h\<close>), \<open>SizeClassMap\<close> (\<^verbatim>\<open>size_class_map.h\<close>), \<open>VectorBuf\<close> (\<^verbatim>\<open>vector.h\<close>),
    \<open>StringUtils\<close> (\<^verbatim>\<open>string_utils.cpp\<close>), \<open>Report\<close> (\<^verbatim>\<open>report.cpp\<close>), \<open>Stats\<close> (\<^verbatim>\<open>stats.h\<close>),
    \<open>Options\<close> (\<^verbatim>\<open>options.h\<close>), \<open>IntrusiveList\<close> (\<^verbatim>\<open>list.h\<close>): the helpers.
  \<^item> \<open>Memtag\<close> (\<^verbatim>\<open>memtag.h\<close>, \<^verbatim>\<open>memtag_zimte.h\<close>) and \<open>Chunk\<close> (\<^verbatim>\<open>chunk.h\<close>, \<^verbatim>\<open>checksum.h\<close>): memory as a
    function from addresses to bytes and tags, the instructions of the extension as its whitepaper in \<^verbatim>\<open>src/references\<close>
    describes them, and the chunk header in memory.
  \<^item> \<open>Quarantine\<close>, \<open>QuarantineThreads\<close> (\<^verbatim>\<open>quarantine.h\<close>): its operations, and a step relation for
    threads that use it at once.
  \<^item> \<open>Release\<close> (\<^verbatim>\<open>release.h\<close>): page counters and which pages are released; \<open>ReleaseSafety\<close>, \<open>PageCounters\<close>,
    \<open>ReleasePages\<close>, \<open>MarkBlocks\<close> and \<open>ReleaseExact\<close> hold the proofs: a page map is an array of numbers, the
    numbers count the free blocks of a page, and the pages without another block are released; an access outside of a
    page map is recorded in it.
  \<^item> \<open>LocalCache\<close> (\<^verbatim>\<open>size_class_allocator.h\<close>), \<open>Primary64\<close>, \<open>Primary64Release\<close> (\<^verbatim>\<open>primary64.h\<close>,
    \<^verbatim>\<open>allocator_common.h\<close>): the state is the record \<open>heap\<close>, the thread's cache extended by the
    regions; functions carry the names of the code's.
  \<^item> \<open>BatchClass\<close>, \<open>PrimarySafe\<close>, \<open>PrimaryLife\<close>: the proofs about the primary.
  \<^item> \<open>Secondary\<close> (\<^verbatim>\<open>secondary.h\<close>), \<open>Combined\<close>, \<open>Allocator\<close> (\<^verbatim>\<open>combined.h\<close>): the state is the record
    \<open>scudo\<close>, with the heap, the secondary, the two quarantine caches and memory. \<open>AllocatorSafe\<close>,
    \<open>AllocatorMisuse\<close>, \<open>AllocatorLarge\<close> and \<open>SecondarySafe\<close> hold the proofs about them.
  \<^item> \<open>SizeTable\<close> (\<^verbatim>\<open>size_class_map.h\<close>): the size classes Android reads from a table.
  \<^item> \<open>FlagParser\<close> (\<^verbatim>\<open>flags_parser.cpp\<close>), \<open>Flags\<close> (\<^verbatim>\<open>flags.cpp\<close>, \<^verbatim>\<open>flags.inc\<close>): reading the flags, and the
    start of the allocator with them.
  \<^item> \<open>Tsd\<close>, \<open>TsdSafe\<close> (\<^verbatim>\<open>tsd.h\<close>, \<^verbatim>\<open>tsd_shared.h\<close>, \<^verbatim>\<open>tsd_exclusive.h\<close>): which caches a thread uses; the lock of a
    context is the thread that holds it.

  \<^item> \<open>StackDepot\<close> (\<^verbatim>\<open>stack_depot.h\<close>): stack traces by their hash. \<open>ErrorInfo\<close>, \<open>ErrorSafe\<close>
    (\<^verbatim>\<open>combined.h\<close>): the ring buffer of allocations, and the analysis of a crash from copies of the
    memory of the process that crashed; a read outside a copy, that of the regions included, is an error value.
  \<^item> \<open>Wrappers\<close>, \<open>WrappersSafe\<close> (\<^verbatim>\<open>wrappers_c.inc\<close>, \<^verbatim>\<open>wrappers_c_checks.h\<close>, \<^verbatim>\<open>wrappers_cpp.cpp\<close>): the
    entry points of C and C++; the state is the record \<open>program\<close>, the allocator with \<^verbatim>\<open>errno\<close> and what
    the hooks were told.

  \<^item> \<open>Mutex\<close> (\<^verbatim>\<open>mutex.h\<close>, \<^verbatim>\<open>linux.cpp\<close>), \<open>CondVar\<close> (\<^verbatim>\<open>condition_variable_linux.cpp\<close>): the locks, for
    any number of threads that take turns at atomic accesses and system calls; memory is sequentially
    consistent. \<open>PopCV\<close> (\<^verbatim>\<open>popBlocksWithCV\<close> in \<^verbatim>\<open>primary64.h\<close>): one thread fills a free list, others wait.
  \<^item> \<open>Primary32\<close>, \<open>Primary32Release\<close> (\<^verbatim>\<open>primary32.h\<close>, \<^verbatim>\<open>bytemap.h\<close>): the 32-bit primary, whose
    state \<open>heap32\<close> extends the thread's cache by the size classes, the byte map of regions and the stash.
    \<open>NodeStore\<close> holds what both primaries keep in blocks of the batch class; \<open>Regions32\<close>, \<open>Carving32\<close>, \<open>Primary32Batch\<close>,
    \<open>Primary32Safe\<close>, \<open>Primary32Life\<close> and \<open>Primary32Walk\<close> hold the proofs.
  \<^item> \<open>Platform\<close> (\<^verbatim>\<open>mem_map_linux.cpp\<close>, \<^verbatim>\<open>mem_map_base.h\<close>, \<^verbatim>\<open>linux.cpp\<close>): mappings, time, random bytes and
    the log over the calls of the system, a parameter; which pages are mapped is a function of its state that the calls
    change as their manual pages say.
  \<^item> \<open>StatsText\<close>, \<open>StatsSafe\<close>: the text of the statistics and of the fragmentation of every part, over the formatter
    of \<open>StringUtils\<close>. \<open>Timing\<close>, \<open>TimingSafe\<close> (\<^verbatim>\<open>timing.h\<close>): nested timers and their report. \<open>ForkLocks\<close>:
    \<^verbatim>\<open>disable\<close> and \<^verbatim>\<open>enable\<close> of every part as the sequence of the locks they take and release.

  \<^bold>\<open>What the lemmas show.\<close> The locale \<open>block_source\<close> (\<open>LocalCache\<close>) states what a cache relies on:
  popping and pushing neither lose nor duplicate a block. It is interpreted on the code's
  own functions, once for each primary and kind of class: for the batch class alone (\<open>BatchClass\<close>,
  \<open>Primary32Batch\<close>), and for all other classes (\<open>PrimarySafe\<close>, \<open>Primary32Safe\<close>), whose groups and batches live in
  blocks that \<open>custody\<close> accounts for; the locale \<open>node_store\<close> holds what the two primaries share there. From it:
  allocation hands out blocks no one else has, deallocation and draining return them. For the 32-bit primary,
  \<open>run32\<close> is the relation of the states that operations lead to, and its invariant accounts for every
  mapping. Other properties: a release gives back exactly the pages without a live block, size classes are the least that fit, headers round-trip and corruption is reported,
  list operations implement sequences, the quarantine conserves pointers (also under every
  interleaving of threads), statistics survive unlinking, option bits are independent, formatting
  terminates its string and numbers read back. The flags given in the environment become the options of
  the allocator; a thread that asks for a context of the shared registry becomes the owner of one; the
  analysis of a crash reads only what it was given, whatever that holds; and the hooks of the program
  are told what it holds after any sequence of calls (\<open>program_step\<close>, an inductive relation). Every statistic that
  is printed fits its format, the report of the timers ends and names every timer, a mapping tracks its pages, and
  \<^verbatim>\<open>disable\<close> takes the locks of the allocator but for those that \<open>untaken_locks\<close> lists, each once, with \<^verbatim>\<open>enable\<close> its
  reverse. With memory tagging, what is shown is also what goes wrong: the tags that are set (\<open>Memtag\<close>) and the
  contents that are not cleared (\<open>AllocatorSafe\<close>).

  \<^bold>\<open>Parameters and bounds.\<close> What the system decides (placement and success of mappings, time, the
  tags that \<^verbatim>\<open>gentag\<close> picks and the position of the pointer tag, hardware checksums) is an argument of the definitions. Loops are structural
  recursion or recursion with a measure; loops that may run forever in the code
  (\<^verbatim>\<open>while (PerClassArray[I].Count > 0) drain\<close> among them) are \<open>partial_function (option)\<close>, with \<open>None\<close>
  for not returning, and the properties show that they return. There is no fuel.

  \<^bold>\<open>Not modelled.\<close> Where an operation runs under a lock, it is one step (\<open>Mutex\<close> and
  \<open>QuarantineThreads\<close> show threads at a finer grain). Without a model are the platforms Fuchsia and Trusty, which the
  port does not build, the assembly for AArch64, checks that are \<^verbatim>\<open>DCHECK\<close> only and functions for tests that use them,
  the hooks of GWP-ASan, and the fuzzer, tools and tests.
\<close>

end
